(* ===== verification/Word_Prelude.thy ===== *)
theory Word_Prelude
  imports Main "HOL-Library.Word"
begin

text \<open>
  Shared vocabulary of the development: the machine-integer types of the C sources, the
  conversion of a C truth value to a word, and the lemmas that read word operations as integer
  operations (exact when nothing overflows, with \<open>div\<close> and \<open>mod\<close> for shifts and masks).
  The component theories prove their arithmetic by moving to \<open>uint\<close> with the collection
  \<open>word_to_int\<close> and finishing with linear arithmetic.
\<close>

unbundle bit_operations_syntax

type_synonym u8 = "8 word"
type_synonym u16 = "16 word"
type_synonym u32 = "32 word"
type_synonym u64 = "64 word"
type_synonym u128 = "128 word"
type_synonym bytes = "8 word list"

named_theorems word_to_int

section \<open>Truth values as words\<close>

definition b2w :: "bool \<Rightarrow> 'a::len word" where
  "b2w b = (if b then 1 else 0)"

lemma uint_b2w [simp]: "uint (b2w b) = of_bool b"
  by (simp add: b2w_def)

lemma b2w_simps [simp]: "b2w True = 1" "b2w False = 0"
  by (simp_all add: b2w_def)

lemma b2w_eq_0_iff [simp]: "b2w b = 0 \<longleftrightarrow> \<not> b"
  by (simp add: b2w_def)

section \<open>Reading word operations as integer operations\<close>

lemma uint_and_mask: "uint ((x::'a::len word) AND mask n) = uint x mod 2 ^ n"
  by (simp only: take_bit_eq_mask [symmetric] unsigned_take_bit_eq) (simp only: take_bit_eq_mod)

lemma uint_shiftr [word_to_int]: "uint (drop_bit n (x::'a::len word)) = uint x div 2 ^ n"
  by (metis bintr_uint drop_bit_eq_div order_refl unsigned_drop_bit_eq)

lemma uint_shiftl: "uint (push_bit n (x::'a::len word)) = (uint x * 2 ^ n) mod 2 ^ LENGTH('a)"
  by (simp only: unsigned_push_bit_eq) (simp only: take_bit_eq_mod push_bit_eq_mult)

lemma uint_shiftl_exact:
  "uint (push_bit n x) = uint x * 2 ^ n" if "uint x * 2 ^ n < 2 ^ LENGTH('a)"
  for x :: "'a::len word"
  using that by (simp only: uint_shiftl) simp

lemma uint_add_exact:
  "uint (a + b) = uint a + uint b" if "uint a + uint b < 2 ^ LENGTH('a)"
  for a b :: "'a::len word"
  using that by (simp add: uint_add_lem)

lemma uint_mult_exact:
  "uint (a * b) = uint a * uint b" if "uint a * uint b < 2 ^ LENGTH('a)"
  for a b :: "'a::len word"
  using that by (simp add: uint_mult_lem)

lemma uint_sub_exact:
  "uint (a - b) = uint a - uint b" if "uint b \<le> uint a" for a b :: "'a::len word"
  using that by (simp add: uint_sub_lem)

lemma int_or_disjoint:
  "a OR b = a + b" if "0 \<le> a" "a < 2 ^ k" "b mod 2 ^ k = 0" for a b :: int
proof -
  have "take_bit k a = a" using that by (simp add: take_bit_int_eq_self_iff)
  moreover have "take_bit k b = 0" using that by (simp add: take_bit_eq_mod)
  ultimately have "\<not> bit a i \<or> \<not> bit b i" for i
    by (metis bit_take_bit_iff bit_0_eq bot_apply bot_bool_def)
  then show ?thesis by (simp add: disjunctive_add)
qed

lemma uint_or_disjoint:
  "uint (a OR b) = uint a + uint b" if "uint a < 2 ^ k" "uint b mod 2 ^ k = 0"
  for a b :: "'a::len word"
  using int_or_disjoint [of "uint a" k "uint b"] that by (simp add: unsigned_or_eq)

lemma uint_not: "uint (NOT (a :: 'a::len word)) = 2 ^ LENGTH('a) - 1 - uint a"
proof -
  have "NOT a = - 1 - a" by (simp add: not_eq_complement)
  moreover have "uint (- 1 - a) = uint (- 1 :: 'a word) - uint a"
    by (rule uint_sub_exact)
      (simp add: unsigned_minus_1_eq_mask mask_eq_exp_minus_1 uint_lt2p [of a] zle_diff1_eq)
  ultimately show ?thesis
    by (simp add: unsigned_minus_1_eq_mask mask_eq_exp_minus_1)
qed

lemma u64_bounds: "0 \<le> uint (a::u64)" "uint (a::u64) < 0x10000000000000000"
  using uint_lt2p [of a] by simp_all

lemma u8_bounds: "0 \<le> uint (b::u8)" "uint (b::u8) < 256"
  using uint_lt2p [of b] by simp_all

lemma prod_bound:
  "0 \<le> a * b \<and> a * b < 2 ^ (m + n)" if "0 \<le> a" "a < 2 ^ m" "0 \<le> b" "b < 2 ^ n" for a b :: int
  using that by (simp add: mult_strict_mono power_add)

lemma div_mod_parts:
  "x = k * (x div k) + x mod k" "0 \<le> x mod k" "x mod k < k" if "0 < k" for x k :: int
  using that by simp_all

lemma mod_as_div: "x mod 2 ^ k = x - 2 ^ k * (x div 2 ^ k)" for x :: int
  by (rule minus_mult_div_eq_mod [symmetric])

lemma base_inj:
  "x = y \<and> X = Y" if "x + k * X = y + k * Y" "0 \<le> x" "x < k" "0 \<le> y" "y < k" for x y k X Y :: int
proof -
  have "x = (x + k * X) mod k" "y = (y + k * Y) mod k" using that(2-5) by simp_all
  then have "x = y" using that(1) by simp
  then show ?thesis using that by simp
qed

lemma mod_diff_mult_self: "(a - k * b) mod k = a mod k" for a b k :: int
  by (metis mod_diff_right_eq mod_mult_self1_is_0 diff_zero)

lemma div_mod_u64: "x div k mod 2 ^ 64 = x div k" if "0 \<le> x" "x < 2 ^ 64 * k" "0 < k" for x k :: int
proof (rule mod_pos_pos_trivial)
  show "0 \<le> x div k" using that by (simp add: pos_imp_zdiv_nonneg_iff)
  show "x div k < 2 ^ 64"
  proof (rule ccontr)
    assume "\<not> x div k < 2 ^ 64"
    then have "k * 2 ^ 64 \<le> k * (x div k)" using that(3) by (intro mult_left_mono) simp_all
    then have "2 ^ 64 * k \<le> x" using div_mod_parts [OF that(3), of x] by (simp only: mult.commute)
    then show False using that(2) by simp
  qed
qed

lemma shiftl_mod: "x * 2 ^ k mod 2 ^ n = x mod 2 ^ (n - k) * 2 ^ k" if "k \<le> n" for x :: int
proof -
  have "(2 :: int) ^ n = 2 ^ (n - k) * 2 ^ k" using that by (simp flip: power_add)
  then show ?thesis by (simp only: mult_mod_left)
qed

lemma div_pow_less: "x div 2 ^ k < 2 ^ (n - k)" if "x < 2 ^ n" "k \<le> n" for x :: int
proof -
  have "x < 2 ^ (n - k) * 2 ^ k" using that by (simp flip: power_add)
  moreover have "0 \<le> x mod 2 ^ k" by simp
  ultimately have "x div 2 ^ k * 2 ^ k < 2 ^ (n - k) * 2 ^ k" using div_mult_mod_eq [of x "2 ^ k"] by linarith
  then show ?thesis by simp
qed

lemma div_pow_mod: "x div 2 ^ k mod 2 ^ j = x div 2 ^ k" if "0 \<le> x" "x < 2 ^ (k + j)" for x :: int
  using that div_pow_less [of x "k + j" k] by (simp add: pos_imp_zdiv_nonneg_iff)

text \<open>Comparing two-digit numbers: the high digits decide, then the low ones.\<close>

lemma sgn_lex:
  "sgn (x + k * X - (y + k * Y)) = (if Y < X then 1 else if X < Y then - 1 else sgn (x - y))"
  if "0 \<le> x" "x < k" "0 \<le> y" "y < k" for x y k X Y :: int
proof -
  consider (gt) "Y < X" | (lt) "X < Y" | (eq) "X = Y" by linarith
  then show ?thesis
  proof cases
    case gt
    then have "k * (Y + 1) \<le> k * X" using that by (intro mult_left_mono) simp_all
    then show ?thesis using gt that by (simp add: algebra_simps)
  next
    case lt
    then have "k * (X + 1) \<le> k * Y" using that by (intro mult_left_mono) simp_all
    then show ?thesis using lt that by (simp add: algebra_simps)
  qed simp
qed

section \<open>Masks\<close>

lemma and_eq_mask_iff:
  "x AND y = mask k \<longleftrightarrow> x = mask k \<and> y = mask k"
  if "uint x < 2 ^ k" "uint y < 2 ^ k" for x y :: "'a::len word"
proof
  assume eq: "x AND y = mask k"
  have le: "w \<le> mask k" if "uint w < 2 ^ k" for w :: "'a word"
  proof -
    have "take_bit k w = w"
      using that by (simp add: word_uint_eq_iff unsigned_take_bit_eq take_bit_int_eq_self_iff)
    then have "w = w AND mask k" by (simp add: take_bit_eq_mask)
    then show ?thesis by (metis word_and_le1)
  qed
  have "mask k \<le> x" "mask k \<le> y"
    using eq word_and_le2 [of x y] word_and_le1 [of x y] by simp_all
  with le [OF that(1)] le [OF that(2)] show "x = mask k \<and> y = mask k" by simp
qed auto

lemma mask_literals:
  "(0xFFFFFFFFFFFFF :: u64) = mask 52" "(0xFFFFFFFFFFFF :: u64) = mask 48" "(0xFF :: u64) = mask 8"
  "(0xF :: u64) = mask 4" "(1 :: u64) = mask 1" "(0xF :: u8) = mask 4"
  by (simp_all add: mask_eq_exp_minus_1)

lemma uint_and_literals [word_to_int]:
  "uint (x AND 0xFFFFFFFFFFFFF) = uint x mod 2 ^ 52" "uint (x AND 0xFFFFFFFFFFFF) = uint x mod 2 ^ 48"
  "uint (x AND 0xFF) = uint x mod 2 ^ 8" "uint (x AND 0xF) = uint x mod 2 ^ 4"
  "uint (x AND 1) = uint x mod 2 ^ 1" "uint (b AND 0xF) = uint b mod 2 ^ 4" for x :: u64 and b :: u8
  by (simp_all only: mask_literals uint_and_mask)

lemma uint_xor_less: "uint (x XOR y) < 2 ^ k" if "uint x < 2 ^ k" "uint y < 2 ^ k" for x y :: "'a::len word"
  using that by (simp add: unsigned_xor_eq XOR_upper)

lemma xor_eq_iff: "x XOR c = d \<longleftrightarrow> x = d XOR c" for x c d :: "'a::len word"
  by (metis xor.assoc xor.right_neutral xor_self_eq)

lemma uint_and_less: "uint (x AND y) < k" if "uint x < k" for x y :: "'a::len word"
  using word_and_le2 [of x y] that by (simp add: word_le_def)

end
