(* ===== verification/Int128.thy ===== *)
theory Int128
  imports Word_Prelude
begin

text \<open>
  The 128-bit helpers of \<open>src/Vendor/secp256k1/src/int128_native_impl.h\<close>, the wide-integer
  layer under the field and scalar arithmetic. A \<open>secp256k1_uint128\<close> is a 128-bit word; an
  operation that updates its first argument through a pointer returns the new value.
\<close>

unbundle bit_operations_syntax

definition secp256k1_u128_load :: "u64 \<Rightarrow> u64 \<Rightarrow> u128" where
  "secp256k1_u128_load hi lo = push_bit 64 (ucast hi) + ucast lo"

definition secp256k1_u128_mul :: "u64 \<Rightarrow> u64 \<Rightarrow> u128" where
  "secp256k1_u128_mul a b = ucast a * ucast b"

definition secp256k1_u128_accum_mul :: "u128 \<Rightarrow> u64 \<Rightarrow> u64 \<Rightarrow> u128" where
  "secp256k1_u128_accum_mul r a b = r + ucast a * ucast b"

definition secp256k1_u128_accum_u64 :: "u128 \<Rightarrow> u64 \<Rightarrow> u128" where
  "secp256k1_u128_accum_u64 r a = r + ucast a"

definition secp256k1_u128_rshift :: "u128 \<Rightarrow> nat \<Rightarrow> u128" where
  "secp256k1_u128_rshift r n = drop_bit n r"

definition secp256k1_u128_to_u64 :: "u128 \<Rightarrow> u64" where
  "secp256k1_u128_to_u64 a = ucast a"

definition secp256k1_u128_hi_u64 :: "u128 \<Rightarrow> u64" where
  "secp256k1_u128_hi_u64 a = ucast (drop_bit 64 a)"

definition secp256k1_u128_from_u64 :: "u64 \<Rightarrow> u128" where
  "secp256k1_u128_from_u64 a = ucast a"

definition secp256k1_u128_check_bits :: "u128 \<Rightarrow> nat \<Rightarrow> bool" where
  "secp256k1_u128_check_bits r n \<longleftrightarrow> drop_bit n r = 0"

section \<open>Values of the helpers\<close>

lemma uint_ucast_u128 [simp]: "uint (ucast (a::u64)::u128) = uint a"
  by (simp add: uint_up_ucast is_up)

lemma uint_u128_from_u64 [simp]: "uint (secp256k1_u128_from_u64 a) = uint a"
  by (simp add: secp256k1_u128_from_u64_def)

lemma uint_ucast_prod: "uint (ucast (a::u64) * ucast (b::u64) :: u128) = uint a * uint b"
proof -
  have "uint a * uint b < 2 ^ 128"
    using prod_bound [of "uint a" 64 "uint b" 64] u64_bounds [of a] u64_bounds [of b] by simp
  then show ?thesis by (subst uint_mult_exact) simp_all
qed

lemma uint_u128_mul [simp]: "uint (secp256k1_u128_mul a b) = uint a * uint b"
  unfolding secp256k1_u128_mul_def by (rule uint_ucast_prod)

lemma uint_u128_accum_mul:
  "uint (secp256k1_u128_accum_mul r a b) = uint r + uint a * uint b"
  if "uint r + uint a * uint b < 2 ^ 128"
  unfolding secp256k1_u128_accum_mul_def using that
  by (subst uint_add_exact) (simp_all add: uint_ucast_prod)

lemma uint_u128_accum_u64:
  "uint (secp256k1_u128_accum_u64 r a) = uint r + uint a" if "uint r + uint a < 2 ^ 128"
  unfolding secp256k1_u128_accum_u64_def using that by (subst uint_add_exact) simp_all

lemma uint_u128_rshift [simp]: "uint (secp256k1_u128_rshift r n) = uint r div 2 ^ n"
  by (simp add: secp256k1_u128_rshift_def uint_shiftr)

lemma uint_u128_to_u64 [simp]: "uint (secp256k1_u128_to_u64 r) = uint r mod 2 ^ 64"
  by (simp add: secp256k1_u128_to_u64_def unsigned_ucast_eq take_bit_eq_mod)

lemma uint_u128_hi_u64 [simp]: "uint (secp256k1_u128_hi_u64 r) = uint r div 2 ^ 64"
proof -
  have "uint r div 2 ^ 64 < 2 ^ 64" "0 \<le> uint r div 2 ^ 64"
    using uint_lt2p [of r] by (simp_all add: pos_imp_zdiv_nonneg_iff)
  then have "uint r div 2 ^ 64 mod 2 ^ 64 = uint r div 2 ^ 64" by (simp only: mod_pos_pos_trivial)
  then show ?thesis
    by (simp add: secp256k1_u128_hi_u64_def unsigned_ucast_eq uint_shiftr take_bit_eq_mod)
qed

lemma u128_check_bits_iff: "secp256k1_u128_check_bits r n \<longleftrightarrow> uint r < 2 ^ n"
proof -
  have "drop_bit n r = 0 \<longleftrightarrow> uint (drop_bit n r) = 0"
    by (simp only: word_uint_eq_iff unsigned_0)
  also have "\<dots> \<longleftrightarrow> uint r div 2 ^ n = 0" by (simp only: uint_shiftr)
  also have "\<dots> \<longleftrightarrow> uint r < 2 ^ n"
    by (auto simp: zdiv_eq_0_iff dest: order_trans)
  finally show ?thesis by (simp add: secp256k1_u128_check_bits_def)
qed

lemma uint_u128_load: "uint (secp256k1_u128_load hi lo) = uint hi * 2 ^ 64 + uint lo"
proof -
  have "uint (push_bit 64 (ucast hi :: u128)) = uint hi * 2 ^ 64"
    using u64_bounds [of hi] by (subst uint_shiftl_exact) simp_all
  then show ?thesis
    unfolding secp256k1_u128_load_def using u64_bounds [of hi] u64_bounds [of lo]
    by (subst uint_add_exact) simp_all
qed

end
