(* ===== verification/Field_5x52.thy ===== *)
theory Field_5x52
  imports Int128
begin

text \<open>
  Field elements modulo \<open>p = 2^256 - 2^32 - 977\<close> in five 52-bit limbs: the structure of
  \<open>src/Vendor/secp256k1/src/field_5x52.h\<close> and every limb operation of
  \<open>field_5x52_impl.h\<close> except multiplication and squaring (theory \<open>Field_5x52_Mul\<close>).
  The C operations write through a pointer to the result; the model returns the new element.
  A C \<open>int\<close> used as a flag or returned as a truth value is a \<open>bool\<close>, since the code
  requires it to be 0 or 1. The ghost fields \<open>magnitude\<close> and \<open>normalized\<close> of the
  verification build become the predicates \<open>fe_magnitude\<close> and \<open>fe_normalized\<close>.
\<close>

unbundle bit_operations_syntax

section \<open>Data\<close>

record secp256k1_fe =
  fe_n0 :: u64
  fe_n1 :: u64
  fe_n2 :: u64
  fe_n3 :: u64
  fe_n4 :: u64

record secp256k1_fe_storage =
  st_n0 :: u64
  st_n1 :: u64
  st_n2 :: u64
  st_n3 :: u64

abbreviation mk_fe :: "u64 \<Rightarrow> u64 \<Rightarrow> u64 \<Rightarrow> u64 \<Rightarrow> u64 \<Rightarrow> secp256k1_fe" where
  "mk_fe a b c d e \<equiv> \<lparr>fe_n0 = a, fe_n1 = b, fe_n2 = c, fe_n3 = d, fe_n4 = e\<rparr>"

definition SECP256K1_FE_CONST ::
    "u32 \<Rightarrow> u32 \<Rightarrow> u32 \<Rightarrow> u32 \<Rightarrow> u32 \<Rightarrow> u32 \<Rightarrow> u32 \<Rightarrow> u32 \<Rightarrow> secp256k1_fe" where
  "SECP256K1_FE_CONST d7 d6 d5 d4 d3 d2 d1 d0 = mk_fe
     (ucast d0 OR push_bit 32 (ucast d1 AND 0xFFFFF))
     (drop_bit 20 (ucast d1) OR push_bit 12 (ucast d2) OR push_bit 44 (ucast d3 AND 0xFF))
     (drop_bit 8 (ucast d3) OR push_bit 24 (ucast d4 AND 0xFFFFFFF))
     (drop_bit 28 (ucast d4) OR push_bit 4 (ucast d5) OR push_bit 36 (ucast d6 AND 0xFFFF))
     (drop_bit 16 (ucast d6) OR push_bit 16 (ucast d7))"

definition secp256k1_fe_one :: secp256k1_fe where
  "secp256k1_fe_one = SECP256K1_FE_CONST 0 0 0 0 0 0 0 1"

definition secp256k1_const_beta :: secp256k1_fe where
  "secp256k1_const_beta = SECP256K1_FE_CONST
     0x7ae96a2b 0x657c0710 0x6e64479e 0xac3434e9 0x9cf04975 0x12f58995 0xc1396c28 0x719501ee"

section \<open>Operations\<close>

text \<open>The checks of \<open>secp256k1_fe_impl_verify\<close>, for a normalized and for any element.\<close>

definition fe_magnitude :: "nat \<Rightarrow> secp256k1_fe \<Rightarrow> bool" where
  "fe_magnitude m a \<longleftrightarrow>
     uint (fe_n0 a) \<le> 0xFFFFFFFFFFFFF * (2 * int m) \<and> uint (fe_n1 a) \<le> 0xFFFFFFFFFFFFF * (2 * int m) \<and>
     uint (fe_n2 a) \<le> 0xFFFFFFFFFFFFF * (2 * int m) \<and> uint (fe_n3 a) \<le> 0xFFFFFFFFFFFFF * (2 * int m) \<and>
     uint (fe_n4 a) \<le> 0x0FFFFFFFFFFFF * (2 * int m)"

definition fe_normalized :: "secp256k1_fe \<Rightarrow> bool" where
  "fe_normalized a \<longleftrightarrow>
     fe_n0 a \<le> 0xFFFFFFFFFFFFF \<and> fe_n1 a \<le> 0xFFFFFFFFFFFFF \<and>
     fe_n2 a \<le> 0xFFFFFFFFFFFFF \<and> fe_n3 a \<le> 0xFFFFFFFFFFFFF \<and>
     fe_n4 a \<le> 0x0FFFFFFFFFFFF \<and>
     (fe_n4 a = 0x0FFFFFFFFFFFF \<and> (fe_n3 a AND fe_n2 a AND fe_n1 a) = 0xFFFFFFFFFFFFF \<longrightarrow>
        fe_n0 a < 0xFFFFEFFFFFC2F)"

definition secp256k1_fe_get_bounds :: "int \<Rightarrow> secp256k1_fe" where
  "secp256k1_fe_get_bounds m = mk_fe
     (0xFFFFFFFFFFFFF * 2 * word_of_int m) (0xFFFFFFFFFFFFF * 2 * word_of_int m)
     (0xFFFFFFFFFFFFF * 2 * word_of_int m) (0xFFFFFFFFFFFFF * 2 * word_of_int m)
     (0x0FFFFFFFFFFFF * 2 * word_of_int m)"

definition secp256k1_fe_normalize :: "secp256k1_fe \<Rightarrow> secp256k1_fe" where
  "secp256k1_fe_normalize r =
    (let t0 = fe_n0 r; t1 = fe_n1 r; t2 = fe_n2 r; t3 = fe_n3 r; t4 = fe_n4 r;
         x = drop_bit 48 t4; t4 = t4 AND 0x0FFFFFFFFFFFF;
         t0 = t0 + x * 0x1000003D1;
         t1 = t1 + drop_bit 52 t0; t0 = t0 AND 0xFFFFFFFFFFFFF;
         t2 = t2 + drop_bit 52 t1; t1 = t1 AND 0xFFFFFFFFFFFFF; m = t1;
         t3 = t3 + drop_bit 52 t2; t2 = t2 AND 0xFFFFFFFFFFFFF; m = m AND t2;
         t4 = t4 + drop_bit 52 t3; t3 = t3 AND 0xFFFFFFFFFFFFF; m = m AND t3;
         x = drop_bit 48 t4 OR
             b2w (t4 = 0x0FFFFFFFFFFFF \<and> m = 0xFFFFFFFFFFFFF \<and> t0 \<ge> 0xFFFFEFFFFFC2F);
         t0 = t0 + x * 0x1000003D1;
         t1 = t1 + drop_bit 52 t0; t0 = t0 AND 0xFFFFFFFFFFFFF;
         t2 = t2 + drop_bit 52 t1; t1 = t1 AND 0xFFFFFFFFFFFFF;
         t3 = t3 + drop_bit 52 t2; t2 = t2 AND 0xFFFFFFFFFFFFF;
         t4 = t4 + drop_bit 52 t3; t3 = t3 AND 0xFFFFFFFFFFFFF;
         t4 = t4 AND 0x0FFFFFFFFFFFF
     in mk_fe t0 t1 t2 t3 t4)"

definition secp256k1_fe_normalize_weak :: "secp256k1_fe \<Rightarrow> secp256k1_fe" where
  "secp256k1_fe_normalize_weak r =
    (let t0 = fe_n0 r; t1 = fe_n1 r; t2 = fe_n2 r; t3 = fe_n3 r; t4 = fe_n4 r;
         x = drop_bit 48 t4; t4 = t4 AND 0x0FFFFFFFFFFFF;
         t0 = t0 + x * 0x1000003D1;
         t1 = t1 + drop_bit 52 t0; t0 = t0 AND 0xFFFFFFFFFFFFF;
         t2 = t2 + drop_bit 52 t1; t1 = t1 AND 0xFFFFFFFFFFFFF;
         t3 = t3 + drop_bit 52 t2; t2 = t2 AND 0xFFFFFFFFFFFFF;
         t4 = t4 + drop_bit 52 t3; t3 = t3 AND 0xFFFFFFFFFFFFF
     in mk_fe t0 t1 t2 t3 t4)"

definition secp256k1_fe_normalize_var :: "secp256k1_fe \<Rightarrow> secp256k1_fe" where
  "secp256k1_fe_normalize_var r =
    (let t0 = fe_n0 r; t1 = fe_n1 r; t2 = fe_n2 r; t3 = fe_n3 r; t4 = fe_n4 r;
         x = drop_bit 48 t4; t4 = t4 AND 0x0FFFFFFFFFFFF;
         t0 = t0 + x * 0x1000003D1;
         t1 = t1 + drop_bit 52 t0; t0 = t0 AND 0xFFFFFFFFFFFFF;
         t2 = t2 + drop_bit 52 t1; t1 = t1 AND 0xFFFFFFFFFFFFF; m = t1;
         t3 = t3 + drop_bit 52 t2; t2 = t2 AND 0xFFFFFFFFFFFFF; m = m AND t2;
         t4 = t4 + drop_bit 52 t3; t3 = t3 AND 0xFFFFFFFFFFFFF; m = m AND t3;
         x = drop_bit 48 t4 OR
             b2w (t4 = 0x0FFFFFFFFFFFF \<and> m = 0xFFFFFFFFFFFFF \<and> t0 \<ge> 0xFFFFEFFFFFC2F)
     in if x \<noteq> 0 then
          (let t0 = t0 + 0x1000003D1;
               t1 = t1 + drop_bit 52 t0; t0 = t0 AND 0xFFFFFFFFFFFFF;
               t2 = t2 + drop_bit 52 t1; t1 = t1 AND 0xFFFFFFFFFFFFF;
               t3 = t3 + drop_bit 52 t2; t2 = t2 AND 0xFFFFFFFFFFFFF;
               t4 = t4 + drop_bit 52 t3; t3 = t3 AND 0xFFFFFFFFFFFFF;
               t4 = t4 AND 0x0FFFFFFFFFFFF
           in mk_fe t0 t1 t2 t3 t4)
        else mk_fe t0 t1 t2 t3 t4)"

definition secp256k1_fe_normalizes_to_zero :: "secp256k1_fe \<Rightarrow> bool" where
  "secp256k1_fe_normalizes_to_zero r =
    (let t0 = fe_n0 r; t1 = fe_n1 r; t2 = fe_n2 r; t3 = fe_n3 r; t4 = fe_n4 r;
         x = drop_bit 48 t4; t4 = t4 AND 0x0FFFFFFFFFFFF;
         t0 = t0 + x * 0x1000003D1;
         t1 = t1 + drop_bit 52 t0; t0 = t0 AND 0xFFFFFFFFFFFFF; z0 = t0; z1 = t0 XOR 0x1000003D0;
         t2 = t2 + drop_bit 52 t1; t1 = t1 AND 0xFFFFFFFFFFFFF; z0 = z0 OR t1; z1 = z1 AND t1;
         t3 = t3 + drop_bit 52 t2; t2 = t2 AND 0xFFFFFFFFFFFFF; z0 = z0 OR t2; z1 = z1 AND t2;
         t4 = t4 + drop_bit 52 t3; t3 = t3 AND 0xFFFFFFFFFFFFF; z0 = z0 OR t3; z1 = z1 AND t3;
         z0 = z0 OR t4; z1 = z1 AND (t4 XOR 0xF000000000000)
     in z0 = 0 \<or> z1 = 0xFFFFFFFFFFFFF)"

definition secp256k1_fe_normalizes_to_zero_var :: "secp256k1_fe \<Rightarrow> bool" where
  "secp256k1_fe_normalizes_to_zero_var r =
    (let t0 = fe_n0 r; t4 = fe_n4 r;
         x = drop_bit 48 t4;
         t0 = t0 + x * 0x1000003D1;
         z0 = t0 AND 0xFFFFFFFFFFFFF;
         z1 = z0 XOR 0x1000003D0
     in if z0 \<noteq> 0 \<and> z1 \<noteq> 0xFFFFFFFFFFFFF then False
        else
          (let t1 = fe_n1 r; t2 = fe_n2 r; t3 = fe_n3 r;
               t4 = t4 AND 0x0FFFFFFFFFFFF;
               t1 = t1 + drop_bit 52 t0;
               t2 = t2 + drop_bit 52 t1; t1 = t1 AND 0xFFFFFFFFFFFFF; z0 = z0 OR t1; z1 = z1 AND t1;
               t3 = t3 + drop_bit 52 t2; t2 = t2 AND 0xFFFFFFFFFFFFF; z0 = z0 OR t2; z1 = z1 AND t2;
               t4 = t4 + drop_bit 52 t3; t3 = t3 AND 0xFFFFFFFFFFFFF; z0 = z0 OR t3; z1 = z1 AND t3;
               z0 = z0 OR t4; z1 = z1 AND (t4 XOR 0xF000000000000)
           in z0 = 0 \<or> z1 = 0xFFFFFFFFFFFFF))"

definition secp256k1_fe_set_int :: "int \<Rightarrow> secp256k1_fe" where
  "secp256k1_fe_set_int a = mk_fe (word_of_int a) 0 0 0 0"

definition secp256k1_fe_is_zero :: "secp256k1_fe \<Rightarrow> bool" where
  "secp256k1_fe_is_zero a \<longleftrightarrow>
     (fe_n0 a OR fe_n1 a OR fe_n2 a OR fe_n3 a OR fe_n4 a) = 0"

definition secp256k1_fe_is_odd :: "secp256k1_fe \<Rightarrow> bool" where
  "secp256k1_fe_is_odd a \<longleftrightarrow> fe_n0 a AND 1 \<noteq> 0"

fun cmp_limbs :: "(u64 \<times> u64) list \<Rightarrow> int" where
  "cmp_limbs [] = 0"
| "cmp_limbs ((a, b) # rest) = (if a > b then 1 else if a < b then -1 else cmp_limbs rest)"

definition secp256k1_fe_cmp_var :: "secp256k1_fe \<Rightarrow> secp256k1_fe \<Rightarrow> int" where
  "secp256k1_fe_cmp_var a b = cmp_limbs
     [(fe_n4 a, fe_n4 b), (fe_n3 a, fe_n3 b), (fe_n2 a, fe_n2 b), (fe_n1 a, fe_n1 b), (fe_n0 a, fe_n0 b)]"

definition secp256k1_fe_set_b32_mod :: "bytes \<Rightarrow> secp256k1_fe" where
  "secp256k1_fe_set_b32_mod a = mk_fe
     (ucast (a ! 31) OR push_bit 8 (ucast (a ! 30)) OR push_bit 16 (ucast (a ! 29)) OR
      push_bit 24 (ucast (a ! 28)) OR push_bit 32 (ucast (a ! 27)) OR push_bit 40 (ucast (a ! 26)) OR
      push_bit 48 (ucast (a ! 25 AND 0xF)))
     (ucast (drop_bit 4 (a ! 25) AND 0xF) OR push_bit 4 (ucast (a ! 24)) OR push_bit 12 (ucast (a ! 23)) OR
      push_bit 20 (ucast (a ! 22)) OR push_bit 28 (ucast (a ! 21)) OR push_bit 36 (ucast (a ! 20)) OR
      push_bit 44 (ucast (a ! 19)))
     (ucast (a ! 18) OR push_bit 8 (ucast (a ! 17)) OR push_bit 16 (ucast (a ! 16)) OR
      push_bit 24 (ucast (a ! 15)) OR push_bit 32 (ucast (a ! 14)) OR push_bit 40 (ucast (a ! 13)) OR
      push_bit 48 (ucast (a ! 12 AND 0xF)))
     (ucast (drop_bit 4 (a ! 12) AND 0xF) OR push_bit 4 (ucast (a ! 11)) OR push_bit 12 (ucast (a ! 10)) OR
      push_bit 20 (ucast (a ! 9)) OR push_bit 28 (ucast (a ! 8)) OR push_bit 36 (ucast (a ! 7)) OR
      push_bit 44 (ucast (a ! 6)))
     (ucast (a ! 5) OR push_bit 8 (ucast (a ! 4)) OR push_bit 16 (ucast (a ! 3)) OR
      push_bit 24 (ucast (a ! 2)) OR push_bit 32 (ucast (a ! 1)) OR push_bit 40 (ucast (a ! 0)))"

definition secp256k1_fe_set_b32_limit :: "bytes \<Rightarrow> secp256k1_fe \<times> bool" where
  "secp256k1_fe_set_b32_limit a =
    (let r = secp256k1_fe_set_b32_mod a
     in (r, \<not> (fe_n4 r = 0x0FFFFFFFFFFFF \<and>
               (fe_n3 r AND fe_n2 r AND fe_n1 r) = 0xFFFFFFFFFFFFF \<and>
               fe_n0 r \<ge> 0xFFFFEFFFFFC2F)))"

definition secp256k1_fe_get_b32 :: "secp256k1_fe \<Rightarrow> bytes" where
  "secp256k1_fe_get_b32 a =
    [ucast (drop_bit 40 (fe_n4 a) AND 0xFF), ucast (drop_bit 32 (fe_n4 a) AND 0xFF),
     ucast (drop_bit 24 (fe_n4 a) AND 0xFF), ucast (drop_bit 16 (fe_n4 a) AND 0xFF),
     ucast (drop_bit 8 (fe_n4 a) AND 0xFF), ucast (fe_n4 a AND 0xFF),
     ucast (drop_bit 44 (fe_n3 a) AND 0xFF), ucast (drop_bit 36 (fe_n3 a) AND 0xFF),
     ucast (drop_bit 28 (fe_n3 a) AND 0xFF), ucast (drop_bit 20 (fe_n3 a) AND 0xFF),
     ucast (drop_bit 12 (fe_n3 a) AND 0xFF), ucast (drop_bit 4 (fe_n3 a) AND 0xFF),
     ucast ((drop_bit 48 (fe_n2 a) AND 0xF) OR push_bit 4 (fe_n3 a AND 0xF)),
     ucast (drop_bit 40 (fe_n2 a) AND 0xFF), ucast (drop_bit 32 (fe_n2 a) AND 0xFF),
     ucast (drop_bit 24 (fe_n2 a) AND 0xFF), ucast (drop_bit 16 (fe_n2 a) AND 0xFF),
     ucast (drop_bit 8 (fe_n2 a) AND 0xFF), ucast (fe_n2 a AND 0xFF),
     ucast (drop_bit 44 (fe_n1 a) AND 0xFF), ucast (drop_bit 36 (fe_n1 a) AND 0xFF),
     ucast (drop_bit 28 (fe_n1 a) AND 0xFF), ucast (drop_bit 20 (fe_n1 a) AND 0xFF),
     ucast (drop_bit 12 (fe_n1 a) AND 0xFF), ucast (drop_bit 4 (fe_n1 a) AND 0xFF),
     ucast ((drop_bit 48 (fe_n0 a) AND 0xF) OR push_bit 4 (fe_n1 a AND 0xF)),
     ucast (drop_bit 40 (fe_n0 a) AND 0xFF), ucast (drop_bit 32 (fe_n0 a) AND 0xFF),
     ucast (drop_bit 24 (fe_n0 a) AND 0xFF), ucast (drop_bit 16 (fe_n0 a) AND 0xFF),
     ucast (drop_bit 8 (fe_n0 a) AND 0xFF), ucast (fe_n0 a AND 0xFF)]"

definition secp256k1_fe_negate :: "secp256k1_fe \<Rightarrow> int \<Rightarrow> secp256k1_fe" where
  "secp256k1_fe_negate a m = mk_fe
     (0xFFFFEFFFFFC2F * 2 * word_of_int (m + 1) - fe_n0 a)
     (0xFFFFFFFFFFFFF * 2 * word_of_int (m + 1) - fe_n1 a)
     (0xFFFFFFFFFFFFF * 2 * word_of_int (m + 1) - fe_n2 a)
     (0xFFFFFFFFFFFFF * 2 * word_of_int (m + 1) - fe_n3 a)
     (0x0FFFFFFFFFFFF * 2 * word_of_int (m + 1) - fe_n4 a)"

definition secp256k1_fe_mul_int :: "secp256k1_fe \<Rightarrow> int \<Rightarrow> secp256k1_fe" where
  "secp256k1_fe_mul_int r a = mk_fe
     (fe_n0 r * word_of_int a) (fe_n1 r * word_of_int a) (fe_n2 r * word_of_int a)
     (fe_n3 r * word_of_int a) (fe_n4 r * word_of_int a)"

definition secp256k1_fe_add_int :: "secp256k1_fe \<Rightarrow> int \<Rightarrow> secp256k1_fe" where
  "secp256k1_fe_add_int r a = r\<lparr>fe_n0 := fe_n0 r + word_of_int a\<rparr>"

definition secp256k1_fe_add :: "secp256k1_fe \<Rightarrow> secp256k1_fe \<Rightarrow> secp256k1_fe" where
  "secp256k1_fe_add r a = mk_fe
     (fe_n0 r + fe_n0 a) (fe_n1 r + fe_n1 a) (fe_n2 r + fe_n2 a) (fe_n3 r + fe_n3 a) (fe_n4 r + fe_n4 a)"

definition secp256k1_fe_cmov :: "secp256k1_fe \<Rightarrow> secp256k1_fe \<Rightarrow> bool \<Rightarrow> secp256k1_fe" where
  "secp256k1_fe_cmov r a flag =
    (let mask0 = b2w flag + NOT 0; mask1 = NOT mask0
     in mk_fe ((fe_n0 r AND mask0) OR (fe_n0 a AND mask1)) ((fe_n1 r AND mask0) OR (fe_n1 a AND mask1))
              ((fe_n2 r AND mask0) OR (fe_n2 a AND mask1)) ((fe_n3 r AND mask0) OR (fe_n3 a AND mask1))
              ((fe_n4 r AND mask0) OR (fe_n4 a AND mask1)))"

definition secp256k1_fe_half :: "secp256k1_fe \<Rightarrow> secp256k1_fe" where
  "secp256k1_fe_half r =
    (let t0 = fe_n0 r; t1 = fe_n1 r; t2 = fe_n2 r; t3 = fe_n3 r; t4 = fe_n4 r;
         one = 1; mask = drop_bit 12 (- (t0 AND one));
         t0 = t0 + (0xFFFFEFFFFFC2F AND mask);
         t1 = t1 + mask; t2 = t2 + mask; t3 = t3 + mask; t4 = t4 + drop_bit 4 mask
     in mk_fe (drop_bit 1 t0 + push_bit 51 (t1 AND one)) (drop_bit 1 t1 + push_bit 51 (t2 AND one))
              (drop_bit 1 t2 + push_bit 51 (t3 AND one)) (drop_bit 1 t3 + push_bit 51 (t4 AND one))
              (drop_bit 1 t4))"

definition secp256k1_fe_storage_cmov ::
    "secp256k1_fe_storage \<Rightarrow> secp256k1_fe_storage \<Rightarrow> bool \<Rightarrow> secp256k1_fe_storage" where
  "secp256k1_fe_storage_cmov r a flag =
    (let mask0 = b2w flag + NOT 0; mask1 = NOT mask0
     in \<lparr>st_n0 = (st_n0 r AND mask0) OR (st_n0 a AND mask1),
         st_n1 = (st_n1 r AND mask0) OR (st_n1 a AND mask1),
         st_n2 = (st_n2 r AND mask0) OR (st_n2 a AND mask1),
         st_n3 = (st_n3 r AND mask0) OR (st_n3 a AND mask1)\<rparr>)"

definition secp256k1_fe_to_storage :: "secp256k1_fe \<Rightarrow> secp256k1_fe_storage" where
  "secp256k1_fe_to_storage a =
     \<lparr>st_n0 = fe_n0 a OR push_bit 52 (fe_n1 a),
      st_n1 = drop_bit 12 (fe_n1 a) OR push_bit 40 (fe_n2 a),
      st_n2 = drop_bit 24 (fe_n2 a) OR push_bit 28 (fe_n3 a),
      st_n3 = drop_bit 36 (fe_n3 a) OR push_bit 16 (fe_n4 a)\<rparr>"

definition secp256k1_fe_from_storage :: "secp256k1_fe_storage \<Rightarrow> secp256k1_fe" where
  "secp256k1_fe_from_storage a = mk_fe
     (st_n0 a AND 0xFFFFFFFFFFFFF)
     (drop_bit 52 (st_n0 a) OR (push_bit 12 (st_n1 a) AND 0xFFFFFFFFFFFFF))
     (drop_bit 40 (st_n1 a) OR (push_bit 24 (st_n2 a) AND 0xFFFFFFFFFFFFF))
     (drop_bit 28 (st_n2 a) OR (push_bit 36 (st_n3 a) AND 0xFFFFFFFFFFFFF))
     (drop_bit 16 (st_n3 a))"

section \<open>The integer an element stands for\<close>

definition secp256k1_p :: int where
  "secp256k1_p = 0xFFFFFFFFFFFFFFFFFFFFFFFFFFFFFFFFFFFFFFFFFFFFFFFFFFFFFFFEFFFFFC2F"

definition fe_val :: "secp256k1_fe \<Rightarrow> int" where
  "fe_val a = uint (fe_n0 a) + 2 ^ 52 * uint (fe_n1 a) + 2 ^ 104 * uint (fe_n2 a)
     + 2 ^ 156 * uint (fe_n3 a) + 2 ^ 208 * uint (fe_n4 a)"

definition st_val :: "secp256k1_fe_storage \<Rightarrow> int" where
  "st_val a = uint (st_n0 a) + 2 ^ 64 * uint (st_n1 a) + 2 ^ 128 * uint (st_n2 a)
     + 2 ^ 192 * uint (st_n3 a)"

text \<open>
  \<open>fe_rep m a v\<close>: the element \<open>a\<close> has magnitude at most \<open>m\<close> and stands for the residue
  class of \<open>v\<close>. The correctness of every operation is a rule of this relation, and code that
  calls the field (the group formulas, the square root) is verified by composing those rules.
\<close>

definition fe_rep :: "nat \<Rightarrow> secp256k1_fe \<Rightarrow> int \<Rightarrow> bool" where
  "fe_rep m a v \<longleftrightarrow> fe_magnitude m a \<and> fe_val a mod secp256k1_p = v mod secp256k1_p"

lemma fe_eta: "mk_fe (fe_n0 a) (fe_n1 a) (fe_n2 a) (fe_n3 a) (fe_n4 a) = (a :: secp256k1_fe)"
  by simp

lemma fe_magnitude_mono: "fe_magnitude m a \<Longrightarrow> m \<le> k \<Longrightarrow> fe_magnitude k a"
  unfolding fe_magnitude_def by (elim conjE, intro conjI; erule order_trans) simp_all

lemma fe_rep_mono: "fe_rep m a v \<Longrightarrow> m \<le> k \<Longrightarrow> fe_rep k a v"
  by (auto simp: fe_rep_def intro: fe_magnitude_mono)

end
