(* ===== verification/Field_5x52_Norm.thy ===== *)
theory Field_5x52_Norm
  imports Field_5x52
begin

text \<open>
  Normalization of field elements: the carry pass shared by the four normalizing routines of
  \<open>src/Vendor/secp256k1/src/field_5x52_impl.h\<close> is analysed once (\<open>fe_pass\<close>), and from it
  follow the value and the canonical form of each routine, and that the two zero tests decide
  divisibility by \<open>p\<close>.
\<close>

unbundle bit_operations_syntax

section \<open>The carry pass\<close>

definition fe_pass :: "u64 \<Rightarrow> u64 \<Rightarrow> u64 \<Rightarrow> u64 \<Rightarrow> u64 \<Rightarrow> secp256k1_fe" where
  "fe_pass t0 t1 t2 t3 t4 =
    (let t1 = t1 + drop_bit 52 t0; t0 = t0 AND 0xFFFFFFFFFFFFF;
         t2 = t2 + drop_bit 52 t1; t1 = t1 AND 0xFFFFFFFFFFFFF;
         t3 = t3 + drop_bit 52 t2; t2 = t2 AND 0xFFFFFFFFFFFFF;
         t4 = t4 + drop_bit 52 t3; t3 = t3 AND 0xFFFFFFFFFFFFF
     in mk_fe t0 t1 t2 t3 t4)"

definition fe_weak :: "secp256k1_fe \<Rightarrow> secp256k1_fe" where
  "fe_weak r = fe_pass (fe_n0 r + drop_bit 48 (fe_n4 r) * 0x1000003D1) (fe_n1 r) (fe_n2 r) (fe_n3 r)
     (fe_n4 r AND 0xFFFFFFFFFFFF)"

definition fe_needs_sub :: "secp256k1_fe \<Rightarrow> u64" where
  "fe_needs_sub s = drop_bit 48 (fe_n4 s) OR b2w (fe_n4 s = 0xFFFFFFFFFFFF \<and>
     (fe_n1 s AND fe_n2 s AND fe_n3 s) = 0xFFFFFFFFFFFFF \<and> fe_n0 s \<ge> 0xFFFFEFFFFFC2F)"

definition fe_final :: "u64 \<Rightarrow> secp256k1_fe \<Rightarrow> secp256k1_fe" where
  "fe_final x s = (let q = fe_pass (fe_n0 s + x * 0x1000003D1) (fe_n1 s) (fe_n2 s) (fe_n3 s) (fe_n4 s)
     in q\<lparr>fe_n4 := fe_n4 q AND 0xFFFFFFFFFFFF\<rparr>)"

lemma normalize_weak_unfold: "secp256k1_fe_normalize_weak r = fe_weak r"
  by (simp add: secp256k1_fe_normalize_weak_def fe_weak_def fe_pass_def Let_def)

lemma normalize_unfold: "secp256k1_fe_normalize r = fe_final (fe_needs_sub (fe_weak r)) (fe_weak r)"
  unfolding secp256k1_fe_normalize_def fe_final_def fe_needs_sub_def fe_weak_def fe_pass_def Let_def
  by (simp add: and.assoc)

lemma normalize_var_unfold:
  "secp256k1_fe_normalize_var r =
     (if fe_needs_sub (fe_weak r) \<noteq> 0 then fe_final 1 (fe_weak r) else fe_weak r)"
  unfolding secp256k1_fe_normalize_var_def fe_final_def fe_needs_sub_def fe_weak_def fe_pass_def Let_def
  by (simp add: and.assoc)

lemma fe_pass_correct:
  assumes "uint t0 < 2 ^ 63" "uint t1 < 2 ^ 63" "uint t2 < 2 ^ 63" "uint t3 < 2 ^ 63" "uint t4 < 2 ^ 63"
  shows "fe_val (fe_pass t0 t1 t2 t3 t4) = fe_val (mk_fe t0 t1 t2 t3 t4)"
    and "uint (fe_n0 (fe_pass t0 t1 t2 t3 t4)) < 2 ^ 52" "uint (fe_n1 (fe_pass t0 t1 t2 t3 t4)) < 2 ^ 52"
      "uint (fe_n2 (fe_pass t0 t1 t2 t3 t4)) < 2 ^ 52" "uint (fe_n3 (fe_pass t0 t1 t2 t3 t4)) < 2 ^ 52"
proof -
  define u1 where "u1 = t1 + drop_bit 52 t0"
  define u2 where "u2 = t2 + drop_bit 52 u1"
  define u3 where "u3 = t3 + drop_bit 52 u2"
  define u4 where "u4 = t4 + drop_bit 52 u3"
  have carry: "uint (a + drop_bit 52 b) = uint a + uint b div 2 ^ 52"
    if "uint a < 2 ^ 63" for a b :: u64
    using that u64_bounds [of b] by (subst uint_add_exact) (simp_all add: uint_shiftr)
  have u: "uint u1 = uint t1 + uint t0 div 2 ^ 52" "uint u2 = uint t2 + uint u1 div 2 ^ 52"
    "uint u3 = uint t3 + uint u2 div 2 ^ 52" "uint u4 = uint t4 + uint u3 div 2 ^ 52"
    unfolding u1_def u2_def u3_def u4_def using assms by (simp_all only: carry)
  have eq: "fe_pass t0 t1 t2 t3 t4 = mk_fe (t0 AND 0xFFFFFFFFFFFFF) (u1 AND 0xFFFFFFFFFFFFF)
      (u2 AND 0xFFFFFFFFFFFFF) (u3 AND 0xFFFFFFFFFFFFF) u4"
    unfolding fe_pass_def u1_def u2_def u3_def u4_def Let_def by (rule refl)
  show "fe_val (fe_pass t0 t1 t2 t3 t4) = fe_val (mk_fe t0 t1 t2 t3 t4)"
    unfolding eq fe_val_def by (simp add: uint_and_literals mod_as_div [where k = 52, simplified] u [simplified])
  show "uint (fe_n0 (fe_pass t0 t1 t2 t3 t4)) < 2 ^ 52" "uint (fe_n1 (fe_pass t0 t1 t2 t3 t4)) < 2 ^ 52"
      "uint (fe_n2 (fe_pass t0 t1 t2 t3 t4)) < 2 ^ 52" "uint (fe_n3 (fe_pass t0 t1 t2 t3 t4)) < 2 ^ 52"
    unfolding eq by (simp_all add: uint_and_literals)
qed

section \<open>Weak normalization\<close>

lemma fe_magnitude_32_bounds:
  "uint (fe_n0 a) < 2 ^ 58" "uint (fe_n1 a) < 2 ^ 58" "uint (fe_n2 a) < 2 ^ 58"
  "uint (fe_n3 a) < 2 ^ 58" "uint (fe_n4 a) < 2 ^ 54" if "fe_magnitude 32 a"
  using that by (auto simp: fe_magnitude_def)

lemma fe_weak_correct:
  assumes r: "fe_magnitude 32 r"
  shows "fe_val (fe_weak r) = fe_val r - secp256k1_p * (uint (fe_n4 r) div 2 ^ 48)"
    and "uint (fe_n0 (fe_weak r)) < 2 ^ 52" "uint (fe_n1 (fe_weak r)) < 2 ^ 52"
      "uint (fe_n2 (fe_weak r)) < 2 ^ 52" "uint (fe_n3 (fe_weak r)) < 2 ^ 52"
    and "fe_val (fe_weak r) < 2 ^ 256 + 2 ^ 215"
proof -
  note B = fe_magnitude_32_bounds [OF r]
  define t0 where "t0 = fe_n0 r + drop_bit 48 (fe_n4 r) * 0x1000003D1"
  have "uint (drop_bit 48 (fe_n4 r) * 0x1000003D1) = uint (fe_n4 r) div 2 ^ 48 * 0x1000003D1"
    using B(5) by (subst uint_mult_exact) (simp_all add: uint_shiftr)
  then have t0: "uint t0 = uint (fe_n0 r) + uint (fe_n4 r) div 2 ^ 48 * 0x1000003D1"
    unfolding t0_def using B(1,5) by (subst uint_add_exact) simp_all
  have t0_lt: "uint t0 < 2 ^ 59" using t0 B(1,5) by simp
  have m: "uint (fe_n4 r AND 0xFFFFFFFFFFFF) = uint (fe_n4 r) mod 2 ^ 48"
    by (simp only: uint_and_literals)
  have lt: "uint t0 < 2 ^ 63" "uint (fe_n1 r) < 2 ^ 63" "uint (fe_n2 r) < 2 ^ 63" "uint (fe_n3 r) < 2 ^ 63"
    "uint (fe_n4 r AND 0xFFFFFFFFFFFF) < 2 ^ 63"
    using t0_lt B m by simp_all
  have w: "fe_weak r = fe_pass t0 (fe_n1 r) (fe_n2 r) (fe_n3 r) (fe_n4 r AND 0xFFFFFFFFFFFF)"
    by (simp add: fe_weak_def t0_def)
  note P = fe_pass_correct [OF lt, folded w]
  have v: "fe_val (fe_weak r) = uint t0 + 2 ^ 52 * uint (fe_n1 r) + 2 ^ 104 * uint (fe_n2 r)
      + 2 ^ 156 * uint (fe_n3 r) + 2 ^ 208 * (uint (fe_n4 r) mod 2 ^ 48)"
    unfolding P(1) by (simp add: fe_val_def uint_and_literals)
  show "fe_val (fe_weak r) = fe_val r - secp256k1_p * (uint (fe_n4 r) div 2 ^ 48)"
    unfolding v unfolding t0 fe_val_def secp256k1_p_def mod_as_div by simp
  show "fe_val (fe_weak r) < 2 ^ 256 + 2 ^ 215"
    using t0_lt B div_mod_parts(3) [of "2 ^ 48" "uint (fe_n4 r)"] unfolding v by simp
  show "uint (fe_n0 (fe_weak r)) < 2 ^ 52" "uint (fe_n1 (fe_weak r)) < 2 ^ 52"
      "uint (fe_n2 (fe_weak r)) < 2 ^ 52" "uint (fe_n3 (fe_weak r)) < 2 ^ 52"
    by (rule P)+
qed

lemma fe_val_ge_0 [simp]: "0 \<le> fe_val a"
  by (simp add: fe_val_def)

lemma fe_n4_le_val: "2 ^ 208 * uint (fe_n4 a) \<le> fe_val a"
  by (simp add: fe_val_def)

lemma fe_rep_normalize_weak:
  assumes "fe_rep m a v" "m \<le> 32"
  shows "fe_rep 1 (secp256k1_fe_normalize_weak a) v"
proof -
  have mag: "fe_magnitude 32 a" using assms by (auto simp: fe_rep_def intro: fe_magnitude_mono)
  note W = fe_weak_correct [OF mag]
  have "fe_val (fe_weak a) mod secp256k1_p = v mod secp256k1_p"
    using assms(1) unfolding W(1) mod_diff_mult_self by (simp add: fe_rep_def)
  moreover have "fe_magnitude 1 (fe_weak a)"
    unfolding fe_magnitude_def using W(2-6) fe_n4_le_val [of "fe_weak a"] by (intro conjI) simp_all
  ultimately show ?thesis by (simp add: fe_rep_def normalize_weak_unfold)
qed

section \<open>Full normalization\<close>

lemma fe_needs_sub_iff:
  assumes "uint (fe_n0 s) < 2 ^ 52" "uint (fe_n1 s) < 2 ^ 52" "uint (fe_n2 s) < 2 ^ 52"
    "uint (fe_n3 s) < 2 ^ 52" "fe_val s < 2 ^ 256 + 2 ^ 215"
  shows "fe_needs_sub s = b2w (secp256k1_p \<le> fe_val s)"
proof -
  have lit: "(x :: u64) = 0xFFFFFFFFFFFFF \<longleftrightarrow> uint x = 0xFFFFFFFFFFFFF"
    "(x :: u64) = 0xFFFFFFFFFFFF \<longleftrightarrow> uint x = 0xFFFFFFFFFFFF"
    "(0xFFFFEFFFFFC2F :: u64) \<le> x \<longleftrightarrow> 0xFFFFEFFFFFC2F \<le> uint x" for x
    by (simp_all add: word_uint_eq_iff word_le_def)
  have m: "(fe_n1 s AND fe_n2 s AND fe_n3 s) = 0xFFFFFFFFFFFFF \<longleftrightarrow>
      uint (fe_n1 s) = 0xFFFFFFFFFFFFF \<and> uint (fe_n2 s) = 0xFFFFFFFFFFFFF \<and> uint (fe_n3 s) = 0xFFFFFFFFFFFFF"
    using assms(2-4) by (simp only: mask_literals and_eq_mask_iff uint_and_less) (simp only: mask_literals [symmetric] lit)
  have n4: "uint (fe_n4 s) < 2 ^ 49" using assms(5) fe_n4_le_val [of s] by simp
  show ?thesis
  proof (cases "uint (fe_n4 s) < 2 ^ 48")
    case True
    then have "uint (drop_bit 48 (fe_n4 s)) = 0" by (simp add: uint_shiftr)
    then have "drop_bit 48 (fe_n4 s) = 0" by (simp only: word_uint_eq_iff unsigned_0)
    moreover have "secp256k1_p \<le> fe_val s \<longleftrightarrow> uint (fe_n4 s) = 0xFFFFFFFFFFFF \<and> (uint (fe_n1 s) = 0xFFFFFFFFFFFFF \<and>
       uint (fe_n2 s) = 0xFFFFFFFFFFFFF \<and> uint (fe_n3 s) = 0xFFFFFFFFFFFFF) \<and> 0xFFFFEFFFFFC2F \<le> uint (fe_n0 s)"
      using assms(1-4) True unfolding fe_val_def secp256k1_p_def by simp arith
    ultimately show ?thesis by (simp only: fe_needs_sub_def m or.left_neutral) (simp only: lit)
  next
    case False
    then have "uint (fe_n4 s) div 2 ^ 48 = 1" using n4 by simp
    then have "drop_bit 48 (fe_n4 s) = 1" by (simp add: word_uint_eq_iff uint_shiftr)
    moreover have "secp256k1_p \<le> fe_val s" "uint (fe_n4 s) \<noteq> 0xFFFFFFFFFFFF"
      using False fe_n4_le_val [of s] by (simp_all add: secp256k1_p_def)
    ultimately show ?thesis by (simp add: fe_needs_sub_def lit)
  qed
qed

lemma fe_normalized_iff:
  "fe_normalized a \<longleftrightarrow> uint (fe_n0 a) < 2 ^ 52 \<and> uint (fe_n1 a) < 2 ^ 52 \<and> uint (fe_n2 a) < 2 ^ 52 \<and>
     uint (fe_n3 a) < 2 ^ 52 \<and> uint (fe_n4 a) < 2 ^ 48 \<and> fe_val a < secp256k1_p" (is "?l \<longleftrightarrow> ?r")
proof -
  define lims where "lims \<longleftrightarrow> uint (fe_n0 a) < 2 ^ 52 \<and> uint (fe_n1 a) < 2 ^ 52 \<and> uint (fe_n2 a) < 2 ^ 52 \<and>
     uint (fe_n3 a) < 2 ^ 52 \<and> uint (fe_n4 a) < 2 ^ 48"
  have le: "(x :: u64) \<le> 0xFFFFFFFFFFFFF \<longleftrightarrow> uint x < 2 ^ 52" "(x :: u64) \<le> 0xFFFFFFFFFFFF \<longleftrightarrow> uint x < 2 ^ 48" for x
    by (auto simp: word_le_def)
  have "fe_needs_sub a = b2w (secp256k1_p \<le> fe_val a)" if lims
  proof (rule fe_needs_sub_iff)
    show "fe_val a < 2 ^ 256 + 2 ^ 215" using that unfolding lims_def fe_val_def by simp
  qed (use that in \<open>simp_all add: lims_def\<close>)
  moreover have "drop_bit 48 (fe_n4 a) = 0" if lims
    using that by (simp add: lims_def word_uint_eq_iff uint_shiftr)
  ultimately have "lims \<Longrightarrow> (fe_n4 a = 0xFFFFFFFFFFFF \<and> (fe_n3 a AND fe_n2 a AND fe_n1 a) = 0xFFFFFFFFFFFFF \<and>
      0xFFFFEFFFFFC2F \<le> fe_n0 a) \<longleftrightarrow> secp256k1_p \<le> fe_val a"
    by (simp add: fe_needs_sub_def b2w_def ac_simps split: if_splits)
  moreover have "fe_normalized a \<longleftrightarrow> lims \<and> \<not> (fe_n4 a = 0xFFFFFFFFFFFF \<and>
      (fe_n3 a AND fe_n2 a AND fe_n1 a) = 0xFFFFFFFFFFFFF \<and> 0xFFFFEFFFFFC2F \<le> fe_n0 a)"
    by (auto simp: fe_normalized_def lims_def le not_le)
  ultimately have "fe_normalized a \<longleftrightarrow> lims \<and> \<not> secp256k1_p \<le> fe_val a" by blast
  then show ?thesis unfolding lims_def by auto
qed

lemma fe_val_inj:
  assumes "fe_val a = fe_val b"
    and "uint (fe_n0 a) < 2 ^ 52" "uint (fe_n1 a) < 2 ^ 52" "uint (fe_n2 a) < 2 ^ 52" "uint (fe_n3 a) < 2 ^ 52"
    and "uint (fe_n0 b) < 2 ^ 52" "uint (fe_n1 b) < 2 ^ 52" "uint (fe_n2 b) < 2 ^ 52" "uint (fe_n3 b) < 2 ^ 52"
  shows "a = b"
proof -
  let ?h3 = "\<lambda>c. uint (fe_n3 c) + 2 ^ 52 * uint (fe_n4 c)"
  let ?h2 = "\<lambda>c. uint (fe_n2 c) + 2 ^ 52 * ?h3 c"
  let ?h1 = "\<lambda>c. uint (fe_n1 c) + 2 ^ 52 * ?h2 c"
  have horner: "fe_val c = uint (fe_n0 c) + 2 ^ 52 * ?h1 c" for c
    by (simp add: fe_val_def)
  have e0: "uint (fe_n0 a) = uint (fe_n0 b) \<and> ?h1 a = ?h1 b"
    using assms by (intro base_inj [where k = "2 ^ 52"]) (simp_all only: horner [symmetric] uint_ge_0)
  then have e1: "uint (fe_n1 a) = uint (fe_n1 b) \<and> ?h2 a = ?h2 b"
    using assms by (intro base_inj [where k = "2 ^ 52"]) (simp_all only: uint_ge_0)
  then have e2: "uint (fe_n2 a) = uint (fe_n2 b) \<and> ?h3 a = ?h3 b"
    using assms by (intro base_inj [where k = "2 ^ 52"]) (simp_all only: uint_ge_0)
  then have "uint (fe_n3 a) = uint (fe_n3 b) \<and> uint (fe_n4 a) = uint (fe_n4 b)"
    using assms by (intro base_inj [where k = "2 ^ 52"]) (simp_all only: uint_ge_0)
  with e0 e1 e2 show ?thesis by (simp add: word_uint_eq_iff)
qed

lemma fe_normalized_inj: "fe_normalized a \<Longrightarrow> fe_normalized b \<Longrightarrow> fe_val a = fe_val b \<Longrightarrow> a = b"
  by (intro fe_val_inj) (simp_all add: fe_normalized_iff)

lemma fe_final_correct:
  assumes "uint (fe_n0 s) < 2 ^ 52" "uint (fe_n1 s) < 2 ^ 52" "uint (fe_n2 s) < 2 ^ 52"
    "uint (fe_n3 s) < 2 ^ 52" "uint (fe_n4 s) < 2 ^ 49"
    and v: "0 \<le> fe_val s - of_bool b * secp256k1_p" "fe_val s - of_bool b * secp256k1_p < secp256k1_p"
  shows "fe_val (fe_final (b2w b) s) = fe_val s - of_bool b * secp256k1_p"
    and "fe_normalized (fe_final (b2w b) s)"
proof -
  define q where "q = fe_pass (fe_n0 s + b2w b * 0x1000003D1) (fe_n1 s) (fe_n2 s) (fe_n3 s) (fe_n4 s)"
  have t0: "uint (fe_n0 s + b2w b * 0x1000003D1) = uint (fe_n0 s) + of_bool b * 0x1000003D1"
    using assms(1) by (cases b) (simp_all add: uint_add_exact)
  have lt: "uint (fe_n0 s + b2w b * 0x1000003D1) < 2 ^ 63" "uint (fe_n1 s) < 2 ^ 63" "uint (fe_n2 s) < 2 ^ 63"
    "uint (fe_n3 s) < 2 ^ 63" "uint (fe_n4 s) < 2 ^ 63"
    using assms(1-5) t0 by (simp_all add: of_bool_def)
  note P = fe_pass_correct [OF lt, folded q_def]
  have qv: "fe_val q = (fe_val s - of_bool b * secp256k1_p) + of_bool b * 2 ^ 256"
    unfolding P(1) unfolding fe_val_def secp256k1_fe.simps t0 secp256k1_p_def by (cases b) simp_all
  define lo where "lo = uint (fe_n0 q) + 2 ^ 52 * uint (fe_n1 q) + 2 ^ 104 * uint (fe_n2 q) + 2 ^ 156 * uint (fe_n3 q)"
  have lo: "0 \<le> lo" "lo < 2 ^ 208" "fe_val q = lo + 2 ^ 208 * uint (fe_n4 q)"
    using P(2-5) by (simp_all add: lo_def fe_val_def)
  have n4: "uint (fe_n4 q) div 2 ^ 48 = of_bool b"
    using qv lo v by (cases b) (simp_all add: secp256k1_p_def)
  have fin: "fe_final (b2w b) s = q\<lparr>fe_n4 := fe_n4 q AND 0xFFFFFFFFFFFF\<rparr>"
    by (simp add: fe_final_def q_def Let_def)
  have "fe_val (fe_final (b2w b) s) = lo + 2 ^ 208 * (uint (fe_n4 q) mod 2 ^ 48)"
    unfolding fin fe_val_def by (simp add: lo_def uint_and_literals)
  then show val: "fe_val (fe_final (b2w b) s) = fe_val s - of_bool b * secp256k1_p"
    using qv lo(3) n4 div_mod_parts(1) [of "2 ^ 48" "uint (fe_n4 q)"] by (cases b) simp_all
  show "fe_normalized (fe_final (b2w b) s)"
    unfolding fe_normalized_iff val using v(2) P(2-5) by (simp add: fin uint_and_literals)
qed

lemma normalize_correct:
  assumes "fe_magnitude 32 r"
  shows "fe_val (secp256k1_fe_normalize r) = fe_val r mod secp256k1_p"
    and "fe_normalized (secp256k1_fe_normalize r)"
    and "secp256k1_fe_normalize_var r = secp256k1_fe_normalize r"
proof -
  note W = fe_weak_correct [OF assms]
  define b where "b \<longleftrightarrow> secp256k1_p \<le> fe_val (fe_weak r)"
  have sub: "fe_needs_sub (fe_weak r) = b2w b"
    unfolding b_def by (rule fe_needs_sub_iff [OF W(2-6)])
  have n4: "uint (fe_n4 (fe_weak r)) < 2 ^ 49" using W(6) fe_n4_le_val [of "fe_weak r"] by simp
  have rng: "0 \<le> fe_val (fe_weak r) - of_bool b * secp256k1_p" "fe_val (fe_weak r) - of_bool b * secp256k1_p < secp256k1_p"
    using W(6) by (auto simp: b_def secp256k1_p_def)
  note F = fe_final_correct [OF W(2-5) n4 rng]
  have "fe_val r mod secp256k1_p = (fe_val (fe_weak r) - of_bool b * secp256k1_p) mod secp256k1_p"
    unfolding W(1) mult.commute [of "of_bool b"] mod_diff_mult_self by (rule refl)
  then show "fe_val (secp256k1_fe_normalize r) = fe_val r mod secp256k1_p"
    unfolding normalize_unfold sub F(1) using rng by simp
  show "fe_normalized (secp256k1_fe_normalize r)"
    unfolding normalize_unfold sub by (rule F)
  have fx: "fe_final 0 (fe_weak r) = fe_weak r" if "\<not> b"
    using F that W(2-5) by (intro fe_val_inj) (simp_all add: fe_normalized_iff)
  show "secp256k1_fe_normalize_var r = secp256k1_fe_normalize r"
    unfolding normalize_unfold normalize_var_unfold sub using fx by (cases b) simp_all
qed

section \<open>The zero tests\<close>

definition fe_is_raw_zero :: "secp256k1_fe \<Rightarrow> bool" where
  "fe_is_raw_zero s \<longleftrightarrow> (fe_n0 s OR fe_n1 s OR fe_n2 s OR fe_n3 s OR fe_n4 s) = 0 \<or>
     ((fe_n0 s XOR 0x1000003D0) AND fe_n1 s AND fe_n2 s AND fe_n3 s AND (fe_n4 s XOR 0xF000000000000))
       = 0xFFFFFFFFFFFFF"

lemma normalizes_to_zero_unfold: "secp256k1_fe_normalizes_to_zero r = fe_is_raw_zero (fe_weak r)"
  unfolding secp256k1_fe_normalizes_to_zero_def fe_is_raw_zero_def fe_weak_def fe_pass_def Let_def
  by (simp add: and.assoc or.assoc)

lemma normalizes_to_zero_var_unfold:
  "secp256k1_fe_normalizes_to_zero_var r = (if fe_n0 (fe_weak r) \<noteq> 0 \<and> fe_n0 (fe_weak r) XOR 0x1000003D0 \<noteq> 0xFFFFFFFFFFFFF
     then False else fe_is_raw_zero (fe_weak r))"
  unfolding secp256k1_fe_normalizes_to_zero_var_def fe_is_raw_zero_def fe_weak_def fe_pass_def Let_def
  by (simp add: and.assoc or.assoc)

lemma raw_literals:
  "x XOR 0x1000003D0 = 0xFFFFFFFFFFFFF \<longleftrightarrow> uint x = 0xFFFFEFFFFFC2F"
  "x XOR 0xF000000000000 = 0xFFFFFFFFFFFFF \<longleftrightarrow> uint x = 0xFFFFFFFFFFFF"
  "x = 0xFFFFFFFFFFFFF \<longleftrightarrow> uint x = 0xFFFFFFFFFFFFF" for x :: u64
  by ((simp only: xor_eq_iff)?, simp add: word_uint_eq_iff)+

lemma fe_val_eq_p_iff:
  assumes "uint (fe_n0 s) < 2 ^ 52" "uint (fe_n1 s) < 2 ^ 52" "uint (fe_n2 s) < 2 ^ 52" "uint (fe_n3 s) < 2 ^ 52"
  shows "fe_val s = secp256k1_p \<longleftrightarrow> uint (fe_n0 s) = 0xFFFFEFFFFFC2F \<and> uint (fe_n1 s) = 0xFFFFFFFFFFFFF \<and>
     uint (fe_n2 s) = 0xFFFFFFFFFFFFF \<and> uint (fe_n3 s) = 0xFFFFFFFFFFFFF \<and> uint (fe_n4 s) = 0xFFFFFFFFFFFF"
proof -
  let ?P = "mk_fe 0xFFFFEFFFFFC2F 0xFFFFFFFFFFFFF 0xFFFFFFFFFFFFF 0xFFFFFFFFFFFFF 0xFFFFFFFFFFFF"
  have "fe_val s = fe_val ?P \<longleftrightarrow> s = ?P"
    using assms by (auto intro!: fe_val_inj)
  moreover have "fe_val ?P = secp256k1_p" by (simp add: fe_val_def secp256k1_p_def)
  moreover have "s = ?P \<longleftrightarrow> uint (fe_n0 s) = 0xFFFFEFFFFFC2F \<and> uint (fe_n1 s) = 0xFFFFFFFFFFFFF \<and>
     uint (fe_n2 s) = 0xFFFFFFFFFFFFF \<and> uint (fe_n3 s) = 0xFFFFFFFFFFFFF \<and> uint (fe_n4 s) = 0xFFFFFFFFFFFF"
    by (cases s) (simp add: word_uint_eq_iff)
  ultimately show ?thesis by simp
qed

lemma fe_is_raw_zero_iff:
  assumes "uint (fe_n0 s) < 2 ^ 52" "uint (fe_n1 s) < 2 ^ 52" "uint (fe_n2 s) < 2 ^ 52"
    "uint (fe_n3 s) < 2 ^ 52" "uint (fe_n4 s) < 2 ^ 49"
  shows "fe_is_raw_zero s \<longleftrightarrow> fe_val s = 0 \<or> fe_val s = secp256k1_p"
proof -
  have z0: "(fe_n0 s OR fe_n1 s OR fe_n2 s OR fe_n3 s OR fe_n4 s) = 0 \<longleftrightarrow> fe_val s = 0"
    unfolding fe_val_def by (simp add: or_eq_0_iff add_nonneg_eq_0_iff) (simp add: word_uint_eq_iff)
  have x0: "uint (fe_n0 s XOR 0x1000003D0) < 2 ^ 52" using assms(1) by (intro uint_xor_less) simp_all
  have x4: "uint (fe_n4 s XOR 0xF000000000000) < 2 ^ 52" using assms(5) by (intro uint_xor_less) simp_all
  have "((fe_n0 s XOR 0x1000003D0) AND fe_n1 s AND fe_n2 s AND fe_n3 s AND (fe_n4 s XOR 0xF000000000000))
       = 0xFFFFFFFFFFFFF \<longleftrightarrow> (fe_n0 s XOR 0x1000003D0 = 0xFFFFFFFFFFFFF \<and> fe_n1 s = 0xFFFFFFFFFFFFF \<and>
     fe_n2 s = 0xFFFFFFFFFFFFF \<and> fe_n3 s = 0xFFFFFFFFFFFFF \<and> fe_n4 s XOR 0xF000000000000 = 0xFFFFFFFFFFFFF)"
    using assms x0 x4 by (simp only: mask_literals and_eq_mask_iff uint_and_less)
  then show ?thesis
    unfolding fe_is_raw_zero_def z0 fe_val_eq_p_iff [OF assms(1-4)]
    by (simp only: raw_literals(1,2)) (simp only: raw_literals(3))
qed

lemma normalizes_to_zero_correct:
  assumes "fe_magnitude 32 r"
  shows "secp256k1_fe_normalizes_to_zero r \<longleftrightarrow> fe_val r mod secp256k1_p = 0"
    and "secp256k1_fe_normalizes_to_zero_var r = secp256k1_fe_normalizes_to_zero r"
proof -
  note W = fe_weak_correct [OF assms]
  have n4: "uint (fe_n4 (fe_weak r)) < 2 ^ 49" using W(6) fe_n4_le_val [of "fe_weak r"] by simp
  note Z = fe_is_raw_zero_iff [OF W(2-5) n4]
  have "fe_val r mod secp256k1_p = fe_val (fe_weak r) mod secp256k1_p"
    unfolding W(1) mod_diff_mult_self by (rule refl)
  also have "\<dots> = 0 \<longleftrightarrow> fe_val (fe_weak r) = 0 \<or> fe_val (fe_weak r) = secp256k1_p"
  proof
    assume "fe_val (fe_weak r) mod secp256k1_p = 0"
    then obtain k where k: "fe_val (fe_weak r) = secp256k1_p * k" by (auto simp: mod_eq_0_iff_dvd)
    then have "0 \<le> k" "k < 2"
      using W(6) fe_val_ge_0 [of "fe_weak r"] by (simp_all add: secp256k1_p_def)
    then have "k = 0 \<or> k = 1" by arith
    with k show "fe_val (fe_weak r) = 0 \<or> fe_val (fe_weak r) = secp256k1_p" by auto
  qed auto
  finally show "secp256k1_fe_normalizes_to_zero r \<longleftrightarrow> fe_val r mod secp256k1_p = 0"
    by (simp add: normalizes_to_zero_unfold Z)
  show "secp256k1_fe_normalizes_to_zero_var r = secp256k1_fe_normalizes_to_zero r"
  proof -
    have "fe_n0 (fe_weak r) = 0" if "fe_val (fe_weak r) = 0"
      using that unfolding fe_val_def by (simp add: add_nonneg_eq_0_iff) (simp add: word_uint_eq_iff)
    then show ?thesis
      unfolding normalizes_to_zero_unfold normalizes_to_zero_var_unfold Z
      by (simp only: raw_literals(1,2) fe_val_eq_p_iff [OF W(2-5)]) auto
  qed
qed

end
