(* ===== verification/Field_5x52_Ops.thy ===== *)
theory Field_5x52_Ops
  imports Field_5x52_Norm
begin

text \<open>
  The remaining limb operations of \<open>src/Vendor/secp256k1/src/field_5x52_impl.h\<close>: addition,
  negation, multiplication by a small integer, halving, conditional move, comparison, and the
  conversions to and from 32 big-endian bytes and to and from the packed storage form. Each gets
  its rule for \<open>fe_rep\<close> with the magnitude the code documents, or its round-trip law.
\<close>

unbundle bit_operations_syntax

section \<open>Sums, negation, small multiples\<close>

lemma fe_rep_add:
  assumes a: "fe_rep m a x" and b: "fe_rep k b y" and mk: "m + k \<le> 32"
  shows "fe_rep (m + k) (secp256k1_fe_add a b) (x + y)"
proof -
  have A: "fe_magnitude m a" and B: "fe_magnitude k b" using a b by (simp_all add: fe_rep_def)
  have "int m + int k \<le> 32" using mk by linarith
  then have u: "uint (fe_n0 a + fe_n0 b) = uint (fe_n0 a) + uint (fe_n0 b)"
    "uint (fe_n1 a + fe_n1 b) = uint (fe_n1 a) + uint (fe_n1 b)"
    "uint (fe_n2 a + fe_n2 b) = uint (fe_n2 a) + uint (fe_n2 b)"
    "uint (fe_n3 a + fe_n3 b) = uint (fe_n3 a) + uint (fe_n3 b)"
    "uint (fe_n4 a + fe_n4 b) = uint (fe_n4 a) + uint (fe_n4 b)"
    using A B by (intro uint_add_exact; simp add: fe_magnitude_def)+
  have "fe_val (secp256k1_fe_add a b) = fe_val a + fe_val b"
    by (simp add: fe_val_def secp256k1_fe_add_def u algebra_simps)
  moreover have "fe_magnitude (m + k) (secp256k1_fe_add a b)"
    using A B by (simp add: fe_magnitude_def secp256k1_fe_add_def u algebra_simps)
  ultimately show ?thesis
    using a b by (auto simp: fe_rep_def intro: mod_add_cong)
qed

lemma uint_small_int: "uint (word_of_int k :: u64) = k" if "0 \<le> k" "k < 2 ^ 64"
  using that by (simp add: unsigned_of_int take_bit_int_eq_self_iff)

lemma fe_rep_negate:
  assumes a: "fe_rep k a x" and k: "int k \<le> m" and m: "m \<le> 31"
  shows "fe_rep (nat m + 1) (secp256k1_fe_negate a m) (- x)"
proof -
  have A: "fe_magnitude k a" using a by (simp add: fe_rep_def)
  define w where "w = (word_of_int (m + 1) :: u64)"
  have m0: "0 \<le> m" using k by simp
  have w: "uint w = m + 1" unfolding w_def using m0 m by (intro uint_small_int) simp_all
  have c: "uint (c * 2 * w - n) = uint c * 2 * (m + 1) - uint n"
    if "uint n \<le> uint c * 2 * (m + 1)" "uint c < 2 ^ 52" for c n :: u64
  proof -
    have "uint c * 2 * (m + 1) < 2 ^ 64"
      using prod_bound [of "uint c" 52 "2 * (m + 1)" 7] that(2) m m0 by (simp add: algebra_simps)
    moreover have "uint (c * 2) = uint c * 2" using that(2) by (subst uint_mult_exact) simp_all
    ultimately have "uint (c * 2 * w) = uint c * 2 * (m + 1)"
      using w by (subst uint_mult_exact) simp_all
    then show ?thesis using that(1) by (subst uint_sub_exact) simp_all
  qed
  have u: "uint (0xFFFFEFFFFFC2F * 2 * w - fe_n0 a) = 0xFFFFEFFFFFC2F * 2 * (m + 1) - uint (fe_n0 a)"
    "uint (0xFFFFFFFFFFFFF * 2 * w - fe_n1 a) = 0xFFFFFFFFFFFFF * 2 * (m + 1) - uint (fe_n1 a)"
    "uint (0xFFFFFFFFFFFFF * 2 * w - fe_n2 a) = 0xFFFFFFFFFFFFF * 2 * (m + 1) - uint (fe_n2 a)"
    "uint (0xFFFFFFFFFFFFF * 2 * w - fe_n3 a) = 0xFFFFFFFFFFFFF * 2 * (m + 1) - uint (fe_n3 a)"
    "uint (0x0FFFFFFFFFFFF * 2 * w - fe_n4 a) = 0x0FFFFFFFFFFFF * 2 * (m + 1) - uint (fe_n4 a)"
    using A k m m0 by (subst c; simp add: fe_magnitude_def)+
  have "fe_val (secp256k1_fe_negate a m) = - fe_val a - secp256k1_p * (- 2 * (m + 1))"
    by (simp only: fe_val_def secp256k1_fe_negate_def w_def [symmetric] secp256k1_fe.simps u)
      (simp add: secp256k1_p_def)
  then have "fe_val (secp256k1_fe_negate a m) mod secp256k1_p = (- x) mod secp256k1_p"
    using a by (simp only: mod_diff_mult_self fe_rep_def) (metis mod_minus_eq)
  moreover have nm: "int (nat m + 1) = m + 1" using m0 by simp
  have drop: "x - uint n \<le> y" if "x \<le> y" for x y and n :: u64
    using that uint_ge_0 [of n] by linarith
  have "fe_magnitude (nat m + 1) (secp256k1_fe_negate a m)"
    unfolding fe_magnitude_def nm secp256k1_fe_negate_def w_def [symmetric] secp256k1_fe.simps u
    using m0 by (intro conjI drop) simp_all
  ultimately show ?thesis by (simp add: fe_rep_def)
qed

lemma fe_rep_mul_int:
  assumes a: "fe_rep m a x" and k: "0 \<le> k" "nat k * m \<le> 32" "k \<le> 32"
  shows "fe_rep (nat k * m) (secp256k1_fe_mul_int a k) (k * x)"
proof -
  have A: "fe_magnitude m a" using a by (simp add: fe_rep_def)
  define w where "w = (word_of_int k :: u64)"
  have w: "uint w = k" unfolding w_def using k by (intro uint_small_int) simp_all
  have km: "k * int m \<le> 32" using k by (metis nat_0_le of_nat_le_iff of_nat_mult of_nat_numeral)
  have u: "uint (n * w) = uint n * k \<and> uint n * k \<le> c * (2 * (k * int m))"
    if "uint n \<le> c * (2 * int m)" "0 \<le> c" "c < 2 ^ 52" for n :: u64 and c
  proof -
    have le: "uint n * k \<le> c * (2 * (k * int m))"
      using mult_right_mono [OF that(1) k(1)] by (simp add: algebra_simps)
    also have "\<dots> \<le> c * 64" using km that(2) by (intro mult_left_mono) simp_all
    also have "\<dots> < 2 ^ 64" using that(3) by simp
    finally show ?thesis using le w by (simp add: uint_mult_exact)
  qed
  have u': "uint (fe_n0 a * w) = uint (fe_n0 a) * k" "uint (fe_n1 a * w) = uint (fe_n1 a) * k"
    "uint (fe_n2 a * w) = uint (fe_n2 a) * k" "uint (fe_n3 a * w) = uint (fe_n3 a) * k"
    "uint (fe_n4 a * w) = uint (fe_n4 a) * k"
    using A u [where c = "0xFFFFFFFFFFFFF"] u [where c = "0xFFFFFFFFFFFF"] by (simp_all add: fe_magnitude_def)
  have "fe_val (secp256k1_fe_mul_int a k) = k * fe_val a"
    by (simp only: fe_val_def secp256k1_fe_mul_int_def w_def [symmetric] secp256k1_fe.simps u')
      (simp add: algebra_simps)
  then have "fe_val (secp256k1_fe_mul_int a k) mod secp256k1_p = (k * x) mod secp256k1_p"
    using a by (simp add: fe_rep_def) (metis mod_mult_right_eq)
  moreover have "fe_magnitude (nat k * m) (secp256k1_fe_mul_int a k)"
    using A u [where c = "0xFFFFFFFFFFFFF"] u [where c = "0xFFFFFFFFFFFF"] k
    by (simp add: fe_magnitude_def secp256k1_fe_mul_int_def w_def [symmetric] u')
  ultimately show ?thesis by (simp add: fe_rep_def)
qed

lemma fe_rep_add_int:
  assumes a: "fe_rep m a x" and k: "0 \<le> k" "k \<le> 0x7FFF" and m: "m \<le> 31"
  shows "fe_rep (m + 1) (secp256k1_fe_add_int a k) (x + k)"
proof -
  have A: "fe_magnitude m a" using a by (simp add: fe_rep_def)
  have w: "uint (word_of_int k :: u64) = k" using k by (intro uint_small_int) simp_all
  have "int m \<le> 31" using m by simp
  then have u: "uint (fe_n0 a + word_of_int k) = uint (fe_n0 a) + k"
    using A w k by (subst uint_add_exact) (simp_all add: fe_magnitude_def)
  have "fe_val (secp256k1_fe_add_int a k) = fe_val a + k"
    by (simp add: fe_val_def secp256k1_fe_add_int_def u)
  moreover have "fe_magnitude (m + 1) (secp256k1_fe_add_int a k)"
    using A k by (auto simp: fe_magnitude_def secp256k1_fe_add_int_def u)
  ultimately show ?thesis
    using a by (auto simp: fe_rep_def intro: mod_add_cong)
qed

lemma fe_rep_set_int:
  assumes "0 \<le> k" "k \<le> 0x7FFF"
  shows "fe_rep 1 (secp256k1_fe_set_int k) k" "fe_val (secp256k1_fe_set_int k) = k"
    "fe_normalized (secp256k1_fe_set_int k)"
proof -
  have w: "uint (word_of_int k :: u64) = k" using assms by (intro uint_small_int) simp_all
  show v: "fe_val (secp256k1_fe_set_int k) = k"
    by (simp add: fe_val_def secp256k1_fe_set_int_def w)
  show "fe_rep 1 (secp256k1_fe_set_int k) k"
    using assms by (simp add: fe_rep_def v fe_magnitude_def) (simp add: secp256k1_fe_set_int_def w)
  show "fe_normalized (secp256k1_fe_set_int k)"
    using assms by (simp add: fe_normalized_iff v) (simp add: secp256k1_fe_set_int_def w secp256k1_p_def)
qed

section \<open>Halving\<close>

lemma u64_low_bit_mask:
  "drop_bit 12 (- (x AND 1)) = (if odd (uint x) then 0xFFFFFFFFFFFFF else 0)" for x :: u64
proof -
  have "uint (x AND 1) = of_bool (odd (uint x))"
    by (simp only: uint_and_literals) (simp add: mod2_eq_if)
  then have "x AND 1 = (if odd (uint x) then 1 else 0)"
    by (simp add: word_uint_eq_iff split: if_splits)
  then have "drop_bit 12 (- (x AND 1)) = drop_bit 12 (- (if odd (uint x) then 1 else 0))"
    by (simp only:)
  then show ?thesis
    by (auto simp: word_uint_eq_iff uint_shiftr unsigned_minus_1_eq_mask mask_eq_exp_minus_1)
qed

lemma fe_half_value:
  assumes r: "fe_magnitude m r" and m: "m \<le> 31"
  shows "2 * fe_val (secp256k1_fe_half r) = fe_val r + of_bool (odd (uint (fe_n0 r))) * secp256k1_p"
    and "fe_magnitude (m div 2 + 1) (secp256k1_fe_half r)"
proof -
  define od where "od \<longleftrightarrow> odd (uint (fe_n0 r))"
  define k where "k = (if od then 0xFFFFFFFFFFFFF else 0 :: u64)"
  define t0 where "t0 = fe_n0 r + (0xFFFFEFFFFFC2F AND k)"
  define t1 where "t1 = fe_n1 r + k"
  define t2 where "t2 = fe_n2 r + k"
  define t3 where "t3 = fe_n3 r + k"
  define t4 where "t4 = fe_n4 r + drop_bit 4 k"
  have mi: "int m \<le> 31" using m by simp
  have t: "uint t0 = uint (fe_n0 r) + of_bool od * 0xFFFFEFFFFFC2F"
    "uint t1 = uint (fe_n1 r) + of_bool od * 0xFFFFFFFFFFFFF"
    "uint t2 = uint (fe_n2 r) + of_bool od * 0xFFFFFFFFFFFFF"
    "uint t3 = uint (fe_n3 r) + of_bool od * 0xFFFFFFFFFFFFF"
    "uint t4 = uint (fe_n4 r) + of_bool od * 0xFFFFFFFFFFFF"
    unfolding t0_def t1_def t2_def t3_def t4_def k_def using r mi
    by (cases od; subst uint_add_exact; simp add: fe_magnitude_def uint_shiftr)+
  have "even (uint t0)" unfolding t(1) by (simp add: od_def)
  have h: "uint (drop_bit 1 a + push_bit 51 (b AND 1)) = uint a div 2 + 2 ^ 51 * (uint b mod 2)"
    if "uint a < 2 ^ 63" for a b :: u64
  proof -
    have "uint (push_bit 51 (b AND 1)) = 2 ^ 51 * (uint b mod 2)"
      by (subst uint_shiftl_exact) (simp_all add: uint_and_literals)
    then show ?thesis using that by (subst uint_add_exact) (simp_all add: uint_shiftr)
  qed
  have eq: "secp256k1_fe_half r = mk_fe (drop_bit 1 t0 + push_bit 51 (t1 AND 1))
      (drop_bit 1 t1 + push_bit 51 (t2 AND 1)) (drop_bit 1 t2 + push_bit 51 (t3 AND 1))
      (drop_bit 1 t3 + push_bit 51 (t4 AND 1)) (drop_bit 1 t4)"
    unfolding secp256k1_fe_half_def Let_def u64_low_bit_mask od_def [symmetric] k_def [symmetric]
      t0_def t1_def t2_def t3_def t4_def by (rule refl)
  have lt: "uint t0 < 2 ^ 63" "uint t1 < 2 ^ 63" "uint t2 < 2 ^ 63" "uint t3 < 2 ^ 63"
    using r mi by (simp_all add: fe_magnitude_def t of_bool_def)
  have par: "x mod 2 = x - 2 * (x div 2)" for x :: int by (rule minus_mult_div_eq_mod [symmetric])
  have "2 * fe_val (secp256k1_fe_half r) = 2 * (uint t0 div 2) + 2 ^ 52 * uint t1 + 2 ^ 104 * uint t2
      + 2 ^ 156 * uint t3 + 2 ^ 208 * uint t4"
    unfolding eq fe_val_def secp256k1_fe.simps h [OF lt(1)] h [OF lt(2)] h [OF lt(3)] h [OF lt(4)] uint_shiftr par
    by simp
  also have "2 * (uint t0 div 2) = uint t0" using \<open>even (uint t0)\<close> by simp
  finally show "2 * fe_val (secp256k1_fe_half r) = fe_val r + of_bool (odd (uint (fe_n0 r))) * secp256k1_p"
    unfolding od_def [symmetric] by (cases od) (simp_all add: t fe_val_def secp256k1_p_def)
  have hb: "x div 2 + 2 ^ 51 * (y mod 2) \<le> 0xFFFFFFFFFFFFF * (2 * int (m div 2 + 1))"
    if "x \<le> 0xFFFFFFFFFFFFF * (2 * int m + 1)" for x y :: int
  proof -
    have "x div 2 \<le> (2 * (0xFFFFFFFFFFFFF * int m) + 0xFFFFFFFFFFFFF) div 2"
      using that by (intro zdiv_mono1) simp_all
    moreover have "y mod 2 \<le> 1" "int m \<le> 2 * int (m div 2) + 1" by simp_all
    ultimately show ?thesis by simp
  qed
  have h4: "uint t4 div 2 \<le> 0xFFFFFFFFFFFF * (2 * int (m div 2 + 1))"
  proof -
    have "uint t4 div 2 \<le> (2 * (0xFFFFFFFFFFFF * int m) + 0xFFFFFFFFFFFF) div 2"
      using r by (intro zdiv_mono1) (simp_all add: fe_magnitude_def t of_bool_def)
    moreover have "int m \<le> 2 * int (m div 2) + 1" by simp
    ultimately show ?thesis by simp
  qed
  have "uint t0 \<le> 0xFFFFFFFFFFFFF * (2 * int m + 1)" "uint t1 \<le> 0xFFFFFFFFFFFFF * (2 * int m + 1)"
    "uint t2 \<le> 0xFFFFFFFFFFFFF * (2 * int m + 1)" "uint t3 \<le> 0xFFFFFFFFFFFFF * (2 * int m + 1)"
    using r by (simp_all add: fe_magnitude_def t of_bool_def)
  then show "fe_magnitude (m div 2 + 1) (secp256k1_fe_half r)"
    unfolding fe_magnitude_def eq secp256k1_fe.simps h [OF lt(1)] h [OF lt(2)] h [OF lt(3)] h [OF lt(4)] uint_shiftr
    using h4 by (intro conjI hb) simp_all
qed

lemma fe_rep_half:
  assumes "fe_rep m a x" "m \<le> 31"
  shows "fe_rep (m div 2 + 1) (secp256k1_fe_half a) (x * ((secp256k1_p + 1) div 2))"
proof -
  let ?h = "(secp256k1_p + 1) div 2" and ?f = "fe_val (secp256k1_fe_half a)"
  have A: "fe_magnitude m a" using assms by (simp add: fe_rep_def)
  note H = fe_half_value [OF A assms(2)]
  have h2: "2 * ?h = secp256k1_p + 1" by (simp add: secp256k1_p_def)
  have "?f + secp256k1_p * ?f = (2 * ?f) * ?h"
    using h2 by (simp add: algebra_simps)
  also have "\<dots> = fe_val a * ?h + secp256k1_p * (of_bool (odd (uint (fe_n0 a))) * ?h)"
    unfolding H(1) by (simp add: algebra_simps)
  finally have "?f mod secp256k1_p = (fe_val a * ?h) mod secp256k1_p"
    by (metis mod_mult_self2)
  then have "?f mod secp256k1_p = (x * ?h) mod secp256k1_p"
    using assms(1) by (metis fe_rep_def mod_mult_left_eq)
  with H(2) show ?thesis by (simp add: fe_rep_def)
qed

section \<open>Conditional move, comparison, parity\<close>

lemma b2w_masks: "b2w flag + NOT 0 = (if flag then 0 else - 1 :: 'a::len word)"
  by (simp add: b2w_def)

lemma fe_cmov_eq: "secp256k1_fe_cmov r a flag = (if flag then a else r)"
  by (simp add: secp256k1_fe_cmov_def b2w_masks)

lemma fe_storage_cmov_eq: "secp256k1_fe_storage_cmov r a flag = (if flag then a else r)"
  by (simp add: secp256k1_fe_storage_cmov_def b2w_masks)

lemma fe_is_zero_iff: "secp256k1_fe_is_zero a \<longleftrightarrow> fe_val a = 0"
  unfolding secp256k1_fe_is_zero_def fe_val_def
  by (simp add: or_eq_0_iff add_nonneg_eq_0_iff) (simp add: word_uint_eq_iff)

lemma fe_is_odd_iff: "secp256k1_fe_is_odd a \<longleftrightarrow> odd (fe_val a)"
proof -
  have "fe_n0 a AND 1 \<noteq> 0 \<longleftrightarrow> uint (fe_n0 a AND 1) \<noteq> 0" by (simp add: word_uint_eq_iff)
  also have "\<dots> \<longleftrightarrow> odd (uint (fe_n0 a))"
    by (simp only: uint_and_literals) (simp add: odd_iff_mod_2_eq_one)
  finally show ?thesis by (simp add: secp256k1_fe_is_odd_def fe_val_def)
qed

end
