(* ===== verification/Bytes.thy ===== *)
theory Bytes
  imports Word_Prelude
begin

text \<open>
  The byte-array helpers of \<open>src/Vendor/secp256k1/src/util.h\<close>. A C byte array is a list of
  8-bit words; a routine that fills an array returns the list it writes. \<open>be_val\<close> is the
  integer a big-endian byte string denotes; reading and writing are stated against it.
\<close>

unbundle bit_operations_syntax

section \<open>Routines\<close>

definition secp256k1_memczero :: "bytes \<Rightarrow> bool \<Rightarrow> bytes" where
  "secp256k1_memczero s flag = (let mask = - b2w flag in map (\<lambda>p. p AND NOT mask) s)"

definition secp256k1_memclear :: "bytes \<Rightarrow> bytes" where
  "secp256k1_memclear s = replicate (length s) 0"

fun secp256k1_memcmp_var :: "bytes \<Rightarrow> bytes \<Rightarrow> int" where
  "secp256k1_memcmp_var (x # xs) (y # ys) =
     (let diff = uint x - uint y in if diff \<noteq> 0 then diff else secp256k1_memcmp_var xs ys)"
| "secp256k1_memcmp_var _ _ = 0"

definition secp256k1_is_zero_array :: "bytes \<Rightarrow> bool" where
  "secp256k1_is_zero_array s \<longleftrightarrow> foldl (OR) 0 s = 0"

definition secp256k1_int_cmov :: "int \<Rightarrow> int \<Rightarrow> bool \<Rightarrow> int" where
  "secp256k1_int_cmov r a flag =
    (let mask0 = b2w flag + NOT 0 :: u32; mask1 = NOT mask0
     in sint ((word_of_int r AND mask0) OR (word_of_int a AND mask1)))"

definition secp256k1_read_be32 :: "bytes \<Rightarrow> u32" where
  "secp256k1_read_be32 p =
     push_bit 24 (ucast (p ! 0)) OR push_bit 16 (ucast (p ! 1)) OR push_bit 8 (ucast (p ! 2)) OR ucast (p ! 3)"

definition secp256k1_write_be32 :: "u32 \<Rightarrow> bytes" where
  "secp256k1_write_be32 x = [ucast (drop_bit 24 x), ucast (drop_bit 16 x), ucast (drop_bit 8 x), ucast x]"

definition secp256k1_read_be64 :: "bytes \<Rightarrow> u64" where
  "secp256k1_read_be64 p =
     push_bit 56 (ucast (p ! 0)) OR push_bit 48 (ucast (p ! 1)) OR push_bit 40 (ucast (p ! 2)) OR
     push_bit 32 (ucast (p ! 3)) OR push_bit 24 (ucast (p ! 4)) OR push_bit 16 (ucast (p ! 5)) OR
     push_bit 8 (ucast (p ! 6)) OR ucast (p ! 7)"

definition secp256k1_write_be64 :: "u64 \<Rightarrow> bytes" where
  "secp256k1_write_be64 x =
     [ucast (drop_bit 56 x), ucast (drop_bit 48 x), ucast (drop_bit 40 x), ucast (drop_bit 32 x),
      ucast (drop_bit 24 x), ucast (drop_bit 16 x), ucast (drop_bit 8 x), ucast x]"

definition secp256k1_rotr32 :: "u32 \<Rightarrow> nat \<Rightarrow> u32" where
  "secp256k1_rotr32 x n = (drop_bit (n mod 32) x OR push_bit ((32 - n mod 32) mod 32) x)"

section \<open>Big-endian values\<close>

definition be_val :: "bytes \<Rightarrow> int" where
  "be_val bs = foldl (\<lambda>v b. v * 256 + uint b) 0 bs"

lemma be_val_foldl: "foldl (\<lambda>v b. v * 256 + uint b) a bs = a * 256 ^ length bs + be_val (bs :: bytes)"
proof (induction bs arbitrary: a)
  case (Cons b bs)
  from Cons [of "a * 256 + uint b"] Cons [of "uint b"] show ?case
    by (simp add: be_val_def algebra_simps)
qed (simp add: be_val_def)

lemma be_val_Nil [simp]: "be_val [] = 0"
  by (simp add: be_val_def)

lemma be_val_Cons [simp]: "be_val (b # bs) = uint b * 256 ^ length bs + be_val bs"
  using be_val_foldl [of "uint b" bs] by (simp add: be_val_def)

lemma be_val_append: "be_val (as @ bs) = be_val as * 256 ^ length bs + be_val bs"
  by (induction as) (simp_all add: power_add algebra_simps)

lemma be_val_bounds: "0 \<le> be_val bs" "be_val bs < 256 ^ length bs"
proof (induction bs)
  case (Cons b bs)
  have "uint b * 256 ^ length bs \<le> 255 * 256 ^ length bs"
    using u8_bounds [of b] by (intro mult_right_mono) simp_all
  with Cons(2) have "uint b * 256 ^ length bs + be_val bs < 256 * 256 ^ length bs" by linarith
  then show "be_val (b # bs) < 256 ^ length (b # bs)" by simp
  show "0 \<le> be_val (b # bs)" using Cons by simp
qed simp_all

lemma be_val_ones: "be_val (replicate k 255) = 256 ^ k - 1"
  by (induction k) simp_all

lemma be_val_inj: "be_val as = be_val bs \<Longrightarrow> length as = length bs \<Longrightarrow> as = bs"
proof (induction as arbitrary: bs)
  case (Cons a as)
  then obtain b cs where bs: "bs = b # cs" and len: "length as = length cs" by (cases bs) auto
  have "be_val as + 256 ^ length as * uint a = be_val cs + 256 ^ length as * uint b"
    using Cons.prems(1) unfolding bs be_val_Cons len by (simp only: mult.commute add.commute)
  then have eq: "be_val as = be_val cs \<and> uint a = uint b"
    using be_val_bounds [of as] be_val_bounds [of cs] unfolding len by (rule base_inj)
  have "as = cs" by (rule Cons.IH) (use eq len in blast)+
  moreover have "a = b" using eq by (simp only: word_uint_eq_iff)
  ultimately show ?case by (simp only: bs)
qed simp

lemma uint_ucast_u8 [simp]: "uint (ucast (b::u8) :: u64) = uint b" "uint (ucast (b::u8) :: u32) = uint b"
  by (simp_all add: uint_up_ucast is_up)

lemma uint_ucast_to_u8: "uint (ucast (x::u64) :: u8) = uint x mod 2 ^ 8" "uint (ucast (y::u32) :: u8) = uint y mod 2 ^ 8"
  by (simp_all add: unsigned_ucast_eq take_bit_eq_mod)

lemma uint_shift_byte64: "uint (push_bit k (ucast (b::u8) :: u64)) = uint b * 2 ^ k" if "k \<le> 56"
proof (rule trans [OF uint_shiftl_exact])
  have "uint b * 2 ^ k < 2 ^ 8 * 2 ^ k" using u8_bounds [of b] by (intro mult_strict_right_mono) simp_all
  also have "\<dots> = 2 ^ (8 + k)" by (simp only: power_add)
  also have "\<dots> \<le> 2 ^ 64" using that by (intro power_increasing) simp_all
  finally show "uint (ucast b :: u64) * 2 ^ k < 2 ^ LENGTH(64)" by simp
qed simp

lemma uint_shift_byte32: "uint (push_bit k (ucast (b::u8) :: u32)) = uint b * 2 ^ k" if "k \<le> 24"
proof (rule trans [OF uint_shiftl_exact])
  have "uint b * 2 ^ k < 2 ^ 8 * 2 ^ k" using u8_bounds [of b] by (intro mult_strict_right_mono) simp_all
  also have "\<dots> = 2 ^ (8 + k)" by (simp only: power_add)
  also have "\<dots> \<le> 2 ^ 32" using that by (intro power_increasing) simp_all
  finally show "uint (ucast b :: u32) * 2 ^ k < 2 ^ LENGTH(32)" by simp
qed simp

section \<open>Big-endian words\<close>

text \<open>Adding the next byte on the right of a shifted word is a disjoint \<open>OR\<close>.\<close>

lemma uint_or_disjoint_left:
  "uint (a OR b) = uint a + uint b" if "uint a mod 2 ^ k = 0" "uint b < 2 ^ k" for a b :: "'a::len word"
  using uint_or_disjoint [OF that(2,1)] by (simp add: or.commute)

lemma shift_mod_0: "x * 2 ^ j mod 2 ^ k = 0" if "k \<le> j" for x :: int
  using that by (simp add: le_imp_power_dvd)

lemma uint_or_byte:
  "uint w < 2 ^ k \<Longrightarrow> k \<le> 56 \<Longrightarrow> uint (push_bit k (ucast (b::u8)) OR w) = uint b * 2 ^ k + uint (w::u64)"
  "uint v < 2 ^ k \<Longrightarrow> k \<le> 24 \<Longrightarrow> uint (push_bit k (ucast (b::u8)) OR v) = uint b * 2 ^ k + uint (v::u32)"
  by (subst uint_or_disjoint_left [of _ k]; simp add: uint_shift_byte64 uint_shift_byte32)+

lemma read_be64_val:
  "uint (secp256k1_read_be64 [a, b, c, d, e, f, g, h]) = be_val [a, b, c, d, e, f, g, h]"
  using u8_bounds [of b] u8_bounds [of c] u8_bounds [of d] u8_bounds [of e] u8_bounds [of f]
    u8_bounds [of g] u8_bounds [of h]
  by (simp add: secp256k1_read_be64_def uint_or_byte)

lemma read_be32_val:
  "uint (secp256k1_read_be32 [a, b, c, d]) = be_val [a, b, c, d]"
  using u8_bounds [of b] u8_bounds [of c] u8_bounds [of d]
  by (simp add: secp256k1_read_be32_def uint_or_byte)

text \<open>The base-256 digits of an integer, most significant first.\<close>

fun be_digits :: "nat \<Rightarrow> int \<Rightarrow> int list" where
  "be_digits 0 x = []"
| "be_digits (Suc n) x = (x div 256 ^ n) mod 256 # be_digits n x"

lemma be_digits_numeral [simp]:
  "be_digits (numeral k) x = (x div 256 ^ pred_numeral k) mod 256 # be_digits (pred_numeral k) x"
  by (simp only: numeral_eq_Suc be_digits.simps)

lemma be_val_digits: "map uint bs = be_digits n x \<Longrightarrow> be_val bs = x mod 256 ^ n"
proof (induction n arbitrary: bs)
  case (Suc n)
  then obtain c cs where bs: "bs = c # cs" "uint c = (x div 256 ^ n) mod 256" "map uint cs = be_digits n x"
    by auto
  have "length cs = n" using arg_cong [OF bs(3), of length] by (induction n arbitrary: cs) (auto simp: length_Suc_conv)
  with Suc.IH [OF bs(3)] bs(2) show ?case
    by (simp add: bs(1) mult.commute [of 256] mult.commute [of _ "256 ^ n"] zmod_zmult2_eq)
qed simp

lemma write_be64_val: "be_val (secp256k1_write_be64 x) = uint x"
  using u64_bounds [of x]
  by (subst be_val_digits [of _ 8 "uint x"])
    (simp_all add: secp256k1_write_be64_def uint_ucast_to_u8 uint_shiftr)

lemma write_be32_val: "be_val (secp256k1_write_be32 x) = uint x"
  using uint_lt2p [of x]
  by (subst be_val_digits [of _ 4 "uint x"])
    (simp_all add: secp256k1_write_be32_def uint_ucast_to_u8 uint_shiftr)

lemma length_write_be [simp]: "length (secp256k1_write_be64 x) = 8" "length (secp256k1_write_be32 y) = 4"
  by (simp_all add: secp256k1_write_be64_def secp256k1_write_be32_def)

lemma read_write_be64: "secp256k1_read_be64 (secp256k1_write_be64 x) = x"
  using write_be64_val [of x] by (simp only: secp256k1_write_be64_def word_uint_eq_iff read_be64_val)

lemma read_write_be32: "secp256k1_read_be32 (secp256k1_write_be32 x) = x"
  using write_be32_val [of x] by (simp only: secp256k1_write_be32_def word_uint_eq_iff read_be32_val)

section \<open>Comparing and clearing\<close>

lemma memcmp_var_sign:
  "length as = length bs \<Longrightarrow> sgn (secp256k1_memcmp_var as bs) = sgn (be_val as - be_val bs)"
proof (induction as bs rule: secp256k1_memcmp_var.induct)
  case (1 x xs y ys)
  let ?k = "256 ^ length xs :: int"
  have b: "0 \<le> be_val xs" "be_val xs < ?k" "0 \<le> be_val ys" "be_val ys < ?k"
    using be_val_bounds [of xs] be_val_bounds [of ys] 1(2) by simp_all
  consider "uint x = uint y" | "uint x < uint y" | "uint y < uint x" by linarith
  then show ?case
  proof cases
    case 2
    then have "(uint x + 1) * ?k \<le> uint y * ?k" by (intro mult_right_mono) simp_all
    then show ?thesis using 2 b 1(2) by (simp add: algebra_simps sgn_if)
  next
    case 3
    then have "(uint y + 1) * ?k \<le> uint x * ?k" by (intro mult_right_mono) simp_all
    then show ?thesis using 3 b 1(2) by (simp add: algebra_simps sgn_if)
  qed (use 1 in simp)
qed simp_all

lemma memcmp_var_eq_0_iff: "length as = length bs \<Longrightarrow> secp256k1_memcmp_var as bs = 0 \<longleftrightarrow> as = bs"
  using memcmp_var_sign [of as bs] be_val_inj [of as bs] by (auto simp: sgn_if split: if_splits)

lemma foldl_or_eq_0_iff: "foldl (OR) acc s = 0 \<longleftrightarrow> acc = 0 \<and> (\<forall>x\<in>set s. x = (0 :: 'a::len word))"
  by (induction s arbitrary: acc) (auto simp: or_eq_0_iff)

lemma is_zero_array_iff: "secp256k1_is_zero_array s \<longleftrightarrow> s = replicate (length s) 0"
  by (metis foldl_or_eq_0_iff in_set_replicate replicate_length_same secp256k1_is_zero_array_def)

lemma memczero_eq: "secp256k1_memczero s flag = (if flag then secp256k1_memclear s else s)"
  by (cases flag) (simp_all add: secp256k1_memczero_def secp256k1_memclear_def map_replicate_const)

end
