(* ===== verification/Field_5x52_Bytes.thy ===== *)
theory Field_5x52_Bytes
  imports Field_5x52_Ops Bytes
begin

text \<open>
  The external representations of a field element: 32 big-endian bytes
  (\<open>secp256k1_fe_set_b32_mod\<close>, \<open>secp256k1_fe_set_b32_limit\<close>, \<open>secp256k1_fe_get_b32\<close>) and the
  packed four-word storage form. Each conversion is characterised by the integer it preserves,
  which gives the round trips.
\<close>

unbundle bit_operations_syntax

section \<open>Bytes to limbs\<close>

lemma be_val_32:
  assumes "length a = 32"
  shows "be_val a = be_val [a!0, a!1, a!2, a!3, a!4, a!5, a!6, a!7, a!8, a!9, a!10, a!11, a!12, a!13, a!14, a!15,
    a!16, a!17, a!18, a!19, a!20, a!21, a!22, a!23, a!24, a!25, a!26, a!27, a!28, a!29, a!30, a!31]"
proof -
  have "a = map ((!) a) [0..<32]" using map_nth [of a] assms by simp
  then have "be_val a = be_val (map ((!) a) [0..<32])" by (rule arg_cong)
  moreover have "[0..<32] = [0, 1, 2, 3, 4, 5, 6, 7, 8, 9, 10, 11, 12, 13, 14, 15, 16, 17, 18, 19, 20, 21, 22, 23, 24, 25, 26, 27, 28, 29, 30, 31]" by code_simp
  ultimately show ?thesis by (simp only: list.map)
qed

lemma uint_nibbles:
  "uint (ucast (b AND 0xF) :: u64) = uint b mod 16" "uint (ucast (drop_bit 4 b AND 0xF) :: u64) = uint b div 16"
  for b :: u8
  using u8_bounds [of b] by (simp_all add: uint_and_literals uint_shiftr div_pow_mod [of _ 4 4, simplified])

lemma uint_or_low_byte:
  "uint (ucast b OR w) = uint b + uint w" if "2 ^ 8 dvd uint w" for b :: u8 and w :: u64
  using that u8_bounds [of b] by (subst uint_or_disjoint [of _ 8]) (auto elim: dvdE)

lemma uint_or_low_nibble:
  "uint (ucast (drop_bit 4 b AND 0xF) OR w) = uint b div 16 + uint w" if "2 ^ 4 dvd uint w" for b :: u8 and w :: u64
  using that u8_bounds [of b] div_pow_less [of "uint b" 8 4]
  by (subst uint_or_disjoint [of _ 4]; (subst uint_nibbles)?) auto

lemma uint_or_mid_byte:
  "uint (push_bit k (ucast b) OR w) = uint b * 2 ^ k + uint w" if "2 ^ (k + 8) dvd uint w" "k \<le> 56" for b :: u8 and w :: u64
proof (subst uint_or_disjoint [of _ "k + 8"])
  have "uint b * 2 ^ k < 2 ^ 8 * 2 ^ k" using u8_bounds [of b] by (intro mult_strict_right_mono) simp_all
  then show "uint (push_bit k (ucast b :: u64)) < 2 ^ (k + 8)"
    using that by (simp add: uint_shift_byte64 power_add)
qed (use that in \<open>auto simp: uint_shift_byte64 elim: dvdE\<close>)

lemma uint_shift_nibble: "uint (push_bit 48 (ucast (b AND 0xF) :: u64)) = uint b mod 16 * 2 ^ 48" for b :: u8
  by (simp add: uint_shift_byte64 uint_and_literals)

lemmas limb_bytes = uint_or_low_byte uint_or_low_nibble uint_or_mid_byte uint_shift_nibble uint_shift_byte64
  dvd_add dvd_mult

lemma fe_set_b32_limbs:
  "uint (fe_n0 (secp256k1_fe_set_b32_mod a)) = uint (a!31) + uint (a!30) * 2^8 + uint (a!29) * 2^16 +
     uint (a!28) * 2^24 + uint (a!27) * 2^32 + uint (a!26) * 2^40 + uint (a!25) mod 16 * 2^48"
  "uint (fe_n1 (secp256k1_fe_set_b32_mod a)) = uint (a!25) div 16 + uint (a!24) * 2^4 + uint (a!23) * 2^12 +
     uint (a!22) * 2^20 + uint (a!21) * 2^28 + uint (a!20) * 2^36 + uint (a!19) * 2^44"
  "uint (fe_n2 (secp256k1_fe_set_b32_mod a)) = uint (a!18) + uint (a!17) * 2^8 + uint (a!16) * 2^16 +
     uint (a!15) * 2^24 + uint (a!14) * 2^32 + uint (a!13) * 2^40 + uint (a!12) mod 16 * 2^48"
  "uint (fe_n3 (secp256k1_fe_set_b32_mod a)) = uint (a!12) div 16 + uint (a!11) * 2^4 + uint (a!10) * 2^12 +
     uint (a!9) * 2^20 + uint (a!8) * 2^28 + uint (a!7) * 2^36 + uint (a!6) * 2^44"
  "uint (fe_n4 (secp256k1_fe_set_b32_mod a)) = uint (a!5) + uint (a!4) * 2^8 + uint (a!3) * 2^16 +
     uint (a!2) * 2^24 + uint (a!1) * 2^32 + uint (a!0) * 2^40"
  by (simp_all add: secp256k1_fe_set_b32_mod_def limb_bytes)

lemma fe_set_b32_bounds:
  "uint (fe_n0 (secp256k1_fe_set_b32_mod a)) < 2 ^ 52" "uint (fe_n1 (secp256k1_fe_set_b32_mod a)) < 2 ^ 52"
  "uint (fe_n2 (secp256k1_fe_set_b32_mod a)) < 2 ^ 52" "uint (fe_n3 (secp256k1_fe_set_b32_mod a)) < 2 ^ 52"
  "uint (fe_n4 (secp256k1_fe_set_b32_mod a)) < 2 ^ 48"
proof -
  have b: "uint (a ! i) \<le> 255" "uint (a ! i) mod 16 \<le> 15" "uint (a ! i) div 16 \<le> 15" for i
    using u8_bounds [of "a ! i"] by simp_all
  show "uint (fe_n0 (secp256k1_fe_set_b32_mod a)) < 2 ^ 52"
    unfolding fe_set_b32_limbs using b(1) [of 31] b(1) [of 30] b(1) [of 29] b(1) [of 28] b(1) [of 27] b(1) [of 26] b(2) [of 25] by simp
  show "uint (fe_n1 (secp256k1_fe_set_b32_mod a)) < 2 ^ 52"
    unfolding fe_set_b32_limbs using b(3) [of 25] b(1) [of 24] b(1) [of 23] b(1) [of 22] b(1) [of 21] b(1) [of 20] b(1) [of 19] by simp
  show "uint (fe_n2 (secp256k1_fe_set_b32_mod a)) < 2 ^ 52"
    unfolding fe_set_b32_limbs using b(1) [of 18] b(1) [of 17] b(1) [of 16] b(1) [of 15] b(1) [of 14] b(1) [of 13] b(2) [of 12] by simp
  show "uint (fe_n3 (secp256k1_fe_set_b32_mod a)) < 2 ^ 52"
    unfolding fe_set_b32_limbs using b(3) [of 12] b(1) [of 11] b(1) [of 10] b(1) [of 9] b(1) [of 8] b(1) [of 7] b(1) [of 6] by simp
  show "uint (fe_n4 (secp256k1_fe_set_b32_mod a)) < 2 ^ 48"
    unfolding fe_set_b32_limbs using b(1) [of 5] b(1) [of 4] b(1) [of 3] b(1) [of 2] b(1) [of 1] b(1) [of 0] by simp
qed

lemma fe_set_b32_mod_val:
  assumes "length a = 32"
  shows "fe_val (secp256k1_fe_set_b32_mod a) = be_val a"
  unfolding be_val_32 [OF assms] fe_val_def fe_set_b32_limbs
  by (simp add: minus_mult_div_eq_mod [symmetric, of _ 16])

lemma fe_rep_set_b32: "length a = 32 \<Longrightarrow> fe_rep 1 (secp256k1_fe_set_b32_mod a) (be_val a)"
  using fe_set_b32_bounds [of a] by (simp add: fe_rep_def fe_magnitude_def fe_set_b32_mod_val)

lemma fe_set_b32_limit_iff:
  assumes "length a = 32"
  shows "snd (secp256k1_fe_set_b32_limit a) \<longleftrightarrow> be_val a < secp256k1_p"
    and "fst (secp256k1_fe_set_b32_limit a) = secp256k1_fe_set_b32_mod a"
    and "snd (secp256k1_fe_set_b32_limit a) \<longleftrightarrow> fe_normalized (secp256k1_fe_set_b32_mod a)"
proof -
  let ?r = "secp256k1_fe_set_b32_mod a"
  have "snd (secp256k1_fe_set_b32_limit a) \<longleftrightarrow> fe_normalized ?r"
    using fe_set_b32_bounds [of a]
    unfolding secp256k1_fe_set_b32_limit_def fe_normalized_def Let_def snd_conv
    by (auto simp: word_le_def word_less_def)
  moreover have "fe_normalized ?r \<longleftrightarrow> be_val a < secp256k1_p"
    using fe_set_b32_bounds [of a] by (simp only: fe_normalized_iff fe_set_b32_mod_val [OF assms]) simp
  ultimately show "snd (secp256k1_fe_set_b32_limit a) \<longleftrightarrow> be_val a < secp256k1_p"
    "snd (secp256k1_fe_set_b32_limit a) \<longleftrightarrow> fe_normalized ?r" by simp_all
  show "fst (secp256k1_fe_set_b32_limit a) = ?r" by (simp add: secp256k1_fe_set_b32_limit_def Let_def)
qed

section \<open>Limbs to bytes\<close>

lemma fe_set_b32_val_bytes_inj:
  assumes "length a = 32" "length b = 32" "secp256k1_fe_set_b32_mod a = secp256k1_fe_set_b32_mod b"
  shows "a = b"
  using assms fe_set_b32_mod_val [of a] fe_set_b32_mod_val [of b] by (intro be_val_inj) simp_all

lemma length_get_b32 [simp]: "length (secp256k1_fe_get_b32 a) = 32"
  by (simp add: secp256k1_fe_get_b32_def)

lemma uint_byte_of: "uint (ucast (x AND 0xFF) :: u8) = uint x mod 2 ^ 8" for x :: u64
  by (simp add: uint_ucast_to_u8 uint_and_literals)

lemma uint_byte_joint:
  "uint (ucast ((x AND 0xF) OR push_bit 4 (y AND 0xF)) :: u8) = uint x mod 2 ^ 4 + 2 ^ 4 * (uint y mod 2 ^ 4)"
  for x y :: u64
proof -
  have s: "uint (push_bit 4 (y AND 0xF)) = uint y mod 2 ^ 4 * 2 ^ 4"
    unfolding uint_shiftl uint_and_literals by (simp add: mod_mult_self1_is_0 mult_mod_left [symmetric])
  have "uint ((x AND 0xF) OR push_bit 4 (y AND 0xF)) = uint x mod 2 ^ 4 + uint y mod 2 ^ 4 * 2 ^ 4"
    by (subst uint_or_disjoint [of _ 4]) (simp_all only: s uint_and_literals, simp_all)
  moreover have "uint x mod 2 ^ 4 + uint y mod 2 ^ 4 * 2 ^ 4 < 2 ^ 8"
    using pos_mod_bound [of "2 ^ 4" "uint x"] pos_mod_bound [of "2 ^ 4" "uint y"] by simp
  ultimately show ?thesis by (simp add: uint_ucast_to_u8)
qed

lemmas bytes_as_div = mod_as_div [of _ 8, simplified] mod_as_div [of _ 4, simplified] zdiv_zmult2_eq [symmetric]

text \<open>Two 52-bit limbs fill thirteen bytes, the top limb six.\<close>

definition limb_pair_bytes :: "u64 \<Rightarrow> u64 \<Rightarrow> bytes" where
  "limb_pair_bytes y x =
    [ucast (drop_bit 44 y AND 0xFF), ucast (drop_bit 36 y AND 0xFF), ucast (drop_bit 28 y AND 0xFF),
     ucast (drop_bit 20 y AND 0xFF), ucast (drop_bit 12 y AND 0xFF), ucast (drop_bit 4 y AND 0xFF),
     ucast ((drop_bit 48 x AND 0xF) OR push_bit 4 (y AND 0xF)),
     ucast (drop_bit 40 x AND 0xFF), ucast (drop_bit 32 x AND 0xFF), ucast (drop_bit 24 x AND 0xFF),
     ucast (drop_bit 16 x AND 0xFF), ucast (drop_bit 8 x AND 0xFF), ucast (x AND 0xFF)]"

definition limb_top_bytes :: "u64 \<Rightarrow> bytes" where
  "limb_top_bytes z =
    [ucast (drop_bit 40 z AND 0xFF), ucast (drop_bit 32 z AND 0xFF), ucast (drop_bit 24 z AND 0xFF),
     ucast (drop_bit 16 z AND 0xFF), ucast (drop_bit 8 z AND 0xFF), ucast (z AND 0xFF)]"

lemma get_b32_parts:
  "secp256k1_fe_get_b32 a =
     limb_top_bytes (fe_n4 a) @ limb_pair_bytes (fe_n3 a) (fe_n2 a) @ limb_pair_bytes (fe_n1 a) (fe_n0 a)"
  by (simp add: secp256k1_fe_get_b32_def limb_top_bytes_def limb_pair_bytes_def)

lemma be_val_limb_pair:
  assumes "uint x < 2 ^ 52" "uint y < 2 ^ 52"
  shows "be_val (limb_pair_bytes y x) = uint x + 2 ^ 52 * uint y"
proof -
  have z: "uint x div 2 ^ 48 mod 2 ^ 4 = uint x div 2 ^ 48" "uint y div 2 ^ 52 = 0"
    using assms by (simp_all add: div_pow_mod [of _ 48 4, simplified])
  show ?thesis
    unfolding limb_pair_bytes_def be_val_Cons be_val_Nil uint_byte_of uint_byte_joint uint_shiftr z
    using z(2) by (simp add: bytes_as_div)
qed

lemma be_val_limb_top: "uint z < 2 ^ 48 \<Longrightarrow> be_val (limb_top_bytes z) = uint z"
  unfolding limb_top_bytes_def be_val_Cons be_val_Nil uint_byte_of uint_shiftr
  by (simp add: bytes_as_div)

lemma fe_get_b32_val:
  assumes "uint (fe_n0 a) < 2 ^ 52" "uint (fe_n1 a) < 2 ^ 52" "uint (fe_n2 a) < 2 ^ 52"
    "uint (fe_n3 a) < 2 ^ 52" "uint (fe_n4 a) < 2 ^ 48"
  shows "be_val (secp256k1_fe_get_b32 a) = fe_val a"
proof -
  have "length (limb_pair_bytes y x) = 13" for x y by (simp add: limb_pair_bytes_def)
  then show ?thesis
    using assms by (simp add: get_b32_parts be_val_append be_val_limb_pair be_val_limb_top fe_val_def)
qed

lemma fe_get_set_b32: "length a = 32 \<Longrightarrow> secp256k1_fe_get_b32 (secp256k1_fe_set_b32_mod a) = a"
  using fe_set_b32_bounds [of a] fe_set_b32_mod_val [of a] fe_get_b32_val [of "secp256k1_fe_set_b32_mod a"]
  by (intro be_val_inj) simp_all

lemma fe_set_get_b32: "fe_normalized a \<Longrightarrow> secp256k1_fe_set_b32_limit (secp256k1_fe_get_b32 a) = (a, True)"
proof -
  assume n: "fe_normalized a"
  let ?b = "secp256k1_fe_get_b32 a"
  have v: "be_val ?b = fe_val a" using n by (intro fe_get_b32_val) (auto simp: fe_normalized_iff)
  have "secp256k1_fe_set_b32_mod ?b = a"
    using n fe_set_b32_bounds [of ?b] fe_set_b32_mod_val [of ?b] v
    by (intro fe_val_inj) (simp_all add: fe_normalized_iff)
  moreover have "snd (secp256k1_fe_set_b32_limit ?b)"
    using n v fe_set_b32_limit_iff(1) [of ?b] by (simp add: fe_normalized_iff)
  ultimately show ?thesis using fe_set_b32_limit_iff(2) [of ?b] by (simp add: prod_eq_iff)
qed

section \<open>Storage\<close>

lemma st_val_to_storage:
  assumes "fe_normalized a"
  shows "st_val (secp256k1_fe_to_storage a) = fe_val a"
proof -
  note lims = assms [unfolded fe_normalized_iff]
  have d: "uint (fe_n1 a) div 2 ^ 12 < 2 ^ 40" "uint (fe_n2 a) div 2 ^ 24 < 2 ^ 28" "uint (fe_n3 a) div 2 ^ 36 < 2 ^ 16"
    using lims div_pow_less [of _ 52 12] div_pow_less [of _ 52 24] div_pow_less [of _ 52 36] by simp_all
  have o: "uint (x OR push_bit k y) = uint x + uint y mod 2 ^ (64 - k) * 2 ^ k"
    if "uint x < 2 ^ k" "k \<le> 64" for x y :: u64 and k
  proof -
    have "uint (push_bit k y) = uint y mod 2 ^ (64 - k) * 2 ^ k"
      unfolding uint_shiftl using that(2) shiftl_mod [of k 64 "uint y"] by simp
    with that(1) show ?thesis by (subst uint_or_disjoint [of _ k]) simp_all
  qed
  have "uint (fe_n0 a) + uint (fe_n1 a) mod 2 ^ 12 * 2 ^ 52 = uint (st_n0 (secp256k1_fe_to_storage a))"
    using lims by (simp add: secp256k1_fe_to_storage_def o)
  moreover have "uint (fe_n1 a) div 2 ^ 12 + uint (fe_n2 a) mod 2 ^ 24 * 2 ^ 40 = uint (st_n1 (secp256k1_fe_to_storage a))"
    using d by (simp add: secp256k1_fe_to_storage_def o uint_shiftr)
  moreover have "uint (fe_n2 a) div 2 ^ 24 + uint (fe_n3 a) mod 2 ^ 36 * 2 ^ 28 = uint (st_n2 (secp256k1_fe_to_storage a))"
    using d by (simp add: secp256k1_fe_to_storage_def o uint_shiftr)
  moreover have "uint (fe_n3 a) div 2 ^ 36 + uint (fe_n4 a) mod 2 ^ 48 * 2 ^ 16 = uint (st_n3 (secp256k1_fe_to_storage a))"
    using d by (simp add: secp256k1_fe_to_storage_def o uint_shiftr)
  moreover have "uint (fe_n4 a) mod 2 ^ 48 = uint (fe_n4 a)" using lims by simp
  ultimately show ?thesis
    unfolding st_val_def fe_val_def
    by (simp add: mod_as_div [of _ 12, simplified] mod_as_div [of _ 24, simplified] mod_as_div [of _ 36, simplified])
qed

lemma from_storage_limbs:
  "uint (fe_n0 (secp256k1_fe_from_storage s)) = uint (st_n0 s) mod 2 ^ 52"
  "uint (fe_n1 (secp256k1_fe_from_storage s)) = uint (st_n0 s) div 2 ^ 52 + uint (st_n1 s) mod 2 ^ 40 * 2 ^ 12"
  "uint (fe_n2 (secp256k1_fe_from_storage s)) = uint (st_n1 s) div 2 ^ 40 + uint (st_n2 s) mod 2 ^ 28 * 2 ^ 24"
  "uint (fe_n3 (secp256k1_fe_from_storage s)) = uint (st_n2 s) div 2 ^ 28 + uint (st_n3 s) mod 2 ^ 16 * 2 ^ 36"
  "uint (fe_n4 (secp256k1_fe_from_storage s)) = uint (st_n3 s) div 2 ^ 16"
proof -
  have o: "uint (drop_bit j x OR (push_bit k y AND 0xFFFFFFFFFFFFF)) = uint x div 2 ^ j + uint y mod 2 ^ (52 - k) * 2 ^ k"
    if "j + k = 64" "k \<le> 52" for x y :: u64 and j k
  proof -
    have "uint (push_bit k y AND 0xFFFFFFFFFFFFF) = uint y * 2 ^ k mod 2 ^ 64 mod 2 ^ 52"
      by (simp only: uint_and_literals uint_shiftl) simp
    also have "\<dots> = uint y * 2 ^ k mod 2 ^ 52" by (simp add: mod_mod_cancel)
    also have "\<dots> = uint y mod 2 ^ (52 - k) * 2 ^ k"
      using that(2) by (rule shiftl_mod)
    finally have p: "uint (push_bit k y AND 0xFFFFFFFFFFFFF) = uint y mod 2 ^ (52 - k) * 2 ^ k" .
    have "uint x div 2 ^ j < 2 ^ k" using div_pow_less [of "uint x" "j + k" j] u64_bounds [of x] that(1) [symmetric] by simp
    with p show ?thesis by (subst uint_or_disjoint [of _ k]) (simp_all add: uint_shiftr)
  qed
  show "uint (fe_n0 (secp256k1_fe_from_storage s)) = uint (st_n0 s) mod 2 ^ 52"
    by (simp add: secp256k1_fe_from_storage_def uint_and_literals)
  show "uint (fe_n1 (secp256k1_fe_from_storage s)) = uint (st_n0 s) div 2 ^ 52 + uint (st_n1 s) mod 2 ^ 40 * 2 ^ 12"
    "uint (fe_n2 (secp256k1_fe_from_storage s)) = uint (st_n1 s) div 2 ^ 40 + uint (st_n2 s) mod 2 ^ 28 * 2 ^ 24"
    "uint (fe_n3 (secp256k1_fe_from_storage s)) = uint (st_n2 s) div 2 ^ 28 + uint (st_n3 s) mod 2 ^ 16 * 2 ^ 36"
    "uint (fe_n4 (secp256k1_fe_from_storage s)) = uint (st_n3 s) div 2 ^ 16"
    by (simp_all add: secp256k1_fe_from_storage_def o uint_shiftr)
qed

lemma from_storage_val: "fe_val (secp256k1_fe_from_storage s) = st_val s"
  unfolding fe_val_def st_val_def from_storage_limbs mod_as_div by simp

lemma from_storage_bounds:
  "uint (fe_n0 (secp256k1_fe_from_storage s)) < 2 ^ 52" "uint (fe_n1 (secp256k1_fe_from_storage s)) < 2 ^ 52"
  "uint (fe_n2 (secp256k1_fe_from_storage s)) < 2 ^ 52" "uint (fe_n3 (secp256k1_fe_from_storage s)) < 2 ^ 52"
  "uint (fe_n4 (secp256k1_fe_from_storage s)) < 2 ^ 48"
proof -
  have m: "x mod 2 ^ k \<le> 2 ^ k - 1" for x :: int and k using pos_mod_bound [of "2 ^ k" x] by simp
  have d: "uint x div 2 ^ k < 2 ^ (64 - k)" if "k \<le> 64" for x :: u64 and k
    using that u64_bounds [of x] by (intro div_pow_less) simp_all
  show "uint (fe_n0 (secp256k1_fe_from_storage s)) < 2 ^ 52" "uint (fe_n4 (secp256k1_fe_from_storage s)) < 2 ^ 48"
    using d [of 16 "st_n3 s"] by (simp_all add: from_storage_limbs)
  show "uint (fe_n1 (secp256k1_fe_from_storage s)) < 2 ^ 52" "uint (fe_n2 (secp256k1_fe_from_storage s)) < 2 ^ 52"
    "uint (fe_n3 (secp256k1_fe_from_storage s)) < 2 ^ 52"
    using m [of "uint (st_n1 s)" 40] d [of 52 "st_n0 s"] m [of "uint (st_n2 s)" 28] d [of 40 "st_n1 s"]
      m [of "uint (st_n3 s)" 16] d [of 28 "st_n2 s"]
    by (simp_all add: from_storage_limbs)
qed

lemma fe_rep_from_storage: "fe_rep 1 (secp256k1_fe_from_storage s) (st_val s)"
  using from_storage_bounds [of s] by (simp add: fe_rep_def fe_magnitude_def from_storage_val)

lemma fe_from_to_storage: "fe_normalized a \<Longrightarrow> secp256k1_fe_from_storage (secp256k1_fe_to_storage a) = a"
  using from_storage_bounds [of "secp256k1_fe_to_storage a"]
  by (intro fe_val_inj) (simp_all add: from_storage_val st_val_to_storage fe_normalized_iff)

section \<open>Comparison\<close>

lemma cmp_limbs_snoc:
  assumes "cmp_limbs xs = sgn (X - Y)" "uint a < k" "uint b < k"
  shows "cmp_limbs (xs @ [(a, b)]) = sgn (uint a + k * X - (uint b + k * Y))"
proof -
  have "cmp_limbs (xs @ [(a, b)]) = (if cmp_limbs xs \<noteq> 0 then cmp_limbs xs else cmp_limbs [(a, b)])"
    by (induction xs rule: cmp_limbs.induct) auto
  moreover have "cmp_limbs [(a, b)] = sgn (uint a - uint b)"
    by (simp add: word_less_def sgn_if)
  ultimately show ?thesis
    using assms by (simp add: sgn_lex)
qed

lemma fe_cmp_var_sign:
  assumes "fe_normalized a" "fe_normalized b"
  shows "secp256k1_fe_cmp_var a b = sgn (fe_val a - fe_val b)"
proof -
  have v: "fe_val x = uint (fe_n0 x) + 2 ^ 52 * (uint (fe_n1 x) + 2 ^ 52 * (uint (fe_n2 x) + 2 ^ 52 *
      (uint (fe_n3 x) + 2 ^ 52 * (uint (fe_n4 x) + 2 ^ 52 * 0))))" for x
    by (simp add: fe_val_def)
  have l: "secp256k1_fe_cmp_var a b = cmp_limbs ((((([] @ [(fe_n4 a, fe_n4 b)]) @ [(fe_n3 a, fe_n3 b)]) @
      [(fe_n2 a, fe_n2 b)]) @ [(fe_n1 a, fe_n1 b)]) @ [(fe_n0 a, fe_n0 b)])"
    by (simp add: secp256k1_fe_cmp_var_def)
  show ?thesis
    unfolding v l by (intro cmp_limbs_snoc) (use assms in \<open>auto simp: fe_normalized_iff\<close>)
qed

end
