(* ===== verification/Field_5x52_Mul.thy ===== *)
theory Field_5x52_Mul
  imports Field_5x52
begin

text \<open>
  Multiplication and squaring of field elements,
  \<open>src/Vendor/secp256k1/src/field_5x52_int128_impl.h\<close>. Both routines gather the nine column
  sums of the schoolbook product in two 128-bit accumulators and fold the upper columns down
  with \<open>R = 2^260 mod p\<close>. Both are shown equal to one routine over the column sums
  (\<open>fe_fold_columns\<close>), whose arithmetic is analysed once: no accumulator overflows and the
  five result limbs stand for the product modulo \<open>p\<close>.
\<close>

unbundle bit_operations_syntax

section \<open>The routines\<close>

definition secp256k1_fe_mul :: "secp256k1_fe \<Rightarrow> secp256k1_fe \<Rightarrow> secp256k1_fe" where
  "secp256k1_fe_mul a b =
    (let a0 = fe_n0 a; a1 = fe_n1 a; a2 = fe_n2 a; a3 = fe_n3 a; a4 = fe_n4 a;
         b0 = fe_n0 b; b1 = fe_n1 b; b2 = fe_n2 b; b3 = fe_n3 b; b4 = fe_n4 b;
         M = 0xFFFFFFFFFFFFF; R = 0x1000003D10;
         d = secp256k1_u128_mul a0 b3;
         d = secp256k1_u128_accum_mul d a1 b2;
         d = secp256k1_u128_accum_mul d a2 b1;
         d = secp256k1_u128_accum_mul d a3 b0;
         c = secp256k1_u128_mul a4 b4;
         d = secp256k1_u128_accum_mul d R (secp256k1_u128_to_u64 c);
         c = secp256k1_u128_rshift c 64;
         t3 = secp256k1_u128_to_u64 d AND M;
         d = secp256k1_u128_rshift d 52;
         d = secp256k1_u128_accum_mul d a0 b4;
         d = secp256k1_u128_accum_mul d a1 b3;
         d = secp256k1_u128_accum_mul d a2 b2;
         d = secp256k1_u128_accum_mul d a3 b1;
         d = secp256k1_u128_accum_mul d a4 b0;
         d = secp256k1_u128_accum_mul d (push_bit 12 R) (secp256k1_u128_to_u64 c);
         t4 = secp256k1_u128_to_u64 d AND M;
         d = secp256k1_u128_rshift d 52;
         tx = drop_bit 48 t4;
         t4 = t4 AND drop_bit 4 M;
         c = secp256k1_u128_mul a0 b0;
         d = secp256k1_u128_accum_mul d a1 b4;
         d = secp256k1_u128_accum_mul d a2 b3;
         d = secp256k1_u128_accum_mul d a3 b2;
         d = secp256k1_u128_accum_mul d a4 b1;
         u0 = secp256k1_u128_to_u64 d AND M;
         d = secp256k1_u128_rshift d 52;
         u0 = push_bit 4 u0 OR tx;
         c = secp256k1_u128_accum_mul c u0 (drop_bit 4 R);
         r0 = secp256k1_u128_to_u64 c AND M;
         c = secp256k1_u128_rshift c 52;
         c = secp256k1_u128_accum_mul c a0 b1;
         c = secp256k1_u128_accum_mul c a1 b0;
         d = secp256k1_u128_accum_mul d a2 b4;
         d = secp256k1_u128_accum_mul d a3 b3;
         d = secp256k1_u128_accum_mul d a4 b2;
         c = secp256k1_u128_accum_mul c (secp256k1_u128_to_u64 d AND M) R;
         d = secp256k1_u128_rshift d 52;
         r1 = secp256k1_u128_to_u64 c AND M;
         c = secp256k1_u128_rshift c 52;
         c = secp256k1_u128_accum_mul c a0 b2;
         c = secp256k1_u128_accum_mul c a1 b1;
         c = secp256k1_u128_accum_mul c a2 b0;
         d = secp256k1_u128_accum_mul d a3 b4;
         d = secp256k1_u128_accum_mul d a4 b3;
         c = secp256k1_u128_accum_mul c R (secp256k1_u128_to_u64 d);
         d = secp256k1_u128_rshift d 64;
         r2 = secp256k1_u128_to_u64 c AND M;
         c = secp256k1_u128_rshift c 52;
         c = secp256k1_u128_accum_mul c (push_bit 12 R) (secp256k1_u128_to_u64 d);
         c = secp256k1_u128_accum_u64 c t3;
         r3 = secp256k1_u128_to_u64 c AND M;
         c = secp256k1_u128_rshift c 52;
         r4 = secp256k1_u128_to_u64 c + t4
     in mk_fe r0 r1 r2 r3 r4)"

definition secp256k1_fe_sqr :: "secp256k1_fe \<Rightarrow> secp256k1_fe" where
  "secp256k1_fe_sqr a =
    (let a0 = fe_n0 a; a1 = fe_n1 a; a2 = fe_n2 a; a3 = fe_n3 a; a4 = fe_n4 a;
         M = 0xFFFFFFFFFFFFF; R = 0x1000003D10;
         d = secp256k1_u128_mul (a0 * 2) a3;
         d = secp256k1_u128_accum_mul d (a1 * 2) a2;
         c = secp256k1_u128_mul a4 a4;
         d = secp256k1_u128_accum_mul d R (secp256k1_u128_to_u64 c);
         c = secp256k1_u128_rshift c 64;
         t3 = secp256k1_u128_to_u64 d AND M;
         d = secp256k1_u128_rshift d 52;
         a4 = a4 * 2;
         d = secp256k1_u128_accum_mul d a0 a4;
         d = secp256k1_u128_accum_mul d (a1 * 2) a3;
         d = secp256k1_u128_accum_mul d a2 a2;
         d = secp256k1_u128_accum_mul d (push_bit 12 R) (secp256k1_u128_to_u64 c);
         t4 = secp256k1_u128_to_u64 d AND M;
         d = secp256k1_u128_rshift d 52;
         tx = drop_bit 48 t4;
         t4 = t4 AND drop_bit 4 M;
         c = secp256k1_u128_mul a0 a0;
         d = secp256k1_u128_accum_mul d a1 a4;
         d = secp256k1_u128_accum_mul d (a2 * 2) a3;
         u0 = secp256k1_u128_to_u64 d AND M;
         d = secp256k1_u128_rshift d 52;
         u0 = push_bit 4 u0 OR tx;
         c = secp256k1_u128_accum_mul c u0 (drop_bit 4 R);
         r0 = secp256k1_u128_to_u64 c AND M;
         c = secp256k1_u128_rshift c 52;
         a0 = a0 * 2;
         c = secp256k1_u128_accum_mul c a0 a1;
         d = secp256k1_u128_accum_mul d a2 a4;
         d = secp256k1_u128_accum_mul d a3 a3;
         c = secp256k1_u128_accum_mul c (secp256k1_u128_to_u64 d AND M) R;
         d = secp256k1_u128_rshift d 52;
         r1 = secp256k1_u128_to_u64 c AND M;
         c = secp256k1_u128_rshift c 52;
         c = secp256k1_u128_accum_mul c a0 a2;
         c = secp256k1_u128_accum_mul c a1 a1;
         d = secp256k1_u128_accum_mul d a3 a4;
         c = secp256k1_u128_accum_mul c R (secp256k1_u128_to_u64 d);
         d = secp256k1_u128_rshift d 64;
         r2 = secp256k1_u128_to_u64 c AND M;
         c = secp256k1_u128_rshift c 52;
         c = secp256k1_u128_accum_mul c (push_bit 12 R) (secp256k1_u128_to_u64 d);
         c = secp256k1_u128_accum_u64 c t3;
         r3 = secp256k1_u128_to_u64 c AND M;
         c = secp256k1_u128_rshift c 52;
         r4 = secp256k1_u128_to_u64 c + t4
     in mk_fe r0 r1 r2 r3 r4)"

section \<open>One routine over the column sums\<close>

definition u128_lo52 :: "u128 \<Rightarrow> u64" where
  "u128_lo52 d = secp256k1_u128_to_u64 d AND 0xFFFFFFFFFFFFF"

lemma uint_u128_lo52 [simp]: "uint (u128_lo52 d) = uint d mod 2 ^ 52"
proof -
  have "(0xFFFFFFFFFFFFF :: u64) = mask 52" by (simp add: mask_eq_exp_minus_1)
  then show ?thesis
    unfolding u128_lo52_def by (simp only: uint_and_mask uint_u128_to_u64) (simp add: mod_mod_cancel)
qed

definition fe_fold_columns ::
    "u128 \<Rightarrow> u128 \<Rightarrow> u128 \<Rightarrow> u128 \<Rightarrow> u128 \<Rightarrow> u128 \<Rightarrow> u128 \<Rightarrow> u128 \<Rightarrow> u128 \<Rightarrow> secp256k1_fe" where
  "fe_fold_columns S0 S1 S2 S3 S4 S5 S6 S7 S8 =
    (let d1 = secp256k1_u128_accum_mul S3 0x1000003D10 (secp256k1_u128_to_u64 S8);
         ch = secp256k1_u128_rshift S8 64;
         t3 = u128_lo52 d1;
         d2 = secp256k1_u128_accum_mul (secp256k1_u128_rshift d1 52 + S4) 0x1000003D10000
                (secp256k1_u128_to_u64 ch);
         w = u128_lo52 d2;
         d3 = secp256k1_u128_rshift d2 52 + S5;
         u0 = push_bit 4 (u128_lo52 d3) OR drop_bit 48 w;
         c1 = secp256k1_u128_accum_mul S0 u0 0x1000003D1;
         d4 = secp256k1_u128_rshift d3 52 + S6;
         c2 = secp256k1_u128_accum_mul (secp256k1_u128_rshift c1 52 + S1) (u128_lo52 d4) 0x1000003D10;
         d5 = secp256k1_u128_rshift d4 52 + S7;
         c3 = secp256k1_u128_accum_mul (secp256k1_u128_rshift c2 52 + S2) 0x1000003D10
                (secp256k1_u128_to_u64 d5);
         dh = secp256k1_u128_rshift d5 64;
         c4 = secp256k1_u128_accum_u64 (secp256k1_u128_accum_mul (secp256k1_u128_rshift c3 52)
                0x1000003D10000 (secp256k1_u128_to_u64 dh)) t3
     in mk_fe (u128_lo52 c1) (u128_lo52 c2) (u128_lo52 c3) (u128_lo52 c4)
          (secp256k1_u128_to_u64 (secp256k1_u128_rshift c4 52) + (w AND 0xFFFFFFFFFFFF)))"

definition u128_prod :: "u64 \<Rightarrow> u64 \<Rightarrow> u128" where
  "u128_prod a b = ucast a * ucast b"

lemma fe_mul_consts:
  "drop_bit 4 (0x1000003D10 :: u64) = 0x1000003D1"
  "push_bit 12 (0x1000003D10 :: u64) = 0x1000003D10000"
  "drop_bit 4 (0xFFFFFFFFFFFFF :: u64) = 0xFFFFFFFFFFFF"
  by (simp_all add: word_uint_eq_iff uint_shiftr uint_shiftl)

lemmas fe_columns_unfold =
  secp256k1_u128_mul_def secp256k1_u128_accum_mul_def u128_prod_def [symmetric]
  u128_lo52_def [symmetric] fe_mul_consts

lemma fe_mul_columns:
  "secp256k1_fe_mul (mk_fe a0 a1 a2 a3 a4) (mk_fe b0 b1 b2 b3 b4) = fe_fold_columns
     (u128_prod a0 b0)
     (u128_prod a0 b1 + u128_prod a1 b0)
     (u128_prod a0 b2 + u128_prod a1 b1 + u128_prod a2 b0)
     (u128_prod a0 b3 + u128_prod a1 b2 + u128_prod a2 b1 + u128_prod a3 b0)
     (u128_prod a0 b4 + u128_prod a1 b3 + u128_prod a2 b2 + u128_prod a3 b1 + u128_prod a4 b0)
     (u128_prod a1 b4 + u128_prod a2 b3 + u128_prod a3 b2 + u128_prod a4 b1)
     (u128_prod a2 b4 + u128_prod a3 b3 + u128_prod a4 b2)
     (u128_prod a3 b4 + u128_prod a4 b3)
     (u128_prod a4 b4)"
  unfolding secp256k1_fe_mul_def fe_fold_columns_def fe_columns_unfold Let_def
  by (simp add: ac_simps)

lemma u128_prod_double:
  "u128_prod (a * 2) b = u128_prod a b + u128_prod b a"
  "u128_prod b (a * 2) = u128_prod a b + u128_prod b a" if "uint a < 2 ^ 63"
proof -
  have "uint (a * 2) = uint a * 2" using that by (subst uint_mult_exact) simp_all
  then have "(ucast (a * 2) :: u128) = ucast a * 2"
    using that by (simp add: word_uint_eq_iff) (subst uint_mult_exact, simp_all)
  then show "u128_prod (a * 2) b = u128_prod a b + u128_prod b a"
    "u128_prod b (a * 2) = u128_prod a b + u128_prod b a"
    by (simp_all add: u128_prod_def)
qed

lemma fe_sqr_eq_mul_limbs:
  assumes "uint a0 < 2 ^ 63" "uint a1 < 2 ^ 63" "uint a2 < 2 ^ 63" "uint a3 < 2 ^ 63" "uint a4 < 2 ^ 63"
  shows "secp256k1_fe_sqr (mk_fe a0 a1 a2 a3 a4) =
    secp256k1_fe_mul (mk_fe a0 a1 a2 a3 a4) (mk_fe a0 a1 a2 a3 a4)"
proof -
  have "secp256k1_fe_sqr (mk_fe a0 a1 a2 a3 a4) = fe_fold_columns
     (u128_prod a0 a0)
     (u128_prod a0 a1 + u128_prod a1 a0)
     (u128_prod a0 a2 + u128_prod a1 a1 + u128_prod a2 a0)
     (u128_prod a0 a3 + u128_prod a1 a2 + u128_prod a2 a1 + u128_prod a3 a0)
     (u128_prod a0 a4 + u128_prod a1 a3 + u128_prod a2 a2 + u128_prod a3 a1 + u128_prod a4 a0)
     (u128_prod a1 a4 + u128_prod a2 a3 + u128_prod a3 a2 + u128_prod a4 a1)
     (u128_prod a2 a4 + u128_prod a3 a3 + u128_prod a4 a2)
     (u128_prod a3 a4 + u128_prod a4 a3)
     (u128_prod a4 a4)"
    unfolding secp256k1_fe_sqr_def fe_fold_columns_def fe_columns_unfold Let_def
    by (simp add: u128_prod_double [OF assms(1)] u128_prod_double [OF assms(2)]
      u128_prod_double [OF assms(3)] u128_prod_double [OF assms(5)] ac_simps)
  then show ?thesis by (simp only: fe_mul_columns)
qed

section \<open>The arithmetic of the folding\<close>

lemma fe_columns_value:
  fixes S0 S1 S2 S3 S4 S5 S6 S7 S8 :: int
  assumes "S8 = 2 ^ 64 * ch + cl" "S3 + 0x1000003D10 * cl = 2 ^ 52 * d1 + t3"
    and "d1 + S4 + 0x1000003D10000 * ch = 2 ^ 52 * d2 + (2 ^ 48 * tx + t4)"
    and "d2 + S5 = 2 ^ 52 * d3 + u" "S0 + (16 * u + tx) * 0x1000003D1 = 2 ^ 52 * c1 + r0"
    and "d3 + S6 = 2 ^ 52 * d4 + v" "c1 + S1 + v * 0x1000003D10 = 2 ^ 52 * c2 + r1"
    and "d4 + S7 = 2 ^ 64 * dh + dl" "c2 + S2 + 0x1000003D10 * dl = 2 ^ 52 * c3 + r2"
    and "c3 + 0x1000003D10000 * dh + t3 = 2 ^ 52 * c4 + r3"
  shows "r0 + 2 ^ 52 * r1 + 2 ^ 104 * r2 + 2 ^ 156 * r3 + 2 ^ 208 * (c4 + t4) =
      S0 + 2 ^ 52 * S1 + 2 ^ 104 * S2 + 2 ^ 156 * S3 + 2 ^ 208 * S4 + 2 ^ 260 * S5 + 2 ^ 312 * S6
       + 2 ^ 364 * S7 + 2 ^ 416 * S8
       - secp256k1_p * (2 ^ 160 * cl + 2 ^ 224 * ch + (16 * u + tx) + 2 ^ 56 * v + 2 ^ 108 * dl + 2 ^ 172 * dh)"
  using assms unfolding secp256k1_p_def by simp

lemma u128_carry_add:
  "uint (secp256k1_u128_rshift d 52 + S) = uint d div 2 ^ 52 + uint S"
  if "uint d < 2 ^ 117" "uint S < 2 ^ 117"
  using that by (subst uint_add_exact) simp_all

lemma u128_accum_const:
  "uint (secp256k1_u128_accum_mul x k y) = uint x + uint k * uint y"
  "uint (secp256k1_u128_accum_mul x y k) = uint x + uint y * uint k"
  if "uint x < 2 ^ 118" "uint k < 2 ^ 50"
proof -
  have "uint k * uint y < 2 ^ (50 + 64)"
    using prod_bound [of "uint k" 50 "uint y" 64] that(2) u64_bounds [of y] by simp
  with that(1) have "uint x + uint k * uint y < 2 ^ 128" by simp
  then show "uint (secp256k1_u128_accum_mul x k y) = uint x + uint k * uint y"
    "uint (secp256k1_u128_accum_mul x y k) = uint x + uint y * uint k"
    by (simp_all only: uint_u128_accum_mul mult.commute [of "uint y"])
qed

text \<open>Every accumulator holds its exact value; the limbs are the residues of the accumulators.\<close>

lemma fe_fold_columns_trace:
  fixes S0 S1 S2 S3 S4 S5 S6 S7 S8 :: u128
  assumes S: "uint S0 < 2 ^ 112" "uint S1 < 2 ^ 113" "uint S2 < 2 ^ 114" "uint S3 < 2 ^ 114"
      "uint S4 < 2 ^ 115" "uint S5 < 2 ^ 114" "uint S6 < 2 ^ 114" "uint S7 < 2 ^ 110" "uint S8 < 2 ^ 104"
  obtains d1 d2 d3 d4 d5 c1 c2 c3 c4 :: u128 and r4 :: u64 where
    "fe_fold_columns S0 S1 S2 S3 S4 S5 S6 S7 S8 =
      mk_fe (u128_lo52 c1) (u128_lo52 c2) (u128_lo52 c3) (u128_lo52 c4) r4"
    "uint S3 + 0x1000003D10 * (uint S8 mod 2 ^ 64) = uint d1"
    "uint d1 div 2 ^ 52 + uint S4 + 0x1000003D10000 * (uint S8 div 2 ^ 64) = uint d2"
    "uint d2 div 2 ^ 52 + uint S5 = uint d3"
    "uint S0 + (16 * (uint d3 mod 2 ^ 52) + uint d2 mod 2 ^ 52 div 2 ^ 48) * 0x1000003D1 = uint c1"
    "uint d3 div 2 ^ 52 + uint S6 = uint d4"
    "uint c1 div 2 ^ 52 + uint S1 + uint d4 mod 2 ^ 52 * 0x1000003D10 = uint c2"
    "uint d4 div 2 ^ 52 + uint S7 = uint d5"
    "uint c2 div 2 ^ 52 + uint S2 + 0x1000003D10 * (uint d5 mod 2 ^ 64) = uint c3"
    "uint c3 div 2 ^ 52 + 0x1000003D10000 * (uint d5 div 2 ^ 64) + uint d1 mod 2 ^ 52 = uint c4"
    "uint c4 < 2 ^ 100"
    "uint r4 = uint c4 div 2 ^ 52 + uint d2 mod 2 ^ 52 mod 2 ^ 48"
proof -
  define d1 where "d1 = secp256k1_u128_accum_mul S3 0x1000003D10 (secp256k1_u128_to_u64 S8)"
  define d2 where "d2 = secp256k1_u128_accum_mul (secp256k1_u128_rshift d1 52 + S4) 0x1000003D10000
                (secp256k1_u128_to_u64 (secp256k1_u128_rshift S8 64))"
  define d3 where "d3 = secp256k1_u128_rshift d2 52 + S5"
  define u0 where "u0 = push_bit 4 (u128_lo52 d3) OR drop_bit 48 (u128_lo52 d2)"
  define c1 where "c1 = secp256k1_u128_accum_mul S0 u0 0x1000003D1"
  define d4 where "d4 = secp256k1_u128_rshift d3 52 + S6"
  define c2 where "c2 = secp256k1_u128_accum_mul (secp256k1_u128_rshift c1 52 + S1) (u128_lo52 d4) 0x1000003D10"
  define d5 where "d5 = secp256k1_u128_rshift d4 52 + S7"
  define c3 where "c3 = secp256k1_u128_accum_mul (secp256k1_u128_rshift c2 52 + S2) 0x1000003D10
                (secp256k1_u128_to_u64 d5)"
  define c4 where "c4 = secp256k1_u128_accum_u64 (secp256k1_u128_accum_mul (secp256k1_u128_rshift c3 52)
                0x1000003D10000 (secp256k1_u128_to_u64 (secp256k1_u128_rshift d5 64))) (u128_lo52 d1)"
  define r4 where "r4 = secp256k1_u128_to_u64 (secp256k1_u128_rshift c4 52) + (u128_lo52 d2 AND 0xFFFFFFFFFFFF)"
  note chains = u128_carry_add u128_accum_const div_mod_u64
  have d1: "uint d1 = uint S3 + 0x1000003D10 * (uint S8 mod 2 ^ 64)"
    unfolding d1_def using S(4) by (simp add: chains)
  then have d1_lt: "uint d1 < 2 ^ 115" using S(4) by simp
  have d2: "uint d2 = uint d1 div 2 ^ 52 + uint S4 + 0x1000003D10000 * (uint S8 div 2 ^ 64)"
    unfolding d2_def using d1_lt S(5,9) div_mod_u64 [of "uint S8" "2 ^ 64"] by (simp add: chains)
  then have d2_lt: "uint d2 < 2 ^ 116" using d1_lt S(5,9) by simp
  have d3: "uint d3 = uint d2 div 2 ^ 52 + uint S5"
    unfolding d3_def using d2_lt S(6) by (simp add: chains)
  then have d3_lt: "uint d3 < 2 ^ 115" using d2_lt S(6) by simp
  have "uint (push_bit 4 (u128_lo52 d3)) = uint d3 mod 2 ^ 52 * 16"
    by (subst uint_shiftl_exact) simp_all
  then have u0: "uint u0 = 16 * (uint d3 mod 2 ^ 52) + uint d2 mod 2 ^ 52 div 2 ^ 48"
    unfolding u0_def by (subst or.commute, subst uint_or_disjoint [where k = 4]) (simp_all add: uint_shiftr)
  have c1: "uint c1 = uint S0 + uint u0 * 0x1000003D1"
    unfolding c1_def using S(1) by (simp add: chains)
  then have c1_lt: "uint c1 < 2 ^ 113" using S(1) u0 by simp
  have d4: "uint d4 = uint d3 div 2 ^ 52 + uint S6"
    unfolding d4_def using d3_lt S(7) by (simp add: chains)
  then have d4_lt: "uint d4 < 2 ^ 115" using d3_lt S(7) by simp
  have c2: "uint c2 = uint c1 div 2 ^ 52 + uint S1 + uint d4 mod 2 ^ 52 * 0x1000003D10"
    unfolding c2_def using c1_lt S(2) by (simp add: chains)
  then have c2_lt: "uint c2 < 2 ^ 114" using c1_lt S(2) by simp
  have d5: "uint d5 = uint d4 div 2 ^ 52 + uint S7"
    unfolding d5_def using d4_lt S(8) by (simp add: chains)
  then have d5_lt: "uint d5 < 2 ^ 111" using d4_lt S(8) by simp
  have c3: "uint c3 = uint c2 div 2 ^ 52 + uint S2 + 0x1000003D10 * (uint d5 mod 2 ^ 64)"
    unfolding c3_def using c2_lt S(3) by (simp add: chains)
  then have c3_lt: "uint c3 < 2 ^ 115" using c2_lt S(3) by simp
  have c4: "uint c4 = uint c3 div 2 ^ 52 + 0x1000003D10000 * (uint d5 div 2 ^ 64) + uint d1 mod 2 ^ 52"
    unfolding c4_def using c3_lt d5_lt div_mod_u64 [of "uint d5" "2 ^ 64"]
    by (subst uint_u128_accum_u64) (simp_all add: chains)
  then have c4_lt: "uint c4 < 2 ^ 100" using c3_lt d5_lt by simp
  have "(0xFFFFFFFFFFFF :: u64) = mask 48" by (simp add: mask_eq_exp_minus_1)
  then have "uint (u128_lo52 d2 AND 0xFFFFFFFFFFFF) = uint d2 mod 2 ^ 52 mod 2 ^ 48"
    by (simp only: uint_and_mask uint_u128_lo52)
  then have r4: "uint r4 = uint c4 div 2 ^ 52 + uint d2 mod 2 ^ 52 mod 2 ^ 48"
    unfolding r4_def using c4_lt div_mod_u64 [of "uint c4" "2 ^ 52"] by (subst uint_add_exact) simp_all
  have fold: "fe_fold_columns S0 S1 S2 S3 S4 S5 S6 S7 S8 =
      mk_fe (u128_lo52 c1) (u128_lo52 c2) (u128_lo52 c3) (u128_lo52 c4) r4"
    unfolding fe_fold_columns_def Let_def d1_def d2_def d3_def u0_def c1_def d4_def c2_def d5_def
      c3_def c4_def r4_def by (rule refl)
  show thesis
    by (rule that [OF fold d1 [symmetric] d2 [symmetric] d3 [symmetric] c1 [unfolded u0, symmetric]
        d4 [symmetric] c2 [symmetric] d5 [symmetric] c3 [symmetric] c4 [symmetric] c4_lt r4])
qed

lemma fe_fold_columns_correct:
  fixes S0 S1 S2 S3 S4 S5 S6 S7 S8 :: u128
  assumes "uint S0 < 2 ^ 112" "uint S1 < 2 ^ 113" "uint S2 < 2 ^ 114" "uint S3 < 2 ^ 114"
      "uint S4 < 2 ^ 115" "uint S5 < 2 ^ 114" "uint S6 < 2 ^ 114" "uint S7 < 2 ^ 110" "uint S8 < 2 ^ 104"
  shows "fe_rep 1 (fe_fold_columns S0 S1 S2 S3 S4 S5 S6 S7 S8)
    (uint S0 + 2 ^ 52 * uint S1 + 2 ^ 104 * uint S2 + 2 ^ 156 * uint S3 + 2 ^ 208 * uint S4
      + 2 ^ 260 * uint S5 + 2 ^ 312 * uint S6 + 2 ^ 364 * uint S7 + 2 ^ 416 * uint S8)"
    (is "fe_rep 1 ?r ?v")
proof -
  obtain d1 d2 d3 d4 d5 c1 c2 c3 c4 :: u128 and r4 :: u64 where tr: "?r =
      mk_fe (u128_lo52 c1) (u128_lo52 c2) (u128_lo52 c3) (u128_lo52 c4) r4"
    "uint S3 + 0x1000003D10 * (uint S8 mod 2 ^ 64) = uint d1"
    "uint d1 div 2 ^ 52 + uint S4 + 0x1000003D10000 * (uint S8 div 2 ^ 64) = uint d2"
    "uint d2 div 2 ^ 52 + uint S5 = uint d3"
    "uint S0 + (16 * (uint d3 mod 2 ^ 52) + uint d2 mod 2 ^ 52 div 2 ^ 48) * 0x1000003D1 = uint c1"
    "uint d3 div 2 ^ 52 + uint S6 = uint d4"
    "uint c1 div 2 ^ 52 + uint S1 + uint d4 mod 2 ^ 52 * 0x1000003D10 = uint c2"
    "uint d4 div 2 ^ 52 + uint S7 = uint d5"
    "uint c2 div 2 ^ 52 + uint S2 + 0x1000003D10 * (uint d5 mod 2 ^ 64) = uint c3"
    "uint c3 div 2 ^ 52 + 0x1000003D10000 * (uint d5 div 2 ^ 64) + uint d1 mod 2 ^ 52 = uint c4"
    "uint c4 < 2 ^ 100"
    "uint r4 = uint c4 div 2 ^ 52 + uint d2 mod 2 ^ 52 mod 2 ^ 48"
    by (rule fe_fold_columns_trace [OF assms])
  have "fe_val ?r = uint c1 mod 2 ^ 52 + 2 ^ 52 * (uint c2 mod 2 ^ 52) + 2 ^ 104 * (uint c3 mod 2 ^ 52)
      + 2 ^ 156 * (uint c4 mod 2 ^ 52) + 2 ^ 208 * (uint c4 div 2 ^ 52 + uint d2 mod 2 ^ 52 mod 2 ^ 48)"
    by (simp add: fe_val_def tr(1,12))
  also have "\<dots> = ?v
      - secp256k1_p * (2 ^ 160 * (uint S8 mod 2 ^ 64) + 2 ^ 224 * (uint S8 div 2 ^ 64)
        + (16 * (uint d3 mod 2 ^ 52) + uint d2 mod 2 ^ 52 div 2 ^ 48) + 2 ^ 56 * (uint d4 mod 2 ^ 52)
        + 2 ^ 108 * (uint d5 mod 2 ^ 64) + 2 ^ 172 * (uint d5 div 2 ^ 64))"
    by (rule fe_columns_value [where ?d1.0 = "uint d1 div 2 ^ 52" and ?d2.0 = "uint d2 div 2 ^ 52"
        and ?d3.0 = "uint d3 div 2 ^ 52" and ?d4.0 = "uint d4 div 2 ^ 52" and ?c1.0 = "uint c1 div 2 ^ 52"
        and ?c2.0 = "uint c2 div 2 ^ 52" and ?c3.0 = "uint c3 div 2 ^ 52" and ?t3.0 = "uint d1 mod 2 ^ 52"])
      (simp_all only: tr(2-10) mult_div_mod_eq)
  finally have "fe_val ?r mod secp256k1_p = ?v mod secp256k1_p"
    by (simp only: mod_diff_mult_self)
  moreover have "fe_magnitude 1 ?r"
    unfolding tr(1) fe_magnitude_def using tr(11) by (intro conjI) (simp_all add: tr(12))
  ultimately show ?thesis by (simp add: fe_rep_def)
qed

section \<open>Multiplication and squaring modulo \<open>p\<close>\<close>

lemma fe_magnitude_8_bounds:
  "uint (fe_n0 a) < 2 ^ 56" "uint (fe_n1 a) < 2 ^ 56" "uint (fe_n2 a) < 2 ^ 56"
  "uint (fe_n3 a) < 2 ^ 56" "uint (fe_n4 a) < 2 ^ 52" if "fe_magnitude 8 a"
  using that by (auto simp: fe_magnitude_def)

lemma uint_u128_prod: "uint (u128_prod a b) = uint a * uint b"
  by (simp add: u128_prod_def uint_ucast_prod)

lemma uint_u128_sum:
  "uint (x + y) = uint x + uint y" if "uint x < 2 ^ 120" "uint y < 2 ^ 120" for x y :: u128
  using that by (subst uint_add_exact) simp_all

lemma fe_mul_value:
  assumes a: "fe_magnitude 8 a" and b: "fe_magnitude 8 b"
  shows "fe_rep 1 (secp256k1_fe_mul a b) (fe_val a * fe_val b)"
proof -
  note A = fe_magnitude_8_bounds [OF a] and B = fe_magnitude_8_bounds [OF b]
  have P: "uint x * uint y < 2 ^ 112" if "uint x < 2 ^ 56" "uint y < 2 ^ 56" for x y :: u64
    using prod_bound [of "uint x" 56 "uint y" 56] that by simp
  have Q: "uint x * uint y < 2 ^ 108" "uint y * uint x < 2 ^ 108"
    if "uint x < 2 ^ 52" "uint y < 2 ^ 56" for x y :: u64
    using prod_bound [of "uint x" 52 "uint y" 56] that by (simp_all add: mult.commute)
  have T: "uint x * uint y < 2 ^ 104" if "uint x < 2 ^ 52" "uint y < 2 ^ 52" for x y :: u64
    using prod_bound [of "uint x" 52 "uint y" 52] that by simp
  note small = P [OF A(1) B(1)] P [OF A(1) B(2)] P [OF A(1) B(3)] P [OF A(1) B(4)]
    P [OF A(2) B(1)] P [OF A(2) B(2)] P [OF A(2) B(3)] P [OF A(2) B(4)]
    P [OF A(3) B(1)] P [OF A(3) B(2)] P [OF A(3) B(3)] P [OF A(3) B(4)]
    P [OF A(4) B(1)] P [OF A(4) B(2)] P [OF A(4) B(3)] P [OF A(4) B(4)]
    Q(1) [OF A(5) B(1)] Q(1) [OF A(5) B(2)] Q(1) [OF A(5) B(3)] Q(1) [OF A(5) B(4)]
    Q(2) [OF B(5) A(1)] Q(2) [OF B(5) A(2)] Q(2) [OF B(5) A(3)] Q(2) [OF B(5) A(4)] T [OF A(5) B(5)]
  have "fe_rep 1 (secp256k1_fe_mul (mk_fe (fe_n0 a) (fe_n1 a) (fe_n2 a) (fe_n3 a) (fe_n4 a))
      (mk_fe (fe_n0 b) (fe_n1 b) (fe_n2 b) (fe_n3 b) (fe_n4 b))) (fe_val a * fe_val b)"
    unfolding fe_mul_columns
    apply (insert small, rule back_subst [where P = "fe_rep 1 _"], rule fe_fold_columns_correct)
    apply (simp_all add: uint_u128_sum uint_u128_prod)
    apply (simp add: fe_val_def algebra_simps)
    done
  then show ?thesis by (simp only: fe_eta)
qed

lemma fe_sqr_eq_mul: "secp256k1_fe_sqr a = secp256k1_fe_mul a a" if "fe_magnitude 8 a"
proof -
  note B = fe_magnitude_8_bounds [OF that]
  have "secp256k1_fe_sqr (mk_fe (fe_n0 a) (fe_n1 a) (fe_n2 a) (fe_n3 a) (fe_n4 a)) = 
    secp256k1_fe_mul (mk_fe (fe_n0 a) (fe_n1 a) (fe_n2 a) (fe_n3 a) (fe_n4 a))
      (mk_fe (fe_n0 a) (fe_n1 a) (fe_n2 a) (fe_n3 a) (fe_n4 a))"
    using B by (intro fe_sqr_eq_mul_limbs) simp_all
  then show ?thesis by (simp only: fe_eta)
qed

lemma fe_rep_mul:
  assumes "fe_rep m a x" "m \<le> 8" "fe_rep k b y" "k \<le> 8"
  shows "fe_rep 1 (secp256k1_fe_mul a b) (x * y)"
proof -
  have "fe_rep 1 (secp256k1_fe_mul a b) (fe_val a * fe_val b)"
    using assms by (intro fe_mul_value) (auto simp: fe_rep_def intro: fe_magnitude_mono)
  then show ?thesis
    using assms by (auto simp: fe_rep_def intro: mod_mult_cong)
qed

lemma fe_rep_sqr:
  assumes "fe_rep m a x" "m \<le> 8"
  shows "fe_rep 1 (secp256k1_fe_sqr a) (x ^ 2)"
  using assms fe_rep_mul [OF assms assms] fe_magnitude_mono
  by (auto simp: fe_rep_def fe_sqr_eq_mul power2_eq_square)

end
