(* ===== verification/Field_Generic.thy ===== *)
theory Field_Generic
  imports Field_5x52_Bytes Field_5x52_Mul
begin

text \<open>
  The representation-independent field code of \<open>src/Vendor/secp256k1/src/field_impl.h\<close>: clearing,
  equality and the square root. The interface it uses of the limb arithmetic is the locale
  \<open>modular_elem\<close>: an element represents an integer up to the modulus, multiplication and squaring
  represent products and bring the magnitude back to 1. Addition chains are verified once in the
  locale and used through its interpretation on the 5x52 representation.
\<close>

section \<open>Operations\<close>

definition secp256k1_fe_clear :: "secp256k1_fe \<Rightarrow> secp256k1_fe" where
  "secp256k1_fe_clear a = mk_fe 0 0 0 0 0"

definition secp256k1_fe_equal :: "secp256k1_fe \<Rightarrow> secp256k1_fe \<Rightarrow> bool" where
  "secp256k1_fe_equal a b =
    (let na = secp256k1_fe_negate a 1; na = secp256k1_fe_add na b
     in secp256k1_fe_normalizes_to_zero na)"

text \<open>A loop that squares an element in place \<open>n\<close> times is an iteration of the squaring function.\<close>

definition secp256k1_fe_sqrt :: "secp256k1_fe \<Rightarrow> secp256k1_fe \<times> bool" where
  "secp256k1_fe_sqrt a =
    (let x2 = secp256k1_fe_mul (secp256k1_fe_sqr a) a;
         x3 = secp256k1_fe_mul (secp256k1_fe_sqr x2) a;
         x6 = secp256k1_fe_mul ((secp256k1_fe_sqr ^^ 3) x3) x3;
         x9 = secp256k1_fe_mul ((secp256k1_fe_sqr ^^ 3) x6) x3;
         x11 = secp256k1_fe_mul ((secp256k1_fe_sqr ^^ 2) x9) x2;
         x22 = secp256k1_fe_mul ((secp256k1_fe_sqr ^^ 11) x11) x11;
         x44 = secp256k1_fe_mul ((secp256k1_fe_sqr ^^ 22) x22) x22;
         x88 = secp256k1_fe_mul ((secp256k1_fe_sqr ^^ 44) x44) x44;
         x176 = secp256k1_fe_mul ((secp256k1_fe_sqr ^^ 88) x88) x88;
         x220 = secp256k1_fe_mul ((secp256k1_fe_sqr ^^ 44) x176) x44;
         x223 = secp256k1_fe_mul ((secp256k1_fe_sqr ^^ 3) x220) x3;
         t1 = secp256k1_fe_mul ((secp256k1_fe_sqr ^^ 23) x223) x22;
         t1 = secp256k1_fe_mul ((secp256k1_fe_sqr ^^ 6) t1) x2;
         t1 = secp256k1_fe_sqr t1;
         r = secp256k1_fe_sqr t1;
         t1 = secp256k1_fe_sqr r
     in (r, secp256k1_fe_equal t1 a))"

section \<open>The interface of the multiplicative operations\<close>

locale modular_elem =
  fixes rep :: "nat \<Rightarrow> 'e \<Rightarrow> int \<Rightarrow> bool"
    and mul :: "'e \<Rightarrow> 'e \<Rightarrow> 'e"
    and sqr :: "'e \<Rightarrow> 'e"
  assumes rep_mul: "rep m a x \<Longrightarrow> rep k b y \<Longrightarrow> m \<le> 8 \<Longrightarrow> k \<le> 8 \<Longrightarrow> rep 1 (mul a b) (x * y)"
    and rep_sqr: "rep m a x \<Longrightarrow> m \<le> 8 \<Longrightarrow> rep 1 (sqr a) (x * x)"
begin

lemma rep_sqr_iter: "rep 1 a (v ^ e) \<Longrightarrow> rep 1 ((sqr ^^ n) a) (v ^ (e * 2 ^ n))"
proof (induction n)
  case (Suc n)
  have "rep 1 (sqr ((sqr ^^ n) a)) (v ^ (e * 2 ^ n) * v ^ (e * 2 ^ n))"
    by (rule rep_sqr [OF Suc.IH [OF Suc.prems]]) simp
  then show ?case by (simp add: mult_2 distrib_left flip: power_add)
qed simp

lemma rep_chain:
  "rep 1 a (v ^ i) \<Longrightarrow> rep 1 b (v ^ j) \<Longrightarrow> k = i * 2 ^ n + j \<Longrightarrow> rep 1 (mul ((sqr ^^ n) a) b) (v ^ k)"
  using rep_mul [OF rep_sqr_iter, of a v i 1 b "v ^ j" n] by (simp add: power_add)

lemma rep_cube: "rep m a v \<Longrightarrow> m \<le> 8 \<Longrightarrow> rep 1 (mul (sqr a) a) (v ^ 3)"
  using rep_mul [OF rep_sqr, of m a v m a v] by (simp add: power3_eq_cube)

end

interpretation fe: modular_elem fe_rep secp256k1_fe_mul secp256k1_fe_sqr
  by unfold_locales (rule fe_rep_mul fe_rep_sqr [unfolded power2_eq_square]; assumption)+

section \<open>Equality\<close>

lemma fe_equal_correct:
  assumes "fe_rep 1 a x" "fe_rep m b y" "m \<le> 30"
  shows "secp256k1_fe_equal a b \<longleftrightarrow> x mod secp256k1_p = y mod secp256k1_p"
proof -
  have "fe_rep 2 (secp256k1_fe_negate a 1) (- x)"
    using fe_rep_negate [OF assms(1), of 1] by (simp add: numeral_2_eq_2)
  then have "fe_rep (2 + m) (secp256k1_fe_add (secp256k1_fe_negate a 1) b) (- x + y)"
    using assms by (intro fe_rep_add) simp_all
  then have "fe_magnitude 32 (secp256k1_fe_add (secp256k1_fe_negate a 1) b)"
    "fe_val (secp256k1_fe_add (secp256k1_fe_negate a 1) b) mod secp256k1_p = (y - x) mod secp256k1_p"
    using assms(3) by (auto simp: fe_rep_def intro: fe_magnitude_mono)
  then have "secp256k1_fe_equal a b \<longleftrightarrow> (y - x) mod secp256k1_p = 0"
    by (simp add: secp256k1_fe_equal_def Let_def normalizes_to_zero_correct)
  also have "\<dots> \<longleftrightarrow> y mod secp256k1_p = x mod secp256k1_p"
    by (simp only: mod_eq_dvd_iff dvd_eq_mod_eq_0)
  finally show ?thesis by auto
qed

section \<open>Square root\<close>

lemma fe_sqrt_power:
  assumes "fe_rep m a v" "m \<le> 8"
  shows "fe_rep 1 (fst (secp256k1_fe_sqrt a)) (v ^ nat ((secp256k1_p + 1) div 4))"
proof -
  define x2 where "x2 = secp256k1_fe_mul (secp256k1_fe_sqr a) a"
  have x2: "fe_rep 1 x2 (v ^ 3)" unfolding x2_def using assms by (rule fe.rep_cube)
  define x3 where "x3 = secp256k1_fe_mul (secp256k1_fe_sqr x2) a"
  have "fe_rep 1 (secp256k1_fe_sqr x2) (v ^ 3 * v ^ 3)" by (rule fe_rep_sqr [OF x2, unfolded power2_eq_square]) simp
  from fe.rep_mul [OF this assms(1)] have x3: "fe_rep 1 x3 (v ^ 7)"
    using assms(2) by (simp add: x3_def power_numeral_reduce algebra_simps)
  define x6 where "x6 = secp256k1_fe_mul ((secp256k1_fe_sqr ^^ 3) x3) x3"
  have x6: "fe_rep 1 x6 (v ^ (2 ^ 6 - 1))" unfolding x6_def by (rule fe.rep_chain [OF x3 x3]) simp
  define x9 where "x9 = secp256k1_fe_mul ((secp256k1_fe_sqr ^^ 3) x6) x3"
  have x9: "fe_rep 1 x9 (v ^ (2 ^ 9 - 1))" unfolding x9_def by (rule fe.rep_chain [OF x6 x3]) simp
  define x11 where "x11 = secp256k1_fe_mul ((secp256k1_fe_sqr ^^ 2) x9) x2"
  have x11: "fe_rep 1 x11 (v ^ (2 ^ 11 - 1))" unfolding x11_def by (rule fe.rep_chain [OF x9 x2]) simp
  define x22 where "x22 = secp256k1_fe_mul ((secp256k1_fe_sqr ^^ 11) x11) x11"
  have x22: "fe_rep 1 x22 (v ^ (2 ^ 22 - 1))" unfolding x22_def by (rule fe.rep_chain [OF x11 x11]) simp
  define x44 where "x44 = secp256k1_fe_mul ((secp256k1_fe_sqr ^^ 22) x22) x22"
  have x44: "fe_rep 1 x44 (v ^ (2 ^ 44 - 1))" unfolding x44_def by (rule fe.rep_chain [OF x22 x22]) simp
  define x88 where "x88 = secp256k1_fe_mul ((secp256k1_fe_sqr ^^ 44) x44) x44"
  have x88: "fe_rep 1 x88 (v ^ (2 ^ 88 - 1))" unfolding x88_def by (rule fe.rep_chain [OF x44 x44]) simp
  define x176 where "x176 = secp256k1_fe_mul ((secp256k1_fe_sqr ^^ 88) x88) x88"
  have x176: "fe_rep 1 x176 (v ^ (2 ^ 176 - 1))" unfolding x176_def by (rule fe.rep_chain [OF x88 x88]) simp
  define x220 where "x220 = secp256k1_fe_mul ((secp256k1_fe_sqr ^^ 44) x176) x44"
  have x220: "fe_rep 1 x220 (v ^ (2 ^ 220 - 1))" unfolding x220_def by (rule fe.rep_chain [OF x176 x44]) simp
  define x223 where "x223 = secp256k1_fe_mul ((secp256k1_fe_sqr ^^ 3) x220) x3"
  have x223: "fe_rep 1 x223 (v ^ (2 ^ 223 - 1))" unfolding x223_def by (rule fe.rep_chain [OF x220 x3]) simp
  define s where "s = secp256k1_fe_mul ((secp256k1_fe_sqr ^^ 23) x223) x22"
  have s: "fe_rep 1 s (v ^ ((2 ^ 223 - 1) * 2 ^ 23 + (2 ^ 22 - 1)))"
    unfolding s_def by (rule fe.rep_chain [OF x223 x22]) simp
  define t where "t = secp256k1_fe_mul ((secp256k1_fe_sqr ^^ 6) s) x2"
  have t: "fe_rep 1 t (v ^ (((2 ^ 223 - 1) * 2 ^ 23 + (2 ^ 22 - 1)) * 2 ^ 6 + 3))"
    unfolding t_def by (rule fe.rep_chain [OF s x2]) simp
  have "fe_rep 1 ((secp256k1_fe_sqr ^^ 2) t) (v ^ ((((2 ^ 223 - 1) * 2 ^ 23 + (2 ^ 22 - 1)) * 2 ^ 6 + 3) * 2 ^ 2))"
    by (rule fe.rep_sqr_iter [OF t])
  moreover have "(((2 ^ 223 - 1) * 2 ^ 23 + (2 ^ 22 - 1)) * 2 ^ 6 + 3) * 2 ^ 2 = nat ((secp256k1_p + 1) div 4)"
    by (simp add: secp256k1_p_def)
  moreover have "fst (secp256k1_fe_sqrt a) = (secp256k1_fe_sqr ^^ 2) t"
    unfolding secp256k1_fe_sqrt_def Let_def fst_conv x2_def [symmetric] x3_def [symmetric] x6_def [symmetric]
      x9_def [symmetric] x11_def [symmetric] x22_def [symmetric] x44_def [symmetric] x88_def [symmetric]
      x176_def [symmetric] x220_def [symmetric] x223_def [symmetric] s_def [symmetric] t_def [symmetric]
    by (simp add: numeral_2_eq_2)
  ultimately show ?thesis by (simp only:)
qed

lemma fe_sqrt_flag:
  assumes "fe_rep m a v" "m \<le> 8" "fe_rep 1 (fst (secp256k1_fe_sqrt a)) r"
  shows "snd (secp256k1_fe_sqrt a) \<longleftrightarrow> r * r mod secp256k1_p = v mod secp256k1_p"
proof -
  have "snd (secp256k1_fe_sqrt a) = secp256k1_fe_equal (secp256k1_fe_sqr (fst (secp256k1_fe_sqrt a))) a"
    by (simp add: secp256k1_fe_sqrt_def Let_def)
  moreover have "fe_rep 1 (secp256k1_fe_sqr (fst (secp256k1_fe_sqrt a))) (r * r)"
    by (rule fe.rep_sqr [OF assms(3)]) simp
  ultimately show ?thesis using assms(1,2) by (simp add: fe_equal_correct)
qed

end
