(* ===== verification/Group.thy ===== *)
theory Group
  imports Field_Generic Bytes
begin

text \<open>
  Points of the curve \<open>y^2 = x^3 + 7\<close>: \<open>src/Vendor/secp256k1/src/group.h\<close> and \<open>group_impl.h\<close>, in the order of
  the code, without the operations that need a modular inverse or the Jacobi symbol. A result written
  through a pointer is returned. An optional output \<open>rzr\<close> (a pointer that may be \<open>NULL\<close>) is an
  \<open>option\<close>: \<open>None\<close> for \<open>NULL\<close>, else the value it points to, before and after the call.
\<close>

unbundle bit_operations_syntax

section \<open>Data\<close>

record secp256k1_ge =
  ge_x :: secp256k1_fe
  ge_y :: secp256k1_fe
  ge_infinity :: bool

record secp256k1_gej =
  gej_x :: secp256k1_fe
  gej_y :: secp256k1_fe
  gej_z :: secp256k1_fe
  gej_infinity :: bool

record secp256k1_ge_storage =
  ges_x :: secp256k1_fe_storage
  ges_y :: secp256k1_fe_storage

definition SECP256K1_GE_X_MAGNITUDE_MAX :: nat where "SECP256K1_GE_X_MAGNITUDE_MAX = 4"
definition SECP256K1_GE_Y_MAGNITUDE_MAX :: nat where "SECP256K1_GE_Y_MAGNITUDE_MAX = 3"
definition SECP256K1_GEJ_X_MAGNITUDE_MAX :: nat where "SECP256K1_GEJ_X_MAGNITUDE_MAX = 4"
definition SECP256K1_GEJ_Y_MAGNITUDE_MAX :: nat where "SECP256K1_GEJ_Y_MAGNITUDE_MAX = 4"
definition SECP256K1_GEJ_Z_MAGNITUDE_MAX :: nat where "SECP256K1_GEJ_Z_MAGNITUDE_MAX = 1"

definition secp256k1_ge_const_g :: secp256k1_ge where
  "secp256k1_ge_const_g = \<lparr>
     ge_x = SECP256K1_FE_CONST 0x79be667e 0xf9dcbbac 0x55a06295 0xce870b07 0x029bfcdb 0x2dce28d9 0x59f2815b 0x16f81798,
     ge_y = SECP256K1_FE_CONST 0x483ada77 0x26a3c465 0x5da4fbfc 0x0e1108a8 0xfd17b448 0xa6855419 0x9c47d08f 0xfb10d4b8,
     ge_infinity = False\<rparr>"

definition SECP256K1_B :: int where "SECP256K1_B = 7"

section \<open>Checks and conversions\<close>

definition secp256k1_ge_verify :: "secp256k1_ge \<Rightarrow> bool" where
  "secp256k1_ge_verify a \<longleftrightarrow> fe_magnitude SECP256K1_GE_X_MAGNITUDE_MAX (ge_x a) \<and>
     fe_magnitude SECP256K1_GE_Y_MAGNITUDE_MAX (ge_y a)"

definition secp256k1_gej_verify :: "secp256k1_gej \<Rightarrow> bool" where
  "secp256k1_gej_verify a \<longleftrightarrow> fe_magnitude SECP256K1_GEJ_X_MAGNITUDE_MAX (gej_x a) \<and>
     fe_magnitude SECP256K1_GEJ_Y_MAGNITUDE_MAX (gej_y a) \<and> fe_magnitude SECP256K1_GEJ_Z_MAGNITUDE_MAX (gej_z a)"

definition secp256k1_ge_set_gej_zinv :: "secp256k1_gej \<Rightarrow> secp256k1_fe \<Rightarrow> secp256k1_ge" where
  "secp256k1_ge_set_gej_zinv a zi =
    (let zi2 = secp256k1_fe_sqr zi;
         zi3 = secp256k1_fe_mul zi2 zi
     in \<lparr>ge_x = secp256k1_fe_mul (gej_x a) zi2, ge_y = secp256k1_fe_mul (gej_y a) zi3, ge_infinity = gej_infinity a\<rparr>)"

definition secp256k1_ge_set_ge_zinv :: "secp256k1_ge \<Rightarrow> secp256k1_fe \<Rightarrow> secp256k1_ge" where
  "secp256k1_ge_set_ge_zinv a zi =
    (let zi2 = secp256k1_fe_sqr zi;
         zi3 = secp256k1_fe_mul zi2 zi
     in \<lparr>ge_x = secp256k1_fe_mul (ge_x a) zi2, ge_y = secp256k1_fe_mul (ge_y a) zi3, ge_infinity = ge_infinity a\<rparr>)"

definition secp256k1_ge_set_xy :: "secp256k1_fe \<Rightarrow> secp256k1_fe \<Rightarrow> secp256k1_ge" where
  "secp256k1_ge_set_xy x y = \<lparr>ge_x = x, ge_y = y, ge_infinity = False\<rparr>"

definition secp256k1_ge_is_infinity :: "secp256k1_ge \<Rightarrow> bool" where
  "secp256k1_ge_is_infinity a = ge_infinity a"

definition secp256k1_ge_neg :: "secp256k1_ge \<Rightarrow> secp256k1_ge" where
  "secp256k1_ge_neg a = a\<lparr>ge_y := secp256k1_fe_negate (secp256k1_fe_normalize_weak (ge_y a)) 1\<rparr>"

text \<open>
  The loop of \<open>secp256k1_ge_table_set_globalz\<close> runs from the end of the tables: \<open>i\<close> is the number of entries
  still to rescale, \<open>zs\<close> the product of the ratios so far and \<open>zr i\<close> the next ratio.
\<close>

fun table_globalz_loop :: "secp256k1_ge list \<Rightarrow> secp256k1_fe list \<Rightarrow> nat \<Rightarrow> secp256k1_fe \<Rightarrow> secp256k1_ge list" where
  "table_globalz_loop a zr 0 zs = a"
| "table_globalz_loop a zr (Suc i) zs =
    (let zs = (if Suc i \<noteq> length a - 1 then secp256k1_fe_mul zs (zr ! Suc i) else zs)
     in table_globalz_loop (a[i := secp256k1_ge_set_ge_zinv (a ! i) zs]) zr i zs)"

definition secp256k1_ge_table_set_globalz :: "secp256k1_ge list \<Rightarrow> secp256k1_fe list \<Rightarrow> secp256k1_ge list" where
  "secp256k1_ge_table_set_globalz a zr =
    (if 0 < length a then
       let i = length a - 1;
           a = a[i := (a ! i)\<lparr>ge_y := secp256k1_fe_normalize_weak (ge_y (a ! i))\<rparr>]
       in table_globalz_loop a zr i (zr ! i)
     else a)"

definition secp256k1_gej_set_infinity :: secp256k1_gej where
  "secp256k1_gej_set_infinity = \<lparr>gej_x = secp256k1_fe_set_int 0, gej_y = secp256k1_fe_set_int 0,
     gej_z = secp256k1_fe_set_int 0, gej_infinity = True\<rparr>"

definition secp256k1_ge_set_infinity :: secp256k1_ge where
  "secp256k1_ge_set_infinity = \<lparr>ge_x = secp256k1_fe_set_int 0, ge_y = secp256k1_fe_set_int 0, ge_infinity = True\<rparr>"

definition secp256k1_gej_clear :: "secp256k1_gej \<Rightarrow> secp256k1_gej" where
  "secp256k1_gej_clear r = \<lparr>gej_x = secp256k1_fe_clear (gej_x r), gej_y = secp256k1_fe_clear (gej_y r),
     gej_z = secp256k1_fe_clear (gej_z r), gej_infinity = False\<rparr>"

definition secp256k1_ge_clear :: "secp256k1_ge \<Rightarrow> secp256k1_ge" where
  "secp256k1_ge_clear r = \<lparr>ge_x = secp256k1_fe_clear (ge_x r), ge_y = secp256k1_fe_clear (ge_y r), ge_infinity = False\<rparr>"

definition secp256k1_ge_set_xo_var :: "secp256k1_fe \<Rightarrow> bool \<Rightarrow> secp256k1_ge \<times> bool" where
  "secp256k1_ge_set_xo_var x odd_y =
    (let x2 = secp256k1_fe_sqr x;
         x3 = secp256k1_fe_mul x x2;
         x3 = secp256k1_fe_add_int x3 SECP256K1_B;
         (y, ret) = secp256k1_fe_sqrt x3;
         y = secp256k1_fe_normalize_var y;
         y = (if secp256k1_fe_is_odd y \<noteq> odd_y then secp256k1_fe_negate y 1 else y)
     in (\<lparr>ge_x = x, ge_y = y, ge_infinity = False\<rparr>, ret))"

definition secp256k1_gej_set_ge :: "secp256k1_ge \<Rightarrow> secp256k1_gej" where
  "secp256k1_gej_set_ge a = \<lparr>gej_x = ge_x a, gej_y = ge_y a, gej_z = secp256k1_fe_set_int 1, gej_infinity = ge_infinity a\<rparr>"

definition secp256k1_ge_eq_var :: "secp256k1_ge \<Rightarrow> secp256k1_ge \<Rightarrow> bool" where
  "secp256k1_ge_eq_var a b =
    (if ge_infinity a \<noteq> ge_infinity b then False
     else if ge_infinity a then True
     else if \<not> secp256k1_fe_equal (secp256k1_fe_normalize_weak (ge_x a)) (ge_x b) then False
     else if \<not> secp256k1_fe_equal (secp256k1_fe_normalize_weak (ge_y a)) (ge_y b) then False
     else True)"

definition secp256k1_gej_eq_x_var :: "secp256k1_fe \<Rightarrow> secp256k1_gej \<Rightarrow> bool" where
  "secp256k1_gej_eq_x_var x a =
    (let r = secp256k1_fe_sqr (gej_z a); r = secp256k1_fe_mul r x
     in secp256k1_fe_equal r (gej_x a))"

definition secp256k1_gej_neg :: "secp256k1_gej \<Rightarrow> secp256k1_gej" where
  "secp256k1_gej_neg a = \<lparr>gej_x = gej_x a, gej_y = secp256k1_fe_negate (secp256k1_fe_normalize_weak (gej_y a)) 1,
     gej_z = gej_z a, gej_infinity = gej_infinity a\<rparr>"

definition secp256k1_gej_is_infinity :: "secp256k1_gej \<Rightarrow> bool" where
  "secp256k1_gej_is_infinity a = gej_infinity a"

definition secp256k1_ge_is_valid_var :: "secp256k1_ge \<Rightarrow> bool" where
  "secp256k1_ge_is_valid_var a =
    (if ge_infinity a then False
     else let y2 = secp256k1_fe_sqr (ge_y a);
              x3 = secp256k1_fe_sqr (ge_x a); x3 = secp256k1_fe_mul x3 (ge_x a);
              x3 = secp256k1_fe_add_int x3 SECP256K1_B
          in secp256k1_fe_equal y2 x3)"

section \<open>Doubling and addition\<close>

definition secp256k1_gej_double :: "secp256k1_gej \<Rightarrow> secp256k1_gej" where
  "secp256k1_gej_double a =
    (let rz = secp256k1_fe_mul (gej_z a) (gej_y a);
         s = secp256k1_fe_sqr (gej_y a);
         l = secp256k1_fe_sqr (gej_x a);
         l = secp256k1_fe_mul_int l 3;
         l = secp256k1_fe_half l;
         t = secp256k1_fe_negate s 1;
         t = secp256k1_fe_mul t (gej_x a);
         rx = secp256k1_fe_sqr l;
         rx = secp256k1_fe_add rx t;
         rx = secp256k1_fe_add rx t;
         s = secp256k1_fe_sqr s;
         t = secp256k1_fe_add t rx;
         ry = secp256k1_fe_mul t l;
         ry = secp256k1_fe_add ry s;
         ry = secp256k1_fe_negate ry 2
     in \<lparr>gej_x = rx, gej_y = ry, gej_z = rz, gej_infinity = gej_infinity a\<rparr>)"

definition secp256k1_gej_double_var ::
    "secp256k1_gej \<Rightarrow> secp256k1_fe option \<Rightarrow> secp256k1_gej \<times> secp256k1_fe option" where
  "secp256k1_gej_double_var a rzr =
    (if gej_infinity a then (secp256k1_gej_set_infinity, map_option (\<lambda>_. secp256k1_fe_set_int 1) rzr)
     else (secp256k1_gej_double a, map_option (\<lambda>_. secp256k1_fe_normalize_weak (gej_y a)) rzr))"

definition secp256k1_gej_add_var ::
    "secp256k1_gej \<Rightarrow> secp256k1_gej \<Rightarrow> secp256k1_fe option \<Rightarrow> secp256k1_gej \<times> secp256k1_fe option" where
  "secp256k1_gej_add_var a b rzr =
    (if gej_infinity a then (b, rzr)
     else if gej_infinity b then (a, map_option (\<lambda>_. secp256k1_fe_set_int 1) rzr)
     else
       let z22 = secp256k1_fe_sqr (gej_z b);
           z12 = secp256k1_fe_sqr (gej_z a);
           u1 = secp256k1_fe_mul (gej_x a) z22;
           u2 = secp256k1_fe_mul (gej_x b) z12;
           s1 = secp256k1_fe_mul (gej_y a) z22; s1 = secp256k1_fe_mul s1 (gej_z b);
           s2 = secp256k1_fe_mul (gej_y b) z12; s2 = secp256k1_fe_mul s2 (gej_z a);
           h = secp256k1_fe_negate u1 1; h = secp256k1_fe_add h u2;
           i = secp256k1_fe_negate s2 1; i = secp256k1_fe_add i s1
       in if secp256k1_fe_normalizes_to_zero_var h then
            if secp256k1_fe_normalizes_to_zero_var i then secp256k1_gej_double_var a rzr
            else (secp256k1_gej_set_infinity, map_option (\<lambda>_. secp256k1_fe_set_int 0) rzr)
          else
            let t = secp256k1_fe_mul h (gej_z b);
                rzr = map_option (\<lambda>_. t) rzr;
                rz = secp256k1_fe_mul (gej_z a) t;
                h2 = secp256k1_fe_sqr h;
                h2 = secp256k1_fe_negate h2 1;
                h3 = secp256k1_fe_mul h2 h;
                t = secp256k1_fe_mul u1 h2;
                rx = secp256k1_fe_sqr i;
                rx = secp256k1_fe_add rx h3;
                rx = secp256k1_fe_add rx t;
                rx = secp256k1_fe_add rx t;
                t = secp256k1_fe_add t rx;
                ry = secp256k1_fe_mul t i;
                h3 = secp256k1_fe_mul h3 s1;
                ry = secp256k1_fe_add ry h3
            in (\<lparr>gej_x = rx, gej_y = ry, gej_z = rz, gej_infinity = False\<rparr>, rzr))"

definition secp256k1_gej_add_ge_var ::
    "secp256k1_gej \<Rightarrow> secp256k1_ge \<Rightarrow> secp256k1_fe option \<Rightarrow> secp256k1_gej \<times> secp256k1_fe option" where
  "secp256k1_gej_add_ge_var a b rzr =
    (if gej_infinity a then (secp256k1_gej_set_ge b, rzr)
     else if ge_infinity b then (a, map_option (\<lambda>_. secp256k1_fe_set_int 1) rzr)
     else
       let z12 = secp256k1_fe_sqr (gej_z a);
           u1 = gej_x a;
           u2 = secp256k1_fe_mul (ge_x b) z12;
           s1 = gej_y a;
           s2 = secp256k1_fe_mul (ge_y b) z12; s2 = secp256k1_fe_mul s2 (gej_z a);
           h = secp256k1_fe_negate u1 (int SECP256K1_GEJ_X_MAGNITUDE_MAX); h = secp256k1_fe_add h u2;
           i = secp256k1_fe_negate s2 1; i = secp256k1_fe_add i s1
       in if secp256k1_fe_normalizes_to_zero_var h then
            if secp256k1_fe_normalizes_to_zero_var i then secp256k1_gej_double_var a rzr
            else (secp256k1_gej_set_infinity, map_option (\<lambda>_. secp256k1_fe_set_int 0) rzr)
          else
            let rzr = map_option (\<lambda>_. h) rzr;
                rz = secp256k1_fe_mul (gej_z a) h;
                h2 = secp256k1_fe_sqr h;
                h2 = secp256k1_fe_negate h2 1;
                h3 = secp256k1_fe_mul h2 h;
                t = secp256k1_fe_mul u1 h2;
                rx = secp256k1_fe_sqr i;
                rx = secp256k1_fe_add rx h3;
                rx = secp256k1_fe_add rx t;
                rx = secp256k1_fe_add rx t;
                t = secp256k1_fe_add t rx;
                ry = secp256k1_fe_mul t i;
                h3 = secp256k1_fe_mul h3 s1;
                ry = secp256k1_fe_add ry h3
            in (\<lparr>gej_x = rx, gej_y = ry, gej_z = rz, gej_infinity = False\<rparr>, rzr))"

definition secp256k1_gej_add_zinv_var :: "secp256k1_gej \<Rightarrow> secp256k1_ge \<Rightarrow> secp256k1_fe \<Rightarrow> secp256k1_gej" where
  "secp256k1_gej_add_zinv_var a b bzinv =
    (if gej_infinity a then
       let bzinv2 = secp256k1_fe_sqr bzinv;
           bzinv3 = secp256k1_fe_mul bzinv2 bzinv
       in \<lparr>gej_x = secp256k1_fe_mul (ge_x b) bzinv2, gej_y = secp256k1_fe_mul (ge_y b) bzinv3,
           gej_z = secp256k1_fe_set_int 1, gej_infinity = ge_infinity b\<rparr>
     else if ge_infinity b then a
     else
       let az = secp256k1_fe_mul (gej_z a) bzinv;
           z12 = secp256k1_fe_sqr az;
           u1 = gej_x a;
           u2 = secp256k1_fe_mul (ge_x b) z12;
           s1 = gej_y a;
           s2 = secp256k1_fe_mul (ge_y b) z12; s2 = secp256k1_fe_mul s2 az;
           h = secp256k1_fe_negate u1 (int SECP256K1_GEJ_X_MAGNITUDE_MAX); h = secp256k1_fe_add h u2;
           i = secp256k1_fe_negate s2 1; i = secp256k1_fe_add i s1
       in if secp256k1_fe_normalizes_to_zero_var h then
            if secp256k1_fe_normalizes_to_zero_var i then fst (secp256k1_gej_double_var a None)
            else secp256k1_gej_set_infinity
          else
            let rz = secp256k1_fe_mul (gej_z a) h;
                h2 = secp256k1_fe_sqr h;
                h2 = secp256k1_fe_negate h2 1;
                h3 = secp256k1_fe_mul h2 h;
                t = secp256k1_fe_mul u1 h2;
                rx = secp256k1_fe_sqr i;
                rx = secp256k1_fe_add rx h3;
                rx = secp256k1_fe_add rx t;
                rx = secp256k1_fe_add rx t;
                t = secp256k1_fe_add t rx;
                ry = secp256k1_fe_mul t i;
                h3 = secp256k1_fe_mul h3 s1;
                ry = secp256k1_fe_add ry h3
            in \<lparr>gej_x = rx, gej_y = ry, gej_z = rz, gej_infinity = False\<rparr>)"

definition secp256k1_gej_add_ge :: "secp256k1_gej \<Rightarrow> secp256k1_ge \<Rightarrow> secp256k1_gej" where
  "secp256k1_gej_add_ge a b =
    (let zz = secp256k1_fe_sqr (gej_z a);
         u1 = gej_x a;
         u2 = secp256k1_fe_mul (ge_x b) zz;
         s1 = gej_y a;
         s2 = secp256k1_fe_mul (ge_y b) zz;
         s2 = secp256k1_fe_mul s2 (gej_z a);
         t = u1; t = secp256k1_fe_add t u2;
         m = s1; m = secp256k1_fe_add m s2;
         rr = secp256k1_fe_sqr t;
         m_alt = secp256k1_fe_negate u2 1;
         tt = secp256k1_fe_mul u1 m_alt;
         rr = secp256k1_fe_add rr tt;
         degenerate = secp256k1_fe_normalizes_to_zero m;
         rr_alt = s1;
         rr_alt = secp256k1_fe_mul_int rr_alt 2;
         m_alt = secp256k1_fe_add m_alt u1;
         rr_alt = secp256k1_fe_cmov rr_alt rr (\<not> degenerate);
         m_alt = secp256k1_fe_cmov m_alt m (\<not> degenerate);
         n = secp256k1_fe_sqr m_alt;
         q = secp256k1_fe_negate t (int SECP256K1_GEJ_X_MAGNITUDE_MAX + 1);
         q = secp256k1_fe_mul q n;
         n = secp256k1_fe_sqr n;
         n = secp256k1_fe_cmov n m degenerate;
         t = secp256k1_fe_sqr rr_alt;
         rz = secp256k1_fe_mul (gej_z a) m_alt;
         t = secp256k1_fe_add t q;
         rx = t;
         t = secp256k1_fe_mul_int t 2;
         t = secp256k1_fe_add t q;
         t = secp256k1_fe_mul t rr_alt;
         t = secp256k1_fe_add t n;
         ry = secp256k1_fe_negate t (int SECP256K1_GEJ_Y_MAGNITUDE_MAX + 2);
         ry = secp256k1_fe_half ry;
         rx = secp256k1_fe_cmov rx (ge_x b) (gej_infinity a);
         ry = secp256k1_fe_cmov ry (ge_y b) (gej_infinity a);
         rz = secp256k1_fe_cmov rz secp256k1_fe_one (gej_infinity a)
     in \<lparr>gej_x = rx, gej_y = ry, gej_z = rz, gej_infinity = secp256k1_fe_normalizes_to_zero rz\<rparr>)"

definition secp256k1_gej_eq_var :: "secp256k1_gej \<Rightarrow> secp256k1_gej \<Rightarrow> bool" where
  "secp256k1_gej_eq_var a b =
    (let tmp = secp256k1_gej_neg a; (tmp, _) = secp256k1_gej_add_var tmp b None
     in secp256k1_gej_is_infinity tmp)"

definition secp256k1_gej_eq_ge_var :: "secp256k1_gej \<Rightarrow> secp256k1_ge \<Rightarrow> bool" where
  "secp256k1_gej_eq_ge_var a b =
    (let tmp = secp256k1_gej_neg a; (tmp, _) = secp256k1_gej_add_ge_var tmp b None
     in secp256k1_gej_is_infinity tmp)"

definition secp256k1_gej_rescale :: "secp256k1_gej \<Rightarrow> secp256k1_fe \<Rightarrow> secp256k1_gej" where
  "secp256k1_gej_rescale r s =
    (let zz = secp256k1_fe_sqr s;
         rx = secp256k1_fe_mul (gej_x r) zz;
         ry = secp256k1_fe_mul (gej_y r) zz;
         ry = secp256k1_fe_mul ry s;
         rz = secp256k1_fe_mul (gej_z r) s
     in r\<lparr>gej_x := rx, gej_y := ry, gej_z := rz\<rparr>)"

section \<open>Storage, selection, endomorphism\<close>

definition secp256k1_ge_to_storage :: "secp256k1_ge \<Rightarrow> secp256k1_ge_storage" where
  "secp256k1_ge_to_storage a =
    (let x = secp256k1_fe_normalize (ge_x a);
         y = secp256k1_fe_normalize (ge_y a)
     in \<lparr>ges_x = secp256k1_fe_to_storage x, ges_y = secp256k1_fe_to_storage y\<rparr>)"

definition secp256k1_ge_from_storage :: "secp256k1_ge_storage \<Rightarrow> secp256k1_ge" where
  "secp256k1_ge_from_storage a = \<lparr>ge_x = secp256k1_fe_from_storage (ges_x a), ge_y = secp256k1_fe_from_storage (ges_y a),
     ge_infinity = False\<rparr>"

definition secp256k1_gej_cmov :: "secp256k1_gej \<Rightarrow> secp256k1_gej \<Rightarrow> bool \<Rightarrow> secp256k1_gej" where
  "secp256k1_gej_cmov r a flag = \<lparr>gej_x = secp256k1_fe_cmov (gej_x r) (gej_x a) flag,
     gej_y = secp256k1_fe_cmov (gej_y r) (gej_y a) flag, gej_z = secp256k1_fe_cmov (gej_z r) (gej_z a) flag,
     gej_infinity = (gej_infinity r \<noteq> ((gej_infinity r \<noteq> gej_infinity a) \<and> flag))\<rparr>"

definition secp256k1_ge_storage_cmov :: "secp256k1_ge_storage \<Rightarrow> secp256k1_ge_storage \<Rightarrow> bool \<Rightarrow> secp256k1_ge_storage" where
  "secp256k1_ge_storage_cmov r a flag = \<lparr>ges_x = secp256k1_fe_storage_cmov (ges_x r) (ges_x a) flag,
     ges_y = secp256k1_fe_storage_cmov (ges_y r) (ges_y a) flag\<rparr>"

definition secp256k1_ge_mul_lambda :: "secp256k1_ge \<Rightarrow> secp256k1_ge" where
  "secp256k1_ge_mul_lambda a = a\<lparr>ge_x := secp256k1_fe_mul (ge_x a) secp256k1_const_beta\<rparr>"

definition secp256k1_ge_is_in_correct_subgroup :: "secp256k1_ge \<Rightarrow> bool" where
  "secp256k1_ge_is_in_correct_subgroup ge = True"

text \<open>
  \<open>secp256k1_ge_to_bytes\<close> copies the eight 64-bit limbs of the storage form as they lie in memory; on the
  little-endian targets of the build that is least significant byte first.
\<close>

definition mem_u64 :: "u64 \<Rightarrow> bytes" where
  "mem_u64 w = map (\<lambda>i. ucast (drop_bit (8 * i) w)) [0, 1, 2, 3, 4, 5, 6, 7]"

definition u64_mem :: "bytes \<Rightarrow> u64" where
  "u64_mem b = foldr (\<lambda>x w. ucast x OR push_bit 8 w) (take 8 b) 0"

definition secp256k1_ge_to_bytes :: "secp256k1_ge \<Rightarrow> bytes" where
  "secp256k1_ge_to_bytes a =
    (let s = secp256k1_ge_to_storage a; x = ges_x s; y = ges_y s
     in mem_u64 (st_n0 x) @ mem_u64 (st_n1 x) @ mem_u64 (st_n2 x) @ mem_u64 (st_n3 x) @
        mem_u64 (st_n0 y) @ mem_u64 (st_n1 y) @ mem_u64 (st_n2 y) @ mem_u64 (st_n3 y))"

definition secp256k1_ge_from_bytes :: "bytes \<Rightarrow> secp256k1_ge" where
  "secp256k1_ge_from_bytes buf =
    (let s = \<lparr>ges_x = \<lparr>st_n0 = u64_mem buf, st_n1 = u64_mem (drop 8 buf), st_n2 = u64_mem (drop 16 buf), st_n3 = u64_mem (drop 24 buf)\<rparr>,
              ges_y = \<lparr>st_n0 = u64_mem (drop 32 buf), st_n1 = u64_mem (drop 40 buf), st_n2 = u64_mem (drop 48 buf), st_n3 = u64_mem (drop 56 buf)\<rparr>\<rparr>
     in secp256k1_ge_from_storage s)"

definition secp256k1_ge_to_bytes_ext :: "secp256k1_ge \<Rightarrow> bytes" where
  "secp256k1_ge_to_bytes_ext ge =
    (if secp256k1_ge_is_infinity ge then replicate 64 0 else secp256k1_ge_to_bytes ge)"

definition secp256k1_ge_from_bytes_ext :: "bytes \<Rightarrow> secp256k1_ge" where
  "secp256k1_ge_from_bytes_ext data =
    (if secp256k1_memcmp_var data (replicate 64 0) = 0 then secp256k1_ge_set_infinity else secp256k1_ge_from_bytes data)"

end
