(* ===== verification/Prime_Cert.thy ===== *)
theory Prime_Cert
  imports Word_Prelude
begin

text \<open>
  Primality of the two large constants of the curve, from Pocklington's criterion. The library theories
  available here have no prime numbers, so the notion and the criterion are developed from scratch: a number
  \<open>N\<close> is prime if a product \<open>F\<close> of primes with \<open>N < (F + 1)^2\<close> divides \<open>N - 1\<close> and some \<open>a\<close> has an order
  modulo every divisor of \<open>N\<close> that \<open>F\<close> divides.
\<close>

section \<open>Prime numbers\<close>

definition is_prime :: "int \<Rightarrow> bool" where
  "is_prime p \<longleftrightarrow> 1 < p \<and> (\<forall>d. 0 < d \<and> d dvd p \<longrightarrow> d = 1 \<or> d = p)"

lemma is_prime_gt_1: "is_prime p \<Longrightarrow> 1 < p"
  by (simp add: is_prime_def)

lemma is_prime_coprime: "is_prime p \<Longrightarrow> \<not> p dvd a \<Longrightarrow> coprime p a"
proof -
  assume p: "is_prime p" and a: "\<not> p dvd a"
  have "gcd p a dvd p" "0 < gcd p a" using is_prime_gt_1 [OF p] by auto
  then have "gcd p a = 1 \<or> gcd p a = p" using p by (auto simp: is_prime_def)
  moreover have "gcd p a \<noteq> p" using a by (metis gcd_dvd2)
  ultimately show ?thesis by (simp add: coprime_iff_gcd_eq_1)
qed

lemma is_prime_dvd_mult: "is_prime p \<Longrightarrow> p dvd a * b \<Longrightarrow> p dvd a \<or> p dvd b"
  using is_prime_coprime coprime_dvd_mult_right_iff by blast

lemma is_prime_dvd_power: "is_prime p \<Longrightarrow> p dvd a ^ k \<Longrightarrow> p dvd a"
proof (induction k)
  case 0
  then show ?case using is_prime_gt_1 [of p] by (simp add: zdvd_not_zless)
next
  case (Suc k)
  then show ?case using is_prime_dvd_mult [of p a "a ^ k"] by auto
qed

text \<open>Trial division, for the small primes at the leaves of a certificate.\<close>

fun no_divisor :: "nat \<Rightarrow> int \<Rightarrow> int \<Rightarrow> bool" where
  "no_divisor 0 d n = True"
| "no_divisor (Suc k) d n = (n mod d \<noteq> 0 \<and> no_divisor k (d + 1) n)"

lemma no_divisor_D: "no_divisor k d n \<Longrightarrow> d \<le> i \<Longrightarrow> i < d + int k \<Longrightarrow> n mod i \<noteq> 0"
proof (induction k arbitrary: d)
  case (Suc k)
  have nd: "n mod d \<noteq> 0" "no_divisor k (d + 1) n" using Suc.prems(1) by simp_all
  show ?case
  proof (cases "i = d")
    case False
    then have "d + 1 \<le> i" "i < d + 1 + int k" using Suc.prems by simp_all
    then show ?thesis by (rule Suc.IH [OF nd(2)])
  qed (use nd in simp)
qed simp

lemma is_prime_trial:
  assumes "no_divisor k 2 n" "1 < n" "n < (2 + int k) * (2 + int k)"
  shows "is_prime n"
  unfolding is_prime_def
proof (intro conjI allI impI)
  fix d assume d: "0 < d \<and> d dvd n"
  then obtain e where n: "n = d * e" by auto
  have e: "0 < e" using n d assms(2) zero_less_mult_pos [of d e] by simp
  have small: "x = 1" if "x dvd n" "0 < x" "x < 2 + int k" for x
  proof (rule ccontr)
    assume "x \<noteq> 1"
    then have "n mod x \<noteq> 0" using no_divisor_D [OF assms(1), of x] that(2,3) by simp
    then show False using that(1) by simp
  qed
  have "d < 2 + int k \<or> e < 2 + int k"
  proof (rule ccontr)
    assume "\<not> ?thesis"
    then have "(2 + int k) * (2 + int k) \<le> d * e" by (intro mult_mono) auto
    then show False using n assms(3) by simp
  qed
  then have "d = 1 \<or> e = 1" using small [of d] small [of e] d e dvd_triv_right [of e d] unfolding n [symmetric] by blast
  then show "d = 1 \<or> d = n" using n by auto
qed (use assms in simp)

section \<open>Orders and Pocklington's criterion\<close>

lemma power_mod_1: "a ^ k mod d = 1 \<Longrightarrow> a ^ (k * m) mod d = (1 :: int) mod d"
  by (metis power_mod power_mult power_one)

lemma order_bound:
  fixes a d :: int
  assumes d: "1 < d" and ex: "0 < e" "a ^ e mod d = 1"
  obtains k where "0 < k" "\<And>m. a ^ m mod d = 1 \<Longrightarrow> k dvd m" "int k < d" "a ^ k mod d = 1"
proof -
  define k where "k = (LEAST k. 0 < k \<and> a ^ k mod d = 1)"
  have k: "0 < k" "a ^ k mod d = 1" unfolding k_def using LeastI [of "\<lambda>k. 0 < k \<and> a ^ k mod d = 1" e] ex by auto
  have min: "m = 0" if "m < k" "a ^ m mod d = 1" for m
    using not_less_Least [of m "\<lambda>k. 0 < k \<and> a ^ k mod d = 1"] that unfolding k_def by auto
  have dvd: "k dvd m" if "a ^ m mod d = 1" for m
  proof -
    have "a ^ m mod d = (a ^ (k * (m div k)) mod d) * (a ^ (m mod k) mod d) mod d"
      by (metis mod_mult_eq mult_div_mod_eq power_add)
    then have "a ^ (m mod k) mod d = 1" using that power_mod_1 [OF k(2), of "m div k"] d by simp
    then have "m mod k = 0" using min [of "m mod k"] k(1) by simp
    then show ?thesis by auto
  qed
  have cop: "coprime a d"
  proof -
    have "coprime (a ^ k mod d) d" using k(2) by simp
    then have "coprime (a ^ k) d" using d by (simp add: coprime_mod_left_iff)
    then show ?thesis using k(1) by simp
  qed
  have inj: "inj_on (\<lambda>i. a ^ i mod d) {..<k}"
  proof (rule linorder_inj_onI')
    fix i j assume ij: "i \<in> {..<k}" "j \<in> {..<k}" "i < j"
    show "a ^ i mod d \<noteq> a ^ j mod d"
    proof
      assume "a ^ i mod d = a ^ j mod d"
      then have "d dvd a ^ j - a ^ i" by (metis mod_eq_dvd_iff)
      also have "a ^ j - a ^ i = a ^ i * (a ^ (j - i) - 1)" using ij by (simp add: right_diff_distrib power_add [symmetric])
      finally have "d dvd a ^ (j - i) - 1" using cop by (simp add: coprime_commute coprime_dvd_mult_right_iff)
      then have "a ^ (j - i) mod d = 1" using d by (metis mod_eq_dvd_iff mod_pos_pos_trivial zero_le_one)
      then show False using min [of "j - i"] ij by (simp add: less_imp_diff_less)
    qed
  qed
  have "(\<lambda>i. a ^ i mod d) ` {..<k} \<subseteq> {1..<d}"
  proof (rule image_subsetI)
    fix i assume "i \<in> {..<k}"
    have c: "coprime d (a ^ i)" using cop by (simp add: coprime_commute)
    have "\<not> d dvd a ^ i" using coprime_absorb_left [of d "a ^ i"] c d by fastforce
    then have "a ^ i mod d \<noteq> 0" by (simp add: mod_eq_0_iff_dvd)
    moreover have "0 \<le> a ^ i mod d" "a ^ i mod d < d" using d by auto
    ultimately show "a ^ i mod d \<in> {1..<d}" by simp
  qed
  from card_inj_on_le [OF inj this] have "k \<le> nat (d - 1)" by simp
  then have "int k < d" using d by linarith
  with that k dvd show thesis by blast
qed

lemma coprime_prod_primes:
  assumes "\<forall>q\<in>set qs. is_prime q \<and> \<not> q dvd m"
  shows "coprime (prod_list qs) m"
  using assms by (induction qs) (auto intro: is_prime_coprime)

text \<open>What has to be shown of one prime factor \<open>q\<close> of \<open>N - 1\<close>.\<close>

definition pock_step :: "int \<Rightarrow> int \<Rightarrow> int \<Rightarrow> bool" where
  "pock_step N a q \<longleftrightarrow> is_prime q \<and> (\<exists>f. N - 1 = q * int f \<and> coprime (a ^ f - 1) N)"

lemma pocklington:
  fixes N a :: int
  assumes N: "1 < N" and F: "N - 1 = prod_list qs * cof" "N < (prod_list qs + 1) * (prod_list qs + 1)"
    and a: "N - 1 = int e" "a ^ e mod N = 1"
    and q: "\<forall>q\<in>set qs. pock_step N a q"
  shows "is_prime N"
  unfolding is_prime_def
proof (intro conjI allI impI)
  let ?F = "prod_list qs"
  have pr: "\<forall>q\<in>set qs. is_prime q" using q by (simp add: pock_step_def)
  then have Fpos: "0 < ?F" by (induction qs) (auto dest: is_prime_gt_1)
  have big: "?F < d" if d: "1 < d" "d dvd N" for d
  proof -
    have e: "a ^ e mod d = 1" using a(2) d by (metis mod_mod_cancel mod_pos_pos_trivial zero_le_one)
    from order_bound [OF d(1) _ e] N a(1) obtain k where k: "0 < k" "int k < d" "a ^ k mod d = 1"
      "\<And>m. a ^ m mod d = 1 \<Longrightarrow> k dvd m" by (metis diff_gt_0_iff_gt of_nat_0_less_iff)
    obtain m where m: "e = k * m" using k(4) [OF e] by auto
    have nd: "\<not> r dvd int m" if r: "r \<in> set qs" for r
    proof
      assume "r dvd int m"
      then obtain s where s: "int m = r * s" by auto
      have r1: "1 < r" using pr r is_prime_gt_1 by blast
      obtain f where f: "N - 1 = r * int f" "coprime (a ^ f - 1) N" using q r by (auto simp: pock_step_def)
      have "r * int f = int k * int m" using f(1) a(1) m by simp
      then have "r * int f = r * (int k * s)" by (simp only: s mult.left_commute)
      then have fs: "int f = int k * s" using r1 by simp
      then have "k dvd f" by (metis dvd_triv_left int_dvd_int_iff)
      then obtain s' where "f = k * s'" by auto
      then have "a ^ f mod d = 1" using power_mod_1 [OF k(3), of s'] d by simp
      then have "d dvd a ^ f - 1" by (metis d(1) mod_eq_dvd_iff mod_pos_pos_trivial zero_le_one)
      then have "d dvd 1" using d(2) f(2) by (metis coprime_common_divisor)
      then show False using d(1) by simp
    qed
    have "coprime ?F (int m)" using coprime_prod_primes [of qs "int m"] pr nd by blast
    moreover have "?F dvd int k * int m" using F(1) a(1) m by (metis dvd_triv_left of_nat_mult)
    ultimately have "?F dvd int k" by (simp add: coprime_dvd_mult_left_iff)
    then have "?F \<le> int k" using k(1) by (simp add: zdvd_imp_le)
    then show ?thesis using k(2) by simp
  qed
  fix d assume d: "0 < d \<and> d dvd N"
  then obtain e' where e': "N = d * e'" by auto
  show "d = 1 \<or> d = N"
  proof (rule ccontr)
    assume c: "\<not> (d = 1 \<or> d = N)"
    have "0 < e'" using e' d N zero_less_mult_pos [of d e'] by simp
    then have "1 < d" "1 < e'" using c d e' by auto
    then have "?F + 1 \<le> d" "?F + 1 \<le> e'" using big [of d] big [of e'] e' by auto
    then have "(?F + 1) * (?F + 1) \<le> d * e'" using Fpos by (intro mult_mono) auto
    then show False using F(2) e' by simp
  qed
qed (use N in simp)

end
