(* ===== verification/Prime_Eval.thy ===== *)
theory Prime_Eval
  imports Prime_Cert
begin

text \<open>
  Modular powers by rewriting. A modulus close below a power of two \<open>t = 2^k\<close>, say one that divides \<open>t - c\<close>
  for a small \<open>c\<close>, is reduced by folding: the part of a number above \<open>2^k\<close> is multiplied by \<open>c\<close> and added to
  the part below. Everything computes on binary numerals, by the rules \<open>chain_eval\<close> alone.
\<close>

section \<open>Folding\<close>

definition bit0 :: "int \<Rightarrow> int" where
  "bit0 l = 2 * l"

definition bit1 :: "int \<Rightarrow> int" where
  "bit1 l = 2 * l + 1"

fun push0 :: "int \<times> int \<Rightarrow> int \<times> int" where
  "push0 (h, l) = (h, bit0 l)"

fun push1 :: "int \<times> int \<Rightarrow> int \<times> int" where
  "push1 (h, l) = (h, bit1 l)"

fun num_split :: "num \<Rightarrow> num \<Rightarrow> int \<times> int" where
  "num_split num.One n = (numeral n, 0)"
| "num_split (num.Bit0 t) num.One = (0, numeral num.One)"
| "num_split (num.Bit0 t) (num.Bit0 n) = push0 (num_split t n)"
| "num_split (num.Bit0 t) (num.Bit1 n) = push1 (num_split t n)"
| "num_split (num.Bit1 t) n = (0, numeral n)"

fun fold_parts :: "int \<Rightarrow> int \<times> int \<Rightarrow> int" where
  "fold_parts c (h, l) = h * c + l"

definition red :: "int \<Rightarrow> num \<Rightarrow> int \<Rightarrow> int" where
  "red c t x = (if 0 < x then fold_parts c (num_split t (num_of_nat (nat x))) else x)"

definition sqm :: "int \<Rightarrow> num \<Rightarrow> int \<Rightarrow> int" where
  "sqm c t x = red c t (red c t (red c t (x * x)))"

definition mulm :: "int \<Rightarrow> num \<Rightarrow> int \<Rightarrow> int \<Rightarrow> int" where
  "mulm c t x b = red c t (red c t (red c t (x * b)))"

text \<open>Square and multiply along a list of exponent bits, most significant first.\<close>

fun chain :: "int \<Rightarrow> num \<Rightarrow> int \<Rightarrow> int \<Rightarrow> bool list \<Rightarrow> int" where
  "chain c t b x [] = x"
| "chain c t b x (True # bs) = chain c t b (mulm c t (sqm c t x) b) bs"
| "chain c t b x (False # bs) = chain c t b (sqm c t x) bs"

fun bits_val :: "nat \<Rightarrow> bool list \<Rightarrow> nat" where
  "bits_val e [] = e"
| "bits_val e (b # bs) = bits_val (2 * e + of_bool b) bs"

lemma numeral_bits: "(numeral (num.Bit0 n) :: int) = 2 * numeral n" "(numeral (num.Bit1 n) :: int) = 2 * numeral n + 1"
  by (simp_all only: numeral_Bit0 [of n] numeral_Bit1 [of n] mult_2)

lemma double_parts: "x = h * y + l \<Longrightarrow> 2 * x = h * (2 * y) + 2 * l" for x h y l :: int
  by (simp add: algebra_simps)

lemma num_split_val: "num_split t n = (h, l) \<Longrightarrow> numeral n = h * numeral t + l"
proof (induction t n arbitrary: h l rule: num_split.induct)
  case (3 t n)
  obtain h' l' where s: "num_split t n = (h', l')" by fastforce
  then have "h' = h" "l = 2 * l'" using "3.prems" by (simp_all add: bit0_def)
  then show ?case using double_parts [OF "3.IH" [OF s]] by (simp only: numeral_bits [of n] numeral_bits [of t])
next
  case (4 t n)
  obtain h' l' where s: "num_split t n = (h', l')" by fastforce
  then have "h' = h" "l = 2 * l' + 1" using "4.prems" by (simp_all add: bit1_def)
  then show ?case using double_parts [OF "4.IH" [OF s]] by (simp only: numeral_bits [of n] numeral_bits [of t] add.assoc)
qed simp_all

lemma red_mod: "N dvd numeral t - c \<Longrightarrow> red c t x mod N = x mod N"
proof (cases "0 < x")
  case True
  assume N: "N dvd numeral t - c"
  obtain h l where s: "num_split t (num_of_nat (nat x)) = (h, l)" by fastforce
  have "x = numeral (num_of_nat (nat x))" using True by (metis nat_numeral numeral_num_of_nat order_less_imp_le nat_eq_iff2 zero_less_nat_eq)
  then have x: "x = h * numeral t + l" using num_split_val [OF s] by simp
  have "N dvd h * (numeral t - c)" using N by simp
  moreover have "x - red c t x = h * (numeral t - c)" using True s x by (simp add: red_def right_diff_distrib)
  ultimately show ?thesis by (metis mod_eq_dvd_iff)
qed (simp add: red_def)

lemma sqm_mod: "N dvd numeral t - c \<Longrightarrow> sqm c t x mod N = x * x mod N"
  by (simp add: sqm_def red_mod)

lemma mulm_mod: "N dvd numeral t - c \<Longrightarrow> mulm c t x b mod N = x * b mod N"
  by (simp add: mulm_def red_mod)

lemma chain_mod:
  assumes "N dvd numeral t - c" "x mod N = b ^ e mod N"
  shows "chain c t b x bs mod N = b ^ bits_val e bs mod N"
  using assms
proof (induction c t b x bs arbitrary: e rule: chain.induct)
  case (2 c t b x bs)
  have "mulm c t (sqm c t x) b mod N = (sqm c t x mod N) * b mod N"
    using "2.prems"(1) by (simp add: mulm_mod mod_mult_left_eq)
  also have "\<dots> = ((x mod N) * (x mod N) mod N) * b mod N" using "2.prems"(1) by (simp add: sqm_mod mod_mult_eq)
  also have "\<dots> = b ^ e * b ^ e * b mod N" unfolding "2.prems"(2) by (simp only: mod_mult_eq) (simp only: mod_mult_left_eq)
  also have "b ^ e * b ^ e * b = b ^ (2 * e + 1)" by (simp add: mult_2 power_add)
  finally show ?case using "2.IH" [of "2 * e + 1"] "2.prems"(1) by simp
next
  case (3 c t b x bs)
  have "sqm c t x mod N = (x mod N) * (x mod N) mod N" using "3.prems"(1) by (simp add: sqm_mod mod_mult_eq)
  also have "\<dots> = b ^ (2 * e) mod N" unfolding "3.prems"(2) by (simp add: mod_mult_eq mult_2 power_add)
  finally show ?case using "3.IH" [of "2 * e"] "3.prems"(1) by simp
qed simp

lemma chain_append: "chain c t b x (bs @ cs) = chain c t b (chain c t b x bs) cs"
  by (induction c t b x bs rule: chain.induct) simp_all

lemma bits_val_append: "bits_val e (bs @ cs) = bits_val (bits_val e bs) cs"
  by (induction e bs rule: bits_val.induct) simp_all

lemma chain_power: "N dvd numeral t - c \<Longrightarrow> chain c t b b bs mod N = b ^ bits_val 1 bs mod N"
  by (rule chain_mod) simp_all

section \<open>Steps of a certificate\<close>

lemma coprime_bezout: "x * u = 1 + v * N \<Longrightarrow> coprime x N" for x N :: int
proof (rule coprimeI)
  fix d assume "x * u = 1 + v * N" "d dvd x" "d dvd N"
  then have "d dvd x * u - v * N" by (intro dvd_diff dvd_mult dvd_mult2)
  then show "d dvd 1" using \<open>x * u = 1 + v * N\<close> by simp
qed

lemma coprime_cong_1: "y mod N = b mod N \<Longrightarrow> (b - 1) * u = 1 + v * N \<Longrightarrow> coprime (y - 1) N" for y N :: int
proof -
  assume y: "y mod N = b mod N" and b: "(b - 1) * u = 1 + v * N"
  obtain k where "y = b + N * k" using y by (metis mod_eqE mult.commute)
  then have "(y - 1) * u = 1 + (v + k * u) * N" using b by (simp add: algebra_simps)
  then show ?thesis by (rule coprime_bezout)
qed

lemma pock_step_chain:
  assumes "is_prime q" "N dvd numeral t - c" "chain c t a a bs = b" "N - 1 = q * int (bits_val 1 bs)" "(b - 1) * u = 1 + v * N"
  shows "pock_step N a q"
  unfolding pock_step_def
  using assms(1,4) coprime_cong_1 [OF _ assms(5)] chain_power [OF assms(2), of a bs] assms(3) by metis

text \<open>The full power, as a power of a power.\<close>

lemma full_power_chain:
  assumes N: "N dvd numeral t - c" "1 < N" and b: "chain c t a a bs = b" and y: "chain c t b b cs = 1 + w * N"
  shows "a ^ (bits_val 1 bs * bits_val 1 cs) mod N = 1"
proof -
  have "a ^ bits_val 1 bs mod N = b mod N" using chain_power [OF N(1), of a bs] b by simp
  then have "a ^ (bits_val 1 bs * bits_val 1 cs) mod N = b ^ bits_val 1 cs mod N"
    by (metis power_mod power_mult)
  also have "\<dots> = (1 + w * N) mod N" using chain_power [OF N(1), of b cs] y by simp
  finally show ?thesis using N(2) by simp
qed

text \<open>Small moduli, reduced by division after every step.\<close>

definition sqmod :: "int \<Rightarrow> int \<Rightarrow> int" where
  "sqmod x N = x * x mod N"

definition powm :: "int \<Rightarrow> int \<Rightarrow> int \<Rightarrow> int" where
  "powm b e N = b ^ nat e mod N"

lemma powm_eval:
  "powm b 1 N = b mod N" "powm b (numeral (num.Bit0 k)) N = sqmod (powm b (numeral k) N) N"
  "powm b (numeral (num.Bit1 k)) N = sqmod (powm b (numeral k) N) N * b mod N"
proof -
  have "b ^ numeral (num.Bit0 k) = b ^ numeral k * b ^ numeral k" by (simp only: numeral_Bit0 [of k] power_add)
  then show "powm b (numeral (num.Bit0 k)) N = sqmod (powm b (numeral k) N) N"
    by (simp only: powm_def sqmod_def nat_numeral mod_mult_eq)
  have "b ^ numeral (num.Bit1 k) = b ^ numeral k * b ^ numeral k * b" by (simp only: numeral_Bit1 [of k] power_add power_one_right)
  then show "powm b (numeral (num.Bit1 k)) N = sqmod (powm b (numeral k) N) N * b mod N"
    by (simp only: powm_def sqmod_def nat_numeral mod_mult_eq) (simp only: mod_mult_left_eq)
qed (simp add: powm_def)

lemma pock_step_small:
  assumes "is_prime q" "powm a e N = b" "N - 1 = q * e" "0 \<le> e" "(b - 1) * u = 1 + v * N"
  shows "pock_step N a q"
  unfolding pock_step_def
proof (intro conjI exI)
  show "N - 1 = q * int (nat e)" using assms(3,4) by simp
  have "a ^ nat e mod N = b mod N" using assms(2) by (auto simp: powm_def)
  then show "coprime (a ^ nat e - 1) N" by (rule coprime_cong_1 [OF _ assms(5)])
qed (rule assms)

lemma pocklington_small:
  assumes "1 < N" "N - 1 = prod_list qs * cof" "N < (prod_list qs + 1) * (prod_list qs + 1)"
    and "powm a (N - 1) N = 1" "\<forall>q\<in>set qs. pock_step N a q"
  shows "is_prime N"
  using assms(1,4) by (intro pocklington [OF assms(1-3) _ _ assms(5), of "nat (N - 1)"]) (simp_all add: powm_def)

section \<open>Evaluation\<close>

lemma red_numeral: "red c t 0 = 0" "red c t (numeral n) = fold_parts c (num_split t n)"
  by (simp_all add: red_def)

lemma bit_numeral: "bit0 0 = 0" "bit0 (numeral l) = numeral (num.Bit0 l)" "bit1 0 = numeral num.One"
    "bit1 (numeral l) = numeral (num.Bit1 l)"
  by (simp_all add: bit0_def bit1_def)

lemma numeral_square: "(numeral k :: int) * numeral k = numeral (Num.sqr k)"
  by (simp add: Num.sqr_conv_mult)

lemma sqm_numeral: "sqm c t (numeral k) = red c t (red c t (red c t (numeral (Num.sqr k))))"
  by (simp only: sqm_def numeral_square)

lemmas chain_eval = chain.simps sqm_numeral mulm_def red_numeral fold_parts.simps num_split.simps push0.simps push1.simps
  bit_numeral Num.sqr.simps numeral_times_numeral numeral_plus_numeral mult_zero_left add_0_left add_0_right
  mult_num_simps add_num_simps

end
