(* ===== verification/Secp_Primes.thy ===== *)
theory Secp_Primes
  imports Prime_Eval
begin

text \<open>
  The small primes at the leaves of the certificate of the field prime, and the power \<open>2^256\<close> the large
  moduli lie close to: \<open>p\<close> itself, \<open>p - 1\<close> (a multiple of its large prime factor \<open>q1\<close>) and
  \<open>564522 * (q1 - 1)\<close> (a multiple of the large prime factor of \<open>q1 - 1\<close>).
\<close>

definition sh4 :: "num \<Rightarrow> num" where
  "sh4 t = num.Bit0 (num.Bit0 (num.Bit0 (num.Bit0 t)))"

definition sh64 :: "num \<Rightarrow> num" where
  "sh64 t = sh4 (sh4 (sh4 (sh4 (sh4 (sh4 (sh4 (sh4 (sh4 (sh4 (sh4 (sh4 (sh4 (sh4 (sh4 (sh4 t)))))))))))))))"

definition t256 :: num where
  "t256 = sh64 (sh64 (sh64 (sh64 num.One)))"

lemmas t256_eval = t256_def sh64_def sh4_def

lemma bits_eval:
  "bits_val 1 (True # bs) = bits_val 3 bs" "bits_val 1 (False # bs) = bits_val 2 bs"
  "bits_val (numeral k) (True # bs) = bits_val (numeral (num.Bit1 k)) bs"
  "bits_val (numeral k) (False # bs) = bits_val (numeral (num.Bit0 k)) bs"
  by (simp_all add: numeral_3_eq_3)

section \<open>Small primes\<close>

lemma prime_53: "is_prime 53"
  by (rule is_prime_trial [of 6]) (simp_all add: eval_nat_numeral)

lemma prime_29: "is_prime 29"
  by (rule is_prime_trial [of 4]) (simp_all add: eval_nat_numeral)

lemma prime_7: "is_prime 7"
  by (rule is_prime_trial [of 1]) (simp_all add: eval_nat_numeral)

lemma prime_107590001: "is_prime 107590001"
proof -
  have s7: "pock_step 107590001 2 7"
    by (rule pock_step_small [OF prime_7, where b = 95730224 and e = 15370000 and u = 4923006 and v = 4380337]) (simp_all add: powm_eval sqmod_def)
  have s29: "pock_step 107590001 2 29"
    by (rule pock_step_small [OF prime_29, where b = 68236646 and e = 3710000 and u = 100085220 and v = 63476899]) (simp_all add: powm_eval sqmod_def)
  have s53: "pock_step 107590001 2 53"
    by (rule pock_step_small [OF prime_53, where b = 26896163 and e = 2030000 and u = 75712971 and v = 18927301]) (simp_all add: powm_eval sqmod_def)
  show ?thesis
    by (rule pocklington_small [where qs = "[53, 29, 7]" and a = 2 and cof = 10000])
      (simp_all add: powm_eval sqmod_def s7 s29 s53)
qed

lemma prime_419: "is_prime 419"
  by (rule is_prime_trial [of 19]) (simp_all add: eval_nat_numeral)

lemma prime_20113: "is_prime 20113"
proof -
  have s419: "pock_step 20113 2 419"
    by (rule pock_step_small [OF prime_419, where b = 15069 and e = 48 and u = 17111 and v = 12819]) (simp_all add: powm_eval sqmod_def)
  show ?thesis
    by (rule pocklington_small [where qs = "[419]" and a = 2 and cof = 48])
      (simp_all add: powm_eval sqmod_def s419)
qed

lemma prime_1206781: "is_prime 1206781"
proof -
  have s20113: "pock_step 1206781 2 20113"
    by (rule pock_step_small [OF prime_20113, where b = 78448 and e = 60 and u = 709359 and v = 46112]) (simp_all add: powm_eval sqmod_def)
  show ?thesis
    by (rule pocklington_small [where qs = "[20113]" and a = 2 and cof = 60])
      (simp_all add: powm_eval sqmod_def s20113)
qed

lemma prime_7240687: "is_prime 7240687"
proof -
  have s1206781: "pock_step 7240687 2 1206781"
    by (rule pock_step_small [OF prime_1206781, where b = 64 and e = 6 and u = 5746577 and v = 50]) (simp_all add: powm_eval sqmod_def)
  show ?thesis
    by (rule pocklington_small [where qs = "[1206781]" and a = 2 and cof = 6])
      (simp_all add: powm_eval sqmod_def s1206781)
qed

lemma prime_239: "is_prime 239"
  by (rule is_prime_trial [of 14]) (simp_all add: eval_nat_numeral)

lemma prime_101: "is_prime 101"
  by (rule is_prime_trial [of 9]) (simp_all add: eval_nat_numeral)

lemma prime_96557: "is_prime 96557"
proof -
  have s101: "pock_step 96557 2 101"
    by (rule pock_step_small [OF prime_101, where b = 63065 and e = 956 and u = 50445 and v = 32947]) (simp_all add: powm_eval sqmod_def)
  have s239: "pock_step 96557 2 239"
    by (rule pock_step_small [OF prime_239, where b = 29586 and e = 404 and u = 8329 and v = 2552]) (simp_all add: powm_eval sqmod_def)
  show ?thesis
    by (rule pocklington_small [where qs = "[239, 101]" and a = 2 and cof = 4])
      (simp_all add: powm_eval sqmod_def s101 s239)
qed

end
