(* ===== verification/Secp_Prime_P.thy ===== *)
theory Secp_Prime_P
  imports Secp_Primes
begin

text \<open>
  The certificate of the field prime: its three large steps. Each power is computed in pieces of twenty-four
  squarings; the pieces are joined by \<open>chain_append\<close> and the exponents read off by \<open>bits_eval\<close>.
\<close>

lemma prime_q2_c1_0: "chain 4295532796 t256 2 2
      [True, True, False, True, True, True, True, True, True, False, False, True, True, False, True, True, True, False, True, False, True, False, True, True] =
      2765013313793383032874563923663522272248294884080091839987384725114225924968"
  unfolding t256_eval by (simp only: chain_eval refl)

lemma prime_q2_c1_1: "chain 4295532796 t256 2 2765013313793383032874563923663522272248294884080091839987384725114225924968
      [False, True, False, False, False, True, False, False, False, False, True, True, False, False, False, False, True, True, True, False, True, True, False, True] =
      1327602240660164776436308570995150411968310999433630058309969275758592932392"
  unfolding t256_eval by (simp only: chain_eval refl)

lemma prime_q2_c1_2: "chain 4295532796 t256 2 1327602240660164776436308570995150411968310999433630058309969275758592932392
      [True, True, True, True, False, True, False, False, False, True, False, True, True, True, True, True, True, True, True, True, False, False, True, False] =
      108192012833932445548113454474798969264207679769544686201923147761851962777224"
  unfolding t256_eval by (simp only: chain_eval refl)

lemma prime_q2_c1_3: "chain 4295532796 t256 2 108192012833932445548113454474798969264207679769544686201923147761851962777224
      [False, False, False, False, True, True, False, True, True, False, False, False, True, True, False, False, False, False, True, False, True, True, True, False] =
      90472637385803502676625945328790695319126987001672373688858278542443303188424"
  unfolding t256_eval by (simp only: chain_eval refl)

lemma prime_q2_c1_4: "chain 4295532796 t256 2 90472637385803502676625945328790695319126987001672373688858278542443303188424
      [True, False, False, False] =
      23696385375289737106671537707707867480415434671716996755054637017793103880696"
  unfolding t256_eval by (simp only: chain_eval refl)

lemma prime_q2_c2_0: "chain 4295532796 t256 2 2
      [True, False, True, True, True, True, False, True, False, True, True, False, True, False, False, False, True, False, False, True, True, True, False, True] =
      9040704537200339131184660219458811742062742761537312756602766189113983102932"
  unfolding t256_eval by (simp only: chain_eval refl)

lemma prime_q2_c2_1: "chain 4295532796 t256 2 9040704537200339131184660219458811742062742761537312756602766189113983102932
      [False, True, False, True, False, True, False, True, False, False, False, True, True, False, False, True, True, True, True, False, False, True, False, False] =
      47088564038261781623135857855879764118355767655397923634012517255170485239336"
  unfolding t256_eval by (simp only: chain_eval refl)

lemma prime_q2_c2_2: "chain 4295532796 t256 2 47088564038261781623135857855879764118355767655397923634012517255170485239336
      [True, True, True, True, False, False, False, True, True, True, False, True, True, True, False, False, False, True, False, True, False, True, True, True] =
      25461980277968773215760468908141804177213699157468611130733610412219552286108"
  unfolding t256_eval by (simp only: chain_eval refl)

lemma prime_q2_c2_3: "chain 4295532796 t256 2 25461980277968773215760468908141804177213699157468611130733610412219552286108
      [True, False, True, True, True, False, True, False, False, False, True, False, False, True, True, False, False, True, False, False, True, True, True, False] =
      7262137976107634062926659629049672801221877449936259190437504391440755153084"
  unfolding t256_eval by (simp only: chain_eval refl)

lemma prime_q2_c2_4: "chain 4295532796 t256 2 7262137976107634062926659629049672801221877449936259190437504391440755153084
      [False, False, False, True, True, False, False, False] =
      81791342685288425687450930228103369167834071258171253089040347041959098240096"
  unfolding t256_eval by (simp only: chain_eval refl)

lemma prime_q2_c3_0: "chain 4295532796 t256 2 2
      [False, False, False, False, False, True, False, False, True, True, True, True, False, False, False, True, False, True, False, False, False, False, True, False] =
      52437297201063271366768670201022437111992680056877302378813713504194722246464"
  unfolding t256_eval by (simp only: chain_eval refl)

lemma prime_q2_c3_1: "chain 4295532796 t256 2 52437297201063271366768670201022437111992680056877302378813713504194722246464
      [True, False, False, False, True, False, False, True, True, True, False, True, False, False, False, True, True, False, False, False, True, False, False, False] =
      69000894353932311326419750077762473504386116131642626292216434876580580514936"
  unfolding t256_eval by (simp only: chain_eval refl)

lemma prime_q2_c3_2: "chain 4295532796 t256 2 69000894353932311326419750077762473504386116131642626292216434876580580514936
      [True, True, True, True, False, True, True, False, True, False, False, True, False, False, True, True, True, True, True, True, True, False, False, False] =
      54236010152344260020379867516253747141477977361342178239237685157405550507876"
  unfolding t256_eval by (simp only: chain_eval refl)

lemma prime_q2_c3_3: "chain 4295532796 t256 2 54236010152344260020379867516253747141477977361342178239237685157405550507876
      [False, True, False, True, False, True, True, False, False, True, False, False, False, True, False, False, False, False, True, True, False, False, True, True] =
      110027041404339559723535985004238635347375683962952924113898106276905186387288"
  unfolding t256_eval by (simp only: chain_eval refl)

lemma prime_q2_c3_4: "chain 4295532796 t256 2 110027041404339559723535985004238635347375683962952924113898106276905186387288
      [False, True, False, False, False, True, True, False, False, False, False, True, False, False, False] =
      27419862910450987089959044371638483019518615234568497511135250831469036331856"
  unfolding t256_eval by (simp only: chain_eval refl)

lemma prime_q2_c4_0: "chain 4295532796 t256 27419862910450987089959044371638483019518615234568497511135250831469036331856 27419862910450987089959044371638483019518615234568497511135250831469036331856
      [False, True, True, True, True, False, False, True, False, False, True, False, True, True, False, True] =
      78121395948624964020941602489544059841075080391189201268442050577015658441236"
  unfolding t256_eval by (simp only: chain_eval refl)

lemma prime_q2: "is_prime 255515944373312847190720520512484175977"
proof -
  have N: "255515944373312847190720520512484175977 dvd numeral t256 - (4295532796 :: int)"
    by (rule dvdI [of _ _ 453169721057180355817992991878726878820]) (simp add: t256_eval)
  define bc1 where "bc1 = ([True, True, False, True, True, True, True, True, True, False, False, True, True, False, True, True, True, False, True, False, True, False, True, True] @ [False, True, False, False, False, True, False, False, False, False, True, True, False, False, False, False, True, True, True, False, True, True, False, True] @ [True, True, True, True, False, True, False, False, False, True, False, True, True, True, True, True, True, True, True, True, False, False, True, False] @ [False, False, False, False, True, True, False, True, True, False, False, False, True, True, False, False, False, False, True, False, True, True, True, False] @ [True, False, False, False])"
  have c1: "chain 4295532796 t256 2 2 bc1 = 23696385375289737106671537707707867480415434671716996755054637017793103880696" unfolding bc1_def by (simp only: chain_append prime_q2_c1_0 prime_q2_c1_1 prime_q2_c1_2 prime_q2_c1_3 prime_q2_c1_4)
  have vc1: "bits_val 1 bc1 = 2374904191824599455024826335976" unfolding bc1_def by (simp only: bits_val_append bits_eval bits_val.simps(1))
  have sc1: "pock_step 255515944373312847190720520512484175977 2 107590001"
    by (rule pock_step_chain [OF prime_107590001 N c1, where u = 235081362755335172132203715226758066727 and v = 21801295336231551310157833505407766738837933025305112652407957119036295152032])
      (simp_all add: vc1 [simplified])
  define bc2 where "bc2 = ([True, False, True, True, True, True, False, True, False, True, True, False, True, False, False, False, True, False, False, True, True, True, False, True] @ [False, True, False, True, False, True, False, True, False, False, False, True, True, False, False, True, True, True, True, False, False, True, False, False] @ [True, True, True, True, False, False, False, True, True, True, False, True, True, True, False, False, False, True, False, True, False, True, True, True] @ [True, False, True, True, True, False, True, False, False, False, True, False, False, True, True, False, False, True, False, False, True, True, True, False] @ [False, False, False, True, True, False, False, False])"
  have c2: "chain 4295532796 t256 2 2 bc2 = 81791342685288425687450930228103369167834071258171253089040347041959098240096" unfolding bc2_def by (simp only: chain_append prime_q2_c2_0 prime_q2_c2_1 prime_q2_c2_2 prime_q2_c2_3 prime_q2_c2_4)
  have vc2: "bits_val 1 bc2 = 35288908963101546467996824129048" unfolding bc2_def by (simp only: bits_val_append bits_eval bits_val.simps(1))
  have sc2: "pock_step 255515944373312847190720520512484175977 2 7240687"
    by (rule pock_step_chain [OF prime_7240687 N c2, where u = 175544394104025381149509263364095140941 and v = 56192233834403626089794637765275045127017105709608241916907994454019095862722])
      (simp_all add: vc2 [simplified])
  define bc3 where "bc3 = ([False, False, False, False, False, True, False, False, True, True, True, True, False, False, False, True, False, True, False, False, False, False, True, False] @ [True, False, False, False, True, False, False, True, True, True, False, True, False, False, False, True, True, False, False, False, True, False, False, False] @ [True, True, True, True, False, True, True, False, True, False, False, True, False, False, True, True, True, True, True, True, True, False, False, False] @ [False, True, False, True, False, True, True, False, False, True, False, False, False, True, False, False, False, False, True, True, False, False, True, True] @ [False, True, False, False, False, True, True, False, False, False, False, True, False, False, False])"
  have c3: "chain 4295532796 t256 2 2 bc3 = 27419862910450987089959044371638483019518615234568497511135250831469036331856" unfolding bc3_def by (simp only: chain_append prime_q2_c3_0 prime_q2_c3_1 prime_q2_c3_2 prime_q2_c3_3 prime_q2_c3_4)
  have vc3: "bits_val 1 bc3 = 2646270538369179315748423423599368" unfolding bc3_def by (simp only: bits_val_append bits_eval bits_val.simps(1))
  have sc3: "pock_step 255515944373312847190720520512484175977 2 96557"
    by (rule pock_step_chain [OF prime_96557 N c3, where u = 52333299885033245219942804006191421971 and v = 5615977946184897450061944181283898899662454611790256025514507818384679920252])
      (simp_all add: vc3 [simplified])
  define bc4 where "bc4 = [False, True, True, True, True, False, False, True, False, False, True, False, True, True, False, True]"
  have c4: "chain 4295532796 t256 27419862910450987089959044371638483019518615234568497511135250831469036331856 27419862910450987089959044371638483019518615234568497511135250831469036331856 bc4 = 78121395948624964020941602489544059841075080391189201268442050577015658441236" unfolding bc4_def by (simp only: chain_append prime_q2_c4_0)
  have vc4: "bits_val 1 bc4 = 96557" unfolding bc4_def by (simp only: bits_val_append bits_eval bits_val.simps(1))
  have y: "chain 4295532796 t256 27419862910450987089959044371638483019518615234568497511135250831469036331856 27419862910450987089959044371638483019518615234568497511135250831469036331856 bc4 = 1 + 305739808684848118680432599887372662555 * 255515944373312847190720520512484175977" unfolding c4 by simp
  have full: "2 ^ (bits_val 1 bc3 * bits_val 1 bc4) mod 255515944373312847190720520512484175977 = (1 :: int)"
    by (rule full_power_chain [OF N _ c3 y]) simp
  have e: "255515944373312847190720520512484175977 - 1 = int (bits_val 1 bc3 * bits_val 1 bc4)" by (simp only: of_nat_mult vc3 vc4)
  show ?thesis
  proof (rule pocklington [OF _ _ _ e full])
    show "(1 :: int) < 255515944373312847190720520512484175977" by simp
    show "255515944373312847190720520512484175977 - 1 = prod_list [107590001, 7240687, 96557] * (3396898387916374264 :: int)" by simp
    show "255515944373312847190720520512484175977 < (prod_list [107590001, 7240687, 96557] + 1) * (prod_list [107590001, 7240687, 96557] + (1 :: int))" by simp
    show "\<forall>q\<in>set [107590001, 7240687, 96557]. pock_step 255515944373312847190720520512484175977 2 q" using sc1 sc2 sc3 by simp
  qed
qed

lemma prime_q1_c1_0: "chain 4294968274 t256 2 2
      [False, False, True, True, True, True, False, False, True, False, True, False, False, False, False, False, True, True, True, True, True, False, True, False] =
      61035562910077768569281455746583340931168162475751580761575847082796368345922"
  unfolding t256_eval by (simp only: chain_eval refl)

lemma prime_q1_c1_1: "chain 4294968274 t256 2 61035562910077768569281455746583340931168162475751580761575847082796368345922
      [True, False, True, True, True, True, True, True, True, True, False, True, True, False, False, True, True, True, True, False, False, False, False, False] =
      68210851450278008847875336650953325904229276514175359065636515716831123472542"
  unfolding t256_eval by (simp only: chain_eval refl)

lemma prime_q1_c1_2: "chain 4294968274 t256 2 68210851450278008847875336650953325904229276514175359065636515716831123472542
      [False, False, False, True, True, False, True, True, True, False, False, False, True, True, False, False, False, False, False, False, True, True, True, True] =
      36079939895305414769057179255502579753067937955934093134781596081314716608678"
  unfolding t256_eval by (simp only: chain_eval refl)

lemma prime_q1_c1_3: "chain 4294968274 t256 2 36079939895305414769057179255502579753067937955934093134781596081314716608678
      [True, True, True, False, False, False, False, False, False, False, True, True, True, True, True, True, True, False, True, False, True, False, False, True] =
      77618360304439859768977078794338618348770481899669552975923460626861395388338"
  unfolding t256_eval by (simp only: chain_eval refl)

lemma prime_q1_c1_4: "chain 4294968274 t256 2 77618360304439859768977078794338618348770481899669552975923460626861395388338
      [True, False, False, True, True, True, True, True, False, True, False, True, False] =
      6128487468239690641880689784747230967726432769667418121991287898962944569492"
  unfolding t256_eval by (simp only: chain_eval refl)

lemma prime_q1_c2_0: "chain 4294968274 t256 6128487468239690641880689784747230967726432769667418121991287898962944569492 6128487468239690641880689784747230967726432769667418121991287898962944569492
      [True, False, False, False, False, False, False, False, False, True, True, True, False, True, False, True, False, False, True, False, True, False, False, True] =
      106798432013165999329489827105405362287280786182308548666389421659638669633784"
  unfolding t256_eval by (simp only: chain_eval refl)

lemma prime_q1_c2_1: "chain 4294968274 t256 6128487468239690641880689784747230967726432769667418121991287898962944569492 106798432013165999329489827105405362287280786182308548666389421659638669633784
      [False, True, True, False, False, True, False, True, True, False, True, False, False, True, True, True, True, True, False, False, True, True, False, False] =
      4501363480592523457773542412382511656916602583186831529954119614370619439024"
  unfolding t256_eval by (simp only: chain_eval refl)

lemma prime_q1_c2_2: "chain 4294968274 t256 6128487468239690641880689784747230967726432769667418121991287898962944569492 4501363480592523457773542412382511656916602583186831529954119614370619439024
      [True, False, False, False, True, False, False, False, False, False, True, True, False, False, True, True, False, True, False, False, False, False, False, False] =
      59070939092504551912428841561675342190885383123752993824897672875800000502522"
  unfolding t256_eval by (simp only: chain_eval refl)

lemma prime_q1_c2_3: "chain 4294968274 t256 6128487468239690641880689784747230967726432769667418121991287898962944569492 59070939092504551912428841561675342190885383123752993824897672875800000502522
      [True, False, True, True, True, False, False, True, True, False, True, True, False, False, False, True, True, False, False, True, True, False, False, True] =
      12742180827837816311673689993215127969935642586040767234028504862555399276888"
  unfolding t256_eval by (simp only: chain_eval refl)

lemma prime_q1_c2_4: "chain 4294968274 t256 6128487468239690641880689784747230967726432769667418121991287898962944569492 12742180827837816311673689993215127969935642586040767234028504862555399276888
      [False, True, True, True, True, True, True, True, False, False, True, True, False, False, False, False, True, True, True, False, False, False, False, False] =
      72888249892428684766321267285866434977316563219116567228971528562354206393884"
  unfolding t256_eval by (simp only: chain_eval refl)

lemma prime_q1_c2_5: "chain 4294968274 t256 6128487468239690641880689784747230967726432769667418121991287898962944569492 72888249892428684766321267285866434977316563219116567228971528562354206393884
      [True, True, False, True, False, False, True] =
      79260852394012919871628959718207952994867234128132282526971914415948607499192"
  unfolding t256_eval by (simp only: chain_eval refl)

lemma prime_q1: "is_prime 205115282021455665897114700593932402728804164701536103180137503955397371"
proof -
  have N: "205115282021455665897114700593932402728804164701536103180137503955397371 dvd numeral t256 - (4294968274 :: int)"
    by (rule dvdI [of _ _ 564522]) (simp add: t256_eval)
  define bc1 where "bc1 = ([False, False, True, True, True, True, False, False, True, False, True, False, False, False, False, False, True, True, True, True, True, False, True, False] @ [True, False, True, True, True, True, True, True, True, True, False, True, True, False, False, True, True, True, True, False, False, False, False, False] @ [False, False, False, True, True, False, True, True, True, False, False, False, True, True, False, False, False, False, False, False, True, True, True, True] @ [True, True, True, False, False, False, False, False, False, False, True, True, True, True, True, True, True, False, True, False, True, False, False, True] @ [True, False, False, True, True, True, True, True, False, True, False, True, False])"
  have c1: "chain 4294968274 t256 2 2 bc1 = 6128487468239690641880689784747230967726432769667418121991287898962944569492" unfolding bc1_def by (simp only: chain_append prime_q1_c1_0 prime_q1_c1_1 prime_q1_c1_2 prime_q1_c1_3 prime_q1_c1_4)
  have vc1: "bits_val 1 bc1 = 802749442992798076634733441528810" unfolding bc1_def by (simp only: bits_val_append bits_eval bits_val.simps(1))
  have sc1: "pock_step 205115282021455665897114700593932402728804164701536103180137503955397371 2 255515944373312847190720520512484175977"
    by (rule pock_step_chain [OF prime_q2 N c1, where u = 81475874003799270243122483189086420723726815346591292526890606927317739 and v = 2434357244741662207757316289304439306447383659936261439546104359285446798288])
      (simp_all add: vc1 [simplified])
  define bc2 where "bc2 = ([True, False, False, False, False, False, False, False, False, True, True, True, False, True, False, True, False, False, True, False, True, False, False, True] @ [False, True, True, False, False, True, False, True, True, False, True, False, False, True, True, True, True, True, False, False, True, True, False, False] @ [True, False, False, False, True, False, False, False, False, False, True, True, False, False, True, True, False, True, False, False, False, False, False, False] @ [True, False, True, True, True, False, False, True, True, False, True, True, False, False, False, True, True, False, False, True, True, False, False, True] @ [False, True, True, True, True, True, True, True, False, False, True, True, False, False, False, False, True, True, True, False, False, False, False, False] @ [True, True, False, True, False, False, True])"
  have c2: "chain 4294968274 t256 6128487468239690641880689784747230967726432769667418121991287898962944569492 6128487468239690641880689784747230967726432769667418121991287898962944569492 bc2 = 79260852394012919871628959718207952994867234128132282526971914415948607499192" unfolding bc2_def by (simp only: chain_append prime_q1_c2_0 prime_q1_c2_1 prime_q1_c2_2 prime_q1_c2_3 prime_q1_c2_4 prime_q1_c2_5)
  have vc2: "bits_val 1 bc2 = 255515944373312847190720520512484175977" unfolding bc2_def by (simp only: bits_val_append bits_eval bits_val.simps(1))
  have y: "chain 4294968274 t256 6128487468239690641880689784747230967726432769667418121991287898962944569492 6128487468239690641880689784747230967726432769667418121991287898962944569492 bc2 = 1 + 386421 * 205115282021455665897114700593932402728804164701536103180137503955397371" unfolding c2 by simp
  have full: "2 ^ (bits_val 1 bc1 * bits_val 1 bc2) mod 205115282021455665897114700593932402728804164701536103180137503955397371 = (1 :: int)"
    by (rule full_power_chain [OF N _ c1 y]) simp
  have e: "205115282021455665897114700593932402728804164701536103180137503955397371 - 1 = int (bits_val 1 bc1 * bits_val 1 bc2)" by (simp only: of_nat_mult vc1 vc2)
  show ?thesis
  proof (rule pocklington [OF _ _ _ e full])
    show "(1 :: int) < 205115282021455665897114700593932402728804164701536103180137503955397371" by simp
    show "205115282021455665897114700593932402728804164701536103180137503955397371 - 1 = prod_list [255515944373312847190720520512484175977] * (802749442992798076634733441528810 :: int)" by simp
    show "205115282021455665897114700593932402728804164701536103180137503955397371 < (prod_list [255515944373312847190720520512484175977] + 1) * (prod_list [255515944373312847190720520512484175977] + (1 :: int))" by simp
    show "\<forall>q\<in>set [255515944373312847190720520512484175977]. pock_step 205115282021455665897114700593932402728804164701536103180137503955397371 2 q" using sc1 by simp
  qed
qed

lemma prime_p_c1_0: "chain 4294968273 t256 2 2
      [False, False, False, True, False, False, True, True, True, False, True, False, False, True, False, True, False, True, False] =
      30133174243114333125352536507925183895021889065932097717961225114769139489296"
  unfolding t256_eval by (simp only: chain_eval refl)

lemma prime_p_c2_0: "chain 4294968273 t256 2 2
      [True, True, False, True, True, False, True, True, True, False, False, False, False, False, True, False, False, True, True, False, False, False, False, False] =
      41310944085659655493478854941958050996721092889013387721840691945490478621549"
  unfolding t256_eval by (simp only: chain_eval refl)

lemma prime_p_c2_1: "chain 4294968273 t256 2 41310944085659655493478854941958050996721092889013387721840691945490478621549
      [True, True, True, False, False, True, False, True, True, True, True, False, False, False, True, True, True, False, True, True, False, True, False, False] =
      102248190266323718231232167793939764256274971502588674829991138423055045586304"
  unfolding t256_eval by (simp only: chain_eval refl)

lemma prime_p_c2_2: "chain 4294968273 t256 2 102248190266323718231232167793939764256274971502588674829991138423055045586304
      [False, True, True, False, False, False, False, False, True, False, True, False, False, True, False, False, False, True, True, False, True, False, True, False] =
      92584893867555611643888829479107720688984970728834538865223701081629854427935"
  unfolding t256_eval by (simp only: chain_eval refl)

lemma prime_p_c2_3: "chain 4294968273 t256 2 92584893867555611643888829479107720688984970728834538865223701081629854427935
      [False, False, False, False, False, False, False, False, True, False, False, False, True, False, False, False, True, True, True, True, True, True, False, False] =
      53565825225492671476156949988056161349264495498839564703766304227634080940795"
  unfolding t256_eval by (simp only: chain_eval refl)

lemma prime_p_c2_4: "chain 4294968273 t256 2 53565825225492671476156949988056161349264495498839564703766304227634080940795
      [True, True, False, False, True, True, True, True, False, True, True, False, True, False, True, False, False, False, True, True, True, False, True, False] =
      50566013881842070705655548329799815717924311678596018362780623646871291351428"
  unfolding t256_eval by (simp only: chain_eval refl)

lemma prime_p_c2_5: "chain 4294968273 t256 2 50566013881842070705655548329799815717924311678596018362780623646871291351428
      [False, True, False, True, True, False, False, True, False, False, True, True, False, True, True, False, True, True, False, True, False, True, True, True] =
      17502450917576151680672719516536454243892119761668745483149758414833518980438"
  unfolding t256_eval by (simp only: chain_eval refl)

lemma prime_p_c2_6: "chain 4294968273 t256 2 17502450917576151680672719516536454243892119761668745483149758414833518980438
      [False, True, False, True, True, True, False, True, True, False, False, False, True, False, False, True, True, False, True, False, False, True, True, True] =
      109440753366310896133758512436177450010495258789103290618485124195993049390201"
  unfolding t256_eval by (simp only: chain_eval refl)

lemma prime_p_c2_7: "chain 4294968273 t256 2 109440753366310896133758512436177450010495258789103290618485124195993049390201
      [False, True, True, True, False, True, True, False, True, True, False, True, False, True, False, False, True, True, False, False, False, False, False, False] =
      61675269416999631063998634320592119981950980511913821917304014760754193528258"
  unfolding t256_eval by (simp only: chain_eval refl)

lemma prime_p_c2_8: "chain 4294968273 t256 2 61675269416999631063998634320592119981950980511913821917304014760754193528258
      [True, True, False, True, True, False, True, False, False, True, False, False, True, True, True, True, False, False, True, True, False, False, True, True] =
      6029762311655423151451657044107161008400530463035684045683252483221411922220"
  unfolding t256_eval by (simp only: chain_eval refl)

lemma prime_p_c2_9: "chain 4294968273 t256 2 6029762311655423151451657044107161008400530463035684045683252483221411922220
      [True, False, False, False, True, False, True, False, True, False, True, False, True, True, True, True, True, False, True, True] =
      72524132229579487186639400450417937961764529789694558316775005038017087369056"
  unfolding t256_eval by (simp only: chain_eval refl)

lemma prime_p_c3_0: "chain 4294968273 t256 72524132229579487186639400450417937961764529789694558316775005038017087369056 72524132229579487186639400450417937961764529789694558316775005038017087369056
      [False, False, False, True, False, False, True, True, True, False, True, False, False, True, False, True, False, True, False] =
      115792089237316195423570985008687907853269984665640564039457584007908834671664"
  unfolding t256_eval by (simp only: chain_eval refl)

lemma prime_p: "is_prime 115792089237316195423570985008687907853269984665640564039457584007908834671663"
proof -
  have N: "115792089237316195423570985008687907853269984665640564039457584007908834671663 dvd numeral t256 - (4294968273 :: int)"
    by (rule dvdI [of _ _ 1]) (simp add: t256_eval)
  define bc1 where "bc1 = [False, False, False, True, False, False, True, True, True, False, True, False, False, True, False, True, False, True, False]"
  have c1: "chain 4294968273 t256 2 2 bc1 = 30133174243114333125352536507925183895021889065932097717961225114769139489296" unfolding bc1_def by (simp only: chain_append prime_p_c1_0)
  have vc1: "bits_val 1 bc1 = 564522" unfolding bc1_def by (simp only: bits_val_append bits_eval bits_val.simps(1))
  have sc1: "pock_step 115792089237316195423570985008687907853269984665640564039457584007908834671663 2 205115282021455665897114700593932402728804164701536103180137503955397371"
    by (rule pock_step_chain [OF prime_q1 N c1, where u = 38738227534097492269493948901333532538630784921480042032654553727346127695815 and v = 10081049300025779439656074993348321903608605725784878135637996734732791756248])
      (simp_all add: vc1 [simplified])
  define bc2 where "bc2 = ([True, True, False, True, True, False, True, True, True, False, False, False, False, False, True, False, False, True, True, False, False, False, False, False] @ [True, True, True, False, False, True, False, True, True, True, True, False, False, False, True, True, True, False, True, True, False, True, False, False] @ [False, True, True, False, False, False, False, False, True, False, True, False, False, True, False, False, False, True, True, False, True, False, True, False] @ [False, False, False, False, False, False, False, False, True, False, False, False, True, False, False, False, True, True, True, True, True, True, False, False] @ [True, True, False, False, True, True, True, True, False, True, True, False, True, False, True, False, False, False, True, True, True, False, True, False] @ [False, True, False, True, True, False, False, True, False, False, True, True, False, True, True, False, True, True, False, True, False, True, True, True] @ [False, True, False, True, True, True, False, True, True, False, False, False, True, False, False, True, True, False, True, False, False, True, True, True] @ [False, True, True, True, False, True, True, False, True, True, False, True, False, True, False, False, True, True, False, False, False, False, False, False] @ [True, True, False, True, True, False, True, False, False, True, False, False, True, True, True, True, False, False, True, True, False, False, True, True] @ [True, False, False, False, True, False, True, False, True, False, True, False, True, True, True, True, True, False, True, True])"
  have c2: "chain 4294968273 t256 2 2 bc2 = 72524132229579487186639400450417937961764529789694558316775005038017087369056" unfolding bc2_def by (simp only: chain_append prime_p_c2_0 prime_p_c2_1 prime_p_c2_2 prime_p_c2_3 prime_p_c2_4 prime_p_c2_5 prime_p_c2_6 prime_p_c2_7 prime_p_c2_8 prime_p_c2_9)
  have vc2: "bits_val 1 bc2 = 205115282021455665897114700593932402728804164701536103180137503955397371" unfolding bc2_def by (simp only: bits_val_append bits_eval bits_val.simps(1))
  define bc3 where "bc3 = [False, False, False, True, False, False, True, True, True, False, True, False, False, True, False, True, False, True, False]"
  have c3: "chain 4294968273 t256 72524132229579487186639400450417937961764529789694558316775005038017087369056 72524132229579487186639400450417937961764529789694558316775005038017087369056 bc3 = 115792089237316195423570985008687907853269984665640564039457584007908834671664" unfolding bc3_def by (simp only: chain_append prime_p_c3_0)
  have vc3: "bits_val 1 bc3 = 564522" unfolding bc3_def by (simp only: bits_val_append bits_eval bits_val.simps(1))
  have y: "chain 4294968273 t256 72524132229579487186639400450417937961764529789694558316775005038017087369056 72524132229579487186639400450417937961764529789694558316775005038017087369056 bc3 = 1 + 1 * 115792089237316195423570985008687907853269984665640564039457584007908834671663" unfolding c3 by simp
  have full: "2 ^ (bits_val 1 bc2 * bits_val 1 bc3) mod 115792089237316195423570985008687907853269984665640564039457584007908834671663 = (1 :: int)"
    by (rule full_power_chain [OF N _ c2 y]) simp
  have e: "115792089237316195423570985008687907853269984665640564039457584007908834671663 - 1 = int (bits_val 1 bc2 * bits_val 1 bc3)" by (simp only: of_nat_mult vc2 vc3)
  show ?thesis
  proof (rule pocklington [OF _ _ _ e full])
    show "(1 :: int) < 115792089237316195423570985008687907853269984665640564039457584007908834671663" by simp
    show "115792089237316195423570985008687907853269984665640564039457584007908834671663 - 1 = prod_list [205115282021455665897114700593932402728804164701536103180137503955397371] * (564522 :: int)" by simp
    show "115792089237316195423570985008687907853269984665640564039457584007908834671663 < (prod_list [205115282021455665897114700593932402728804164701536103180137503955397371] + 1) * (prod_list [205115282021455665897114700593932402728804164701536103180137503955397371] + (1 :: int))" by simp
    show "\<forall>q\<in>set [205115282021455665897114700593932402728804164701536103180137503955397371]. pock_step 115792089237316195423570985008687907853269984665640564039457584007908834671663 2 q" using sc1 by simp
  qed
qed

end
