(* ===== verification/Secp_Cube.thy ===== *)
theory Secp_Cube
  imports Secp_Prime_P
begin

text \<open>
  The power \<open>7^((p - 1) / 3)\<close> is not 1 modulo the field prime, so neither 7 nor -7 is a cube there: no point of
  the curve has the ordinate 0.
\<close>

lemma seven_chain_0: "chain 4294968273 t256 7 7
      [False, True, False, True, False, True, False, True, False, True, False, True, False, True, False, True, False, True, False, True, False, True, False, True] =
      17017526218380157547017813439262351108424042534529301462662725374190686333396"
  unfolding t256_eval by (simp only: chain_eval refl)

lemma seven_chain_1: "chain 4294968273 t256 7 17017526218380157547017813439262351108424042534529301462662725374190686333396
      [False, True, False, True, False, True, False, True, False, True, False, True, False, True, False, True, False, True, False, True, False, True, False, True] =
      93499848383206266121836411514677082631220063946486362826858558176644343251523"
  unfolding t256_eval by (simp only: chain_eval refl)

lemma seven_chain_2: "chain 4294968273 t256 7 93499848383206266121836411514677082631220063946486362826858558176644343251523
      [False, True, False, True, False, True, False, True, False, True, False, True, False, True, False, True, False, True, False, True, False, True, False, True] =
      88530811622828002333938030671679826049511315595815290914074545976680383177660"
  unfolding t256_eval by (simp only: chain_eval refl)

lemma seven_chain_3: "chain 4294968273 t256 7 88530811622828002333938030671679826049511315595815290914074545976680383177660
      [False, True, False, True, False, True, False, True, False, True, False, True, False, True, False, True, False, True, False, True, False, True, False, True] =
      104594717492274165407924277091234469873780563037809606961839343222304160361808"
  unfolding t256_eval by (simp only: chain_eval refl)

lemma seven_chain_4: "chain 4294968273 t256 7 104594717492274165407924277091234469873780563037809606961839343222304160361808
      [False, True, False, True, False, True, False, True, False, True, False, True, False, True, False, True, False, True, False, True, False, True, False, True] =
      74440945127977172042665531294320660094397727909691034520492373051809403256606"
  unfolding t256_eval by (simp only: chain_eval refl)

lemma seven_chain_5: "chain 4294968273 t256 7 74440945127977172042665531294320660094397727909691034520492373051809403256606
      [False, True, False, True, False, True, False, True, False, True, False, True, False, True, False, True, False, True, False, True, False, True, False, True] =
      71342401235895029022905802963408745643952300474515764969761296599826264962554"
  unfolding t256_eval by (simp only: chain_eval refl)

lemma seven_chain_6: "chain 4294968273 t256 7 71342401235895029022905802963408745643952300474515764969761296599826264962554
      [False, True, False, True, False, True, False, True, False, True, False, True, False, True, False, True, False, True, False, True, False, True, False, True] =
      31121545960423458545926760828653648437539745506478816181297463634858756946265"
  unfolding t256_eval by (simp only: chain_eval refl)

lemma seven_chain_7: "chain 4294968273 t256 7 31121545960423458545926760828653648437539745506478816181297463634858756946265
      [False, True, False, True, False, True, False, True, False, True, False, True, False, True, False, True, False, True, False, True, False, True, False, True] =
      71696378875790446245801563086075908615561828793832663734059949129300598695932"
  unfolding t256_eval by (simp only: chain_eval refl)

lemma seven_chain_8: "chain 4294968273 t256 7 71696378875790446245801563086075908615561828793832663734059949129300598695932
      [False, True, False, True, False, True, False, True, False, True, False, True, False, True, False, True, False, True, False, True, False, True, False, True] =
      70297171774730435254599253643895923396406970792734323520133068913837350966683"
  unfolding t256_eval by (simp only: chain_eval refl)

lemma seven_chain_9: "chain 4294968273 t256 7 70297171774730435254599253643895923396406970792734323520133068913837350966683
      [False, True, False, True, False, False, True, True, True, True, True, True, True, True, True, True, True, True, True, True, True, True, True, True] =
      104810152961217358024530300245968578282859107088802858531334966180597154134853"
  unfolding t256_eval by (simp only: chain_eval refl)

lemma seven_chain_10: "chain 4294968273 t256 7 104810152961217358024530300245968578282859107088802858531334966180597154134853
      [True, True, True, True, True, False, True, False, True, True, True, False, True, False] =
      55594575648329892869085402983802832744385952214688224221778511981742606582254"
  unfolding t256_eval by (simp only: chain_eval refl)

lemma seven_power: "\<exists>e. int e * 3 = 115792089237316195423570985008687907853269984665640564039457584007908834671663 - 1 \<and> even e \<and> (7 :: int) ^ e mod 115792089237316195423570985008687907853269984665640564039457584007908834671663 \<noteq> 1"
proof -
  have N: "115792089237316195423570985008687907853269984665640564039457584007908834671663 dvd numeral t256 - (4294968273 :: int)"
    by (rule dvdI [of _ _ 1]) (simp add: t256_eval)
  define bs where "bs = [False, True, False, True, False, True, False, True, False, True, False, True, False, True, False, True, False, True, False, True, False, True, False, True] @ [False, True, False, True, False, True, False, True, False, True, False, True, False, True, False, True, False, True, False, True, False, True, False, True] @ [False, True, False, True, False, True, False, True, False, True, False, True, False, True, False, True, False, True, False, True, False, True, False, True] @ [False, True, False, True, False, True, False, True, False, True, False, True, False, True, False, True, False, True, False, True, False, True, False, True] @ [False, True, False, True, False, True, False, True, False, True, False, True, False, True, False, True, False, True, False, True, False, True, False, True] @ [False, True, False, True, False, True, False, True, False, True, False, True, False, True, False, True, False, True, False, True, False, True, False, True] @ [False, True, False, True, False, True, False, True, False, True, False, True, False, True, False, True, False, True, False, True, False, True, False, True] @ [False, True, False, True, False, True, False, True, False, True, False, True, False, True, False, True, False, True, False, True, False, True, False, True] @ [False, True, False, True, False, True, False, True, False, True, False, True, False, True, False, True, False, True, False, True, False, True, False, True] @ [False, True, False, True, False, False, True, True, True, True, True, True, True, True, True, True, True, True, True, True, True, True, True, True] @ [True, True, True, True, True, False, True, False, True, True, True, False, True, False]"
  have c: "chain 4294968273 t256 7 7 bs = 55594575648329892869085402983802832744385952214688224221778511981742606582254" unfolding bs_def by (simp only: chain_append seven_chain_0 seven_chain_1 seven_chain_2 seven_chain_3 seven_chain_4 seven_chain_5 seven_chain_6 seven_chain_7 seven_chain_8 seven_chain_9 seven_chain_10)
  have v: "bits_val 1 bs = 38597363079105398474523661669562635951089994888546854679819194669302944890554" unfolding bs_def by (simp only: bits_val_append bits_eval bits_val.simps(1))
  have "(7 :: int) ^ bits_val 1 bs mod 115792089237316195423570985008687907853269984665640564039457584007908834671663 = 55594575648329892869085402983802832744385952214688224221778511981742606582254 mod 115792089237316195423570985008687907853269984665640564039457584007908834671663" using chain_power [OF N, of 7 bs] c by (simp only:)
  moreover have "55594575648329892869085402983802832744385952214688224221778511981742606582254 mod 115792089237316195423570985008687907853269984665640564039457584007908834671663 \<noteq> (1 :: int)" by simp
  ultimately have "(7 :: int) ^ bits_val 1 bs mod 115792089237316195423570985008687907853269984665640564039457584007908834671663 \<noteq> 1" by (simp only: not_False_eq_True)
  moreover have "int (bits_val 1 bs) * 3 = 115792089237316195423570985008687907853269984665640564039457584007908834671663 - 1" unfolding v by simp
  moreover have "even (bits_val 1 bs)" unfolding v by simp
  ultimately show ?thesis by blast
qed

end
