(* ===== verification/Prime_Field.thy ===== *)
theory Prime_Field
  imports Field_Generic Secp_Cube
begin

text \<open>
  The field the limbs stand for, as a type: the residues modulo the prime \<open>p\<close> with an instance of the
  library's class of fields, so that division and the library's field rules are available to the curve
  formulas. \<open>fe_is m a v\<close> says that the limbs \<open>a\<close> have magnitude at most \<open>m\<close> and stand for \<open>v\<close>; one rule per
  operation of the C code moves from limbs to field values and computes the magnitude.
\<close>

section \<open>The prime field\<close>

lemma is_prime_p: "is_prime secp256k1_p"
  using prime_p by (simp add: secp256k1_p_def)

lemma p_gt_1: "1 < secp256k1_p"
  by (simp add: secp256k1_p_def)

typedef fp = "{0..<secp256k1_p}"
  morphisms fp_int Abs_fp
  by (rule exI [of _ 0]) (simp add: secp256k1_p_def)

setup_lifting type_definition_fp

instantiation fp :: comm_ring_1
begin

lift_definition zero_fp :: fp is 0 using p_gt_1 by simp

lift_definition one_fp :: fp is 1 using p_gt_1 by simp

lift_definition plus_fp :: "fp \<Rightarrow> fp \<Rightarrow> fp" is "\<lambda>a b. (a + b) mod secp256k1_p" using p_gt_1 by simp

lift_definition minus_fp :: "fp \<Rightarrow> fp \<Rightarrow> fp" is "\<lambda>a b. (a - b) mod secp256k1_p" using p_gt_1 by simp

lift_definition uminus_fp :: "fp \<Rightarrow> fp" is "\<lambda>a. (- a) mod secp256k1_p" using p_gt_1 by simp

lift_definition times_fp :: "fp \<Rightarrow> fp \<Rightarrow> fp" is "\<lambda>a b. (a * b) mod secp256k1_p" using p_gt_1 by simp

instance
proof
  fix a b c :: fp
  show "a * b * c = a * (b * c)" by transfer (simp add: mod_mult_left_eq mod_mult_right_eq mult.assoc)
  show "a * b = b * a" by transfer (simp add: mult.commute)
  show "1 * a = a" by transfer simp
  show "a + b + c = a + (b + c)" by transfer (simp add: mod_add_left_eq mod_add_right_eq add.assoc)
  show "a + b = b + a" by transfer (simp add: add.commute)
  show "0 + a = a" by transfer simp
  show "- a + a = 0" by transfer (simp add: mod_add_left_eq)
  show "a - b = a + - b" by transfer (simp add: mod_add_right_eq)
  show "(a + b) * c = a * c + b * c" by transfer (simp add: mod_mult_left_eq mod_add_eq distrib_right)
  show "(0 :: fp) \<noteq> 1" by transfer simp
qed

end

instance fp :: idom
proof
  fix a b :: fp
  assume "a \<noteq> 0" "b \<noteq> 0"
  then show "a * b \<noteq> 0"
  proof transfer
    fix a b assume a: "a \<in> {0..<secp256k1_p}" "a \<noteq> 0" and b: "b \<in> {0..<secp256k1_p}" "b \<noteq> 0"
    have "\<not> secp256k1_p dvd a" "\<not> secp256k1_p dvd b" using a b by (auto dest: zdvd_imp_le)
    then have "\<not> secp256k1_p dvd a * b" using is_prime_dvd_mult [OF is_prime_p] by blast
    then show "a * b mod secp256k1_p \<noteq> 0" by (simp add: mod_eq_0_iff_dvd)
  qed
qed

lemma fp_UNIV: "(UNIV :: fp set) = Abs_fp ` {0..<secp256k1_p}"
  using type_definition.Abs_image [OF type_definition_fp] by simp

instance fp :: finite
  by standard (simp add: fp_UNIV)

lemma card_fp: "card (UNIV :: fp set) = nat secp256k1_p"
  using type_definition.card [OF type_definition_fp] by simp

text \<open>Fermat's little theorem: multiplication by a nonzero element permutes the nonzero elements.\<close>

lemma fermat: "a ^ nat (secp256k1_p - 1) = 1" if "a \<noteq> 0" for a :: fp
proof -
  let ?S = "UNIV - {0} :: fp set"
  have inj: "inj_on ((*) a) ?S" using that by (simp add: inj_on_def)
  moreover have "(*) a ` ?S \<subseteq> ?S" using that by auto
  ultimately have img: "(*) a ` ?S = ?S" by (simp add: endo_inj_surj)
  have "prod id ?S = prod id ((*) a ` ?S)" by (simp only: img)
  also have "\<dots> = (\<Prod>x\<in>?S. a * x)" using inj by (simp add: prod.reindex)
  also have "\<dots> = a ^ card ?S * prod id ?S" by (simp add: prod.distrib)
  finally have "a ^ card ?S = 1" by simp
  moreover have "card ?S = nat (secp256k1_p - 1)" using p_gt_1 by (simp add: card_fp nat_diff_distrib)
  ultimately show ?thesis by (simp only:)
qed

instantiation fp :: field
begin

definition inverse_fp :: "fp \<Rightarrow> fp" where
  "inverse_fp a = a ^ nat (secp256k1_p - 2)"

definition divide_fp :: "fp \<Rightarrow> fp \<Rightarrow> fp" where
  "divide_fp a b = a * inverse b"

instance
proof
  fix a b :: fp
  have e: "nat (secp256k1_p - 1) = Suc (nat (secp256k1_p - 2))" using p_gt_1 by linarith
  show "inverse a * a = 1" if "a \<noteq> 0"
    using fermat [OF that] unfolding inverse_fp_def e by (simp add: mult.commute)
  show "a div b = a * inverse b" by (simp add: divide_fp_def)
  show "inverse (0 :: fp) = 0" by (simp add: inverse_fp_def secp256k1_p_def)
qed

end

lemma fp_int_of_nat: "fp_int (of_nat n) = int n mod secp256k1_p"
  by (induction n) (simp_all add: zero_fp.rep_eq one_fp.rep_eq plus_fp.rep_eq mod_add_right_eq mod_add_left_eq)

lemma fp_int_of_int: "fp_int (of_int k) = k mod secp256k1_p"
proof (cases k rule: int_cases2)
  case (nonneg n)
  then show ?thesis by (simp add: fp_int_of_nat)
next
  case (nonpos n)
  then show ?thesis by (simp add: uminus_fp.rep_eq fp_int_of_nat mod_minus_eq)
qed

lemma of_int_fp_eq_iff: "(of_int a :: fp) = of_int b \<longleftrightarrow> a mod secp256k1_p = b mod secp256k1_p"
  by (metis fp_int_inject fp_int_of_int)

lemma of_int_fp_mod [simp]: "(of_int (a mod secp256k1_p) :: fp) = of_int a"
  by (simp add: of_int_fp_eq_iff)

lemma of_int_fp_0_iff: "(of_int a :: fp) = 0 \<longleftrightarrow> a mod secp256k1_p = 0"
  using of_int_fp_eq_iff [of a 0] by simp

lemma fp_2_neq_0 [simp]: "(2 :: fp) \<noteq> 0"
  using of_int_fp_0_iff [of 2] by (simp add: secp256k1_p_def)

lemma fp_numeral_neq_0: "numeral k < secp256k1_p \<Longrightarrow> (numeral k :: fp) \<noteq> 0"
  using of_int_fp_0_iff [of "numeral k"] by simp

lemma fp_half: "(of_int ((secp256k1_p + 1) div 2) :: fp) = inverse 2"
proof -
  have "2 * ((secp256k1_p + 1) div 2) mod secp256k1_p = 1 mod secp256k1_p" by (simp add: secp256k1_p_def)
  then have "(of_int (2 * ((secp256k1_p + 1) div 2)) :: fp) = of_int 1" by (simp only: of_int_fp_eq_iff)
  then have "(2 :: fp) * of_int ((secp256k1_p + 1) div 2) = 1" by simp
  then show ?thesis by (metis inverse_unique)
qed

section \<open>Squares and cubes\<close>

lemma sqrt_power_square:
  fixes v r :: fp
  assumes "v = r ^ 2"
  shows "(v ^ nat ((secp256k1_p + 1) div 4)) ^ 2 = v"
proof (cases "r = 0")
  case False
  have e: "nat ((secp256k1_p + 1) div 4) * 2 * 2 = nat (secp256k1_p - 1) + 2" by (simp add: secp256k1_p_def)
  have "(v ^ nat ((secp256k1_p + 1) div 4)) ^ 2 = r ^ (nat ((secp256k1_p + 1) div 4) * 2 * 2)"
    unfolding assms by (simp only: power_mult [symmetric]) (simp only: mult.commute mult.left_commute)
  also have "\<dots> = r ^ 2" unfolding e power_add fermat [OF False] by simp
  finally show ?thesis using assms by simp
qed (use assms in \<open>simp add: secp256k1_p_def\<close>)

lemma p_literal: "secp256k1_p = 115792089237316195423570985008687907853269984665640564039457584007908834671663"
  by (simp add: secp256k1_p_def)

lemma neg_seven_no_cube: "x ^ 3 + 7 \<noteq> 0" for x :: fp
proof
  assume x: "x ^ 3 + 7 = 0"
  obtain e where e: "int e * 3 = secp256k1_p - 1" "even e" "(7 :: int) ^ e mod secp256k1_p \<noteq> 1"
    using seven_power [folded p_literal] by blast
  have "x \<noteq> 0" using x fp_numeral_neq_0 [of "num.Bit1 (num.Bit1 num.One)"] by (auto simp: secp256k1_p_def)
  moreover have "nat (secp256k1_p - 1) = 3 * e" using e(1) by linarith
  ultimately have "(x ^ 3) ^ e = 1" using fermat [of x] by (simp add: power_mult)
  moreover have "x ^ 3 = - 7" using x by (simp add: add_eq_0_iff2)
  ultimately have "of_int (7 ^ e) = (of_int 1 :: fp)" using e(2) by simp
  then have "(7 :: int) ^ e mod secp256k1_p = 1 mod secp256k1_p" by (simp only: of_int_fp_eq_iff)
  then show False using e(3) p_gt_1 by simp
qed

section \<open>Limbs as field values\<close>

definition fe_is :: "nat \<Rightarrow> secp256k1_fe \<Rightarrow> fp \<Rightarrow> bool" where
  "fe_is m a v \<longleftrightarrow> fe_magnitude m a \<and> of_int (fe_val a) = v"

abbreviation fe_fp :: "secp256k1_fe \<Rightarrow> fp" where
  "fe_fp a \<equiv> of_int (fe_val a)"

named_theorems fe_is_rules

lemma fe_is_iff_rep: "fe_is m a (of_int x) \<longleftrightarrow> fe_rep m a x"
  by (simp add: fe_is_def fe_rep_def of_int_fp_eq_iff)

lemma fe_is_rep: "fe_is m a v \<Longrightarrow> fe_rep m a (fe_val a)"
  by (simp add: fe_is_def fe_rep_def)

lemma fe_is_self: "fe_magnitude m a \<Longrightarrow> fe_is m a (fe_fp a)"
  by (simp add: fe_is_def)

lemma fe_is_magnitude: "fe_is m a v \<Longrightarrow> fe_magnitude m a"
  by (simp add: fe_is_def)

lemma fe_is_mono: "fe_is m a v \<Longrightarrow> m \<le> k \<Longrightarrow> fe_is k a v"
  by (auto simp: fe_is_def intro: fe_magnitude_mono)

lemma fe_is_cong: "fe_is m a v \<Longrightarrow> v = w \<Longrightarrow> fe_is m a w"
  by simp

lemma fe_is_val: "fe_is m a v \<Longrightarrow> fe_fp a = v"
  by (simp add: fe_is_def)

lemma fe_is_mul [fe_is_rules]:
  assumes "fe_is m a v" "fe_is k b w" "m \<le> 8" "k \<le> 8"
  shows "fe_is 1 (secp256k1_fe_mul a b) (v * w)"
  using fe_rep_mul [OF fe_is_rep [OF assms(1)] assms(3) fe_is_rep [OF assms(2)] assms(4)] assms(1,2)
  by (auto simp: fe_is_iff_rep [symmetric] fe_is_def)

lemma fe_is_sqr [fe_is_rules]:
  assumes "fe_is m a v" "m \<le> 8"
  shows "fe_is 1 (secp256k1_fe_sqr a) (v ^ 2)"
  using fe_rep_sqr [OF fe_is_rep [OF assms(1)]] assms by (auto simp: fe_is_iff_rep [symmetric] fe_is_def power2_eq_square)

lemma fe_is_add [fe_is_rules]:
  assumes "fe_is m a v" "fe_is k b w" "m + k \<le> 32"
  shows "fe_is (m + k) (secp256k1_fe_add a b) (v + w)"
  using fe_rep_add [OF fe_is_rep [OF assms(1)] fe_is_rep [OF assms(2)] assms(3)] assms(1,2)
  by (auto simp: fe_is_iff_rep [symmetric] fe_is_def)

lemma fe_is_negate [fe_is_rules]:
  assumes "fe_is k a v" "int k \<le> m" "m \<le> 31"
  shows "fe_is (nat m + 1) (secp256k1_fe_negate a m) (- v)"
  using fe_rep_negate [OF fe_is_rep [OF assms(1)] assms(2,3)] assms(1) by (auto simp: fe_is_iff_rep [symmetric] fe_is_def)

lemma fe_is_mul_int [fe_is_rules]:
  assumes "fe_is m a v" "0 \<le> k" "nat k * m \<le> 32" "k \<le> 32"
  shows "fe_is (nat k * m) (secp256k1_fe_mul_int a k) (of_int k * v)"
  using fe_rep_mul_int [OF fe_is_rep [OF assms(1)] assms(2-4)] assms(1) by (auto simp: fe_is_iff_rep [symmetric] fe_is_def)

lemma fe_is_add_int [fe_is_rules]:
  assumes "fe_is m a v" "0 \<le> k" "k \<le> 0x7FFF" "m \<le> 31"
  shows "fe_is (m + 1) (secp256k1_fe_add_int a k) (v + of_int k)"
  using fe_rep_add_int [OF fe_is_rep [OF assms(1)] assms(2-4)] assms(1) by (auto simp: fe_is_iff_rep [symmetric] fe_is_def)

lemma fe_is_half [fe_is_rules]:
  assumes "fe_is m a v" "m \<le> 31"
  shows "fe_is (m div 2 + 1) (secp256k1_fe_half a) (v / 2)"
  using fe_rep_half [OF fe_is_rep [OF assms(1)] assms(2)]
  unfolding fe_is_iff_rep [symmetric] of_int_mult fp_half fe_is_val [OF assms(1)] field_class.field_divide_inverse .

lemma fe_is_normalize_weak [fe_is_rules]:
  assumes "fe_is m a v" "m \<le> 32"
  shows "fe_is 1 (secp256k1_fe_normalize_weak a) v"
  using fe_rep_normalize_weak [OF fe_is_rep [OF assms(1)] assms(2)] assms(1) by (auto simp: fe_is_iff_rep [symmetric] fe_is_def)

lemma fe_is_set_int [fe_is_rules]: "0 \<le> k \<Longrightarrow> k \<le> 0x7FFF \<Longrightarrow> fe_is 1 (secp256k1_fe_set_int k) (of_int k)"
  using fe_rep_set_int [of k] by (simp add: fe_is_iff_rep)

lemma fe_is_zero_test: "fe_is m a v \<Longrightarrow> m \<le> 32 \<Longrightarrow> secp256k1_fe_normalizes_to_zero a \<longleftrightarrow> v = 0"
  using normalizes_to_zero_correct(1) [of a] fe_magnitude_mono [of m a 32] by (auto simp: fe_is_def of_int_fp_0_iff)

lemma fe_is_zero_test_var: "fe_is m a v \<Longrightarrow> m \<le> 32 \<Longrightarrow> secp256k1_fe_normalizes_to_zero_var a \<longleftrightarrow> v = 0"
  using normalizes_to_zero_correct(2) [of a] fe_is_zero_test [of m a v] fe_magnitude_mono [of m a 32] by (auto simp: fe_is_def)

lemma fe_is_equal: "fe_is 1 a v \<Longrightarrow> fe_is m b w \<Longrightarrow> m \<le> 30 \<Longrightarrow> secp256k1_fe_equal a b \<longleftrightarrow> v = w"
  using fe_equal_correct [of a "fe_val a" m b "fe_val b"] fe_is_rep by (auto simp: fe_is_def of_int_fp_eq_iff)

lemma normalized_magnitude: "fe_normalized a \<Longrightarrow> fe_magnitude 1 a"
  by (simp add: fe_normalized_iff fe_magnitude_def)

lemma fe_is_normalize:
  assumes "fe_is m a v" "m \<le> 32"
  shows "fe_is 1 (secp256k1_fe_normalize a) v" "fe_normalized (secp256k1_fe_normalize a)"
    "fe_val (secp256k1_fe_normalize a) = fp_int v" "secp256k1_fe_normalize_var a = secp256k1_fe_normalize a"
proof -
  have a: "fe_magnitude 32 a" using assms fe_magnitude_mono by (auto simp: fe_is_def)
  note n = normalize_correct [OF a]
  show "fe_normalized (secp256k1_fe_normalize a)" "secp256k1_fe_normalize_var a = secp256k1_fe_normalize a" by (rule n)+
  show "fe_val (secp256k1_fe_normalize a) = fp_int v" using n(1) assms(1) by (auto simp: fe_is_def fp_int_of_int)
  show "fe_is 1 (secp256k1_fe_normalize a) v" using n assms(1) normalized_magnitude [OF n(2)] by (auto simp: fe_is_def)
qed

lemma fe_sqrt_square:
  assumes "fe_is m a v" "m \<le> 8"
  shows "fe_is 1 (fst (secp256k1_fe_sqrt a)) (v ^ nat ((secp256k1_p + 1) div 4))"
    and "snd (secp256k1_fe_sqrt a) \<longleftrightarrow> (\<exists>r. v = r ^ 2)"
proof -
  note r = fe_is_rep [OF assms(1)]
  show i: "fe_is 1 (fst (secp256k1_fe_sqrt a)) (v ^ nat ((secp256k1_p + 1) div 4))"
    using fe_sqrt_power [OF r assms(2)] assms(1) unfolding fe_is_iff_rep [symmetric] by (simp add: fe_is_def)
  have "snd (secp256k1_fe_sqrt a) \<longleftrightarrow> (v ^ nat ((secp256k1_p + 1) div 4)) ^ 2 = v"
    using fe_sqrt_flag [OF r assms(2) fe_is_rep [OF i]] i assms(1)
    by (auto simp: fe_is_def of_int_fp_eq_iff [symmetric] power2_eq_square)
  also have "\<dots> \<longleftrightarrow> (\<exists>r. v = r ^ 2)" using sqrt_power_square by metis
  finally show "snd (secp256k1_fe_sqrt a) \<longleftrightarrow> (\<exists>r. v = r ^ 2)" .
qed

end
