(* ===== verification/Group_Law.thy ===== *)
theory Group_Law
  imports Group Prime_Field
begin

text \<open>
  The point operations implement the group law of the curve. The specification \<open>ec_add\<close> is the chord and
  tangent construction on affine points over the prime field; \<open>gej_point\<close> and \<open>ge_point\<close> read the point off
  a structure, and the invariants \<open>gej_ok\<close> and \<open>ge_ok\<close> ask for the magnitudes the code checks in its
  verification build, a nonzero \<open>z\<close> and the curve equation.
\<close>

section \<open>Specification\<close>

type_synonym point = "(fp \<times> fp) option"

definition on_curve :: "point \<Rightarrow> bool" where
  "on_curve P = (case P of None \<Rightarrow> True | Some (x, y) \<Rightarrow> y ^ 2 = x ^ 3 + 7)"

definition ec_line :: "fp \<Rightarrow> fp \<Rightarrow> fp \<Rightarrow> fp \<Rightarrow> point" where
  "ec_line l x1 y1 x2 = (let x3 = l ^ 2 - x1 - x2 in Some (x3, l * (x1 - x3) - y1))"

definition ec_neg :: "point \<Rightarrow> point" where
  "ec_neg P = map_option (\<lambda>(x, y). (x, - y)) P"

fun ec_add :: "point \<Rightarrow> point \<Rightarrow> point" where
  "ec_add None Q = Q"
| "ec_add (Some P) None = Some P"
| "ec_add (Some (x1, y1)) (Some (x2, y2)) =
    (if x1 = x2 then
       if y1 = - y2 then None else ec_line (3 * x1 ^ 2 / (2 * y1)) x1 y1 x2
     else ec_line ((y2 - y1) / (x2 - x1)) x1 y1 x2)"

lemma on_curve_simps [simp]: "on_curve None" "on_curve (Some (x, y)) \<longleftrightarrow> y ^ 2 = x ^ 3 + 7"
  by (simp_all add: on_curve_def)

text \<open>No point has order two: the ordinate 0 would make -7 a cube.\<close>

lemma curve_y_neq_0: "y ^ 2 = x ^ 3 + 7 \<Longrightarrow> y \<noteq> (0 :: fp)"
  using neg_seven_no_cube [of x] by auto

lemma curve_same_x: "y1 ^ 2 = x ^ 3 + 7 \<Longrightarrow> y2 ^ 2 = x ^ 3 + 7 \<Longrightarrow> y1 = y2 \<or> y1 = - (y2 :: fp)"
  by (metis power2_eq_iff)

lemma minus_self_iff: "y = - y \<longleftrightarrow> y = (0 :: fp)"
  by (metis add.inverse_neutral add_eq_0_iff fp_2_neq_0 mult_2 mult_eq_0_iff)

section \<open>Formulas over the field\<close>

lemma chord_formula:
  fixes x1 y1 x2 y2 z :: "'a::field"
  assumes "z \<noteq> 0" "x2 \<noteq> x1"
    and "h = (x2 - x1) * z ^ 2" "i = (y1 - y2) * z ^ 3" "u = x1 * z ^ 2" "s = y1 * z ^ 3"
    and "rx = i ^ 2 - h ^ 3 - 2 * (u * h ^ 2)" "ry = (rx - u * h ^ 2) * i - h ^ 3 * s" "rz = z * h"
    and "l = (y2 - y1) / (x2 - x1)" "x3 = l ^ 2 - x1 - x2"
  shows "rz \<noteq> 0" "rx = x3 * rz ^ 2" "ry = (l * (x1 - x3) - y1) * rz ^ 3"
proof -
  define d where "d = x2 - x1"
  have d: "d \<noteq> 0" "x2 = x1 + d" using assms(2) by (simp_all add: d_def)
  have l: "l * d = y2 - y1" using assms(10) d(1) by (simp add: d_def)
  have i: "i = - (l * d * z ^ 3)" using assms(4) l by algebra
  have h: "h = d * z ^ 2" using assms(3) by (simp add: d_def)
  show "rz \<noteq> 0" using assms(1,9) h d by simp
  show rx: "rx = x3 * rz ^ 2"
    unfolding assms(5,7,9,11) i h d(2) by algebra
  show "ry = (l * (x1 - x3) - y1) * rz ^ 3"
    unfolding assms(8) rx unfolding assms(5,6,9) i h by algebra
qed

lemma double_formula:
  fixes x y z :: "'a::field"
  assumes "z \<noteq> 0" "y \<noteq> 0" "(2 :: 'a) \<noteq> 0"
    and "X = x * z ^ 2" "Y = y * z ^ 3" "L = 3 * X ^ 2 / 2" "S = Y ^ 2" "T = - S * X"
    and "rx = L ^ 2 + T + T" "ry = - ((T + rx) * L + S ^ 2)" "rz = z * Y"
    and "l = 3 * x ^ 2 / (2 * y)" "x3 = l ^ 2 - x - x"
  shows "rz \<noteq> 0" "rx = x3 * rz ^ 2" "ry = (l * (x - x3) - y) * rz ^ 3"
proof -
  have l: "2 * (l * y) = 3 * x ^ 2" using assms(2,3,12) by (simp add: field_simps)
  have "2 * L = 3 * X ^ 2" unfolding assms(6) using assms(3) by simp
  then have "2 * L = 2 * (l * y * z ^ 4)" using l assms(4) by algebra
  then have L: "L = l * y * z ^ 4" using assms(3) by simp
  show "rz \<noteq> 0" using assms(1,2,5,11) by simp
  show rx: "rx = x3 * rz ^ 2" unfolding assms(4,5,7,8,9,11,13) L by algebra
  show "ry = (l * (x - x3) - y) * rz ^ 3" unfolding assms(10) rx unfolding assms(4,5,7,8,11,13) L by algebra
qed

text \<open>The results of the chord and of the tangent lie on the curve.\<close>

lemma line_on_curve:
  fixes x1 y1 x2 y2 l b :: "'a::field"
  assumes "y1 ^ 2 = x1 ^ 3 + b" "y2 ^ 2 = x2 ^ 3 + b" "x1 \<noteq> x2" "l = (y2 - y1) / (x2 - x1)" "x3 = l ^ 2 - x1 - x2"
  shows "(l * (x1 - x3) - y1) ^ 2 = x3 ^ 3 + b"
proof -
  have l: "l * (x2 - x1) = y2 - y1" using assms(3,4) by simp
  have "(x2 - x1) * ((l * (x1 - x3) - y1) ^ 2 - (x3 ^ 3 + b)) = 0"
    using l assms(1,2,5) by algebra
  then show ?thesis using assms(3) by simp
qed

lemma tangent_on_curve:
  fixes x y l b :: "'a::field"
  assumes "y ^ 2 = x ^ 3 + b" "y \<noteq> 0" "(2 :: 'a) \<noteq> 0" "l = 3 * x ^ 2 / (2 * y)" "x3 = l ^ 2 - x - x"
  shows "(l * (x - x3) - y) ^ 2 = x3 ^ 3 + b"
proof -
  have l: "2 * (l * y) = 3 * x ^ 2" using assms(2,3,4) by (simp add: field_simps)
  show ?thesis using l assms(1,5) by algebra
qed

lemma ec_add_tangent:
  assumes "y \<noteq> 0" "l = 3 * x ^ 2 / (2 * y)"
  shows "ec_add (Some (x, y)) (Some (x, y)) = Some (l ^ 2 - x - x, l * (x - (l ^ 2 - x - x)) - y)"
  using assms(1) unfolding assms(2) by (simp only: ec_add.simps minus_self_iff ec_line_def Let_def if_True if_False simp_thms)

lemma ec_add_chord:
  assumes "x1 \<noteq> x2" "l = (y2 - y1) / (x2 - x1)"
  shows "ec_add (Some (x1, y1)) (Some (x2, y2)) = Some (l ^ 2 - x1 - x2, l * (x1 - (l ^ 2 - x1 - x2)) - y1)"
  using assms(1) unfolding assms(2) by (simp only: ec_add.simps ec_line_def Let_def if_False)

lemma on_curve_add: "on_curve P \<Longrightarrow> on_curve Q \<Longrightarrow> on_curve (ec_add P Q)"
proof (induction P Q rule: ec_add.induct)
  case (3 x1 y1 x2 y2)
  then have y: "y1 ^ 2 = x1 ^ 3 + 7" "y2 ^ 2 = x2 ^ 3 + 7" by simp_all
  show ?case
  proof (cases "x1 = x2")
    case True
    show ?thesis
    proof (cases "y1 = - y2")
      case False
      from tangent_on_curve [OF y(1) curve_y_neq_0 [OF y(1)] fp_2_neq_0 refl refl] True False
      show ?thesis by (simp add: ec_line_def Let_def)
    qed (simp add: True)
  next
    case False
    from line_on_curve [OF y False refl refl] False show ?thesis by (simp add: ec_line_def Let_def)
  qed
qed simp_all

section \<open>Points of the structures\<close>

definition ge_point :: "secp256k1_ge \<Rightarrow> point" where
  "ge_point a = (if ge_infinity a then None else Some (fe_fp (ge_x a), fe_fp (ge_y a)))"

definition gej_point :: "secp256k1_gej \<Rightarrow> point" where
  "gej_point a = (if gej_infinity a then None
     else Some (fe_fp (gej_x a) / fe_fp (gej_z a) ^ 2, fe_fp (gej_y a) / fe_fp (gej_z a) ^ 3))"

definition ge_ok :: "secp256k1_ge \<Rightarrow> bool" where
  "ge_ok a \<longleftrightarrow> secp256k1_ge_verify a \<and> on_curve (ge_point a)"

definition gej_ok :: "secp256k1_gej \<Rightarrow> bool" where
  "gej_ok a \<longleftrightarrow> secp256k1_gej_verify a \<and> (\<not> gej_infinity a \<longrightarrow> fe_fp (gej_z a) \<noteq> 0) \<and> on_curve (gej_point a)"

lemmas magnitude_limits = SECP256K1_GE_X_MAGNITUDE_MAX_def SECP256K1_GE_Y_MAGNITUDE_MAX_def
  SECP256K1_GEJ_X_MAGNITUDE_MAX_def SECP256K1_GEJ_Y_MAGNITUDE_MAX_def SECP256K1_GEJ_Z_MAGNITUDE_MAX_def

lemmas verify_defs = secp256k1_ge_verify_def secp256k1_gej_verify_def magnitude_limits

lemma gej_coords:
  assumes "gej_ok a" "\<not> gej_infinity a"
  obtains x y z where "gej_point a = Some (x, y)" "fe_is 4 (gej_x a) (x * z ^ 2)" "fe_is 4 (gej_y a) (y * z ^ 3)"
    "fe_is 1 (gej_z a) z" "z \<noteq> 0" "y ^ 2 = x ^ 3 + 7"
proof (rule that)
  let ?z = "fe_fp (gej_z a)"
  show z: "?z \<noteq> 0" using assms by (simp add: gej_ok_def)
  show p: "gej_point a = Some (fe_fp (gej_x a) / ?z ^ 2, fe_fp (gej_y a) / ?z ^ 3)" using assms(2) by (simp add: gej_point_def)
  show "(fe_fp (gej_y a) / ?z ^ 3) ^ 2 = (fe_fp (gej_x a) / ?z ^ 2) ^ 3 + 7" using assms(1) p by (simp add: gej_ok_def)
  show "fe_is 4 (gej_x a) (fe_fp (gej_x a) / ?z ^ 2 * ?z ^ 2)" "fe_is 4 (gej_y a) (fe_fp (gej_y a) / ?z ^ 3 * ?z ^ 3)"
    "fe_is 1 (gej_z a) ?z" using assms(1) z by (simp_all add: gej_ok_def verify_defs fe_is_def)
qed

lemma ge_coords:
  assumes "ge_ok a" "\<not> ge_infinity a"
  obtains x y where "ge_point a = Some (x, y)" "fe_is 4 (ge_x a) x" "fe_is 3 (ge_y a) y" "y ^ 2 = x ^ 3 + 7"
  using assms that [of "fe_fp (ge_x a)" "fe_fp (ge_y a)"] by (simp add: ge_ok_def verify_defs ge_point_def fe_is_self)

lemma gej_result:
  assumes "fe_is mx rx (x * z ^ 2)" "mx \<le> 4" "fe_is my ry (y * z ^ 3)" "my \<le> 4" "fe_is 1 rz z" "z \<noteq> 0"
  shows "gej_point \<lparr>gej_x = rx, gej_y = ry, gej_z = rz, gej_infinity = False\<rparr> = Some (x, y)"
    and "y ^ 2 = x ^ 3 + 7 \<Longrightarrow> gej_ok \<lparr>gej_x = rx, gej_y = ry, gej_z = rz, gej_infinity = False\<rparr>"
  using assms fe_magnitude_mono [of mx rx 4] fe_magnitude_mono [of my ry 4]
  by (auto simp: gej_ok_def gej_point_def verify_defs fe_is_def)

lemma gej_infinity_ok: "gej_ok secp256k1_gej_set_infinity" "gej_point secp256k1_gej_set_infinity = None"
  using fe_is_set_int [of 0] fe_magnitude_mono [of 1 "secp256k1_fe_set_int 0" 4]
  by (simp_all add: gej_ok_def gej_point_def verify_defs secp256k1_gej_set_infinity_def fe_is_def)

lemma gej_ok_on_curve: "gej_ok a \<Longrightarrow> on_curve (gej_point a)"
  by (simp add: gej_ok_def)

lemma gej_point_infinity: "gej_infinity a \<Longrightarrow> gej_point a = None"
  by (simp add: gej_point_def)

lemma gej_ok_infinity: "gej_ok a \<Longrightarrow> gej_infinity a \<longleftrightarrow> gej_point a = None"
  by (simp add: gej_point_def)

section \<open>Doubling\<close>

lemma gej_double_correct:
  assumes ok: "gej_ok a" and fin: "\<not> gej_infinity a"
  shows "gej_ok (secp256k1_gej_double a)" "gej_point (secp256k1_gej_double a) = ec_add (gej_point a) (gej_point a)"
proof -
  obtain x y z where p: "gej_point a = Some (x, y)" and X: "fe_is 4 (gej_x a) (x * z ^ 2)"
    and Y: "fe_is 4 (gej_y a) (y * z ^ 3)" and Z: "fe_is 1 (gej_z a) z" and z: "z \<noteq> 0" and c: "y ^ 2 = x ^ 3 + 7"
    by (rule gej_coords [OF ok fin])
  have y0: "y \<noteq> 0" by (rule curve_y_neq_0 [OF c])
  define vX vY where "vX = x * z ^ 2" and "vY = y * z ^ 3"
  define vL vS where "vL = 3 * vX ^ 2 / 2" and "vS = vY ^ 2"
  define vT where "vT = - vS * vX"
  define vx where "vx = vL ^ 2 + vT + vT"
  define s l t rx where "s = secp256k1_fe_sqr (gej_y a)"
    and "l = secp256k1_fe_half (secp256k1_fe_mul_int (secp256k1_fe_sqr (gej_x a)) 3)"
    and "t = secp256k1_fe_mul (secp256k1_fe_negate s 1) (gej_x a)"
    and "rx = secp256k1_fe_add (secp256k1_fe_add (secp256k1_fe_sqr l) t) t"
  have s: "fe_is 1 s vS" unfolding s_def vS_def vY_def by (rule fe_is_sqr [OF Y]) simp
  have l: "fe_is 2 l vL" unfolding l_def vL_def vX_def
    by (rule fe_is_mono [OF fe_is_half [OF fe_is_cong [OF fe_is_mul_int [OF fe_is_sqr [OF X]]]]]) simp_all
  have t: "fe_is 1 t vT" unfolding t_def vT_def vX_def by (rule fe_is_mul [OF fe_is_negate [OF s] X]) simp_all
  have rx: "fe_is 3 rx vx" unfolding rx_def vx_def
    by (rule fe_is_mono [OF fe_is_add [OF fe_is_add [OF fe_is_sqr [OF l] t] t]]) simp_all
  have ry: "fe_is 3 (secp256k1_fe_negate (secp256k1_fe_add (secp256k1_fe_mul (secp256k1_fe_add t rx) l) (secp256k1_fe_sqr s)) 2)
      (- ((vT + vx) * vL + vS ^ 2))"
    by (rule fe_is_mono [OF fe_is_negate [OF fe_is_add [OF fe_is_mul [OF fe_is_add [OF t rx] l] fe_is_sqr [OF s]]]]) simp_all
  have rz: "fe_is 1 (secp256k1_fe_mul (gej_z a) (gej_y a)) (z * vY)"
    unfolding vY_def by (rule fe_is_mul [OF Z Y]) simp_all
  note f = double_formula [OF z y0 fp_2_neq_0 vX_def vY_def vL_def vS_def vT_def vx_def refl refl refl refl]
  have d: "secp256k1_gej_double a = \<lparr>gej_x = rx, gej_y = secp256k1_fe_negate (secp256k1_fe_add (secp256k1_fe_mul
      (secp256k1_fe_add t rx) l) (secp256k1_fe_sqr s)) 2, gej_z = secp256k1_fe_mul (gej_z a) (gej_y a), gej_infinity = False\<rparr>"
    using fin by (simp add: secp256k1_gej_double_def Let_def rx_def t_def l_def s_def)
  note r = gej_result [OF fe_is_cong [OF rx f(2)] _ fe_is_cong [OF ry f(3)] _ rz f(1), folded d]
  show "gej_point (secp256k1_gej_double a) = ec_add (gej_point a) (gej_point a)"
    unfolding p ec_add_tangent [OF y0 refl] by (rule r(1)) simp_all
  show "gej_ok (secp256k1_gej_double a)"
    by (rule r(2) [OF _ _ tangent_on_curve [OF c y0 fp_2_neq_0 refl refl]]) simp_all
qed

lemma ec_add_None_right [simp]: "ec_add P None = P"
  by (cases P) simp_all

lemma gej_double_var_correct:
  assumes "gej_ok a"
  shows "gej_ok (fst (secp256k1_gej_double_var a rzr))"
    "gej_point (fst (secp256k1_gej_double_var a rzr)) = ec_add (gej_point a) (gej_point a)"
  using gej_double_correct [OF assms] gej_infinity_ok by (simp_all add: secp256k1_gej_double_var_def gej_point_infinity)

section \<open>Addition\<close>

text \<open>
  The part the three variable-time additions share, once the coordinates are brought to a common scale \<open>w\<close>:
  \<open>h\<close> and \<open>i\<close> are the differences of the abscissas and of the ordinates, \<open>u1\<close> and \<open>s1\<close> the coordinates of
  the first point.
\<close>

definition add_tail :: "secp256k1_fe \<Rightarrow> secp256k1_fe \<Rightarrow> secp256k1_fe \<Rightarrow> secp256k1_fe \<Rightarrow> secp256k1_fe \<Rightarrow> secp256k1_gej" where
  "add_tail u1 s1 h i rz =
    (let h2 = secp256k1_fe_negate (secp256k1_fe_sqr h) 1;
         h3 = secp256k1_fe_mul h2 h;
         t = secp256k1_fe_mul u1 h2;
         rx = secp256k1_fe_add (secp256k1_fe_add (secp256k1_fe_add (secp256k1_fe_sqr i) h3) t) t;
         ry = secp256k1_fe_add (secp256k1_fe_mul (secp256k1_fe_add t rx) i) (secp256k1_fe_mul h3 s1)
     in \<lparr>gej_x = rx, gej_y = ry, gej_z = rz, gej_infinity = False\<rparr>)"

definition add_cases ::
    "secp256k1_gej \<Rightarrow> secp256k1_fe \<Rightarrow> secp256k1_fe \<Rightarrow> secp256k1_fe \<Rightarrow> secp256k1_fe \<Rightarrow> secp256k1_fe \<Rightarrow> secp256k1_gej" where
  "add_cases a u1 s1 h i rz =
    (if secp256k1_fe_normalizes_to_zero_var h then
       if secp256k1_fe_normalizes_to_zero_var i then fst (secp256k1_gej_double_var a None) else secp256k1_gej_set_infinity
     else add_tail u1 s1 h i rz)"

lemma add_tail_correct:
  assumes u1: "fe_is 4 u1 (x1 * w ^ 2)" and s1: "fe_is 4 s1 (y1 * w ^ 3)" and h: "fe_is 6 h ((x2 - x1) * w ^ 2)"
    and i: "fe_is 6 i ((y1 - y2) * w ^ 3)" and rz: "fe_is 1 rz (w * ((x2 - x1) * w ^ 2))"
    and w: "w \<noteq> 0" and x: "x1 \<noteq> x2" and c: "y1 ^ 2 = x1 ^ 3 + 7" "y2 ^ 2 = x2 ^ 3 + 7"
  shows "gej_ok (add_tail u1 s1 h i rz)" "gej_point (add_tail u1 s1 h i rz) = ec_add (Some (x1, y1)) (Some (x2, y2))"
proof -
  define vh vi vu vs where "vh = (x2 - x1) * w ^ 2" and "vi = (y1 - y2) * w ^ 3" and "vu = x1 * w ^ 2" and "vs = y1 * w ^ 3"
  define vx where "vx = vi ^ 2 - vh ^ 3 - 2 * (vu * vh ^ 2)"
  define h2 h3 t rx where "h2 = secp256k1_fe_negate (secp256k1_fe_sqr h) 1" and "h3 = secp256k1_fe_mul h2 h"
    and "t = secp256k1_fe_mul u1 h2"
    and "rx = secp256k1_fe_add (secp256k1_fe_add (secp256k1_fe_add (secp256k1_fe_sqr i) h3) t) t"
  note h = h [folded vh_def] and i = i [folded vi_def] and u1 = u1 [folded vu_def] and s1 = s1 [folded vs_def] and rz = rz [folded vh_def]
  have h2: "fe_is 2 h2 (- (vh ^ 2))" unfolding h2_def by (rule fe_is_mono [OF fe_is_negate [OF fe_is_sqr [OF h]]]) simp_all
  have h3: "fe_is 1 h3 (- (vh ^ 2) * vh)" unfolding h3_def by (rule fe_is_mul [OF h2 h]) simp_all
  have t: "fe_is 1 t (vu * - (vh ^ 2))" unfolding t_def by (rule fe_is_mul [OF u1 h2]) simp_all
  have rx: "fe_is 4 rx vx" unfolding rx_def vx_def
    by (rule fe_is_cong [OF fe_is_mono [OF fe_is_add [OF fe_is_add [OF fe_is_add [OF fe_is_sqr [OF i] h3] t] t]]])
      (simp_all add: power3_eq_cube power2_eq_square)
  have ry: "fe_is 2 (secp256k1_fe_add (secp256k1_fe_mul (secp256k1_fe_add t rx) i) (secp256k1_fe_mul h3 s1))
      ((vx - vu * vh ^ 2) * vi - vh ^ 3 * vs)"
    by (rule fe_is_cong [OF fe_is_mono [OF fe_is_add [OF fe_is_mul [OF fe_is_add [OF t rx] i] fe_is_mul [OF h3 s1]]]])
      (simp_all add: power3_eq_cube power2_eq_square)
  note f = chord_formula [OF w x [symmetric] vh_def vi_def vu_def vs_def vx_def refl refl refl refl]
  have d: "add_tail u1 s1 h i rz = \<lparr>gej_x = rx, gej_y = secp256k1_fe_add (secp256k1_fe_mul (secp256k1_fe_add t rx) i)
      (secp256k1_fe_mul h3 s1), gej_z = rz, gej_infinity = False\<rparr>"
    by (simp add: add_tail_def Let_def rx_def t_def h3_def h2_def)
  note r = gej_result [OF fe_is_cong [OF rx f(2)] _ fe_is_cong [OF ry f(3)] _ rz f(1), folded d]
  show "gej_point (add_tail u1 s1 h i rz) = ec_add (Some (x1, y1)) (Some (x2, y2))"
    unfolding ec_add_chord [OF x refl] by (rule r(1)) simp_all
  show "gej_ok (add_tail u1 s1 h i rz)" by (rule r(2) [OF _ _ line_on_curve [OF c x refl refl]]) simp_all
qed

lemma add_cases_correct:
  assumes a: "gej_ok a" "\<not> gej_infinity a" "gej_point a = Some (x1, y1)"
    and u1: "fe_is 4 u1 (x1 * w ^ 2)" and s1: "fe_is 4 s1 (y1 * w ^ 3)" and h: "fe_is 6 h ((x2 - x1) * w ^ 2)"
    and i: "fe_is 6 i ((y1 - y2) * w ^ 3)" and rz: "fe_is 1 rz (w * ((x2 - x1) * w ^ 2))"
    and w: "w \<noteq> 0" and c: "y2 ^ 2 = x2 ^ 3 + 7"
  shows "gej_ok (add_cases a u1 s1 h i rz) \<and> gej_point (add_cases a u1 s1 h i rz) = ec_add (Some (x1, y1)) (Some (x2, y2))"
proof -
  have c1: "y1 ^ 2 = x1 ^ 3 + 7" using a(1,3) by (simp add: gej_ok_def)
  have zero: "secp256k1_fe_normalizes_to_zero_var h \<longleftrightarrow> x2 = x1" "secp256k1_fe_normalizes_to_zero_var i \<longleftrightarrow> y1 = y2"
    using fe_is_zero_test_var [OF h] fe_is_zero_test_var [OF i] w by simp_all
  show ?thesis
  proof (cases "x1 = x2")
    case False
    then show ?thesis using add_tail_correct [OF u1 s1 h i rz w False c1 c] by (simp only: add_cases_def zero if_False False [symmetric] simp_thms)
  next
    case True
    show ?thesis
    proof (cases "y1 = y2")
      case eq: True
      then show ?thesis using gej_double_var_correct [OF a(1), of None] True by (simp only: add_cases_def zero if_True a(3) simp_thms)
    next
      case False
      then have "y1 = - y2" using curve_same_x [of y1 x2 y2] c c1 True by simp
      then have "ec_add (Some (x1, y1)) (Some (x2, y2)) = None" using True by simp
      then show ?thesis using gej_infinity_ok False True by (simp only: add_cases_def zero if_True if_False simp_thms)
    qed
  qed
qed

lemma add_var_cases:
  assumes "\<not> gej_infinity a" "\<not> gej_infinity b"
  shows "fst (secp256k1_gej_add_var a b rzr) =
    (let z22 = secp256k1_fe_sqr (gej_z b); z12 = secp256k1_fe_sqr (gej_z a);
         u1 = secp256k1_fe_mul (gej_x a) z22; u2 = secp256k1_fe_mul (gej_x b) z12;
         s1 = secp256k1_fe_mul (secp256k1_fe_mul (gej_y a) z22) (gej_z b);
         s2 = secp256k1_fe_mul (secp256k1_fe_mul (gej_y b) z12) (gej_z a);
         h = secp256k1_fe_add (secp256k1_fe_negate u1 1) u2;
         i = secp256k1_fe_add (secp256k1_fe_negate s2 1) s1
     in add_cases a u1 s1 h i (secp256k1_fe_mul (gej_z a) (secp256k1_fe_mul h (gej_z b))))"
  using assms
  by (simp add: secp256k1_gej_add_var_def add_cases_def add_tail_def Let_def secp256k1_gej_double_var_def split del: if_split cong: if_cong)
    (simp split: if_split)

lemma gej_add_var_correct:
  assumes a: "gej_ok a" and b: "gej_ok b"
  shows "gej_ok (fst (secp256k1_gej_add_var a b rzr)) \<and>
    gej_point (fst (secp256k1_gej_add_var a b rzr)) = ec_add (gej_point a) (gej_point b)"
proof (cases "gej_infinity a \<or> gej_infinity b")
  case True
  then show ?thesis using a b by (auto simp: secp256k1_gej_add_var_def gej_point_infinity)
next
  case False
  then have fin: "\<not> gej_infinity a" "\<not> gej_infinity b" by simp_all
  obtain x1 y1 z1 where p1: "gej_point a = Some (x1, y1)" and X1: "fe_is 4 (gej_x a) (x1 * z1 ^ 2)"
    and Y1: "fe_is 4 (gej_y a) (y1 * z1 ^ 3)" and Z1: "fe_is 1 (gej_z a) z1" and z1: "z1 \<noteq> 0" and c1: "y1 ^ 2 = x1 ^ 3 + 7"
    by (rule gej_coords [OF a fin(1)])
  obtain x2 y2 z2 where p2: "gej_point b = Some (x2, y2)" and X2: "fe_is 4 (gej_x b) (x2 * z2 ^ 2)"
    and Y2: "fe_is 4 (gej_y b) (y2 * z2 ^ 3)" and Z2: "fe_is 1 (gej_z b) z2" and z2: "z2 \<noteq> 0" and c2: "y2 ^ 2 = x2 ^ 3 + 7"
    by (rule gej_coords [OF b fin(2)])
  define w where "w = z1 * z2"
  have z22: "fe_is 1 (secp256k1_fe_sqr (gej_z b)) (z2 ^ 2)" by (rule fe_is_sqr [OF Z2]) simp
  have z12: "fe_is 1 (secp256k1_fe_sqr (gej_z a)) (z1 ^ 2)" by (rule fe_is_sqr [OF Z1]) simp
  have u1: "fe_is 1 (secp256k1_fe_mul (gej_x a) (secp256k1_fe_sqr (gej_z b))) (x1 * w ^ 2)"
    by (rule fe_is_cong [OF fe_is_mul [OF X1 z22]]) (simp_all add: w_def algebra_simps)
  have u2: "fe_is 1 (secp256k1_fe_mul (gej_x b) (secp256k1_fe_sqr (gej_z a))) (x2 * w ^ 2)"
    by (rule fe_is_cong [OF fe_is_mul [OF X2 z12]]) (simp_all add: w_def algebra_simps)
  have s1: "fe_is 1 (secp256k1_fe_mul (secp256k1_fe_mul (gej_y a) (secp256k1_fe_sqr (gej_z b))) (gej_z b)) (y1 * w ^ 3)"
    by (rule fe_is_cong [OF fe_is_mul [OF fe_is_mul [OF Y1 z22] Z2]]) (simp_all add: w_def power3_eq_cube power2_eq_square)
  have s2: "fe_is 1 (secp256k1_fe_mul (secp256k1_fe_mul (gej_y b) (secp256k1_fe_sqr (gej_z a))) (gej_z a)) (y2 * w ^ 3)"
    by (rule fe_is_cong [OF fe_is_mul [OF fe_is_mul [OF Y2 z12] Z1]]) (simp_all add: w_def power3_eq_cube power2_eq_square)
  have h: "fe_is 6 (secp256k1_fe_add (secp256k1_fe_negate (secp256k1_fe_mul (gej_x a) (secp256k1_fe_sqr (gej_z b))) 1)
      (secp256k1_fe_mul (gej_x b) (secp256k1_fe_sqr (gej_z a)))) ((x2 - x1) * w ^ 2)"
    by (rule fe_is_cong [OF fe_is_mono [OF fe_is_add [OF fe_is_negate [OF u1] u2]]]) (simp_all add: algebra_simps)
  have i: "fe_is 6 (secp256k1_fe_add (secp256k1_fe_negate (secp256k1_fe_mul (secp256k1_fe_mul (gej_y b) (secp256k1_fe_sqr (gej_z a))) (gej_z a)) 1)
      (secp256k1_fe_mul (secp256k1_fe_mul (gej_y a) (secp256k1_fe_sqr (gej_z b))) (gej_z b))) ((y1 - y2) * w ^ 3)"
    by (rule fe_is_cong [OF fe_is_mono [OF fe_is_add [OF fe_is_negate [OF s2] s1]]]) (simp_all add: algebra_simps)
  have rz: "fe_is 1 (secp256k1_fe_mul (gej_z a) (secp256k1_fe_mul (secp256k1_fe_add (secp256k1_fe_negate (secp256k1_fe_mul (gej_x a) (secp256k1_fe_sqr (gej_z b))) 1)
      (secp256k1_fe_mul (gej_x b) (secp256k1_fe_sqr (gej_z a)))) (gej_z b))) (w * ((x2 - x1) * w ^ 2))"
    by (rule fe_is_cong [OF fe_is_mul [OF Z1 fe_is_mul [OF h Z2]]]) (simp_all add: w_def)
  have w: "w \<noteq> 0" using z1 z2 by (simp add: w_def)
  show ?thesis unfolding add_var_cases [OF fin] Let_def p1 p2
    by (rule add_cases_correct [OF a fin(1) p1 fe_is_mono [OF u1] fe_is_mono [OF s1] h i rz w c2]) simp_all
qed

text \<open>Additions of an affine point: the second point enters through its scaled coordinates \<open>u2\<close> and \<open>s2\<close>.\<close>

definition add_affine :: "secp256k1_gej \<Rightarrow> secp256k1_fe \<Rightarrow> secp256k1_fe \<Rightarrow> secp256k1_gej" where
  "add_affine a u2 s2 =
    (let h = secp256k1_fe_add (secp256k1_fe_negate (gej_x a) (int SECP256K1_GEJ_X_MAGNITUDE_MAX)) u2;
         i = secp256k1_fe_add (secp256k1_fe_negate s2 1) (gej_y a)
     in add_cases a (gej_x a) (gej_y a) h i (secp256k1_fe_mul (gej_z a) h))"

lemma add_affine_correct:
  assumes a: "gej_ok a" "\<not> gej_infinity a" and c: "y2 ^ 2 = x2 ^ 3 + 7"
    and u2: "fe_is 1 u2 (x2 * fe_fp (gej_z a) ^ 2)" and s2: "fe_is 1 s2 (y2 * fe_fp (gej_z a) ^ 3)"
  shows "gej_ok (add_affine a u2 s2) \<and> gej_point (add_affine a u2 s2) = ec_add (gej_point a) (Some (x2, y2))"
proof -
  obtain x1 y1 z where p: "gej_point a = Some (x1, y1)" and X: "fe_is 4 (gej_x a) (x1 * z ^ 2)"
    and Y: "fe_is 4 (gej_y a) (y1 * z ^ 3)" and Z: "fe_is 1 (gej_z a) z" and z: "z \<noteq> 0" and c1: "y1 ^ 2 = x1 ^ 3 + 7"
    by (rule gej_coords [OF a])
  note zv = fe_is_val [OF Z]
  have h: "fe_is 6 (secp256k1_fe_add (secp256k1_fe_negate (gej_x a) (int SECP256K1_GEJ_X_MAGNITUDE_MAX)) u2) ((x2 - x1) * z ^ 2)"
    by (rule fe_is_cong [OF fe_is_mono [OF fe_is_add [OF fe_is_negate [OF X] u2 [unfolded zv]]]])
      (simp_all add: magnitude_limits algebra_simps)
  have i: "fe_is 6 (secp256k1_fe_add (secp256k1_fe_negate s2 1) (gej_y a)) ((y1 - y2) * z ^ 3)"
    by (rule fe_is_cong [OF fe_is_mono [OF fe_is_add [OF fe_is_negate [OF s2 [unfolded zv]] Y]]]) (simp_all add: algebra_simps)
  have rz: "fe_is 1 (secp256k1_fe_mul (gej_z a) (secp256k1_fe_add (secp256k1_fe_negate (gej_x a) (int SECP256K1_GEJ_X_MAGNITUDE_MAX)) u2))
      (z * ((x2 - x1) * z ^ 2))" by (rule fe_is_mul [OF Z h]) simp_all
  show ?thesis unfolding add_affine_def Let_def p by (rule add_cases_correct [OF a p X Y h i rz z c])
qed

lemma add_ge_var_cases:
  assumes "\<not> gej_infinity a" "\<not> ge_infinity b"
  shows "fst (secp256k1_gej_add_ge_var a b rzr) = add_affine a (secp256k1_fe_mul (ge_x b) (secp256k1_fe_sqr (gej_z a)))
    (secp256k1_fe_mul (secp256k1_fe_mul (ge_y b) (secp256k1_fe_sqr (gej_z a))) (gej_z a))"
  using assms
  by (simp add: secp256k1_gej_add_ge_var_def add_affine_def add_cases_def add_tail_def Let_def secp256k1_gej_double_var_def
      split del: if_split cong: if_cong) (simp split: if_split)

lemma gej_set_ge_correct: "ge_ok b \<Longrightarrow> gej_ok (secp256k1_gej_set_ge b) \<and> gej_point (secp256k1_gej_set_ge b) = ge_point b"
  using fe_is_set_int [of 1] fe_magnitude_mono [of 3 "ge_y b" 4]
  by (auto simp: ge_ok_def gej_ok_def gej_point_def ge_point_def verify_defs secp256k1_gej_set_ge_def fe_is_def)

lemma gej_add_ge_var_correct:
  assumes a: "gej_ok a" and b: "ge_ok b"
  shows "gej_ok (fst (secp256k1_gej_add_ge_var a b rzr)) \<and>
    gej_point (fst (secp256k1_gej_add_ge_var a b rzr)) = ec_add (gej_point a) (ge_point b)"
proof (cases "gej_infinity a \<or> ge_infinity b")
  case True
  then show ?thesis using a gej_set_ge_correct [OF b] by (auto simp: secp256k1_gej_add_ge_var_def gej_point_infinity ge_point_def)
next
  case False
  then have fin: "\<not> gej_infinity a" "\<not> ge_infinity b" by simp_all
  have Z: "fe_is 1 (gej_z a) (fe_fp (gej_z a))" using a by (simp add: gej_ok_def verify_defs fe_is_self)
  obtain x2 y2 where p2: "ge_point b = Some (x2, y2)" and X2: "fe_is 4 (ge_x b) x2" and Y2: "fe_is 3 (ge_y b) y2"
    and c2: "y2 ^ 2 = x2 ^ 3 + 7" by (rule ge_coords [OF b fin(2)])
  show ?thesis unfolding add_ge_var_cases [OF fin] p2
  proof (rule add_affine_correct [OF a fin(1) c2])
    show "fe_is 1 (secp256k1_fe_mul (ge_x b) (secp256k1_fe_sqr (gej_z a))) (x2 * fe_fp (gej_z a) ^ 2)"
      by (rule fe_is_mul [OF X2 fe_is_sqr [OF Z]]) simp_all
    show "fe_is 1 (secp256k1_fe_mul (secp256k1_fe_mul (ge_y b) (secp256k1_fe_sqr (gej_z a))) (gej_z a)) (y2 * fe_fp (gej_z a) ^ 3)"
      by (rule fe_is_cong [OF fe_is_mul [OF fe_is_mul [OF Y2 fe_is_sqr [OF Z]] Z]]) (simp_all add: power3_eq_cube power2_eq_square)
  qed
qed

text \<open>
  The point \<open>(b.x, b.y)\<close> with the denominator \<open>1 / bzinv\<close>: it need not lie on the curve itself, only on an
  isomorphic one.
\<close>

definition zinv_point :: "secp256k1_ge \<Rightarrow> secp256k1_fe \<Rightarrow> point" where
  "zinv_point b bzinv = (if ge_infinity b then None
     else Some (fe_fp (ge_x b) * fe_fp bzinv ^ 2, fe_fp (ge_y b) * fe_fp bzinv ^ 3))"

lemma add_zinv_var_cases:
  assumes "\<not> gej_infinity a" "\<not> ge_infinity b"
  shows "secp256k1_gej_add_zinv_var a b bzinv =
    (let az = secp256k1_fe_mul (gej_z a) bzinv
     in add_affine a (secp256k1_fe_mul (ge_x b) (secp256k1_fe_sqr az))
          (secp256k1_fe_mul (secp256k1_fe_mul (ge_y b) (secp256k1_fe_sqr az)) az))"
  using assms
  by (simp add: secp256k1_gej_add_zinv_var_def add_affine_def add_cases_def add_tail_def Let_def split del: if_split cong: if_cong)

lemma gej_add_zinv_var_correct:
  assumes a: "gej_ok a" and b: "secp256k1_ge_verify b" and bz: "fe_magnitude 8 bzinv" and c: "on_curve (zinv_point b bzinv)"
  shows "gej_ok (secp256k1_gej_add_zinv_var a b bzinv) \<and>
    gej_point (secp256k1_gej_add_zinv_var a b bzinv) = ec_add (gej_point a) (zinv_point b bzinv)"
proof -
  note B = fe_is_self [OF bz]
  have X: "fe_is 4 (ge_x b) (fe_fp (ge_x b))" and Y: "fe_is 3 (ge_y b) (fe_fp (ge_y b))"
    using b by (simp_all add: verify_defs fe_is_self)
  have B2: "fe_is 1 (secp256k1_fe_sqr bzinv) (fe_fp bzinv ^ 2)" by (rule fe_is_sqr [OF B]) simp
  have Z: "fe_is 1 (gej_z a) (fe_fp (gej_z a))" using a by (simp add: gej_ok_def verify_defs fe_is_self)
  have az: "fe_is 1 (secp256k1_fe_mul (gej_z a) bzinv) (fe_fp (gej_z a) * fe_fp bzinv)" by (rule fe_is_mul [OF Z B]) simp_all
  consider "gej_infinity a" | "\<not> gej_infinity a" "ge_infinity b" | "\<not> gej_infinity a" "\<not> ge_infinity b" by blast
  then show ?thesis
  proof cases
    case 1
    have x: "fe_is 1 (secp256k1_fe_mul (ge_x b) (secp256k1_fe_sqr bzinv)) (fe_fp (ge_x b) * fe_fp bzinv ^ 2)"
      by (rule fe_is_mul [OF X B2]) simp_all
    have y: "fe_is 1 (secp256k1_fe_mul (ge_y b) (secp256k1_fe_mul (secp256k1_fe_sqr bzinv) bzinv)) (fe_fp (ge_y b) * fe_fp bzinv ^ 3)"
      by (rule fe_is_cong [OF fe_is_mul [OF Y fe_is_mul [OF B2 B]]]) (simp_all add: power3_eq_cube power2_eq_square)
    have "gej_point (secp256k1_gej_add_zinv_var a b bzinv) = zinv_point b bzinv"
      using 1 x y fe_is_set_int [of 1] by (simp add: secp256k1_gej_add_zinv_var_def gej_point_def zinv_point_def Let_def fe_is_def)
    moreover have "secp256k1_gej_verify (secp256k1_gej_add_zinv_var a b bzinv)"
      using 1 x y fe_is_set_int [of 1] fe_magnitude_mono [of 1 _ 4]
      by (simp add: secp256k1_gej_add_zinv_var_def Let_def fe_is_def verify_defs)
    moreover have "fe_fp (gej_z (secp256k1_gej_add_zinv_var a b bzinv)) = 1"
      using 1 fe_is_set_int [of 1] by (simp add: secp256k1_gej_add_zinv_var_def Let_def fe_is_def)
    ultimately show ?thesis using c 1 by (simp add: gej_ok_def gej_point_infinity [OF 1])
  next
    case 2
    then show ?thesis using a by (simp add: secp256k1_gej_add_zinv_var_def zinv_point_def)
  next
    case 3
    let ?x = "fe_fp (ge_x b) * fe_fp bzinv ^ 2" and ?y = "fe_fp (ge_y b) * fe_fp bzinv ^ 3"
    have p: "zinv_point b bzinv = Some (?x, ?y)" using 3 by (simp add: zinv_point_def)
    have c': "?y ^ 2 = ?x ^ 3 + 7" using c by (simp only: p on_curve_simps)
    show ?thesis unfolding add_zinv_var_cases [OF 3] Let_def p
    proof (rule add_affine_correct [OF a 3(1) c'])
      show "fe_is 1 (secp256k1_fe_mul (ge_x b) (secp256k1_fe_sqr (secp256k1_fe_mul (gej_z a) bzinv))) (?x * fe_fp (gej_z a) ^ 2)"
        by (rule fe_is_cong [OF fe_is_mul [OF X fe_is_sqr [OF az]]]) (simp_all add: power2_eq_square)
      show "fe_is 1 (secp256k1_fe_mul (secp256k1_fe_mul (ge_y b) (secp256k1_fe_sqr (secp256k1_fe_mul (gej_z a) bzinv))) (secp256k1_fe_mul (gej_z a) bzinv))
          (?y * fe_fp (gej_z a) ^ 3)"
        by (rule fe_is_cong [OF fe_is_mul [OF fe_is_mul [OF Y fe_is_sqr [OF az]] az]]) (simp_all add: power3_eq_cube power2_eq_square)
    qed
  qed
qed

section \<open>The constant-time addition\<close>

lemma unified_formula:
  fixes x1 y1 x2 y2 z l :: "'a::field"
  assumes two: "(2 :: 'a) \<noteq> 0" and l: "l * (x2 - x1) = y2 - y1"
    and R: "R = l * (M * z)" and T: "T = x1 * z ^ 2 + x2 * z ^ 2" and N: "N = (y1 + y2) * z ^ 3 * M ^ 3"
    and rx: "rx = R ^ 2 + - T * M ^ 2" and ry: "ry = - ((2 * rx + - T * M ^ 2) * R + N) / 2" and rz: "rz = z * M"
    and x3: "x3 = l ^ 2 - x1 - x2"
  shows "rx = x3 * rz ^ 2" "ry = (l * (x1 - x3) - y1) * rz ^ 3"
proof -
  show e: "rx = x3 * rz ^ 2" unfolding rx R T rz x3 by algebra
  have "2 * ry = - ((2 * rx + - T * M ^ 2) * R + N)" unfolding ry using two by simp
  also have "\<dots> = 2 * ((l * (x1 - x3) - y1) * rz ^ 3)" unfolding e R T N rz x3 using l by algebra
  finally show "ry = (l * (x1 - x3) - y1) * rz ^ 3" using two by simp
qed

text \<open>The slope \<open>(x1^2 + x1 x2 + x2^2) / (y1 + y2)\<close> serves for the chord and for the tangent.\<close>

lemma unified_slope:
  fixes x1 y1 x2 y2 :: fp
  assumes c: "y1 ^ 2 = x1 ^ 3 + 7" "y2 ^ 2 = x2 ^ 3 + 7" and y: "y1 + y2 \<noteq> 0"
    and l: "l = (x1 ^ 2 + x1 * x2 + x2 ^ 2) / (y1 + y2)"
  shows "l * (x2 - x1) = y2 - y1"
    and "ec_add (Some (x1, y1)) (Some (x2, y2)) = Some (l ^ 2 - x1 - x2, l * (x1 - (l ^ 2 - x1 - x2)) - y1)"
proof -
  have m: "l * (y1 + y2) = x1 ^ 2 + x1 * x2 + x2 ^ 2" using y l by simp
  have "(y1 + y2) * (l * (x2 - x1)) = l * (y1 + y2) * (x2 - x1)" by (simp only: mult_ac)
  also have "\<dots> = x2 ^ 3 - x1 ^ 3" unfolding m by algebra
  also have "\<dots> = y2 ^ 2 - y1 ^ 2" unfolding c by simp
  also have "\<dots> = (y1 + y2) * (y2 - y1)" by algebra
  finally have "(y1 + y2) * (l * (x2 - x1)) = (y1 + y2) * (y2 - y1)" .
  then show s: "l * (x2 - x1) = y2 - y1" using y by simp
  show "ec_add (Some (x1, y1)) (Some (x2, y2)) = Some (l ^ 2 - x1 - x2, l * (x1 - (l ^ 2 - x1 - x2)) - y1)"
  proof (cases "x1 = x2")
    case False
    then have "l = (y2 - y1) / (x2 - x1)" using s by (simp add: nonzero_eq_divide_eq)
    then show ?thesis by (rule ec_add_chord [OF False])
  next
    case True
    have "y1 \<noteq> - y2" using y by (simp add: add_eq_0_iff2)
    then have e: "y1 = y2" using curve_same_x [of y1 x2 y2] c True by blast
    have n: "x2 ^ 2 + x2 * x2 + x2 ^ 2 = 3 * x2 ^ 2" by algebra
    have "l = 3 * x2 ^ 2 / (2 * y2)" unfolding l True e n mult_2 ..
    moreover have "y2 \<noteq> 0" using curve_y_neq_0 [OF c(2)] .
    ultimately show ?thesis unfolding True e using ec_add_tangent by blast
  qed
qed

lemma fe_one_is: "fe_is 1 secp256k1_fe_one 1"
  by (simp add: fe_is_def secp256k1_fe_one_def SECP256K1_FE_CONST_def fe_magnitude_def fe_val_def)

text \<open>The second half of \<open>secp256k1_gej_add_ge\<close>, from the numerator and the denominator of the slope on.\<close>

definition add_ge_core :: "secp256k1_fe \<Rightarrow> secp256k1_fe \<Rightarrow> secp256k1_fe \<Rightarrow> secp256k1_fe \<Rightarrow> secp256k1_fe \<Rightarrow> secp256k1_gej" where
  "add_ge_core az t R Mf n =
    (let q = secp256k1_fe_mul (secp256k1_fe_negate t (int SECP256K1_GEJ_X_MAGNITUDE_MAX + 1)) (secp256k1_fe_sqr Mf);
         rx = secp256k1_fe_add (secp256k1_fe_sqr R) q;
         ry = secp256k1_fe_half (secp256k1_fe_negate (secp256k1_fe_add (secp256k1_fe_mul (secp256k1_fe_add
           (secp256k1_fe_mul_int rx 2) q) R) n) (int SECP256K1_GEJ_Y_MAGNITUDE_MAX + 2));
         rz = secp256k1_fe_mul az Mf
     in \<lparr>gej_x = rx, gej_y = ry, gej_z = rz, gej_infinity = secp256k1_fe_normalizes_to_zero rz\<rparr>)"

lemma add_ge_core_coords:
  fixes vt vR M vn z :: fp
  assumes t: "fe_is 5 t vt" and R: "fe_is 8 R vR" and Mf: "fe_is 6 Mf M" and n: "fe_is 5 n vn" and Z: "fe_is 1 az z"
    and vx: "vx = vR ^ 2 + - vt * M ^ 2"
  shows "fe_is 2 (gej_x (add_ge_core az t R Mf n)) vx"
    and "fe_is 4 (gej_y (add_ge_core az t R Mf n)) (- ((2 * vx + - vt * M ^ 2) * vR + vn) / 2)"
    and "fe_is 1 (gej_z (add_ge_core az t R Mf n)) (z * M)"
    and "gej_infinity (add_ge_core az t R Mf n) \<longleftrightarrow> z * M = 0"
proof -
  define q where "q = secp256k1_fe_mul (secp256k1_fe_negate t (int SECP256K1_GEJ_X_MAGNITUDE_MAX + 1)) (secp256k1_fe_sqr Mf)"
  define rx where "rx = secp256k1_fe_add (secp256k1_fe_sqr R) q"
  note core = add_ge_core_def [unfolded Let_def, of az t R Mf n, folded q_def, folded rx_def]
  have q': "fe_is 1 q (- vt * M ^ 2)" unfolding q_def
    by (rule fe_is_mul [OF fe_is_negate [OF t] fe_is_sqr [OF Mf]]) (simp_all add: magnitude_limits)
  show rx': "fe_is 2 (gej_x (add_ge_core az t R Mf n)) vx" unfolding core secp256k1_gej.select_convs rx_def vx
    by (rule fe_is_mono [OF fe_is_add [OF fe_is_sqr [OF R] q']]) simp_all
  then have "fe_is 2 rx vx" by (simp add: core)
  then have rx2: "fe_is 4 (secp256k1_fe_mul_int rx 2) (2 * vx)"
    using fe_is_mono [OF fe_is_mul_int [of 2 rx vx 2]] by simp
  show "fe_is 4 (gej_y (add_ge_core az t R Mf n)) (- ((2 * vx + - vt * M ^ 2) * vR + vn) / 2)"
    unfolding core secp256k1_gej.select_convs
    by (rule fe_is_mono [OF fe_is_half [OF fe_is_negate [OF fe_is_add [OF fe_is_mul [OF fe_is_add
        [OF rx2 q'] R] n]]]]) (simp_all add: magnitude_limits)
  show rz': "fe_is 1 (gej_z (add_ge_core az t R Mf n)) (z * M)"
    unfolding core secp256k1_gej.select_convs by (rule fe_is_mul [OF Z Mf]) simp_all
  show "gej_infinity (add_ge_core az t R Mf n) \<longleftrightarrow> z * M = 0"
    using fe_is_zero_test [OF rz'] by (simp add: core)
qed

lemma gej_eta: "\<lparr>gej_x = gej_x r, gej_y = gej_y r, gej_z = gej_z r, gej_infinity = gej_infinity r\<rparr> = (r :: secp256k1_gej)"
  by simp

lemma add_ge_core_correct:
  fixes x1 y1 x2 y2 z l M :: fp
  assumes t: "fe_is 5 t (x1 * z ^ 2 + x2 * z ^ 2)" and R: "fe_is 8 R (l * (M * z))" and Mf: "fe_is 6 Mf M"
    and n: "fe_is 5 n ((y1 + y2) * z ^ 3 * M ^ 3)" and Z: "fe_is 1 az z" and nz: "M \<noteq> 0" "z \<noteq> 0"
    and l: "l * (x2 - x1) = y2 - y1" and c: "on_curve (Some (l ^ 2 - x1 - x2, l * (x1 - (l ^ 2 - x1 - x2)) - y1))"
  shows "gej_ok (add_ge_core az t R Mf n) \<and>
    gej_point (add_ge_core az t R Mf n) = Some (l ^ 2 - x1 - x2, l * (x1 - (l ^ 2 - x1 - x2)) - y1)"
proof -
  let ?r = "add_ge_core az t R Mf n"
  note v = add_ge_core_coords [OF t R Mf n Z refl]
  have zM: "z * M \<noteq> 0" using nz by simp
  have inf: "gej_infinity ?r = False" using v(4) zM by blast
  note f = unified_formula [OF fp_2_neq_0 l refl refl refl refl refl refl refl, of M z]
  note r = gej_result [OF fe_is_cong [OF v(1) f(1)] _ fe_is_cong [OF v(2) f(2)] _ v(3) zM, folded inf, unfolded gej_eta]
  show ?thesis using r c by (simp only: on_curve_simps)
qed

lemma add_ge_cases:
  assumes "\<not> gej_infinity a"
    and "zz = secp256k1_fe_sqr (gej_z a)" "u2 = secp256k1_fe_mul (ge_x b) zz"
    and "s2 = secp256k1_fe_mul (secp256k1_fe_mul (ge_y b) zz) (gej_z a)" "t = secp256k1_fe_add (gej_x a) u2"
    and "m = secp256k1_fe_add (gej_y a) s2" "nu2 = secp256k1_fe_negate u2 1"
  shows "secp256k1_gej_add_ge a b =
    (if secp256k1_fe_normalizes_to_zero m
     then add_ge_core (gej_z a) t (secp256k1_fe_mul_int (gej_y a) 2) (secp256k1_fe_add nu2 (gej_x a)) m
     else add_ge_core (gej_z a) t (secp256k1_fe_add (secp256k1_fe_sqr t) (secp256k1_fe_mul (gej_x a) nu2)) m
       (secp256k1_fe_sqr (secp256k1_fe_sqr m)))"
  using assms by (simp add: secp256k1_gej_add_ge_def add_ge_core_def Let_def fe_cmov_eq)

lemma gej_add_ge_finite:
  fixes x1 y1 x2 y2 z :: fp
  assumes X1: "fe_is 4 (gej_x a) (x1 * z ^ 2)" and Y1: "fe_is 4 (gej_y a) (y1 * z ^ 3)" and Z: "fe_is 1 (gej_z a) z"
    and z: "z \<noteq> 0" and c: "y1 ^ 2 = x1 ^ 3 + 7" "y2 ^ 2 = x2 ^ 3 + 7" and fin: "\<not> gej_infinity a"
    and X2: "fe_is 4 (ge_x b) x2" and Y2: "fe_is 3 (ge_y b) y2"
  shows "gej_ok (secp256k1_gej_add_ge a b) \<and> gej_point (secp256k1_gej_add_ge a b) = ec_add (Some (x1, y1)) (Some (x2, y2))"
proof -
  define zz u2 s2 t m nu2 where "zz = secp256k1_fe_sqr (gej_z a)" and "u2 = secp256k1_fe_mul (ge_x b) zz"
    and "s2 = secp256k1_fe_mul (secp256k1_fe_mul (ge_y b) zz) (gej_z a)" and "t = secp256k1_fe_add (gej_x a) u2"
    and "m = secp256k1_fe_add (gej_y a) s2" and "nu2 = secp256k1_fe_negate u2 1"
  have zz: "fe_is 1 zz (z ^ 2)" unfolding zz_def by (rule fe_is_sqr [OF Z]) simp
  have u2: "fe_is 1 u2 (x2 * z ^ 2)" unfolding u2_def by (rule fe_is_mul [OF X2 zz]) simp_all
  have s2: "fe_is 1 s2 (y2 * z ^ 3)" unfolding s2_def
    by (rule fe_is_cong [OF fe_is_mul [OF fe_is_mul [OF Y2 zz] Z]]) (simp_all add: power3_eq_cube power2_eq_square)
  have t: "fe_is 5 t (x1 * z ^ 2 + x2 * z ^ 2)" unfolding t_def by (rule fe_is_mono [OF fe_is_add [OF X1 u2]]) simp_all
  have m: "fe_is 5 m ((y1 + y2) * z ^ 3)" unfolding m_def distrib_right by (rule fe_is_mono [OF fe_is_add [OF Y1 s2]]) simp_all
  have nu2: "fe_is 2 nu2 (- (x2 * z ^ 2))" unfolding nu2_def by (rule fe_is_mono [OF fe_is_negate [OF u2]]) simp_all
  have m0: "secp256k1_fe_normalizes_to_zero m \<longleftrightarrow> y1 + y2 = 0" using fe_is_zero_test [OF m] z by simp
  note cases' = add_ge_cases [OF fin zz_def u2_def s2_def t_def m_def nu2_def, unfolded m0]
  show ?thesis
  proof (cases "y1 + y2 = 0")
    case True
    define Malt where "Malt = (x1 - x2) * z ^ 2"
    have y: "y1 = - y2" using True by (simp add: add_eq_0_iff2)
    have Ma: "fe_is 6 (secp256k1_fe_add nu2 (gej_x a)) Malt" unfolding Malt_def
      by (rule fe_is_cong [OF fe_is_mono [OF fe_is_add [OF nu2 X1]]]) (simp_all add: algebra_simps)
    have Ra: "fe_is 8 (secp256k1_fe_mul_int (gej_y a) 2) (2 * (y1 * z ^ 3))"
      using fe_is_mono [OF fe_is_mul_int [OF Y1, of 2]] by simp
    have n: "fe_is 5 m ((y1 + y2) * z ^ 3 * Malt ^ 3)" using m True by simp
    show ?thesis
    proof (cases "x1 = x2")
      case x: True
      have "ec_add (Some (x1, y1)) (Some (x2, y2)) = None" using x y by simp
      then show ?thesis using add_ge_core_coords [OF t Ra Ma n Z refl] True x cases'
        by (simp add: gej_ok_def gej_point_def verify_defs fe_is_def fe_magnitude_mono [of 2 _ 4] Malt_def)
    next
      case x: False
      define l where "l = (y2 - y1) / (x2 - x1)"
      have l: "l * (x2 - x1) = y2 - y1" using x by (simp add: l_def)
      have "l * (Malt * z) = - (l * (x2 - x1)) * z ^ 3" unfolding Malt_def by algebra
      also have "\<dots> = 2 * (y1 * z ^ 3)" unfolding l y by algebra
      finally have "fe_is 8 (secp256k1_fe_mul_int (gej_y a) 2) (l * (Malt * z))" using Ra by simp
      from add_ge_core_correct [OF t this Ma n Z _ z l] line_on_curve [OF c x l_def refl] x z cases' True
      show ?thesis unfolding ec_add_chord [OF x l_def] by (simp add: Malt_def)
    qed
  next
    case False
    define l where "l = (x1 ^ 2 + x1 * x2 + x2 ^ 2) / (y1 + y2)"
    define M where "M = (y1 + y2) * z ^ 3"
    note sl = unified_slope [OF c False l_def]
    have M: "fe_is 5 m M" "M \<noteq> 0" using m False z by (simp_all add: M_def)
    have "l * (M * z) = l * (y1 + y2) * z ^ 4" unfolding M_def by algebra
    also have "\<dots> = (x1 * z ^ 2 + x2 * z ^ 2) ^ 2 + x1 * z ^ 2 * - (x2 * z ^ 2)"
      using False by (simp add: l_def) algebra
    finally have lR: "l * (M * z) = (x1 * z ^ 2 + x2 * z ^ 2) ^ 2 + x1 * z ^ 2 * - (x2 * z ^ 2)" .
    have R: "fe_is 8 (secp256k1_fe_add (secp256k1_fe_sqr t) (secp256k1_fe_mul (gej_x a) nu2)) (l * (M * z))"
      unfolding lR by (rule fe_is_mono [OF fe_is_add [OF fe_is_sqr [OF t] fe_is_mul [OF X1 nu2]]]) simp_all
    have n: "fe_is 5 (secp256k1_fe_sqr (secp256k1_fe_sqr m)) ((y1 + y2) * z ^ 3 * M ^ 3)"
      by (rule fe_is_cong [OF fe_is_mono [OF fe_is_sqr [OF fe_is_sqr [OF M(1)]]]])
        (simp_all add: M_def power3_eq_cube power2_eq_square)
    have "on_curve (ec_add (Some (x1, y1)) (Some (x2, y2)))" using c by (intro on_curve_add) simp_all
    from add_ge_core_correct [OF t R fe_is_mono [OF M(1)] n Z M(2) z sl(1) this [unfolded sl(2)]] False
    show ?thesis unfolding cases' sl(2) by simp
  qed
qed

lemma gej_add_ge_correct:
  assumes a: "gej_ok a" and b: "ge_ok b" "\<not> ge_infinity b"
  shows "gej_ok (secp256k1_gej_add_ge a b) \<and> gej_point (secp256k1_gej_add_ge a b) = ec_add (gej_point a) (ge_point b)"
proof -
  obtain x2 y2 where p2: "ge_point b = Some (x2, y2)" and X2: "fe_is 4 (ge_x b) x2" and Y2: "fe_is 3 (ge_y b) y2"
    and c2: "y2 ^ 2 = x2 ^ 3 + 7" by (rule ge_coords [OF b])
  show ?thesis
  proof (cases "gej_infinity a")
    case True
    have "secp256k1_gej_add_ge a b = \<lparr>gej_x = ge_x b, gej_y = ge_y b, gej_z = secp256k1_fe_one, gej_infinity = False\<rparr>"
      using True fe_is_zero_test [OF fe_one_is] by (simp add: secp256k1_gej_add_ge_def Let_def fe_cmov_eq)
    then show ?thesis using gej_result [of 4 "ge_x b" x2 1 3 "ge_y b" y2 secp256k1_fe_one] X2 Y2 fe_one_is c2
      by (simp add: gej_point_infinity [OF True] p2)
  next
    case False
    obtain x1 y1 z where "gej_point a = Some (x1, y1)" "fe_is 4 (gej_x a) (x1 * z ^ 2)" "fe_is 4 (gej_y a) (y1 * z ^ 3)"
      "fe_is 1 (gej_z a) z" "z \<noteq> 0" "y1 ^ 2 = x1 ^ 3 + 7" by (rule gej_coords [OF a False])
    then show ?thesis using gej_add_ge_finite [of a x1 z y1 y2 x2 b] c2 X2 Y2 False p2 by simp
  qed
qed

end
