(* ===== verification/Group_Ops.thy ===== *)
theory Group_Ops
  imports Group_Law Field_5x52_Bytes
begin

text \<open>
  The remaining point operations: negation, equality tests, validity, points from an abscissa, rescaling, the
  endomorphism, selection, and the storage and byte forms.
\<close>

section \<open>Negation, validity, comparison\<close>

lemma ec_neg_on_curve: "on_curve (ec_neg P) \<longleftrightarrow> on_curve P"
  by (cases P) (auto simp: ec_neg_def)

lemma gej_neg_correct:
  assumes "gej_ok a"
  shows "gej_ok (secp256k1_gej_neg a) \<and> gej_point (secp256k1_gej_neg a) = ec_neg (gej_point a)"
proof -
  have Y: "fe_is 4 (gej_y a) (fe_fp (gej_y a))" using assms by (simp add: gej_ok_def verify_defs fe_is_self)
  have y: "fe_is 2 (secp256k1_fe_negate (secp256k1_fe_normalize_weak (gej_y a)) 1) (- fe_fp (gej_y a))"
    by (rule fe_is_mono [OF fe_is_negate [OF fe_is_normalize_weak [OF Y]]]) simp_all
  have p: "gej_point (secp256k1_gej_neg a) = ec_neg (gej_point a)"
    using fe_is_val [OF y] by (simp add: secp256k1_gej_neg_def gej_point_def ec_neg_def)
  have "on_curve (gej_point (secp256k1_gej_neg a))" unfolding p ec_neg_on_curve using assms by (simp add: gej_ok_def)
  then show ?thesis using p assms fe_is_magnitude [OF y] fe_magnitude_mono [of 2 _ 4]
    by (simp add: gej_ok_def) (simp add: secp256k1_gej_neg_def verify_defs)
qed

lemma ge_neg_correct:
  assumes "ge_ok a"
  shows "ge_ok (secp256k1_ge_neg a) \<and> ge_point (secp256k1_ge_neg a) = ec_neg (ge_point a)"
proof -
  have Y: "fe_is 3 (ge_y a) (fe_fp (ge_y a))" using assms by (simp add: ge_ok_def verify_defs fe_is_self)
  have y: "fe_is 2 (secp256k1_fe_negate (secp256k1_fe_normalize_weak (ge_y a)) 1) (- fe_fp (ge_y a))"
    by (rule fe_is_mono [OF fe_is_negate [OF fe_is_normalize_weak [OF Y]]]) simp_all
  have p: "ge_point (secp256k1_ge_neg a) = ec_neg (ge_point a)"
    using fe_is_val [OF y] by (simp add: secp256k1_ge_neg_def ge_point_def ec_neg_def)
  have "on_curve (ge_point (secp256k1_ge_neg a))" unfolding p ec_neg_on_curve using assms by (simp add: ge_ok_def)
  then show ?thesis using p assms fe_is_magnitude [OF y] fe_magnitude_mono [of 2 _ 3]
    by (simp add: ge_ok_def) (simp add: secp256k1_ge_neg_def verify_defs)
qed

lemma ec_add_neg_iff:
  assumes "on_curve P" "on_curve Q"
  shows "ec_add (ec_neg P) Q = None \<longleftrightarrow> P = Q"
proof (cases "P = None \<or> Q = None")
  case False
  then obtain x1 y1 x2 y2 where "P = Some (x1, y1)" "Q = Some (x2, y2)" by auto
  then show ?thesis by (simp add: ec_neg_def ec_line_def Let_def)
qed (auto simp: ec_neg_def)

lemma gej_eq_var_correct: "gej_ok a \<Longrightarrow> gej_ok b \<Longrightarrow> secp256k1_gej_eq_var a b \<longleftrightarrow> gej_point a = gej_point b"
  using gej_add_var_correct [of "secp256k1_gej_neg a" b None] gej_neg_correct [of a]
    ec_add_neg_iff [of "gej_point a" "gej_point b"] gej_ok_infinity [of "fst (secp256k1_gej_add_var (secp256k1_gej_neg a) b None)"]
  by (simp add: secp256k1_gej_eq_var_def secp256k1_gej_is_infinity_def split_beta gej_ok_on_curve)

lemma gej_eq_ge_var_correct: "gej_ok a \<Longrightarrow> ge_ok b \<Longrightarrow> secp256k1_gej_eq_ge_var a b \<longleftrightarrow> gej_point a = ge_point b"
  using gej_add_ge_var_correct [of "secp256k1_gej_neg a" b None] gej_neg_correct [of a]
    ec_add_neg_iff [of "gej_point a" "ge_point b"] gej_ok_infinity [of "fst (secp256k1_gej_add_ge_var (secp256k1_gej_neg a) b None)"]
  by (simp add: secp256k1_gej_eq_ge_var_def secp256k1_gej_is_infinity_def split_beta gej_ok_on_curve ge_ok_def)

lemma ge_eq_var_correct:
  assumes "secp256k1_ge_verify a" "secp256k1_ge_verify b"
  shows "secp256k1_ge_eq_var a b \<longleftrightarrow> ge_point a = ge_point b"
proof -
  have x: "secp256k1_fe_equal (secp256k1_fe_normalize_weak (ge_x a)) (ge_x b) \<longleftrightarrow> fe_fp (ge_x a) = fe_fp (ge_x b)"
    by (rule fe_is_equal [OF fe_is_normalize_weak [OF fe_is_self] fe_is_self, of 4 _ 4]) (use assms in \<open>simp_all add: verify_defs\<close>)
  have y: "secp256k1_fe_equal (secp256k1_fe_normalize_weak (ge_y a)) (ge_y b) \<longleftrightarrow> fe_fp (ge_y a) = fe_fp (ge_y b)"
    by (rule fe_is_equal [OF fe_is_normalize_weak [OF fe_is_self] fe_is_self, of 3 _ 3]) (use assms in \<open>simp_all add: verify_defs\<close>)
  show ?thesis using x y by (simp add: secp256k1_ge_eq_var_def ge_point_def)
qed

lemma gej_eq_x_var_correct:
  assumes "gej_ok a" "\<not> gej_infinity a" "fe_magnitude 8 x"
  shows "secp256k1_gej_eq_x_var x a \<longleftrightarrow> map_option fst (gej_point a) = Some (fe_fp x)"
proof -
  obtain vx vy z where p: "gej_point a = Some (vx, vy)" and X: "fe_is 4 (gej_x a) (vx * z ^ 2)" and Z: "fe_is 1 (gej_z a) z"
    and z: "z \<noteq> 0" by (rule gej_coords [OF assms(1,2)])
  have "secp256k1_fe_equal (secp256k1_fe_mul (secp256k1_fe_sqr (gej_z a)) x) (gej_x a) \<longleftrightarrow> z ^ 2 * fe_fp x = vx * z ^ 2"
    by (rule fe_is_equal [OF fe_is_mul [OF fe_is_sqr [OF Z] fe_is_self [OF assms(3)]] X]) simp_all
  then show ?thesis using z by (auto simp: secp256k1_gej_eq_x_var_def Let_def p)
qed

lemma ge_is_valid_var_correct:
  assumes "secp256k1_ge_verify a"
  shows "secp256k1_ge_is_valid_var a \<longleftrightarrow> \<not> ge_infinity a \<and> on_curve (ge_point a)"
proof -
  have X: "fe_is 4 (ge_x a) (fe_fp (ge_x a))" and Y: "fe_is 3 (ge_y a) (fe_fp (ge_y a))"
    using assms by (simp_all add: verify_defs fe_is_self)
  have "secp256k1_fe_equal (secp256k1_fe_sqr (ge_y a)) (secp256k1_fe_add_int (secp256k1_fe_mul (secp256k1_fe_sqr (ge_x a)) (ge_x a)) SECP256K1_B)
      \<longleftrightarrow> fe_fp (ge_y a) ^ 2 = fe_fp (ge_x a) ^ 2 * fe_fp (ge_x a) + of_int SECP256K1_B"
    by (rule fe_is_equal [OF fe_is_sqr [OF Y] fe_is_add_int [OF fe_is_mul [OF fe_is_sqr [OF X] X]]]) (simp_all add: SECP256K1_B_def)
  then show ?thesis
    by (simp add: secp256k1_ge_is_valid_var_def Let_def ge_point_def SECP256K1_B_def power3_eq_cube power2_eq_square)
qed

section \<open>A point from its abscissa\<close>

lemma fp_int_odd_neg: "v \<noteq> 0 \<Longrightarrow> odd (fp_int (- v)) \<longleftrightarrow> even (fp_int v)" for v :: fp
proof -
  assume v: "v \<noteq> 0"
  have b: "0 < fp_int v" "fp_int v < secp256k1_p"
    using fp_int [of v] v by (auto simp: zero_fp.rep_eq [symmetric] fp_int_inject order_less_le)
  have "fp_int (- v) = (secp256k1_p - fp_int v) mod secp256k1_p" by (simp add: uminus_fp.rep_eq mod_diff_left_eq [symmetric])
  also have "\<dots> = secp256k1_p - fp_int v" using b by (intro mod_pos_pos_trivial) simp_all
  finally show ?thesis by (simp add: secp256k1_p_def)
qed

text \<open>
  The function returns 1 exactly if the abscissa belongs to a point of the curve, and then the point written
  is that point with the ordinate of the requested parity.
\<close>

lemma ge_set_xo_var_correct:
  assumes X: "fe_is m x vx" and m: "m \<le> 4" and r: "secp256k1_ge_set_xo_var x odd_y = (r, ret)"
  shows "ret \<longleftrightarrow> (\<exists>y. on_curve (Some (vx, y)))"
    and "ret \<Longrightarrow> ge_ok r \<and> (\<exists>y. ge_point r = Some (vx, y) \<and> (odd (fp_int y) \<longleftrightarrow> odd_y))"
proof -
  define x3 where "x3 = secp256k1_fe_add_int (secp256k1_fe_mul x (secp256k1_fe_sqr x)) SECP256K1_B"
  define v where "v = vx ^ 3 + 7"
  obtain y0 s where sq: "secp256k1_fe_sqrt x3 = (y0, s)" by fastforce
  define y where "y = secp256k1_fe_normalize_var y0"
  have x3: "fe_is 2 x3 v" unfolding x3_def v_def
    by (rule fe_is_cong [OF fe_is_mono [OF fe_is_add_int [OF fe_is_mul [OF X fe_is_sqr [OF X]]]]])
      (use m in \<open>simp_all add: SECP256K1_B_def power3_eq_cube power2_eq_square\<close>)
  note q = fe_sqrt_square [OF x3, unfolded sq, simplified]
  have ret: "ret = s" and rr: "r = \<lparr>ge_x = x, ge_y = if secp256k1_fe_is_odd y \<noteq> odd_y then secp256k1_fe_negate y 1 else y, ge_infinity = False\<rparr>"
    using r sq by (auto simp: secp256k1_ge_set_xo_var_def Let_def x3_def y_def)
  show "ret \<longleftrightarrow> (\<exists>y. on_curve (Some (vx, y)))" unfolding ret q(2) v_def by (auto simp: eq_commute)
  assume ret
  then obtain w where w: "v = w ^ 2" using q(2) ret by auto
  define vy where "vy = v ^ nat ((secp256k1_p + 1) div 4)"
  have vy: "vy ^ 2 = v" unfolding vy_def by (rule sqrt_power_square [OF w])
  then have vy0: "vy \<noteq> 0" using curve_y_neq_0 [of vy vx] by (simp add: v_def)
  note n = fe_is_normalize [OF q(1) [folded vy_def]]
  have y: "fe_is 1 y vy" "fe_val y = fp_int vy" unfolding y_def using n by simp_all
  have yn: "fe_is 2 (secp256k1_fe_negate y 1) (- vy)" by (rule fe_is_mono [OF fe_is_negate [OF y(1)]]) simp_all
  have od: "secp256k1_fe_is_odd y \<longleftrightarrow> odd (fp_int vy)" by (simp add: fe_is_odd_iff y(2))
  have xm: "fe_magnitude 4 x" using X m fe_magnitude_mono by (auto simp: fe_is_def)
  show "ge_ok r \<and> (\<exists>y. ge_point r = Some (vx, y) \<and> (odd (fp_int y) \<longleftrightarrow> odd_y))"
  proof (cases "secp256k1_fe_is_odd y = odd_y")
    case True
    then show ?thesis using xm y(1) X vy od fe_magnitude_mono [of 1 y 3]
      by (auto simp: rr ge_ok_def ge_point_def verify_defs fe_is_def v_def)
  next
    case False
    then show ?thesis using xm yn X vy od fp_int_odd_neg [OF vy0] fe_magnitude_mono [of 2 "secp256k1_fe_negate y 1" 3]
      by (auto simp: rr ge_ok_def ge_point_def verify_defs fe_is_def v_def)
  qed
qed

section \<open>Change of scale\<close>

lemma ge_set_gej_zinv_correct:
  assumes a: "gej_ok a" "\<not> gej_infinity a" and zi: "fe_is 8 zi (inverse (fe_fp (gej_z a)))"
  shows "ge_ok (secp256k1_ge_set_gej_zinv a zi) \<and> ge_point (secp256k1_ge_set_gej_zinv a zi) = gej_point a"
proof -
  obtain x y z where p: "gej_point a = Some (x, y)" and X: "fe_is 4 (gej_x a) (x * z ^ 2)"
    and Y: "fe_is 4 (gej_y a) (y * z ^ 3)" and Z: "fe_is 1 (gej_z a) z" and z: "z \<noteq> 0" and c: "y ^ 2 = x ^ 3 + 7"
    by (rule gej_coords [OF a])
  note zi = zi [unfolded fe_is_val [OF Z]]
  have zi2: "fe_is 1 (secp256k1_fe_sqr zi) (inverse z ^ 2)" by (rule fe_is_sqr [OF zi]) simp
  have x: "fe_is 1 (secp256k1_fe_mul (gej_x a) (secp256k1_fe_sqr zi)) x"
    by (rule fe_is_cong [OF fe_is_mul [OF X zi2]]) (use z in \<open>simp_all add: field_simps\<close>)
  have y: "fe_is 1 (secp256k1_fe_mul (gej_y a) (secp256k1_fe_mul (secp256k1_fe_sqr zi) zi)) y"
    by (rule fe_is_cong [OF fe_is_mul [OF Y fe_is_mul [OF zi2 zi]]])
      (use z in \<open>simp_all add: field_simps power3_eq_cube power2_eq_square\<close>)
  show ?thesis using x y c a(2) fe_magnitude_mono [of 1 _ 4] fe_magnitude_mono [of 1 _ 3]
    by (simp add: secp256k1_ge_set_gej_zinv_def Let_def ge_ok_def ge_point_def verify_defs p fe_is_def)
qed

lemma gej_rescale_correct:
  assumes "gej_ok a" "fe_magnitude 8 s" "fe_fp s \<noteq> 0"
  shows "gej_ok (secp256k1_gej_rescale a s) \<and> gej_point (secp256k1_gej_rescale a s) = gej_point a"
proof -
  note S = fe_is_self [OF assms(2)]
  have X: "fe_is 4 (gej_x a) (fe_fp (gej_x a))" and Y: "fe_is 4 (gej_y a) (fe_fp (gej_y a))" and Z: "fe_is 1 (gej_z a) (fe_fp (gej_z a))"
    using assms(1) by (simp_all add: gej_ok_def verify_defs fe_is_self)
  have S2: "fe_is 1 (secp256k1_fe_sqr s) (fe_fp s ^ 2)" by (rule fe_is_sqr [OF S]) simp
  have x: "fe_is 1 (secp256k1_fe_mul (gej_x a) (secp256k1_fe_sqr s)) (fe_fp (gej_x a) * fe_fp s ^ 2)"
    by (rule fe_is_mul [OF X S2]) simp_all
  have y: "fe_is 1 (secp256k1_fe_mul (secp256k1_fe_mul (gej_y a) (secp256k1_fe_sqr s)) s) (fe_fp (gej_y a) * fe_fp s ^ 3)"
    by (rule fe_is_cong [OF fe_is_mul [OF fe_is_mul [OF Y S2] S]]) (simp_all add: power3_eq_cube power2_eq_square)
  have z: "fe_is 1 (secp256k1_fe_mul (gej_z a) s) (fe_fp (gej_z a) * fe_fp s)" by (rule fe_is_mul [OF Z S]) simp_all
  have p: "gej_point (secp256k1_gej_rescale a s) = gej_point a"
    using x y z assms(3) by (simp add: secp256k1_gej_rescale_def Let_def gej_point_def fe_is_def power_mult_distrib)
  show ?thesis using p assms x y z fe_magnitude_mono [of 1 _ 4]
    by (simp add: gej_ok_def) (simp add: secp256k1_gej_rescale_def Let_def verify_defs fe_is_def)
qed

section \<open>The endomorphism\<close>

lemma of_int_fp_multiple: "(of_int (a + k * secp256k1_p) :: fp) = of_int a"
  by (simp only: of_int_fp_eq_iff mod_mult_self1)

lemma beta_cube: "fe_is 1 secp256k1_const_beta (fe_fp secp256k1_const_beta)" "fe_fp secp256k1_const_beta ^ 3 = 1"
proof -
  have v: "fe_val secp256k1_const_beta = 55594575648329892869085402983802832744385952214688224221778511981742606582254"
    by (simp add: secp256k1_const_beta_def SECP256K1_FE_CONST_def fe_val_def)
  have "fe_val secp256k1_const_beta * fe_val secp256k1_const_beta * fe_val secp256k1_const_beta = 1 +
      1483946927360417822501274509034672106157015457196489396257941211240901944693221982122235317091394243679439360997738427294840109377245348794059447355367801 *
      secp256k1_p" unfolding v by (simp add: secp256k1_p_def)
  then have "(of_int (fe_val secp256k1_const_beta * fe_val secp256k1_const_beta * fe_val secp256k1_const_beta) :: fp) = of_int 1"
    by (simp only: of_int_fp_multiple)
  then show "fe_fp secp256k1_const_beta ^ 3 = 1" by (simp only: of_int_mult power3_eq_cube of_int_1)
  show "fe_is 1 secp256k1_const_beta (fe_fp secp256k1_const_beta)"
    by (rule fe_is_self) (simp add: secp256k1_const_beta_def SECP256K1_FE_CONST_def fe_magnitude_def)
qed

lemma ge_mul_lambda_correct:
  assumes "ge_ok a"
  shows "ge_ok (secp256k1_ge_mul_lambda a) \<and>
    ge_point (secp256k1_ge_mul_lambda a) = map_option (\<lambda>(x, y). (fe_fp secp256k1_const_beta * x, y)) (ge_point a)"
proof -
  have X: "fe_is 4 (ge_x a) (fe_fp (ge_x a))" using assms by (simp add: ge_ok_def verify_defs fe_is_self)
  have x: "fe_is 1 (secp256k1_fe_mul (ge_x a) secp256k1_const_beta) (fe_fp (ge_x a) * fe_fp secp256k1_const_beta)"
    by (rule fe_is_mul [OF X beta_cube(1)]) simp_all
  show ?thesis using x assms beta_cube(2) fe_magnitude_mono [of 1 _ 4]
    by (auto simp: secp256k1_ge_mul_lambda_def ge_ok_def ge_point_def verify_defs fe_is_def power_mult_distrib)
qed

section \<open>The generator\<close>

lemma generator_ok: "ge_ok secp256k1_ge_const_g" "\<not> ge_infinity secp256k1_ge_const_g"
proof -
  let ?x = "55066263022277343669578718895168534326250603453777594175500187360389116729240 :: int"
  let ?y = "32670510020758816978083085130507043184471273380659243275938904335757337482424 :: int"
  have v: "fe_val (ge_x secp256k1_ge_const_g) = ?x" "fe_val (ge_y secp256k1_ge_const_g) = ?y"
    by (simp_all add: secp256k1_ge_const_g_def SECP256K1_FE_CONST_def fe_val_def)
  have "?x * ?x * ?x + 7 = ?y * ?y +
      1442042049659660869506300006036683750029629333882594701370927246876626245108435922902327776681700708714008192087431130951749952236093997894375239788520937 *
      secp256k1_p" by (simp add: secp256k1_p_def)
  then have "(of_int (?y * ?y) :: fp) = of_int (?x * ?x * ?x + 7)" by (simp only: of_int_fp_multiple)
  then have "fe_fp (ge_y secp256k1_ge_const_g) ^ 2 = fe_fp (ge_x secp256k1_ge_const_g) ^ 3 + 7"
    unfolding v power2_eq_square power3_eq_cube of_int_mult [symmetric] by (simp only: of_int_add of_int_numeral)
  moreover have "secp256k1_ge_verify secp256k1_ge_const_g"
    by (simp add: secp256k1_ge_const_g_def SECP256K1_FE_CONST_def verify_defs fe_magnitude_def)
  ultimately show "ge_ok secp256k1_ge_const_g" by (simp add: ge_ok_def ge_point_def)
  show "\<not> ge_infinity secp256k1_ge_const_g" by (simp add: secp256k1_ge_const_g_def)
qed

end
