(* ===== verification/Scalar_4x64.thy ===== *)
theory Scalar_4x64
  imports Int128 Bytes
begin

text \<open>
  Scalars modulo the group order in four 64-bit limbs: the structure of
  \<open>src/Vendor/secp256k1/src/scalar_4x64.h\<close> and the operations of \<open>scalar_4x64_impl.h\<close> (the portable
  C branch; the x86 assembly branch and the modular inverse are not part of this theory). A routine
  that writes a scalar through a pointer and returns an \<open>int\<close> gives the pair of both. Bit offsets
  and counts, which the callers keep below 512, are natural numbers; the \<open>unsigned int\<close> overflow
  counts stay 32-bit words.
\<close>

unbundle bit_operations_syntax

section \<open>Data\<close>

record secp256k1_scalar =
  sc_d0 :: u64
  sc_d1 :: u64
  sc_d2 :: u64
  sc_d3 :: u64

abbreviation mk_sc :: "u64 \<Rightarrow> u64 \<Rightarrow> u64 \<Rightarrow> u64 \<Rightarrow> secp256k1_scalar" where
  "mk_sc a b c d \<equiv> \<lparr>sc_d0 = a, sc_d1 = b, sc_d2 = c, sc_d3 = d\<rparr>"

definition sc_limbs :: "secp256k1_scalar \<Rightarrow> u64 list" where
  "sc_limbs a = [sc_d0 a, sc_d1 a, sc_d2 a, sc_d3 a]"

definition SECP256K1_SCALAR_CONST ::
    "u32 \<Rightarrow> u32 \<Rightarrow> u32 \<Rightarrow> u32 \<Rightarrow> u32 \<Rightarrow> u32 \<Rightarrow> u32 \<Rightarrow> u32 \<Rightarrow> secp256k1_scalar" where
  "SECP256K1_SCALAR_CONST d7 d6 d5 d4 d3 d2 d1 d0 = mk_sc
     (push_bit 32 (ucast d1) OR ucast d0) (push_bit 32 (ucast d3) OR ucast d2)
     (push_bit 32 (ucast d5) OR ucast d4) (push_bit 32 (ucast d7) OR ucast d6)"

definition SECP256K1_N_0 :: u64 where "SECP256K1_N_0 = 0xBFD25E8CD0364141"
definition SECP256K1_N_1 :: u64 where "SECP256K1_N_1 = 0xBAAEDCE6AF48A03B"
definition SECP256K1_N_2 :: u64 where "SECP256K1_N_2 = 0xFFFFFFFFFFFFFFFE"
definition SECP256K1_N_3 :: u64 where "SECP256K1_N_3 = 0xFFFFFFFFFFFFFFFF"

definition SECP256K1_N_C_0 :: u64 where "SECP256K1_N_C_0 = NOT SECP256K1_N_0 + 1"
definition SECP256K1_N_C_1 :: u64 where "SECP256K1_N_C_1 = NOT SECP256K1_N_1"
definition SECP256K1_N_C_2 :: u64 where "SECP256K1_N_C_2 = 1"

definition SECP256K1_N_H_0 :: u64 where "SECP256K1_N_H_0 = 0xDFE92F46681B20A0"
definition SECP256K1_N_H_1 :: u64 where "SECP256K1_N_H_1 = 0x5D576E7357A4501D"
definition SECP256K1_N_H_2 :: u64 where "SECP256K1_N_H_2 = 0xFFFFFFFFFFFFFFFF"
definition SECP256K1_N_H_3 :: u64 where "SECP256K1_N_H_3 = 0x7FFFFFFFFFFFFFFF"

section \<open>Operations\<close>

definition secp256k1_scalar_set_int :: "u32 \<Rightarrow> secp256k1_scalar" where
  "secp256k1_scalar_set_int v = mk_sc (ucast v) 0 0 0"

definition secp256k1_scalar_get_bits_limb32 :: "secp256k1_scalar \<Rightarrow> nat \<Rightarrow> nat \<Rightarrow> u32" where
  "secp256k1_scalar_get_bits_limb32 a offset count =
     ucast (drop_bit (offset mod 64) (sc_limbs a ! (offset div 64)) AND ucast (drop_bit (32 - count) (0xFFFFFFFF :: u32)))"

definition secp256k1_scalar_get_bits_var :: "secp256k1_scalar \<Rightarrow> nat \<Rightarrow> nat \<Rightarrow> u32" where
  "secp256k1_scalar_get_bits_var a offset count =
    (if (offset + count - 1) div 64 = offset div 64 then secp256k1_scalar_get_bits_limb32 a offset count
     else ucast ((drop_bit (offset mod 64) (sc_limbs a ! (offset div 64)) OR
                  push_bit (64 - offset mod 64) (sc_limbs a ! (offset div 64 + 1))) AND
                 ucast (drop_bit (32 - count) (0xFFFFFFFF :: u32))))"

definition secp256k1_scalar_check_overflow :: "secp256k1_scalar \<Rightarrow> bool" where
  "secp256k1_scalar_check_overflow a =
    (let yes = False; no = False;
         no = (no \<or> sc_d3 a < SECP256K1_N_3);
         no = (no \<or> sc_d2 a < SECP256K1_N_2);
         yes = (yes \<or> (sc_d2 a > SECP256K1_N_2 \<and> \<not> no));
         no = (no \<or> sc_d1 a < SECP256K1_N_1);
         yes = (yes \<or> (sc_d1 a > SECP256K1_N_1 \<and> \<not> no));
         yes = (yes \<or> (sc_d0 a \<ge> SECP256K1_N_0 \<and> \<not> no))
     in yes)"

definition secp256k1_scalar_reduce :: "secp256k1_scalar \<Rightarrow> u32 \<Rightarrow> secp256k1_scalar \<times> u32" where
  "secp256k1_scalar_reduce r overflow =
    (let t = secp256k1_u128_from_u64 (sc_d0 r);
         t = secp256k1_u128_accum_u64 t (ucast overflow * SECP256K1_N_C_0);
         r0 = secp256k1_u128_to_u64 t; t = secp256k1_u128_rshift t 64;
         t = secp256k1_u128_accum_u64 t (sc_d1 r);
         t = secp256k1_u128_accum_u64 t (ucast overflow * SECP256K1_N_C_1);
         r1 = secp256k1_u128_to_u64 t; t = secp256k1_u128_rshift t 64;
         t = secp256k1_u128_accum_u64 t (sc_d2 r);
         t = secp256k1_u128_accum_u64 t (ucast overflow * SECP256K1_N_C_2);
         r2 = secp256k1_u128_to_u64 t; t = secp256k1_u128_rshift t 64;
         t = secp256k1_u128_accum_u64 t (sc_d3 r);
         r3 = secp256k1_u128_to_u64 t
     in (mk_sc r0 r1 r2 r3, overflow))"

definition secp256k1_scalar_add :: "secp256k1_scalar \<Rightarrow> secp256k1_scalar \<Rightarrow> secp256k1_scalar \<times> u32" where
  "secp256k1_scalar_add a b =
    (let t = secp256k1_u128_from_u64 (sc_d0 a);
         t = secp256k1_u128_accum_u64 t (sc_d0 b);
         r0 = secp256k1_u128_to_u64 t; t = secp256k1_u128_rshift t 64;
         t = secp256k1_u128_accum_u64 t (sc_d1 a);
         t = secp256k1_u128_accum_u64 t (sc_d1 b);
         r1 = secp256k1_u128_to_u64 t; t = secp256k1_u128_rshift t 64;
         t = secp256k1_u128_accum_u64 t (sc_d2 a);
         t = secp256k1_u128_accum_u64 t (sc_d2 b);
         r2 = secp256k1_u128_to_u64 t; t = secp256k1_u128_rshift t 64;
         t = secp256k1_u128_accum_u64 t (sc_d3 a);
         t = secp256k1_u128_accum_u64 t (sc_d3 b);
         r3 = secp256k1_u128_to_u64 t; t = secp256k1_u128_rshift t 64;
         r = mk_sc r0 r1 r2 r3;
         overflow = ucast (secp256k1_u128_to_u64 t + b2w (secp256k1_scalar_check_overflow r)) :: u32;
         (r, _) = secp256k1_scalar_reduce r overflow
     in (r, overflow))"

definition secp256k1_scalar_cadd_bit :: "secp256k1_scalar \<Rightarrow> u32 \<Rightarrow> bool \<Rightarrow> secp256k1_scalar" where
  "secp256k1_scalar_cadd_bit r bitpos flag =
    (let bitpos = bitpos + ((b2w flag - 1) AND 0x100);
         pos = unat (bitpos AND 0x3F);
         t = secp256k1_u128_from_u64 (sc_d0 r);
         t = secp256k1_u128_accum_u64 t (push_bit pos (b2w (drop_bit 6 bitpos = 0)));
         r0 = secp256k1_u128_to_u64 t; t = secp256k1_u128_rshift t 64;
         t = secp256k1_u128_accum_u64 t (sc_d1 r);
         t = secp256k1_u128_accum_u64 t (push_bit pos (b2w (drop_bit 6 bitpos = 1)));
         r1 = secp256k1_u128_to_u64 t; t = secp256k1_u128_rshift t 64;
         t = secp256k1_u128_accum_u64 t (sc_d2 r);
         t = secp256k1_u128_accum_u64 t (push_bit pos (b2w (drop_bit 6 bitpos = 2)));
         r2 = secp256k1_u128_to_u64 t; t = secp256k1_u128_rshift t 64;
         t = secp256k1_u128_accum_u64 t (sc_d3 r);
         t = secp256k1_u128_accum_u64 t (push_bit pos (b2w (drop_bit 6 bitpos = 3)));
         r3 = secp256k1_u128_to_u64 t
     in mk_sc r0 r1 r2 r3)"

definition secp256k1_scalar_set_b32 :: "bytes \<Rightarrow> secp256k1_scalar \<times> bool" where
  "secp256k1_scalar_set_b32 b32 =
    (let r = mk_sc (secp256k1_read_be64 (drop 24 b32)) (secp256k1_read_be64 (drop 16 b32))
                   (secp256k1_read_be64 (drop 8 b32)) (secp256k1_read_be64 b32);
         (r, over) = secp256k1_scalar_reduce r (b2w (secp256k1_scalar_check_overflow r))
     in (r, over \<noteq> 0))"

definition secp256k1_scalar_get_b32 :: "secp256k1_scalar \<Rightarrow> bytes" where
  "secp256k1_scalar_get_b32 a =
     secp256k1_write_be64 (sc_d3 a) @ secp256k1_write_be64 (sc_d2 a) @
     secp256k1_write_be64 (sc_d1 a) @ secp256k1_write_be64 (sc_d0 a)"

definition secp256k1_scalar_is_zero :: "secp256k1_scalar \<Rightarrow> bool" where
  "secp256k1_scalar_is_zero a \<longleftrightarrow> (sc_d0 a OR sc_d1 a OR sc_d2 a OR sc_d3 a) = 0"

definition secp256k1_scalar_negate :: "secp256k1_scalar \<Rightarrow> secp256k1_scalar" where
  "secp256k1_scalar_negate a =
    (let nonzero = 0xFFFFFFFFFFFFFFFF * b2w (\<not> secp256k1_scalar_is_zero a);
         t = secp256k1_u128_from_u64 (NOT (sc_d0 a));
         t = secp256k1_u128_accum_u64 t (SECP256K1_N_0 + 1);
         r0 = secp256k1_u128_to_u64 t AND nonzero; t = secp256k1_u128_rshift t 64;
         t = secp256k1_u128_accum_u64 t (NOT (sc_d1 a));
         t = secp256k1_u128_accum_u64 t SECP256K1_N_1;
         r1 = secp256k1_u128_to_u64 t AND nonzero; t = secp256k1_u128_rshift t 64;
         t = secp256k1_u128_accum_u64 t (NOT (sc_d2 a));
         t = secp256k1_u128_accum_u64 t SECP256K1_N_2;
         r2 = secp256k1_u128_to_u64 t AND nonzero; t = secp256k1_u128_rshift t 64;
         t = secp256k1_u128_accum_u64 t (NOT (sc_d3 a));
         t = secp256k1_u128_accum_u64 t SECP256K1_N_3;
         r3 = secp256k1_u128_to_u64 t AND nonzero
     in mk_sc r0 r1 r2 r3)"

definition secp256k1_scalar_half :: "secp256k1_scalar \<Rightarrow> secp256k1_scalar" where
  "secp256k1_scalar_half a =
    (let mask = - (sc_d0 a AND 1);
         t = secp256k1_u128_from_u64 (drop_bit 1 (sc_d0 a) OR push_bit 63 (sc_d1 a));
         t = secp256k1_u128_accum_u64 t ((SECP256K1_N_H_0 + 1) AND mask);
         r0 = secp256k1_u128_to_u64 t; t = secp256k1_u128_rshift t 64;
         t = secp256k1_u128_accum_u64 t (drop_bit 1 (sc_d1 a) OR push_bit 63 (sc_d2 a));
         t = secp256k1_u128_accum_u64 t (SECP256K1_N_H_1 AND mask);
         r1 = secp256k1_u128_to_u64 t; t = secp256k1_u128_rshift t 64;
         t = secp256k1_u128_accum_u64 t (drop_bit 1 (sc_d2 a) OR push_bit 63 (sc_d3 a));
         t = secp256k1_u128_accum_u64 t (SECP256K1_N_H_2 AND mask);
         r2 = secp256k1_u128_to_u64 t; t = secp256k1_u128_rshift t 64;
         r3 = secp256k1_u128_to_u64 t + drop_bit 1 (sc_d3 a) + (SECP256K1_N_H_3 AND mask)
     in mk_sc r0 r1 r2 r3)"

definition secp256k1_scalar_is_one :: "secp256k1_scalar \<Rightarrow> bool" where
  "secp256k1_scalar_is_one a \<longleftrightarrow> ((sc_d0 a XOR 1) OR sc_d1 a OR sc_d2 a OR sc_d3 a) = 0"

definition secp256k1_scalar_is_high :: "secp256k1_scalar \<Rightarrow> bool" where
  "secp256k1_scalar_is_high a =
    (let yes = False; no = False;
         no = (no \<or> sc_d3 a < SECP256K1_N_H_3);
         yes = (yes \<or> (sc_d3 a > SECP256K1_N_H_3 \<and> \<not> no));
         no = (no \<or> (sc_d2 a < SECP256K1_N_H_2 \<and> \<not> yes));
         no = (no \<or> (sc_d1 a < SECP256K1_N_H_1 \<and> \<not> yes));
         yes = (yes \<or> (sc_d1 a > SECP256K1_N_H_1 \<and> \<not> no));
         yes = (yes \<or> (sc_d0 a > SECP256K1_N_H_0 \<and> \<not> no))
     in yes)"

definition secp256k1_scalar_cond_negate :: "secp256k1_scalar \<Rightarrow> bool \<Rightarrow> secp256k1_scalar \<times> int" where
  "secp256k1_scalar_cond_negate r flag =
    (let mask = - b2w flag :: u64;
         nonzero = b2w (secp256k1_scalar_is_zero r) - 1;
         t = secp256k1_u128_from_u64 (sc_d0 r XOR mask);
         t = secp256k1_u128_accum_u64 t ((SECP256K1_N_0 + 1) AND mask);
         r0 = secp256k1_u128_to_u64 t AND nonzero; t = secp256k1_u128_rshift t 64;
         t = secp256k1_u128_accum_u64 t (sc_d1 r XOR mask);
         t = secp256k1_u128_accum_u64 t (SECP256K1_N_1 AND mask);
         r1 = secp256k1_u128_to_u64 t AND nonzero; t = secp256k1_u128_rshift t 64;
         t = secp256k1_u128_accum_u64 t (sc_d2 r XOR mask);
         t = secp256k1_u128_accum_u64 t (SECP256K1_N_2 AND mask);
         r2 = secp256k1_u128_to_u64 t AND nonzero; t = secp256k1_u128_rshift t 64;
         t = secp256k1_u128_accum_u64 t (sc_d3 r XOR mask);
         t = secp256k1_u128_accum_u64 t (SECP256K1_N_3 AND mask);
         r3 = secp256k1_u128_to_u64 t AND nonzero
     in (mk_sc r0 r1 r2 r3, 2 * of_bool (mask = 0) - 1))"

text \<open>
  The accumulator macros work on the variables \<open>(c0, c1, c2)\<close>; \<open>c2\<close> is 64 bits wide in
  \<open>secp256k1_scalar_reduce_512\<close> and 32 bits in \<open>secp256k1_scalar_mul_512\<close>, hence the word-length
  parameter. The macro \<open>extract(n)\<close> is the assignment \<open>n = c0\<close> (the first component) and the shift.
\<close>

definition muladd :: "u64 \<Rightarrow> u64 \<Rightarrow> u64 \<times> u64 \<times> 'a::len word \<Rightarrow> u64 \<times> u64 \<times> 'a word" where
  "muladd a b = (\<lambda>(c0, c1, c2).
    let t = secp256k1_u128_mul a b; th = secp256k1_u128_hi_u64 t; tl = secp256k1_u128_to_u64 t;
        c0 = c0 + tl; th = th + b2w (c0 < tl); c1 = c1 + th; c2 = c2 + b2w (c1 < th)
    in (c0, c1, c2))"

definition muladd_fast :: "u64 \<Rightarrow> u64 \<Rightarrow> u64 \<times> u64 \<times> 'a::len word \<Rightarrow> u64 \<times> u64 \<times> 'a word" where
  "muladd_fast a b = (\<lambda>(c0, c1, c2).
    let t = secp256k1_u128_mul a b; th = secp256k1_u128_hi_u64 t; tl = secp256k1_u128_to_u64 t;
        c0 = c0 + tl; th = th + b2w (c0 < tl); c1 = c1 + th
    in (c0, c1, c2))"

definition sumadd :: "u64 \<Rightarrow> u64 \<times> u64 \<times> 'a::len word \<Rightarrow> u64 \<times> u64 \<times> 'a word" where
  "sumadd a = (\<lambda>(c0, c1, c2).
    let c0 = c0 + a; over = b2w (c0 < a); c1 = c1 + over; c2 = c2 + b2w (c1 < over)
    in (c0, c1, c2))"

definition sumadd_fast :: "u64 \<Rightarrow> u64 \<times> u64 \<times> 'a::len word \<Rightarrow> u64 \<times> u64 \<times> 'a word" where
  "sumadd_fast a = (\<lambda>(c0, c1, c2). let c0 = c0 + a; c1 = c1 + b2w (c0 < a) in (c0, c1, c2))"

definition extract_full :: "u64 \<times> u64 \<times> 'a::len word \<Rightarrow> u64 \<times> u64 \<times> 'a word" where
  "extract_full = (\<lambda>(c0, c1, c2). (c1, ucast c2, 0))"

definition extract_fast :: "u64 \<times> u64 \<times> 'a::len word \<Rightarrow> u64 \<times> u64 \<times> 'a word" where
  "extract_fast = (\<lambda>(c0, c1, c2). (c1, 0, c2))"

text \<open>The three blocks of \<open>secp256k1_scalar_reduce_512\<close>, named after the comments that head them.\<close>

definition reduce_512_into_385 :: "u64 list \<Rightarrow> u64 \<times> u64 \<times> u64 \<times> u64 \<times> u64 \<times> u64 \<times> u32" where
  "reduce_512_into_385 l =
    (let n0 = l ! 4; n1 = l ! 5; n2 = l ! 6; n3 = l ! 7;
         c = (l ! 0, 0, 0 :: u64);
         c = muladd_fast n0 SECP256K1_N_C_0 c;
         m0 = fst c; c = extract_fast c;
         c = sumadd_fast (l ! 1) c;
         c = muladd n1 SECP256K1_N_C_0 c;
         c = muladd n0 SECP256K1_N_C_1 c;
         m1 = fst c; c = extract_full c;
         c = sumadd (l ! 2) c;
         c = muladd n2 SECP256K1_N_C_0 c;
         c = muladd n1 SECP256K1_N_C_1 c;
         c = sumadd n0 c;
         m2 = fst c; c = extract_full c;
         c = sumadd (l ! 3) c;
         c = muladd n3 SECP256K1_N_C_0 c;
         c = muladd n2 SECP256K1_N_C_1 c;
         c = sumadd n1 c;
         m3 = fst c; c = extract_full c;
         c = muladd n3 SECP256K1_N_C_1 c;
         c = sumadd n2 c;
         m4 = fst c; c = extract_full c;
         c = sumadd_fast n3 c;
         m5 = fst c; c = extract_fast c;
         m6 = ucast (fst c)
     in (m0, m1, m2, m3, m4, m5, m6))"

definition reduce_385_into_258 ::
    "u64 \<times> u64 \<times> u64 \<times> u64 \<times> u64 \<times> u64 \<times> u32 \<Rightarrow> u64 \<times> u64 \<times> u64 \<times> u64 \<times> u32" where
  "reduce_385_into_258 = (\<lambda>(m0, m1, m2, m3, m4, m5, m6).
    (let c = (m0, 0, 0 :: u64);
         c = muladd_fast m4 SECP256K1_N_C_0 c;
         p0 = fst c; c = extract_fast c;
         c = sumadd_fast m1 c;
         c = muladd m5 SECP256K1_N_C_0 c;
         c = muladd m4 SECP256K1_N_C_1 c;
         p1 = fst c; c = extract_full c;
         c = sumadd m2 c;
         c = muladd (ucast m6) SECP256K1_N_C_0 c;
         c = muladd m5 SECP256K1_N_C_1 c;
         c = sumadd m4 c;
         p2 = fst c; c = extract_full c;
         c = sumadd_fast m3 c;
         c = muladd_fast (ucast m6) SECP256K1_N_C_1 c;
         c = sumadd_fast m5 c;
         p3 = fst c; c = extract_fast c;
         p4 = ucast (fst c + ucast m6)
     in (p0, p1, p2, p3, p4)))"

definition reduce_258_into_256 :: "u64 \<times> u64 \<times> u64 \<times> u64 \<times> u32 \<Rightarrow> secp256k1_scalar \<times> u64" where
  "reduce_258_into_256 = (\<lambda>(p0, p1, p2, p3, p4).
    (let c128 = secp256k1_u128_from_u64 p0;
         c128 = secp256k1_u128_accum_mul c128 SECP256K1_N_C_0 (ucast p4);
         r0 = secp256k1_u128_to_u64 c128; c128 = secp256k1_u128_rshift c128 64;
         c128 = secp256k1_u128_accum_u64 c128 p1;
         c128 = secp256k1_u128_accum_mul c128 SECP256K1_N_C_1 (ucast p4);
         r1 = secp256k1_u128_to_u64 c128; c128 = secp256k1_u128_rshift c128 64;
         c128 = secp256k1_u128_accum_u64 c128 p2;
         c128 = secp256k1_u128_accum_u64 c128 (ucast p4);
         r2 = secp256k1_u128_to_u64 c128; c128 = secp256k1_u128_rshift c128 64;
         c128 = secp256k1_u128_accum_u64 c128 p3;
         r3 = secp256k1_u128_to_u64 c128;
         c = secp256k1_u128_hi_u64 c128
     in (mk_sc r0 r1 r2 r3, c)))"

definition secp256k1_scalar_reduce_512 :: "u64 list \<Rightarrow> secp256k1_scalar" where
  "secp256k1_scalar_reduce_512 l =
    (let m = reduce_512_into_385 l;
         p = reduce_385_into_258 m;
         (r, c) = reduce_258_into_256 p
     in fst (secp256k1_scalar_reduce r (ucast (c + b2w (secp256k1_scalar_check_overflow r)))))"

definition secp256k1_scalar_mul_512 :: "secp256k1_scalar \<Rightarrow> secp256k1_scalar \<Rightarrow> u64 list" where
  "secp256k1_scalar_mul_512 a b =
    (let c = (0, 0, 0 :: u32);
         c = muladd_fast (sc_d0 a) (sc_d0 b) c;
         l0 = fst c; c = extract_fast c;
         c = muladd (sc_d0 a) (sc_d1 b) c;
         c = muladd (sc_d1 a) (sc_d0 b) c;
         l1 = fst c; c = extract_full c;
         c = muladd (sc_d0 a) (sc_d2 b) c;
         c = muladd (sc_d1 a) (sc_d1 b) c;
         c = muladd (sc_d2 a) (sc_d0 b) c;
         l2 = fst c; c = extract_full c;
         c = muladd (sc_d0 a) (sc_d3 b) c;
         c = muladd (sc_d1 a) (sc_d2 b) c;
         c = muladd (sc_d2 a) (sc_d1 b) c;
         c = muladd (sc_d3 a) (sc_d0 b) c;
         l3 = fst c; c = extract_full c;
         c = muladd (sc_d1 a) (sc_d3 b) c;
         c = muladd (sc_d2 a) (sc_d2 b) c;
         c = muladd (sc_d3 a) (sc_d1 b) c;
         l4 = fst c; c = extract_full c;
         c = muladd (sc_d2 a) (sc_d3 b) c;
         c = muladd (sc_d3 a) (sc_d2 b) c;
         l5 = fst c; c = extract_full c;
         c = muladd_fast (sc_d3 a) (sc_d3 b) c;
         l6 = fst c; c = extract_fast c;
         l7 = fst c
     in [l0, l1, l2, l3, l4, l5, l6, l7])"

definition secp256k1_scalar_mul :: "secp256k1_scalar \<Rightarrow> secp256k1_scalar \<Rightarrow> secp256k1_scalar" where
  "secp256k1_scalar_mul a b = secp256k1_scalar_reduce_512 (secp256k1_scalar_mul_512 a b)"

definition secp256k1_scalar_split_128 :: "secp256k1_scalar \<Rightarrow> secp256k1_scalar \<times> secp256k1_scalar" where
  "secp256k1_scalar_split_128 k = (mk_sc (sc_d0 k) (sc_d1 k) 0 0, mk_sc (sc_d2 k) (sc_d3 k) 0 0)"

definition secp256k1_scalar_eq :: "secp256k1_scalar \<Rightarrow> secp256k1_scalar \<Rightarrow> bool" where
  "secp256k1_scalar_eq a b \<longleftrightarrow>
     ((sc_d0 a XOR sc_d0 b) OR (sc_d1 a XOR sc_d1 b) OR (sc_d2 a XOR sc_d2 b) OR (sc_d3 a XOR sc_d3 b)) = 0"

definition secp256k1_scalar_mul_shift_var ::
    "secp256k1_scalar \<Rightarrow> secp256k1_scalar \<Rightarrow> nat \<Rightarrow> secp256k1_scalar" where
  "secp256k1_scalar_mul_shift_var a b shift =
    (let l = secp256k1_scalar_mul_512 a b;
         shiftlimbs = shift div 64; shiftlow = shift mod 64; shifthigh = 64 - shiftlow;
         r0 = if shift < 512 then drop_bit shiftlow (l ! (0 + shiftlimbs)) OR
                (if shift < 448 \<and> shiftlow \<noteq> 0 then push_bit shifthigh (l ! (1 + shiftlimbs)) else 0) else 0;
         r1 = if shift < 448 then drop_bit shiftlow (l ! (1 + shiftlimbs)) OR
                (if shift < 384 \<and> shiftlow \<noteq> 0 then push_bit shifthigh (l ! (2 + shiftlimbs)) else 0) else 0;
         r2 = if shift < 384 then drop_bit shiftlow (l ! (2 + shiftlimbs)) OR
                (if shift < 320 \<and> shiftlow \<noteq> 0 then push_bit shifthigh (l ! (3 + shiftlimbs)) else 0) else 0;
         r3 = if shift < 320 then drop_bit shiftlow (l ! (3 + shiftlimbs)) else 0
     in secp256k1_scalar_cadd_bit (mk_sc r0 r1 r2 r3) 0
          (drop_bit ((shift - 1) mod 64) (l ! ((shift - 1) div 64)) AND 1 \<noteq> 0))"

definition secp256k1_scalar_cmov :: "secp256k1_scalar \<Rightarrow> secp256k1_scalar \<Rightarrow> bool \<Rightarrow> secp256k1_scalar" where
  "secp256k1_scalar_cmov r a flag =
    (let mask0 = b2w flag + NOT 0; mask1 = NOT mask0
     in mk_sc ((sc_d0 r AND mask0) OR (sc_d0 a AND mask1)) ((sc_d1 r AND mask0) OR (sc_d1 a AND mask1))
              ((sc_d2 r AND mask0) OR (sc_d2 a AND mask1)) ((sc_d3 r AND mask0) OR (sc_d3 a AND mask1)))"

definition secp256k1_scalar_is_even :: "secp256k1_scalar \<Rightarrow> bool" where
  "secp256k1_scalar_is_even a \<longleftrightarrow> sc_d0 a AND 1 = 0"

section \<open>The integer a scalar stands for\<close>

definition secp256k1_n :: int where
  "secp256k1_n = 0xFFFFFFFFFFFFFFFFFFFFFFFFFFFFFFFEBAAEDCE6AF48A03BBFD25E8CD0364141"

definition sc_val :: "secp256k1_scalar \<Rightarrow> int" where
  "sc_val a = uint (sc_d0 a) + 2 ^ 64 * uint (sc_d1 a) + 2 ^ 128 * uint (sc_d2 a) + 2 ^ 192 * uint (sc_d3 a)"

text \<open>The invariant \<open>secp256k1_scalar_verify\<close> checks: a scalar is fully reduced.\<close>

definition secp256k1_scalar_verify :: "secp256k1_scalar \<Rightarrow> bool" where
  "secp256k1_scalar_verify r \<longleftrightarrow> \<not> secp256k1_scalar_check_overflow r"

end
