(* ===== verification/Scalar_4x64_Ops.thy ===== *)
theory Scalar_4x64_Ops
  imports Scalar_4x64
begin

text \<open>
  Correctness of the linear scalar operations: comparison with the order, conditional subtraction,
  addition, negation, halving, conversion to and from bytes, conditional moves. All of them add two
  four-limb numbers with a 128-bit carry; \<open>carry4\<close> is that chain, proved exact once.
\<close>

unbundle bit_operations_syntax

section \<open>Limbs\<close>

lemma sc_val_bounds: "0 \<le> sc_val a" "sc_val a < 2 ^ 256"
  using u64_bounds [of "sc_d0 a"] u64_bounds [of "sc_d1 a"] u64_bounds [of "sc_d2 a"] u64_bounds [of "sc_d3 a"]
  by (simp_all add: sc_val_def)

lemma sc_val_inj: "sc_val a = sc_val b \<Longrightarrow> a = b"
proof -
  assume eq: "sc_val a = sc_val b"
  have h: "sc_val x = uint (sc_d0 x) + 2 ^ 64 * (uint (sc_d1 x) + 2 ^ 64 * (uint (sc_d2 x) + 2 ^ 64 * uint (sc_d3 x)))" for x
    by (simp add: sc_val_def)
  have 1: "uint (sc_d0 a) = uint (sc_d0 b) \<and> uint (sc_d1 a) + 2 ^ 64 * (uint (sc_d2 a) + 2 ^ 64 * uint (sc_d3 a)) =
      uint (sc_d1 b) + 2 ^ 64 * (uint (sc_d2 b) + 2 ^ 64 * uint (sc_d3 b))"
    using eq unfolding h by (rule base_inj) (use u64_bounds in simp_all)
  have 2: "uint (sc_d1 a) = uint (sc_d1 b) \<and> uint (sc_d2 a) + 2 ^ 64 * uint (sc_d3 a) = uint (sc_d2 b) + 2 ^ 64 * uint (sc_d3 b)"
    using conjunct2 [OF 1] by (rule base_inj) (use u64_bounds in simp_all)
  have 3: "uint (sc_d2 a) = uint (sc_d2 b) \<and> uint (sc_d3 a) = uint (sc_d3 b)"
    using conjunct2 [OF 2] by (rule base_inj) (use u64_bounds in simp_all)
  show "a = b" using 1 2 3 by (simp add: word_uint_eq_iff)
qed

lemma N_limbs:
  "uint SECP256K1_N_0 = 0xBFD25E8CD0364141" "uint SECP256K1_N_1 = 0xBAAEDCE6AF48A03B"
  "uint SECP256K1_N_2 = 0xFFFFFFFFFFFFFFFE" "uint SECP256K1_N_3 = 0xFFFFFFFFFFFFFFFF"
  "uint SECP256K1_N_H_0 = 0xDFE92F46681B20A0" "uint SECP256K1_N_H_1 = 0x5D576E7357A4501D"
  "uint SECP256K1_N_H_2 = 0xFFFFFFFFFFFFFFFF" "uint SECP256K1_N_H_3 = 0x7FFFFFFFFFFFFFFF"
  by (simp_all add: SECP256K1_N_0_def SECP256K1_N_1_def SECP256K1_N_2_def SECP256K1_N_3_def
    SECP256K1_N_H_0_def SECP256K1_N_H_1_def SECP256K1_N_H_2_def SECP256K1_N_H_3_def)

lemma N_C_limbs:
  "uint SECP256K1_N_C_0 = 0x402DA1732FC9BEBF" "uint SECP256K1_N_C_1 = 0x4551231950B75FC4" "uint SECP256K1_N_C_2 = 1"
  by (simp_all add: SECP256K1_N_C_0_def SECP256K1_N_C_1_def SECP256K1_N_C_2_def SECP256K1_N_0_def SECP256K1_N_1_def)

section \<open>Comparison with the order\<close>

lemma order_lex:
  assumes "0 \<le> a0" "a0 < 2 ^ 64" "0 \<le> a1" "a1 < 2 ^ 64" "0 \<le> a2" "a2 < 2 ^ 64" "0 \<le> a3" "a3 < 2 ^ 64"
  shows "secp256k1_n \<le> a0 + 2 ^ 64 * a1 + 2 ^ 128 * a2 + 2 ^ 192 * a3 \<longleftrightarrow>
      a3 = 0xFFFFFFFFFFFFFFFF \<and> (a2 > 0xFFFFFFFFFFFFFFFE \<or> a2 = 0xFFFFFFFFFFFFFFFE \<and>
        (a1 > 0xBAAEDCE6AF48A03B \<or> a1 = 0xBAAEDCE6AF48A03B \<and> a0 \<ge> 0xBFD25E8CD0364141))"
    and "secp256k1_n div 2 < a0 + 2 ^ 64 * a1 + 2 ^ 128 * a2 + 2 ^ 192 * a3 \<longleftrightarrow>
      a3 > 0x7FFFFFFFFFFFFFFF \<or> a3 = 0x7FFFFFFFFFFFFFFF \<and> a2 = 0xFFFFFFFFFFFFFFFF \<and>
        (a1 > 0x5D576E7357A4501D \<or> a1 = 0x5D576E7357A4501D \<and> a0 > 0xDFE92F46681B20A0)"
  using assms unfolding secp256k1_n_def by auto

lemma check_overflow_iff: "secp256k1_scalar_check_overflow a \<longleftrightarrow> secp256k1_n \<le> sc_val a"
proof -
  have "secp256k1_scalar_check_overflow a \<longleftrightarrow>
      uint (sc_d3 a) = 0xFFFFFFFFFFFFFFFF \<and> (uint (sc_d2 a) > 0xFFFFFFFFFFFFFFFE \<or> uint (sc_d2 a) = 0xFFFFFFFFFFFFFFFE \<and>
        (uint (sc_d1 a) > 0xBAAEDCE6AF48A03B \<or> uint (sc_d1 a) = 0xBAAEDCE6AF48A03B \<and> uint (sc_d0 a) \<ge> 0xBFD25E8CD0364141))"
    using u64_bounds [of "sc_d3 a"] u64_bounds [of "sc_d2 a"]
    unfolding secp256k1_scalar_check_overflow_def Let_def word_less_def word_le_def N_limbs by auto
  also have "\<dots> \<longleftrightarrow> secp256k1_n \<le> sc_val a"
    using u64_bounds [of "sc_d3 a"] u64_bounds [of "sc_d2 a"] u64_bounds [of "sc_d1 a"] u64_bounds [of "sc_d0 a"]
    unfolding sc_val_def by (subst order_lex) simp_all
  finally show ?thesis .
qed

lemma scalar_verify_iff: "secp256k1_scalar_verify a \<longleftrightarrow> sc_val a < secp256k1_n"
  by (auto simp: secp256k1_scalar_verify_def check_overflow_iff)

lemma is_high_iff: "secp256k1_scalar_is_high a \<longleftrightarrow> secp256k1_n div 2 < sc_val a"
proof -
  have "secp256k1_scalar_is_high a \<longleftrightarrow>
      uint (sc_d3 a) > 0x7FFFFFFFFFFFFFFF \<or> uint (sc_d3 a) = 0x7FFFFFFFFFFFFFFF \<and> uint (sc_d2 a) = 0xFFFFFFFFFFFFFFFF \<and>
        (uint (sc_d1 a) > 0x5D576E7357A4501D \<or> uint (sc_d1 a) = 0x5D576E7357A4501D \<and> uint (sc_d0 a) > 0xDFE92F46681B20A0)"
    using u64_bounds [of "sc_d3 a"] u64_bounds [of "sc_d2 a"]
    unfolding secp256k1_scalar_is_high_def Let_def word_less_def N_limbs by auto
  also have "\<dots> \<longleftrightarrow> secp256k1_n div 2 < sc_val a"
    using u64_bounds [of "sc_d3 a"] u64_bounds [of "sc_d2 a"] u64_bounds [of "sc_d1 a"] u64_bounds [of "sc_d0 a"]
    unfolding sc_val_def by (subst order_lex) simp_all
  finally show ?thesis .
qed

lemma scalar_is_zero_iff: "secp256k1_scalar_is_zero a \<longleftrightarrow> sc_val a = 0"
  unfolding secp256k1_scalar_is_zero_def sc_val_def
  by (simp add: or_eq_0_iff add_nonneg_eq_0_iff) (simp add: word_uint_eq_iff)

lemma scalar_eq_iff: "secp256k1_scalar_eq a b \<longleftrightarrow> a = b"
  by (cases a, cases b) (simp add: secp256k1_scalar_eq_def or_eq_0_iff xor_eq_iff)

section \<open>Carry chains\<close>

definition carry4 :: "u64 \<times> u64 \<Rightarrow> u64 \<times> u64 \<Rightarrow> u64 \<times> u64 \<Rightarrow> u64 \<times> u64 \<Rightarrow> secp256k1_scalar \<times> u128" where
  "carry4 x0 x1 x2 x3 =
    (let step = (\<lambda>t (x, y). secp256k1_u128_accum_u64 (secp256k1_u128_accum_u64 (secp256k1_u128_rshift t 64) x) y);
         t0 = secp256k1_u128_accum_u64 (secp256k1_u128_from_u64 (fst x0)) (snd x0);
         t1 = step t0 x1; t2 = step t1 x2; t3 = step t2 x3
     in (mk_sc (secp256k1_u128_to_u64 t0) (secp256k1_u128_to_u64 t1) (secp256k1_u128_to_u64 t2) (secp256k1_u128_to_u64 t3),
         secp256k1_u128_rshift t3 64))"

lemma accum_step:
  "uint (secp256k1_u128_accum_u64 (secp256k1_u128_accum_u64 (secp256k1_u128_rshift t 64) x) y) =
     uint t div 2 ^ 64 + uint x + uint y"
proof -
  have "uint t div 2 ^ 64 < 2 ^ 64" using div_pow_less [of "uint t" 128 64] uint_lt2p [of t] by simp
  then show ?thesis
    using u64_bounds [of x] u64_bounds [of y] by (simp add: uint_u128_accum_u64)
qed

lemma carry4_val:
  "sc_val (fst (carry4 (x0, y0) (x1, y1) (x2, y2) (x3, y3))) + 2 ^ 256 * uint (snd (carry4 (x0, y0) (x1, y1) (x2, y2) (x3, y3))) =
     uint x0 + uint y0 + 2 ^ 64 * (uint x1 + uint y1) + 2 ^ 128 * (uint x2 + uint y2) + 2 ^ 192 * (uint x3 + uint y3)"
proof -
  have t0: "uint (secp256k1_u128_accum_u64 (secp256k1_u128_from_u64 x0) y0) = uint x0 + uint y0"
    using u64_bounds [of x0] u64_bounds [of y0] by (simp add: uint_u128_accum_u64)
  show ?thesis
    unfolding carry4_def Let_def prod.case fst_conv snd_conv sc_val_def
    by (simp add: accum_step t0 mod_as_div [of _ 64, simplified])
qed

lemma carry4_low:
  "sc_val (fst (carry4 (x0, y0) (x1, y1) (x2, y2) (x3, y3))) =
     (uint x0 + uint y0 + 2 ^ 64 * (uint x1 + uint y1) + 2 ^ 128 * (uint x2 + uint y2) + 2 ^ 192 * (uint x3 + uint y3)) mod 2 ^ 256"
  unfolding carry4_val [symmetric] using sc_val_bounds by simp

lemma accum_u64_0 [simp]: "secp256k1_u128_accum_u64 t 0 = t"
  by (simp add: secp256k1_u128_accum_u64_def)

section \<open>Reduction and addition\<close>

lemma mod_sub_once: "x mod m = x - of_bool (m \<le> x) * m" if "0 \<le> x" "x < 2 * m" for x m :: int
proof (cases "m \<le> x")
  case True
  then have "x mod m = (x - m) mod m" by simp
  also have "\<dots> = x - m" using True that by (intro mod_pos_pos_trivial) simp_all
  finally show ?thesis using True by simp
qed (use that in simp)

lemma reduce_carry4:
  "secp256k1_scalar_reduce r ov =
    (fst (carry4 (sc_d0 r, ucast ov * SECP256K1_N_C_0) (sc_d1 r, ucast ov * SECP256K1_N_C_1)
       (sc_d2 r, ucast ov * SECP256K1_N_C_2) (sc_d3 r, 0)), ov)"
  by (simp add: secp256k1_scalar_reduce_def carry4_def Let_def)

lemma ucast_b2w [simp]: "ucast (b2w b :: 'a::len word) = (b2w b :: 'b::len word)"
  by (simp add: b2w_def)

lemma reduce_val:
  "sc_val (fst (secp256k1_scalar_reduce r (b2w b))) = (sc_val r - of_bool b * secp256k1_n) mod 2 ^ 256"
proof -
  have "sc_val (fst (secp256k1_scalar_reduce r (b2w b))) = (sc_val r - of_bool b * secp256k1_n + of_bool b * 2 ^ 256) mod 2 ^ 256"
    unfolding reduce_carry4 fst_conv carry4_low
    by (rule arg_cong [of _ _ "\<lambda>x. x mod 2 ^ 256"]) (cases b; simp add: N_C_limbs secp256k1_n_def sc_val_def)
  then show ?thesis by simp
qed

lemma reduce_once:
  "sc_val (fst (secp256k1_scalar_reduce r (b2w (secp256k1_scalar_check_overflow r)))) = sc_val r mod secp256k1_n"
proof -
  have "sc_val r mod secp256k1_n = sc_val r - of_bool (secp256k1_n \<le> sc_val r) * secp256k1_n"
    by (rule mod_sub_once) (use sc_val_bounds [of r] in \<open>simp_all add: secp256k1_n_def\<close>)
  moreover have "0 \<le> sc_val r mod secp256k1_n" "sc_val r mod secp256k1_n < 2 ^ 256"
    using pos_mod_bound [of secp256k1_n "sc_val r"] by (simp_all add: secp256k1_n_def)
  ultimately show ?thesis by (simp add: reduce_val check_overflow_iff)
qed

lemma add_carry4:
  "secp256k1_scalar_add a b =
    (let c = carry4 (sc_d0 a, sc_d0 b) (sc_d1 a, sc_d1 b) (sc_d2 a, sc_d2 b) (sc_d3 a, sc_d3 b);
         ov = ucast (secp256k1_u128_to_u64 (snd c) + b2w (secp256k1_scalar_check_overflow (fst c)))
     in (fst (secp256k1_scalar_reduce (fst c) ov), ov))"
  by (simp add: secp256k1_scalar_add_def carry4_def Let_def split_beta)

lemma scalar_add_correct:
  assumes "secp256k1_scalar_verify a" "secp256k1_scalar_verify b"
  shows "sc_val (fst (secp256k1_scalar_add a b)) = (sc_val a + sc_val b) mod secp256k1_n"
    and "snd (secp256k1_scalar_add a b) = b2w (secp256k1_n \<le> sc_val a + sc_val b)"
proof -
  define c where "c = carry4 (sc_d0 a, sc_d0 b) (sc_d1 a, sc_d1 b) (sc_d2 a, sc_d2 b) (sc_d3 a, sc_d3 b)"
  have v: "sc_val (fst c) + 2 ^ 256 * uint (snd c) = sc_val a + sc_val b"
    unfolding c_def carry4_val by (simp add: sc_val_def)
  have ab: "0 \<le> sc_val a + sc_val b" "sc_val a + sc_val b < 2 * secp256k1_n"
    using assms sc_val_bounds [of a] sc_val_bounds [of b] by (simp_all add: scalar_verify_iff)
  have c01: "uint (snd c) = of_bool (2 ^ 256 \<le> sc_val a + sc_val b)"
    using v ab sc_val_bounds [of "fst c"] unfolding secp256k1_n_def by auto
  have lo: "secp256k1_n \<le> sc_val (fst c) \<longleftrightarrow> secp256k1_n \<le> sc_val a + sc_val b \<and> sc_val a + sc_val b < 2 ^ 256"
    using v c01 ab unfolding secp256k1_n_def by (cases "2 ^ 256 \<le> sc_val a + sc_val b") auto
  have "secp256k1_u128_to_u64 (snd c) + b2w (secp256k1_scalar_check_overflow (fst c)) = b2w (secp256k1_n \<le> sc_val a + sc_val b)"
    (is "?l = _")
  proof -
    have "secp256k1_u128_to_u64 (snd c) = b2w (2 ^ 256 \<le> sc_val a + sc_val b)"
      by (simp add: word_uint_eq_iff c01)
    moreover have "2 ^ 256 \<le> sc_val a + sc_val b \<Longrightarrow> secp256k1_n \<le> sc_val a + sc_val b" by (simp add: secp256k1_n_def)
    ultimately show ?thesis using lo by (auto simp: check_overflow_iff b2w_def)
  qed
  then have ov: "snd (secp256k1_scalar_add a b) = b2w (secp256k1_n \<le> sc_val a + sc_val b)"
    "fst (secp256k1_scalar_add a b) = fst (secp256k1_scalar_reduce (fst c) (b2w (secp256k1_n \<le> sc_val a + sc_val b)))"
    by (simp_all add: add_carry4 Let_def c_def [symmetric])
  show "snd (secp256k1_scalar_add a b) = b2w (secp256k1_n \<le> sc_val a + sc_val b)" by (rule ov)
  have "sc_val (fst (secp256k1_scalar_add a b)) =
      (sc_val (fst c) - of_bool (secp256k1_n \<le> sc_val a + sc_val b) * secp256k1_n + 2 ^ 256 * uint (snd c)) mod 2 ^ 256"
    unfolding ov reduce_val by simp
  also have "\<dots> = (sc_val a + sc_val b - of_bool (secp256k1_n \<le> sc_val a + sc_val b) * secp256k1_n) mod 2 ^ 256"
    by (rule arg_cong [of _ _ "\<lambda>x. x mod 2 ^ 256"]) (use v in linarith)
  also have "\<dots> = sc_val a + sc_val b - of_bool (secp256k1_n \<le> sc_val a + sc_val b) * secp256k1_n"
    using ab unfolding secp256k1_n_def by (intro mod_pos_pos_trivial) auto
  also have "\<dots> = (sc_val a + sc_val b) mod secp256k1_n" by (rule mod_sub_once [OF ab, symmetric])
  finally show "sc_val (fst (secp256k1_scalar_add a b)) = (sc_val a + sc_val b) mod secp256k1_n" .
qed

lemma verify_of_mod: "sc_val r = x mod secp256k1_n \<Longrightarrow> secp256k1_scalar_verify r"
  using pos_mod_bound [of secp256k1_n x] by (simp add: scalar_verify_iff secp256k1_n_def)

section \<open>Negation\<close>

text \<open>The limbs before the final mask: the two's complement of \<open>a\<close> plus the order.\<close>

definition neg_limbs :: "secp256k1_scalar \<Rightarrow> secp256k1_scalar" where
  "neg_limbs a = fst (carry4 (NOT (sc_d0 a), SECP256K1_N_0 + 1) (NOT (sc_d1 a), SECP256K1_N_1)
     (NOT (sc_d2 a), SECP256K1_N_2) (NOT (sc_d3 a), SECP256K1_N_3))"

lemma negate_limbs: "secp256k1_scalar_negate a = (if secp256k1_scalar_is_zero a then mk_sc 0 0 0 0 else neg_limbs a)"
proof -
  have "x AND 0xFFFFFFFFFFFFFFFF = x" for x :: u64
  proof -
    have "(0xFFFFFFFFFFFFFFFF :: u64) = - 1" by simp
    then show ?thesis by (simp only: and.right_neutral)
  qed
  then show ?thesis
    unfolding secp256k1_scalar_negate_def neg_limbs_def carry4_def Let_def by simp
qed

lemma neg_limbs_val: "sc_val (neg_limbs a) = (secp256k1_n - sc_val a) mod 2 ^ 256"
proof -
  have "uint (SECP256K1_N_0 + 1) = uint SECP256K1_N_0 + 1"
    by (subst uint_add_exact) (simp_all add: N_limbs)
  then have "sc_val (neg_limbs a) = (secp256k1_n - sc_val a + 2 ^ 256) mod 2 ^ 256"
    unfolding neg_limbs_def carry4_low
    by (intro arg_cong [of _ _ "\<lambda>x. x mod 2 ^ 256"]) (simp add: uint_not N_limbs secp256k1_n_def sc_val_def)
  then show ?thesis by simp
qed

lemma scalar_negate_correct:
  assumes "secp256k1_scalar_verify a"
  shows "sc_val (secp256k1_scalar_negate a) = (- sc_val a) mod secp256k1_n"
proof (cases "sc_val a = 0")
  case True
  then show ?thesis by (simp add: negate_limbs scalar_is_zero_iff sc_val_def)
next
  case False
  then have r: "0 < sc_val a" "sc_val a < secp256k1_n"
    using assms sc_val_bounds [of a] by (simp_all add: scalar_verify_iff)
  have "sc_val (secp256k1_scalar_negate a) = (secp256k1_n - sc_val a) mod 2 ^ 256"
    using False by (simp add: negate_limbs scalar_is_zero_iff neg_limbs_val)
  also have "\<dots> = secp256k1_n - sc_val a" using r by (intro mod_pos_pos_trivial) (simp_all add: secp256k1_n_def)
  also have "\<dots> = (- sc_val a + secp256k1_n) mod secp256k1_n"
    using r mod_pos_pos_trivial [of "secp256k1_n - sc_val a" secp256k1_n] by (simp del: mod_add_self2)
  also have "\<dots> = (- sc_val a) mod secp256k1_n" by (rule mod_add_self2)
  finally show ?thesis .
qed

lemma cond_negate_eq:
  "secp256k1_scalar_cond_negate r flag = (if flag then (secp256k1_scalar_negate r, - 1) else (r, 1))"
proof (cases flag)
  case True
  have "x XOR - 1 = NOT x" for x :: u64 by (simp add: bit_eq_iff bit_simps)
  with True show ?thesis
    unfolding negate_limbs secp256k1_scalar_cond_negate_def neg_limbs_def carry4_def Let_def by simp
next
  case False
  have "fst (carry4 (sc_d0 r, 0) (sc_d1 r, 0) (sc_d2 r, 0) (sc_d3 r, 0)) = r" (is "fst ?c = r")
    by (rule sc_val_inj) (use carry4_low [of "sc_d0 r" 0 "sc_d1 r" 0 "sc_d2 r" 0 "sc_d3 r" 0] sc_val_bounds [of r] in \<open>simp add: sc_val_def\<close>)
  moreover have "fst (secp256k1_scalar_cond_negate r False) = (if secp256k1_scalar_is_zero r then mk_sc 0 0 0 0 else fst ?c)"
    unfolding secp256k1_scalar_cond_negate_def carry4_def Let_def by simp
  moreover have "secp256k1_scalar_is_zero r \<Longrightarrow> r = mk_sc 0 0 0 0"
    by (rule sc_val_inj) (simp add: scalar_is_zero_iff sc_val_def)
  moreover have "snd (secp256k1_scalar_cond_negate r False) = 1"
    by (simp add: secp256k1_scalar_cond_negate_def Let_def)
  ultimately show ?thesis using False by (auto simp: prod_eq_iff)
qed

section \<open>Halving\<close>

lemma uint_shift_join: "uint (drop_bit 1 x OR push_bit 63 y) = uint x div 2 + 2 ^ 63 * (uint y mod 2)" for x y :: u64
proof -
  have "uint (push_bit 63 y) = uint y mod 2 * 2 ^ 63"
    unfolding uint_shiftl using shiftl_mod [of 63 64 "uint y"] by simp
  moreover have "uint x div 2 < 2 ^ 63" using div_pow_less [of "uint x" 64 1] u64_bounds [of x] by simp
  ultimately show ?thesis by (subst uint_or_disjoint [of _ 63]) (simp_all add: uint_shiftr)
qed

lemma half_carry4:
  "secp256k1_scalar_half a =
    (let mask = - (sc_d0 a AND 1) in
     fst (carry4 (drop_bit 1 (sc_d0 a) OR push_bit 63 (sc_d1 a), (SECP256K1_N_H_0 + 1) AND mask)
       (drop_bit 1 (sc_d1 a) OR push_bit 63 (sc_d2 a), SECP256K1_N_H_1 AND mask)
       (drop_bit 1 (sc_d2 a) OR push_bit 63 (sc_d3 a), SECP256K1_N_H_2 AND mask)
       (drop_bit 1 (sc_d3 a), SECP256K1_N_H_3 AND mask)))"
proof -
  have "secp256k1_u128_to_u64 t + x + y = secp256k1_u128_to_u64 (secp256k1_u128_accum_u64 (secp256k1_u128_accum_u64 t x) y)" for t x y
    by (simp add: word_uint_eq_iff secp256k1_u128_accum_u64_def uint_word_ariths mod_simps mod_mod_cancel)
  then show ?thesis by (simp add: secp256k1_scalar_half_def carry4_def Let_def)
qed

lemma scalar_half_correct:
  assumes "secp256k1_scalar_verify a"
  shows "2 * sc_val (secp256k1_scalar_half a) mod secp256k1_n = sc_val a"
    and "sc_val (secp256k1_scalar_half a) < secp256k1_n"
proof -
  let ?o = "of_bool (odd (uint (sc_d0 a))) :: int"
  have "uint (sc_d0 a AND 1) = ?o" by (simp only: uint_and_literals) (simp add: mod2_eq_if)
  then have m: "- (sc_d0 a AND 1) = (if odd (uint (sc_d0 a)) then - 1 else 0)"
    by (simp add: word_uint_eq_iff [of "_ AND _"])
  have n0: "uint (SECP256K1_N_H_0 + 1) = uint SECP256K1_N_H_0 + 1"
    by (subst uint_add_exact) (simp_all add: N_limbs)
  have o: "uint (sc_d0 a) mod 2 = ?o" by (simp add: mod2_eq_if)
  have "2 * (uint (drop_bit 1 (sc_d0 a) OR push_bit 63 (sc_d1 a)) + 2 ^ 64 * uint (drop_bit 1 (sc_d1 a) OR push_bit 63 (sc_d2 a))
      + 2 ^ 128 * uint (drop_bit 1 (sc_d2 a) OR push_bit 63 (sc_d3 a)) + 2 ^ 192 * uint (drop_bit 1 (sc_d3 a))) = sc_val a - ?o"
    using o unfolding uint_shift_join sc_val_def by (simp add: uint_shiftr minus_mult_div_eq_mod [symmetric, of _ 2])
  moreover have "sc_val (secp256k1_scalar_half a) =
      (uint (drop_bit 1 (sc_d0 a) OR push_bit 63 (sc_d1 a)) + 2 ^ 64 * uint (drop_bit 1 (sc_d1 a) OR push_bit 63 (sc_d2 a))
      + 2 ^ 128 * uint (drop_bit 1 (sc_d2 a) OR push_bit 63 (sc_d3 a)) + 2 ^ 192 * uint (drop_bit 1 (sc_d3 a))
      + ?o * ((secp256k1_n + 1) div 2)) mod 2 ^ 256"
    unfolding half_carry4 Let_def m carry4_low
    by (rule arg_cong [of _ _ "\<lambda>x. x mod 2 ^ 256"]) (simp add: n0 N_limbs secp256k1_n_def)
  ultimately obtain h where h: "2 * h = sc_val a - ?o" "sc_val (secp256k1_scalar_half a) = (h + ?o * ((secp256k1_n + 1) div 2)) mod 2 ^ 256"
    by blast
  have b: "0 \<le> h + ?o * ((secp256k1_n + 1) div 2)" "h + ?o * ((secp256k1_n + 1) div 2) < secp256k1_n"
    using h(1) assms sc_val_bounds [of a] by (auto simp: scalar_verify_iff secp256k1_n_def split: if_splits)
  then have v: "sc_val (secp256k1_scalar_half a) = h + ?o * ((secp256k1_n + 1) div 2)"
    unfolding h(2) by (intro mod_pos_pos_trivial) (simp_all add: secp256k1_n_def)
  then have "2 * sc_val (secp256k1_scalar_half a) = sc_val a + ?o * secp256k1_n"
    using h(1) by (cases "odd (uint (sc_d0 a))") (simp_all add: secp256k1_n_def)
  then show "2 * sc_val (secp256k1_scalar_half a) mod secp256k1_n = sc_val a"
    using assms sc_val_bounds [of a] by (simp add: scalar_verify_iff)
  show "sc_val (secp256k1_scalar_half a) < secp256k1_n" using v b by simp
qed

section \<open>Adding a bit\<close>

lemma uint_bit_at: "uint (push_bit k (b2w c) :: u64) = of_bool c * 2 ^ k" if "k < 64"
proof -
  have "(2 :: int) ^ k < 2 ^ 64" using that by (intro power_strict_increasing) simp_all
  then show ?thesis by (subst uint_shiftl_exact) (simp_all add: of_bool_def)
qed

lemma cadd_bit_false: "secp256k1_scalar_cadd_bit r 0 False = r"
proof -
  have "secp256k1_scalar_cadd_bit r 0 False = fst (carry4 (sc_d0 r, 0) (sc_d1 r, 0) (sc_d2 r, 0) (sc_d3 r, 0))"
    by (simp add: secp256k1_scalar_cadd_bit_def carry4_def Let_def)
  also have "\<dots> = r"
    by (rule sc_val_inj) (use carry4_low [of "sc_d0 r" 0 "sc_d1 r" 0 "sc_d2 r" 0 "sc_d3 r" 0] sc_val_bounds [of r] in \<open>simp add: sc_val_def\<close>)
  finally show ?thesis .
qed

lemma cadd_bit_0_val:
  "sc_val (secp256k1_scalar_cadd_bit r 0 flag) = (sc_val r + of_bool flag) mod 2 ^ 256"
proof (cases flag)
  case True
  have "secp256k1_scalar_cadd_bit r 0 True = fst (carry4 (sc_d0 r, 1) (sc_d1 r, 0) (sc_d2 r, 0) (sc_d3 r, 0))"
    by (simp add: secp256k1_scalar_cadd_bit_def carry4_def Let_def)
  then show ?thesis using True by (simp add: carry4_low) (simp add: sc_val_def algebra_simps)
qed (use sc_val_bounds [of r] in \<open>simp add: cadd_bit_false\<close>)

section \<open>Bytes\<close>

lemma read_be64_take: "8 \<le> length p \<Longrightarrow> uint (secp256k1_read_be64 p) = be_val (take 8 p)"
proof -
  assume len: "8 \<le> length p"
  then obtain q where q: "q = take 8 p" "length q = 8" by simp
  have "secp256k1_read_be64 p = secp256k1_read_be64 q" by (simp add: secp256k1_read_be64_def q)
  moreover obtain a b c d e f g h where "q = [a, b, c, d, e, f, g, h]"
    using q(2) by (auto simp: length_Suc_conv eval_nat_numeral)
  ultimately show ?thesis using q(1) by (simp only: read_be64_val)
qed

lemma be_val_quarters:
  assumes "length b = 32"
  shows "be_val b = be_val (take 8 (drop 24 b)) + 2 ^ 64 * be_val (take 8 (drop 16 b))
     + 2 ^ 128 * be_val (take 8 (drop 8 b)) + 2 ^ 192 * be_val (take 8 b)"
proof -
  have "b = take 8 b @ take 8 (drop 8 b) @ take 8 (drop 16 b) @ take 8 (drop 24 b)"
    using assms append_take_drop_id [of 8 b] append_take_drop_id [of 8 "drop 8 b"] append_take_drop_id [of 8 "drop 16 b"]
    by (simp add: add.commute)
  then have "be_val b = be_val (take 8 b @ take 8 (drop 8 b) @ take 8 (drop 16 b) @ take 8 (drop 24 b))" by simp
  then show ?thesis using assms by (simp only: be_val_append length_append length_take length_drop) simp
qed

lemma scalar_set_b32_correct:
  assumes "length b = 32"
  shows "sc_val (fst (secp256k1_scalar_set_b32 b)) = be_val b mod secp256k1_n"
    and "snd (secp256k1_scalar_set_b32 b) \<longleftrightarrow> secp256k1_n \<le> be_val b"
proof -
  define r where "r = mk_sc (secp256k1_read_be64 (drop 24 b)) (secp256k1_read_be64 (drop 16 b))
                   (secp256k1_read_be64 (drop 8 b)) (secp256k1_read_be64 b)"
  have v: "sc_val r = be_val b"
    using assms by (simp add: r_def sc_val_def read_be64_take be_val_quarters)
  have s: "secp256k1_scalar_set_b32 b =
      (fst (secp256k1_scalar_reduce r (b2w (secp256k1_scalar_check_overflow r))), secp256k1_scalar_check_overflow r)"
    by (simp add: secp256k1_scalar_set_b32_def Let_def r_def [symmetric] reduce_carry4)
  show "sc_val (fst (secp256k1_scalar_set_b32 b)) = be_val b mod secp256k1_n"
    "snd (secp256k1_scalar_set_b32 b) \<longleftrightarrow> secp256k1_n \<le> be_val b"
    unfolding s fst_conv snd_conv reduce_once by (simp_all add: v check_overflow_iff)
qed

lemma scalar_get_b32_val: "be_val (secp256k1_scalar_get_b32 a) = sc_val a" "length (secp256k1_scalar_get_b32 a) = 32"
  by (simp_all add: secp256k1_scalar_get_b32_def be_val_append write_be64_val sc_val_def)

lemma scalar_set_get_b32: "secp256k1_scalar_verify a \<Longrightarrow> secp256k1_scalar_set_b32 (secp256k1_scalar_get_b32 a) = (a, False)"
  using scalar_set_b32_correct [of "secp256k1_scalar_get_b32 a"] sc_val_bounds [of a]
  by (auto simp: scalar_get_b32_val scalar_verify_iff prod_eq_iff intro: sc_val_inj)

lemma scalar_get_set_b32:
  "length b = 32 \<Longrightarrow> be_val b < secp256k1_n \<Longrightarrow> secp256k1_scalar_get_b32 (fst (secp256k1_scalar_set_b32 b)) = b"
  using scalar_set_b32_correct [of b] be_val_bounds [of b]
  by (intro be_val_inj) (simp_all add: scalar_get_b32_val)

section \<open>Moves and parity\<close>

lemma scalar_cmov_eq: "secp256k1_scalar_cmov r a flag = (if flag then a else r)"
  by (simp add: secp256k1_scalar_cmov_def b2w_def)

lemma scalar_is_even_iff: "secp256k1_scalar_is_even a \<longleftrightarrow> even (sc_val a)"
proof -
  have "sc_d0 a AND 1 = 0 \<longleftrightarrow> uint (sc_d0 a AND 1) = 0" by (simp add: word_uint_eq_iff)
  also have "\<dots> \<longleftrightarrow> even (uint (sc_d0 a))" by (simp only: uint_and_literals) (simp add: even_iff_mod_2_eq_zero)
  finally show ?thesis by (simp add: secp256k1_scalar_is_even_def sc_val_def)
qed

lemma scalar_is_one_iff: "secp256k1_scalar_is_one a \<longleftrightarrow> sc_val a = 1"
proof -
  have "secp256k1_scalar_is_one a \<longleftrightarrow> a = mk_sc 1 0 0 0"
    by (cases a) (simp add: secp256k1_scalar_is_one_def or_eq_0_iff xor_eq_iff)
  also have "\<dots> \<longleftrightarrow> sc_val a = 1" using sc_val_inj [of a "mk_sc 1 0 0 0"] by (auto simp: sc_val_def)
  finally show ?thesis .
qed

end
