(* ===== verification/Scalar_4x64_Mul.thy ===== *)
theory Scalar_4x64_Mul
  imports Scalar_4x64_Ops
begin

text \<open>
  Scalar multiplication: the column accumulator macros are exact additions to the number held in
  \<open>(c0, c1, c2)\<close>, the 256 by 256 bit product is exact, and the 512-bit reduction returns the residue
  modulo the group order.
\<close>

section \<open>The column accumulator\<close>

definition acc_val :: "u64 \<times> u64 \<times> 'a::len word \<Rightarrow> int" where
  "acc_val c = uint (fst c) + 2 ^ 64 * uint (fst (snd c)) + 2 ^ 128 * uint (snd (snd c))"

lemma acc_val_ge_0 [simp]: "0 \<le> acc_val c"
  by (simp add: acc_val_def)

lemma acc_val_init [simp]: "acc_val (x, 0, 0) = uint x"
  by (simp add: acc_val_def)

lemma add_carry_u64:
  "uint (x + y) + 2 ^ 64 * of_bool (x + y < y) = uint x + uint y" for x y :: u64
proof -
  have s: "uint (x + y) = (uint x + uint y) mod 2 ^ 64" by (simp add: uint_word_ariths)
  have m: "(uint x + uint y) mod 2 ^ 64 = uint x + uint y - of_bool (2 ^ 64 \<le> uint x + uint y) * 2 ^ 64"
    by (rule mod_sub_once) (use u64_bounds [of x] u64_bounds [of y] in simp_all)
  have "x + y < y \<longleftrightarrow> 2 ^ 64 \<le> uint x + uint y"
    unfolding word_less_def s m using u64_bounds [of x] u64_bounds [of y] by auto
  then show ?thesis unfolding s m by simp
qed

lemma mul_hi_bound: "uint a * uint b div 2 ^ 64 \<le> 2 ^ 64 - 2" for a b :: u64
proof -
  have "uint a * uint b \<le> (2 ^ 64 - 1) * (2 ^ 64 - 1)"
    by (rule mult_mono) (use u64_bounds [of a] u64_bounds [of b] in simp_all)
  then have "uint a * uint b div 2 ^ 64 \<le> (2 ^ 64 - 1) * (2 ^ 64 - 1) div 2 ^ 64" by (rule zdiv_mono1) simp
  then show ?thesis by simp
qed

text \<open>The two-word part common to both macros: the product enters \<open>(c0, c1)\<close> with a carry out.\<close>

lemma muladd_two_words:
  fixes a b c0 c1 :: u64
  defines "lo \<equiv> secp256k1_u128_to_u64 (secp256k1_u128_mul a b)"
    and "th0 \<equiv> secp256k1_u128_hi_u64 (secp256k1_u128_mul a b)"
  defines "th \<equiv> th0 + b2w (c0 + lo < lo)"
  shows "uint (c0 + lo) + 2 ^ 64 * uint (c1 + th) + 2 ^ 128 * of_bool (c1 + th < th) =
    uint c0 + 2 ^ 64 * uint c1 + uint a * uint b"
proof -
  have "uint th = uint th0 + of_bool (c0 + lo < lo)"
    unfolding th_def using mul_hi_bound [of a b] by (subst uint_add_exact) (simp_all add: th0_def)
  moreover have "uint a * uint b = uint lo + 2 ^ 64 * uint th0"
    by (simp add: lo_def th0_def)
  ultimately show ?thesis
    using add_carry_u64 [of c0 lo] add_carry_u64 [of c1 th] by (simp add: algebra_simps)
qed

lemma acc_muladd:
  fixes c :: "u64 \<times> u64 \<times> 'a::len word"
  assumes "acc_val c + uint a * uint b < 2 ^ (128 + LENGTH('a))"
  shows "acc_val (muladd a b c) = acc_val c + uint a * uint b"
proof (cases c)
  case (fields c0 c1 c2)
  define lo where "lo = secp256k1_u128_to_u64 (secp256k1_u128_mul a b)"
  define th where "th = secp256k1_u128_hi_u64 (secp256k1_u128_mul a b) + b2w (c0 + lo < lo)"
  have w: "uint (c0 + lo) + 2 ^ 64 * uint (c1 + th) + 2 ^ 128 * of_bool (c1 + th < th) =
      uint c0 + 2 ^ 64 * uint c1 + uint a * uint b"
    unfolding th_def lo_def by (rule muladd_two_words)
  have e: "acc_val c + uint a * uint b = uint (c0 + lo) + 2 ^ 64 * uint (c1 + th) + 2 ^ 128 * (uint c2 + of_bool (c1 + th < th))"
    using w by (simp add: acc_val_def fields)
  have "2 ^ 128 * (uint c2 + of_bool (c1 + th < th)) \<le> acc_val c + uint a * uint b"
    unfolding e by simp
  also have "\<dots> < 2 ^ 128 * 2 ^ LENGTH('a)" using assms by (simp add: power_add)
  finally have "uint c2 + of_bool (c1 + th < th) < 2 ^ LENGTH('a)" by simp
  then have "uint (c2 + b2w (c1 + th < th)) = uint c2 + of_bool (c1 + th < th)"
    by (subst uint_add_exact) simp_all
  with w show ?thesis
    by (simp add: muladd_def fields Let_def acc_val_def lo_def [symmetric] th_def [symmetric])
qed

lemma acc_muladd_fast:
  assumes "acc_val c + uint a * uint b < 2 ^ 128" "snd (snd c) = 0"
  shows "acc_val (muladd_fast a b c) = acc_val c + uint a * uint b" "snd (snd (muladd_fast a b c)) = 0"
proof -
  obtain c0 c1 where c: "c = (c0, c1, 0)" using assms(2) by (cases c) simp
  define lo where "lo = secp256k1_u128_to_u64 (secp256k1_u128_mul a b)"
  define th where "th = secp256k1_u128_hi_u64 (secp256k1_u128_mul a b) + b2w (c0 + lo < lo)"
  have w: "uint (c0 + lo) + 2 ^ 64 * uint (c1 + th) + 2 ^ 128 * of_bool (c1 + th < th) =
      uint c0 + 2 ^ 64 * uint c1 + uint a * uint b"
    unfolding th_def lo_def by (rule muladd_two_words)
  have "uint (c0 + lo) + 2 ^ 64 * uint (c1 + th) + 2 ^ 128 * of_bool (c1 + th < th) < 2 ^ 128"
    using assms(1) unfolding w by (simp add: c acc_val_def)
  moreover have "2 ^ 128 * of_bool (c1 + th < th) \<le> uint (c0 + lo) + 2 ^ 64 * uint (c1 + th) + 2 ^ 128 * of_bool (c1 + th < th)"
    by simp
  ultimately have "2 ^ 128 * of_bool (c1 + th < th) < (2 ^ 128 :: int)" by (rule le_less_trans [rotated])
  then have "\<not> c1 + th < th" by (cases "c1 + th < th") simp_all
  with w show "acc_val (muladd_fast a b c) = acc_val c + uint a * uint b" "snd (snd (muladd_fast a b c)) = 0"
    by (simp_all add: muladd_fast_def c Let_def acc_val_def lo_def [symmetric] th_def [symmetric])
qed


lemma acc_sumadd:
  fixes c :: "u64 \<times> u64 \<times> 'a::len word"
  assumes "acc_val c + uint a < 2 ^ (128 + LENGTH('a))"
  shows "acc_val (sumadd a c) = acc_val c + uint a"
proof (cases c)
  case (fields c0 c1 c2)
  define ov where "ov = (b2w (c0 + a < a) :: u64)"
  have w: "uint (c0 + a) + 2 ^ 64 * uint (c1 + ov) + 2 ^ 128 * of_bool (c1 + ov < ov) = uint c0 + 2 ^ 64 * uint c1 + uint a"
    using add_carry_u64 [of c0 a] add_carry_u64 [of c1 ov] by (simp add: ov_def algebra_simps)
  have e: "acc_val c + uint a = uint (c0 + a) + 2 ^ 64 * uint (c1 + ov) + 2 ^ 128 * (uint c2 + of_bool (c1 + ov < ov))"
    using w by (simp add: acc_val_def fields)
  have "2 ^ 128 * (uint c2 + of_bool (c1 + ov < ov)) \<le> acc_val c + uint a" unfolding e by simp
  also have "\<dots> < 2 ^ 128 * 2 ^ LENGTH('a)" using assms by (simp add: power_add)
  finally have "uint c2 + of_bool (c1 + ov < ov) < 2 ^ LENGTH('a)" by simp
  then have "uint (c2 + b2w (c1 + ov < ov)) = uint c2 + of_bool (c1 + ov < ov)"
    by (subst uint_add_exact) simp_all
  with e show ?thesis
    by (simp add: sumadd_def fields Let_def acc_val_def ov_def [symmetric])
qed

lemma acc_sumadd_fast:
  assumes "acc_val c + uint a < 2 ^ 128" "snd (snd c) = 0"
  shows "acc_val (sumadd_fast a c) = acc_val c + uint a" "snd (snd (sumadd_fast a c)) = 0"
proof -
  obtain c0 c1 where c: "c = (c0, c1, 0)" using assms(2) by (cases c) simp
  have k: "uint (c0 + a) + 2 ^ 64 * of_bool (c0 + a < a) = uint c0 + uint a" by (rule add_carry_u64)
  have e: "acc_val c + uint a = uint (c0 + a) + 2 ^ 64 * (uint c1 + of_bool (c0 + a < a))"
    using k by (simp add: acc_val_def c)
  have "2 ^ 64 * (uint c1 + of_bool (c0 + a < a)) \<le> acc_val c + uint a" unfolding e by simp
  then have "uint c1 + of_bool (c0 + a < a) < 2 ^ 64" using assms(1) by simp
  then have "uint (c1 + b2w (c0 + a < a)) = uint c1 + of_bool (c0 + a < a)"
    by (subst uint_add_exact) simp_all
  with e show "acc_val (sumadd_fast a c) = acc_val c + uint a" "snd (snd (sumadd_fast a c)) = 0"
    by (simp_all add: sumadd_fast_def c Let_def acc_val_def)
qed

lemma digit_split:
  "(x + k * y) mod k = x" "(x + k * y) div k = y" if "0 \<le> x" "x < k" for x y k :: int
  using that by simp_all

lemma acc_parts:
  "acc_val c mod 2 ^ 64 = uint (fst c)" "acc_val c div 2 ^ 64 = uint (fst (snd c)) + 2 ^ 64 * uint (snd (snd c))"
proof -
  have e: "acc_val c = uint (fst c) + 2 ^ 64 * (uint (fst (snd c)) + 2 ^ 64 * uint (snd (snd c)))" by (simp add: acc_val_def)
  show "acc_val c mod 2 ^ 64 = uint (fst c)" "acc_val c div 2 ^ 64 = uint (fst (snd c)) + 2 ^ 64 * uint (snd (snd c))"
    unfolding e by (rule digit_split; use u64_bounds [of "fst c"] in simp)+
qed

lemma acc_fst: "uint (fst c) = acc_val c mod 2 ^ 64"
  by (simp only: acc_parts)

lemma acc_extract_full:
  fixes c :: "u64 \<times> u64 \<times> 'a::len word"
  assumes "LENGTH('a) \<le> 64"
  shows "acc_val (extract_full c) = acc_val c div 2 ^ 64" "snd (snd (extract_full c)) = 0"
proof -
  have "uint (ucast (snd (snd c)) :: u64) = uint (snd (snd c))"
    using assms by (simp add: uint_up_ucast is_up)
  moreover note acc_parts(2) [of c]
  ultimately show "acc_val (extract_full c) = acc_val c div 2 ^ 64" "snd (snd (extract_full c)) = 0"
    by (simp_all add: extract_full_def acc_val_def split_beta)
qed

lemma acc_extract_fast:
  assumes "snd (snd c) = 0"
  shows "acc_val (extract_fast c) = acc_val c div 2 ^ 64" "snd (snd (extract_fast c)) = 0"
  using assms unfolding acc_parts by (simp_all add: extract_fast_def split_beta acc_val_def)

lemma acc_small: "acc_val c < 2 ^ 128 \<Longrightarrow> snd (snd c) = 0"
proof -
  assume "acc_val c < 2 ^ 128"
  moreover have "2 ^ 128 * uint (snd (snd c)) \<le> acc_val c" by (simp add: acc_val_def)
  ultimately have "2 ^ 128 * uint (snd (snd c)) < 2 ^ 128 * 1" by simp
  then have "uint (snd (snd c)) < 1" by (simp only: mult_less_cancel_left) simp
  then have "uint (snd (snd c)) = 0" using uint_ge_0 [of "snd (snd c)"] by linarith
  then show ?thesis by (simp add: word_uint_eq_iff)
qed

section \<open>The 512-bit product\<close>

definition limbs_val :: "u64 list \<Rightarrow> int" where
  "limbs_val ls = foldr (\<lambda>w v. uint w + 2 ^ 64 * v) ls 0"

lemma prod64_bounds: "0 \<le> uint a * uint b" "uint a * uint b < 2 ^ 128" for a b :: u64
  using prod_bound [of "uint a" 64 "uint b" 64] u64_bounds [of a] u64_bounds [of b] by simp_all

text \<open>A column sum followed by a carry: the digits and the last carry make up the sum of the columns.\<close>

lemma carry_bound: "0 \<le> x \<Longrightarrow> x < k * 2 ^ 64 \<Longrightarrow> 0 \<le> x div 2 ^ 64 \<and> x div 2 ^ 64 < k" for x k :: int
  by (simp add: pos_imp_zdiv_nonneg_iff div_less_iff_less_mult)

text \<open>
  \<open>acc_is c v k\<close>: the accumulator holds \<open>v\<close>, which is below \<open>k\<close> times \<open>2^128\<close>. Each macro
  adds at most one such unit, so a column of a handful of macros cannot overflow.
\<close>

definition acc_is :: "u64 \<times> u64 \<times> 'a::len word \<Rightarrow> int \<Rightarrow> nat \<Rightarrow> bool" where
  "acc_is c v k \<longleftrightarrow> acc_val c = v \<and> v < int k * 2 ^ 128"

lemma acc_room: "x < int (Suc k) * 2 ^ 128 \<Longrightarrow> k < 100 \<Longrightarrow> 16 \<le> LENGTH('a::len) \<Longrightarrow> x < 2 ^ (128 + LENGTH('a))"
proof -
  assume "x < int (Suc k) * 2 ^ 128" "k < 100" "16 \<le> LENGTH('a)"
  note this(1)
  also have "int (Suc k) * 2 ^ 128 \<le> 2 ^ 16 * 2 ^ 128" using \<open>k < 100\<close> by (intro mult_right_mono) simp_all
  also have "\<dots> \<le> 2 ^ (128 + LENGTH('a))" unfolding power_add [symmetric] using \<open>16 \<le> LENGTH('a)\<close> by (intro power_increasing) simp_all
  finally show ?thesis .
qed

lemma acc_is_muladd:
  fixes c :: "u64 \<times> u64 \<times> 'a::len word"
  assumes "acc_is c v k" "k < 100" "16 \<le> LENGTH('a)"
  shows "acc_is (muladd x y c) (v + uint x * uint y) (Suc k)"
proof -
  have lt: "v + uint x * uint y < int (Suc k) * 2 ^ 128"
    using assms(1) prod64_bounds [of x y] by (simp add: acc_is_def algebra_simps)
  show ?thesis using acc_muladd [of c x y] acc_room [OF lt assms(2,3)] lt assms(1) by (simp add: acc_is_def)
qed

lemma acc_is_sumadd:
  fixes c :: "u64 \<times> u64 \<times> 'a::len word"
  assumes "acc_is c v k" "k < 100" "16 \<le> LENGTH('a)"
  shows "acc_is (sumadd x c) (v + uint x) (Suc k)"
proof -
  have lt: "v + uint x < int (Suc k) * 2 ^ 128"
    using assms(1) u64_bounds [of x] by (simp add: acc_is_def algebra_simps)
  show ?thesis using acc_sumadd [of c x] acc_room [OF lt assms(2,3)] lt assms(1) by (simp add: acc_is_def)
qed

lemma acc_is_muladd_fast:
  assumes "acc_is c v k" "v + uint x * uint y < 2 ^ 128"
  shows "acc_is (muladd_fast x y c) (v + uint x * uint y) 1"
proof -
  have "v < 2 ^ 128" using assms(2) prod64_bounds [of x y] by linarith
  then show ?thesis
    using assms acc_muladd_fast [of c x y] acc_small [of c] by (simp add: acc_is_def)
qed

lemma acc_is_sumadd_fast:
  assumes "acc_is c v k" "v + uint x < 2 ^ 128"
  shows "acc_is (sumadd_fast x c) (v + uint x) 1"
proof -
  have "v < 2 ^ 128" using assms(2) u64_bounds [of x] by linarith
  then show ?thesis
    using assms acc_sumadd_fast [of c x] acc_small [of c] by (simp add: acc_is_def)
qed

lemma acc_is_extract:
  fixes c :: "u64 \<times> u64 \<times> 'a::len word"
  assumes "acc_is c v k" "k < 100" "LENGTH('a) \<le> 64"
  shows "acc_is (extract_full c) (v div 2 ^ 64) 1" "v div 2 ^ 64 < int k * 2 ^ 64" "0 \<le> v div 2 ^ 64"
proof -
  show "0 \<le> v div 2 ^ 64" using assms(1) by (auto simp: acc_is_def pos_imp_zdiv_nonneg_iff)
  show lt: "v div 2 ^ 64 < int k * 2 ^ 64"
    using assms(1) carry_bound [of v "int k * 2 ^ 64"] by (auto simp: acc_is_def)
  have "int k * 2 ^ 64 \<le> 2 ^ 16 * 2 ^ 64" using assms(2) by (intro mult_right_mono) simp_all
  with lt show "acc_is (extract_full c) (v div 2 ^ 64) 1"
    using acc_extract_full [OF assms(3), of c] assms(1) by (simp add: acc_is_def)
qed

lemma acc_is_extract_fast:
  assumes "acc_is c v 1"
  shows "acc_is (extract_fast c) (v div 2 ^ 64) 1" "v div 2 ^ 64 < 2 ^ 64" "0 \<le> v div 2 ^ 64"
proof -
  show "0 \<le> v div 2 ^ 64" using assms by (auto simp: acc_is_def pos_imp_zdiv_nonneg_iff)
  show lt: "v div 2 ^ 64 < 2 ^ 64" using assms carry_bound [of v "2 ^ 64"] by (auto simp: acc_is_def)
  then show "acc_is (extract_fast c) (v div 2 ^ 64) 1"
    using assms acc_extract_fast [of c] acc_small [of c] by (simp add: acc_is_def)
qed

lemma acc_is_init: "acc_is (x, 0, 0) (uint x) 1"
  using u64_bounds [of x] by (simp add: acc_is_def)

lemma acc_is_fst: "acc_is c v k \<Longrightarrow> uint (fst c) = v mod 2 ^ 64"
  using acc_fst [of c] by (simp add: acc_is_def)

lemmas acc_steps = acc_is_muladd acc_is_sumadd acc_is_extract(1)

lemma columns_total:
  fixes B :: int
  assumes "v1 = v0 div B + S1" "v2 = v1 div B + S2" "v3 = v2 div B + S3" "v4 = v3 div B + S4"
    "v5 = v4 div B + S5" "v6 = v5 div B + S6"
  shows "v0 mod B + B * (v1 mod B) + B ^ 2 * (v2 mod B) + B ^ 3 * (v3 mod B) + B ^ 4 * (v4 mod B) + B ^ 5 * (v5 mod B)
    + B ^ 6 * v6 = v0 + B * S1 + B ^ 2 * S2 + B ^ 3 * S3 + B ^ 4 * S4 + B ^ 5 * S5 + B ^ 6 * S6"
proof -
  note m = minus_mult_div_eq_mod [symmetric, of _ B]
  define q0 q1 q2 q3 q4 q5 where "q0 = v0 div B" "q1 = v1 div B" "q2 = v2 div B" "q3 = v3 div B" "q4 = v4 div B" "q5 = v5 div B"
  have "v0 mod B = v0 - B * q0" "v1 mod B = q0 + S1 - B * q1" "v2 mod B = q1 + S2 - B * q2"
    "v3 mod B = q2 + S3 - B * q3" "v4 mod B = q3 + S4 - B * q4" "v5 mod B = q4 + S5 - B * q5" "v6 = q5 + S6"
    unfolding m q0_q1_q2_q3_q4_q5_def by (simp_all add: assms)
  then show ?thesis by algebra
qed

lemma product_columns:
  fixes B :: int
  shows "(x0 + B * x1 + B ^ 2 * x2 + B ^ 3 * x3) * (y0 + B * y1 + B ^ 2 * y2 + B ^ 3 * y3) =
    x0 * y0 + B * (x0 * y1 + x1 * y0) + B ^ 2 * (x0 * y2 + x1 * y1 + x2 * y0)
    + B ^ 3 * (x0 * y3 + x1 * y2 + x2 * y1 + x3 * y0) + B ^ 4 * (x1 * y3 + x2 * y2 + x3 * y1)
    + B ^ 5 * (x2 * y3 + x3 * y2) + B ^ 6 * (x3 * y3)"
  by algebra

lemma sc_val_base: "sc_val a = uint (sc_d0 a) + 2 ^ 64 * uint (sc_d1 a) + (2 ^ 64) ^ 2 * uint (sc_d2 a) + (2 ^ 64) ^ 3 * uint (sc_d3 a)"
  by (simp add: sc_val_def)

lemma scalar_mul_512_val:
  "length (secp256k1_scalar_mul_512 a b) = 8" "limbs_val (secp256k1_scalar_mul_512 a b) = sc_val a * sc_val b"
proof -
  define a0 a1 a2 a3 where "a0 = sc_d0 a" "a1 = sc_d1 a" "a2 = sc_d2 a" "a3 = sc_d3 a"
  define b0 b1 b2 b3 where "b0 = sc_d0 b" "b1 = sc_d1 b" "b2 = sc_d2 b" "b3 = sc_d3 b"
  note ab = a0_a1_a2_a3_def [symmetric] b0_b1_b2_b3_def [symmetric]
  define k0 where "k0 = muladd_fast a0 b0 (0, 0, 0 :: u32)"
  define k1 where "k1 = muladd a1 b0 (muladd a0 b1 (extract_fast k0))"
  define k2 where "k2 = muladd a2 b0 (muladd a1 b1 (muladd a0 b2 (extract_full k1)))"
  define k3 where "k3 = muladd a3 b0 (muladd a2 b1 (muladd a1 b2 (muladd a0 b3 (extract_full k2))))"
  define k4 where "k4 = muladd a3 b1 (muladd a2 b2 (muladd a1 b3 (extract_full k3)))"
  define k5 where "k5 = muladd a3 b2 (muladd a2 b3 (extract_full k4))"
  define k6 where "k6 = muladd_fast a3 b3 (extract_full k5)"
  have l: "secp256k1_scalar_mul_512 a b = [fst k0, fst k1, fst k2, fst k3, fst k4, fst k5, fst k6, fst (extract_fast k6)]"
    by (simp add: secp256k1_scalar_mul_512_def Let_def ab k0_def k1_def k2_def k3_def k4_def k5_def k6_def)
  then show "length (secp256k1_scalar_mul_512 a b) = 8" by simp
  define v0 where "v0 = uint a0 * uint b0"
  define v1 where "v1 = v0 div 2 ^ 64 + uint a0 * uint b1 + uint a1 * uint b0"
  define v2 where "v2 = v1 div 2 ^ 64 + uint a0 * uint b2 + uint a1 * uint b1 + uint a2 * uint b0"
  define v3 where "v3 = v2 div 2 ^ 64 + uint a0 * uint b3 + uint a1 * uint b2 + uint a2 * uint b1 + uint a3 * uint b0"
  define v4 where "v4 = v3 div 2 ^ 64 + uint a1 * uint b3 + uint a2 * uint b2 + uint a3 * uint b1"
  define v5 where "v5 = v4 div 2 ^ 64 + uint a2 * uint b3 + uint a3 * uint b2"
  define v6 where "v6 = v5 div 2 ^ 64 + uint a3 * uint b3"
  have k0: "acc_is k0 v0 1"
    using acc_is_muladd_fast [OF acc_is_init [of 0], of a0 b0] prod64_bounds [of a0 b0] by (simp add: k0_def v0_def)
  have k1: "acc_is k1 v1 (Suc (Suc 1))"
    unfolding k1_def v1_def by (intro acc_steps acc_is_extract_fast(1) [OF k0]) simp_all
  have k2: "acc_is k2 v2 (Suc (Suc (Suc 1)))"
    unfolding k2_def v2_def by (intro acc_is_muladd acc_is_extract(1) [OF k1]) simp_all
  have k3: "acc_is k3 v3 (Suc (Suc (Suc (Suc 1))))"
    unfolding k3_def v3_def by (intro acc_is_muladd acc_is_extract(1) [OF k2]) simp_all
  have k4: "acc_is k4 v4 (Suc (Suc (Suc 1)))"
    unfolding k4_def v4_def by (intro acc_is_muladd acc_is_extract(1) [OF k3]) simp_all
  have k5: "acc_is k5 v5 (Suc (Suc 1))"
    unfolding k5_def v5_def by (intro acc_is_muladd acc_is_extract(1) [OF k4]) simp_all
  have total: "v0 mod 2 ^ 64 + 2 ^ 64 * (v1 mod 2 ^ 64) + (2 ^ 64) ^ 2 * (v2 mod 2 ^ 64) + (2 ^ 64) ^ 3 * (v3 mod 2 ^ 64)
      + (2 ^ 64) ^ 4 * (v4 mod 2 ^ 64) + (2 ^ 64) ^ 5 * (v5 mod 2 ^ 64) + (2 ^ 64) ^ 6 * v6 = sc_val a * sc_val b"
    unfolding sc_val_base ab product_columns v0_def [symmetric]
    by (rule columns_total) (simp_all only: v1_def v2_def v3_def v4_def v5_def v6_def add.assoc)
  have "sc_val a * sc_val b < 2 ^ 512"
    using prod_bound [of "sc_val a" 256 "sc_val b" 256] sc_val_bounds [of a] sc_val_bounds [of b] by simp
  moreover have "0 \<le> v0 mod 2 ^ 64 + 2 ^ 64 * (v1 mod 2 ^ 64) + (2 ^ 64) ^ 2 * (v2 mod 2 ^ 64) + (2 ^ 64) ^ 3 * (v3 mod 2 ^ 64)
      + (2 ^ 64) ^ 4 * (v4 mod 2 ^ 64) + (2 ^ 64) ^ 5 * (v5 mod 2 ^ 64)"
    by simp
  ultimately have "(2 ^ 64) ^ 6 * v6 < 2 ^ 512" using total by linarith
  then have v6: "v6 < 2 ^ 128" by simp
  have k6: "acc_is k6 v6 1"
    unfolding k6_def v6_def by (rule acc_is_muladd_fast [OF acc_is_extract(1) [OF k5]]) (use v6 in \<open>simp_all add: v6_def\<close>)
  have v7: "uint (fst (extract_fast k6)) = v6 div 2 ^ 64"
    using acc_is_fst [OF acc_is_extract_fast(1) [OF k6]] acc_is_extract_fast(2,3) [OF k6] by simp
  have "limbs_val (secp256k1_scalar_mul_512 a b) = v0 mod 2 ^ 64 + 2 ^ 64 * (v1 mod 2 ^ 64) + (2 ^ 64) ^ 2 * (v2 mod 2 ^ 64)
      + (2 ^ 64) ^ 3 * (v3 mod 2 ^ 64) + (2 ^ 64) ^ 4 * (v4 mod 2 ^ 64) + (2 ^ 64) ^ 5 * (v5 mod 2 ^ 64)
      + (2 ^ 64) ^ 6 * (v6 mod 2 ^ 64 + 2 ^ 64 * (v6 div 2 ^ 64))"
    unfolding l limbs_val_def v7
    by (simp add: v7 acc_is_fst [OF k0] acc_is_fst [OF k1] acc_is_fst [OF k2] acc_is_fst [OF k3] acc_is_fst [OF k4]
      acc_is_fst [OF k5] acc_is_fst [OF k6])
  also have "\<dots> = sc_val a * sc_val b" unfolding mod_mult_div_eq by (rule total)
  finally show "limbs_val (secp256k1_scalar_mul_512 a b) = sc_val a * sc_val b" .
qed

end
