(* ===== verification/Scalar_4x64_Reduce.thy ===== *)
theory Scalar_4x64_Reduce
  imports Scalar_4x64_Mul
begin

text \<open>
  The 512-bit reduction. Each block folds the words above \<open>2^256\<close> down with
  \<open>2^256 = C (mod n)\<close>, \<open>C = 2^256 - n\<close>; the accumulator rules give the exact value of every
  block, the size of the total bounds its top word, and the last conditional subtraction leaves the
  residue.
\<close>

definition sc_C :: int where
  "sc_C = 2 ^ 256 - secp256k1_n"

lemma sc_C_limbs:
  "sc_C = 0x402DA1732FC9BEBF + 2 ^ 64 * 0x4551231950B75FC4 + (2 ^ 64) ^ 2 * 1"
  "sc_C < 2 ^ 128 + 2 ^ 127" "0 < sc_C"
  by (simp_all add: sc_C_def secp256k1_n_def)

section \<open>512 to 385 bits\<close>

lemma fold_columns:
  fixes B :: int
  assumes "t1 = t0 div B + S1" "t2 = t1 div B + S2" "t3 = t2 div B + S3" "t4 = t3 div B + S4" "t5 = t4 div B + S5"
  shows "t0 mod B + B * (t1 mod B) + B ^ 2 * (t2 mod B) + B ^ 3 * (t3 mod B) + B ^ 4 * (t4 mod B) + B ^ 5 * t5 =
    t0 + B * S1 + B ^ 2 * S2 + B ^ 3 * S3 + B ^ 4 * S4 + B ^ 5 * S5"
proof -
  note m = minus_mult_div_eq_mod [symmetric, of _ B]
  define q0 q1 q2 q3 q4 where "q0 = t0 div B" "q1 = t1 div B" "q2 = t2 div B" "q3 = t3 div B" "q4 = t4 div B"
  have "t0 mod B = t0 - B * q0" "t1 mod B = q0 + S1 - B * q1" "t2 mod B = q1 + S2 - B * q2"
    "t3 mod B = q2 + S3 - B * q3" "t4 mod B = q3 + S4 - B * q4" "t5 = q4 + S5"
    unfolding m q0_q1_q2_q3_q4_def by (simp_all add: assms)
  then show ?thesis by algebra
qed

lemma fold_product:
  fixes B :: int
  shows "(l0 + n0 * c0) + B * (l1 + n1 * c0 + n0 * c1) + B ^ 2 * (l2 + n2 * c0 + n1 * c1 + n0)
      + B ^ 3 * (l3 + n3 * c0 + n2 * c1 + n1) + B ^ 4 * (n3 * c1 + n2) + B ^ 5 * n3 =
    (l0 + B * l1 + B ^ 2 * l2 + B ^ 3 * l3) + (n0 + B * n1 + B ^ 2 * n2 + B ^ 3 * n3) * (c0 + B * c1 + B ^ 2 * 1)"
  by algebra

lemma carry_out: "B ^ 5 * (t mod B) + B ^ 6 * (t div B) = B ^ 5 * t" for B t :: int
proof -
  have "B ^ 5 * (t mod B) + B ^ 6 * (t div B) = B ^ 5 * (t mod B + B * (t div B))" by algebra
  then show ?thesis by (simp only: mod_mult_div_eq)
qed

lemma limb_less: "uint x < 2 ^ 64" for x :: u64
  using u64_bounds [of x] by simp

lemma reduce_512_into_385_val:
  fixes l0 l1 l2 l3 n0 n1 n2 n3 :: u64
  defines "L \<equiv> uint l0 + 2 ^ 64 * uint l1 + (2 ^ 64) ^ 2 * uint l2 + (2 ^ 64) ^ 3 * uint l3"
    and "N \<equiv> uint n0 + 2 ^ 64 * uint n1 + (2 ^ 64) ^ 2 * uint n2 + (2 ^ 64) ^ 3 * uint n3"
  obtains m0 m1 m2 m3 m4 m5 m6 where
    "reduce_512_into_385 [l0, l1, l2, l3, n0, n1, n2, n3] = (m0, m1, m2, m3, m4, m5, m6)"
    "uint m0 + 2 ^ 64 * uint m1 + (2 ^ 64) ^ 2 * uint m2 + (2 ^ 64) ^ 3 * uint m3 + (2 ^ 64) ^ 4 * uint m4 +
       (2 ^ 64) ^ 5 * uint m5 + (2 ^ 64) ^ 6 * uint m6 = L + N * sc_C"
    "uint m6 < 4"
proof -
  let ?C0 = "uint SECP256K1_N_C_0" and ?C1 = "uint SECP256K1_N_C_1"
  define k0 where "k0 = muladd_fast n0 SECP256K1_N_C_0 (l0, 0, 0 :: u64)"
  define k1 where "k1 = muladd n0 SECP256K1_N_C_1 (muladd n1 SECP256K1_N_C_0 (sumadd_fast l1 (extract_fast k0)))"
  define k2 where "k2 = sumadd n0 (muladd n1 SECP256K1_N_C_1 (muladd n2 SECP256K1_N_C_0 (sumadd l2 (extract_full k1))))"
  define k3 where "k3 = sumadd n1 (muladd n2 SECP256K1_N_C_1 (muladd n3 SECP256K1_N_C_0 (sumadd l3 (extract_full k2))))"
  define k4 where "k4 = sumadd n2 (muladd n3 SECP256K1_N_C_1 (extract_full k3))"
  define k5 where "k5 = sumadd_fast n3 (extract_full k4)"
  define m6 where "m6 = (ucast (fst (extract_fast k5)) :: u32)"
  have l: "reduce_512_into_385 [l0, l1, l2, l3, n0, n1, n2, n3] = (fst k0, fst k1, fst k2, fst k3, fst k4, fst k5, m6)"
    by (simp add: reduce_512_into_385_def Let_def k0_def k1_def k2_def k3_def k4_def k5_def m6_def)
  define t0 where "t0 = uint l0 + uint n0 * ?C0"
  define t1 where "t1 = t0 div 2 ^ 64 + uint l1 + uint n1 * ?C0 + uint n0 * ?C1"
  define t2 where "t2 = t1 div 2 ^ 64 + uint l2 + uint n2 * ?C0 + uint n1 * ?C1 + uint n0"
  define t3 where "t3 = t2 div 2 ^ 64 + uint l3 + uint n3 * ?C0 + uint n2 * ?C1 + uint n1"
  define t4 where "t4 = t3 div 2 ^ 64 + uint n3 * ?C1 + uint n2"
  define t5 where "t5 = t4 div 2 ^ 64 + uint n3"
  have "t0 < 2 ^ 128" using limb_less [of l0] limb_less [of n0] unfolding t0_def N_C_limbs by simp
  then have k0: "acc_is k0 t0 1" unfolding k0_def t0_def by (intro acc_is_muladd_fast [OF acc_is_init])
  have "acc_is (sumadd_fast l1 (extract_fast k0)) (t0 div 2 ^ 64 + uint l1) 1"
    using acc_is_extract_fast [OF k0] limb_less [of l1] by (intro acc_is_sumadd_fast) simp_all
  then have k1: "acc_is k1 t1 (Suc (Suc 1))" unfolding k1_def t1_def by (intro acc_is_muladd) simp_all
  have k2: "acc_is k2 t2 (Suc (Suc (Suc (Suc 1))))"
    unfolding k2_def t2_def by (intro acc_is_muladd acc_is_sumadd acc_is_extract(1) [OF k1]) simp_all
  have k3: "acc_is k3 t3 (Suc (Suc (Suc (Suc 1))))"
    unfolding k3_def t3_def by (intro acc_is_muladd acc_is_sumadd acc_is_extract(1) [OF k2]) simp_all
  have k4: "acc_is k4 t4 (Suc (Suc 1))"
    unfolding k4_def t4_def by (intro acc_is_muladd acc_is_sumadd acc_is_extract(1) [OF k3]) simp_all
  have t5: "0 \<le> t5" "t5 < 4 * 2 ^ 64" using acc_is_extract(2,3) [OF k4] limb_less [of n3] unfolding t5_def by simp_all
  have k5: "acc_is k5 t5 1"
    unfolding k5_def t5_def
    by (rule acc_is_sumadd_fast [OF acc_is_extract(1) [OF k4]]) (use t5 in \<open>simp_all add: t5_def\<close>)
  have q: "0 \<le> t5 div 2 ^ 64" "t5 div 2 ^ 64 < 4" using carry_bound [of t5 4] t5 by simp_all
  then have m6: "uint m6 = t5 div 2 ^ 64"
    using acc_is_fst [OF acc_is_extract_fast(1) [OF k5]] unfolding m6_def
    by (simp add: unsigned_ucast_eq take_bit_eq_mod)
  have "t0 mod 2 ^ 64 + 2 ^ 64 * (t1 mod 2 ^ 64) + (2 ^ 64) ^ 2 * (t2 mod 2 ^ 64) + (2 ^ 64) ^ 3 * (t3 mod 2 ^ 64)
      + (2 ^ 64) ^ 4 * (t4 mod 2 ^ 64) + (2 ^ 64) ^ 5 * t5 =
      t0 + 2 ^ 64 * (uint l1 + uint n1 * ?C0 + uint n0 * ?C1) + (2 ^ 64) ^ 2 * (uint l2 + uint n2 * ?C0 + uint n1 * ?C1 + uint n0)
      + (2 ^ 64) ^ 3 * (uint l3 + uint n3 * ?C0 + uint n2 * ?C1 + uint n1) + (2 ^ 64) ^ 4 * (uint n3 * ?C1 + uint n2)
      + (2 ^ 64) ^ 5 * uint n3"
    by (rule fold_columns) (simp_all only: t1_def t2_def t3_def t4_def t5_def add.assoc)
  also have "\<dots> = L + N * (?C0 + 2 ^ 64 * ?C1 + (2 ^ 64) ^ 2 * 1)"
    unfolding t0_def L_def N_def by (rule fold_product)
  also have "\<dots> = L + N * sc_C" unfolding N_C_limbs sc_C_limbs(1) ..
  finally have total: "t0 mod 2 ^ 64 + 2 ^ 64 * (t1 mod 2 ^ 64) + (2 ^ 64) ^ 2 * (t2 mod 2 ^ 64) + (2 ^ 64) ^ 3 * (t3 mod 2 ^ 64)
      + (2 ^ 64) ^ 4 * (t4 mod 2 ^ 64) + (2 ^ 64) ^ 5 * t5 = L + N * sc_C" .
  note fsts = acc_is_fst [OF k0] acc_is_fst [OF k1] acc_is_fst [OF k2] acc_is_fst [OF k3] acc_is_fst [OF k4] acc_is_fst [OF k5]
  have "uint (fst k0) + 2 ^ 64 * uint (fst k1) + (2 ^ 64) ^ 2 * uint (fst k2) + (2 ^ 64) ^ 3 * uint (fst k3)
      + (2 ^ 64) ^ 4 * uint (fst k4) + (2 ^ 64) ^ 5 * uint (fst k5) + (2 ^ 64) ^ 6 * uint m6 = L + N * sc_C"
    unfolding fsts m6 total [symmetric] carry_out [of "2 ^ 64" t5, symmetric] by (simp only: add.assoc)
  with l show ?thesis by (rule that) (simp only: q m6)
qed

section \<open>385 to 258 bits\<close>

lemma reduce_385_into_258_val:
  fixes m0 m1 m2 m3 m4 m5 :: u64 and m6 :: u32
  defines "M \<equiv> uint m0 + 2 ^ 64 * uint m1 + (2 ^ 64) ^ 2 * uint m2 + (2 ^ 64) ^ 3 * uint m3"
    and "H \<equiv> uint m4 + 2 ^ 64 * uint m5 + (2 ^ 64) ^ 2 * uint m6 + (2 ^ 64) ^ 3 * 0"
  assumes m6: "uint m6 < 4"
  obtains p0 p1 p2 p3 p4 where
    "reduce_385_into_258 (m0, m1, m2, m3, m4, m5, m6) = (p0, p1, p2, p3, p4)"
    "uint p0 + 2 ^ 64 * uint p1 + (2 ^ 64) ^ 2 * uint p2 + (2 ^ 64) ^ 3 * uint p3 + (2 ^ 64) ^ 4 * uint p4 = M + H * sc_C"
proof -
  let ?C0 = "uint SECP256K1_N_C_0" and ?C1 = "uint SECP256K1_N_C_1"
  have u6: "uint (ucast m6 :: u64) = uint m6" by (simp add: uint_up_ucast is_up)
  define k0 where "k0 = muladd_fast m4 SECP256K1_N_C_0 (m0, 0, 0 :: u64)"
  define k1 where "k1 = muladd m4 SECP256K1_N_C_1 (muladd m5 SECP256K1_N_C_0 (sumadd_fast m1 (extract_fast k0)))"
  define k2 where "k2 = sumadd m4 (muladd m5 SECP256K1_N_C_1 (muladd (ucast m6) SECP256K1_N_C_0 (sumadd m2 (extract_full k1))))"
  define k3 where "k3 = sumadd_fast m5 (muladd_fast (ucast m6) SECP256K1_N_C_1 (sumadd_fast m3 (extract_full k2)))"
  define p4 where "p4 = (ucast (fst (extract_fast k3) + ucast m6) :: u32)"
  have l: "reduce_385_into_258 (m0, m1, m2, m3, m4, m5, m6) = (fst k0, fst k1, fst k2, fst k3, p4)"
    by (simp add: reduce_385_into_258_def Let_def k0_def k1_def k2_def k3_def p4_def)
  define t0 where "t0 = uint m0 + uint m4 * ?C0"
  define t1 where "t1 = t0 div 2 ^ 64 + uint m1 + uint m5 * ?C0 + uint m4 * ?C1"
  define t2 where "t2 = t1 div 2 ^ 64 + uint m2 + uint m6 * ?C0 + uint m5 * ?C1 + uint m4"
  define t3 where "t3 = t2 div 2 ^ 64 + uint m3 + uint m6 * ?C1 + uint m5"
  have "t0 < 2 ^ 128" using limb_less [of m0] limb_less [of m4] unfolding t0_def N_C_limbs by simp
  then have k0: "acc_is k0 t0 1" unfolding k0_def t0_def by (intro acc_is_muladd_fast [OF acc_is_init])
  have "acc_is (sumadd_fast m1 (extract_fast k0)) (t0 div 2 ^ 64 + uint m1) 1"
    using acc_is_extract_fast [OF k0] limb_less [of m1] by (intro acc_is_sumadd_fast) simp_all
  then have k1: "acc_is k1 t1 (Suc (Suc 1))" unfolding k1_def t1_def by (intro acc_is_muladd) simp_all
  have k2: "acc_is k2 t2 (Suc (Suc (Suc (Suc 1))))"
    unfolding k2_def t2_def u6 [symmetric]
    by (intro acc_is_muladd acc_is_sumadd acc_is_extract(1) [OF k1]) simp_all
  have e: "acc_is (extract_full k2) (t2 div 2 ^ 64) 1" by (rule acc_is_extract(1) [OF k2]) simp_all
  have c2: "t2 div 2 ^ 64 < 5 * 2 ^ 64" "0 \<le> t2 div 2 ^ 64" using acc_is_extract(2,3) [OF k2] by simp_all
  have b: "uint m6 * ?C1 < 2 ^ 66" "0 \<le> uint m6 * ?C1" using m6 unfolding N_C_limbs by simp_all
  have t3: "0 \<le> t3" "t3 < 16 * 2 ^ 64" using c2 b limb_less [of m3] limb_less [of m5] unfolding t3_def by simp_all
  have f1: "acc_is (sumadd_fast m3 (extract_full k2)) (t2 div 2 ^ 64 + uint m3) 1"
    by (rule acc_is_sumadd_fast [OF e]) (use c2 limb_less [of m3] in simp)
  have f2: "acc_is (muladd_fast (ucast m6) SECP256K1_N_C_1 (sumadd_fast m3 (extract_full k2)))
      (t2 div 2 ^ 64 + uint m3 + uint m6 * ?C1) 1"
    unfolding u6 [symmetric]
    by (rule acc_is_muladd_fast [OF f1]) (use c2 b limb_less [of m3] in \<open>simp add: u6\<close>)
  have k3: "acc_is k3 t3 1"
    unfolding k3_def t3_def
    by (rule acc_is_sumadd_fast [OF f2]) (use t3 in \<open>simp add: t3_def\<close>)
  have q: "0 \<le> t3 div 2 ^ 64" "t3 div 2 ^ 64 < 16" using carry_bound [of t3 16] t3 by simp_all
  have f: "uint (fst (extract_fast k3)) = t3 div 2 ^ 64"
    using acc_is_fst [OF acc_is_extract_fast(1) [OF k3]] q by simp
  then have "uint (fst (extract_fast k3) + ucast m6) = t3 div 2 ^ 64 + uint m6"
    using q m6 by (subst uint_add_exact) (simp_all add: u6)
  then have p4: "uint p4 = t3 div 2 ^ 64 + uint m6"
    using q m6 unfolding p4_def by (simp add: unsigned_ucast_eq take_bit_eq_mod)
  define t4 where "t4 = t3 div 2 ^ 64 + uint m6"
  have "t0 mod 2 ^ 64 + 2 ^ 64 * (t1 mod 2 ^ 64) + (2 ^ 64) ^ 2 * (t2 mod 2 ^ 64) + (2 ^ 64) ^ 3 * (t3 mod 2 ^ 64)
      + (2 ^ 64) ^ 4 * (t4 mod 2 ^ 64) + (2 ^ 64) ^ 5 * (t4 div 2 ^ 64 + 0) =
      t0 + 2 ^ 64 * (uint m1 + uint m5 * ?C0 + uint m4 * ?C1) + (2 ^ 64) ^ 2 * (uint m2 + uint m6 * ?C0 + uint m5 * ?C1 + uint m4)
      + (2 ^ 64) ^ 3 * (uint m3 + uint m6 * ?C1 + uint m5) + (2 ^ 64) ^ 4 * uint m6 + (2 ^ 64) ^ 5 * 0"
    by (rule fold_columns) (simp_all only: t1_def t2_def t3_def t4_def add.assoc)
  also have "\<dots> = t0 + 2 ^ 64 * (uint m1 + uint m5 * ?C0 + uint m4 * ?C1) + (2 ^ 64) ^ 2 * (uint m2 + uint m6 * ?C0 + uint m5 * ?C1 + uint m4)
      + (2 ^ 64) ^ 3 * (uint m3 + 0 * ?C0 + uint m6 * ?C1 + uint m5) + (2 ^ 64) ^ 4 * (0 * ?C1 + uint m6) + (2 ^ 64) ^ 5 * 0"
    by (simp only: mult_zero_left add_0_right add_0_left)
  also have "\<dots> = M + H * (?C0 + 2 ^ 64 * ?C1 + (2 ^ 64) ^ 2 * 1)"
    unfolding t0_def M_def H_def by (rule fold_product)
  also have "\<dots> = M + H * sc_C" unfolding N_C_limbs sc_C_limbs(1) ..
  finally have total: "t0 mod 2 ^ 64 + 2 ^ 64 * (t1 mod 2 ^ 64) + (2 ^ 64) ^ 2 * (t2 mod 2 ^ 64) + (2 ^ 64) ^ 3 * (t3 mod 2 ^ 64)
      + (2 ^ 64) ^ 4 * (t4 mod 2 ^ 64) + (2 ^ 64) ^ 5 * (t4 div 2 ^ 64 + 0) = M + H * sc_C" .
  have t4: "t4 mod 2 ^ 64 = t4" "t4 div 2 ^ 64 = 0" using q m6 unfolding t4_def by simp_all
  note fsts = acc_is_fst [OF k0] acc_is_fst [OF k1] acc_is_fst [OF k2] acc_is_fst [OF k3]
  have "uint (fst k0) + 2 ^ 64 * uint (fst k1) + (2 ^ 64) ^ 2 * uint (fst k2) + (2 ^ 64) ^ 3 * uint (fst k3)
      + (2 ^ 64) ^ 4 * uint p4 = M + H * sc_C"
    using total unfolding fsts p4 t4_def [symmetric] t4 mult_zero_right add_0_right .
  with l show ?thesis by (rule that)
qed

section \<open>258 to 256 bits\<close>

lemma short_columns:
  fixes B :: int
  assumes "t1 = t0 div B + S1" "t2 = t1 div B + S2" "t3 = t2 div B + S3"
  shows "t0 mod B + B * (t1 mod B) + B ^ 2 * (t2 mod B) + B ^ 3 * (t3 mod B) + B ^ 4 * (t3 div B) =
    t0 + B * S1 + B ^ 2 * S2 + B ^ 3 * S3"
proof -
  note m = minus_mult_div_eq_mod [symmetric, of _ B]
  define q0 q1 q2 q3 where "q0 = t0 div B" "q1 = t1 div B" "q2 = t2 div B" "q3 = t3 div B"
  have "t0 mod B = t0 - B * q0" "t1 mod B = q0 + S1 - B * q1" "t2 mod B = q1 + S2 - B * q2" "t3 mod B = q2 + S3 - B * q3"
    unfolding m q0_q1_q2_q3_def by (simp_all add: assms)
  then show ?thesis unfolding q0_q1_q2_q3_def(4) [symmetric] by algebra
qed

lemma short_product:
  fixes B :: int
  shows "(x0 + p * c0) + B * (x1 + p * c1) + B ^ 2 * (x2 + p) + B ^ 3 * x3 =
    x0 + B * x1 + B ^ 2 * x2 + B ^ 3 * x3 + p * (c0 + B * c1 + B ^ 2 * 1)"
  by algebra

lemma reduce_258_into_256_val:
  fixes p0 p1 p2 p3 :: u64 and p4 :: u32
  defines "P \<equiv> uint p0 + 2 ^ 64 * uint p1 + (2 ^ 64) ^ 2 * uint p2 + (2 ^ 64) ^ 3 * uint p3 + uint p4 * sc_C"
  obtains r c where "reduce_258_into_256 (p0, p1, p2, p3, p4) = (r, c)" "sc_val r + 2 ^ 256 * uint c = P"
proof -
  have u4: "uint (ucast p4 :: u64) = uint p4" by (simp add: uint_up_ucast is_up)
  have p4: "uint p4 < 2 ^ 32" using uint_lt2p [of p4] by simp
  have pC: "0 \<le> uint p4 * uint SECP256K1_N_C_0" "uint p4 * uint SECP256K1_N_C_0 < 2 ^ 96"
    "0 \<le> uint p4 * uint SECP256K1_N_C_1" "uint p4 * uint SECP256K1_N_C_1 < 2 ^ 96"
    using p4 unfolding N_C_limbs by simp_all
  define t0 where "t0 = secp256k1_u128_accum_mul (secp256k1_u128_from_u64 p0) SECP256K1_N_C_0 (ucast p4)"
  define t1 where "t1 = secp256k1_u128_accum_mul (secp256k1_u128_accum_u64 (secp256k1_u128_rshift t0 64) p1) SECP256K1_N_C_1 (ucast p4)"
  define t2 where "t2 = secp256k1_u128_accum_u64 (secp256k1_u128_accum_u64 (secp256k1_u128_rshift t1 64) p2) (ucast p4)"
  define t3 where "t3 = secp256k1_u128_accum_u64 (secp256k1_u128_rshift t2 64) p3"
  have v0: "uint t0 = uint p0 + uint p4 * uint SECP256K1_N_C_0"
    unfolding t0_def using pC limb_less [of p0] by (subst uint_u128_accum_mul) (simp_all add: u4 mult.commute)
  have d: "uint t div 2 ^ 64 < 2 ^ 64" "0 \<le> uint t div 2 ^ 64" for t :: u128
    using carry_bound [of "uint t" "2 ^ 64"] uint_lt2p [of t] by simp_all
  have "uint (secp256k1_u128_accum_u64 (secp256k1_u128_rshift t0 64) p1) = uint t0 div 2 ^ 64 + uint p1"
    using d [of t0] limb_less [of p1] by (subst uint_u128_accum_u64) simp_all
  then have v1: "uint t1 = uint t0 div 2 ^ 64 + uint p1 + uint p4 * uint SECP256K1_N_C_1"
    unfolding t1_def using pC limb_less [of p1] d [of t0] by (subst uint_u128_accum_mul) (simp_all add: u4 mult.commute)
  have v2: "uint t2 = uint t1 div 2 ^ 64 + uint p2 + uint p4" unfolding t2_def accum_step u4 ..
  have v3: "uint t3 = uint t2 div 2 ^ 64 + uint p3"
    unfolding t3_def using d [of t2] limb_less [of p3] by (subst uint_u128_accum_u64) simp_all
  define r where "r = mk_sc (secp256k1_u128_to_u64 t0) (secp256k1_u128_to_u64 t1) (secp256k1_u128_to_u64 t2) (secp256k1_u128_to_u64 t3)"
  have l: "reduce_258_into_256 (p0, p1, p2, p3, p4) = (r, secp256k1_u128_hi_u64 t3)"
    by (simp add: reduce_258_into_256_def Let_def t0_def t1_def t2_def t3_def r_def)
  have "sc_val r + 2 ^ 256 * uint (secp256k1_u128_hi_u64 t3) =
      uint t0 mod 2 ^ 64 + 2 ^ 64 * (uint t1 mod 2 ^ 64) + (2 ^ 64) ^ 2 * (uint t2 mod 2 ^ 64)
      + (2 ^ 64) ^ 3 * (uint t3 mod 2 ^ 64) + (2 ^ 64) ^ 4 * (uint t3 div 2 ^ 64)"
    unfolding sc_val_base r_def by (simp add: u4)
  also have "\<dots> = uint t0 + 2 ^ 64 * (uint p1 + uint p4 * uint SECP256K1_N_C_1) + (2 ^ 64) ^ 2 * (uint p2 + uint p4) + (2 ^ 64) ^ 3 * uint p3"
    by (rule short_columns) (simp_all only: v1 v2 v3 add.assoc)
  also have "\<dots> = P" unfolding v0 P_def sc_C_limbs(1) N_C_limbs by (rule short_product)
  finally have "sc_val r + 2 ^ 256 * uint (secp256k1_u128_hi_u64 t3) = P" .
  with l show ?thesis by (rule that)
qed

section \<open>The residue\<close>

lemma fold_mod_n: "(L + N * sc_C) mod secp256k1_n = (L + 2 ^ 256 * N) mod secp256k1_n"
proof -
  have "L + 2 ^ 256 * N = L + N * sc_C + N * secp256k1_n" by (simp add: sc_C_def algebra_simps)
  then have "(L + 2 ^ 256 * N) mod secp256k1_n = (L + N * sc_C + N * secp256k1_n) mod secp256k1_n" by (simp only:)
  then show ?thesis by simp
qed

lemma scalar_reduce_512_val:
  "sc_val (secp256k1_scalar_reduce_512 [l0, l1, l2, l3, l4, l5, l6, l7]) =
    limbs_val [l0, l1, l2, l3, l4, l5, l6, l7] mod secp256k1_n"
proof -
  obtain m0 m1 m2 m3 m4 m5 m6 where m: "reduce_512_into_385 [l0, l1, l2, l3, l4, l5, l6, l7] = (m0, m1, m2, m3, m4, m5, m6)"
    "uint m0 + 2 ^ 64 * uint m1 + (2 ^ 64) ^ 2 * uint m2 + (2 ^ 64) ^ 3 * uint m3 + (2 ^ 64) ^ 4 * uint m4 +
       (2 ^ 64) ^ 5 * uint m5 + (2 ^ 64) ^ 6 * uint m6 = uint l0 + 2 ^ 64 * uint l1 + (2 ^ 64) ^ 2 * uint l2 + (2 ^ 64) ^ 3 * uint l3
       + (uint l4 + 2 ^ 64 * uint l5 + (2 ^ 64) ^ 2 * uint l6 + (2 ^ 64) ^ 3 * uint l7) * sc_C" "uint m6 < 4"
    by (rule reduce_512_into_385_val)
  obtain p0 p1 p2 p3 p4 where p: "reduce_385_into_258 (m0, m1, m2, m3, m4, m5, m6) = (p0, p1, p2, p3, p4)"
    "uint p0 + 2 ^ 64 * uint p1 + (2 ^ 64) ^ 2 * uint p2 + (2 ^ 64) ^ 3 * uint p3 + (2 ^ 64) ^ 4 * uint p4 =
      uint m0 + 2 ^ 64 * uint m1 + (2 ^ 64) ^ 2 * uint m2 + (2 ^ 64) ^ 3 * uint m3 +
      (uint m4 + 2 ^ 64 * uint m5 + (2 ^ 64) ^ 2 * uint m6 + (2 ^ 64) ^ 3 * 0) * sc_C"
    by (rule reduce_385_into_258_val [OF m(3)])
  obtain r c where r: "reduce_258_into_256 (p0, p1, p2, p3, p4) = (r, c)"
    "sc_val r + 2 ^ 256 * uint c = uint p0 + 2 ^ 64 * uint p1 + (2 ^ 64) ^ 2 * uint p2 + (2 ^ 64) ^ 3 * uint p3 + uint p4 * sc_C"
    by (rule reduce_258_into_256_val)
  define R where "R = sc_val r + 2 ^ 256 * uint c"
  have "limbs_val [l0, l1, l2, l3, l4, l5, l6, l7] mod secp256k1_n =
      (uint l0 + 2 ^ 64 * uint l1 + (2 ^ 64) ^ 2 * uint l2 + (2 ^ 64) ^ 3 * uint l3
       + 2 ^ 256 * (uint l4 + 2 ^ 64 * uint l5 + (2 ^ 64) ^ 2 * uint l6 + (2 ^ 64) ^ 3 * uint l7)) mod secp256k1_n"
    by (rule arg_cong [of _ _ "\<lambda>x. x mod secp256k1_n"]) (simp add: limbs_val_def)
  also have "\<dots> = (uint m0 + 2 ^ 64 * uint m1 + (2 ^ 64) ^ 2 * uint m2 + (2 ^ 64) ^ 3 * uint m3
      + 2 ^ 256 * (uint m4 + 2 ^ 64 * uint m5 + (2 ^ 64) ^ 2 * uint m6 + (2 ^ 64) ^ 3 * 0)) mod secp256k1_n"
    by (subst fold_mod_n [symmetric], subst m(2) [symmetric])
      (rule arg_cong [of _ _ "\<lambda>x. x mod secp256k1_n"], simp)
  also have "\<dots> = (uint p0 + 2 ^ 64 * uint p1 + (2 ^ 64) ^ 2 * uint p2 + (2 ^ 64) ^ 3 * uint p3 + 2 ^ 256 * uint p4) mod secp256k1_n"
    by (subst fold_mod_n [symmetric], subst p(2) [symmetric])
      (rule arg_cong [of _ _ "\<lambda>x. x mod secp256k1_n"], simp)
  also have "\<dots> = R mod secp256k1_n" unfolding R_def r(2) fold_mod_n ..
  finally have "limbs_val [l0, l1, l2, l3, l4, l5, l6, l7] mod secp256k1_n = R mod secp256k1_n" .
  moreover have R: "0 \<le> R" "R < 2 ^ 256 + 2 ^ 162"
  proof -
    show "0 \<le> R" using sc_val_bounds [of r] by (simp add: R_def)
    have "uint p4 * sc_C \<le> 2 ^ 32 * 2 ^ 129" using uint_lt2p [of p4] sc_C_limbs(2,3) by (intro mult_mono) simp_all
    then show "R < 2 ^ 256 + 2 ^ 162"
      using limb_less [of p0] limb_less [of p1] limb_less [of p2] limb_less [of p3] unfolding R_def r(2) by simp
  qed
  moreover have "sc_val (secp256k1_scalar_reduce_512 [l0, l1, l2, l3, l4, l5, l6, l7]) = R mod secp256k1_n"
  proof -
    obtain ci where ci: "uint c = ci" "0 \<le> ci" by simp
    have c: "uint c = of_bool (2 ^ 256 \<le> R)" using R sc_val_bounds [of r] ci(2) unfolding R_def ci(1) by auto
    have lo: "secp256k1_n \<le> sc_val r \<longleftrightarrow> secp256k1_n \<le> R \<and> R < 2 ^ 256"
      using R c unfolding R_def secp256k1_n_def by (cases "2 ^ 256 \<le> R") (auto simp: R_def)
    have "c = b2w (2 ^ 256 \<le> R)" using c by (simp add: word_uint_eq_iff)
    then have "c + b2w (secp256k1_scalar_check_overflow r) = b2w (secp256k1_n \<le> R)"
      using lo by (auto simp: check_overflow_iff b2w_def secp256k1_n_def)
    then have "sc_val (secp256k1_scalar_reduce_512 [l0, l1, l2, l3, l4, l5, l6, l7]) =
        (sc_val r - of_bool (secp256k1_n \<le> R) * secp256k1_n + 2 ^ 256 * uint c) mod 2 ^ 256"
      by (simp add: secp256k1_scalar_reduce_512_def Let_def m(1) p(1) r(1) reduce_val)
    also have "\<dots> = (R - of_bool (secp256k1_n \<le> R) * secp256k1_n) mod 2 ^ 256"
      by (rule arg_cong [of _ _ "\<lambda>x. x mod 2 ^ 256"]) (simp add: R_def)
    also have "\<dots> = R - of_bool (secp256k1_n \<le> R) * secp256k1_n"
      using R by (intro mod_pos_pos_trivial) (auto simp: secp256k1_n_def)
    also have "\<dots> = R mod secp256k1_n" using R by (intro mod_sub_once [symmetric]) (auto simp: secp256k1_n_def)
    finally show ?thesis .
  qed
  ultimately show ?thesis by simp
qed

lemma scalar_mul_val: "sc_val (secp256k1_scalar_mul a b) = sc_val a * sc_val b mod secp256k1_n"
proof -
  obtain l0 l1 l2 l3 l4 l5 l6 l7 where l: "secp256k1_scalar_mul_512 a b = [l0, l1, l2, l3, l4, l5, l6, l7]"
    using scalar_mul_512_val(1) [of a b] by (auto simp: length_Suc_conv eval_nat_numeral)
  show ?thesis
    unfolding secp256k1_scalar_mul_def l scalar_reduce_512_val by (simp only: l [symmetric] scalar_mul_512_val)
qed

end
