(* ===== verification/Scalar_Generic.thy ===== *)
theory Scalar_Generic
  imports Scalar_4x64_Reduce
begin

text \<open>
  The representation-independent scalar code of \<open>src/Vendor/secp256k1/src/scalar_impl.h\<close>: parsing of
  secret keys and the endomorphism split \<open>k = r1 + r2 * lambda (mod n)\<close>, with the bounds that the
  comments of that file argue for. What the code uses of the limb arithmetic is the locale
  \<open>residue_ring\<close>, interpreted on the 4x64 operations.
\<close>

section \<open>Operations\<close>

definition secp256k1_scalar_one :: secp256k1_scalar where
  "secp256k1_scalar_one = SECP256K1_SCALAR_CONST 0 0 0 0 0 0 0 1"

definition secp256k1_scalar_zero :: secp256k1_scalar where
  "secp256k1_scalar_zero = SECP256K1_SCALAR_CONST 0 0 0 0 0 0 0 0"

definition secp256k1_scalar_clear :: "secp256k1_scalar \<Rightarrow> secp256k1_scalar" where
  "secp256k1_scalar_clear r = mk_sc 0 0 0 0"

definition secp256k1_scalar_set_b32_seckey :: "bytes \<Rightarrow> secp256k1_scalar \<times> bool" where
  "secp256k1_scalar_set_b32_seckey bin =
    (let (r, overflow) = secp256k1_scalar_set_b32 bin in (r, \<not> overflow \<and> \<not> secp256k1_scalar_is_zero r))"

definition secp256k1_const_lambda :: secp256k1_scalar where
  "secp256k1_const_lambda = SECP256K1_SCALAR_CONST
     0x5363AD4C 0xC05C30E0 0xA5261C02 0x8812645A 0x122E22EA 0x20816678 0xDF02967C 0x1B23BD72"

definition split_minus_b1 :: secp256k1_scalar where
  "split_minus_b1 = SECP256K1_SCALAR_CONST 0 0 0 0 0xE4437ED6 0x010E8828 0x6F547FA9 0x0ABFE4C3"

definition split_minus_b2 :: secp256k1_scalar where
  "split_minus_b2 = SECP256K1_SCALAR_CONST
     0xFFFFFFFF 0xFFFFFFFF 0xFFFFFFFF 0xFFFFFFFE 0x8A280AC5 0x0774346D 0xD765CDA8 0x3DB1562C"

definition split_g1 :: secp256k1_scalar where
  "split_g1 = SECP256K1_SCALAR_CONST
     0x3086D221 0xA7D46BCD 0xE86C90E4 0x9284EB15 0x3DAA8A14 0x71E8CA7F 0xE893209A 0x45DBB031"

definition split_g2 :: secp256k1_scalar where
  "split_g2 = SECP256K1_SCALAR_CONST
     0xE4437ED6 0x010E8828 0x6F547FA9 0x0ABFE4C4 0x221208AC 0x9DF506C6 0x1571B4AE 0x8AC47F71"

definition secp256k1_scalar_split_lambda :: "secp256k1_scalar \<Rightarrow> secp256k1_scalar \<times> secp256k1_scalar" where
  "secp256k1_scalar_split_lambda k =
    (let c1 = secp256k1_scalar_mul_shift_var k split_g1 384;
         c2 = secp256k1_scalar_mul_shift_var k split_g2 384;
         c1 = secp256k1_scalar_mul c1 split_minus_b1;
         c2 = secp256k1_scalar_mul c2 split_minus_b2;
         (r2, _) = secp256k1_scalar_add c1 c2;
         r1 = secp256k1_scalar_mul r2 secp256k1_const_lambda;
         r1 = secp256k1_scalar_negate r1;
         (r1, _) = secp256k1_scalar_add r1 k
     in (r1, r2))"

text \<open>The checks \<open>secp256k1_scalar_split_lambda_verify\<close> performs on a split.\<close>

definition secp256k1_scalar_split_lambda_verify :: "secp256k1_scalar \<Rightarrow> secp256k1_scalar \<Rightarrow> secp256k1_scalar \<Rightarrow> bool" where
  "secp256k1_scalar_split_lambda_verify r1 r2 k =
    (let k1_bound = replicate 16 0 @ [0xa2, 0xa8, 0x91, 0x8c, 0xa8, 0x5b, 0xaf, 0xe2, 0x20, 0x16, 0xd0, 0xb9, 0x17, 0xe4, 0xdd, 0x77];
         k2_bound = replicate 16 0 @ [0x8a, 0x65, 0x28, 0x7b, 0xd4, 0x71, 0x79, 0xfb, 0x2b, 0xe0, 0x88, 0x46, 0xce, 0xa2, 0x67, 0xed];
         s = secp256k1_scalar_mul secp256k1_const_lambda r2;
         (s, _) = secp256k1_scalar_add s r1
     in secp256k1_scalar_eq s k \<and>
        (secp256k1_memcmp_var (secp256k1_scalar_get_b32 r1) k1_bound < 0 \<or>
         secp256k1_memcmp_var (secp256k1_scalar_get_b32 (secp256k1_scalar_negate r1)) k1_bound < 0) \<and>
        (secp256k1_memcmp_var (secp256k1_scalar_get_b32 r2) k2_bound < 0 \<or>
         secp256k1_memcmp_var (secp256k1_scalar_get_b32 (secp256k1_scalar_negate r2)) k2_bound < 0))"

section \<open>The interface of the ring operations\<close>

locale residue_ring =
  fixes ok :: "'s \<Rightarrow> bool"
    and val :: "'s \<Rightarrow> int"
    and n :: int
    and add :: "'s \<Rightarrow> 's \<Rightarrow> 's"
    and mul :: "'s \<Rightarrow> 's \<Rightarrow> 's"
    and neg :: "'s \<Rightarrow> 's"
  assumes val_range: "ok a \<longleftrightarrow> val a < n" "0 \<le> val a"
    and val_inj: "val a = val b \<Longrightarrow> a = b"
    and val_add: "ok a \<Longrightarrow> ok b \<Longrightarrow> val (add a b) = (val a + val b) mod n"
    and val_mul: "val (mul a b) = val a * val b mod n"
    and val_neg: "ok a \<Longrightarrow> val (neg a) = (- val a) mod n"
begin

lemma ok_self: "ok a \<Longrightarrow> val a mod n = val a"
  using val_range [of a] by simp

lemma modulus_pos: "ok a \<Longrightarrow> 0 < n"
  using val_range [of a] by simp

lemma ok_closed: "ok a \<Longrightarrow> ok b \<Longrightarrow> ok (add a b)" "ok a \<Longrightarrow> ok (mul a b)" "ok a \<Longrightarrow> ok (neg a)"
  by (simp_all add: val_range(1) val_add val_mul val_neg modulus_pos)

lemma neg_neg: "ok a \<Longrightarrow> neg (neg a) = a"
  by (rule val_inj) (simp add: val_neg ok_closed mod_minus_eq ok_self)

lemma add_neg: "ok a \<Longrightarrow> val (add (neg a) a) = 0"
  by (simp add: val_add val_neg ok_closed mod_add_left_eq)

lemma add_commute: "ok a \<Longrightarrow> ok b \<Longrightarrow> add a b = add b a"
  by (rule val_inj) (simp add: val_add add.commute)

lemma add_assoc: "ok a \<Longrightarrow> ok b \<Longrightarrow> ok c \<Longrightarrow> add (add a b) c = add a (add b c)"
  by (rule val_inj) (simp add: val_add ok_closed mod_simps add.assoc)

text \<open>Recovering \<open>k\<close> from \<open>k - r * l\<close> and \<open>r * l\<close>, whatever \<open>r\<close> is.\<close>

lemma split_sum: "ok k \<Longrightarrow> ok r \<Longrightarrow> ok l \<Longrightarrow> add (mul l r) (add (neg (mul r l)) k) = k"
  by (rule val_inj) (simp add: val_add val_mul val_neg ok_closed mod_simps mult.commute ok_self)

end

interpretation sc: residue_ring secp256k1_scalar_verify sc_val secp256k1_n
  "\<lambda>a b. fst (secp256k1_scalar_add a b)" secp256k1_scalar_mul secp256k1_scalar_negate
  by unfold_locales
    (simp_all add: scalar_verify_iff sc_val_bounds sc_val_inj scalar_add_correct scalar_mul_val scalar_negate_correct)

section \<open>Constants and secret keys\<close>

lemma sc_val_constants:
  "sc_val secp256k1_scalar_one = 1" "sc_val secp256k1_scalar_zero = 0"
  "sc_val secp256k1_const_lambda = 0x5363AD4CC05C30E0A5261C028812645A122E22EA20816678DF02967C1B23BD72"
  "sc_val split_minus_b1 = 0xE4437ED6010E88286F547FA90ABFE4C3"
  "sc_val split_minus_b2 = secp256k1_n - 0x3086D221A7D46BCDE86C90E49284EB15"
  "sc_val split_g1 = 0x3086D221A7D46BCDE86C90E49284EB153DAA8A1471E8CA7FE893209A45DBB031"
  "sc_val split_g2 = 0xE4437ED6010E88286F547FA90ABFE4C4221208AC9DF506C61571B4AE8AC47F71"
  by (simp_all add: sc_val_def SECP256K1_SCALAR_CONST_def secp256k1_n_def secp256k1_scalar_one_def
    secp256k1_scalar_zero_def secp256k1_const_lambda_def split_minus_b1_def split_minus_b2_def
    split_g1_def split_g2_def)

lemma scalar_consts_ok: "secp256k1_scalar_verify secp256k1_scalar_one" "secp256k1_scalar_verify secp256k1_scalar_zero"
  "secp256k1_scalar_verify secp256k1_const_lambda"
  by (simp_all add: scalar_verify_iff sc_val_constants secp256k1_n_def)

lemma set_b32_verify: "length b = 32 \<Longrightarrow> secp256k1_scalar_verify (fst (secp256k1_scalar_set_b32 b))"
  by (rule verify_of_mod [OF scalar_set_b32_correct(1)])

lemma set_b32_seckey_correct:
  assumes "length b = 32"
  shows "snd (secp256k1_scalar_set_b32_seckey b) \<longleftrightarrow> 0 < be_val b \<and> be_val b < secp256k1_n"
    and "sc_val (fst (secp256k1_scalar_set_b32_seckey b)) = be_val b mod secp256k1_n"
proof -
  have e: "secp256k1_scalar_set_b32_seckey b = (fst (secp256k1_scalar_set_b32 b),
      \<not> snd (secp256k1_scalar_set_b32 b) \<and> \<not> secp256k1_scalar_is_zero (fst (secp256k1_scalar_set_b32 b)))"
    by (simp add: secp256k1_scalar_set_b32_seckey_def split_beta)
  show "sc_val (fst (secp256k1_scalar_set_b32_seckey b)) = be_val b mod secp256k1_n"
    by (simp add: e scalar_set_b32_correct [OF assms])
  show "snd (secp256k1_scalar_set_b32_seckey b) \<longleftrightarrow> 0 < be_val b \<and> be_val b < secp256k1_n"
    using be_val_bounds(1) [of b]
    by (auto simp: e scalar_set_b32_correct [OF assms] scalar_is_zero_iff not_le dest: zdvd_imp_le)
qed

section \<open>Rounded multiplication\<close>

lemma top_bit_cases: "uint x div 2 ^ 63 = 0 \<or> uint x div 2 ^ 63 = 1" for x :: u64
  using div_pow_less [of "uint x" 64 63] limb_less [of x] pos_imp_zdiv_nonneg_iff [of "2 ^ 63" "uint x"] by auto

lemma round_div: "x div (2 * k) + x div k mod 2 = (x + k) div (2 * k)" if "0 < k" for x k :: int
proof -
  define q where "q = x div k"
  have "(x + k) div (2 * k) = (x + k) div k div 2" by (subst mult.commute, rule zdiv_zmult2_eq) simp
  also have "\<dots> = (q + 1) div 2" unfolding q_def using that by (subst div_add_self2) simp_all
  also have "\<dots> = q div 2 + q mod 2" by presburger
  also have "q div 2 = x div (2 * k)" unfolding q_def by (subst mult.commute, rule zdiv_zmult2_eq [symmetric]) simp
  finally show ?thesis by (simp add: q_def)
qed

lemma limbs_val_8:
  "limbs_val [l0, l1, l2, l3, l4, l5, l6, l7] div 2 ^ 384 = uint l6 + 2 ^ 64 * uint l7"
  "limbs_val [l0, l1, l2, l3, l4, l5, l6, l7] div 2 ^ 383 mod 2 = uint l5 div 2 ^ 63"
proof -
  define lo where "lo = uint l0 + 2 ^ 64 * uint l1 + 2 ^ 128 * uint l2 + 2 ^ 192 * uint l3 + 2 ^ 256 * uint l4"
  have lo: "0 \<le> lo" "lo < 2 ^ 320"
    using limb_less [of l0] limb_less [of l1] limb_less [of l2] limb_less [of l3] limb_less [of l4]
    by (simp_all add: lo_def)
  define h where "h = uint l5 div 2 ^ 63"
  have l5: "uint l5 = uint l5 mod 2 ^ 63 + 2 ^ 63 * h" "0 \<le> uint l5 mod 2 ^ 63" "uint l5 mod 2 ^ 63 < 2 ^ 63"
    unfolding h_def by (simp_all add: mod_mult_div_eq)
  have h01: "0 \<le> h" "h < 2" using top_bit_cases [of l5] by (auto simp only: h_def)
  have v: "limbs_val [l0, l1, l2, l3, l4, l5, l6, l7] =
      (lo + 2 ^ 320 * (uint l5 mod 2 ^ 63)) + 2 ^ 383 * (h + 2 * (uint l6 + 2 ^ 64 * uint l7))"
    unfolding limbs_val_def lo_def using l5(1) by simp
  have d: "limbs_val [l0, l1, l2, l3, l4, l5, l6, l7] div 2 ^ 383 = h + 2 * (uint l6 + 2 ^ 64 * uint l7)"
    unfolding v by (rule digit_split) (use lo l5 in simp_all)
  show "limbs_val [l0, l1, l2, l3, l4, l5, l6, l7] div 2 ^ 383 mod 2 = h"
    unfolding d by (rule digit_split) (use h01 in simp_all)
  have "limbs_val [l0, l1, l2, l3, l4, l5, l6, l7] div 2 ^ 384 = limbs_val [l0, l1, l2, l3, l4, l5, l6, l7] div 2 ^ 383 div 2"
    by (simp add: zdiv_zmult2_eq [symmetric])
  also have "\<dots> = uint l6 + 2 ^ 64 * uint l7" unfolding d by (rule digit_split) (use h01 in simp_all)
  finally show "limbs_val [l0, l1, l2, l3, l4, l5, l6, l7] div 2 ^ 384 = uint l6 + 2 ^ 64 * uint l7" .
qed

lemma mul_shift_384:
  "sc_val (secp256k1_scalar_mul_shift_var a b 384) = (sc_val a * sc_val b + 2 ^ 383) div 2 ^ 384"
proof -
  obtain l0 l1 l2 l3 l4 l5 l6 l7 where l: "secp256k1_scalar_mul_512 a b = [l0, l1, l2, l3, l4, l5, l6, l7]"
    using scalar_mul_512_val(1) [of a b] by (auto simp: length_Suc_conv eval_nat_numeral)
  have x: "sc_val a * sc_val b = limbs_val [l0, l1, l2, l3, l4, l5, l6, l7]" using scalar_mul_512_val(2) [of a b] l by simp
  have "drop_bit 63 l5 AND 1 \<noteq> 0 \<longleftrightarrow> uint (drop_bit 63 l5 AND 1) \<noteq> 0" by (simp add: word_uint_eq_iff)
  also have "\<dots> \<longleftrightarrow> uint l5 div 2 ^ 63 mod 2 \<noteq> 0" by (simp only: uint_and_literals uint_shiftr power_one_right)
  finally have h: "of_bool (drop_bit 63 l5 AND 1 \<noteq> 0) = uint l5 div 2 ^ 63"
    using top_bit_cases [of l5] by auto
  have "secp256k1_scalar_mul_shift_var a b 384 = secp256k1_scalar_cadd_bit (mk_sc l6 l7 0 0) 0 (drop_bit 63 l5 AND 1 \<noteq> 0)"
    by (simp add: secp256k1_scalar_mul_shift_var_def l)
  then have "sc_val (secp256k1_scalar_mul_shift_var a b 384) = (uint l6 + 2 ^ 64 * uint l7 + uint l5 div 2 ^ 63) mod 2 ^ 256"
    by (simp only: cadd_bit_0_val h) (simp add: sc_val_def)
  also have "\<dots> = uint l6 + 2 ^ 64 * uint l7 + uint l5 div 2 ^ 63"
    using limb_less [of l6] limb_less [of l7] top_bit_cases [of l5]
    by (intro mod_pos_pos_trivial) auto
  also have "\<dots> = (sc_val a * sc_val b) div 2 ^ 384 + (sc_val a * sc_val b) div 2 ^ 383 mod 2"
    unfolding x limbs_val_8 ..
  also have "\<dots> = (sc_val a * sc_val b + 2 ^ 383) div 2 ^ 384"
    using round_div [of "2 ^ 383" "sc_val a * sc_val b"] by (simp only: flip: power_Suc) simp
  finally show ?thesis .
qed

section \<open>The endomorphism split\<close>

text \<open>The lattice basis of the comments, \<open>(a1, b1)\<close> and \<open>(a2, b2)\<close>, both in the kernel of the split.\<close>

abbreviation "split_a1 \<equiv> 0x3086D221A7D46BCDE86C90E49284EB15 :: int"
abbreviation "split_mb1 \<equiv> 0xE4437ED6010E88286F547FA90ABFE4C3 :: int"
abbreviation "split_a2 \<equiv> 0x114CA50F7A8E2F3F657C1108D9D44CFD8 :: int"

lemma split_basis:
  "split_a1 - split_mb1 * sc_val secp256k1_const_lambda = secp256k1_n * - 0x4a5ac2bf7b5f37f9f1db10d7a2a9c981"
  "split_a2 + split_a1 * sc_val secp256k1_const_lambda = secp256k1_n * 0xfce9b1dd4eb7dd2718a2906787061b2"
  "split_a1 * split_a1 + split_mb1 * split_a2 = secp256k1_n"
  by (simp_all add: sc_val_constants secp256k1_n_def)

lemma rounded_quotient:
  "\<exists>d. 2 ^ 384 * ((x + 2 ^ 383) div 2 ^ 384) = x + d \<and> - (2 ^ 383) \<le> d \<and> d \<le> 2 ^ 383" for x :: int
proof -
  have "2 ^ 384 * ((x + 2 ^ 383) div 2 ^ 384) = x + (2 ^ 383 - (x + 2 ^ 383) mod 2 ^ 384)"
    unfolding mod_as_div by simp
  moreover have "0 \<le> (x + 2 ^ 383) mod 2 ^ 384" "(x + 2 ^ 383) mod 2 ^ 384 < 2 ^ 384" by simp_all
  ultimately show ?thesis by (intro exI [of _ "2 ^ 383 - (x + 2 ^ 383) mod 2 ^ 384"]) simp
qed

text \<open>
  The short vector: with \<open>c1\<close> and \<open>c2\<close> the rounded quotients, \<open>k - c1 a1 - c2 a2\<close> and
  \<open>- c1 b1 - c2 b2\<close> lie within the bounds of the comments. The error terms are
  \<open>n c1 - k b2\<close> and \<open>n c2 + k b1\<close>.
\<close>

lemma short_vector:
  fixes k :: int
  assumes k: "0 \<le> k" "k < secp256k1_n"
  defines "c1 \<equiv> (k * sc_val split_g1 + 2 ^ 383) div 2 ^ 384" and "c2 \<equiv> (k * sc_val split_g2 + 2 ^ 383) div 2 ^ 384"
  shows "\<bar>k - c1 * split_a1 - c2 * split_a2\<bar> < 0xa2a8918ca85bafe22016d0b917e4dd77"
    and "\<bar>c1 * split_mb1 - c2 * split_a1\<bar> < 0x8a65287bd47179fb2be08846cea267ed"
proof -
  obtain d1 where d1: "2 ^ 384 * c1 = k * sc_val split_g1 + d1" "- (2 ^ 383) \<le> d1" "d1 \<le> 2 ^ 383"
    unfolding c1_def using rounded_quotient by blast
  obtain d2 where d2: "2 ^ 384 * c2 = k * sc_val split_g2 + d2" "- (2 ^ 383) \<le> d2" "d2 \<le> 2 ^ 383"
    unfolding c2_def using rounded_quotient by blast
  show "\<bar>k - c1 * split_a1 - c2 * split_a2\<bar> < 0xa2a8918ca85bafe22016d0b917e4dd77"
    using d1 d2 k unfolding sc_val_constants secp256k1_n_def abs_less_iff by simp
  show "\<bar>c1 * split_mb1 - c2 * split_a1\<bar> < 0x8a65287bd47179fb2be08846cea267ed"
    using d1 d2 k unfolding sc_val_constants secp256k1_n_def abs_less_iff by simp
qed

text \<open>A residue of a short integer is short, or its negation is.\<close>

lemma short_residue:
  assumes "v = x mod secp256k1_n" "\<bar>x\<bar> < b" "b \<le> secp256k1_n"
  shows "v < b \<or> (- v) mod secp256k1_n < b"
proof (cases "0 \<le> x")
  case True
  then have "v = x" using assms by simp
  then show ?thesis using assms(2) True by simp
next
  case False
  have "(- v) mod secp256k1_n = (- x) mod secp256k1_n" unfolding assms(1) by (rule mod_minus_eq)
  also have "\<dots> = - x" using False assms by simp
  finally show ?thesis using False assms(2) by simp
qed

lemma split_lambda_eq:
  fixes k :: secp256k1_scalar
  defines "r2 \<equiv> fst (secp256k1_scalar_add (secp256k1_scalar_mul (secp256k1_scalar_mul_shift_var k split_g1 384) split_minus_b1)
      (secp256k1_scalar_mul (secp256k1_scalar_mul_shift_var k split_g2 384) split_minus_b2))"
  shows "secp256k1_scalar_split_lambda k =
    (fst (secp256k1_scalar_add (secp256k1_scalar_negate (secp256k1_scalar_mul r2 secp256k1_const_lambda)) k), r2)"
  by (simp add: secp256k1_scalar_split_lambda_def Let_def split_beta r2_def)

lemma scalar_mul_verify: "secp256k1_scalar_verify (secp256k1_scalar_mul a b)"
  by (rule verify_of_mod [OF scalar_mul_val])

lemma split_lambda_correct:
  assumes k: "secp256k1_scalar_verify k" and split: "secp256k1_scalar_split_lambda k = (r1, r2)"
  shows "secp256k1_scalar_verify r1" "secp256k1_scalar_verify r2"
    and "fst (secp256k1_scalar_add (secp256k1_scalar_mul secp256k1_const_lambda r2) r1) = k"
    and "sc_val r1 < 0xa2a8918ca85bafe22016d0b917e4dd77 \<or> sc_val (secp256k1_scalar_negate r1) < 0xa2a8918ca85bafe22016d0b917e4dd77"
    and "sc_val r2 < 0x8a65287bd47179fb2be08846cea267ed \<or> sc_val (secp256k1_scalar_negate r2) < 0x8a65287bd47179fb2be08846cea267ed"
proof -
  define c1 c2 where "c1 = (sc_val k * sc_val split_g1 + 2 ^ 383) div 2 ^ 384" "c2 = (sc_val k * sc_val split_g2 + 2 ^ 383) div 2 ^ 384"
  have e: "r2 = fst (secp256k1_scalar_add (secp256k1_scalar_mul (secp256k1_scalar_mul_shift_var k split_g1 384) split_minus_b1)
      (secp256k1_scalar_mul (secp256k1_scalar_mul_shift_var k split_g2 384) split_minus_b2))"
    "r1 = fst (secp256k1_scalar_add (secp256k1_scalar_negate (secp256k1_scalar_mul r2 secp256k1_const_lambda)) k)"
    using split unfolding split_lambda_eq by auto
  show ok2: "secp256k1_scalar_verify r2" unfolding e(1) by (intro sc.ok_closed scalar_mul_verify)
  show ok1: "secp256k1_scalar_verify r1" unfolding e(2) by (intro sc.ok_closed scalar_mul_verify k)
  show "fst (secp256k1_scalar_add (secp256k1_scalar_mul secp256k1_const_lambda r2) r1) = k"
    unfolding e(2) by (rule sc.split_sum [OF k ok2 scalar_consts_ok(3)])
  have v2: "sc_val r2 = (c1 * split_mb1 - c2 * split_a1) mod secp256k1_n"
  proof -
    have "sc_val r2 = (c1 * split_mb1 + c2 * (secp256k1_n - split_a1)) mod secp256k1_n"
      unfolding e(1) sc.val_add [OF scalar_mul_verify scalar_mul_verify] scalar_mul_val mul_shift_384 c1_c2_def [symmetric]
        sc_val_constants(4,5) by (simp only: mod_add_eq)
    also have "c1 * split_mb1 + c2 * (secp256k1_n - split_a1) = c1 * split_mb1 - c2 * split_a1 + secp256k1_n * c2" by algebra
    finally show ?thesis by simp
  qed
  have v1: "sc_val r1 = (sc_val k - c1 * split_a1 - c2 * split_a2) mod secp256k1_n"
  proof -
    let ?l = "sc_val secp256k1_const_lambda"
    have "sc_val r1 = (- (sc_val r2 * ?l mod secp256k1_n) mod secp256k1_n + sc_val k) mod secp256k1_n"
      unfolding e(2) by (simp only: sc.val_add [OF sc.ok_closed(3) k] sc.val_neg scalar_mul_verify scalar_mul_val)
    also have "\<dots> = (- ((c1 * split_mb1 - c2 * split_a1) * ?l) + sc_val k) mod secp256k1_n"
      unfolding v2 by (simp only: mod_simps)
    also have "- ((c1 * split_mb1 - c2 * split_a1) * ?l) + sc_val k =
        (sc_val k - c1 * split_a1 - c2 * split_a2) + (c1 * (split_a1 - split_mb1 * ?l) + c2 * (split_a2 + split_a1 * ?l))"
      by algebra
    also have "\<dots> = (sc_val k - c1 * split_a1 - c2 * split_a2) +
        secp256k1_n * (c1 * - 0x4a5ac2bf7b5f37f9f1db10d7a2a9c981 + c2 * 0xfce9b1dd4eb7dd2718a2906787061b2)"
      unfolding split_basis by algebra
    finally show ?thesis by simp
  qed
  note short = short_vector [of "sc_val k", folded c1_c2_def]
  show "sc_val r1 < 0xa2a8918ca85bafe22016d0b917e4dd77 \<or> sc_val (secp256k1_scalar_negate r1) < 0xa2a8918ca85bafe22016d0b917e4dd77"
    unfolding sc.val_neg [OF ok1]
    by (rule short_residue [OF v1 short(1)]) (use k sc_val_bounds [of k] in \<open>simp_all add: scalar_verify_iff secp256k1_n_def\<close>)
  show "sc_val r2 < 0x8a65287bd47179fb2be08846cea267ed \<or> sc_val (secp256k1_scalar_negate r2) < 0x8a65287bd47179fb2be08846cea267ed"
    unfolding sc.val_neg [OF ok2]
    by (rule short_residue [OF v2 short(2)]) (use k sc_val_bounds [of k] in \<open>simp_all add: scalar_verify_iff secp256k1_n_def\<close>)
qed

lemma memcmp_less: "length as = length bs \<Longrightarrow> secp256k1_memcmp_var as bs < 0 \<longleftrightarrow> be_val as < be_val bs"
  using memcmp_var_sign [of as bs] by (auto simp: sgn_if split: if_splits)

lemma be_val_zeros: "be_val (replicate k 0 @ bs) = be_val bs"
  by (induction k) simp_all

lemma split_lambda_verified:
  assumes "secp256k1_scalar_verify k" "secp256k1_scalar_split_lambda k = (r1, r2)"
  shows "secp256k1_scalar_split_lambda_verify r1 r2 k"
  using split_lambda_correct [OF assms]
  by (simp add: secp256k1_scalar_split_lambda_verify_def Let_def split_beta scalar_eq_iff memcmp_less
    scalar_get_b32_val be_val_zeros)

end
