(* ===== verification/Hash.thy ===== *)
theory Hash
  imports Bytes
begin

text \<open>
  SHA-256, HMAC-SHA256 and the RFC 6979 generator of \<open>src/Vendor/secp256k1/src/hash_impl.h\<close> (types from
  \<open>hash.h\<close>). The unrolled compression function is transcribed round by round: the variables
  \<open>a..h\<close> and \<open>w0..w15\<close> are those of the C code and the macro \<open>Round\<close>, which assigns to its fourth
  and eighth argument, returns the pair of both. Rounds 16 to 63 are three copies of the same text
  with different constants (the last copy does not store \<open>w14\<close> and \<open>w15\<close>, which nothing reads any
  more), hence one definition taking the constants.
\<close>

unbundle bit_operations_syntax

section \<open>Data\<close>

type_synonym sha_state = "u32 \<times> u32 \<times> u32 \<times> u32 \<times> u32 \<times> u32 \<times> u32 \<times> u32"
type_synonym sha_words = "u32 \<times> u32 \<times> u32 \<times> u32 \<times> u32 \<times> u32 \<times> u32 \<times> u32 \<times>
  u32 \<times> u32 \<times> u32 \<times> u32 \<times> u32 \<times> u32 \<times> u32 \<times> u32"

record secp256k1_sha256 =
  sha_s :: sha_state
  sha_buf :: bytes
  sha_bytes :: u64

record secp256k1_hmac_sha256 =
  hmac_inner :: secp256k1_sha256
  hmac_outer :: secp256k1_sha256

record secp256k1_rfc6979_hmac_sha256 =
  rng_v :: bytes
  rng_k :: bytes
  rng_retry :: bool

section \<open>The compression function\<close>

definition Ch :: "u32 \<Rightarrow> u32 \<Rightarrow> u32 \<Rightarrow> u32" where
  "Ch x y z = (z XOR (x AND (y XOR z)))"

definition Maj :: "u32 \<Rightarrow> u32 \<Rightarrow> u32 \<Rightarrow> u32" where
  "Maj x y z = ((x AND y) OR (z AND (x OR y)))"

definition Sigma0 :: "u32 \<Rightarrow> u32" where
  "Sigma0 x = ((drop_bit 2 x OR push_bit 30 x) XOR (drop_bit 13 x OR push_bit 19 x) XOR (drop_bit 22 x OR push_bit 10 x))"

definition Sigma1 :: "u32 \<Rightarrow> u32" where
  "Sigma1 x = ((drop_bit 6 x OR push_bit 26 x) XOR (drop_bit 11 x OR push_bit 21 x) XOR (drop_bit 25 x OR push_bit 7 x))"

definition sigma0 :: "u32 \<Rightarrow> u32" where
  "sigma0 x = ((drop_bit 7 x OR push_bit 25 x) XOR (drop_bit 18 x OR push_bit 14 x) XOR drop_bit 3 x)"

definition sigma1 :: "u32 \<Rightarrow> u32" where
  "sigma1 x = ((drop_bit 17 x OR push_bit 15 x) XOR (drop_bit 19 x OR push_bit 13 x) XOR drop_bit 10 x)"

definition Round ::
    "u32 \<Rightarrow> u32 \<Rightarrow> u32 \<Rightarrow> u32 \<Rightarrow> u32 \<Rightarrow> u32 \<Rightarrow> u32 \<Rightarrow> u32 \<Rightarrow> u32 \<Rightarrow> u32 \<Rightarrow> u32 \<times> u32" where
  "Round a b c d e f g h k w =
    (let t1 = h + Sigma1 e + Ch e f g + k + w;
         t2 = Sigma0 a + Maj a b c
     in (d + t1, t1 + t2))"

definition sha_add :: "sha_state \<Rightarrow> sha_state \<Rightarrow> sha_state" where
  "sha_add = (\<lambda>(s0, s1, s2, s3, s4, s5, s6, s7) (a, b, c, d, e, f, g, h).
     (s0 + a, s1 + b, s2 + c, s3 + d, s4 + e, s5 + f, s6 + g, s7 + h))"

definition sha256_first_rounds :: "sha_state \<Rightarrow> bytes \<Rightarrow> sha_state \<times> sha_words" where
  "sha256_first_rounds = (\<lambda>(a, b, c, d, e, f, g, h) buf.
    (let
         w0 = secp256k1_read_be32 (drop 0 buf); (d, h) = Round a b c d e f g h 0x428a2f98 w0;
         w1 = secp256k1_read_be32 (drop 4 buf); (c, g) = Round h a b c d e f g 0x71374491 w1;
         w2 = secp256k1_read_be32 (drop 8 buf); (b, f) = Round g h a b c d e f 0xb5c0fbcf w2;
         w3 = secp256k1_read_be32 (drop 12 buf); (a, e) = Round f g h a b c d e 0xe9b5dba5 w3;
         w4 = secp256k1_read_be32 (drop 16 buf); (h, d) = Round e f g h a b c d 0x3956c25b w4;
         w5 = secp256k1_read_be32 (drop 20 buf); (g, c) = Round d e f g h a b c 0x59f111f1 w5;
         w6 = secp256k1_read_be32 (drop 24 buf); (f, b) = Round c d e f g h a b 0x923f82a4 w6;
         w7 = secp256k1_read_be32 (drop 28 buf); (e, a) = Round b c d e f g h a 0xab1c5ed5 w7;
         w8 = secp256k1_read_be32 (drop 32 buf); (d, h) = Round a b c d e f g h 0xd807aa98 w8;
         w9 = secp256k1_read_be32 (drop 36 buf); (c, g) = Round h a b c d e f g 0x12835b01 w9;
         w10 = secp256k1_read_be32 (drop 40 buf); (b, f) = Round g h a b c d e f 0x243185be w10;
         w11 = secp256k1_read_be32 (drop 44 buf); (a, e) = Round f g h a b c d e 0x550c7dc3 w11;
         w12 = secp256k1_read_be32 (drop 48 buf); (h, d) = Round e f g h a b c d 0x72be5d74 w12;
         w13 = secp256k1_read_be32 (drop 52 buf); (g, c) = Round d e f g h a b c 0x80deb1fe w13;
         w14 = secp256k1_read_be32 (drop 56 buf); (f, b) = Round c d e f g h a b 0x9bdc06a7 w14;
         w15 = secp256k1_read_be32 (drop 60 buf); (e, a) = Round b c d e f g h a 0xc19bf174 w15
     in ((a, b, c, d, e, f, g, h), (w0, w1, w2, w3, w4, w5, w6, w7, w8, w9, w10, w11, w12, w13, w14, w15))))"

definition sha256_sched_rounds :: "sha_words \<Rightarrow> sha_state \<Rightarrow> sha_words \<Rightarrow> sha_state \<times> sha_words" where
  "sha256_sched_rounds = (\<lambda>(k0, k1, k2, k3, k4, k5, k6, k7, k8, k9, k10, k11, k12, k13, k14, k15)
      (a, b, c, d, e, f, g, h) (w0, w1, w2, w3, w4, w5, w6, w7, w8, w9, w10, w11, w12, w13, w14, w15).
    (let
         w0 = w0 + (sigma1 w14 + w9 + sigma0 w1); (d, h) = Round a b c d e f g h k0 w0;
         w1 = w1 + (sigma1 w15 + w10 + sigma0 w2); (c, g) = Round h a b c d e f g k1 w1;
         w2 = w2 + (sigma1 w0 + w11 + sigma0 w3); (b, f) = Round g h a b c d e f k2 w2;
         w3 = w3 + (sigma1 w1 + w12 + sigma0 w4); (a, e) = Round f g h a b c d e k3 w3;
         w4 = w4 + (sigma1 w2 + w13 + sigma0 w5); (h, d) = Round e f g h a b c d k4 w4;
         w5 = w5 + (sigma1 w3 + w14 + sigma0 w6); (g, c) = Round d e f g h a b c k5 w5;
         w6 = w6 + (sigma1 w4 + w15 + sigma0 w7); (f, b) = Round c d e f g h a b k6 w6;
         w7 = w7 + (sigma1 w5 + w0 + sigma0 w8); (e, a) = Round b c d e f g h a k7 w7;
         w8 = w8 + (sigma1 w6 + w1 + sigma0 w9); (d, h) = Round a b c d e f g h k8 w8;
         w9 = w9 + (sigma1 w7 + w2 + sigma0 w10); (c, g) = Round h a b c d e f g k9 w9;
         w10 = w10 + (sigma1 w8 + w3 + sigma0 w11); (b, f) = Round g h a b c d e f k10 w10;
         w11 = w11 + (sigma1 w9 + w4 + sigma0 w12); (a, e) = Round f g h a b c d e k11 w11;
         w12 = w12 + (sigma1 w10 + w5 + sigma0 w13); (h, d) = Round e f g h a b c d k12 w12;
         w13 = w13 + (sigma1 w11 + w6 + sigma0 w14); (g, c) = Round d e f g h a b c k13 w13;
         w14 = w14 + (sigma1 w12 + w7 + sigma0 w15); (f, b) = Round c d e f g h a b k14 w14;
         w15 = w15 + (sigma1 w13 + w8 + sigma0 w0); (e, a) = Round b c d e f g h a k15 w15
     in ((a, b, c, d, e, f, g, h), (w0, w1, w2, w3, w4, w5, w6, w7, w8, w9, w10, w11, w12, w13, w14, w15))))"

definition secp256k1_sha256_transform :: "sha_state \<Rightarrow> bytes \<Rightarrow> sha_state" where
  "secp256k1_sha256_transform s buf =
    (let (v, w) = sha256_first_rounds s buf;
         (v, w) = sha256_sched_rounds
           (0xe49b69c1, 0xefbe4786, 0x0fc19dc6, 0x240ca1cc, 0x2de92c6f, 0x4a7484aa, 0x5cb0a9dc, 0x76f988da,
            0x983e5152, 0xa831c66d, 0xb00327c8, 0xbf597fc7, 0xc6e00bf3, 0xd5a79147, 0x06ca6351, 0x14292967)
           v w;
         (v, w) = sha256_sched_rounds
           (0x27b70a85, 0x2e1b2138, 0x4d2c6dfc, 0x53380d13, 0x650a7354, 0x766a0abb, 0x81c2c92e, 0x92722c85,
            0xa2bfe8a1, 0xa81a664b, 0xc24b8b70, 0xc76c51a3, 0xd192e819, 0xd6990624, 0xf40e3585, 0x106aa070)
           v w;
         (v, w) = sha256_sched_rounds
           (0x19a4c116, 0x1e376c08, 0x2748774c, 0x34b0bcb5, 0x391c0cb3, 0x4ed8aa4a, 0x5b9cca4f, 0x682e6ff3,
            0x748f82ee, 0x78a5636f, 0x84c87814, 0x8cc70208, 0x90befffa, 0xa4506ceb, 0xbef9a3f7, 0xc67178f2)
           v w
     in sha_add s v)"

section \<open>Streaming\<close>

definition memcpy_at :: "bytes \<Rightarrow> nat \<Rightarrow> bytes \<Rightarrow> bytes" where
  "memcpy_at buf off src = take off buf @ src @ drop (off + length src) buf"

definition sha256_state_0 :: sha_state where
  "sha256_state_0 = (0x6a09e667, 0xbb67ae85, 0x3c6ef372, 0xa54ff53a, 0x510e527f, 0x9b05688c, 0x1f83d9ab, 0x5be0cd19)"

text \<open>Initialisation leaves the buffer of the structure as it is.\<close>

definition secp256k1_sha256_initialize :: "secp256k1_sha256 \<Rightarrow> secp256k1_sha256" where
  "secp256k1_sha256_initialize hash = hash\<lparr>sha_s := sha256_state_0, sha_bytes := 0\<rparr>"

text \<open>The loop of \<open>secp256k1_sha256_write\<close>; \<open>bufsize\<close> is below 64 on entry.\<close>

function sha256_write_loop :: "sha_state \<Rightarrow> bytes \<Rightarrow> nat \<Rightarrow> bytes \<Rightarrow> sha_state \<times> bytes \<times> nat \<times> bytes" where
  "sha256_write_loop s buf bufsize data =
    (if bufsize < 64 \<and> 64 - bufsize \<le> length data then
       (let chunk_len = 64 - bufsize;
            buf = memcpy_at buf bufsize (take chunk_len data);
            data = drop chunk_len data;
            s = secp256k1_sha256_transform s buf
        in sha256_write_loop s buf 0 data)
     else (s, buf, bufsize, data))"
  by pat_completeness auto

termination
  by (relation "measure (\<lambda>(s, buf, bufsize, data). length data)") auto

definition secp256k1_sha256_write :: "secp256k1_sha256 \<Rightarrow> bytes \<Rightarrow> secp256k1_sha256" where
  "secp256k1_sha256_write hash data =
    (let bufsize = unat (sha_bytes hash AND 0x3F);
         hash = hash\<lparr>sha_bytes := sha_bytes hash + of_nat (length data)\<rparr>;
         (s, buf, bufsize, data) = sha256_write_loop (sha_s hash) (sha_buf hash) bufsize data;
         buf = (if data \<noteq> [] then memcpy_at buf bufsize data else buf)
     in hash\<lparr>sha_s := s, sha_buf := buf\<rparr>)"

definition sha_out32 :: "sha_state \<Rightarrow> bytes" where
  "sha_out32 = (\<lambda>(s0, s1, s2, s3, s4, s5, s6, s7).
     secp256k1_write_be32 s0 @ secp256k1_write_be32 s1 @ secp256k1_write_be32 s2 @ secp256k1_write_be32 s3 @
     secp256k1_write_be32 s4 @ secp256k1_write_be32 s5 @ secp256k1_write_be32 s6 @ secp256k1_write_be32 s7)"

definition secp256k1_sha256_finalize :: "secp256k1_sha256 \<Rightarrow> secp256k1_sha256 \<times> bytes" where
  "secp256k1_sha256_finalize hash =
    (let pad = 0x80 # replicate 63 0;
         sizedesc = secp256k1_write_be32 (ucast (drop_bit 29 (sha_bytes hash))) @
                    secp256k1_write_be32 (ucast (push_bit 3 (sha_bytes hash)));
         hash = secp256k1_sha256_write hash (take (1 + ((119 - unat (sha_bytes hash mod 64)) mod 64)) pad);
         hash = secp256k1_sha256_write hash sizedesc;
         out32 = sha_out32 (sha_s hash)
     in (hash\<lparr>sha_s := (0, 0, 0, 0, 0, 0, 0, 0)\<rparr>, out32))"

definition secp256k1_sha256_initialize_tagged :: "secp256k1_sha256 \<Rightarrow> bytes \<Rightarrow> secp256k1_sha256" where
  "secp256k1_sha256_initialize_tagged hash tag =
    (let hash = secp256k1_sha256_initialize hash;
         hash = secp256k1_sha256_write hash tag;
         (hash, buf) = secp256k1_sha256_finalize hash;
         hash = secp256k1_sha256_initialize hash;
         hash = secp256k1_sha256_write hash buf;
         hash = secp256k1_sha256_write hash buf
     in hash)"

definition secp256k1_sha256_clear :: "secp256k1_sha256 \<Rightarrow> secp256k1_sha256" where
  "secp256k1_sha256_clear hash = \<lparr>sha_s = (0, 0, 0, 0, 0, 0, 0, 0), sha_buf = replicate 64 0, sha_bytes = 0\<rparr>"

section \<open>HMAC\<close>

text \<open>
  The structures the C code declares on its stack start with unspecified contents; the model
  receives them as arguments (\<open>hash\<close>, \<open>sha256\<close>), and the theorems hold for every such contents.
\<close>

definition secp256k1_hmac_sha256_initialize ::
    "secp256k1_sha256 \<Rightarrow> secp256k1_hmac_sha256 \<Rightarrow> bytes \<Rightarrow> secp256k1_hmac_sha256" where
  "secp256k1_hmac_sha256_initialize sha256 hash key =
    (let rkey = (if length key \<le> 64 then key @ replicate (64 - length key) 0
                 else
                   (let sha256 = secp256k1_sha256_initialize sha256;
                        sha256 = secp256k1_sha256_write sha256 key;
                        (sha256, rkey) = secp256k1_sha256_finalize sha256
                    in rkey @ replicate 32 0));
         outer = secp256k1_sha256_initialize (hmac_outer hash);
         rkey = map (\<lambda>b. b XOR 0x5c) rkey;
         outer = secp256k1_sha256_write outer rkey;
         inner = secp256k1_sha256_initialize (hmac_inner hash);
         rkey = map (\<lambda>b. b XOR (0x5c XOR 0x36)) rkey;
         inner = secp256k1_sha256_write inner rkey
     in \<lparr>hmac_inner = inner, hmac_outer = outer\<rparr>)"

definition secp256k1_hmac_sha256_write :: "secp256k1_hmac_sha256 \<Rightarrow> bytes \<Rightarrow> secp256k1_hmac_sha256" where
  "secp256k1_hmac_sha256_write hash data = hash\<lparr>hmac_inner := secp256k1_sha256_write (hmac_inner hash) data\<rparr>"

definition secp256k1_hmac_sha256_finalize :: "secp256k1_hmac_sha256 \<Rightarrow> secp256k1_hmac_sha256 \<times> bytes" where
  "secp256k1_hmac_sha256_finalize hash =
    (let (inner, temp) = secp256k1_sha256_finalize (hmac_inner hash);
         outer = secp256k1_sha256_write (hmac_outer hash) temp;
         (outer, out32) = secp256k1_sha256_finalize outer
     in (\<lparr>hmac_inner = inner, hmac_outer = outer\<rparr>, out32))"

definition secp256k1_hmac_sha256_clear :: "secp256k1_hmac_sha256 \<Rightarrow> secp256k1_hmac_sha256" where
  "secp256k1_hmac_sha256_clear hash =
     \<lparr>hmac_inner = secp256k1_sha256_clear (hmac_inner hash), hmac_outer = secp256k1_sha256_clear (hmac_outer hash)\<rparr>"

section \<open>The RFC 6979 generator\<close>

definition secp256k1_rfc6979_hmac_sha256_initialize ::
    "secp256k1_sha256 \<Rightarrow> secp256k1_hmac_sha256 \<Rightarrow> bytes \<Rightarrow> secp256k1_rfc6979_hmac_sha256" where
  "secp256k1_rfc6979_hmac_sha256_initialize sha256 hmac key =
    (let v = replicate 32 0x01; k = replicate 32 0x00;
         hmac = secp256k1_hmac_sha256_initialize sha256 hmac k;
         hmac = secp256k1_hmac_sha256_write hmac v;
         hmac = secp256k1_hmac_sha256_write hmac [0x00];
         hmac = secp256k1_hmac_sha256_write hmac key;
         (hmac, k) = secp256k1_hmac_sha256_finalize hmac;
         hmac = secp256k1_hmac_sha256_initialize sha256 hmac k;
         hmac = secp256k1_hmac_sha256_write hmac v;
         (hmac, v) = secp256k1_hmac_sha256_finalize hmac;
         hmac = secp256k1_hmac_sha256_initialize sha256 hmac k;
         hmac = secp256k1_hmac_sha256_write hmac v;
         hmac = secp256k1_hmac_sha256_write hmac [0x01];
         hmac = secp256k1_hmac_sha256_write hmac key;
         (hmac, k) = secp256k1_hmac_sha256_finalize hmac;
         hmac = secp256k1_hmac_sha256_initialize sha256 hmac k;
         hmac = secp256k1_hmac_sha256_write hmac v;
         (hmac, v) = secp256k1_hmac_sha256_finalize hmac
     in \<lparr>rng_v = v, rng_k = k, rng_retry = False\<rparr>)"

text \<open>
  The loop converts the \<open>size_t\<close> number of bytes that are left to the \<open>int\<close> variable \<open>now\<close>, so it need not end: for \<open>2 ^ 32\<close> bytes
  \<open>now\<close> is 0 and the number never shrinks. \<open>None\<close> is a loop without an end, or a copy of a negative length, which is undefined.
\<close>

partial_function (option) rfc6979_generate_loop ::
    "secp256k1_sha256 \<Rightarrow> secp256k1_hmac_sha256 \<Rightarrow> bytes \<Rightarrow> bytes \<Rightarrow> nat \<Rightarrow> (bytes \<times> bytes) option" where
  "rfc6979_generate_loop sha256 hmac k v outlen =
    (if 0 < outlen then
       (let now = sint (word_of_nat outlen :: u32);
            hmac = secp256k1_hmac_sha256_initialize sha256 hmac k;
            hmac = secp256k1_hmac_sha256_write hmac v;
            (hmac, v) = secp256k1_hmac_sha256_finalize hmac;
            now = (if now > 32 then 32 else now)
        in if now < 0 then None
           else Option.bind (rfc6979_generate_loop sha256 hmac k v (outlen - nat now))
             (\<lambda>(v', rest). Some (v', take (nat now) v @ rest)))
     else Some (v, []))"

definition secp256k1_rfc6979_hmac_sha256_generate ::
    "secp256k1_sha256 \<Rightarrow> secp256k1_hmac_sha256 \<Rightarrow> secp256k1_rfc6979_hmac_sha256 \<Rightarrow> nat \<Rightarrow> (secp256k1_rfc6979_hmac_sha256 \<times> bytes) option" where
  "secp256k1_rfc6979_hmac_sha256_generate sha256 hmac rng outlen =
    (let (k, v) =
           (if rng_retry rng then
              (let hmac = secp256k1_hmac_sha256_initialize sha256 hmac (rng_k rng);
                   hmac = secp256k1_hmac_sha256_write hmac (rng_v rng);
                   hmac = secp256k1_hmac_sha256_write hmac [0x00];
                   (hmac, k) = secp256k1_hmac_sha256_finalize hmac;
                   hmac = secp256k1_hmac_sha256_initialize sha256 hmac k;
                   hmac = secp256k1_hmac_sha256_write hmac (rng_v rng);
                   (hmac, v) = secp256k1_hmac_sha256_finalize hmac
               in (k, v))
            else (rng_k rng, rng_v rng))
     in case rfc6979_generate_loop sha256 hmac k v outlen of None \<Rightarrow> None
        | Some (v, out) \<Rightarrow> Some (\<lparr>rng_v = v, rng_k = k, rng_retry = True\<rparr>, out))"

definition secp256k1_rfc6979_hmac_sha256_finalize :: "secp256k1_rfc6979_hmac_sha256 \<Rightarrow> secp256k1_rfc6979_hmac_sha256" where
  "secp256k1_rfc6979_hmac_sha256_finalize rng = rng"

definition secp256k1_rfc6979_hmac_sha256_clear :: "secp256k1_rfc6979_hmac_sha256 \<Rightarrow> secp256k1_rfc6979_hmac_sha256" where
  "secp256k1_rfc6979_hmac_sha256_clear rng = \<lparr>rng_v = replicate 32 0, rng_k = replicate 32 0, rng_retry = False\<rparr>"

section \<open>Reference definitions\<close>

text \<open>
  SHA-256 as in FIPS 180-4: the functions of section 4.1.2, the constants of 4.2.2, the padding of
  5.1.1 and the computation of 6.2.2, on lists.
\<close>

definition fips_Ch :: "u32 \<Rightarrow> u32 \<Rightarrow> u32 \<Rightarrow> u32" where
  "fips_Ch x y z = ((x AND y) XOR (NOT x AND z))"

definition fips_Maj :: "u32 \<Rightarrow> u32 \<Rightarrow> u32 \<Rightarrow> u32" where
  "fips_Maj x y z = ((x AND y) XOR (x AND z) XOR (y AND z))"

definition fips_Sigma0 :: "u32 \<Rightarrow> u32" where
  "fips_Sigma0 x = (word_rotr 2 x XOR word_rotr 13 x XOR word_rotr 22 x)"

definition fips_Sigma1 :: "u32 \<Rightarrow> u32" where
  "fips_Sigma1 x = (word_rotr 6 x XOR word_rotr 11 x XOR word_rotr 25 x)"

definition fips_sigma0 :: "u32 \<Rightarrow> u32" where
  "fips_sigma0 x = (word_rotr 7 x XOR word_rotr 18 x XOR drop_bit 3 x)"

definition fips_sigma1 :: "u32 \<Rightarrow> u32" where
  "fips_sigma1 x = (word_rotr 17 x XOR word_rotr 19 x XOR drop_bit 10 x)"

text \<open>
  The round constants: the first thirty-two bits of the fractional parts of the cube roots of the first
  sixty-four primes. The integer cube root is found bit by bit, from the bit \<open>2^(k - 1)\<close> down.
\<close>

fun icbrt_bits :: "nat \<Rightarrow> int \<Rightarrow> int \<Rightarrow> int" where
  "icbrt_bits 0 n r = r"
| "icbrt_bits (Suc k) n r = icbrt_bits k n (if (r + 2 ^ k) ^ 3 \<le> n then r + 2 ^ k else r)"

definition fips_primes :: "int list" where
  "fips_primes = [
     2, 3, 5, 7, 11, 13, 17, 19, 23, 29, 31, 37, 41, 43, 47, 53,
     59, 61, 67, 71, 73, 79, 83, 89, 97, 101, 103, 107, 109, 113, 127, 131,
     137, 139, 149, 151, 157, 163, 167, 173, 179, 181, 191, 193, 197, 199, 211, 223,
     227, 229, 233, 239, 241, 251, 257, 263, 269, 271, 277, 281, 283, 293, 307, 311]"

definition fips_K :: "u32 list" where
  "fips_K = map (\<lambda>p. word_of_int (icbrt_bits 35 (p * 2 ^ 96) 0)) fips_primes"

definition fips_round :: "sha_state \<Rightarrow> u32 \<times> u32 \<Rightarrow> sha_state" where
  "fips_round = (\<lambda>(a, b, c, d, e, f, g, h) (k, w).
    (let T1 = h + fips_Sigma1 e + fips_Ch e f g + k + w;
         T2 = fips_Sigma0 a + fips_Maj a b c
     in (T1 + T2, a, b, c, d + T1, e, f, g)))"

text \<open>The message schedule, one word at a time appended to the words so far.\<close>

definition fips_next :: "u32 list \<Rightarrow> u32" where
  "fips_next W = (let t = length W in
     fips_sigma1 (W ! (t - 2)) + W ! (t - 7) + fips_sigma0 (W ! (t - 15)) + W ! (t - 16))"

definition fips_schedule :: "u32 list \<Rightarrow> u32 list" where
  "fips_schedule M = ((\<lambda>W. W @ [fips_next W]) ^^ 48) M"

definition fips_words :: "bytes \<Rightarrow> u32 list" where
  "fips_words block = map (\<lambda>i. secp256k1_read_be32 (take 4 (drop (4 * i) block))) [0..<16]"

definition fips_compress :: "sha_state \<Rightarrow> bytes \<Rightarrow> sha_state" where
  "fips_compress H block = sha_add H (foldl fips_round H (zip fips_K (fips_schedule (fips_words block))))"

fun fips_blocks :: "bytes \<Rightarrow> bytes list" where
  "fips_blocks bs = (if length bs < 64 then [] else take 64 bs # fips_blocks (drop 64 bs))"

declare fips_blocks.simps [simp del] sha256_write_loop.simps [simp del]

text \<open>A one bit, zeros up to 448 modulo 512 bits, and the length in bits as 64-bit big-endian integer.\<close>

definition fips_pad :: "bytes \<Rightarrow> bytes" where
  "fips_pad m = m @ [0x80] @ replicate (nat ((55 - int (length m)) mod 64)) 0 @
     secp256k1_write_be64 (of_nat (8 * length m))"

definition fips_sha256 :: "bytes \<Rightarrow> bytes" where
  "fips_sha256 m = sha_out32 (foldl fips_compress sha256_state_0 (fips_blocks (fips_pad m)))"

text \<open>HMAC as in FIPS 198-1 with SHA-256 and a 64-byte block.\<close>

definition fips_hmac :: "bytes \<Rightarrow> bytes \<Rightarrow> bytes" where
  "fips_hmac key text =
    (let key0 = (if length key \<le> 64 then key @ replicate (64 - length key) 0 else fips_sha256 key @ replicate 32 0)
     in fips_sha256 (map (\<lambda>b. b XOR 0x5c) key0 @ fips_sha256 (map (\<lambda>b. b XOR 0x36) key0 @ text)))"

end
