(* ===== verification/Eckey.thy ===== *)
theory Eckey
  imports Group_Ops Scalar_Generic Hash
begin

text \<open>
  Public and secret keys: \<open>src/Vendor/secp256k1/src/eckey_impl.h\<close>, without the two public key tweaks, which need the
  point multiplication. A pointer argument that the code writes is passed in and returned, so that what a failing call
  leaves behind is part of the model. The specification is the SEC 1 encoding of points.
\<close>

section \<open>The code\<close>

definition SECP256K1_TAG_PUBKEY_EVEN :: u8 where "SECP256K1_TAG_PUBKEY_EVEN = 0x02"
definition SECP256K1_TAG_PUBKEY_ODD :: u8 where "SECP256K1_TAG_PUBKEY_ODD = 0x03"
definition SECP256K1_TAG_PUBKEY_UNCOMPRESSED :: u8 where "SECP256K1_TAG_PUBKEY_UNCOMPRESSED = 0x04"
definition SECP256K1_TAG_PUBKEY_HYBRID_EVEN :: u8 where "SECP256K1_TAG_PUBKEY_HYBRID_EVEN = 0x06"
definition SECP256K1_TAG_PUBKEY_HYBRID_ODD :: u8 where "SECP256K1_TAG_PUBKEY_HYBRID_ODD = 0x07"

lemmas tag_defs = SECP256K1_TAG_PUBKEY_EVEN_def SECP256K1_TAG_PUBKEY_ODD_def SECP256K1_TAG_PUBKEY_UNCOMPRESSED_def
  SECP256K1_TAG_PUBKEY_HYBRID_EVEN_def SECP256K1_TAG_PUBKEY_HYBRID_ODD_def

definition secp256k1_eckey_pubkey_parse :: "secp256k1_ge \<Rightarrow> bytes \<Rightarrow> nat \<Rightarrow> secp256k1_ge \<times> bool" where
  "secp256k1_eckey_pubkey_parse elem pub len =
    (if len = 33 \<and> (pub ! 0 = SECP256K1_TAG_PUBKEY_EVEN \<or> pub ! 0 = SECP256K1_TAG_PUBKEY_ODD) then
       let (x, ok) = secp256k1_fe_set_b32_limit (take 32 (drop 1 pub))
       in if ok then secp256k1_ge_set_xo_var x (pub ! 0 = SECP256K1_TAG_PUBKEY_ODD) else (elem, False)
     else if len = 65 \<and> (pub ! 0 = SECP256K1_TAG_PUBKEY_UNCOMPRESSED \<or> pub ! 0 = SECP256K1_TAG_PUBKEY_HYBRID_EVEN \<or>
         pub ! 0 = SECP256K1_TAG_PUBKEY_HYBRID_ODD) then
       let (x, okx) = secp256k1_fe_set_b32_limit (take 32 (drop 1 pub));
           (y, oky) = secp256k1_fe_set_b32_limit (take 32 (drop 33 pub))
       in if \<not> okx \<or> \<not> oky then (elem, False)
          else let elem = secp256k1_ge_set_xy x y
               in if (pub ! 0 = SECP256K1_TAG_PUBKEY_HYBRID_EVEN \<or> pub ! 0 = SECP256K1_TAG_PUBKEY_HYBRID_ODD) \<and>
                     secp256k1_fe_is_odd y \<noteq> (pub ! 0 = SECP256K1_TAG_PUBKEY_HYBRID_ODD) then (elem, False)
                  else (elem, secp256k1_ge_is_valid_var elem)
     else (elem, False))"

definition secp256k1_eckey_pubkey_serialize ::
    "secp256k1_ge \<Rightarrow> bytes \<Rightarrow> nat \<Rightarrow> bool \<Rightarrow> secp256k1_ge \<times> bytes \<times> nat \<times> bool" where
  "secp256k1_eckey_pubkey_serialize elem pub len compressed =
    (if secp256k1_ge_is_infinity elem then (elem, pub, len, False)
     else
       let elem = elem\<lparr>ge_x := secp256k1_fe_normalize_var (ge_x elem)\<rparr>;
           elem = elem\<lparr>ge_y := secp256k1_fe_normalize_var (ge_y elem)\<rparr>;
           pub = memcpy_at pub 1 (secp256k1_fe_get_b32 (ge_x elem))
       in if compressed then
            let pub = pub[0 := if secp256k1_fe_is_odd (ge_y elem) then SECP256K1_TAG_PUBKEY_ODD else SECP256K1_TAG_PUBKEY_EVEN]
            in (elem, pub, 33, True)
          else
            let pub = pub[0 := SECP256K1_TAG_PUBKEY_UNCOMPRESSED];
                pub = memcpy_at pub 33 (secp256k1_fe_get_b32 (ge_y elem))
            in (elem, pub, 65, True))"

definition secp256k1_eckey_privkey_tweak_add :: "secp256k1_scalar \<Rightarrow> secp256k1_scalar \<Rightarrow> secp256k1_scalar \<times> bool" where
  "secp256k1_eckey_privkey_tweak_add key tweak =
    (let key = fst (secp256k1_scalar_add key tweak) in (key, \<not> secp256k1_scalar_is_zero key))"

definition secp256k1_eckey_privkey_tweak_mul :: "secp256k1_scalar \<Rightarrow> secp256k1_scalar \<Rightarrow> secp256k1_scalar \<times> bool" where
  "secp256k1_eckey_privkey_tweak_mul key tweak =
    (let ret = \<not> secp256k1_scalar_is_zero tweak; key = secp256k1_scalar_mul key tweak in (key, ret))"

section \<open>The SEC 1 encoding\<close>

definition sec1_encodes :: "bytes \<Rightarrow> fp \<Rightarrow> fp \<Rightarrow> bool" where
  "sec1_encodes pub x y \<longleftrightarrow>
    (if length pub = 33 then
       pub ! 0 \<in> {2, 3} \<and> be_val (take 32 (drop 1 pub)) = fp_int x \<and> (pub ! 0 = 3 \<longleftrightarrow> odd (fp_int y))
     else length pub = 65 \<and> pub ! 0 \<in> {4, 6, 7} \<and> be_val (take 32 (drop 1 pub)) = fp_int x \<and>
       be_val (take 32 (drop 33 pub)) = fp_int y \<and> (pub ! 0 \<noteq> 4 \<longrightarrow> (pub ! 0 = 7 \<longleftrightarrow> odd (fp_int y))))"

text \<open>A byte string encodes at most one point of the curve.\<close>

lemma sec1_unique:
  assumes "sec1_encodes pub x y" "sec1_encodes pub x' y'" "on_curve (Some (x, y))" "on_curve (Some (x', y'))"
  shows "x = x' \<and> y = y'"
proof (cases "length pub = 33")
  case True
  then have x: "x = x'" and o: "odd (fp_int y) \<longleftrightarrow> odd (fp_int y')" using assms(1,2) by (auto simp: sec1_encodes_def fp_int_inject)
  with assms(3,4) have "y = y' \<or> y = - y'" using curve_same_x [of y x y'] by simp
  moreover have "y' \<noteq> 0" using assms(4) curve_y_neq_0 [of y' x'] by simp
  ultimately show ?thesis using x o fp_int_odd_neg [of y'] by auto
next
  case False
  then show ?thesis using assms(1,2) by (auto simp: sec1_encodes_def fp_int_inject)
qed

lemma fe_set_b32_limit_fp:
  assumes "length b = 32" "secp256k1_fe_set_b32_limit b = (x, ok)"
  shows "ok \<longleftrightarrow> (\<exists>v. be_val b = fp_int v)" "fe_is 1 x (of_int (be_val b))" "ok \<Longrightarrow> be_val b = fp_int v \<Longrightarrow> fe_val x = fp_int v \<and> fe_is 1 x v"
proof -
  have x: "x = secp256k1_fe_set_b32_mod b" and ok: "ok \<longleftrightarrow> be_val b < secp256k1_p"
    using fe_set_b32_limit_iff(1,2) [OF assms(1)] assms(2) by simp_all
  have r: "fe_rep 1 x (be_val b)" unfolding x by (rule fe_rep_set_b32 [OF assms(1)])
  then show i: "fe_is 1 x (of_int (be_val b))" by (simp add: fe_is_iff_rep)
  have v: "fe_val x = be_val b" unfolding x by (rule fe_set_b32_mod_val [OF assms(1)])
  have "be_val b = fp_int (of_int (be_val b))" if "be_val b < secp256k1_p"
    using that be_val_bounds [of b] by (simp add: fp_int_of_int)
  then show "ok \<longleftrightarrow> (\<exists>v. be_val b = fp_int v)" unfolding ok using fp_int by auto
  show "fe_val x = fp_int v \<and> fe_is 1 x v" if "ok" "be_val b = fp_int v"
  proof -
    have "of_int (fp_int v) = v" by (simp add: fp_int_inject [symmetric] fp_int_of_int) (use fp_int [of v] in simp)
    then show ?thesis using v i that(2) by simp
  qed
qed

lemma parse_compressed:
  assumes "length pub = 33" "pub ! 0 \<in> {2, 3}" "secp256k1_eckey_pubkey_parse elem pub 33 = (q, ret)"
  shows "(ret \<longleftrightarrow> (\<exists>x y. sec1_encodes pub x y \<and> on_curve (Some (x, y)))) \<and>
    (ret \<longrightarrow> ge_ok q \<and> (\<exists>x y. ge_point q = Some (x, y) \<and> sec1_encodes pub x y))"
proof -
  let ?b = "take 32 (drop 1 pub)"
  obtain x ok where s: "secp256k1_fe_set_b32_limit ?b = (x, ok)" by fastforce
  note f = fe_set_b32_limit_fp [OF _ s]
  have run: "(q, ret) = (if ok then secp256k1_ge_set_xo_var x (pub ! 0 = 3) else (elem, False))"
    using assms(2,3) s by (auto simp: secp256k1_eckey_pubkey_parse_def tag_defs)
  show ?thesis
  proof (cases ok)
    case True
    then obtain v where v: "be_val ?b = fp_int v" using f(1) assms(1) by auto
    then have x: "fe_is 1 x v" using f(3) True assms(1) by simp
    have r: "secp256k1_ge_set_xo_var x (pub ! 0 = 3) = (q, ret)" using run True by simp
    note c = ge_set_xo_var_correct [OF x _ r]
    have "ret \<longleftrightarrow> (\<exists>y. on_curve (Some (v, y)))" using c(1) by simp
    moreover have "ret \<longrightarrow> ge_ok q \<and> (\<exists>y. ge_point q = Some (v, y) \<and> sec1_encodes pub v y)"
      using c(2) v assms(1,2) by (auto simp: sec1_encodes_def)
    moreover have "\<exists>y. on_curve (Some (v, y))" if "sec1_encodes pub x' y'" "on_curve (Some (x', y'))" for x' y'
      using that v assms(1) by (auto simp: sec1_encodes_def fp_int_inject)
    ultimately show ?thesis unfolding ge_ok_def by metis
  next
    case False
    then show ?thesis using run f(1) assms(1) by (auto simp: sec1_encodes_def)
  qed
qed

lemma parse_full:
  assumes "length pub = 65" "pub ! 0 \<in> {4, 6, 7}" "secp256k1_eckey_pubkey_parse elem pub 65 = (q, ret)"
  shows "(ret \<longleftrightarrow> (\<exists>x y. sec1_encodes pub x y \<and> on_curve (Some (x, y)))) \<and>
    (ret \<longrightarrow> ge_ok q \<and> (\<exists>x y. ge_point q = Some (x, y) \<and> sec1_encodes pub x y))"
proof -
  let ?b = "take 32 (drop 1 pub)" let ?c = "take 32 (drop 33 pub)"
  obtain x okx where s: "secp256k1_fe_set_b32_limit ?b = (x, okx)" by fastforce
  obtain y oky where t: "secp256k1_fe_set_b32_limit ?c = (y, oky)" by fastforce
  have l: "length ?b = 32" "length ?c = 32" using assms(1) by simp_all
  note f = fe_set_b32_limit_fp [OF l(1) s] and g = fe_set_b32_limit_fp [OF l(2) t]
  have run: "(q, ret) = (if \<not> okx \<or> \<not> oky then (elem, False) else if pub ! 0 \<noteq> 4 \<and> secp256k1_fe_is_odd y \<noteq> (pub ! 0 = 7)
      then (secp256k1_ge_set_xy x y, False) else (secp256k1_ge_set_xy x y, secp256k1_ge_is_valid_var (secp256k1_ge_set_xy x y)))"
    using assms(2,3) s t by (auto simp: secp256k1_eckey_pubkey_parse_def tag_defs Let_def)
  show ?thesis
  proof (cases "okx \<and> oky")
    case True
    then obtain u v where v: "be_val ?b = fp_int u" "be_val ?c = fp_int v" using f(1) g(1) by auto
    then have x: "fe_is 1 x u" and y: "fe_is 1 y v" "fe_val y = fp_int v" using f(3) g(3) True by simp_all
    let ?q = "secp256k1_ge_set_xy x y"
    have o: "secp256k1_fe_is_odd y \<longleftrightarrow> odd (fp_int v)" using y(2) by (simp add: fe_is_odd_iff)
    have p: "ge_point ?q = Some (u, v)" "\<not> ge_infinity ?q" using fe_is_val [OF x] fe_is_val [OF y(1)]
      by (simp_all add: ge_point_def secp256k1_ge_set_xy_def)
    have w: "secp256k1_ge_verify ?q" using fe_is_magnitude [OF x] fe_is_magnitude [OF y(1)] fe_magnitude_mono [of 1]
      by (simp add: verify_defs secp256k1_ge_set_xy_def)
    have e: "sec1_encodes pub u' v' \<longleftrightarrow> u' = u \<and> v' = v \<and> (pub ! 0 \<noteq> 4 \<longrightarrow> (pub ! 0 = 7 \<longleftrightarrow> odd (fp_int v)))" for u' v'
      using assms(1,2) v by (auto simp: sec1_encodes_def fp_int_inject)
    show ?thesis using run True o p ge_is_valid_var_correct [OF w] w unfolding e ge_ok_def by (auto split: if_splits)
  next
    case False
    then show ?thesis using run f(1) g(1) assms(1) by (auto simp: sec1_encodes_def)
  qed
qed

lemma pubkey_parse_correct:
  assumes "secp256k1_eckey_pubkey_parse elem pub (length pub) = (q, ret)"
  shows "ret \<longleftrightarrow> (\<exists>x y. sec1_encodes pub x y \<and> on_curve (Some (x, y)))"
    and "ret \<Longrightarrow> ge_ok q \<and> (\<exists>x y. ge_point q = Some (x, y) \<and> sec1_encodes pub x y)"
proof -
  have "(ret \<longleftrightarrow> (\<exists>x y. sec1_encodes pub x y \<and> on_curve (Some (x, y)))) \<and>
    (ret \<longrightarrow> ge_ok q \<and> (\<exists>x y. ge_point q = Some (x, y) \<and> sec1_encodes pub x y))"
  proof (cases "length pub = 33 \<and> pub ! 0 \<in> {2, 3} \<or> length pub = 65 \<and> pub ! 0 \<in> {4, 6, 7}")
    case True
    then show ?thesis using parse_compressed [of pub elem q ret] parse_full [of pub elem q ret] assms by auto
  next
    case False
    then have "\<not> ret" using assms by (auto simp: secp256k1_eckey_pubkey_parse_def tag_defs split: if_splits)
    moreover have "\<not> sec1_encodes pub x y" for x y using False by (auto simp: sec1_encodes_def)
    ultimately show ?thesis by simp
  qed
  then show "ret \<longleftrightarrow> (\<exists>x y. sec1_encodes pub x y \<and> on_curve (Some (x, y)))"
    "ret \<Longrightarrow> ge_ok q \<and> (\<exists>x y. ge_point q = Some (x, y) \<and> sec1_encodes pub x y)" by blast+
qed

lemma pubkey_serialize_correct:
  assumes e: "ge_ok elem" "ge_point elem = Some (x, y)" and b: "(if c then 33 else 65) \<le> length buf"
    and r: "secp256k1_eckey_pubkey_serialize elem buf sz c = (elem', buf', sz', ret)"
  shows "ret \<and> sz' = (if c then 33 else 65) \<and> length buf' = length buf \<and> drop sz' buf' = drop sz' buf \<and>
    sec1_encodes (take sz' buf') x y \<and> ge_point elem' = ge_point elem"
proof -
  have inf: "\<not> ge_infinity elem" using e(2) by (auto simp: ge_point_def)
  have X: "fe_is 4 (ge_x elem) x" and Y: "fe_is 3 (ge_y elem) y"
    using e inf by (auto simp: ge_ok_def verify_defs ge_point_def fe_is_def)
  define nx ny where "nx = secp256k1_fe_normalize (ge_x elem)" and "ny = secp256k1_fe_normalize (ge_y elem)"
  have nx: "fe_is 1 nx x" "fe_normalized nx" "fe_val nx = fp_int x" "secp256k1_fe_normalize_var (ge_x elem) = nx"
    unfolding nx_def by (rule fe_is_normalize [OF X]; simp)+
  have ny: "fe_is 1 ny y" "fe_normalized ny" "fe_val ny = fp_int y" "secp256k1_fe_normalize_var (ge_y elem) = ny"
    unfolding ny_def by (rule fe_is_normalize [OF Y]; simp)+
  have bx: "be_val (secp256k1_fe_get_b32 nx) = fp_int x" and by': "be_val (secp256k1_fe_get_b32 ny) = fp_int y"
    using fe_get_b32_val [of nx] fe_get_b32_val [of ny] nx(2,3) ny(2,3) by (auto simp: fe_normalized_iff)
  obtain h t where buf: "buf = h # t" using b by (cases buf) (auto split: if_splits)
  have o: "secp256k1_fe_is_odd ny \<longleftrightarrow> odd (fp_int y)" by (simp add: fe_is_odd_iff ny(3))
  have el: "ge_point elem' = ge_point elem"
    using r inf nx ny e(2) fe_is_val [OF nx(1)] fe_is_val [OF ny(1)]
    by (auto simp: secp256k1_eckey_pubkey_serialize_def secp256k1_ge_is_infinity_def ge_point_def Let_def split: if_splits)
  show ?thesis
  proof (cases c)
    case True
    then have "buf' = (if odd (fp_int y) then 3 else 2) # secp256k1_fe_get_b32 nx @ drop 32 t" "sz' = 33" "ret"
      using r inf nx ny o buf
      by (auto simp: secp256k1_eckey_pubkey_serialize_def secp256k1_ge_is_infinity_def Let_def memcpy_at_def tag_defs)
    then show ?thesis using True b el bx buf by (simp add: sec1_encodes_def)
  next
    case False
    then have "buf' = 4 # secp256k1_fe_get_b32 nx @ secp256k1_fe_get_b32 ny @ drop 64 t" "sz' = 65" "ret"
      using r inf nx ny o buf
      by (auto simp: secp256k1_eckey_pubkey_serialize_def secp256k1_ge_is_infinity_def Let_def memcpy_at_def tag_defs)
    then show ?thesis using False b el bx by' buf by (simp add: sec1_encodes_def)
  qed
qed

text \<open>Parsing what was serialized gives back the point.\<close>

lemma pubkey_parse_serialize:
  assumes "ge_ok elem" "\<not> ge_infinity elem" "(if c then 33 else 65) \<le> length buf"
    and "secp256k1_eckey_pubkey_serialize elem buf sz c = (elem', buf', sz', ret)"
    and "secp256k1_eckey_pubkey_parse e0 (take sz' buf') sz' = (q, ok)"
  shows "ok \<and> ge_ok q \<and> ge_point q = ge_point elem"
proof -
  obtain x y where p: "ge_point elem = Some (x, y)" using assms(2) by (auto simp: ge_point_def)
  note s = pubkey_serialize_correct [OF assms(1) p assms(3,4)]
  then have "length (take sz' buf') = sz'" using assms(3) by auto
  note c = pubkey_parse_correct [of e0 "take sz' buf'", unfolded this, OF assms(5)]
  have on: "on_curve (Some (x, y))" using assms(1) p by (simp add: ge_ok_def)
  then have ok using c(1) s by blast
  then show ?thesis using c(2) s sec1_unique [OF _ _ on] p unfolding ge_ok_def by metis
qed

lemma pubkey_serialize_infinity:
  "ge_infinity elem \<Longrightarrow> secp256k1_eckey_pubkey_serialize elem buf sz c = (elem, buf, sz, False)"
  by (simp add: secp256k1_eckey_pubkey_serialize_def secp256k1_ge_is_infinity_def)

section \<open>Secret key tweaks\<close>

lemma privkey_tweak_add_correct:
  assumes "secp256k1_scalar_verify key" "secp256k1_scalar_verify tweak"
    and "secp256k1_eckey_privkey_tweak_add key tweak = (r, ret)"
  shows "sc_val r = (sc_val key + sc_val tweak) mod secp256k1_n" "secp256k1_scalar_verify r" "ret \<longleftrightarrow> sc_val r \<noteq> 0"
  using scalar_add_correct(1) [OF assms(1,2)] assms(3) verify_of_mod
  by (auto simp: secp256k1_eckey_privkey_tweak_add_def Let_def scalar_is_zero_iff)

lemma privkey_tweak_mul_correct:
  assumes "secp256k1_eckey_privkey_tweak_mul key tweak = (r, ret)"
  shows "sc_val r = sc_val key * sc_val tweak mod secp256k1_n" "secp256k1_scalar_verify r" "ret \<longleftrightarrow> sc_val tweak \<noteq> 0"
  using assms scalar_mul_val [of key tweak] verify_of_mod
  by (auto simp: secp256k1_eckey_privkey_tweak_mul_def Let_def scalar_is_zero_iff)

end
