(* ===== verification/Group_Storage.thy ===== *)
theory Group_Storage
  imports Group_Ops
begin

text \<open>Storage and byte forms of points, constant-time selection, and tables with a common denominator.\<close>

section \<open>Selection\<close>

lemma gej_cmov_eq: "secp256k1_gej_cmov r a flag = (if flag then a else r)"
  by (cases r; cases a; cases flag) (auto simp: secp256k1_gej_cmov_def fe_cmov_eq)

lemma ge_storage_cmov_eq: "secp256k1_ge_storage_cmov r a flag = (if flag then a else r)"
  by (cases flag) (simp_all add: secp256k1_ge_storage_cmov_def fe_storage_cmov_eq)

section \<open>Storage and bytes\<close>

definition ge_normalize :: "secp256k1_ge \<Rightarrow> secp256k1_ge" where
  "ge_normalize a = a\<lparr>ge_x := secp256k1_fe_normalize (ge_x a), ge_y := secp256k1_fe_normalize (ge_y a)\<rparr>"

lemma ge_normalize_ok:
  assumes "secp256k1_ge_verify a"
  shows "secp256k1_ge_verify (ge_normalize a)" "ge_point (ge_normalize a) = ge_point a" "ge_infinity (ge_normalize a) = ge_infinity a"
proof -
  have x: "fe_is 1 (secp256k1_fe_normalize (ge_x a)) (fe_fp (ge_x a))"
    by (rule fe_is_normalize(1) [OF fe_is_self, of 4]) (use assms in \<open>simp_all add: verify_defs\<close>)
  have y: "fe_is 1 (secp256k1_fe_normalize (ge_y a)) (fe_fp (ge_y a))"
    by (rule fe_is_normalize(1) [OF fe_is_self, of 3]) (use assms in \<open>simp_all add: verify_defs\<close>)
  show "secp256k1_ge_verify (ge_normalize a)" "ge_point (ge_normalize a) = ge_point a" "ge_infinity (ge_normalize a) = ge_infinity a"
    using x y fe_magnitude_mono [of 1 _ 4] fe_magnitude_mono [of 1 _ 3]
    by (simp_all add: ge_normalize_def ge_point_def verify_defs fe_is_def)
qed

lemma ge_from_to_storage:
  assumes "secp256k1_ge_verify a" "\<not> ge_infinity a"
  shows "secp256k1_ge_from_storage (secp256k1_ge_to_storage a) = ge_normalize a"
proof -
  have "fe_normalized (secp256k1_fe_normalize (ge_x a))" "fe_normalized (secp256k1_fe_normalize (ge_y a))"
    using normalize_correct(2) fe_magnitude_mono [of 4 "ge_x a" 32] fe_magnitude_mono [of 3 "ge_y a" 32] assms(1)
    by (simp_all add: verify_defs)
  then show ?thesis using assms(2)
    by (simp add: secp256k1_ge_from_storage_def secp256k1_ge_to_storage_def Let_def fe_from_to_storage ge_normalize_def)
qed

lemma u64_low_byte: "ucast (ucast w :: u8) OR push_bit 8 (drop_bit 8 w) = (w :: u64)"
proof (rule bit_word_eqI)
  fix n assume "n < LENGTH(64)"
  then show "bit (ucast (ucast w :: u8) OR push_bit 8 (drop_bit 8 w)) n = bit w n"
    by (cases "n < 8") (simp_all add: bit_simps)
qed

lemma u64_mem_u64: "u64_mem (mem_u64 w @ rest) = w"
proof -
  have d: "drop_bit (8 + n) w = drop_bit 8 (drop_bit n w)" for n by (simp add: add.commute)
  have top: "push_bit 8 0 = (drop_bit 56 w AND 0 :: u64)" by simp
  have "drop_bit 64 w = 0" by (rule bit_word_eqI) (simp add: bit_simps)
  then have z: "ucast (ucast (drop_bit 56 w) :: u8) = drop_bit 56 w"
    using u64_low_byte [of "drop_bit 56 w"] d [of 56] by simp
  have l: "ucast (ucast (drop_bit n w) :: u8) OR push_bit 8 (drop_bit (8 + n) w) = drop_bit n w" for n
    using u64_low_byte [of "drop_bit n w"] by (simp only: d)
  show ?thesis unfolding u64_mem_def mem_u64_def
    using z l [of 48] l [of 40] l [of 32] l [of 24] l [of 16] l [of 8] l [of 0] by simp
qed

lemma length_mem_u64 [simp]: "length (mem_u64 w) = 8"
  by (simp add: mem_u64_def)

lemma u64_mem_u64_drop:
  "u64_mem (mem_u64 w) = w" "drop 8 (mem_u64 w @ r) = r"
  using u64_mem_u64 [of w "[]"] by simp_all

lemma length_ge_to_bytes [simp]: "length (secp256k1_ge_to_bytes a) = 64"
  by (simp add: secp256k1_ge_to_bytes_def Let_def)

lemma storage_eta:
  "\<lparr>st_n0 = st_n0 s, st_n1 = st_n1 s, st_n2 = st_n2 s, st_n3 = st_n3 s\<rparr> = (s :: secp256k1_fe_storage)"
  "\<lparr>ges_x = ges_x g, ges_y = ges_y g\<rparr> = (g :: secp256k1_ge_storage)"
  by simp_all

lemma ge_from_to_bytes:
  assumes "secp256k1_ge_verify a" "\<not> ge_infinity a"
  shows "secp256k1_ge_from_bytes (secp256k1_ge_to_bytes a) = ge_normalize a"
  using ge_from_to_storage [OF assms]
  by (simp add: secp256k1_ge_from_bytes_def secp256k1_ge_to_bytes_def Let_def u64_mem_u64 u64_mem_u64_drop storage_eta)

text \<open>The all-zero encoding is free for the point at infinity, because no point of the curve has the coordinates 0, 0.\<close>

lemma ge_from_bytes_zero: "ge_point (secp256k1_ge_from_bytes (replicate 64 0)) = Some (0, 0)"
proof -
  have z: "u64_mem (replicate n 0) = 0" for n
  proof -
    have "foldr (\<lambda>x w. ucast x OR push_bit 8 w) (replicate k (0 :: u8)) (0 :: u64) = 0" for k by (induction k) simp_all
    then show ?thesis by (simp add: u64_mem_def)
  qed
  show ?thesis by (simp add: secp256k1_ge_from_bytes_def Let_def z secp256k1_ge_from_storage_def secp256k1_fe_from_storage_def ge_point_def fe_val_def)
qed

lemma ge_bytes_ext_roundtrip:
  assumes "ge_ok a"
  shows "ge_ok (secp256k1_ge_from_bytes_ext (secp256k1_ge_to_bytes_ext a)) \<and>
    ge_point (secp256k1_ge_from_bytes_ext (secp256k1_ge_to_bytes_ext a)) = ge_point a"
proof (cases "ge_infinity a")
  case True
  then show ?thesis using fe_is_set_int [of 0] fe_magnitude_mono [of 1 "secp256k1_fe_set_int 0"]
    by (simp add: secp256k1_ge_from_bytes_ext_def secp256k1_ge_to_bytes_ext_def secp256k1_ge_is_infinity_def memcmp_var_eq_0_iff
      secp256k1_ge_set_infinity_def ge_ok_def ge_point_def verify_defs fe_is_def)
next
  case False
  have v: "secp256k1_ge_verify a" using assms by (simp add: ge_ok_def)
  note n = ge_normalize_ok [OF v]
  have "secp256k1_ge_to_bytes a \<noteq> replicate 64 0"
  proof
    assume z: "secp256k1_ge_to_bytes a = replicate 64 0"
    have "ge_point a = Some (0, 0)" using ge_from_bytes_zero ge_from_to_bytes [OF v False] n(2) unfolding z by simp
    then show False using assms curve_y_neq_0 [of 0 0] by (simp add: ge_ok_def)
  qed
  then show ?thesis using False assms n ge_from_to_bytes [OF v False]
    by (simp add: secp256k1_ge_from_bytes_ext_def secp256k1_ge_to_bytes_ext_def secp256k1_ge_is_infinity_def memcmp_var_eq_0_iff ge_ok_def)
qed

section \<open>Tables with a common denominator\<close>

text \<open>The product of the ratios from position \<open>i\<close> to the end of the table.\<close>

definition ratio_prod :: "secp256k1_fe list \<Rightarrow> nat \<Rightarrow> nat \<Rightarrow> fp" where
  "ratio_prod zr i n = (\<Prod>j\<in>{i..<n}. fe_fp (zr ! j))"

lemma ratio_prod_rec: "i < n \<Longrightarrow> ratio_prod zr i n = ratio_prod zr (Suc i) n * fe_fp (zr ! i)"
  by (simp add: ratio_prod_def prod.atLeast_Suc_lessThan mult.commute)

lemma ge_set_ge_zinv_coords:
  assumes "secp256k1_ge_verify a" "fe_is 8 zi v"
  shows "fe_is 1 (ge_x (secp256k1_ge_set_ge_zinv a zi)) (fe_fp (ge_x a) * v ^ 2)"
    "fe_is 1 (ge_y (secp256k1_ge_set_ge_zinv a zi)) (fe_fp (ge_y a) * v ^ 3)"
    "ge_infinity (secp256k1_ge_set_ge_zinv a zi) = ge_infinity a"
proof -
  have X: "fe_is 4 (ge_x a) (fe_fp (ge_x a))" and Y: "fe_is 3 (ge_y a) (fe_fp (ge_y a))"
    using assms(1) by (simp_all add: verify_defs fe_is_self)
  have z2: "fe_is 1 (secp256k1_fe_sqr zi) (v ^ 2)" by (rule fe_is_sqr [OF assms(2)]) simp
  show "fe_is 1 (ge_x (secp256k1_ge_set_ge_zinv a zi)) (fe_fp (ge_x a) * v ^ 2)"
    unfolding secp256k1_ge_set_ge_zinv_def Let_def secp256k1_ge.select_convs by (rule fe_is_mul [OF X z2]) simp_all
  show "fe_is 1 (ge_y (secp256k1_ge_set_ge_zinv a zi)) (fe_fp (ge_y a) * v ^ 3)"
    unfolding secp256k1_ge_set_ge_zinv_def Let_def secp256k1_ge.select_convs
    by (rule fe_is_cong [OF fe_is_mul [OF Y fe_is_mul [OF z2 assms(2)]]]) (simp_all add: power3_eq_cube power2_eq_square)
qed (simp add: secp256k1_ge_set_ge_zinv_def Let_def)

definition table_scaled :: "secp256k1_ge \<Rightarrow> secp256k1_ge \<Rightarrow> fp \<Rightarrow> bool" where
  "table_scaled r a v \<longleftrightarrow> fe_is 1 (ge_x r) (fe_fp (ge_x a) * v ^ 2) \<and> fe_is 1 (ge_y r) (fe_fp (ge_y a) * v ^ 3) \<and>
     ge_infinity r = ge_infinity a"

lemma table_globalz_loop_correct:
  assumes "i < length a" "length zr = length a" "\<forall>g\<in>set a. secp256k1_ge_verify g" "\<forall>z\<in>set zr. fe_magnitude 8 z"
    and "if i = length a - 1 then zs = zr ! i else fe_is 8 zs (ratio_prod zr (Suc i) (length a))"
  shows "length (table_globalz_loop a zr i zs) = length a \<and>
    (\<forall>k<i. table_scaled (table_globalz_loop a zr i zs ! k) (a ! k) (ratio_prod zr (Suc k) (length a))) \<and>
    (\<forall>k. i \<le> k \<longrightarrow> table_globalz_loop a zr i zs ! k = a ! k)"
  using assms
proof (induction a zr i zs rule: table_globalz_loop.induct)
  case (2 a zr i zs)
  define zs' where "zs' = (if Suc i \<noteq> length a - 1 then secp256k1_fe_mul zs (zr ! Suc i) else zs)"
  define a' where "a' = a[i := secp256k1_ge_set_ge_zinv (a ! i) zs']"
  have l: "length a' = length a" by (simp add: a'_def)
  have zi: "fe_magnitude 8 (zr ! Suc i)" using "2.prems"(1,2,4) by simp
  have z': "fe_is 8 zs' (ratio_prod zr (Suc i) (length a))"
  proof (cases "Suc i = length a - 1")
    case True
    then have "length a = Suc (Suc i)" using "2.prems"(1) by simp
    then have "ratio_prod zr (Suc i) (length a) = fe_fp (zr ! Suc i)" by (simp add: ratio_prod_def)
    then show ?thesis using True "2.prems"(5) fe_is_self [OF zi] by (simp add: zs'_def)
  next
    case False
    then have "fe_is 8 zs (ratio_prod zr (Suc (Suc i)) (length a))" using "2.prems"(5) by simp
    from fe_is_mono [OF fe_is_mul [OF this fe_is_self [OF zi]], of 8] ratio_prod_rec [OF "2.prems"(1), of zr] False
    show ?thesis by (simp add: zs'_def)
  qed
  have ai: "secp256k1_ge_verify (a ! i)" using "2.prems"(1,3) by simp
  note c = ge_set_ge_zinv_coords [OF ai z']
  have v: "\<forall>g\<in>set a'. secp256k1_ge_verify g"
  proof
    fix g assume "g \<in> set a'"
    then have "g \<in> set a \<or> g = secp256k1_ge_set_ge_zinv (a ! i) zs'" unfolding a'_def using set_update_subset_insert by fastforce
    then show "secp256k1_ge_verify g" using "2.prems"(3) c fe_magnitude_mono [of 1 _ 4] fe_magnitude_mono [of 1 _ 3]
      by (auto simp: verify_defs fe_is_def)
  qed
  have "if i = length a' - 1 then zs' = zr ! i else fe_is 8 zs' (ratio_prod zr (Suc i) (length a'))"
    using z' "2.prems"(1) by (simp add: l)
  from "2.IH" [OF zs'_def _ _ _ _ this [unfolded a'_def], folded a'_def] "2.prems" v l
  have IH: "length (table_globalz_loop a' zr i zs') = length a' \<and>
    (\<forall>k<i. table_scaled (table_globalz_loop a' zr i zs' ! k) (a' ! k) (ratio_prod zr (Suc k) (length a'))) \<and>
    (\<forall>k. i \<le> k \<longrightarrow> table_globalz_loop a' zr i zs' ! k = a' ! k)" by simp
  have e: "table_globalz_loop a zr (Suc i) zs = table_globalz_loop a' zr i zs'" by (simp add: Let_def zs'_def a'_def)
  have sc: "table_scaled (a' ! i) (a ! i) (ratio_prod zr (Suc i) (length a))"
    using c "2.prems"(1) by (simp add: table_scaled_def a'_def)
  show ?case unfolding e using IH sc l by (auto simp: a'_def less_Suc_eq)
qed simp

lemma ge_table_set_globalz_correct:
  assumes "length zr = length a" "\<forall>g\<in>set a. secp256k1_ge_verify g" "\<forall>z\<in>set zr. fe_magnitude 8 z" "k < length a"
  shows "length (secp256k1_ge_table_set_globalz a zr) = length a"
    "if k = length a - 1
     then secp256k1_ge_table_set_globalz a zr ! k = (a ! k)\<lparr>ge_y := secp256k1_fe_normalize_weak (ge_y (a ! k))\<rparr>
     else table_scaled (secp256k1_ge_table_set_globalz a zr ! k) (a ! k) (ratio_prod zr (Suc k) (length a))"
proof -
  let ?i = "length a - 1"
  define a' where "a' = a[?i := (a ! ?i)\<lparr>ge_y := secp256k1_fe_normalize_weak (ge_y (a ! ?i))\<rparr>]"
  have ne: "0 < length a" "?i < length a" using assms(4) by linarith+
  have i: "secp256k1_ge_verify (a ! ?i)" using assms(2) ne by simp
  have Y: "fe_is 1 (secp256k1_fe_normalize_weak (ge_y (a ! ?i))) (fe_fp (ge_y (a ! ?i)))"
    by (rule fe_is_normalize_weak [OF fe_is_self, of 3]) (use i in \<open>simp_all add: verify_defs\<close>)
  have v: "\<forall>g\<in>set a'. secp256k1_ge_verify g"
  proof
    fix g assume "g \<in> set a'"
    then have "g \<in> set a \<or> g = (a ! ?i)\<lparr>ge_y := secp256k1_fe_normalize_weak (ge_y (a ! ?i))\<rparr>"
      unfolding a'_def using set_update_subset_insert by fastforce
    then show "secp256k1_ge_verify g" using assms(2) i Y fe_magnitude_mono [of 1 _ 3] by (auto simp: verify_defs fe_is_def)
  qed
  have e: "secp256k1_ge_table_set_globalz a zr = table_globalz_loop a' zr ?i (zr ! ?i)"
    using ne by (simp add: secp256k1_ge_table_set_globalz_def Let_def a'_def)
  note r = table_globalz_loop_correct [of ?i a' zr "zr ! ?i", OF _ _ v assms(3)]
  have l: "length a' = length a" by (simp add: a'_def)
  show "length (secp256k1_ge_table_set_globalz a zr) = length a" using r ne assms(1) by (simp add: e l)
  show "if k = length a - 1
     then secp256k1_ge_table_set_globalz a zr ! k = (a ! k)\<lparr>ge_y := secp256k1_fe_normalize_weak (ge_y (a ! k))\<rparr>
     else table_scaled (secp256k1_ge_table_set_globalz a zr ! k) (a ! k) (ratio_prod zr (Suc k) (length a))"
  proof (cases "k = ?i")
    case True
    then show ?thesis using r ne assms(1) by (simp add: e l) (simp add: a'_def)
  next
    case False
    then have "k < ?i" using assms(4) by simp
    moreover have "a' ! k = a ! k" using False by (simp add: a'_def)
    ultimately show ?thesis using r ne assms(1) False unfolding e l by auto
  qed
qed

end
