(* ===== verification/Hsort.thy ===== *)
theory Hsort
  imports Hash "HOL-Library.Multiset"
begin

text \<open>
  In-place heap sort: \<open>src/Vendor/secp256k1/src/hsort_impl.h\<close>. The array is the byte string \<open>arr\<close>, cut in elements of
  \<open>stride\<close> bytes, as the code addresses it; the comparison function receives the bytes of two elements. Indices and
  sizes are natural numbers: every index computed stays below the number of elements, so the \<open>size_t\<close> arithmetic of
  the code does not wrap around for an array that fits in memory. The laws the comparison must satisfy form the
  locale \<open>sort_cmp\<close>, in which the sort is proved correct.
\<close>

section \<open>The code\<close>

definition secp256k1_heap_child1 :: "nat \<Rightarrow> nat" where
  "secp256k1_heap_child1 i = 2 * i + 1"

definition secp256k1_heap_child2 :: "nat \<Rightarrow> nat" where
  "secp256k1_heap_child2 i = secp256k1_heap_child1 i + 1"

definition secp256k1_heap_swap64 :: "bytes \<Rightarrow> nat \<Rightarrow> nat \<Rightarrow> nat \<Rightarrow> bytes" where
  "secp256k1_heap_swap64 arr a b len =
    (let tmp = take len (drop a arr);
         arr = memcpy_at arr a (take len (drop b arr))
     in memcpy_at arr b tmp)"

function heap_swap_loop :: "bytes \<Rightarrow> nat \<Rightarrow> nat \<Rightarrow> nat \<Rightarrow> bytes" where
  "heap_swap_loop arr a b len =
    (if 64 < len then heap_swap_loop (secp256k1_heap_swap64 arr (a + (len - 64)) (b + (len - 64)) 64) a b (len - 64)
     else secp256k1_heap_swap64 arr a b len)"
  by pat_completeness auto
termination by (relation "measure (\<lambda>(_, _, _, len). len)") auto

definition secp256k1_heap_swap :: "bytes \<Rightarrow> nat \<Rightarrow> nat \<Rightarrow> nat \<Rightarrow> bytes" where
  "secp256k1_heap_swap arr i j stride = heap_swap_loop arr (i * stride) (j * stride) stride"

definition heap_elem :: "bytes \<Rightarrow> nat \<Rightarrow> nat \<Rightarrow> bytes" where
  "heap_elem arr i stride = take stride (drop (i * stride) arr)"

function secp256k1_heap_down :: "(bytes \<Rightarrow> bytes \<Rightarrow> int) \<Rightarrow> bytes \<Rightarrow> nat \<Rightarrow> nat \<Rightarrow> nat \<Rightarrow> bytes" where
  "secp256k1_heap_down cmp arr i heap_size stride =
    (if i < heap_size div 2 then
       let c1 = secp256k1_heap_child1 i; c2 = secp256k1_heap_child2 i
       in if c2 < heap_size \<and> 0 \<le> cmp (heap_elem arr c2 stride) (heap_elem arr c1 stride) then
            if 0 < cmp (heap_elem arr c2 stride) (heap_elem arr i stride)
            then secp256k1_heap_down cmp (secp256k1_heap_swap arr i c2 stride) c2 heap_size stride
            else arr
          else if 0 < cmp (heap_elem arr c1 stride) (heap_elem arr i stride)
          then secp256k1_heap_down cmp (secp256k1_heap_swap arr i c1 stride) c1 heap_size stride
          else arr
     else arr)"
  by pat_completeness auto
termination
  by (relation "measure (\<lambda>(_, _, i, heap_size, _). heap_size - i)") (auto simp: secp256k1_heap_child1_def secp256k1_heap_child2_def)

fun hsort_build :: "(bytes \<Rightarrow> bytes \<Rightarrow> int) \<Rightarrow> bytes \<Rightarrow> nat \<Rightarrow> nat \<Rightarrow> nat \<Rightarrow> bytes" where
  "hsort_build cmp ptr cnt sz 0 = ptr"
| "hsort_build cmp ptr cnt sz (Suc i) = hsort_build cmp (secp256k1_heap_down cmp ptr i cnt sz) cnt sz i"

fun hsort_extract :: "(bytes \<Rightarrow> bytes \<Rightarrow> int) \<Rightarrow> bytes \<Rightarrow> nat \<Rightarrow> nat \<Rightarrow> bytes" where
  "hsort_extract cmp ptr sz i =
    (if 1 < i then
       let ptr = secp256k1_heap_swap ptr 0 (i - 1) sz;
           ptr = secp256k1_heap_down cmp ptr 0 (i - 1) sz
       in hsort_extract cmp ptr sz (i - 1)
     else ptr)"

definition secp256k1_hsort :: "(bytes \<Rightarrow> bytes \<Rightarrow> int) \<Rightarrow> bytes \<Rightarrow> nat \<Rightarrow> nat \<Rightarrow> bytes" where
  "secp256k1_hsort cmp ptr cnt sz =
    (let ptr = hsort_build cmp ptr cnt sz (cnt div 2)
     in hsort_extract cmp ptr sz cnt)"

declare heap_swap_loop.simps [simp del] secp256k1_heap_down.simps [simp del] hsort_extract.simps [simp del]

section \<open>Swapping two elements of the byte array\<close>

definition apart :: "nat \<Rightarrow> nat \<Rightarrow> nat \<Rightarrow> bool" where
  "apart a b len \<longleftrightarrow> a = b \<or> a + len \<le> b \<or> b + len \<le> a"

definition swapped :: "bytes \<Rightarrow> bytes \<Rightarrow> nat \<Rightarrow> nat \<Rightarrow> nat \<Rightarrow> nat \<Rightarrow> bool" where
  "swapped arr' arr a b lo len \<longleftrightarrow> length arr' = length arr \<and>
     (\<forall>k<length arr. arr' ! k = (if a + lo \<le> k \<and> k < a + len then arr ! (b + (k - a))
        else if b + lo \<le> k \<and> k < b + len then arr ! (a + (k - b)) else arr ! k))"

lemma nth_memcpy_at:
  assumes "off + length src \<le> length buf" "k < length buf"
  shows "memcpy_at buf off src ! k = (if off \<le> k \<and> k < off + length src then src ! (k - off) else buf ! k)"
  using assms by (auto simp: memcpy_at_def nth_append)

lemma length_memcpy_at: "off + length src \<le> length buf \<Longrightarrow> length (memcpy_at buf off src) = length buf"
  by (simp add: memcpy_at_def)

lemma heap_swap64_swapped:
  assumes "apart a b len" "a + len \<le> length arr" "b + len \<le> length arr"
  shows "swapped (secp256k1_heap_swap64 arr a b len) arr a b 0 len"
  using assms by (auto simp: swapped_def secp256k1_heap_swap64_def Let_def nth_memcpy_at length_memcpy_at apart_def)

lemma swapped_step:
  assumes "swapped arr1 arr a b lo len" "swapped arr2 arr1 a b 0 lo" "apart a b len" "lo \<le> len"
    "a + len \<le> length arr" "b + len \<le> length arr"
  shows "swapped arr2 arr a b 0 len"
proof -
  have l: "length arr1 = length arr" "length arr2 = length arr" using assms(1,2) by (simp_all add: swapped_def)
  have e1: "arr1 ! k = (if a + lo \<le> k \<and> k < a + len then arr ! (b + (k - a))
      else if b + lo \<le> k \<and> k < b + len then arr ! (a + (k - b)) else arr ! k)" if "k < length arr" for k
    using assms(1) that by (simp add: swapped_def)
  have e2: "arr2 ! k = (if a \<le> k \<and> k < a + lo then arr1 ! (b + (k - a))
      else if b \<le> k \<and> k < b + lo then arr1 ! (a + (k - b)) else arr1 ! k)" if "k < length arr" for k
    using assms(2) that l by (simp add: swapped_def)
  have "arr2 ! k = (if a \<le> k \<and> k < a + len then arr ! (b + (k - a))
      else if b \<le> k \<and> k < b + len then arr ! (a + (k - b)) else arr ! k)" if k: "k < length arr" for k
  proof -
    consider "a \<le> k" "k < a + lo" | "\<not> (a \<le> k \<and> k < a + lo)" "b \<le> k" "k < b + lo" | "\<not> (a \<le> k \<and> k < a + lo)" "\<not> (b \<le> k \<and> k < b + lo)"
      by blast
    then show ?thesis
    proof cases
      case 1
      then have "b + (k - a) < length arr" using assms(4,6) by linarith
      then show ?thesis using 1 e2 [OF k] e1 [of "b + (k - a)"] assms(3,4) by (auto simp: apart_def)
    next
      case 2
      then have "a + (k - b) < length arr" using assms(4,5) by linarith
      then show ?thesis using 2 e2 [OF k] e1 [of "a + (k - b)"] assms(3,4) by (auto simp: apart_def)
    next
      case 3
      then show ?thesis using e2 [OF k] e1 [OF k] assms(3,4) by (auto simp: apart_def)
    qed
  qed
  then show ?thesis using l by (simp add: swapped_def)
qed

lemma heap_swap_loop_swapped:
  assumes "apart a b len" "a + len \<le> length arr" "b + len \<le> length arr"
  shows "swapped (heap_swap_loop arr a b len) arr a b 0 len"
  using assms
proof (induction arr a b len rule: heap_swap_loop.induct)
  case (1 arr a b len)
  show ?case
  proof (cases "64 < len")
    case True
    let ?m = "len - 64"
    let ?arr = "secp256k1_heap_swap64 arr (a + ?m) (b + ?m) 64"
    have "swapped ?arr arr (a + ?m) (b + ?m) 0 64" by (rule heap_swap64_swapped) (use 1(2-) True in \<open>auto simp: apart_def\<close>)
    then have s: "swapped ?arr arr a b ?m len" using True by (auto simp: swapped_def)
    then have "length ?arr = length arr" by (simp add: swapped_def)
    moreover have "apart a b ?m" "a + ?m \<le> length arr" "b + ?m \<le> length arr" using 1(2-) True unfolding apart_def by linarith+
    ultimately have "swapped (heap_swap_loop ?arr a b ?m) ?arr a b 0 ?m" using 1(1) [OF True] by simp
    with s have "swapped (heap_swap_loop ?arr a b ?m) arr a b 0 len" by (rule swapped_step) (use 1(2-) in auto)
    then show ?thesis using True by (subst heap_swap_loop.simps) simp
  next
    case False
    then show ?thesis using heap_swap64_swapped 1(2-) by (subst heap_swap_loop.simps) simp
  qed
qed

definition elems :: "bytes \<Rightarrow> nat \<Rightarrow> nat \<Rightarrow> bytes list" where
  "elems arr n stride = map (\<lambda>i. heap_elem arr i stride) [0..<n]"

definition exchange :: "'a list \<Rightarrow> nat \<Rightarrow> nat \<Rightarrow> 'a list" where
  "exchange xs i j = xs[i := xs ! j, j := xs ! i]"

lemma index_bound: "i < n \<Longrightarrow> i * s + s \<le> n * (s :: nat)"
  by (metis Suc_leI add.commute mult.commute mult_Suc_right mult_le_mono2)

lemma index_apart: "apart (i * s) (j * s) s"
  using index_bound [of i j s] index_bound [of j i s] by (cases i j rule: linorder_cases) (simp_all add: apart_def)

lemma index_inside: "i * s \<le> k \<Longrightarrow> k < i * s + s \<Longrightarrow> j * s \<le> k \<Longrightarrow> k < j * s + s \<Longrightarrow> i = (j :: nat)"
  using index_apart [of i s j] by (cases "s = 0") (auto simp: apart_def)

lemma heap_elem_eqI:
  assumes "length arr = n * s" "length arr' = n * s" "i < n" "j < n" "\<And>t. t < s \<Longrightarrow> arr' ! (i * s + t) = arr ! (j * s + t)"
  shows "heap_elem arr' i s = heap_elem arr j s"
  using assms index_bound [of i n s] index_bound [of j n s] by (auto simp: heap_elem_def intro!: nth_equalityI)

lemma elems_swap:
  assumes "length arr = n * stride" "i < n" "j < n"
  shows "elems (secp256k1_heap_swap arr i j stride) n stride = exchange (elems arr n stride) i j"
    and "length (secp256k1_heap_swap arr i j stride) = n * stride"
proof -
  let ?arr = "secp256k1_heap_swap arr i j stride"
  have b: "\<And>k. k < n \<Longrightarrow> k * stride + stride \<le> length arr" using assms(1) index_bound by metis
  have s: "swapped ?arr arr (i * stride) (j * stride) 0 stride"
    unfolding secp256k1_heap_swap_def by (rule heap_swap_loop_swapped [OF index_apart]) (use b assms in blast)+
  then show l: "length ?arr = n * stride" using assms(1) by (simp add: swapped_def)
  have nth: "?arr ! (k * stride + t) = arr ! ((if k = i then j else if k = j then i else k) * stride + t)"
    if "k < n" "t < stride" for k t
  proof -
    have "k * stride + t < length arr" using b [OF that(1)] that(2) by linarith
    then show ?thesis using s that index_inside [of k stride "k * stride + t" i] index_inside [of k stride "k * stride + t" j]
      unfolding swapped_def by auto
  qed
  have "heap_elem ?arr k stride = heap_elem arr (if k = i then j else if k = j then i else k) stride" if "k < n" for k
    by (rule heap_elem_eqI [OF assms(1) l that]) (use assms that nth in auto)
  then show "elems ?arr n stride = exchange (elems arr n stride) i j"
    using assms by (auto simp: elems_def exchange_def nth_list_update intro!: nth_equalityI)
qed

section \<open>The sort on lists\<close>

text \<open>The byte-level routines are refined to the same steps on the list of elements.\<close>

function sift :: "('a \<Rightarrow> 'a \<Rightarrow> int) \<Rightarrow> nat \<Rightarrow> 'a list \<Rightarrow> nat \<Rightarrow> 'a list" where
  "sift cmp n xs i =
    (if i < n div 2 then
       if 2 * i + 2 < n \<and> 0 \<le> cmp (xs ! (2 * i + 2)) (xs ! (2 * i + 1)) then
         if 0 < cmp (xs ! (2 * i + 2)) (xs ! i) then sift cmp n (exchange xs i (2 * i + 2)) (2 * i + 2) else xs
       else if 0 < cmp (xs ! (2 * i + 1)) (xs ! i) then sift cmp n (exchange xs i (2 * i + 1)) (2 * i + 1)
       else xs
     else xs)"
  by pat_completeness auto
termination by (relation "measure (\<lambda>(_, n, _, i). n - i)") auto

declare sift.simps [simp del]

fun heapify :: "('a \<Rightarrow> 'a \<Rightarrow> int) \<Rightarrow> 'a list \<Rightarrow> nat \<Rightarrow> 'a list" where
  "heapify cmp xs 0 = xs"
| "heapify cmp xs (Suc i) = heapify cmp (sift cmp (length xs) xs i) i"

fun drain :: "('a \<Rightarrow> 'a \<Rightarrow> int) \<Rightarrow> 'a list \<Rightarrow> nat \<Rightarrow> 'a list" where
  "drain cmp xs 0 = xs"
| "drain cmp xs (Suc i) = (if i = 0 then xs else drain cmp (sift cmp i (exchange xs 0 i) 0) i)"

lemma length_elems [simp]: "length (elems arr n stride) = n"
  by (simp add: elems_def)

lemma nth_elems: "i < n \<Longrightarrow> elems arr n stride ! i = heap_elem arr i stride"
  by (simp add: elems_def)

lemma length_exchange [simp]: "length (exchange xs i j) = length xs"
  by (simp add: exchange_def)

lemma length_sift [simp]: "length (sift cmp n xs i) = length xs"
proof (induction cmp n xs i rule: sift.induct)
  case (1 cmp n xs i)
  then show ?case by (subst sift.simps) simp
qed

lemma elems_heap_down:
  assumes "length arr = n * stride" "m \<le> n"
  shows "elems (secp256k1_heap_down cmp arr i m stride) n stride = sift cmp m (elems arr n stride) i \<and>
    length (secp256k1_heap_down cmp arr i m stride) = n * stride"
  using assms
proof (induction cmp arr i m stride rule: secp256k1_heap_down.induct)
  case (1 cmp arr i m stride)
  have c: "secp256k1_heap_child1 i = 2 * i + 1" "secp256k1_heap_child2 i = 2 * i + 2"
    by (simp_all add: secp256k1_heap_child1_def secp256k1_heap_child2_def)
  note sw = elems_swap [OF 1(3)]
  show ?case
  proof (cases "i < m div 2")
    case True
    have b: "i < n" "2 * i + 1 < n" using True 1(4) by linarith+
    show ?thesis
    proof (cases "2 * i + 2 < m \<and> 0 \<le> cmp (heap_elem arr (2 * i + 2) stride) (heap_elem arr (2 * i + 1) stride)")
      case T2: True
      then have b2: "2 * i + 2 < n" using 1(4) by linarith
      show ?thesis using 1(1) [OF True refl refl] 1(3,4) T2 True sw [OF b(1) b2] b b2
        by (subst (1 2) secp256k1_heap_down.simps, subst sift.simps) (simp add: c Let_def nth_elems)
    next
      case F2: False
      show ?thesis using 1(2) [OF True refl refl] 1(3,4) F2 True sw [OF b] b
        by (subst (1 2) secp256k1_heap_down.simps, subst sift.simps) (auto simp: c Let_def nth_elems)
    qed
  next
    case False
    then show ?thesis using 1(3) by (subst (1 2) secp256k1_heap_down.simps, subst sift.simps) simp
  qed
qed

lemma elems_build:
  "length arr = n * stride \<Longrightarrow> elems (hsort_build cmp arr n stride i) n stride = heapify cmp (elems arr n stride) i \<and>
    length (hsort_build cmp arr n stride i) = n * stride"
  by (induction i arbitrary: arr) (simp_all add: elems_heap_down)

lemma elems_extract:
  "length arr = n * stride \<Longrightarrow> i \<le> n \<Longrightarrow> elems (hsort_extract cmp arr stride i) n stride = drain cmp (elems arr n stride) i \<and>
    length (hsort_extract cmp arr stride i) = n * stride"
proof (induction i arbitrary: arr)
  case 0
  then show ?case by (subst (1 2) hsort_extract.simps) simp
next
  case (Suc i)
  let ?arr = "secp256k1_heap_swap arr 0 i stride"
  have "length ?arr = n * stride" "elems ?arr n stride = exchange (elems arr n stride) 0 i"
    using elems_swap [OF Suc(2), of 0 i] Suc(3) by simp_all
  then show ?case using Suc(1) [of "secp256k1_heap_down cmp ?arr 0 i stride"] elems_heap_down [of ?arr n stride i cmp 0] Suc(2,3)
    by (subst (1 2) hsort_extract.simps) (simp add: Let_def)
qed

lemma elems_hsort:
  assumes "length arr = n * stride"
  shows "elems (secp256k1_hsort cmp arr n stride) n stride =
      drain cmp (heapify cmp (elems arr n stride) (n div 2)) n"
    and "length (secp256k1_hsort cmp arr n stride) = n * stride"
  using elems_build [OF assms] elems_extract [of "hsort_build cmp arr n stride (n div 2)" n stride n]
  by (simp_all add: secp256k1_hsort_def Let_def)

section \<open>Correctness for a lawful comparison\<close>

text \<open>
  The contract of the comparison: its sign is antisymmetric and being at most zero is transitive. A heap on the first
  \<open>n\<close> positions, from position \<open>k\<close> on, has every element at most its parent when the parent is at least \<open>k\<close>.
\<close>

definition heap_from :: "('a \<Rightarrow> 'a \<Rightarrow> int) \<Rightarrow> nat \<Rightarrow> nat \<Rightarrow> 'a list \<Rightarrow> bool" where
  "heap_from cmp k n xs \<longleftrightarrow> (\<forall>j. 0 < j \<and> j < n \<and> k \<le> (j - 1) div 2 \<longrightarrow> cmp (xs ! j) (xs ! ((j - 1) div 2)) \<le> 0)"

definition heap_except :: "('a \<Rightarrow> 'a \<Rightarrow> int) \<Rightarrow> nat \<Rightarrow> nat \<Rightarrow> nat \<Rightarrow> 'a list \<Rightarrow> bool" where
  "heap_except cmp k n i xs \<longleftrightarrow>
    (\<forall>j. 0 < j \<and> j < n \<and> k \<le> (j - 1) div 2 \<and> (j - 1) div 2 \<noteq> i \<longrightarrow> cmp (xs ! j) (xs ! ((j - 1) div 2)) \<le> 0) \<and>
    (\<forall>j. 0 < j \<and> j < n \<and> (j - 1) div 2 = i \<and> 0 < i \<and> k \<le> (i - 1) div 2 \<longrightarrow> cmp (xs ! j) (xs ! ((i - 1) div 2)) \<le> 0)"

text \<open>The loop invariant of the second phase: a heap in front of a sorted end that dominates it.\<close>

definition drain_inv :: "('a \<Rightarrow> 'a \<Rightarrow> int) \<Rightarrow> nat \<Rightarrow> 'a list \<Rightarrow> bool" where
  "drain_inv cmp n xs \<longleftrightarrow> n \<le> length xs \<and> heap_from cmp 0 n xs \<and> sorted_wrt (\<lambda>a b. cmp a b \<le> 0) (drop n xs) \<and>
     (\<forall>a\<in>set (take n xs). \<forall>b\<in>set (drop n xs). cmp a b \<le> 0)"

lemma child_cases: "0 < j \<Longrightarrow> (j - 1) div 2 = i \<longleftrightarrow> j = 2 * i + 1 \<or> j = 2 * i + (2 :: nat)"
  by auto

lemma exchange_nth:
  assumes "i < length xs" "j < length xs" "k < length xs"
  shows "exchange xs i j ! k = (if k = i then xs ! j else if k = j then xs ! i else xs ! k)"
  using assms by (auto simp: exchange_def nth_list_update)

lemma exchange_outside: "k \<noteq> i \<Longrightarrow> k \<noteq> j \<Longrightarrow> exchange xs i j ! k = xs ! k"
  by (simp add: exchange_def)

lemma mset_exchange: "i < length xs \<Longrightarrow> j < length xs \<Longrightarrow> mset (exchange xs i j) = mset xs"
  by (simp add: exchange_def mset_swap)

lemma sift_mset: "n \<le> length xs \<Longrightarrow> mset (sift cmp n xs i) = mset xs"
proof (induction cmp n xs i rule: sift.induct)
  case (1 cmp n xs i)
  show ?case
  proof (cases "i < n div 2")
    case True
    then have "i < length xs" "2 * i + 1 < length xs" "2 * i + 2 < n \<longrightarrow> 2 * i + 2 < length xs" using 1(3) by linarith+
    then show ?thesis using 1(1,2) True 1(3) by (subst sift.simps) (simp add: mset_exchange)
  next
    case False
    then show ?thesis by (subst sift.simps) simp
  qed
qed

lemma sift_outside: "n \<le> k \<Longrightarrow> sift cmp n xs i ! k = xs ! k"
proof (induction cmp n xs i rule: sift.induct)
  case (1 cmp n xs i)
  show ?case
  proof (cases "i < n div 2")
    case True
    then have "k \<noteq> i" "k \<noteq> 2 * i + 1" "2 * i + 2 < n \<longrightarrow> k \<noteq> 2 * i + 2" using 1(3) by linarith+
    then show ?thesis using 1(1,2) True 1(3) by (subst sift.simps) (simp add: exchange_outside)
  next
    case False
    then show ?thesis by (subst sift.simps) simp
  qed
qed

lemma sift_drop: "drop n (sift cmp n xs i) = drop n xs"
  by (rule nth_equalityI) (simp_all add: sift_outside)

lemma sift_set_take: "n \<le> length xs \<Longrightarrow> mset (take n (sift cmp n xs i)) = mset (take n xs)"
  using sift_mset [of n xs cmp i] sift_drop [of n cmp xs i]
  by (metis add_right_cancel append_take_drop_id mset_append)

locale sort_cmp =
  fixes cmp :: "'a \<Rightarrow> 'a \<Rightarrow> int"
  assumes cmp_antisym: "0 \<le> cmp a b \<longleftrightarrow> cmp b a \<le> 0"
    and cmp_trans: "cmp a b \<le> 0 \<Longrightarrow> cmp b c \<le> 0 \<Longrightarrow> cmp a c \<le> 0"
begin

lemma cmp_refl: "cmp a a \<le> 0"
  using cmp_antisym [of a a] by linarith

lemma cmp_total: "\<not> cmp a b \<le> 0 \<Longrightarrow> cmp b a \<le> 0"
  using cmp_antisym [of a b] by linarith

lemma heap_except_step:
  assumes h: "heap_except cmp k n i xs" and i: "k \<le> i" and c: "c = 2 * i + 1 \<or> c = 2 * i + 2" "c < n" and n: "n \<le> length xs"
    and up: "\<not> cmp (xs ! c) (xs ! i) \<le> 0" and max: "\<And>j. j < n \<Longrightarrow> j = 2 * i + 1 \<or> j = 2 * i + 2 \<Longrightarrow> cmp (xs ! j) (xs ! c) \<le> 0"
  shows "heap_except cmp k n c (exchange xs i c)"
proof -
  have ci: "i < c" "c \<noteq> 0" "(c - 1) div 2 = i" using c by auto
  have nth: "exchange xs i c ! j = (if j = i then xs ! c else if j = c then xs ! i else xs ! j)" if "j < n" for j
    by (rule exchange_nth) (use that ci c n in linarith)+
  have le: "cmp (xs ! j) (xs ! ((j - 1) div 2)) \<le> 0" if "0 < j" "j < n" "k \<le> (j - 1) div 2" "(j - 1) div 2 \<noteq> i" for j
    using h that by (auto simp: heap_except_def)
  have br: "cmp (xs ! j) (xs ! ((i - 1) div 2)) \<le> 0" if "0 < j" "j < n" "(j - 1) div 2 = i" "0 < i" "k \<le> (i - 1) div 2" for j
    using h that by (auto simp: heap_except_def)
  show ?thesis unfolding heap_except_def
  proof (intro conjI allI impI)
    fix j assume j: "0 < j \<and> j < n \<and> k \<le> (j - 1) div 2 \<and> (j - 1) div 2 \<noteq> c"
    let ?p = "(j - 1) div 2"
    have p: "?p < n" "?p \<noteq> j" using j by linarith+
    consider "?p = i" "j = c" | "?p = i" "j \<noteq> c" "j \<noteq> i" | "?p \<noteq> i" "j = i" | "?p \<noteq> i" "j \<noteq> i" "j \<noteq> c" using ci p by auto
    then show "cmp (exchange xs i c ! j) (exchange xs i c ! ?p) \<le> 0"
    proof cases
      case 1
      then show ?thesis using nth [of j] nth [OF p(1)] j ci cmp_total [OF up] by simp
    next
      case 2
      then show ?thesis using nth [of j] nth [OF p(1)] j child_cases [of j i] max [of j] by simp
    next
      case 3
      then show ?thesis using nth [of j] nth [OF p(1)] j ci br [of c] c by simp
    next
      case 4
      then show ?thesis using nth [of j] nth [OF p(1)] j le [of j] by simp
    qed
  next
    fix j assume j: "0 < j \<and> j < n \<and> (j - 1) div 2 = c \<and> 0 < c \<and> k \<le> (c - 1) div 2"
    then have "j \<noteq> i" "j \<noteq> c" using ci by auto
    then show "cmp (exchange xs i c ! j) (exchange xs i c ! ((c - 1) div 2)) \<le> 0"
      using nth [of j] nth [of i] j ci c le [of j] i by simp
  qed
qed

lemma heap_except_stop:
  assumes "heap_except cmp k n i xs" "\<And>j. j < n \<Longrightarrow> j = 2 * i + 1 \<or> j = 2 * i + 2 \<Longrightarrow> cmp (xs ! j) (xs ! i) \<le> 0"
  shows "heap_from cmp k n xs"
  unfolding heap_from_def
proof (intro allI impI)
  fix j assume j: "0 < j \<and> j < n \<and> k \<le> (j - 1) div 2"
  show "cmp (xs ! j) (xs ! ((j - 1) div 2)) \<le> 0"
  proof (cases "(j - 1) div 2 = i")
    case True
    then show ?thesis using assms(2) [of j] child_cases [of j i] j by simp
  next
    case False
    then show ?thesis using assms(1) j unfolding heap_except_def by blast
  qed
qed

lemma sift_heap:
  assumes "heap_except cmp k n i xs" "k \<le> i" "n \<le> length xs"
  shows "heap_from cmp k n (sift cmp n xs i)"
  using assms
proof (induction "n - i" arbitrary: xs i rule: less_induct)
  case less
  note IH = less(1) and h = less(2) and i = less(3) and n = less(4)
  show ?case
  proof (cases "i < n div 2")
    case True
    then have c1: "2 * i + 1 < n" by linarith
    have down: "heap_from cmp k n (sift cmp n (exchange xs i c) c)"
      if c: "c = 2 * i + 1 \<or> c = 2 * i + 2" "c < n" "0 < cmp (xs ! c) (xs ! i)"
        and max: "\<And>j. j < n \<Longrightarrow> j = 2 * i + 1 \<or> j = 2 * i + 2 \<Longrightarrow> cmp (xs ! j) (xs ! c) \<le> 0" for c
    proof (rule IH)
      show "heap_except cmp k n c (exchange xs i c)" by (rule heap_except_step [OF h i c(1,2) n _ max]) (use c(3) in auto)
    qed (use c i n in auto)
    show ?thesis
    proof (cases "2 * i + 2 < n \<and> 0 \<le> cmp (xs ! (2 * i + 2)) (xs ! (2 * i + 1))")
      case T: True
      then have le: "cmp (xs ! (2 * i + 1)) (xs ! (2 * i + 2)) \<le> 0" by (simp add: cmp_antisym)
      have "heap_from cmp k n (sift cmp n (exchange xs i (2 * i + 2)) (2 * i + 2))" if "0 < cmp (xs ! (2 * i + 2)) (xs ! i)"
        by (rule down) (use T that le cmp_refl in auto)
      moreover have "heap_from cmp k n xs" if "\<not> 0 < cmp (xs ! (2 * i + 2)) (xs ! i)"
      proof (rule heap_except_stop [OF h])
        fix j assume "j < n" "j = 2 * i + 1 \<or> j = 2 * i + 2"
        moreover have "cmp (xs ! (2 * i + 2)) (xs ! i) \<le> 0" using that by linarith
        moreover from this have "cmp (xs ! (2 * i + 1)) (xs ! i) \<le> 0" by (rule cmp_trans [OF le])
        ultimately show "cmp (xs ! j) (xs ! i) \<le> 0" by blast
      qed
      ultimately show ?thesis using True T by (subst sift.simps) simp
    next
      case F: False
      have max: "cmp (xs ! j) (xs ! (2 * i + 1)) \<le> 0" if "j < n" "j = 2 * i + 1 \<or> j = 2 * i + 2" for j
        using that F cmp_refl by auto
      have "heap_from cmp k n (sift cmp n (exchange xs i (2 * i + 1)) (2 * i + 1))" if "0 < cmp (xs ! (2 * i + 1)) (xs ! i)"
        by (rule down) (use c1 that max in auto)
      moreover have "heap_from cmp k n xs" if "\<not> 0 < cmp (xs ! (2 * i + 1)) (xs ! i)"
      proof (rule heap_except_stop [OF h])
        fix j assume "j < n" "j = 2 * i + 1 \<or> j = 2 * i + 2"
        then show "cmp (xs ! j) (xs ! i) \<le> 0" by (rule cmp_trans [OF max]) (use that in linarith)
      qed
      ultimately show ?thesis using True F by (subst sift.simps) auto
    qed
  next
    case False
    have "heap_from cmp k n xs" by (rule heap_except_stop [OF h]) (use False in auto)
    then show ?thesis using False by (subst sift.simps) simp
  qed
qed

lemma heapify_heap:
  "heap_from cmp i (length xs) xs \<Longrightarrow> heap_from cmp 0 (length xs) (heapify cmp xs i) \<and> mset (heapify cmp xs i) = mset xs \<and>
    length (heapify cmp xs i) = length xs"
proof (induction i arbitrary: xs)
  case (Suc i)
  have "heap_except cmp i (length xs) i xs" using Suc(2) unfolding heap_from_def heap_except_def by auto
  then have "heap_from cmp i (length xs) (sift cmp (length xs) xs i)" by (rule sift_heap) simp_all
  then show ?case using Suc(1) [of "sift cmp (length xs) xs i"] sift_mset [of "length xs" xs cmp i] by simp
qed simp

lemma heap_root:
  assumes "heap_from cmp 0 n xs" "j < n"
  shows "cmp (xs ! j) (xs ! 0) \<le> 0"
  using assms(2)
proof (induction j rule: less_induct)
  case (less j)
  show ?case
  proof (cases "j = 0")
    case False
    then have "cmp (xs ! j) (xs ! ((j - 1) div 2)) \<le> 0" using assms(1) less(2) by (simp add: heap_from_def)
    moreover have "cmp (xs ! ((j - 1) div 2)) (xs ! 0) \<le> 0" by (rule less(1)) (use False less(2) in auto)
    ultimately show ?thesis by (rule cmp_trans)
  qed (simp add: cmp_refl)
qed

lemma drain_step:
  assumes "drain_inv cmp (Suc i) xs" "0 < i"
  shows "drain_inv cmp i (sift cmp i (exchange xs 0 i) 0)"
proof -
  let ?ys = "exchange xs 0 i"
  have n: "i < length xs" and h: "heap_from cmp 0 (Suc i) xs" using assms(1) by (simp_all add: drain_inv_def)
  have nth: "?ys ! j = (if j = 0 then xs ! i else if j = i then xs ! 0 else xs ! j)" if "j < length xs" for j
    by (rule exchange_nth) (use n that in auto)
  have "heap_except cmp 0 i 0 ?ys" unfolding heap_except_def
  proof (intro conjI allI impI)
    fix j assume j: "0 < j \<and> j < i \<and> 0 \<le> (j - 1) div 2 \<and> (j - 1) div 2 \<noteq> 0"
    then have "(j - 1) div 2 < i" "(j - 1) div 2 < length xs" "j < length xs" using n by linarith+
    then have "?ys ! j = xs ! j" "?ys ! ((j - 1) div 2) = xs ! ((j - 1) div 2)" using j nth by simp_all
    then show "cmp (?ys ! j) (?ys ! ((j - 1) div 2)) \<le> 0" using h j by (simp add: heap_from_def)
  qed simp
  then have heap: "heap_from cmp 0 i (sift cmp i ?ys 0)" by (rule sift_heap) (use n in auto)
  have d: "drop i ?ys = xs ! 0 # drop (Suc i) xs"
    using n assms(2) nth by (intro nth_equalityI) (auto simp: nth_Cons' Suc_diff_Suc)
  have "set (take i ?ys) \<subseteq> set (take (Suc i) xs)"
  proof
    fix a assume "a \<in> set (take i ?ys)"
    then obtain j where j: "j < i" "a = ?ys ! j" by (auto simp: in_set_conv_nth)
    then have "a = xs ! (if j = 0 then i else j)" using n nth [of j] by auto
    moreover have "xs ! m \<in> set (take (Suc i) xs)" if "m \<le> i" for m
      using nth_mem [of m "take (Suc i) xs"] n that by simp
    ultimately show "a \<in> set (take (Suc i) xs)" using j(1) by simp
  qed
  moreover have "mset (take i (sift cmp i ?ys 0)) = mset (take i ?ys)" by (rule sift_set_take) (use n in simp)
  ultimately have t: "set (take i (sift cmp i ?ys 0)) \<subseteq> set (take (Suc i) xs)" by (metis set_mset_mset)
  have r: "cmp a (xs ! 0) \<le> 0" if "a \<in> set (take (Suc i) xs)" for a
    using that heap_root [OF h] n by (auto simp: in_set_conv_nth)
  have x0: "xs ! 0 \<in> set (take (Suc i) xs)" using n by (auto simp: in_set_conv_nth intro!: exI [of _ 0])
  show ?thesis unfolding drain_inv_def sift_drop d
  proof (intro conjI)
    show "sorted_wrt (\<lambda>a b. cmp a b \<le> 0) (xs ! 0 # drop (Suc i) xs)" using assms(1) x0 by (simp add: drain_inv_def)
    show "\<forall>a\<in>set (take i (sift cmp i ?ys 0)). \<forall>b\<in>set (xs ! 0 # drop (Suc i) xs). cmp a b \<le> 0"
      using assms(1) t r unfolding drain_inv_def by (metis set_ConsD subsetD)
  qed (use n heap in simp_all)
qed

lemma drain_correct:
  "drain_inv cmp i xs \<Longrightarrow> sorted_wrt (\<lambda>a b. cmp a b \<le> 0) (drain cmp xs i) \<and> mset (drain cmp xs i) = mset xs"
proof (induction i arbitrary: xs)
  case 0
  then show ?case by (simp add: drain_inv_def)
next
  case (Suc i)
  show ?case
  proof (cases "i = 0")
    case True
    then show ?thesis using Suc(2) by (cases xs) (auto simp: drain_inv_def)
  next
    case False
    have "mset (sift cmp i (exchange xs 0 i) 0) = mset xs"
      using sift_mset [of i "exchange xs 0 i" cmp 0] mset_exchange [of 0 xs i] Suc(2) by (cases xs) (simp_all add: drain_inv_def)
    then show ?thesis using Suc(1) [OF drain_step [OF Suc(2)]] False by simp
  qed
qed

end

text \<open>On a byte array, for a comparison of elements given by their bytes.\<close>

locale byte_sort_cmp = sort_cmp cmp for cmp :: "bytes \<Rightarrow> bytes \<Rightarrow> int"
begin

lemma hsort_correct:
  assumes "length arr = n * stride"
  shows "sorted_wrt (\<lambda>a b. cmp a b \<le> 0) (elems (secp256k1_hsort cmp arr n stride) n stride)"
    and "mset (elems (secp256k1_hsort cmp arr n stride) n stride) = mset (elems arr n stride)"
proof -
  let ?xs = "elems arr n stride" let ?ys = "heapify cmp ?xs (n div 2)"
  have "heap_from cmp (n div 2) (length ?xs) ?xs" by (auto simp: heap_from_def)
  from heapify_heap [OF this] have y: "heap_from cmp 0 n ?ys" "mset ?ys = mset ?xs" "length ?ys = n" by simp_all
  then have "drain_inv cmp n ?ys" by (simp add: drain_inv_def)
  from drain_correct [OF this] y(2)
  show "sorted_wrt (\<lambda>a b. cmp a b \<le> 0) (elems (secp256k1_hsort cmp arr n stride) n stride)"
    "mset (elems (secp256k1_hsort cmp arr n stride) n stride) = mset ?xs"
    unfolding elems_hsort(1) [OF assms] by simp_all
qed

end

end
