(* ===== verification/Api_Keys.thy ===== *)
theory Api_Keys
  imports Eckey Group_Storage Hsort
begin

text \<open>
  The public interface for keys: the part of \<open>src/Core/Nostr/Csecp256k1/secp256k1.c\<close> that parses, prints, compares,
  sorts and negates public keys and that checks, negates and tweaks secret keys. Conventions: a pointer argument
  is an \<open>option\<close> (\<open>None\<close> is \<open>NULL\<close>) of what it points to, and the updated contents are returned; then the result of
  the call; then the number of times the call invoked the illegal-argument callback of the context (\<open>ARG_CHECK\<close> invokes
  it and returns 0, so the callback is assumed to return). An uninitialized local that the code never reads
  before writing starts with an arbitrary value here.
\<close>

unbundle bit_operations_syntax

section \<open>Data\<close>

record secp256k1_pubkey =
  pubkey_data :: bytes

definition SECP256K1_FLAGS_TYPE_MASK :: u32 where "SECP256K1_FLAGS_TYPE_MASK = push_bit 8 1 - 1"
definition SECP256K1_FLAGS_TYPE_COMPRESSION :: u32 where "SECP256K1_FLAGS_TYPE_COMPRESSION = push_bit 1 1"
definition SECP256K1_FLAGS_BIT_COMPRESSION :: u32 where "SECP256K1_FLAGS_BIT_COMPRESSION = push_bit 8 1"
definition SECP256K1_EC_COMPRESSED :: u32 where
  "SECP256K1_EC_COMPRESSED = (SECP256K1_FLAGS_TYPE_COMPRESSION OR SECP256K1_FLAGS_BIT_COMPRESSION)"
definition SECP256K1_EC_UNCOMPRESSED :: u32 where "SECP256K1_EC_UNCOMPRESSED = SECP256K1_FLAGS_TYPE_COMPRESSION"

section \<open>Public keys\<close>

definition secp256k1_pubkey_load :: "secp256k1_pubkey \<Rightarrow> secp256k1_ge \<times> bool \<times> nat" where
  "secp256k1_pubkey_load pubkey =
    (let ge = secp256k1_ge_from_bytes (pubkey_data pubkey)
     in if \<not> secp256k1_fe_is_zero (ge_x ge) then (ge, True, 0) else (ge, False, 1))"

definition secp256k1_pubkey_save :: "secp256k1_ge \<Rightarrow> secp256k1_pubkey" where
  "secp256k1_pubkey_save ge = \<lparr>pubkey_data = secp256k1_ge_to_bytes ge\<rparr>"

definition secp256k1_ec_pubkey_parse ::
    "secp256k1_pubkey option \<Rightarrow> bytes option \<Rightarrow> nat \<Rightarrow> secp256k1_pubkey option \<times> bool \<times> nat" where
  "secp256k1_ec_pubkey_parse pubkey input inputlen =
    (case pubkey of None \<Rightarrow> (None, False, 1)
     | Some _ \<Rightarrow>
       let pubkey = \<lparr>pubkey_data = replicate 64 0\<rparr>
       in case input of None \<Rightarrow> (Some pubkey, False, 1)
          | Some input \<Rightarrow>
            let (Q, ok) = secp256k1_eckey_pubkey_parse secp256k1_ge_set_infinity input inputlen
            in if \<not> ok then (Some pubkey, False, 0)
               else if \<not> secp256k1_ge_is_in_correct_subgroup Q then (Some pubkey, False, 0)
               else (Some (secp256k1_pubkey_save Q), True, 0))"

definition secp256k1_ec_pubkey_serialize ::
    "bytes option \<Rightarrow> nat option \<Rightarrow> secp256k1_pubkey option \<Rightarrow> u32 \<Rightarrow> bytes option \<times> nat option \<times> bool \<times> nat" where
  "secp256k1_ec_pubkey_serialize output outputlen pubkey flags =
    (case outputlen of None \<Rightarrow> (output, None, False, 1)
     | Some len \<Rightarrow>
       if \<not> len \<ge> (if flags AND SECP256K1_FLAGS_BIT_COMPRESSION \<noteq> 0 then 33 else 65) then (output, Some len, False, 1)
       else case output of None \<Rightarrow> (None, Some 0, False, 1)
       | Some output \<Rightarrow>
         let output = replicate len 0 @ drop len output
         in case pubkey of None \<Rightarrow> (Some output, Some 0, False, 1)
            | Some pubkey \<Rightarrow>
              if flags AND SECP256K1_FLAGS_TYPE_MASK \<noteq> SECP256K1_FLAGS_TYPE_COMPRESSION then (Some output, Some 0, False, 1)
              else
                let (Q, ok, ill) = secp256k1_pubkey_load pubkey
                in if ok then
                     let (Q, output, len, ret) = secp256k1_eckey_pubkey_serialize Q output len (flags AND SECP256K1_FLAGS_BIT_COMPRESSION \<noteq> 0)
                     in (Some output, Some (if ret then len else 0), ret, ill)
                   else (Some output, Some 0, False, ill))"

definition pubkey_cmp_out :: "secp256k1_pubkey option \<Rightarrow> bytes \<times> nat" where
  "pubkey_cmp_out pk =
    (let (out, _, ret, ill) = secp256k1_ec_pubkey_serialize (Some (replicate 33 0)) (Some 33) pk SECP256K1_EC_COMPRESSED
     in (if \<not> ret then replicate 33 0 else the out, ill))"

definition secp256k1_ec_pubkey_cmp :: "secp256k1_pubkey option \<Rightarrow> secp256k1_pubkey option \<Rightarrow> int \<times> nat" where
  "secp256k1_ec_pubkey_cmp pubkey0 pubkey1 =
    (let (out0, i0) = pubkey_cmp_out pubkey0; (out1, i1) = pubkey_cmp_out pubkey1
     in (secp256k1_memcmp_var out0 out1, i0 + i1))"

text \<open>
  Sorting works on an array of pointers, eight bytes each; \<open>mem\<close> is the memory the pointers refer to (\<open>None\<close> at the null
  pointer). The callbacks that comparisons of invalid keys invoke are not counted here.
\<close>

definition secp256k1_ec_pubkey_sort_cmp :: "(u64 \<Rightarrow> secp256k1_pubkey option) \<Rightarrow> bytes \<Rightarrow> bytes \<Rightarrow> int" where
  "secp256k1_ec_pubkey_sort_cmp mem pk1 pk2 = fst (secp256k1_ec_pubkey_cmp (mem (u64_mem pk1)) (mem (u64_mem pk2)))"

definition secp256k1_ec_pubkey_sort ::
    "(u64 \<Rightarrow> secp256k1_pubkey option) \<Rightarrow> bytes option \<Rightarrow> nat \<Rightarrow> bytes option \<times> bool \<times> nat" where
  "secp256k1_ec_pubkey_sort mem pubkeys n_pubkeys =
    (case pubkeys of None \<Rightarrow> (None, False, 1)
     | Some arr \<Rightarrow> (Some (secp256k1_hsort (secp256k1_ec_pubkey_sort_cmp mem) arr n_pubkeys 8), True, 0))"

definition secp256k1_ec_pubkey_negate :: "secp256k1_pubkey option \<Rightarrow> secp256k1_pubkey option \<times> bool \<times> nat" where
  "secp256k1_ec_pubkey_negate pubkey =
    (case pubkey of None \<Rightarrow> (None, False, 1)
     | Some pubkey \<Rightarrow>
       let (p, ret, ill) = secp256k1_pubkey_load pubkey;
           pubkey = \<lparr>pubkey_data = replicate 64 0\<rparr>
       in if ret then (Some (secp256k1_pubkey_save (secp256k1_ge_neg p)), ret, ill)
          else (Some pubkey, ret, ill))"

section \<open>Secret keys\<close>

definition secp256k1_ec_seckey_verify :: "bytes option \<Rightarrow> bool \<times> nat" where
  "secp256k1_ec_seckey_verify seckey =
    (case seckey of None \<Rightarrow> (False, 1)
     | Some seckey \<Rightarrow> let (sec, ret) = secp256k1_scalar_set_b32_seckey seckey in (ret, 0))"

definition secp256k1_ec_seckey_negate :: "bytes option \<Rightarrow> bytes option \<times> bool \<times> nat" where
  "secp256k1_ec_seckey_negate seckey =
    (case seckey of None \<Rightarrow> (None, False, 1)
     | Some seckey \<Rightarrow>
       let (sec, ret) = secp256k1_scalar_set_b32_seckey seckey;
           sec = secp256k1_scalar_cmov sec secp256k1_scalar_zero (\<not> ret);
           sec = secp256k1_scalar_negate sec
       in (Some (secp256k1_scalar_get_b32 sec), ret, 0))"

definition secp256k1_ec_privkey_negate :: "bytes option \<Rightarrow> bytes option \<times> bool \<times> nat" where
  "secp256k1_ec_privkey_negate seckey = secp256k1_ec_seckey_negate seckey"

definition secp256k1_ec_seckey_tweak_add_helper :: "secp256k1_scalar \<Rightarrow> bytes \<Rightarrow> secp256k1_scalar \<times> bool" where
  "secp256k1_ec_seckey_tweak_add_helper sec tweak32 =
    (let (term, overflow) = secp256k1_scalar_set_b32 tweak32;
         (sec, ok) = secp256k1_eckey_privkey_tweak_add sec term
     in (sec, \<not> overflow \<and> ok))"

definition secp256k1_ec_seckey_tweak_add :: "bytes option \<Rightarrow> bytes option \<Rightarrow> bytes option \<times> bool \<times> nat" where
  "secp256k1_ec_seckey_tweak_add seckey tweak32 =
    (case seckey of None \<Rightarrow> (None, False, 1)
     | Some key \<Rightarrow> (case tweak32 of None \<Rightarrow> (seckey, False, 1)
       | Some tweak \<Rightarrow>
         let (sec, ret) = secp256k1_scalar_set_b32_seckey key;
             (sec, ok) = secp256k1_ec_seckey_tweak_add_helper sec tweak;
             ret = (ret \<and> ok);
             sec = secp256k1_scalar_cmov sec secp256k1_scalar_zero (\<not> ret)
         in (Some (secp256k1_scalar_get_b32 sec), ret, 0)))"

definition secp256k1_ec_privkey_tweak_add :: "bytes option \<Rightarrow> bytes option \<Rightarrow> bytes option \<times> bool \<times> nat" where
  "secp256k1_ec_privkey_tweak_add seckey tweak32 = secp256k1_ec_seckey_tweak_add seckey tweak32"

definition secp256k1_ec_seckey_tweak_mul :: "bytes option \<Rightarrow> bytes option \<Rightarrow> bytes option \<times> bool \<times> nat" where
  "secp256k1_ec_seckey_tweak_mul seckey tweak32 =
    (case seckey of None \<Rightarrow> (None, False, 1)
     | Some key \<Rightarrow> (case tweak32 of None \<Rightarrow> (seckey, False, 1)
       | Some tweak \<Rightarrow>
         let (factor, overflow) = secp256k1_scalar_set_b32 tweak;
             (sec, ret) = secp256k1_scalar_set_b32_seckey key;
             (sec, ok) = secp256k1_eckey_privkey_tweak_mul sec factor;
             ret = (ret \<and> (\<not> overflow \<and> ok));
             sec = secp256k1_scalar_cmov sec secp256k1_scalar_zero (\<not> ret)
         in (Some (secp256k1_scalar_get_b32 sec), ret, 0)))"

definition secp256k1_ec_privkey_tweak_mul :: "bytes option \<Rightarrow> bytes option \<Rightarrow> bytes option \<times> bool \<times> nat" where
  "secp256k1_ec_privkey_tweak_mul seckey tweak32 = secp256k1_ec_seckey_tweak_mul seckey tweak32"

section \<open>Stored public keys\<close>

text \<open>
  A public key is well-formed when it stores a finite point of the curve. No point of the curve has abscissa 0, since 7 is
  not a square: -7 is one and -1 is not. So the test \<open>secp256k1_pubkey_load\<close> makes never rejects a stored point.
\<close>

definition pubkey_ok :: "secp256k1_pubkey \<Rightarrow> bool" where
  "pubkey_ok pk \<longleftrightarrow> (\<exists>g. ge_ok g \<and> \<not> ge_infinity g \<and> pk = secp256k1_pubkey_save g)"

definition pubkey_point :: "secp256k1_pubkey \<Rightarrow> point" where
  "pubkey_point pk = ge_point (secp256k1_ge_from_bytes (pubkey_data pk))"

lemma neg_1_no_square: "u ^ 2 \<noteq> (- 1 :: fp)"
proof
  assume u: "u ^ 2 = - 1"
  then have "u \<noteq> 0" by auto
  have "u ^ nat (secp256k1_p - 1) = (u ^ 2) ^ nat ((secp256k1_p - 1) div 2)"
    by (simp only: power_mult [symmetric]) (simp add: secp256k1_p_def)
  also have "\<dots> = - 1" unfolding u by (simp add: secp256k1_p_def)
  finally show False using fermat [OF \<open>u \<noteq> 0\<close>] fp_2_neq_0 by simp
qed

lemma seven_no_square: "y ^ 2 \<noteq> (7 :: fp)"
proof
  let ?s = "64828261740814840065360381756190772627110652128289340260788836867053167272156 :: int"
  assume y: "y ^ 2 = 7"
  have "?s * ?s = - 7 + 36295255988707009979783499092559554704847555079318219517466077844982701886361 * secp256k1_p"
    by (simp add: secp256k1_p_def)
  then have "(of_int (?s * ?s) :: fp) = of_int (- 7)" by (simp only: of_int_fp_multiple)
  then have s: "(of_int ?s :: fp) ^ 2 = - 7" by (simp only: of_int_mult power2_eq_square) simp
  have "(7 :: fp) \<noteq> 0" by (rule fp_numeral_neq_0) (simp add: secp256k1_p_def)
  then have "(of_int ?s / y) ^ 2 = - 1" unfolding power_divide s y by simp
  then show False using neg_1_no_square by blast
qed

lemma curve_x_neq_0: "on_curve (Some (x, y)) \<Longrightarrow> x \<noteq> 0"
  using seven_no_square [of y] by auto

text \<open>The stored form depends on the point only.\<close>

lemma fe_normalize_cong:
  assumes "fe_magnitude 32 a" "fe_magnitude 32 b" "fe_fp a = fe_fp b"
  shows "secp256k1_fe_normalize a = secp256k1_fe_normalize b"
  by (rule fe_normalized_inj) (use normalize_correct [OF assms(1)] normalize_correct [OF assms(2)] assms(3) of_int_fp_eq_iff in auto)

lemma pubkey_save_cong:
  assumes "secp256k1_ge_verify g" "secp256k1_ge_verify h" "\<not> ge_infinity g" "\<not> ge_infinity h" "ge_point g = ge_point h"
  shows "secp256k1_pubkey_save g = secp256k1_pubkey_save h"
proof -
  have m: "fe_magnitude 32 (ge_x g)" "fe_magnitude 32 (ge_y g)" "fe_magnitude 32 (ge_x h)" "fe_magnitude 32 (ge_y h)"
    using assms(1,2) fe_magnitude_mono by (auto simp: verify_defs)
  have "secp256k1_fe_normalize (ge_x g) = secp256k1_fe_normalize (ge_x h)" "secp256k1_fe_normalize (ge_y g) = secp256k1_fe_normalize (ge_y h)"
    by (rule fe_normalize_cong; use m assms(3-5) in \<open>simp add: ge_point_def\<close>)+
  then show ?thesis by (simp add: secp256k1_pubkey_save_def secp256k1_ge_to_bytes_def secp256k1_ge_to_storage_def)
qed

lemma pubkey_load_ok:
  assumes "pubkey_ok pk" "secp256k1_pubkey_load pk = (g, ret, ill)"
  shows "ret \<and> ill = 0 \<and> ge_ok g \<and> \<not> ge_infinity g \<and> ge_point g = pubkey_point pk \<and> pk = secp256k1_pubkey_save g"
proof -
  obtain h where h: "ge_ok h" "\<not> ge_infinity h" "pk = secp256k1_pubkey_save h" using assms(1) by (auto simp: pubkey_ok_def)
  have v: "secp256k1_ge_verify h" using h(1) by (simp add: ge_ok_def)
  have n: "secp256k1_ge_from_bytes (pubkey_data pk) = ge_normalize h"
    using ge_from_to_bytes [OF v h(2)] h(3) by (simp add: secp256k1_pubkey_save_def)
  note o = ge_normalize_ok [OF v]
  have ok: "ge_ok (ge_normalize h)" using o h(1) by (simp add: ge_ok_def)
  obtain x y where p: "ge_point (ge_normalize h) = Some (x, y)" using o(3) h(2) by (auto simp: ge_point_def)
  then have "fe_fp (ge_x (ge_normalize h)) \<noteq> 0" using ok curve_x_neq_0 [of x y] o(3) h(2) by (auto simp: ge_ok_def ge_point_def)
  then have "\<not> secp256k1_fe_is_zero (ge_x (ge_normalize h))" by (auto simp: fe_is_zero_iff)
  then have "g = ge_normalize h" "ret" "ill = 0" using assms(2) n by (simp_all add: secp256k1_pubkey_load_def Let_def)
  moreover have "secp256k1_pubkey_save (ge_normalize h) = pk"
    using pubkey_save_cong [OF o(1) v _ h(2) o(2)] o(3) h(2,3) by simp
  ultimately show ?thesis using n ok o(3) h(2) by (simp add: pubkey_point_def)
qed

lemma pubkey_ok_inj:
  assumes "pubkey_ok a" "pubkey_ok b" "pubkey_point a = pubkey_point b"
  shows "a = b"
proof -
  obtain g ra ia where g: "secp256k1_pubkey_load a = (g, ra, ia)" by (cases "secp256k1_pubkey_load a")
  obtain h rb ib where h: "secp256k1_pubkey_load b = (h, rb, ib)" by (cases "secp256k1_pubkey_load b")
  show ?thesis using pubkey_load_ok [OF assms(1) g] pubkey_load_ok [OF assms(2) h] assms(3) pubkey_save_cong [of g h]
    by (simp add: ge_ok_def)
qed

lemma pubkey_save_ok:
  assumes "ge_ok g" "\<not> ge_infinity g"
  shows "pubkey_ok (secp256k1_pubkey_save g)" "pubkey_point (secp256k1_pubkey_save g) = ge_point g"
  using assms ge_from_to_bytes [of g] ge_normalize_ok(2) [of g]
  by (auto simp: pubkey_ok_def pubkey_point_def secp256k1_pubkey_save_def ge_ok_def)

section \<open>Parsing and printing\<close>

lemma ec_pubkey_parse_correct:
  assumes "secp256k1_ec_pubkey_parse (Some pk0) (Some input) (length input) = (pk, ret, ill)"
  shows "ill = 0" "ret \<longleftrightarrow> (\<exists>x y. sec1_encodes input x y \<and> on_curve (Some (x, y)))"
    "ret \<Longrightarrow> \<exists>k x y. pk = Some k \<and> pubkey_ok k \<and> pubkey_point k = Some (x, y) \<and> sec1_encodes input x y"
    "\<not> ret \<Longrightarrow> pk = Some \<lparr>pubkey_data = replicate 64 0\<rparr>"
proof -
  obtain q ok where q: "secp256k1_eckey_pubkey_parse secp256k1_ge_set_infinity input (length input) = (q, ok)" by fastforce
  note c = pubkey_parse_correct [OF q]
  have run: "(pk, ret, ill) = (if ok then (Some (secp256k1_pubkey_save q), True, 0) else (Some \<lparr>pubkey_data = replicate 64 0\<rparr>, False, 0))"
    using assms q by (auto simp: secp256k1_ec_pubkey_parse_def secp256k1_ge_is_in_correct_subgroup_def Let_def)
  have r: "ret = ok" using run by (auto split: if_splits)
  show "ill = 0" "ret \<longleftrightarrow> (\<exists>x y. sec1_encodes input x y \<and> on_curve (Some (x, y)))"
    "\<not> ret \<Longrightarrow> pk = Some \<lparr>pubkey_data = replicate 64 0\<rparr>" using run c(1) by (auto split: if_splits)
  assume ret
  then have "ge_ok q" "\<not> ge_infinity q" and p: "\<exists>x y. ge_point q = Some (x, y) \<and> sec1_encodes input x y" "pk = Some (secp256k1_pubkey_save q)"
    using c(2) run r by (auto simp: ge_point_def split: if_splits)
  then show "\<exists>k x y. pk = Some k \<and> pubkey_ok k \<and> pubkey_point k = Some (x, y) \<and> sec1_encodes input x y"
    using pubkey_save_ok by metis
qed

definition sec1_size :: "u32 \<Rightarrow> nat" where
  "sec1_size flags = (if flags AND SECP256K1_FLAGS_BIT_COMPRESSION \<noteq> 0 then 33 else 65)"

lemma pubkey_ok_point: "pubkey_ok k \<Longrightarrow> \<exists>x y. pubkey_point k = Some (x, y) \<and> on_curve (Some (x, y))"
  using pubkey_save_ok by (fastforce simp: pubkey_ok_def ge_ok_def ge_point_def)

lemma ec_pubkey_serialize_correct:
  assumes k: "pubkey_ok k" "pubkey_point k = Some (x, y)" and len: "sec1_size flags \<le> len" "len \<le> length buf"
    and fl: "flags AND SECP256K1_FLAGS_TYPE_MASK = SECP256K1_FLAGS_TYPE_COMPRESSION"
    and r: "secp256k1_ec_pubkey_serialize (Some buf) (Some len) (Some k) flags = (out, olen, ret, ill)"
  shows "ret \<and> ill = 0 \<and> olen = Some (sec1_size flags) \<and>
    (\<exists>b. out = Some (b @ replicate (len - sec1_size flags) 0 @ drop len buf) \<and> length b = sec1_size flags \<and> sec1_encodes b x y)"
proof -
  obtain q ok i where q: "secp256k1_pubkey_load k = (q, ok, i)" by (cases "secp256k1_pubkey_load k")
  note l = pubkey_load_ok [OF k(1) q]
  let ?c = "flags AND SECP256K1_FLAGS_BIT_COMPRESSION \<noteq> 0" and ?z = "replicate len 0 @ drop len buf"
  obtain q' out' len' ret' where s: "secp256k1_eckey_pubkey_serialize q ?z len ?c = (q', out', len', ret')" by (metis prod_cases4)
  have z: "(if ?c then 33 else 65) \<le> length ?z" using len by (auto simp: sec1_size_def)
  have p: "ge_point q = Some (x, y)" using l k(2) by simp
  have c: "ret'" "len' = sec1_size flags" "length out' = length ?z" "drop len' out' = drop len' ?z" "sec1_encodes (take len' out') x y"
    using pubkey_serialize_correct [OF _ p z s] l by (auto simp: sec1_size_def)
  have run: "(out, olen, ret, ill) = (Some out', Some (sec1_size flags), True, 0)"
    using r len fl q s l c by (simp add: secp256k1_ec_pubkey_serialize_def sec1_size_def split: if_splits)
  define b where "b = take len' out'"
  have "drop len' out' = replicate (len - sec1_size flags) 0 @ drop len buf" using c(2,4) len by simp
  then have o: "out' = b @ replicate (len - sec1_size flags) 0 @ drop len buf" unfolding b_def by (metis append_take_drop_id)
  have "length b = sec1_size flags" using c(2,3) z by (auto simp: b_def sec1_size_def split: if_splits)
  then show ?thesis using run c(5) o unfolding b_def [symmetric] by blast
qed

text \<open>Printing a key and parsing the result gives back the very bytes of the key.\<close>

lemma ec_pubkey_roundtrip:
  assumes "pubkey_ok k" "sec1_size flags \<le> len" "len \<le> length buf"
    and "flags AND SECP256K1_FLAGS_TYPE_MASK = SECP256K1_FLAGS_TYPE_COMPRESSION"
    and "secp256k1_ec_pubkey_serialize (Some buf) (Some len) (Some k) flags = (Some out, Some olen, ret, ill)"
  shows "secp256k1_ec_pubkey_parse (Some pk0) (Some (take olen out)) olen = (Some k, True, 0)"
proof -
  obtain x y where p: "pubkey_point k = Some (x, y)" "on_curve (Some (x, y))" using pubkey_ok_point [OF assms(1)] by blast
  obtain b where b: "take olen out = b" "length b = olen" "sec1_encodes b x y"
    using ec_pubkey_serialize_correct [OF assms(1) p(1) assms(2-5)] by auto
  obtain pk r i where r: "secp256k1_ec_pubkey_parse (Some pk0) (Some b) (length b) = (pk, r, i)"
    by (cases "secp256k1_ec_pubkey_parse (Some pk0) (Some b) (length b)")
  note c = ec_pubkey_parse_correct [OF r]
  have "r" using c(2) b(3) p(2) by blast
  with c(3) obtain k' x' y' where k': "pk = Some k'" "pubkey_ok k'" "pubkey_point k' = Some (x', y')" "sec1_encodes b x' y'" by blast
  then have "on_curve (Some (x', y'))" using pubkey_ok_point by fastforce
  then have "pubkey_point k' = pubkey_point k" using sec1_unique [OF b(3) k'(4) p(2)] p(1) k'(3) by simp
  then have "k' = k" by (rule pubkey_ok_inj [OF k'(2) assms(1)])
  then show ?thesis using r \<open>r\<close> c(1) k'(1) b by simp
qed

section \<open>Comparing and sorting\<close>

lemma pubkey_cmp_out_length: "length (fst (pubkey_cmp_out pk)) = 33"
proof -
  obtain out olen ret ill where r: "secp256k1_ec_pubkey_serialize (Some (replicate 33 0)) (Some 33) pk SECP256K1_EC_COMPRESSED = (out, olen, ret, ill)"
    by (metis prod_cases4)
  have "\<exists>b. out = Some b \<and> length b = 33" if ret
    using r that by (auto simp: secp256k1_ec_pubkey_serialize_def secp256k1_eckey_pubkey_serialize_def length_memcpy_at Let_def
        split: option.splits if_splits prod.splits)
  then show ?thesis using r by (auto simp: pubkey_cmp_out_def)
qed

text \<open>The order is that of the compressed encodings, read as numbers; an invalid key counts as zero.\<close>

definition pubkey_rank :: "secp256k1_pubkey option \<Rightarrow> int" where
  "pubkey_rank pk = be_val (fst (pubkey_cmp_out pk))"

lemma ec_pubkey_cmp_sign: "sgn (fst (secp256k1_ec_pubkey_cmp a b)) = sgn (pubkey_rank a - pubkey_rank b)"
  using memcmp_var_sign [of "fst (pubkey_cmp_out a)" "fst (pubkey_cmp_out b)"]
  by (simp add: secp256k1_ec_pubkey_cmp_def split_beta pubkey_cmp_out_length pubkey_rank_def)

lemma ec_pubkey_cmp_le: "fst (secp256k1_ec_pubkey_cmp a b) \<le> 0 \<longleftrightarrow> pubkey_rank a \<le> pubkey_rank b"
  "0 \<le> fst (secp256k1_ec_pubkey_cmp a b) \<longleftrightarrow> pubkey_rank b \<le> pubkey_rank a"
  using ec_pubkey_cmp_sign [of a b] by (auto simp: sgn_if split: if_splits)

lemma pubkey_rank_ok:
  assumes "pubkey_ok k" "pubkey_point k = Some (x, y)"
  shows "pubkey_rank (Some k) = (if odd (fp_int y) then 3 else 2) * 256 ^ 32 + fp_int x"
proof -
  obtain out olen ret ill where r: "secp256k1_ec_pubkey_serialize (Some (replicate 33 0)) (Some 33) (Some k) SECP256K1_EC_COMPRESSED = (out, olen, ret, ill)"
    by (metis prod_cases4)
  have f: "sec1_size SECP256K1_EC_COMPRESSED = 33" "SECP256K1_EC_COMPRESSED AND SECP256K1_FLAGS_TYPE_MASK = SECP256K1_FLAGS_TYPE_COMPRESSION"
    by (simp_all add: sec1_size_def SECP256K1_EC_COMPRESSED_def SECP256K1_FLAGS_BIT_COMPRESSION_def SECP256K1_FLAGS_TYPE_MASK_def
        SECP256K1_FLAGS_TYPE_COMPRESSION_def)
  obtain b where b: "ret" "out = Some b" "length b = 33" "sec1_encodes b x y"
    using ec_pubkey_serialize_correct [OF assms _ _ f(2) r] f(1) by auto
  obtain h t where h: "b = h # t" "length t = 32" using b(3) by (cases b) auto
  have "be_val t = fp_int x" "h = (if odd (fp_int y) then 3 else 2)" using b(3,4) h by (auto simp: sec1_encodes_def)
  then show ?thesis using r b h by (simp add: pubkey_rank_def pubkey_cmp_out_def be_val_Cons)
qed

interpretation pk: byte_sort_cmp "secp256k1_ec_pubkey_sort_cmp mem" for mem
  by unfold_locales (auto simp: secp256k1_ec_pubkey_sort_cmp_def ec_pubkey_cmp_le)

text \<open>The pointers of an array of \<open>n\<close> pointers.\<close>

definition pointers :: "bytes \<Rightarrow> nat \<Rightarrow> u64 list" where
  "pointers arr n = map u64_mem (elems arr n 8)"

lemma ec_pubkey_sort_correct:
  assumes "length arr = 8 * n" "secp256k1_ec_pubkey_sort mem (Some arr) n = (Some arr', ret, ill)"
  shows "ret" "length arr' = length arr" "mset (pointers arr' n) = mset (pointers arr n)"
    "sorted (map (\<lambda>p. pubkey_rank (mem p)) (pointers arr' n))"
proof -
  have l: "length arr = n * 8" using assms(1) by simp
  have r: "arr' = secp256k1_hsort (secp256k1_ec_pubkey_sort_cmp mem) arr n 8" "ret"
    using assms(2) by (simp_all add: secp256k1_ec_pubkey_sort_def)
  then show "ret" "length arr' = length arr" using elems_hsort(2) [OF l] l by simp_all
  show "mset (pointers arr' n) = mset (pointers arr n)" using pk.hsort_correct(2) [OF l] r by (simp add: pointers_def)
  have "sorted_wrt (\<lambda>a b. pubkey_rank (mem (u64_mem a)) \<le> pubkey_rank (mem (u64_mem b))) (elems arr' n 8)"
    using pk.hsort_correct(1) [OF l, of mem] unfolding r secp256k1_ec_pubkey_sort_cmp_def ec_pubkey_cmp_le by simp
  then show "sorted (map (\<lambda>p. pubkey_rank (mem p)) (pointers arr' n))" by (simp add: pointers_def sorted_map sorted_wrt_map comp_def)
qed

section \<open>Negation and secret keys\<close>

lemma ec_pubkey_negate_correct:
  assumes "pubkey_ok k" "secp256k1_ec_pubkey_negate (Some k) = (k', ret, ill)"
  shows "ret \<and> ill = 0 \<and> (\<exists>m. k' = Some m \<and> pubkey_ok m \<and> pubkey_point m = ec_neg (pubkey_point k))"
proof -
  obtain q ok i where q: "secp256k1_pubkey_load k = (q, ok, i)" by (cases "secp256k1_pubkey_load k")
  note l = pubkey_load_ok [OF assms(1) q]
  have "ge_ok (secp256k1_ge_neg q)" "ge_point (secp256k1_ge_neg q) = ec_neg (ge_point q)" "\<not> ge_infinity (secp256k1_ge_neg q)"
    using ge_neg_correct l by (auto simp: secp256k1_ge_neg_def)
  then show ?thesis using assms(2) q l pubkey_save_ok [of "secp256k1_ge_neg q"] by (auto simp: secp256k1_ec_pubkey_negate_def)
qed

definition seckey_valid :: "bytes \<Rightarrow> bool" where
  "seckey_valid b \<longleftrightarrow> length b = 32 \<and> 0 < be_val b \<and> be_val b < secp256k1_n"

lemma seckey_parse:
  assumes "length key = 32" "secp256k1_scalar_set_b32_seckey key = (sec, ret)"
  shows "ret \<longleftrightarrow> seckey_valid key" "sc_val sec = be_val key mod secp256k1_n" "secp256k1_scalar_verify sec"
  using set_b32_seckey_correct [OF assms(1)] assms verify_of_mod by (auto simp: seckey_valid_def)

lemma get_b32_cmov_zero: "secp256k1_scalar_get_b32 (secp256k1_scalar_cmov s secp256k1_scalar_zero True) = replicate 32 0"
  using be_val_zeros [of 32 "[]"] by (intro be_val_inj) (simp_all add: scalar_cmov_eq scalar_get_b32_val sc_val_constants)

lemma ec_seckey_verify_correct:
  "length key = 32 \<Longrightarrow> secp256k1_ec_seckey_verify (Some key) = (seckey_valid key, 0)"
  using seckey_parse(1) [OF _ surjective_pairing, of key] by (simp add: secp256k1_ec_seckey_verify_def split_beta)

lemma mod_n_range: "0 \<le> (x :: int) mod secp256k1_n" "x mod secp256k1_n < secp256k1_n"
  by (simp_all add: secp256k1_n_def)

lemma ec_seckey_negate_correct:
  assumes "length key = 32" "secp256k1_ec_seckey_negate (Some key) = (key', ret, ill)"
  shows "ill = 0" "ret \<longleftrightarrow> seckey_valid key" "\<not> ret \<Longrightarrow> key' = Some (replicate 32 0)"
    "ret \<Longrightarrow> \<exists>k. key' = Some k \<and> seckey_valid k \<and> be_val k = secp256k1_n - be_val key"
proof -
  obtain sec r where s: "secp256k1_scalar_set_b32_seckey key = (sec, r)" by fastforce
  note p = seckey_parse [OF assms(1) s]
  have run: "key' = Some (secp256k1_scalar_get_b32 (secp256k1_scalar_negate (if r then sec else secp256k1_scalar_zero)))" "ret = r" "ill = 0"
    using assms(2) s by (auto simp: secp256k1_ec_seckey_negate_def scalar_cmov_eq)
  show "ill = 0" "ret \<longleftrightarrow> seckey_valid key" using run p by simp_all
  have z: "secp256k1_scalar_verify secp256k1_scalar_zero" by (simp add: scalar_verify_iff sc_val_constants secp256k1_n_def)
  show "key' = Some (replicate 32 0)" if "\<not> ret"
    unfolding run(1) using that run(2) scalar_negate_correct [OF z] be_val_zeros [of 32 "[]"]
    by (auto simp: scalar_get_b32_val sc_val_constants intro!: be_val_inj)
  assume r: ret
  then have v: "0 < be_val key" "be_val key < secp256k1_n" using p(1) run(2) by (simp_all add: seckey_valid_def)
  have "sc_val (secp256k1_scalar_negate sec) = (- be_val key) mod secp256k1_n"
    using scalar_negate_correct [OF p(3)] p(2) by (simp add: mod_minus_eq)
  also have "\<dots> = (secp256k1_n - be_val key) mod secp256k1_n" by (simp add: mod_diff_left_eq [symmetric])
  also have "\<dots> = secp256k1_n - be_val key" using v by (intro mod_pos_pos_trivial) simp_all
  finally show "\<exists>k. key' = Some k \<and> seckey_valid k \<and> be_val k = secp256k1_n - be_val key"
    using run r v by (auto simp: seckey_valid_def scalar_get_b32_val)
qed

lemma ec_seckey_tweak_add_correct:
  assumes "length key = 32" "length tweak = 32" "secp256k1_ec_seckey_tweak_add (Some key) (Some tweak) = (key', ret, ill)"
  shows "ill = 0" "ret \<longleftrightarrow> seckey_valid key \<and> be_val tweak < secp256k1_n \<and> (be_val key + be_val tweak) mod secp256k1_n \<noteq> 0"
    "\<not> ret \<Longrightarrow> key' = Some (replicate 32 0)"
    "ret \<Longrightarrow> \<exists>k. key' = Some k \<and> seckey_valid k \<and> be_val k = (be_val key + be_val tweak) mod secp256k1_n"
proof -
  obtain sec r where s: "secp256k1_scalar_set_b32_seckey key = (sec, r)" by fastforce
  obtain t v where t: "secp256k1_scalar_set_b32 tweak = (t, v)" by fastforce
  obtain sec' b where b: "secp256k1_eckey_privkey_tweak_add sec t = (sec', b)" by fastforce
  note p = seckey_parse [OF assms(1) s]
  have q: "sc_val t = be_val tweak mod secp256k1_n" "v \<longleftrightarrow> secp256k1_n \<le> be_val tweak" "secp256k1_scalar_verify t"
    using scalar_set_b32_correct [OF assms(2)] set_b32_verify [OF assms(2)] t by simp_all
  note a = privkey_tweak_add_correct [OF p(3) q(3) b]
  have sum: "sc_val sec' = (be_val key + be_val tweak) mod secp256k1_n" using a(1) p(2) q(1) by (simp add: mod_add_eq)
  have run: "ret \<longleftrightarrow> r \<and> \<not> v \<and> b" "ill = 0" "key' = Some (secp256k1_scalar_get_b32 (secp256k1_scalar_cmov sec' secp256k1_scalar_zero (\<not> ret)))"
    using assms(3) s t b by (auto simp: secp256k1_ec_seckey_tweak_add_def secp256k1_ec_seckey_tweak_add_helper_def Let_def)
  show "ill = 0" by (rule run)
  show "ret \<longleftrightarrow> seckey_valid key \<and> be_val tweak < secp256k1_n \<and> (be_val key + be_val tweak) mod secp256k1_n \<noteq> 0"
    using run(1) p(1) q(2) a(3) sum by auto
  show "key' = Some (replicate 32 0)" if "\<not> ret" using run(3) that by (simp add: get_b32_cmov_zero)
  show "\<exists>k. key' = Some k \<and> seckey_valid k \<and> be_val k = (be_val key + be_val tweak) mod secp256k1_n" if ret
    using run(1,3) that a(3) sum mod_n_range [of "be_val key + be_val tweak"]
    by (auto simp: seckey_valid_def scalar_cmov_eq scalar_get_b32_val order_less_le)
qed

lemma ec_seckey_tweak_mul_correct:
  assumes "length key = 32" "length tweak = 32" "secp256k1_ec_seckey_tweak_mul (Some key) (Some tweak) = (key', ret, ill)"
  shows "ill = 0" "ret \<longleftrightarrow> seckey_valid key \<and> seckey_valid tweak" "\<not> ret \<Longrightarrow> key' = Some (replicate 32 0)"
    "ret \<Longrightarrow> \<exists>k. key' = Some k \<and> length k = 32 \<and> be_val k = be_val key * be_val tweak mod secp256k1_n"
proof -
  obtain sec r where s: "secp256k1_scalar_set_b32_seckey key = (sec, r)" by fastforce
  obtain t v where t: "secp256k1_scalar_set_b32 tweak = (t, v)" by fastforce
  obtain sec' b where b: "secp256k1_eckey_privkey_tweak_mul sec t = (sec', b)" by fastforce
  note p = seckey_parse [OF assms(1) s] and a = privkey_tweak_mul_correct [OF b]
  have q: "sc_val t = be_val tweak mod secp256k1_n" "v \<longleftrightarrow> secp256k1_n \<le> be_val tweak"
    using scalar_set_b32_correct [OF assms(2)] t by simp_all
  have run: "ret \<longleftrightarrow> r \<and> \<not> v \<and> b" "ill = 0" "key' = Some (secp256k1_scalar_get_b32 (secp256k1_scalar_cmov sec' secp256k1_scalar_zero (\<not> ret)))"
    using assms(3) s t b by (auto simp: secp256k1_ec_seckey_tweak_mul_def Let_def)
  show "ill = 0" by (rule run)
  show "ret \<longleftrightarrow> seckey_valid key \<and> seckey_valid tweak"
    using run(1) p(1) q(2) a(3) assms(2) be_val_bounds [of tweak] q(1) mod_pos_pos_trivial [of "be_val tweak" secp256k1_n]
    by (cases "be_val tweak < secp256k1_n") (auto simp: seckey_valid_def)
  show "key' = Some (replicate 32 0)" if "\<not> ret" using run(3) that by (simp add: get_b32_cmov_zero)
  show "\<exists>k. key' = Some k \<and> length k = 32 \<and> be_val k = be_val key * be_val tweak mod secp256k1_n" if ret
    using run(1,3) that a(1) p(2) q(1) by (simp add: scalar_cmov_eq scalar_get_b32_val mod_mult_eq)
qed

end
