(* ===== verification/Ecdsa_Der.thy ===== *)
theory Ecdsa_Der
  imports Scalar_Generic Hash
begin

text \<open>
  The DER form of ECDSA signatures: the parser and the serializer of \<open>src/Vendor/secp256k1/src/ecdsa_impl.h\<close>. A read
  position together with the end of the input is the list of the bytes left; a call that returns 0 is \<open>None\<close> (every
  caller returns 0 in turn and drops the outputs). The length read is a 64-bit \<open>size_t\<close>.
\<close>

unbundle bit_operations_syntax

section \<open>The code\<close>

fun der_len_loop :: "u64 \<Rightarrow> bytes \<Rightarrow> nat \<Rightarrow> u64 \<times> bytes" where
  "der_len_loop len sig 0 = (len, sig)"
| "der_len_loop len sig (Suc lenleft) = der_len_loop (push_bit 8 len OR ucast (sig ! 0)) (drop 1 sig) lenleft"

definition secp256k1_der_read_len :: "bytes \<Rightarrow> (u64 \<times> bytes) option" where
  "secp256k1_der_read_len sig =
    (if sig = [] then None
     else
       let b1 = sig ! 0; sig = drop 1 sig
       in if b1 = 0xFF then None
          else if b1 AND 0x80 = 0 then Some (ucast b1, sig)
          else if b1 = 0x80 then None
          else
            let lenleft = unat (b1 AND 0x7F)
            in if lenleft > length sig then None
               else if sig ! 0 = 0 then None
               else if lenleft > 8 then None
               else
                 let (len, sig) = der_len_loop 0 sig lenleft
                 in if unat len > length sig then None
                    else if len < 128 then None
                    else Some (len, sig))"

text \<open>The second half of \<open>secp256k1_der_parse_integer\<close>: the value of \<open>rlen\<close> content octets and the bytes after them.\<close>

definition der_int_value :: "bytes \<Rightarrow> nat \<Rightarrow> secp256k1_scalar \<times> bytes" where
  "der_int_value sig rlen =
    (let overflow = (sig ! 0 AND 0x80 = 0x80);
         (rlen, sig) = (if rlen > 0 \<and> sig ! 0 = 0 then (rlen - 1, drop 1 sig) else (rlen, sig));
         overflow = (overflow \<or> rlen > 32);
         (r, overflow) = (if \<not> overflow then secp256k1_scalar_set_b32 (memcpy_at (replicate 32 0) (32 - rlen) (take rlen sig))
           else (secp256k1_scalar_set_int 0, overflow));
         r = (if overflow then secp256k1_scalar_set_int 0 else r)
     in (r, drop rlen sig))"

definition secp256k1_der_parse_integer :: "bytes \<Rightarrow> (secp256k1_scalar \<times> bytes) option" where
  "secp256k1_der_parse_integer sig =
    (if sig = [] \<or> sig ! 0 \<noteq> 0x02 then None
     else case secp256k1_der_read_len (drop 1 sig) of None \<Rightarrow> None
     | Some (rlen, sig) \<Rightarrow>
       let rlen = unat rlen
       in if rlen = 0 \<or> rlen > length sig then None
          else if sig ! 0 = 0x00 \<and> rlen > 1 \<and> sig ! 1 AND 0x80 = 0x00 then None
          else if sig ! 0 = 0xFF \<and> rlen > 1 \<and> sig ! 1 AND 0x80 = 0x80 then None
          else Some (der_int_value sig rlen))"

definition secp256k1_ecdsa_sig_parse :: "bytes \<Rightarrow> (secp256k1_scalar \<times> secp256k1_scalar) option" where
  "secp256k1_ecdsa_sig_parse sig =
    (if sig = [] \<or> sig ! 0 \<noteq> 0x30 then None
     else case secp256k1_der_read_len (drop 1 sig) of None \<Rightarrow> None
     | Some (rlen, sig) \<Rightarrow>
       if unat rlen \<noteq> length sig then None
       else case secp256k1_der_parse_integer sig of None \<Rightarrow> None
       | Some (rr, sig) \<Rightarrow> (case secp256k1_der_parse_integer sig of None \<Rightarrow> None
         | Some (rs, sig) \<Rightarrow> if sig \<noteq> [] then None else Some (rr, rs)))"

fun der_trim :: "bytes \<Rightarrow> bytes" where
  "der_trim (a # b # p) = (if a = 0 \<and> b < 0x80 then der_trim (b # p) else a # b # p)"
| "der_trim p = p"

definition secp256k1_ecdsa_sig_serialize ::
    "bytes \<Rightarrow> nat \<Rightarrow> secp256k1_scalar \<Rightarrow> secp256k1_scalar \<Rightarrow> bytes \<times> nat \<times> bool" where
  "secp256k1_ecdsa_sig_serialize sig sz ar as =
    (let rp = der_trim (0 # secp256k1_scalar_get_b32 ar); lenR = length rp;
         sp = der_trim (0 # secp256k1_scalar_get_b32 as); lenS = length sp
     in if sz < 6 + lenS + lenR then (sig, 6 + lenS + lenR, False)
        else
          let sz = 6 + lenS + lenR;
              sig = sig[0 := 0x30];
              sig = sig[1 := of_nat (4 + lenS + lenR)];
              sig = sig[2 := 0x02];
              sig = sig[3 := of_nat lenR];
              sig = memcpy_at sig 4 rp;
              sig = sig[4 + lenR := 0x02];
              sig = sig[5 + lenR := of_nat lenS];
              sig = memcpy_at sig (lenR + 6) sp
          in (sig, sz, True))"

section \<open>Minimal integers\<close>

text \<open>The content octets of a non-negative DER integer: top bit clear, no superfluous leading zero.\<close>

definition der_minimal :: "bytes \<Rightarrow> bool" where
  "der_minimal c \<longleftrightarrow> c \<noteq> [] \<and> c ! 0 < 0x80 \<and> (1 < length c \<and> c ! 0 = 0 \<longrightarrow> 0x80 \<le> c ! 1)"

definition der_int :: "bytes \<Rightarrow> bytes" where
  "der_int c = 0x02 # of_nat (length c) # c"

definition der_scalar :: "secp256k1_scalar \<Rightarrow> bytes" where
  "der_scalar r = der_trim (0 # secp256k1_scalar_get_b32 r)"

definition der_sig :: "secp256k1_scalar \<Rightarrow> secp256k1_scalar \<Rightarrow> bytes" where
  "der_sig r s = (let b = der_int (der_scalar r) @ der_int (der_scalar s) in 0x30 # of_nat (length b) # b)"

lemma top_bit_u8: "b AND 0x80 = 0 \<longleftrightarrow> b < 0x80" "b AND 0x80 = 0x80 \<longleftrightarrow> 0x80 \<le> b" for b :: u8
proof -
  have u: "0 \<le> uint b" "uint b < 256" using uint_bounded [of b] by simp_all
  have bit: "bit b 7 \<longleftrightarrow> 128 \<le> uint b"
  proof -
    have "bit b 7 \<longleftrightarrow> bit (uint b) 7" by (simp add: bit_uint_iff)
    also have "\<dots> \<longleftrightarrow> odd (uint b div 128)" by (simp only: bit_iff_odd) simp
    finally have "bit b 7 \<longleftrightarrow> odd (uint b div 128)" .
    moreover have "uint b div 128 = (if 128 \<le> uint b then 1 else 0)"
      using u by (auto intro: int_div_pos_eq [where r = "uint b - 128"])
    ultimately show ?thesis by simp
  qed
  have z: "b AND 0x80 = 0 \<longleftrightarrow> \<not> bit b 7" using and_exp_eq_0_iff_not_bit [of b 7] by simp
  have "b AND 2 ^ 7 = 2 ^ 7" if "bit b 7"
    by (rule bit_eqI) (use that in \<open>auto simp only: bit_and_iff bit_exp_iff simp_thms\<close>)
  then have e: "b AND 0x80 = 0x80 \<longleftrightarrow> bit b 7" using z by auto
  show "b AND 0x80 = 0 \<longleftrightarrow> b < 0x80" "b AND 0x80 = 0x80 \<longleftrightarrow> 0x80 \<le> b"
    unfolding z e bit by (simp_all add: word_less_def word_le_def not_le)
qed

lemma der_trim_minimal: "b ! 0 < 0x80 \<Longrightarrow> b \<noteq> [] \<Longrightarrow> der_minimal (der_trim b)"
  by (induction b rule: der_trim.induct) (auto simp: der_minimal_def)

lemma der_trim_val: "be_val (der_trim b) = be_val b"
  by (induction b rule: der_trim.induct) (auto simp: be_val_Cons)

lemma der_trim_length: "length (der_trim b) \<le> length b"
  by (induction b rule: der_trim.induct) auto

lemma der_minimal_bounds:
  assumes "der_minimal c"
  shows "be_val c < 128 * 256 ^ (length c - 1)" "1 < length c \<Longrightarrow> 128 * 256 ^ (length c - 2) \<le> be_val c"
proof -
  obtain h t where c: "c = h # t" using assms by (cases c) (auto simp: der_minimal_def)
  have h: "uint h < 128" using assms c by (simp add: der_minimal_def word_less_def)
  have "uint h * 256 ^ length t + 256 ^ length t \<le> 128 * 256 ^ length t"
    using mult_right_mono [of "uint h + 1" 128 "256 ^ length t :: int"] h by (simp add: algebra_simps)
  then have "uint h * 256 ^ length t + be_val t < 128 * 256 ^ length t" using be_val_bounds [of t] by linarith
  then show "be_val c < 128 * 256 ^ (length c - 1)" by (simp add: c be_val_Cons)
  assume l: "1 < length c"
  then obtain g u where t: "t = g # u" using c by (cases t) auto
  have nn: "0 \<le> be_val u" "0 \<le> uint g" "0 \<le> uint h" using be_val_bounds [of u] by simp_all
  show "128 * 256 ^ (length c - 2) \<le> be_val c"
  proof (cases "h = 0")
    case True
    then have "128 \<le> uint g" using assms c t by (simp add: der_minimal_def word_le_def)
    then have "128 * 256 ^ length u \<le> uint g * 256 ^ length u" by (intro mult_right_mono) simp_all
    then have "128 * 256 ^ length u \<le> uint g * 256 ^ length u + be_val u" using nn(1) by linarith
    then show ?thesis using c t True by (simp add: be_val_Cons)
  next
    case False
    then have "uint h \<noteq> 0" by (simp add: word_uint_eq_iff)
    then have "1 \<le> uint h" using nn(3) by linarith
    then have "1 * 256 ^ Suc (length u) \<le> uint h * 256 ^ Suc (length u)" by (intro mult_right_mono) simp_all
    then show ?thesis using c t nn by (simp add: be_val_Cons add_increasing2)
  qed
qed

lemma der_minimal_unique:
  assumes "der_minimal c" "der_minimal d" "be_val c = be_val d"
  shows "c = d"
proof -
  have no: "\<not> length a < length b" if "der_minimal a" "der_minimal b" "be_val a = be_val b" for a b :: bytes
  proof
    assume l: "length a < length b"
    moreover have "1 \<le> length a" using that(1) by (cases a) (auto simp: der_minimal_def)
    ultimately have "length a - 1 \<le> length b - 2" "1 < length b" by linarith+
    then have "(256 :: int) ^ (length a - 1) \<le> 256 ^ (length b - 2)" by (intro power_increasing) simp_all
    then show False using der_minimal_bounds(1) [OF that(1)] der_minimal_bounds(2) [OF that(2) \<open>1 < length b\<close>] that(3) by linarith
  qed
  then have "length c = length d" using assms by (metis linorder_neqE_nat)
  then show ?thesis using assms(3) by (intro be_val_inj)
qed

section \<open>Reading an integer\<close>

lemma read_len_short: "b < 0x80 \<Longrightarrow> secp256k1_der_read_len (b # sig) = Some (ucast b, sig)"
  using top_bit_u8(1) [of b] by (auto simp: secp256k1_der_read_len_def)

lemma if_None_merge: "(if a then None else if b then None else x) = (if a \<or> b then None else x)"
  by simp

lemma read_len_long:
  assumes "b AND 0x80 \<noteq> 0" "p = der_len_loop 0 t (unat (b AND 0x7F))"
  shows "secp256k1_der_read_len (b # t) = (if b = 0xFF \<or> b = 0x80 \<or> unat (b AND 0x7F) > length t \<or> t ! 0 = 0 \<or>
      unat (b AND 0x7F) > 8 \<or> unat (fst p) > length (snd p) \<or> fst p < 128 then None else Some p)"
  unfolding secp256k1_der_read_len_def
  by (simp only: list.simps if_False nth_Cons_0 Let_def drop_Suc_Cons drop_0 One_nat_def assms(2) [symmetric] split_beta
      prod.collapse assms(1) if_None_merge disj_assoc simp_thms)

lemma unat_ucast_u8: "unat (ucast b :: u64) = unat b" for b :: u8
  by (simp only: unat_eq_nat_uint uint_ucast_u8)

lemma read_len_cases:
  assumes "secp256k1_der_read_len sig = Some (len, rest)"
  shows "unat len < 128 \<and> sig = of_nat (unat len) # rest \<or> 128 \<le> unat len"
proof -
  have "secp256k1_der_read_len [] = None" by (simp add: secp256k1_der_read_len_def)
  then obtain b t where sig: "sig = b # t" using assms by (cases sig) auto
  show ?thesis
  proof (cases "b AND 0x80 = 0")
    case True
    then have b: "b < 0x80" by (simp only: top_bit_u8)
    then have e: "len = ucast b" "rest = t" using assms read_len_short [OF b, of t] unfolding sig by simp_all
    then show ?thesis using sig b by (simp add: unat_ucast_u8 word_less_nat_alt)
  next
    case False
    define p where "p = der_len_loop 0 t (unat (b AND 0x7F))"
    note read_len_long [OF False p_def]
    then have "\<not> len < 128" using assms unfolding sig by (auto split: if_splits)
    then show ?thesis by (simp add: word_less_nat_alt)
  qed
qed

lemma scalar_pad:
  assumes "length c \<le> 32" "secp256k1_scalar_set_b32 (memcpy_at (replicate 32 0) (32 - length c) c) = (r, overflow)"
  shows "overflow \<longleftrightarrow> secp256k1_n \<le> be_val c" "sc_val r = be_val c mod secp256k1_n" "secp256k1_scalar_verify r"
proof -
  let ?b = "memcpy_at (replicate 32 0) (32 - length c) c"
  have b: "?b = replicate (32 - length c) 0 @ c" using assms(1) by (simp add: memcpy_at_def)
  have l: "length ?b = 32" using assms(1) by (simp add: b)
  have v: "be_val ?b = be_val c" by (simp only: b be_val_zeros)
  show "overflow \<longleftrightarrow> secp256k1_n \<le> be_val c" "sc_val r = be_val c mod secp256k1_n" "secp256k1_scalar_verify r"
    using scalar_set_b32_correct [OF l] set_b32_verify [OF l] assms(2) v by simp_all
qed

lemma long_integer_overflows:
  assumes "c \<noteq> []" "c ! 0 \<noteq> 0" "32 < length c"
  shows "secp256k1_n \<le> be_val c"
proof -
  obtain h t where c: "c = h # t" using assms(1) by (cases c) auto
  have "uint h \<noteq> 0" using assms(2) c by (simp add: word_uint_eq_iff)
  then have "1 * 256 ^ length t \<le> uint h * 256 ^ length t" using uint_ge_0 [of h] by (intro mult_right_mono) (linarith, simp)
  moreover have "(256 :: int) ^ 32 \<le> 256 ^ length t" using assms(3) c by (intro power_increasing) simp_all
  ultimately have "256 ^ 32 \<le> be_val c" using be_val_bounds [of t] c by (simp only: be_val_Cons mult_1)
  then show ?thesis by (simp add: secp256k1_n_def)
qed

text \<open>What is read for the content octets \<open>c\<close>: the scalar of that value, or zero when it is negative or out of range.\<close>

definition der_reads :: "bytes \<Rightarrow> secp256k1_scalar \<Rightarrow> bool" where
  "der_reads c r \<longleftrightarrow> secp256k1_scalar_verify r \<and> sc_val r = (if c ! 0 < 0x80 \<and> be_val c < secp256k1_n then be_val c else 0)"

lemma scalar_zero_int: "sc_val (secp256k1_scalar_set_int 0) = 0" "secp256k1_scalar_verify (secp256k1_scalar_set_int 0)"
  by (simp_all add: secp256k1_scalar_set_int_def sc_val_def scalar_verify_iff secp256k1_n_def)

lemma der_int_value_correct:
  assumes "0 < n" "n \<le> length s" "der_int_value s n = (r, rest)" "s ! 0 = 0 \<and> 1 < n \<longrightarrow> 0x80 \<le> s ! 1"
  shows "der_reads (take n s) r" "rest = drop n s"
proof -
  obtain h t where s: "s = h # t" using assms by (cases s) auto
  obtain m where n: "n = Suc m" using assms(1) by (cases n) auto
  define d where "d = (if h = 0 then take m t else take n s)"
  have v: "be_val d = be_val (take n s)" by (simp add: d_def s n be_val_Cons)
  have l: "length d = (if h = 0 then m else n)" using assms(2) by (simp add: d_def s n)
  define z where "z = secp256k1_scalar_set_b32 (memcpy_at (replicate 32 0) (32 - length d) d)"
  have run: "der_int_value s n = (if 0x80 \<le> h \<or> 32 < length d \<or> snd z then secp256k1_scalar_set_int 0 else fst z, drop n s)"
    using l unfolding d_def by (cases "h = 0") (simp_all add: der_int_value_def s n z_def d_def Let_def split_beta top_bit_u8)
  then show "rest = drop n s" using assms(3) by simp
  have d0: "take n s ! 0 = h" by (simp add: s n)
  have r: "r = (if 0x80 \<le> h \<or> 32 < length d \<or> snd z then secp256k1_scalar_set_int 0 else fst z)" using run assms(3) by simp
  show "der_reads (take n s) r"
  proof (cases "0x80 \<le> h \<or> 32 < length d")
    case True
    have "secp256k1_n \<le> be_val d" if "h < 0x80"
    proof (rule long_integer_overflows)
      show d: "d \<noteq> []" "32 < length d" using that True by auto
      have "0x80 \<le> t ! 0" if "h = 0" using assms(4) that d(2) l by (simp add: s n)
      then show "d ! 0 \<noteq> 0" using d by (auto simp: d_def s n)
    qed
    then show ?thesis using True d0 v r scalar_zero_int by (auto simp: der_reads_def)
  next
    case False
    then have "length d \<le> 32" by simp
    note p = scalar_pad [OF this surjective_pairing, folded z_def]
    show ?thesis using False d0 v r p scalar_zero_int be_val_bounds [of d] by (auto simp: der_reads_def)
  qed
qed

lemma parse_integer_read:
  assumes "secp256k1_der_read_len t = Some (len, s)" "secp256k1_der_parse_integer (0x02 # t) = Some (r, rest)"
  shows "0 < unat len \<and> unat len \<le> length s \<and> der_reads (take (unat len) s) r \<and> rest = drop (unat len) s \<and>
    (s ! 0 = 0 \<and> 1 < unat len \<longrightarrow> 0x80 \<le> s ! 1)"
proof -
  define n where "n = unat len"
  have g: "\<not> (n = 0 \<or> n > length s)" "\<not> (s ! 0 = 0x00 \<and> n > 1 \<and> s ! 1 AND 0x80 = 0x00)" "der_int_value s n = (r, rest)"
    using assms(2) unfolding secp256k1_der_parse_integer_def by (simp_all add: assms(1) Let_def n_def split: if_splits)
  then have p: "s ! 0 = 0 \<and> 1 < n \<longrightarrow> 0x80 \<le> s ! 1" using top_bit_u8(1) [of "s ! 1"] by auto
  show ?thesis using g p der_int_value_correct [OF _ _ g(3) p] unfolding n_def by simp
qed

lemma parse_integer_tag: "secp256k1_der_parse_integer sig = Some x \<Longrightarrow> \<exists>t. sig = 0x02 # t"
  by (cases sig) (auto simp: secp256k1_der_parse_integer_def split: if_splits)

lemma parse_integer_read_len: "secp256k1_der_parse_integer (0x02 # t) = Some x \<Longrightarrow> \<exists>len s. secp256k1_der_read_len t = Some (len, s)"
  by (auto simp: secp256k1_der_parse_integer_def split: option.splits)

lemma parse_integer_der:
  assumes "der_minimal c" "length c < 128" "be_val c < secp256k1_n"
  obtains r where "secp256k1_der_parse_integer (der_int c @ rest) = Some (r, rest)" "sc_val r = be_val c" "secp256k1_scalar_verify r"
proof -
  have c: "0 < length c" "c ! 0 < 0x80" "c ! 0 = 0 \<and> 1 < length c \<longrightarrow> 0x80 \<le> c ! 1"
    using assms(1) by (auto simp: der_minimal_def)
  have u: "(of_nat (length c) :: u8) < 0x80" "unat (ucast (of_nat (length c) :: u8) :: u64) = length c"
    using assms(2) by (simp_all add: word_less_nat_alt unat_ucast_u8 unat_of_nat)
  have s: "(c @ rest) ! 0 = c ! 0" "1 < length c \<longrightarrow> (c @ rest) ! 1 = c ! 1" using c(1) by (simp_all add: nth_append)
  obtain r q where v: "der_int_value (c @ rest) (length c) = (r, q)" by fastforce
  have "der_reads c r" "q = rest" using der_int_value_correct [OF c(1) _ v] c(3) s by auto
  moreover have "c ! 0 \<noteq> 0xFF" using c(2) by auto
  moreover have "\<not> (c ! 0 = 0 \<and> 1 < length c \<and> c ! 1 AND 0x80 = 0)" using c(3) by (auto simp: top_bit_u8 linorder_not_less [symmetric])
  ultimately show thesis using that [of r] c assms(3) v s u
    by (auto simp: secp256k1_der_parse_integer_def der_int_def read_len_short der_reads_def)
qed

section \<open>Signatures\<close>

lemma der_scalar_props:
  "der_minimal (der_scalar r)" "length (der_scalar r) \<le> 33" "be_val (der_scalar r) = sc_val r" "0 < length (der_scalar r)"
proof -
  show m: "der_minimal (der_scalar r)" unfolding der_scalar_def by (rule der_trim_minimal) simp_all
  show "length (der_scalar r) \<le> 33" "be_val (der_scalar r) = sc_val r"
    using der_trim_length [of "0 # secp256k1_scalar_get_b32 r"] by (simp_all add: der_scalar_def der_trim_val scalar_get_b32_val)
  show "0 < length (der_scalar r)" using m by (simp add: der_minimal_def)
qed

lemma parse_integer_scalar:
  assumes "secp256k1_scalar_verify r"
  shows "secp256k1_der_parse_integer (der_int (der_scalar r) @ rest) = Some (r, rest)"
proof -
  obtain q where "secp256k1_der_parse_integer (der_int (der_scalar r) @ rest) = Some (q, rest)" "sc_val q = sc_val r"
    using parse_integer_der [OF der_scalar_props(1), of r rest] der_scalar_props(2,3) [of r] assms by (auto simp: scalar_verify_iff)
  then show ?thesis using sc_val_inj by metis
qed

lemma length_der_int [simp]: "length (der_int c) = length c + 2"
  by (simp add: der_int_def)

lemma sig_parse_der_sig:
  assumes "secp256k1_scalar_verify r" "secp256k1_scalar_verify s"
  shows "secp256k1_ecdsa_sig_parse (der_sig r s) = Some (r, s)"
proof -
  define b where "b = der_int (der_scalar r) @ der_int (der_scalar s)"
  have l: "length b < 128" using der_scalar_props(2) [of r] der_scalar_props(2) [of s] by (simp add: b_def)
  then have "secp256k1_der_read_len (of_nat (length b) # b) = Some (ucast (of_nat (length b) :: u8), b)"
    by (intro read_len_short) (simp add: word_less_nat_alt unat_of_nat)
  moreover have "unat (ucast (of_nat (length b) :: u8) :: u64) = length b" using l by (simp add: unat_ucast_u8 unat_of_nat)
  moreover have "secp256k1_der_parse_integer b = Some (r, der_int (der_scalar s))"
    unfolding b_def by (rule parse_integer_scalar [OF assms(1)])
  moreover have "secp256k1_der_parse_integer (der_int (der_scalar s)) = Some (s, [])"
    using parse_integer_scalar [OF assms(2), of "[]"] by simp
  ultimately show ?thesis by (simp add: secp256k1_ecdsa_sig_parse_def der_sig_def b_def [symmetric])
qed

text \<open>Strictness: a nonzero scalar is accepted in one encoding only.\<close>

lemma parse_integer_strict:
  assumes "secp256k1_der_parse_integer sig = Some (r, rest)"
  shows "secp256k1_scalar_verify r" "sc_val r \<noteq> 0 \<Longrightarrow> sig = der_int (der_scalar r) @ rest"
proof -
  obtain t where t: "sig = 0x02 # t" using parse_integer_tag [OF assms] by blast
  obtain len s where s: "secp256k1_der_read_len t = Some (len, s)" using parse_integer_read_len assms unfolding t by blast
  define n c where "n = unat len" and "c = take n s"
  have p: "0 < n" "n \<le> length s" "der_reads c r" "rest = drop n s" "s ! 0 = 0 \<and> 1 < n \<longrightarrow> 0x80 \<le> s ! 1"
    using parse_integer_read [OF s] assms unfolding t n_def c_def by simp_all
  show "secp256k1_scalar_verify r" using p(3) by (simp add: der_reads_def)
  assume "sc_val r \<noteq> 0"
  then have c: "c ! 0 < 0x80" "be_val c < secp256k1_n" "sc_val r = be_val c" using p(3) by (auto simp: der_reads_def split: if_splits)
  have lc: "length c = n" using p(2) by (simp add: c_def)
  have m: "der_minimal c" using c(1) p(1,2,5) by (auto simp: der_minimal_def c_def)
  have e: "c = der_scalar r" by (rule der_minimal_unique [OF m der_scalar_props(1)]) (simp add: c(3) der_scalar_props(3))
  have "n < 128" using der_scalar_props(2) [of r] e lc by simp
  then have "t = of_nat n # s" using read_len_cases [OF s] unfolding n_def by simp
  then show "sig = der_int (der_scalar r) @ rest" using e lc p(4) append_take_drop_id [of n s] unfolding t der_int_def c_def by simp
qed

lemma sig_parse_steps:
  assumes "secp256k1_ecdsa_sig_parse sig = Some (r, s)"
  obtains t len b u where "sig = 0x30 # t" "secp256k1_der_read_len t = Some (len, b)" "unat len = length b"
    "secp256k1_der_parse_integer b = Some (r, u)" "secp256k1_der_parse_integer u = Some (s, [])"
  using assms by (cases sig) (auto simp: secp256k1_ecdsa_sig_parse_def split: if_splits option.splits)

lemma sig_parse_verify:
  "secp256k1_ecdsa_sig_parse sig = Some (r, s) \<Longrightarrow> secp256k1_scalar_verify r \<and> secp256k1_scalar_verify s"
  by (elim sig_parse_steps) (simp add: parse_integer_strict(1))

lemma sig_parse_strict:
  assumes "secp256k1_ecdsa_sig_parse sig = Some (r, s)" "sc_val r \<noteq> 0" "sc_val s \<noteq> 0"
  shows "sig = der_sig r s"
proof -
  obtain t len b u where p: "sig = 0x30 # t" "secp256k1_der_read_len t = Some (len, b)" "unat len = length b"
    "secp256k1_der_parse_integer b = Some (r, u)" "secp256k1_der_parse_integer u = Some (s, [])"
    using assms(1) by (rule sig_parse_steps)
  have b: "b = der_int (der_scalar r) @ der_int (der_scalar s)"
    using parse_integer_strict(2) [OF p(4) assms(2)] parse_integer_strict(2) [OF p(5) assms(3)] by simp
  then have "unat len < 128" using der_scalar_props(2) [of r] der_scalar_props(2) [of s] unfolding p(3) by simp
  then have "t = of_nat (length b) # b" using read_len_cases [OF p(2)] p(3) by auto
  then show ?thesis unfolding p(1) der_sig_def Let_def b by simp
qed

lemma sig_serialize_correct:
  assumes "secp256k1_ecdsa_sig_serialize sig sz ar as = (sig', sz', ret)" "sz \<le> length sig"
  shows "sz' = length (der_sig ar as)" "sz' \<le> 72" "ret \<longleftrightarrow> sz' \<le> sz" "sig' = (if ret then der_sig ar as @ drop sz' sig else sig)"
proof -
  define R S where "R = der_scalar ar" and "S = der_scalar as"
  note run = assms(1) [unfolded secp256k1_ecdsa_sig_serialize_def der_scalar_def [symmetric] Let_def, folded R_def S_def]
  have l: "length (der_sig ar as) = 6 + length S + length R" by (simp add: der_sig_def Let_def R_def S_def)
  show sz: "sz' = length (der_sig ar as)" and ret: "ret \<longleftrightarrow> sz' \<le> sz" using run unfolding l by (auto split: if_splits)
  show "sz' \<le> 72" using der_scalar_props(2) [of ar] der_scalar_props(2) [of as] unfolding sz l R_def S_def by simp
  show "sig' = (if ret then der_sig ar as @ drop sz' sig else sig)"
  proof (cases ret)
    case True
    then have sz_le: "6 + length S + length R \<le> length sig" using ret sz l assms(2) by simp
    then obtain x0 x1 x2 x3 t where sig: "sig = x0 # x1 # x2 # x3 # t" by (auto simp: Suc_le_length_iff numeral_eq_Suc)
    obtain u y0 y1 v where t: "t = u @ y0 # y1 # v" "length u = length R"
    proof (rule that)
      show "t = take (length R) t @ t ! length R # t ! (length R + 1) # drop (length R + 2) t"
        using sz_le unfolding sig by (simp add: Cons_nth_drop_Suc)
      show "length (take (length R) t) = length R" using sz_le unfolding sig by simp
    qed
    have idx: "4 + length R = Suc (Suc (Suc (Suc (length R))))" "5 + length R = Suc (Suc (Suc (Suc (Suc (length R)))))"
      "length R + 6 = Suc (Suc (Suc (Suc (Suc (Suc (length R))))))" by simp_all
    have "sig' = 0x30 # of_nat (4 + length S + length R) # 0x02 # of_nat (length R) # R @ 0x02 # of_nat (length S) # S @ drop (length S) v"
      using run True unfolding sig t(1) by (simp add: memcpy_at_def t(2) idx list_update_append split: if_splits)
    moreover have "der_sig ar as = 0x30 # of_nat (4 + length S + length R) # 0x02 # of_nat (length R) # R @ 0x02 # of_nat (length S) # S"
      by (simp add: der_sig_def der_int_def Let_def R_def S_def algebra_simps)
    moreover have "sz' = Suc (Suc (Suc (Suc (length u + Suc (Suc (length S))))))" unfolding sz l t(2) by simp
    then have "drop sz' sig = drop (length S) v" unfolding sig t(1) by simp
    ultimately show ?thesis using True by simp
  next
    case False
    then show ?thesis using run by (auto split: if_splits)
  qed
qed

end
