(* ===== verification/Hash_Stream.thy ===== *)
theory Hash_Stream
  imports Hash_Correct
begin

text \<open>
  The streaming interface of the hash functions. \<open>hash_stream\<close> states what a client of an incremental
  hash relies on: a context stands for the bytes written so far, and finalising returns the hash of
  them. SHA-256 satisfies it for the FIPS 180-4 function, HMAC for the FIPS 198-1 function, and the
  RFC 6979 generator is verified on top of the second interpretation.
\<close>

unbundle bit_operations_syntax

section \<open>The interface\<close>

locale hash_stream =
  fixes ready :: "'h \<Rightarrow> bool"
    and inv :: "'h \<Rightarrow> bytes \<Rightarrow> bool"
    and init :: "'h \<Rightarrow> 'h"
    and wr :: "'h \<Rightarrow> bytes \<Rightarrow> 'h"
    and fin :: "'h \<Rightarrow> 'h \<times> bytes"
    and H :: "bytes \<Rightarrow> bytes"
    and lim :: nat
  assumes inv_init: "ready h \<Longrightarrow> inv (init h) []"
    and inv_write: "inv h m \<Longrightarrow> inv (wr h d) (m @ d)"
    and fin_out: "inv h m \<Longrightarrow> length m < lim \<Longrightarrow> snd (fin h) = H m"
    and fin_ready: "inv h m \<Longrightarrow> ready (fst (fin h))"
begin

lemma digest1: "ready h \<Longrightarrow> length a < lim \<Longrightarrow> snd (fin (wr (init h) a)) = H a"
  using fin_out [OF inv_write [OF inv_init]] by simp

lemma digest2: "ready h \<Longrightarrow> length (a @ b) < lim \<Longrightarrow> snd (fin (wr (wr (init h) a) b)) = H (a @ b)"
  using fin_out [OF inv_write [OF inv_write [OF inv_init]]] by simp

lemma digest3:
  "ready h \<Longrightarrow> length (a @ b @ c) < lim \<Longrightarrow> snd (fin (wr (wr (wr (init h) a) b) c)) = H (a @ b @ c)"
  using fin_out [OF inv_write [OF inv_write [OF inv_write [OF inv_init]]]] by simp

lemma inv_writes: "inv h m \<Longrightarrow> inv (foldl wr h ds) (m @ concat ds)"
proof (induction ds arbitrary: h m)
  case (Cons d ds)
  from Cons.IH [OF inv_write [OF Cons.prems]] show ?case by simp
qed simp

lemma chunking: "ready h \<Longrightarrow> length (concat ds) < lim \<Longrightarrow> snd (fin (foldl wr (init h) ds)) = H (concat ds)"
  using fin_out [OF inv_writes [OF inv_init]] by simp

end

section \<open>Blocks\<close>

lemma fips_blocks_append:
  "length as mod 64 = 0 \<Longrightarrow> fips_blocks (as @ bs) = fips_blocks as @ fips_blocks bs"
proof (induction as rule: fips_blocks.induct)
  case (1 as)
  show ?case
  proof (cases "length as < 64")
    case True
    then have "as = []" using 1(2) by auto
    then show ?thesis by (simp add: fips_blocks.simps [of "[]"])
  next
    case False
    then have "length (drop 64 as) mod 64 = 0" using 1(2) by (simp add: mod_if)
    then have "fips_blocks (drop 64 as @ bs) = fips_blocks (drop 64 as) @ fips_blocks bs" using False 1(1) by simp
    then show ?thesis using False by (simp add: fips_blocks.simps [of "as @ bs"] fips_blocks.simps [of as])
  qed
qed

lemma fips_blocks_small: "length bs < 64 \<Longrightarrow> fips_blocks bs = []"
  by (simp add: fips_blocks.simps)

lemma fips_blocks_one: "length bs = 64 \<Longrightarrow> fips_blocks bs = [bs]"
  by (simp add: fips_blocks.simps)

definition pending :: "bytes \<Rightarrow> bytes" where
  "pending m = drop (64 * (length m div 64)) m"

lemma pending_split: "m = take (64 * (length m div 64)) m @ pending m"
  by (simp add: pending_def)

lemma length_pending: "length (pending m) = length m mod 64"
  by (simp add: pending_def minus_mult_div_eq_mod)

lemma fips_blocks_pending: "fips_blocks (m @ d) = fips_blocks m @ fips_blocks (pending m @ d)"
proof -
  let ?f = "take (64 * (length m div 64)) m"
  have f: "length ?f mod 64 = 0" by (simp add: min.absorb2)
  have "fips_blocks (m @ d) = fips_blocks (?f @ (pending m @ d))" by (metis pending_split append_assoc)
  also have "\<dots> = fips_blocks ?f @ fips_blocks (pending m @ d)" by (rule fips_blocks_append [OF f])
  also have "fips_blocks ?f = fips_blocks m"
    using fips_blocks_append [OF f, of "pending m"] pending_split [of m] length_pending [of m]
    by (simp add: fips_blocks_small)
  finally show ?thesis .
qed

lemma pending_append: "pending (m @ d) = pending (pending m @ d)"
proof -
  have "length m + length d = length (pending m @ d) + 64 * (length m div 64)"
    by (simp add: length_pending)
  then have "(length m + length d) div 64 = length (pending m @ d) div 64 + length m div 64"
    by (simp only: div_mult_self2 zero_neq_numeral not_False_eq_True)
  then have "64 * (length (m @ d) div 64) = 64 * (length m div 64) + 64 * (length (pending m @ d) div 64)"
    by simp
  then show ?thesis unfolding pending_def [of "m @ d"] pending_def [of "pending m @ d"]
    by (subst pending_split [of m]) (simp add: pending_def add.commute)
qed

section \<open>Writing\<close>

lemma write_loop_correct:
  assumes "sha256_write_loop s buf bufsize data = (s', buf', bufsize', data')"
    and "length buf = 64" "bufsize < 64"
  shows "s' = foldl fips_compress s (fips_blocks (take bufsize buf @ data)) \<and> length buf' = 64 \<and>
    bufsize' + length data' < 64 \<and> take bufsize' buf' @ data' = pending (take bufsize buf @ data)"
  using assms
proof (induction s buf bufsize data rule: sha256_write_loop.induct)
  case (1 s buf bufsize data)
  let ?n = "64 - bufsize"
  show ?case
  proof (cases "?n \<le> length data")
    case True
    define buf2 where "buf2 = memcpy_at buf bufsize (take ?n data)"
    have b2: "buf2 = take bufsize buf @ take ?n data" "length buf2 = 64"
      using True 1(3,4) by (simp_all add: buf2_def memcpy_at_def)
    have run: "sha256_write_loop (secp256k1_sha256_transform s buf2) buf2 0 (drop ?n data) = (s', buf', bufsize', data')"
      using 1(2) True 1(4) by (subst (asm) sha256_write_loop.simps) (simp add: buf2_def Let_def)
    have ih: "s' = foldl fips_compress (secp256k1_sha256_transform s buf2) (fips_blocks (drop ?n data)) \<and> length buf' = 64 \<and>
        bufsize' + length data' < 64 \<and> take bufsize' buf' @ data' = pending (drop ?n data)"
      using 1(1) [OF _ refl refl refl refl] True 1(4) run b2(2) by (simp add: buf2_def)
    have e: "take bufsize buf @ data = buf2 @ drop ?n data" by (simp add: b2)
    have "fips_blocks (take bufsize buf @ data) = buf2 # fips_blocks (drop ?n data)"
      unfolding e using b2(2) by (simp add: fips_blocks_append fips_blocks_one)
    moreover have "pending (take bufsize buf @ data) = pending (drop ?n data)"
      unfolding e using b2(2) by (subst pending_append) (simp add: pending_def)
    ultimately show ?thesis using ih by (simp add: transform_eq_compress)
  next
    case False
    then have "(s', buf', bufsize', data') = (s, buf, bufsize, data)"
      using 1(2) by (subst (asm) sha256_write_loop.simps) simp
    then show ?thesis
      using False 1(3,4) by (simp add: fips_blocks_small pending_def)
  qed
qed

definition sha_ready :: "secp256k1_sha256 \<Rightarrow> bool" where
  "sha_ready hash \<longleftrightarrow> length (sha_buf hash) = 64"

text \<open>The context after writing \<open>m\<close>: chaining value, pending bytes and the byte counter modulo \<open>2^64\<close>.\<close>

definition sha_inv :: "secp256k1_sha256 \<Rightarrow> bytes \<Rightarrow> bool" where
  "sha_inv hash m \<longleftrightarrow> sha_ready hash \<and> sha_bytes hash = of_nat (length m) \<and>
     sha_s hash = foldl fips_compress sha256_state_0 (fips_blocks m) \<and>
     take (length m mod 64) (sha_buf hash) = pending m"

lemma bufsize_mod: "unat ((of_nat n :: u64) AND 0x3F) = n mod 64"
proof -
  have "(0x3F :: u64) = mask 6" by (simp add: mask_eq_exp_minus_1)
  then have "uint ((of_nat n :: u64) AND 0x3F) = uint (of_nat n :: u64) mod 2 ^ 6" by (simp only: uint_and_mask)
  also have "\<dots> = int (n mod 64)" by (simp add: unsigned_of_nat take_bit_eq_mod zmod_int mod_mod_cancel)
  finally show ?thesis by (metis nat_int unat_eq_nat_uint)
qed

lemma sha_inv_initialize: "sha_ready hash \<Longrightarrow> sha_inv (secp256k1_sha256_initialize hash) []"
  by (simp add: sha_inv_def sha_ready_def secp256k1_sha256_initialize_def fips_blocks_small pending_def)

lemma sha_inv_write:
  assumes "sha_inv hash m"
  shows "sha_inv (secp256k1_sha256_write hash d) (m @ d)"
proof -
  note inv = assms [unfolded sha_inv_def sha_ready_def]
  obtain s' buf' bs' d' where run: "sha256_write_loop (sha_s hash) (sha_buf hash) (length m mod 64) d = (s', buf', bs', d')"
    by (metis surj_pair)
  have w: "s' = foldl fips_compress (sha_s hash) (fips_blocks (pending m @ d))" "length buf' = 64" "bs' + length d' < 64"
    "take bs' buf' @ d' = pending (pending m @ d)"
    using write_loop_correct [OF run] inv by simp_all
  define buf2 where "buf2 = (if d' \<noteq> [] then memcpy_at buf' bs' d' else buf')"
  have buf2: "length buf2 = 64" "take (bs' + length d') buf2 = take bs' buf' @ d'"
    using w(2,3) by (simp_all add: buf2_def memcpy_at_def)
  have len: "length (m @ d) mod 64 = bs' + length d'"
    using arg_cong [OF w(4), of length] w(2,3) by (simp add: length_pending) (metis length_pending length_append mod_add_left_eq)
  have "secp256k1_sha256_write hash d = hash\<lparr>sha_bytes := sha_bytes hash + of_nat (length d), sha_s := s', sha_buf := buf2\<rparr>"
    using inv run by (simp add: secp256k1_sha256_write_def Let_def bufsize_mod buf2_def)
  then show ?thesis
    unfolding sha_inv_def sha_ready_def len
    using inv w buf2 by (simp add: fips_blocks_pending [of m d] pending_append [of m d])
qed

section \<open>Finalising\<close>

lemma sizedesc_eq:
  assumes "n < 2 ^ 61"
  shows "secp256k1_write_be32 (ucast (drop_bit 29 (of_nat n :: u64))) @ secp256k1_write_be32 (ucast (push_bit 3 (of_nat n :: u64))) =
    secp256k1_write_be64 (of_nat (8 * n))"
proof (rule be_val_inj)
  have n: "uint (of_nat n :: u64) = int n" using assms by (simp add: unsigned_of_nat take_bit_nat_eq_self)
  have 8: "uint (of_nat (8 * n) :: u64) = 8 * int n" using assms by (simp add: unsigned_of_nat take_bit_nat_eq_self del: of_nat_mult)
  have "int n < 2 ^ 61" using assms by (metis of_nat_less_iff of_nat_numeral of_nat_power)
  then have hi: "uint (ucast (drop_bit 29 (of_nat n :: u64)) :: u32) = int n div 2 ^ 29"
    using div_pow_less [of "int n" 61 29] by (simp add: unsigned_ucast_eq take_bit_eq_mod uint_shiftr n)
  have "uint (push_bit 3 (of_nat n :: u64)) = 8 * int n"
    using \<open>int n < 2 ^ 61\<close> by (subst uint_shiftl_exact) (simp_all add: n)
  then have lo: "uint (ucast (push_bit 3 (of_nat n :: u64)) :: u32) = 8 * int n mod 2 ^ 32"
    by (simp add: unsigned_ucast_eq take_bit_eq_mod)
  have "8 * int n = (int n div 2 ^ 29) * 2 ^ 32 + 8 * int n mod 2 ^ 32"
    by (simp add: minus_mult_div_eq_mod [symmetric] flip: zdiv_zmult2_eq)
  then show "be_val (secp256k1_write_be32 (ucast (drop_bit 29 (of_nat n :: u64))) @ secp256k1_write_be32 (ucast (push_bit 3 (of_nat n :: u64)))) =
    be_val (secp256k1_write_be64 (of_nat (8 * n)))"
    by (simp add: be_val_append write_be32_val write_be64_val hi lo 8 del: of_nat_mult)
qed simp

lemma pad_zeros: "nat ((55 - int n) mod 64) = (119 - n mod 64) mod 64"
proof -
  define r where "r = n mod 64"
  have r: "r < 64" by (simp add: r_def)
  have "(55 - int n) mod 64 = (55 - int r) mod 64" by (simp add: r_def zmod_int mod_diff_right_eq)
  also have "\<dots> = (55 - int r + 64) mod 64" by (rule mod_add_self2 [symmetric])
  also have "55 - int r + 64 = int (119 - r)" using r by simp
  also have "int (119 - r) mod 64 = int ((119 - r) mod 64)" by (simp add: zmod_int)
  finally show ?thesis by (simp add: r_def)
qed

lemma sha_finalize_correct:
  assumes inv: "sha_inv hash m"
  shows "length m < 2 ^ 61 \<Longrightarrow> snd (secp256k1_sha256_finalize hash) = fips_sha256 m"
    and "sha_ready (fst (secp256k1_sha256_finalize hash))"
proof -
  have b: "sha_bytes hash = of_nat (length m)" using inv by (simp add: sha_inv_def)
  have u: "unat (sha_bytes hash mod 64) = length m mod 64"
  proof -
    have "uint (sha_bytes hash mod 64) = int (length m) mod 2 ^ 64 mod 64"
      by (simp add: b uint_mod unsigned_of_nat take_bit_eq_mod zmod_int)
    also have "\<dots> = int (length m mod 64)" by (simp add: mod_mod_cancel zmod_int)
    finally show ?thesis by (metis nat_int unat_eq_nat_uint)
  qed
  define pad where "pad = take (1 + ((119 - length m mod 64) mod 64)) (0x80 # replicate 63 0 :: bytes)"
  have pad: "pad = 0x80 # replicate ((119 - length m mod 64) mod 64) 0" by (simp add: pad_def min_def)
  define sz where "sz = secp256k1_write_be32 (ucast (drop_bit 29 (sha_bytes hash))) @ secp256k1_write_be32 (ucast (push_bit 3 (sha_bytes hash)))"
  define h2 where "h2 = secp256k1_sha256_write (secp256k1_sha256_write hash pad) sz"
  have f: "secp256k1_sha256_finalize hash = (h2\<lparr>sha_s := (0, 0, 0, 0, 0, 0, 0, 0)\<rparr>, sha_out32 (sha_s h2))"
    by (simp add: secp256k1_sha256_finalize_def Let_def u h2_def sz_def pad_def)
  have i2: "sha_inv h2 ((m @ pad) @ sz)" unfolding h2_def by (intro sha_inv_write inv)
  then show "sha_ready (fst (secp256k1_sha256_finalize hash))" by (simp add: f sha_inv_def sha_ready_def)
  assume "length m < 2 ^ 61"
  then have "(m @ pad) @ sz = fips_pad m"
    unfolding fips_pad_def pad_zeros pad sz_def b by (simp add: sizedesc_eq del: of_nat_mult)
  with i2 show "snd (secp256k1_sha256_finalize hash) = fips_sha256 m"
    by (simp add: f sha_inv_def fips_sha256_def)
qed

interpretation sha: hash_stream sha_ready sha_inv secp256k1_sha256_initialize secp256k1_sha256_write
  secp256k1_sha256_finalize fips_sha256 "2 ^ 61"
  by unfold_locales (simp_all add: sha_inv_initialize sha_inv_write sha_finalize_correct)

end
