(* ===== verification/Hash_Hmac.thy ===== *)
theory Hash_Hmac
  imports Hash_Stream
begin

text \<open>
  Tagged hashing, HMAC-SHA256 and the RFC 6979 nonce generator, verified through the streaming
  interface: HMAC is itself an interpretation of \<open>hash_stream\<close>, and the generator uses only that.
\<close>

unbundle bit_operations_syntax

section \<open>Tagged hashes\<close>

lemma initialize_tagged_inv:
  assumes "sha_ready hash" "length tag < 2 ^ 61"
  shows "sha_inv (secp256k1_sha256_initialize_tagged hash tag) (fips_sha256 tag @ fips_sha256 tag)"
proof -
  define h where "h = secp256k1_sha256_write (secp256k1_sha256_initialize hash) tag"
  have i: "sha_inv h tag" unfolding h_def using sha.inv_write [OF sha.inv_init [OF assms(1)]] by simp
  obtain h' out where f: "secp256k1_sha256_finalize h = (h', out)" by fastforce
  have o: "out = fips_sha256 tag" "sha_ready h'"
    using sha.fin_out [OF i assms(2)] sha.fin_ready [OF i] by (simp_all add: f)
  have "secp256k1_sha256_initialize_tagged hash tag =
      secp256k1_sha256_write (secp256k1_sha256_write (secp256k1_sha256_initialize h') out) out"
    by (simp add: secp256k1_sha256_initialize_tagged_def Let_def f h_def [symmetric])
  then show ?thesis using sha.inv_write [OF sha.inv_write [OF sha.inv_init [OF o(2)]], of out out] o(1) by simp
qed

section \<open>HMAC\<close>

definition hmac_key0 :: "bytes \<Rightarrow> bytes" where
  "hmac_key0 key = (if length key \<le> 64 then key @ replicate (64 - length key) 0 else fips_sha256 key @ replicate 32 0)"

definition hmac_ready :: "secp256k1_sha256 \<Rightarrow> bytes \<Rightarrow> secp256k1_hmac_sha256 \<Rightarrow> bool" where
  "hmac_ready sha256 key hash \<longleftrightarrow> sha_ready sha256 \<and> length key < 2 ^ 61 \<and>
     sha_ready (hmac_inner hash) \<and> sha_ready (hmac_outer hash)"

definition hmac_inv :: "secp256k1_sha256 \<Rightarrow> bytes \<Rightarrow> secp256k1_hmac_sha256 \<Rightarrow> bytes \<Rightarrow> bool" where
  "hmac_inv sha256 key hash m \<longleftrightarrow> sha_ready sha256 \<and> length key < 2 ^ 61 \<and>
     sha_inv (hmac_inner hash) (map (\<lambda>b. b XOR 0x36) (hmac_key0 key) @ m) \<and>
     sha_inv (hmac_outer hash) (map (\<lambda>b. b XOR 0x5c) (hmac_key0 key))"

lemma length_sha256 [simp]: "length (fips_sha256 m) = 32"
  by (simp add: fips_sha256_def sha_out32_def split_beta)

lemma length_hmac_key0 [simp]: "length (hmac_key0 key) = 64"
  by (simp add: hmac_key0_def)

lemma fips_hmac_key0:
  "fips_hmac key text = fips_sha256 (map (\<lambda>b. b XOR 0x5c) (hmac_key0 key) @
     fips_sha256 (map (\<lambda>b. b XOR 0x36) (hmac_key0 key) @ text))"
  by (simp add: fips_hmac_def hmac_key0_def Let_def)

lemma length_hmac [simp]: "length (fips_hmac key text) = 32"
  by (simp add: fips_hmac_key0)

lemma xor_pads: "map (\<lambda>b. b XOR (0x5c XOR 0x36)) (map (\<lambda>b. b XOR 0x5c) bs) = map (\<lambda>b. b XOR 0x36) (bs :: bytes)"
proof -
  have "(b XOR 0x5c) XOR (0x5c XOR 0x36) = b XOR (0x36 :: u8)" for b
    by (simp add: xor.assoc)
  then show ?thesis by simp
qed

lemma hmac_initialize_inv:
  assumes "hmac_ready sha256 key hash"
  shows "hmac_inv sha256 key (secp256k1_hmac_sha256_initialize sha256 hash key) []"
proof -
  note r = assms [unfolded hmac_ready_def]
  have k: "(if length key \<le> 64 then key @ replicate (64 - length key) 0
      else (case secp256k1_sha256_finalize (secp256k1_sha256_write (secp256k1_sha256_initialize sha256) key) of
        (sha256, rkey) \<Rightarrow> rkey @ replicate 32 0)) = hmac_key0 key"
    using sha.digest1 [of sha256 key] r by (simp add: hmac_key0_def split_beta)
  have "secp256k1_hmac_sha256_initialize sha256 hash key =
      \<lparr>hmac_inner = secp256k1_sha256_write (secp256k1_sha256_initialize (hmac_inner hash)) (map (\<lambda>b. b XOR 0x36) (hmac_key0 key)),
       hmac_outer = secp256k1_sha256_write (secp256k1_sha256_initialize (hmac_outer hash)) (map (\<lambda>b. b XOR 0x5c) (hmac_key0 key))\<rparr>"
    unfolding secp256k1_hmac_sha256_initialize_def Let_def k xor_pads ..
  then show ?thesis
    using r sha.inv_write [OF sha.inv_init] by (force simp: hmac_inv_def)
qed

lemma hmac_finalize_correct:
  assumes inv: "hmac_inv sha256 key hash m"
  shows "length m < 2 ^ 60 \<Longrightarrow> snd (secp256k1_hmac_sha256_finalize hash) = fips_hmac key m"
    and "hmac_ready sha256 key (fst (secp256k1_hmac_sha256_finalize hash))"
proof -
  note i = inv [unfolded hmac_inv_def]
  obtain inner temp where f1: "secp256k1_sha256_finalize (hmac_inner hash) = (inner, temp)" by fastforce
  obtain outer out where f2: "secp256k1_sha256_finalize (secp256k1_sha256_write (hmac_outer hash) temp) = (outer, out)" by fastforce
  have f: "secp256k1_hmac_sha256_finalize hash = (\<lparr>hmac_inner = inner, hmac_outer = outer\<rparr>, out)"
    by (simp add: secp256k1_hmac_sha256_finalize_def f1 f2)
  have o: "sha_inv (secp256k1_sha256_write (hmac_outer hash) temp) (map (\<lambda>b. b XOR 0x5c) (hmac_key0 key) @ temp)"
    using i by (intro sha.inv_write) simp
  show "hmac_ready sha256 key (fst (secp256k1_hmac_sha256_finalize hash))"
    using i sha.fin_ready [of "hmac_inner hash" "map (\<lambda>b. b XOR 0x36) (hmac_key0 key) @ m"] sha.fin_ready [OF o]
    by (simp add: f f1 f2 hmac_ready_def)
  assume len: "length m < 2 ^ 60"
  have t: "temp = fips_sha256 (map (\<lambda>b. b XOR 0x36) (hmac_key0 key) @ m)"
    using sha.fin_out [of "hmac_inner hash" "map (\<lambda>b. b XOR 0x36) (hmac_key0 key) @ m"] i len by (simp add: f1)
  show "snd (secp256k1_hmac_sha256_finalize hash) = fips_hmac key m"
    using sha.fin_out [OF o] f2 t by (simp add: f fips_hmac_key0)
qed

interpretation hmac: hash_stream "hmac_ready sha256 key" "hmac_inv sha256 key"
  "\<lambda>h. secp256k1_hmac_sha256_initialize sha256 h key" secp256k1_hmac_sha256_write
  secp256k1_hmac_sha256_finalize "fips_hmac key" "2 ^ 60" for sha256 key
proof
  show "hmac_inv sha256 key (secp256k1_hmac_sha256_write h d) (m @ d)" if "hmac_inv sha256 key h m" for h m d
    using that sha.inv_write [of "hmac_inner h" "map (\<lambda>b. b XOR 0x36) (hmac_key0 key) @ m" d]
    by (simp add: hmac_inv_def secp256k1_hmac_sha256_write_def)
qed (simp_all add: hmac_initialize_inv hmac_finalize_correct)

section \<open>RFC 6979\<close>

text \<open>The generator of RFC 6979 section 3.2 as a function of \<open>K\<close> and \<open>V\<close>.\<close>

definition rfc6979_init :: "bytes \<Rightarrow> bytes \<times> bytes" where
  "rfc6979_init key =
    (let V = replicate 32 0x01; K = replicate 32 0x00;
         K = fips_hmac K (V @ [0x00] @ key); V = fips_hmac K V;
         K = fips_hmac K (V @ [0x01] @ key); V = fips_hmac K V
     in (K, V))"

fun rfc6979_stream :: "bytes \<Rightarrow> bytes \<Rightarrow> nat \<Rightarrow> bytes" where
  "rfc6979_stream K V 0 = []"
| "rfc6979_stream K V (Suc n) = fips_hmac K V @ rfc6979_stream K (fips_hmac K V) n"

definition rfc6979_reseed :: "bytes \<times> bytes \<Rightarrow> bytes \<times> bytes" where
  "rfc6979_reseed = (\<lambda>(K, V). (fips_hmac K (V @ [0x00]), fips_hmac (fips_hmac K (V @ [0x00])) V))"

text \<open>An intact pair of stack contexts, whatever they hold.\<close>

definition stack_ready :: "secp256k1_sha256 \<Rightarrow> secp256k1_hmac_sha256 \<Rightarrow> bool" where
  "stack_ready sha256 hmac \<longleftrightarrow> hmac_ready sha256 [] hmac"

lemma hmac_run:
  assumes "stack_ready sha256 hmac" "length key = 32" "length (concat ds) < 2 ^ 60"
  obtains hmac' where
    "secp256k1_hmac_sha256_finalize (foldl secp256k1_hmac_sha256_write (secp256k1_hmac_sha256_initialize sha256 hmac key) ds) =
       (hmac', fips_hmac key (concat ds))"
    "stack_ready sha256 hmac'"
proof -
  have r: "hmac_ready sha256 key hmac" using assms by (simp add: stack_ready_def hmac_ready_def)
  have i: "hmac_inv sha256 key (foldl secp256k1_hmac_sha256_write (secp256k1_hmac_sha256_initialize sha256 hmac key) ds) ([] @ concat ds)"
    by (rule hmac.inv_writes [OF hmac.inv_init [OF r]])
  obtain h' out where f: "secp256k1_hmac_sha256_finalize
      (foldl secp256k1_hmac_sha256_write (secp256k1_hmac_sha256_initialize sha256 hmac key) ds) = (h', out)" by fastforce
  have "out = fips_hmac key (concat ds)" using hmac.fin_out [OF i] assms(3) by (simp add: f)
  moreover have "stack_ready sha256 h'" using hmac.fin_ready [OF i] by (simp add: f stack_ready_def hmac_ready_def)
  ultimately show ?thesis using f that by simp
qed

lemma rfc6979_initialize_correct:
  assumes "stack_ready sha256 hmac" "length key < 2 ^ 59"
  shows "secp256k1_rfc6979_hmac_sha256_initialize sha256 hmac key =
    \<lparr>rng_v = snd (rfc6979_init key), rng_k = fst (rfc6979_init key), rng_retry = False\<rparr>"
proof -
  let ?V = "replicate 32 (0x01 :: u8)" and ?K = "replicate 32 (0x00 :: u8)"
  define K1 where "K1 = fips_hmac ?K (?V @ [0x00] @ key)"
  define V1 where "V1 = fips_hmac K1 ?V"
  define K2 where "K2 = fips_hmac K1 (V1 @ [0x01] @ key)"
  define V2 where "V2 = fips_hmac K2 V1"
  have len: "length K1 = 32" "length V1 = 32" "length K2 = 32" by (simp_all add: K1_def V1_def K2_def)
  obtain h1 where h1: "secp256k1_hmac_sha256_finalize (secp256k1_hmac_sha256_write (secp256k1_hmac_sha256_write
      (secp256k1_hmac_sha256_write (secp256k1_hmac_sha256_initialize sha256 hmac ?K) ?V) [0x00]) key) = (h1, K1)" "stack_ready sha256 h1"
    using hmac_run [OF assms(1), of ?K "[?V, [0x00], key]"] assms(2) by (auto simp: K1_def)
  obtain h2 where h2: "secp256k1_hmac_sha256_finalize (secp256k1_hmac_sha256_write (secp256k1_hmac_sha256_initialize sha256 h1 K1) ?V) = (h2, V1)"
      "stack_ready sha256 h2"
    using hmac_run [OF h1(2) len(1), of "[?V]"] by (auto simp: V1_def)
  obtain h3 where h3: "secp256k1_hmac_sha256_finalize (secp256k1_hmac_sha256_write (secp256k1_hmac_sha256_write
      (secp256k1_hmac_sha256_write (secp256k1_hmac_sha256_initialize sha256 h2 K1) V1) [0x01]) key) = (h3, K2)" "stack_ready sha256 h3"
    using hmac_run [OF h2(2) len(1), of "[V1, [0x01], key]"] assms(2) len by (auto simp: K2_def)
  obtain h4 where h4: "secp256k1_hmac_sha256_finalize (secp256k1_hmac_sha256_write (secp256k1_hmac_sha256_initialize sha256 h3 K2) V1) = (h4, V2)"
    using hmac_run [OF h3(2) len(3), of "[V1]"] len by (auto simp: V2_def)
  have "rfc6979_init key = (K2, V2)" by (simp add: rfc6979_init_def Let_def K1_def V1_def K2_def V2_def)
  then show ?thesis
    unfolding secp256k1_rfc6979_hmac_sha256_initialize_def Let_def by (simp only: h1(1) h2(1) h3(1) h4 prod.case fst_conv snd_conv)
qed

text \<open>The state after \<open>n\<close> output blocks.\<close>

fun rfc6979_advance :: "bytes \<Rightarrow> bytes \<Rightarrow> nat \<Rightarrow> bytes" where
  "rfc6979_advance K V 0 = V"
| "rfc6979_advance K V (Suc n) = rfc6979_advance K (fips_hmac K V) n"

lemma length_rfc6979_stream [simp]: "length (rfc6979_stream K V n) = 32 * n"
  by (induction n arbitrary: V) simp_all

text \<open>The conversion to \<open>int\<close> keeps every length below \<open>2 ^ 31\<close>, and the loop ends for these.\<close>

lemma sint_size: "n < 2 ^ 31 \<Longrightarrow> sint (word_of_nat n :: u32) = int n"
  by transfer (simp add: signed_take_bit_int_eq_self)

lemma generate_loop_correct:
  assumes "stack_ready sha256 hmac" "length k = 32" "length v = 32" "outlen < 2 ^ 31"
  shows "rfc6979_generate_loop sha256 hmac k v outlen =
    Some (rfc6979_advance k v ((outlen + 31) div 32), take outlen (rfc6979_stream k v ((outlen + 31) div 32)))"
  using assms
proof (induction outlen arbitrary: hmac v rule: less_induct)
  case (less outlen)
  show ?case
  proof (cases "outlen = 0")
    case True
    then show ?thesis by (simp add: rfc6979_generate_loop.simps)
  next
    case False
    define v' where "v' = fips_hmac k v"
    define now where "now = (if outlen > 32 then 32 else outlen)"
    obtain h where h: "secp256k1_hmac_sha256_finalize (secp256k1_hmac_sha256_write (secp256k1_hmac_sha256_initialize sha256 hmac k) v) = (h, v')"
      "stack_ready sha256 h"
      using hmac_run [OF less.prems(1,2), of "[v]"] less.prems(3) by (auto simp: v'_def)
    have n: "now \<le> outlen" "0 < now" "now \<le> 32" "outlen - now < outlen" using False by (auto simp: now_def)
    have blocks: "(outlen + 31) div 32 = Suc ((outlen - now + 31) div 32)"
      using False by (auto simp: now_def)
    have ih: "rfc6979_generate_loop sha256 h k v' (outlen - now) =
        Some (rfc6979_advance k v' ((outlen - now + 31) div 32), take (outlen - now) (rfc6979_stream k v' ((outlen - now + 31) div 32)))"
      using less.IH [OF n(4) h(2) less.prems(2), of v'] less.prems(4) by (simp add: v'_def)
    have i: "(if sint (word_of_nat outlen :: u32) > 32 then 32 else sint (word_of_nat outlen :: u32)) = int now"
      unfolding sint_size [OF less.prems(4)] now_def by simp
    have "rfc6979_generate_loop sha256 hmac k v outlen =
        Option.bind (rfc6979_generate_loop sha256 h k v' (outlen - now)) (\<lambda>(u, rest). Some (u, take now v' @ rest))"
      using False by (subst rfc6979_generate_loop.simps) (simp only: Let_def h(1) prod.case i nat_int, simp)
    moreover have "take outlen (v' @ rfc6979_stream k v' ((outlen - now + 31) div 32)) =
        take now v' @ take (outlen - now) (rfc6979_stream k v' ((outlen - now + 31) div 32))"
      using False by (auto simp: v'_def now_def)
    ultimately show ?thesis by (simp add: blocks ih v'_def [symmetric])
  qed
qed

lemma rfc6979_generate_correct:
  assumes "stack_ready sha256 hmac" "length (rng_k rng) = 32" "length (rng_v rng) = 32" "outlen < 2 ^ 31"
  defines "kv \<equiv> (if rng_retry rng then rfc6979_reseed (rng_k rng, rng_v rng) else (rng_k rng, rng_v rng))"
  shows "secp256k1_rfc6979_hmac_sha256_generate sha256 hmac rng outlen =
    Some (\<lparr>rng_v = rfc6979_advance (fst kv) (snd kv) ((outlen + 31) div 32), rng_k = fst kv, rng_retry = True\<rparr>,
     take outlen (rfc6979_stream (fst kv) (snd kv) ((outlen + 31) div 32)))"
proof -
  obtain k v where kv: "kv = (k, v)" by fastforce
  have len: "length k = 32" "length v = 32"
    using kv assms(2,3) by (auto simp: kv_def rfc6979_reseed_def split: if_splits)
  define k1 where "k1 = fips_hmac (rng_k rng) (rng_v rng @ [0x00])"
  obtain h1 where h1: "secp256k1_hmac_sha256_finalize (secp256k1_hmac_sha256_write
      (secp256k1_hmac_sha256_write (secp256k1_hmac_sha256_initialize sha256 hmac (rng_k rng)) (rng_v rng)) [0x00]) = (h1, k1)" "stack_ready sha256 h1"
    using hmac_run [OF assms(1,2), of "[rng_v rng, [0x00]]"] assms(3) by (auto simp: k1_def)
  obtain h2 where h2: "secp256k1_hmac_sha256_finalize (secp256k1_hmac_sha256_write (secp256k1_hmac_sha256_initialize sha256 h1 k1) (rng_v rng)) =
      (h2, fips_hmac k1 (rng_v rng))"
    using hmac_run [OF h1(2), of k1 "[rng_v rng]"] assms(3) by (auto simp: k1_def)
  have "(if rng_retry rng then
      (let hmac = secp256k1_hmac_sha256_initialize sha256 hmac (rng_k rng);
           hmac = secp256k1_hmac_sha256_write hmac (rng_v rng);
           hmac = secp256k1_hmac_sha256_write hmac [0x00];
           (hmac, k) = secp256k1_hmac_sha256_finalize hmac;
           hmac = secp256k1_hmac_sha256_initialize sha256 hmac k;
           hmac = secp256k1_hmac_sha256_write hmac (rng_v rng);
           (hmac, v) = secp256k1_hmac_sha256_finalize hmac
       in (k, v)) else (rng_k rng, rng_v rng)) = (k, v)"
    unfolding kv [symmetric] kv_def Let_def h1(1) prod.case h2 by (simp add: rfc6979_reseed_def k1_def)
  then show ?thesis
    unfolding secp256k1_rfc6979_hmac_sha256_generate_def kv
    by (simp add: generate_loop_correct [OF assms(1) len assms(4)])
qed

end
