(* ===== verification/Api_Signature.thy ===== *)
theory Api_Signature
  imports Ecdsa_Der Group_Storage Hash_Hmac
begin

text \<open>
  The public interface for signatures: the part of \<open>src/Core/Nostr/Csecp256k1/secp256k1.c\<close> that stores, parses, prints
  and normalizes ECDSA signatures, the deterministic nonce function and tagged hashing. The conventions on pointers,
  results and the illegal-argument callback are those of \<open>Api_Keys\<close>.
\<close>

section \<open>Stored signatures\<close>

record secp256k1_ecdsa_signature =
  signature_data :: bytes

text \<open>A scalar is four 64-bit limbs, so the 32-byte branch of load and save is the one compiled: a copy of the limbs.\<close>

definition secp256k1_ecdsa_signature_load :: "secp256k1_ecdsa_signature \<Rightarrow> secp256k1_scalar \<times> secp256k1_scalar" where
  "secp256k1_ecdsa_signature_load sig =
    (let d = signature_data sig
     in (mk_sc (u64_mem d) (u64_mem (drop 8 d)) (u64_mem (drop 16 d)) (u64_mem (drop 24 d)),
         mk_sc (u64_mem (drop 32 d)) (u64_mem (drop 40 d)) (u64_mem (drop 48 d)) (u64_mem (drop 56 d))))"

definition secp256k1_ecdsa_signature_save :: "secp256k1_scalar \<Rightarrow> secp256k1_scalar \<Rightarrow> secp256k1_ecdsa_signature" where
  "secp256k1_ecdsa_signature_save r s = \<lparr>signature_data =
     mem_u64 (sc_d0 r) @ mem_u64 (sc_d1 r) @ mem_u64 (sc_d2 r) @ mem_u64 (sc_d3 r) @
     mem_u64 (sc_d0 s) @ mem_u64 (sc_d1 s) @ mem_u64 (sc_d2 s) @ mem_u64 (sc_d3 s)\<rparr>"

definition secp256k1_ecdsa_signature_parse_der ::
    "secp256k1_ecdsa_signature option \<Rightarrow> bytes option \<Rightarrow> secp256k1_ecdsa_signature option \<times> bool \<times> nat" where
  "secp256k1_ecdsa_signature_parse_der sig input =
    (case sig of None \<Rightarrow> (None, False, 1)
     | Some _ \<Rightarrow> (case input of None \<Rightarrow> (sig, False, 1)
       | Some input \<Rightarrow> (case secp256k1_ecdsa_sig_parse input of
           Some (r, s) \<Rightarrow> (Some (secp256k1_ecdsa_signature_save r s), True, 0)
         | None \<Rightarrow> (Some \<lparr>signature_data = replicate 64 0\<rparr>, False, 0))))"

definition secp256k1_ecdsa_signature_parse_compact ::
    "secp256k1_ecdsa_signature option \<Rightarrow> bytes option \<Rightarrow> secp256k1_ecdsa_signature option \<times> bool \<times> nat" where
  "secp256k1_ecdsa_signature_parse_compact sig input64 =
    (case sig of None \<Rightarrow> (None, False, 1)
     | Some _ \<Rightarrow> (case input64 of None \<Rightarrow> (sig, False, 1)
       | Some input64 \<Rightarrow>
         let ret = True;
             (r, overflow) = secp256k1_scalar_set_b32 (take 32 input64);
             ret = (ret \<and> \<not> overflow);
             (s, overflow) = secp256k1_scalar_set_b32 (take 32 (drop 32 input64));
             ret = (ret \<and> \<not> overflow)
         in if ret then (Some (secp256k1_ecdsa_signature_save r s), ret, 0)
            else (Some \<lparr>signature_data = replicate 64 0\<rparr>, ret, 0)))"

definition secp256k1_ecdsa_signature_serialize_der ::
    "bytes option \<Rightarrow> nat option \<Rightarrow> secp256k1_ecdsa_signature option \<Rightarrow> bytes option \<times> nat option \<times> bool \<times> nat" where
  "secp256k1_ecdsa_signature_serialize_der output outputlen sig =
    (case output of None \<Rightarrow> (None, outputlen, False, 1)
     | Some out \<Rightarrow> (case outputlen of None \<Rightarrow> (output, None, False, 1)
       | Some len \<Rightarrow> (case sig of None \<Rightarrow> (output, outputlen, False, 1)
         | Some sig \<Rightarrow>
           let (r, s) = secp256k1_ecdsa_signature_load sig;
               (out, len, ret) = secp256k1_ecdsa_sig_serialize out len r s
           in (Some out, Some len, ret, 0))))"

definition secp256k1_ecdsa_signature_serialize_compact ::
    "bytes option \<Rightarrow> secp256k1_ecdsa_signature option \<Rightarrow> bytes option \<times> bool \<times> nat" where
  "secp256k1_ecdsa_signature_serialize_compact output64 sig =
    (case output64 of None \<Rightarrow> (None, False, 1)
     | Some out \<Rightarrow> (case sig of None \<Rightarrow> (output64, False, 1)
       | Some sig \<Rightarrow>
         let (r, s) = secp256k1_ecdsa_signature_load sig;
             out = memcpy_at out 0 (secp256k1_scalar_get_b32 r);
             out = memcpy_at out 32 (secp256k1_scalar_get_b32 s)
         in (Some out, True, 0)))"

definition secp256k1_ecdsa_signature_normalize ::
    "secp256k1_ecdsa_signature option \<Rightarrow> secp256k1_ecdsa_signature option \<Rightarrow> secp256k1_ecdsa_signature option \<times> bool \<times> nat" where
  "secp256k1_ecdsa_signature_normalize sigout sigin =
    (case sigin of None \<Rightarrow> (sigout, False, 1)
     | Some sigin \<Rightarrow>
       let (r, s) = secp256k1_ecdsa_signature_load sigin;
           ret = secp256k1_scalar_is_high s
       in (map_option (\<lambda>_. let s = (if ret then secp256k1_scalar_negate s else s) in secp256k1_ecdsa_signature_save r s) sigout, ret, 0))"

section \<open>Nonces and tagged hashes\<close>

definition buffer_append :: "bytes \<Rightarrow> nat \<Rightarrow> bytes \<Rightarrow> bytes \<times> nat" where
  "buffer_append buf offset data = (memcpy_at buf offset data, offset + length data)"

text \<open>
  The loop variable and the counter have 32 bits, so the loop does not end for the largest counter; \<open>None\<close> is a call
  that does not return.
\<close>

partial_function (option) nonce_loop ::
    "secp256k1_sha256 \<Rightarrow> secp256k1_hmac_sha256 \<Rightarrow> secp256k1_rfc6979_hmac_sha256 \<Rightarrow> bytes \<Rightarrow> u32 \<Rightarrow> u32 \<Rightarrow> bytes option" where
  "nonce_loop sha256 hmac rng nonce32 i counter =
    (if i \<le> counter then
       case secp256k1_rfc6979_hmac_sha256_generate sha256 hmac rng 32 of None \<Rightarrow> None
       | Some (rng, nonce32) \<Rightarrow> nonce_loop sha256 hmac rng nonce32 (i + 1) counter
     else Some nonce32)"

definition nonce_function_rfc6979 ::
    "secp256k1_sha256 \<Rightarrow> secp256k1_hmac_sha256 \<Rightarrow> bytes \<Rightarrow> bytes \<Rightarrow> bytes \<Rightarrow> bytes \<Rightarrow> bytes option \<Rightarrow> bytes option \<Rightarrow> u32 \<Rightarrow> (bytes \<times> bool) option" where
  "nonce_function_rfc6979 sha256 hmac keydata nonce32 msg32 key32 algo16 data counter =
    (let (msg, _) = secp256k1_scalar_set_b32 msg32;
         msgmod32 = secp256k1_scalar_get_b32 msg;
         (keydata, offset) = buffer_append keydata 0 key32;
         (keydata, offset) = buffer_append keydata offset msgmod32;
         (keydata, offset) = (case data of None \<Rightarrow> (keydata, offset) | Some data \<Rightarrow> buffer_append keydata offset data);
         (keydata, offset) = (case algo16 of None \<Rightarrow> (keydata, offset) | Some algo16 \<Rightarrow> buffer_append keydata offset algo16);
         rng = secp256k1_rfc6979_hmac_sha256_initialize sha256 hmac (take offset keydata)
     in case nonce_loop sha256 hmac rng nonce32 0 counter of None \<Rightarrow> None
        | Some nonce32 \<Rightarrow> Some (nonce32, True))"

definition secp256k1_tagged_sha256 ::
    "secp256k1_sha256 \<Rightarrow> bytes option \<Rightarrow> bytes option \<Rightarrow> bytes option \<Rightarrow> bytes option \<times> bool \<times> nat" where
  "secp256k1_tagged_sha256 sha hash32 tag msg =
    (case hash32 of None \<Rightarrow> (None, False, 1)
     | Some _ \<Rightarrow> (case tag of None \<Rightarrow> (hash32, False, 1)
       | Some tag \<Rightarrow> (case msg of None \<Rightarrow> (hash32, False, 1)
         | Some msg \<Rightarrow>
           let sha = secp256k1_sha256_initialize_tagged sha tag;
               sha = secp256k1_sha256_write sha msg;
               (sha, out) = secp256k1_sha256_finalize sha
           in (Some out, True, 0))))"

section \<open>Round trips\<close>

lemma signature_load_save: "secp256k1_ecdsa_signature_load (secp256k1_ecdsa_signature_save r s) = (r, s)"
  by (simp add: secp256k1_ecdsa_signature_load_def secp256k1_ecdsa_signature_save_def Let_def u64_mem_u64 u64_mem_u64_drop)

lemma length_signature_save: "length (signature_data (secp256k1_ecdsa_signature_save r s)) = 64"
  by (simp add: secp256k1_ecdsa_signature_save_def)

lemma signature_save_inj: "secp256k1_ecdsa_signature_save r s = secp256k1_ecdsa_signature_save r' s' \<longleftrightarrow> r = r' \<and> s = s'"
  by (metis Pair_inject signature_load_save)

text \<open>A stored signature is well-formed when it stores two reduced scalars.\<close>

definition signature_ok :: "secp256k1_ecdsa_signature \<Rightarrow> bool" where
  "signature_ok sig \<longleftrightarrow> (\<exists>r s. secp256k1_scalar_verify r \<and> secp256k1_scalar_verify s \<and> sig = secp256k1_ecdsa_signature_save r s)"

lemma signature_parse_der_correct:
  assumes "secp256k1_ecdsa_signature_parse_der (Some sig0) (Some input) = (sig, ret, ill)"
  shows "ill = 0" "ret \<longleftrightarrow> secp256k1_ecdsa_sig_parse input \<noteq> None" "\<not> ret \<Longrightarrow> sig = Some \<lparr>signature_data = replicate 64 0\<rparr>"
    "ret \<Longrightarrow> \<exists>r s. secp256k1_ecdsa_sig_parse input = Some (r, s) \<and> sig = Some (secp256k1_ecdsa_signature_save r s) \<and>
       secp256k1_scalar_verify r \<and> secp256k1_scalar_verify s"
  using assms sig_parse_verify by (auto simp: secp256k1_ecdsa_signature_parse_der_def split: option.splits)

lemma signature_der_roundtrip:
  assumes v: "secp256k1_scalar_verify r" "secp256k1_scalar_verify s" and l: "len \<le> length buf" "72 \<le> len"
    and run: "secp256k1_ecdsa_signature_serialize_der (Some buf) (Some len) (Some (secp256k1_ecdsa_signature_save r s)) = (out, olen, ret, ill)"
  shows "ret \<and> ill = 0 \<and> (\<exists>o' n. out = Some o' \<and> olen = Some n \<and>
    secp256k1_ecdsa_signature_parse_der (Some sig0) (Some (take n o')) = (Some (secp256k1_ecdsa_signature_save r s), True, 0))"
proof -
  obtain out' len' ret' where s: "secp256k1_ecdsa_sig_serialize buf len r s = (out', len', ret')" by (cases "secp256k1_ecdsa_sig_serialize buf len r s")
  note c = sig_serialize_correct [OF s l(1)]
  have "ret'" using c(2,3) l(2) by simp
  then have "take len' out' = der_sig r s" using c(1,4) by simp
  then show ?thesis using run s \<open>ret'\<close> sig_parse_der_sig [OF v]
    by (auto simp: secp256k1_ecdsa_signature_serialize_der_def signature_load_save secp256k1_ecdsa_signature_parse_der_def)
qed

lemma signature_parse_compact_correct:
  assumes "length input = 64" "secp256k1_ecdsa_signature_parse_compact (Some sig0) (Some input) = (sig, ret, ill)"
  shows "ill = 0" "ret \<longleftrightarrow> be_val (take 32 input) < secp256k1_n \<and> be_val (drop 32 input) < secp256k1_n"
    "\<not> ret \<Longrightarrow> sig = Some \<lparr>signature_data = replicate 64 0\<rparr>"
    "ret \<Longrightarrow> \<exists>r s. sig = Some (secp256k1_ecdsa_signature_save r s) \<and> sc_val r = be_val (take 32 input) \<and> sc_val s = be_val (drop 32 input)"
proof -
  obtain r v where r: "secp256k1_scalar_set_b32 (take 32 input) = (r, v)" by fastforce
  obtain s w where s: "secp256k1_scalar_set_b32 (drop 32 input) = (s, w)" by fastforce
  have l: "length (take 32 input) = 32" "length (drop 32 input) = 32" "take 32 (drop 32 input) = drop 32 input" using assms(1) by simp_all
  have vr: "v \<longleftrightarrow> secp256k1_n \<le> be_val (take 32 input)" "sc_val r = be_val (take 32 input) mod secp256k1_n"
    using scalar_set_b32_correct [OF l(1)] r by simp_all
  have vs: "w \<longleftrightarrow> secp256k1_n \<le> be_val (drop 32 input)" "sc_val s = be_val (drop 32 input) mod secp256k1_n"
    using scalar_set_b32_correct [OF l(2)] s by simp_all
  have run: "(sig, ret, ill) = (if \<not> v \<and> \<not> w then (Some (secp256k1_ecdsa_signature_save r s), True, 0)
      else (Some \<lparr>signature_data = replicate 64 0\<rparr>, False, 0))"
    using assms(2) r s l(3) by (auto simp: secp256k1_ecdsa_signature_parse_compact_def Let_def split: if_splits)
  show "ill = 0" "ret \<longleftrightarrow> be_val (take 32 input) < secp256k1_n \<and> be_val (drop 32 input) < secp256k1_n"
    "\<not> ret \<Longrightarrow> sig = Some \<lparr>signature_data = replicate 64 0\<rparr>" using run vr vs by (auto split: if_splits)
  assume ret
  then show "\<exists>r s. sig = Some (secp256k1_ecdsa_signature_save r s) \<and> sc_val r = be_val (take 32 input) \<and> sc_val s = be_val (drop 32 input)"
    using run vr vs be_val_bounds [of "take 32 input"] be_val_bounds [of "drop 32 input"] by (auto split: if_splits)
qed

lemma signature_compact_roundtrip:
  assumes "secp256k1_scalar_verify r" "secp256k1_scalar_verify s" "length buf = 64"
    and "secp256k1_ecdsa_signature_serialize_compact (Some buf) (Some (secp256k1_ecdsa_signature_save r s)) = (out, ret, ill)"
  shows "ret \<and> ill = 0 \<and> out = Some (secp256k1_scalar_get_b32 r @ secp256k1_scalar_get_b32 s) \<and>
    secp256k1_ecdsa_signature_parse_compact (Some sig0) out = (Some (secp256k1_ecdsa_signature_save r s), True, 0)"
proof -
  have "out = Some (secp256k1_scalar_get_b32 r @ secp256k1_scalar_get_b32 s)" "ret" "ill = 0"
    using assms(3,4) by (auto simp: secp256k1_ecdsa_signature_serialize_compact_def signature_load_save memcpy_at_def scalar_get_b32_val)
  then show ?thesis using scalar_set_get_b32 [OF assms(1)] scalar_set_get_b32 [OF assms(2)]
    by (simp add: secp256k1_ecdsa_signature_parse_compact_def scalar_get_b32_val)
qed

text \<open>Normalization makes \<open>s\<close> the smaller of the two values that verify, and reports whether it changed it.\<close>

lemma signature_normalize_correct:
  assumes v: "secp256k1_scalar_verify r" "secp256k1_scalar_verify s"
    and run: "secp256k1_ecdsa_signature_normalize (Some sig0) (Some (secp256k1_ecdsa_signature_save r s)) = (out, ret, ill)"
  shows "ill = 0 \<and> (ret \<longleftrightarrow> secp256k1_n div 2 < sc_val s) \<and>
    (\<exists>s'. out = Some (secp256k1_ecdsa_signature_save r s') \<and> secp256k1_scalar_verify s' \<and> sc_val s' \<le> secp256k1_n div 2 \<and>
      sc_val s' = (if ret then secp256k1_n - sc_val s else sc_val s))"
proof -
  define s' where "s' = (if secp256k1_scalar_is_high s then secp256k1_scalar_negate s else s)"
  have e: "out = Some (secp256k1_ecdsa_signature_save r s')" "ret \<longleftrightarrow> secp256k1_scalar_is_high s" "ill = 0"
    using run by (auto simp: secp256k1_ecdsa_signature_normalize_def signature_load_save s'_def Let_def)
  have b: "0 \<le> sc_val s" "sc_val s < secp256k1_n" using v(2) sc_val_bounds [of s] by (simp_all add: scalar_verify_iff)
  have "sc_val (secp256k1_scalar_negate s) = secp256k1_n - sc_val s" if "secp256k1_n div 2 < sc_val s"
  proof -
    have "(- sc_val s) mod secp256k1_n = (secp256k1_n - sc_val s) mod secp256k1_n" by (simp add: mod_diff_left_eq [symmetric])
    also have "\<dots> = secp256k1_n - sc_val s" using that b by (intro mod_pos_pos_trivial) (simp_all add: secp256k1_n_def)
    finally show ?thesis using scalar_negate_correct [OF v(2)] by simp
  qed
  then have "sc_val s' = (if ret then secp256k1_n - sc_val s else sc_val s)" using e(2) by (simp add: s'_def is_high_iff)
  then show ?thesis using e b by (auto simp: is_high_iff scalar_verify_iff secp256k1_n_def)
qed

section \<open>The nonce function\<close>

text \<open>The candidates of RFC 6979, section 3.2 step h: a rejected candidate is followed by the update of step h.3.\<close>

fun rfc6979_candidate :: "bytes \<times> bytes \<Rightarrow> nat \<Rightarrow> bytes" where
  "rfc6979_candidate (K, V) 0 = fips_hmac K V"
| "rfc6979_candidate (K, V) (Suc i) = rfc6979_candidate (rfc6979_reseed (K, fips_hmac K V)) i"

lemma nonce_loop_correct:
  assumes "stack_ready sha256 hmac" "length (rng_k rng) = 32" "length (rng_v rng) = 32" "unat i + n = unat counter" "unat counter < 2 ^ 32 - 1"
  shows "nonce_loop sha256 hmac rng nonce i counter =
    Some (rfc6979_candidate (if rng_retry rng then rfc6979_reseed (rng_k rng, rng_v rng) else (rng_k rng, rng_v rng)) n)"
  using assms(2-4)
proof (induction n arbitrary: rng nonce i)
  case 0
  then have i: "i = counter" by (simp add: unat_arith_simps)
  have "\<not> counter + 1 \<le> counter" using assms(5) unfolding word_le_nat_alt by (simp add: unat_word_ariths)
  then show ?case unfolding i
    by (subst nonce_loop.simps, subst nonce_loop.simps)
      (use rfc6979_generate_correct [OF assms(1) 0(1,2), of 32] in \<open>auto simp: rfc6979_reseed_def\<close>)
next
  case (Suc n)
  define kv where "kv = (if rng_retry rng then rfc6979_reseed (rng_k rng, rng_v rng) else (rng_k rng, rng_v rng))"
  obtain k v where k: "kv = (k, v)" by fastforce
  have "length k = 32" using k Suc(2,3) by (auto simp: kv_def rfc6979_reseed_def split: if_splits)
  moreover have "i \<le> counter" "unat (i + 1) + n = unat counter" using Suc(4) assms(5) by unat_arith+
  ultimately show ?case
    using rfc6979_generate_correct [OF assms(1) Suc(2,3), of 32]
      Suc(1) [of "\<lparr>rng_v = fips_hmac k v, rng_k = k, rng_retry = True\<rparr>" "i + 1" "fips_hmac k v"]
    unfolding kv_def [symmetric] k by (subst nonce_loop.simps) simp
qed

text \<open>The loop condition \<open>i <= counter\<close> never fails for the largest counter.\<close>

lemma nonce_loop_max: "nonce_loop sha256 hmac rng nonce i (- 1) = None"
proof -
  have "counter \<noteq> - 1" if "nonce_loop sha256 hmac rng nonce i counter = Some r" for counter r
    by (rule nonce_loop.raw_induct [OF _ that, of "\<lambda>_ _ _ _ _ counter _. counter \<noteq> - 1"]) (fastforce split: if_splits option.splits prod.splits)
  then show ?thesis by (cases "nonce_loop sha256 hmac rng nonce i (- 1)") auto
qed

lemma nonce_function_correct:
  assumes "stack_ready sha256 hmac" "length keydata = 112" "length msg32 = 32" "length key32 = 32"
    "\<And>d. data = Some d \<Longrightarrow> length d = 32" "\<And>a. algo16 = Some a \<Longrightarrow> length a = 16" "length m = 32" "be_val m = be_val msg32 mod secp256k1_n"
  shows "nonce_function_rfc6979 sha256 hmac keydata nonce32 msg32 key32 algo16 data counter =
    (if counter = - 1 then None
     else Some (rfc6979_candidate (rfc6979_init (key32 @ m @ (case data of None \<Rightarrow> [] | Some d \<Rightarrow> d) @ (case algo16 of None \<Rightarrow> [] | Some a \<Rightarrow> a)))
       (unat counter), True))"
proof -
  let ?m = "secp256k1_scalar_get_b32 (fst (secp256k1_scalar_set_b32 msg32))"
  let ?seed = "key32 @ m @ (case data of None \<Rightarrow> [] | Some d \<Rightarrow> d) @ (case algo16 of None \<Rightarrow> [] | Some a \<Rightarrow> a)"
  let ?rng = "secp256k1_rfc6979_hmac_sha256_initialize sha256 hmac ?seed"
  have m: "?m = m" using scalar_set_b32_correct(1) [OF assms(3)] assms(7,8) by (intro be_val_inj) (simp_all add: scalar_get_b32_val)
  have l: "length ?seed < 2 ^ 59" using assms(4-7) by (auto split: option.splits)
  have f: "nonce_function_rfc6979 sha256 hmac keydata nonce32 msg32 key32 algo16 data counter =
      map_option (\<lambda>nonce32. (nonce32, True)) (nonce_loop sha256 hmac ?rng nonce32 0 counter)"
    using assms(2,4-7) unfolding nonce_function_rfc6979_def split_beta Let_def m
    by (cases data; cases algo16) (simp_all add: buffer_append_def memcpy_at_def split: option.split)
  have "unat counter < 2 ^ 32 - 1" if c: "counter \<noteq> - 1"
  proof -
    have "unat counter \<noteq> unat (- 1 :: u32)" using c by (simp only: word_unat_eq_iff not_False_eq_True)
    moreover have "unat counter < 2 ^ LENGTH(32)" by (rule unsigned_less)
    ultimately show ?thesis by (simp add: unsigned_minus_1_eq_mask mask_eq_exp_minus_1)
  qed
  then show ?thesis
    unfolding f rfc6979_initialize_correct [OF assms(1) l]
    by (cases "counter = - 1") (simp_all add: nonce_loop_max nonce_loop_correct [OF assms(1), of _ 0 "unat counter"] rfc6979_init_def Let_def)
qed

lemma tagged_sha256_correct:
  assumes "sha_ready sha" "length tag < 2 ^ 61" "length msg < 2 ^ 60"
  shows "secp256k1_tagged_sha256 sha (Some h) (Some tag) (Some msg) = (Some (fips_sha256 (fips_sha256 tag @ fips_sha256 tag @ msg)), True, 0)"
  using sha.fin_out [OF sha.inv_write [OF initialize_tagged_inv [OF assms(1,2)], of msg]] assms(3)
  by (simp add: secp256k1_tagged_sha256_def Let_def split_beta)

end
