(* ===== verification/Opus_Packet.thy ===== *)
theory Opus_Packet
  imports Bytes
begin

text \<open>
  The framing of Opus packets: \<open>src/Vendor/opus/src/opus.c\<close> (sizes, frame durations, the packet parser) and the packet
  queries of \<open>opus_decoder.c\<close>. The C \<open>int\<close>, \<open>opus_int32\<close> and \<open>opus_int16\<close> values are integers; the one narrowing cast that can lose
  bits is written out (\<open>int16_of\<close>). A packet is a byte string, the read pointer a position in it and \<open>len\<close> the number of
  bytes the code still believes in. Negative results are the constructors of \<open>opus_error\<close>.
\<close>

unbundle bit_operations_syntax

datatype opus_error = OPUS_BAD_ARG | OPUS_BUFFER_TOO_SMALL | OPUS_INTERNAL_ERROR | OPUS_INVALID_PACKET

definition int16_of :: "int \<Rightarrow> int" where
  "int16_of x = (x + 2 ^ 15) mod 2 ^ 16 - 2 ^ 15"

section \<open>Sizes and durations\<close>

definition encode_size :: "int \<Rightarrow> bytes" where
  "encode_size sz =
    (if sz < 252 then [word_of_int sz]
     else let d0 = 252 + sz mod 4 in [word_of_int d0, word_of_int ((sz - d0) div 4)])"

definition parse_size :: "bytes \<Rightarrow> nat \<Rightarrow> int \<Rightarrow> int \<times> int" where
  "parse_size data pos len =
    (if len < 1 then (-1, -1)
     else if data ! pos < 252 then (1, uint (data ! pos))
     else if len < 2 then (-1, -1)
     else (2, 4 * uint (data ! (pos + 1)) + uint (data ! pos)))"

definition opus_packet_get_samples_per_frame :: "u8 \<Rightarrow> int \<Rightarrow> int" where
  "opus_packet_get_samples_per_frame d0 Fs =
    (if d0 AND 0x80 \<noteq> 0 then
       let audiosize = unat (drop_bit 3 d0 AND 0x3) in push_bit audiosize Fs div 400
     else if d0 AND 0x60 = 0x60 then (if d0 AND 0x08 \<noteq> 0 then Fs div 50 else Fs div 100)
     else
       let audiosize = unat (drop_bit 3 d0 AND 0x3)
       in if audiosize = 3 then Fs * 60 div 1000 else push_bit audiosize Fs div 100)"

section \<open>The parser\<close>

function opus_pad_loop :: "bytes \<Rightarrow> nat \<Rightarrow> int \<Rightarrow> int \<Rightarrow> (nat \<times> int \<times> int) option" where
  "opus_pad_loop data pos len pad =
    (if len \<le> 0 then None
     else
       let p = uint (data ! pos); pos = pos + 1; len = len - 1;
           tmp = (if p = 255 then 254 else p);
           len = len - tmp; pad = pad + tmp
       in if p = 255 then opus_pad_loop data pos len pad else Some (pos, len, pad))"
  by pat_completeness auto
termination by (relation "measure (\<lambda>(_, _, len, _). nat len)") auto

fun opus_vbr_loop :: "bytes \<Rightarrow> nat \<Rightarrow> int \<Rightarrow> int \<Rightarrow> int list \<Rightarrow> nat \<Rightarrow> nat \<Rightarrow> (nat \<times> int \<times> int \<times> int list) option" where
  "opus_vbr_loop data pos len last_size sizes i 0 = Some (pos, len, last_size, sizes)"
| "opus_vbr_loop data pos len last_size sizes i (Suc n) =
    (let (bts, s) = parse_size data pos len; sizes = sizes[i := s]; len = len - bts
     in if s < 0 \<or> s > len then None
        else opus_vbr_loop data (pos + nat bts) len (last_size - (bts + s)) sizes (Suc i) n)"

text \<open>
  What the \<open>switch\<close> on the packet code computes: the read position, the bytes left, the size of the last frame, the
  number of frames, whether all frames have one size, the frame sizes and the amount of padding.
\<close>

record opus_header =
  hd_pos :: nat
  hd_len :: int
  hd_last_size :: int
  hd_count :: nat
  hd_cbr :: bool
  hd_sizes :: "int list"
  hd_pad :: int

text \<open>The last case, any number of frames; \<open>len\<close> and \<open>last_size\<close> are the bytes after the first one.\<close>

definition opus_packet_code3 :: "bytes \<Rightarrow> int \<Rightarrow> bool \<Rightarrow> int list \<Rightarrow> int \<Rightarrow> opus_header option" where
  "opus_packet_code3 data len self_delimited sizes framesize =
    (let last_size = len
     in if len < 1 then None
        else
          let ch = data ! 1; pos = 2; count = unat (ch AND 0x3F)
          in if count = 0 \<or> framesize * int count > 5760 then None
             else
               let len = len - 1
               in case (if ch AND 0x40 \<noteq> 0 then opus_pad_loop data pos len 0 else Some (pos, len, 0)) of None \<Rightarrow> None
                  | Some (pos, len, pad) \<Rightarrow>
                    if len < 0 then None
                    else
                      let cbr = (ch AND 0x80 = 0)
                      in if \<not> cbr then
                           (case opus_vbr_loop data pos len len sizes 0 (count - 1) of None \<Rightarrow> None
                            | Some (pos, len, last_size, sizes) \<Rightarrow>
                              if last_size < 0 then None
                              else Some \<lparr>hd_pos = pos, hd_len = len, hd_last_size = last_size, hd_count = count, hd_cbr = cbr,
                                     hd_sizes = sizes, hd_pad = pad\<rparr>)
                         else if \<not> self_delimited then
                           let last_size = len div int count
                           in if last_size * int count \<noteq> len then None
                              else Some \<lparr>hd_pos = pos, hd_len = len, hd_last_size = last_size, hd_count = count, hd_cbr = cbr,
                                     hd_sizes = replicate (count - 1) (int16_of last_size) @ drop (count - 1) sizes, hd_pad = pad\<rparr>
                         else Some \<lparr>hd_pos = pos, hd_len = len, hd_last_size = last_size, hd_count = count, hd_cbr = cbr,
                                hd_sizes = sizes, hd_pad = pad\<rparr>)"

definition opus_packet_code :: "bytes \<Rightarrow> int \<Rightarrow> bool \<Rightarrow> int list \<Rightarrow> opus_header option" where
  "opus_packet_code data len self_delimited sizes =
    (let framesize = opus_packet_get_samples_per_frame (data ! 0) 48000;
         toc = data ! 0; pos = 1; len = len - 1; last_size = len
     in if toc AND 0x3 = 0 then
          Some \<lparr>hd_pos = pos, hd_len = len, hd_last_size = last_size, hd_count = 1, hd_cbr = False, hd_sizes = sizes, hd_pad = 0\<rparr>
        else if toc AND 0x3 = 1 then
          if \<not> self_delimited then
            if len mod 2 = 1 then None
            else let last_size = len div 2
                 in Some \<lparr>hd_pos = pos, hd_len = len, hd_last_size = last_size, hd_count = 2, hd_cbr = True,
                      hd_sizes = sizes[0 := int16_of last_size], hd_pad = 0\<rparr>
          else Some \<lparr>hd_pos = pos, hd_len = len, hd_last_size = last_size, hd_count = 2, hd_cbr = True, hd_sizes = sizes, hd_pad = 0\<rparr>
        else if toc AND 0x3 = 2 then
          let (bts, s) = parse_size data pos len; len = len - bts
          in if s < 0 \<or> s > len then None
             else Some \<lparr>hd_pos = pos + nat bts, hd_len = len, hd_last_size = len - s, hd_count = 2, hd_cbr = False,
                    hd_sizes = sizes[0 := s], hd_pad = 0\<rparr>
        else opus_packet_code3 data len self_delimited sizes framesize)"

text \<open>The size of the last frame, which only self-delimited packets carry explicitly.\<close>

definition opus_packet_tail :: "bytes \<Rightarrow> bool \<Rightarrow> opus_header \<Rightarrow> (nat \<times> int list) option" where
  "opus_packet_tail data self_delimited h =
    (let pos = hd_pos h; len = hd_len h; last_size = hd_last_size h; count = hd_count h; cbr = hd_cbr h; sizes = hd_sizes h
     in if self_delimited then
          let (bts, s) = parse_size data pos len; sizes = sizes[count - 1 := s]; len = len - bts
          in if s < 0 \<or> s > len then None
             else let pos = pos + nat bts
                  in if cbr then
                       if s * int count > len then None
                       else Some (pos, replicate (count - 1) s @ drop (count - 1) sizes)
                     else if bts + s > last_size then None
                     else Some (pos, sizes)
        else if last_size > 1275 then None
        else Some (pos, sizes[count - 1 := int16_of last_size]))"

text \<open>The result of a successful parse; frames and padding are given by their offsets in the packet.\<close>

record opus_parsed =
  op_toc :: u8
  op_count :: nat
  op_frames :: "nat list"
  op_sizes :: "int list"
  op_payload_offset :: nat
  op_padding :: nat
  op_padding_len :: int
  op_packet_offset :: int

fun opus_frame_loop :: "nat \<Rightarrow> int list \<Rightarrow> nat \<Rightarrow> nat list \<times> nat" where
  "opus_frame_loop pos sizes 0 = ([], pos)"
| "opus_frame_loop pos sizes (Suc n) =
    (let (fs, p) = opus_frame_loop (pos + nat (hd sizes)) (tl sizes) n in (pos # fs, p))"

definition opus_packet_parse_impl :: "bytes \<Rightarrow> int \<Rightarrow> bool \<Rightarrow> int list option \<Rightarrow> opus_error + opus_parsed" where
  "opus_packet_parse_impl data len self_delimited sizes =
    (case sizes of None \<Rightarrow> Inl OPUS_BAD_ARG
     | Some sizes \<Rightarrow>
       if len < 0 then Inl OPUS_BAD_ARG
       else if len = 0 then Inl OPUS_INVALID_PACKET
       else case opus_packet_code data len self_delimited sizes of None \<Rightarrow> Inl OPUS_INVALID_PACKET
       | Some h \<Rightarrow>
         (case opus_packet_tail data self_delimited h of None \<Rightarrow> Inl OPUS_INVALID_PACKET
          | Some (pos, sizes) \<Rightarrow>
            let (frames, endp) = opus_frame_loop pos sizes (hd_count h)
            in Inr \<lparr>op_toc = data ! 0, op_count = hd_count h, op_frames = frames, op_sizes = sizes, op_payload_offset = pos,
                  op_padding = endp, op_padding_len = hd_pad h, op_packet_offset = hd_pad h + int endp\<rparr>))"

definition opus_packet_parse :: "bytes \<Rightarrow> int \<Rightarrow> int list option \<Rightarrow> opus_error + opus_parsed" where
  "opus_packet_parse data len sizes = opus_packet_parse_impl data len False sizes"

section \<open>Packet queries\<close>

datatype opus_mode = MODE_SILK_ONLY | MODE_HYBRID | MODE_CELT_ONLY

definition opus_packet_get_mode :: "bytes \<Rightarrow> opus_mode" where
  "opus_packet_get_mode data =
    (if data ! 0 AND 0x80 \<noteq> 0 then MODE_CELT_ONLY
     else if data ! 0 AND 0x60 = 0x60 then MODE_HYBRID
     else MODE_SILK_ONLY)"

definition opus_packet_get_bandwidth :: "bytes \<Rightarrow> int" where
  "opus_packet_get_bandwidth data =
    (if data ! 0 AND 0x80 \<noteq> 0 then
       let bandwidth = 1102 + uint (drop_bit 5 (data ! 0) AND 0x3) in if bandwidth = 1102 then 1101 else bandwidth
     else if data ! 0 AND 0x60 = 0x60 then (if data ! 0 AND 0x10 \<noteq> 0 then 1105 else 1104)
     else 1101 + uint (drop_bit 5 (data ! 0) AND 0x3))"

definition opus_packet_get_nb_channels :: "bytes \<Rightarrow> nat" where
  "opus_packet_get_nb_channels data = (if data ! 0 AND 0x4 \<noteq> 0 then 2 else 1)"

definition opus_packet_get_nb_frames :: "bytes \<Rightarrow> int \<Rightarrow> opus_error + nat" where
  "opus_packet_get_nb_frames packet len =
    (if len < 1 then Inl OPUS_BAD_ARG
     else
       let count = packet ! 0 AND 0x3
       in if count = 0 then Inr 1
          else if count \<noteq> 3 then Inr 2
          else if len < 2 then Inl OPUS_INVALID_PACKET
          else Inr (unat (packet ! 1 AND 0x3F)))"

definition opus_packet_get_nb_samples :: "bytes \<Rightarrow> int \<Rightarrow> int \<Rightarrow> opus_error + int" where
  "opus_packet_get_nb_samples packet len Fs =
    (case opus_packet_get_nb_frames packet len of Inl e \<Rightarrow> Inl e
     | Inr count \<Rightarrow>
       let samples = int count * opus_packet_get_samples_per_frame (packet ! 0) Fs
       in if samples * 25 > Fs * 3 then Inl OPUS_INVALID_PACKET else Inr samples)"

text \<open>
  The query for in-band error correction reads the first byte of the packet, before it looks at the length, and the first byte of the
  first frame. Both reads are checked here against the length of the packet: \<open>None\<close> is a read past its end. The local size array
  starts with indeterminate contents, given as \<open>sizes\<close>.
\<close>

definition opus_packet_has_lbrr :: "bytes \<Rightarrow> int list \<Rightarrow> int \<Rightarrow> (opus_error + bool) option" where
  "opus_packet_has_lbrr packet sizes len =
    (if len < 1 then None
     else if opus_packet_get_mode packet = MODE_CELT_ONLY then Some (Inr False)
     else
       let packet_frame_size = opus_packet_get_samples_per_frame (packet ! 0) 48000;
           nb_frames = (if packet_frame_size > 960 then nat (packet_frame_size div 960) else 1);
           packet_stream_channels = opus_packet_get_nb_channels packet
       in case opus_packet_parse packet len (Some sizes) of Inl e \<Rightarrow> Some (Inl e)
          | Inr r \<Rightarrow>
            let f0 = hd (op_frames r)
            in if int f0 \<ge> len then None
               else
                 let lbrr = (drop_bit (7 - nb_frames) (packet ! f0) AND 0x1 \<noteq> 0)
                 in Some (Inr (if packet_stream_channels = 2 then lbrr \<or> drop_bit (6 - 2 * nb_frames) (packet ! f0) AND 0x1 \<noteq> 0 else lbrr)))"

declare opus_pad_loop.simps [simp del]

section \<open>Sizes\<close>

lemma parse_size_cases:
  assumes "parse_size data pos len = (bts, s)"
  shows "(bts = -1 \<and> s = -1) \<or> (bts \<in> {1, 2} \<and> bts \<le> len \<and> 0 \<le> s \<and> s \<le> 1275)"
  using assms uint_bounded [of "data ! pos"] uint_bounded [of "data ! (pos + 1)"]
  by (auto simp: parse_size_def word_less_def split: if_splits)

lemma parse_encode_size:
  assumes "0 \<le> sz" "sz \<le> 1275" "int (length (encode_size sz)) \<le> len"
  shows "parse_size (pre @ encode_size sz @ rest) (length pre) len = (int (length (encode_size sz)), sz)"
proof (cases "sz < 252")
  case True
  then have "uint (word_of_int sz :: u8) = sz" using assms(1) by (simp add: uint_word_of_int)
  then show ?thesis using True assms by (simp add: encode_size_def parse_size_def word_less_def nth_append)
next
  case False
  define d0 where "d0 = 252 + sz mod 4"
  have "252 \<le> d0" "d0 \<le> 255" by (simp_all add: d0_def)
  then have d0: "252 \<le> d0" "d0 \<le> 255" "uint (word_of_int d0 :: u8) = d0" by (simp_all add: uint_word_of_int)
  have "(sz - d0) mod 4 = 0" unfolding d0_def by presburger
  then have q: "4 * ((sz - d0) div 4) = sz - d0" by presburger
  then have "uint (word_of_int ((sz - d0) div 4) :: u8) = (sz - d0) div 4" using False assms d0 by (simp add: uint_word_of_int)
  then show ?thesis using False assms d0 q
    by (simp add: encode_size_def parse_size_def word_less_def nth_append d0_def [symmetric] Let_def)
qed

lemma low_bits: "uint (x AND 0x3) = uint x mod 4" "uint (x AND 0x3F) = uint x mod 64" for x :: u8
proof -
  have m: "(0x3 :: u8) = mask 2" "(0x3F :: u8) = mask 6" by (simp_all add: mask_eq_exp_minus_1)
  show "uint (x AND 0x3) = uint x mod 4" "uint (x AND 0x3F) = uint x mod 64" unfolding m uint_and_mask by simp_all
qed

lemma two_bits: "unat (x AND 0x3) \<in> {0, 1, 2, 3}" for x :: u8
proof -
  have "nat (uint (x AND 0x3)) < 4" unfolding low_bits by (simp add: nat_less_iff)
  then have "unat (x AND 0x3) < 4" by (simp only: unat_eq_nat_uint)
  then show ?thesis by auto
qed

lemma samples_48000: "opus_packet_get_samples_per_frame d 48000 \<in> {120, 240, 480, 960, 1920, 2880}"
  using two_bits [of "drop_bit 3 d"] by (auto simp: opus_packet_get_samples_per_frame_def Let_def)

lemma samples_count: "opus_packet_get_samples_per_frame d 48000 * int c \<le> 5760 \<Longrightarrow> c \<le> 48"
  using samples_48000 [of d] by auto

section \<open>The header\<close>

definition vbr_sizes :: "int list \<Rightarrow> nat \<Rightarrow> bool" where
  "vbr_sizes sizes n \<longleftrightarrow> (\<forall>i<n. 0 \<le> sizes ! i \<and> sizes ! i \<le> 1275)"

lemma pad_loop_bounds:
  assumes "opus_pad_loop data pos len pad = Some (pos', len', pad')"
  shows "int pos' + len' + pad' = int pos + len + pad \<and> pos < pos' \<and> pad \<le> pad'"
  using assms
proof (induction data pos len pad rule: opus_pad_loop.induct)
  case (1 data pos len pad)
  have l: "0 < len" using 1(2) by (subst (asm) opus_pad_loop.simps) (simp split: if_splits)
  show ?case
  proof (cases "uint (data ! pos) = 255")
    case True
    then have "opus_pad_loop data (pos + 1) (len - 1 - 254) (pad + 254) = Some (pos', len', pad')"
      using 1(2) l by (subst (asm) opus_pad_loop.simps) (simp add: Let_def)
    with 1(1) [OF _ refl refl refl refl refl refl True] l True show ?thesis by simp
  next
    case False
    then show ?thesis using 1(2) l uint_ge_0 [of "data ! pos"] by (subst (asm) opus_pad_loop.simps) (auto simp: Let_def)
  qed
qed

lemma vbr_loop_bounds:
  assumes "opus_vbr_loop data pos len lsz sizes i n = Some (pos', len', lsz', sizes')" "0 \<le> len"
    "i + n \<le> length sizes" "vbr_sizes sizes i" "sum_list (take i sizes) + lsz = len"
  shows "int pos' + len' = int pos + len \<and> pos \<le> pos' \<and> 0 \<le> len' \<and> length sizes' = length sizes \<and> vbr_sizes sizes' (i + n) \<and>
    sum_list (take (i + n) sizes') + lsz' = len'"
  using assms
proof (induction n arbitrary: pos len lsz sizes i)
  case (Suc n)
  obtain bts s where p: "parse_size data pos len = (bts, s)" by fastforce
  have g: "0 \<le> s" "s \<le> len - bts" and r: "opus_vbr_loop data (pos + nat bts) (len - bts) (lsz - (bts + s)) (sizes[i := s]) (Suc i) n =
      Some (pos', len', lsz', sizes')" using Suc(2) p by (auto simp: Let_def split: if_splits)
  then have b: "bts \<in> {1, 2}" "s \<le> 1275" using parse_size_cases [OF p] by auto
  have i: "i < length sizes" using Suc(4) by simp
  have "vbr_sizes (sizes[i := s]) (Suc i)" using Suc(5) g b(2) i by (auto simp: vbr_sizes_def nth_list_update less_Suc_eq)
  moreover have "sum_list (take (Suc i) (sizes[i := s])) + (lsz - (bts + s)) = len - bts"
    using Suc(6) i by (simp add: take_Suc_conv_app_nth)
  ultimately show ?case using Suc(1) [OF r] g b Suc(4) by auto
qed simp

definition header_ok :: "bytes \<Rightarrow> int \<Rightarrow> bool \<Rightarrow> nat \<Rightarrow> opus_header \<Rightarrow> bool" where
  "header_ok data len sd n h \<longleftrightarrow> 1 \<le> hd_pos h \<and> 0 \<le> hd_len h \<and> 0 \<le> hd_pad h \<and> int (hd_pos h) + hd_len h + hd_pad h = len \<and>
     1 \<le> hd_count h \<and> hd_count h \<le> 48 \<and> opus_packet_get_samples_per_frame (data ! 0) 48000 * int (hd_count h) \<le> 5760 \<and>
     length (hd_sizes h) = n \<and>
     (\<not> hd_cbr h \<longrightarrow> vbr_sizes (hd_sizes h) (hd_count h - 1) \<and> 0 \<le> hd_last_size h \<and>
        sum_list (take (hd_count h - 1) (hd_sizes h)) + hd_last_size h = hd_len h) \<and>
     (hd_cbr h \<and> \<not> sd \<longrightarrow> 0 \<le> hd_last_size h \<and> hd_last_size h * int (hd_count h) = hd_len h \<and>
        (\<forall>i<hd_count h - 1. hd_sizes h ! i = int16_of (hd_last_size h)))"

lemma count_64: "unat (x AND 0x3F) < 64" for x :: u8
proof -
  have "nat (uint (x AND 0x3F)) < 64" unfolding low_bits by (simp add: nat_less_iff)
  then show ?thesis by (simp only: unat_eq_nat_uint)
qed

lemma packet_code3_steps:
  assumes "opus_packet_code3 data len sd sizes fs = Some h"
  obtains pos len1 pad count where "1 \<le> len" "count = unat (data ! 1 AND 0x3F)" "0 < count" "fs * int count \<le> 5760" "0 \<le> len1"
    "pos = 2 \<and> len1 = len - 1 \<and> pad = 0 \<or> opus_pad_loop data 2 (len - 1) 0 = Some (pos, len1, pad)"
    "(\<exists>pos' len' last sizes'. \<not> hd_cbr h \<and> opus_vbr_loop data pos len1 len1 sizes 0 (count - 1) = Some (pos', len', last, sizes') \<and> 0 \<le> last \<and>
        h = \<lparr>hd_pos = pos', hd_len = len', hd_last_size = last, hd_count = count, hd_cbr = False, hd_sizes = sizes', hd_pad = pad\<rparr>) \<or>
     (sd \<and> h = \<lparr>hd_pos = pos, hd_len = len1, hd_last_size = len, hd_count = count, hd_cbr = True, hd_sizes = sizes, hd_pad = pad\<rparr>) \<or>
     (\<not> sd \<and> len1 div int count * int count = len1 \<and>
        h = \<lparr>hd_pos = pos, hd_len = len1, hd_last_size = len1 div int count, hd_count = count, hd_cbr = True,
             hd_sizes = replicate (count - 1) (int16_of (len1 div int count)) @ drop (count - 1) sizes, hd_pad = pad\<rparr>)"
proof -
  define c where "c = unat (data ! 1 AND 0x3F)"
  note run = assms [unfolded opus_packet_code3_def Let_def, folded c_def]
  have g: "1 \<le> len" "0 < c" "fs * int c \<le> 5760" using run by (auto split: if_splits)
  obtain pos len1 pad where p: "(if data ! 1 AND 0x40 \<noteq> 0 then opus_pad_loop data 2 (len - 1) 0 else Some (2, len - 1, 0)) = Some (pos, len1, pad)" "0 \<le> len1"
    using run g by (auto split: option.splits if_splits)
  have "pos = 2 \<and> len1 = len - 1 \<and> pad = 0 \<or> opus_pad_loop data 2 (len - 1) 0 = Some (pos, len1, pad)" using p(1) by (auto split: if_splits)
  note t = that [OF g(1) c_def g(2,3) p(2) this]
  show thesis
  proof (cases "data ! 1 AND 0x80 = 0")
    case True
    have r: "(if \<not> sd then if len1 div int c * int c \<noteq> len1 then None
        else Some \<lparr>hd_pos = pos, hd_len = len1, hd_last_size = len1 div int c, hd_count = c, hd_cbr = True,
               hd_sizes = replicate (c - 1) (int16_of (len1 div int c)) @ drop (c - 1) sizes, hd_pad = pad\<rparr>
      else Some \<lparr>hd_pos = pos, hd_len = len1, hd_last_size = len, hd_count = c, hd_cbr = True, hd_sizes = sizes, hd_pad = pad\<rparr>) = Some h"
      using run g p(2) unfolding p(1) True by (cases sd) (simp_all split: if_splits)
    show thesis by (rule t) (use r in \<open>auto split: if_splits\<close>)
  next
    case False
    have r: "(case opus_vbr_loop data pos len1 len1 sizes 0 (c - 1) of None \<Rightarrow> None
      | Some (pos, len, last_size, sizes) \<Rightarrow> if last_size < 0 then None
        else Some \<lparr>hd_pos = pos, hd_len = len, hd_last_size = last_size, hd_count = c, hd_cbr = False, hd_sizes = sizes, hd_pad = pad\<rparr>) = Some h"
      using run g p(2) unfolding p(1) by (simp del: One_nat_def add: False split: option.splits prod.splits if_splits)
    show thesis by (rule t) (use r in \<open>auto split: if_splits option.splits\<close>)
  qed
qed

lemma packet_code3_ok:
  assumes "opus_packet_code3 data (len - 1) sd sizes (opus_packet_get_samples_per_frame (data ! 0) 48000) = Some h" "hd_count h \<le> length sizes"
  shows "header_ok data len sd (length sizes) h"
proof -
  obtain pos len1 pad count where g: "1 \<le> len - 1" "count = unat (data ! 1 AND 0x3F)" "0 < count"
      "opus_packet_get_samples_per_frame (data ! 0) 48000 * int count \<le> 5760" "0 \<le> len1"
    and p: "pos = 2 \<and> len1 = len - 1 - 1 \<and> pad = 0 \<or> opus_pad_loop data 2 (len - 1 - 1) 0 = Some (pos, len1, pad)"
    and c: "(\<exists>pos' len' last sizes'. \<not> hd_cbr h \<and> opus_vbr_loop data pos len1 len1 sizes 0 (count - 1) = Some (pos', len', last, sizes') \<and> 0 \<le> last \<and>
        h = \<lparr>hd_pos = pos', hd_len = len', hd_last_size = last, hd_count = count, hd_cbr = False, hd_sizes = sizes', hd_pad = pad\<rparr>) \<or>
     (sd \<and> h = \<lparr>hd_pos = pos, hd_len = len1, hd_last_size = len - 1, hd_count = count, hd_cbr = True, hd_sizes = sizes, hd_pad = pad\<rparr>) \<or>
     (\<not> sd \<and> len1 div int count * int count = len1 \<and>
        h = \<lparr>hd_pos = pos, hd_len = len1, hd_last_size = len1 div int count, hd_count = count, hd_cbr = True,
             hd_sizes = replicate (count - 1) (int16_of (len1 div int count)) @ drop (count - 1) sizes, hd_pad = pad\<rparr>)"
    by (rule packet_code3_steps [OF assms(1)])
  have pb: "int pos + len1 + pad = len" "2 \<le> pos" "0 \<le> pad" using p pad_loop_bounds [of data 2 "len - 1 - 1" 0 pos len1 pad] by auto
  have c48: "count \<le> 48" using samples_count g(4) by blast
  from c show ?thesis
  proof (elim disjE exE conjE)
    fix pos' len' last sizes'
    assume v: "opus_vbr_loop data pos len1 len1 sizes 0 (count - 1) = Some (pos', len', last, sizes')" "0 \<le> last"
      and h: "h = \<lparr>hd_pos = pos', hd_len = len', hd_last_size = last, hd_count = count, hd_cbr = False, hd_sizes = sizes', hd_pad = pad\<rparr>"
    have "int pos' + len' = int pos + len1 \<and> pos \<le> pos' \<and> 0 \<le> len' \<and> length sizes' = length sizes \<and> vbr_sizes sizes' (0 + (count - 1)) \<and>
        sum_list (take (0 + (count - 1)) sizes') + last = len'"
      by (rule vbr_loop_bounds [OF v(1) g(5)]) (use c48 assms(2) h in \<open>auto simp: vbr_sizes_def\<close>)
    then show ?thesis unfolding header_ok_def h using pb g(3,4) c48 v(2) assms(2) by simp
  next
    assume "sd" "h = \<lparr>hd_pos = pos, hd_len = len1, hd_last_size = len - 1, hd_count = count, hd_cbr = True, hd_sizes = sizes, hd_pad = pad\<rparr>"
    then show ?thesis unfolding header_ok_def using pb g(3-5) c48 assms(2) by simp
  next
    assume "\<not> sd" "len1 div int count * int count = len1"
      and h: "h = \<lparr>hd_pos = pos, hd_len = len1, hd_last_size = len1 div int count, hd_count = count, hd_cbr = True,
             hd_sizes = replicate (count - 1) (int16_of (len1 div int count)) @ drop (count - 1) sizes, hd_pad = pad\<rparr>"
    then show ?thesis unfolding header_ok_def h using pb g(3-5) c48 assms(2) [unfolded h] by (simp add: nth_append pos_imp_zdiv_nonneg_iff)
  qed
qed

lemma packet_code_ok:
  assumes "opus_packet_code data len sd sizes = Some h" "hd_count h \<le> length sizes" "1 \<le> len"
  shows "header_ok data len sd (length sizes) h"
proof -
  have s: "opus_packet_get_samples_per_frame (data ! 0) 48000 \<le> 2880" using samples_48000 [of "data ! 0"] by auto
  consider "data ! 0 AND 0x3 = 0" | "data ! 0 AND 0x3 = 1" | "data ! 0 AND 0x3 = 2"
    | "data ! 0 AND 0x3 \<noteq> 0" "data ! 0 AND 0x3 \<noteq> 1" "data ! 0 AND 0x3 \<noteq> 2" by blast
  then show ?thesis
  proof cases
    case 1
    then show ?thesis using assms s by (auto simp: opus_packet_code_def header_ok_def vbr_sizes_def Let_def)
  next
    case 2
    then have "hd_count h = 2" using assms(1) by (auto simp: opus_packet_code_def Let_def split: if_splits)
    then have "sizes \<noteq> []" using assms(2) by auto
    then show ?thesis using assms s 2
      by (auto simp: opus_packet_code_def header_ok_def Let_def nth_list_update split: if_splits)
  next
    case 3
    obtain bts z where p: "parse_size data 1 (len - 1) = (bts, z)" by fastforce
    have "hd_count h = 2" using assms(1) 3 p by (auto simp: opus_packet_code_def Let_def split: if_splits)
    then obtain a sz where z: "sizes = a # sz" using assms(2) by (cases sizes) auto
    show ?thesis using assms s 3 p parse_size_cases [OF p] unfolding z
      by (auto simp: opus_packet_code_def header_ok_def vbr_sizes_def Let_def take_Suc_conv_app_nth split: if_splits)
  next
    case 4
    then have "opus_packet_code3 data (len - 1) sd sizes (opus_packet_get_samples_per_frame (data ! 0) 48000) = Some h"
      using assms(1) by (simp add: opus_packet_code_def Let_def)
    then show ?thesis using assms(2) by (rule packet_code3_ok)
  qed
qed

section \<open>The frames\<close>

lemma sum_take_mono: "vbr_sizes sizes n \<Longrightarrow> n \<le> length sizes \<Longrightarrow> i \<le> n \<Longrightarrow> 0 \<le> sum_list (take i sizes)"
  by (rule sum_list_nonneg) (auto simp: vbr_sizes_def in_set_conv_nth)

lemma frame_loop_offsets:
  assumes "vbr_sizes sizes n" "n \<le> length sizes"
  shows "opus_frame_loop pos sizes n =
    (map (\<lambda>i. pos + nat (sum_list (take i sizes))) [0..<n], pos + nat (sum_list (take n sizes)))"
  using assms
proof (induction n arbitrary: pos sizes)
  case (Suc n)
  then obtain s sz where z: "sizes = s # sz" by (cases sizes) auto
  have s: "0 \<le> s" and v: "vbr_sizes sz n" using Suc(2) unfolding z vbr_sizes_def by force+
  have n: "n \<le> length sz" using Suc(3) z by simp
  have *: "pos + nat s + nat (sum_list (take i sz)) = pos + nat (s + sum_list (take i sz))" if "i \<le> n" for i
    using sum_take_mono [OF v n that] s by (simp add: nat_add_distrib)
  have "map (\<lambda>i. pos + nat (sum_list (take i sizes))) [0..<Suc n] = pos # map (\<lambda>i. pos + nat (sum_list (take (Suc i) sizes))) [0..<n]"
    by (simp only: map_upt_Suc) simp
  then show ?case using * by (simp add: z Suc.IH [OF v n] del: upt_Suc)
qed simp

text \<open>What a parsed packet promises: the frames are consecutive blocks of the packet, the padding follows them.\<close>

definition parsed_ok :: "bytes \<Rightarrow> int \<Rightarrow> bool \<Rightarrow> opus_parsed \<Rightarrow> bool" where
  "parsed_ok data len sd r \<longleftrightarrow>
     op_toc r = data ! 0 \<and> 1 \<le> op_count r \<and> op_count r \<le> 48 \<and>
     opus_packet_get_samples_per_frame (data ! 0) 48000 * int (op_count r) \<le> 5760 \<and>
     (\<forall>i<op_count r. 0 \<le> op_sizes r ! i \<and> op_sizes r ! i \<le> 1275) \<and>
     1 \<le> op_payload_offset r \<and>
     op_frames r = map (\<lambda>i. op_payload_offset r + nat (sum_list (take i (op_sizes r)))) [0..<op_count r] \<and>
     op_padding r = op_payload_offset r + nat (sum_list (take (op_count r) (op_sizes r))) \<and>
     0 \<le> op_padding_len r \<and> op_packet_offset r = int (op_padding r) + op_padding_len r \<and>
     op_packet_offset r \<le> len \<and> (\<not> sd \<longrightarrow> op_packet_offset r = len)"

lemma int16_of_small: "0 \<le> x \<Longrightarrow> x \<le> 1275 \<Longrightarrow> int16_of x = x"
  by (simp add: int16_of_def)

lemma vbr_sizes_last:
  assumes "vbr_sizes sizes (n - 1)" "1 \<le> n" "n \<le> length sizes" "0 \<le> s" "s \<le> 1275"
  shows "vbr_sizes (sizes[n - 1 := s]) n \<and> sum_list (take n (sizes[n - 1 := s])) = sum_list (take (n - 1) sizes) + s"
proof -
  obtain k where n: "n = Suc k" using assms(2) by (cases n) auto
  show ?thesis using assms by (auto simp: n vbr_sizes_def nth_list_update less_Suc_eq take_Suc_conv_app_nth)
qed

lemma vbr_sizes_replicate:
  assumes "1 \<le> n" "n \<le> length sizes" "0 \<le> s" "s \<le> 1275"
  shows "vbr_sizes (replicate (n - 1) s @ drop (n - 1) (sizes[n - 1 := s])) n \<and>
    sum_list (take n (replicate (n - 1) s @ drop (n - 1) (sizes[n - 1 := s]))) = s * int n"
proof -
  have "take n (replicate (n - 1) s @ drop (n - 1) (sizes[n - 1 := s])) = replicate n s"
    using assms by (intro nth_equalityI) (auto simp: nth_append nth_list_update)
  moreover from this have "(replicate (n - 1) s @ drop (n - 1) (sizes[n - 1 := s])) ! i = s" if "i < n" for i
    using that by (metis nth_replicate nth_take)
  ultimately show ?thesis using assms by (simp add: vbr_sizes_def sum_list_replicate mult.commute)
qed

lemma parse_tail_ok:
  assumes h: "header_ok data len sd n h" and n: "hd_count h \<le> n" and t: "opus_packet_tail data sd h = Some (pos, sizes)"
  shows "vbr_sizes sizes (hd_count h) \<and> length sizes = n \<and> 1 \<le> pos \<and>
    int pos + sum_list (take (hd_count h) sizes) + hd_pad h \<le> len \<and>
    (\<not> sd \<longrightarrow> int pos + sum_list (take (hd_count h) sizes) + hd_pad h = len)"
proof (cases sd)
  case True
  obtain bts s where p: "parse_size data (hd_pos h) (hd_len h) = (bts, s)" by fastforce
  have g: "0 \<le> s" "s \<le> hd_len h - bts" "pos = hd_pos h + nat bts"
    using t p True by (auto simp: opus_packet_tail_def Let_def split: if_splits)
  then have b: "bts \<in> {1, 2}" "s \<le> 1275" using parse_size_cases [OF p] by auto
  show ?thesis
  proof (cases "hd_cbr h")
    case cbr: True
    then have "s * int (hd_count h) \<le> hd_len h - bts"
        "sizes = replicate (hd_count h - 1) s @ drop (hd_count h - 1) ((hd_sizes h)[hd_count h - 1 := s])"
      using t p True by (auto simp: opus_packet_tail_def Let_def split: if_splits)
    then show ?thesis using h n g b vbr_sizes_replicate [of "hd_count h" "hd_sizes h" s] True unfolding header_ok_def by auto
  next
    case vbr: False
    then have "bts + s \<le> hd_last_size h" "sizes = (hd_sizes h)[hd_count h - 1 := s]"
      using t p True by (auto simp: opus_packet_tail_def Let_def split: if_splits)
    then show ?thesis using h n g b vbr vbr_sizes_last [of "hd_sizes h" "hd_count h" s] True unfolding header_ok_def by auto
  qed
next
  case False
  let ?l = "hd_last_size h"
  have l: "?l \<le> 1275" "pos = hd_pos h" "sizes = (hd_sizes h)[hd_count h - 1 := int16_of ?l]"
    using t False by (auto simp: opus_packet_tail_def Let_def split: if_splits)
  have l0: "0 \<le> ?l" using h False by (cases "hd_cbr h") (auto simp: header_ok_def)
  note i = int16_of_small [OF l0 l(1)]
  show ?thesis
  proof (cases "hd_cbr h")
    case cbr: True
    have c: "1 \<le> hd_count h" "hd_count h \<le> length (hd_sizes h)" and e: "\<And>i. i < hd_count h - 1 \<Longrightarrow> hd_sizes h ! i = ?l"
      using h n cbr False i unfolding header_ok_def by auto
    have v: "vbr_sizes (hd_sizes h) (hd_count h - 1)" using e l0 l(1) by (simp add: vbr_sizes_def)
    have "take (hd_count h - 1) (hd_sizes h) = replicate (hd_count h - 1) ?l" using c e by (intro nth_equalityI) auto
    then have "sum_list (take (hd_count h - 1) (hd_sizes h)) + ?l = ?l * int (hd_count h)"
      using c(1) by (simp add: sum_list_replicate of_nat_diff algebra_simps)
    then show ?thesis using vbr_sizes_last [OF v c l0 l(1)] h n cbr False unfolding l(2,3) i header_ok_def by auto
  next
    case vbr: False
    then show ?thesis using vbr_sizes_last [of "hd_sizes h" "hd_count h" ?l] l0 l(1) h n False unfolding l(2,3) i header_ok_def by auto
  qed
qed

lemma parse_impl_steps:
  assumes "opus_packet_parse_impl data len sd (Some sizes) = Inr r"
  obtains h pos sz where "1 \<le> len" "opus_packet_code data len sd sizes = Some h" "opus_packet_tail data sd h = Some (pos, sz)"
    "r = \<lparr>op_toc = data ! 0, op_count = hd_count h, op_frames = fst (opus_frame_loop pos sz (hd_count h)), op_sizes = sz, op_payload_offset = pos,
         op_padding = snd (opus_frame_loop pos sz (hd_count h)), op_padding_len = hd_pad h,
         op_packet_offset = hd_pad h + int (snd (opus_frame_loop pos sz (hd_count h)))\<rparr>"
  using assms unfolding opus_packet_parse_impl_def Let_def
  by (auto split: if_splits option.splits prod.splits)

lemma parse_impl_ok:
  assumes "opus_packet_parse_impl data len sd (Some sizes) = Inr r" "op_count r \<le> length sizes"
  shows "parsed_ok data len sd r \<and> length (op_sizes r) = length sizes"
proof -
  obtain h pos sz where l: "1 \<le> len" and c: "opus_packet_code data len sd sizes = Some h" and t: "opus_packet_tail data sd h = Some (pos, sz)"
    and r: "r = \<lparr>op_toc = data ! 0, op_count = hd_count h, op_frames = fst (opus_frame_loop pos sz (hd_count h)), op_sizes = sz, op_payload_offset = pos,
         op_padding = snd (opus_frame_loop pos sz (hd_count h)), op_padding_len = hd_pad h,
         op_packet_offset = hd_pad h + int (snd (opus_frame_loop pos sz (hd_count h)))\<rparr>"
    by (rule parse_impl_steps [OF assms(1)])
  have n: "hd_count h \<le> length sizes" using assms(2) r by simp
  note h = packet_code_ok [OF c n l]
  note k = parse_tail_ok [OF h n t]
  have f: "opus_frame_loop pos sz (hd_count h) =
      (map (\<lambda>i. pos + nat (sum_list (take i sz))) [0..<hd_count h], pos + nat (sum_list (take (hd_count h) sz)))"
    using k n by (intro frame_loop_offsets) auto
  have "0 \<le> sum_list (take (hd_count h) sz)" using sum_take_mono k n by auto
  then show ?thesis using k h unfolding parsed_ok_def r f header_ok_def vbr_sizes_def by auto
qed

section \<open>Only the given bytes are read\<close>

lemma parse_size_inside: "int pos + len \<le> int (length xs) \<Longrightarrow> parse_size (xs @ ys) pos len = parse_size xs pos len"
  by (auto simp: parse_size_def nth_append)

lemma pad_loop_inside:
  "int pos + len \<le> int (length xs) \<Longrightarrow> opus_pad_loop (xs @ ys) pos len pad = opus_pad_loop xs pos len pad"
proof (induction xs pos len pad rule: opus_pad_loop.induct)
  case (1 xs pos len pad)
  show ?case
  proof (cases "len \<le> 0")
    case False
    then have e: "(xs @ ys) ! pos = xs ! pos" using 1(2) by (simp add: nth_append)
    have "opus_pad_loop (xs @ ys) (pos + 1) (len - 1 - 254) (pad + 254) = opus_pad_loop xs (pos + 1) (len - 1 - 254) (pad + 254)"
      if p: "uint (xs ! pos) = 255" using 1(1) [OF False refl refl refl refl refl refl p] p 1(2) by simp
    then show ?thesis using False e by (simp add: opus_pad_loop.simps [of _ pos len] Let_def)
  qed (simp add: opus_pad_loop.simps)
qed

lemma vbr_loop_inside:
  "int pos + len \<le> int (length xs) \<Longrightarrow> opus_vbr_loop (xs @ ys) pos len lsz sizes i n = opus_vbr_loop xs pos len lsz sizes i n"
proof (induction n arbitrary: pos len lsz sizes i)
  case (Suc n)
  obtain bts s where p: "parse_size xs pos len = (bts, s)" by fastforce
  have "s < 0 \<or> int (pos + nat bts) + (len - bts) \<le> int (length xs)" using parse_size_cases [OF p] Suc(2) by auto
  then show ?case using Suc p by (auto simp: parse_size_inside Let_def)
qed simp

lemma packet_code3_inside:
  assumes "1 + len \<le> int (length xs)"
  shows "opus_packet_code3 (xs @ ys) len sd sizes fs = opus_packet_code3 xs len sd sizes fs"
proof (cases "len < 1")
  case False
  then have e: "(xs @ ys) ! 1 = xs ! 1" using assms by (simp add: nth_append)
  have l: "opus_pad_loop (xs @ ys) 2 (len - 1) 0 = opus_pad_loop xs 2 (len - 1) 0" using assms by (intro pad_loop_inside) simp
  have v: "opus_vbr_loop (xs @ ys) pos len' len' sizes 0 n = opus_vbr_loop xs pos len' len' sizes 0 n"
    if "opus_pad_loop xs 2 (len - 1) 0 = Some (pos, len', pad)" for pos len' pad n
    using pad_loop_bounds [OF that] assms by (intro vbr_loop_inside) simp
  have v': "opus_vbr_loop (xs @ ys) 2 (len - 1) (len - 1) sizes 0 n = opus_vbr_loop xs 2 (len - 1) (len - 1) sizes 0 n" for n
    using assms by (intro vbr_loop_inside) simp
  show ?thesis unfolding opus_packet_code3_def Let_def e l
    by (cases "opus_pad_loop xs 2 (len - 1) 0") (auto simp: v v')
qed (simp add: opus_packet_code3_def)

lemma packet_code_inside:
  assumes "1 \<le> len" "len \<le> int (length xs)"
  shows "opus_packet_code (xs @ ys) len sd sizes = opus_packet_code xs len sd sizes"
proof -
  have e: "(xs @ ys) ! 0 = xs ! 0" using assms by (cases xs) auto
  have p: "parse_size (xs @ ys) 1 (len - 1) = parse_size xs 1 (len - 1)" using assms by (intro parse_size_inside) simp
  have c: "opus_packet_code3 (xs @ ys) (len - 1) sd sizes fs = opus_packet_code3 xs (len - 1) sd sizes fs" for fs
    using assms by (intro packet_code3_inside) simp
  show ?thesis unfolding opus_packet_code_def Let_def e p c ..
qed

lemma vbr_loop_pos:
  "opus_vbr_loop data pos len lsz sizes i n = Some (pos', len', lsz', sizes') \<Longrightarrow> int pos' + len' = int pos + len"
proof (induction n arbitrary: pos len lsz sizes i)
  case (Suc n)
  obtain bts s where p: "parse_size data pos len = (bts, s)" by fastforce
  have g: "0 \<le> s" and r: "opus_vbr_loop data (pos + nat bts) (len - bts) (lsz - (bts + s)) (sizes[i := s]) (Suc i) n =
      Some (pos', len', lsz', sizes')" using Suc(2) p by (auto simp: Let_def split: if_splits)
  then show ?case using Suc(1) [OF r] parse_size_cases [OF p] by auto
qed simp

lemma header_inside:
  assumes "opus_packet_code data len sd sizes = Some h"
  shows "int (hd_pos h) + hd_len h \<le> len"
proof -
  consider "data ! 0 AND 0x3 \<in> {0, 1}" | "data ! 0 AND 0x3 = 2"
    | "data ! 0 AND 0x3 \<noteq> 0" "data ! 0 AND 0x3 \<noteq> 1" "data ! 0 AND 0x3 \<noteq> 2" by blast
  then show ?thesis
  proof cases
    case 1
    then show ?thesis using assms by (auto simp: opus_packet_code_def Let_def split: if_splits)
  next
    case 2
    obtain bts z where p: "parse_size data 1 (len - 1) = (bts, z)" by fastforce
    show ?thesis using assms 2 p parse_size_cases [OF p] by (auto simp: opus_packet_code_def Let_def split: if_splits)
  next
    case 3
    then have "opus_packet_code3 data (len - 1) sd sizes (opus_packet_get_samples_per_frame (data ! 0) 48000) = Some h"
      using assms by (simp add: opus_packet_code_def Let_def)
    from this show ?thesis by (rule packet_code3_steps) (auto dest!: pad_loop_bounds vbr_loop_pos)
  qed
qed

lemma parse_impl_inside:
  assumes "len \<le> int (length xs)"
  shows "opus_packet_parse_impl (xs @ ys) len sd sizes = opus_packet_parse_impl xs len sd sizes"
proof (cases "sizes = None \<or> len \<le> 0")
  case False
  then obtain sz where z: "sizes = Some sz" "1 \<le> len" by auto
  have e: "(xs @ ys) ! 0 = xs ! 0" using assms z by (cases xs) auto
  have "opus_packet_tail (xs @ ys) sd h = opus_packet_tail xs sd h" if "opus_packet_code xs len sd sz = Some h" for h
    using header_inside [OF that] assms by (simp add: opus_packet_tail_def parse_size_inside Let_def)
  then show ?thesis unfolding opus_packet_parse_impl_def z(1) using packet_code_inside [OF z(2) assms] e
    by (auto split: option.splits)
qed (cases sizes, auto simp: opus_packet_parse_impl_def)

section \<open>Packet queries\<close>

lemma packet_code_count:
  assumes "opus_packet_code data len sd sizes = Some h" "1 \<le> len"
  shows "opus_packet_get_nb_frames data len = Inr (hd_count h) \<and> 1 \<le> hd_count h"
proof -
  consider "data ! 0 AND 0x3 = 0" | "data ! 0 AND 0x3 = 1" | "data ! 0 AND 0x3 = 2"
    | "data ! 0 AND 0x3 = 3" using two_bits [of "data ! 0"] by (auto simp: word_unat_eq_iff)
  then show ?thesis
  proof cases
    case 4
    then have "opus_packet_code3 data (len - 1) sd sizes (opus_packet_get_samples_per_frame (data ! 0) 48000) = Some h"
      using assms by (simp add: opus_packet_code_def Let_def)
    from this show ?thesis by (rule packet_code3_steps) (use assms(2) 4 in \<open>auto simp: opus_packet_get_nb_frames_def Let_def\<close>)
  qed (use assms in \<open>auto simp: opus_packet_code_def opus_packet_get_nb_frames_def Let_def split: if_splits prod.splits\<close>)
qed

lemma packet_code_le:
  assumes "opus_packet_code data len sd sizes = Some h"
  shows "hd_count h \<le> 48"
proof (cases "data ! 0 AND 0x3 \<in> {0, 1, 2}")
  case False
  then have "opus_packet_code3 data (len - 1) sd sizes (opus_packet_get_samples_per_frame (data ! 0) 48000) = Some h"
    using assms by (simp add: opus_packet_code_def Let_def)
  then obtain count where "opus_packet_get_samples_per_frame (data ! 0) 48000 * int count \<le> 5760" "hd_count h = count"
    by (elim packet_code3_steps) fastforce
  then show ?thesis using samples_count by blast
qed (use assms in \<open>auto simp: opus_packet_code_def Let_def split: if_splits prod.splits\<close>)

lemma parse_impl_count:
  assumes "opus_packet_parse_impl data len sd (Some sizes) = Inr r"
  shows "1 \<le> len \<and> opus_packet_get_nb_frames data len = Inr (op_count r) \<and> 1 \<le> op_count r"
  using assms by (elim parse_impl_steps) (auto dest: packet_code_count)

lemma parse_impl_le_48: "opus_packet_parse_impl data len sd (Some sizes) = Inr r \<Longrightarrow> op_count r \<le> 48"
  by (elim parse_impl_steps) (auto dest: packet_code_le)

lemma parse_impl_errors:
  "opus_packet_parse_impl data len sd sizes = Inl e \<Longrightarrow>
    e = (if sizes = None \<or> len < 0 then OPUS_BAD_ARG else OPUS_INVALID_PACKET)"
  by (auto simp: opus_packet_parse_impl_def split: option.splits if_splits prod.splits)

lemma nb_samples_parsed:
  assumes "opus_packet_parse_impl data len sd (Some sizes) = Inr r" "op_count r \<le> length sizes"
  shows "opus_packet_get_nb_samples data len 48000 = Inr (int (op_count r) * opus_packet_get_samples_per_frame (data ! 0) 48000)"
  using parse_impl_ok [OF assms] parse_impl_count [OF assms(1)]
  by (simp add: opus_packet_get_nb_samples_def parsed_ok_def mult.commute)

lemma first_frame:
  assumes "opus_packet_parse data len (Some sizes) = Inr r" "op_count r \<le> length sizes"
  shows "hd (op_frames r) = op_payload_offset r"
proof -
  have "parsed_ok data len False r" using assms parse_impl_ok unfolding opus_packet_parse_def by blast
  then have "1 \<le> op_count r" "op_frames r = map (\<lambda>i. op_payload_offset r + nat (sum_list (take i (op_sizes r)))) [0..<op_count r]"
    by (simp_all add: parsed_ok_def)
  then show ?thesis by (simp add: upt_conv_Cons)
qed

lemma has_lbrr_inside:
  assumes "length sizes = 48" "1 \<le> len"
  shows "opus_packet_has_lbrr data sizes len = None \<longleftrightarrow>
    opus_packet_get_mode data \<noteq> MODE_CELT_ONLY \<and>
    (\<exists>r. opus_packet_parse data len (Some sizes) = Inr r \<and> int (op_payload_offset r) = len)"
proof (cases "opus_packet_parse data len (Some sizes)")
  case (Inr r)
  then have i: "opus_packet_parse_impl data len False (Some sizes) = Inr r" by (simp add: opus_packet_parse_def)
  have c: "op_count r \<le> length sizes" using parse_impl_le_48 [OF i] assms by simp
  have "int (op_payload_offset r) \<le> len" using parse_impl_ok [OF i c] by (auto simp: parsed_ok_def)
  then show ?thesis using Inr first_frame [OF Inr c] assms(2) by (auto simp: opus_packet_has_lbrr_def Let_def)
qed (use assms(2) in \<open>auto simp: opus_packet_has_lbrr_def Let_def\<close>)

end
