(* ===== verification/Opus_Extensions.thy ===== *)
theory Opus_Extensions
  imports Opus_Packet
begin

text \<open>
  The extensions carried in the padding of Opus packets: \<open>src/Vendor/opus/src/extensions.c\<close>. A pointer into the padding is the list
  of bytes from it on, so advancing it is \<^const>\<open>drop\<close>; the lengths are natural numbers, since the code asserts
  \<open>len >= 0\<close>. The code sums up length bytes in an \<open>opus_int32\<close>, whose overflow is undefined; the sum is a natural number here, so the model is that of
  the code for padding of at most 8421504 bytes. \<open>skip_length_loop_int32\<close> is the loop with the check for overflow, and lemma
  \<open>skip_length_loop_int32_eq\<close> shows that no sum overflows below this bound.
\<close>

unbundle bit_operations_syntax

record opus_extension =
  ext_id :: int
  ext_frame :: int
  ext_data :: bytes
  ext_len :: int

section \<open>Skipping, counting and parsing\<close>

text \<open>The \<open>do ... while\<close> loop over the length bytes; its caller has at least one byte left.\<close>

fun skip_length_loop :: "bytes \<Rightarrow> nat \<Rightarrow> nat \<Rightarrow> nat \<Rightarrow> (bytes \<times> nat \<times> nat \<times> nat) option" where
  "skip_length_loop data 0 bts header_size = None"
| "skip_length_loop data (Suc len) bts header_size =
    (let data = drop 1 data
     in if len = 0 then None
        else
          let b = data ! 0; bts = bts + unat b; header_size = header_size + 1
          in if b = 255 then skip_length_loop data len bts header_size else Some (data, len, bts, header_size))"

text \<open>The same loop with the sum kept in an \<open>opus_int32\<close>: an outer \<open>None\<close> is the overflow of the sum.\<close>

fun skip_length_loop_int32 :: "bytes \<Rightarrow> nat \<Rightarrow> int \<Rightarrow> nat \<Rightarrow> (bytes \<times> nat \<times> nat \<times> nat) option option" where
  "skip_length_loop_int32 data 0 bts header_size = Some None"
| "skip_length_loop_int32 data (Suc len) bts header_size =
    (let data = drop 1 data
     in if len = 0 then Some None
        else
          let b = data ! 0; bts = bts + uint b; header_size = header_size + 1
          in if bts > 0x7FFFFFFF then None
             else if b = 255 then skip_length_loop_int32 data len bts header_size else Some (Some (data, len, nat bts, header_size)))"

definition skip_extension :: "bytes \<Rightarrow> nat \<Rightarrow> nat \<Rightarrow> (bytes \<times> nat \<times> nat) option" where
  "skip_extension data len header_size =
    (if len = 0 then Some (data, 0, header_size)
     else
       let id = uint (drop_bit 1 (data ! 0)); L = unat (data ! 0 AND 1)
       in if id = 0 \<and> L = 1 then Some (drop 1 data, len - 1, 1)
          else if 0 < id \<and> id < 32 then
            if len < 1 + L then None else Some (drop (1 + L) data, len - (1 + L), 1)
          else if L = 0 then Some (drop len data, 0, 1)
          else
            case skip_length_loop data len 0 1 of None \<Rightarrow> None
            | Some (data, len, bts, header_size) \<Rightarrow>
              let data = drop 1 data; len = len - 1
              in if bts \<le> len then Some (drop bts data, len - bts, header_size) else None)"

lemma skip_length_loop_shorter:
  "skip_length_loop data len bts hs = Some (data', len', bts', hs') \<Longrightarrow> 0 < len' \<and> len' < len"
  by (induction len arbitrary: data bts hs) (fastforce simp: Let_def split: if_splits)+

lemma skip_length_loop_int32_eq:
  "b + 255 * len < 2 ^ 31 \<Longrightarrow> skip_length_loop_int32 data len (int b) hs = Some (skip_length_loop data len b hs)"
proof (induction len arbitrary: data b hs)
  case (Suc len)
  define x where "x = drop 1 data ! 0"
  have x: "int b + uint x = int (b + unat x)" by simp
  have "unat x \<le> 255" using unsigned_less [of x, where ?'a = nat] by simp
  then have l: "b + unat x + 255 * len < 2 ^ 31" using Suc.prems by simp
  then have "b + unat x \<le> 0x7FFFFFFF" by simp
  then have "\<not> int (b + unat x) > 0x7FFFFFFF" by (simp only: not_less of_nat_le_iff [where ?'a = int, symmetric] of_nat_numeral)
  then show ?case
    using Suc.IH [OF l, of "drop 1 data" "Suc hs"]
    by (simp only: skip_length_loop_int32.simps skip_length_loop.simps Let_def x_def [symmetric] x nat_int if_False Suc_eq_plus1 [symmetric] split: if_split) blast
qed simp

lemma skip_extension_shorter: "skip_extension data len hs = Some (data', len', hs') \<Longrightarrow> 0 < len \<Longrightarrow> len' < len"
  by (auto simp: skip_extension_def Let_def dest!: skip_length_loop_shorter split: if_splits option.splits)

function opus_ext_count_loop :: "bytes \<Rightarrow> nat \<Rightarrow> nat \<Rightarrow> opus_error + nat" where
  "opus_ext_count_loop curr_data curr_len count =
    (if curr_len = 0 then Inr count
     else
       let id = uint (drop_bit 1 (curr_data ! 0))
       in case skip_extension curr_data curr_len 0 of None \<Rightarrow> Inl OPUS_INVALID_PACKET
          | Some (curr_data, curr_len, header_size) \<Rightarrow>
            opus_ext_count_loop curr_data curr_len (if id > 1 then count + 1 else count))"
  by pat_completeness auto
termination by (relation "measure (\<lambda>(_, len, _). len)") (auto dest: skip_extension_shorter)

definition opus_packet_extensions_count :: "bytes \<Rightarrow> nat \<Rightarrow> opus_error + nat" where
  "opus_packet_extensions_count data len = opus_ext_count_loop data len 0"

text \<open>
  The parser returns an error or success, the extensions it has written to the caller's array (their number is the
  variable \<open>count\<close>) and the value left in \<open>*nb_extensions\<close>.
\<close>

function opus_ext_parse_loop ::
    "bytes \<Rightarrow> nat \<Rightarrow> int \<Rightarrow> opus_extension list \<Rightarrow> nat \<Rightarrow> opus_error option \<times> opus_extension list \<times> nat" where
  "opus_ext_parse_loop curr_data curr_len curr_frame exts nb_extensions =
    (if curr_len = 0 then (None, exts, length exts)
     else
       let id = uint (drop_bit 1 (curr_data ! 0));
           curr_frame =
             (if id = 1 then
                if curr_data ! 0 AND 1 = 0 then curr_frame + 1
                else if curr_len \<ge> 2 then curr_frame + uint (curr_data ! 1) else curr_frame
              else curr_frame)
       in if id = 1 \<and> curr_frame \<ge> 48 then (Some OPUS_INVALID_PACKET, exts, length exts)
          else case skip_extension curr_data curr_len 0 of None \<Rightarrow> (Some OPUS_INVALID_PACKET, exts, length exts)
          | Some (next_data, next_len, header_size) \<Rightarrow>
            if id > 1 then
              if length exts = nb_extensions then (Some OPUS_BUFFER_TOO_SMALL, exts, nb_extensions)
              else
                let len = curr_len - next_len - header_size;
                    curr_ext = \<lparr>ext_id = id, ext_frame = curr_frame, ext_data = take len (drop header_size curr_data), ext_len = int len\<rparr>
                in opus_ext_parse_loop next_data next_len curr_frame (exts @ [curr_ext]) nb_extensions
            else opus_ext_parse_loop next_data next_len curr_frame exts nb_extensions)"
  by pat_completeness auto
termination by (relation "measure (\<lambda>(_, len, _). len)") (auto dest: skip_extension_shorter)

definition opus_packet_extensions_parse :: "bytes \<Rightarrow> nat \<Rightarrow> nat \<Rightarrow> opus_error option \<times> opus_extension list \<times> nat" where
  "opus_packet_extensions_parse data len nb_extensions = opus_ext_parse_loop data len 0 [] nb_extensions"

section \<open>Generating\<close>

text \<open>
  The generator is called without a buffer to find the length and with one to write; both calls take the same branches,
  so the model returns the bytes (the C value is their number). Its state is the current frame, the bytes written so far and the number of
  extensions written.
\<close>

record ext_state =
  gs_frame :: int
  gs_out :: bytes
  gs_written :: nat

definition opus_ext_separator :: "int \<Rightarrow> int \<Rightarrow> ext_state \<Rightarrow> opus_error + ext_state" where
  "opus_ext_separator len frame st =
    (if frame = gs_frame st then Inr st
     else
       let diff = frame - gs_frame st
       in if len - int (length (gs_out st)) < 2 then Inl OPUS_BUFFER_TOO_SMALL
          else Inr (st\<lparr>gs_frame := frame, gs_out := gs_out st @ (if diff = 1 then [0x02] else [0x03, word_of_int diff])\<rparr>))"

definition opus_ext_body :: "int \<Rightarrow> nat \<Rightarrow> opus_extension \<Rightarrow> ext_state \<Rightarrow> opus_error + ext_state" where
  "opus_ext_body len nb_extensions e st =
    (let pos = int (length (gs_out st))
     in if ext_id e < 32 then
          if ext_len e < 0 \<or> ext_len e > 1 then Inl OPUS_BAD_ARG
          else if len - pos < ext_len e + 1 then Inl OPUS_BUFFER_TOO_SMALL
          else Inr (st\<lparr>gs_out := gs_out st @ word_of_int (ext_id e * 2 + ext_len e) # (if ext_len e > 0 then [ext_data e ! 0] else [])\<rparr>)
        else if ext_len e < 0 then Inl OPUS_BAD_ARG
        else
          let last = (gs_written st + 1 = nb_extensions);
              length_bytes = (if last then 0 else 1 + ext_len e div 255)
          in if len - pos < 1 + length_bytes + ext_len e then Inl OPUS_BUFFER_TOO_SMALL
             else Inr (st\<lparr>gs_out := gs_out st @ word_of_int (ext_id e * 2 + (if last then 0 else 1)) #
                    (if last then [] else replicate (nat (ext_len e div 255)) 255 @ [word_of_int (ext_len e mod 255)]) @
                    take (nat (ext_len e)) (ext_data e)\<rparr>))"

fun opus_ext_frame_loop :: "int \<Rightarrow> nat \<Rightarrow> int \<Rightarrow> opus_extension list \<Rightarrow> ext_state \<Rightarrow> opus_error + ext_state" where
  "opus_ext_frame_loop len nb_extensions frame [] st = Inr st"
| "opus_ext_frame_loop len nb_extensions frame (e # es) st =
    (if ext_frame e = frame then
       case opus_ext_separator len frame st of Inl err \<Rightarrow> Inl err
       | Inr st \<Rightarrow> (case opus_ext_body len nb_extensions e st of Inl err \<Rightarrow> Inl err
         | Inr st \<Rightarrow> opus_ext_frame_loop len nb_extensions frame es (st\<lparr>gs_written := gs_written st + 1\<rparr>))
     else opus_ext_frame_loop len nb_extensions frame es st)"

fun opus_ext_frames_loop :: "int \<Rightarrow> opus_extension list \<Rightarrow> int list \<Rightarrow> ext_state \<Rightarrow> opus_error + ext_state" where
  "opus_ext_frames_loop len exts [] st = Inr st"
| "opus_ext_frames_loop len exts (frame # frames) st =
    (case opus_ext_frame_loop len (length exts) frame exts st of Inl err \<Rightarrow> Inl err
     | Inr st \<Rightarrow> opus_ext_frames_loop len exts frames st)"

definition opus_packet_extensions_generate :: "int \<Rightarrow> opus_extension list \<Rightarrow> bool \<Rightarrow> opus_error + bytes" where
  "opus_packet_extensions_generate len exts pad =
    (let max_frame = fold (\<lambda>e m. max m (ext_frame e)) exts 0
     in if \<exists>e\<in>set exts. ext_id e < 2 \<or> ext_id e > 127 then Inl OPUS_BAD_ARG
        else if max_frame \<ge> 48 then Inl OPUS_BAD_ARG
        else case opus_ext_frames_loop len exts [0..max_frame] \<lparr>gs_frame = 0, gs_out = [], gs_written = 0\<rparr> of Inl err \<Rightarrow> Inl err
        | Inr st \<Rightarrow>
          let pos = int (length (gs_out st))
          in Inr (if pad \<and> pos < len then replicate (nat (len - pos)) 0x01 @ gs_out st else gs_out st))"

declare opus_ext_count_loop.simps [simp del] opus_ext_parse_loop.simps [simp del]

section \<open>The encoding\<close>

definition valid_ext :: "opus_extension \<Rightarrow> bool" where
  "valid_ext e \<longleftrightarrow> 2 \<le> ext_id e \<and> ext_id e \<le> 127 \<and> 0 \<le> ext_frame e \<and> ext_frame e < 48 \<and> ext_len e = int (length (ext_data e)) \<and>
     (ext_id e < 32 \<longrightarrow> ext_len e \<le> 1)"

definition sep_bytes :: "int \<Rightarrow> int \<Rightarrow> bytes" where
  "sep_bytes cur frame = (if frame = cur then [] else if frame - cur = 1 then [0x02] else [0x03, word_of_int (frame - cur)])"

definition body_bytes :: "bool \<Rightarrow> opus_extension \<Rightarrow> bytes" where
  "body_bytes is_last e =
    (if ext_id e < 32 then word_of_int (ext_id e * 2 + ext_len e) # ext_data e
     else if is_last then word_of_int (ext_id e * 2) # ext_data e
     else word_of_int (ext_id e * 2 + 1) # replicate (length (ext_data e) div 255) 255 @ word_of_int (ext_len e mod 255) # ext_data e)"

fun ext_bytes :: "nat \<Rightarrow> nat \<Rightarrow> int \<Rightarrow> opus_extension list \<Rightarrow> bytes" where
  "ext_bytes nb w cur [] = []"
| "ext_bytes nb w cur (e # es) = sep_bytes cur (ext_frame e) @ body_bytes (Suc w = nb) e @ ext_bytes nb (Suc w) (ext_frame e) es"

lemma ext_bytes_append:
  "ext_bytes nb w cur (as @ bs) =
    ext_bytes nb w cur as @ ext_bytes nb (w + length as) (if as = [] then cur else ext_frame (last as)) bs"
  by (induction as arbitrary: w cur) auto

lemma ext_write_step:
  assumes "valid_ext e" "ext_frame e = frame"
  shows "(case opus_ext_separator len frame st of Inl err \<Rightarrow> Inl err | Inr st \<Rightarrow> opus_ext_body len nb e st) =
    (let out = gs_out st @ sep_bytes (gs_frame st) frame @ body_bytes (Suc (gs_written st) = nb) e
     in if int (length out) \<le> len then Inr (st\<lparr>gs_frame := frame, gs_out := out\<rparr>) else Inl OPUS_BUFFER_TOO_SMALL)"
proof -
  have d: "ext_data e = [ext_data e ! 0]" if "ext_id e < 32" "ext_data e \<noteq> []"
    using assms that by (cases "ext_data e") (auto simp: valid_ext_def)
  have b: "opus_ext_body len nb e s = (let out = gs_out s @ body_bytes (Suc (gs_written s) = nb) e
      in if int (length out) \<le> len then Inr (s\<lparr>gs_out := out\<rparr>) else Inl OPUS_BUFFER_TOO_SMALL)" for s
  proof (cases "ext_id e < 32")
    case True
    show ?thesis
    proof (cases "ext_data e")
      case Nil
      then show ?thesis using True assms by (auto simp: opus_ext_body_def body_bytes_def valid_ext_def Let_def)
    next
      case (Cons a xs)
      then have "ext_data e = [a]" using True assms by (auto simp: valid_ext_def)
      then show ?thesis using True assms by (auto simp: opus_ext_body_def body_bytes_def valid_ext_def Let_def)
    qed
  next
    case False
    have q: "nat (int (length (ext_data e)) div 255) = length (ext_data e) div 255"
      by (metis nat_int of_nat_numeral zdiv_int)
    have "int (length (ext_data e) div 255) = int (length (ext_data e)) div 255" by (simp add: zdiv_int)
    then show ?thesis using False assms q by (auto simp: opus_ext_body_def body_bytes_def valid_ext_def Let_def)
  qed
  have "1 \<le> length (body_bytes (Suc (gs_written st) = nb) e)" by (simp add: body_bytes_def)
  then show ?thesis unfolding opus_ext_separator_def b
    by (auto simp: sep_bytes_def Let_def split: sum.splits)
qed

lemma ext_frame_loop_bytes:
  assumes "\<forall>e\<in>set es. valid_ext e"
  shows "opus_ext_frame_loop len nb frame es st =
    (let fs = filter (\<lambda>e. ext_frame e = frame) es; out = gs_out st @ ext_bytes nb (gs_written st) (gs_frame st) fs
     in if fs = [] then Inr st
        else if int (length out) \<le> len then Inr \<lparr>gs_frame = frame, gs_out = out, gs_written = gs_written st + length fs\<rparr>
        else Inl OPUS_BUFFER_TOO_SMALL)"
  using assms
proof (induction es arbitrary: st)
  case (Cons e es)
  show ?case
  proof (cases "ext_frame e = frame")
    case True
    have v: "valid_ext e" using Cons(2) by simp
    have "opus_ext_frame_loop len nb frame (e # es) st =
        (case (case opus_ext_separator len frame st of Inl err \<Rightarrow> Inl err | Inr st \<Rightarrow> opus_ext_body len nb e st) of Inl err \<Rightarrow> Inl err
         | Inr st \<Rightarrow> opus_ext_frame_loop len nb frame es (st\<lparr>gs_written := gs_written st + 1\<rparr>))"
      using True by (simp split: sum.splits)
    then show ?thesis unfolding ext_write_step [OF v True] using Cons True
      by (auto simp: Let_def)
  qed (use Cons in simp)
qed (simp add: Let_def)

lemma ext_frames_loop_bytes:
  assumes "\<forall>e\<in>set exts. valid_ext e"
  shows "opus_ext_frames_loop len exts frames st =
    (let fs = concat (map (\<lambda>f. filter (\<lambda>e. ext_frame e = f) exts) frames);
         out = gs_out st @ ext_bytes (length exts) (gs_written st) (gs_frame st) fs
     in if fs = [] then Inr st
        else if int (length out) \<le> len then Inr \<lparr>gs_frame = ext_frame (last fs), gs_out = out, gs_written = gs_written st + length fs\<rparr>
        else Inl OPUS_BUFFER_TOO_SMALL)"
proof (induction frames arbitrary: st)
  case (Cons f frames)
  define gs where "gs = filter (\<lambda>e. ext_frame e = f) exts"
  define hs where "hs = concat (map (\<lambda>f. filter (\<lambda>e. ext_frame e = f) exts) frames)"
  have l: "ext_frame (last gs) = f" if "gs \<noteq> []" using last_in_set [OF that] by (auto simp: gs_def)
  have c: "concat (map (\<lambda>f. filter (\<lambda>e. ext_frame e = f) exts) (f # frames)) = gs @ hs" by (simp add: gs_def hs_def)
  show ?case using ext_frame_loop_bytes [OF assms, of len "length exts" f st] l unfolding gs_def [symmetric] c
    by (auto simp: Cons.IH [folded hs_def] Let_def ext_bytes_append simp del: map_append concat_append)
qed (simp add: Let_def)

lemma fold_max_ge: "(m :: int) \<le> fold (\<lambda>e m. max m (f e)) es m" "e \<in> set es \<Longrightarrow> f e \<le> fold (\<lambda>e m. max m (f e)) es m"
proof (induction es arbitrary: m)
  case (Cons a es)
  { case 1 show ?case using Cons(1) [of "max m (f a)"] by simp }
  { case 2 then show ?case using Cons(1) [of "max m (f a)"] Cons(2) [of "max m (f a)"] by auto }
qed auto

lemma fold_max_less: "(m :: int) < b \<Longrightarrow> \<forall>e\<in>set es. f e < b \<Longrightarrow> fold (\<lambda>e m. max m (f e)) es m < b"
  by (induction es arbitrary: m) auto

lemma insort_key_skip: "\<forall>y\<in>set g. f y < f x \<Longrightarrow> insort_key f x (g @ h) = g @ insort_key f x h" for f :: "'a \<Rightarrow> int"
  by (induction g) auto

lemma insort_key_front: "\<forall>y\<in>set g. f x \<le> f y \<Longrightarrow> insort_key f x g = x # g" for f :: "'a \<Rightarrow> int"
  by (cases g) auto

lemma concat_filter_insort:
  fixes f :: "'a \<Rightarrow> int"
  assumes "sorted ks" "distinct ks" "f x \<in> set ks"
  shows "insort_key f x (concat (map (\<lambda>k. filter (\<lambda>e. f e = k) xs) ks)) = concat (map (\<lambda>k. filter (\<lambda>e. f e = k) (x # xs)) ks)"
  using assms
proof (induction ks)
  case (Cons k ks)
  show ?case
  proof (cases "f x = k")
    case True
    have e: "map (\<lambda>k. filter (\<lambda>e. f e = k) (x # xs)) ks = map (\<lambda>k. filter (\<lambda>e. f e = k) xs) ks" using Cons(3) True by auto
    have "concat (map (\<lambda>k. filter (\<lambda>e. f e = k) (x # xs)) (k # ks)) = x # concat (map (\<lambda>k. filter (\<lambda>e. f e = k) xs) (k # ks))"
      unfolding list.map concat.simps e using True by simp
    moreover have "insort_key f x (concat (map (\<lambda>k. filter (\<lambda>e. f e = k) xs) (k # ks))) = x # concat (map (\<lambda>k. filter (\<lambda>e. f e = k) xs) (k # ks))"
      using True Cons(2) by (intro insort_key_front) auto
    ultimately show ?thesis by simp
  next
    case False
    then have "k < f x" using Cons(2,4) by force
    then show ?thesis using Cons False by (auto simp: insort_key_skip)
  qed
qed simp

lemma concat_filter_sort:
  fixes f :: "'a \<Rightarrow> int"
  assumes "sorted ks" "distinct ks" "\<forall>x\<in>set xs. f x \<in> set ks"
  shows "concat (map (\<lambda>k. filter (\<lambda>e. f e = k) xs) ks) = sort_key f xs"
  using assms(3)
proof (induction xs)
  case (Cons x xs)
  then show ?case using concat_filter_insort [OF assms(1,2), of f x xs] by simp
qed (simp add: concat_eq_Nil_conv)

section \<open>What the generator writes\<close>

lemma extensions_generate_bytes:
  assumes "\<forall>e\<in>set exts. valid_ext e"
  shows "opus_packet_extensions_generate len exts pad =
    (let out = ext_bytes (length exts) 0 0 (sort_key ext_frame exts)
     in if exts \<noteq> [] \<and> len < int (length out) then Inl OPUS_BUFFER_TOO_SMALL
        else Inr (if pad then replicate (nat (len - int (length out))) 0x01 @ out else out))"
proof -
  define m where "m = fold (\<lambda>e m. max m (ext_frame e)) exts 0"
  have m: "m < 48" unfolding m_def by (rule fold_max_less) (use assms in \<open>auto simp: valid_ext_def\<close>)
  have f: "\<forall>e\<in>set exts. ext_frame e \<in> set [0..m]" using assms fold_max_ge(2) unfolding m_def valid_ext_def by auto
  have i: "\<not> (\<exists>e\<in>set exts. ext_id e < 2 \<or> ext_id e > 127)" using assms by (auto simp: valid_ext_def)
  have c: "concat (map (\<lambda>f. filter (\<lambda>e. ext_frame e = f) exts) [0..m]) = sort_key ext_frame exts"
    by (rule concat_filter_sort) (use f in auto)
  have n: "sort_key ext_frame exts = [] \<longleftrightarrow> exts = []" by (metis length_0_conv length_sort)
  show ?thesis
    unfolding opus_packet_extensions_generate_def m_def [symmetric] Let_def ext_frames_loop_bytes [OF assms] c n
    using i m by (auto simp: n Let_def)
qed

section \<open>Parsing what was generated\<close>

lemma id_byte:
  assumes "0 \<le> i" "i \<le> 127" "L \<in> {0, 1}"
  shows "uint (drop_bit 1 (word_of_int (i * 2 + L) :: u8)) = i" "unat ((word_of_int (i * 2 + L) :: u8) AND 1) = nat L"
proof -
  have u: "uint (word_of_int (i * 2 + L) :: u8) = i * 2 + L" unfolding uint_word_of_int by (rule mod_pos_pos_trivial) (use assms in auto)
  show "uint (drop_bit 1 (word_of_int (i * 2 + L) :: u8)) = i" using assms unfolding drop_bit_eq_div uint_div_distrib u by auto
  have "uint ((word_of_int (i * 2 + L) :: u8) AND 1) = L" using assms unfolding uint_and u by (auto simp: and_one_eq)
  then show "unat ((word_of_int (i * 2 + L) :: u8) AND 1) = nat L" by (simp only: unat_eq_nat_uint)
qed

lemma skip_length_loop_bytes:
  assumes "m < 255"
  shows "skip_length_loop (h # replicate k 255 @ word_of_nat m # rest) (Suc (k + Suc (length rest))) b hs =
    Some (word_of_nat m # rest, Suc (length rest), b + 255 * k + m, hs + k + 1)"
proof (induction k arbitrary: h b hs)
  case 0
  have "unat (word_of_nat m :: u8) = m" using assms by (simp add: unat_of_nat)
  moreover from this have "(word_of_nat m :: u8) \<noteq> 255" using assms by auto
  ultimately show ?case by (simp add: Let_def)
next
  case (Suc k)
  then show ?case by (simp add: Let_def)
qed

lemma skip_body:
  assumes "valid_ext e" "rest \<noteq> [] \<longrightarrow> \<not> is_last"
  shows "\<exists>hs. skip_extension (body_bytes is_last e @ rest) (length (body_bytes is_last e @ rest)) 0 = Some (rest, length rest, hs) \<and>
    hs + length (ext_data e) = length (body_bytes is_last e) \<and> drop hs (body_bytes is_last e @ rest) = ext_data e @ rest \<and>
    uint (drop_bit 1 (body_bytes is_last e ! 0)) = ext_id e"
proof -
  have v: "0 \<le> ext_id e" "2 \<le> ext_id e" "ext_id e \<le> 127" "ext_len e = int (length (ext_data e))" "ext_id e < 32 \<Longrightarrow> ext_len e \<in> {0, 1}"
    using assms(1) unfolding valid_ext_def insert_iff empty_iff by presburger+
  consider "ext_id e < 32" | "\<not> ext_id e < 32" "is_last" | "\<not> ext_id e < 32" "\<not> is_last" by blast
  then show ?thesis
  proof cases
    case 1
    then show ?thesis using v id_byte [OF v(1,3) v(5)] by (auto simp: skip_extension_def body_bytes_def Let_def)
  next
    case 2
    then show ?thesis using v id_byte [OF v(1,3), of 0] assms(2) by (auto simp: skip_extension_def body_bytes_def Let_def)
  next
    case 3
    let ?n = "length (ext_data e)"
    have m: "(word_of_int (ext_len e mod 255) :: u8) = word_of_nat (?n mod 255)" unfolding v(4) by (metis of_nat_numeral of_int_of_nat_eq zmod_int)
    have l: "skip_length_loop (h # replicate (?n div 255) 255 @ word_of_nat (?n mod 255) # ext_data e @ rest)
        (Suc (?n div 255 + Suc (?n + length rest))) 0 1 = Some (word_of_nat (?n mod 255) # ext_data e @ rest, Suc (?n + length rest), ?n, 1 + ?n div 255 + 1)" for h
      using skip_length_loop_bytes [of "?n mod 255" h "?n div 255" "ext_data e @ rest" 0 1] by simp
    define hb :: u8 where "hb = word_of_int (ext_id e * 2 + 1)"
    have hb: "uint (drop_bit 1 hb) = ext_id e" "unat (hb AND 1) = 1" using id_byte [OF v(1,3), of 1] by (simp_all add: hb_def)
    have b: "body_bytes is_last e = hb # replicate (?n div 255) 255 @ word_of_nat (?n mod 255) # ext_data e"
      using 3 by (simp only: body_bytes_def hb_def m if_False)
    have len: "length (body_bytes is_last e @ rest) = Suc (?n div 255 + Suc (?n + length rest))" by (simp add: b)
    have "skip_extension (body_bytes is_last e @ rest) (length (body_bytes is_last e @ rest)) 0 = Some (rest, length rest, 1 + ?n div 255 + 1)"
      unfolding len unfolding skip_extension_def b using hb 3 v(2) l by (simp add: Let_def)
    then show ?thesis using hb by (auto simp: b)
  qed
qed

lemma parse_body:
  assumes "valid_ext e" "rest \<noteq> [] \<longrightarrow> \<not> is_last" "length exts < nb"
  shows "opus_ext_parse_loop (body_bytes is_last e @ rest) (length (body_bytes is_last e @ rest)) (ext_frame e) exts nb =
    opus_ext_parse_loop rest (length rest) (ext_frame e) (exts @ [e]) nb"
proof -
  obtain hs where s: "skip_extension (body_bytes is_last e @ rest) (length (body_bytes is_last e @ rest)) 0 = Some (rest, length rest, hs)"
      "hs + length (ext_data e) = length (body_bytes is_last e)" "drop hs (body_bytes is_last e @ rest) = ext_data e @ rest"
      "uint (drop_bit 1 (body_bytes is_last e ! 0)) = ext_id e" using skip_body [OF assms(1,2)] by blast
  have ne: "body_bytes is_last e \<noteq> []" by (simp add: body_bytes_def)
  have h: "(body_bytes is_last e @ rest) ! 0 = body_bytes is_last e ! 0" using ne by (simp add: nth_append)
  have l: "length (body_bytes is_last e @ rest) - length rest - hs = length (ext_data e)" using s(2) by simp
  have e: "\<lparr>ext_id = ext_id e, ext_frame = ext_frame e, ext_data = ext_data e, ext_len = int (length (ext_data e))\<rparr> = e"
    using assms(1) by (simp add: valid_ext_def)
  have v: "1 < ext_id e" using assms(1) by (simp add: valid_ext_def)
  show ?thesis by (subst opus_ext_parse_loop.simps)
    (use v assms(3) ne in \<open>simp add: Let_def s h l e del: length_append drop_append diff_diff_left One_nat_def\<close>)
qed

lemma parse_sep:
  assumes "0 \<le> cur" "cur \<le> frame" "frame < 48" "rest \<noteq> []"
  shows "opus_ext_parse_loop (sep_bytes cur frame @ rest) (length (sep_bytes cur frame @ rest)) cur exts nb =
    opus_ext_parse_loop rest (length rest) frame exts nb"
proof -
  consider "frame = cur" | "frame = cur + 1" | "2 \<le> frame - cur" "frame - cur < 48" using assms by fastforce
  then show ?thesis
  proof cases
    case 3
    then have "uint (word_of_int (frame - cur) :: u8) = frame - cur"
      unfolding uint_word_of_int by (intro mod_pos_pos_trivial) auto
    then show ?thesis using 3 assms
      by (subst opus_ext_parse_loop.simps) (auto simp: sep_bytes_def skip_extension_def Let_def)
  qed (use assms in \<open>auto simp: sep_bytes_def skip_extension_def Let_def opus_ext_parse_loop.simps [of "2 # rest"]\<close>)
qed

lemma parse_ext_bytes:
  assumes "\<forall>e\<in>set es. valid_ext e" "sorted (map ext_frame es)" "0 \<le> cur" "\<forall>e\<in>set es. cur \<le> ext_frame e"
    "w + length es = n" "length exts + length es \<le> nb"
  shows "opus_ext_parse_loop (ext_bytes n w cur es) (length (ext_bytes n w cur es)) cur exts nb = (None, exts @ es, length exts + length es)"
  using assms
proof (induction es arbitrary: cur w exts)
  case Nil
  then show ?case by (simp add: opus_ext_parse_loop.simps)
next
  case (Cons e es)
  let ?r = "ext_bytes n (Suc w) (ext_frame e) es"
  have v: "valid_ext e" and f: "cur \<le> ext_frame e" "ext_frame e < 48" using Cons(2,5) by (auto simp: valid_ext_def)
  have ne: "body_bytes (Suc w = n) e @ ?r \<noteq> []" by (simp add: body_bytes_def)
  have "?r \<noteq> [] \<longrightarrow> Suc w \<noteq> n" using Cons(6) by (cases es) auto
  note b = parse_body [OF v this]
  have "opus_ext_parse_loop ?r (length ?r) (ext_frame e) (exts @ [e]) nb = (None, (exts @ [e]) @ es, length (exts @ [e]) + length es)"
    by (rule Cons.IH) (use Cons f in auto)
  then show ?case using parse_sep [OF Cons(4) f ne, of exts nb] b [of exts nb] Cons(7) by simp
qed

lemma parse_padding:
  "opus_ext_parse_loop (replicate k 0x01 @ rest) (length (replicate k (0x01 :: u8) @ rest)) cur exts nb = opus_ext_parse_loop rest (length rest) cur exts nb"
proof (induction k)
  case (Suc k)
  then show ?case by (simp add: opus_ext_parse_loop.simps [of "1 # _"] skip_extension_def Let_def)
qed simp

lemma extensions_roundtrip:
  assumes "\<forall>e\<in>set exts. valid_ext e" "opus_packet_extensions_generate len exts pad = Inr out" "length exts \<le> nb"
  shows "opus_packet_extensions_parse out (length out) nb = (None, sort_key ext_frame exts, length exts)"
proof -
  let ?s = "sort_key ext_frame exts"
  have f: "\<forall>e\<in>set exts. 0 \<le> ext_frame e" using assms(1) by (simp add: valid_ext_def)
  have p: "opus_ext_parse_loop (ext_bytes (length exts) 0 0 ?s) (length (ext_bytes (length exts) 0 0 ?s)) 0 [] nb = (None, ?s, length exts)"
    using parse_ext_bytes [of ?s 0 0 "length exts" "[]" nb] assms f by simp
  obtain k where "out = replicate k 0x01 @ ext_bytes (length exts) 0 0 ?s"
    using assms(2) unfolding extensions_generate_bytes [OF assms(1)]
    by (auto simp: Let_def split: if_splits intro: that [of 0])
  then show ?thesis using p unfolding opus_packet_extensions_parse_def by (simp only: parse_padding)
qed

section \<open>Parsing any bytes\<close>

lemma skip_length_loop_inside:
  assumes "len \<le> length xs" "skip_length_loop xs len b hs = r"
  shows "skip_length_loop (xs @ ys) len b hs = map_option (\<lambda>(d, l, b', h). (d @ ys, l, b', h)) r \<and>
    (\<forall>d l b' h. r = Some (d, l, b', h) \<longrightarrow> d = drop (len - l) xs \<and> 0 < l \<and> l < len \<and> h + l = hs + len)"
  using assms
proof (induction len arbitrary: xs b hs r)
  case (Suc len)
  obtain x xs' where x: "xs = x # xs'" using Suc(2) by (cases xs) auto
  then have l: "len \<le> length xs'" using Suc(2) by simp
  have n: "0 < len \<Longrightarrow> (xs' @ ys) ! 0 = xs' ! 0" using l by (cases xs') auto
  show ?case using Suc(1) [OF l refl, of "b + 255" "Suc hs"] Suc(3) n l
    by (fastforce simp: x Let_def Suc_diff_le split: if_splits)
qed auto

lemma skip_extension_inside:
  assumes "len \<le> length xs" "0 < len" "skip_extension xs len hs = r"
  shows "skip_extension (xs @ ys) len hs = map_option (\<lambda>(d, l, h). (d @ ys, l, h)) r \<and>
    (\<forall>d l h. r = Some (d, l, h) \<longrightarrow> d = drop (len - l) xs \<and> h + l \<le> len \<and> 0 < h)"
proof -
  have n: "(xs @ ys) ! 0 = xs ! 0" using assms(1,2) by (cases xs) auto
  define i L where "i = uint (drop_bit 1 (xs ! 0))" and "L = unat (xs ! 0 AND 1)"
  note d = skip_extension_def Let_def n i_def [symmetric] L_def [symmetric]
  note run = assms(3) [unfolded d]
  consider "i = 0 \<and> L = 1" | "\<not> (i = 0 \<and> L = 1)" "0 < i \<and> i < 32" | "\<not> (i = 0 \<and> L = 1)" "\<not> (0 < i \<and> i < 32)" "L = 0"
    | "\<not> (i = 0 \<and> L = 1)" "\<not> (0 < i \<and> i < 32)" "L \<noteq> 0" by blast
  then show ?thesis
  proof cases
    case 1
    have r: "r = Some (drop 1 xs, len - 1, 1)" using run assms(2) 1 by simp
    show ?thesis using 1 assms(1,2) unfolding r d by auto
  next
    case 2
    have r: "r = (if len < 1 + L then None else Some (drop (1 + L) xs, len - (1 + L), 1))" using run assms(2) 2 by simp
    show ?thesis using 2 assms(1,2) unfolding r d by auto
  next
    case 3
    have r: "r = Some (drop len xs, 0, 1)" using run assms(2) 3 by simp
    show ?thesis using 3 assms(1,2) unfolding r d by auto
  next
    case 4
    note lp = skip_length_loop_inside [OF assms(1) refl, of ys 0 1]
    show ?thesis
    proof (cases "skip_length_loop xs len 0 1")
      case None
      then show ?thesis using lp run assms(2) 4 unfolding d by auto
    next
      case (Some p)
      obtain e l b h where p: "p = (e, l, b, h)" by (cases p) auto
      have q: "e = drop (len - l) xs" "0 < l" "l < len" "h + l = 1 + len" and sk: "skip_length_loop (xs @ ys) len 0 1 = Some (e @ ys, l, b, h)"
        using lp Some p by auto
      have r: "r = (if b \<le> l - 1 then Some (drop b (drop 1 e), l - 1 - b, h) else None)" using run assms(2) unfolding if_not_P [OF 4(1)] if_not_P [OF 4(2)] if_not_P [OF 4(3)] Some p by simp
      have y: "skip_extension (xs @ ys) len hs = (if b \<le> l - 1 then Some (drop b (drop 1 (e @ ys)), l - 1 - b, h) else None)"
        unfolding d if_not_P [OF 4(1)] if_not_P [OF 4(2)] if_not_P [OF 4(3)] sk using assms(2) by simp
      show ?thesis unfolding y r using q assms(1) by (auto simp: Suc_diff_le add.commute)
    qed
  qed
qed

lemma parse_loop_step:
  assumes "0 < len" "skip_extension xs len 0 = Some (d, l, h)"
  shows "opus_ext_parse_loop xs len cur exts nb =
    (let i = uint (drop_bit 1 (xs ! 0));
         cur' = (if i = 1 then if xs ! 0 AND 1 = 0 then cur + 1 else if len \<ge> 2 then cur + uint (xs ! 1) else cur else cur)
     in if i = 1 \<and> cur' \<ge> 48 then (Some OPUS_INVALID_PACKET, exts, length exts)
        else if i > 1 then
          if length exts = nb then (Some OPUS_BUFFER_TOO_SMALL, exts, nb)
          else opus_ext_parse_loop d l cur (exts @ [\<lparr>ext_id = i, ext_frame = cur, ext_data = take (len - l - h) (drop h xs), ext_len = int (len - l - h)\<rparr>]) nb
        else opus_ext_parse_loop d l cur' exts nb)"
  using assms by (subst opus_ext_parse_loop.simps) (simp add: Let_def del: One_nat_def)

lemma parse_loop_stop: "0 < len \<Longrightarrow> skip_extension xs len 0 = None \<Longrightarrow>
    opus_ext_parse_loop xs len cur exts nb = (Some OPUS_INVALID_PACKET, exts, length exts)"
  by (subst opus_ext_parse_loop.simps) (simp add: Let_def)

lemma parse_loop_inside:
  "len \<le> length xs \<Longrightarrow> opus_ext_parse_loop (xs @ ys) len cur exts nb = opus_ext_parse_loop xs len cur exts nb"
proof (induction len arbitrary: xs cur exts rule: less_induct)
  case (less len)
  show ?case
  proof (cases "len = 0")
    case False
    then have len: "0 < len" by simp
    have n: "(xs @ ys) ! 0 = xs ! 0" "len \<ge> 2 \<Longrightarrow> (xs @ ys) ! 1 = xs ! 1" using less(2) len by (auto simp: nth_append)
    note sk = skip_extension_inside [OF less(2) len refl, of ys 0]
    show ?thesis
    proof (cases "skip_extension xs len 0")
      case None
      then show ?thesis using sk len by (simp add: parse_loop_stop)
    next
      case (Some p)
      obtain d l h where p: "p = (d, l, h)" by (cases p) auto
      have q: "skip_extension (xs @ ys) len 0 = Some (d @ ys, l, h)" "d = drop (len - l) xs" "h + l \<le> len" "0 < h" using sk Some p by auto
      have l: "l < len" "l \<le> length d" using q less(2) by auto
      have t: "take (len - l - h) (drop h (xs @ ys)) = take (len - l - h) (drop h xs)" using q less(2) by auto
      have c: "(if i = 1 then if xs ! 0 AND 1 = 0 then cur + 1 else if len \<ge> 2 then cur + uint ((xs @ ys) ! 1) else cur else cur) =
          (if i = 1 then if xs ! 0 AND 1 = 0 then cur + 1 else if len \<ge> 2 then cur + uint (xs ! 1) else cur else cur)" for i :: int
        using n(2) by simp
      show ?thesis unfolding parse_loop_step [OF len q(1)] parse_loop_step [OF len Some [unfolded p]] n(1) t c less(1) [OF l] ..
    qed
  qed (simp add: opus_ext_parse_loop.simps)
qed

text \<open>An array as long as the count is enough, and what is parsed is well-formed.\<close>

lemma count_loop_step:
  assumes "0 < len" "opus_ext_count_loop xs len c = Inr n"
  obtains d l h where "skip_extension xs len 0 = Some (d, l, h)"
    "opus_ext_count_loop d l (if uint (drop_bit 1 (xs ! 0)) > 1 then c + 1 else c) = Inr n"
  using assms by (subst (asm) opus_ext_count_loop.simps) (auto simp: Let_def simp del: One_nat_def split: option.splits)

lemma count_loop_mono: "opus_ext_count_loop xs len c = Inr n \<Longrightarrow> c \<le> n"
proof (induction len arbitrary: xs c rule: less_induct)
  case (less len)
  show ?case
  proof (cases "len = 0")
    case False
    then obtain d l h where s: "skip_extension xs len 0 = Some (d, l, h)"
        "opus_ext_count_loop d l (if uint (drop_bit 1 (xs ! 0)) > 1 then c + 1 else c) = Inr n"
      using count_loop_step [OF _ less(2)] by blast
    have "(if uint (drop_bit 1 (xs ! 0)) > 1 then c + 1 else c) \<le> n"
      using False less(1) [OF skip_extension_shorter [OF s(1)] s(2)] by simp
    then show ?thesis by (simp split: if_splits)
  qed (use less in \<open>simp add: opus_ext_count_loop.simps\<close>)
qed

lemma skip_short:
  assumes "skip_extension xs len 0 = Some (d, l, h)" "0 < len" "2 \<le> uint (drop_bit 1 (xs ! 0))" "uint (drop_bit 1 (xs ! 0)) < 32"
  shows "len - l - h \<le> 1"
proof -
  define i where "i = uint (drop_bit 1 (xs ! 0))"
  have L: "unat (xs ! 0 AND 1) \<le> 1" by (metis and_one_eq odd_iff_mod_2_eq_one one_neq_zero order_refl parity_cases unsigned_0 unsigned_1 zero_le)
  have "0 < i" "i < 32" using assms(3,4) by (simp_all add: i_def)
  then show ?thesis using assms(1,2) L unfolding skip_extension_def Let_def i_def [symmetric] by (auto split: if_splits)
qed

lemma parsed_ext_valid:
  assumes "skip_extension xs len 0 = Some (d, l, h)" "0 < len" "len \<le> length xs" "1 < uint (drop_bit 1 (xs ! 0))" "0 \<le> cur" "cur < 48"
  shows "valid_ext \<lparr>ext_id = uint (drop_bit 1 (xs ! 0)), ext_frame = cur, ext_data = take (len - l - h) (drop h xs), ext_len = int (len - l - h)\<rparr>"
proof -
  have "h + l \<le> len" using skip_extension_inside [OF assms(3,2,1)] by auto
  then have "length (take (len - l - h) (drop h xs)) = len - l - h" using assms(3) by auto
  moreover have "uint (drop_bit 1 (xs ! 0)) \<le> 127"
    using uint_bounded [of "xs ! 0"] unfolding drop_bit_eq_div uint_div_distrib by simp
  ultimately show ?thesis using assms(4-6) skip_short [OF assms(1,2)] by (simp add: valid_ext_def del: One_nat_def)
qed

lemma count_loop_parse:
  assumes "opus_ext_count_loop xs len c = Inr n" "len \<le> length xs" "length exts + n \<le> nb + c" "0 \<le> cur" "cur < 48"
    "\<forall>e\<in>set exts. valid_ext e" "opus_ext_parse_loop xs len cur exts nb = (err, es, k)"
  shows "c \<le> n \<and> (\<forall>e\<in>set es. valid_ext e) \<and> length es = k \<and> (err = None \<and> k + c = length exts + n \<or> err = Some OPUS_INVALID_PACKET)"
  using assms
proof (induction len arbitrary: xs c cur exts rule: less_induct)
  case (less len)
  show ?case
  proof (cases "len = 0")
    case True
    then show ?thesis using less by (auto simp: opus_ext_parse_loop.simps opus_ext_count_loop.simps)
  next
    case False
    then have len: "0 < len" by simp
    define i where "i = uint (drop_bit 1 (xs ! 0))"
    obtain d l h where p: "skip_extension xs len 0 = Some (d, l, h)" and cn: "opus_ext_count_loop d l (if i > 1 then c + 1 else c) = Inr n"
      using count_loop_step [OF len less(2)] unfolding i_def by blast
    have q: "d = drop (len - l) xs" "h + l \<le> len" "0 < h" using skip_extension_inside [OF less(3) len p] by auto
    have l: "l < len" "l \<le> length d" using q less(3) by auto
    note IH = less(1) [OF l(1) cn l(2)]
    note run = less(8) [unfolded parse_loop_step [OF len p], folded i_def, unfolded Let_def]
    show ?thesis
    proof (cases "i > 1")
      case True
      define e where "e = \<lparr>ext_id = i, ext_frame = cur, ext_data = take (len - l - h) (drop h xs), ext_len = int (len - l - h)\<rparr>"
      have "c + 1 \<le> n" using count_loop_mono [OF cn] True by simp
      then have "opus_ext_parse_loop d l cur (exts @ [e]) nb = (err, es, k)" using run True less(4) by (simp add: e_def)
      moreover have "valid_ext e" using parsed_ext_valid [OF p len less(3)] True less(5,6) unfolding e_def i_def by blast
      ultimately have "(if i > 1 then c + 1 else c) \<le> n \<and> (\<forall>e\<in>set es. valid_ext e) \<and> length es = k \<and>
          (err = None \<and> k + (if i > 1 then c + 1 else c) = length (exts @ [e]) + n \<or> err = Some OPUS_INVALID_PACKET)"
        using less(4-7) True by (intro IH [of "exts @ [e]" cur]) auto
      then show ?thesis using True by auto
    next
      case False
      define cur' where "cur' = (if i = 1 then if xs ! 0 AND 1 = 0 then cur + 1 else if len \<ge> 2 then cur + uint (xs ! 1) else cur else cur)"
      have "0 \<le> cur'" using less(5) by (simp add: cur'_def)
      have r: "(if i = 1 \<and> 48 \<le> cur' then (Some OPUS_INVALID_PACKET, exts, length exts) else opus_ext_parse_loop d l cur' exts nb) = (err, es, k)"
        using run unfolding cur'_def [symmetric] if_not_P [OF False] .
      show ?thesis
      proof (cases "48 \<le> cur'")
        case True
        then have "i = 1" using less(6) by (auto simp: cur'_def split: if_splits)
        then show ?thesis using r True less(7) count_loop_mono [OF less(2)] by auto
      next
        case f: False
        have "(if i > 1 then c + 1 else c) \<le> n \<and> (\<forall>e\<in>set es. valid_ext e) \<and> length es = k \<and>
            (err = None \<and> k + (if i > 1 then c + 1 else c) = length exts + n \<or> err = Some OPUS_INVALID_PACKET)"
          using r f False less(4,7) \<open>0 \<le> cur'\<close> by (intro IH [of exts cur']) auto
        then show ?thesis using False by auto
      qed
    qed
  qed
qed

lemma extensions_count_parse:
  assumes "opus_packet_extensions_count data len = Inr n" "len \<le> length data" "n \<le> nb"
    "opus_packet_extensions_parse data len nb = (err, es, k)"
  shows "(\<forall>e\<in>set es. valid_ext e) \<and> length es = k \<and> (err = None \<and> k = n \<or> err = Some OPUS_INVALID_PACKET)"
  using count_loop_parse [of data len 0 n "[]" nb 0 err es k] assms
  by (simp add: opus_packet_extensions_count_def opus_packet_extensions_parse_def)

lemma extensions_parse_inside:
  "opus_packet_extensions_parse (data @ rest) (length data) nb = opus_packet_extensions_parse data (length data) nb"
  by (simp add: opus_packet_extensions_parse_def parse_loop_inside)

end
