(* ===== verification/Opus_Layout.thy ===== *)
theory Opus_Layout
  imports Opus_Packet
begin

text \<open>
  The converse of the parser's safety: a byte string laid out as the format prescribes is accepted, and the frames that the parser
  reports are the ones laid out. One lemma for each packet code; the repacketizer's output is an instance of them.
\<close>

unbundle bit_operations_syntax

text \<open>Writing a block at a position of a list.\<close>

definition poke :: "'a list \<Rightarrow> nat \<Rightarrow> 'a list \<Rightarrow> 'a list" where
  "poke xs i ys = take i xs @ ys @ drop (i + length ys) xs"

lemma length_poke [simp]: "i + length ys \<le> length xs \<Longrightarrow> length (poke xs i ys) = length xs"
  by (simp add: poke_def)

lemma poke_Nil [simp]: "poke xs i [] = xs" by (simp add: poke_def)

lemma poke_update: "i < length xs \<Longrightarrow> poke (xs[i := y]) (Suc i) ys = poke xs i (y # ys)"
  by (simp add: poke_def take_Suc_conv_app_nth)

definition frame_sizes :: "int list \<Rightarrow> bool" where
  "frame_sizes ls \<longleftrightarrow> (\<forall>s\<in>set ls. 0 \<le> s \<and> s \<le> 1275)"

definition size_bytes :: "int list \<Rightarrow> bytes" where
  "size_bytes ls = concat (map encode_size ls)"

lemma frame_sizes_sum: "frame_sizes ls \<Longrightarrow> 0 \<le> sum_list ls"
  by (rule sum_list_nonneg) (auto simp: frame_sizes_def)

lemma length_encode_size: "length (encode_size s) = 1 + of_bool (s \<ge> 252)"
  by (simp add: encode_size_def Let_def)

section \<open>The loops\<close>

lemma pad_loop_layout:
  assumes "p < 255" "len \<ge> 255 * int k + 1 + int p"
  shows "opus_pad_loop (pre @ replicate k 255 @ word_of_nat p # rest) (length pre) len pad =
    Some (length pre + k + 1, len - 255 * int k - 1 - int p, pad + 254 * int k + int p)"
  using assms
proof (induction k arbitrary: pre len pad)
  case 0
  have "uint (word_of_nat p :: u8) = int p" using 0(1) by (simp add: unsigned_of_nat take_bit_nat_eq_self)
  then show ?case using 0 by (subst opus_pad_loop.simps) (simp add: Let_def)
next
  case (Suc k)
  have "opus_pad_loop (pre @ replicate (Suc k) 255 @ word_of_nat p # rest) (length pre) len pad =
      opus_pad_loop ((pre @ [255]) @ replicate k 255 @ word_of_nat p # rest) (length (pre @ [255])) (len - 1 - 254) (pad + 254)"
    using Suc by (subst opus_pad_loop.simps) (simp add: Let_def)
  then show ?case using Suc(1) [of "len - 1 - 254" "pre @ [255]" "pad + 254"] Suc(2,3) by simp
qed

lemma vbr_loop_layout:
  assumes "frame_sizes ls" "len \<ge> int (length (size_bytes ls)) + sum_list ls" "i + length ls \<le> length sizes"
  shows "opus_vbr_loop (pre @ size_bytes ls @ rest) (length pre) len lsz sizes i (length ls) =
    Some (length pre + length (size_bytes ls), len - int (length (size_bytes ls)),
          lsz - int (length (size_bytes ls)) - sum_list ls, poke sizes i ls)"
  using assms
proof (induction ls arbitrary: pre len lsz sizes i)
  case Nil
  then show ?case by (simp add: size_bytes_def)
next
  case (Cons s ls)
  have s: "0 \<le> s" "s \<le> 1275" "frame_sizes ls" using Cons(2) by (auto simp: frame_sizes_def)
  let ?e = "encode_size s"
  have b: "size_bytes (s # ls) = ?e @ size_bytes ls" by (simp add: size_bytes_def)
  have n: "s \<le> len - int (length ?e)" "int (length ?e) \<le> len" using Cons(3) frame_sizes_sum [OF s(3)] s(1) unfolding b by auto
  have p: "parse_size (pre @ size_bytes (s # ls) @ rest) (length pre) len = (int (length ?e), s)"
    using parse_encode_size [OF s(1,2) n(2), of pre "size_bytes ls @ rest"] by (simp add: b)
  have "opus_vbr_loop ((pre @ ?e) @ size_bytes ls @ rest) (length (pre @ ?e)) (len - int (length ?e)) (lsz - (int (length ?e) + s)) (sizes[i := s]) (Suc i) (length ls) =
      Some (length (pre @ ?e) + length (size_bytes ls), len - int (length ?e) - int (length (size_bytes ls)),
        lsz - (int (length ?e) + s) - int (length (size_bytes ls)) - sum_list ls, poke (sizes[i := s]) (Suc i) ls)"
    using Cons(3,4) s(1) by (intro Cons.IH [OF s(3)]) (auto simp: b)
  then show ?case using p n s(1) Cons(4) by (simp add: b poke_update algebra_simps)
qed

section \<open>Code 3\<close>

text \<open>The length bytes of the padding, and how much padding they announce.\<close>

definition pad_bytes :: "bytes \<Rightarrow> nat \<Rightarrow> bool" where
  "pad_bytes P z \<longleftrightarrow> (P = [] \<and> z = 0) \<or> (\<exists>k p. p < 255 \<and> P = replicate k 255 @ [word_of_nat p] \<and> z = 254 * k + p)"

lemma pad_loop_bytes:
  assumes "pad_bytes P z" "P \<noteq> []" "len \<ge> int (length P + z)"
  shows "opus_pad_loop (pre @ P @ rest) (length pre) len 0 = Some (length pre + length P, len - int (length P) - int z, int z)"
proof -
  obtain k p where k: "p < 255" "P = replicate k 255 @ [word_of_nat p]" "z = 254 * k + p" using assms(1,2) by (auto simp: pad_bytes_def)
  then show ?thesis using pad_loop_layout [OF k(1), of k len pre rest 0] assms(3) by simp
qed

definition vbr_bytes :: "bool \<Rightarrow> int list \<Rightarrow> bytes" where
  "vbr_bytes vbr ls = (if vbr then size_bytes (butlast ls) else [])"

definition code3_packet :: "u8 \<Rightarrow> u8 \<Rightarrow> bytes \<Rightarrow> bool \<Rightarrow> int list \<Rightarrow> bytes \<Rightarrow> bytes \<Rightarrow> bytes \<Rightarrow> bytes" where
  "code3_packet b0 b1 P vbr ls D F Z = b0 # b1 # P @ vbr_bytes vbr ls @ D @ F @ Z"

definition code3_layout :: "u8 \<Rightarrow> bytes \<Rightarrow> bytes \<Rightarrow> bytes \<Rightarrow> bytes \<Rightarrow> int list \<Rightarrow> bool \<Rightarrow> bool \<Rightarrow> int \<Rightarrow> bool" where
  "code3_layout b1 P D F Z ls vbr sd fs \<longleftrightarrow>
     ls \<noteq> [] \<and> fs * int (length ls) \<le> 5760 \<and> unat (b1 AND 0x3F) = length ls \<and>
     (b1 AND 0x80 \<noteq> 0 \<longleftrightarrow> vbr) \<and> (b1 AND 0x40 \<noteq> 0 \<longleftrightarrow> P \<noteq> []) \<and>
     pad_bytes P (length Z) \<and> frame_sizes ls \<and> int (length F) = sum_list ls \<and>
     (\<not> vbr \<longrightarrow> ls = replicate (length ls) (last ls)) \<and> D = (if sd then encode_size (last ls) else [])"

lemma sum_butlast: "ls \<noteq> [] \<Longrightarrow> sum_list ls = sum_list (butlast ls) + last ls" for ls :: "int list"
  by (metis add.right_neutral append_butlast_last_id sum_list.Cons sum_list.Nil sum_list.append)

lemma sizes_butlast:
  assumes "frame_sizes ls" "ls \<noteq> []"
  shows "frame_sizes (butlast ls)" "0 \<le> last ls" "last ls \<le> 1275"
  using assms by (auto simp: frame_sizes_def dest: in_set_butlastD)

lemma after_pad:
  assumes "code3_layout b1 P D F Z ls vbr sd fs"
  shows "(if b1 AND 0x40 \<noteq> 0 then opus_pad_loop (code3_packet b0 b1 P vbr ls D F Z) 2 (int (length (code3_packet b0 b1 P vbr ls D F Z)) - 1 - 1) 0
      else Some (2, int (length (code3_packet b0 b1 P vbr ls D F Z)) - 1 - 1, 0)) =
    Some (2 + length P, int (length (vbr_bytes vbr ls)) + int (length D) + int (length F), int (length Z))"
proof (cases "P = []")
  case True
  then show ?thesis using assms by (auto simp: code3_layout_def code3_packet_def pad_bytes_def)
next
  case False
  let ?n = "int (length (code3_packet b0 b1 P vbr ls D F Z))" and ?r = "vbr_bytes vbr ls @ D @ F @ Z"
  have "opus_pad_loop ([b0, b1] @ P @ ?r) (length [b0, b1]) (?n - 1 - 1) 0 =
      Some (length [b0, b1] + length P, ?n - 1 - 1 - int (length P) - int (length Z), int (length Z))"
    using assms by (intro pad_loop_bytes [OF _ False]) (auto simp: code3_layout_def code3_packet_def)
  moreover have "b1 AND 0x40 \<noteq> 0" using False assms by (simp add: code3_layout_def)
  ultimately show ?thesis by (simp add: code3_packet_def numeral_2_eq_2)
qed

lemma code3_vbr:
  assumes L: "code3_layout b1 P D F Z ls vbr sd fs" and v: "vbr" "length ls \<le> length sz"
    and p: "packet = code3_packet b0 b1 P vbr ls D F Z"
  shows "opus_packet_code3 packet (int (length packet) - 1) sd sz fs =
    Some \<lparr>hd_pos = 2 + length P + length (vbr_bytes vbr ls), hd_len = int (length D) + int (length F), hd_last_size = int (length D) + last ls,
      hd_count = length ls, hd_cbr = False, hd_sizes = poke sz 0 (butlast ls), hd_pad = int (length Z)\<rparr>"
proof -
  let ?S = "size_bytes (butlast ls)" and ?n = "int (length (size_bytes (butlast ls))) + int (length D) + int (length F)"
  have f: "ls \<noteq> []" "fs * int (length ls) \<le> 5760" "unat (b1 AND 0x3F) = length ls" "b1 AND 0x80 \<noteq> 0" "int (length F) = sum_list ls" "frame_sizes ls"
    using L v(1) by (auto simp: code3_layout_def)
  note b = sizes_butlast [OF f(6,1)] and s = sum_butlast [OF f(1)]
  have "opus_vbr_loop ((b0 # b1 # P) @ ?S @ D @ F @ Z) (length (b0 # b1 # P)) ?n ?n sz 0 (length (butlast ls)) =
    Some (length (b0 # b1 # P) + length ?S, ?n - int (length ?S), ?n - int (length ?S) - sum_list (butlast ls), poke sz 0 (butlast ls))"
    using b f(5) s v(2) by (intro vbr_loop_layout) auto
  then have w: "opus_vbr_loop packet (2 + length P) ?n ?n sz 0 (length ls - 1) =
      Some (2 + length P + length ?S, int (length D) + int (length F), int (length D) + last ls, poke sz 0 (butlast ls))"
    using v(1) f(5) s by (simp add: p code3_packet_def vbr_bytes_def)
  have c: "packet ! 1 = b1" and l: "\<not> int (length packet) - 1 < 1" by (simp_all add: p code3_packet_def)
  have e: "vbr_bytes vbr ls = ?S" using v(1) by (simp add: vbr_bytes_def)
  show ?thesis unfolding opus_packet_code3_def Let_def c after_pad [OF L, of b0, folded p] f(3) e
    using l f(1,2,4) w b(2) by simp
qed

lemma code3_cbr:
  assumes L: "code3_layout b1 P D F Z ls vbr sd fs" and v: "\<not> vbr" and p: "packet = code3_packet b0 b1 P vbr ls D F Z"
  shows "opus_packet_code3 packet (int (length packet) - 1) sd sz fs =
    Some \<lparr>hd_pos = 2 + length P + length (vbr_bytes vbr ls), hd_len = int (length D) + int (length F),
      hd_last_size = (if sd then int (length packet) - 1 else last ls),
      hd_count = length ls, hd_cbr = True, hd_sizes = (if sd then sz else replicate (length ls - 1) (last ls) @ drop (length ls - 1) sz),
      hd_pad = int (length Z)\<rparr>"
proof -
  have f: "ls \<noteq> []" "fs * int (length ls) \<le> 5760" "unat (b1 AND 0x3F) = length ls" "b1 AND 0x80 = 0" "int (length F) = sum_list ls" "frame_sizes ls"
      "ls = replicate (length ls) (last ls)" "D = (if sd then encode_size (last ls) else [])"
    using L v(1) by (auto simp: code3_layout_def)
  have "sum_list ls = int (length ls) * last ls" by (subst f(7)) (simp add: sum_list_replicate)
  then have m: "int (length F) = int (length ls) * last ls" using f(5) by simp
  have q: "int (length F) div int (length ls) = last ls" using m f(1) by simp
  have c: "packet ! 1 = b1" and l: "\<not> int (length packet) - 1 < 1" by (simp_all add: p code3_packet_def)
  have s: "vbr_bytes vbr ls = []" using v by (simp add: vbr_bytes_def)
  show ?thesis unfolding opus_packet_code3_def Let_def c after_pad [OF L, of b0, folded p] f(3) s
    using l f(1,2,4,8) q m int16_of_small [OF sizes_butlast(2,3) [OF f(6,1)]] by simp
qed

section \<open>The whole packet\<close>

lemma take_last_update:
  assumes "take (length ls - 1) sz = butlast ls" "ls \<noteq> []" "length ls \<le> length sz"
  shows "take (length ls) (sz[length ls - 1 := last ls]) = ls"
proof -
  obtain n where n: "length ls = Suc n" using assms(2) by (cases ls) auto
  then have "take (length ls) (sz[length ls - 1 := last ls]) = take n sz @ [last ls]" using assms(3)
    by (simp add: take_Suc_conv_app_nth)
  then show ?thesis using assms(1,2) n by simp
qed

lemma replicate_take:
  assumes "ls = replicate (length ls) (last ls)" "ls \<noteq> []" "length ls \<le> length sz"
  shows "take (length ls) (replicate (length ls - 1) (last ls) @ drop (length ls - 1) (sz[length ls - 1 := last ls])) = ls"
proof -
  obtain n where n: "length ls = Suc n" using assms(2) by (cases ls) auto
  have "take 1 (drop n (sz[n := last ls])) = [last ls]" using n assms(3)
    by (simp add: take_Suc_conv_app_nth drop_update_cancel hd_drop_conv_nth take_Suc)
  then have "take (length ls) (replicate (length ls - 1) (last ls) @ drop (length ls - 1) (sz[length ls - 1 := last ls])) =
      replicate n (last ls) @ [last ls]" using n by simp
  then show ?thesis using assms(1) n by (metis replicate_Suc replicate_append_same)
qed

lemma butlast_replicate: "butlast (replicate n x) = replicate (n - 1) x"
  by (cases n) (simp, metis butlast_snoc diff_Suc_1 replicate_Suc replicate_append_same)

lemma tail_layout:
  assumes data: "data = pre @ D @ rest" "hd_pos h = length pre" "D = (if sd then encode_size (last ls) else [])"
    and ls: "frame_sizes ls" "ls \<noteq> []" "length ls \<le> length (hd_sizes h)" "hd_count h = length ls"
    and len: "hd_len h = int (length D) + sum_list ls"
    and cbr: "hd_cbr h \<Longrightarrow> ls = replicate (length ls) (last ls)"
    and known: "\<not> (hd_cbr h \<and> sd) \<Longrightarrow> take (length ls - 1) (hd_sizes h) = butlast ls \<and> hd_last_size h = int (length D) + last ls"
  shows "\<exists>sz. opus_packet_tail data sd h = Some (length pre + length D, sz) \<and> take (length ls) sz = ls"
proof -
  note b = sizes_butlast [OF ls(1,2)] and s = sum_butlast [OF ls(2)]
  show ?thesis
  proof (cases sd)
    case True
    have l: "last ls \<le> sum_list ls" using frame_sizes_sum [OF b(1)] s by simp
    have p: "parse_size data (hd_pos h) (hd_len h) = (int (length D), last ls)"
      unfolding data(1,2) using data(3) True len b l parse_encode_size [of "last ls" "hd_len h" pre rest] by simp
    show ?thesis
    proof (cases "hd_cbr h")
      case c: True
      have "sum_list ls = last ls * int (length ls)" by (subst cbr [OF c]) (simp add: sum_list_replicate mult.commute)
      then show ?thesis using True c p l len b(2) ls(4) data(2) replicate_take [OF cbr [OF c] ls(2,3)]
        by (simp add: opus_packet_tail_def Let_def)
    next
      case False
      then show ?thesis using True p l len b(2) ls(4) data(2) known take_last_update [OF _ ls(2,3)]
        by (simp add: opus_packet_tail_def Let_def)
    qed
  next
    case False
    then show ?thesis using known b data(2,3) ls(4) take_last_update [OF _ ls(2,3)]
      by (simp add: opus_packet_tail_def Let_def int16_of_small)
  qed
qed

definition parses_as :: "bytes \<Rightarrow> bool \<Rightarrow> int list \<Rightarrow> int list \<Rightarrow> nat \<Rightarrow> nat \<Rightarrow> bool" where
  "parses_as data sd sz ls off z \<longleftrightarrow>
    (\<exists>r. opus_packet_parse_impl data (int (length data)) sd (Some sz) = Inr r \<and> op_count r = length ls \<and>
      take (length ls) (op_sizes r) = ls \<and> op_payload_offset r = off \<and> op_padding_len r = int z)"

lemma parses_asI:
  assumes "opus_packet_code data (int (length data)) sd sz = Some h" "opus_packet_tail data sd h = Some (off, sz')"
    "take (length ls) sz' = ls" "hd_count h = length ls" "hd_pad h = int z" "data \<noteq> []"
  shows "parses_as data sd sz ls off z"
  using assms unfolding parses_as_def opus_packet_parse_impl_def by (auto simp: split: prod.splits)

lemma code3_parses:
  assumes L: "code3_layout b1 P D F Z ls vbr sd (opus_packet_get_samples_per_frame b0 48000)" and b0: "b0 AND 0x3 = 3"
    and sz: "length ls \<le> length sz"
  shows "parses_as (code3_packet b0 b1 P vbr ls D F Z) sd sz ls (2 + length P + length (vbr_bytes vbr ls) + length D) (length Z)"
proof -
  define p where "p = code3_packet b0 b1 P vbr ls D F Z"
  have f: "ls \<noteq> []" "frame_sizes ls" "int (length F) = sum_list ls" "\<not> vbr \<longrightarrow> ls = replicate (length ls) (last ls)"
    "D = (if sd then encode_size (last ls) else [])" using L by (auto simp: code3_layout_def)
  have p: "p = (b0 # b1 # P @ vbr_bytes vbr ls) @ D @ F @ Z" by (simp add: p_def code3_packet_def)
  have c: "opus_packet_code p (int (length p)) sd sz =
      opus_packet_code3 p (int (length p) - 1) sd sz (opus_packet_get_samples_per_frame b0 48000)"
    using b0 by (simp add: opus_packet_code_def p Let_def)
  obtain h where h: "opus_packet_code p (int (length p)) sd sz = Some h" "hd_pos h = length (b0 # b1 # P @ vbr_bytes vbr ls)"
    "hd_len h = int (length D) + sum_list ls" "hd_count h = length ls" "hd_cbr h = (\<not> vbr)" "hd_pad h = int (length Z)"
    "length ls \<le> length (hd_sizes h)"
    "\<not> (hd_cbr h \<and> sd) \<longrightarrow> take (length ls - 1) (hd_sizes h) = butlast ls \<and> hd_last_size h = int (length D) + last ls"
  proof (cases vbr)
    case True
    show thesis by (rule that) (use c code3_vbr [OF L True sz p_def] True f(3) sz in \<open>auto simp: poke_def\<close>)
  next
    case False
    have "butlast ls = replicate (length ls - 1) (last ls)" using f(4) False by (metis butlast_replicate)
    then show thesis
      by (intro that) (use c code3_cbr [OF L False p_def, of sz] False f(3,5) sz in \<open>auto split: if_splits\<close>)
  qed
  have "\<exists>sz'. opus_packet_tail p sd h = Some (length (b0 # b1 # P @ vbr_bytes vbr ls) + length D, sz') \<and> take (length ls) sz' = ls"
    using tail_layout [OF p h(2) f(5,2,1) h(7,4,3)] f(4) h(5,8) by blast
  then obtain sz' where "opus_packet_tail p sd h = Some (length (b0 # b1 # P @ vbr_bytes vbr ls) + length D, sz')" "take (length ls) sz' = ls" by blast
  then show ?thesis using parses_asI [OF h(1) _ _ h(4,6)] unfolding p_def [symmetric] by (simp add: p)
qed

lemma small_parses:
  assumes ls: "frame_sizes ls" "ls \<noteq> []" "length ls \<le> length sz" "int (length F) = sum_list ls"
    and D: "D = (if sd then encode_size (last ls) else [])"
    and code: "b0 AND 0x3 = 0 \<and> length ls = 1 \<and> S = [] \<or> b0 AND 0x3 = 1 \<and> length ls = 2 \<and> ls ! 1 = ls ! 0 \<and> S = [] \<or>
      b0 AND 0x3 = 2 \<and> length ls = 2 \<and> S = encode_size (ls ! 0)"
  shows "parses_as (b0 # S @ D @ F) sd sz ls (1 + length S + length D) 0"
proof -
  define p where "p = b0 # S @ D @ F"
  have p: "p = (b0 # S) @ D @ F" by (simp add: p_def)
  note b = sizes_butlast [OF ls(1,2)] and s = sum_butlast [OF ls(2)]
  obtain h where h: "opus_packet_code p (int (length p)) sd sz = Some h" "hd_pos h = length (b0 # S)" "hd_len h = int (length D) + sum_list ls"
    "hd_count h = length ls" "hd_pad h = 0" "length ls \<le> length (hd_sizes h)" "hd_cbr h \<Longrightarrow> ls = replicate (length ls) (last ls)"
    "\<not> (hd_cbr h \<and> sd) \<longrightarrow> take (length ls - 1) (hd_sizes h) = butlast ls \<and> hd_last_size h = int (length D) + last ls"
    using code
  proof (elim disjE conjE)
    assume a: "b0 AND 0x3 = 0" "length ls = 1" "S = []"
    then obtain x where "ls = [x]" by (auto simp: length_Suc_conv)
    then show thesis by (intro that) (use a ls in \<open>auto simp: opus_packet_code_def p_def Let_def\<close>)
  next
    assume a: "b0 AND 0x3 = 1" "length ls = 2" "ls ! 1 = ls ! 0" "S = []"
    then obtain x where x: "ls = [x, x]" by (auto simp: length_Suc_conv numeral_2_eq_2)
    have i: "int16_of x = x" using ls(1) by (auto simp: x frame_sizes_def int16_of_small)
    obtain y z zs where "sz = y # z # zs" using ls(3) x by (cases sz; cases "tl sz") auto
    note z = this
    show thesis
    proof (cases sd)
      case True
      then show thesis by (intro that) (use a ls D z in \<open>auto simp: opus_packet_code_def p_def Let_def x numeral_2_eq_2\<close>)
    next
      case False
      then show thesis by (intro that) (use a ls D i z in \<open>auto simp: opus_packet_code_def p_def Let_def x numeral_2_eq_2\<close>)
    qed
  next
    assume a: "b0 AND 0x3 = 2" "length ls = 2" "S = encode_size (ls ! 0)"
    then obtain x y where x: "ls = [x, y]" by (auto simp: length_Suc_conv numeral_2_eq_2)
    have xy: "0 \<le> x" "x \<le> 1275" "0 \<le> y" using ls(1) by (auto simp: x frame_sizes_def)
    have q: "parse_size p 1 (int (length p) - 1) = (int (length S), x)"
      using parse_encode_size [OF xy(1,2), of "int (length p) - 1" "[b0]" "D @ F"] a(3) by (simp add: p_def x)
    obtain u v zs where "sz = u # v # zs" using ls(3) x by (cases sz; cases "tl sz") auto
    moreover have "p ! 0 = b0" "int (length p) = 1 + int (length S) + int (length D) + int (length F)" by (simp_all add: p_def)
    ultimately show thesis
      by (intro that) (use a(1) ls q xy in \<open>auto simp: opus_packet_code_def Let_def x\<close>)
  qed
  have "\<exists>sz'. opus_packet_tail p sd h = Some (length (b0 # S) + length D, sz') \<and> take (length ls) sz' = ls"
    using tail_layout [OF p h(2) D ls(1,2) h(6,4,3,7)] h(8) by blast
  then obtain sz' where "opus_packet_tail p sd h = Some (length (b0 # S) + length D, sz')" "take (length ls) sz' = ls" by blast
  then show ?thesis using parses_asI [OF h(1) _ _ h(4), of _ _ 0] h(5) unfolding p_def [symmetric] by (simp add: p)
qed

section \<open>The frames of a parsed packet\<close>

definition opus_frames :: "bytes \<Rightarrow> opus_parsed \<Rightarrow> bytes list" where
  "opus_frames data r = map (\<lambda>i. take (nat (op_sizes r ! i)) (drop (op_frames r ! i) data)) [0..<op_count r]"

lemma sum_lengths: "sum_list (map (int \<circ> length) fs) = int (length (concat fs))"
  by (induction fs) auto

lemma concat_nth:
  "i < length fs \<Longrightarrow> take (length (fs ! i)) (drop (length (concat (take i fs))) (concat fs @ z)) = fs ! i"
proof (induction fs arbitrary: i)
  case (Cons f fs)
  then show ?case by (cases i) auto
qed simp

lemma parses_as_frames:
  assumes "parses_as (pre @ concat fs @ Z) sd sz (map (int \<circ> length) fs) (length pre) (length Z)" "length fs \<le> length sz"
  obtains r where "opus_packet_parse_impl (pre @ concat fs @ Z) (int (length (pre @ concat fs @ Z))) sd (Some sz) = Inr r"
    "opus_frames (pre @ concat fs @ Z) r = fs" "op_count r = length fs" "op_toc r = (pre @ concat fs @ Z) ! 0"
    "drop (op_padding r) (pre @ concat fs @ Z) = Z" "op_padding_len r = int (length Z)"
proof -
  let ?d = "pre @ concat fs @ Z"
  obtain r where r: "opus_packet_parse_impl ?d (int (length ?d)) sd (Some sz) = Inr r" "op_count r = length fs"
      "take (length fs) (op_sizes r) = map (int \<circ> length) fs" "op_payload_offset r = length pre" "op_padding_len r = int (length Z)"
    using assms(1) by (auto simp: parses_as_def)
  have ok: "parsed_ok ?d (int (length ?d)) sd r" using parse_impl_ok [OF r(1)] assms(2) r(2) by simp
  have s: "op_sizes r ! i = int (length (fs ! i))" if "i < length fs" for i
    using that arg_cong [OF r(3), of "\<lambda>xs. xs ! i"] by (simp add: nth_append)
  have t: "nat (sum_list (take i (op_sizes r))) = length (concat (take i fs))" if "i \<le> length fs" for i
  proof -
    have "take i (op_sizes r) = take i (take (length fs) (op_sizes r))" using that by (simp add: min_def)
    then show ?thesis unfolding r(3) by (simp add: take_map sum_lengths)
  qed
  have "op_frames r ! i = length pre + length (concat (take i fs))" if "i < length fs" for i
    using ok that r(2,4) t [of i] by (simp add: parsed_ok_def)
  then have "opus_frames ?d r = map (\<lambda>i. fs ! i) [0..<length fs]"
    unfolding opus_frames_def r(2) by (intro map_cong) (simp_all add: s concat_nth [simplified])
  then have "opus_frames ?d r = fs" by (simp add: map_nth)
  moreover have "op_padding r = length pre + length (concat fs)" using ok r(2,4) t [of "length fs"] by (simp add: parsed_ok_def)
  moreover from this have "drop (op_padding r) ?d = Z" by simp
  moreover have "op_toc r = ?d ! 0" using ok by (simp add: parsed_ok_def)
  ultimately show thesis using that r(1,2,5) by blast
qed

end
