(* ===== verification/Opus_Repacketizer.thy ===== *)
theory Opus_Repacketizer
  imports Opus_Extensions Opus_Layout
begin

text \<open>
  Splitting and merging Opus packets: \<open>src/Vendor/opus/src/repacketizer.c\<close>. As in the extension parser a pointer is the list of bytes from it on
  (a null pointer the empty list); the packets handed to the repacketizer must stay unchanged while it is used, so
  these lists are values. The caller's output buffer is an explicit byte list that the code writes by position.
\<close>

unbundle bit_operations_syntax

record repacketizer =
  rp_toc :: u8
  rp_nb_frames :: nat
  rp_frames :: "bytes list"
  rp_len :: "int list"
  rp_framesize :: int
  rp_paddings :: "bytes list"
  rp_padding_len :: "int list"

section \<open>Collecting frames\<close>

definition opus_repacketizer_init :: "repacketizer \<Rightarrow> repacketizer" where
  "opus_repacketizer_init rp = rp\<lparr>rp_nb_frames := 0\<rparr>"

definition opus_repacketizer_get_nb_frames :: "repacketizer \<Rightarrow> nat" where
  "opus_repacketizer_get_nb_frames rp = rp_nb_frames rp"

text \<open>The loop that clears the padding of all but the first of the new frames.\<close>

fun opus_rp_clear_loop :: "nat \<Rightarrow> repacketizer \<Rightarrow> repacketizer" where
  "opus_rp_clear_loop 0 rp = rp"
| "opus_rp_clear_loop (Suc n) rp =
    (let nb = rp_nb_frames rp + 1
     in opus_rp_clear_loop n
          (rp\<lparr>rp_nb_frames := nb, rp_padding_len := (rp_padding_len rp)[nb := 0], rp_paddings := (rp_paddings rp)[nb := []]\<rparr>))"

text \<open>
  \<open>None\<close> is \<open>OPUS_OK\<close>. The part of the length array from \<open>nb_frames\<close> on is scratch space: a failing parse may overwrite it, and
  nothing reads it before the next successful parse, so it is left alone here in that case.
\<close>

definition opus_repacketizer_cat_impl :: "repacketizer \<Rightarrow> bytes \<Rightarrow> int \<Rightarrow> bool \<Rightarrow> opus_error option \<times> repacketizer" where
  "opus_repacketizer_cat_impl rp data len self_delimited =
    (if len < 1 then (Some OPUS_INVALID_PACKET, rp)
     else if rp_nb_frames rp \<noteq> 0 \<and> rp_toc rp AND 0xFC \<noteq> data ! 0 AND 0xFC then (Some OPUS_INVALID_PACKET, rp)
     else
       let rp = (if rp_nb_frames rp = 0
                 then rp\<lparr>rp_toc := data ! 0, rp_framesize := opus_packet_get_samples_per_frame (data ! 0) 8000\<rparr> else rp)
       in case opus_packet_get_nb_frames data len of Inl _ \<Rightarrow> (Some OPUS_INVALID_PACKET, rp)
          | Inr curr_nb_frames \<Rightarrow>
            if curr_nb_frames < 1 then (Some OPUS_INVALID_PACKET, rp)
            else if int (curr_nb_frames + rp_nb_frames rp) * rp_framesize rp > 960 then (Some OPUS_INVALID_PACKET, rp)
            else
              let nb = rp_nb_frames rp
              in case opus_packet_parse_impl data len self_delimited (Some (drop nb (rp_len rp))) of Inl e \<Rightarrow> (Some e, rp)
                 | Inr r \<Rightarrow>
                   let rp = rp\<lparr>rp_frames := poke (rp_frames rp) nb (map (\<lambda>off. drop off data) (op_frames r)),
                               rp_len := poke (rp_len rp) nb (op_sizes r),
                               rp_paddings := (rp_paddings rp)[nb := drop (op_padding r) data],
                               rp_padding_len := (rp_padding_len rp)[nb := op_padding_len r]\<rparr>;
                       rp = opus_rp_clear_loop (curr_nb_frames - 1) rp
                   in (None, rp\<lparr>rp_nb_frames := rp_nb_frames rp + 1\<rparr>))"

definition opus_repacketizer_cat :: "repacketizer \<Rightarrow> bytes \<Rightarrow> int \<Rightarrow> opus_error option \<times> repacketizer" where
  "opus_repacketizer_cat rp data len = opus_repacketizer_cat_impl rp data len False"

section \<open>Writing a packet\<close>

fun opus_rp_count_extensions :: "repacketizer \<Rightarrow> nat list \<Rightarrow> nat \<Rightarrow> nat" where
  "opus_rp_count_extensions rp [] total_ext = total_ext"
| "opus_rp_count_extensions rp (i # is) total_ext =
    (case opus_packet_extensions_count (rp_paddings rp ! i) (nat (rp_padding_len rp ! i)) of
       Inl _ \<Rightarrow> opus_rp_count_extensions rp is total_ext
     | Inr n \<Rightarrow> opus_rp_count_extensions rp is (if n > 0 then total_ext + n else total_ext))"

fun opus_rp_gather_extensions ::
    "repacketizer \<Rightarrow> nat \<Rightarrow> nat \<Rightarrow> nat list \<Rightarrow> opus_extension list \<Rightarrow> opus_extension list option" where
  "opus_rp_gather_extensions rp b total_ext [] exts = Some exts"
| "opus_rp_gather_extensions rp b total_ext (i # is) exts =
    (case opus_packet_extensions_parse (rp_paddings rp ! i) (nat (rp_padding_len rp ! i)) (total_ext - length exts) of
       (Some _, _, _) \<Rightarrow> None
     | (None, es, _) \<Rightarrow>
       opus_rp_gather_extensions rp b total_ext is (exts @ map (\<lambda>e. e\<lparr>ext_frame := ext_frame e + int (i - b)\<rparr>) es))"

text \<open>The header bytes and the total size for codes 0 to 2; nothing is written for more than two frames.\<close>

definition opus_rp_small :: "u8 \<Rightarrow> int list \<Rightarrow> nat \<Rightarrow> int \<Rightarrow> int \<Rightarrow> opus_error + (int \<times> bytes)" where
  "opus_rp_small toc len count tot_size maxlen =
    (if count = 1 then
       let tot_size = tot_size + len ! 0 + 1
       in if tot_size > maxlen then Inl OPUS_BUFFER_TOO_SMALL else Inr (tot_size, [toc AND 0xFC])
     else if count = 2 then
       if len ! 1 = len ! 0 then
         let tot_size = tot_size + 2 * len ! 0 + 1
         in if tot_size > maxlen then Inl OPUS_BUFFER_TOO_SMALL else Inr (tot_size, [(toc AND 0xFC) OR 0x1])
       else
         let tot_size = tot_size + len ! 0 + len ! 1 + 2 + of_bool (len ! 0 \<ge> 252)
         in if tot_size > maxlen then Inl OPUS_BUFFER_TOO_SMALL
            else Inr (tot_size, ((toc AND 0xFC) OR 0x2) # encode_size (len ! 0))
     else Inr (tot_size, []))"

text \<open>
  The header of a code 3 packet: the total size, the bytes up to the frame sizes, the encoded extensions with their position and the range
  of positions that is filled with ones.
\<close>

record rp_layout =
  ly_size :: int
  ly_head :: bytes
  ly_ext_begin :: int
  ly_ext :: bytes
  ly_ones_begin :: int
  ly_ones_end :: int

definition opus_rp_pad :: "u8 \<Rightarrow> u8 \<Rightarrow> bytes \<Rightarrow> int \<Rightarrow> int \<Rightarrow> bool \<Rightarrow> opus_extension list \<Rightarrow> opus_error + rp_layout" where
  "opus_rp_pad b0 b1 sizes tot_size maxlen pad exts =
    (let pad_amount = (if pad then maxlen - tot_size else 0)
     in case (if exts = [] then Inr [] else opus_packet_extensions_generate (maxlen - tot_size) exts False) of
          Inl e \<Rightarrow> Inl e
        | Inr ext \<Rightarrow>
          let ext_len = int (length ext);
              pad_amount = (if exts \<noteq> [] \<and> \<not> pad then ext_len + ext_len div 254 + 1 else pad_amount)
          in if pad_amount = 0 then
               Inr \<lparr>ly_size = tot_size, ly_head = b0 # b1 # sizes, ly_ext_begin = 0, ly_ext = ext, ly_ones_begin = 0, ly_ones_end = 0\<rparr>
             else
               let nb_255s = (pad_amount - 1) div 255
               in if tot_size + ext_len + nb_255s + 1 > maxlen then Inl OPUS_BUFFER_TOO_SMALL
                  else Inr \<lparr>ly_size = tot_size + pad_amount,
                         ly_head = b0 # (b1 OR 0x40) # replicate (nat nb_255s) 255 @ word_of_int (pad_amount - 255 * nb_255s - 1) # sizes,
                         ly_ext_begin = tot_size + pad_amount - ext_len, ly_ext = ext,
                         ly_ones_begin = tot_size + nb_255s + 1, ly_ones_end = tot_size + pad_amount - ext_len\<rparr>)"

definition opus_rp_code3 ::
    "u8 \<Rightarrow> int list \<Rightarrow> nat \<Rightarrow> int \<Rightarrow> int \<Rightarrow> bool \<Rightarrow> opus_extension list \<Rightarrow> opus_error + rp_layout" where
  "opus_rp_code3 toc len count tot_size maxlen pad exts =
    (let vbr = (\<exists>i\<in>set [1..<count]. len ! i \<noteq> len ! 0);
         tot_size =
           (if vbr then tot_size + 2 + (\<Sum>i\<leftarrow>[0..<count - 1]. 1 + of_bool (len ! i \<ge> 252) + len ! i) + len ! (count - 1)
            else tot_size + int count * len ! 0 + 2)
     in if tot_size > maxlen then Inl OPUS_BUFFER_TOO_SMALL
        else opus_rp_pad ((toc AND 0xFC) OR 0x3) (if vbr then word_of_nat count OR 0x80 else word_of_nat count)
               (if vbr then concat (map encode_size (take (count - 1) len)) else []) tot_size maxlen pad exts)"

text \<open>The copy of the frames, the extensions, the filler bytes and the zero padding, in the order in which they are written.\<close>

definition opus_rp_write :: "bytes \<Rightarrow> int \<Rightarrow> bool \<Rightarrow> rp_layout \<Rightarrow> bytes \<Rightarrow> bytes" where
  "opus_rp_write data maxlen zeros ly out =
    (let data = poke data 0 out;
         data = (if ly_ext ly = [] then data else poke data (nat (ly_ext_begin ly)) (ly_ext ly));
         data = poke data (nat (ly_ones_begin ly)) (replicate (nat (ly_ones_end ly - ly_ones_begin ly)) 0x01)
     in if zeros then poke data (length out) (replicate (nat maxlen - length out) 0) else data)"

text \<open>The result is the returned size and the caller's buffer after the call; after an error the buffer is not used.\<close>

definition opus_repacketizer_out_range_impl ::
    "repacketizer \<Rightarrow> int \<Rightarrow> int \<Rightarrow> bytes \<Rightarrow> int \<Rightarrow> bool \<Rightarrow> bool \<Rightarrow> opus_extension list \<Rightarrow> opus_error + (int \<times> bytes)" where
  "opus_repacketizer_out_range_impl rp b e data maxlen self_delimited pad extensions =
    (if b < 0 \<or> b \<ge> e \<or> e > int (rp_nb_frames rp) then Inl OPUS_BAD_ARG
     else
       let b = nat b; e = nat e; count = e - b; len = drop b (rp_len rp); frames = drop b (rp_frames rp);
           tot_size0 = (if self_delimited then 1 + of_bool (len ! (count - 1) \<ge> 252) else 0);
           total_ext_count = opus_rp_count_extensions rp [b..<e] (length extensions)
       in case opus_rp_gather_extensions rp b total_ext_count [b..<e] extensions of None \<Rightarrow> Inl OPUS_INTERNAL_ERROR
          | Some exts \<Rightarrow>
            (case opus_rp_small (rp_toc rp) len count tot_size0 maxlen of Inl err \<Rightarrow> Inl err
             | Inr (tot_size, hdr) \<Rightarrow>
               (case (if count > 2 \<or> (pad \<and> tot_size < maxlen) \<or> exts \<noteq> []
                      then opus_rp_code3 (rp_toc rp) len count tot_size0 maxlen pad exts
                      else Inr \<lparr>ly_size = tot_size, ly_head = hdr, ly_ext_begin = 0, ly_ext = [], ly_ones_begin = 0, ly_ones_end = 0\<rparr>) of
                  Inl err \<Rightarrow> Inl err
                | Inr ly \<Rightarrow>
                  let out = ly_head ly @ (if self_delimited then encode_size (len ! (count - 1)) else []) @
                            concat (map (\<lambda>i. take (nat (len ! i)) (frames ! i)) [0..<count])
                  in Inr (ly_size ly, opus_rp_write data maxlen (pad \<and> exts = []) ly out))))"

definition opus_repacketizer_out_range :: "repacketizer \<Rightarrow> int \<Rightarrow> int \<Rightarrow> bytes \<Rightarrow> int \<Rightarrow> opus_error + (int \<times> bytes)" where
  "opus_repacketizer_out_range rp b e data maxlen = opus_repacketizer_out_range_impl rp b e data maxlen False False []"

definition opus_repacketizer_out :: "repacketizer \<Rightarrow> bytes \<Rightarrow> int \<Rightarrow> opus_error + (int \<times> bytes)" where
  "opus_repacketizer_out rp data maxlen =
    opus_repacketizer_out_range_impl rp 0 (int (rp_nb_frames rp)) data maxlen False False []"

text \<open>Padding works on a copy of the packet; \<open>rp\<close> stands for the uninitialised local repacketizer.\<close>

definition opus_packet_pad_impl ::
    "repacketizer \<Rightarrow> bytes \<Rightarrow> int \<Rightarrow> int \<Rightarrow> bool \<Rightarrow> opus_extension list \<Rightarrow> opus_error + (int \<times> bytes)" where
  "opus_packet_pad_impl rp data len new_len pad extensions =
    (if len < 1 then Inl OPUS_BAD_ARG
     else if len = new_len then Inr (0, data)
     else if len > new_len then Inl OPUS_BAD_ARG
     else
       let copy = take (nat len) data
       in case opus_repacketizer_cat (opus_repacketizer_init rp) copy len of
            (Some err, _) \<Rightarrow> Inl err
          | (None, rp) \<Rightarrow> opus_repacketizer_out_range_impl rp 0 (int (rp_nb_frames rp)) data new_len False pad extensions)"

definition opus_packet_pad :: "repacketizer \<Rightarrow> bytes \<Rightarrow> int \<Rightarrow> int \<Rightarrow> opus_error + bytes" where
  "opus_packet_pad rp data len new_len =
    (case opus_packet_pad_impl rp data len new_len True [] of Inl err \<Rightarrow> Inl err | Inr (_, data) \<Rightarrow> Inr data)"

end
