(* ===== verification/Opus_Repack.thy ===== *)
theory Opus_Repack
  imports Opus_Repacketizer
begin

text \<open>
  The repacketizer is correct: it holds a list of frames; \<open>cat\<close> appends the frames of a packet to it and \<open>out\<close> writes a packet
  that parses to the chosen frames, without touching the buffer beyond \<open>maxlen\<close>.
\<close>

unbundle bit_operations_syntax

section \<open>The table-of-contents byte\<close>

lemma samples_8000: "opus_packet_get_samples_per_frame d 48000 = 6 * opus_packet_get_samples_per_frame d 8000"
  using two_bits [of "drop_bit 3 d"] by (auto simp: opus_packet_get_samples_per_frame_def Let_def)

lemma samples_8000_ge: "20 \<le> opus_packet_get_samples_per_frame d 8000"
  using two_bits [of "drop_bit 3 d"] by (auto simp: opus_packet_get_samples_per_frame_def Let_def)

lemma toc_masks: "(t AND 0xFC OR k) AND m = t AND (0xFC AND m) OR (k AND m)" for t k m :: u8
  by (simp add: bit.conj_disj_distrib2 and.assoc)

lemma toc_code:
  "((t AND 0xFC) OR 1) AND 0x3 = 1" "((t AND 0xFC) OR 2) AND 0x3 = 2" "((t AND 0xFC) OR 3) AND 0x3 = 3" "(t AND 0xFC) AND 0x3 = 0" for t :: u8
  by (simp_all add: toc_masks and.assoc)

lemma toc_samples: "k \<in> {0, 1, 2, 3} \<Longrightarrow> opus_packet_get_samples_per_frame ((t AND 0xFC) OR k) Fs = opus_packet_get_samples_per_frame t Fs"
proof -
  assume k: "k \<in> {0, 1, 2, 3}"
  have m: "((t AND 0xFC) OR k) AND m = t AND m" if "m \<in> {0x80, 0x60, 0x08}" for m using k that by (auto simp: toc_masks)
  have "drop_bit 3 (0xFC :: u8) = 0x1F" "drop_bit 3 k = 0" using k by (auto simp: drop_bit_eq_div)
  then have "drop_bit 3 ((t AND 0xFC) OR k) AND 0x3 = drop_bit 3 t AND 0x3" by (simp add: drop_bit_and drop_bit_or and.assoc)
  then show ?thesis using m by (simp add: opus_packet_get_samples_per_frame_def)
qed

lemma toc_high: "((t AND 0xFC) OR k) AND 0xFC = t AND 0xFC" if "k \<in> {0, 1, 2, 3}" for t k :: u8
  using that by (auto simp: toc_masks)

lemma count_byte:
  assumes "n \<le> 48"
  shows "unat ((word_of_nat n :: u8) AND 0x3F) = n" "(word_of_nat n :: u8) AND 0x80 = 0" "(word_of_nat n :: u8) AND 0x40 = 0"
    "unat (((word_of_nat n :: u8) OR 0x80) AND 0x3F) = n" "((word_of_nat n :: u8) OR 0x80) AND 0x80 \<noteq> 0" "((word_of_nat n :: u8) OR 0x80) AND 0x40 = 0"
    "unat (((word_of_nat n :: u8) OR 0x40) AND 0x3F) = n" "((word_of_nat n :: u8) OR 0x40) AND 0x80 = 0" "((word_of_nat n :: u8) OR 0x40) AND 0x40 \<noteq> 0"
    "unat ((((word_of_nat n :: u8) OR 0x80) OR 0x40) AND 0x3F) = n" "(((word_of_nat n :: u8) OR 0x80) OR 0x40) AND 0x80 \<noteq> 0" "(((word_of_nat n :: u8) OR 0x80) OR 0x40) AND 0x40 \<noteq> 0"
proof -
  let ?P = "\<lambda>n. unat ((word_of_nat n :: u8) AND 0x3F) = n \<and> (word_of_nat n :: u8) AND 0x80 = 0 \<and> (word_of_nat n :: u8) AND 0x40 = 0"
  have "\<forall>n\<in>set [0..<49]. ?P n" by code_simp
  then have p: "?P n" using assms by simp
  then show "unat ((word_of_nat n :: u8) AND 0x3F) = n" "(word_of_nat n :: u8) AND 0x80 = 0" "(word_of_nat n :: u8) AND 0x40 = 0"
    "unat (((word_of_nat n :: u8) OR 0x80) AND 0x3F) = n" "((word_of_nat n :: u8) OR 0x80) AND 0x80 \<noteq> 0" "((word_of_nat n :: u8) OR 0x80) AND 0x40 = 0"
    "unat (((word_of_nat n :: u8) OR 0x40) AND 0x3F) = n" "((word_of_nat n :: u8) OR 0x40) AND 0x80 = 0" "((word_of_nat n :: u8) OR 0x40) AND 0x40 \<noteq> 0"
    "unat ((((word_of_nat n :: u8) OR 0x80) OR 0x40) AND 0x3F) = n" "(((word_of_nat n :: u8) OR 0x80) OR 0x40) AND 0x80 \<noteq> 0" "(((word_of_nat n :: u8) OR 0x80) OR 0x40) AND 0x40 \<noteq> 0"
    by (simp_all add: bit.conj_disj_distrib2)
qed

section \<open>Collecting frames\<close>

definition rp_ok :: "repacketizer \<Rightarrow> bool" where
  "rp_ok rp \<longleftrightarrow> rp_nb_frames rp \<le> 48 \<and> length (rp_frames rp) = 48 \<and> length (rp_len rp) = 48 \<and> length (rp_paddings rp) = 48 \<and>
     length (rp_padding_len rp) = 48 \<and>
     (rp_nb_frames rp \<noteq> 0 \<longrightarrow> rp_framesize rp = opus_packet_get_samples_per_frame (rp_toc rp) 8000 \<and> int (rp_nb_frames rp) * rp_framesize rp \<le> 960) \<and>
     (\<forall>i<rp_nb_frames rp. 0 \<le> rp_len rp ! i \<and> rp_len rp ! i \<le> 1275 \<and> rp_len rp ! i \<le> int (length (rp_frames rp ! i)) \<and>
        0 \<le> rp_padding_len rp ! i \<and> rp_padding_len rp ! i \<le> int (length (rp_paddings rp ! i)))"

text \<open>The frames a repacketizer holds.\<close>

definition rp_view :: "repacketizer \<Rightarrow> bytes list" where
  "rp_view rp = map (\<lambda>i. take (nat (rp_len rp ! i)) (rp_frames rp ! i)) [0..<rp_nb_frames rp]"

lemma clear_loop:
  assumes "rp_nb_frames rp + n < 48" "length (rp_padding_len rp) = 48" "length (rp_paddings rp) = 48"
  shows "let rp' = opus_rp_clear_loop n rp in rp_nb_frames rp' = rp_nb_frames rp + n \<and> rp_toc rp' = rp_toc rp \<and> rp_frames rp' = rp_frames rp \<and>
    rp_len rp' = rp_len rp \<and> rp_framesize rp' = rp_framesize rp \<and> length (rp_padding_len rp') = 48 \<and> length (rp_paddings rp') = 48 \<and>
    (\<forall>i<48. rp_padding_len rp' ! i = (if rp_nb_frames rp < i \<and> i \<le> rp_nb_frames rp + n then 0 else rp_padding_len rp ! i)) \<and>
    (\<forall>i<48. rp_paddings rp' ! i = (if rp_nb_frames rp < i \<and> i \<le> rp_nb_frames rp + n then [] else rp_paddings rp ! i))"
  using assms
proof (induction n arbitrary: rp)
  case (Suc n)
  define rq where "rq = rp\<lparr>rp_nb_frames := rp_nb_frames rp + 1, rp_padding_len := (rp_padding_len rp)[rp_nb_frames rp + 1 := 0],
      rp_paddings := (rp_paddings rp)[rp_nb_frames rp + 1 := []]\<rparr>"
  have e: "opus_rp_clear_loop (Suc n) rp = opus_rp_clear_loop n rq" by (simp add: rq_def Let_def)
  have f: "rp_nb_frames rq = rp_nb_frames rp + 1" "rp_toc rq = rp_toc rp" "rp_frames rq = rp_frames rp" "rp_len rq = rp_len rp"
      "rp_framesize rq = rp_framesize rp" "length (rp_padding_len rq) = 48" "length (rp_paddings rq) = 48"
    using Suc(3,4) by (simp_all add: rq_def)
  have g: "rp_padding_len rq ! i = (if i = rp_nb_frames rp + 1 then 0 else rp_padding_len rp ! i)"
      "rp_paddings rq ! i = (if i = rp_nb_frames rp + 1 then [] else rp_paddings rp ! i)" if "i < 48" for i
    using Suc(3,4) that by (auto simp: rq_def nth_list_update)
  have "rp_nb_frames rq + n < 48" using f(1) Suc(2) by simp
  note IH = Suc.IH [OF this f(6,7)]
  show ?case using IH g unfolding e f Let_def by (auto simp: f)
qed auto

lemma poke_nth:
  "i + length ys \<le> length xs \<Longrightarrow> j < length xs \<Longrightarrow> poke xs i ys ! j = (if i \<le> j \<and> j < i + length ys then ys ! (j - i) else xs ! j)"
  by (auto simp: poke_def nth_append min_def)

lemma parsed_frame_inside:
  assumes "parsed_ok data len sd r" "len \<le> int (length data)" "i < op_count r" "op_count r \<le> length (op_sizes r)"
  shows "op_sizes r ! i \<le> int (length (drop (op_frames r ! i) data))"
proof -
  let ?s = "op_sizes r"
  have v: "vbr_sizes ?s (op_count r)" using assms(1) by (simp add: parsed_ok_def vbr_sizes_def)
  have z: "take (op_count r) ?s = take i ?s @ ?s ! i # drop (Suc i) (take (op_count r) ?s)" using assms(3,4)
    id_take_nth_drop [of i "take (op_count r) ?s"] by (simp add: min_def)
  have "0 \<le> sum_list (drop (Suc i) (take (op_count r) ?s))"
    using v assms(4) by (intro sum_list_nonneg) (auto simp: vbr_sizes_def in_set_conv_nth)
  then have "sum_list (take i ?s) + ?s ! i \<le> sum_list (take (op_count r) ?s)" using arg_cong [OF z, of sum_list] by simp
  moreover have "0 \<le> sum_list (take i ?s)" "0 \<le> sum_list (take (op_count r) ?s)" using sum_take_mono [OF v assms(4)] assms(3) by auto
  moreover have "op_frames r ! i = op_payload_offset r + nat (sum_list (take i ?s))" using assms(1,3) by (simp add: parsed_ok_def)
  ultimately show ?thesis using assms(1,2) by (auto simp: parsed_ok_def)
qed

definition cat_toc :: "repacketizer \<Rightarrow> bytes \<Rightarrow> repacketizer" where
  "cat_toc rp data = (if rp_nb_frames rp = 0
     then rp\<lparr>rp_toc := data ! 0, rp_framesize := opus_packet_get_samples_per_frame (data ! 0) 8000\<rparr> else rp)"

lemma cat_toc_fields [simp]:
  "rp_nb_frames (cat_toc rp data) = rp_nb_frames rp" "rp_frames (cat_toc rp data) = rp_frames rp" "rp_len (cat_toc rp data) = rp_len rp"
  "rp_paddings (cat_toc rp data) = rp_paddings rp" "rp_padding_len (cat_toc rp data) = rp_padding_len rp"
  by (simp_all add: cat_toc_def)

definition cat_store :: "repacketizer \<Rightarrow> bytes \<Rightarrow> opus_parsed \<Rightarrow> repacketizer" where
  "cat_store rp data r = rp\<lparr>rp_frames := poke (rp_frames rp) (rp_nb_frames rp) (map (\<lambda>off. drop off data) (op_frames r)),
     rp_len := poke (rp_len rp) (rp_nb_frames rp) (op_sizes r),
     rp_paddings := (rp_paddings rp)[rp_nb_frames rp := drop (op_padding r) data],
     rp_padding_len := (rp_padding_len rp)[rp_nb_frames rp := op_padding_len r]\<rparr>"

lemma cat_steps:
  assumes "opus_repacketizer_cat_impl rp data len sd = (None, rp')"
  obtains c r rs where "1 \<le> len" "rp_nb_frames rp = 0 \<or> rp_toc rp AND 0xFC = data ! 0 AND 0xFC" "opus_packet_get_nb_frames data len = Inr c" "1 \<le> c"
    "int (c + rp_nb_frames rp) * rp_framesize (cat_toc rp data) \<le> 960"
    "opus_packet_parse_impl data len sd (Some (drop (rp_nb_frames rp) (rp_len rp))) = Inr r"
    "rs = opus_rp_clear_loop (c - 1) (cat_store (cat_toc rp data) data r)" "rp' = rs\<lparr>rp_nb_frames := rp_nb_frames rs + 1\<rparr>"
  using assms unfolding opus_repacketizer_cat_impl_def cat_toc_def [symmetric] cat_store_def [symmetric] Let_def
  by (auto split: if_splits sum.splits)

lemma cat_framesize:
  assumes "rp_ok rp" "rp_nb_frames rp = 0 \<or> rp_toc rp AND 0xFC = data ! 0 AND 0xFC"
  shows "rp_framesize (cat_toc rp data) = opus_packet_get_samples_per_frame (data ! 0) 8000"
    "rp_framesize (cat_toc rp data) = opus_packet_get_samples_per_frame (rp_toc (cat_toc rp data)) 8000"
    "rp_toc (cat_toc rp data) AND 0xFC = data ! 0 AND 0xFC"
proof -
  have h: "opus_packet_get_samples_per_frame t 8000 = opus_packet_get_samples_per_frame (t AND 0xFC) 8000" for t
    using toc_samples [of 0 t 8000] by simp
  show "rp_framesize (cat_toc rp data) = opus_packet_get_samples_per_frame (data ! 0) 8000"
    "rp_framesize (cat_toc rp data) = opus_packet_get_samples_per_frame (rp_toc (cat_toc rp data)) 8000"
    "rp_toc (cat_toc rp data) AND 0xFC = data ! 0 AND 0xFC"
    using assms h [of "rp_toc rp"] h [of "data ! 0"] by (auto simp: cat_toc_def rp_ok_def)
qed

lemma cat_store_ok:
  assumes ok: "rp_ok rp" and n: "rp_nb_frames rp + op_count r \<le> 48" and p: "parsed_ok data len sd r" "length (op_sizes r) = 48 - rp_nb_frames rp"
    and len: "len \<le> int (length data)"
  defines "rs \<equiv> cat_store (cat_toc rp data) data r"
  shows "length (rp_frames rs) = 48 \<and> length (rp_len rs) = 48 \<and> length (rp_paddings rs) = 48 \<and> length (rp_padding_len rs) = 48"
    "i < rp_nb_frames rp \<Longrightarrow> rp_frames rs ! i = rp_frames rp ! i \<and> rp_len rs ! i = rp_len rp ! i \<and>
       rp_paddings rs ! i = rp_paddings rp ! i \<and> rp_padding_len rs ! i = rp_padding_len rp ! i"
    "i < op_count r \<Longrightarrow> rp_frames rs ! (rp_nb_frames rp + i) = drop (op_frames r ! i) data \<and> rp_len rs ! (rp_nb_frames rp + i) = op_sizes r ! i"
    "rp_paddings rs ! rp_nb_frames rp = drop (op_padding r) data \<and> rp_padding_len rs ! rp_nb_frames rp = op_padding_len r"
proof -
  have f: "length (op_frames r) = op_count r" "1 \<le> op_count r" using p(1) by (simp_all add: parsed_ok_def)
  have l: "length (rp_frames rp) = 48" "length (rp_len rp) = 48" "length (rp_paddings rp) = 48" "length (rp_padding_len rp) = 48"
    using ok by (simp_all add: rp_ok_def)
  show "length (rp_frames rs) = 48 \<and> length (rp_len rs) = 48 \<and> length (rp_paddings rs) = 48 \<and> length (rp_padding_len rs) = 48"
    using f l n p(2) by (simp add: rs_def cat_store_def)
  show "i < rp_nb_frames rp \<Longrightarrow> rp_frames rs ! i = rp_frames rp ! i \<and> rp_len rs ! i = rp_len rp ! i \<and>
       rp_paddings rs ! i = rp_paddings rp ! i \<and> rp_padding_len rs ! i = rp_padding_len rp ! i"
    using f l n p(2) by (simp add: rs_def cat_store_def poke_nth)
  show "i < op_count r \<Longrightarrow> rp_frames rs ! (rp_nb_frames rp + i) = drop (op_frames r ! i) data \<and> rp_len rs ! (rp_nb_frames rp + i) = op_sizes r ! i"
    using f l n p(2) by (simp add: rs_def cat_store_def poke_nth)
  show "rp_paddings rs ! rp_nb_frames rp = drop (op_padding r) data \<and> rp_padding_len rs ! rp_nb_frames rp = op_padding_len r"
    using f l n by (simp add: rs_def cat_store_def)
qed

lemma frames_le_48: "int n * opus_packet_get_samples_per_frame d 8000 \<le> 960 \<Longrightarrow> n \<le> 48"
proof -
  assume a: "int n * opus_packet_get_samples_per_frame d 8000 \<le> 960"
  have "int n * 20 \<le> int n * opus_packet_get_samples_per_frame d 8000" using samples_8000_ge [of d] by (intro mult_left_mono) auto
  then show "n \<le> 48" using a by simp
qed

lemma view_append:
  assumes "\<And>i. i < m \<Longrightarrow> f i = g i" "\<And>i. i < n \<Longrightarrow> f (m + i) = h i"
  shows "map f [0..<m + n] = map g [0..<m] @ map h [0..<n]"
proof (rule nth_equalityI)
  fix i assume "i < length (map f [0..<m + n])"
  then show "map f [0..<m + n] ! i = (map g [0..<m] @ map h [0..<n]) ! i"
    using assms(1) [of i] assms(2) [of "i - m"] by (cases "i < m") (auto simp: nth_append)
qed simp

lemma cat_success:
  assumes "opus_repacketizer_cat_impl rp data len sd = (None, rp')" "rp_ok rp" "len \<le> int (length data)"
  obtains r where "opus_packet_parse_impl data len sd (Some (drop (rp_nb_frames rp) (rp_len rp))) = Inr r"
    "rp_ok rp'" "rp_view rp' = rp_view rp @ opus_frames data r" "rp_nb_frames rp' = rp_nb_frames rp + op_count r"
    "rp_toc rp' AND 0xFC = data ! 0 AND 0xFC" "rp_nb_frames rp \<noteq> 0 \<Longrightarrow> rp_toc rp' = rp_toc rp"
proof -
  obtain c r rs where st: "rp_nb_frames rp = 0 \<or> rp_toc rp AND 0xFC = data ! 0 AND 0xFC" "opus_packet_get_nb_frames data len = Inr c" "1 \<le> c"
    "int (c + rp_nb_frames rp) * rp_framesize (cat_toc rp data) \<le> 960"
    "opus_packet_parse_impl data len sd (Some (drop (rp_nb_frames rp) (rp_len rp))) = Inr r"
    "rs = opus_rp_clear_loop (c - 1) (cat_store (cat_toc rp data) data r)" "rp' = rs\<lparr>rp_nb_frames := rp_nb_frames rs + 1\<rparr>"
    using cat_steps [OF assms(1)] by metis
  note fs = cat_framesize [OF assms(2) st(1)]
  have c: "c = op_count r" using parse_impl_count [OF st(5)] st(2) by simp
  have n: "rp_nb_frames rp + op_count r \<le> 48" using frames_le_48 [OF st(4) [unfolded fs(1)]] c by simp
  have l: "length (drop (rp_nb_frames rp) (rp_len rp)) = 48 - rp_nb_frames rp" using assms(2) by (simp add: rp_ok_def)
  have p: "parsed_ok data len sd r" "length (op_sizes r) = 48 - rp_nb_frames rp" using parse_impl_ok [OF st(5)] n l by simp_all
  define rt where "rt = cat_store (cat_toc rp data) data r"
  note t = cat_store_ok [OF assms(2) n p assms(3), folded rt_def]
  have t0: "rp_nb_frames rt = rp_nb_frames rp" "rp_toc rt = rp_toc (cat_toc rp data)" "rp_framesize rt = rp_framesize (cat_toc rp data)"
    by (simp_all add: rt_def cat_store_def)
  have "rp_nb_frames rt + (c - 1) < 48" using n c st(3) t0 by simp
  note cl = clear_loop [OF this, folded st(6) [folded rt_def], unfolded Let_def t0]
  have s: "rp_nb_frames rs = rp_nb_frames rp + (c - 1)" "rp_toc rs = rp_toc (cat_toc rp data)" "rp_frames rs = rp_frames rt" "rp_len rs = rp_len rt"
      "rp_framesize rs = rp_framesize (cat_toc rp data)" "length (rp_padding_len rs) = 48" "length (rp_paddings rs) = 48"
      "\<And>i. i < 48 \<Longrightarrow> rp_padding_len rs ! i = (if rp_nb_frames rp < i \<and> i \<le> rp_nb_frames rp + (c - 1) then 0 else rp_padding_len rt ! i)"
      "\<And>i. i < 48 \<Longrightarrow> rp_paddings rs ! i = (if rp_nb_frames rp < i \<and> i \<le> rp_nb_frames rp + (c - 1) then [] else rp_paddings rt ! i)"
    using cl t(1) by simp_all
  have nb: "rp_nb_frames rp' = rp_nb_frames rp + op_count r" using st(3,7) s(1) c by simp
  have fr: "op_sizes r ! i \<le> int (length (drop (op_frames r ! i) data))" "0 \<le> op_sizes r ! i" "op_sizes r ! i \<le> 1275" if "i < op_count r" for i
    using parsed_frame_inside [OF p(1) assms(3) that] p that n by (auto simp: parsed_ok_def)
  have pd: "0 \<le> op_padding_len r" "op_padding_len r \<le> int (length (drop (op_padding r) data))" using p(1) assms(3) by (auto simp: parsed_ok_def)
  have "rp_view rp' = rp_view rp @ opus_frames data r" unfolding rp_view_def opus_frames_def nb using st(7) s(3,4) t(2,3)
    by (intro view_append) auto
  moreover have "rp_ok rp'"
    unfolding rp_ok_def
  proof (intro conjI impI allI)
    fix i assume i: "i < rp_nb_frames rp'"
    consider "i < rp_nb_frames rp" | j where "j < op_count r" "i = rp_nb_frames rp + j" using i nb
      by (metis add_diff_inverse_nat add_less_cancel_left)
    then have "0 \<le> rp_len rp' ! i \<and> rp_len rp' ! i \<le> 1275 \<and> rp_len rp' ! i \<le> int (length (rp_frames rp' ! i)) \<and>
        0 \<le> rp_padding_len rp' ! i \<and> rp_padding_len rp' ! i \<le> int (length (rp_paddings rp' ! i))"
    proof cases
      case 1
      then show ?thesis using t(2) [of i] s assms(2) st(7) n by (auto simp: rp_ok_def)
    next
      case 2
      have "i < 48" using 2 n by simp
      then show ?thesis using 2 t(3) [of j] t(4) s(3,4) s(8,9) [of i] fr [OF 2(1)] pd st(7) c by (cases j) auto
    qed
    then show "0 \<le> rp_len rp' ! i" "rp_len rp' ! i \<le> 1275" "rp_len rp' ! i \<le> int (length (rp_frames rp' ! i))"
      "0 \<le> rp_padding_len rp' ! i" "rp_padding_len rp' ! i \<le> int (length (rp_paddings rp' ! i))" by auto
  qed (use nb n t(1) s fs st(4,7) c in \<open>auto simp: add.commute\<close>)
  ultimately show thesis using that [OF st(5)] nb fs(3) st(7) s(2) by (auto simp: cat_toc_def)
qed

section \<open>Writing to the buffer\<close>

lemma poke_front: "poke data 0 out = out @ drop (length out) data"
  by (simp add: poke_def)

lemma poke_after: "n = length a \<Longrightarrow> poke (a @ b) n c = a @ c @ drop (length c) b"
  by (simp add: poke_def)

lemma poke_later: "n = length a + k \<Longrightarrow> poke (a @ b) n c = a @ poke b k c"
  by (simp add: poke_def add.assoc)

lemma buffer_ones_ext:
  assumes "length out + k + length ext \<le> length data"
  shows "poke (poke (poke data 0 out) (length out + k) ext) (length out) (replicate k z) =
    out @ replicate k z @ ext @ drop (length out + k + length ext) data"
proof -
  let ?d = "drop (length out) data"
  have "poke (out @ ?d) (length out + k) ext = out @ take k ?d @ ext @ drop (k + length ext) ?d" by (simp add: poke_def)
  moreover have "drop k (take k ?d @ ext @ drop (k + length ext) ?d) = ext @ drop (k + length ext) ?d" using assms by simp
  ultimately show ?thesis unfolding poke_front by (simp add: poke_after ac_simps)
qed

lemma ext_generate_fits:
  assumes "opus_packet_extensions_generate len exts False = Inr out" "0 \<le> len"
  shows "int (length out) \<le> len"
proof -
  have sep: "int (length (gs_out st')) \<le> len" if "opus_ext_separator len f st = Inr st'" "int (length (gs_out st)) \<le> len" for f st st'
    using that by (auto simp: opus_ext_separator_def Let_def split: if_splits)
  have body: "int (length (gs_out st')) \<le> len" if "opus_ext_body len nb e st = Inr st'" "int (length (gs_out st)) \<le> len" for nb e st st'
    using that by (auto simp: opus_ext_body_def Let_def min_def split: if_splits)
  have f: "int (length (gs_out st')) \<le> len" if "opus_ext_frame_loop len nb f es st = Inr st'" "int (length (gs_out st)) \<le> len" for nb f es st st'
    using that by (induction es arbitrary: st) (fastforce split: if_splits sum.splits dest: sep body)+
  have "int (length (gs_out st')) \<le> len" if "opus_ext_frames_loop len exts fs st = Inr st'" "int (length (gs_out st)) \<le> len" for fs st st'
    using that by (induction fs arbitrary: st) (fastforce split: if_splits sum.splits dest: f)+
  then show ?thesis using assms by (fastforce simp: opus_packet_extensions_generate_def Let_def split: if_splits sum.splits)
qed

section \<open>The header\<close>

lemma size_bytes_length: "int (length (size_bytes ls)) + sum_list ls = (\<Sum>s\<leftarrow>ls. 1 + of_bool (s \<ge> 252) + s)"
  by (induction ls) (auto simp: size_bytes_def length_encode_size)

lemma small_header:
  assumes "opus_rp_small toc len n (int (length D)) maxlen = Inr (tot, hdr)" "n \<in> {1, 2}" "n \<le> length len" "ls = take n len"
    "int (length F) = sum_list ls"
  obtains b0 S where "hdr = b0 # S" "tot = int (length (hdr @ D @ F))" "tot \<le> maxlen" "b0 AND 0xFC = toc AND 0xFC"
    "b0 AND 0x3 = 0 \<and> length ls = 1 \<and> S = [] \<or> b0 AND 0x3 = 1 \<and> length ls = 2 \<and> ls ! 1 = ls ! 0 \<and> S = [] \<or>
      b0 AND 0x3 = 2 \<and> length ls = 2 \<and> S = encode_size (ls ! 0)"
proof (cases "n = 1")
  case True
  obtain a as where "len = a # as" using assms(3) True by (cases len) auto
  then show thesis by (intro that [of "toc AND 0xFC" "[]"])
    (use True assms toc_code(4) [of toc] in \<open>auto simp: opus_rp_small_def Let_def and.assoc split: if_splits\<close>)
next
  case False
  then have n: "n = 2" using assms(2) by simp
  then obtain a b as where l: "len = a # b # as" using assms(3) by (cases len; cases "tl len") auto
  show thesis
  proof (cases "a = b")
    case True
    then show thesis by (intro that [of "(toc AND 0xFC) OR 1" "[]"])
      (use n l assms toc_code(1) [of toc] toc_high [of 1 toc] in \<open>auto simp: opus_rp_small_def Let_def split: if_splits\<close>)
  next
    case False
    then show thesis by (intro that [of "(toc AND 0xFC) OR 2" "encode_size a"])
      (use n l assms toc_code(2) [of toc] toc_high [of 2 toc] in \<open>auto simp: opus_rp_small_def Let_def length_encode_size split: if_splits\<close>)
  qed
qed

lemma pad_amount_bytes:
  assumes "0 < a"
  defines "k \<equiv> (a - 1) div 255"
  shows "pad_bytes (replicate (nat k) 255 @ [word_of_int (a - 255 * k - 1)]) (nat (a - k - 1))" "0 \<le> k" "k < a"
proof -
  have r: "a - 255 * k - 1 = (a - 1) mod 255" unfolding k_def by (simp add: minus_div_mult_eq_mod [symmetric] mult.commute)
  have k: "0 \<le> k" using assms(1) by (simp add: k_def pos_imp_zdiv_nonneg_iff)
  then show "0 \<le> k" .
  have p: "0 \<le> a - 255 * k - 1" "a - 255 * k - 1 < 255" unfolding r by simp_all
  then show "k < a" using k by simp
  have "(word_of_int (a - 255 * k - 1) :: u8) = word_of_nat (nat (a - 255 * k - 1))" using p(1) by (metis int_nat_eq of_int_of_nat_eq)
  moreover have "nat (a - k - 1) = 254 * nat k + nat (a - 255 * k - 1)" using k p(1) by simp
  ultimately show "pad_bytes (replicate (nat k) 255 @ [word_of_int (a - 255 * k - 1)]) (nat (a - k - 1))"
    using p unfolding pad_bytes_def by (intro disjI2 exI [of _ "nat k"] exI [of _ "nat (a - 255 * k - 1)"]) auto
qed

lemma ext_pad_amount: "(e + e div 254 + 1 - 1) div 255 = e div 254" for e :: int
proof -
  have "e + e div 254 + 1 - 1 = e mod 254 + 255 * (e div 254)" using div_mult_mod_eq [of e 254] by (simp add: algebra_simps)
  moreover have "e mod 254 div 255 = 0" using pos_mod_bound [of 254 e] by (intro div_pos_pos_trivial) auto
  ultimately show ?thesis by simp
qed

text \<open>What the code 3 writer lays out: \<open>k\<close> filler bytes follow the frames, then the extensions.\<close>

definition code3_written :: "u8 \<Rightarrow> int list \<Rightarrow> bytes \<Rightarrow> bytes \<Rightarrow> bool \<Rightarrow> int \<Rightarrow> bool \<Rightarrow> rp_layout \<Rightarrow> nat \<Rightarrow> bool" where
  "code3_written toc ls D F sd maxlen pad ly k \<longleftrightarrow>
    (\<exists>b1 P vbr. ly_head ly = ((toc AND 0xFC) OR 3) # b1 # P @ vbr_bytes vbr ls \<and>
      (\<forall>Z. length Z = k + length (ly_ext ly) \<longrightarrow> code3_layout b1 P D F Z ls vbr sd (opus_packet_get_samples_per_frame toc 48000)) \<and>
      ly_size ly = int (length (ly_head ly @ D @ F) + k + length (ly_ext ly)) \<and> ly_size ly \<le> maxlen \<and> (pad \<longrightarrow> ly_size ly = maxlen) \<and>
      (if P = [] then k = 0 \<and> ly_ext ly = [] \<and> ly_ones_begin ly = 0 \<and> ly_ones_end ly = 0
       else ly_ones_begin ly = int (length (ly_head ly @ D @ F)) \<and> ly_ones_end ly = ly_ones_begin ly + int k \<and> ly_ext_begin ly = ly_ones_end ly))"

lemma code3_base:
  assumes n: "1 \<le> n" "n \<le> 48" "n \<le> length len" and ls: "ls = take n len" "frame_sizes ls" "int (length F) = sum_list ls"
    and D: "D = (if sd then encode_size (last ls) else [])" and dur: "opus_packet_get_samples_per_frame toc 48000 * int n \<le> 5760"
  defines "vbr \<equiv> \<exists>i\<in>set [1..<n]. len ! i \<noteq> len ! 0"
  shows "(if vbr then int (length D) + 2 + (\<Sum>i\<leftarrow>[0..<n - 1]. 1 + of_bool (len ! i \<ge> 252) + len ! i) + len ! (n - 1)
      else int (length D) + int n * len ! 0 + 2) = 2 + int (length (vbr_bytes vbr ls @ D @ F))"
    "(if vbr then concat (map encode_size (take (n - 1) len)) else []) = vbr_bytes vbr ls"
    "pad_bytes P (length Z) \<Longrightarrow> b1 = (if vbr then word_of_nat n OR 0x80 else word_of_nat n) \<Longrightarrow>
      code3_layout (if P = [] then b1 else b1 OR 0x40) P D F Z ls vbr sd (opus_packet_get_samples_per_frame toc 48000)"
proof -
  have ne: "take n len \<noteq> []" using n by auto
  have l: "length ls = n" "ls \<noteq> []" "butlast ls = take (n - 1) len" "last ls = len ! (n - 1)"
    using n ls(1) ne last_conv_nth [OF ne] by (auto simp: butlast_take)
  have c: "\<not> vbr \<Longrightarrow> ls = replicate n (len ! 0)"
  proof (intro nth_equalityI)
    fix i assume a: "\<not> vbr" "i < length ls"
    then show "ls ! i = replicate n (len ! 0) ! i" using n ls(1) unfolding vbr_def by (cases "i = 0") auto
  qed (use n ls(1) in simp)
  have e: "\<not> vbr \<Longrightarrow> ls = replicate (length ls) (last ls)" using c l(2) by (metis last_replicate length_replicate replicate_empty)
  show s: "(if vbr then concat (map encode_size (take (n - 1) len)) else []) = vbr_bytes vbr ls"
    using l(3) by (simp add: vbr_bytes_def size_bytes_def)
  have "(\<Sum>i\<leftarrow>[0..<n - 1]. 1 + of_bool (len ! i \<ge> 252) + len ! i) = (\<Sum>s\<leftarrow>butlast ls. 1 + of_bool (s \<ge> 252) + s)"
    unfolding l(3) by (rule arg_cong [of _ _ sum_list]) (use n(3) in \<open>auto intro!: nth_equalityI\<close>)
  then show "(if vbr then int (length D) + 2 + (\<Sum>i\<leftarrow>[0..<n - 1]. 1 + of_bool (len ! i \<ge> 252) + len ! i) + len ! (n - 1)
      else int (length D) + int n * len ! 0 + 2) = 2 + int (length (vbr_bytes vbr ls @ D @ F))"
    using size_bytes_length [of "butlast ls"] sum_butlast [OF l(2)] l(4) ls(3) c by (auto simp: vbr_bytes_def sum_list_replicate)
  show "code3_layout (if P = [] then b1 else b1 OR 0x40) P D F Z ls vbr sd (opus_packet_get_samples_per_frame toc 48000)"
    if "pad_bytes P (length Z)" "b1 = (if vbr then word_of_nat n OR 0x80 else word_of_nat n)"
    using that dur l(1,2) ls(2,3) e D count_byte [OF n(2)] unfolding code3_layout_def by auto
qed

lemma pad_header:
  assumes run: "opus_rp_pad b0 b1 S t maxlen pad exts = Inr ly" and t: "t \<le> maxlen"
  obtains (plain) "ly = \<lparr>ly_size = t, ly_head = b0 # b1 # S, ly_ext_begin = 0, ly_ext = [], ly_ones_begin = 0, ly_ones_end = 0\<rparr>"
      "pad \<longrightarrow> t = maxlen"
  | (padded) P k where "P \<noteq> []" "pad_bytes P (k + length (ly_ext ly))" "ly_head ly = b0 # (b1 OR 0x40) # P @ S" "exts = [] \<longrightarrow> ly_ext ly = []"
      "ly_size ly = t + int (length P) + int k + int (length (ly_ext ly))" "ly_size ly \<le> maxlen" "pad \<longrightarrow> ly_size ly = maxlen"
      "ly_ones_begin ly = t + int (length P)" "ly_ones_end ly = ly_ones_begin ly + int k" "ly_ext_begin ly = ly_ones_end ly"
proof -
  obtain ext where ext: "(if exts = [] then Inr [] else opus_packet_extensions_generate (maxlen - t) exts False) = (Inr ext :: opus_error + bytes)"
    using run by (auto simp: opus_rp_pad_def Let_def split: if_splits sum.splits)
  have fit: "int (length ext) \<le> maxlen - t" using ext t ext_generate_fits [of "maxlen - t" exts ext] by (auto split: if_splits)
  have nil: "exts = [] \<Longrightarrow> ext = []" using ext by simp
  define a where "a = (if exts \<noteq> [] \<and> \<not> pad then int (length ext) + int (length ext) div 254 + 1 else if pad then maxlen - t else 0)"
  note run' = run [unfolded opus_rp_pad_def Let_def ext sum.case, folded a_def]
  show thesis
  proof (cases "a = 0")
    case True
    have "ext = []" using nil fit True by (cases "exts = []") (auto simp: a_def split: if_splits)
    then show thesis using run' True plain by (auto simp: a_def split: if_splits)
  next
    case False
    define q where "q = (a - 1) div 255"
    have a: "0 < a" using False t by (auto simp: a_def split: if_splits intro: add_nonneg_pos)
    note pb = pad_amount_bytes [OF a, folded q_def]
    have le: "t + int (length ext) + q + 1 \<le> maxlen" using run' False by (auto simp: q_def split: if_splits)
    have k: "int (length ext) + q + 1 \<le> a" "t + a \<le> maxlen" "pad \<longrightarrow> t + a = maxlen"
      using le False ext_pad_amount [of "int (length ext)"] unfolding a_def q_def by (auto split: if_splits)
    have ly: "ly = \<lparr>ly_size = t + a, ly_head = b0 # (b1 OR 0x40) # replicate (nat q) 255 @ word_of_int (a - 255 * q - 1) # S,
        ly_ext_begin = t + a - int (length ext), ly_ext = ext, ly_ones_begin = t + q + 1, ly_ones_end = t + a - int (length ext)\<rparr>"
      using run' False le unfolding q_def [symmetric] by simp
    have e: "nat (a - q - 1 - int (length ext)) + length ext = nat (a - q - 1)" using k(1) by simp
    show thesis
      by (rule padded [of "replicate (nat q) 255 @ [word_of_int (a - 255 * q - 1)]" "nat (a - q - 1 - int (length ext))"])
        (use pb k nil e in \<open>auto simp: ly\<close>)
  qed
qed

lemma code3_header:
  assumes run: "opus_rp_code3 toc len n (int (length D)) maxlen pad exts = Inr ly"
    and n: "1 \<le> n" "n \<le> 48" "n \<le> length len" and ls: "ls = take n len" "frame_sizes ls" "int (length F) = sum_list ls"
    and D: "D = (if sd then encode_size (last ls) else [])" and dur: "opus_packet_get_samples_per_frame toc 48000 * int n \<le> 5760"
  shows "\<exists>k. code3_written toc ls D F sd maxlen pad ly k \<and> (exts = [] \<longrightarrow> ly_ext ly = [])"
proof -
  define vbr where "vbr \<longleftrightarrow> (\<exists>i\<in>set [1..<n]. len ! i \<noteq> len ! 0)"
  note base = code3_base [OF n ls D dur, folded vbr_def]
  define S where "S = vbr_bytes vbr ls"
  define t where "t = 2 + int (length (S @ D @ F))"
  define b1 :: u8 where "b1 = (if vbr then word_of_nat n OR 0x80 else word_of_nat n)"
  note run' = run [unfolded opus_rp_code3_def Let_def, folded vbr_def, unfolded base(1,2), folded S_def, folded t_def, folded b1_def]
  have t: "t \<le> maxlen" and p: "opus_rp_pad ((toc AND 0xFC) OR 3) b1 S t maxlen pad exts = Inr ly" using run' by (auto split: if_splits)
  from p t show ?thesis
  proof (cases rule: pad_header)
    case plain
    have "\<forall>Z. length Z = 0 \<longrightarrow> code3_layout b1 [] D F Z ls vbr sd (opus_packet_get_samples_per_frame toc 48000)"
      using base(3) [of "[]" _ b1] by (auto simp: pad_bytes_def b1_def)
    then show ?thesis using t plain unfolding code3_written_def
      by (intro exI [of _ 0] conjI exI [of _ b1] exI [of _ "[]"] exI [of _ vbr]) (auto simp: S_def t_def)
  next
    case (padded P k)
    have "\<forall>Z. length Z = k + length (ly_ext ly) \<longrightarrow> code3_layout (b1 OR 0x40) P D F Z ls vbr sd (opus_packet_get_samples_per_frame toc 48000)"
      using base(3) [of P _ b1] padded(1,2) by (simp add: b1_def)
    then show ?thesis using padded t unfolding code3_written_def
      by (intro exI [of _ k] conjI exI [of _ "b1 OR 0x40"] exI [of _ P] exI [of _ vbr]) (auto simp: S_def t_def)
  qed
qed

section \<open>The packet\<close>

lemma rp_range_sizes:
  assumes "rp_ok rp" "b < e" "e \<le> rp_nb_frames rp"
  defines "fs \<equiv> take (e - b) (drop b (rp_view rp))" and "ls \<equiv> take (e - b) (drop b (rp_len rp))"
  shows "map (int \<circ> length) fs = ls" "frame_sizes ls" "length ls = e - b" "int (length (concat fs)) = sum_list ls" "ls \<noteq> []"
    "concat (map (\<lambda>i. take (nat (drop b (rp_len rp) ! i)) (drop b (rp_frames rp) ! i)) [0..<e - b]) = concat fs"
    "opus_packet_get_samples_per_frame (rp_toc rp) 48000 * int (e - b) \<le> 5760" "e - b \<le> 48" "e - b \<le> length (drop b (rp_len rp))" "length fs = e - b"
proof -
  have l: "length (rp_len rp) = 48" "length (rp_frames rp) = 48" "rp_nb_frames rp \<le> 48" using assms(1) by (auto simp: rp_ok_def)
  have fs: "fs = map (\<lambda>i. take (nat (rp_len rp ! (b + i))) (rp_frames rp ! (b + i))) [0..<e - b]"
    using assms(2,3) by (intro nth_equalityI) (auto simp: fs_def rp_view_def)
  have i: "0 \<le> rp_len rp ! (b + i)" "rp_len rp ! (b + i) \<le> 1275" "rp_len rp ! (b + i) \<le> int (length (rp_frames rp ! (b + i)))" if "i < e - b" for i
    using assms(1,3) that by (auto simp: rp_ok_def)
  have tk: "int (length (take (nat (rp_len rp ! (b + i))) (rp_frames rp ! (b + i)))) = rp_len rp ! (b + i)" if "i < e - b" for i
    using i [OF that] by simp
  show m: "map (int \<circ> length) fs = ls"
    using assms(2,3) l tk unfolding fs by (intro nth_equalityI) (auto simp: ls_def)
  show "frame_sizes ls" using assms(3) l i by (auto simp: frame_sizes_def ls_def in_set_conv_nth)
  show n: "length ls = e - b" using assms(2,3) l by (simp add: ls_def)
  then show "ls \<noteq> []" using assms(2) by auto
  show "int (length (concat fs)) = sum_list ls" unfolding m [symmetric] sum_lengths ..
  show "concat (map (\<lambda>i. take (nat (drop b (rp_len rp) ! i)) (drop b (rp_frames rp) ! i)) [0..<e - b]) = concat fs"
    unfolding fs using assms(2,3) l by (intro arg_cong [of _ _ concat]) (auto intro!: nth_equalityI)
  show "opus_packet_get_samples_per_frame (rp_toc rp) 48000 * int (e - b) \<le> 5760"
  proof -
    have "int (rp_nb_frames rp) * opus_packet_get_samples_per_frame (rp_toc rp) 8000 \<le> 960" using assms(1-3) by (auto simp: rp_ok_def)
    moreover have "int (e - b) * opus_packet_get_samples_per_frame (rp_toc rp) 8000 \<le> int (rp_nb_frames rp) * opus_packet_get_samples_per_frame (rp_toc rp) 8000"
      using samples_8000_ge [of "rp_toc rp"] assms(3) by (intro mult_right_mono) auto
    ultimately show ?thesis unfolding samples_8000 by (simp add: mult.commute)
  qed
  show "e - b \<le> 48" "e - b \<le> length (drop b (rp_len rp))" "length fs = e - b" using l assms(2,3) by (auto simp: fs)
qed

text \<open>A written packet: it starts with the given table-of-contents byte, fits, and parses to the given frames.\<close>

definition written_ok :: "u8 \<Rightarrow> bytes list \<Rightarrow> bool \<Rightarrow> int \<Rightarrow> bytes \<Rightarrow> int \<Rightarrow> bytes \<Rightarrow> bool" where
  "written_ok toc fs sd maxlen data tot buf \<longleftrightarrow>
     0 < tot \<and> tot \<le> maxlen \<and> length buf = length data \<and> drop (nat maxlen) buf = drop (nat maxlen) data \<and>
     (\<forall>sz. length fs \<le> length sz \<longrightarrow> (\<exists>r. opus_packet_parse_impl (take (nat tot) buf) tot sd (Some sz) = Inr r \<and>
        opus_frames (take (nat tot) buf) r = fs \<and> op_toc r AND 0xFC = toc AND 0xFC))"

lemma written_okI:
  assumes "buf = pre @ concat fs @ Z @ drop (nat tot) data" "tot = int (length (pre @ concat fs @ Z))" "tot \<le> maxlen" "maxlen \<le> int (length data)"
    "\<And>sz. length fs \<le> length sz \<Longrightarrow> parses_as (pre @ concat fs @ Z) sd sz (map (int \<circ> length) fs) (length pre) (length Z)"
    "pre \<noteq> []" "hd pre AND 0xFC = toc AND 0xFC"
  shows "written_ok toc fs sd maxlen data tot buf"
proof -
  have t: "nat tot = length (pre @ concat fs @ Z)" using assms(2) by simp
  have b: "buf = (pre @ concat fs @ Z) @ drop (nat tot) data" using assms(1) by simp
  have k: "take (nat tot) buf = pre @ concat fs @ Z" by (simp add: b t)
  have z: "(pre @ concat fs @ Z) ! 0 AND 0xFC = toc AND 0xFC" using assms(6,7) by (simp add: hd_conv_nth nth_append)
  have "drop (nat maxlen) buf = drop (nat maxlen) data" unfolding b using t assms(2,3) by simp
  moreover have "length buf = length data" unfolding b using t assms(2-4) by simp
  moreover have "\<exists>r. opus_packet_parse_impl (take (nat tot) buf) tot sd (Some sz) = Inr r \<and>
        opus_frames (take (nat tot) buf) r = fs \<and> op_toc r AND 0xFC = toc AND 0xFC" if "length fs \<le> length sz" for sz
    using parses_as_frames [OF assms(5) [OF that] that] z unfolding k unfolding assms(2) by metis
  moreover have "0 < length pre" "0 < tot" using assms(2,6) by (simp_all add: add_pos_nonneg)
  ultimately show ?thesis using assms(3) unfolding written_ok_def by blast
qed

lemma out_steps:
  assumes "opus_repacketizer_out_range_impl rp (int b) (int e) data maxlen sd pad extensions = Inr (tot, buf)"
  defines "len \<equiv> drop b (rp_len rp)" and "n \<equiv> e - b"
  defines "D \<equiv> if sd then encode_size (len ! (n - 1)) else []"
  defines "F \<equiv> concat (map (\<lambda>i. take (nat (drop b (rp_len rp) ! i)) (drop b (rp_frames rp) ! i)) [0..<e - b])"
  obtains exts ly tot' hdr where "b < e" "e \<le> rp_nb_frames rp" "opus_rp_small (rp_toc rp) len n (int (length D)) maxlen = Inr (tot', hdr)"
    "(if n > 2 \<or> (pad \<and> tot' < maxlen) \<or> exts \<noteq> [] then opus_rp_code3 (rp_toc rp) len n (int (length D)) maxlen pad exts
      else Inr \<lparr>ly_size = tot', ly_head = hdr, ly_ext_begin = 0, ly_ext = [], ly_ones_begin = 0, ly_ones_end = 0\<rparr>) = Inr ly"
    "tot = ly_size ly" "buf = opus_rp_write data maxlen (pad \<and> exts = []) ly (ly_head ly @ D @ F)"
proof -
  have d: "(if sd then 1 + of_bool (len ! (n - 1) \<ge> 252) else 0) = int (length D)" by (simp add: D_def length_encode_size)
  note run = assms(1) [unfolded opus_repacketizer_out_range_impl_def Let_def nat_int, folded len_def, folded n_def, unfolded d, folded D_def,
      folded F_def [folded n_def len_def]]
  have be: "b < e" "e \<le> rp_nb_frames rp" using run by (auto split: if_splits)
  obtain exts where x: "opus_rp_gather_extensions rp b (opus_rp_count_extensions rp [b..<e] (length extensions)) [b..<e] extensions = Some exts"
    using run be by (auto split: option.splits)
  obtain tot' hdr where h: "opus_rp_small (rp_toc rp) len n (int (length D)) maxlen = Inr (tot', hdr)"
    using run be x by (auto split: sum.splits)
  show thesis
  proof (cases "if n > 2 \<or> (pad \<and> tot' < maxlen) \<or> exts \<noteq> [] then opus_rp_code3 (rp_toc rp) len n (int (length D)) maxlen pad exts
      else Inr \<lparr>ly_size = tot', ly_head = hdr, ly_ext_begin = 0, ly_ext = [], ly_ones_begin = 0, ly_ones_end = 0\<rparr>")
    case (Inl err)
    then show thesis using run be x h by simp
  next
    case (Inr ly)
    then show thesis using run be x h that by simp
  qed
qed

lemma write_plain:
  assumes "ly_ext ly = []" "ly_ones_begin ly = 0" "ly_ones_end ly = 0" "zeros \<longrightarrow> int (length out) = maxlen"
  shows "opus_rp_write data maxlen zeros ly out = out @ drop (length out) data"
  using assms by (auto simp: opus_rp_write_def Let_def poke_front)

lemma write_padded:
  assumes "ly_ones_begin ly = int (length out)" "ly_ones_end ly = ly_ones_begin ly + int k" "ly_ext_begin ly = ly_ones_end ly"
    "length out + k + length (ly_ext ly) \<le> length data" "zeros \<longrightarrow> ly_ext ly = [] \<and> int (length out + k) = maxlen"
  shows "\<exists>Z. length Z = k + length (ly_ext ly) \<and> opus_rp_write data maxlen zeros ly out = out @ Z @ drop (length out + length Z) data"
proof -
  have n: "nat (ly_ones_begin ly) = length out" "nat (ly_ones_end ly - ly_ones_begin ly) = k" "nat (ly_ext_begin ly) = length out + k"
    using assms(1-3) by auto
  define d where "d = out @ replicate k 0x01 @ ly_ext ly @ drop (length out + k + length (ly_ext ly)) data"
  have d: "poke (if ly_ext ly = [] then poke data 0 out else poke (poke data 0 out) (length out + k) (ly_ext ly)) (length out) (replicate k 0x01) = d"
    using buffer_ones_ext [OF assms(4)] unfolding d_def by (cases "ly_ext ly = []") auto
  have w: "opus_rp_write data maxlen zeros ly out = (if zeros then poke d (length out) (replicate (nat maxlen - length out) 0) else d)"
    unfolding opus_rp_write_def Let_def n d ..
  show ?thesis
  proof (cases zeros)
    case True
    then have m: "nat maxlen - length out = k" "ly_ext ly = []" using assms(5) by auto
    then have "opus_rp_write data maxlen zeros ly out = out @ replicate k 0 @ drop (length out + k) data"
      unfolding w d_def using True by (simp add: poke_after)
    then show ?thesis using m by (intro exI [of _ "replicate k 0"]) simp
  next
    case False
    then show ?thesis unfolding w d_def by (intro exI [of _ "replicate k 0x01 @ ly_ext ly"]) (simp add: add.assoc)
  qed
qed

lemma code3_written_ok:
  assumes w: "code3_written toc ls D (concat fs) sd maxlen pad ly k" and ls: "map (int \<circ> length) fs = ls" "exts = [] \<longrightarrow> ly_ext ly = []"
    and m: "maxlen \<le> int (length data)"
  shows "written_ok toc fs sd maxlen data (ly_size ly) (opus_rp_write data maxlen (pad \<and> exts = []) ly (ly_head ly @ D @ concat fs))"
proof -
  let ?b0 = "(toc AND 0xFC) OR 3" and ?out = "ly_head ly @ D @ concat fs" and ?buf = "opus_rp_write data maxlen (pad \<and> exts = []) ly (ly_head ly @ D @ concat fs)"
  obtain b1 P vbr where h: "ly_head ly = ?b0 # b1 # P @ vbr_bytes vbr ls"
    and lay: "\<And>Z. length Z = k + length (ly_ext ly) \<Longrightarrow> code3_layout b1 P D (concat fs) Z ls vbr sd (opus_packet_get_samples_per_frame toc 48000)"
    and sz: "ly_size ly = int (length ?out + k + length (ly_ext ly))" "ly_size ly \<le> maxlen" "pad \<longrightarrow> ly_size ly = maxlen"
    and ones: "if P = [] then k = 0 \<and> ly_ext ly = [] \<and> ly_ones_begin ly = 0 \<and> ly_ones_end ly = 0
       else ly_ones_begin ly = int (length ?out) \<and> ly_ones_end ly = ly_ones_begin ly + int k \<and> ly_ext_begin ly = ly_ones_end ly"
    using w unfolding code3_written_def by blast
  have t: "nat (ly_size ly) = length ?out + k + length (ly_ext ly)" using sz(1) by simp
  have "\<exists>Z. length Z = k + length (ly_ext ly) \<and> ?buf = ?out @ Z @ drop (length ?out + length Z) data"
  proof (cases "P = []")
    case True
    then have "?buf = ?out @ drop (length ?out) data" using ones sz by (intro write_plain) auto
    then show ?thesis using True ones by (intro exI [of _ "[]"]) simp
  next
    case False
    then show ?thesis using ones sz m ls(2) by (intro write_padded) auto
  qed
  then obtain Z where Z: "length Z = k + length (ly_ext ly)" "?buf = ?out @ Z @ drop (length ?out + length Z) data" by blast
  show ?thesis
  proof (rule written_okI [of _ "ly_head ly @ D" fs Z])
    show "?buf = (ly_head ly @ D) @ concat fs @ Z @ drop (nat (ly_size ly)) data" using Z t by (simp add: add.assoc)
    show "ly_size ly = int (length ((ly_head ly @ D) @ concat fs @ Z))" using sz(1) Z(1) by simp
    fix sz :: "int list" assume "length fs \<le> length sz"
    then have l: "length ls \<le> length sz" using ls(1) by (metis length_map)
    have "parses_as (code3_packet ?b0 b1 P vbr ls D (concat fs) Z) sd sz ls (2 + length P + length (vbr_bytes vbr ls) + length D) (length Z)"
      using lay [OF Z(1)] toc_samples [of 3 toc] toc_code(3) [of toc] l by (intro code3_parses) auto
    then show "parses_as ((ly_head ly @ D) @ concat fs @ Z) sd sz (map (int \<circ> length) fs) (length (ly_head ly @ D)) (length Z)"
      unfolding ls(1) by (simp add: h code3_packet_def add.assoc)
  qed (use h toc_high [of 3 toc] sz(2) m in auto)
qed

lemma out_range_impl_ok:
  assumes run: "opus_repacketizer_out_range_impl rp (int b) (int e) data maxlen sd pad extensions = Inr (tot, buf)"
    and ok: "rp_ok rp" and m: "maxlen \<le> int (length data)"
  shows "written_ok (rp_toc rp) (take (e - b) (drop b (rp_view rp))) sd maxlen data tot buf \<and> b < e \<and> e \<le> rp_nb_frames rp \<and> (pad \<longrightarrow> tot = maxlen)"
proof -
  define len n fs where "len = drop b (rp_len rp)" and "n = e - b" and "fs = take (e - b) (drop b (rp_view rp))"
  define D where "D = (if sd then encode_size (len ! (n - 1)) else [])"
  obtain exts ly tot' hdr where be: "b < e" "e \<le> rp_nb_frames rp" and sm: "opus_rp_small (rp_toc rp) len n (int (length D)) maxlen = Inr (tot', hdr)"
    and ly: "(if n > 2 \<or> (pad \<and> tot' < maxlen) \<or> exts \<noteq> [] then opus_rp_code3 (rp_toc rp) len n (int (length D)) maxlen pad exts
      else Inr \<lparr>ly_size = tot', ly_head = hdr, ly_ext_begin = 0, ly_ext = [], ly_ones_begin = 0, ly_ones_end = 0\<rparr>) = Inr ly"
    and tot: "tot = ly_size ly" and buf: "buf = opus_rp_write data maxlen (pad \<and> exts = []) ly (ly_head ly @ D @
      concat (map (\<lambda>i. take (nat (drop b (rp_len rp) ! i)) (drop b (rp_frames rp) ! i)) [0..<e - b]))"
    unfolding len_def n_def D_def by (rule out_steps [OF run])
  note buf = buf [unfolded rp_range_sizes(6) [OF ok be], folded fs_def]
  note rs = rp_range_sizes [OF ok be, folded fs_def len_def n_def]
  define ls where "ls = take n len"
  note rs = rs [folded ls_def]
  have lst: "last ls = len ! (n - 1)" using rs(3,5,9) by (simp add: last_conv_nth ls_def)
  have D: "D = (if sd then encode_size (last ls) else [])" unfolding D_def lst ..
  show ?thesis
  proof (cases "n > 2 \<or> (pad \<and> tot' < maxlen) \<or> exts \<noteq> []")
    case True
    then have "opus_rp_code3 (rp_toc rp) len n (int (length D)) maxlen pad exts = Inr ly" using ly by simp
    moreover have "1 \<le> n" using be by (simp add: n_def)
    ultimately obtain k where w: "code3_written (rp_toc rp) ls D (concat fs) sd maxlen pad ly k" "exts = [] \<longrightarrow> ly_ext ly = []"
      using code3_header [OF _ _ rs(8,9) ls_def rs(2,4) D rs(7)] by blast
    have "pad \<longrightarrow> ly_size ly = maxlen" using w(1) by (auto simp: code3_written_def)
    then show ?thesis using code3_written_ok [OF w(1) rs(1) w(2) m] tot buf be unfolding fs_def by simp
  next
    case False
    have n: "n \<in> {1, 2}" using False be by (auto simp: n_def)
    from sm n rs(9) ls_def rs(4) show ?thesis
    proof (cases rule: small_header)
      case (1 b0 S)
      have l: "ly = \<lparr>ly_size = tot', ly_head = hdr, ly_ext_begin = 0, ly_ext = [], ly_ones_begin = 0, ly_ones_end = 0\<rparr>" using ly False by simp
      have t: "tot = int (length (hdr @ D @ concat fs))" using 1(2) tot l by simp
      have "buf = (hdr @ D @ concat fs) @ drop (length (hdr @ D @ concat fs)) data" unfolding buf l rp_layout.simps
        using 1(2,3) False by (intro write_plain) auto
      then have b: "buf = (b0 # S @ D) @ concat fs @ [] @ drop (nat tot) data" unfolding t nat_int using 1(1) by simp
      have t': "tot = int (length ((b0 # S @ D) @ concat fs @ []))" using t 1(1) by simp
      have p: "parses_as ((b0 # S @ D) @ concat fs @ []) sd sz (map (int \<circ> length) fs) (length (b0 # S @ D)) (length [])" if "length fs \<le> length sz" for sz
        using small_parses [OF rs(2,5) _ rs(4) D 1(5), of sz] that rs(1,3,10) by simp
      have "written_ok (rp_toc rp) fs sd maxlen data tot buf"
        by (rule written_okI [OF b t' _ m p]) (use 1(3,4) tot l in auto)
      moreover have "pad \<longrightarrow> tot = maxlen" using False 1(3) tot l by auto
      ultimately show ?thesis using be unfolding fs_def by simp
    qed
  qed
qed

section \<open>The documented buffer size\<close>

lemma gather_none:
  assumes "\<forall>i\<in>set is. rp_padding_len rp ! i = 0"
  shows "opus_rp_gather_extensions rp b t is exts = Some exts"
  using assms by (induction "is") (auto simp: opus_packet_extensions_parse_def opus_ext_parse_loop.simps)

lemma size_bytes_le: "int (length (size_bytes ls)) \<le> 2 * int (length ls)"
  by (induction ls) (auto simp: size_bytes_def length_encode_size)

lemma frame_sizes_le: "frame_sizes ls \<Longrightarrow> sum_list ls \<le> 1275 * int (length ls)"
  by (induction ls) (auto simp: frame_sizes_def)

lemma out_range_succeeds:
  assumes ok: "rp_ok rp" "b < e" "e \<le> rp_nb_frames rp" and np: "\<forall>i\<in>{b..<e}. rp_padding_len rp ! i = 0"
    and m: "maxlen \<ge> (if e - b = 1 then 1276 else 1277 * int (e - b))"
  shows "\<exists>tot buf. opus_repacketizer_out_range rp (int b) (int e) data maxlen = Inr (tot, buf)"
proof -
  define len n ls where "len = drop b (rp_len rp)" and "n = e - b" and "ls = take n len"
  note rs = rp_range_sizes [OF ok, folded len_def n_def, folded ls_def]
  have n1: "1 \<le> n" using ok(2) by (simp add: n_def)
  have s: "0 \<le> ls ! i" "ls ! i \<le> 1275" if "i < n" for i using rs(2,3) that by (auto simp: frame_sizes_def)
  have li: "len ! i = ls ! i" if "i < n" for i using that by (simp add: ls_def)
  have g: "opus_rp_gather_extensions rp b t [b..<e] [] = Some []" for t using np by (intro gather_none) auto
  have sm: "\<exists>tot hdr. opus_rp_small (rp_toc rp) len n 0 maxlen = Inr (tot, hdr)"
  proof -
    consider "n = 1" | "n = 2" | "n > 2" using n1 by linarith
    then show ?thesis
    proof cases
      case 1
      then show ?thesis using m li [of 0] s [of 0] by (simp add: opus_rp_small_def n_def [symmetric])
    next
      case 2
      then show ?thesis using m li [of 0] li [of 1] s [of 0] s [of 1] by (auto simp: opus_rp_small_def n_def [symmetric] Let_def)
    qed (simp add: opus_rp_small_def)
  qed
  have c3: "\<exists>ly. opus_rp_code3 (rp_toc rp) len n 0 maxlen False [] = Inr ly" if "n > 2"
  proof -
    note base = code3_base(1) [OF n1 rs(8,9) ls_def rs(2,4) refl rs(7), of False]
    define vbr where "vbr \<longleftrightarrow> (\<exists>i\<in>set [1..<n]. len ! i \<noteq> len ! 0)"
    have "int (length (vbr_bytes vbr ls)) \<le> 2 * (int n - 1)"
      using size_bytes_le [of "butlast ls"] rs(3) n1 by (auto simp: vbr_bytes_def)
    then have "2 + int (length (vbr_bytes vbr ls @ concat (take n (drop b (rp_view rp))))) \<le> maxlen"
      using frame_sizes_le [OF rs(2)] rs(3,4) m that by (simp add: n_def [symmetric])
    then have "\<not> (if vbr then 0 + 2 + (\<Sum>i\<leftarrow>[0..<n - 1]. 1 + of_bool (len ! i \<ge> 252) + len ! i) + len ! (n - 1) else 0 + int n * len ! 0 + 2) > maxlen"
      unfolding not_less using base [unfolded if_False list.size int_ops(1) append_Nil, folded vbr_def] by (simp only:)
    then show ?thesis unfolding opus_rp_code3_def Let_def vbr_def [symmetric] by (simp only: if_False) (simp add: opus_rp_pad_def Let_def)
  qed
  show ?thesis using sm c3 g ok(2,3)
    unfolding opus_repacketizer_out_range_def opus_repacketizer_out_range_impl_def Let_def nat_int len_def [symmetric] n_def [symmetric]
    by (cases "n > 2") auto
qed

section \<open>Padding a packet\<close>

lemma init_ok:
  assumes "length (rp_frames rp) = 48" "length (rp_len rp) = 48" "length (rp_paddings rp) = 48" "length (rp_padding_len rp) = 48"
  shows "rp_ok (opus_repacketizer_init rp)" "rp_view (opus_repacketizer_init rp) = []"
  using assms by (simp_all add: rp_ok_def opus_repacketizer_init_def rp_view_def)

lemma packet_pad_ok:
  assumes arr: "length (rp_frames rp) = 48" "length (rp_len rp) = 48" "length (rp_paddings rp) = 48" "length (rp_padding_len rp) = 48"
    and run: "opus_packet_pad rp data len new_len = Inr buf" and len: "len < new_len" "new_len \<le> int (length data)"
  shows "length buf = length data \<and> drop (nat new_len) buf = drop (nat new_len) data \<and>
    (\<exists>r r'. opus_packet_parse (take (nat len) data) len (Some (rp_len rp)) = Inr r \<and>
      opus_packet_parse (take (nat new_len) buf) new_len (Some (rp_len rp)) = Inr r' \<and>
      opus_frames (take (nat new_len) buf) r' = opus_frames (take (nat len) data) r \<and> op_toc r' AND 0xFC = op_toc r AND 0xFC)"
proof -
  let ?rp = "opus_repacketizer_init rp" and ?d = "take (nat len) data"
  have l: "1 \<le> len" using run by (auto simp: opus_packet_pad_def opus_packet_pad_impl_def split: if_splits)
  obtain rp' tot where c: "opus_repacketizer_cat_impl ?rp ?d len False = (None, rp')"
    and o: "opus_repacketizer_out_range_impl rp' (int 0) (int (rp_nb_frames rp')) data new_len False True [] = Inr (tot, buf)"
    using run l len(1) by (auto simp: opus_packet_pad_def opus_packet_pad_impl_def opus_repacketizer_cat_def Let_def split: prod.splits option.splits sum.splits)
  have i: "rp_nb_frames ?rp = 0" "rp_len ?rp = rp_len rp" by (simp_all add: opus_repacketizer_init_def)
  obtain r where r: "opus_packet_parse_impl ?d len False (Some (rp_len rp)) = Inr r" "rp_ok rp'" "rp_view rp' = opus_frames ?d r"
      "rp_toc rp' AND 0xFC = ?d ! 0 AND 0xFC" "rp_nb_frames rp' = op_count r"
    using cat_success [OF c init_ok(1) [OF arr]] len l i init_ok(2) [OF arr] by auto
  have w: "written_ok (rp_toc rp') (opus_frames ?d r) False new_len data new_len buf"
    using out_range_impl_ok [OF o r(2) len(2)] r(3,5) by (auto simp: opus_frames_def)
  have n: "length (opus_frames ?d r) \<le> length (rp_len rp)" using r(2,5) arr(2) by (simp add: opus_frames_def rp_ok_def)
  have "op_toc r = ?d ! 0" using r(1) by (elim parse_impl_steps) simp
  then show ?thesis using w n r(1,4) unfolding written_ok_def opus_packet_parse_def by fastforce
qed

end
