(* ===== verification/Opus_Range.thy ===== *)
theory Opus_Range
  imports Bytes "HOL-Library.Monad_Syntax"
begin

text \<open>
  The range coder of Opus: \<open>src/Vendor/opus/celt/entcode.h\<close>, \<open>entcode.c\<close>, \<open>entenc.c\<close> and \<open>entdec.c\<close>. The 32-bit registers are integers and
  every operation that could leave 32 bits is reduced by \<open>w32\<close>; offsets into the buffer are natural numbers. The buffer is the byte
  list \<open>ec_buf\<close>. A renormalization loop whose range is 0 never ends, so the loops are partial: not returning is \<open>None\<close>.
\<close>

unbundle bit_operations_syntax

record ec_ctx =
  ec_buf :: bytes
  ec_storage :: nat
  ec_end_offs :: nat
  ec_end_window :: int
  ec_nend_bits :: int
  ec_nbits_total :: int
  ec_offs :: nat
  ec_rng :: int
  ec_val :: int
  ec_ext :: int
  ec_rem :: int
  ec_error :: int

definition w32 :: "int \<Rightarrow> int" where "w32 x = x mod 2 ^ 32"

section \<open>Common parts\<close>

text \<open>The number of bits of a nonzero value, \<open>EC_ILOG\<close>, which the build takes from a count-leading-zeros instruction.\<close>

function EC_ILOG :: "int \<Rightarrow> int" where
  "EC_ILOG v = (if v \<le> 0 then 0 else 1 + EC_ILOG (v div 2))"
  by pat_completeness auto
termination by (relation "measure nat") auto

declare EC_ILOG.simps [simp del]

definition ec_ilog :: "int \<Rightarrow> int" where
  "ec_ilog v =
    (let ret = of_bool (v \<noteq> 0);
         m = 16 * of_bool (v AND 0xFFFF0000 \<noteq> 0); v = drop_bit (nat m) v; ret = ret OR m;
         m = 8 * of_bool (v AND 0xFF00 \<noteq> 0); v = drop_bit (nat m) v; ret = ret OR m;
         m = 4 * of_bool (v AND 0xF0 \<noteq> 0); v = drop_bit (nat m) v; ret = ret OR m;
         m = 2 * of_bool (v AND 0xC \<noteq> 0); v = drop_bit (nat m) v; ret = ret OR m
     in ret + of_bool (v AND 0x2 \<noteq> 0))"

definition ec_tell :: "ec_ctx \<Rightarrow> int" where
  "ec_tell e = ec_nbits_total e - EC_ILOG (ec_rng e)"

definition ec_tell_correction :: "int list" where
  "ec_tell_correction = [35733, 38967, 42495, 46340, 50535, 55109, 60097, 65535]"

definition ec_tell_frac :: "ec_ctx \<Rightarrow> int" where
  "ec_tell_frac e =
    (let nbits = w32 (ec_nbits_total e * 8);
         l = EC_ILOG (ec_rng e);
         r = drop_bit (nat (l - 16)) (ec_rng e);
         b = drop_bit 12 r - 8;
         b = b + of_bool (r > ec_tell_correction ! nat b);
         l = l * 8 + b
     in w32 (nbits - l))"

definition celt_udiv :: "int \<Rightarrow> int \<Rightarrow> int" where "celt_udiv n d = n div d"

section \<open>The encoder\<close>

definition ec_write_byte :: "ec_ctx \<Rightarrow> int \<Rightarrow> ec_ctx \<times> int" where
  "ec_write_byte e v =
    (if ec_offs e + ec_end_offs e \<ge> ec_storage e then (e, -1)
     else (e\<lparr>ec_buf := (ec_buf e)[ec_offs e := word_of_int v], ec_offs := ec_offs e + 1\<rparr>, 0))"

definition ec_write_byte_at_end :: "ec_ctx \<Rightarrow> int \<Rightarrow> ec_ctx \<times> int" where
  "ec_write_byte_at_end e v =
    (if ec_offs e + ec_end_offs e \<ge> ec_storage e then (e, -1)
     else (e\<lparr>ec_buf := (ec_buf e)[ec_storage e - (ec_end_offs e + 1) := word_of_int v], ec_end_offs := ec_end_offs e + 1\<rparr>, 0))"

text \<open>The pattern \<open>error |= write(...)\<close>.\<close>

definition ec_or_error :: "ec_ctx \<times> int \<Rightarrow> ec_ctx" where
  "ec_or_error r = (fst r)\<lparr>ec_error := ec_error (fst r) OR snd r\<rparr>"

fun ec_carry_loop :: "nat \<Rightarrow> int \<Rightarrow> ec_ctx \<Rightarrow> ec_ctx" where
  "ec_carry_loop 0 symb e = e"
| "ec_carry_loop (Suc n) symb e =
    (let e = ec_or_error (ec_write_byte e symb) in ec_carry_loop n symb (e\<lparr>ec_ext := ec_ext e - 1\<rparr>))"

definition ec_enc_carry_out :: "ec_ctx \<Rightarrow> int \<Rightarrow> ec_ctx" where
  "ec_enc_carry_out e c =
    (if c \<noteq> 255 then
       let carry = c div 2 ^ 8;
           e = (if ec_rem e \<ge> 0 then ec_or_error (ec_write_byte e (ec_rem e + carry)) else e);
           e = (if ec_ext e > 0 then ec_carry_loop (nat (ec_ext e)) ((255 + carry) mod 2 ^ 8) e else e)
       in e\<lparr>ec_rem := c mod 2 ^ 8\<rparr>
     else e\<lparr>ec_ext := w32 (ec_ext e + 1)\<rparr>)"

partial_function (option) ec_enc_normalize :: "ec_ctx \<Rightarrow> ec_ctx option" where
  "ec_enc_normalize e =
    (if ec_rng e \<le> 2 ^ 23 then
       let e = ec_enc_carry_out e (ec_val e div 2 ^ 23)
       in ec_enc_normalize (e\<lparr>ec_val := w32 (ec_val e * 2 ^ 8) mod 2 ^ 31, ec_rng := w32 (ec_rng e * 2 ^ 8),
            ec_nbits_total := ec_nbits_total e + 8\<rparr>)
     else Some e)"

definition ec_enc_init :: "bytes \<Rightarrow> nat \<Rightarrow> ec_ctx" where
  "ec_enc_init buf sz =
    \<lparr>ec_buf = buf, ec_storage = sz, ec_end_offs = 0, ec_end_window = 0, ec_nend_bits = 0, ec_nbits_total = 33,
     ec_offs = 0, ec_rng = 2 ^ 31, ec_val = 0, ec_ext = 0, ec_rem = -1, ec_error = 0\<rparr>"

definition ec_encode :: "ec_ctx \<Rightarrow> int \<Rightarrow> int \<Rightarrow> int \<Rightarrow> ec_ctx option" where
  "ec_encode e fl fh ft =
    (let r = celt_udiv (ec_rng e) ft
     in ec_enc_normalize
          (if fl > 0 then e\<lparr>ec_val := w32 (ec_val e + (ec_rng e - w32 (r * (ft - fl)))), ec_rng := w32 (r * (fh - fl))\<rparr>
           else e\<lparr>ec_rng := w32 (ec_rng e - w32 (r * (ft - fh)))\<rparr>))"

definition ec_encode_bin :: "ec_ctx \<Rightarrow> int \<Rightarrow> int \<Rightarrow> nat \<Rightarrow> ec_ctx option" where
  "ec_encode_bin e fl fh bits =
    (let r = ec_rng e div 2 ^ bits
     in ec_enc_normalize
          (if fl > 0 then e\<lparr>ec_val := w32 (ec_val e + (ec_rng e - w32 (r * (2 ^ bits - fl)))), ec_rng := w32 (r * (fh - fl))\<rparr>
           else e\<lparr>ec_rng := w32 (ec_rng e - w32 (r * (2 ^ bits - fh)))\<rparr>))"

definition ec_enc_bit_logp :: "ec_ctx \<Rightarrow> bool \<Rightarrow> nat \<Rightarrow> ec_ctx option" where
  "ec_enc_bit_logp e v logp =
    (let r = ec_rng e; l = ec_val e; s = r div 2 ^ logp; r = w32 (r - s);
         e = (if v then e\<lparr>ec_val := w32 (l + r)\<rparr> else e)
     in ec_enc_normalize (e\<lparr>ec_rng := (if v then s else r)\<rparr>))"

text \<open>The table gives \<open>ft\<close> minus the cumulative frequencies; the 8-bit and 16-bit versions differ only in its element type.\<close>

definition ec_enc_icdf :: "ec_ctx \<Rightarrow> nat \<Rightarrow> int list \<Rightarrow> nat \<Rightarrow> ec_ctx option" where
  "ec_enc_icdf e s icdf ftb =
    (let r = ec_rng e div 2 ^ ftb
     in ec_enc_normalize
          (if s > 0 then e\<lparr>ec_val := w32 (ec_val e + (ec_rng e - w32 (r * icdf ! (s - 1)))),
                           ec_rng := w32 (r * (icdf ! (s - 1) - icdf ! s))\<rparr>
           else e\<lparr>ec_rng := w32 (ec_rng e - w32 (r * icdf ! s))\<rparr>))"

function ec_flush_window :: "ec_ctx \<Rightarrow> int \<Rightarrow> int \<Rightarrow> ec_ctx \<times> int \<times> int" where
  "ec_flush_window e window used =
    (let e = ec_or_error (ec_write_byte_at_end e (window mod 2 ^ 8)); window = window div 2 ^ 8; used = used - 8
     in if used \<ge> 8 then ec_flush_window e window used else (e, window, used))"
  by pat_completeness auto
termination by (relation "measure (\<lambda>(_, _, used). nat used)") auto

declare ec_flush_window.simps [simp del]

definition ec_enc_bits :: "ec_ctx \<Rightarrow> int \<Rightarrow> nat \<Rightarrow> ec_ctx" where
  "ec_enc_bits e fl bits =
    (let window = ec_end_window e; used = ec_nend_bits e;
         (e, window, used) = (if used + int bits > 32 then ec_flush_window e window used else (e, window, used));
         window = window OR w32 (fl * 2 ^ nat used);
         used = used + int bits
     in e\<lparr>ec_end_window := window, ec_nend_bits := used, ec_nbits_total := ec_nbits_total e + int bits\<rparr>)"

definition ec_enc_uint :: "ec_ctx \<Rightarrow> int \<Rightarrow> int \<Rightarrow> ec_ctx option" where
  "ec_enc_uint e fl ft =
    (let ft = ft - 1; ftb = EC_ILOG ft
     in if ftb > 8 then
          let ftb = nat (ftb - 8); ft' = ft div 2 ^ ftb + 1; fl' = fl div 2 ^ ftb
          in do { e \<leftarrow> ec_encode e fl' (fl' + 1) ft'; Some (ec_enc_bits e (fl mod 2 ^ ftb) ftb) }
        else ec_encode e fl (fl + 1) (ft + 1))"

function ec_done_loop :: "int \<Rightarrow> int \<Rightarrow> ec_ctx \<Rightarrow> ec_ctx \<times> int" where
  "ec_done_loop l en e =
    (if l > 0 then ec_done_loop (l - 8) (w32 (en * 2 ^ 8) mod 2 ^ 31) (ec_enc_carry_out e (en div 2 ^ 23)) else (e, l))"
  by pat_completeness auto
termination by (relation "measure (\<lambda>(l, _, _). nat l)") auto

declare ec_done_loop.simps [simp del]

function ec_done_window :: "ec_ctx \<Rightarrow> int \<Rightarrow> int \<Rightarrow> ec_ctx \<times> int \<times> int" where
  "ec_done_window e window used =
    (if used \<ge> 8 then
       ec_done_window (ec_or_error (ec_write_byte_at_end e (window mod 2 ^ 8))) (window div 2 ^ 8) (used - 8)
     else (e, window, used))"
  by pat_completeness auto
termination by (relation "measure (\<lambda>(_, _, used). nat used)") auto

declare ec_done_window.simps [simp del]

definition ec_done_end :: "ec_ctx \<Rightarrow> int \<times> int" where
  "ec_done_end e =
    (let l = 32 - EC_ILOG (ec_rng e);
         msk = (2 ^ 31 - 1) div 2 ^ nat l;
         en = w32 (ec_val e + msk) AND NOT msk
     in if en OR msk \<ge> w32 (ec_val e + ec_rng e) then (l + 1, w32 (ec_val e + msk div 2) AND NOT (msk div 2)) else (l, en))"

definition ec_done_merge :: "ec_ctx \<Rightarrow> int \<Rightarrow> int \<Rightarrow> int \<Rightarrow> ec_ctx" where
  "ec_done_merge e l window used =
    (if ec_error e = 0 then
       let e = e\<lparr>ec_buf := take (ec_offs e) (ec_buf e) @ replicate (ec_storage e - ec_offs e - ec_end_offs e) 0 @
                  drop (ec_storage e - ec_end_offs e) (ec_buf e)\<rparr>
       in if used > 0 then
            if ec_end_offs e \<ge> ec_storage e then e\<lparr>ec_error := -1\<rparr>
            else
              let l = - l;
                  (e, window) = (if ec_offs e + ec_end_offs e \<ge> ec_storage e \<and> l < used then (e\<lparr>ec_error := -1\<rparr>, window mod 2 ^ nat l) else (e, window));
                  i = ec_storage e - ec_end_offs e - 1
              in e\<lparr>ec_buf := (ec_buf e)[i := ec_buf e ! i OR word_of_int window]\<rparr>
          else e
     else e)"

definition ec_enc_done :: "ec_ctx \<Rightarrow> ec_ctx" where
  "ec_enc_done e =
    (let (l, en) = ec_done_end e;
         (e, l) = ec_done_loop l en e;
         e = (if ec_rem e \<ge> 0 \<or> ec_ext e > 0 then ec_enc_carry_out e 0 else e);
         (e, window, used) = ec_done_window e (ec_end_window e) (ec_nend_bits e)
     in ec_done_merge e l window used)"

definition ec_enc_patch_initial_bits :: "ec_ctx \<Rightarrow> int \<Rightarrow> nat \<Rightarrow> ec_ctx" where
  "ec_enc_patch_initial_bits e v nbits =
    (let shift = 8 - nbits; mask = (2 ^ nbits - 1) * 2 ^ shift
     in if ec_offs e > 0 then
          e\<lparr>ec_buf := (ec_buf e)[0 := (ec_buf e ! 0 AND word_of_int (NOT mask)) OR word_of_int (w32 (v * 2 ^ shift))]\<rparr>
        else if ec_rem e \<ge> 0 then e\<lparr>ec_rem := (ec_rem e AND NOT mask) OR w32 (v * 2 ^ shift)\<rparr>
        else if ec_rng e \<le> 2 ^ 31 div 2 ^ nbits then
          e\<lparr>ec_val := (ec_val e AND NOT (mask * 2 ^ 23)) OR w32 (v * 2 ^ (23 + shift))\<rparr>
        else e\<lparr>ec_error := -1\<rparr>)"

text \<open>Shrinking moves the raw bytes to the new end. The list holds the bytes the context may touch, so those beyond the new size leave it.\<close>

definition ec_enc_shrink :: "ec_ctx \<Rightarrow> nat \<Rightarrow> ec_ctx" where
  "ec_enc_shrink e sz =
    e\<lparr>ec_buf := take (sz - ec_end_offs e) (ec_buf e) @ drop (ec_storage e - ec_end_offs e) (ec_buf e), ec_storage := sz\<rparr>"

section \<open>The decoder\<close>

definition ec_read_byte :: "ec_ctx \<Rightarrow> ec_ctx \<times> int" where
  "ec_read_byte d =
    (if ec_offs d < ec_storage d then (d\<lparr>ec_offs := ec_offs d + 1\<rparr>, uint (ec_buf d ! ec_offs d)) else (d, 0))"

definition ec_read_byte_from_end :: "ec_ctx \<Rightarrow> ec_ctx \<times> int" where
  "ec_read_byte_from_end d =
    (if ec_end_offs d < ec_storage d
     then (d\<lparr>ec_end_offs := ec_end_offs d + 1\<rparr>, uint (ec_buf d ! (ec_storage d - (ec_end_offs d + 1)))) else (d, 0))"

partial_function (option) ec_dec_normalize :: "ec_ctx \<Rightarrow> ec_ctx option" where
  "ec_dec_normalize d =
    (if ec_rng d \<le> 2 ^ 23 then
       let symb = ec_rem d;
           (d, b) = ec_read_byte (d\<lparr>ec_nbits_total := ec_nbits_total d + 8, ec_rng := w32 (ec_rng d * 2 ^ 8)\<rparr>);
           symb = (symb * 2 ^ 8 OR b) div 2
       in ec_dec_normalize (d\<lparr>ec_rem := b, ec_val := w32 (w32 (ec_val d * 2 ^ 8) + (255 AND NOT symb)) mod 2 ^ 31\<rparr>)
     else Some d)"

definition ec_dec_init :: "bytes \<Rightarrow> nat \<Rightarrow> ec_ctx option" where
  "ec_dec_init buf storage =
    (let d = \<lparr>ec_buf = buf, ec_storage = storage, ec_end_offs = 0, ec_end_window = 0, ec_nend_bits = 0, ec_nbits_total = 33 - 24,
              ec_offs = 0, ec_rng = 2 ^ 7, ec_val = 0, ec_ext = 0, ec_rem = 0, ec_error = 0\<rparr>;
         (d, b) = ec_read_byte d
     in ec_dec_normalize (d\<lparr>ec_rem := b, ec_val := w32 (ec_rng d - 1 - b div 2)\<rparr>))"

definition ec_decode :: "ec_ctx \<Rightarrow> int \<Rightarrow> ec_ctx \<times> int" where
  "ec_decode d ft =
    (let d = d\<lparr>ec_ext := celt_udiv (ec_rng d) ft\<rparr>; s = ec_val d div ec_ext d in (d, ft - min (w32 (s + 1)) ft))"

definition ec_decode_bin :: "ec_ctx \<Rightarrow> nat \<Rightarrow> ec_ctx \<times> int" where
  "ec_decode_bin d bits =
    (let d = d\<lparr>ec_ext := ec_rng d div 2 ^ bits\<rparr>; s = ec_val d div ec_ext d in (d, 2 ^ bits - min (w32 (s + 1)) (2 ^ bits)))"

definition ec_dec_update :: "ec_ctx \<Rightarrow> int \<Rightarrow> int \<Rightarrow> int \<Rightarrow> ec_ctx option" where
  "ec_dec_update d fl fh ft =
    (let s = w32 (ec_ext d * (ft - fh))
     in ec_dec_normalize (d\<lparr>ec_val := w32 (ec_val d - s),
          ec_rng := (if fl > 0 then w32 (ec_ext d * (fh - fl)) else w32 (ec_rng d - s))\<rparr>))"

definition ec_dec_bit_logp :: "ec_ctx \<Rightarrow> nat \<Rightarrow> (ec_ctx \<times> bool) option" where
  "ec_dec_bit_logp d logp =
    (let r = ec_rng d; v = ec_val d; s = r div 2 ^ logp; ret = (v < s);
         d = (if \<not> ret then d\<lparr>ec_val := w32 (v - s)\<rparr> else d)
     in do { d \<leftarrow> ec_dec_normalize (d\<lparr>ec_rng := (if ret then s else w32 (r - s))\<rparr>); Some (d, ret) })"

text \<open>
  The search of the table for the symbol; \<open>xs\<close> is the rest of the table. A table ends with 0, where the loop stops at the latest; running past the
  end of the table is \<open>None\<close>.
\<close>

fun ec_icdf_search :: "int list \<Rightarrow> int \<Rightarrow> int \<Rightarrow> int \<Rightarrow> nat \<Rightarrow> (nat \<times> int \<times> int) option" where
  "ec_icdf_search [] d r s ret = None"
| "ec_icdf_search (x # xs) d r s ret =
    (let t = s; s = w32 (r * x) in if d < s then ec_icdf_search xs d r s (ret + 1) else Some (ret, s, t))"

definition ec_dec_icdf :: "ec_ctx \<Rightarrow> int list \<Rightarrow> nat \<Rightarrow> (ec_ctx \<times> nat) option" where
  "ec_dec_icdf d icdf ftb =
    do { (ret, s, t) \<leftarrow> ec_icdf_search icdf (ec_val d) (ec_rng d div 2 ^ ftb) (ec_rng d) 0;
         d \<leftarrow> ec_dec_normalize (d\<lparr>ec_val := w32 (ec_val d - s), ec_rng := w32 (t - s)\<rparr>);
         Some (d, ret) }"

function ec_fill_window :: "ec_ctx \<Rightarrow> int \<Rightarrow> int \<Rightarrow> ec_ctx \<times> int \<times> int" where
  "ec_fill_window d window available =
    (let (d, b) = ec_read_byte_from_end d;
         window = window OR w32 (b * 2 ^ nat available);
         available = available + 8
     in if available \<le> 24 then ec_fill_window d window available else (d, window, available))"
  by pat_completeness auto
termination by (relation "measure (\<lambda>(_, _, available). nat (32 - available))") auto

declare ec_fill_window.simps [simp del]

definition ec_dec_bits :: "ec_ctx \<Rightarrow> nat \<Rightarrow> ec_ctx \<times> int" where
  "ec_dec_bits d bits =
    (let window = ec_end_window d; available = ec_nend_bits d;
         (d, window, available) = (if available < int bits then ec_fill_window d window available else (d, window, available));
         ret = window mod 2 ^ bits;
         window = window div 2 ^ bits;
         available = available - int bits
     in (d\<lparr>ec_end_window := window, ec_nend_bits := available, ec_nbits_total := ec_nbits_total d + int bits\<rparr>, ret))"

definition ec_dec_uint :: "ec_ctx \<Rightarrow> int \<Rightarrow> (ec_ctx \<times> int) option" where
  "ec_dec_uint d ft =
    (let ft = ft - 1; ftb = EC_ILOG ft
     in if ftb > 8 then
          let ftb = nat (ftb - 8); ft' = ft div 2 ^ ftb + 1; (d, s) = ec_decode d ft'
          in do { d \<leftarrow> ec_dec_update d s (s + 1) ft';
                  let (d, x) = ec_dec_bits d ftb; t = w32 (s * 2 ^ ftb) OR x
                  in if t \<le> ft then Some (d, t) else Some (d\<lparr>ec_error := 1\<rparr>, ft) }
        else
          let ft = ft + 1; (d, s) = ec_decode d ft
          in do { d \<leftarrow> ec_dec_update d s (s + 1) ft; Some (d, s) })"

declare ec_enc_normalize.simps [code] ec_dec_normalize.simps [code]

end
