(* ===== verification/Opus_Range_Enc.thy ===== *)
theory Opus_Range_Enc
  imports Opus_Range
begin

text \<open>
  The range encoder as an interval: the bytes written so far, the pending byte and the pending carry bytes are the digits of one
  number, the low end of an interval that every operation narrows. Carry propagation never leaves the digits.
\<close>

unbundle bit_operations_syntax

section \<open>Digits\<close>

fun num :: "int list \<Rightarrow> int" where
  "num [] = 0"
| "num (d # ds) = d * 256 ^ length ds + num ds"

lemma num_append [simp]: "num (xs @ ys) = num xs * 256 ^ length ys + num ys"
  by (induction xs) (simp_all add: power_add algebra_simps)

lemma num_replicate: "num (replicate n 255) = 256 ^ n - 1" "num (replicate n 0) = 0"
  by (induction n) (simp_all add: algebra_simps)

definition enc_digits :: "ec_ctx \<Rightarrow> int list" where
  "enc_digits e = map uint (take (ec_offs e) (ec_buf e)) @ (if ec_rem e < 0 then [] else [ec_rem e]) @ replicate (nat (ec_ext e)) 255"

definition enc_low :: "ec_ctx \<Rightarrow> int" where
  "enc_low e = num (enc_digits e) * 2 ^ 31 + ec_val e"

definition enc_n :: "ec_ctx \<Rightarrow> nat" where "enc_n e = length (enc_digits e)"

definition enc_wf :: "ec_ctx \<Rightarrow> bool" where
  "enc_wf e \<longleftrightarrow> length (ec_buf e) = ec_storage e \<and> ec_offs e + ec_end_offs e \<le> ec_storage e \<and> -1 \<le> ec_rem e \<and> ec_rem e \<le> 255 \<and> 0 \<le> ec_ext e"

text \<open>Everything but the buffered digits is unchanged.\<close>

definition same_rest :: "ec_ctx \<Rightarrow> ec_ctx \<Rightarrow> bool" where
  "same_rest e e' \<longleftrightarrow> ec_storage e' = ec_storage e \<and> ec_end_offs e' = ec_end_offs e \<and> ec_end_window e' = ec_end_window e \<and>
     ec_nend_bits e' = ec_nend_bits e \<and> ec_nbits_total e' = ec_nbits_total e \<and> ec_rng e' = ec_rng e \<and> ec_val e' = ec_val e \<and>
     drop (ec_storage e - ec_end_offs e) (ec_buf e') = drop (ec_storage e - ec_end_offs e) (ec_buf e)"

lemma or_error_0: "ec_error (ec_or_error r) = 0 \<longleftrightarrow> ec_error (fst r) = 0 \<and> snd r = 0"
  by (simp add: ec_or_error_def or_eq_0_iff)

lemma write_byte_ok:
  assumes "ec_error (ec_or_error (ec_write_byte e v)) = 0"
  shows "ec_error e = 0" "ec_offs e + ec_end_offs e < ec_storage e"
    "ec_or_error (ec_write_byte e v) = e\<lparr>ec_buf := (ec_buf e)[ec_offs e := word_of_int v], ec_offs := ec_offs e + 1\<rparr>"
  using assms by (auto simp: or_error_0 ec_write_byte_def ec_or_error_def split: if_splits)

lemma write_byte_step:
  assumes "ec_error (ec_or_error (ec_write_byte e v)) = 0" "enc_wf e" "0 \<le> v" "v < 256"
  defines "e' \<equiv> ec_or_error (ec_write_byte e v)"
  shows "enc_wf e'" "same_rest e e'" "ec_error e = 0" "ec_rem e' = ec_rem e" "ec_ext e' = ec_ext e" "ec_error e' = 0"
    "map uint (take (ec_offs e') (ec_buf e')) = map uint (take (ec_offs e) (ec_buf e)) @ [v]"
proof -
  note w = write_byte_ok [OF assms(1)]
  have l: "ec_offs e < length (ec_buf e)" "ec_offs e < ec_storage e - ec_end_offs e" using w(2) assms(2) by (auto simp: enc_wf_def)
  have u: "uint (word_of_int v :: u8) = v" using assms(3,4) by (simp add: uint_word_of_int)
  show "enc_wf e'" "same_rest e e'" "ec_rem e' = ec_rem e" "ec_ext e' = ec_ext e" "ec_error e' = 0" "ec_error e = 0"
    using w l assms(1,2) by (auto simp: e'_def enc_wf_def same_rest_def)
  show "map uint (take (ec_offs e') (ec_buf e')) = map uint (take (ec_offs e) (ec_buf e)) @ [v]"
    unfolding e'_def w(3) using l(1) u by (simp add: take_Suc_conv_app_nth)
qed

lemma same_rest_trans: "same_rest a b \<Longrightarrow> same_rest b c \<Longrightarrow> same_rest a c"
  by (auto simp: same_rest_def)

lemma carry_loop_sticky: "ec_error (ec_carry_loop n v g) = 0 \<Longrightarrow> ec_error g = 0"
proof (induction n arbitrary: g)
  case (Suc n)
  from Suc(2) have "ec_error (ec_or_error (ec_write_byte g v)) = 0" by (auto simp: Let_def dest: Suc(1))
  then show ?case by (rule write_byte_ok(1))
qed simp

lemma carry_loop_step:
  assumes "ec_error (ec_carry_loop n v e) = 0" "enc_wf e" "0 \<le> v" "v < 256" "ec_ext e = int n"
  defines "e' \<equiv> ec_carry_loop n v e"
  shows "enc_wf e' \<and> same_rest e e' \<and> ec_error e = 0 \<and> ec_rem e' = ec_rem e \<and> ec_ext e' = 0 \<and>
    map uint (take (ec_offs e') (ec_buf e')) = map uint (take (ec_offs e) (ec_buf e)) @ replicate n v"
  unfolding e'_def using assms(1-5)
proof (induction n arbitrary: e)
  case 0
  then show ?case by (simp add: same_rest_def)
next
  case (Suc n)
  define w where "w = ec_or_error (ec_write_byte e v)"
  define f where "f = w\<lparr>ec_ext := ec_ext w - 1\<rparr>"
  have r: "ec_carry_loop (Suc n) v e = ec_carry_loop n v f" by (simp add: w_def f_def Let_def)
  have "ec_error f = 0" using Suc(2) carry_loop_sticky unfolding r by blast
  then have we: "ec_error (ec_or_error (ec_write_byte e v)) = 0" by (simp add: f_def w_def)
  note st = write_byte_step [OF we Suc(3-5), folded w_def]
  have f: "enc_wf f" "same_rest e f" "ec_rem f = ec_rem e" "ec_ext f = int n" "map uint (take (ec_offs f) (ec_buf f)) = map uint (take (ec_offs e) (ec_buf e)) @ [v]"
    using st Suc(6) by (auto simp: f_def enc_wf_def same_rest_def)
  have "ec_error (ec_carry_loop n v f) = 0" using Suc(2) r by simp
  from Suc(1) [OF this f(1) Suc(4,5) f(4)] show ?case unfolding r using f st(3) same_rest_trans by auto
qed

section \<open>Carry propagation\<close>

lemma write_byte_nbits: "ec_nbits_total (ec_or_error (ec_write_byte e v)) = ec_nbits_total e"
  by (simp add: ec_or_error_def ec_write_byte_def)

lemma carry_loop_nbits: "ec_nbits_total (ec_carry_loop n v e) = ec_nbits_total e"
  by (induction n arbitrary: e) (simp_all add: Let_def write_byte_nbits)

lemma carry_out_nbits: "ec_nbits_total (ec_enc_carry_out e c) = ec_nbits_total e"
  by (simp add: ec_enc_carry_out_def Let_def carry_loop_nbits write_byte_nbits)

lemma carry_out_flush:
  assumes "ec_error (ec_enc_carry_out e c) = 0" "enc_wf e" "0 \<le> c" "c < 512" "c \<noteq> 255" "c \<ge> 256 \<Longrightarrow> 0 \<le> ec_rem e \<and> ec_rem e \<le> 254"
  defines "e' \<equiv> ec_enc_carry_out e c" and "k \<equiv> c div 256"
  shows "enc_wf e' \<and> same_rest e e' \<and> ec_error e = 0 \<and> ec_rem e' = c mod 256 \<and> ec_ext e' = 0 \<and>
    map uint (take (ec_offs e') (ec_buf e')) = map uint (take (ec_offs e) (ec_buf e)) @
      (if ec_rem e < 0 then [] else [ec_rem e + k]) @ replicate (nat (ec_ext e)) ((255 + k) mod 256)"
proof -
  define f where "f = (if ec_rem e \<ge> 0 then ec_or_error (ec_write_byte e (ec_rem e + k)) else e)"
  define g where "g = (if ec_ext f > 0 then ec_carry_loop (nat (ec_ext f)) ((255 + k) mod 256) f else f)"
  have e': "e' = g\<lparr>ec_rem := c mod 256\<rparr>" using assms(5) by (simp add: e'_def ec_enc_carry_out_def f_def g_def k_def Let_def)
  have k: "k = 0 \<or> k = 1" "k = 1 \<Longrightarrow> c \<ge> 256" using assms(3,4) by (auto simp: k_def)
  have er: "ec_error g = 0" using assms(1) e' by (simp add: e'_def)
  have rem: "ec_rem e \<ge> 0 \<Longrightarrow> 0 \<le> ec_rem e + k \<and> ec_rem e + k < 256" using k assms(2,6) by (auto simp: enc_wf_def)
  have "ec_ext f = ec_ext e \<and> ec_rem f = ec_rem e" by (simp add: f_def ec_or_error_def ec_write_byte_def)
  have f: "enc_wf f \<and> same_rest e f \<and> ec_error e = 0 \<and> ec_ext f = ec_ext e \<and>
      map uint (take (ec_offs f) (ec_buf f)) = map uint (take (ec_offs e) (ec_buf e)) @ (if ec_rem e < 0 then [] else [ec_rem e + k])"
    if "ec_error f = 0"
  proof (cases "ec_rem e \<ge> 0")
    case True
    have "ec_error (ec_or_error (ec_write_byte e (ec_rem e + k))) = 0" using that True by (simp add: f_def)
    from write_byte_step [OF this assms(2)] rem [OF True] True show ?thesis by (simp add: f_def)
  qed (use that assms(2) in \<open>auto simp: f_def same_rest_def\<close>)
  show ?thesis
  proof (cases "ec_ext e > 0")
    case True
    then have n: "ec_ext f > 0" "ec_ext f = int (nat (ec_ext f))" "ec_ext f = ec_ext e" using \<open>ec_ext f = ec_ext e \<and> ec_rem f = ec_rem e\<close> by auto
    have l: "ec_error (ec_carry_loop (nat (ec_ext f)) ((255 + k) mod 256) f) = 0" using er n(1) by (simp add: g_def)
    have "ec_error f = 0" by (rule carry_loop_sticky [OF l])
    note f = f [OF this]
    have g: "g = ec_carry_loop (nat (ec_ext f)) ((255 + k) mod 256) f" using n(1) by (simp add: g_def)
    have c: "enc_wf g" "same_rest f g" "ec_ext g = 0" "map uint (take (ec_offs g) (ec_buf g)) = map uint (take (ec_offs f) (ec_buf f)) @ replicate (nat (ec_ext e)) ((255 + k) mod 256)"
      using carry_loop_step [OF l _ _ _ n(2)] f unfolding g n(3) by simp_all
    have "same_rest e g" using f c(2) same_rest_trans by blast
    then have "same_rest e e'" unfolding e' by (simp add: same_rest_def)
    moreover have "-1 \<le> c mod 256" "c mod 256 \<le> 255" by presburger+
    then have "enc_wf e'" using c(1) by (simp add: e' enc_wf_def)
    ultimately show ?thesis using f c(3,4) by (simp add: e')
  next
    case False
    then have g: "g = f" using \<open>ec_ext f = ec_ext e \<and> ec_rem f = ec_rem e\<close> by (simp add: g_def)
    moreover have "-1 \<le> c mod 256" "c mod 256 \<le> 255" by presburger+
    ultimately show ?thesis using f er False unfolding e' by (auto simp: enc_wf_def same_rest_def)
  qed
qed

lemma carry_out_step:
  assumes "ec_error (ec_enc_carry_out e c) = 0" "enc_wf e" "0 \<le> c" "c < 512" "c \<ge> 256 \<Longrightarrow> 0 \<le> ec_rem e \<and> ec_rem e \<le> 254"
    "ec_ext e + 1 < 2 ^ 32"
  defines "e' \<equiv> ec_enc_carry_out e c"
  shows "enc_wf e'" "same_rest e e'" "ec_error e = 0" "num (enc_digits e') = 256 * num (enc_digits e) + c" "enc_n e' = enc_n e + 1"
    "ec_rem e' = (if c = 255 then ec_rem e else c mod 256)"
proof -
  have "enc_wf e' \<and> same_rest e e' \<and> ec_error e = 0 \<and> num (enc_digits e') = 256 * num (enc_digits e) + c \<and> enc_n e' = enc_n e + 1 \<and>
      ec_rem e' = (if c = 255 then ec_rem e else c mod 256)"
  proof (cases "c = 255")
    case True
    then have e': "e' = e\<lparr>ec_ext := ec_ext e + 1\<rparr>" using assms(2,6) by (simp add: e'_def ec_enc_carry_out_def w32_def enc_wf_def)
    have "nat (ec_ext e + 1) = Suc (nat (ec_ext e))" using assms(2) by (simp add: enc_wf_def nat_add_distrib)
    then have "enc_digits e' = enc_digits e @ [255]" by (simp add: e' enc_digits_def replicate_append_same)
    moreover have "ec_error e = 0" using assms(1) [folded e'_def] by (simp add: e')
    ultimately show ?thesis using True assms(2) by (simp add: e' enc_n_def enc_wf_def same_rest_def)
  next
    case False
    define k where "k = c div 256"
    have k: "k = 0 \<and> c mod 256 = c \<or> k = 1 \<and> c mod 256 = c - 256 \<and> 0 \<le> ec_rem e" 
    proof (cases "c < 256")
      case False
      then have "c div 256 = 1" "c mod 256 = c - 256" using assms(4) by presburger+
      then show ?thesis using assms(5) False by (simp add: k_def)
    qed (use assms(3) in \<open>simp add: k_def\<close>)
    note f = carry_out_flush [OF assms(1-4) False assms(5), folded e'_def, folded k_def]
    have x: "0 \<le> ec_ext e" using assms(2) by (simp add: enc_wf_def)
    have d: "enc_digits e' = map uint (take (ec_offs e) (ec_buf e)) @ (if ec_rem e < 0 then [] else [ec_rem e + k]) @
        replicate (nat (ec_ext e)) ((255 + k) mod 256) @ [c mod 256]" using f assms(3) by (simp add: enc_digits_def)
    have "num (enc_digits e') = 256 * num (enc_digits e) + c" using k unfolding d enc_digits_def [of e]
      by (auto simp: num_replicate algebra_simps)
    moreover have "enc_n e' = enc_n e + 1" unfolding enc_n_def d by (simp add: enc_digits_def)
    ultimately show ?thesis using f False by simp
  qed
  then show "enc_wf e'" "same_rest e e'" "ec_error e = 0" "num (enc_digits e') = 256 * num (enc_digits e) + c" "enc_n e' = enc_n e + 1"
    "ec_rem e' = (if c = 255 then ec_rem e else c mod 256)" by simp_all
qed

section \<open>The interval\<close>

text \<open>An interval is given by the number of digits emitted, its low end and its width.\<close>

type_synonym interval = "nat \<times> int \<times> int"

function renorm :: "interval \<Rightarrow> interval" where
  "renorm (n, low, rng) = (if 0 < rng \<and> rng \<le> 2 ^ 23 then renorm (n + 1, 256 * low, 256 * rng) else (n, low, rng))"
  by pat_completeness auto
termination by (relation "measure (\<lambda>(_, _, rng). nat (2 ^ 32 - rng))") auto

declare renorm.simps [simp del]

definition narrow :: "interval \<Rightarrow> int \<Rightarrow> int \<Rightarrow> interval" where
  "narrow iv t s = (case iv of (n, low, rng) \<Rightarrow> (n, low + rng - t, t - s))"

definition enc_iv :: "ec_ctx \<Rightarrow> interval" where
  "enc_iv e = (enc_n e, enc_low e, ec_rng e)"

definition enc_inv :: "ec_ctx \<Rightarrow> bool" where
  "enc_inv e \<longleftrightarrow> enc_wf e \<and> ec_error e = 0 \<and> 0 < ec_rng e \<and> ec_rng e \<le> 2 ^ 31 \<and> 0 \<le> ec_val e \<and> ec_val e + ec_rng e < 2 ^ 32 \<and>
     (ec_val e + ec_rng e > 2 ^ 31 \<longrightarrow> 0 \<le> ec_rem e \<and> ec_rem e \<le> 254) \<and> 33 + 8 * int (enc_n e) \<le> ec_nbits_total e"

lemma ext_le_n: "enc_wf e \<Longrightarrow> ec_ext e \<le> int (enc_n e)"
  by (simp add: enc_n_def enc_digits_def enc_wf_def)

text \<open>Everything but the coded interval is unchanged; the bit count moves with the digits.\<close>

definition same_raw :: "ec_ctx \<Rightarrow> ec_ctx \<Rightarrow> bool" where
  "same_raw e e' \<longleftrightarrow> ec_storage e' = ec_storage e \<and> ec_end_offs e' = ec_end_offs e \<and> ec_end_window e' = ec_end_window e \<and>
     ec_nend_bits e' = ec_nend_bits e \<and> ec_nbits_total e' - 8 * int (enc_n e') = ec_nbits_total e - 8 * int (enc_n e) \<and>
     drop (ec_storage e - ec_end_offs e) (ec_buf e') = drop (ec_storage e - ec_end_offs e) (ec_buf e)"

lemma same_raw_refl [simp]: "same_raw e e" by (simp add: same_raw_def)

lemma same_raw_trans: "same_raw a b \<Longrightarrow> same_raw b c \<Longrightarrow> same_raw a c"
  by (auto simp: same_raw_def)

definition enc_shift :: "ec_ctx \<Rightarrow> ec_ctx" where
  "enc_shift e = (let e = ec_enc_carry_out e (ec_val e div 2 ^ 23)
     in e\<lparr>ec_val := w32 (ec_val e * 2 ^ 8) mod 2 ^ 31, ec_rng := w32 (ec_rng e * 2 ^ 8), ec_nbits_total := ec_nbits_total e + 8\<rparr>)"

lemma enc_shift_step:
  assumes inv: "enc_inv e" "ec_rng e \<le> 2 ^ 23" and er: "ec_error (enc_shift e) = 0" and nb: "ec_nbits_total (enc_shift e) < 2 ^ 31"
  shows "enc_inv (enc_shift e)" "enc_iv (enc_shift e) = (enc_n e + 1, 256 * enc_low e, 256 * ec_rng e)" "same_raw e (enc_shift e)"
proof -
  define c where "c = ec_val e div 2 ^ 23"
  define f where "f = ec_enc_carry_out e c"
  define v where "v = ec_val e mod 2 ^ 23"
  have s: "enc_shift e = f\<lparr>ec_val := w32 (ec_val f * 2 ^ 8) mod 2 ^ 31, ec_rng := w32 (ec_rng f * 2 ^ 8), ec_nbits_total := ec_nbits_total f + 8\<rparr>"
    by (simp add: enc_shift_def f_def c_def Let_def)
  have val: "ec_val e = c * 2 ^ 23 + v" "0 \<le> v" "v < 2 ^ 23" "0 \<le> ec_val e" "ec_val e + ec_rng e < 2 ^ 32" "0 < ec_rng e"
    using inv by (auto simp: c_def v_def enc_inv_def)
  have c: "0 \<le> c" "c < 512" using val by auto
  have big: "c \<ge> 256 \<Longrightarrow> 0 \<le> ec_rem e \<and> ec_rem e \<le> 254" using val inv(1) by (auto simp: enc_inv_def)
  have wf: "enc_wf e" and n: "33 + 8 * int (enc_n e) \<le> ec_nbits_total e" using inv(1) by (auto simp: enc_inv_def)
  have nbf: "ec_nbits_total f = ec_nbits_total e" by (simp add: f_def carry_out_nbits)
  have ex: "ec_ext e + 1 < 2 ^ 32" using ext_le_n [OF wf] n nb nbf by (simp add: s)
  have "ec_error (ec_enc_carry_out e c) = 0" using er by (simp add: s f_def)
  note st = carry_out_step [OF this wf c big ex, folded f_def]
  have fv: "ec_val f = ec_val e" "ec_rng f = ec_rng e" using st(2) by (simp_all add: same_rest_def)
  have v8: "w32 (ec_val e * 2 ^ 8) mod 2 ^ 31 = v * 256"
  proof -
    have "(ec_val e * 2 ^ 8) mod 2 ^ 32 mod 2 ^ 31 = (ec_val e * 2 ^ 8) mod 2 ^ 31" by (simp add: mod_mod_cancel)
    also have "\<dots> = (ec_val e mod 2 ^ 23) * 2 ^ 8" using mod_mult_mult2 [of "ec_val e" "2 ^ 8" "2 ^ 23"] by simp
    finally show ?thesis by (simp add: w32_def v_def)
  qed
  have r8: "w32 (ec_rng e * 2 ^ 8) = ec_rng e * 256" using inv(2) val(6) by (simp add: w32_def)
  have d: "enc_digits (enc_shift e) = enc_digits f" by (simp add: s enc_digits_def)
  show iv: "enc_iv (enc_shift e) = (enc_n e + 1, 256 * enc_low e, 256 * ec_rng e)"
    using st(4,5) d v8 r8 fv val(1) by (simp add: enc_iv_def enc_n_def enc_low_def s [unfolded fv v8 r8])
  have rem: "ec_rem (enc_shift e) = (if c = 255 then ec_rem e else c mod 256)" using st(6) by (simp add: s)
  have carry: "v * 256 + ec_rng e * 256 > 2 ^ 31 \<longrightarrow> 0 \<le> ec_rem (enc_shift e) \<and> ec_rem (enc_shift e) \<le> 254"
  proof
    assume a: "v * 256 + ec_rng e * 256 > 2 ^ 31"
    show "0 \<le> ec_rem (enc_shift e) \<and> ec_rem (enc_shift e) \<le> 254"
    proof (cases "c = 255")
      case True
      then show ?thesis using a inv(1) val(1) rem by (auto simp: enc_inv_def)
    next
      case False
      have "c \<noteq> 511" using a val by auto
      then have "c mod 256 \<noteq> 255" using False c by presburger
      moreover have "0 \<le> c mod 256" "c mod 256 < 256" by simp_all
      ultimately show ?thesis using False rem by simp
    qed
  qed
  have "enc_wf (enc_shift e)" using st(1) by (simp add: s enc_wf_def)
  then show "enc_inv (enc_shift e)" using er carry inv(2) val iv n nbf unfolding enc_inv_def
    by (simp add: s [unfolded fv v8 r8] enc_iv_def)
  show "same_raw e (enc_shift e)" using st(2) iv nbf by (auto simp: same_raw_def same_rest_def s enc_iv_def)
qed

end
