(* ===== verification/Opus_Range_Ops.thy ===== *)
theory Opus_Range_Ops
  imports Opus_Range_Enc
begin

unbundle bit_operations_syntax

section \<open>Renormalization\<close>

lemma enc_normalize_simps:
  "ec_enc_normalize e = (if ec_rng e \<le> 2 ^ 23 then ec_enc_normalize (enc_shift e) else Some e)"
  by (subst ec_enc_normalize.simps) (simp add: enc_shift_def Let_def)

lemma carry_loop_rng: "ec_rng (ec_carry_loop n v e) = ec_rng e"
  by (induction n arbitrary: e) (simp_all add: Let_def ec_or_error_def ec_write_byte_def)

lemma carry_out_rng: "ec_rng (ec_enc_carry_out e c) = ec_rng e"
  by (simp add: ec_enc_carry_out_def Let_def carry_loop_rng ec_or_error_def ec_write_byte_def)

lemma carry_out_sticky: "ec_error (ec_enc_carry_out e c) = 0 \<Longrightarrow> ec_error e = 0"
  by (auto simp: ec_enc_carry_out_def Let_def split: if_splits dest: carry_loop_sticky dest!: write_byte_ok(1) carry_loop_sticky [THEN write_byte_ok(1)])

lemma enc_shift_frame:
  "0 < ec_rng e \<Longrightarrow> ec_rng e \<le> 2 ^ 23 \<Longrightarrow> ec_rng (enc_shift e) = ec_rng e * 256" "ec_nbits_total (enc_shift e) = ec_nbits_total e + 8"
  "ec_error (enc_shift e) = 0 \<Longrightarrow> ec_error e = 0"
  by (auto simp: enc_shift_def Let_def carry_out_rng carry_out_nbits w32_def dest: carry_out_sticky)

lemma rng_induct [consumes 1, case_names step]:
  assumes "0 < ec_rng e" "\<And>e. 0 < ec_rng e \<Longrightarrow> (ec_rng e \<le> 2 ^ 23 \<Longrightarrow> P (enc_shift e)) \<Longrightarrow> P e"
  shows "P e"
  using assms(1)
proof (induction "nat (2 ^ 32 - ec_rng e)" arbitrary: e rule: less_induct)
  case less
  show ?case
  proof (rule assms(2) [OF less(2)])
    assume "ec_rng e \<le> 2 ^ 23"
    then have r: "ec_rng (enc_shift e) = ec_rng e * 256" using enc_shift_frame(1) less(2) by simp
    show "P (enc_shift e)" by (rule less(1)) (use r less(2) \<open>ec_rng e \<le> 2 ^ 23\<close> in auto)
  qed
qed

text \<open>The loop returns whenever the range is positive, and neither clears the error flag nor lowers the bit count.\<close>

lemma enc_normalize_total:
  assumes "0 < ec_rng e"
  shows "\<exists>f. ec_enc_normalize e = Some f \<and> (ec_error f = 0 \<longrightarrow> ec_error e = 0) \<and> ec_nbits_total e \<le> ec_nbits_total f \<and> 2 ^ 23 < ec_rng f"
  using assms
proof (induction rule: rng_induct)
  case (step e)
  show ?case
  proof (cases "ec_rng e \<le> 2 ^ 23")
    case True
    from step(2) [OF True] obtain f where "ec_enc_normalize (enc_shift e) = Some f" "ec_error f = 0 \<longrightarrow> ec_error (enc_shift e) = 0"
      "ec_nbits_total (enc_shift e) \<le> ec_nbits_total f" "2 ^ 23 < ec_rng f" by blast
    then show ?thesis using True enc_shift_frame(2,3) [of e] by (subst enc_normalize_simps) auto
  qed (subst enc_normalize_simps, simp)
qed

lemma enc_normalize_step:
  assumes "0 < ec_rng e" "enc_inv e" "ec_enc_normalize e = Some f" "ec_error f = 0" "ec_nbits_total f < 2 ^ 31"
  shows "enc_inv f \<and> 2 ^ 23 < ec_rng f \<and> enc_iv f = renorm (enc_iv e) \<and> same_raw e f"
  using assms
proof (induction arbitrary: f rule: rng_induct)
  case (step e)
  show ?case
  proof (cases "ec_rng e \<le> 2 ^ 23")
    case True
    then have n: "ec_enc_normalize (enc_shift e) = Some f" using step(4) by (simp add: enc_normalize_simps [of e])
    have "0 < ec_rng (enc_shift e)" using enc_shift_frame(1) step(1) True by simp
    from enc_normalize_total [OF this] n step(5,6) have er: "ec_error (enc_shift e) = 0" "ec_nbits_total (enc_shift e) < 2 ^ 31" by auto
    note sh = enc_shift_step [OF step(3) True er]
    have "enc_inv f \<and> 2 ^ 23 < ec_rng f \<and> enc_iv f = renorm (enc_iv (enc_shift e)) \<and> same_raw (enc_shift e) f"
      by (rule step(2) [OF True sh(1) n step(5,6)])
    moreover have "renorm (enc_iv e) = renorm (enc_iv (enc_shift e))"
      unfolding sh(2) using True step(1) by (simp add: enc_iv_def renorm.simps [of "enc_n e"])
    ultimately show ?thesis using same_raw_trans [OF sh(3)] by simp
  next
    case False
    then have "f = e" using step(4) by (simp add: enc_normalize_simps [of e])
    then show ?thesis using False step(3) by (simp add: enc_iv_def renorm.simps)
  qed
qed

section \<open>The operations narrow the interval\<close>

definition enc_narrow :: "ec_ctx \<Rightarrow> int \<Rightarrow> int \<Rightarrow> ec_ctx option" where
  "enc_narrow e t s = ec_enc_normalize (e\<lparr>ec_val := ec_val e + ec_rng e - t, ec_rng := t - s\<rparr>)"

lemma enc_narrow_total:
  assumes "s < t"
  obtains f where "enc_narrow e t s = Some f" "ec_error f = 0 \<Longrightarrow> ec_error e = 0" "ec_nbits_total e \<le> ec_nbits_total f" "2 ^ 23 < ec_rng f"
  using enc_normalize_total [of "e\<lparr>ec_val := ec_val e + ec_rng e - t, ec_rng := t - s\<rparr>"] assms by (auto simp: enc_narrow_def)

lemma enc_narrow_step:
  assumes "enc_inv e" "0 \<le> s" "s < t" "t \<le> ec_rng e" "enc_narrow e t s = Some f" "ec_error f = 0" "ec_nbits_total f < 2 ^ 31"
  shows "enc_inv f" "2 ^ 23 < ec_rng f" "enc_iv f = renorm (narrow (enc_iv e) t s)" "same_raw e f"
proof -
  define g where "g = e\<lparr>ec_val := ec_val e + ec_rng e - t, ec_rng := t - s\<rparr>"
  have d: "enc_digits g = enc_digits e" by (simp add: g_def enc_digits_def)
  have "enc_wf g" using assms(1) by (simp add: g_def enc_inv_def enc_wf_def)
  then have g: "enc_inv g" using assms(1-4) unfolding enc_inv_def enc_n_def d by (auto simp: g_def)
  have iv: "enc_iv g = narrow (enc_iv e) t s" using d by (simp add: enc_iv_def narrow_def enc_n_def enc_low_def g_def)
  have sr: "same_raw e g" using d by (simp add: same_raw_def g_def enc_n_def)
  have "0 < ec_rng g" using assms(3) by (simp add: g_def)
  from enc_normalize_step [OF this g assms(5) [unfolded enc_narrow_def, folded g_def] assms(6,7)]
  show "enc_inv f" "2 ^ 23 < ec_rng f" "enc_iv f = renorm (narrow (enc_iv e) t s)" "same_raw e f"
    using same_raw_trans [OF sr] by (simp_all add: iv)
qed

text \<open>The part \<open>[s, t)\<close> of the range, counted from its top, that belongs to the symbol with the frequencies \<open>fl\<close> to \<open>fh\<close> of \<open>ft\<close>.\<close>

definition span :: "int \<Rightarrow> int \<Rightarrow> bool \<Rightarrow> int \<Rightarrow> int \<Rightarrow> int \<times> int" where
  "span rng r first a b = (if first then rng else r * a, r * b)"

definition valid_span :: "int \<Rightarrow> int \<times> int \<Rightarrow> bool" where
  "valid_span rng ts \<longleftrightarrow> 0 \<le> snd ts \<and> snd ts < fst ts \<and> fst ts \<le> rng"

lemma valid_spanI:
  assumes "0 < r" "0 \<le> b" "b < a" "r * a \<le> rng"
  shows "valid_span rng (span rng r first a b)"
proof -
  have "r * b < r * a" "0 \<le> r * b" using assms by simp_all
  then show ?thesis using assms(4) by (simp add: valid_span_def span_def)
qed

lemma div_span: "0 < ft \<Longrightarrow> ft \<le> rng \<Longrightarrow> 0 < rng div ft \<and> rng div ft * ft \<le> (rng :: int)"
  using pos_imp_zdiv_pos_iff [of ft rng] div_mult_mod_eq [of rng ft] pos_mod_sign [of ft rng] by linarith

lemma w32_id: "0 \<le> x \<Longrightarrow> x < 2 ^ 32 \<Longrightarrow> w32 x = x"
  by (simp add: w32_def)

lemma enc_span:
  assumes "enc_inv e" "valid_span (ec_rng e) (span (ec_rng e) r first a b)"
  shows "ec_enc_normalize
      (if \<not> first then e\<lparr>ec_val := w32 (ec_val e + (ec_rng e - w32 (r * a))), ec_rng := w32 (r * (a - b))\<rparr>
       else e\<lparr>ec_rng := w32 (ec_rng e - w32 (r * b))\<rparr>)
    = (case span (ec_rng e) r first a b of (t, s) \<Rightarrow> enc_narrow e t s)"
proof -
  have i: "0 \<le> ec_val e" "ec_val e + ec_rng e < 2 ^ 32" "ec_rng e \<le> 2 ^ 31" using assms(1) by (auto simp: enc_inv_def)
  show ?thesis
  proof (cases first)
    case True
    then have "0 \<le> r * b" "r * b < ec_rng e" using assms(2) by (auto simp: valid_span_def span_def)
    then have "w32 (r * b) = r * b" "w32 (ec_rng e - r * b) = ec_rng e - r * b" using i by (simp_all add: w32_id)
    then show ?thesis using True by (simp add: span_def enc_narrow_def)
  next
    case False
    then have "0 \<le> r * b" "r * b < r * a" "r * a \<le> ec_rng e" using assms(2) by (auto simp: valid_span_def span_def)
    then have "w32 (r * a) = r * a" "w32 (ec_val e + (ec_rng e - r * a)) = ec_val e + ec_rng e - r * a" "w32 (r * (a - b)) = r * a - r * b"
      using i by (simp_all add: w32_id right_diff_distrib algebra_simps)
    then show ?thesis using False by (simp add: span_def enc_narrow_def)
  qed
qed

definition sym_span :: "int \<Rightarrow> int \<Rightarrow> int \<Rightarrow> int \<Rightarrow> int \<times> int" where
  "sym_span rng fl fh ft = span rng (rng div ft) (fl = 0) (ft - fl) (ft - fh)"

lemma sym_span_valid:
  assumes "0 \<le> fl" "fl < fh" "fh \<le> ft" "ft \<le> rng"
  shows "valid_span rng (sym_span rng fl fh ft)"
proof -
  have r: "0 < rng div ft" "rng div ft * ft \<le> rng" using div_span [of ft rng] assms by auto
  then have "0 \<le> rng div ft * fl" using assms(1) by simp
  then have "rng div ft * (ft - fl) \<le> rng" using r(2) by (simp add: right_diff_distrib)
  then show ?thesis unfolding sym_span_def using r(1) assms by (intro valid_spanI) auto
qed

lemma encode_span:
  assumes "enc_inv e" "0 \<le> fl" "fl < fh" "fh \<le> ft" "ft \<le> ec_rng e"
  shows "ec_encode e fl fh ft = (case sym_span (ec_rng e) fl fh ft of (t, s) \<Rightarrow> enc_narrow e t s)"
  unfolding sym_span_def enc_span [OF assms(1) sym_span_valid [OF assms(2-5), unfolded sym_span_def], symmetric]
  using assms(2) by (simp add: ec_encode_def celt_udiv_def Let_def)

lemma encode_bin_eq: "ec_encode_bin e fl fh bits = ec_encode e fl fh (2 ^ bits)"
  by (simp add: ec_encode_bin_def ec_encode_def celt_udiv_def)

definition bit_span :: "int \<Rightarrow> bool \<Rightarrow> nat \<Rightarrow> int \<times> int" where
  "bit_span rng v logp = (if v then (rng div 2 ^ logp, 0) else (rng, rng div 2 ^ logp))"

lemma bit_span_valid:
  assumes "0 < logp" "2 ^ logp \<le> rng"
  shows "valid_span rng (bit_span rng v logp)"
proof -
  have r: "0 < rng div 2 ^ logp" "rng div 2 ^ logp * 2 ^ logp \<le> rng" using div_span [of "2 ^ logp" rng] assms(2) by auto
  have "(2 :: int) \<le> 2 ^ logp" using assms(1) by (cases logp) auto
  then have "rng div 2 ^ logp * 2 \<le> rng div 2 ^ logp * 2 ^ logp" by (rule mult_left_mono) (use r(1) in simp)
  then have "rng div 2 ^ logp < rng" using r by linarith
  then show ?thesis using r(1) by (auto simp: valid_span_def bit_span_def)
qed

lemma enc_bit_span:
  assumes "enc_inv e" "0 < logp" "2 ^ logp \<le> ec_rng e"
  shows "ec_enc_bit_logp e v logp = (case bit_span (ec_rng e) v logp of (t, s) \<Rightarrow> enc_narrow e t s)"
proof -
  have i: "0 \<le> ec_val e" "ec_val e + ec_rng e < 2 ^ 32" "ec_rng e \<le> 2 ^ 31" using assms(1) by (auto simp: enc_inv_def)
  have "0 < ec_rng e div 2 ^ logp" "ec_rng e div 2 ^ logp < ec_rng e"
    using bit_span_valid [OF assms(2,3), of True] bit_span_valid [OF assms(2,3), of False] by (auto simp: valid_span_def bit_span_def)
  then have "w32 (ec_rng e - ec_rng e div 2 ^ logp) = ec_rng e - ec_rng e div 2 ^ logp"
    "w32 (ec_val e + (ec_rng e - ec_rng e div 2 ^ logp)) = ec_val e + ec_rng e - ec_rng e div 2 ^ logp" using i by (simp_all add: w32_id)
  then show ?thesis by (simp add: ec_enc_bit_logp_def bit_span_def enc_narrow_def Let_def)
qed

text \<open>A table of inverse cumulative frequencies: at most \<open>2 ^ ftb\<close>, decreasing, ending in 0. A symbol may be coded when its frequency is positive.\<close>

definition valid_icdf :: "int list \<Rightarrow> nat \<Rightarrow> bool" where
  "valid_icdf icdf ftb \<longleftrightarrow> icdf \<noteq> [] \<and> last icdf = 0 \<and> sorted_wrt (\<ge>) (2 ^ ftb # icdf)"

definition icdf_symbol :: "nat \<Rightarrow> int list \<Rightarrow> nat \<Rightarrow> bool" where
  "icdf_symbol s icdf ftb \<longleftrightarrow> s < length icdf \<and> icdf ! s < (2 ^ ftb # icdf) ! s"

definition icdf_span :: "int \<Rightarrow> nat \<Rightarrow> int list \<Rightarrow> nat \<Rightarrow> int \<times> int" where
  "icdf_span rng s icdf ftb = span rng (rng div 2 ^ ftb) (s = 0) ((2 ^ ftb # icdf) ! s) (icdf ! s)"

lemma valid_icdf_nth:
  assumes "valid_icdf icdf ftb" "s < length icdf"
  shows "0 \<le> icdf ! s" "(2 ^ ftb # icdf) ! s \<le> 2 ^ ftb"
proof -
  have l: "icdf ! (length icdf - 1) = 0" and w: "sorted_wrt (\<ge>) (2 ^ ftb # icdf)" using assms(1) by (auto simp: valid_icdf_def last_conv_nth)
  show "0 \<le> icdf ! s"
  proof (cases "s = length icdf - 1")
    case False
    then have "icdf ! s \<ge> icdf ! (length icdf - 1)" using w assms(2) by (intro sorted_wrt_nth_less [of "(\<ge>)"]) auto
    then show ?thesis using l by simp
  qed (use l in simp)
  show "(2 ^ ftb # icdf) ! s \<le> 2 ^ ftb" using sorted_wrt_nth_less [OF w, of 0 s] assms(2) by (cases s) auto
qed

lemma icdf_span_valid:
  assumes "valid_icdf icdf ftb" "icdf_symbol s icdf ftb" "2 ^ ftb \<le> rng"
  shows "valid_span rng (icdf_span rng s icdf ftb)"
proof -
  have sy: "s < length icdf" "icdf ! s < (2 ^ ftb # icdf) ! s" using assms(2) by (simp_all add: icdf_symbol_def)
  note v = valid_icdf_nth [OF assms(1) sy(1)]
  have r: "0 < rng div 2 ^ ftb" "rng div 2 ^ ftb * 2 ^ ftb \<le> rng" using div_span [of "2 ^ ftb" rng] assms(3) by auto
  then have "rng div 2 ^ ftb * (2 ^ ftb # icdf) ! s \<le> rng" using mult_left_mono [OF v(2), of "rng div 2 ^ ftb"] by linarith
  then show ?thesis unfolding icdf_span_def using r(1) v sy by (intro valid_spanI) auto
qed

lemma enc_icdf_span:
  assumes "enc_inv e" "valid_icdf icdf ftb" "icdf_symbol s icdf ftb" "2 ^ ftb \<le> ec_rng e"
  shows "ec_enc_icdf e s icdf ftb = (case icdf_span (ec_rng e) s icdf ftb of (t, s) \<Rightarrow> enc_narrow e t s)"
  unfolding icdf_span_def enc_span [OF assms(1) icdf_span_valid [OF assms(2-4), unfolded icdf_span_def], symmetric]
  by (simp add: ec_enc_icdf_def Let_def nth_Cons')

end
