(* ===== verification/Opus_Range_Dec.thy ===== *)
theory Opus_Range_Dec
  imports Opus_Range_Ops
begin

text \<open>
  The range decoder against the same intervals. The bytes read so far, less the last bit, are a number; the decoder keeps its distance
  from the top of the interval. When the number lies in the interval, a decoding step finds the part the encoder chose.
\<close>

unbundle bit_operations_syntax

section \<open>The number in the buffer\<close>

definition byte :: "bytes \<Rightarrow> nat \<Rightarrow> int" where
  "byte B i = (if i < length B then uint (B ! i) else 0)"

definition codeval :: "bytes \<Rightarrow> nat \<Rightarrow> int" where
  "codeval B k = num (map (byte B) [0..<k]) div 2"

fun inside :: "bytes \<Rightarrow> interval \<Rightarrow> bool" where
  "inside B (k, low, rng) \<longleftrightarrow> low \<le> codeval B k \<and> codeval B k < low + rng"

lemma byte_bounds: "0 \<le> byte B i" "byte B i < 256"
  using uint_lt2p [of "B ! i"] by (auto simp: byte_def)

lemma num_Suc: "num (map (byte B) [0..<Suc k]) = 256 * num (map (byte B) [0..<k]) + byte B k"
  by simp

lemma codeval_Suc:
  assumes "0 < k"
  shows "codeval B (Suc k) = 256 * codeval B k + ((byte B (k - 1) * 256 + byte B k) div 2) mod 256"
proof -
  define N where "N = num (map (byte B) [0..<k])"
  define b where "b = byte B k"
  obtain j where k: "k = Suc j" using assms by (cases k) auto
  have m: "byte B (k - 1) mod 2 = N mod 2" unfolding N_def k num_Suc diff_Suc_1 by presburger
  have b: "0 \<le> b" "b < 256" using byte_bounds by (simp_all add: b_def)
  define p where "p = byte B (k - 1)"
  define q h where "q = N mod 2" and "h = b div 2"
  define M where "M = N div 2"
  have N: "N = 2 * M + q" "N div 2 = M" by (simp_all add: q_def M_def)
  obtain R where P: "p = 2 * R + q" using m unfolding q_def p_def by (metis mult_div_mod_eq)
  have q: "0 \<le> q" "q \<le> 1" "0 \<le> h" "h < 128" using b by (auto simp: q_def h_def)
  have h: "(256 * N + b) div 2 = 128 * N + h" "(p * 256 + b) div 2 = 128 * p + h" unfolding h_def by presburger+
  have "(128 * p + h) mod 256 = (128 * q + h + R * 256) mod 256" by (simp add: P algebra_simps)
  also have "\<dots> = 128 * q + h" using q by simp
  finally have "(256 * N + b) div 2 = 256 * (N div 2) + ((p * 256 + b) div 2) mod 256" unfolding h N(2) by (simp add: N(1))
  note this [unfolded p_def]
  then show ?thesis by (simp add: codeval_def num_Suc N_def b_def del: upt_Suc)
qed

lemma inside_shift:
  assumes "0 < k"
  shows "inside B (Suc k, 256 * low, 256 * rng) \<longleftrightarrow> inside B (k, low, rng)"
proof -
  define x where "x = codeval B (Suc k) - 256 * codeval B k"
  have c: "codeval B (Suc k) = 256 * codeval B k + x" by (simp add: x_def)
  have "0 \<le> x" "x < 256" using codeval_Suc [OF assms, of B] by (simp_all add: x_def)
  then show ?thesis unfolding inside.simps c by linarith
qed

text \<open>Renormalizing keeps the number in the interval, in both directions; narrowing only shrinks the interval.\<close>

lemma inside_renorm: "0 < fst iv \<Longrightarrow> inside B (renorm iv) \<longleftrightarrow> inside B iv"
proof (induction iv rule: renorm.induct)
  case (1 n low rng)
  show ?case
  proof (cases "0 < rng \<and> rng \<le> 2 ^ 23")
    case True
    have "inside B (renorm (n + 1, 256 * low, 256 * rng)) \<longleftrightarrow> inside B (n + 1, 256 * low, 256 * rng)" by (rule 1(1) [OF True]) simp
    then show ?thesis using inside_shift [of n B low rng] 1(2) True by (simp add: renorm.simps [of n low rng])
  next
    case False
    then have "renorm (n, low, rng) = (n, low, rng)" by (subst renorm.simps) (simp only: if_False)
    then show ?thesis by (simp only:)
  qed
qed

lemma inside_narrow: "inside B (narrow iv t s) \<Longrightarrow> 0 \<le> s \<Longrightarrow> t \<le> snd (snd iv) \<Longrightarrow> inside B iv"
  by (cases iv) (auto simp: narrow_def)

section \<open>The decoder follows the interval\<close>

definition dec_sync :: "bytes \<Rightarrow> interval \<Rightarrow> ec_ctx \<Rightarrow> bool" where
  "dec_sync B iv d \<longleftrightarrow> (case iv of (k, low, rng) \<Rightarrow>
     0 < k \<and> ec_buf d = B \<and> ec_storage d = length B \<and> ec_offs d = min k (length B) \<and> ec_rem d = byte B (k - 1) \<and>
     0 < rng \<and> rng \<le> 2 ^ 31 \<and> ec_rng d = rng \<and> ec_val d = low + rng - 1 - codeval B k \<and> inside B iv)"

text \<open>What the renormalization leaves alone, with the bit count following the bytes.\<close>

definition dec_same_raw :: "nat \<Rightarrow> ec_ctx \<Rightarrow> nat \<Rightarrow> ec_ctx \<Rightarrow> bool" where
  "dec_same_raw k d k' d' \<longleftrightarrow> ec_end_offs d' = ec_end_offs d \<and> ec_end_window d' = ec_end_window d \<and> ec_nend_bits d' = ec_nend_bits d \<and>
     ec_error d' = ec_error d \<and> ec_nbits_total d' - 8 * int k' = ec_nbits_total d - 8 * int k"

definition dec_shift :: "ec_ctx \<Rightarrow> ec_ctx" where
  "dec_shift d =
    (let symb = ec_rem d;
         (d, b) = ec_read_byte (d\<lparr>ec_nbits_total := ec_nbits_total d + 8, ec_rng := w32 (ec_rng d * 2 ^ 8)\<rparr>);
         symb = (symb * 2 ^ 8 OR b) div 2
     in d\<lparr>ec_rem := b, ec_val := w32 (w32 (ec_val d * 2 ^ 8) + (255 AND NOT symb)) mod 2 ^ 31\<rparr>)"

lemma dec_normalize_simps:
  "ec_dec_normalize d = (if ec_rng d \<le> 2 ^ 23 then ec_dec_normalize (dec_shift d) else Some d)"
  by (subst ec_dec_normalize.simps) (simp add: dec_shift_def Let_def split: prod.splits)

lemma and_not_255: "255 AND NOT x = 255 - x mod (256 :: int)"
proof -
  have m: "x mod 256 = x AND 255" using take_bit_eq_mask [of 8 x] by (simp add: take_bit_eq_mod mask_eq_exp_minus_1)
  have "x AND 255 = 255 AND x" by (simp add: and.commute)
  moreover have "(255 AND NOT x) AND (255 AND x) = 0" by (rule bit_eqI) (auto simp: bit_simps)
  then have "(255 AND NOT x) + (255 AND x) = (255 AND NOT x) OR (255 AND x)" by (rule disjunctive_add_eq_or)
  moreover have "(255 AND NOT x) OR (255 AND x) = 255" by (rule bit_eqI) (auto simp: bit_simps)
  ultimately show ?thesis using m by simp
qed

lemma or_byte:
  assumes "0 \<le> b" "b < 256"
  shows "(a * 256 OR b) = a * 256 + (b :: int)"
proof -
  have "a * 256 AND b = 0"
  proof (rule bit_eqI)
    fix n
    have "bit (a * 256) n \<Longrightarrow> 8 \<le> n" using bit_push_bit_iff [of 8 a n] by (simp add: push_bit_eq_mult)
    moreover have "8 \<le> n \<Longrightarrow> \<not> bit b n" using assms take_bit_int_eq_self [of b 8] bit_take_bit_iff [of 8 b n] by simp
    ultimately show "bit (a * 256 AND b) n = bit 0 n" by (auto simp: bit_simps)
  qed
  then show ?thesis by (simp add: disjunctive_add_eq_or)
qed

lemma dec_shift_step:
  assumes "dec_sync B (k, low, rng) d" "rng \<le> 2 ^ 23"
  shows "dec_sync B (Suc k, 256 * low, 256 * rng) (dec_shift d)" "dec_same_raw k d (Suc k) (dec_shift d)"
proof -
  define b where "b = byte B k"
  define y where "y = ((byte B (k - 1) * 256 + b) div 2) mod 256"
  note s = assms(1) [unfolded dec_sync_def, simplified]
  have b: "0 \<le> b" "b < 256" by (simp_all add: b_def byte_bounds)
  have y: "0 \<le> y" "y < 256" by (simp_all add: y_def)
  have cs: "codeval B (Suc k) = 256 * codeval B k + y" using codeval_Suc s by (simp add: y_def b_def)
  have ins: "inside B (Suc k, 256 * low, 256 * rng)" using inside_shift s by simp
  have v: "0 \<le> ec_val d" "ec_val d < rng" using s by auto
  have r8: "w32 (rng * 2 ^ 8) = 256 * rng" using assms(2) s by (simp add: w32_def)
  have v8: "w32 (w32 (ec_val d * 256) + (255 - y)) mod 2 ^ 31 = ec_val d * 256 + (255 - y)"
    using v y assms(2) by (simp add: w32_def)
  have rd: "ec_read_byte (d\<lparr>ec_nbits_total := n, ec_rng := r\<rparr>) = (d\<lparr>ec_nbits_total := n, ec_rng := r, ec_offs := min (Suc k) (length B)\<rparr>, b)" for n r
    using s by (auto simp: ec_read_byte_def b_def byte_def min_def)
  have sh: "dec_shift d = d\<lparr>ec_nbits_total := ec_nbits_total d + 8, ec_rng := 256 * rng, ec_offs := min (Suc k) (length B), ec_rem := b,
      ec_val := ec_val d * 256 + (255 - y)\<rparr>"
    using s r8 v8 unfolding dec_shift_def Let_def rd by (simp add: or_byte [OF b] and_not_255 y_def)
  show "dec_sync B (Suc k, 256 * low, 256 * rng) (dec_shift d)"
    using s ins assms(2) cs by (auto simp: dec_sync_def sh b_def simp del: inside.simps)
  show "dec_same_raw k d (Suc k) (dec_shift d)" by (simp add: dec_same_raw_def sh)
qed

lemma dec_normalize_step:
  assumes "dec_sync B iv d"
  shows "\<exists>d'. ec_dec_normalize d = Some d' \<and> dec_sync B (renorm iv) d' \<and> dec_same_raw (fst iv) d (fst (renorm iv)) d'"
  using assms
proof (induction iv arbitrary: d rule: renorm.induct)
  case (1 k low rng)
  have r: "ec_rng d = rng" "0 < rng" using 1(2) by (auto simp: dec_sync_def)
  show ?case
  proof (cases "rng \<le> 2 ^ 23")
    case True
    note sh = dec_shift_step [OF 1(2) True]
    have c: "0 < rng \<and> rng \<le> 2 ^ 23" using r True by simp
    from 1(1) [OF c, of "dec_shift d"] sh(1) obtain d' where d': "ec_dec_normalize (dec_shift d) = Some d'"
      "dec_sync B (renorm (Suc k, 256 * low, 256 * rng)) d'" "dec_same_raw (Suc k) (dec_shift d) (fst (renorm (Suc k, 256 * low, 256 * rng))) d'" by auto
    moreover have "renorm (k, low, rng) = renorm (Suc k, 256 * low, 256 * rng)" using c by (simp add: renorm.simps [of k])
    moreover have "ec_dec_normalize d = Some d'" using d'(1) True r by (simp add: dec_normalize_simps [of d])
    ultimately show ?thesis using sh(2) by (auto simp: dec_same_raw_def)
  next
    case False
    then have "ec_dec_normalize d = Some d" "renorm (k, low, rng) = (k, low, rng)" using r by (simp_all add: dec_normalize_simps [of d] renorm.simps [of k])
    then show ?thesis using 1(2) by (simp add: dec_same_raw_def)
  qed
qed

definition dec_narrow :: "ec_ctx \<Rightarrow> int \<Rightarrow> int \<Rightarrow> ec_ctx option" where
  "dec_narrow d t s = ec_dec_normalize (d\<lparr>ec_val := ec_val d - s, ec_rng := t - s\<rparr>)"

text \<open>The decoder has moved from one interval to another; its raw bits are untouched.\<close>

definition dec_moves :: "bytes \<Rightarrow> interval \<Rightarrow> ec_ctx \<Rightarrow> interval \<Rightarrow> ec_ctx \<Rightarrow> bool" where
  "dec_moves B iv d iv' d' \<longleftrightarrow> dec_sync B iv' d' \<and> dec_same_raw (fst iv) d (fst iv') d'"

lemma dec_narrow_step:
  assumes "dec_sync B iv d" "valid_span (ec_rng d) (t, s)" "inside B (narrow iv t s)"
  shows "\<exists>d'. dec_narrow d t s = Some d' \<and> dec_moves B iv d (renorm (narrow iv t s)) d'"
proof -
  define f where "f = d\<lparr>ec_val := ec_val d - s, ec_rng := t - s\<rparr>"
  have "dec_sync B (narrow iv t s) f" using assms by (auto simp: dec_sync_def narrow_def f_def valid_span_def split: prod.splits)
  from dec_normalize_step [OF this] show ?thesis unfolding dec_narrow_def f_def [symmetric]
    by (auto simp: dec_moves_def dec_same_raw_def f_def narrow_def split: prod.splits)
qed

lemma dec_narrow_val:
  assumes "dec_sync B iv d" "inside B (narrow iv t s)"
  shows "s \<le> ec_val d" "ec_val d < t"
  using assms by (auto simp: dec_sync_def narrow_def split: prod.splits)

lemma dec_sync_bounds:
  assumes "dec_sync B iv d"
  shows "0 \<le> ec_val d" "ec_val d < ec_rng d" "0 < ec_rng d" "ec_rng d \<le> 2 ^ 31" "snd (snd iv) = ec_rng d"
  using assms by (auto simp: dec_sync_def split: prod.splits)

section \<open>The operations\<close>

lemma dec_init_step:
  shows "\<exists>d. ec_dec_init B (length B) = Some d \<and> dec_sync B (4, 0, 2 ^ 31) d \<and> ec_nbits_total d = 33 \<and> ec_error d = 0 \<and>
    ec_end_offs d = 0 \<and> ec_end_window d = 0 \<and> ec_nend_bits d = 0"
proof -
  define b where "b = byte B 0"
  define d where "d = \<lparr>ec_buf = B, ec_storage = length B, ec_end_offs = 0, ec_end_window = 0, ec_nend_bits = 0, ec_nbits_total = 9,
              ec_offs = min 1 (length B), ec_rng = 2 ^ 7, ec_val = 127 - b div 2, ec_ext = 0, ec_rem = b, ec_error = 0\<rparr>"
  have b: "0 \<le> b" "b < 256" by (simp_all add: b_def byte_bounds)
  have "w32 (127 - b div 2) = 127 - b div 2" using b by (intro w32_id) auto
  then have i: "ec_dec_init B (length B) = ec_dec_normalize d"
    by (auto simp: ec_dec_init_def ec_read_byte_def d_def b_def byte_def Let_def min_def Suc_le_eq)
  have "dec_sync B (1, 0, 2 ^ 7) d" using b by (auto simp: dec_sync_def d_def codeval_def b_def)
  from dec_normalize_step [OF this] obtain d' where d': "ec_dec_normalize d = Some d'" "dec_sync B (renorm (1, 0, 2 ^ 7)) d'"
    "dec_same_raw 1 d (fst (renorm (1, 0, 2 ^ 7))) d'" by auto
  have "renorm (1, 0, 2 ^ 7) = (4, 0, 2 ^ 31)" by (simp add: renorm.simps)
  with d' i show ?thesis by (auto simp: dec_same_raw_def d_def)
qed

lemma decode_search:
  assumes "0 < r" "r * (ft - fh) \<le> v" "fl = 0 \<or> v < r * (ft - fl)" "0 \<le> fl" "fl < fh" "fh \<le> ft"
  shows "fl \<le> ft - min (v div r + 1) ft" "ft - min (v div r + 1) ft < (fh :: int)"
proof -
  have "ft - fh \<le> v div r" using zdiv_mono1 [OF assms(2,1)] assms(1) by simp
  then show "ft - min (v div r + 1) ft < fh" using assms by auto
  show "fl \<le> ft - min (v div r + 1) ft"
  proof (cases "fl = 0")
    case False
    then have "v < (ft - fl) * r" using assms(3) by (simp add: mult.commute)
    moreover have "v div r * r \<le> v" using assms(1) by (simp add: minus_mod_eq_div_mult [symmetric])
    ultimately have "v div r * r < (ft - fl) * r" by (rule le_less_trans [rotated])
    then have "v div r < ft - fl" using assms(1) by simp
    then show ?thesis by auto
  qed simp
qed

lemma decode_step:
  assumes d: "dec_sync B iv d" and f: "0 \<le> fl" "fl < fh" "fh \<le> ft" "ft \<le> ec_rng d"
    and ts: "sym_span (ec_rng d) fl fh ft = (t, s)" "inside B (narrow iv t s)"
  shows "\<exists>x d'. ec_decode d ft = (d\<lparr>ec_ext := ec_rng d div ft\<rparr>, x) \<and> fl \<le> x \<and> x < fh \<and>
    ec_dec_update (d\<lparr>ec_ext := ec_rng d div ft\<rparr>) fl fh ft = Some d' \<and> dec_moves B iv d (renorm (narrow iv t s)) d'"
proof -
  define r where "r = ec_rng d div ft"
  define g where "g = d\<lparr>ec_ext := r\<rparr>"
  note b = dec_sync_bounds [OF d]
  have ft: "0 < ft" using f by simp
  have r: "0 < r" "r * ft \<le> ec_rng d" using div_span [OF ft f(4)] by (simp_all add: r_def)
  note v = dec_narrow_val [OF d ts(2)]
  have t: "t = (if fl = 0 then ec_rng d else r * (ft - fl))" "s = r * (ft - fh)" using ts(1) by (auto simp: sym_span_def span_def r_def)
  have vs: "valid_span (ec_rng d) (t, s)" using sym_span_valid [OF f] ts(1) by simp
  have se: "fl \<le> ft - min (ec_val d div r + 1) ft" "ft - min (ec_val d div r + 1) ft < fh"
    using decode_search [OF r(1) _ _ f(1-3), of "ec_val d"] v t by (auto split: if_splits)
  have "ec_val d div r \<le> ec_val d div 1" using b(1) r(1) by (intro zdiv_mono2) auto
  moreover have "0 \<le> ec_val d div r" using b(1) r(1) by (simp add: pos_imp_zdiv_nonneg_iff)
  ultimately have "w32 (ec_val d div r + 1) = ec_val d div r + 1" using b by (intro w32_id) auto
  then have dec: "ec_decode d ft = (g, ft - min (ec_val d div r + 1) ft)" by (simp add: ec_decode_def celt_udiv_def g_def r_def)
  have g: "dec_sync B iv g" using d by (auto simp: dec_sync_def g_def split: prod.splits)
  have w: "w32 (r * (ft - fh)) = s" "w32 (ec_val d - s) = ec_val d - s" "w32 (t - s) = t - s"
    using v b vs t(2) by (auto intro!: w32_id simp: valid_span_def)
  have rt: "0 < fl \<Longrightarrow> r * (fh - fl) = t - s" "\<not> 0 < fl \<Longrightarrow> ec_rng d = t" using t f(1) by (auto simp: right_diff_distrib)
  have "ec_dec_update g fl fh ft = dec_narrow g t s"
    using w rt by (cases "0 < fl") (simp_all add: ec_dec_update_def dec_narrow_def g_def Let_def)
  moreover from dec_narrow_step [OF g _ ts(2)] vs obtain d' where "dec_narrow g t s = Some d'" "dec_moves B iv g (renorm (narrow iv t s)) d'"
    by (auto simp: g_def)
  ultimately show ?thesis using dec se by (auto simp: g_def r_def dec_moves_def dec_same_raw_def)
qed

lemma decode_bin_eq: "ec_decode_bin d bits = ec_decode d (2 ^ bits)"
  by (simp add: ec_decode_bin_def ec_decode_def celt_udiv_def)

lemma dec_bit_step:
  assumes d: "dec_sync B iv d" and l: "0 < logp" "2 ^ logp \<le> ec_rng d"
    and ts: "bit_span (ec_rng d) v logp = (t, s)" "inside B (narrow iv t s)"
  shows "\<exists>d'. ec_dec_bit_logp d logp = Some (d', v) \<and> dec_moves B iv d (renorm (narrow iv t s)) d'"
proof -
  note b = dec_sync_bounds [OF d]
  note x = dec_narrow_val [OF d ts(2)]
  have vs: "valid_span (ec_rng d) (t, s)" using bit_span_valid [OF l, of v] ts(1) by simp
  have w: "w32 (ec_val d - s) = ec_val d - s" "w32 (t - s) = t - s" using x b vs by (auto intro!: w32_id simp: valid_span_def)
  have "ec_dec_bit_logp d logp = map_option (\<lambda>d. (d, v)) (dec_narrow d t s)"
    using ts(1) x w by (cases v) (auto simp: ec_dec_bit_logp_def bit_span_def dec_narrow_def Let_def map_option_case split: option.splits)
  then show ?thesis using dec_narrow_step [OF d vs ts(2)] by auto
qed

lemma icdf_search_step:
  assumes "s < length icdf" "\<forall>i < s. v < w32 (r * icdf ! i)" "w32 (r * icdf ! s) \<le> v"
  shows "ec_icdf_search icdf v r x ret = Some (ret + s, w32 (r * icdf ! s), (if s = 0 then x else w32 (r * icdf ! (s - 1))))"
  using assms
proof (induction s arbitrary: icdf x ret)
  case 0
  then show ?case by (cases icdf) (auto simp: Let_def)
next
  case (Suc s)
  then obtain y ys where y: "icdf = y # ys" by (cases icdf) auto
  have a: "\<forall>i < s. v < w32 (r * ys ! i)" "v < w32 (r * y)" using Suc(3) unfolding y by (auto simp: All_less_Suc2)
  have "ec_icdf_search ys v r (w32 (r * y)) (ret + 1) = Some (ret + 1 + s, w32 (r * ys ! s), (if s = 0 then w32 (r * y) else w32 (r * ys ! (s - 1))))"
    by (rule Suc(1)) (use Suc(2,4) y a(1) in auto)
  then show ?case using y a(2) by (cases s) (simp_all add: Let_def)
qed

lemma dec_icdf_step:
  assumes d: "dec_sync B iv d" and i: "valid_icdf icdf ftb" "icdf_symbol y icdf ftb" "2 ^ ftb \<le> ec_rng d"
    and ts: "icdf_span (ec_rng d) y icdf ftb = (t, s)" "inside B (narrow iv t s)"
  shows "\<exists>d'. ec_dec_icdf d icdf ftb = Some (d', y) \<and> dec_moves B iv d (renorm (narrow iv t s)) d'"
proof -
  define r where "r = ec_rng d div 2 ^ ftb"
  note b = dec_sync_bounds [OF d]
  note x = dec_narrow_val [OF d ts(2)]
  have y: "y < length icdf" using i(2) by (simp add: icdf_symbol_def)
  have vs: "valid_span (ec_rng d) (t, s)" using icdf_span_valid [OF i] ts(1) by simp
  have w: "w32 (ec_val d - s) = ec_val d - s" "w32 (t - s) = t - s" using x b vs by (auto intro!: w32_id simp: valid_span_def)
  have r: "0 < r" "r * 2 ^ ftb \<le> ec_rng d" using div_span [of "2 ^ ftb" "ec_rng d"] i(3) by (simp_all add: r_def)
  have ws: "w32 (r * icdf ! k) = r * icdf ! k" if "k < length icdf" for k
  proof (rule w32_id)
    note v = valid_icdf_nth [OF i(1) that]
    have "icdf ! k \<le> 2 ^ ftb" using i(1) that by (auto simp: valid_icdf_def)
    then have "r * icdf ! k \<le> r * 2 ^ ftb" using r(1) by simp
    then show "r * icdf ! k < 2 ^ 32" using r(2) b(4) by simp
    show "0 \<le> r * icdf ! k" using v(1) r(1) by simp
  qed
  have t: "t = (if y = 0 then ec_rng d else r * icdf ! (y - 1))" "s = r * icdf ! y"
    using ts(1) by (auto simp: icdf_span_def span_def r_def nth_Cons')
  have "\<forall>k<y. ec_val d < w32 (r * icdf ! k)"
  proof (intro allI impI)
    fix k assume k: "k < y"
    have "icdf ! (y - 1) \<le> icdf ! k" using i(1) k y sorted_wrt_nth_less [of "(\<ge>)" icdf k "y - 1"]
      by (cases "k = y - 1") (auto simp: valid_icdf_def)
    then have "r * icdf ! (y - 1) \<le> r * icdf ! k" using r(1) by simp
    then show "ec_val d < w32 (r * icdf ! k)" using x(2) t(1) k ws y by auto
  qed
  from icdf_search_step [OF y this] x(1) t(2) ws [OF y]
  have "ec_icdf_search icdf (ec_val d) r (ec_rng d) 0 = Some (y, s, t)" using t(1) ws [of "y - 1"] y by auto
  then have "ec_dec_icdf d icdf ftb = map_option (\<lambda>d. (d, y)) (dec_narrow d t s)"
    by (simp add: ec_dec_icdf_def r_def dec_narrow_def w map_option_case split: option.splits)
  then show ?thesis using dec_narrow_step [OF d vs ts(2)] by auto
qed

end
