(* ===== verification/Opus_Range_Raw.thy ===== *)
theory Opus_Range_Raw
  imports Opus_Range_Dec
begin

text \<open>
  The raw bits at the end of the buffer, written and read from its last byte backwards with the first bit in the least significant
  place: together the bytes at the end and the window are one number, which every call of the encoder extends and the decoder shifts.
\<close>

unbundle bit_operations_syntax

section \<open>The number at the end of the buffer\<close>

definition endbyte :: "bytes \<Rightarrow> nat \<Rightarrow> int" where
  "endbyte B j = (if j < length B then uint (B ! (length B - (j + 1))) else 0)"

fun endnum :: "bytes \<Rightarrow> nat \<Rightarrow> int" where
  "endnum B 0 = 0"
| "endnum B (Suc j) = endnum B j + endbyte B j * 256 ^ j"

definition endall :: "bytes \<Rightarrow> int" where "endall B = endnum B (length B)"

lemma endbyte_bounds: "0 \<le> endbyte B j" "endbyte B j < 256"
  using uint_lt2p [of "B ! (length B - (j + 1))"] by (auto simp: endbyte_def)

lemma endnum_bounds: "0 \<le> endnum B m" "endnum B m < 256 ^ m"
proof (induction m)
  case (Suc m)
  have "endbyte B m * 256 ^ m \<le> 255 * 256 ^ m" using endbyte_bounds(2) [of B m] by (intro mult_right_mono) auto
  then have "endnum B m + endbyte B m * 256 ^ m < 256 ^ m + 255 * 256 ^ m" using Suc(2) by linarith
  then show "endnum B (Suc m) < 256 ^ Suc m" by simp
  show "0 \<le> endnum B (Suc m)" using Suc endbyte_bounds(1) [of B m] by simp
qed simp_all

lemma endnum_mod: "m \<le> k \<Longrightarrow> endnum B k mod 256 ^ m = endnum B m"
proof (induction k)
  case 0
  then show ?case by simp
next
  case (Suc k)
  show ?case
  proof (cases "m = Suc k")
    case True
    then show ?thesis using endnum_bounds [of B "Suc k"] by (simp add: mod_pos_pos_trivial del: endnum.simps power_Suc)
  next
    case False
    then have "m \<le> k" using Suc(2) by simp
    then have "endbyte B k * 256 ^ k = endbyte B k * 256 ^ (k - m) * 256 ^ m" by (simp add: power_add [symmetric] mult.assoc)
    then show ?thesis using Suc(1) [OF \<open>m \<le> k\<close>] unfolding endnum.simps by (simp only: mod_mult_self1)
  qed
qed

lemma endnum_beyond: "length B \<le> m \<Longrightarrow> endnum B m = endall B"
  by (induction m) (auto simp: endall_def endbyte_def le_Suc_eq)

lemma endall_mod: "endall B mod 256 ^ m = endnum B m"
proof (cases "m \<le> length B")
  case False
  then have "endall B = endnum B m" by (simp add: endnum_beyond)
  then show ?thesis using endnum_bounds [of B m] by (simp add: mod_pos_pos_trivial)
qed (simp add: endall_def endnum_mod)

lemma endall_bits: "c + bits \<le> 8 * m \<Longrightarrow> (endnum B m div 2 ^ c) mod 2 ^ bits = (endall B div 2 ^ c) mod 2 ^ bits"
proof -
  assume a: "c + bits \<le> 8 * m"
  have p: "(256 :: int) ^ m = 2 ^ (8 * m)" by (simp add: power_mult)
  have e: "take_bit (8 * m) (endall B) = endnum B m" using endall_mod [of B m] by (simp add: take_bit_eq_mod p)
  have "take_bit bits (drop_bit c (take_bit (8 * m) (endall B))) = take_bit bits (drop_bit c (endall B))"
    by (rule bit_eqI) (use a in \<open>auto simp: bit_simps\<close>)
  then show ?thesis unfolding e by (simp add: take_bit_eq_mod drop_bit_eq_div)
qed

section \<open>The encoder\<close>

definition raw_len :: "ec_ctx \<Rightarrow> nat" where "raw_len e = 8 * ec_end_offs e + nat (ec_nend_bits e)"

definition raw_val :: "ec_ctx \<Rightarrow> int" where
  "raw_val e = endnum (ec_buf e) (ec_end_offs e) + ec_end_window e * 256 ^ ec_end_offs e"

definition raw_inv :: "ec_ctx \<Rightarrow> bool" where
  "raw_inv e \<longleftrightarrow> 0 \<le> ec_nend_bits e \<and> ec_nend_bits e \<le> 32 \<and> 0 \<le> ec_end_window e \<and> ec_end_window e < 2 ^ nat (ec_nend_bits e) \<and>
     ec_nbits_total e = 33 + 8 * int (enc_n e) + int (raw_len e)"

text \<open>The range-coded part is untouched.\<close>

definition same_coded :: "ec_ctx \<Rightarrow> ec_ctx \<Rightarrow> bool" where
  "same_coded e e' \<longleftrightarrow> enc_wf e' \<and> enc_digits e' = enc_digits e \<and> ec_val e' = ec_val e \<and> ec_rng e' = ec_rng e \<and> ec_rem e' = ec_rem e \<and>
     ec_ext e' = ec_ext e \<and> ec_nbits_total e' = ec_nbits_total e \<and> ec_storage e' = ec_storage e \<and> ec_offs e' = ec_offs e \<and>
     take (ec_offs e) (ec_buf e') = take (ec_offs e) (ec_buf e)"

lemma same_coded_refl [simp]: "same_coded e e \<longleftrightarrow> enc_wf e" by (simp add: same_coded_def)

lemma same_coded_trans: "same_coded a b \<Longrightarrow> same_coded b c \<Longrightarrow> same_coded a c"
  by (simp add: same_coded_def)

lemma write_end_step:
  assumes "ec_error (ec_or_error (ec_write_byte_at_end e v)) = 0" "enc_wf e" "0 \<le> v" "v < 256"
  defines "e' \<equiv> ec_or_error (ec_write_byte_at_end e v)"
  shows "ec_error e = 0" "same_coded e e'" "ec_end_offs e' = Suc (ec_end_offs e)"
    "endnum (ec_buf e') (Suc (ec_end_offs e)) = endnum (ec_buf e) (ec_end_offs e) + v * 256 ^ ec_end_offs e"
proof -
  define i where "i = ec_storage e - (ec_end_offs e + 1)"
  have w: "ec_error e = 0" "ec_offs e + ec_end_offs e < ec_storage e"
    "e' = e\<lparr>ec_buf := (ec_buf e)[i := word_of_int v], ec_end_offs := ec_end_offs e + 1\<rparr>"
    using assms(1) by (auto simp: e'_def or_error_0 ec_write_byte_at_end_def ec_or_error_def i_def split: if_splits)
  have l: "length (ec_buf e) = ec_storage e" using assms(2) by (simp add: enc_wf_def)
  have u: "uint (word_of_int v :: u8) = v" using assms(3,4) by (simp add: uint_word_of_int)
  have i: "ec_offs e \<le> i" "i < length (ec_buf e)" using w(2) l by (auto simp: i_def)
  show "ec_error e = 0" "ec_end_offs e' = Suc (ec_end_offs e)" using w(1,3) by simp_all
  show "same_coded e e'" using i w(2) assms(2) by (auto simp: same_coded_def w(3) enc_wf_def enc_digits_def)
  have "endbyte (ec_buf e') j = endbyte (ec_buf e) j" if "j < ec_end_offs e" for j
    using that w(2) l by (auto simp: endbyte_def w(3) nth_list_update i_def)
  then have "endnum (ec_buf e') j = endnum (ec_buf e) j" if "j \<le> ec_end_offs e" for j using that by (induction j) auto
  moreover have "endbyte (ec_buf e') (ec_end_offs e) = v" using i u l w(2) by (auto simp: endbyte_def w(3) i_def)
  ultimately show "endnum (ec_buf e') (Suc (ec_end_offs e)) = endnum (ec_buf e) (ec_end_offs e) + v * 256 ^ ec_end_offs e" by simp
qed

lemma write_end_sticky: "ec_error (ec_or_error (ec_write_byte_at_end e v)) = 0 \<Longrightarrow> ec_error e = 0"
  by (auto simp: or_error_0 ec_write_byte_at_end_def split: if_splits)

lemma flush_window_sticky: "ec_flush_window e w u = (e', w', u') \<Longrightarrow> ec_error e' = 0 \<Longrightarrow> ec_error e = 0"
proof (induction e w u rule: ec_flush_window.induct)
  case (1 e w u)
  show ?case
  proof (cases "u - 8 \<ge> 8")
    case True
    have "ec_flush_window (ec_or_error (ec_write_byte_at_end e (w mod 2 ^ 8))) (w div 2 ^ 8) (u - 8) = (e', w', u')"
      using 1(2) True by (subst (asm) ec_flush_window.simps) (simp add: Let_def)
    from 1(1) [OF refl refl refl True this 1(3)] show ?thesis by (rule write_end_sticky)
  next
    case False
    then have "e' = ec_or_error (ec_write_byte_at_end e (w mod 2 ^ 8))" using 1(2) by (subst (asm) ec_flush_window.simps) (simp add: Let_def)
    then show ?thesis using 1(3) write_end_sticky by simp
  qed
qed

lemma done_window_sticky: "ec_done_window e w u = (e', w', u') \<Longrightarrow> ec_error e' = 0 \<Longrightarrow> ec_error e = 0"
proof (induction e w u rule: ec_done_window.induct)
  case (1 e w u)
  show ?case
  proof (cases "u \<ge> 8")
    case True
    then have "ec_done_window (ec_or_error (ec_write_byte_at_end e (w mod 2 ^ 8))) (w div 2 ^ 8) (u - 8) = (e', w', u')"
      using 1(2) by (subst (asm) ec_done_window.simps) simp
    from 1(1) [OF True this 1(3)] show ?thesis by (rule write_end_sticky)
  next
    case False
    then show ?thesis using 1(2,3) by (subst (asm) ec_done_window.simps) simp
  qed
qed

lemma div_less_pow: "w < 2 ^ (a + b) \<Longrightarrow> w div 2 ^ a < (2 :: int) ^ b"
proof -
  assume "w < 2 ^ (a + b)"
  then have "w < 2 ^ b * 2 ^ a" by (simp add: power_add mult.commute)
  moreover have "w div 2 ^ a * 2 ^ a \<le> w" by (simp add: minus_mod_eq_div_mult [symmetric])
  ultimately have "w div 2 ^ a * 2 ^ a < 2 ^ b * 2 ^ a" by (rule le_less_trans [rotated])
  then show ?thesis by (rule mult_right_less_imp_less) simp
qed

lemma done_window_step:
  assumes "ec_done_window e w u = (e', w', u')" "ec_error e' = 0" "enc_wf e" "0 \<le> w" "0 \<le> u" "w < 2 ^ nat u"
  shows "same_coded e e' \<and> 0 \<le> w' \<and> w' < 2 ^ nat u' \<and> 0 \<le> u' \<and> u' < 8 \<and> 8 * int (ec_end_offs e') + u' = 8 * int (ec_end_offs e) + u \<and>
    endnum (ec_buf e') (ec_end_offs e') + w' * 256 ^ ec_end_offs e' = endnum (ec_buf e) (ec_end_offs e) + w * 256 ^ ec_end_offs e"
  using assms
proof (induction e w u rule: ec_done_window.induct)
  case (1 e w u)
  show ?case
  proof (cases "u \<ge> 8")
    case True
    define f where "f = ec_or_error (ec_write_byte_at_end e (w mod 2 ^ 8))"
    have r: "ec_done_window f (w div 2 ^ 8) (u - 8) = (e', w', u')"
      using 1(2) True unfolding f_def by (subst (asm) ec_done_window.simps) simp
    have fe: "ec_error (ec_or_error (ec_write_byte_at_end e (w mod 2 ^ 8))) = 0" using done_window_sticky [OF r 1(3)] by (simp add: f_def)
    have wm: "0 \<le> w mod 2 ^ 8" "w mod 2 ^ 8 < 256" by simp_all
    note st = write_end_step [OF fe 1(4) wm, folded f_def]
    have un: "nat u = nat (u - 8) + 8" using True by simp
    have w: "0 \<le> w div 2 ^ 8" "w div 2 ^ 8 < 2 ^ nat (u - 8)" using 1(5) div_less_pow [of w 8 "nat (u - 8)"] 1(7) unfolding un
      by (simp_all add: pos_imp_zdiv_nonneg_iff add.commute)
    have f: "enc_wf f" using st(2) by (simp add: same_coded_def)
    have u: "0 \<le> u - 8" using True by simp
    note ih = 1(1) [OF True r [unfolded f_def] 1(3) f [unfolded f_def] w(1) u w(2), folded f_def]
    have d: "x * (256 * y) + z * y = (x * 256 + z) * y" for x y z :: int by (simp add: algebra_simps)
    have "w div 2 ^ 8 * 256 ^ ec_end_offs f + w mod 2 ^ 8 * 256 ^ ec_end_offs e = (w div 256 * 256 + w mod 256) * 256 ^ ec_end_offs e"
      using d [of "w div 256" "256 ^ ec_end_offs e" "w mod 256"] unfolding st(3) by (simp del: div_mult_mod_eq)
    then have "w div 2 ^ 8 * 256 ^ ec_end_offs f + w mod 2 ^ 8 * 256 ^ ec_end_offs e = w * 256 ^ ec_end_offs e" by (simp only: div_mult_mod_eq)
    then show ?thesis using ih st same_coded_trans [of e f e'] by (simp add: algebra_simps)
  next
    case False
    then have "e' = e" "w' = w" "u' = u" using 1(2) by (subst (asm) ec_done_window.simps, simp)+
    then show ?thesis using False 1(4-7) by simp
  qed
qed

lemma flush_window_eq: "8 \<le> u \<Longrightarrow> ec_flush_window e w u = ec_done_window e w u"
proof (induction e w u rule: ec_done_window.induct)
  case (1 e w u)
  then show ?case
    by (subst ec_flush_window.simps, subst ec_done_window.simps) (auto simp: Let_def ec_done_window.simps [of _ _ "u - 8"])
qed

lemma or_pow:
  assumes "0 \<le> b" "b < 2 ^ k"
  shows "(b OR a * 2 ^ k) = b + a * (2 :: int) ^ k"
proof -
  have "b AND a * 2 ^ k = 0"
  proof (rule bit_eqI)
    fix n
    have "bit (a * 2 ^ k) n \<Longrightarrow> k \<le> n" using bit_push_bit_iff [of k a n] by (simp add: push_bit_eq_mult)
    moreover have "k \<le> n \<Longrightarrow> \<not> bit b n" using assms take_bit_int_eq_self [of b k] bit_take_bit_iff [of k b n] by simp
    ultimately show "bit (b AND a * 2 ^ k) n = bit 0 n" by (auto simp: bit_simps)
  qed
  then show ?thesis by (simp add: disjunctive_add_eq_or)
qed

lemma or_window:
  assumes "0 \<le> w" "w < 2 ^ k" "0 \<le> x" "x < 2 ^ j" "k + j \<le> 32"
  shows "(w OR w32 (x * 2 ^ k)) = w + x * 2 ^ k" "w + x * 2 ^ k < 2 ^ (k + j)"
proof -
  have "(x + 1) * 2 ^ k \<le> 2 ^ j * 2 ^ k" using assms(4) by (intro mult_right_mono) auto
  then show b: "w + x * 2 ^ k < 2 ^ (k + j)" using assms(2) by (simp add: power_add algebra_simps)
  have "x * 2 ^ k < 2 ^ (k + j)" using b assms(1) by linarith
  also have "(2 :: int) ^ (k + j) \<le> 2 ^ 32" by (rule power_increasing) (use assms(5) in auto)
  finally have "w32 (x * 2 ^ k) = x * 2 ^ k" using assms(3) by (intro w32_id) auto
  then show "(w OR w32 (x * 2 ^ k)) = w + x * 2 ^ k" using or_pow [OF assms(1,2)] by simp
qed

lemma enc_bits_step:
  assumes e: "enc_wf e" and r: "raw_inv e" and f: "0 \<le> fl" "fl < 2 ^ bits" "bits \<le> 25" and er: "ec_error (ec_enc_bits e fl bits) = 0"
  defines "e' \<equiv> ec_enc_bits e fl bits"
  shows "ec_error e = 0" "raw_inv e'" "raw_len e' = raw_len e + bits" "raw_val e' = raw_val e + fl * 2 ^ raw_len e"
    "enc_wf e' \<and> enc_digits e' = enc_digits e \<and> ec_val e' = ec_val e \<and> ec_rng e' = ec_rng e \<and> ec_rem e' = ec_rem e \<and>
      ec_nbits_total e' = ec_nbits_total e + int bits \<and> ec_storage e' = ec_storage e"
proof -
  have i: "0 \<le> ec_nend_bits e" "ec_nend_bits e \<le> 32" "0 \<le> ec_end_window e" "ec_end_window e < 2 ^ nat (ec_nend_bits e)"
    "ec_nbits_total e = 33 + 8 * int (enc_n e) + int (raw_len e)" using r by (auto simp: raw_inv_def)
  obtain g w u where g: "(g, w, u) = (if ec_nend_bits e + int bits > 32 then ec_flush_window e (ec_end_window e) (ec_nend_bits e)
      else (e, ec_end_window e, ec_nend_bits e))" by (metis prod_cases3)
  have e': "e' = g\<lparr>ec_end_window := w OR w32 (fl * 2 ^ nat u), ec_nend_bits := u + int bits, ec_nbits_total := ec_nbits_total g + int bits\<rparr>"
    unfolding e'_def ec_enc_bits_def Let_def g [symmetric] by simp
  have ge: "ec_error g = 0" using er by (simp add: e'_def [symmetric] e')
  have st: "ec_error e = 0 \<and> same_coded e g \<and> 0 \<le> w \<and> w < 2 ^ nat u \<and> 0 \<le> u \<and> u + int bits \<le> 32 \<and>
      8 * int (ec_end_offs g) + u = 8 * int (ec_end_offs e) + ec_nend_bits e \<and>
      endnum (ec_buf g) (ec_end_offs g) + w * 256 ^ ec_end_offs g = raw_val e"
  proof (cases "ec_nend_bits e + int bits > 32")
    case True
    then have "ec_done_window e (ec_end_window e) (ec_nend_bits e) = (g, w, u)" using g f(3) by (simp add: flush_window_eq)
    from done_window_step [OF this ge e i(3,1,4)] done_window_sticky [OF this ge] f(3) show ?thesis by (auto simp: raw_val_def)
  qed (use g i e ge in \<open>simp add: raw_val_def\<close>)
  show "ec_error e = 0" using st by simp
  have ow: "(w OR w32 (fl * 2 ^ nat u)) = w + fl * 2 ^ nat u" "w + fl * 2 ^ nat u < 2 ^ (nat u + bits)"
    using or_window [of w "nat u" fl bits] st f by auto
  have d: "enc_digits e' = enc_digits g" by (simp add: e' enc_digits_def)
  have n: "nat (u + int bits) = nat u + bits" using st by (simp add: nat_add_distrib)
  have nu: "8 * ec_end_offs g + nat u = raw_len e" unfolding raw_len_def using st i(1) by linarith
  then have rl: "raw_len e' = raw_len e + bits" by (simp add: raw_len_def e' n)
  then show "raw_len e' = raw_len e + bits" .
  show c: "enc_wf e' \<and> enc_digits e' = enc_digits e \<and> ec_val e' = ec_val e \<and> ec_rng e' = ec_rng e \<and> ec_rem e' = ec_rem e \<and>
      ec_nbits_total e' = ec_nbits_total e + int bits \<and> ec_storage e' = ec_storage e"
    using st unfolding d by (simp add: same_coded_def e' enc_wf_def)
  have w0: "0 \<le> w + fl * 2 ^ nat u" using st f by simp
  have "enc_n e' = enc_n e" using c by (simp add: enc_n_def)
  then show "raw_inv e'" using c st i rl ow w0 by (simp add: raw_inv_def n) (simp add: e' n ow(1))
  have p: "(2 :: int) ^ raw_len e = 2 ^ nat u * 256 ^ ec_end_offs g"
  proof -
    have "raw_len e = nat u + 8 * ec_end_offs g" using nu by simp
    then show ?thesis by (simp add: power_add power_mult)
  qed
  show "raw_val e' = raw_val e + fl * 2 ^ raw_len e" using st unfolding p by (simp add: raw_val_def e' ow(1) algebra_simps)
qed

text \<open>Writing more leaves the lower part of the number.\<close>

definition raw_inside :: "bytes \<Rightarrow> nat \<Rightarrow> int \<Rightarrow> bool" where
  "raw_inside B len v \<longleftrightarrow> endall B mod 2 ^ len = v"

lemma raw_val_bounds: "raw_inv e \<Longrightarrow> 0 \<le> raw_val e \<and> raw_val e < 2 ^ raw_len e"
proof -
  assume r: "raw_inv e"
  note b = endnum_bounds [of "ec_buf e" "ec_end_offs e"]
  have "(ec_end_window e + 1) * 256 ^ ec_end_offs e \<le> 2 ^ nat (ec_nend_bits e) * 256 ^ ec_end_offs e"
    using r by (intro mult_right_mono) (auto simp: raw_inv_def)
  then have "raw_val e < 2 ^ nat (ec_nend_bits e) * 256 ^ ec_end_offs e" using b by (simp add: raw_val_def algebra_simps)
  moreover have "(2 :: int) ^ raw_len e = 256 ^ ec_end_offs e * 2 ^ nat (ec_nend_bits e)" by (simp add: raw_len_def power_add power_mult)
  moreover have "0 \<le> raw_val e" using b(1) r by (simp add: raw_val_def raw_inv_def)
  ultimately show ?thesis by (simp add: mult.commute)
qed

lemma raw_inside_back:
  assumes "raw_inside B (len + bits) (v + fl * 2 ^ len)" "0 \<le> v" "v < 2 ^ len" "0 \<le> fl" "fl < 2 ^ bits"
  shows "raw_inside B len v" "(endall B div 2 ^ len) mod 2 ^ bits = fl"
proof -
  have m: "endall B mod 2 ^ (len + bits) = v + fl * 2 ^ len" using assms(1) by (simp add: raw_inside_def)
  have "endall B mod 2 ^ len = (endall B mod 2 ^ (len + bits)) mod 2 ^ len" by (simp add: power_add mod_mod_cancel)
  then show "raw_inside B len v" using assms(2,3) by (simp add: m raw_inside_def)
  have "take_bit bits (drop_bit len (endall B)) = drop_bit len (take_bit (len + bits) (endall B))"
    by (rule bit_eqI) (auto simp: bit_simps)
  also have "\<dots> = (v + fl * 2 ^ len) div 2 ^ len" by (simp add: drop_bit_eq_div take_bit_eq_mod m)
  also have "\<dots> = fl" using assms(2,3) by simp
  finally show "(endall B div 2 ^ len) mod 2 ^ bits = fl" by (simp add: drop_bit_eq_div take_bit_eq_mod)
qed

section \<open>The decoder\<close>

definition dec_raw :: "bytes \<Rightarrow> nat \<Rightarrow> ec_ctx \<Rightarrow> bool" where
  "dec_raw B c d \<longleftrightarrow> 0 \<le> ec_nend_bits d \<and> ec_nend_bits d \<le> 32 \<and>
     (\<exists>m. c + nat (ec_nend_bits d) = 8 * m \<and> ec_end_offs d = min m (length B) \<and> ec_end_window d = endnum B m div 2 ^ c)"

lemma read_end_step:
  assumes "ec_buf d = B" "ec_storage d = length B" "ec_end_offs d = min m (length B)"
  shows "ec_read_byte_from_end d = (d\<lparr>ec_end_offs := min (Suc m) (length B)\<rparr>, endbyte B m)"
  using assms by (auto simp: ec_read_byte_from_end_def endbyte_def min_def not_less_eq_eq)

lemma endnum_div:
  assumes "c + k = 8 * m"
  shows "0 \<le> endnum B m div 2 ^ c" "endnum B m div 2 ^ c < 2 ^ k"
    "endnum B (Suc m) div 2 ^ c = endnum B m div 2 ^ c + endbyte B m * 2 ^ k"
proof -
  have p: "(256 :: int) ^ m = 2 ^ (c + k)" using assms by (simp add: power_mult)
  show "0 \<le> endnum B m div 2 ^ c" using endnum_bounds [of B m] by (simp add: pos_imp_zdiv_nonneg_iff)
  show "endnum B m div 2 ^ c < 2 ^ k" using endnum_bounds(2) [of B m] unfolding p by (rule div_less_pow)
  have "endnum B (Suc m) = endnum B m + (endbyte B m * 2 ^ k) * 2 ^ c" by (simp add: p power_add mult.commute mult.left_commute)
  then show "endnum B (Suc m) div 2 ^ c = endnum B m div 2 ^ c + endbyte B m * 2 ^ k" by (simp add: add.commute del: endnum.simps)
qed

lemma fill_window_step:
  assumes "ec_buf d = B" "ec_storage d = length B" "ec_end_offs d = min m (length B)" "c + k = 8 * m" "k \<le> 24"
  shows "\<exists>m' k'. ec_fill_window d (endnum B m div 2 ^ c) (int k) = (d\<lparr>ec_end_offs := min m' (length B)\<rparr>, endnum B m' div 2 ^ c, int k') \<and>
    c + k' = 8 * m' \<and> 24 < k' \<and> k' \<le> 32"
  using assms
proof (induction "32 - k" arbitrary: k m d rule: less_induct)
  case less
  define f where "f = d\<lparr>ec_end_offs := min (Suc m) (length B)\<rparr>"
  note w = endnum_div [OF less(5), of B]
  have o: "(endnum B m div 2 ^ c OR w32 (endbyte B m * 2 ^ k)) = endnum B (Suc m) div 2 ^ c"
    using or_window(1) [OF w(1,2), of "endbyte B m" 8] endbyte_bounds [of B m] less(6) unfolding w(3) by simp
  have s: "ec_fill_window d (endnum B m div 2 ^ c) (int k) =
      (if k + 8 \<le> 24 then ec_fill_window f (endnum B (Suc m) div 2 ^ c) (int (k + 8)) else (f, endnum B (Suc m) div 2 ^ c, int (k + 8)))"
    using read_end_step [OF less(2-4)] o by (subst ec_fill_window.simps) (simp add: f_def del: endnum.simps)
  have c: "c + (k + 8) = 8 * Suc m" using less(5) by simp
  show ?case
  proof (cases "k + 8 \<le> 24")
    case True
    have "\<exists>m' k'. ec_fill_window f (endnum B (Suc m) div 2 ^ c) (int (k + 8)) = (f\<lparr>ec_end_offs := min m' (length B)\<rparr>, endnum B m' div 2 ^ c, int k') \<and>
        c + k' = 8 * m' \<and> 24 < k' \<and> k' \<le> 32"
      by (rule less(1)) (use less(2-6) c True in \<open>simp_all add: f_def\<close>)
    then show ?thesis using s True by (simp add: f_def)
  next
    case False
    then show ?thesis using s c less(6) unfolding f_def by (intro exI [of _ "Suc m"] exI [of _ "k + 8"]) simp
  qed
qed

lemma dec_bits_step:
  assumes d: "dec_sync B iv d" and r: "dec_raw B c d" and b: "bits \<le> 25"
  shows "\<exists>d'. ec_dec_bits d bits = (d', (endall B div 2 ^ c) mod 2 ^ bits) \<and> dec_sync B iv d' \<and> dec_raw B (c + bits) d' \<and>
    ec_nbits_total d' = ec_nbits_total d + int bits \<and> ec_error d' = ec_error d"
proof -
  have i: "0 \<le> ec_nend_bits d" "ec_nend_bits d \<le> 32" using r by (auto simp: dec_raw_def)
  obtain m where m: "c + nat (ec_nend_bits d) = 8 * m" "ec_end_offs d = min m (length B)" "ec_end_window d = endnum B m div 2 ^ c"
    using r by (auto simp: dec_raw_def)
  have B: "ec_buf d = B" "ec_storage d = length B" using d by (auto simp: dec_sync_def split: prod.splits)
  obtain m' k where f: "(if ec_nend_bits d < int bits then ec_fill_window d (ec_end_window d) (ec_nend_bits d) else (d, ec_end_window d, ec_nend_bits d)) =
      (d\<lparr>ec_end_offs := min m' (length B)\<rparr>, endnum B m' div 2 ^ c, int k)" "c + k = 8 * m'" "bits \<le> k" "k \<le> 32"
  proof (cases "ec_nend_bits d < int bits")
    case True
    have "nat (ec_nend_bits d) \<le> 24" using True b by simp
    from fill_window_step [OF B m(2,1) this] obtain m' k' where
      "ec_fill_window d (ec_end_window d) (ec_nend_bits d) = (d\<lparr>ec_end_offs := min m' (length B)\<rparr>, endnum B m' div 2 ^ c, int k')"
      "c + k' = 8 * m'" "24 < k'" "k' \<le> 32" using m(3) i(1) by auto
    then show ?thesis using that True b by auto
  next
    case False
    then show ?thesis using that [of m "nat (ec_nend_bits d)"] m i by (cases d) auto
  qed
  define d' where "d' = d\<lparr>ec_end_offs := min m' (length B), ec_end_window := endnum B m' div 2 ^ c div 2 ^ bits, ec_nend_bits := int k - int bits,
    ec_nbits_total := ec_nbits_total d + int bits\<rparr>"
  have "ec_dec_bits d bits = (d', (endnum B m' div 2 ^ c) mod 2 ^ bits)" unfolding ec_dec_bits_def Let_def f(1) by (simp add: d'_def)
  moreover have "(endnum B m' div 2 ^ c) mod 2 ^ bits = (endall B div 2 ^ c) mod 2 ^ bits" using f(2,3) by (intro endall_bits) simp
  moreover have "dec_sync B iv d'" using d by (auto simp: dec_sync_def d'_def split: prod.splits)
  moreover have "endnum B m' div 2 ^ c div 2 ^ bits = endnum B m' div 2 ^ (c + bits)" by (simp add: zdiv_zmult2_eq power_add)
  then have "dec_raw B (c + bits) d'" using f(2-4) unfolding dec_raw_def by (auto simp: d'_def intro!: exI [of _ m'])
  ultimately show ?thesis by (auto simp: d'_def)
qed

end
