(* ===== verification/Opus_Range_Done.thy ===== *)
theory Opus_Range_Done
  imports Opus_Range_Raw
begin

text \<open>
  Finishing the stream: \<open>ec_enc_done\<close> writes as few bits as put the number of the buffer into the final interval whatever follows
  them, so that the raw bits may share the last byte.
\<close>

unbundle bit_operations_syntax

section \<open>The value of the last bits\<close>

lemma EC_ILOG_0 [simp]: "EC_ILOG 0 = 0"
  by (subst EC_ILOG.simps) simp

lemma EC_ILOG_1: "EC_ILOG 1 = 1"
  by (subst EC_ILOG.simps) simp

lemma EC_ILOG_bounds: "0 < v \<Longrightarrow> 0 < EC_ILOG v \<and> 2 ^ nat (EC_ILOG v - 1) \<le> v \<and> v < 2 ^ nat (EC_ILOG v)"
proof (induction v rule: EC_ILOG.induct)
  case (1 v)
  show ?case
  proof (cases "v = 1")
    case False
    define k where "k = nat (EC_ILOG (v div 2))"
    from 1 False have i: "0 < EC_ILOG (v div 2)" "2 ^ nat (EC_ILOG (v div 2) - 1) \<le> v div 2" "v div 2 < 2 ^ k" by (auto simp: k_def)
    have e: "EC_ILOG v = 1 + EC_ILOG (v div 2)" using 1(2) by (subst EC_ILOG.simps) simp
    have n: "nat (EC_ILOG v) = Suc k" "nat (EC_ILOG v - 1) = Suc (nat (EC_ILOG (v div 2) - 1))" using i(1) by (auto simp: e k_def)
    have "2 * (v div 2) \<le> v" "v < 2 * (v div 2 + 1)" by presburger+
    moreover have "2 * (v div 2 + 1) \<le> 2 ^ Suc k" using i(3) by simp
    moreover have "0 < EC_ILOG v" using i(1) by (simp add: e)
    ultimately show ?thesis unfolding n using i(2) by simp
  qed (simp add: EC_ILOG_1)
qed

lemma EC_ILOG_le: "0 < v \<Longrightarrow> v < 2 ^ k \<Longrightarrow> EC_ILOG v \<le> int k"
proof (rule ccontr)
  assume v: "0 < v" "v < 2 ^ k" "\<not> EC_ILOG v \<le> int k"
  have "(2 :: int) ^ k \<le> 2 ^ nat (EC_ILOG v - 1)" using v(3) by (intro power_increasing) auto
  then show False using EC_ILOG_bounds [OF v(1)] v(2) by linarith
qed

lemma EC_ILOG_gt: "2 ^ k \<le> v \<Longrightarrow> int k < EC_ILOG v"
proof (rule ccontr)
  assume v: "2 ^ k \<le> v" "\<not> int k < EC_ILOG v"
  have "0 < v" using v(1) by (rule less_le_trans [rotated]) simp
  moreover have "(2 :: int) ^ nat (EC_ILOG v) \<le> 2 ^ k" using v(2) by (intro power_increasing) auto
  ultimately show False using EC_ILOG_bounds [of v] v(1) by linarith
qed

lemma and_not_mask: "x AND NOT (2 ^ u - 1) = (x div 2 ^ u) * (2 :: int) ^ u"
proof -
  have "x AND NOT (mask u) = push_bit u (drop_bit u x)" by (rule bit_eqI) (auto simp: bit_simps)
  then show ?thesis by (simp add: mask_eq_exp_minus_1 push_bit_eq_mult drop_bit_eq_div)
qed

lemma or_mask: "(a * 2 ^ u OR (2 ^ u - 1)) = a * 2 ^ u + (2 ^ u - 1 :: int)"
  using or_pow [of "2 ^ u - 1" u a] by (simp add: or.commute)

text \<open>Rounding \<open>v\<close> up to a multiple of \<open>2 ^ u\<close>.\<close>

definition up :: "nat \<Rightarrow> int \<Rightarrow> int" where "up u v = ((v + (2 ^ u - 1)) div 2 ^ u) * 2 ^ u"

lemma up_bounds: "v \<le> up u v" "up u v \<le> v + (2 ^ u - 1)" "up u v mod 2 ^ u = 0"
proof -
  define m where "m = (v + (2 ^ u - 1)) mod 2 ^ u"
  have "up u v = v + (2 ^ u - 1) - m" by (simp add: up_def m_def minus_mod_eq_div_mult [symmetric])
  moreover have "0 \<le> m" "m < 2 ^ u" by (simp_all add: m_def)
  ultimately show "v \<le> up u v" "up u v \<le> v + (2 ^ u - 1)" by linarith+
  show "up u v mod 2 ^ u = 0" by (simp add: up_def)
qed

lemma done_end_step:
  assumes "enc_inv e" "2 ^ 23 < ec_rng e" "ec_done_end e = (l, en)"
  shows "0 \<le> l" "l \<le> 9" "ec_val e \<le> en" "en + 2 ^ nat (31 - l) \<le> ec_val e + ec_rng e" "en mod 2 ^ nat (31 - l) = 0"
proof -
  define k where "k = EC_ILOG (ec_rng e)"
  define u where "u = nat (k - 1)"
  have i: "0 \<le> ec_val e" "ec_val e + ec_rng e < 2 ^ 32" "ec_rng e \<le> 2 ^ 31" "0 < ec_rng e" using assms(1) by (auto simp: enc_inv_def)
  have k: "24 \<le> k" "k \<le> 32" using EC_ILOG_gt [of 23 "ec_rng e"] EC_ILOG_le [of "ec_rng e" 32] assms(2) i by (auto simp: k_def)
  have ku: "nat k = Suc u" "nat (k - 1) = u" "u \<le> 31" "23 \<le> u" "k = int u + 1" using k by (auto simp: u_def)
  have r: "2 ^ u \<le> ec_rng e" using EC_ILOG_bounds [OF i(4)] by (simp add: k_def [symmetric] ku)
  have msk: "(2 ^ 31 - 1) div 2 ^ nat (32 - k) = (2 :: int) ^ u - 1"
  proof -
    have "drop_bit (31 - u) (mask 31 :: int) = mask u" using ku(3) by (auto simp: bit_eq_iff bit_simps)
    moreover have "nat (32 - k) = 31 - u" using ku by simp
    ultimately show ?thesis by (simp add: drop_bit_eq_div mask_eq_exp_minus_1)
  qed
  have p: "(2 :: int) ^ u = 2 * 2 ^ (u - 1)" using ku(4) by (cases u) auto
  have msk2: "(2 ^ u - 1) div 2 = (2 :: int) ^ (u - 1) - 1" unfolding p by simp
  have w: "w32 (ec_val e + (2 ^ u - 1)) = ec_val e + (2 ^ u - 1)" "w32 (ec_val e + (2 ^ (u - 1) - 1)) = ec_val e + (2 ^ (u - 1) - 1)"
    "w32 (ec_val e + ec_rng e) = ec_val e + ec_rng e" using r i p by (auto intro!: w32_id)
  have d: "ec_done_end e = (if up u (ec_val e) + (2 ^ u - 1) \<ge> ec_val e + ec_rng e then (32 - k + 1, up (u - 1) (ec_val e)) else (32 - k, up u (ec_val e)))"
    unfolding ec_done_end_def Let_def k_def [symmetric] msk msk2 w and_not_mask or_mask by (simp add: up_def or_mask)
  note b = up_bounds [where v = "ec_val e" and u = u] up_bounds [where v = "ec_val e" and u = "u - 1"]
  have "0 \<le> l \<and> l \<le> 9 \<and> ec_val e \<le> en \<and> en + 2 ^ nat (31 - l) \<le> ec_val e + ec_rng e \<and> en mod 2 ^ nat (31 - l) = 0"
  proof (cases "up u (ec_val e) + (2 ^ u - 1) \<ge> ec_val e + ec_rng e")
    case True
    then have l: "l = 33 - k" "en = up (u - 1) (ec_val e)" using d assms(3) by auto
    have n: "nat (31 - l) = u - 1" using l ku by simp
    show ?thesis unfolding n using l k b(4-6) r p by auto
  next
    case False
    then have l: "l = 32 - k" "en = up u (ec_val e)" using d assms(3) by auto
    have n: "nat (31 - l) = u" using l ku by simp
    show ?thesis unfolding n using l k b(1-3) False by auto
  qed
  then show "0 \<le> l" "l \<le> 9" "ec_val e \<le> en" "en + 2 ^ nat (31 - l) \<le> ec_val e + ec_rng e" "en mod 2 ^ nat (31 - l) = 0" by auto
qed

section \<open>Writing the last digits\<close>

text \<open>The bits \<open>en\<close>, of which the first \<open>l\<close> are significant, extend the digits by \<open>j\<close> more.\<close>

definition done_digits :: "ec_ctx \<Rightarrow> int \<Rightarrow> int \<Rightarrow> nat \<Rightarrow> ec_ctx \<Rightarrow> bool" where
  "done_digits e l en j e' \<longleftrightarrow> enc_wf e' \<and> same_rest e e' \<and> ec_error e = 0 \<and> j \<le> 2 \<and> l \<le> 8 * int j \<and> 8 * int j < l + 8 \<and>
     num (enc_digits e') * 2 ^ (31 - 8 * j) = num (enc_digits e) * 2 ^ 31 + en \<and> enc_n e' = enc_n e + j \<and> ec_ext e' \<le> ec_ext e + int j"

lemma carry_out_ext: "0 \<le> ec_ext e \<Longrightarrow> ec_ext e + 1 < 2 ^ 32 \<Longrightarrow> ec_ext (ec_enc_carry_out e c) \<le> ec_ext e + 1"
proof -
  assume a: "0 \<le> ec_ext e" "ec_ext e + 1 < 2 ^ 32"
  have l: "ec_ext (ec_carry_loop n v f) = ec_ext f - int n" for n v f
    by (induction n arbitrary: f) (simp_all add: Let_def ec_or_error_def ec_write_byte_def)
  show ?thesis using a by (auto simp: ec_enc_carry_out_def Let_def l w32_def ec_or_error_def ec_write_byte_def)
qed

lemma done_loop_sticky: "ec_error (fst (ec_done_loop l en e)) = 0 \<Longrightarrow> ec_error e = 0"
proof (induction l en e rule: ec_done_loop.induct)
  case (1 l en e)
  then show ?case by (cases "l > 0") (auto simp: ec_done_loop.simps [of l en e] dest: carry_out_sticky)
qed

lemma done_loop_step:
  assumes "ec_done_loop l en e = (e', l')" "ec_error e' = 0" "enc_wf e" "0 \<le> l" "l \<le> 9" "0 \<le> en" "en < 2 ^ 32"
    "en mod 2 ^ nat (31 - l) = 0" "en \<ge> 2 ^ 31 \<Longrightarrow> 0 \<le> ec_rem e \<and> ec_rem e \<le> 254" "ec_ext e + 2 < 2 ^ 32" "l = 0 \<Longrightarrow> en = 0"
  shows "\<exists>j. done_digits e l en j e' \<and> l' = l - 8 * int j"
proof (cases "l = 0")
  case True
  then have "e' = e" "l' = l" using assms(1) by (auto simp: ec_done_loop.simps)
  then show ?thesis using True assms by (intro exI [of _ 0]) (simp add: done_digits_def same_rest_def)
next
  case False
  define c where "c = en div 2 ^ 23"
  define en' where "en' = w32 (en * 2 ^ 8) mod 2 ^ 31"
  define f where "f = ec_enc_carry_out e c"
  have r: "ec_done_loop (l - 8) en' f = (e', l')" using assms(1,4) False by (simp add: ec_done_loop.simps [of l] c_def en'_def f_def)
  have fe: "ec_error f = 0" using done_loop_sticky [of "l - 8" en' f] assms(2) by (simp add: r)
  have c: "0 \<le> c" "c < 512" "c \<ge> 256 \<Longrightarrow> 0 \<le> ec_rem e \<and> ec_rem e \<le> 254" using assms(6,7,9) by (auto simp: c_def)
  have x: "ec_ext e + 1 < 2 ^ 32" using assms(10) by simp
  note st = carry_out_step [OF fe [unfolded f_def] assms(3) c x, folded f_def]
  have x1: "ec_ext f \<le> ec_ext e + 1" using carry_out_ext [of e c] assms(3) x by (simp add: f_def enc_wf_def)
  have en': "en' = (en mod 2 ^ 23) * 256"
  proof -
    have "en' = (en * 2 ^ 8) mod 2 ^ 31" by (simp add: en'_def w32_def mod_mod_cancel)
    then show ?thesis using mod_mult_mult2 [of en "2 ^ 8" "2 ^ 23"] by simp
  qed
  have enc: "en = c * 2 ^ 23 + en mod 2 ^ 23" by (simp add: c_def)
  show ?thesis
  proof (cases "l \<le> 8")
    case True
    then have e: "e' = f" "l' = l - 8" using r by (auto simp: ec_done_loop.simps)
    have "nat (31 - l) = 23 + nat (8 - l)" using True assms(4) by simp
    then have "(2 :: int) ^ 23 dvd 2 ^ nat (31 - l)" by (simp add: power_add)
    then have "en mod 2 ^ 23 = 0" using assms(8) by (auto simp: mod_eq_0_iff_dvd dest: dvd_trans)
    then have "en = c * 2 ^ 23" using enc by simp
    then show ?thesis using st e True False assms(4) x1 by (intro exI [of _ 1]) (simp add: done_digits_def)
  next
    case False
    then have l: "l = 9" using assms(5) by simp
    define g where "g = ec_enc_carry_out f (en' div 2 ^ 23)"
    have e: "e' = g" "l' = l - 16" using r l by (auto simp: ec_done_loop.simps g_def)
    have ge: "ec_error g = 0" using e assms(2) by simp
    have c2: "0 \<le> en' div 2 ^ 23" "en' div 2 ^ 23 < 256" by (simp_all add: en'_def pos_imp_zdiv_nonneg_iff div_less_pow [where a = 23 and b = 8, simplified])
    have c3: "en' div 2 ^ 23 < 512" "en' div 2 ^ 23 \<ge> 256 \<Longrightarrow> 0 \<le> ec_rem f \<and> ec_rem f \<le> 254" using c2 by auto
    have x2: "ec_ext f + 1 < 2 ^ 32" using x1 assms(10) by simp
    note st2 = carry_out_step [OF ge [unfolded g_def] st(1) c2(1) c3 x2, folded g_def]
    have x3: "ec_ext g \<le> ec_ext f + 1" using carry_out_ext [of f "en' div 2 ^ 23"] st(1) x2 by (simp add: g_def enc_wf_def)
    have "en mod 2 ^ 22 = 0" using assms(8) l by simp
    then have "en = (en div 2 ^ 22) * 2 ^ 22" using div_mult_mod_eq [of en "2 ^ 22"] by simp
    then have "en mod 2 ^ 23 = (en div 2 ^ 22) mod 2 * 2 ^ 22" using mod_mult_mult2 [of "en div 2 ^ 22" "2 ^ 22" 2] by simp
    moreover have "(en div 2 ^ 22) mod 2 = 0 \<or> (en div 2 ^ 22) mod 2 = 1" by auto
    ultimately have "en mod 2 ^ 23 = en' div 2 ^ 23 * 2 ^ 15" unfolding en' by auto
    then have "num (enc_digits g) * 2 ^ 15 = num (enc_digits e) * 2 ^ 31 + en" using st(4) st2(4) enc by simp
    then show ?thesis using st st2 e l x1 x3 same_rest_trans [of e f g] by (intro exI [of _ 2]) (simp add: done_digits_def)
  qed
qed

lemma done_flush_step:
  assumes "enc_wf e" "ec_error e' = 0"
  defines "f \<equiv> (if ec_rem e \<ge> 0 \<or> ec_ext e > 0 then ec_enc_carry_out e 0 else e)"
  assumes "e' = f"
  shows "enc_wf f \<and> same_rest e f \<and> ec_error e = 0 \<and> map uint (take (ec_offs f) (ec_buf f)) = enc_digits e"
proof (cases "ec_rem e \<ge> 0 \<or> ec_ext e > 0")
  case True
  then have f: "f = ec_enc_carry_out e 0" by (simp add: f_def)
  have "ec_error (ec_enc_carry_out e 0) = 0" using assms(2,4) f by simp
  from carry_out_flush [OF this assms(1)] show ?thesis unfolding f by (simp add: enc_digits_def)
next
  case False
  then have "f = e" "ec_rem e < 0" "ec_ext e = 0" using assms(1) by (auto simp: f_def enc_wf_def)
  then show ?thesis using assms by (simp add: same_rest_def enc_digits_def)
qed

end
