(* ===== verification/Opus_Range_Final.thy ===== *)
theory Opus_Range_Final
  imports Opus_Range_Done
begin

text \<open>
  The buffer that \<open>ec_enc_done\<close> leaves: the digits at its front, the raw bits at its end, zeros between, and possibly one byte shared by both.
\<close>

unbundle bit_operations_syntax

section \<open>The finished buffer\<close>

lemma byte_nth: "i < length B \<Longrightarrow> byte B i = uint (B ! i)" by (simp add: byte_def)

lemma num_map_take: "m \<le> length B \<Longrightarrow> map (byte B) [0..<m] = map uint (take m B)"
  by (rule nth_equalityI) (simp_all add: byte_def)

lemma num_bytes_bounds: "0 \<le> num (map (byte B) xs)" "num (map (byte B) xs) < 256 ^ length xs"
proof (induction xs)
  case (Cons x xs)
  have "byte B x * 256 ^ length xs \<le> 255 * 256 ^ length xs" using byte_bounds(2) [of B x] by (intro mult_right_mono) auto
  then have "byte B x * 256 ^ length xs + num (map (byte B) xs) < 255 * 256 ^ length xs + 256 ^ length xs" using Cons(2) by linarith
  then show "num (map (byte B) (x # xs)) < 256 ^ length (x # xs)" by simp
  show "0 \<le> num (map (byte B) (x # xs))" using Cons(1) byte_bounds(1) [of B x] by simp
qed simp_all

text \<open>The digits written, whatever follows them, put the number into the interval of the last bits.\<close>

lemma code_final:
  assumes j: "j \<le> 2" "l \<le> 8 * j" and W: "num (map (byte B) [0..<n + j]) = N + w" "0 \<le> w" "w < 2 ^ (8 * j - l)"
    and N: "N * 2 ^ (31 - 8 * j) = L"
  shows "L \<le> codeval B (n + 4)" "codeval B (n + 4) < L + 2 ^ (31 - l)"
proof -
  define R where "R = num (map (byte B) [n + j..<n + 4])"
  define P where "P = (2 :: int) ^ (31 - 8 * j)"
  have P: "(256 :: int) ^ (4 - j) = 2 * P"
  proof -
    have "(256 :: int) ^ (4 - j) = 2 ^ (8 * (4 - j))" by (simp add: power_mult)
    also have "8 * (4 - j) = Suc (31 - 8 * j)" using j(1) by simp
    finally show ?thesis by (simp add: P_def)
  qed
  have R: "0 \<le> R" "R < 2 * P" using num_bytes_bounds [of B "[n + j..<n + 4]"] j(1) by (simp_all add: R_def P)
  have "[0..<n + 4] = [0..<n + j] @ [n + j..<n + 4]" using upt_add_eq_append [of 0 "n + j" "4 - j"] j(1) by simp
  then have "num (map (byte B) [0..<n + 4]) = (N + w) * (2 * P) + R" using j(1) W(1) by (simp only: map_append num_append R_def) (simp add: P)
  also have "\<dots> = 2 * L + (2 * (w * P) + R)" using N [folded P_def] by (simp add: algebra_simps)
  finally have c: "codeval B (n + 4) = L + (2 * (w * P) + R) div 2" unfolding codeval_def by (simp only: div_mult_self4 mult.commute)
  have "(w + 1) * P \<le> 2 ^ (8 * j - l) * P" using W(3) by (intro mult_right_mono) (auto simp: P_def)
  also have "\<dots> = 2 ^ (31 - l)" using j by (simp add: P_def power_add [symmetric])
  finally have "2 * (w * P) + R < 2 * 2 ^ (31 - l)" using R(2) by (simp add: algebra_simps)
  moreover have "0 \<le> w * P" using W(2) by (simp add: P_def)
  ultimately show "L \<le> codeval B (n + 4)" "codeval B (n + 4) < L + 2 ^ (31 - l)" unfolding c using R(1) by auto
qed

lemma endnum_cong: "(\<And>i. i < m \<Longrightarrow> endbyte A i = endbyte B i) \<Longrightarrow> endnum A m = endnum B m"
  by (induction m) auto

lemma endnum_drop:
  assumes "length A = length B" "m \<le> length B" "drop (length B - m) A = drop (length B - m) B"
  shows "endnum A m = endnum B m"
proof (rule endnum_cong)
  fix i assume i: "i < m"
  have "drop (length B - m) A ! (m - (i + 1)) = drop (length B - m) B ! (m - (i + 1))" using assms(3) by simp
  then show "endbyte A i = endbyte B i" using i assms(1,2) by (simp add: endbyte_def)
qed

definition zero_fill :: "ec_ctx \<Rightarrow> bytes" where
  "zero_fill e = take (ec_offs e) (ec_buf e) @ replicate (ec_storage e - ec_offs e - ec_end_offs e) 0 @ drop (ec_storage e - ec_end_offs e) (ec_buf e)"

lemma zero_fill_nth:
  assumes "enc_wf e"
  shows "length (zero_fill e) = ec_storage e" "take (ec_offs e) (zero_fill e) = take (ec_offs e) (ec_buf e)"
    "endnum (zero_fill e) (ec_end_offs e) = endnum (ec_buf e) (ec_end_offs e)"
    "ec_offs e \<le> i \<Longrightarrow> i < ec_storage e - ec_end_offs e \<Longrightarrow> zero_fill e ! i = 0"
proof -
  have w: "length (ec_buf e) = ec_storage e" "ec_offs e + ec_end_offs e \<le> ec_storage e" using assms by (auto simp: enc_wf_def)
  show l: "length (zero_fill e) = ec_storage e" "take (ec_offs e) (zero_fill e) = take (ec_offs e) (ec_buf e)" using w by (simp_all add: zero_fill_def)
  show "ec_offs e \<le> i \<Longrightarrow> i < ec_storage e - ec_end_offs e \<Longrightarrow> zero_fill e ! i = 0" using w by (auto simp add: zero_fill_def nth_append)
  show "endnum (zero_fill e) (ec_end_offs e) = endnum (ec_buf e) (ec_end_offs e)"
  proof (rule endnum_cong)
    fix i assume "i < ec_end_offs e"
    then show "endbyte (zero_fill e) i = endbyte (ec_buf e) i" using w by (simp add: endbyte_def l(1)) (auto simp add: zero_fill_def nth_append)
  qed
qed

lemma done_merge_cases:
  assumes "ec_error (ec_done_merge e l w u) = 0" "enc_wf e" "0 \<le> w" "w < 2 ^ nat u"
  obtains "u \<le> 0" "ec_buf (ec_done_merge e l w u) = zero_fill e"
  | i where "0 < u" "i = ec_storage e - ec_end_offs e - 1" "ec_end_offs e < ec_storage e" "ec_offs e + ec_end_offs e < ec_storage e \<or> u \<le> - l"
      "ec_buf (ec_done_merge e l w u) = (zero_fill e)[i := zero_fill e ! i OR word_of_int w]"
  using assms by (auto simp: ec_done_merge_def zero_fill_def Let_def split: if_splits)

lemma or_low_byte:
  assumes "0 \<le> w" "w < 2 ^ k" "k \<le> 8" "uint b mod 2 ^ k = 0"
  shows "uint ((b :: u8) OR word_of_int w) = uint b + w"
proof -
  have "(2 :: int) ^ k \<le> 2 ^ 8" using assms(3) by (rule power_increasing) simp
  then have "uint (word_of_int w :: u8) = w" using assms(1,2) by (simp add: uint_word_of_int)
  moreover have "uint b = uint b div 2 ^ k * 2 ^ k" using assms(4) by (simp add: minus_mod_eq_div_mult [symmetric])
  ultimately show ?thesis using or_pow [OF assms(1,2), of "uint b div 2 ^ k"] by (simp add: uint_or or.commute add.commute)
qed

lemma done_merge_step:
  assumes er: "ec_error (ec_done_merge e l w u) = 0" and wf: "enc_wf e" and w: "0 \<le> w" "w < 2 ^ nat u" "0 \<le> u" "u < 8"
    and lo: "0 < u \<Longrightarrow> u \<le> - l \<Longrightarrow> 0 < ec_offs e \<and> uint (ec_buf e ! (ec_offs e - 1)) mod 2 ^ nat u = 0"
  defines "B \<equiv> ec_buf (ec_done_merge e l w u)"
  shows "length B = ec_storage e" "endall B mod 2 ^ (8 * ec_end_offs e + nat u) = endnum (ec_buf e) (ec_end_offs e) + w * 256 ^ ec_end_offs e"
    "\<exists>x. num (map (byte B) [0..<ec_offs e]) = num (map uint (take (ec_offs e) (ec_buf e))) + x \<and> 0 \<le> x \<and> (x = 0 \<or> u \<le> - l \<and> x < 2 ^ nat u)"
proof -
  note z = zero_fill_nth [OF wf]
  have l: "length (ec_buf e) = ec_storage e" "ec_offs e + ec_end_offs e \<le> ec_storage e" using wf by (auto simp: enc_wf_def)
  have zn: "map (byte (zero_fill e)) [0..<ec_offs e] = map uint (take (ec_offs e) (ec_buf e))" using l by (subst num_map_take) (simp_all add: z)
  have "length B = ec_storage e \<and> endall B mod 2 ^ (8 * ec_end_offs e + nat u) = endnum (ec_buf e) (ec_end_offs e) + w * 256 ^ ec_end_offs e \<and>
    (\<exists>x. num (map (byte B) [0..<ec_offs e]) = num (map uint (take (ec_offs e) (ec_buf e))) + x \<and> 0 \<le> x \<and> (x = 0 \<or> u \<le> - l \<and> x < 2 ^ nat u))"
    using er wf w(1,2)
  proof (cases rule: done_merge_cases)
    case 1
    then have "u = 0" "w = 0" "B = zero_fill e" using w by (auto simp: B_def)
    then show ?thesis using z endall_mod [of "zero_fill e" "ec_end_offs e"] zn by (simp add: power_mult)
  next
    case (2 i)
    have i: "i < length (zero_fill e)" "i < ec_storage e - ec_end_offs e" using 2 z(1) by auto
    have B: "B = (zero_fill e)[i := zero_fill e ! i OR word_of_int w]" using 2 by (simp add: B_def)
    have zi: "ec_offs e \<le> i \<and> zero_fill e ! i = 0 \<or> ec_offs e = Suc i \<and> u \<le> - l"
      using 2 z(4) [of i] l by auto
    have mod: "uint (zero_fill e ! i) mod 2 ^ nat u = 0"
    proof (cases "ec_offs e = Suc i \<and> u \<le> - l")
      case True
      have "zero_fill e ! i = ec_buf e ! i" using z(2) True by (metis lessI nth_take)
      then show ?thesis using lo 2(1) True by auto
    qed (use zi in auto)
    have Bi: "uint (B ! i) = uint (zero_fill e ! i) + w" using or_low_byte [OF w(1,2) _ mod] w(4) i by (simp add: B)
    have len: "length B = ec_storage e" by (simp add: B z)
    have e1: "endnum B (ec_end_offs e) = endnum (ec_buf e) (ec_end_offs e)"
      unfolding z(3) [symmetric] by (rule endnum_cong) (use 2 in \<open>auto simp: endbyte_def B z(1) nth_list_update\<close>)
    have e2: "endbyte B (ec_end_offs e) = uint (zero_fill e ! i) + w" using 2 Bi by (simp add: endbyte_def len)
    define q where "q = uint (zero_fill e ! i) div 2 ^ nat u"
    have q: "uint (zero_fill e ! i) = q * 2 ^ nat u" using mod by (simp add: q_def minus_mod_eq_div_mult [symmetric])
    define v where "v = endnum (ec_buf e) (ec_end_offs e) + w * 256 ^ ec_end_offs e"
    define K where "K = (2 :: int) ^ (8 * ec_end_offs e + nat u)"
    have K: "K = 256 ^ ec_end_offs e * 2 ^ nat u" by (simp add: K_def power_add power_mult)
    have "(w + 1) * 256 ^ ec_end_offs e \<le> 2 ^ nat u * 256 ^ ec_end_offs e" using w(2) by (intro mult_right_mono) auto
    then have v: "0 \<le> v" "v < K" using endnum_bounds [of "ec_buf e" "ec_end_offs e"] w(1) by (simp_all add: v_def K algebra_simps)
    have "endnum B (Suc (ec_end_offs e)) = v + q * K" by (simp add: e1 e2 q v_def K algebra_simps)
    moreover have "endall B mod K = endnum B (Suc (ec_end_offs e)) mod K"
    proof -
      have "K dvd 256 ^ Suc (ec_end_offs e)"
      proof -
        have "(2 :: int) ^ nat u dvd 2 ^ 8" using w(4) by (intro le_imp_power_dvd) auto
        then show ?thesis unfolding K by (auto simp: mult.commute intro: mult_dvd_mono)
      qed
      then show ?thesis unfolding endall_mod [of B "Suc (ec_end_offs e)", symmetric] by (simp add: mod_mod_cancel del: power_Suc)
    qed
    ultimately have "endall B mod K = v" using v by (simp add: mod_pos_pos_trivial)
    moreover have "\<exists>x. num (map (byte B) [0..<ec_offs e]) = num (map uint (take (ec_offs e) (ec_buf e))) + x \<and> 0 \<le> x \<and> (x = 0 \<or> u \<le> - l \<and> x < 2 ^ nat u)"
    proof (cases "ec_offs e \<le> i")
      case True
      then have "map (byte B) [0..<ec_offs e] = map (byte (zero_fill e)) [0..<ec_offs e]" by (auto simp: byte_def B)
      then show ?thesis using zn by auto
    next
      case False
      then have o: "ec_offs e = Suc i" "u \<le> - l" using zi by auto
      have m: "map (byte B) [0..<i] = map (byte (zero_fill e)) [0..<i]" by (auto simp: byte_def B)
      have "byte B i = byte (zero_fill e) i + w" using Bi i len z(1) by (simp add: byte_def)
      then have "num (map (byte B) [0..<ec_offs e]) = num (map (byte (zero_fill e)) [0..<ec_offs e]) + w" unfolding o(1) num_Suc m by simp
      then show ?thesis using zn w o(2) by auto
    qed
    ultimately show ?thesis using len by (simp add: v_def K_def)
  qed
  then show "length B = ec_storage e" "endall B mod 2 ^ (8 * ec_end_offs e + nat u) = endnum (ec_buf e) (ec_end_offs e) + w * 256 ^ ec_end_offs e"
    "\<exists>x. num (map (byte B) [0..<ec_offs e]) = num (map uint (take (ec_offs e) (ec_buf e))) + x \<and> 0 \<le> x \<and> (x = 0 \<or> u \<le> - l \<and> x < 2 ^ nat u)" by blast+
qed

section \<open>Finishing\<close>

lemma last_digit_mod:
  assumes "map uint (take m B) = D" "0 < m" "m \<le> length B" "num D * 2 ^ a = x" "x mod 2 ^ (a + k) = 0" "k \<le> 8"
  shows "uint ((B :: bytes) ! (m - 1)) mod 2 ^ k = 0"
proof -
  obtain i where i: "m = Suc i" using assms(2) by (cases m) auto
  have "take m B = take i B @ [B ! i]" using assms(3) i by (simp add: take_Suc_conv_app_nth)
  then have D: "num D = 256 * num (map uint (take i B)) + uint (B ! i)" using assms(1) by auto
  have "2 ^ (a + k) dvd num D * 2 ^ a" using assms(4,5) by (simp add: mod_eq_0_iff_dvd)
  then have k: "(2 :: int) ^ k dvd num D" by (simp add: power_add)
  have "(2 :: int) ^ k dvd 2 ^ 8" using assms(6) by (intro le_imp_power_dvd) auto
  then have "(2 :: int) ^ k dvd 256 * num (map uint (take i B))" by (simp add: dvd_mult2)
  then have "2 ^ k dvd uint (B ! i)" using k unfolding D by (simp only: dvd_add_right_iff)
  then show ?thesis by (simp add: i mod_eq_0_iff_dvd)
qed

lemma enc_inv_done_low:
  assumes "enc_inv e" "ec_val e \<le> en" "en + 2 ^ nat (31 - l) \<le> ec_val e + ec_rng e" "en mod 2 ^ nat (31 - l) = 0" "0 \<le> l" "l \<le> 9"
  shows "en < 2 ^ 32" "en \<ge> 2 ^ 31 \<Longrightarrow> 0 \<le> ec_rem e \<and> ec_rem e \<le> 254" "l = 0 \<Longrightarrow> en = 0"
proof -
  have i: "0 \<le> ec_val e" "ec_val e + ec_rng e < 2 ^ 32" "ec_rng e \<le> 2 ^ 31" "ec_val e + ec_rng e > 2 ^ 31 \<longrightarrow> 0 \<le> ec_rem e \<and> ec_rem e \<le> 254"
    using assms(1) by (auto simp: enc_inv_def)
  have p: "(0 :: int) < 2 ^ nat (31 - l)" by simp
  show "en < 2 ^ 32" "en \<ge> 2 ^ 31 \<Longrightarrow> 0 \<le> ec_rem e \<and> ec_rem e \<le> 254" using i assms(3) p by linarith+
  assume l: "l = 0"
  then have "en < 2 ^ 31" "0 \<le> en" "en mod 2 ^ 31 = 0" using i assms(2-4) by auto
  then show "en = 0" by simp
qed

text \<open>The parts of \<open>ec_enc_done\<close>, none of which has failed.\<close>

lemma enc_done_parts:
  assumes er: "ec_error (ec_enc_done e) = 0"
  obtains l en f l' g h w u where "ec_done_end e = (l, en)" "ec_done_loop l en e = (f, l')"
    "g = (if ec_rem f \<ge> 0 \<or> ec_ext f > 0 then ec_enc_carry_out f 0 else f)"
    "ec_done_window g (ec_end_window g) (ec_nend_bits g) = (h, w, u)" "ec_enc_done e = ec_done_merge h l' w u"
    "ec_error f = 0" "ec_error g = 0" "ec_error h = 0"
proof -
  obtain l en where le: "ec_done_end e = (l, en)" by fastforce
  obtain f l' where fl: "ec_done_loop l en e = (f, l')" by fastforce
  define g where "g = (if ec_rem f \<ge> 0 \<or> ec_ext f > 0 then ec_enc_carry_out f 0 else f)"
  obtain h w u where hw: "ec_done_window g (ec_end_window g) (ec_nend_bits g) = (h, w, u)" by (metis prod_cases3)
  have dn: "ec_enc_done e = ec_done_merge h l' w u" using hw by (simp add: ec_enc_done_def le fl g_def Let_def)
  have he: "ec_error h = 0" using er unfolding dn by (simp add: ec_done_merge_def split: if_splits)
  have ge: "ec_error g = 0" by (rule done_window_sticky [OF hw he])
  have fe: "ec_error f = 0" using ge carry_out_sticky by (auto simp: g_def split: if_splits)
  show ?thesis by (rule that [OF le fl g_def hw dn fe ge he])
qed

lemma enc_done_back: "ec_error (ec_enc_done e) = 0 \<Longrightarrow> ec_error e = 0"
  by (erule enc_done_parts) (metis done_loop_sticky fst_conv)

lemma enc_done_step:
  assumes e: "enc_inv e" "raw_inv e" "2 ^ 23 < ec_rng e" "ec_nbits_total e < 2 ^ 31" and er: "ec_error (ec_enc_done e) = 0"
  defines "B \<equiv> ec_buf (ec_enc_done e)"
  shows "length B = ec_storage e" "inside B (enc_n e + 4, enc_low e, ec_rng e)" "raw_inside B (raw_len e) (raw_val e)"
proof -
  obtain l en f l' g h w u where le: "ec_done_end e = (l, en)" and fl: "ec_done_loop l en e = (f, l')"
    and g_def: "g = (if ec_rem f \<ge> 0 \<or> ec_ext f > 0 then ec_enc_carry_out f 0 else f)"
    and hw: "ec_done_window g (ec_end_window g) (ec_nend_bits g) = (h, w, u)" and dn: "ec_enc_done e = ec_done_merge h l' w u"
    and fe: "ec_error f = 0" and ge: "ec_error g = 0" and he: "ec_error h = 0" by (rule enc_done_parts [OF er])
  note end_of = done_end_step [OF e(1,3) le]
  have ms: "ec_error (ec_done_merge h l' w u) = 0" using er dn by simp
  have wf: "enc_wf e" using e(1) by (simp add: enc_inv_def)
  have ext: "ec_ext e + 2 < 2 ^ 32" using ext_le_n [OF wf] e(1,4) by (simp add: enc_inv_def)
  have en0: "0 \<le> en" using end_of(3) e(1) by (simp add: enc_inv_def)
  note lo = enc_inv_done_low [OF e(1) end_of(3,4,5,1,2)]
  obtain j where dd: "done_digits e l en j f" "l' = l - 8 * int j"
    using done_loop_step [OF fl fe wf end_of(1,2) en0 lo(1) end_of(5) lo(2) ext lo(3)] by blast
  note d = dd(1) [unfolded done_digits_def]
  have "enc_wf f" using d by simp
  from done_flush_step [OF this ge g_def] have g: "enc_wf g" "same_rest f g" "map uint (take (ec_offs g) (ec_buf g)) = enc_digits f"
    unfolding g_def [symmetric] by blast+
  have sg: "same_rest e g" using d g(2) same_rest_trans by blast
  have rw: "ec_end_window g = ec_end_window e" "ec_nend_bits g = ec_nend_bits e" "ec_end_offs g = ec_end_offs e" "ec_storage g = ec_storage e"
    using sg by (simp_all add: same_rest_def)
  have l: "length (ec_buf e) = ec_storage e" "length (ec_buf g) = ec_storage e" "ec_end_offs e \<le> ec_storage e"
    using wf g(1) rw by (auto simp: enc_wf_def)
  have eg: "endnum (ec_buf g) (ec_end_offs g) = endnum (ec_buf e) (ec_end_offs e)"
    unfolding rw by (rule endnum_drop) (use sg l in \<open>simp_all add: same_rest_def\<close>)
  have ri: "0 \<le> ec_nend_bits g" "0 \<le> ec_end_window g" "ec_end_window g < 2 ^ nat (ec_nend_bits g)" using e(2) rw by (auto simp: raw_inv_def)
  note st = done_window_step [OF hw he g(1) ri(2,1,3)]
  have h: "enc_wf h" "ec_offs h = ec_offs g" "take (ec_offs h) (ec_buf h) = take (ec_offs g) (ec_buf g)" "ec_storage h = ec_storage e"
    using st rw by (auto simp: same_coded_def)
  have W: "map uint (take (ec_offs h) (ec_buf h)) = enc_digits f" using h g(3) by simp
  have lh: "length (ec_buf h) = ec_storage e" "ec_offs h \<le> ec_storage e" using h(1,4) by (auto simp: enc_wf_def)
  have oh: "ec_offs h = enc_n e + j" using arg_cong [OF W, of length] lh d by (simp add: enc_n_def)
  have k: "nat u \<le> 8 * j - nat l" if "u \<le> - l'" using that dd(2) end_of(1) by linarith
  have low: "0 < ec_offs h \<and> uint (ec_buf h ! (ec_offs h - 1)) mod 2 ^ nat u = 0" if u: "0 < u" "u \<le> - l'"
  proof -
    have j: "0 < j" using u dd(2) end_of(1) by linarith
    have "nat (31 - l) = (31 - 8 * j) + nat u + (8 * j - nat l - nat u)" using k [OF u(2)] d end_of(1) by linarith
    then have "2 ^ ((31 - 8 * j) + nat u) dvd (2 :: int) ^ nat (31 - l)" by (intro le_imp_power_dvd) simp
    then have "2 ^ ((31 - 8 * j) + nat u) dvd en" using end_of(5) by (auto simp: mod_eq_0_iff_dvd dest: dvd_trans)
    moreover have "(2 :: int) ^ ((31 - 8 * j) + nat u) dvd 2 ^ 31" using st k [OF u(2)] j d by (intro le_imp_power_dvd) linarith
    ultimately have "(num (enc_digits e) * 2 ^ 31 + en) mod 2 ^ ((31 - 8 * j) + nat u) = 0" by (simp add: mod_eq_0_iff_dvd)
    moreover have "nat u \<le> 8" using st by linarith
    ultimately show ?thesis using last_digit_mod [OF W, of "31 - 8 * j" _ "nat u"] oh j lh d by simp
  qed
  have bnd: "0 \<le> w" "w < 2 ^ nat u" "0 \<le> u" "u < 8" using st by auto
  note m = done_merge_step [OF ms h(1) bnd low, folded dn, folded B_def]
  show "length B = ec_storage e" using m(1) h(4) by simp
  have rl: "8 * ec_end_offs h + nat u = raw_len e" using st rw ri(1) unfolding raw_len_def by linarith
  show "raw_inside B (raw_len e) (raw_val e)" using m(2) st eg rw unfolding raw_inside_def rl by (simp add: raw_val_def)
  obtain x where x: "num (map (byte B) [0..<enc_n e + j]) = num (enc_digits f) + x" "0 \<le> x" "x = 0 \<or> u \<le> - l' \<and> x < 2 ^ nat u"
    using m(3) unfolding oh [symmetric] W by blast
  have xk: "x < 2 ^ (8 * j - nat l)"
  proof (cases "x = 0")
    case False
    then have "x < 2 ^ nat u" "u \<le> - l'" using x(3) by auto
    moreover from this(2) have "(2 :: int) ^ nat u \<le> 2 ^ (8 * j - nat l)" by (rule k [THEN power_increasing]) simp
    ultimately show ?thesis by (rule_tac less_le_trans)
  qed simp
  have j: "j \<le> 2" "nat l \<le> 8 * j" using d end_of(1) by auto
  have nd: "num (enc_digits f) * 2 ^ (31 - 8 * j) = num (enc_digits e) * 2 ^ 31 + en" using d by simp
  have nl: "31 - nat l = nat (31 - l)" using end_of(1) by simp
  from code_final [OF j x(1,2) xk nd, unfolded nl] end_of(3,4)
  show "inside B (enc_n e + 4, enc_low e, ec_rng e)" by (simp add: enc_low_def)
qed

end
