(* ===== verification/Opus_Coder.thy ===== *)
theory Opus_Coder
  imports Opus_Range_Final
begin

text \<open>
  The range coder as its clients use it: a sequence of values written by the encoder, each with the request by which the decoder asks
  for it. The interface \<open>symbol_coder\<close> has the laws of one value; the round trip of any sequence follows inside it.
\<close>

section \<open>The interface\<close>

fun encode_all :: "('e \<Rightarrow> 'r \<Rightarrow> 'v \<Rightarrow> 'e option) \<Rightarrow> 'e \<Rightarrow> ('r \<times> 'v) list \<Rightarrow> 'e option" where
  "encode_all enc e [] = Some e"
| "encode_all enc e ((r, v) # rvs) = do { e \<leftarrow> enc e r v; encode_all enc e rvs }"

fun decode_all :: "('d \<Rightarrow> 'r \<Rightarrow> ('d \<times> 'v) option) \<Rightarrow> 'd \<Rightarrow> 'r list \<Rightarrow> ('d \<times> 'v list) option" where
  "decode_all dec d [] = Some (d, [])"
| "decode_all dec d (r # rs) = do { (d, v) \<leftarrow> dec d r; (d, vs) \<leftarrow> decode_all dec d rs; Some (d, v # vs) }"

locale symbol_coder =
  fixes enc :: "'e \<Rightarrow> 'r \<Rightarrow> 'v \<Rightarrow> 'e option" and dec :: "'d \<Rightarrow> 'r \<Rightarrow> ('d \<times> 'v) option" and valid :: "'r \<Rightarrow> 'v \<Rightarrow> bool"
    and ready :: "'e \<Rightarrow> bool" and ok :: "'e \<Rightarrow> bool" and inv :: "'e \<Rightarrow> bool" and holds :: "'b \<Rightarrow> 'e \<Rightarrow> bool" and agree :: "'b \<Rightarrow> 'e \<Rightarrow> 'd \<Rightarrow> bool"
  assumes total: "ready e \<Longrightarrow> valid r v \<Longrightarrow> \<exists>f. enc e r v = Some f \<and> ready f"
    and ok_back: "valid r v \<Longrightarrow> enc e r v = Some f \<Longrightarrow> ok f \<Longrightarrow> ok e"
    and step: "inv e \<Longrightarrow> valid r v \<Longrightarrow> enc e r v = Some f \<Longrightarrow> ok f \<Longrightarrow> inv f \<and> (\<forall>b. holds b f \<longrightarrow> holds b e)"
    and follow: "inv e \<Longrightarrow> valid r v \<Longrightarrow> enc e r v = Some f \<Longrightarrow> ok f \<Longrightarrow> holds b f \<Longrightarrow> agree b e d \<Longrightarrow> \<exists>d'. dec d r = Some (d', v) \<and> agree b f d'"
begin

lemma encode_all_total:
  assumes "ready e" "\<forall>(r, v) \<in> set rvs. valid r v"
  shows "\<exists>f. encode_all enc e rvs = Some f \<and> ready f"
  using assms
proof (induction rvs arbitrary: e)
  case (Cons rv rvs)
  obtain r v where rv: "rv = (r, v)" by fastforce
  from total [OF Cons(2), of r v] Cons(3) rv obtain f where "enc e r v = Some f" "ready f" by auto
  then show ?case using Cons(1) [of f] Cons(3) rv by simp
qed simp

lemma encode_all_ok_back: "\<forall>(r, v) \<in> set rvs. valid r v \<Longrightarrow> encode_all enc e rvs = Some f \<Longrightarrow> ok f \<Longrightarrow> ok e"
proof (induction rvs arbitrary: e)
  case (Cons rv rvs)
  obtain r v where rv: "rv = (r, v)" by fastforce
  then obtain g where g: "enc e r v = Some g" "encode_all enc g rvs = Some f" using Cons(3) by (auto simp: bind_eq_Some_conv)
  then have "ok g" using Cons(1) [of g] Cons(2,4) by simp
  then show ?case using ok_back [OF _ g(1)] Cons(2) rv by simp
qed simp

lemma encode_all_step:
  assumes "inv e" "\<forall>(r, v) \<in> set rvs. valid r v" "encode_all enc e rvs = Some f" "ok f"
  shows "inv f \<and> (\<forall>b. holds b f \<longrightarrow> holds b e \<and> (\<forall>d. agree b e d \<longrightarrow> (\<exists>d'. decode_all dec d (map fst rvs) = Some (d', map snd rvs) \<and> agree b f d')))"
  using assms
proof (induction rvs arbitrary: e)
  case (Cons rv rvs)
  obtain r v where rv: "rv = (r, v)" by fastforce
  then obtain g where g: "enc e r v = Some g" "encode_all enc g rvs = Some f" using Cons(4) by (auto simp: bind_eq_Some_conv)
  have ok: "ok g" using encode_all_ok_back [OF _ g(2) Cons(5)] Cons(3) by simp
  have v: "valid r v" using Cons(3) rv by simp
  have s: "inv g" "holds b g \<Longrightarrow> holds b e" for b using step [OF Cons(2) v g(1) ok] by auto
  note ih = Cons(1) [OF s(1) _ g(2) Cons(5)]
  show ?case
  proof (intro conjI allI impI)
    show "inv f" using ih Cons(3) by simp
    fix b assume hf: "holds b f"
    then have hg: "holds b g" using ih Cons(3) by simp
    then show "holds b e" by (rule s(2))
    fix d assume "agree b e d"
    from follow [OF Cons(2) v g(1) ok hg this] obtain d1 where d1: "dec d r = Some (d1, v)" "agree b g d1" by blast
    moreover have "\<forall>d. agree b g d \<longrightarrow> (\<exists>d'. decode_all dec d (map fst rvs) = Some (d', map snd rvs) \<and> agree b f d')" using ih Cons(3) hf by simp
    ultimately obtain d' where "decode_all dec d1 (map fst rvs) = Some (d', map snd rvs)" "agree b f d'" by blast
    then show "\<exists>d'. decode_all dec d (map fst (rv # rvs)) = Some (d', map snd (rv # rvs)) \<and> agree b f d'" using d1(1) rv by simp
  qed
qed simp

end

section \<open>The operations of the range coder\<close>

text \<open>
  What a client asks of the decoder, and what the encoder is given. After \<open>ec_decode\<close> the client finds the symbol whose frequencies
  enclose the number returned; that search is the function of the request.
\<close>

datatype ec_request = Ask_symbol int "int \<Rightarrow> int \<times> int" | Ask_binary nat "int \<Rightarrow> int \<times> int" | Ask_bit nat | Ask_icdf "int list" nat | Ask_bits nat | Ask_uint int

datatype ec_value = Symbol int int | Bit bool | Index nat | Number int

fun encode_value :: "ec_ctx \<Rightarrow> ec_request \<Rightarrow> ec_value \<Rightarrow> ec_ctx option" where
  "encode_value e (Ask_symbol ft look) (Symbol fl fh) = ec_encode e fl fh ft"
| "encode_value e (Ask_binary bits look) (Symbol fl fh) = ec_encode_bin e fl fh bits"
| "encode_value e (Ask_bit logp) (Bit v) = ec_enc_bit_logp e v logp"
| "encode_value e (Ask_icdf icdf ftb) (Index s) = ec_enc_icdf e s icdf ftb"
| "encode_value e (Ask_bits bits) (Number x) = Some (ec_enc_bits e x bits)"
| "encode_value e (Ask_uint ft) (Number x) = ec_enc_uint e x ft"
| "encode_value e _ _ = None"

fun decode_value :: "ec_ctx \<Rightarrow> ec_request \<Rightarrow> (ec_ctx \<times> ec_value) option" where
  "decode_value d (Ask_symbol ft look) =
     (let (d, x) = ec_decode d ft; (fl, fh) = look x in do { d \<leftarrow> ec_dec_update d fl fh ft; Some (d, Symbol fl fh) })"
| "decode_value d (Ask_binary bits look) =
     (let (d, x) = ec_decode_bin d bits; (fl, fh) = look x in do { d \<leftarrow> ec_dec_update d fl fh (2 ^ bits); Some (d, Symbol fl fh) })"
| "decode_value d (Ask_bit logp) = do { (d, v) \<leftarrow> ec_dec_bit_logp d logp; Some (d, Bit v) }"
| "decode_value d (Ask_icdf icdf ftb) = do { (d, s) \<leftarrow> ec_dec_icdf d icdf ftb; Some (d, Index s) }"
| "decode_value d (Ask_bits bits) = (let (d, x) = ec_dec_bits d bits in Some (d, Number x))"
| "decode_value d (Ask_uint ft) = do { (d, x) \<leftarrow> ec_dec_uint d ft; Some (d, Number x) }"

text \<open>The frequencies of a symbol lie below the total, and the client's search finds the symbol from every number in its part.\<close>

definition found :: "(int \<Rightarrow> int \<times> int) \<Rightarrow> int \<Rightarrow> int \<Rightarrow> bool" where
  "found look fl fh \<longleftrightarrow> list_all (\<lambda>x. look x = (fl, fh)) [fl..fh - 1]"

fun valid_value :: "ec_request \<Rightarrow> ec_value \<Rightarrow> bool" where
  "valid_value (Ask_symbol ft look) (Symbol fl fh) \<longleftrightarrow> 0 \<le> fl \<and> fl < fh \<and> fh \<le> ft \<and> ft \<le> 2 ^ 23 \<and> found look fl fh"
| "valid_value (Ask_binary bits look) (Symbol fl fh) \<longleftrightarrow> 0 \<le> fl \<and> fl < fh \<and> fh \<le> 2 ^ bits \<and> bits \<le> 23 \<and> found look fl fh"
| "valid_value (Ask_bit logp) (Bit v) \<longleftrightarrow> 0 < logp \<and> logp \<le> 23"
| "valid_value (Ask_icdf icdf ftb) (Index s) \<longleftrightarrow> valid_icdf icdf ftb \<and> icdf_symbol s icdf ftb \<and> ftb \<le> 23"
| "valid_value (Ask_bits bits) (Number x) \<longleftrightarrow> bits \<le> 25 \<and> 0 \<le> x \<and> x < 2 ^ bits"
| "valid_value (Ask_uint ft) (Number x) \<longleftrightarrow> 1 < ft \<and> ft < 2 ^ 32 \<and> 0 \<le> x \<and> x < ft"
| "valid_value _ _ \<longleftrightarrow> False"

section \<open>Encoding returns\<close>

definition coder_ready :: "ec_ctx \<Rightarrow> bool" where
  "coder_ready e \<longleftrightarrow> 2 ^ 23 < ec_rng e \<and> ec_rng e \<le> 2 ^ 31"

lemma enc_normalize_ready:
  assumes "0 < ec_rng e" "ec_rng e \<le> 2 ^ 31"
  shows "\<exists>f. ec_enc_normalize e = Some f \<and> coder_ready f"
  using assms
proof (induction rule: rng_induct)
  case (step e)
  show ?case
  proof (cases "ec_rng e \<le> 2 ^ 23")
    case True
    have "ec_rng (enc_shift e) \<le> 2 ^ 31" using enc_shift_frame(1) [OF step(1) True] True by simp
    then show ?thesis using step(2) [OF True] True by (simp add: enc_normalize_simps [of e])
  qed (use step(3) in \<open>simp add: enc_normalize_simps [of e] coder_ready_def\<close>)
qed

lemma span_ready:
  assumes "valid_span rng (span rng r first a b)" "rng \<le> 2 ^ 31"
  shows "0 < (if \<not> first then w32 (r * (a - b)) else w32 (rng - w32 (r * b)))" "(if \<not> first then w32 (r * (a - b)) else w32 (rng - w32 (r * b))) \<le> 2 ^ 31"
proof -
  have "(if \<not> first then w32 (r * (a - b)) else w32 (rng - w32 (r * b))) = fst (span rng r first a b) - snd (span rng r first a b)"
    using assms by (auto simp: valid_span_def span_def w32_id right_diff_distrib)
  then show "0 < (if \<not> first then w32 (r * (a - b)) else w32 (rng - w32 (r * b)))" "(if \<not> first then w32 (r * (a - b)) else w32 (rng - w32 (r * b))) \<le> 2 ^ 31"
    using assms by (simp_all add: valid_span_def)
qed

lemma pow23: "k \<le> 23 \<Longrightarrow> (2 :: int) ^ k \<le> 2 ^ 23"
  by (rule power_increasing) simp_all

lemma encode_ready:
  assumes "coder_ready e" "0 \<le> fl" "fl < fh" "fh \<le> ft" "ft \<le> 2 ^ 23"
  shows "\<exists>f. ec_encode e fl fh ft = Some f \<and> coder_ready f"
proof -
  have "valid_span (ec_rng e) (sym_span (ec_rng e) fl fh ft)" using assms by (intro sym_span_valid) (auto simp: coder_ready_def)
  from span_ready [OF this [unfolded sym_span_def]] assms(1,2) show ?thesis
    unfolding ec_encode_def Let_def celt_udiv_def by (intro enc_normalize_ready) (auto simp: coder_ready_def)
qed

text \<open>A uniform integer is the high part of at most 8 bits, coded as a symbol, and the rest as raw bits.\<close>

lemma uint_split:
  assumes "1 < ft" "ft < 2 ^ 32" "0 \<le> x" "x < ft" "8 < EC_ILOG (ft - 1)"
  defines "k \<equiv> nat (EC_ILOG (ft - 1) - 8)"
  shows "k \<le> 24" "0 \<le> x div 2 ^ k" "x div 2 ^ k + 1 \<le> (ft - 1) div 2 ^ k + 1" "(ft - 1) div 2 ^ k + 1 \<le> 2 ^ 23" "0 \<le> x mod 2 ^ k" "x mod 2 ^ k < 2 ^ k"
proof -
  have f: "0 < ft - 1" "ft - 1 < 2 ^ 32" using assms(1,2) by auto
  have "EC_ILOG (ft - 1) \<le> 32" using EC_ILOG_le [OF f] by simp
  then show "k \<le> 24" by (simp add: k_def)
  show "0 \<le> x div 2 ^ k" using assms(3) by (simp add: pos_imp_zdiv_nonneg_iff)
  show "x div 2 ^ k + 1 \<le> (ft - 1) div 2 ^ k + 1" using assms(4) by (simp add: zdiv_mono1)
  have "nat (EC_ILOG (ft - 1)) = k + 8" using assms(5) by (simp add: k_def)
  then have "(ft - 1) div 2 ^ k < 2 ^ 8" using EC_ILOG_bounds [OF f(1)] by (intro div_less_pow) simp
  then show "(ft - 1) div 2 ^ k + 1 \<le> 2 ^ 23" by simp
qed simp_all

lemma enc_bits_rng: "ec_rng (ec_enc_bits e x bits) = ec_rng e"
proof -
  have w: "ec_rng (ec_or_error (ec_write_byte_at_end e v)) = ec_rng e" for e v by (simp add: ec_or_error_def ec_write_byte_at_end_def)
  have "ec_rng (fst (ec_flush_window e w u)) = ec_rng e" for e w u
    by (induction e w u rule: ec_flush_window.induct) (subst ec_flush_window.simps, simp add: Let_def w)
  from this [of e "ec_end_window e" "ec_nend_bits e"] show ?thesis by (auto simp: ec_enc_bits_def Let_def split: prod.splits)
qed

lemma encode_uint_eq:
  "ec_enc_uint e x ft = (if 8 < EC_ILOG (ft - 1) then
     let k = nat (EC_ILOG (ft - 1) - 8)
     in do { e \<leftarrow> ec_encode e (x div 2 ^ k) (x div 2 ^ k + 1) ((ft - 1) div 2 ^ k + 1); Some (ec_enc_bits e (x mod 2 ^ k) k) }
   else ec_encode e x (x + 1) ft)"
  by (simp add: ec_enc_uint_def Let_def)

lemma uint_small: "1 < ft \<Longrightarrow> \<not> 8 < EC_ILOG (ft - 1) \<Longrightarrow> ft \<le> 2 ^ 23"
proof -
  assume a: "1 < ft" "\<not> 8 < EC_ILOG (ft - 1)"
  have "(2 :: int) ^ nat (EC_ILOG (ft - 1)) \<le> 2 ^ 8" using a(2) by (intro power_increasing) auto
  then show ?thesis using EC_ILOG_bounds [of "ft - 1"] a(1) by simp
qed

lemma encode_value_total:
  assumes "coder_ready e" "valid_value r v"
  shows "\<exists>f. encode_value e r v = Some f \<and> coder_ready f"
  using assms
proof (induction e r v rule: encode_value.induct)
  case (1 e ft look fl fh)
  then show ?case by (simp add: encode_ready)
next
  case (2 e bits look fl fh)
  then show ?case by (simp add: encode_bin_eq encode_ready pow23 [simplified])
next
  case (3 e logp v)
  have l: "0 < logp" "2 ^ logp \<le> ec_rng e" using 3 pow23 [of logp] by (auto simp: coder_ready_def)
  have "0 < ec_rng e div 2 ^ logp" "ec_rng e div 2 ^ logp < ec_rng e"
    using bit_span_valid [OF l, of True] bit_span_valid [OF l, of False] by (auto simp: valid_span_def bit_span_def)
  then have "w32 (ec_rng e - ec_rng e div 2 ^ logp) = ec_rng e - ec_rng e div 2 ^ logp" using 3(1) by (intro w32_id) (auto simp: coder_ready_def)
  then show ?case using \<open>0 < ec_rng e div 2 ^ logp\<close> \<open>ec_rng e div 2 ^ logp < ec_rng e\<close> 3(1)
    unfolding encode_value.simps ec_enc_bit_logp_def Let_def by (intro enc_normalize_ready) (auto simp: coder_ready_def)
next
  case (4 e icdf ftb s)
  have "valid_span (ec_rng e) (icdf_span (ec_rng e) s icdf ftb)"
    using 4 pow23 [of ftb] by (intro icdf_span_valid) (auto simp: coder_ready_def)
  from span_ready [OF this [unfolded icdf_span_def]] 4(1) show ?case
    unfolding encode_value.simps ec_enc_icdf_def Let_def by (intro enc_normalize_ready) (auto simp: coder_ready_def nth_Cons' split: if_splits)
next
  case (5 e bits x)
  then show ?case by (simp add: coder_ready_def enc_bits_rng)
next
  case (6 e ft x)
  show ?case
  proof (cases "8 < EC_ILOG (ft - 1)")
    case True
    have u: "1 < ft" "ft < 2 ^ 32" "0 \<le> x" "x < ft" using 6(2) by simp_all
    note s = uint_split [OF u True]
    from encode_ready [OF 6(1) s(2) _ s(3,4)] show ?thesis using True by (auto simp: encode_uint_eq coder_ready_def enc_bits_rng Let_def)
  next
    case False
    then show ?thesis using encode_ready [OF 6(1), of x "x + 1" ft] 6(2) uint_small [OF _ False] by (simp add: encode_uint_eq)
  qed
qed simp_all

section \<open>An error stays\<close>

definition coder_ok :: "ec_ctx \<Rightarrow> bool" where
  "coder_ok e \<longleftrightarrow> ec_error e = 0 \<and> ec_nbits_total e < 2 ^ 31"

lemma enc_normalize_back:
  assumes "ec_enc_normalize e = Some f"
  shows "(ec_error f = 0 \<longrightarrow> ec_error e = 0) \<and> ec_nbits_total e \<le> ec_nbits_total f"
proof (rule ec_enc_normalize.raw_induct [OF _ assms])
  fix normalize e f
  assume ih: "\<And>e f. normalize e = Some f \<Longrightarrow> (ec_error f = 0 \<longrightarrow> ec_error e = 0) \<and> ec_nbits_total e \<le> ec_nbits_total f"
    and eq: "(if ec_rng e \<le> 2 ^ 23 then
       let e = ec_enc_carry_out e (ec_val e div 2 ^ 23)
       in normalize (e\<lparr>ec_val := w32 (ec_val e * 2 ^ 8) mod 2 ^ 31, ec_rng := w32 (ec_rng e * 2 ^ 8), ec_nbits_total := ec_nbits_total e + 8\<rparr>)
     else Some e) = Some f"
  show "(ec_error f = 0 \<longrightarrow> ec_error e = 0) \<and> ec_nbits_total e \<le> ec_nbits_total f"
  proof (cases "ec_rng e \<le> 2 ^ 23")
    case True
    define g where "g = ec_enc_carry_out e (ec_val e div 2 ^ 23)"
    have "normalize (g\<lparr>ec_val := w32 (ec_val g * 2 ^ 8) mod 2 ^ 31, ec_rng := w32 (ec_rng g * 2 ^ 8), ec_nbits_total := ec_nbits_total g + 8\<rparr>) = Some f"
      using eq True by (simp add: g_def Let_def)
    from ih [OF this] have "ec_error f = 0 \<longrightarrow> ec_error g = 0" "ec_nbits_total e \<le> ec_nbits_total f"
      by (simp_all add: g_def carry_out_nbits)
    then show ?thesis using carry_out_sticky [of e "ec_val e div 2 ^ 23"] unfolding g_def by blast
  qed (use eq in simp)
qed

lemma enc_bits_back: "(ec_error (ec_enc_bits e x bits) = 0 \<longrightarrow> ec_error e = 0) \<and> ec_nbits_total e \<le> ec_nbits_total (ec_enc_bits e x bits)"
proof -
  have w: "ec_nbits_total (ec_or_error (ec_write_byte_at_end e v)) = ec_nbits_total e" for e v by (simp add: ec_or_error_def ec_write_byte_at_end_def)
  have n: "ec_nbits_total (fst (ec_flush_window e w u)) = ec_nbits_total e" for e w u
    by (induction e w u rule: ec_flush_window.induct) (subst ec_flush_window.simps, simp add: Let_def w)
  obtain g v u where g: "ec_flush_window e (ec_end_window e) (ec_nend_bits e) = (g, v, u)" by (metis prod_cases3)
  show ?thesis using flush_window_sticky [OF g] n [of e "ec_end_window e" "ec_nend_bits e"] g by (auto simp: ec_enc_bits_def Let_def)
qed

lemma encode_back: "ec_encode e fl fh ft = Some f \<Longrightarrow> (ec_error f = 0 \<longrightarrow> ec_error e = 0) \<and> ec_nbits_total e \<le> ec_nbits_total f"
  by (auto simp: ec_encode_def Let_def split: if_splits dest!: enc_normalize_back)

lemma encode_value_back:
  assumes "encode_value e r v = Some f" "coder_ok f"
  shows "coder_ok e"
proof -
  have "(ec_error f = 0 \<longrightarrow> ec_error e = 0) \<and> ec_nbits_total e \<le> ec_nbits_total f"
    using assms(1)
  proof (induction e r v rule: encode_value.induct)
    case (6 e ft x)
    then show ?case using enc_bits_back
      by (auto simp: encode_uint_eq Let_def bind_eq_Some_conv split: if_splits dest!: encode_back) (meson order_trans)+
  qed (use enc_bits_back in \<open>auto simp: encode_bin_eq ec_enc_bit_logp_def ec_enc_icdf_def Let_def split: if_splits dest!: encode_back enc_normalize_back\<close>)
  then show ?thesis using assms(2) by (auto simp: coder_ok_def)
qed

end
