(* ===== verification/Opus_Coder_Sync.thy ===== *)
theory Opus_Coder_Sync
  imports Opus_Coder
begin

text \<open>
  Encoder and decoder in step: the decoder, started on the finished buffer, is at every value in the interval and at the raw bit where
  the encoder was. This discharges the laws of \<open>symbol_coder\<close> for the range coder.
\<close>

definition coder_inv :: "ec_ctx \<Rightarrow> bool" where
  "coder_inv e \<longleftrightarrow> enc_inv e \<and> raw_inv e \<and> 2 ^ 23 < ec_rng e"

text \<open>The interval as the decoder counts it: it holds four bytes more than the encoder has put out.\<close>

definition dec_iv :: "ec_ctx \<Rightarrow> interval" where "dec_iv e = (enc_n e + 4, enc_low e, ec_rng e)"

definition coder_holds :: "bytes \<Rightarrow> ec_ctx \<Rightarrow> bool" where
  "coder_holds B e \<longleftrightarrow> inside B (dec_iv e) \<and> raw_inside B (raw_len e) (raw_val e)"

definition coder_agree :: "bytes \<Rightarrow> ec_ctx \<Rightarrow> ec_ctx \<Rightarrow> bool" where
  "coder_agree B e d \<longleftrightarrow> dec_sync B (dec_iv e) d \<and> dec_raw B (raw_len e) d \<and> ec_nbits_total d = ec_nbits_total e \<and> ec_error d = 0"

lemma renorm_add: "renorm (n + k, low, rng) = (fst (renorm (n, low, rng)) + k, snd (renorm (n, low, rng)))"
proof (induction "(n, low, rng)" arbitrary: n low rng rule: renorm.induct)
  case (1 n low rng)
  show ?case
  proof (cases "0 < rng \<and> rng \<le> 2 ^ 23")
    case True
    then show ?thesis using 1 [OF True] by (simp add: renorm.simps [of n low rng] renorm.simps [of "n + k" low rng])
  next
    case False
    then have "renorm (m, low, rng) = (m, low, rng)" for m by (subst renorm.simps) (simp only: if_False)
    then show ?thesis by simp
  qed
qed

lemma dec_iv_renorm:
  assumes "enc_iv f = renorm (narrow (enc_iv e) t s)"
  shows "dec_iv f = renorm (narrow (dec_iv e) t s)"
proof -
  have r: "renorm (enc_n e, enc_low e + ec_rng e - t, t - s) = (enc_n f, enc_low f, ec_rng f)" using assms by (simp add: enc_iv_def narrow_def)
  show ?thesis using renorm_add [of "enc_n e" 4 "enc_low e + ec_rng e - t" "t - s"] unfolding r by (simp add: dec_iv_def narrow_def)
qed

text \<open>One narrowing, on both sides.\<close>

lemma same_raw_val:
  assumes "same_raw e f" "enc_wf e" "enc_wf f" "raw_inv e"
  shows "raw_inv f" "raw_len f = raw_len e" "raw_val f = raw_val e"
proof -
  show l: "raw_len f = raw_len e" using assms(1) by (simp add: same_raw_def raw_len_def)
  show "raw_inv f" using assms(1,4) l by (auto simp: same_raw_def raw_inv_def)
  have "endnum (ec_buf f) (ec_end_offs e) = endnum (ec_buf e) (ec_end_offs e)"
    by (rule endnum_drop) (use assms(1-3) in \<open>auto simp: same_raw_def enc_wf_def\<close>)
  then show "raw_val f = raw_val e" using assms(1) by (simp add: same_raw_def raw_val_def)
qed

lemma narrow_both:
  assumes "coder_inv e" "valid_span (ec_rng e) (t, s)" "enc_narrow e t s = Some f" "coder_ok f"
  shows "coder_inv f" "coder_holds B f \<Longrightarrow> coder_holds B e \<and> inside B (narrow (dec_iv e) t s)"
    "coder_holds B f \<Longrightarrow> coder_agree B e d \<Longrightarrow> dec_moves B (dec_iv e) d (renorm (narrow (dec_iv e) t s)) d' \<Longrightarrow> coder_agree B f d'"
proof -
  have v: "0 \<le> s" "s < t" "t \<le> ec_rng e" and i: "enc_inv e" "raw_inv e" using assms(1,2) by (auto simp: valid_span_def coder_inv_def)
  have ok: "ec_error f = 0" "ec_nbits_total f < 2 ^ 31" using assms(4) by (simp_all add: coder_ok_def)
  note st = enc_narrow_step [OF i(1) v assms(3) ok]
  have wf: "enc_wf e" "enc_wf f" using i(1) st(1) by (simp_all add: enc_inv_def)
  note rw = same_raw_val [OF st(4) wf i(2)]
  show "coder_inv f" using st rw by (simp add: coder_inv_def)
  note iv = dec_iv_renorm [OF st(3)]
  have p: "0 < fst (narrow (dec_iv e) t s)" by (simp add: narrow_def dec_iv_def)
  have hi: "inside B (narrow (dec_iv e) t s)" if "coder_holds B f" using that inside_renorm [OF p] by (simp add: coder_holds_def iv)
  then show "coder_holds B f \<Longrightarrow> coder_holds B e \<and> inside B (narrow (dec_iv e) t s)"
    using inside_narrow [OF _ v(1), of B "dec_iv e" t] v(3) rw st(4) by (auto simp: coder_holds_def dec_iv_def same_raw_def)
  assume h: "coder_holds B f" and a: "coder_agree B e d" and m: "dec_moves B (dec_iv e) d (renorm (narrow (dec_iv e) t s)) d'"
  have "ec_nbits_total f - 8 * int (enc_n f) = ec_nbits_total e - 8 * int (enc_n e)" using st(4) by (simp add: same_raw_def)
  moreover have "fst (dec_iv e) = enc_n e + 4" "fst (dec_iv f) = enc_n f + 4" by (simp_all add: dec_iv_def)
  ultimately show "coder_agree B f d'" using m a rw unfolding iv [symmetric] dec_moves_def coder_agree_def dec_same_raw_def dec_raw_def
    by simp
qed

lemma agree_rng: "coder_agree B e d \<Longrightarrow> ec_rng d = ec_rng e"
  by (simp add: coder_agree_def dec_sync_def dec_iv_def)

text \<open>One value on both sides: the encoder keeps its invariant, and the decoder answers with the value.\<close>

definition value_both :: "ec_ctx \<Rightarrow> ec_request \<Rightarrow> ec_value \<Rightarrow> ec_ctx \<Rightarrow> bool" where
  "value_both e r v f \<longleftrightarrow> coder_inv f \<and> (\<forall>B. coder_holds B f \<longrightarrow> coder_holds B e \<and>
     (\<forall>d. coder_agree B e d \<longrightarrow> (\<exists>d'. decode_value d r = Some (d', v) \<and> coder_agree B f d')))"

lemma found_eq: "found look fl fh \<Longrightarrow> fl \<le> x \<Longrightarrow> x < fh \<Longrightarrow> look x = (fl, fh)"
  by (auto simp: found_def list_all_iff)

lemma value_bothI:
  assumes "coder_inv e" "valid_span (ec_rng e) (t, s)" "enc_narrow e t s = Some f" "coder_ok f"
    "\<And>B d. coder_agree B e d \<Longrightarrow> inside B (narrow (dec_iv e) t s) \<Longrightarrow> dec_sync B (dec_iv e) d \<Longrightarrow> ec_rng d = ec_rng e \<Longrightarrow>
      \<exists>d'. decode_value d r = Some (d', v) \<and> dec_moves B (dec_iv e) d (renorm (narrow (dec_iv e) t s)) d'"
  shows "value_both e r v f"
  unfolding value_both_def
proof (intro conjI allI impI)
  note n = narrow_both [OF assms(1-4)]
  show "coder_inv f" by (rule n(1))
  fix B assume h: "coder_holds B f"
  then show "coder_holds B e" using n(2) by blast
  fix d assume a: "coder_agree B e d"
  have "dec_sync B (dec_iv e) d" using a by (simp add: coder_agree_def)
  from assms(5) [OF a _ this agree_rng [OF a]] n(2) [OF h] obtain d' where
    "decode_value d r = Some (d', v)" "dec_moves B (dec_iv e) d (renorm (narrow (dec_iv e) t s)) d'" by blast
  then show "\<exists>d'. decode_value d r = Some (d', v) \<and> coder_agree B f d'" using n(3) [OF h a] by blast
qed

lemma symbol_both:
  assumes "coder_inv e" "0 \<le> fl" "fl < fh" "fh \<le> ft" "ft \<le> 2 ^ 23" "found look fl fh" "ec_encode e fl fh ft = Some f" "coder_ok f"
  shows "value_both e (Ask_symbol ft look) (Symbol fl fh) f"
proof -
  have rng: "ft \<le> ec_rng e" "enc_inv e" using assms(1,5) by (auto simp: coder_inv_def)
  obtain t s where ts: "sym_span (ec_rng e) fl fh ft = (t, s)" by fastforce
  have v: "valid_span (ec_rng e) (t, s)" using sym_span_valid [OF assms(2-4) rng(1)] ts by simp
  have "enc_narrow e t s = Some f" using assms(7) encode_span [OF rng(2) assms(2-4) rng(1)] ts by simp
  then show ?thesis
  proof (rule value_bothI [OF assms(1) v _ assms(8)])
    fix B d assume i: "inside B (narrow (dec_iv e) t s)" and d: "dec_sync B (dec_iv e) d" "ec_rng d = ec_rng e"
    have "\<exists>x d'. ec_decode d ft = (d\<lparr>ec_ext := ec_rng d div ft\<rparr>, x) \<and> fl \<le> x \<and> x < fh \<and>
      ec_dec_update (d\<lparr>ec_ext := ec_rng d div ft\<rparr>) fl fh ft = Some d' \<and> dec_moves B (dec_iv e) d (renorm (narrow (dec_iv e) t s)) d'"
      using decode_step [OF d(1) assms(2-4) _ _ i] rng(1) ts d(2) by simp
    then show "\<exists>d'. decode_value d (Ask_symbol ft look) = Some (d', Symbol fl fh) \<and> dec_moves B (dec_iv e) d (renorm (narrow (dec_iv e) t s)) d'"
      using found_eq [OF assms(6)] by auto
  qed
qed

lemma binary_symbol: "decode_value d (Ask_binary bits look) = decode_value d (Ask_symbol (2 ^ bits) look)"
  by (simp add: decode_bin_eq)

lemma bit_both:
  assumes "coder_inv e" "0 < logp" "logp \<le> 23" "ec_enc_bit_logp e v logp = Some f" "coder_ok f"
  shows "value_both e (Ask_bit logp) (Bit v) f"
proof -
  have rng: "2 ^ logp \<le> ec_rng e" "enc_inv e" using assms(1) pow23 [OF assms(3)] by (auto simp: coder_inv_def)
  obtain t s where ts: "bit_span (ec_rng e) v logp = (t, s)" by fastforce
  have vs: "valid_span (ec_rng e) (t, s)" using bit_span_valid [OF assms(2) rng(1)] ts by metis
  have "enc_narrow e t s = Some f" using assms(4) enc_bit_span [OF rng(2) assms(2) rng(1)] ts by simp
  then show ?thesis
  proof (rule value_bothI [OF assms(1) vs _ assms(5)])
    fix B d assume i: "inside B (narrow (dec_iv e) t s)" and d: "dec_sync B (dec_iv e) d" "ec_rng d = ec_rng e"
    show "\<exists>d'. decode_value d (Ask_bit logp) = Some (d', Bit v) \<and> dec_moves B (dec_iv e) d (renorm (narrow (dec_iv e) t s)) d'"
      using dec_bit_step [OF d(1) assms(2) _ _ i, of v] rng(1) ts d(2) by auto
  qed
qed

lemma icdf_both:
  assumes "coder_inv e" "valid_icdf icdf ftb" "icdf_symbol y icdf ftb" "ftb \<le> 23" "ec_enc_icdf e y icdf ftb = Some f" "coder_ok f"
  shows "value_both e (Ask_icdf icdf ftb) (Index y) f"
proof -
  have rng: "2 ^ ftb \<le> ec_rng e" "enc_inv e" using assms(1) pow23 [OF assms(4)] by (auto simp: coder_inv_def)
  obtain t s where ts: "icdf_span (ec_rng e) y icdf ftb = (t, s)" by fastforce
  have vs: "valid_span (ec_rng e) (t, s)" using icdf_span_valid [OF assms(2,3) rng(1)] ts by simp
  have "enc_narrow e t s = Some f" using assms(5) enc_icdf_span [OF rng(2) assms(2,3) rng(1)] ts by simp
  then show ?thesis
  proof (rule value_bothI [OF assms(1) vs _ assms(6)])
    fix B d assume i: "inside B (narrow (dec_iv e) t s)" and d: "dec_sync B (dec_iv e) d" "ec_rng d = ec_rng e"
    show "\<exists>d'. decode_value d (Ask_icdf icdf ftb) = Some (d', Index y) \<and> dec_moves B (dec_iv e) d (renorm (narrow (dec_iv e) t s)) d'"
      using dec_icdf_step [OF d(1) assms(2,3) _ _ i] rng(1) ts d(2) by auto
  qed
qed

lemma bits_both:
  assumes "coder_inv e" "bits \<le> 25" "0 \<le> x" "x < 2 ^ bits" "coder_ok (ec_enc_bits e x bits)"
  shows "value_both e (Ask_bits bits) (Number x) (ec_enc_bits e x bits)"
proof -
  define f where "f = ec_enc_bits e x bits"
  have i: "enc_inv e" "raw_inv e" "enc_wf e" using assms(1) by (auto simp: coder_inv_def enc_inv_def)
  have er: "ec_error (ec_enc_bits e x bits) = 0" using assms(5) by (simp add: coder_ok_def)
  note st = enc_bits_step [OF i(3,2) assms(3,4,2) er, folded f_def]
  have n: "enc_n f = enc_n e" using st(5) by (simp add: enc_n_def)
  have iv: "dec_iv f = dec_iv e" using st(5) n by (simp add: dec_iv_def enc_low_def)
  have "enc_inv f" using i(1) st(5) er n by (auto simp: enc_inv_def f_def)
  then have inv: "coder_inv f" using st assms(1) by (simp add: coder_inv_def)
  note b = raw_val_bounds [OF i(2)]
  have rb: "raw_inside B (raw_len e) (raw_val e)" "(endall B div 2 ^ raw_len e) mod 2 ^ bits = x" if "coder_holds B f" for B
    using raw_inside_back [of B "raw_len e" bits "raw_val e" x] that st(3,4) b assms(3,4) by (simp_all add: coder_holds_def)
  show ?thesis unfolding f_def [symmetric] value_both_def
  proof (intro conjI allI impI)
    fix B assume h: "coder_holds B f"
    then show "coder_holds B e" using rb(1) st(5) by (simp add: coder_holds_def iv)
    fix d assume a: "coder_agree B e d"
    then show "\<exists>d'. decode_value d (Ask_bits bits) = Some (d', Number x) \<and> coder_agree B f d'"
      using dec_bits_step [of B "dec_iv e" d "raw_len e" bits] assms(2) rb(2) [OF h] st(3,5) by (auto simp: coder_agree_def iv)
  qed (rule inv)
qed

lemma uint_join:
  assumes "0 \<le> x" "x < 2 ^ 32"
  shows "(w32 (x div 2 ^ k * 2 ^ k) OR x mod 2 ^ k) = x"
proof -
  have "x div 2 ^ k * 2 ^ k = x - x mod 2 ^ k" by (simp add: minus_mod_eq_div_mult)
  moreover have "0 \<le> x mod 2 ^ k" by simp
  ultimately have "x div 2 ^ k * 2 ^ k < 2 ^ 32" using assms(2) by linarith
  moreover have "0 \<le> x div 2 ^ k * 2 ^ k" using assms(1) by (simp add: pos_imp_zdiv_nonneg_iff)
  ultimately have "w32 (x div 2 ^ k * 2 ^ k) = x div 2 ^ k * 2 ^ k" by (rule w32_id [rotated])
  then have "(w32 (x div 2 ^ k * 2 ^ k) OR x mod 2 ^ k) = x mod 2 ^ k + x div 2 ^ k * 2 ^ k"
    using or_pow [of "x mod 2 ^ k" k "x div 2 ^ k"] by (simp add: or.commute)
  then show ?thesis by (simp only: mod_div_mult_eq)
qed

text \<open>The decoder of a uniform integer, in terms of the requests for its parts.\<close>

lemma dec_uint_big:
  assumes "8 < EC_ILOG (ft - 1)" "k = nat (EC_ILOG (ft - 1) - 8)" "0 \<le> x" "x < ft" "ft < 2 ^ 32"
    and "decode_value d (Ask_symbol ((ft - 1) div 2 ^ k + 1) (\<lambda>s. (s, s + 1))) = Some (d1, Symbol (x div 2 ^ k) (x div 2 ^ k + 1))"
    and "decode_value d1 (Ask_bits k) = Some (d2, Number (x mod 2 ^ k))"
  shows "ec_dec_uint d ft = Some (d2, x)"
proof -
  have "(w32 (x div 2 ^ k * 2 ^ k) OR x mod 2 ^ k) = x" using assms(3-5) by (intro uint_join) auto
  then show ?thesis using assms by (auto simp: ec_dec_uint_def Let_def bind_eq_Some_conv split: prod.splits)
qed

lemma uint_both:
  assumes "coder_inv e" "1 < ft" "ft < 2 ^ 32" "0 \<le> x" "x < ft" "ec_enc_uint e x ft = Some f" "coder_ok f"
  shows "value_both e (Ask_uint ft) (Number x) f"
proof (cases "8 < EC_ILOG (ft - 1)")
  case True
  define k where "k = nat (EC_ILOG (ft - 1) - 8)"
  note s = uint_split [OF assms(2-5) True, folded k_def]
  obtain g where g: "ec_encode e (x div 2 ^ k) (x div 2 ^ k + 1) ((ft - 1) div 2 ^ k + 1) = Some g" "f = ec_enc_bits g (x mod 2 ^ k) k"
    using assms(6) True by (auto simp: encode_uint_eq Let_def k_def bind_eq_Some_conv)
  have ok: "coder_ok g" using enc_bits_back [of g "x mod 2 ^ k" k] assms(7) g(2) by (auto simp: coder_ok_def)
  have "found (\<lambda>s. (s, s + 1)) (x div 2 ^ k) (x div 2 ^ k + 1)" by (simp add: found_def)
  from symbol_both [OF assms(1) s(2) _ s(3,4) this g(1) ok]
  have b1: "value_both e (Ask_symbol ((ft - 1) div 2 ^ k + 1) (\<lambda>s. (s, s + 1))) (Symbol (x div 2 ^ k) (x div 2 ^ k + 1)) g" by simp
  then have gi: "coder_inv g" by (simp add: value_both_def)
  have b2: "value_both g (Ask_bits k) (Number (x mod 2 ^ k)) f"
    using bits_both [OF gi _ s(5,6)] s(1) assms(7) unfolding g(2) by simp
  show ?thesis unfolding value_both_def
  proof (intro conjI allI impI)
    show "coder_inv f" using b2 by (simp add: value_both_def)
    fix B assume hf: "coder_holds B f"
    then have hg: "coder_holds B g" using b2 by (simp add: value_both_def)
    then show "coder_holds B e" using b1 by (simp add: value_both_def)
    fix d assume a: "coder_agree B e d"
    obtain d1 where d1: "decode_value d (Ask_symbol ((ft - 1) div 2 ^ k + 1) (\<lambda>s. (s, s + 1))) = Some (d1, Symbol (x div 2 ^ k) (x div 2 ^ k + 1))"
      "coder_agree B g d1" using b1 hg a unfolding value_both_def by blast
    obtain d2 where d2: "decode_value d1 (Ask_bits k) = Some (d2, Number (x mod 2 ^ k))" "coder_agree B f d2"
      using b2 hf d1(2) unfolding value_both_def by blast
    have "ec_dec_uint d ft = Some (d2, x)" by (rule dec_uint_big [OF True k_def assms(4,5,3) d1(1) d2(1)])
    then show "\<exists>d'. decode_value d (Ask_uint ft) = Some (d', Number x) \<and> coder_agree B f d'" using d2(2) by simp
  qed
next
  case False
  have e: "ec_encode e x (x + 1) ft = Some f" using assms(6) False by (simp add: encode_uint_eq)
  have "found (\<lambda>s. (s, s + 1)) x (x + 1)" by (simp add: found_def)
  from symbol_both [OF assms(1,4) _ _ uint_small [OF assms(2) False] this e assms(7)] assms(5)
  have b: "value_both e (Ask_symbol ft (\<lambda>s. (s, s + 1))) (Symbol x (x + 1)) f" by simp
  have "decode_value d (Ask_uint ft) = Some (d', Number x)" if "decode_value d (Ask_symbol ft (\<lambda>s. (s, s + 1))) = Some (d', Symbol x (x + 1))" for d d'
    using that False by (auto simp: ec_dec_uint_def Let_def bind_eq_Some_conv split: prod.splits)
  then show ?thesis using b unfolding value_both_def by blast
qed

lemma value_both_step:
  assumes "coder_inv e" "valid_value r v" "encode_value e r v = Some f" "coder_ok f"
  shows "value_both e r v f"
  using assms
proof (induction e r v rule: encode_value.induct)
  case (2 e bits look fl fh)
  have "value_both e (Ask_symbol (2 ^ bits) look) (Symbol fl fh) f"
    by (rule symbol_both) (use 2 pow23 [of bits] in \<open>simp_all add: encode_bin_eq\<close>)
  then show ?case unfolding value_both_def binary_symbol .
next
  case (5 e bits x)
  then show ?case using bits_both [of e bits x] by simp
qed (simp_all add: symbol_both bit_both icdf_both uint_both)

text \<open>The same for any decoding function, and for two of them in sequence.\<close>

definition both :: "ec_ctx \<Rightarrow> (ec_ctx \<Rightarrow> (ec_ctx \<times> 'v) option) \<Rightarrow> 'v \<Rightarrow> ec_ctx \<Rightarrow> bool" where
  "both e dec v f \<longleftrightarrow> coder_inv f \<and> (\<forall>B. coder_holds B f \<longrightarrow> coder_holds B e \<and>
     (\<forall>d. coder_agree B e d \<longrightarrow> (\<exists>d'. dec d = Some (d', v) \<and> coder_agree B f d')))"

lemma value_both_iff: "value_both e r v f \<longleftrightarrow> both e (\<lambda>d. decode_value d r) v f"
  by (simp add: value_both_def both_def)

lemma both_seq:
  assumes "both e dec v g" "both g (\<lambda>d. dec' d v) w f"
  shows "both e (\<lambda>d. do { (d, v) \<leftarrow> dec d; dec' d v }) w f"
  unfolding both_def
proof (intro conjI allI impI)
  show "coder_inv f" using assms(2) by (simp add: both_def)
  fix B assume "coder_holds B f"
  then have hg: "coder_holds B g" and dg: "\<And>d. coder_agree B g d \<Longrightarrow> \<exists>d'. dec' d v = Some (d', w) \<and> coder_agree B f d'" using assms(2) by (simp_all add: both_def)
  then show "coder_holds B e" using assms(1) by (simp add: both_def)
  fix d assume "coder_agree B e d"
  then obtain d1 where "dec d = Some (d1, v)" "coder_agree B g d1" using assms(1) hg unfolding both_def by blast
  then show "\<exists>d'. do { (d, v) \<leftarrow> dec d; dec' d v } = Some (d', w) \<and> coder_agree B f d'" using dg by fastforce
qed

lemma both_cong: "both e dec v f \<Longrightarrow> (\<And>d d'. dec d = Some (d', v) \<Longrightarrow> dec' d = Some (d', w)) \<Longrightarrow> both e dec' w f"
  unfolding both_def by blast

section \<open>The stream\<close>

lemma enc_init_inv: "length buf = n \<Longrightarrow> coder_inv (ec_enc_init buf n) \<and> coder_ready (ec_enc_init buf n)"
  by (simp add: coder_inv_def coder_ready_def enc_inv_def raw_inv_def enc_wf_def ec_enc_init_def enc_n_def enc_digits_def raw_len_def)

lemma coder_start: "\<exists>d. ec_dec_init B (length B) = Some d \<and> coder_agree B (ec_enc_init buf n) d"
  using dec_init_step [of B]
  by (auto simp: coder_agree_def dec_iv_def ec_enc_init_def enc_n_def enc_low_def enc_digits_def raw_len_def dec_raw_def intro!: exI [of _ 0])

text \<open>Shrinking the buffer moves the raw bytes and keeps what both parts mean.\<close>

lemma shrink_step:
  assumes "coder_inv e" "ec_offs e + ec_end_offs e \<le> m" "m \<le> ec_storage e"
  defines "f \<equiv> ec_enc_shrink e m"
  shows "coder_inv f" "dec_iv f = dec_iv e" "raw_len f = raw_len e" "raw_val f = raw_val e" "ec_storage f = m" "ec_nbits_total f = ec_nbits_total e"
    "ec_rng f = ec_rng e"
proof -
  have w: "length (ec_buf e) = ec_storage e" "ec_offs e + ec_end_offs e \<le> ec_storage e" using assms(1) by (auto simp: coder_inv_def enc_inv_def enc_wf_def)
  have d: "enc_digits f = enc_digits e" using assms(2) w by (simp add: f_def ec_enc_shrink_def enc_digits_def min_def)
  then have n: "enc_n f = enc_n e" by (simp add: enc_n_def)
  show "dec_iv f = dec_iv e" using d n by (simp add: dec_iv_def enc_low_def) (simp add: f_def ec_enc_shrink_def)
  show rl: "raw_len f = raw_len e" "ec_storage f = m" "ec_nbits_total f = ec_nbits_total e" "ec_rng f = ec_rng e"
    by (simp_all add: f_def ec_enc_shrink_def raw_len_def)
  have lf: "length (ec_buf f) = m" using assms(2,3) w by (simp add: f_def ec_enc_shrink_def)
  have "endnum (ec_buf f) (ec_end_offs e) = endnum (ec_buf e) (ec_end_offs e)"
  proof (rule endnum_cong)
    fix i assume "i < ec_end_offs e"
    then show "endbyte (ec_buf f) i = endbyte (ec_buf e) i"
      using assms(2,3) w lf by (simp add: endbyte_def) (auto simp: f_def ec_enc_shrink_def nth_append)
  qed
  then show "raw_val f = raw_val e" by (simp add: raw_val_def f_def ec_enc_shrink_def)
  have "enc_wf f" using assms(1,2) lf by (auto simp: enc_wf_def f_def ec_enc_shrink_def coder_inv_def enc_inv_def)
  then show "coder_inv f" using assms(1) rl n unfolding coder_inv_def enc_inv_def raw_inv_def by (simp add: f_def ec_enc_shrink_def)
qed

text \<open>Any client whose operations obey the laws has the round trip of a whole stream.\<close>

locale stream_coder = symbol_coder enc dec valid coder_ready coder_ok coder_inv coder_holds coder_agree
  for enc :: "ec_ctx \<Rightarrow> 'r \<Rightarrow> 'v \<Rightarrow> ec_ctx option" and dec :: "ec_ctx \<Rightarrow> 'r \<Rightarrow> (ec_ctx \<times> 'v) option" and valid :: "'r \<Rightarrow> 'v \<Rightarrow> bool"
begin

lemma stream_total: "length buf = n \<Longrightarrow> \<forall>(r, v) \<in> set rvs. valid r v \<Longrightarrow> \<exists>e. encode_all enc (ec_enc_init buf n) rvs = Some e"
  using encode_all_total enc_init_inv by blast

lemma stream_roundtrip:
  assumes "length buf = n" "\<forall>(r, v) \<in> set rvs. valid r v"
    and e: "encode_all enc (ec_enc_init buf n) rvs = Some e" "ec_offs e + ec_end_offs e \<le> m" "m \<le> ec_storage e"
    and h: "ec_error (ec_enc_done (ec_enc_shrink e m)) = 0" "ec_nbits_total e < 2 ^ 31"
  defines "B \<equiv> ec_buf (ec_enc_done (ec_enc_shrink e m))"
  shows "length B = m \<and> (\<exists>d d'. ec_dec_init B m = Some d \<and> decode_all dec d (map fst rvs) = Some (d', map snd rvs) \<and>
    ec_tell d' = ec_tell e \<and> ec_error d' = 0)"
proof -
  note i = enc_init_inv [OF assms(1)]
  define f where "f = ec_enc_shrink e m"
  have "ec_error e = ec_error f" by (simp add: f_def ec_enc_shrink_def)
  then have ok: "coder_ok e" using enc_done_back [OF h(1)] h(2) by (simp add: coder_ok_def f_def)
  note st = encode_all_step [OF conjunct1 [OF i] assms(2) e(1) ok]
  have "coder_inv e" using st by blast
  note sh = shrink_step [OF this e(2,3), folded f_def]
  have inv: "enc_inv f" "raw_inv f" "2 ^ 23 < ec_rng f" "ec_nbits_total f < 2 ^ 31" using sh(1,6) h(2) by (simp_all add: coder_inv_def)
  note dn = enc_done_step [OF inv h(1) [folded f_def], folded B_def [folded f_def]]
  have len: "length B = m" using dn(1) sh(5) by simp
  have "coder_holds B e" using dn(2,3) sh(2-4) by (simp add: coder_holds_def dec_iv_def)
  moreover obtain d where d: "ec_dec_init B (length B) = Some d" "coder_agree B (ec_enc_init buf n) d" using coder_start by blast
  ultimately obtain d' where d': "decode_all dec d (map fst rvs) = Some (d', map snd rvs)" "coder_agree B e d'" using st by blast
  have "ec_tell d' = ec_tell e" using d'(2) agree_rng [OF d'(2)] by (simp add: ec_tell_def coder_agree_def)
  then show ?thesis using d(1) d' len by (auto simp: coder_agree_def)
qed

end

lemma stream_coderI:
  assumes "\<And>e r v. coder_ready e \<Longrightarrow> valid r v \<Longrightarrow> \<exists>f. enc e r v = Some f \<and> coder_ready f"
    and "\<And>e r v f. enc e r v = Some f \<Longrightarrow> valid r v \<Longrightarrow> coder_ok f \<Longrightarrow> coder_ok e"
    and "\<And>e r v f. coder_inv e \<Longrightarrow> valid r v \<Longrightarrow> enc e r v = Some f \<Longrightarrow> coder_ok f \<Longrightarrow> both e (\<lambda>d. dec d r) v f"
  shows "stream_coder enc dec valid"
  by unfold_locales (use assms in \<open>unfold both_def, blast+\<close>)

interpretation coder: stream_coder encode_value decode_value valid_value
  by (rule stream_coderI) (use encode_value_total encode_value_back value_both_step value_both_iff in blast)+

end
