(* ===== verification/Opus_Laplace.thy ===== *)
theory Opus_Laplace
  imports Opus_Coder_Sync
begin

text \<open>
  The Laplace model of CELT, \<open>src/Vendor/opus/celt/laplace.c\<close>: a signed integer is coded with a probability that decays with its size,
  down to a tail in which every value has the least probability. The 32-bit registers are integers reduced by \<open>w32\<close>.
\<close>

unbundle bit_operations_syntax

section \<open>The code\<close>

definition s32 :: "int \<Rightarrow> int" where "s32 x = (x + 2 ^ 31) mod 2 ^ 32 - 2 ^ 31"

definition LAPLACE_LOG_MINP :: nat where "LAPLACE_LOG_MINP = 0"
definition LAPLACE_MINP :: int where "LAPLACE_MINP = 2 ^ LAPLACE_LOG_MINP"
definition LAPLACE_NMIN :: int where "LAPLACE_NMIN = 16"

definition ec_laplace_get_freq1 :: "int \<Rightarrow> int \<Rightarrow> int" where
  "ec_laplace_get_freq1 fs0 decay =
    (let ft = w32 (32768 - LAPLACE_MINP * (2 * LAPLACE_NMIN) - fs0) in w32 (ft * w32 (16384 - decay)) div 2 ^ 15)"

text \<open>The search of the decaying part, up to \<open>val\<close> or the end of that part: the index, the low end and the frequency.\<close>

function ec_laplace_walk :: "int \<Rightarrow> int \<Rightarrow> int \<Rightarrow> int \<Rightarrow> int \<Rightarrow> int \<times> int \<times> int" where
  "ec_laplace_walk decay v i fl fs =
    (if fs > 0 \<and> i < v then
       let fs = w32 (fs * 2); fl = w32 (fl + w32 (fs + 2 * LAPLACE_MINP)); fs = w32 (fs * w32 decay) div 2 ^ 15
       in ec_laplace_walk decay v (i + 1) fl fs
     else (i, fl, fs))"
  by pat_completeness auto
termination by (relation "measure (\<lambda>(_, v, i, _). nat (v - i))") auto

text \<open>The low end, the frequency and the value stored back.\<close>

definition ec_laplace_interval :: "int \<Rightarrow> int \<Rightarrow> int \<Rightarrow> int \<times> int \<times> int" where
  "ec_laplace_interval v fs decay =
    (if v \<noteq> 0 then
       let s = - of_bool (v < 0);
           a = (v + s) XOR s;
           fl = fs; fs = ec_laplace_get_freq1 fs decay;
           (i, fl, fs) = ec_laplace_walk decay a 1 fl fs
       in if fs = 0 then
            let ndi_max = s32 (w32 (32768 - fl + LAPLACE_MINP - 1) div 2 ^ LAPLACE_LOG_MINP);
                ndi_max = (ndi_max - s) div 2;
                di = min (a - i) (ndi_max - 1);
                fl = w32 (fl + (2 * di + 1 + s) * LAPLACE_MINP);
                fs = min LAPLACE_MINP (w32 (32768 - fl))
            in (fl, fs, (i + di + s) XOR s)
          else
            let fs = fs + LAPLACE_MINP; fl = w32 (fl + (fs AND NOT s)) in (fl, fs, v)
     else (0, fs, v))"

definition ec_laplace_encode :: "ec_ctx \<Rightarrow> int \<Rightarrow> int \<Rightarrow> int \<Rightarrow> (ec_ctx \<times> int) option" where
  "ec_laplace_encode e v fs decay =
    (let (fl, fs, v) = ec_laplace_interval v fs decay in do { e \<leftarrow> ec_encode_bin e fl (w32 (fl + fs)) 15; Some (e, v) })"

partial_function (option) ec_laplace_search :: "int \<Rightarrow> int \<Rightarrow> int \<Rightarrow> int \<Rightarrow> int \<Rightarrow> (int \<times> int \<times> int) option" where
  "ec_laplace_search decay fm v fl fs =
    (if fs > LAPLACE_MINP \<and> fm \<ge> w32 (fl + 2 * fs) then
       let fs = w32 (fs * 2); fl = w32 (fl + fs); fs = w32 (w32 (fs - 2 * LAPLACE_MINP) * w32 decay) div 2 ^ 15; fs = w32 (fs + LAPLACE_MINP)
       in ec_laplace_search decay fm (v + 1) fl fs
     else Some (v, fl, fs))"

text \<open>The value and the interval that the number \<open>fm\<close> falls into.\<close>

definition ec_laplace_find :: "int \<Rightarrow> int \<Rightarrow> int \<Rightarrow> (int \<times> int \<times> int) option" where
  "ec_laplace_find fm fs decay =
    (if fm \<ge> fs then
       do { (v, fl, fs) \<leftarrow> ec_laplace_search decay fm 1 fs (w32 (ec_laplace_get_freq1 fs decay + LAPLACE_MINP));
            let (v, fl) = (if fs \<le> LAPLACE_MINP
                           then let di = s32 (w32 (fm - fl) div 2 ^ (LAPLACE_LOG_MINP + 1)) in (v + di, w32 (fl + 2 * di * LAPLACE_MINP))
                           else (v, fl))
            in Some (if fm < w32 (fl + fs) then (- v, fl, fs) else (v, w32 (fl + fs), fs)) }
     else Some (0, 0, fs))"

definition ec_laplace_decode :: "ec_ctx \<Rightarrow> int \<Rightarrow> int \<Rightarrow> (ec_ctx \<times> int) option" where
  "ec_laplace_decode d fs decay =
    (let (d, fm) = ec_decode_bin d 15
     in do { (v, fl, fs) \<leftarrow> ec_laplace_find fm fs decay;
             d \<leftarrow> ec_dec_update d fl (min (w32 (fl + fs)) 32768) 32768;
             Some (d, v) })"

text \<open>The version with a probability of zero and the two tables that share a decay.\<close>

definition laplace_sign_icdf :: "int \<Rightarrow> int list" where
  "laplace_sign_icdf p0 = (let a = (32768 - p0) mod 2 ^ 16 in [a, a div 2, 0])"

fun laplace_icdf_from :: "nat \<Rightarrow> int \<Rightarrow> int \<Rightarrow> int list" where
  "laplace_icdf_from 0 decay x = [0]"
| "laplace_icdf_from (Suc n) decay x = (let y = max (int (Suc n)) (x * decay div 2 ^ 15) mod 2 ^ 16 in y # laplace_icdf_from n decay y)"

definition laplace_icdf :: "int \<Rightarrow> int list" where
  "laplace_icdf decay = (let x = max 7 decay mod 2 ^ 16 in x # laplace_icdf_from 6 decay x)"

partial_function (option) ec_laplace_p0_loop :: "ec_ctx \<Rightarrow> int list \<Rightarrow> int \<Rightarrow> ec_ctx option" where
  "ec_laplace_p0_loop e icdf v =
    do { e \<leftarrow> ec_enc_icdf e (nat (min v 7)) icdf 15;
         let v = v - 7 in if v \<ge> 0 then ec_laplace_p0_loop e icdf v else Some e }"

definition ec_laplace_encode_p0 :: "ec_ctx \<Rightarrow> int \<Rightarrow> int \<Rightarrow> int \<Rightarrow> ec_ctx option" where
  "ec_laplace_encode_p0 e v p0 decay =
    (let s = if v = 0 then 0 else if v > 0 then 1 else 2
     in do { e \<leftarrow> ec_enc_icdf e s (laplace_sign_icdf p0) 15;
             let v = \<bar>v\<bar> in if v \<noteq> 0 then ec_laplace_p0_loop e (laplace_icdf decay) (v - 1) else Some e })"

partial_function (option) ec_laplace_p0_read :: "ec_ctx \<Rightarrow> int list \<Rightarrow> int \<Rightarrow> (ec_ctx \<times> int) option" where
  "ec_laplace_p0_read d icdf v =
    do { (d, x) \<leftarrow> ec_dec_icdf d icdf 15;
         let v = v + int x in if x = 7 then ec_laplace_p0_read d icdf v else Some (d, v) }"

definition ec_laplace_decode_p0 :: "ec_ctx \<Rightarrow> int \<Rightarrow> int \<Rightarrow> (ec_ctx \<times> int) option" where
  "ec_laplace_decode_p0 d p0 decay =
    do { (d, x) \<leftarrow> ec_dec_icdf d (laplace_sign_icdf p0) 15;
         let s = (if x = 2 then -1 else int x)
         in if s \<noteq> 0 then do { (d, v) \<leftarrow> ec_laplace_p0_read d (laplace_icdf decay) 1; Some (d, s * v) } else Some (d, 0) }"

declare ec_laplace_search.simps [code] ec_laplace_p0_loop.simps [code] ec_laplace_p0_read.simps [code]

section \<open>The intervals\<close>

text \<open>A model: the probability of 0 and a decay below 1; block \<open>k\<close> holds the two values of size \<open>k + 1\<close>.\<close>

definition laplace_model :: "int \<Rightarrow> int \<Rightarrow> bool" where
  "laplace_model fs decay \<longleftrightarrow> 0 < fs \<and> fs \<le> 32736 \<and> 0 \<le> decay \<and> decay < 16384"

fun laplace_block :: "int \<Rightarrow> int \<Rightarrow> nat \<Rightarrow> int \<times> int" where
  "laplace_block fs decay 0 = (fs, (32736 - fs) * (16384 - decay) div 2 ^ 15)"
| "laplace_block fs decay (Suc k) = (case laplace_block fs decay k of (fl, f) \<Rightarrow> (fl + 2 * f + 2, 2 * f * decay div 2 ^ 15))"

lemma div_less_mult: "0 < c \<Longrightarrow> x < y * c \<Longrightarrow> x div c < (y :: int)"
proof -
  assume a: "0 < c" "x < y * c"
  have "x div c * c \<le> x" using a(1) by (simp add: minus_mod_eq_div_mult [symmetric])
  then have "x div c * c < y * c" using a(2) by linarith
  then show ?thesis using a(1) by (simp add: mult_less_cancel_right)
qed

function laplace_tail :: "int \<Rightarrow> nat \<Rightarrow> int \<Rightarrow> int \<Rightarrow> nat \<times> int" where
  "laplace_tail decay k fl f = (if 0 < f \<and> 0 \<le> decay \<and> decay < 16384 then laplace_tail decay (k + 1) (fl + 2 * f + 2) (2 * f * decay div 2 ^ 15) else (k, fl))"
  by pat_completeness auto
termination
proof (relation "measure (\<lambda>(_, _, _, f). nat f)")
  fix decay f :: int and k :: nat and fl :: int
  assume a: "0 < f \<and> 0 \<le> decay \<and> decay < 16384"
  have "2 * f * decay < f * 2 ^ 15" using a by simp
  then have "2 * f * decay div 2 ^ 15 < f" by (intro div_less_mult) simp_all
  then show "((decay, k + 1, fl + 2 * f + 2, 2 * f * decay div 2 ^ 15), (decay, k, fl, f)) \<in> measure (\<lambda>(_, _, _, f). nat f)" using a by auto
qed simp

text \<open>The first block of the tail fits with both its values.\<close>

definition laplace_last :: "int \<Rightarrow> int \<Rightarrow> nat \<times> int" where
  "laplace_last fs decay = (case laplace_block fs decay 0 of (fl, f) \<Rightarrow> laplace_tail decay 0 fl f)"

definition laplace_fits :: "int \<Rightarrow> int \<Rightarrow> bool" where
  "laplace_fits fs decay \<longleftrightarrow> laplace_model fs decay \<and> snd (laplace_last fs decay) \<le> 32766"

definition laplace_clamp :: "int \<Rightarrow> int \<Rightarrow> int \<Rightarrow> int" where
  "laplace_clamp fs decay v =
    (case laplace_last fs decay of (k, fl) \<Rightarrow> sgn v * min \<bar>v\<bar> (int k + (32768 - fl + of_bool (v < 0)) div 2))"

declare laplace_tail.simps [simp del] ec_laplace_walk.simps [simp del] laplace_block.simps [simp del]

lemma block_bounds:
  assumes "laplace_model fs decay" "laplace_block fs decay k = (fl, f)"
  shows "0 < fl" "0 \<le> f" "f \<le> 16384"
proof -
  have m: "0 < fs" "fs \<le> 32736" "0 \<le> decay" "decay < 16384" using assms(1) by (auto simp: laplace_model_def)
  have "0 < fl \<and> 0 \<le> f \<and> f \<le> 16384"
    using assms(2)
  proof (induction k arbitrary: fl f)
    case 0
    have "(32736 - fs) * (16384 - decay) \<le> 32736 * 16384" using m by (intro mult_mono) auto
    moreover have "0 \<le> (32736 - fs) * (16384 - decay)" using m by simp
    ultimately show ?case using 0 m(1) by (auto simp: laplace_block.simps)
  next
    case (Suc k)
    obtain fl' f' where b: "laplace_block fs decay k = (fl', f')" by fastforce
    from Suc(1) [OF b] have i: "0 < fl'" "0 \<le> f'" "f' \<le> 16384" by auto
    have "f' * decay \<le> 16384 * 16384" using i m by (intro mult_mono) auto
    then have "2 * f' * decay \<le> 16384 * 2 ^ 15" by (simp add: mult.commute)
    moreover have "0 \<le> 2 * f' * decay" using i m by simp
    ultimately have "0 \<le> 2 * f' * decay div 2 ^ 15" "2 * f' * decay div 2 ^ 15 \<le> 16384" by simp_all
    moreover have "fl = fl' + 2 * f' + 2" "f = 2 * f' * decay div 2 ^ 15" using Suc(2) by (simp_all only: laplace_block.simps b prod.case prod.inject)
    ultimately show ?case using i by simp
  qed
  then show "0 < fl" "0 \<le> f" "f \<le> 16384" by auto
qed

lemma tail_block:
  assumes "laplace_model fs decay" "laplace_block fs decay k = (fl, f)" "laplace_tail decay k fl f = (m, l)"
  shows "k \<le> m \<and> laplace_block fs decay m = (l, 0) \<and> (\<forall>j. k \<le> j \<longrightarrow> j < m \<longrightarrow> 0 < snd (laplace_block fs decay j))"
  using assms
proof (induction decay k fl f rule: laplace_tail.induct)
  case (1 decay k fl f)
  show ?case
  proof (cases "0 < f \<and> 0 \<le> decay \<and> decay < 16384")
    case True
    have b: "laplace_block fs decay (k + 1) = (fl + 2 * f + 2, 2 * f * decay div 2 ^ 15)" using 1(3) by (simp only: Suc_eq_plus1 [symmetric] laplace_block.simps prod.case)
    have t: "laplace_tail decay (k + 1) (fl + 2 * f + 2) (2 * f * decay div 2 ^ 15) = (m, l)" using 1(4) True by (subst (asm) laplace_tail.simps) simp
    have f: "0 < snd (laplace_block fs decay k)" using 1(3) True by simp
    from 1(1) [OF True 1(2) b t] have ih: "k + 1 \<le> m" "laplace_block fs decay m = (l, 0)" "\<And>j. k + 1 \<le> j \<Longrightarrow> j < m \<Longrightarrow> 0 < snd (laplace_block fs decay j)" by blast+
    show ?thesis
    proof (intro conjI allI impI)
      fix j assume j: "k \<le> j" "j < m"
      show "0 < snd (laplace_block fs decay j)" using f ih(3) [of j] j by (cases "j = k") auto
    qed (use ih in auto)
  next
    case False
    then have "m = k" "l = fl" using 1(4) by (subst (asm) laplace_tail.simps, auto)+
    moreover have "f = 0" using False block_bounds(2) [OF 1(2,3)] 1(2) by (simp add: laplace_model_def)
    ultimately show ?thesis using 1(3) by auto
  qed
qed

lemma laplace_last_block:
  assumes "laplace_model fs decay" "laplace_last fs decay = (m, l)"
  shows "laplace_block fs decay m = (l, 0)" "j < m \<Longrightarrow> 0 < snd (laplace_block fs decay j)"
proof -
  obtain fl f where b: "laplace_block fs decay 0 = (fl, f)" by fastforce
  have "laplace_tail decay 0 fl f = (m, l)" using assms(2) b by (simp add: laplace_last_def)
  from tail_block [OF assms(1) b this] show "laplace_block fs decay m = (l, 0)" "j < m \<Longrightarrow> 0 < snd (laplace_block fs decay j)" by auto
qed

lemma block_Suc: "laplace_block fs decay k = (fl, f) \<Longrightarrow> laplace_block fs decay (Suc k) = (fl + 2 * f + 2, 2 * f * decay div 2 ^ 15)"
  by (simp only: laplace_block.simps prod.case)

lemma block_mono:
  assumes "laplace_model fs decay" "j \<le> k"
  shows "fst (laplace_block fs decay j) \<le> fst (laplace_block fs decay k)"
  using assms(2)
proof (induction rule: dec_induct)
  case (step k)
  obtain fl f where b: "laplace_block fs decay k = (fl, f)" by fastforce
  show ?case using step(3) block_bounds(2) [OF assms(1) b] b block_Suc [OF b] by simp
qed simp

text \<open>Every block before the tail, and the first of the tail, lies below the total.\<close>

lemma block_fits:
  assumes "laplace_fits fs decay" "laplace_last fs decay = (m, l)" "j \<le> m" "laplace_block fs decay j = (fl, f)"
  shows "fl + 2 * f + 2 \<le> 32768" "fl \<le> l" "l \<le> 32766"
proof -
  have mo: "laplace_model fs decay" "l \<le> 32766" using assms(1,2) by (auto simp: laplace_fits_def)
  note lb = laplace_last_block(1) [OF mo(1) assms(2)]
  show "fl \<le> l" "l \<le> 32766" using block_mono [OF mo(1) assms(3)] lb assms(4) mo(2) by auto
  show "fl + 2 * f + 2 \<le> 32768"
  proof (cases "j = m")
    case True
    then show ?thesis using lb assms(4) mo(2) by auto
  next
    case False
    then have "fst (laplace_block fs decay (Suc j)) \<le> l" using block_mono [OF mo(1), of "Suc j" m] lb assms(3) by auto
    then show ?thesis using block_Suc [OF assms(4)] mo(2) by simp
  qed
qed

lemma decay_w32: "laplace_model fs decay \<Longrightarrow> w32 decay = decay" by (simp add: laplace_model_def w32_id)

lemma freq_w32:
  assumes "laplace_model fs decay" "0 \<le> f" "f \<le> 16384"
  shows "w32 (2 * f * decay) = 2 * f * decay"
proof (rule w32_id)
  have m: "0 \<le> decay" "decay < 16384" using assms(1) by (auto simp: laplace_model_def)
  have "f * decay \<le> 16384 * 16384" using assms(2,3) m by (intro mult_mono) auto
  then show "2 * f * decay < 2 ^ 32" by (simp add: mult.commute)
  show "0 \<le> 2 * f * decay" using assms(2) m by simp
qed

lemma freq1_eq: "laplace_model fs decay \<Longrightarrow> laplace_block fs decay 0 = (fs, ec_laplace_get_freq1 fs decay)"
proof -
  assume a: "laplace_model fs decay"
  have m: "0 < fs" "fs \<le> 32736" "0 \<le> decay" "decay < 16384" using a by (auto simp: laplace_model_def)
  have "(32736 - fs) * (16384 - decay) \<le> 32736 * 16384" using m by (intro mult_mono) auto
  moreover have "0 \<le> (32736 - fs) * (16384 - decay)" using m by simp
  ultimately have "w32 ((32736 - fs) * (16384 - decay)) = (32736 - fs) * (16384 - decay)" by (intro w32_id) simp_all
  moreover have "w32 (32736 - fs) = 32736 - fs" "w32 (16384 - decay) = 16384 - decay" using m by (simp_all add: w32_id)
  ultimately show ?thesis by (simp add: laplace_block.simps ec_laplace_get_freq1_def LAPLACE_MINP_def LAPLACE_LOG_MINP_def LAPLACE_NMIN_def)
qed

section \<open>The encoder's interval\<close>

lemma walk_block:
  assumes f: "laplace_fits fs decay" "laplace_last fs decay = (m, l)" and b: "laplace_block fs decay j = (fl, g)" "j \<le> p" and p: "p = min m (nat a - 1)" "0 < a"
  shows "ec_laplace_walk decay a (int j + 1) fl g = (int p + 1, laplace_block fs decay p)"
  using b
proof (induction "p - j" arbitrary: j fl g)
  case 0
  then have j: "j = p" by simp
  have mo: "laplace_model fs decay" using f(1) by (simp add: laplace_fits_def)
  have "\<not> (g > 0 \<and> int j + 1 < a)"
  proof (cases "p = m")
    case True
    then have "g = 0" using laplace_last_block(1) [OF mo f(2)] 0(2) j by simp
    then show ?thesis by simp
  qed (use p j in auto)
  then have "ec_laplace_walk decay a (int j + 1) fl g = (int j + 1, fl, g)" by (subst ec_laplace_walk.simps) (simp only: if_False)
  then show ?case using 0(2) j by simp
next
  case (Suc n)
  have mo: "laplace_model fs decay" using f(1) by (simp add: laplace_fits_def)
  have j: "j < p" "j < m" "int j + 1 < a" using Suc(2) p by auto
  have g: "0 < g" using laplace_last_block(2) [OF mo f(2) j(2)] Suc(3) by simp
  note bb = block_bounds [OF mo Suc(3)] and fi = block_fits(1) [OF f _ Suc(3)]
  have w: "w32 (g * 2) = 2 * g" "w32 (2 * g + 2) = 2 * g + 2" "w32 (fl + (2 * g + 2)) = fl + 2 * g + 2" using bb fi j(2) by (simp_all add: w32_id)
  have "ec_laplace_walk decay a (int j + 1) fl g = ec_laplace_walk decay a (int (Suc j) + 1) (fl + 2 * g + 2) (2 * g * decay div 2 ^ 15)"
    using g j(3) w freq_w32 [OF mo bb(2,3)] by (subst ec_laplace_walk.simps) (simp add: Let_def LAPLACE_MINP_def LAPLACE_LOG_MINP_def decay_w32 [OF mo])
  also have "\<dots> = (int p + 1, laplace_block fs decay p)" by (rule Suc(1)) (use Suc(2) j(1) block_Suc [OF Suc(3)] in auto)
  finally show ?case .
qed

lemma xor_sign: "(x XOR - 1) = - x - (1 :: int)"
  by (simp add: not_eq_complement)

text \<open>Where a value lies: in its block, the negative one first, or behind it in the tail.\<close>

definition laplace_place :: "int \<Rightarrow> int \<Rightarrow> int \<Rightarrow> int \<times> int" where
  "laplace_place fs decay v =
    (if v = 0 then (0, fs)
     else case laplace_last fs decay of (m, l) \<Rightarrow>
       if nat \<bar>v\<bar> \<le> m then case laplace_block fs decay (nat \<bar>v\<bar> - 1) of (fl, f) \<Rightarrow> (fl + (if v < 0 then 0 else f + 1), f + 1)
       else (l + 2 * (\<bar>v\<bar> - 1 - int m) + of_bool (v > 0), 1))"

lemma interval_place:
  assumes f: "laplace_fits fs decay"
  shows "ec_laplace_interval v fs decay =
    (case laplace_place fs decay (laplace_clamp fs decay v) of (fl, g) \<Rightarrow> (fl, g, laplace_clamp fs decay v))"
proof (cases "v = 0")
  case True
  then show ?thesis by (simp add: ec_laplace_interval_def laplace_place_def laplace_clamp_def split: prod.splits)
next
  case False
  obtain m l where ml: "laplace_last fs decay = (m, l)" by fastforce
  define a where "a = \<bar>v\<bar>"
  define s :: int where "s = - of_bool (v < 0)"
  define p where "p = min m (nat a - 1)"
  obtain fl g where b: "laplace_block fs decay p = (fl, g)" by fastforce
  have mo: "laplace_model fs decay" "l \<le> 32766" using f ml by (auto simp: laplace_fits_def)
  have a: "0 < a" "(v + s) XOR s = a" using False by (auto simp: a_def s_def xor_sign not_eq_complement)
  have "ec_laplace_walk decay a (int 0 + 1) fs (ec_laplace_get_freq1 fs decay) = (int p + 1, laplace_block fs decay p)"
    by (rule walk_block [OF f ml freq1_eq [OF mo(1)] _ p_def a(1)]) simp
  then have w: "ec_laplace_walk decay a 1 fs (ec_laplace_get_freq1 fs decay) = (int p + 1, fl, g)" by (simp add: b)
  note bb = block_bounds [OF mo(1) b] and fi = block_fits [OF f ml _ b]
  have lb: "laplace_block fs decay m = (l, 0)" using laplace_last_block(1) [OF mo(1) ml] .
  have l0: "0 < l" using block_bounds(1) [OF mo(1) lb] .
  show ?thesis
  proof (cases "nat a \<le> m")
    case True
    then have pa: "p = nat a - 1" "p < m" using a(1) by (auto simp: p_def)
    have g: "0 < g" using laplace_last_block(2) [OF mo(1) ml pa(2)] b by simp
    have c: "laplace_clamp fs decay v = v"
    proof -
      have "int m \<ge> a" "0 \<le> (32768 - l + of_bool (v < 0)) div 2" using True mo(2) by auto
      then have "min a (int m + (32768 - l + of_bool (v < 0)) div 2) = a" by linarith
      then show ?thesis by (simp add: laplace_clamp_def ml a_def sgn_if)
    qed
    have ws: "w32 (fl + ((g + 1) AND NOT s)) = fl + (if v < 0 then 0 else g + 1)"
      using bb fi pa(2) by (cases "v < 0") (auto simp: s_def w32_id)
    show ?thesis using False True g pa(1) b unfolding c
      by (simp add: ec_laplace_interval_def Let_def s_def [symmetric] a(2) w laplace_place_def ml a_def [symmetric] LAPLACE_MINP_def LAPLACE_LOG_MINP_def ws)
  next
    case tl: False
    then have p: "p = m" "fl = l" "g = 0" using a(1) lb b by (auto simp: p_def)
    define n where "n = (32768 - l + of_bool (v < 0)) div (2 :: int)"
    define di where "di = min (a - (int m + 1)) (n - 1)"
    have n: "1 \<le> n" "2 * n \<le> 32768 - l + of_bool (v < 0)" using mo(2) by (auto simp: n_def)
    have di: "0 \<le> di" "di \<le> n - 1" using tl n(1) by (auto simp: di_def)
    have q: "s32 (w32 (32768 - l + 1 - 1) div 2 ^ 0) = 32768 - l" using l0 mo(2) by (simp add: w32_id s32_def)
    have ss: "(32768 - l - s) div 2 = n" by (simp add: s_def n_def)
    have e: "2 * di + 1 + s = 2 * di + of_bool (v > 0)" using False by (simp add: s_def)
    have le: "l + (2 * di + of_bool (v > 0)) < 32768" using di(2) n(2) False by (cases "v < 0") auto
    then have wl: "w32 (l + (2 * di + of_bool (v > 0))) = l + 2 * di + of_bool (v > 0)" using l0 di(1) by (simp add: w32_id)
    have wf: "min 1 (w32 (32768 - (l + 2 * di + of_bool (v > 0)))) = 1"
    proof -
      have "w32 (32768 - (l + 2 * di + of_bool (v > 0))) = 32768 - (l + 2 * di + of_bool (v > 0))" using le l0 di(1) by (intro w32_id) auto
      then show ?thesis using le by simp
    qed
    have c: "laplace_clamp fs decay v = sgn v * (int m + 1 + di)"
    proof -
      have "min a (int m + n) = int m + 1 + di" by (simp add: di_def)
      then show ?thesis by (simp add: laplace_clamp_def ml a_def [symmetric] n_def [symmetric])
    qed
    have v: "(int m + 1 + di + s) XOR s = laplace_clamp fs decay v" using False unfolding c by (auto simp: s_def xor_sign sgn_if not_eq_complement)
    have cp: "laplace_place fs decay (laplace_clamp fs decay v) = (l + 2 * di + of_bool (v > 0), 1)"
    proof -
      have "\<bar>laplace_clamp fs decay v\<bar> = int m + 1 + di" "laplace_clamp fs decay v \<noteq> 0" "(laplace_clamp fs decay v > 0) = (v > 0)"
        using False di(1) unfolding c by (auto simp: sgn_if abs_mult)
      moreover have "\<not> nat (int m + 1 + di) \<le> m" using di(1) by linarith
      ultimately show ?thesis by (simp add: laplace_place_def ml)
    qed
    have "ec_laplace_interval v fs decay = (l + 2 * di + of_bool (v > 0), 1, laplace_clamp fs decay v)"
      using False by (simp add: ec_laplace_interval_def Let_def s_def [symmetric] a(2) w p LAPLACE_MINP_def LAPLACE_LOG_MINP_def q [simplified] ss di_def [symmetric] e wl wf v)
    then show ?thesis by (simp add: cp)
  qed
qed

section \<open>The decoder's search\<close>

lemma search_block:
  assumes f: "laplace_fits fs decay" "laplace_last fs decay = (m, l)" and b: "laplace_block fs decay j = (fl, g)" "j \<le> p"
    and p: "p \<le> m" "laplace_block fs decay p = (fl', g')" "fl' \<le> fm" "p < m \<Longrightarrow> fm < fl' + 2 * g' + 2"
  shows "ec_laplace_search decay fm (int j + 1) fl (g + 1) = Some (int p + 1, fl', g' + 1)"
  using b
proof (induction "p - j" arbitrary: j fl g)
  case 0
  then have j: "j = p" "fl' = fl" "g' = g" using p(2) by auto
  have mo: "laplace_model fs decay" using f(1) by (simp add: laplace_fits_def)
  note fi = block_fits(1) [OF f _ 0(2)] and bb = block_bounds [OF mo 0(2)]
  have "\<not> (g + 1 > LAPLACE_MINP \<and> fm \<ge> w32 (fl + 2 * (g + 1)))"
  proof (cases "p = m")
    case True
    then have "g = 0" using laplace_last_block(1) [OF mo f(2)] 0(2) j by simp
    then show ?thesis by (simp add: LAPLACE_MINP_def LAPLACE_LOG_MINP_def)
  next
    case False
    then have "fm < fl + 2 * g + 2" using p(1,4) j by simp
    moreover have "w32 (fl + 2 * (g + 1)) = fl + 2 * g + 2" using fi bb p(1) j(1) by (simp add: w32_id)
    ultimately show ?thesis by simp
  qed
  then have "ec_laplace_search decay fm (int j + 1) fl (g + 1) = Some (int j + 1, fl, g + 1)" by (subst ec_laplace_search.simps) (simp only: if_False)
  then show ?case using j by simp
next
  case (Suc n)
  have mo: "laplace_model fs decay" using f(1) by (simp add: laplace_fits_def)
  have j: "j < p" "j < m" using Suc(2) p(1) by auto
  have g: "0 < g" using laplace_last_block(2) [OF mo f(2) j(2)] Suc(3) by simp
  note bb = block_bounds [OF mo Suc(3)] and fi = block_fits(1) [OF f _ Suc(3)] and bs = block_Suc [OF Suc(3)]
  have "fst (laplace_block fs decay (Suc j)) \<le> fl'" using block_mono [OF mo, of "Suc j" p] j(1) p(2) by simp
  then have fm: "fl + 2 * g + 2 \<le> fm" using bs p(3) by simp
  have w: "w32 (fl + 2 * (g + 1)) = fl + 2 * g + 2" "w32 ((g + 1) * 2) = 2 * g + 2" "w32 (fl + (2 * g + 2)) = fl + 2 * g + 2" "w32 (2 * g + 2 - 2) = 2 * g"
    using bb fi j(2) by (simp_all add: w32_id)
  define x where "x = 2 * g * decay div 2 ^ 15"
  have "0 \<le> x" "x \<le> 16384" using block_bounds(2,3) [OF mo bs] by (simp_all add: x_def)
  then have w1: "w32 (x + 1) = x + 1" by (simp add: w32_id)
  have wx: "w32 (2 * g * decay) div 2 ^ 15 = x" unfolding freq_w32 [OF mo bb(2,3)] x_def ..
  have "ec_laplace_search decay fm (int j + 1) fl (g + 1) = ec_laplace_search decay fm (int (Suc j) + 1) (fl + 2 * g + 2) (x + 1)"
    using g fm w w1 wx
    by (subst ec_laplace_search.simps) (simp add: Let_def LAPLACE_MINP_def LAPLACE_LOG_MINP_def decay_w32 [OF mo])
  also have "\<dots> = Some (int p + 1, fl', g' + 1)" by (rule Suc(1)) (use Suc(2) j(1) bs [folded x_def] in auto)
  finally show ?case .
qed

lemma clamped_tail:
  assumes "laplace_last fs decay = (m, l)" "laplace_clamp fs decay v = v" "\<not> nat \<bar>v\<bar> \<le> m"
  shows "l + 2 * (\<bar>v\<bar> - 1 - int m) + of_bool (v > 0) + 1 \<le> 32768"
proof -
  have v: "v \<noteq> 0" using assms(3) by auto
  then have "min \<bar>v\<bar> (int m + (32768 - l + of_bool (v < 0)) div 2) = \<bar>v\<bar>"
    using assms(1,2) by (auto simp: laplace_clamp_def sgn_if split: if_splits)
  moreover define t :: int where "t = 32768 - l + of_bool (v < 0)"
  ultimately have "\<bar>v\<bar> - int m \<le> t div 2" by linarith
  then have "2 * (\<bar>v\<bar> - int m) \<le> 2 * (t div 2)" by (rule mult_left_mono) simp
  also have "2 * (t div 2) \<le> t" by presburger
  finally have "2 * (\<bar>v\<bar> - int m) \<le> 32768 - l + of_bool (v < 0)" unfolding t_def .
  then show ?thesis using v by (cases "v < 0") auto
qed

lemma place_bounds:
  assumes f: "laplace_fits fs decay" and c: "laplace_clamp fs decay v = v" and p: "laplace_place fs decay v = (fl, g)"
  shows "0 \<le> fl" "0 < g" "fl + g \<le> 32768"
proof -
  obtain m l where ml: "laplace_last fs decay = (m, l)" by fastforce
  have mo: "laplace_model fs decay" using f by (simp add: laplace_fits_def)
  have lb: "laplace_block fs decay m = (l, 0)" using laplace_last_block(1) [OF mo ml] .
  obtain bl bf where b: "laplace_block fs decay (nat \<bar>v\<bar> - 1) = (bl, bf)" by fastforce
  have "0 \<le> fl \<and> 0 < g \<and> fl + g \<le> 32768"
  proof (cases "nat \<bar>v\<bar> \<le> m")
    case True
    then have le: "nat \<bar>v\<bar> - 1 \<le> m" by simp
    show ?thesis using True p b ml block_bounds [OF mo b] block_fits(1) [OF f ml le b] mo
      by (auto simp: laplace_place_def laplace_model_def split: if_splits)
  next
    case False
    then show ?thesis using p ml clamped_tail [OF ml c False] block_bounds(1) [OF mo lb] by (auto simp: laplace_place_def split: if_splits)
  qed
  then show "0 \<le> fl" "0 < g" "fl + g \<le> 32768" by auto
qed

lemma find_place:
  assumes f: "laplace_fits fs decay" and c: "laplace_clamp fs decay v = v" and p: "laplace_place fs decay v = (fl, g)" and fm: "fl \<le> fm" "fm < fl + g"
  shows "ec_laplace_find fm fs decay = Some (v, fl, g)"
proof (cases "v = 0")
  case True
  then show ?thesis using p fm by (simp add: laplace_place_def ec_laplace_find_def)
next
  case False
  obtain m l where ml: "laplace_last fs decay = (m, l)" by fastforce
  have mo: "laplace_model fs decay" using f by (simp add: laplace_fits_def)
  define q where "q = min m (nat \<bar>v\<bar> - 1)"
  obtain bl bf where b: "laplace_block fs decay q = (bl, bf)" by fastforce
  have lb: "laplace_block fs decay m = (l, 0)" using laplace_last_block(1) [OF mo ml] .
  note bb = block_bounds [OF mo b] and fi = block_fits(1) [OF f ml _ b] and pb = place_bounds [OF f c p]
  have q: "q \<le> m" by (simp add: q_def)
  have in_block: "bl \<le> fm \<and> (q < m \<longrightarrow> fm < bl + 2 * bf + 2)"
  proof (cases "nat \<bar>v\<bar> \<le> m")
    case True
    then have "q = nat \<bar>v\<bar> - 1" by (simp add: q_def)
    then show ?thesis using p fm b ml True False bb by (auto simp: laplace_place_def split: if_splits)
  next
    case tl: False
    then have "q = m" by (simp add: q_def)
    then show ?thesis using p fm b ml tl False lb by (auto simp: laplace_place_def split: if_splits)
  qed
  have "fs \<le> bl" using block_mono [OF mo, of 0 q] freq1_eq [OF mo] b by simp
  then have ge: "fm \<ge> fs" using in_block by simp
  have "0 \<le> ec_laplace_get_freq1 fs decay \<and> ec_laplace_get_freq1 fs decay \<le> 16384" using block_bounds(2,3) [OF mo freq1_eq [OF mo]] by simp
  then have "w32 (ec_laplace_get_freq1 fs decay + LAPLACE_MINP) = ec_laplace_get_freq1 fs decay + 1" by (simp add: w32_id LAPLACE_MINP_def LAPLACE_LOG_MINP_def)
  moreover have "ec_laplace_search decay fm (int 0 + 1) fs (ec_laplace_get_freq1 fs decay + 1) = Some (int q + 1, bl, bf + 1)"
    by (rule search_block [OF f ml freq1_eq [OF mo] _ q b]) (use in_block in auto)
  ultimately have s: "ec_laplace_search decay fm 1 fs (w32 (ec_laplace_get_freq1 fs decay + LAPLACE_MINP)) = Some (int q + 1, bl, bf + 1)" by simp
  show ?thesis
  proof (cases "nat \<bar>v\<bar> \<le> m")
    case True
    then have qv: "q = nat \<bar>v\<bar> - 1" "q < m" using False by (auto simp: q_def)
    have g: "0 < bf" using laplace_last_block(2) [OF mo ml qv(2)] b by simp
    have pl: "fl = bl + (if v < 0 then 0 else bf + 1)" "g = bf + 1" using p b ml True False qv(1) by (auto simp: laplace_place_def)
    have w: "w32 (bl + (bf + 1)) = bl + bf + 1" using bb fi qv(2) by (simp add: w32_id)
    have vq: "v = (if v < 0 then - (int q + 1) else int q + 1)" using False qv(1) by auto
    show ?thesis using ge s g w pl fm vq by (auto simp: ec_laplace_find_def LAPLACE_MINP_def LAPLACE_LOG_MINP_def split: if_splits)
  next
    case tl: False
    then have qm: "q = m" "bl = l" "bf = 0" using b lb by (auto simp: q_def)
    define di where "di = \<bar>v\<bar> - 1 - int m"
    have pl: "fl = l + 2 * di + of_bool (v > 0)" "g = 1" "fm = fl" using p ml tl False fm by (auto simp: laplace_place_def di_def split: if_splits)
    have di: "0 \<le> di" "di < 32768" using tl pl(1,2) pb(3) block_bounds(1) [OF mo lb] by (cases "v > 0"; simp add: di_def)+
    have l0: "0 < l" "l \<le> fm" using block_bounds(1) [OF mo lb] pl di(1) by auto
    have w: "w32 (fm - l) = 2 * di + of_bool (v > 0)" using pl di by (simp add: w32_id)
    have d2: "s32 ((2 * di + of_bool (v > 0)) div 2) = di" using di by (simp add: s32_def)
    have w2: "w32 (l + 2 * di) = l + 2 * di" "w32 (l + 2 * di + 1) = l + 2 * di + 1" using pb(3) pl l0 di by (cases "v > 0"; simp add: w32_id)+
    have vq: "v = (if v < 0 then - (int m + 1 + di) else int m + 1 + di)" using False by (auto simp: di_def)
    show ?thesis using ge s qm w d2 w2 pl vq False by (auto simp: ec_laplace_find_def LAPLACE_MINP_def LAPLACE_LOG_MINP_def split: if_splits)
  qed
qed

end
