(* ===== verification/Opus_Laplace_Code.thy ===== *)
theory Opus_Laplace_Code
  imports Opus_Laplace
begin

text \<open>The Laplace coders over the range coder: each value encoded is the value decoded.\<close>

section \<open>The interval over the range coder\<close>

text \<open>A decoder that finds its symbol from the number returned by \<open>ec_decode_bin\<close>.\<close>

lemma binary_both:
  assumes "coder_inv e" "0 \<le> fl" "fl < fh" "fh \<le> 2 ^ bits" "bits \<le> 23" "ec_encode_bin e fl fh bits = Some f" "coder_ok f"
  shows "both e (\<lambda>d. let (d, x) = ec_decode_bin d bits in if fl \<le> x \<and> x < fh then do { d \<leftarrow> ec_dec_update d fl fh (2 ^ bits); Some (d, ()) } else None) () f"
proof -
  define look where "look = (\<lambda>x. if fl \<le> x \<and> x < fh then (fl, fh) else (-1, -1))"
  have "found look fl fh" by (auto simp: found_def list_all_iff look_def)
  with assms have v: "valid_value (Ask_binary bits look) (Symbol fl fh)" by simp
  have e: "encode_value e (Ask_binary bits look) (Symbol fl fh) = Some f" using assms(6) by simp
  have "value_both e (Ask_binary bits look) (Symbol fl fh) f" by (rule value_both_step [OF assms(1) v e assms(7)])
  then show ?thesis unfolding value_both_iff
  proof (rule both_cong)
    fix d d' assume "decode_value d (Ask_binary bits look) = Some (d', Symbol fl fh)"
    then show "(let (d, x) = ec_decode_bin d bits in if fl \<le> x \<and> x < fh then do { d \<leftarrow> ec_dec_update d fl fh (2 ^ bits); Some (d, ()) } else None) = Some (d', ())"
      using assms(2) by (auto simp: look_def Let_def bind_eq_Some_conv split: prod.splits if_splits)
  qed
qed

lemma laplace_encode_eq:
  assumes "laplace_fits fs decay" "laplace_place fs decay (laplace_clamp fs decay v) = (fl, g)"
  shows "ec_laplace_encode e v fs decay = do { e \<leftarrow> ec_encode_bin e fl (w32 (fl + g)) 15; Some (e, laplace_clamp fs decay v) }"
  using interval_place [OF assms(1), of v] assms(2) by (simp add: ec_laplace_encode_def)

lemma clamp_clamp: "laplace_fits fs decay \<Longrightarrow> laplace_clamp fs decay (laplace_clamp fs decay v) = laplace_clamp fs decay v"
proof -
  assume f: "laplace_fits fs decay"
  obtain m l where ml: "laplace_last fs decay = (m, l)" by fastforce
  then have l: "l \<le> 32766" using f by (simp add: laplace_fits_def)
  define n where "n = int m + (32768 - l + of_bool (v < 0)) div 2"
  have "1 \<le> (32768 - l + of_bool (v < 0)) div (2 :: int)" using l by auto
  then have n: "0 < n" unfolding n_def by linarith
  have c: "laplace_clamp fs decay v = sgn v * min \<bar>v\<bar> n" by (simp add: laplace_clamp_def ml n_def)
  show ?thesis
  proof (cases "v = 0")
    case False
    have s: "\<bar>laplace_clamp fs decay v\<bar> = min \<bar>v\<bar> n" "sgn (laplace_clamp fs decay v) = sgn v" "(laplace_clamp fs decay v < 0) = (v < 0)"
      using False n unfolding c by (auto simp: abs_mult sgn_mult sgn_if min_def)
    show ?thesis unfolding laplace_clamp_def [of fs decay "laplace_clamp fs decay v"] s ml prod.case n_def [symmetric] by (simp add: c)
  qed (simp add: laplace_clamp_def split: prod.splits)
qed

lemma laplace_both:
  assumes "coder_inv e" "laplace_fits fs decay" "laplace_clamp fs decay v = v" "ec_laplace_encode e v fs decay = Some (f, v')" "coder_ok f"
  shows "v' = v" "both e (\<lambda>d. ec_laplace_decode d fs decay) v f"
proof -
  obtain fl g where p: "laplace_place fs decay v = (fl, g)" by fastforce
  note b = place_bounds [OF assms(2,3) p]
  have w: "w32 (fl + g) = fl + g" using b by (simp add: w32_id)
  have e: "ec_encode_bin e fl (fl + g) 15 = Some f" and v: "v' = v"
    using assms(4) laplace_encode_eq [OF assms(2), of v fl g] p assms(3) w by (auto simp: bind_eq_Some_conv)
  show "v' = v" by (rule v)
  have "both e (\<lambda>d. let (d, x) = ec_decode_bin d 15 in if fl \<le> x \<and> x < fl + g then do { d \<leftarrow> ec_dec_update d fl (fl + g) (2 ^ 15); Some (d, ()) } else None) () f"
    by (rule binary_both) (use assms(1,5) e b in auto)
  then show "both e (\<lambda>d. ec_laplace_decode d fs decay) v f"
  proof (rule both_cong)
    fix d d' assume "(let (d, x) = ec_decode_bin d 15 in if fl \<le> x \<and> x < fl + g then do { d \<leftarrow> ec_dec_update d fl (fl + g) (2 ^ 15); Some (d, ()) } else None) = Some (d', ())"
    then obtain d1 x where d: "ec_decode_bin d 15 = (d1, x)" "fl \<le> x" "x < fl + g" "ec_dec_update d1 fl (fl + g) 32768 = Some d'"
      by (auto simp: Let_def bind_eq_Some_conv split: prod.splits if_splits)
    have "ec_laplace_find x fs decay = Some (v, fl, g)" by (rule find_place [OF assms(2,3) p d(2,3)])
    then show "ec_laplace_decode d fs decay = Some (d', v)" using d(1,4) w b(3) by (simp add: ec_laplace_decode_def min_def)
  qed
qed

lemma laplace_total:
  assumes "coder_ready e" "laplace_fits fs decay"
  shows "\<exists>f. ec_laplace_encode e v fs decay = Some (f, laplace_clamp fs decay v) \<and> coder_ready f"
proof -
  obtain fl g where p: "laplace_place fs decay (laplace_clamp fs decay v) = (fl, g)" by fastforce
  note b = place_bounds [OF assms(2) clamp_clamp [OF assms(2)] p]
  have "\<exists>f. ec_encode e fl (fl + g) (2 ^ 15) = Some f \<and> coder_ready f" by (rule encode_ready) (use assms(1) b in auto)
  then show ?thesis using laplace_encode_eq [OF assms(2) p, of e] b by (auto simp: encode_bin_eq w32_id)
qed

lemma laplace_back: "ec_laplace_encode e v fs decay = Some (f, v') \<Longrightarrow> coder_ok f \<Longrightarrow> coder_ok e"
  by (auto simp: ec_laplace_encode_def encode_bin_eq coder_ok_def bind_eq_Some_conv split: prod.splits dest!: encode_back)

section \<open>The version with two tables\<close>

lemma laplace_sign_valid:
  assumes "0 < p0" "p0 \<le> 32766"
  shows "valid_icdf (laplace_sign_icdf p0) 15" "s < 3 \<Longrightarrow> icdf_symbol s (laplace_sign_icdf p0) 15"
proof -
  have m: "laplace_sign_icdf p0 = [32768 - p0, (32768 - p0) div 2, 0]" using assms by (simp add: laplace_sign_icdf_def Let_def)
  have d: "(32768 - p0) div 2 < 32768 - p0" "0 < (32768 - p0) div 2" using assms by auto
  show "valid_icdf (laplace_sign_icdf p0) 15" using d assms unfolding m by (auto simp: valid_icdf_def)
  show "s < 3 \<Longrightarrow> icdf_symbol s (laplace_sign_icdf p0) 15" using d assms unfolding m
    by (auto simp: icdf_symbol_def less_Suc_eq numeral_3_eq_3)
qed

lemma icdf_from_decreasing:
  assumes "0 \<le> decay" "decay < 32768" "int n < x" "x \<le> 32767"
  shows "sorted_wrt (>) (x # laplace_icdf_from n decay x)" "length (laplace_icdf_from n decay x) = n + 1" "last (laplace_icdf_from n decay x) = 0"
proof -
  have "sorted_wrt (>) (x # laplace_icdf_from n decay x) \<and> length (laplace_icdf_from n decay x) = n + 1 \<and> last (laplace_icdf_from n decay x) = 0 \<and>
      laplace_icdf_from n decay x \<noteq> []"
    using assms(3,4)
  proof (induction n arbitrary: x)
    case 0
    then show ?case by simp
  next
    case (Suc n)
    define y where "y = max (int (Suc n)) (x * decay div 2 ^ 15)"
    have "x * decay < x * 2 ^ 15" using assms(2) Suc(2) by (intro mult_strict_left_mono) auto
    then have "x * decay div 2 ^ 15 < x" by (intro div_less_mult) auto
    then have y: "int n < y" "y < x" "y \<le> 32767" "0 \<le> y" using Suc(2,3) by (auto simp: y_def)
    have l: "laplace_icdf_from (Suc n) decay x = y # laplace_icdf_from n decay y" using y by (simp only: laplace_icdf_from.simps Let_def y_def [symmetric]) simp
    show ?case using Suc(1) [OF y(1,3)] y(2) unfolding l by (auto simp: less_trans)
  qed
  then show "sorted_wrt (>) (x # laplace_icdf_from n decay x)" "length (laplace_icdf_from n decay x) = n + 1" "last (laplace_icdf_from n decay x) = 0" by auto
qed

lemma laplace_icdf_valid:
  assumes "0 \<le> decay" "decay < 32768"
  shows "valid_icdf (laplace_icdf decay) 15" "s \<le> 7 \<Longrightarrow> icdf_symbol s (laplace_icdf decay) 15"
proof -
  define x where "x = max 7 decay"
  have x: "6 < x" "x \<le> 32767" using assms by (auto simp: x_def)
  have l: "laplace_icdf decay = x # laplace_icdf_from 6 decay x" using x by (simp add: laplace_icdf_def Let_def x_def [symmetric])
  note d = icdf_from_decreasing [OF assms _ x(2), of 6, simplified, OF x(1)]
  have s: "sorted_wrt (>) (2 ^ 15 # laplace_icdf decay)" "length (laplace_icdf decay) = 8" using d x unfolding l by auto
  then have "sorted_wrt (\<ge>) (2 ^ 15 # laplace_icdf decay)" by (intro sorted_wrt_mono_rel [of _ "(>)" "(\<ge>)"]) auto
  moreover have "last (laplace_icdf decay) = 0" using d(2,3) unfolding l by auto
  ultimately show "valid_icdf (laplace_icdf decay) 15" using s(2) unfolding valid_icdf_def by auto
  assume "s \<le> 7"
  then show "icdf_symbol s (laplace_icdf decay) 15"
    using sorted_wrt_nth_less [OF s(1), of s "s + 1"] s(2) by (simp add: icdf_symbol_def)
qed

lemma icdf_both':
  assumes "coder_inv e" "valid_icdf icdf 15" "icdf_symbol y icdf 15" "ec_enc_icdf e y icdf 15 = Some f" "coder_ok f"
  shows "both e (\<lambda>d. ec_dec_icdf d icdf 15) y f"
  using icdf_both [OF assms(1-3) _ assms(4,5)] unfolding value_both_iff
  by (auto elim!: both_cong simp: bind_eq_Some_conv)

lemma icdf_ready: "coder_ready e \<Longrightarrow> valid_icdf icdf 15 \<Longrightarrow> icdf_symbol y icdf 15 \<Longrightarrow> \<exists>f. ec_enc_icdf e y icdf 15 = Some f \<and> coder_ready f"
  using encode_value_total [of e "Ask_icdf icdf 15" "Index y"] by simp

lemma icdf_back: "ec_enc_icdf e y icdf 15 = Some f \<Longrightarrow> coder_ok f \<Longrightarrow> coder_ok e"
  using encode_value_back [of e "Ask_icdf icdf 15" "Index y" f] by simp

lemma p0_loop_both:
  assumes "valid_icdf icdf 15" "\<And>s. s \<le> 7 \<Longrightarrow> icdf_symbol s icdf 15" "0 \<le> v"
  shows "coder_ready e \<Longrightarrow> \<exists>f. ec_laplace_p0_loop e icdf v = Some f \<and> coder_ready f"
    "ec_laplace_p0_loop e icdf v = Some f \<Longrightarrow> coder_ok f \<Longrightarrow> coder_ok e"
    "coder_inv e \<Longrightarrow> ec_laplace_p0_loop e icdf v = Some f \<Longrightarrow> coder_ok f \<Longrightarrow> both e (\<lambda>d. ec_laplace_p0_read d icdf w) (w + v) f"
proof -
  have "(coder_ready e \<longrightarrow> (\<exists>f. ec_laplace_p0_loop e icdf v = Some f \<and> coder_ready f)) \<and>
    (\<forall>f. ec_laplace_p0_loop e icdf v = Some f \<longrightarrow> coder_ok f \<longrightarrow> coder_ok e) \<and>
    (\<forall>f w. coder_inv e \<longrightarrow> ec_laplace_p0_loop e icdf v = Some f \<longrightarrow> coder_ok f \<longrightarrow> both e (\<lambda>d. ec_laplace_p0_read d icdf w) (w + v) f)"
    using assms(3)
  proof (induction "nat v" arbitrary: v e rule: less_induct)
    case less
    define k where "k = nat (min v 7)"
    have k: "k \<le> 7" "int k = min v 7" using less(2) by (auto simp: k_def)
    note sy = assms(2) [OF k(1)]
    have u: "ec_laplace_p0_loop e icdf v = do { e \<leftarrow> ec_enc_icdf e k icdf 15; if v - 7 \<ge> 0 then ec_laplace_p0_loop e icdf (v - 7) else Some e }" for e
      by (subst ec_laplace_p0_loop.simps) (simp add: k_def Let_def)
    have ih: "(coder_ready g \<longrightarrow> (\<exists>f. ec_laplace_p0_loop g icdf (v - 7) = Some f \<and> coder_ready f)) \<and>
      (\<forall>f. ec_laplace_p0_loop g icdf (v - 7) = Some f \<longrightarrow> coder_ok f \<longrightarrow> coder_ok g) \<and>
      (\<forall>f w. coder_inv g \<longrightarrow> ec_laplace_p0_loop g icdf (v - 7) = Some f \<longrightarrow> coder_ok f \<longrightarrow> both g (\<lambda>d. ec_laplace_p0_read d icdf w) (w + (v - 7)) f)"
      if "v - 7 \<ge> 0" for g using that by (intro less(1)) auto
    show ?case
    proof (intro conjI allI impI)
      assume "coder_ready e"
      then obtain g where "ec_enc_icdf e k icdf 15 = Some g" "coder_ready g" using icdf_ready assms(1) sy by blast
      then show "\<exists>f. ec_laplace_p0_loop e icdf v = Some f \<and> coder_ready f" using ih [of g] by (auto simp: u)
    next
      fix f assume "ec_laplace_p0_loop e icdf v = Some f" "coder_ok f"
      then obtain g where g: "ec_enc_icdf e k icdf 15 = Some g" "(if v - 7 \<ge> 0 then ec_laplace_p0_loop g icdf (v - 7) else Some g) = Some f"
        by (auto simp: u bind_eq_Some_conv)
      then have "coder_ok g" using ih [of g] \<open>coder_ok f\<close> by (auto split: if_splits)
      then show "coder_ok e" using icdf_back g(1) by blast
    next
      fix f w assume a: "coder_inv e" "ec_laplace_p0_loop e icdf v = Some f" "coder_ok f"
      then obtain g where g: "ec_enc_icdf e k icdf 15 = Some g" "(if v - 7 \<ge> 0 then ec_laplace_p0_loop g icdf (v - 7) else Some g) = Some f"
        by (auto simp: u bind_eq_Some_conv)
      then have ok: "coder_ok g" using ih [of g] a(3) by (auto split: if_splits)
      have b: "both e (\<lambda>d. ec_dec_icdf d icdf 15) k g" by (rule icdf_both' [OF a(1) assms(1) sy g(1) ok])
      have r: "ec_laplace_p0_read d icdf w = do { (d, x) \<leftarrow> ec_dec_icdf d icdf 15; if x = 7 then ec_laplace_p0_read d icdf (w + int x) else Some (d, w + int x) }" for d
        by (subst ec_laplace_p0_read.simps) (simp add: Let_def)
      have "both g (\<lambda>d. if k = 7 then ec_laplace_p0_read d icdf (w + int k) else Some (d, w + int k)) (w + v) f"
      proof (cases "v - 7 \<ge> 0")
        case True
        then have k7: "k = 7" using k by simp
        have "both g (\<lambda>d. ec_laplace_p0_read d icdf (w + 7)) (w + 7 + (v - 7)) f"
          by (rule conjunct2 [OF conjunct2 [OF ih [OF True]], rule_format]) (use g(2) True a(3) b in \<open>auto simp: both_def\<close>)
        then show ?thesis by (simp add: k7)
      next
        case False
        then have "k \<noteq> 7" "int k = v" "g = f" using k g(2) by auto
        then show ?thesis using b by (auto simp: both_def)
      qed
      from both_seq [OF b, of "\<lambda>d x. if x = 7 then ec_laplace_p0_read d icdf (w + int x) else Some (d, w + int x)", OF this] show "both e (\<lambda>d. ec_laplace_p0_read d icdf w) (w + v) f" unfolding r .
    qed
  qed
  then show "coder_ready e \<Longrightarrow> \<exists>f. ec_laplace_p0_loop e icdf v = Some f \<and> coder_ready f"
    "ec_laplace_p0_loop e icdf v = Some f \<Longrightarrow> coder_ok f \<Longrightarrow> coder_ok e"
    "coder_inv e \<Longrightarrow> ec_laplace_p0_loop e icdf v = Some f \<Longrightarrow> coder_ok f \<Longrightarrow> both e (\<lambda>d. ec_laplace_p0_read d icdf w) (w + v) f" by blast+
qed

definition laplace_p0_model :: "int \<Rightarrow> int \<Rightarrow> bool" where
  "laplace_p0_model p0 decay \<longleftrightarrow> 0 < p0 \<and> p0 \<le> 32766 \<and> 0 \<le> decay \<and> decay < 32768"

definition laplace_sign :: "int \<Rightarrow> nat" where
  "laplace_sign v = (if v = 0 then 0 else if v > 0 then 1 else 2)"

lemma laplace_sign_less: "laplace_sign v < 3" by (simp add: laplace_sign_def)

lemma encode_p0_eq: "ec_laplace_encode_p0 e v p0 decay =
    do { e \<leftarrow> ec_enc_icdf e (laplace_sign v) (laplace_sign_icdf p0) 15; if v \<noteq> 0 then ec_laplace_p0_loop e (laplace_icdf decay) (\<bar>v\<bar> - 1) else Some e }"
  by (simp add: ec_laplace_encode_p0_def laplace_sign_def Let_def)

lemma laplace_p0_both:
  assumes "laplace_p0_model p0 decay"
  shows "coder_ready e \<Longrightarrow> \<exists>f. ec_laplace_encode_p0 e v p0 decay = Some f \<and> coder_ready f"
    "ec_laplace_encode_p0 e v p0 decay = Some f \<Longrightarrow> coder_ok f \<Longrightarrow> coder_ok e"
    "coder_inv e \<Longrightarrow> ec_laplace_encode_p0 e v p0 decay = Some f \<Longrightarrow> coder_ok f \<Longrightarrow> both e (\<lambda>d. ec_laplace_decode_p0 d p0 decay) v f"
proof -
  have m: "0 < p0" "p0 \<le> 32766" "0 \<le> decay" "decay < 32768" using assms by (auto simp: laplace_p0_model_def)
  note sv = laplace_sign_valid(1) [OF m(1,2)] laplace_sign_valid(2) [OF m(1,2) laplace_sign_less] and iv = laplace_icdf_valid [of decay]
  note lp = p0_loop_both [OF iv(1) [OF m(3,4)] iv(2) [OF m(3,4)], of "\<bar>v\<bar> - 1"]
  show "\<exists>f. ec_laplace_encode_p0 e v p0 decay = Some f \<and> coder_ready f" if r: "coder_ready e"
  proof -
    obtain g where g: "ec_enc_icdf e (laplace_sign v) (laplace_sign_icdf p0) 15 = Some g" "coder_ready g" using icdf_ready [OF r sv(1) sv(2)] by blast
    then show ?thesis using lp(1) [of g] by (auto simp: encode_p0_eq)
  qed
  show "coder_ok e" if a: "ec_laplace_encode_p0 e v p0 decay = Some f" "coder_ok f"
  proof -
    obtain g where g: "ec_enc_icdf e (laplace_sign v) (laplace_sign_icdf p0) 15 = Some g" "(if v \<noteq> 0 then ec_laplace_p0_loop g (laplace_icdf decay) (\<bar>v\<bar> - 1) else Some g) = Some f"
      using a(1) by (auto simp: encode_p0_eq bind_eq_Some_conv)
    then have "coder_ok g" using lp(2) [of g f] a(2) by (auto split: if_splits)
    then show ?thesis using icdf_back g(1) by blast
  qed
  show "both e (\<lambda>d. ec_laplace_decode_p0 d p0 decay) v f" if a: "coder_inv e" "ec_laplace_encode_p0 e v p0 decay = Some f" "coder_ok f"
  proof -
    obtain g where g: "ec_enc_icdf e (laplace_sign v) (laplace_sign_icdf p0) 15 = Some g" "(if v \<noteq> 0 then ec_laplace_p0_loop g (laplace_icdf decay) (\<bar>v\<bar> - 1) else Some g) = Some f"
      using a(2) by (auto simp: encode_p0_eq bind_eq_Some_conv)
    then have ok: "coder_ok g" using lp(2) [of g f] a(3) by (auto split: if_splits)
    have b: "both e (\<lambda>d. ec_dec_icdf d (laplace_sign_icdf p0) 15) (laplace_sign v) g" by (rule icdf_both' [OF a(1) sv(1) sv(2) g(1) ok])
    define rest where "rest = (\<lambda>d x. let s = (if x = 2 then -1 else int x)
         in if s \<noteq> 0 then do { (d, v) \<leftarrow> ec_laplace_p0_read d (laplace_icdf decay) 1; Some (d, s * v) } else Some (d, 0))"
    have "both g (\<lambda>d. rest d (laplace_sign v)) v f"
    proof (cases "v = 0")
      case True
      then show ?thesis using b g(2) by (auto simp: both_def rest_def laplace_sign_def)
    next
      case False
      have "both g (\<lambda>d. ec_laplace_p0_read d (laplace_icdf decay) 1) (1 + (\<bar>v\<bar> - 1)) f"
        using lp(3) [of g f 1] b g(2) False a(3) by (simp add: both_def [of e])
      then show ?thesis
        by (rule both_cong) (use False in \<open>auto simp: rest_def laplace_sign_def Let_def bind_eq_Some_conv\<close>)
    qed
    from both_seq [OF b, of rest, OF this] show ?thesis by (rule both_cong) (simp add: ec_laplace_decode_p0_def rest_def)
  qed
qed

end
