(* ===== verification/Opus_Cwrs.thy ===== *)
theory Opus_Cwrs
  imports Opus_Laplace_Code
begin

text \<open>
  Pulse vectors, \<open>src/Vendor/opus/celt/cwrs.c\<close>: a vector of \<open>n\<close> integers whose absolute values sum to \<open>k\<close> is numbered, and the number is
  coded as one uniform integer. The numbering looks up \<open>U(n, k)\<close> in a table; the model has the table the build compiles (without
  \<open>CUSTOM_MODES\<close> and \<open>SMALL_FOOTPRINT\<close>), one list per row, and checks all its entries against the recurrence.
\<close>

unbundle bit_operations_syntax

section \<open>The table\<close>

definition PVQ_U_DATA_0 :: "int list" where
  "PVQ_U_DATA_0 =
    1 # replicate 176 0"

definition PVQ_U_DATA_1 :: "int list" where
  "PVQ_U_DATA_1 =
    replicate 176 1"

definition PVQ_U_DATA_2 :: "int list" where
  "PVQ_U_DATA_2 =
    [3, 5, 7, 9, 11, 13, 15, 17, 19, 21, 23, 25, 27, 29, 31, 33, 35, 37, 39, 41, 43, 45, 47, 49, 51, 53, 55, 57, 59, 61, 63, 65, 67, 69, 71, 73,
     75, 77, 79, 81, 83, 85, 87, 89, 91, 93, 95, 97, 99, 101, 103, 105, 107, 109, 111, 113, 115, 117, 119, 121, 123, 125, 127, 129, 131, 133,
     135, 137, 139, 141, 143, 145, 147, 149, 151, 153, 155, 157, 159, 161, 163, 165, 167, 169, 171, 173, 175, 177, 179, 181, 183, 185, 187, 189,
     191, 193, 195, 197, 199, 201, 203, 205, 207, 209, 211, 213, 215, 217, 219, 221, 223, 225, 227, 229, 231, 233, 235, 237, 239, 241, 243, 245,
     247, 249, 251, 253, 255, 257, 259, 261, 263, 265, 267, 269, 271, 273, 275, 277, 279, 281, 283, 285, 287, 289, 291, 293, 295, 297, 299, 301,
     303, 305, 307, 309, 311, 313, 315, 317, 319, 321, 323, 325, 327, 329, 331, 333, 335, 337, 339, 341, 343, 345, 347, 349, 351]"

definition PVQ_U_DATA_3 :: "int list" where
  "PVQ_U_DATA_3 =
    [13, 25, 41, 61, 85, 113, 145, 181, 221, 265, 313, 365, 421, 481, 545, 613, 685, 761, 841, 925, 1013, 1105, 1201, 1301, 1405, 1513, 1625,
     1741, 1861, 1985, 2113, 2245, 2381, 2521, 2665, 2813, 2965, 3121, 3281, 3445, 3613, 3785, 3961, 4141, 4325, 4513, 4705, 4901, 5101, 5305,
     5513, 5725, 5941, 6161, 6385, 6613, 6845, 7081, 7321, 7565, 7813, 8065, 8321, 8581, 8845, 9113, 9385, 9661, 9941, 10225, 10513, 10805,
     11101, 11401, 11705, 12013, 12325, 12641, 12961, 13285, 13613, 13945, 14281, 14621, 14965, 15313, 15665, 16021, 16381, 16745, 17113, 17485,
     17861, 18241, 18625, 19013, 19405, 19801, 20201, 20605, 21013, 21425, 21841, 22261, 22685, 23113, 23545, 23981, 24421, 24865, 25313, 25765,
     26221, 26681, 27145, 27613, 28085, 28561, 29041, 29525, 30013, 30505, 31001, 31501, 32005, 32513, 33025, 33541, 34061, 34585, 35113, 35645,
     36181, 36721, 37265, 37813, 38365, 38921, 39481, 40045, 40613, 41185, 41761, 42341, 42925, 43513, 44105, 44701, 45301, 45905, 46513, 47125,
     47741, 48361, 48985, 49613, 50245, 50881, 51521, 52165, 52813, 53465, 54121, 54781, 55445, 56113, 56785, 57461, 58141, 58825, 59513, 60205,
     60901, 61601]"

definition PVQ_U_DATA_4 :: "int list" where
  "PVQ_U_DATA_4 =
    [63, 129, 231, 377, 575, 833, 1159, 1561, 2047, 2625, 3303, 4089, 4991, 6017, 7175, 8473, 9919, 11521, 13287, 15225, 17343, 19649, 22151,
     24857, 27775, 30913, 34279, 37881, 41727, 45825, 50183, 54809, 59711, 64897, 70375, 76153, 82239, 88641, 95367, 102425, 109823, 117569,
     125671, 134137, 142975, 152193, 161799, 171801, 182207, 193025, 204263, 215929, 228031, 240577, 253575, 267033, 280959, 295361, 310247,
     325625, 341503, 357889, 374791, 392217, 410175, 428673, 447719, 467321, 487487, 508225, 529543, 551449, 573951, 597057, 620775, 645113,
     670079, 695681, 721927, 748825, 776383, 804609, 833511, 863097, 893375, 924353, 956039, 988441, 1021567, 1055425, 1090023, 1125369,
     1161471, 1198337, 1235975, 1274393, 1313599, 1353601, 1394407, 1436025, 1478463, 1521729, 1565831, 1610777, 1656575, 1703233, 1750759,
     1799161, 1848447, 1898625, 1949703, 2001689, 2054591, 2108417, 2163175, 2218873, 2275519, 2333121, 2391687, 2451225, 2511743, 2573249,
     2635751, 2699257, 2763775, 2829313, 2895879, 2963481, 3032127, 3101825, 3172583, 3244409, 3317311, 3391297, 3466375, 3542553, 3619839,
     3698241, 3777767, 3858425, 3940223, 4023169, 4107271, 4192537, 4278975, 4366593, 4455399, 4545401, 4636607, 4729025, 4822663, 4917529,
     5013631, 5110977, 5209575, 5309433, 5410559, 5512961, 5616647, 5721625, 5827903, 5935489, 6044391, 6154617, 6266175, 6379073, 6493319,
     6608921, 6725887, 6844225, 6963943, 7085049, 7207551]"

definition PVQ_U_DATA_5 :: "int list" where
  "PVQ_U_DATA_5 =
    [321, 681, 1289, 2241, 3649, 5641, 8361, 11969, 16641, 22569, 29961, 39041, 50049, 63241, 78889, 97281, 118721, 143529, 172041, 204609,
     241601, 283401, 330409, 383041, 441729, 506921, 579081, 658689, 746241, 842249, 947241, 1061761, 1186369, 1321641, 1468169, 1626561,
     1797441, 1981449, 2179241, 2391489, 2618881, 2862121, 3121929, 3399041, 3694209, 4008201, 4341801, 4695809, 5071041, 5468329, 5888521,
     6332481, 6801089, 7295241, 7815849, 8363841, 8940161, 9545769, 10181641, 10848769, 11548161, 12280841, 13047849, 13850241, 14689089,
     15565481, 16480521, 17435329, 18431041, 19468809, 20549801, 21675201, 22846209, 24064041, 25329929, 26645121, 28010881, 29428489, 30899241,
     32424449, 34005441, 35643561, 37340169, 39096641, 40914369, 42794761, 44739241, 46749249, 48826241, 50971689, 53187081, 55473921, 57833729,
     60268041, 62778409, 65366401, 68033601, 70781609, 73612041, 76526529, 79526721, 82614281, 85790889, 89058241, 92418049, 95872041, 99421961,
     103069569, 106816641, 110664969, 114616361, 118672641, 122835649, 127107241, 131489289, 135983681, 140592321, 145317129, 150160041,
     155123009, 160208001, 165417001, 170752009, 176215041, 181808129, 187533321, 193392681, 199388289, 205522241, 211796649, 218213641,
     224775361, 231483969, 238341641, 245350569, 252512961, 259831041, 267307049, 274943241, 282741889, 290705281, 298835721, 307135529,
     315607041, 324252609, 333074601, 342075401, 351257409, 360623041, 370174729, 379914921, 389846081, 399970689, 410291241, 420810249,
     431530241, 442453761, 453583369, 464921641, 476471169, 488234561, 500214441, 512413449, 524834241, 537479489, 550351881, 563454121,
     576788929, 590359041, 604167209, 618216201, 632508801]"

definition PVQ_U_DATA_6 :: "int list" where
  "PVQ_U_DATA_6 =
    [1683, 3653, 7183, 13073, 22363, 36365, 56695, 85305, 124515, 177045, 246047, 335137, 448427, 590557, 766727, 982729, 1244979, 1560549,
     1937199, 2383409, 2908411, 3522221, 4235671, 5060441, 6009091, 7095093, 8332863, 9737793, 11326283, 13115773, 15124775, 17372905, 19880915,
     22670725, 25765455, 29189457, 32968347, 37129037, 41699767, 46710137, 52191139, 58175189, 64696159, 71789409, 79491819, 87841821, 96879431,
     106646281, 117185651, 128542501, 140763503, 153897073, 167993403, 183104493, 199284183, 216588185, 235074115, 254801525, 275831935,
     298228865, 322057867, 347386557, 374284647, 402823977, 433078547, 465124549, 499040399, 534906769, 572806619, 612825229, 655050231,
     699571641, 746481891, 795875861, 847850911, 902506913, 959946283, 1020274013, 1083597703, 1150027593, 1219676595, 1292660325, 1369097135,
     1449108145, 1532817275, 1620351277, 1711839767, 1807415257, 1907213187, 2011371957, 2120032959]"

definition PVQ_U_DATA_7 :: "int list" where
  "PVQ_U_DATA_7 =
    [8989, 19825, 40081, 75517, 134245, 227305, 369305, 579125, 880685, 1303777, 1884961, 2668525, 3707509, 5064793, 6814249, 9041957, 11847485,
     15345233, 19665841, 24957661, 31388293, 39146185, 48442297, 59511829, 72616013, 88043969, 106114625, 127178701, 151620757, 179861305,
     212358985, 249612805, 292164445, 340600625, 395555537, 457713341, 527810725, 606639529, 695049433, 793950709, 904317037, 1027188385,
     1163673953, 1314955181, 1482288821, 1667010073, 1870535785, 2094367717]"

definition PVQ_U_DATA_8 :: "int list" where
  "PVQ_U_DATA_8 =
    [48639, 108545, 224143, 433905, 795455, 1392065, 2340495, 3800305, 5984767, 9173505, 13726991, 20103025, 28875327, 40754369, 56610575,
     77500017, 104692735, 139703809, 184327311, 240673265, 311207743, 398796225, 506750351, 638878193, 799538175, 993696769, 1226990095,
     1505789553, 1837271615, 2229491905]"

definition PVQ_U_DATA_9 :: "int list" where
  "PVQ_U_DATA_9 =
    [265729, 598417, 1256465, 2485825, 4673345, 8405905, 14546705, 24331777, 39490049, 62390545, 96220561, 145198913, 214828609, 312193553,
     446304145, 628496897, 872893441, 1196924561, 1621925137, 2173806145]"

definition PVQ_U_DATA_10 :: "int list" where
  "PVQ_U_DATA_10 =
    [1462563, 3317445, 7059735, 14218905, 27298155, 50250765, 89129247, 152951073, 254831667, 413442773, 654862247, 1014889769, 1541911931,
     2300409629, 3375210671]"

definition PVQ_U_DATA_11 :: "int list" where
  "PVQ_U_DATA_11 =
    [8097453, 18474633, 39753273, 81270333, 158819253, 298199265, 540279585, 948062325, 1616336765]"

definition PVQ_U_DATA_12 :: "int list" where
  "PVQ_U_DATA_12 =
    [45046719, 103274625, 224298231, 464387817, 921406335, 1759885185, 3248227095]"

definition PVQ_U_DATA_13 :: "int list" where
  "PVQ_U_DATA_13 =
    [251595969, 579168825, 1267854873, 2653649025]"

definition PVQ_U_DATA_14 :: "int list" where
  "PVQ_U_DATA_14 =
    [1409933619]"

definition CELT_PVQ_U_DATA :: "int list" where
  "CELT_PVQ_U_DATA = PVQ_U_DATA_0 @ PVQ_U_DATA_1 @ PVQ_U_DATA_2 @ PVQ_U_DATA_3 @ PVQ_U_DATA_4 @ PVQ_U_DATA_5 @ PVQ_U_DATA_6 @ PVQ_U_DATA_7 @
     PVQ_U_DATA_8 @ PVQ_U_DATA_9 @ PVQ_U_DATA_10 @ PVQ_U_DATA_11 @ PVQ_U_DATA_12 @ PVQ_U_DATA_13 @ PVQ_U_DATA_14"

definition CELT_PVQ_U_ROW :: "nat list" where
  "CELT_PVQ_U_ROW = [0, 176, 351, 525, 698, 870, 1041, 1131, 1178, 1207, 1226, 1240, 1248, 1254, 1257]"

text \<open>\<open>CELT_PVQ_U_ROW[r][c]\<close>.\<close>

definition pvq_row :: "nat \<Rightarrow> nat \<Rightarrow> int" where
  "pvq_row r c = CELT_PVQ_U_DATA ! (CELT_PVQ_U_ROW ! r + c)"

definition CELT_PVQ_U :: "nat \<Rightarrow> nat \<Rightarrow> int" where
  "CELT_PVQ_U n k = pvq_row (min n k) (max n k)"

definition CELT_PVQ_V :: "nat \<Rightarrow> nat \<Rightarrow> int" where
  "CELT_PVQ_V n k = w32 (CELT_PVQ_U n k + CELT_PVQ_U n (k + 1))"

section \<open>The code\<close>

text \<open>The loop runs from the last entry to the first; the list is the rest of the vector, and the result the index and the pulses so far.\<close>

fun icwrs_loop :: "int list \<Rightarrow> int \<times> int" where
  "icwrs_loop [] = (0, 0)"
| "icwrs_loop [y] = (of_bool (y < 0), \<bar>y\<bar>)"
| "icwrs_loop (y # ys) =
    (let (i, k) = icwrs_loop ys; n = length ys + 1;
         i = w32 (i + CELT_PVQ_U n (nat k)); k = k + \<bar>y\<bar>
     in (if y < 0 then w32 (i + CELT_PVQ_U n (nat (k + 1))) else i, k))"

definition icwrs :: "int list \<Rightarrow> int" where "icwrs y = fst (icwrs_loop y)"

definition encode_pulses :: "ec_ctx \<Rightarrow> int list \<Rightarrow> nat \<Rightarrow> nat \<Rightarrow> ec_ctx option" where
  "encode_pulses e y n k = ec_enc_uint e (icwrs y) (CELT_PVQ_V n k)"

text \<open>The loop \<open>do p = f(--k); while(p > i)\<close>; falling below the first entry is \<open>None\<close>.\<close>

fun cwrs_down :: "(nat \<Rightarrow> int) \<Rightarrow> int \<Rightarrow> nat \<Rightarrow> (nat \<times> int) option" where
  "cwrs_down f i 0 = None"
| "cwrs_down f i (Suc k) = (if f k > i then cwrs_down f i k else Some (k, f k))"

text \<open>One dimension: the value, the pulses left and the index left.\<close>

definition cwrsi_dim :: "nat \<Rightarrow> nat \<Rightarrow> int \<Rightarrow> (int \<times> nat \<times> int) option" where
  "cwrsi_dim n k i =
    (if k \<ge> n then
       let p = pvq_row n (k + 1); s = - of_bool (i \<ge> p); i = w32 (i - (p AND s)); k0 = k; q = pvq_row n n
       in do { (k, p) \<leftarrow> (if q > i then cwrs_down (\<lambda>k. pvq_row k n) i n else cwrs_down (\<lambda>k. pvq_row n k) i (k + 1));
               Some ((int k0 - int k + s) XOR s, k, w32 (i - p)) }
     else
       let p = pvq_row k n; q = pvq_row (k + 1) n
       in if p \<le> i \<and> i < q then Some (0, k, w32 (i - p))
          else
            let s = - of_bool (i \<ge> q); i = w32 (i - (q AND s)); k0 = k
            in do { (k, p) \<leftarrow> cwrs_down (\<lambda>k. pvq_row k n) i k; Some ((int k0 - int k + s) XOR s, k, w32 (i - p)) })"

text \<open>
  The vector and the sum of its squares, which the code adds up in a floating-point number; it is exact there, as it stays below
  \<open>2 ^ 24\<close> for every vector of the table.
\<close>

fun cwrsi :: "nat \<Rightarrow> nat \<Rightarrow> int \<Rightarrow> int \<Rightarrow> (int list \<times> int) option" where
  "cwrsi n k i yy =
    (if n > 2 then
       do { (v, k, i) \<leftarrow> cwrsi_dim n k i; (ys, yy) \<leftarrow> cwrsi (n - 1) k i (yy + v * v); Some (v # ys, yy) }
     else
       let p = 2 * int k + 1; s = - of_bool (i \<ge> p); i = w32 (i - (p AND s)); k0 = int k; k = w32 (i + 1) div 2;
           i = (if k \<noteq> 0 then w32 (i - (2 * k - 1)) else i);
           v = (k0 - k + s) XOR s; yy = yy + v * v;
           s = - i; w = (k + s) XOR s
       in Some ([v, w], yy + w * w))"

definition decode_pulses :: "ec_ctx \<Rightarrow> nat \<Rightarrow> nat \<Rightarrow> (ec_ctx \<times> int list \<times> int) option" where
  "decode_pulses d n k = do { (d, i) \<leftarrow> ec_dec_uint d (CELT_PVQ_V n k); y \<leftarrow> cwrsi n k i 0; Some (d, y) }"

declare cwrsi.simps [simp del]

section \<open>The table holds the recurrence\<close>

fun pvq_u :: "nat \<Rightarrow> nat \<Rightarrow> int" where
  "pvq_u 0 0 = 1"
| "pvq_u 0 (Suc k) = 0"
| "pvq_u (Suc n) 0 = 0"
| "pvq_u (Suc n) (Suc k) = pvq_u n (Suc k) + pvq_u (Suc n) k + pvq_u n k"

text \<open>A row of the recurrence from the one before.\<close>

fun next_row :: "int \<Rightarrow> int list \<Rightarrow> int list" where
  "next_row u (a # b # ps) = (b + u + a) # next_row (b + u + a) (b # ps)"
| "next_row u _ = []"

fun u_row :: "nat \<Rightarrow> nat \<Rightarrow> int list" where
  "u_row 0 m = 1 # replicate m 0"
| "u_row (Suc n) m = 0 # next_row 0 (u_row n m)"

lemma next_row_map: "next_row (pvq_u (Suc n) c) (map (pvq_u n) [c..<Suc m]) = map (pvq_u (Suc n)) [Suc c..<Suc m]"
proof (induction "m - c" arbitrary: c)
  case 0
  then show ?case by (cases "c = m") auto
next
  case (Suc x)
  then have c: "[c..<Suc m] = c # Suc c # [Suc (Suc c)..<Suc m]" "[Suc c..<Suc m] = Suc c # [Suc (Suc c)..<Suc m]" by (simp_all add: upt_conv_Cons del: upt_Suc)
  have "next_row (pvq_u (Suc n) (Suc c)) (map (pvq_u n) [Suc c..<Suc m]) = map (pvq_u (Suc n)) [Suc (Suc c)..<Suc m]"
    using Suc(1) [of "Suc c"] Suc(2) by (simp del: upt_Suc pvq_u.simps)
  then show ?case unfolding c by (simp del: upt_Suc)
qed

lemma u_row_eq: "u_row n m = map (pvq_u n) [0..<Suc m]"
proof (induction n)
  case 0
  have "map (pvq_u 0) [Suc 0..<Suc m] = replicate m 0" by (rule nth_equalityI) (auto simp del: upt_Suc)
  then show ?case by (simp add: upt_conv_Cons del: upt_Suc)
next
  case (Suc n)
  have "next_row (pvq_u (Suc n) 0) (map (pvq_u n) [0..<Suc m]) = map (pvq_u (Suc n)) [Suc 0..<Suc m]" by (rule next_row_map)
  then show ?case using Suc by (simp add: upt_conv_Cons [of 0] del: upt_Suc)
qed

text \<open>The rows as the table stores them: row \<open>r\<close> from column \<open>r\<close> to its last.\<close>

definition pvq_last :: "nat list" where
  "pvq_last = [176, 176, 176, 176, 176, 176, 96, 54, 37, 28, 24, 19, 18, 16, 14]"

definition pvq_rows :: "int list list" where
  "pvq_rows = [PVQ_U_DATA_0, PVQ_U_DATA_1, PVQ_U_DATA_2, PVQ_U_DATA_3, PVQ_U_DATA_4, PVQ_U_DATA_5, PVQ_U_DATA_6, PVQ_U_DATA_7,
     PVQ_U_DATA_8, PVQ_U_DATA_9, PVQ_U_DATA_10, PVQ_U_DATA_11, PVQ_U_DATA_12, PVQ_U_DATA_13, PVQ_U_DATA_14]"

lemma pvq_data_0: "PVQ_U_DATA_0 = drop 0 (u_row 0 176)"
  by code_simp

lemma pvq_data_1: "PVQ_U_DATA_1 = drop 1 (u_row 1 176)"
  by code_simp

lemma pvq_data_2: "PVQ_U_DATA_2 = drop 2 (u_row 2 176)"
  by code_simp

lemma pvq_data_3: "PVQ_U_DATA_3 = drop 3 (u_row 3 176)"
  by code_simp

lemma pvq_data_4: "PVQ_U_DATA_4 = drop 4 (u_row 4 176)"
  by code_simp

lemma pvq_data_5: "PVQ_U_DATA_5 = drop 5 (u_row 5 176)"
  by code_simp

lemma pvq_data_6: "PVQ_U_DATA_6 = drop 6 (u_row 6 96)"
  by code_simp

lemma pvq_data_7: "PVQ_U_DATA_7 = drop 7 (u_row 7 54)"
  by code_simp

lemma pvq_data_8: "PVQ_U_DATA_8 = drop 8 (u_row 8 37)"
  by code_simp

lemma pvq_data_9: "PVQ_U_DATA_9 = drop 9 (u_row 9 28)"
  by code_simp

lemma pvq_data_10: "PVQ_U_DATA_10 = drop 10 (u_row 10 24)"
  by code_simp

lemma pvq_data_11: "PVQ_U_DATA_11 = drop 11 (u_row 11 19)"
  by code_simp

lemma pvq_data_12: "PVQ_U_DATA_12 = drop 12 (u_row 12 18)"
  by code_simp

lemma pvq_data_13: "PVQ_U_DATA_13 = drop 13 (u_row 13 16)"
  by code_simp

lemma pvq_data_14: "PVQ_U_DATA_14 = drop 14 (u_row 14 14)"
  by code_simp


lemmas pvq_data = pvq_data_0 pvq_data_1 pvq_data_2 pvq_data_3 pvq_data_4 pvq_data_5 pvq_data_6 pvq_data_7 pvq_data_8 pvq_data_9 pvq_data_10
  pvq_data_11 pvq_data_12 pvq_data_13 pvq_data_14

lemma u_row_drop: "drop r (u_row r m) = map (pvq_u r) [r..<Suc m]"
  unfolding u_row_eq by (simp add: drop_map)

lemma pvq_rows_eq: "r < 15 \<Longrightarrow> pvq_rows ! r = map (pvq_u r) [r..<Suc (pvq_last ! r)]"
  unfolding pvq_rows_def pvq_last_def pvq_data u_row_drop by (auto simp: less_Suc_eq numeral_eq_Suc simp del: upt_Suc pvq_u.simps)

lemma nth_concat_take:
  "r < length xs \<Longrightarrow> j < length (xs ! r) \<Longrightarrow> concat xs ! (sum_list (map length (take r xs)) + j) = xs ! r ! j"
proof (induction xs arbitrary: r)
  case (Cons x xs)
  then show ?case by (cases r) (auto simp: nth_append)
qed simp

lemma pvq_offsets: "r < 15 \<Longrightarrow> CELT_PVQ_U_ROW ! r + r = sum_list (map length (take r pvq_rows)) \<and> r \<le> pvq_last ! r"
proof -
  have "list_all (\<lambda>r. CELT_PVQ_U_ROW ! r + r = sum_list (take r (map length pvq_rows)) \<and> r \<le> pvq_last ! r) [0..<15]" by code_simp
  then show "r < 15 \<Longrightarrow> ?thesis" by (simp only: list_all_iff set_upt take_map [symmetric]) simp
qed

lemma data_concat: "CELT_PVQ_U_DATA = concat pvq_rows"
  by (simp add: CELT_PVQ_U_DATA_def pvq_rows_def)

text \<open>Every entry the table has.\<close>

lemma pvq_row_eq:
  assumes "r < 15" "r \<le> c" "c \<le> pvq_last ! r"
  shows "pvq_row r c = pvq_u r c"
proof -
  have o: "CELT_PVQ_U_ROW ! r + c = sum_list (map length (take r pvq_rows)) + (c - r)" using pvq_offsets [OF assms(1)] assms(2) by linarith
  have l: "r < length pvq_rows" "c - r < length (pvq_rows ! r)" using assms by (simp add: pvq_rows_def) (use assms in \<open>simp add: pvq_rows_eq del: upt_Suc\<close>)
  show ?thesis unfolding pvq_row_def data_concat o nth_concat_take [OF l] using assms by (simp add: pvq_rows_eq del: upt_Suc)
qed

section \<open>The recurrence\<close>

lemma pvq_u_nonneg: "0 \<le> pvq_u n k"
  by (induction n k rule: pvq_u.induct) auto

lemma pvq_u_sym: "pvq_u n k = pvq_u k n"
proof (induction n k rule: pvq_u.induct)
  case (2 k)
  then show ?case by (cases k) auto
qed auto

lemma pvq_u_step: "pvq_u (Suc n) (Suc k) = pvq_u (Suc n) k + (pvq_u n k + pvq_u n (Suc k))"
  by simp

lemma pvq_u_mono: "j \<le> k \<Longrightarrow> pvq_u (Suc n) j \<le> pvq_u (Suc n) k"
  by (rule lift_Suc_mono_le [of "pvq_u (Suc n)"]) (use pvq_u_nonneg in \<open>auto simp: add_nonneg_nonneg\<close>)

lemma pvq_u_mono2: "i \<le> n \<Longrightarrow> j \<le> k \<Longrightarrow> 0 < i \<Longrightarrow> 0 < j \<Longrightarrow> pvq_u i j \<le> pvq_u n k"
proof -
  assume a: "i \<le> n" "j \<le> k" "0 < i" "0 < j"
  then obtain i' n' j' where "i = Suc i'" "n = Suc n'" "j = Suc j'" "0 < k" by (cases i; cases n; cases j) auto
  moreover from this obtain k' where "k = Suc k'" by (cases k) auto
  ultimately show ?thesis using pvq_u_mono [of j k i'] pvq_u_mono [of i n k'] a pvq_u_sym
    by (metis (no_types, lifting) order_trans)
qed

lemma pvq_u_0: "0 < n \<Longrightarrow> pvq_u n 0 = 0" by (cases n) auto

text \<open>The number of vectors.\<close>

definition pvq_v :: "nat \<Rightarrow> nat \<Rightarrow> int" where "pvq_v n k = pvq_u n k + pvq_u n (k + 1)"

lemma pvq_u_1: "pvq_u (Suc 0) k = of_bool (k \<noteq> 0)"
proof (induction k)
  case (Suc k)
  then show ?case by (cases k) auto
qed simp

lemma pvq_v_1: "pvq_v (Suc 0) k = (if k = 0 then 1 else 2)"
  by (simp add: pvq_v_def pvq_u_1 del: pvq_u.simps)

lemma pvq_u_Suc_v: "pvq_u (Suc n) (Suc k) = pvq_u (Suc n) k + pvq_v n k"
  by (simp add: pvq_v_def)

lemma pvq_u_2: "pvq_u 2 (Suc k) = 2 * int k + 1"
proof (induction k)
  case (Suc k)
  then show ?case using pvq_u_Suc_v [of 1 "Suc k"] pvq_v_1 [of "Suc k"] by (simp add: numeral_2_eq_2 del: pvq_u.simps)
qed (simp add: numeral_2_eq_2)

section \<open>The index of a vector\<close>

definition pulses :: "int list \<Rightarrow> nat" where "pulses y = nat (\<Sum>v\<leftarrow>y. \<bar>v\<bar>)"

lemma pulses_Cons: "pulses (v # y) = nat \<bar>v\<bar> + pulses y"
proof -
  have "0 \<le> (\<Sum>v\<leftarrow>y. \<bar>v\<bar>)" by (rule sum_list_nonneg) auto
  then show ?thesis by (simp add: pulses_def nat_add_distrib)
qed

lemma pulses_Nil [simp]: "pulses [] = 0" by (simp add: pulses_def)

text \<open>The index without the reductions to 32 bits and with the recurrence for the table.\<close>

fun pvq_index :: "int list \<Rightarrow> int" where
  "pvq_index [] = 0"
| "pvq_index [y] = of_bool (y < 0)"
| "pvq_index (y # ys) = pvq_index ys + pvq_u (length ys + 1) (pulses ys) + (if y < 0 then pvq_u (length ys + 1) (pulses (y # ys) + 1) else 0)"

lemma pvq_index_bounds: "y \<noteq> [] \<Longrightarrow> 0 \<le> pvq_index y \<and> pvq_index y < pvq_v (length y) (pulses y)"
proof (induction y rule: pvq_index.induct)
  case (2 y)
  then show ?case by (auto simp: pvq_v_1 pulses_Cons)
next
  case (3 y z zs)
  define n where "n = length zs + 1"
  define a where "a = pulses (z # zs)"
  have i: "0 \<le> pvq_index (z # zs)" "pvq_index (z # zs) < pvq_v n a" using 3 by (simp_all add: n_def a_def)
  have l: "length (z # zs) + 1 = Suc n" "length (y # z # zs) = Suc n" by (simp_all add: n_def)
  have k: "pulses (y # z # zs) = nat \<bar>y\<bar> + a" by (simp add: pulses_Cons [of y] a_def)
  have u: "pvq_u (Suc n) a + pvq_v n a = pvq_u (Suc n) (a + 1)" by (simp add: pvq_u_Suc_v del: pvq_u.simps)
  have e: "pvq_index (y # z # zs) = pvq_index (z # zs) + pvq_u (Suc n) a + (if y < 0 then pvq_u (Suc n) (nat \<bar>y\<bar> + a + 1) else 0)"
    unfolding pvq_index.simps(3) l k a_def ..
  show ?case
  proof (cases "y < 0")
    case True
    then have "pvq_u (Suc n) (a + 1) \<le> pvq_u (Suc n) (nat \<bar>y\<bar> + a)" by (intro pvq_u_mono) simp
    then show ?thesis unfolding e l k pvq_v_def [of "Suc n"] using True i u pvq_u_nonneg [of "Suc n"] by (simp add: add_nonneg_nonneg del: pvq_u.simps)
  next
    case False
    have "pvq_u (Suc n) (a + 1) \<le> pvq_u (Suc n) (nat \<bar>y\<bar> + a + 1)" by (intro pvq_u_mono) simp
    then show ?thesis unfolding e l k pvq_v_def [of "Suc n"] using False i u pvq_u_nonneg [of "Suc n" a] pvq_u_nonneg [of "Suc n" "nat \<bar>y\<bar> + a"]
      by (simp del: pvq_u.simps)
  qed
qed simp

text \<open>The entries that a vector of \<open>n\<close> values and \<open>k\<close> pulses needs are in the table, and its number of vectors fits in 32 bits.\<close>

definition pvq_entry :: "nat \<Rightarrow> nat \<Rightarrow> bool" where
  "pvq_entry a b \<longleftrightarrow> min a b < 15 \<and> max a b \<le> pvq_last ! min a b"

definition pvq_fits :: "nat \<Rightarrow> nat \<Rightarrow> bool" where
  "pvq_fits n k \<longleftrightarrow> 2 \<le> n \<and> 1 \<le> k \<and> pvq_entry n (k + 1) \<and> CELT_PVQ_U n k + CELT_PVQ_U n (k + 1) < 2 ^ 32"

lemma pvq_last_mono: "r \<le> s \<Longrightarrow> s < 15 \<Longrightarrow> pvq_last ! s \<le> pvq_last ! r"
proof -
  have "sorted_wrt (\<ge>) pvq_last" by (simp add: pvq_last_def)
  then show "r \<le> s \<Longrightarrow> s < 15 \<Longrightarrow> ?thesis" using sorted_wrt_nth_less [of "(\<ge>)" pvq_last r s] by (cases "r = s") (auto simp: pvq_last_def)
qed

lemma pvq_entry_mono: "pvq_entry a b \<Longrightarrow> a' \<le> a \<Longrightarrow> b' \<le> b \<Longrightarrow> pvq_entry a' b'"
  unfolding pvq_entry_def using pvq_last_mono [of "min a' b'" "min a b"] by (auto simp: min_le_iff_disj max_def split: if_splits)

lemma CELT_PVQ_U_eq: "pvq_entry a b \<Longrightarrow> CELT_PVQ_U a b = pvq_u a b"
  unfolding CELT_PVQ_U_def pvq_entry_def by (subst pvq_row_eq) (auto simp: min_def max_def pvq_u_sym split: if_splits)

lemma pvq_row_entry: "r \<le> c \<Longrightarrow> pvq_entry r c \<Longrightarrow> pvq_row r c = pvq_u r c"
  by (rule pvq_row_eq) (auto simp: pvq_entry_def)

lemma pvq_entry_sym: "pvq_entry a b \<Longrightarrow> pvq_entry b a"
  by (simp add: pvq_entry_def min.commute max.commute)

end
