(* ===== verification/Opus_Cwrs_Code.thy ===== *)
theory Opus_Cwrs_Code
  imports Opus_Cwrs
begin

text \<open>The index the code computes, its inverse, and pulse vectors over the range coder.\<close>

unbundle bit_operations_syntax

declare pvq_u.simps [simp del]

section \<open>All the numbers fit\<close>

lemma fits_entry: "pvq_fits n k \<Longrightarrow> m \<le> n \<Longrightarrow> j \<le> k + 1 \<Longrightarrow> pvq_entry m j"
  unfolding pvq_fits_def using pvq_entry_mono by blast

lemma fits_V: "pvq_fits n k \<Longrightarrow> CELT_PVQ_V n k = pvq_v n k \<and> pvq_v n k < 2 ^ 32"
proof -
  assume f: "pvq_fits n k"
  have "CELT_PVQ_U n k = pvq_u n k" "CELT_PVQ_U n (k + 1) = pvq_u n (k + 1)" by (rule CELT_PVQ_U_eq, rule fits_entry [OF f]; simp)+
  moreover have "CELT_PVQ_U n k + CELT_PVQ_U n (k + 1) < 2 ^ 32" using f by (simp add: pvq_fits_def)
  ultimately show ?thesis using pvq_u_nonneg [of n k] pvq_u_nonneg [of n "k + 1"] by (simp add: CELT_PVQ_V_def pvq_v_def w32_id)
qed

lemma pvq_v_mono:
  assumes "0 < m" "m \<le> n" "j \<le> k" "0 < k"
  shows "pvq_v m j \<le> pvq_v n k"
proof -
  have "pvq_u m j \<le> pvq_u n k"
  proof (cases "j = 0")
    case True
    then show ?thesis using pvq_u_0 [OF assms(1)] pvq_u_nonneg by simp
  qed (use pvq_u_mono2 [of m n j k] assms in simp)
  moreover have "pvq_u m (j + 1) \<le> pvq_u n (k + 1)" using assms by (intro pvq_u_mono2) auto
  ultimately show ?thesis by (simp add: pvq_v_def)
qed

lemma fits_v: "pvq_fits n k \<Longrightarrow> 0 < m \<Longrightarrow> m \<le> n \<Longrightarrow> j \<le> k \<Longrightarrow> pvq_v m j < 2 ^ 32"
  using fits_V [of n k] pvq_v_mono [of m n j k] by (simp add: pvq_fits_def)

lemma icwrs_loop_eq:
  assumes "pvq_fits n k" "y \<noteq> []" "length y \<le> n" "pulses y \<le> k"
  shows "icwrs_loop y = (pvq_index y, int (pulses y))"
  using assms(2-4)
proof (induction y rule: pvq_index.induct)
  case (2 y)
  then show ?case by (simp add: pulses_Cons)
next
  case (3 y z zs)
  define m where "m = length (z # zs) + 1"
  define a where "a = pulses (z # zs)"
  have k: "pulses (y # z # zs) = nat \<bar>y\<bar> + a" by (simp add: pulses_Cons [of y] a_def)
  have ih: "icwrs_loop (z # zs) = (pvq_index (z # zs), int a)" using 3 k by (simp add: a_def)
  have U: "CELT_PVQ_U m a = pvq_u m a" "CELT_PVQ_U m (nat \<bar>y\<bar> + a + 1) = pvq_u m (nat \<bar>y\<bar> + a + 1)"
    using 3(3,4) k by (auto intro!: CELT_PVQ_U_eq fits_entry [OF assms(1)] simp: m_def)
  have e: "pvq_index (y # z # zs) = pvq_index (z # zs) + pvq_u m a + (if y < 0 then pvq_u m (nat \<bar>y\<bar> + a + 1) else 0)"
    unfolding pvq_index.simps(3) k m_def a_def ..
  have "pvq_v (length (y # z # zs)) (pulses (y # z # zs)) < 2 ^ 32" using fits_v [OF assms(1) _ 3(3,4)] by simp
  then have b: "pvq_index (y # z # zs) < 2 ^ 32" "0 \<le> pvq_index (z # zs)" using pvq_index_bounds [of "y # z # zs"] pvq_index_bounds [of "z # zs"] by simp_all
  have w: "w32 (pvq_index (z # zs) + pvq_u m a) = pvq_index (z # zs) + pvq_u m a"
    using b pvq_u_nonneg [of m a] pvq_u_nonneg [of m "nat \<bar>y\<bar> + a + 1"] unfolding e by (intro w32_id) (auto split: if_splits)
  have w2: "w32 (pvq_index (z # zs) + pvq_u m a + pvq_u m (nat \<bar>y\<bar> + a + 1)) = pvq_index (y # z # zs)" if "y < 0"
    using that b pvq_u_nonneg [of m a] pvq_u_nonneg [of m "nat \<bar>y\<bar> + a + 1"] unfolding e by (simp add: w32_id)
  have n: "nat (int a) = a" "nat (int a + \<bar>y\<bar> + 1) = nat \<bar>y\<bar> + a + 1" by auto
  have "icwrs_loop (y # z # zs) = (if y < 0 then pvq_index (y # z # zs) else pvq_index (z # zs) + pvq_u m a, int a + \<bar>y\<bar>)"
    using w2 unfolding icwrs_loop.simps(3) ih Let_def prod.case m_def [symmetric] n U w by simp
  then show ?case using e k by (auto split: if_splits)
qed simp

lemma icwrs_eq: "pvq_fits n k \<Longrightarrow> length y = n \<Longrightarrow> pulses y = k \<Longrightarrow> icwrs y = pvq_index y \<and> 0 \<le> icwrs y \<and> icwrs y < CELT_PVQ_V n k"
proof -
  assume f: "pvq_fits n k" "length y = n" "pulses y = k"
  then have y: "y \<noteq> []" by (auto simp: pvq_fits_def)
  then have "icwrs y = pvq_index y" using icwrs_loop_eq [OF f(1)] f by (simp add: icwrs_def)
  then show ?thesis using pvq_index_bounds [OF y] fits_V [OF f(1)] f by simp
qed

section \<open>The inverse\<close>

lemma cwrs_down_step:
  assumes "a < m" "f a \<le> j" "\<And>c. a < c \<Longrightarrow> c < m \<Longrightarrow> j < f c"
  shows "cwrs_down f j m = Some (a, f a)"
  using assms
proof (induction m)
  case (Suc m)
  then show ?case by (cases "a = m") auto
qed simp

lemma sign_xor: "(x + - of_bool b) XOR - of_bool b = (if b then - x else (x :: int))"
  by (auto simp: xor_sign not_eq_complement)

text \<open>The first value of a vector, from the index of the vector.\<close>

lemma cwrsi_dim_step:
  assumes f: "pvq_fits n0 k0" "Suc n \<le> n0" "k \<le> k0" and y: "length ys = n" "0 < n" "pulses (y # ys) = k"
  shows "cwrsi_dim (Suc n) k (pvq_index (y # ys)) = Some (y, pulses ys, pvq_index ys)"
proof -
  define a where "a = pulses ys"
  define i where "i = pvq_index (y # ys)"
  define j where "j = pvq_index ys + pvq_u (Suc n) a"
  let ?u = "pvq_u (Suc n)"
  have yn: "ys \<noteq> []" using y(1,2) by auto
  then have i: "i = j + (if y < 0 then ?u (k + 1) else 0)" using y by (cases ys) (simp_all add: i_def j_def a_def del: pvq_index.simps(2))
  have k: "k = nat \<bar>y\<bar> + a" using y(3) by (simp add: pulses_Cons a_def)
  have ib: "0 \<le> pvq_index ys" "pvq_index ys < pvq_v n a" using pvq_index_bounds [OF yn] y(1) by (simp_all add: a_def)
  have j: "?u a \<le> j" "j < ?u (a + 1)" "0 \<le> j" using ib pvq_u_Suc_v [of n a] pvq_u_nonneg [of "Suc n" a] by (simp_all add: j_def)
  have up: "j < ?u c" if "a < c" for c using j(2) pvq_u_mono [of "a + 1" c n] that by simp
  have neg: "(i \<ge> ?u (k + 1)) = (y < 0)" using i j(3) up [of "k + 1"] k by auto
  have "i < pvq_v (Suc n) k" using pvq_index_bounds [of "y # ys"] y(1,3) by (simp add: i_def)
  also have "\<dots> < 2 ^ 32" using fits_v [OF f(1) _ f(2,3)] by simp
  finally have i32: "i < 2 ^ 32" .
  have "j \<le> i" using i pvq_u_nonneg [of "Suc n" "k + 1"] by simp
  then have w: "w32 (i - (?u (k + 1) AND - of_bool (y < 0))) = j" "w32 (j - ?u a) = pvq_index ys" "w32 (i - ?u k) = i - ?u k \<or> i < ?u k"
    using i32 i ib j pvq_u_nonneg [of "Suc n" a] pvq_u_nonneg [of "Suc n" k] by (auto simp: w32_id j_def)
  have entry: "pvq_entry r c" if "r \<le> Suc n" "c \<le> k + 1" for r c using fits_entry [OF f(1), of r c] f that by simp
  have row: "pvq_row (Suc n) c = ?u c" if "Suc n \<le> c" "c \<le> k + 1" for c using that by (intro pvq_row_entry entry) auto
  have col: "pvq_row c (Suc n) = ?u c" if "c \<le> Suc n" "c \<le> k + 1" for c
    using pvq_row_entry [OF that(1)] pvq_entry_sym [OF entry [of "Suc n" c]] that(2) pvq_u_sym by simp
  have v: "(int k - int a + - of_bool (y < 0)) XOR - of_bool (y < 0) = y" unfolding sign_xor using k by auto
  show ?thesis unfolding i_def [symmetric] a_def [symmetric]
  proof (cases "k \<ge> Suc n")
    case True
    have p: "pvq_row (Suc n) (k + 1) = ?u (k + 1)" "pvq_row (Suc n) (Suc n) = ?u (Suc n)" using True by (simp_all add: row)
    have "(if ?u (Suc n) > j then cwrs_down (\<lambda>k. pvq_row k (Suc n)) j (Suc n) else cwrs_down (\<lambda>c. pvq_row (Suc n) c) j (k + 1)) = Some (a, ?u a)"
    proof (cases "?u (Suc n) > j")
      case q: True
      have an: "a < Suc n"
      proof (rule ccontr)
        assume "\<not> a < Suc n"
        then show False using pvq_u_mono [of "Suc n" a n] j(1) q by simp
      qed
      then have "cwrs_down (\<lambda>k. pvq_row k (Suc n)) j (Suc n) = Some (a, pvq_row a (Suc n))"
        using col up j(1) True by (intro cwrs_down_step) auto
      then show ?thesis using q col [of a] an True by simp
    next
      case q: False
      then have an: "Suc n \<le> a" using up [of "Suc n"] by (cases "Suc n \<le> a") auto
      have ak: "a < k + 1" using k by simp
      then have "cwrs_down (\<lambda>c. pvq_row (Suc n) c) j (k + 1) = Some (a, pvq_row (Suc n) a)"
        using row up j(1) an by (intro cwrs_down_step) auto
      then show ?thesis using q row [of a] an ak by simp
    qed
    then show "cwrsi_dim (Suc n) k i = Some (y, a, pvq_index ys)" using True v w(2)
      unfolding cwrsi_dim_def Let_def p neg w(1) by (simp only: if_True bind.simps prod.case)
  next
    case False
    have p: "pvq_row k (Suc n) = ?u k" "pvq_row (k + 1) (Suc n) = ?u (k + 1)" using False by (simp_all add: col)
    show "cwrsi_dim (Suc n) k i = Some (y, a, pvq_index ys)"
    proof (cases "y = 0")
      case True
      then have "a = k" "i = j" using k i by auto
      then have "?u k \<le> i \<and> i < ?u (k + 1)" using j by simp
      then show ?thesis using False True w(2) \<open>a = k\<close> \<open>i = j\<close> unfolding cwrsi_dim_def Let_def p by simp
    next
      case y0: False
      have ak: "a < k" using y0 k by simp
      have z: "\<not> (?u k \<le> i \<and> i < ?u (k + 1))" using neg up [OF ak] i by auto
      have "cwrs_down (\<lambda>k. pvq_row k (Suc n)) j k = Some (a, pvq_row a (Suc n))"
        using col up j(1) False ak by (intro cwrs_down_step) auto
      then have dn: "cwrs_down (\<lambda>k. pvq_row k (Suc n)) j k = Some (a, ?u a)" using col [of a] ak False by simp
      show ?thesis using False v w(2) unfolding cwrsi_dim_def Let_def p neg w(1) if_not_P [OF z] dn by (simp only: if_False bind.simps prod.case)
    qed
  qed
qed

definition squares :: "int list \<Rightarrow> int" where "squares y = (\<Sum>v\<leftarrow>y. v * v)"

lemma cwrsi_two:
  assumes "pvq_fits n0 k0" "pulses [y, z] \<le> k0"
  shows "cwrsi 2 (pulses [y, z]) (pvq_index [y, z]) s = Some ([y, z], s + y * y + z * z)"
proof -
  define c where "c = nat \<bar>z\<bar>"
  define k where "k = pulses [y, z]"
  have k: "k = nat \<bar>y\<bar> + c" by (simp add: k_def c_def pulses_Cons)
  have u: "pvq_u 2 (k + 1) = 2 * int k + 1" "pvq_u 2 c = (if c = 0 then 0 else 2 * int c - 1)"
    using pvq_u_2 [of k] pvq_u_2 [of "c - 1"] pvq_u_0 [of 2] by (cases c; simp)+
  define j where "j = of_bool (z < 0) + pvq_u 2 c"
  have pz: "pulses [z] = c" by (simp add: pulses_Cons c_def)
  have i: "pvq_index [y, z] = j + (if y < 0 then 2 * int k + 1 else 0)"
    using pvq_index.simps(3) [of y z "[]"] u(1) unfolding k_def [symmetric] pz by (simp add: j_def numeral_2_eq_2)
  have jv: "j = of_bool (z < 0) + (if c = 0 then 0 else 2 * int c - 1)" and zc: "c = 0 \<longleftrightarrow> z = 0" by (simp add: j_def u(2)) (simp add: c_def)
  have jb: "0 \<le> j" "j < 2 * int k + 1" using k zc by (auto simp: jv)
  have "pvq_index [y, z] < pvq_v 2 k" using pvq_index_bounds [of "[y, z]"] by (simp add: k_def numeral_2_eq_2)
  also have "\<dots> < 2 ^ 32" by (rule fits_v [OF assms(1)]) (use assms in \<open>auto simp: pvq_fits_def k_def\<close>)
  finally have i32: "pvq_index [y, z] < 2 ^ 32" .
  have neg: "(pvq_index [y, z] \<ge> 2 * int k + 1) = (y < 0)" using i jb by auto
  have w1: "w32 (pvq_index [y, z] - ((2 * int k + 1) AND - of_bool (y < 0))) = j" using jb i32 unfolding i by (cases "y < 0") (simp_all add: w32_id)
  have j32: "j + 1 < 2 ^ 32"
  proof -
    have "2 * int k + 1 \<le> pvq_v 2 k" using u(1) pvq_u_nonneg [of 2 k] by (simp add: pvq_v_def)
    moreover have "pvq_v 2 k < 2 ^ 32" by (rule fits_v [OF assms(1)]) (use assms in \<open>auto simp: pvq_fits_def k_def\<close>)
    ultimately show ?thesis using jb by linarith
  qed
  have h: "w32 (j + 1) div 2 = int c" using jb j32 zc by (simp add: w32_id) (auto simp: jv)
  have w2: "(if int c \<noteq> 0 then w32 (j - (2 * int c - 1)) else j) = of_bool (z < 0)" using zc by (auto simp: jv w32_id)
  have v: "(int k - int c + - of_bool (y < 0)) XOR - of_bool (y < 0) = y" "(int c + - of_bool (z < 0)) XOR - of_bool (z < 0) = z"
    unfolding sign_xor using k by (auto simp: c_def)
  show ?thesis unfolding k_def [symmetric] cwrsi.simps [of 2] Let_def neg w1 h w2 v by simp
qed

lemma cwrsi_index:
  assumes "pvq_fits n0 k0" "2 \<le> length y" "length y \<le> n0" "pulses y \<le> k0"
  shows "cwrsi (length y) (pulses y) (pvq_index y) s = Some (y, s + squares y)"
  using assms(2-4)
proof (induction y arbitrary: s)
  case (Cons v ys)
  show ?case
  proof (cases "length ys = 1")
    case True
    then obtain z where z: "ys = [z]" by (cases ys) auto
    show ?thesis using cwrsi_two [OF assms(1)] Cons(4) by (simp add: z squares_def numeral_2_eq_2)
  next
    case False
    then have l: "2 \<le> length ys" "length (v # ys) > 2" using Cons(2) by auto
    have d: "cwrsi_dim (length (v # ys)) (pulses (v # ys)) (pvq_index (v # ys)) = Some (v, pulses ys, pvq_index ys)"
      using cwrsi_dim_step [OF assms(1) _ Cons(4), where n = "length ys" and ys = ys and y = v] Cons(3) l by fastforce
    have "cwrsi (length ys) (pulses ys) (pvq_index ys) (s + v * v) = Some (ys, s + v * v + squares ys)"
      using Cons l(1) by (simp add: pulses_Cons)
    then show ?thesis using l(2) unfolding cwrsi.simps [of "length (v # ys)"] d by (simp add: squares_def)
  qed
qed simp

section \<open>Every number below the count is the index of a vector\<close>

lemma u_interval:
  assumes "0 \<le> j" "j < pvq_u (Suc n) (Suc k)"
  shows "\<exists>a \<le> k. pvq_u (Suc n) a \<le> j \<and> j < pvq_u (Suc n) (Suc a)"
  using assms
proof (induction k)
  case 0
  then show ?case using pvq_u_0 [of "Suc n"] by auto
next
  case (Suc k)
  then show ?case by (cases "j < pvq_u (Suc n) (Suc k)") (auto intro: le_SucI)
qed

lemma pvq_index_onto:
  assumes "0 < n" "0 \<le> i" "i < pvq_v n k"
  shows "\<exists>y. length y = n \<and> pulses y = k \<and> pvq_index y = i"
  using assms
proof (induction n arbitrary: i k)
  case (Suc n)
  show ?case
  proof (cases "n = 0")
    case True
    then have "i = 0 \<or> i = 1 \<and> k > 0" using Suc(3,4) pvq_v_1 [of k] by (auto split: if_splits)
    then show ?thesis
    proof
      assume "i = 0"
      then show ?thesis using True by (intro exI [of _ "[int k]"]) (simp add: pulses_Cons)
    next
      assume "i = 1 \<and> k > 0"
      then show ?thesis using True by (intro exI [of _ "[- int k]"]) (simp add: pulses_Cons)
    qed
  next
    case False
    define neg where "neg \<longleftrightarrow> pvq_u (Suc n) (k + 1) \<le> i"
    define j where "j = i - (if neg then pvq_u (Suc n) (k + 1) else 0)"
    have ij: "i < pvq_u (Suc n) k + pvq_u (Suc n) (k + 1)" using Suc(4) by (simp add: pvq_v_def)
    have m: "pvq_u (Suc n) k \<le> pvq_u (Suc n) (k + 1)" by (rule pvq_u_mono) simp
    have j: "0 \<le> j" "j < pvq_u (Suc n) (Suc k)" "neg \<Longrightarrow> j < pvq_u (Suc n) k" using Suc(3) ij m by (auto simp: j_def neg_def)
    obtain a where a: "a \<le> k" "pvq_u (Suc n) a \<le> j" "j < pvq_u (Suc n) (Suc a)" using u_interval [OF j(1,2)] by blast
    have ak: "a < k" if neg using j(3) [OF that] a(2) pvq_u_mono [of k a n] by (cases "a < k") auto
    have "\<exists>ys. length ys = n \<and> pulses ys = a \<and> pvq_index ys = j - pvq_u (Suc n) a"
      using False a by (intro Suc(1)) (auto simp: pvq_u_Suc_v)
    then obtain ys where ys: "length ys = n" "pulses ys = a" "pvq_index ys = j - pvq_u (Suc n) a" by blast
    define v where "v = (if neg then - int (k - a) else int (k - a))"
    have v: "v < 0 \<longleftrightarrow> neg" "nat \<bar>v\<bar> + a = k" using ak a(1) by (auto simp: v_def)
    have p: "pulses (v # ys) = k" using v(2) ys(2) by (simp add: pulses_Cons)
    have "pvq_index (v # ys) = pvq_index ys + pvq_u (Suc n) a + (if neg then pvq_u (Suc n) (k + 1) else 0)"
      using False ys(1,2) p v(1) by (cases ys) (simp_all del: pvq_index.simps(2))
    then have "pvq_index (v # ys) = i" using ys(3) by (simp add: j_def)
    then show ?thesis using ys(1) p by (intro exI [of _ "v # ys"]) simp
  qed
qed simp

section \<open>Over the range coder\<close>

definition pulse_vector :: "nat \<Rightarrow> nat \<Rightarrow> int list \<Rightarrow> bool" where
  "pulse_vector n k y \<longleftrightarrow> pvq_fits n k \<and> length y = n \<and> pulses y = k"

lemma pulse_uint:
  assumes "pulse_vector n k y"
  shows "valid_value (Ask_uint (CELT_PVQ_V n k)) (Number (icwrs y))"
proof -
  have f: "pvq_fits n k" "length y = n" "pulses y = k" using assms by (auto simp: pulse_vector_def)
  have "pvq_v 1 1 \<le> pvq_v n k" using f(1) by (intro pvq_v_mono) (auto simp: pvq_fits_def)
  then show ?thesis using icwrs_eq [OF f] fits_V [OF f(1)] pvq_v_1 [of 1] by simp
qed

lemma cwrsi_icwrs: "pulse_vector n k y \<Longrightarrow> cwrsi n k (icwrs y) 0 = Some (y, squares y)"
  using cwrsi_index [of n k y 0] icwrs_eq [of n k y] by (auto simp: pulse_vector_def pvq_fits_def)

lemma pulses_both:
  assumes "coder_inv e" "pulse_vector n k y" "encode_pulses e y n k = Some f" "coder_ok f"
  shows "both e (\<lambda>d. decode_pulses d n k) (y, squares y) f"
proof -
  have "encode_value e (Ask_uint (CELT_PVQ_V n k)) (Number (icwrs y)) = Some f" using assms(3) by (simp add: encode_pulses_def)
  from value_both_step [OF assms(1) pulse_uint [OF assms(2)] this assms(4)]
  have "both e (\<lambda>d. decode_value d (Ask_uint (CELT_PVQ_V n k))) (Number (icwrs y)) f" unfolding value_both_iff .
  moreover have "cwrsi n k (icwrs y) 0 = Some (y, squares y)" by (rule cwrsi_icwrs [OF assms(2)])
  ultimately show ?thesis by (elim both_cong) (auto simp: decode_pulses_def bind_eq_Some_conv)
qed

lemma pulses_total: "coder_ready e \<Longrightarrow> pulse_vector n k y \<Longrightarrow> \<exists>f. encode_pulses e y n k = Some f \<and> coder_ready f"
  using encode_value_total [OF _ pulse_uint] by (simp add: encode_pulses_def)

lemma pulses_back: "encode_pulses e y n k = Some f \<Longrightarrow> coder_ok f \<Longrightarrow> coder_ok e"
  using encode_value_back [of e "Ask_uint (CELT_PVQ_V n k)" "Number (icwrs y)" f] by (simp add: encode_pulses_def)

lemma pulses_onto:
  assumes "pvq_fits n k" "0 \<le> i" "i < CELT_PVQ_V n k"
  shows "\<exists>y. pulse_vector n k y \<and> icwrs y = i \<and> cwrsi n k i 0 = Some (y, squares y)"
proof -
  have n: "0 < n" "2 \<le> n" using assms(1) by (auto simp: pvq_fits_def)
  obtain y where y: "length y = n" "pulses y = k" "pvq_index y = i" using pvq_index_onto [OF n(1) assms(2)] fits_V [OF assms(1)] assms(3) by auto
  then show ?thesis using icwrs_eq [OF assms(1) y(1,2)] cwrsi_index [OF assms(1), of y 0] assms(1) n(2) by (auto simp: pulse_vector_def)
qed

end
