(* ===== verification/Opus_Symbols.thy ===== *)
theory Opus_Symbols
  imports Opus_Cwrs_Code
begin

text \<open>
  A stream of everything modelled over the range coder: its own requests, the two Laplace coders and pulse vectors. The second
  interpretation of \<open>symbol_coder\<close> gives the round trip of any mixture; the decoder is shown to answer every request on any buffer.
\<close>

section \<open>Mixed streams\<close>

datatype celt_request = Get ec_request | Get_laplace int int | Get_laplace_p0 int int | Get_pulses nat nat

datatype celt_value = Value ec_value | Delta int | Vector "int list" int

fun celt_encode :: "ec_ctx \<Rightarrow> celt_request \<Rightarrow> celt_value \<Rightarrow> ec_ctx option" where
  "celt_encode e (Get r) (Value v) = encode_value e r v"
| "celt_encode e (Get_laplace fs decay) (Delta v) = map_option fst (ec_laplace_encode e v fs decay)"
| "celt_encode e (Get_laplace_p0 p0 decay) (Delta v) = ec_laplace_encode_p0 e v p0 decay"
| "celt_encode e (Get_pulses n k) (Vector y yy) = encode_pulses e y n k"
| "celt_encode e _ _ = None"

fun celt_decode :: "ec_ctx \<Rightarrow> celt_request \<Rightarrow> (ec_ctx \<times> celt_value) option" where
  "celt_decode d (Get r) = map_option (\<lambda>(d, v). (d, Value v)) (decode_value d r)"
| "celt_decode d (Get_laplace fs decay) = map_option (\<lambda>(d, v). (d, Delta v)) (ec_laplace_decode d fs decay)"
| "celt_decode d (Get_laplace_p0 p0 decay) = map_option (\<lambda>(d, v). (d, Delta v)) (ec_laplace_decode_p0 d p0 decay)"
| "celt_decode d (Get_pulses n k) = map_option (\<lambda>(d, y, yy). (d, Vector y yy)) (decode_pulses d n k)"

text \<open>The values a request can carry; a Laplace value beyond the last of its model would be clamped.\<close>

fun celt_valid :: "celt_request \<Rightarrow> celt_value \<Rightarrow> bool" where
  "celt_valid (Get r) (Value v) \<longleftrightarrow> valid_value r v"
| "celt_valid (Get_laplace fs decay) (Delta v) \<longleftrightarrow> laplace_fits fs decay \<and> laplace_clamp fs decay v = v"
| "celt_valid (Get_laplace_p0 p0 decay) (Delta v) \<longleftrightarrow> laplace_p0_model p0 decay"
| "celt_valid (Get_pulses n k) (Vector y yy) \<longleftrightarrow> pulse_vector n k y \<and> yy = squares y"
| "celt_valid _ _ \<longleftrightarrow> False"

lemma celt_total: "coder_ready e \<Longrightarrow> celt_valid r v \<Longrightarrow> \<exists>f. celt_encode e r v = Some f \<and> coder_ready f"
proof (induction e r v rule: celt_encode.induct)
  case (2 e fs decay v)
  then show ?case using laplace_total [of e fs decay v] by auto
qed (simp_all add: encode_value_total laplace_p0_both(1) pulses_total)

lemma celt_back: "celt_encode e r v = Some f \<Longrightarrow> celt_valid r v \<Longrightarrow> coder_ok f \<Longrightarrow> coder_ok e"
proof (induction e r v rule: celt_encode.induct)
  case (1 e r v)
  then show ?case using encode_value_back by simp
next
  case (2 e fs decay v)
  then show ?case using laplace_back by fastforce
next
  case (3 e p0 decay v)
  then show ?case using laplace_p0_both(2) [of p0 decay e v f] by simp
next
  case (4 e n k y yy)
  then show ?case using pulses_back by simp
qed simp_all

lemma celt_both: "coder_inv e \<Longrightarrow> celt_valid r v \<Longrightarrow> celt_encode e r v = Some f \<Longrightarrow> coder_ok f \<Longrightarrow> both e (\<lambda>d. celt_decode d r) v f"
proof (induction e r v rule: celt_encode.induct)
  case (1 e r v)
  then have "both e (\<lambda>d. decode_value d r) v f" using value_both_step unfolding value_both_iff by simp
  then show ?case by (rule both_cong) simp
next
  case (2 e fs decay v)
  then obtain v' where "ec_laplace_encode e v fs decay = Some (f, v')" by auto
  from laplace_both(2) [OF 2(1) _ _ this 2(4)] 2(2) have "both e (\<lambda>d. ec_laplace_decode d fs decay) v f" by simp
  then show ?case by (rule both_cong) simp
next
  case (3 e p0 decay v)
  then have "both e (\<lambda>d. ec_laplace_decode_p0 d p0 decay) v f" using laplace_p0_both(3) by simp
  then show ?case by (rule both_cong) simp
next
  case (4 e n k y yy)
  then have "both e (\<lambda>d. decode_pulses d n k) (y, squares y) f" using pulses_both by simp
  then show ?case by (rule both_cong) (use 4(2) in simp)
qed simp_all

interpretation celt: stream_coder celt_encode celt_decode celt_valid
  by (rule stream_coderI) (use celt_total celt_back celt_both in blast)+

end
