(* ===== verification/Opus_Decode_Total.thy ===== *)
theory Opus_Decode_Total
  imports Opus_Symbols
begin

text \<open>
  The decoder on an arbitrary buffer, valid or corrupt: it is always inside some interval, so every request is answered, and with a
  value that the request allows.
\<close>

section \<open>The state between requests\<close>

definition dec_state :: "bytes \<Rightarrow> ec_ctx \<Rightarrow> bool" where
  "dec_state B d \<longleftrightarrow> (\<exists>iv c. dec_sync B iv d \<and> dec_raw B c d) \<and> 2 ^ 23 < ec_rng d"

lemma dec_stateI: "dec_sync B iv d \<Longrightarrow> dec_raw B c d \<Longrightarrow> 2 ^ 23 < ec_rng d \<Longrightarrow> dec_state B d"
  unfolding dec_state_def by blast

lemma dec_state_error: "dec_state B d \<Longrightarrow> dec_state B (d\<lparr>ec_error := 1\<rparr>)"
proof -
  have "dec_sync B iv (d\<lparr>ec_error := 1\<rparr>) = dec_sync B iv d" "dec_raw B c (d\<lparr>ec_error := 1\<rparr>) = dec_raw B c d" for iv c
    by (simp_all add: dec_sync_def dec_raw_def)
  then show "dec_state B d \<Longrightarrow> dec_state B (d\<lparr>ec_error := 1\<rparr>)" by (simp add: dec_state_def)
qed

lemma narrow_inside:
  assumes "dec_sync B iv d" "s \<le> ec_val d" "ec_val d < t"
  shows "inside B (narrow iv t s)"
  using assms by (auto simp: dec_sync_def narrow_def split: prod.splits)

lemma renorm_rng: "0 < snd (snd iv) \<Longrightarrow> 2 ^ 23 < snd (snd (renorm iv))"
proof (induction iv rule: renorm.induct)
  case (1 n low rng)
  show ?case
  proof (cases "0 < rng \<and> rng \<le> 2 ^ 23")
    case True
    then show ?thesis using 1(1) [OF True] by (simp add: renorm.simps [of n low rng])
  next
    case False
    then have "renorm (n, low, rng) = (n, low, rng)" by (subst renorm.simps) (simp only: if_False)
    then show ?thesis using 1(2) False by simp
  qed
qed

lemma moves_state:
  assumes "dec_moves B iv d (renorm (narrow iv t s)) d'" "s < t" "dec_raw B c d"
  shows "dec_state B d'"
proof -
  have d: "dec_sync B (renorm (narrow iv t s)) d'" "dec_same_raw (fst iv) d (fst (renorm (narrow iv t s))) d'" using assms(1) by (auto simp: dec_moves_def)
  have "0 < snd (snd (narrow iv t s))" using assms(2) by (simp add: narrow_def split: prod.splits)
  from renorm_rng [OF this] have "2 ^ 23 < ec_rng d'" using dec_sync_bounds(5) [OF d(1)] by simp
  moreover have "dec_raw B c d'" using assms(3) d(2) by (simp add: dec_raw_def dec_same_raw_def)
  ultimately show ?thesis using d(1) by (intro dec_stateI)
qed

lemma init_state: "\<exists>d. ec_dec_init B (length B) = Some d \<and> dec_state B d"
proof -
  obtain d where d: "ec_dec_init B (length B) = Some d" "coder_agree B (ec_enc_init [] 0) d" using coder_start by blast
  have "ec_rng d = 2 ^ 31" using agree_rng [OF d(2)] by (simp add: ec_enc_init_def)
  moreover have "dec_sync B (dec_iv (ec_enc_init [] 0)) d" "dec_raw B (raw_len (ec_enc_init [] 0)) d" using d(2) by (simp_all add: coder_agree_def)
  ultimately have "dec_state B d" by (intro dec_stateI) simp_all
  then show ?thesis using d(1) by blast
qed

section \<open>Requests\<close>

text \<open>The client's search covers every number below the total.\<close>

definition covers :: "(int \<Rightarrow> int \<times> int) \<Rightarrow> int \<Rightarrow> bool" where
  "covers look ft \<longleftrightarrow> list_all (\<lambda>x. case look x of (fl, fh) \<Rightarrow> 0 \<le> fl \<and> fl \<le> x \<and> x < fh \<and> fh \<le> ft \<and> found look fl fh) [0..ft - 1]"

fun valid_request :: "ec_request \<Rightarrow> bool" where
  "valid_request (Ask_symbol ft look) \<longleftrightarrow> 0 < ft \<and> ft \<le> 2 ^ 23 \<and> covers look ft"
| "valid_request (Ask_binary bits look) \<longleftrightarrow> bits \<le> 23 \<and> covers look (2 ^ bits)"
| "valid_request (Ask_bit logp) \<longleftrightarrow> 0 < logp \<and> logp \<le> 23"
| "valid_request (Ask_icdf icdf ftb) \<longleftrightarrow> valid_icdf icdf ftb \<and> icdf_symbol 0 icdf ftb \<and> ftb \<le> 23"
| "valid_request (Ask_bits bits) \<longleftrightarrow> bits \<le> 25"
| "valid_request (Ask_uint ft) \<longleftrightarrow> 1 < ft \<and> ft < 2 ^ 32"

definition answered :: "bytes \<Rightarrow> ec_request \<Rightarrow> (ec_ctx \<times> ec_value) option \<Rightarrow> bool" where
  "answered B r res \<longleftrightarrow> (\<exists>d v. res = Some (d, v) \<and> valid_value r v \<and> dec_state B d)"

lemma symbol_contains:
  assumes "0 < ft" "ft \<le> rng" "0 \<le> v" "v < rng"
  defines "x \<equiv> ft - min (v div (rng div ft) + 1) ft"
  assumes "0 \<le> fl" "fl \<le> x" "x < fh" "fh \<le> ft" "sym_span rng fl fh ft = (t, s)"
  shows "s \<le> v" "v < t"
proof -
  define r where "r = rng div ft"
  define q where "q = v div r"
  have r: "0 < r" "r * ft \<le> rng" using div_span [OF assms(1,2)] by (simp_all add: r_def)
  have q: "r * q \<le> v" "v < r * (q + 1)" "0 \<le> q"
  proof -
    have "r * q = v - v mod r" by (simp add: q_def minus_mod_eq_mult_div [symmetric])
    moreover have "0 \<le> v mod r" "v mod r < r" using r(1) by simp_all
    ultimately show "r * q \<le> v" "v < r * (q + 1)" by (simp_all add: distrib_left)
    show "0 \<le> q" using assms(3) r(1) by (simp add: q_def pos_imp_zdiv_nonneg_iff)
  qed
  have x: "x = ft - min (q + 1) ft" by (simp add: x_def q_def r_def)
  have ts: "t = (if fl = 0 then rng else r * (ft - fl))" "s = r * (ft - fh)" using assms(10) by (auto simp: sym_span_def span_def r_def)
  have "ft - fh \<le> q" using x assms(8) by (simp add: min_def split: if_splits)
  then have "s \<le> r * q" unfolding ts using r(1) by (intro mult_left_mono) auto
  then show "s \<le> v" using q(1) by simp
  show "v < t"
  proof (cases "fl = 0")
    case False
    then have "q + 1 \<le> ft - fl" using x assms(6,7) by (simp add: min_def split: if_splits)
    then have "r * (q + 1) \<le> r * (ft - fl)" using r(1) by (intro mult_left_mono) auto
    then show ?thesis using q(2) False ts by simp
  qed (use assms(4) ts in simp)
qed

lemma symbol_answered:
  assumes d: "dec_state B d" and ft: "0 < ft" "ft \<le> 2 ^ 23" and c: "covers look ft"
  shows "answered B (Ask_symbol ft look) (decode_value d (Ask_symbol ft look))"
proof -
  obtain iv k where st: "dec_sync B iv d" "dec_raw B k d" and rng: "ft \<le> ec_rng d" using d ft(2) by (auto simp: dec_state_def)
  note b = dec_sync_bounds [OF st(1)]
  define x where "x = ft - min (ec_val d div (ec_rng d div ft) + 1) ft"
  have "0 \<le> ec_val d div (ec_rng d div ft)" using b div_span [OF ft(1) rng] by (simp add: pos_imp_zdiv_nonneg_iff)
  then have x: "x \<in> {0..ft - 1}" using ft(1) by (auto simp: x_def)
  obtain fl fh where look: "look x = (fl, fh)" by fastforce
  have v: "0 \<le> fl" "fl \<le> x" "x < fh" "fh \<le> ft" "found look fl fh"
    using c x look unfolding covers_def list_all_iff by (auto dest!: bspec [of _ _ x])
  obtain t s where ts: "sym_span (ec_rng d) fl fh ft = (t, s)" by fastforce
  have sv: "s \<le> ec_val d" "ec_val d < t" using symbol_contains [OF ft(1) rng b(1,2) v(1) _ _ v(4) ts] v(2,3) by (simp_all add: x_def)
  have lt: "fl < fh" using v(2,3) by simp
  have ins: "inside B (narrow iv t s)" by (rule narrow_inside [OF st(1) sv])
  have "\<exists>x d'. ec_decode d ft = (d\<lparr>ec_ext := ec_rng d div ft\<rparr>, x) \<and> fl \<le> x \<and> x < fh \<and>
    ec_dec_update (d\<lparr>ec_ext := ec_rng d div ft\<rparr>) fl fh ft = Some d' \<and> dec_moves B iv d (renorm (narrow iv t s)) d'"
    by (rule decode_step [OF st(1) v(1) lt v(4) rng ts ins])
  then obtain x' d' where d': "ec_decode d ft = (d\<lparr>ec_ext := ec_rng d div ft\<rparr>, x')" "fl \<le> x'" "x' < fh"
    "ec_dec_update (d\<lparr>ec_ext := ec_rng d div ft\<rparr>) fl fh ft = Some d'" "dec_moves B iv d (renorm (narrow iv t s)) d'" by blast
  have "dec_state B d'" by (rule moves_state [OF d'(5) _ st(2)]) (use sv in simp)
  moreover have "look x' = (fl, fh)" by (rule found_eq [OF v(5) d'(2,3)])
  ultimately show ?thesis using d'(1,4) v lt ft by (auto simp: answered_def)
qed

lemma bit_answered:
  assumes d: "dec_state B d" and l: "0 < logp" "logp \<le> 23"
  shows "answered B (Ask_bit logp) (decode_value d (Ask_bit logp))"
proof -
  obtain iv k where st: "dec_sync B iv d" "dec_raw B k d" and rng: "2 ^ logp \<le> ec_rng d" using d pow23 [OF l(2)] by (auto simp: dec_state_def)
  note b = dec_sync_bounds [OF st(1)]
  define v where "v \<longleftrightarrow> ec_val d < ec_rng d div 2 ^ logp"
  obtain t s where ts: "bit_span (ec_rng d) v logp = (t, s)" by fastforce
  have sv: "s \<le> ec_val d" "ec_val d < t" using ts b by (auto simp: bit_span_def v_def split: if_splits)
  obtain d' where d': "ec_dec_bit_logp d logp = Some (d', v)" "dec_moves B iv d (renorm (narrow iv t s)) d'"
    using dec_bit_step [OF st(1) l(1) rng ts narrow_inside [OF st(1) sv]] by blast
  have "dec_state B d'" by (rule moves_state [OF d'(2) _ st(2)]) (use sv in simp)
  then show ?thesis using d'(1) l by (simp add: answered_def)
qed

lemma icdf_answered:
  assumes d: "dec_state B d" and i: "valid_icdf icdf ftb" "icdf_symbol 0 icdf ftb" "ftb \<le> 23"
  shows "answered B (Ask_icdf icdf ftb) (decode_value d (Ask_icdf icdf ftb))"
proof -
  obtain iv k where st: "dec_sync B iv d" "dec_raw B k d" and rng: "2 ^ ftb \<le> ec_rng d" using d pow23 [OF i(3)] by (auto simp: dec_state_def)
  note b = dec_sync_bounds [OF st(1)]
  define r where "r = ec_rng d div 2 ^ ftb"
  have r: "0 < r" using div_span [of "2 ^ ftb" "ec_rng d"] rng by (simp add: r_def)
  define P where "P = (\<lambda>y. y < length icdf \<and> r * icdf ! y \<le> ec_val d)"
  have "P (length icdf - 1)" using i(1) b(1) by (auto simp: P_def valid_icdf_def last_conv_nth)
  then have y: "P (LEAST y. P y)" by (rule LeastI)
  have min: "\<not> P j" if "j < (LEAST y. P y)" for j using that by (rule not_less_Least)
  define y where "y = (LEAST y. P y)"
  have yl: "y < length icdf" "r * icdf ! y \<le> ec_val d" using y by (simp_all add: P_def y_def)
  have below: "ec_val d < r * icdf ! (y - 1)" if "0 < y" using min [of "y - 1"] that yl(1) by (auto simp: P_def y_def)
  have sy: "icdf_symbol y icdf ftb"
  proof (cases y)
    case (Suc z)
    then have "r * icdf ! y < r * icdf ! z" using below yl(2) by simp
    then have "icdf ! y < icdf ! z" using r by simp
    then show ?thesis using yl(1) Suc by (simp add: icdf_symbol_def)
  qed (use i(2) in simp)
  obtain t s where ts: "icdf_span (ec_rng d) y icdf ftb = (t, s)" by fastforce
  have sv: "s \<le> ec_val d" "ec_val d < t" using ts yl(2) below b(2) by (auto simp: icdf_span_def span_def r_def nth_Cons' split: if_splits)
  obtain d' where d': "ec_dec_icdf d icdf ftb = Some (d', y)" "dec_moves B iv d (renorm (narrow iv t s)) d'"
    using dec_icdf_step [OF st(1) i(1) sy rng ts narrow_inside [OF st(1) sv]] by blast
  have "dec_state B d'" by (rule moves_state [OF d'(2) _ st(2)]) (use sv in simp)
  then show ?thesis using d'(1) i sy by (simp add: answered_def)
qed

lemma bits_answered:
  assumes "dec_state B d" "bits \<le> 25"
  shows "answered B (Ask_bits bits) (decode_value d (Ask_bits bits))"
proof -
  obtain iv k where st: "dec_sync B iv d" "dec_raw B k d" using assms(1) by (auto simp: dec_state_def)
  obtain d' where d': "ec_dec_bits d bits = (d', (endall B div 2 ^ k) mod 2 ^ bits)" "dec_sync B iv d'" "dec_raw B (k + bits) d'"
    using dec_bits_step [OF st assms(2)] by blast
  have "ec_rng d' = ec_rng d" using dec_sync_bounds(5) [OF st(1)] dec_sync_bounds(5) [OF d'(2)] by simp
  then have "2 ^ 23 < ec_rng d'" using assms(1) by (simp add: dec_state_def)
  then have "dec_state B d'" using d'(2,3) by (intro dec_stateI)
  then show ?thesis using d'(1) assms(2) by (simp add: answered_def)
qed

lemma covers_single: "covers (\<lambda>s. (s, s + 1)) ft"
  by (auto simp: covers_def list_all_iff found_def)

lemma uint_answered:
  assumes d: "dec_state B d" and ft: "1 < ft" "ft < 2 ^ 32"
  shows "answered B (Ask_uint ft) (decode_value d (Ask_uint ft))"
proof (cases "8 < EC_ILOG (ft - 1)")
  case True
  define k where "k = nat (EC_ILOG (ft - 1) - 8)"
  have x0: "(0 :: int) \<le> 0" "0 < ft" using ft(1) by simp_all
  note s = uint_split [OF ft x0 True, folded k_def]
  have q: "0 < (ft - 1) div 2 ^ k + 1" using s(3) by simp
  obtain d1 x where d1: "decode_value d (Ask_symbol ((ft - 1) div 2 ^ k + 1) (\<lambda>s. (s, s + 1))) = Some (d1, Symbol x (x + 1))" "dec_state B d1" "0 \<le> x"
  proof -
    have "answered B (Ask_symbol ((ft - 1) div 2 ^ k + 1) (\<lambda>s. (s, s + 1))) (decode_value d (Ask_symbol ((ft - 1) div 2 ^ k + 1) (\<lambda>s. (s, s + 1))))"
      by (rule symbol_answered [OF d q s(4) covers_single])
    then obtain e v where v: "decode_value d (Ask_symbol ((ft - 1) div 2 ^ k + 1) (\<lambda>s. (s, s + 1))) = Some (e, v)" "dec_state B e"
      "valid_value (Ask_symbol ((ft - 1) div 2 ^ k + 1) (\<lambda>s. (s, s + 1))) v" unfolding answered_def by blast
    then obtain x where "v = Symbol x (x + 1)" by (auto simp: bind_eq_Some_conv Let_def split: prod.splits)
    then show ?thesis using that v by simp
  qed
  have k25: "k \<le> 25" using s(1) by simp
  obtain d2 y where d2: "decode_value d1 (Ask_bits k) = Some (d2, Number y)" "dec_state B d2" "0 \<le> y"
    using bits_answered [OF d1(2) k25] by (auto simp: answered_def split: prod.splits)
  define v where "v = (w32 (x * 2 ^ k) OR y)"
  have "0 \<le> v" using d2(3) by (simp add: v_def w32_def)
  moreover have "ec_dec_uint d ft = Some (if v \<le> ft - 1 then (d2, v) else (d2\<lparr>ec_error := 1\<rparr>, ft - 1))"
    using d1(1) d2(1) True by (auto simp: ec_dec_uint_def Let_def bind_eq_Some_conv k_def v_def split: prod.splits)
  ultimately show ?thesis using d2(2) dec_state_error [OF d2(2)] ft unfolding answered_def by auto
next
  case False
  have "answered B (Ask_symbol ft (\<lambda>s. (s, s + 1))) (decode_value d (Ask_symbol ft (\<lambda>s. (s, s + 1))))"
    by (rule symbol_answered [OF d _ uint_small [OF ft(1) False] covers_single]) (use ft(1) in simp)
  then show ?thesis using False ft by (auto simp: answered_def ec_dec_uint_def Let_def bind_eq_Some_conv split: prod.splits)
qed

lemma request_answered: "dec_state B d \<Longrightarrow> valid_request r \<Longrightarrow> answered B r (decode_value d r)"
proof (induction r)
  case (Ask_binary bits look)
  then have "answered B (Ask_symbol (2 ^ bits) look) (decode_value d (Ask_symbol (2 ^ bits) look))"
    by (intro symbol_answered) (auto simp: pow23 [simplified])
  then show ?case using Ask_binary(2) unfolding answered_def binary_symbol by (fastforce elim: valid_value.elims)
qed (simp_all add: symbol_answered bit_answered icdf_answered bits_answered uint_answered del: decode_value.simps)

lemma requests_answered:
  assumes "dec_state B d" "\<forall>r \<in> set rs. valid_request r"
  shows "\<exists>d' vs. decode_all decode_value d rs = Some (d', vs) \<and> list_all2 valid_value rs vs"
  using assms
proof (induction rs arbitrary: d)
  case (Cons r rs)
  then obtain d1 v where v: "decode_value d r = Some (d1, v)" "valid_value r v" "dec_state B d1" using request_answered [of B d r] by (auto simp: answered_def)
  then show ?case using Cons(1) [OF v(3)] Cons(3) by auto
qed simp

end
