(* ===== verification/Opus_Energy.thy ===== *)
theory Opus_Energy
  imports Opus_Laplace_Code
begin

text \<open>
  The Laplace models that coarse energy is coded with, from \<open>src/Vendor/opus/celt/quant_bands.c\<close>: every pair of the table gives a model
  whose intervals fit below the total, and which has room for the 16 guaranteed values in both directions.
\<close>

definition e_prob_model :: "int list list list" where
  "e_prob_model =
   [[[72, 127, 65, 129, 66, 128, 65, 128, 64, 128, 62, 128, 64, 128, 64, 128, 92, 78, 92, 79, 92,
      78, 90, 79, 116, 41, 115, 40, 114, 40, 132, 26, 132, 26, 145, 17, 161, 12, 176, 10, 177, 11],
     [24, 179, 48, 138, 54, 135, 54, 132, 53, 134, 56, 133, 55, 132, 55, 132, 61, 114, 70, 96, 74,
      88, 75, 88, 87, 74, 89, 66, 91, 67, 100, 59, 108, 50, 120, 40, 122, 37, 97, 43, 78, 50]],
    [[83, 78, 84, 81, 88, 75, 86, 74, 87, 71, 90, 73, 93, 74, 93, 74, 109, 40, 114, 36, 117, 34, 117,
      34, 143, 17, 145, 18, 146, 19, 162, 12, 165, 10, 178, 7, 189, 6, 190, 8, 177, 9],
     [23, 178, 54, 115, 63, 102, 66, 98, 69, 99, 74, 89, 71, 91, 73, 91, 78, 89, 86, 80, 92, 66, 93,
      64, 102, 59, 103, 60, 104, 60, 117, 52, 123, 44, 138, 35, 133, 31, 97, 38, 77, 45]],
    [[61, 90, 93, 60, 105, 42, 107, 41, 110, 45, 116, 38, 113, 38, 112, 38, 124, 26, 132, 27, 136,
      19, 140, 20, 155, 14, 159, 16, 158, 18, 170, 13, 177, 10, 187, 8, 192, 6, 175, 9, 159, 10],
     [21, 178, 59, 110, 71, 86, 75, 85, 84, 83, 91, 66, 88, 73, 87, 72, 92, 75, 98, 72, 105, 58, 107,
      54, 115, 52, 114, 55, 112, 56, 129, 51, 132, 40, 150, 33, 140, 29, 98, 35, 77, 42]],
    [[42, 121, 96, 66, 108, 43, 111, 40, 117, 44, 123, 32, 120, 36, 119, 33, 127, 33, 134, 34, 139,
      21, 147, 23, 152, 20, 158, 25, 154, 26, 166, 21, 173, 16, 184, 13, 184, 10, 150, 13, 139, 15],
     [22, 178, 63, 114, 74, 82, 84, 83, 92, 82, 103, 62, 96, 72, 96, 67, 101, 73, 107, 72, 113, 55,
      118, 52, 125, 52, 118, 52, 117, 55, 135, 49, 137, 39, 157, 32, 145, 29, 97, 33, 77, 40]]]"

text \<open>The arguments that \<open>quant_coarse_energy_impl\<close> and \<open>unquant_coarse_energy\<close> compute for band \<open>i\<close>.\<close>

definition energy_model :: "nat \<Rightarrow> nat \<Rightarrow> nat \<Rightarrow> int \<times> int" where
  "energy_model lm intra i =
    (let prob_model = e_prob_model ! lm ! intra; pi = 2 * min i 20
     in (prob_model ! pi * 2 ^ 7, prob_model ! (pi + 1) * 2 ^ 6))"

text \<open>A model fits and represents the values up to \<open>n\<close>.\<close>

definition laplace_holds :: "int \<Rightarrow> int \<times> int \<Rightarrow> bool" where
  "laplace_holds n p = (case p of (fs, decay) \<Rightarrow> laplace_fits fs decay \<and>
     (case laplace_last fs decay of (m, l) \<Rightarrow> n \<le> int m + (32768 - l) div 2))"

lemma laplace_holds_clamp:
  assumes "laplace_holds n (fs, decay)" "\<bar>v\<bar> \<le> n"
  shows "laplace_fits fs decay" "laplace_clamp fs decay v = v"
proof -
  obtain m l where ml: "laplace_last fs decay = (m, l)" by fastforce
  show "laplace_fits fs decay" using assms(1) by (simp add: laplace_holds_def)
  have "\<bar>v\<bar> \<le> int m + (32768 - l) div 2" using assms ml by (simp add: laplace_holds_def)
  also have "\<dots> \<le> int m + (32768 - l + of_bool (v < 0)) div 2" by (simp add: zdiv_mono1)
  finally have "min \<bar>v\<bar> (int m + (32768 - l + of_bool (v < 0)) div 2) = \<bar>v\<bar>" by linarith
  then show "laplace_clamp fs decay v = v" by (simp add: laplace_clamp_def ml sgn_if)
qed

lemma energy_models_hold: "list_all (\<lambda>lm. list_all (\<lambda>intra. list_all (\<lambda>i. laplace_holds 16 (energy_model lm intra i)) [0..<21]) [0..<2]) [0..<4]"
  by code_simp

lemma energy_model_holds: "lm < 4 \<Longrightarrow> intra < 2 \<Longrightarrow> laplace_holds 16 (energy_model lm intra i)"
proof -
  have "energy_model lm intra i = energy_model lm intra (min i 20)" by (simp add: energy_model_def)
  then show "lm < 4 \<Longrightarrow> intra < 2 \<Longrightarrow> laplace_holds 16 (energy_model lm intra i)"
    using energy_models_hold by (simp only: list_all_iff set_upt atLeastLessThan_iff) simp
qed

end
