(* ===== verification/Opus_Ilog.thy ===== *)
theory Opus_Ilog
  imports Opus_Range_Done
begin

text \<open>The portable \<open>ec_ilog\<close> of \<open>src/Vendor/opus/celt/entcode.c\<close>, a binary search over five masks, counts the bits like \<open>EC_ILOG\<close>.\<close>

unbundle bit_operations_syntax

lemma EC_ILOG_shift: "2 ^ k \<le> v \<Longrightarrow> EC_ILOG v = int k + EC_ILOG (v div 2 ^ k)"
proof (induction k arbitrary: v)
  case (Suc k)
  have "2 ^ k \<le> v div 2" using zdiv_mono1 [OF Suc(2), of 2] by simp
  from Suc(1) [OF this] have "EC_ILOG (v div 2) = int k + EC_ILOG (v div 2 ^ Suc k)" by (simp add: zdiv_zmult2_eq [symmetric])
  moreover have "0 < v" using Suc(2) by (rule less_le_trans [rotated]) simp
  then have "EC_ILOG v = 1 + EC_ILOG (v div 2)" by (subst EC_ILOG.simps) simp
  ultimately show ?case by simp
qed simp

lemma and_high:
  assumes "0 \<le> v" "v < 2 ^ b" "a \<le> b"
  shows "(v AND (2 ^ b - 2 ^ a)) = 0 \<longleftrightarrow> v < (2 :: int) ^ a"
proof -
  have m: "(2 :: int) ^ b - 2 ^ a = push_bit a (mask (b - a))"
    using assms(3) by (simp add: push_bit_eq_mult mask_eq_exp_minus_1 left_diff_distrib power_add [symmetric])
  have "\<not> bit v n" if "b \<le> n" for n using that assms(1,2) take_bit_int_eq_self [of v b] bit_take_bit_iff [of b v n] by simp
  then have "bit v n \<Longrightarrow> n < b" for n by (meson not_less)
  then have "(v AND (2 ^ b - 2 ^ a)) = push_bit a (drop_bit a v)" unfolding m by (intro bit_eqI) (auto simp: bit_simps intro: diff_less_mono)
  then have "(v AND (2 ^ b - 2 ^ a)) = v div 2 ^ a * 2 ^ a" by (simp add: push_bit_eq_mult drop_bit_eq_div)
  moreover have "v div 2 ^ a = 0 \<longleftrightarrow> v < 2 ^ a" using assms(1) by (auto simp: zdiv_eq_0_iff intro: less_le_trans)
  ultimately show ?thesis by simp
qed

text \<open>One step of the search: the upper half is looked at, and the value brought into the lower one.\<close>

definition halve :: "nat \<Rightarrow> int \<Rightarrow> int \<times> int" where
  "halve k v = (if v < 2 ^ k then (0, v) else (int k, v div 2 ^ k))"

lemma halve_step:
  assumes "0 < v" "v < 2 ^ (k + k)" "halve k v = (m, u)"
  shows "0 < u" "u < 2 ^ k" "EC_ILOG v = m + EC_ILOG u"
proof -
  have p: "(2 :: int) ^ k \<le> v \<Longrightarrow> 0 < v div 2 ^ k" using pos_imp_zdiv_pos_iff [of "2 ^ k" v] by simp
  have q: "v div 2 ^ k < 2 ^ k" using assms(2) by (rule div_less_pow)
  show "0 < u" "u < 2 ^ k" "EC_ILOG v = m + EC_ILOG u"
    using assms(1,3) p q EC_ILOG_shift [of k v] by (auto simp: halve_def not_less split: if_splits)
qed

lemma or_small: "0 \<le> r \<Longrightarrow> r < 2 ^ k \<Longrightarrow> (r OR 2 ^ k) = r + (2 :: int) ^ k"
  using or_pow [of r k 1] by simp

lemma mask_step:
  assumes "0 < v" "v < 2 ^ (k + k)" "M = 2 ^ (k + k) - 2 ^ k" "halve k v = (m, u)"
  shows "int k * of_bool (v AND M \<noteq> 0) = m" "drop_bit (nat m) v = u"
  using and_high [of v "k + k" k] assms by (auto simp: halve_def drop_bit_eq_div split: if_splits)

lemma ec_ilog_eq:
  assumes "0 \<le> v" "v < 2 ^ 32"
  shows "ec_ilog v = EC_ILOG v"
proof (cases "v = 0")
  case True
  then show ?thesis by (simp add: ec_ilog_def)
next
  case False
  obtain m1 v1 where h1: "halve 16 v = (m1, v1)" by fastforce
  obtain m2 v2 where h2: "halve 8 v1 = (m2, v2)" by fastforce
  obtain m3 v3 where h3: "halve 4 v2 = (m3, v3)" by fastforce
  obtain m4 v4 where h4: "halve 2 v3 = (m4, v4)" by fastforce
  have v: "0 < v" "v < 2 ^ (16 + 16)" using assms False by simp_all
  note s1 = halve_step [OF v h1]
  have b1: "v1 < 2 ^ (8 + 8)" using s1(2) by simp
  note s2 = halve_step [OF s1(1) b1 h2]
  have b2: "v2 < 2 ^ (4 + 4)" using s2(2) by simp
  note s3 = halve_step [OF s2(1) b2 h3]
  have b3: "v3 < 2 ^ (2 + 2)" using s3(2) by simp
  note s4 = halve_step [OF s3(1) b3 h4]
  note t1 = mask_step [OF v _ h1, of "0xFFFF0000", simplified] and t2 = mask_step [OF s1(1) b1 _ h2, of "0xFF00", simplified]
    and t3 = mask_step [OF s2(1) b2 _ h3, of "0xF0", simplified] and t4 = mask_step [OF s3(1) b3 _ h4, of "0xC", simplified]
  have m: "m1 = 0 \<or> m1 = 16" "m2 = 0 \<or> m2 = 8" "m3 = 0 \<or> m3 = 4" "m4 = 0 \<or> m4 = 2"
    using h1 h2 h3 h4 by (auto simp: halve_def split: if_splits)
  have o: "((((1 OR m1) OR m2) OR m3) OR m4) = 1 + m1 + m2 + m3 + m4" using m by auto
  have "v4 = 1 \<or> v4 = 2 \<or> v4 = 3" using s4(1,2) by auto
  then have e: "1 + of_bool (v4 AND 2 \<noteq> 0) = EC_ILOG v4"
    using EC_ILOG_shift [of 1 2] EC_ILOG_shift [of 1 3] EC_ILOG_1 by auto
  have "ec_ilog v = 1 + m1 + m2 + m3 + m4 + of_bool (v4 AND 2 \<noteq> 0)"
    using False by (simp only: ec_ilog_def Let_def t1 t2 t3 t4 of_bool_eq not_False_eq_True if_True simp_thms o)
  then show ?thesis using e s1(3) s2(3) s3(3) s4(3) by linarith
qed

end
