(* ===== verification/Opus_Tell.thy ===== *)
theory Opus_Tell
  imports Opus_Ilog
begin

text \<open>
  The number of bits used so far in eighths of a bit, from \<open>src/Vendor/opus/celt/entcode.c\<close>. The file has two versions of \<open>ec_tell_frac\<close>: the one
  compiled looks the fraction up among eight thresholds, the other, kept as its reference, squares the range three times. They agree.
\<close>

unbundle bit_operations_syntax

section \<open>The reference version\<close>

text \<open>The range, scaled to 16 bits, and the logarithm so far; each step gives one more bit of it.\<close>

definition tell_frac_step :: "int \<times> int \<Rightarrow> int \<times> int" where
  "tell_frac_step = (\<lambda>(r, l). let r = w32 (r * r) div 2 ^ 15; b = r div 2 ^ 16; l = l * 2 OR b in (r div 2 ^ nat b, l))"

fun tell_frac_loop :: "nat \<Rightarrow> int \<times> int \<Rightarrow> int \<times> int" where
  "tell_frac_loop 0 p = p"
| "tell_frac_loop (Suc i) p = tell_frac_loop i (tell_frac_step p)"

definition ec_tell_frac_squaring :: "ec_ctx \<Rightarrow> int" where
  "ec_tell_frac_squaring e =
    (let nbits = w32 (ec_nbits_total e * 2 ^ 3); l = EC_ILOG (ec_rng e); r = drop_bit (nat (l - 16)) (ec_rng e);
         (r, l) = tell_frac_loop 3 (r, l)
     in w32 (nbits - l))"

section \<open>The steps keep the order\<close>

definition tell_range :: "int \<Rightarrow> bool" where "tell_range r \<longleftrightarrow> 2 ^ 15 \<le> r \<and> r < 2 ^ 16"

lemma square_range:
  assumes "tell_range r"
  shows "w32 (r * r) = r * r" "2 ^ 15 \<le> r * r div 2 ^ 15" "r * r div 2 ^ 15 < 2 ^ 17"
proof -
  have r: "2 ^ 15 \<le> r" "r \<le> 2 ^ 16 - 1" using assms by (simp_all add: tell_range_def)
  have lo: "2 ^ 15 * 2 ^ 15 \<le> r * r" using r by (intro mult_mono) simp_all
  have "r * r \<le> (2 ^ 16 - 1) * (2 ^ 16 - 1)" using r by (intro mult_mono) simp_all
  then have hi: "r * r < 2 ^ 32" by simp
  show "w32 (r * r) = r * r" using hi lo by (simp add: w32_def)
  show "2 ^ 15 \<le> r * r div 2 ^ 15" using zdiv_mono1 [OF lo, of "2 ^ 15"] by simp
  show "r * r div 2 ^ 15 < 2 ^ 17" using hi by simp
qed

text \<open>One step: the new range stays scaled, and the logarithm gains a bit that can be taken out of the loop.\<close>

lemma tell_frac_step:
  assumes "tell_range r"
  obtains b r' where "\<And>l. tell_frac_step (r, l) = (r', 2 * l + b)" "tell_range r'"
    "(b = 0 \<and> r' = r * r div 2 ^ 15) \<or> (b = 1 \<and> 2 ^ 16 \<le> r * r div 2 ^ 15 \<and> r' = r * r div 2 ^ 15 div 2)"
proof -
  define q where "q = r * r div 2 ^ 15"
  have q: "2 ^ 15 \<le> q" "q < 2 ^ 17" and w: "w32 (r * r) div 2 ^ 15 = q" using square_range [OF assms] unfolding q_def by simp_all
  have step: "tell_frac_step (r, l) = (q div 2 ^ nat b, l * 2 OR b)" if "q div 2 ^ 16 = b" for l b
    unfolding tell_frac_step_def Let_def prod.case w that ..
  show thesis
  proof (cases "q < 2 ^ 16")
    case True
    have b: "q div 2 ^ 16 = 0" using True q(1) by simp
    show thesis by (rule that [of q 0]) (use q(1) True step [OF b] in \<open>simp_all add: tell_range_def q_def\<close>)
  next
    case False
    have b: "q div 2 ^ 16 = 1" using False q(2) by (simp add: div_pos_geq)
    have o: "l * 2 OR 1 = 2 * l + 1" for l :: int by (simp add: or_int_unfold [of _ 1] mult.commute)
    have h: "2 ^ 15 \<le> q div 2" "q div 2 < 2 ^ 16" using False q(2) by simp_all
    show thesis by (rule that [of "q div 2" 1]) (use step [OF b] o h False in \<open>simp_all add: tell_range_def q_def\<close>)
  qed
qed

text \<open>Scaled pairs are ordered by the logarithm first; a step keeps the order.\<close>

definition tell_le :: "int \<times> int \<Rightarrow> int \<times> int \<Rightarrow> bool" where
  "tell_le p q \<longleftrightarrow> snd p < snd q \<or> snd p = snd q \<and> fst p \<le> fst q"

lemma tell_bit_order:
  fixes x y :: int
  assumes "(b = 0 \<and> r = x) \<or> (b = 1 \<and> 2 ^ 16 \<le> x \<and> r = x div 2)" "(c = 0 \<and> s = y) \<or> (c = 1 \<and> 2 ^ 16 \<le> y \<and> s = y div 2)"
    and "x \<le> y" "s < 2 ^ 16"
  shows "b < c \<or> b = c \<and> r \<le> (s :: int) \<and> (b :: int) \<ge> 0"
  using assms zdiv_mono1 [OF assms(3), of 2] by auto

lemma tell_le_step:
  assumes "tell_range r" "tell_range s" "tell_le (r, l) (s, m)"
  shows "tell_range (fst (tell_frac_step (r, l)))" "tell_le (tell_frac_step (r, l)) (tell_frac_step (s, m))"
proof -
  obtain r' b where p: "\<And>l. tell_frac_step (r, l) = (r', 2 * l + b)" "tell_range r'"
    "(b = 0 \<and> r' = r * r div 2 ^ 15) \<or> (b = 1 \<and> 2 ^ 16 \<le> r * r div 2 ^ 15 \<and> r' = r * r div 2 ^ 15 div 2)"
    by (rule tell_frac_step [OF assms(1)]) (rule that)
  obtain s' c where q: "\<And>l. tell_frac_step (s, l) = (s', 2 * l + c)" "tell_range s'"
    "(c = 0 \<and> s' = s * s div 2 ^ 15) \<or> (c = 1 \<and> 2 ^ 16 \<le> s * s div 2 ^ 15 \<and> s' = s * s div 2 ^ 15 div 2)"
    by (rule tell_frac_step [OF assms(2)]) (rule that)
  show "tell_range (fst (tell_frac_step (r, l)))" using p by simp
  have bits: "b \<le> 1" "0 \<le> c" using p(3) q(3) by (elim disjE; simp)+
  have same: "2 * l + b < 2 * l + c \<or> 2 * l + b = 2 * l + c \<and> r' \<le> s'" if "r \<le> s"
  proof -
    have "r * r \<le> s * s" using that assms(1) by (intro mult_mono) (simp_all add: tell_range_def)
    then have "r * r div 2 ^ 15 \<le> s * s div 2 ^ 15" by (rule zdiv_mono1) simp
    from tell_bit_order [OF p(3) q(3) this] q(2) show ?thesis by (auto simp: tell_range_def)
  qed
  show "tell_le (tell_frac_step (r, l)) (tell_frac_step (s, m))"
    using assms(3) same bits unfolding p(1) q(1) tell_le_def by auto
qed

lemma tell_le_loop:
  "tell_range (fst p) \<Longrightarrow> tell_range (fst q) \<Longrightarrow> tell_le p q \<Longrightarrow> tell_le (tell_frac_loop n p) (tell_frac_loop n q)"
proof (induction n arbitrary: p q)
  case (Suc n)
  obtain r l s m where pq: "p = (r, l)" "q = (s, m)" by fastforce
  have same: "tell_le (s, m) (s, m)" by (simp add: tell_le_def)
  show ?case unfolding tell_frac_loop.simps
    by (rule Suc.IH) (use tell_le_step [of r s l m] tell_le_step [of s s m m] Suc.prems same in \<open>simp_all add: pq\<close>)
qed simp

lemma tell_frac_mono: "tell_range r \<Longrightarrow> tell_range s \<Longrightarrow> r \<le> s \<Longrightarrow> snd (tell_frac_loop 3 (r, 0)) \<le> snd (tell_frac_loop 3 (s, 0))"
  using tell_le_loop [of "(r, 0)" "(s, 0)" 3] by (auto simp: tell_le_def)

text \<open>The whole part does not take part in the loop.\<close>

lemma tell_frac_loop_shift:
  "tell_range r \<Longrightarrow> snd (tell_frac_loop n (r, l)) = 2 ^ n * l + snd (tell_frac_loop n (r, 0))"
proof (induction n arbitrary: r l)
  case (Suc n)
  obtain b r' where p: "\<And>l. tell_frac_step (r, l) = (r', 2 * l + b)" "tell_range r'" by (rule tell_frac_step [OF Suc(2)]) blast
  show ?case using Suc(1) [OF p(2), of "2 * l + b"] Suc(1) [OF p(2), of b] by (simp add: p(1) algebra_simps)
qed simp

section \<open>The thresholds\<close>

definition tell_frac_lookup :: "int \<Rightarrow> int" where
  "tell_frac_lookup r = (let b = r div 2 ^ 12 - 8 in b + of_bool (r > ec_tell_correction ! nat b))"

lemma tell_frac_ends:
  "list_all (\<lambda>i. let c = ec_tell_correction ! i; lo = 4096 * (8 + int i); hi = lo + 4095 in lo \<le> c \<and> c \<le> hi \<and>
      snd (tell_frac_loop 3 (lo, 0)) = int i \<and> snd (tell_frac_loop 3 (c, 0)) = int i \<and>
      (c < hi \<longrightarrow> snd (tell_frac_loop 3 (c + 1, 0)) = int i + 1 \<and> snd (tell_frac_loop 3 (hi, 0)) = int i + 1)) [0..<8]"
  by code_simp

lemma tell_frac_lookup_eq:
  assumes "tell_range r"
  shows "snd (tell_frac_loop 3 (r, 0)) = tell_frac_lookup r"
proof -
  define i where "i = nat (r div 2 ^ 12 - 8)"
  have r: "2 ^ 15 \<le> r" "r < 2 ^ 16" using assms by (simp_all add: tell_range_def)
  have q: "8 \<le> r div 2 ^ 12" "r div 2 ^ 12 < 16" using zdiv_mono1 [OF r(1), of "2 ^ 12"] r(2) by simp_all
  then have i: "i < 8" "r div 2 ^ 12 - 8 = int i" by (simp_all add: i_def)
  define c lo where "c = ec_tell_correction ! i" and "lo = 4096 * (8 + int i)"
  have r: "lo \<le> r" "r \<le> lo + 4095" using i(2) unfolding lo_def by simp_all
  have e: "lo \<le> c" "c \<le> lo + 4095" "snd (tell_frac_loop 3 (lo, 0)) = int i" "snd (tell_frac_loop 3 (c, 0)) = int i"
    "c < lo + 4095 \<Longrightarrow> snd (tell_frac_loop 3 (c + 1, 0)) = int i + 1 \<and> snd (tell_frac_loop 3 (lo + 4095, 0)) = int i + 1"
    using tell_frac_ends i(1) unfolding list_all_iff c_def lo_def Let_def by auto
  have t: "tell_range x" if "lo \<le> x" "x \<le> lo + 4095" for x using that i(1) unfolding lo_def tell_range_def by auto
  have "snd (tell_frac_loop 3 (r, 0)) = int i + of_bool (r > c)"
  proof (cases "r > c")
    case True
    then have "c < lo + 4095" using r by simp
    from e(5) [OF this] tell_frac_mono [of "c + 1" r] tell_frac_mono [of r "lo + 4095"] t r True e(1,2) show ?thesis by simp
  next
    case False
    with tell_frac_mono [of lo r] tell_frac_mono [of r c] t r e show ?thesis by simp
  qed
  then show ?thesis unfolding tell_frac_lookup_def Let_def i(2) c_def by simp
qed

theorem ec_tell_frac_eq:
  assumes "2 ^ 15 \<le> ec_rng e" "ec_rng e < 2 ^ 32"
  shows "ec_tell_frac e = ec_tell_frac_squaring e"
proof -
  define l where "l = EC_ILOG (ec_rng e)"
  define r where "r = drop_bit (nat (l - 16)) (ec_rng e)"
  have "0 < ec_rng e" using assms(1) by simp
  from EC_ILOG_bounds [OF this] have b: "2 ^ nat (l - 1) \<le> ec_rng e" "ec_rng e < 2 ^ nat l" by (simp_all add: l_def)
  have "(2 :: int) ^ 15 < 2 ^ nat l" using assms(1) b(2) by (rule le_less_trans)
  then have l: "16 \<le> l" using power_less_imp_less_exp [of "2 :: int" 15 "nat l"] by simp
  have n: "nat (l - 1) = nat (l - 16) + 15" "nat l = nat (l - 16) + 16" using l by simp_all
  have "tell_range r"
    using zdiv_mono1 [OF b(1), of "2 ^ nat (l - 16)"] div_less_pow [OF b(2) [unfolded n]]
    unfolding r_def tell_range_def drop_bit_eq_div n power_add by simp
  then have "snd (tell_frac_loop 3 (r, l)) = l * 8 + (drop_bit 12 r - 8 + of_bool (r > ec_tell_correction ! nat (drop_bit 12 r - 8)))"
    using tell_frac_loop_shift [of r 3 l] tell_frac_lookup_eq [of r] by (simp add: tell_frac_lookup_def Let_def drop_bit_eq_div)
  moreover have "nbits * 2 ^ 3 = nbits * (8 :: int)" for nbits by simp
  ultimately show ?thesis
    unfolding ec_tell_frac_def ec_tell_frac_squaring_def Let_def l_def [symmetric] r_def [symmetric] case_prod_unfold by simp
qed

end
