(* ===== verification/Opus_Codes.thy ===== *)
theory Opus_Codes
  imports Opus_Decode_Total
begin

text \<open>
  Coders built from coders. \<open>codes enc dec v\<close> says that an encoding step and a decoding step belong together on the value \<open>v\<close>: the laws of
  \<open>symbol_coder\<close> for one value. \<open>answers dec P\<close> says that the decoding step returns on every buffer, with a value in \<open>P\<close>. Both are closed under
  sequence, choice and loops, which is how the SILK coders are put together.
\<close>

unbundle bit_operations_syntax

section \<open>Steps that keep in step\<close>

text \<open>
  Besides the law of \<open>symbol_coder\<close>, a step narrows the interval, and the decoder does not look at the first byte of the buffer again. This is what allows
  the first bits to be patched after everything is coded.
\<close>

definition same_tail :: "bytes \<Rightarrow> bytes \<Rightarrow> bool" where
  "same_tail B B' \<longleftrightarrow> length B' = length B \<and> (\<forall>i. 0 < i \<longrightarrow> i < length B \<longrightarrow> B' ! i = B ! i)"

definition nested :: "ec_ctx \<Rightarrow> ec_ctx \<Rightarrow> bool" where
  "nested e f \<longleftrightarrow> raw_len f = raw_len e \<and>
     (\<exists>j. enc_n f = enc_n e + j \<and> 256 ^ j * enc_low e \<le> enc_low f \<and> enc_low f + ec_rng f \<le> 256 ^ j * (enc_low e + ec_rng e))"

definition tracks :: "ec_ctx \<Rightarrow> (ec_ctx \<Rightarrow> (ec_ctx \<times> 'v) option) \<Rightarrow> 'v \<Rightarrow> ec_ctx \<Rightarrow> bool" where
  "tracks e dec v f \<longleftrightarrow> coder_inv f \<and> nested e f \<and> (\<forall>B. coder_holds B f \<longrightarrow> coder_holds B e \<and>
     (\<forall>B' d. same_tail B B' \<and> coder_agree B e d \<longrightarrow> (\<exists>d'. dec (d\<lparr>ec_buf := B'\<rparr>) = Some (d'\<lparr>ec_buf := B'\<rparr>, v) \<and> coder_agree B f d')))"

lemma agree_buf: "coder_agree B e d \<Longrightarrow> d\<lparr>ec_buf := B\<rparr> = d"
  by (auto simp: coder_agree_def dec_sync_def split: prod.splits)

lemma tracks_both: "tracks e dec v f \<Longrightarrow> both e dec v f"
  unfolding both_def
proof (intro conjI allI impI)
  assume t: "tracks e dec v f"
  then show "coder_inv f" by (simp add: tracks_def)
  fix B assume h: "coder_holds B f"
  then show "coder_holds B e" using t by (simp add: tracks_def)
  fix d assume a: "coder_agree B e d"
  have "same_tail B B" by (simp add: same_tail_def)
  then obtain d' where "dec (d\<lparr>ec_buf := B\<rparr>) = Some (d'\<lparr>ec_buf := B\<rparr>, v)" "coder_agree B f d'" using t h a unfolding tracks_def by blast
  then show "\<exists>d'. dec d = Some (d', v) \<and> coder_agree B f d'" using agree_buf [OF a] agree_buf by auto
qed

lemma nested_trans:
  assumes "nested e g" "nested g f"
  shows "nested e f"
proof -
  obtain j where j: "enc_n g = enc_n e + j" "256 ^ j * enc_low e \<le> enc_low g" "enc_low g + ec_rng g \<le> 256 ^ j * (enc_low e + ec_rng e)"
    using assms(1) by (auto simp: nested_def)
  obtain k where k: "enc_n f = enc_n g + k" "256 ^ k * enc_low g \<le> enc_low f" "enc_low f + ec_rng f \<le> 256 ^ k * (enc_low g + ec_rng g)"
    using assms(2) by (auto simp: nested_def)
  have m: "256 ^ k * (256 ^ j * enc_low e) \<le> 256 ^ k * enc_low g" "256 ^ k * (enc_low g + ec_rng g) \<le> 256 ^ k * (256 ^ j * (enc_low e + ec_rng e))"
    by (rule mult_left_mono [OF j(2)], simp, rule mult_left_mono [OF j(3)], simp)
  have p: "256 ^ (j + k) * x = 256 ^ k * (256 ^ j * x)" for x :: int by (simp add: power_add)
  have "256 ^ (j + k) * enc_low e \<le> enc_low f" "enc_low f + ec_rng f \<le> 256 ^ (j + k) * (enc_low e + ec_rng e)"
    unfolding p using order_trans [OF m(1) k(2)] order_trans [OF k(3) m(2)] by blast+
  then show ?thesis using assms j(1) k(1) unfolding nested_def by (metis add.assoc)
qed

lemma nested_refl: "nested e e"
  unfolding nested_def by (intro conjI exI [of _ 0]) simp_all

lemma tracks_seq:
  assumes "tracks e dec v g" "tracks g (\<lambda>d. dec' d v) w f"
  shows "tracks e (\<lambda>d. do { (d, v) \<leftarrow> dec d; dec' d v }) w f"
  unfolding tracks_def
proof (intro conjI allI impI)
  show "coder_inv f" "nested e f" using assms nested_trans by (auto simp: tracks_def)
  fix B assume "coder_holds B f"
  then have hg: "coder_holds B g" and dg: "\<And>B' d. same_tail B B' \<Longrightarrow> coder_agree B g d \<Longrightarrow> \<exists>d'. dec' (d\<lparr>ec_buf := B'\<rparr>) v = Some (d'\<lparr>ec_buf := B'\<rparr>, w) \<and> coder_agree B f d'"
    using assms(2) by (simp_all add: tracks_def)
  then show "coder_holds B e" using assms(1) by (simp add: tracks_def)
  fix B' d assume a: "same_tail B B' \<and> coder_agree B e d"
  then obtain d1 where "dec (d\<lparr>ec_buf := B'\<rparr>) = Some (d1\<lparr>ec_buf := B'\<rparr>, v)" "coder_agree B g d1" using assms(1) hg unfolding tracks_def by blast
  then show "\<exists>d'. do { (d, v) \<leftarrow> dec (d\<lparr>ec_buf := B'\<rparr>); dec' d v } = Some (d'\<lparr>ec_buf := B'\<rparr>, w) \<and> coder_agree B f d'" using dg a by fastforce
qed

lemma tracks_cong: "tracks e dec v f \<Longrightarrow> (\<And>d d'. dec d = Some (d', v) \<Longrightarrow> dec' d = Some (d', w)) \<Longrightarrow> tracks e dec' w f"
  unfolding tracks_def by blast

lemma tracks_return: "coder_inv e \<Longrightarrow> tracks e (\<lambda>d. Some (d, v)) v e"
  unfolding tracks_def using nested_refl by blast

section \<open>Codes\<close>

definition codes :: "(ec_ctx \<Rightarrow> ec_ctx option) \<Rightarrow> (ec_ctx \<Rightarrow> (ec_ctx \<times> 'v) option) \<Rightarrow> 'v \<Rightarrow> bool" where
  "codes enc dec v \<longleftrightarrow>
     (\<forall>e. coder_ready e \<longrightarrow> (\<exists>f. enc e = Some f \<and> coder_ready f)) \<and>
     (\<forall>e f. enc e = Some f \<and> coder_ok f \<longrightarrow> coder_ok e) \<and>
     (\<forall>e f. coder_inv e \<and> enc e = Some f \<and> coder_ok f \<longrightarrow> tracks e dec v f)"

lemma codesD:
  assumes "codes enc dec v"
  shows "coder_ready e \<Longrightarrow> \<exists>f. enc e = Some f \<and> coder_ready f" "enc e = Some f \<Longrightarrow> coder_ok f \<Longrightarrow> coder_ok e"
    "coder_inv e \<Longrightarrow> enc e = Some f \<Longrightarrow> coder_ok f \<Longrightarrow> tracks e dec v f"
  using assms unfolding codes_def by blast+

lemma codes_return: "codes Some (\<lambda>d. Some (d, v)) v"
  by (auto simp: codes_def intro: tracks_return)

lemma codes_bind:
  assumes "codes enc dec v" "codes enc' (\<lambda>d. dec' d v) w"
  shows "codes (\<lambda>e. do { e \<leftarrow> enc e; enc' e }) (\<lambda>d. do { (d, v) \<leftarrow> dec d; dec' d v }) w"
  unfolding codes_def
proof (intro conjI allI impI)
  fix e assume "coder_ready e"
  then obtain g where "enc e = Some g" "coder_ready g" using codesD(1) [OF assms(1)] by blast
  then show "\<exists>f. do { e \<leftarrow> enc e; enc' e } = Some f \<and> coder_ready f" using codesD(1) [OF assms(2), of g] by simp
next
  fix e f assume "do { e \<leftarrow> enc e; enc' e } = Some f \<and> coder_ok f"
  then obtain g where "enc e = Some g" "enc' g = Some f" "coder_ok f" by (auto simp: bind_eq_Some_conv)
  then show "coder_ok e" using codesD(2) [OF assms(2)] codesD(2) [OF assms(1)] by blast
next
  fix e f assume a: "coder_inv e \<and> do { e \<leftarrow> enc e; enc' e } = Some f \<and> coder_ok f"
  then obtain g where g: "enc e = Some g" "enc' g = Some f" by (auto simp: bind_eq_Some_conv)
  then have "coder_ok g" using codesD(2) [OF assms(2)] a by blast
  then have b: "tracks e dec v g" using codesD(3) [OF assms(1)] a g(1) by blast
  then have "tracks g (\<lambda>d. dec' d v) w f" using codesD(3) [OF assms(2)] a g(2) unfolding tracks_def [of e] by blast
  with b show "tracks e (\<lambda>d. do { (d, v) \<leftarrow> dec d; dec' d v }) w f" by (rule tracks_seq)
qed

lemma codes_cong:
  assumes "codes enc dec v" "\<And>d d'. dec d = Some (d', v) \<Longrightarrow> dec' d = Some (d', w)"
  shows "codes enc dec' w"
  using codesD [OF assms(1)] unfolding codes_def by (blast intro: tracks_cong assms(2))

text \<open>The value of a step is passed on, or changed on the way.\<close>

lemma codes_map: "codes enc dec v \<Longrightarrow> codes enc (\<lambda>d. do { (d, v) \<leftarrow> dec d; Some (d, f v) }) (f v)"
  by (erule codes_cong) simp

lemma codes_then: "codes enc dec v \<Longrightarrow> (\<And>d. dec' d v = Some (d, w)) \<Longrightarrow> codes enc (\<lambda>d. do { (d, v) \<leftarrow> dec d; dec' d v }) w"
  by (erule codes_cong) simp

section \<open>Symbols of a table\<close>

text \<open>The tables are often parts of a larger one: what follows the final 0 is never looked at.\<close>

lemma icdf_search_append:
  "ec_icdf_search xs d r s n = Some p \<Longrightarrow> ec_icdf_search (xs @ ys) d r s n = Some p"
  by (induction xs arbitrary: s n) (auto simp: Let_def split: if_splits)

lemma dec_icdf_append: "ec_dec_icdf d xs ftb = Some p \<Longrightarrow> ec_dec_icdf d (xs @ ys) ftb = Some p"
  by (auto simp: ec_dec_icdf_def bind_eq_Some_conv dest: icdf_search_append [of _ _ _ _ _ _ ys])

text \<open>Reading on does not look at the first byte.\<close>

lemma read_byte_blind:
  assumes "same_tail (ec_buf d) B'" "ec_storage d = length B'" "0 < ec_offs d \<or> B' = []"
  shows "ec_read_byte (d\<lparr>ec_buf := B'\<rparr>) = (let (d, b) = ec_read_byte d in (d\<lparr>ec_buf := B'\<rparr>, b))" "ec_buf (fst (ec_read_byte d)) = ec_buf d"
    "ec_storage (fst (ec_read_byte d)) = ec_storage d" "ec_offs d \<le> ec_offs (fst (ec_read_byte d))"
  using assms by (auto simp: ec_read_byte_def same_tail_def)

lemma dec_normalize_blind:
  assumes "ec_dec_normalize d = Some d'" "same_tail (ec_buf d) B'" "ec_storage d = length B'" "0 < ec_offs d \<or> B' = []"
  shows "ec_dec_normalize (d\<lparr>ec_buf := B'\<rparr>) = Some (d'\<lparr>ec_buf := B'\<rparr>)"
  using assms
proof (induction rule: ec_dec_normalize.raw_induct [rotated, consumes 1, case_names step])
  case (step f d d')
  define g where "g = d\<lparr>ec_nbits_total := ec_nbits_total d + 8, ec_rng := w32 (ec_rng d * 2 ^ 8)\<rparr>"
  obtain h b where h: "ec_read_byte g = (h, b)" by fastforce
  have c: "same_tail (ec_buf g) B'" "ec_storage g = length B'" "0 < ec_offs g \<or> B' = []" using step(3-5) by (simp_all add: g_def)
  note r = read_byte_blind [OF c, unfolded h]
  have g': "d\<lparr>ec_buf := B', ec_nbits_total := ec_nbits_total d + 8, ec_rng := w32 (ec_rng d * 256)\<rparr> = g\<lparr>ec_buf := B'\<rparr>" by (cases d) (simp add: g_def)
  have h': "h\<lparr>ec_buf := B', ec_rem := x, ec_val := y\<rparr> = h\<lparr>ec_rem := x, ec_val := y, ec_buf := B'\<rparr>" for x y by (cases h) simp
  show ?case
  proof (cases "ec_rng d \<le> 2 ^ 23")
    case True
    define k where "k = h\<lparr>ec_rem := b, ec_val := w32 (w32 (ec_val h * 2 ^ 8) + (255 AND NOT ((ec_rem d * 2 ^ 8 OR b) div 2))) mod 2 ^ 31\<rparr>"
    have "f k = Some d'" using step(2) True h by (simp add: k_def g_def)
    then have "ec_dec_normalize (k\<lparr>ec_buf := B'\<rparr>) = Some (d'\<lparr>ec_buf := B'\<rparr>)" using step(1) r(2-4) c by (fastforce simp: k_def)
    moreover have "ec_dec_normalize (d\<lparr>ec_buf := B'\<rparr>) = ec_dec_normalize (k\<lparr>ec_buf := B'\<rparr>)"
      using True r(1) by (subst ec_dec_normalize.simps) (simp add: g' h' k_def)
    ultimately show ?thesis by simp
  next
    case False
    then have "d' = d" using step(2) by simp
    moreover have "ec_dec_normalize (d\<lparr>ec_buf := B'\<rparr>) = Some (d\<lparr>ec_buf := B'\<rparr>)" using False by (subst ec_dec_normalize.simps) simp
    ultimately show ?thesis by simp
  qed
qed

lemma dec_icdf_blind:
  assumes "ec_dec_icdf d icdf ftb = Some (d', s)" "same_tail (ec_buf d) B'" "ec_storage d = length B'" "0 < ec_offs d \<or> B' = []"
  shows "ec_dec_icdf (d\<lparr>ec_buf := B'\<rparr>) icdf ftb = Some (d'\<lparr>ec_buf := B'\<rparr>, s)"
proof -
  obtain l t g where g: "ec_icdf_search icdf (ec_val d) (ec_rng d div 2 ^ ftb) (ec_rng d) 0 = Some (s, l, t)"
    "ec_dec_normalize (d\<lparr>ec_val := w32 (ec_val d - l), ec_rng := w32 (t - l)\<rparr>) = Some d'"
    using assms(1) by (auto simp: ec_dec_icdf_def bind_eq_Some_conv)
  have c: "d\<lparr>ec_buf := B', ec_val := x, ec_rng := y\<rparr> = d\<lparr>ec_val := x, ec_rng := y, ec_buf := B'\<rparr>" for x y by (cases d) simp
  from dec_normalize_blind [OF g(2), of B'] assms(2-4) g(1) show ?thesis by (simp add: ec_dec_icdf_def c)
qed

lemma agree_blind:
  assumes "coder_agree B e d" "same_tail B B'"
  shows "same_tail (ec_buf d) B'" "ec_storage d = length B'" "0 < ec_offs d \<or> B' = []"
  using assms by (auto simp: coder_agree_def dec_sync_def same_tail_def dec_iv_def)

lemma renorm_power: "0 < rng \<Longrightarrow> \<exists>j. renorm (n, low, rng) = (n + j, 256 ^ j * low, 256 ^ j * rng)"
proof (induction "(n, low, rng)" arbitrary: n low rng rule: renorm.induct)
  case (1 n low rng)
  show ?case
  proof (cases "rng \<le> 2 ^ 23")
    case True
    then obtain j where "renorm (n + 1, 256 * low, 256 * rng) = (n + 1 + j, 256 ^ j * (256 * low), 256 ^ j * (256 * rng))" using 1 by force
    then show ?thesis using True 1(2) by (intro exI [of _ "j + 1"]) (simp add: renorm.simps [of n low rng])
  next
    case False
    then show ?thesis by (intro exI [of _ 0]) (simp add: renorm.simps [of n low rng])
  qed
qed

lemma nested_narrow:
  assumes "enc_iv f = renorm (narrow (enc_iv e) t s)" "0 \<le> s" "s < t" "t \<le> ec_rng e" "same_raw e f"
  shows "nested e f"
proof -
  obtain j where j: "enc_n f = enc_n e + j" "enc_low f = 256 ^ j * (enc_low e + ec_rng e - t)" "ec_rng f = 256 ^ j * (t - s)"
    using renorm_power [of "t - s" "enc_n e" "enc_low e + ec_rng e - t"] assms(1,3) by (auto simp: enc_iv_def narrow_def)
  have "enc_low f + ec_rng f = 256 ^ j * (enc_low e + ec_rng e - s)" unfolding j(2,3) by (simp add: algebra_simps)
  then have "enc_low f + ec_rng f \<le> 256 ^ j * (enc_low e + ec_rng e)" using assms(2) by simp
  moreover have "256 ^ j * enc_low e \<le> enc_low f" unfolding j(2) using assms(4) by simp
  moreover have "raw_len f = raw_len e" using assms(5) by (simp add: same_raw_def raw_len_def)
  ultimately show ?thesis using j(1) by (auto simp: nested_def)
qed

lemma icdf_tracks:
  assumes "coder_inv e" "valid_icdf icdf 8" "icdf_symbol y icdf 8" "ec_enc_icdf e y icdf 8 = Some f" "coder_ok f"
  shows "tracks e (\<lambda>d. ec_dec_icdf d icdf 8) y f"
proof -
  have rng: "2 ^ 8 \<le> ec_rng e" "enc_inv e" using assms(1) by (auto simp: coder_inv_def)
  obtain t s where ts: "icdf_span (ec_rng e) y icdf 8 = (t, s)" by fastforce
  have vs: "valid_span (ec_rng e) (t, s)" using icdf_span_valid [OF assms(2,3) rng(1)] ts by simp
  have "enc_narrow e t s = Some f" using assms(4) enc_icdf_span [OF rng(2) assms(2,3) rng(1)] ts by simp
  then have "nested e f"
    using vs assms(5) enc_narrow_step(3,4) [OF rng(2) _ _ _ \<open>enc_narrow e t s = Some f\<close>] nested_narrow [of f e t s] by (simp add: valid_span_def coder_ok_def)
  moreover have b: "both e (\<lambda>d. ec_dec_icdf d icdf 8) y f"
    by (rule both_cong [OF icdf_both [OF assms(1-3) _ assms(4,5), unfolded value_both_iff]]) (auto simp: bind_eq_Some_conv)
  moreover have "\<exists>d'. ec_dec_icdf (d\<lparr>ec_buf := B'\<rparr>) icdf 8 = Some (d'\<lparr>ec_buf := B'\<rparr>, y) \<and> coder_agree B f d'"
    if h: "coder_holds B f" and a: "same_tail B B'" "coder_agree B e d" for B B' d
  proof -
    obtain d' where "ec_dec_icdf d icdf 8 = Some (d', y)" "coder_agree B f d'" using b h a(2) unfolding both_def by blast
    then show ?thesis using dec_icdf_blind agree_blind [OF a(2,1)] by blast
  qed
  ultimately show ?thesis unfolding tracks_def both_def by blast
qed

definition table_symbol :: "int list \<Rightarrow> nat \<Rightarrow> nat \<Rightarrow> bool" where
  "table_symbol icdf n s \<longleftrightarrow> n \<le> length icdf \<and> valid_icdf (take n icdf) 8 \<and> icdf_symbol s (take n icdf) 8"

lemma enc_icdf_take: "s < n \<Longrightarrow> ec_enc_icdf e s (take n icdf) ftb = ec_enc_icdf e s icdf ftb"
proof -
  assume "s < n"
  then have "take n icdf ! s = icdf ! s" "take n icdf ! (s - 1) = icdf ! (s - 1)" by simp_all
  then show ?thesis unfolding ec_enc_icdf_def by (simp only:)
qed

lemma codes_icdf:
  assumes "table_symbol icdf n s"
  shows "codes (\<lambda>e. ec_enc_icdf e s icdf 8) (\<lambda>d. ec_dec_icdf d icdf 8) s"
proof -
  have t: "valid_icdf (take n icdf) 8" "icdf_symbol s (take n icdf) 8" "s < n" using assms by (auto simp: table_symbol_def icdf_symbol_def)
  have v: "valid_value (Ask_icdf (take n icdf) 8) (Index s)" using t by simp
  have e: "ec_enc_icdf e s icdf 8 = encode_value e (Ask_icdf (take n icdf) 8) (Index s)" for e using t(3) by (simp add: enc_icdf_take)
  have "codes (\<lambda>e. ec_enc_icdf e s icdf 8) (\<lambda>d. ec_dec_icdf d (take n icdf) 8) s"
    unfolding codes_def
  proof (intro conjI allI impI)
    fix e show "coder_ready e \<Longrightarrow> \<exists>f. ec_enc_icdf e s icdf 8 = Some f \<and> coder_ready f" unfolding e using encode_value_total v by blast
  next
    fix e f show "ec_enc_icdf e s icdf 8 = Some f \<and> coder_ok f \<Longrightarrow> coder_ok e" unfolding e using encode_value_back by blast
  next
    fix e f assume a: "coder_inv e \<and> ec_enc_icdf e s icdf 8 = Some f \<and> coder_ok f"
    then have "ec_enc_icdf e s (take n icdf) 8 = Some f" using t(3) by (simp add: enc_icdf_take)
    then show "tracks e (\<lambda>d. ec_dec_icdf d (take n icdf) 8) s f" using icdf_tracks t(1,2) a by blast
  qed
  then show ?thesis by (rule codes_cong) (use dec_icdf_append [of _ "take n icdf" 8 _ "drop n icdf"] in simp)
qed

section \<open>Decoding steps that return\<close>

definition answers :: "(ec_ctx \<Rightarrow> (ec_ctx \<times> 'v) option) \<Rightarrow> ('v \<Rightarrow> bool) \<Rightarrow> bool" where
  "answers dec P \<longleftrightarrow> (\<forall>B d. dec_state B d \<longrightarrow> (\<exists>d' v. dec d = Some (d', v) \<and> P v \<and> dec_state B d'))"

lemma answersD: "answers dec P \<Longrightarrow> dec_state B d \<Longrightarrow> \<exists>d' v. dec d = Some (d', v) \<and> P v \<and> dec_state B d'"
  by (simp add: answers_def)

lemma answers_return: "P v \<Longrightarrow> answers (\<lambda>d. Some (d, v)) P"
  by (simp add: answers_def)

lemma answers_bind:
  assumes "answers dec P" "\<And>v. P v \<Longrightarrow> answers (\<lambda>d. dec' d v) Q"
  shows "answers (\<lambda>d. do { (d, v) \<leftarrow> dec d; dec' d v }) Q"
  unfolding answers_def
proof (intro allI impI)
  fix B d assume "dec_state B d"
  then obtain d1 v where v: "dec d = Some (d1, v)" "P v" "dec_state B d1" using answersD [OF assms(1)] by blast
  from answersD [OF assms(2) [OF v(2)] v(3)] show "\<exists>d' w. do { (d, v) \<leftarrow> dec d; dec' d v } = Some (d', w) \<and> Q w \<and> dec_state B d'" using v(1) by simp
qed

lemma answers_mono: "answers dec P \<Longrightarrow> (\<And>v. P v \<Longrightarrow> Q v) \<Longrightarrow> answers dec Q"
  unfolding answers_def by blast

lemma answers_icdf:
  assumes "table_symbol icdf n 0"
  shows "answers (\<lambda>d. ec_dec_icdf d icdf 8) (table_symbol icdf n)"
  unfolding answers_def
proof (intro allI impI)
  fix B d assume d: "dec_state B d"
  have t: "valid_icdf (take n icdf) 8" "icdf_symbol 0 (take n icdf) 8" "n \<le> length icdf" using assms by (simp_all add: table_symbol_def)
  obtain d' v where v: "decode_value d (Ask_icdf (take n icdf) 8) = Some (d', v)" "valid_value (Ask_icdf (take n icdf) 8) v" "dec_state B d'"
    using icdf_answered [OF d t(1,2)] by (auto simp: answered_def)
  then obtain s where s: "v = Index s" "ec_dec_icdf d (take n icdf) 8 = Some (d', s)" by (auto simp: bind_eq_Some_conv)
  then have "ec_dec_icdf d icdf 8 = Some (d', s)" using dec_icdf_append [of d "take n icdf" 8 _ "drop n icdf"] by simp
  then show "\<exists>d' v. ec_dec_icdf d icdf 8 = Some (d', v) \<and> table_symbol icdf n v \<and> dec_state B d'" using v(2,3) s(1) t by (auto simp: table_symbol_def)
qed

lemma table_symbol_less: "table_symbol icdf n s \<Longrightarrow> s < n"
  by (auto simp: table_symbol_def icdf_symbol_def)

text \<open>A table all of whose symbols have a positive probability.\<close>

definition full_table :: "int list \<Rightarrow> nat \<Rightarrow> bool" where
  "full_table icdf n \<longleftrightarrow> 0 < n \<and> n \<le> length icdf \<and> sorted_wrt (>) (256 # take n icdf) \<and> icdf ! (n - 1) = 0"

lemma full_table_symbol:
  assumes "full_table icdf n" "s < n"
  shows "table_symbol icdf n s"
proof -
  have t: "0 < n" "n \<le> length icdf" "sorted_wrt (>) (256 # take n icdf)" "icdf ! (n - 1) = 0" using assms(1) by (simp_all add: full_table_def)
  have "take n icdf \<noteq> []" using t(1,2) by auto
  moreover have "last (take n icdf) = 0" using t(1,2,4) calculation by (simp add: last_conv_nth min_def del: take_eq_Nil take_eq_Nil2)
  moreover have "sorted_wrt (\<ge>) (256 # take n icdf)" using t(3) by (rule sorted_wrt_mono_rel [rotated]) simp
  moreover have "(256 # take n icdf) ! Suc s < (256 # take n icdf) ! s" using t assms(2) by (intro sorted_wrt_nth_less [OF t(3)]) simp_all
  ultimately show ?thesis using t(2) assms(2) by (simp add: table_symbol_def valid_icdf_def icdf_symbol_def)
qed

lemma codes_full: "full_table icdf n \<Longrightarrow> s < n \<Longrightarrow> codes (\<lambda>e. ec_enc_icdf e s icdf 8) (\<lambda>d. ec_dec_icdf d icdf 8) s"
  using codes_icdf full_table_symbol by blast

lemma answers_full: "full_table icdf n \<Longrightarrow> answers (\<lambda>d. ec_dec_icdf d icdf 8) (\<lambda>s. s < n)"
  by (rule answers_mono [OF answers_icdf table_symbol_less]) (auto intro!: full_table_symbol simp: full_table_def)

section \<open>Loops\<close>

text \<open>A loop over a list: each element is coded in turn.\<close>

fun encode_each :: "('a \<Rightarrow> ec_ctx \<Rightarrow> ec_ctx option) \<Rightarrow> 'a list \<Rightarrow> ec_ctx \<Rightarrow> ec_ctx option" where
  "encode_each enc [] e = Some e"
| "encode_each enc (x # xs) e = do { e \<leftarrow> enc x e; encode_each enc xs e }"

fun decode_each :: "('a \<Rightarrow> ec_ctx \<Rightarrow> (ec_ctx \<times> 'v) option) \<Rightarrow> 'a list \<Rightarrow> ec_ctx \<Rightarrow> (ec_ctx \<times> 'v list) option" where
  "decode_each dec [] d = Some (d, [])"
| "decode_each dec (x # xs) d = do { (d, v) \<leftarrow> dec x d; (d, vs) \<leftarrow> decode_each dec xs d; Some (d, v # vs) }"

lemma codes_each:
  assumes "list_all2 (\<lambda>x y. codes (enc x) (dec y) (f x)) xs ys"
  shows "codes (encode_each enc xs) (decode_each dec ys) (map f xs)"
  using assms
proof (induction xs ys)
  case Nil
  show ?case using codes_return [of "[]"] by (simp add: codes_def)
next
  case (Cons x xs y ys)
  show ?case unfolding encode_each.simps decode_each.simps list.map
    by (rule codes_bind [OF Cons(1)]) (rule codes_then [OF Cons(3)], simp)
qed

lemma answers_each:
  assumes "\<And>x. x \<in> set xs \<Longrightarrow> answers (dec x) (P x)"
  shows "answers (decode_each dec xs) (list_all2 P xs)"
  using assms
proof (induction xs)
  case Nil
  show ?case using answers_return by (simp add: answers_def)
next
  case (Cons x xs)
  then have ih: "answers (decode_each dec xs) (list_all2 P xs)" and x: "answers (dec x) (P x)" by simp_all
  show ?case unfolding decode_each.simps
    by (rule answers_bind [OF x], rule answers_bind [OF ih]) (simp add: answers_return)
qed

end
