(* ===== verification/Opus_Steps.thy ===== *)
theory Opus_Steps
  imports Opus_Codes
begin

text \<open>
  From steps to buffers. Every pair of an encoding and a decoding step that belong together is a request of its own, which gives the locale
  \<open>stream_coder\<close> a third interpretation; through it a whole program of steps has the round trip through the buffer. Steps that carry a state along
  are \<open>codes_to\<close>.
\<close>

section \<open>A step as a request\<close>

interpretation step: stream_coder "\<lambda>e (r :: (ec_ctx \<Rightarrow> ec_ctx option) \<times> (ec_ctx \<Rightarrow> (ec_ctx \<times> 'v) option)) v. fst r e" "\<lambda>d r. snd r d" "\<lambda>r v. codes (fst r) (snd r) v"
  by (rule stream_coderI, erule codesD(1) [rotated], assumption, erule codesD(2), assumption, assumption, rule tracks_both, erule codesD(3) [rotated], assumption+)

lemma codes_buffer:
  assumes "codes enc dec v" "length buf = n"
    and "enc (ec_enc_init buf n) = Some e" "ec_offs e + ec_end_offs e \<le> m" "m \<le> ec_storage e"
    and "ec_error (ec_enc_done (ec_enc_shrink e m)) = 0" "ec_nbits_total e < 2 ^ 31"
  defines "B \<equiv> ec_buf (ec_enc_done (ec_enc_shrink e m))"
  shows "length B = m \<and> (\<exists>d d'. ec_dec_init B m = Some d \<and> dec d = Some (d', v) \<and> ec_tell d' = ec_tell e \<and> ec_error d' = 0)"
  using step.stream_roundtrip [of buf n "[((enc, dec), v)]" e m] assms by (auto simp: B_def bind_eq_Some_conv)

lemma codes_returns: "codes enc dec v \<Longrightarrow> length buf = n \<Longrightarrow> \<exists>e. enc (ec_enc_init buf n) = Some e"
  using step.stream_total [of buf n "[((enc, dec), v)]"] by auto

lemma answers_buffer: "answers dec P \<Longrightarrow> \<exists>d d' v. ec_dec_init B (length B) = Some d \<and> dec d = Some (d', v) \<and> P v"
  using init_state answersD by metis

section \<open>Steps with a state\<close>

text \<open>The encoding step also returns a state, which does not depend on the stream.\<close>

definition codes_to :: "(ec_ctx \<Rightarrow> (ec_ctx \<times> 's) option) \<Rightarrow> 's \<Rightarrow> (ec_ctx \<Rightarrow> (ec_ctx \<times> 'v) option) \<Rightarrow> 'v \<Rightarrow> bool" where
  "codes_to enc s dec v \<longleftrightarrow> codes (\<lambda>e. map_option fst (enc e)) dec v \<and> (\<forall>e e' x. enc e = Some (e', x) \<longrightarrow> x = s)"

lemma codes_toI: "codes (\<lambda>e. map_option fst (enc e)) dec v \<Longrightarrow> (\<And>e e' x. enc e = Some (e', x) \<Longrightarrow> x = s) \<Longrightarrow> codes_to enc s dec v"
  unfolding codes_to_def by blast

lemma codes_to_return: "codes_to (\<lambda>e. Some (e, s)) s (\<lambda>d. Some (d, v)) v"
  using codes_return [of v] by (simp add: codes_to_def)

lemma codes_to_bind:
  assumes "codes_to enc s dec v" "codes_to (\<lambda>e. enc' e s) s' (\<lambda>d. dec' d v) w"
  shows "codes_to (\<lambda>e. do { (e, s) \<leftarrow> enc e; enc' e s }) s' (\<lambda>d. do { (d, v) \<leftarrow> dec d; dec' d v }) w"
proof (rule codes_toI)
  have e: "(\<lambda>e. map_option fst (do { (e, s) \<leftarrow> enc e; enc' e s })) = (\<lambda>e. do { e \<leftarrow> map_option fst (enc e); map_option fst (enc' e s) })"
  proof
    fix e show "map_option fst (do { (e, s) \<leftarrow> enc e; enc' e s }) = do { e \<leftarrow> map_option fst (enc e); map_option fst (enc' e s) }"
      using assms(1) unfolding codes_to_def by (cases "enc e") auto
  qed
  show "codes (\<lambda>e. map_option fst (do { (e, s) \<leftarrow> enc e; enc' e s })) (\<lambda>d. do { (d, v) \<leftarrow> dec d; dec' d v }) w"
    unfolding e using codes_bind [of "\<lambda>e. map_option fst (enc e)" dec v "\<lambda>e. map_option fst (enc' e s)" dec' w] assms unfolding codes_to_def by blast
  show "do { (e, s) \<leftarrow> enc e; enc' e s } = Some (e', x) \<Longrightarrow> x = s'" for e e' x
    using assms unfolding codes_to_def by (fastforce simp: bind_eq_Some_conv)
qed

text \<open>A step without a state before one with a state.\<close>

lemma codes_to_seq:
  assumes "codes enc dec v" "codes_to enc' s (\<lambda>d. dec' d v) w"
  shows "codes_to (\<lambda>e. do { e \<leftarrow> enc e; enc' e }) s (\<lambda>d. do { (d, v) \<leftarrow> dec d; dec' d v }) w"
proof (rule codes_toI)
  have e: "(\<lambda>e. map_option fst (do { e \<leftarrow> enc e; enc' e })) = (\<lambda>e. do { e \<leftarrow> enc e; map_option fst (enc' e) })"
    by (rule ext) (simp add: map_option_bind comp_def)
  show "codes (\<lambda>e. map_option fst (do { e \<leftarrow> enc e; enc' e })) (\<lambda>d. do { (d, v) \<leftarrow> dec d; dec' d v }) w"
    unfolding e by (rule codes_bind [OF assms(1)]) (use assms(2) in \<open>simp add: codes_to_def\<close>)
  show "do { e \<leftarrow> enc e; enc' e } = Some (e', x) \<Longrightarrow> x = s" for e e' x
    using assms(2) unfolding codes_to_def by (fastforce simp: bind_eq_Some_conv)
qed

text \<open>A loop in which the decoder's elements take part in the value.\<close>

lemma codes_each2:
  assumes "list_all2 (\<lambda>x y. codes (enc x) (dec y) (f x y)) xs ys"
  shows "codes (encode_each enc xs) (decode_each dec ys) (map2 f xs ys)"
  using assms
proof (induction xs ys)
  case Nil
  show ?case using codes_return [of "[]"] by (simp add: codes_def)
next
  case (Cons x xs y ys)
  show ?case unfolding encode_each.simps decode_each.simps zip_Cons_Cons list.map prod.case
    by (rule codes_bind [OF Cons(1)]) (rule codes_then [OF Cons(3)], simp)
qed

end
