(* ===== verification/Silk_Shell.thy ===== *)
theory Silk_Shell
  imports Opus_Codes Silk_Tables
begin

text \<open>
  The shell coder and the coding of signs: \<open>src/Vendor/opus/silk/shell_coder.c\<close> and \<open>code_signs.c\<close>. A block of 16 pulse amplitudes is
  a binary tree of sums, coded from the root down: each node tells how much of its sum the first child has.
\<close>

unbundle bit_operations_syntax

section \<open>The shell coder\<close>

definition combine_pulses :: "int list \<Rightarrow> nat \<Rightarrow> int list" where
  "combine_pulses xs len = map (\<lambda>k. xs ! (2 * k) + xs ! (2 * k + 1)) [0..<len]"

definition encode_split :: "int \<Rightarrow> int \<Rightarrow> int list \<Rightarrow> ec_ctx \<Rightarrow> ec_ctx option" where
  "encode_split p_child1 p shell_table e =
    (if p > 0 then ec_enc_icdf e (nat p_child1) (drop (silk_shell_code_table_offsets ! nat p) shell_table) 8 else Some e)"

definition decode_split :: "int \<Rightarrow> int list \<Rightarrow> ec_ctx \<Rightarrow> (ec_ctx \<times> int \<times> int) option" where
  "decode_split p shell_table d =
    (if p > 0 then do { (d, x) \<leftarrow> ec_dec_icdf d (drop (silk_shell_code_table_offsets ! nat p) shell_table) 8; Some (d, int x, p - int x) }
     else Some (d, 0, 0))"

definition silk_shell_encoder :: "int list \<Rightarrow> ec_ctx \<Rightarrow> ec_ctx option" where
  "silk_shell_encoder pulses0 e =
    (let pulses1 = combine_pulses pulses0 8; pulses2 = combine_pulses pulses1 4;
         pulses3 = combine_pulses pulses2 2; pulses4 = combine_pulses pulses3 1
     in do { e \<leftarrow> encode_split (pulses3 ! 0) (pulses4 ! 0) silk_shell_code_table3 e;
             e \<leftarrow> encode_split (pulses2 ! 0) (pulses3 ! 0) silk_shell_code_table2 e;
             e \<leftarrow> encode_split (pulses1 ! 0) (pulses2 ! 0) silk_shell_code_table1 e;
             e \<leftarrow> encode_split (pulses0 ! 0) (pulses1 ! 0) silk_shell_code_table0 e;
             e \<leftarrow> encode_split (pulses0 ! 2) (pulses1 ! 1) silk_shell_code_table0 e;
             e \<leftarrow> encode_split (pulses1 ! 2) (pulses2 ! 1) silk_shell_code_table1 e;
             e \<leftarrow> encode_split (pulses0 ! 4) (pulses1 ! 2) silk_shell_code_table0 e;
             e \<leftarrow> encode_split (pulses0 ! 6) (pulses1 ! 3) silk_shell_code_table0 e;
             e \<leftarrow> encode_split (pulses2 ! 2) (pulses3 ! 1) silk_shell_code_table2 e;
             e \<leftarrow> encode_split (pulses1 ! 4) (pulses2 ! 2) silk_shell_code_table1 e;
             e \<leftarrow> encode_split (pulses0 ! 8) (pulses1 ! 4) silk_shell_code_table0 e;
             e \<leftarrow> encode_split (pulses0 ! 10) (pulses1 ! 5) silk_shell_code_table0 e;
             e \<leftarrow> encode_split (pulses1 ! 6) (pulses2 ! 3) silk_shell_code_table1 e;
             e \<leftarrow> encode_split (pulses0 ! 12) (pulses1 ! 6) silk_shell_code_table0 e;
             encode_split (pulses0 ! 14) (pulses1 ! 7) silk_shell_code_table0 e })"

definition silk_shell_decoder :: "int \<Rightarrow> ec_ctx \<Rightarrow> (ec_ctx \<times> int list) option" where
  "silk_shell_decoder pulses4 d =
    do { (d, pulses3_0, pulses3_1) \<leftarrow> decode_split pulses4 silk_shell_code_table3 d;
         (d, pulses2_0, pulses2_1) \<leftarrow> decode_split pulses3_0 silk_shell_code_table2 d;
         (d, pulses1_0, pulses1_1) \<leftarrow> decode_split pulses2_0 silk_shell_code_table1 d;
         (d, p0, p1) \<leftarrow> decode_split pulses1_0 silk_shell_code_table0 d;
         (d, p2, p3) \<leftarrow> decode_split pulses1_1 silk_shell_code_table0 d;
         (d, pulses1_2, pulses1_3) \<leftarrow> decode_split pulses2_1 silk_shell_code_table1 d;
         (d, p4, p5) \<leftarrow> decode_split pulses1_2 silk_shell_code_table0 d;
         (d, p6, p7) \<leftarrow> decode_split pulses1_3 silk_shell_code_table0 d;
         (d, pulses2_2, pulses2_3) \<leftarrow> decode_split pulses3_1 silk_shell_code_table2 d;
         (d, pulses1_4, pulses1_5) \<leftarrow> decode_split pulses2_2 silk_shell_code_table1 d;
         (d, p8, p9) \<leftarrow> decode_split pulses1_4 silk_shell_code_table0 d;
         (d, p10, p11) \<leftarrow> decode_split pulses1_5 silk_shell_code_table0 d;
         (d, pulses1_6, pulses1_7) \<leftarrow> decode_split pulses2_3 silk_shell_code_table1 d;
         (d, p12, p13) \<leftarrow> decode_split pulses1_6 silk_shell_code_table0 d;
         (d, p14, p15) \<leftarrow> decode_split pulses1_7 silk_shell_code_table0 d;
         Some (d, [p0, p1, p2, p3, p4, p5, p6, p7, p8, p9, p10, p11, p12, p13, p14, p15]) }"

text \<open>Each table has one distribution for each sum from 1 to 16.\<close>

lemma shell_tables_full:
  "list_all (\<lambda>t. list_all (\<lambda>p. full_table (drop (silk_shell_code_table_offsets ! p) t) (p + 1)) [1..<17])
     [silk_shell_code_table0, silk_shell_code_table1, silk_shell_code_table2, silk_shell_code_table3]"
  by code_simp

definition shell_table :: "int list \<Rightarrow> bool" where
  "shell_table t \<longleftrightarrow> (\<forall>p. 0 < p \<and> p \<le> 16 \<longrightarrow> full_table (drop (silk_shell_code_table_offsets ! p) t) (p + 1))"

lemma shell_tables [simp]:
  "shell_table silk_shell_code_table0" "shell_table silk_shell_code_table1" "shell_table silk_shell_code_table2" "shell_table silk_shell_code_table3"
  using shell_tables_full by (auto simp: list_all_iff shell_table_def)

lemma codes_split:
  assumes "shell_table t" "0 \<le> a" "0 \<le> b" "a + b \<le> 16"
  shows "codes (encode_split a (a + b) t) (decode_split (a + b) t) (a, b)"
proof (cases "0 < a + b")
  case True
  have "full_table (drop (silk_shell_code_table_offsets ! nat (a + b)) t) (nat (a + b) + 1)" using assms(1,4) True by (simp add: shell_table_def)
  then have c: "codes (\<lambda>e. ec_enc_icdf e (nat a) (drop (silk_shell_code_table_offsets ! nat (a + b)) t) 8)
      (\<lambda>d. ec_dec_icdf d (drop (silk_shell_code_table_offsets ! nat (a + b)) t) 8) (nat a)"
    by (rule codes_full) (use assms(2,3) in simp)
  have e: "encode_split a (a + b) t = (\<lambda>e. ec_enc_icdf e (nat a) (drop (silk_shell_code_table_offsets ! nat (a + b)) t) 8)"
    using True by (simp add: encode_split_def fun_eq_iff)
  show ?thesis unfolding e by (rule codes_cong [OF c]) (use True assms(2) in \<open>simp add: decode_split_def\<close>)
next
  case False
  then have z: "a = 0" "b = 0" using assms by auto
  have "encode_split 0 (0 + 0) t = Some" "decode_split (0 + 0) t = (\<lambda>d. Some (d, 0, 0))" by (simp_all add: encode_split_def decode_split_def fun_eq_iff)
  then show ?thesis unfolding z by (simp only: codes_return)
qed

lemma answers_split:
  assumes "shell_table t" "0 \<le> p" "p \<le> 16"
  shows "answers (decode_split p t) (\<lambda>(a, b). 0 \<le> a \<and> 0 \<le> b \<and> a + b = p)"
proof (cases "0 < p")
  case True
  have "full_table (drop (silk_shell_code_table_offsets ! nat p) t) (nat p + 1)" using assms True by (simp add: shell_table_def)
  then have "answers (\<lambda>d. do { (d, x) \<leftarrow> ec_dec_icdf d (drop (silk_shell_code_table_offsets ! nat p) t) 8; Some (d, int x, p - int x) })
      (\<lambda>(a, b). 0 \<le> a \<and> 0 \<le> b \<and> a + b = p)"
    by (rule answers_bind [OF answers_full]) (rule answers_return, use True in auto)
  moreover have "decode_split p t = (\<lambda>d. do { (d, x) \<leftarrow> ec_dec_icdf d (drop (silk_shell_code_table_offsets ! nat p) t) 8; Some (d, int x, p - int x) })"
    using True by (simp add: decode_split_def fun_eq_iff)
  ultimately show ?thesis by simp
next
  case False
  then show ?thesis using assms by (simp add: decode_split_def answers_def)
qed

text \<open>A block as the tree of its sums.\<close>

lemma codes_shell_tree:
  assumes "\<And>x. x \<in> set [a, b, c, d, f, g, h, i, j, k, l, m, n, p, q, r] \<Longrightarrow> 0 \<le> x"
    and "a + b + (c + d) + (f + g + (h + i)) + (j + k + (l + m) + (n + p + (q + r))) \<le> 16"
  shows "codes (silk_shell_encoder [a, b, c, d, f, g, h, i, j, k, l, m, n, p, q, r])
    (silk_shell_decoder (a + b + (c + d) + (f + g + (h + i)) + (j + k + (l + m) + (n + p + (q + r)))))
    [a, b, c, d, f, g, h, i, j, k, l, m, n, p, q, r]"
proof -
  have pos: "0 \<le> a" "0 \<le> b" "0 \<le> c" "0 \<le> d" "0 \<le> f" "0 \<le> g" "0 \<le> h" "0 \<le> i" "0 \<le> j" "0 \<le> k" "0 \<le> l" "0 \<le> m" "0 \<le> n" "0 \<le> p" "0 \<le> q" "0 \<le> r"
    using assms(1) by simp_all
  have c: "combine_pulses [a, b, c, d, f, g, h, i, j, k, l, m, n, p, q, r] 8 = [a + b, c + d, f + g, h + i, j + k, l + m, n + p, q + r]"
    "combine_pulses [a + b, c + d, f + g, h + i, j + k, l + m, n + p, q + r] 4 = [a + b + (c + d), f + g + (h + i), j + k + (l + m), n + p + (q + r)]"
    "combine_pulses [a + b + (c + d), f + g + (h + i), j + k + (l + m), n + p + (q + r)] 2 =
       [a + b + (c + d) + (f + g + (h + i)), j + k + (l + m) + (n + p + (q + r))]"
    "combine_pulses [a + b + (c + d) + (f + g + (h + i)), j + k + (l + m) + (n + p + (q + r))] 1 =
       [a + b + (c + d) + (f + g + (h + i)) + (j + k + (l + m) + (n + p + (q + r)))]"
    by (simp_all add: combine_pulses_def upt_rec)
  have nth:
    "[a, b, c, d, f, g, h, i, j, k, l, m, n, p, q, r] ! 0 = a" "[a, b, c, d, f, g, h, i, j, k, l, m, n, p, q, r] ! 2 = c" "[a, b, c, d, f, g, h, i, j, k, l, m, n, p, q, r] ! 4 = f" "[a, b, c, d, f, g, h, i, j, k, l, m, n, p, q, r] ! 6 = h" "[a, b, c, d, f, g, h, i, j, k, l, m, n, p, q, r] ! 8 = j" "[a, b, c, d, f, g, h, i, j, k, l, m, n, p, q, r] ! 10 = l" "[a, b, c, d, f, g, h, i, j, k, l, m, n, p, q, r] ! 12 = n" "[a, b, c, d, f, g, h, i, j, k, l, m, n, p, q, r] ! 14 = q"
    "[a + b, c + d, f + g, h + i, j + k, l + m, n + p, q + r] ! 0 = a + b" "[a + b, c + d, f + g, h + i, j + k, l + m, n + p, q + r] ! 1 = c + d" "[a + b, c + d, f + g, h + i, j + k, l + m, n + p, q + r] ! 2 = f + g" "[a + b, c + d, f + g, h + i, j + k, l + m, n + p, q + r] ! 3 = h + i" "[a + b, c + d, f + g, h + i, j + k, l + m, n + p, q + r] ! 4 = j + k" "[a + b, c + d, f + g, h + i, j + k, l + m, n + p, q + r] ! 5 = l + m" "[a + b, c + d, f + g, h + i, j + k, l + m, n + p, q + r] ! 6 = n + p" "[a + b, c + d, f + g, h + i, j + k, l + m, n + p, q + r] ! 7 = q + r"
    "[a + b + (c + d), f + g + (h + i), j + k + (l + m), n + p + (q + r)] ! 0 = a + b + (c + d)" "[a + b + (c + d), f + g + (h + i), j + k + (l + m), n + p + (q + r)] ! 1 = f + g + (h + i)" "[a + b + (c + d), f + g + (h + i), j + k + (l + m), n + p + (q + r)] ! 2 = j + k + (l + m)" "[a + b + (c + d), f + g + (h + i), j + k + (l + m), n + p + (q + r)] ! 3 = n + p + (q + r)"
    "[a + b + (c + d) + (f + g + (h + i)), j + k + (l + m) + (n + p + (q + r))] ! 0 = a + b + (c + d) + (f + g + (h + i))" "[a + b + (c + d) + (f + g + (h + i)), j + k + (l + m) + (n + p + (q + r))] ! 1 = j + k + (l + m) + (n + p + (q + r))"
    "[a + b + (c + d) + (f + g + (h + i)) + (j + k + (l + m) + (n + p + (q + r)))] ! 0 = a + b + (c + d) + (f + g + (h + i)) + (j + k + (l + m) + (n + p + (q + r)))"
    by simp_all
  show ?thesis
    unfolding silk_shell_encoder_def silk_shell_decoder_def Let_def c nth
    by (rule codes_bind, rule codes_split, simp, (use pos assms(2) in linarith)+, unfold prod.case)+
      (rule codes_then, rule codes_split, simp, (use pos assms(2) in linarith)+, simp only: prod.case)
qed

definition shell_block :: "int list \<Rightarrow> bool" where
  "shell_block xs \<longleftrightarrow> length xs = 16 \<and> list_all (\<lambda>x. 0 \<le> x) xs"

lemma codes_shell:
  assumes "shell_block xs" "sum_list xs \<le> 16"
  shows "codes (silk_shell_encoder xs) (silk_shell_decoder (sum_list xs)) xs"
proof -
  obtain a b c d f g h i j k l m n p q r where xs: "xs = [a, b, c, d, f, g, h, i, j, k, l, m, n, p, q, r]"
    using assms(1) by (auto simp: shell_block_def length_Suc_conv numeral_eq_Suc)
  have s: "sum_list xs = a + b + (c + d) + (f + g + (h + i)) + (j + k + (l + m) + (n + p + (q + r)))" by (simp add: xs)
  show ?thesis unfolding s unfolding xs
    by (rule codes_shell_tree) (use assms s in \<open>auto simp: shell_block_def list_all_iff xs\<close>)
qed

lemma answers_split':
  assumes "shell_table t" "0 \<le> p" "p \<le> 16" "\<And>a b. 0 \<le> a \<Longrightarrow> 0 \<le> b \<Longrightarrow> a + b = p \<Longrightarrow> answers (\<lambda>d. dec d a b) Q"
  shows "answers (\<lambda>d. do { (d, a, b) \<leftarrow> decode_split p t d; dec d a b }) Q"
  by (rule answers_bind [OF answers_split [OF assms(1-3)], of "\<lambda>d (a, b). dec d a b"]) (use assms(4) in \<open>auto split: prod.splits\<close>)

lemma answers_shell:
  assumes "0 \<le> p" "p \<le> 16"
  shows "answers (silk_shell_decoder p) (\<lambda>xs. shell_block xs \<and> sum_list xs = p)"
  unfolding silk_shell_decoder_def
  by ((rule answers_split', simp, (use assms in linarith)+)+, rule answers_return, simp add: shell_block_def)

section \<open>Signs\<close>

definition silk_enc_map :: "int \<Rightarrow> int" where "silk_enc_map a = a div 2 ^ 15 + 1"

definition silk_dec_map :: "int \<Rightarrow> int" where "silk_dec_map a = a * 2 - 1"

text \<open>The two entries of the table for one block, of which the code computes the first from the number of pulses.\<close>

definition silk_block_sign_icdf :: "nat \<Rightarrow> nat \<Rightarrow> int \<Rightarrow> int list" where
  "silk_block_sign_icdf signalType quantOffsetType p =
    (let i = 7 * (quantOffsetType + signalType * 2) in [silk_sign_iCDF ! (i + nat (min (p AND 0x1F) 6)), 0])"

definition silk_encode_signs :: "int list \<Rightarrow> nat \<Rightarrow> nat \<Rightarrow> nat \<Rightarrow> int list \<Rightarrow> ec_ctx \<Rightarrow> ec_ctx option" where
  "silk_encode_signs xs len signalType quantOffsetType sum_pulses e =
    (let len = (len + 16 div 2) div 2 ^ 4
     in encode_each (\<lambda>i e. let p = sum_pulses ! i
          in if p > 0 then
               let icdf = silk_block_sign_icdf signalType quantOffsetType p
               in encode_each (\<lambda>j e. let q = xs ! (16 * i + j)
                    in if q \<noteq> 0 then ec_enc_icdf e (nat (silk_enc_map q)) icdf 8 else Some e) [0..<16] e
             else Some e) [0..<len] e)"

text \<open>The decoder changes the pulses in place; the loops here collect the values it leaves.\<close>

definition silk_decode_signs :: "int list \<Rightarrow> nat \<Rightarrow> nat \<Rightarrow> nat \<Rightarrow> int list \<Rightarrow> ec_ctx \<Rightarrow> (ec_ctx \<times> int list) option" where
  "silk_decode_signs xs len signalType quantOffsetType sum_pulses d =
    (let len = (len + 16 div 2) div 2 ^ 4
     in do { (d, blocks) \<leftarrow> decode_each (\<lambda>i d. let p = sum_pulses ! i
               in if p > 0 then
                    let icdf = silk_block_sign_icdf signalType quantOffsetType p
                    in decode_each (\<lambda>j d. let q = xs ! (16 * i + j)
                         in if q > 0 then do { (d, s) \<leftarrow> ec_dec_icdf d icdf 8; Some (d, q * silk_dec_map (int s)) } else Some (d, q)) [0..<16] d
                  else Some (d, map (\<lambda>j. xs ! (16 * i + j)) [0..<16])) [0..<len] d;
             Some (d, concat blocks) })"

lemma sign_table_full: "list_all (\<lambda>i. full_table [silk_sign_iCDF ! i, 0] 2) [0..<42]"
  by code_simp

lemma sign_table: "st < 3 \<Longrightarrow> qo < 2 \<Longrightarrow> full_table (silk_block_sign_icdf st qo p) 2"
  using sign_table_full unfolding silk_block_sign_icdf_def Let_def list_all_iff by simp

lemma sign_maps:
  assumes "q \<noteq> 0" "- (2 ^ 15) \<le> q" "q < 2 ^ 15"
  shows "nat (silk_enc_map q) < 2" "\<bar>q\<bar> * silk_dec_map (int (nat (silk_enc_map q))) = q"
proof -
  have "q div 2 ^ 15 = (if q < 0 then - 1 else 0)" using assms(2,3) by (auto simp: div_eq_minus1)
  then show "nat (silk_enc_map q) < 2" "\<bar>q\<bar> * silk_dec_map (int (nat (silk_enc_map q))) = q" using assms(1) by (auto simp: silk_enc_map_def silk_dec_map_def)
qed

end
