(* ===== verification/Silk_Pulses.thy ===== *)
theory Silk_Pulses
  imports Silk_Shell
begin

text \<open>
  The excitation of a SILK frame: \<open>src/Vendor/opus/silk/encode_pulses.c\<close> and \<open>decode_pulses.c\<close>. The pulses are coded in blocks of 16: a block whose sums are
  too large for the shell coder is halved until they fit, and the bits lost are coded after it; the signs come last.
\<close>

unbundle bit_operations_syntax

section \<open>The encoder\<close>

definition silk_iter :: "nat \<Rightarrow> nat" where
  "silk_iter frame_length = (let iter = frame_length div 2 ^ 4 in if iter * 16 < frame_length then iter + 1 else iter)"

text \<open>The last block of a frame of 120 samples is filled up with zeros, in the buffer of the caller.\<close>

definition silk_pad_pulses :: "int list \<Rightarrow> nat \<Rightarrow> int list" where
  "silk_pad_pulses xs frame_length =
    (if frame_length div 2 ^ 4 * 16 < frame_length then take frame_length xs @ replicate 16 0 @ drop (frame_length + 16) xs else xs)"

text \<open>
  The sums of neighbours are stored over the buffer \<open>comb\<close> until one exceeds the maximum. The code also calls this with the input in the same buffer;
  since entry \<open>k\<close> is written after entries \<open>2 * k\<close> and \<open>2 * k + 1\<close> are read, reading the old contents is the same.
\<close>

fun combine_and_check_loop :: "int list \<Rightarrow> int \<Rightarrow> nat \<Rightarrow> nat \<Rightarrow> int list \<Rightarrow> int \<times> int list" where
  "combine_and_check_loop xs max_pulses k 0 comb = (0, comb)"
| "combine_and_check_loop xs max_pulses k (Suc n) comb =
    (let amount = xs ! (2 * k) + xs ! (2 * k + 1)
     in if amount > max_pulses then (1, comb) else combine_and_check_loop xs max_pulses (k + 1) n (comb[k := amount]))"

definition combine_and_check :: "int list \<Rightarrow> int list \<Rightarrow> int \<Rightarrow> nat \<Rightarrow> int \<times> int list" where
  "combine_and_check comb xs max_pulses len = combine_and_check_loop xs max_pulses 0 len comb"

definition silk_combine_block :: "int list \<Rightarrow> int list \<Rightarrow> int \<Rightarrow> int \<times> int list \<times> int" where
  "silk_combine_block comb xs amount =
    (let (s0, comb) = combine_and_check comb xs (silk_max_pulses_table ! 0) 8;
         (s1, comb) = combine_and_check comb comb (silk_max_pulses_table ! 1) 4;
         (s2, comb) = combine_and_check comb comb (silk_max_pulses_table ! 2) 2;
         (s3, sums) = combine_and_check [amount] comb (silk_max_pulses_table ! 3) 1
     in (s0 + s1 + s2 + s3, comb, hd sums))"

text \<open>The loop that halves a block: the buffer, the block, its sum and the number of halvings.\<close>

partial_function (option) silk_scale_loop :: "int list \<Rightarrow> int list \<Rightarrow> int \<Rightarrow> nat \<Rightarrow> (int list \<times> int list \<times> int \<times> nat) option" where
  "silk_scale_loop comb xs amount n =
    (let (scale_down, comb, amount) = silk_combine_block comb xs amount
     in if scale_down \<noteq> 0 then silk_scale_loop comb (map (\<lambda>x. x div 2) xs) amount (n + 1) else Some (comb, xs, amount, n))"

text \<open>Each block with its sum and halvings; the sum is not read before it is stored.\<close>

fun silk_scale_blocks :: "nat \<Rightarrow> int list \<Rightarrow> int list \<Rightarrow> (int list \<times> int \<times> nat) list option" where
  "silk_scale_blocks 0 comb xs = Some []"
| "silk_scale_blocks (Suc n) comb xs =
    do { (comb, blk, amount, r) \<leftarrow> silk_scale_loop comb (take 16 xs) 0 0;
         bs \<leftarrow> silk_scale_blocks n comb (drop 16 xs); Some ((blk, amount, r) # bs) }"

definition silk_rate_bits :: "nat \<Rightarrow> (int list \<times> int \<times> nat) list \<Rightarrow> nat \<Rightarrow> int" where
  "silk_rate_bits signalType bs k =
    fold (\<lambda>(_, amount, r) bits. bits + silk_pulses_per_block_BITS_Q5 ! k ! (if r > 0 then 17 else nat amount)) bs
      (silk_rate_levels_BITS_Q5 ! (signalType div 2) ! k)"

definition silk_rate_level :: "nat \<Rightarrow> (int list \<times> int \<times> nat) list \<Rightarrow> nat" where
  "silk_rate_level signalType bs =
    snd (fold (\<lambda>k (min_bits, level). let bits = silk_rate_bits signalType bs k in if bits < min_bits then (bits, k) else (min_bits, level))
      [0..<9] (2 ^ 31 - 1, 0))"

definition silk_encode_count :: "int list \<Rightarrow> int \<Rightarrow> nat \<Rightarrow> ec_ctx \<Rightarrow> ec_ctx option" where
  "silk_encode_count cdf amount r e =
    (if r = 0 then ec_enc_icdf e (nat amount) cdf 8
     else do { e \<leftarrow> ec_enc_icdf e 17 cdf 8;
               e \<leftarrow> encode_each (\<lambda>k e. ec_enc_icdf e 17 (silk_pulses_per_block_iCDF ! 9) 8) [0..<r - 1] e;
               ec_enc_icdf e (nat amount) (silk_pulses_per_block_iCDF ! 9) 8 })"

text \<open>The lower bits of one pulse, whose absolute value is cast to 8 bits.\<close>

definition silk_encode_lsbs :: "nat \<Rightarrow> int \<Rightarrow> ec_ctx \<Rightarrow> ec_ctx option" where
  "silk_encode_lsbs nLS q e =
    (let abs_q = (\<bar>q\<bar> + 128) mod 256 - 128
     in do { e \<leftarrow> encode_each (\<lambda>j e. ec_enc_icdf e (nat (abs_q div 2 ^ j AND 1)) silk_lsb_iCDF 8) (rev [1..<nLS + 1]) e;
             ec_enc_icdf e (nat (abs_q AND 1)) silk_lsb_iCDF 8 })"

definition silk_encode_pulses :: "nat \<Rightarrow> nat \<Rightarrow> int list \<Rightarrow> nat \<Rightarrow> ec_ctx \<Rightarrow> (ec_ctx \<times> int list) option" where
  "silk_encode_pulses signalType quantOffsetType xs frame_length e =
    (let iter = silk_iter frame_length;
         xs = silk_pad_pulses xs frame_length
     in do { bs \<leftarrow> silk_scale_blocks iter (replicate 8 0) (map abs (take (iter * 16) xs));
             let level = silk_rate_level signalType bs;
                 sum_pulses = map (\<lambda>(blk, amount, r). amount) bs
             in do { e \<leftarrow> ec_enc_icdf e level (silk_rate_levels_iCDF ! (signalType div 2)) 8;
                     e \<leftarrow> encode_each (\<lambda>(blk, amount, r). silk_encode_count (silk_pulses_per_block_iCDF ! level) amount r) bs e;
                     e \<leftarrow> encode_each (\<lambda>(blk, amount, r) e. if amount > 0 then silk_shell_encoder blk e else Some e) bs e;
                     e \<leftarrow> encode_each (\<lambda>i e. case bs ! i of (blk, amount, r) \<Rightarrow>
                            if r > 0 then encode_each (\<lambda>k. silk_encode_lsbs (r - 1) (xs ! (16 * i + k))) [0..<16] e else Some e) [0..<iter] e;
                     e \<leftarrow> silk_encode_signs xs frame_length signalType quantOffsetType sum_pulses e;
                     Some (e, xs) } })"

section \<open>The decoder\<close>

text \<open>The sum of a block, after the number of halvings; the tenth is the last the table allows.\<close>

partial_function (option) silk_count_loop :: "nat \<Rightarrow> nat \<Rightarrow> ec_ctx \<Rightarrow> (ec_ctx \<times> int \<times> nat) option" where
  "silk_count_loop n s d =
    (if s = 17 then
       do { (d, s) \<leftarrow> ec_dec_icdf d (drop (of_bool (n + 1 = 10)) (silk_pulses_per_block_iCDF ! 9)) 8; silk_count_loop (n + 1) s d }
     else Some (d, int s, n))"

definition silk_decode_count :: "int list \<Rightarrow> ec_ctx \<Rightarrow> (ec_ctx \<times> int \<times> nat) option" where
  "silk_decode_count cdf d = do { (d, s) \<leftarrow> ec_dec_icdf d cdf 8; silk_count_loop 0 s d }"

fun silk_decode_lsbs :: "nat \<Rightarrow> int \<Rightarrow> ec_ctx \<Rightarrow> (ec_ctx \<times> int) option" where
  "silk_decode_lsbs 0 abs_q d = Some (d, abs_q)"
| "silk_decode_lsbs (Suc n) abs_q d = do { (d, b) \<leftarrow> ec_dec_icdf d silk_lsb_iCDF 8; silk_decode_lsbs n (abs_q * 2 + int b) d }"

definition silk_decode_pulses :: "nat \<Rightarrow> nat \<Rightarrow> nat \<Rightarrow> ec_ctx \<Rightarrow> (ec_ctx \<times> int list) option" where
  "silk_decode_pulses signalType quantOffsetType frame_length d =
    (let iter = silk_iter frame_length
     in do { (d, level) \<leftarrow> ec_dec_icdf d (silk_rate_levels_iCDF ! (signalType div 2)) 8;
             (d, counts) \<leftarrow> decode_each (\<lambda>i. silk_decode_count (silk_pulses_per_block_iCDF ! level)) [0..<iter] d;
             (d, blocks) \<leftarrow> decode_each (\<lambda>i d. case counts ! i of (s, n) \<Rightarrow>
               if s > 0 then silk_shell_decoder s d else Some (d, replicate 16 0)) [0..<iter] d;
             (d, blocks) \<leftarrow> decode_each (\<lambda>i d. case counts ! i of (s, n) \<Rightarrow>
               if n > 0 then decode_each (\<lambda>k. silk_decode_lsbs n (blocks ! i ! k)) [0..<16] d else Some (d, blocks ! i)) [0..<iter] d;
             silk_decode_signs (concat blocks) frame_length signalType quantOffsetType
               (map (\<lambda>(s, n). if n > 0 then s OR int n * 2 ^ 5 else s) counts) d })"

declare silk_scale_loop.simps [code] silk_count_loop.simps [code]

section \<open>Halving ends\<close>

lemma combine_loop:
  fixes xs :: "int list" and m :: int
  assumes "k + n \<le> length comb"
  defines "ok \<equiv> list_all (\<lambda>j. xs ! (2 * j) + xs ! (2 * j + 1) \<le> m) [k..<k + n]"
  shows "fst (combine_and_check_loop xs m k n comb) = of_bool (\<not> ok) \<and> length (snd (combine_and_check_loop xs m k n comb)) = length comb \<and>
    (ok \<longrightarrow> snd (combine_and_check_loop xs m k n comb) = take k comb @ map (\<lambda>j. xs ! (2 * j) + xs ! (2 * j + 1)) [k..<k + n] @ drop (k + n) comb)"
  using assms(1) unfolding ok_def
proof (induction n arbitrary: k comb)
  case (Suc n)
  define c where "c = comb[k := xs ! (2 * k) + xs ! (2 * k + 1)]"
  have c: "Suc k + n \<le> length c" "length c = length comb" "take (Suc k) c = take k comb @ [xs ! (2 * k) + xs ! (2 * k + 1)]" "drop (Suc (k + n)) c = drop (Suc (k + n)) comb"
    using Suc(2) by (simp_all add: c_def take_Suc_conv_app_nth)
  have u: "[k..<k + Suc n] = k # [Suc k..<Suc k + n]" by (simp add: upt_rec)
  have r: "combine_and_check_loop xs m k (Suc n) comb =
      (if xs ! (2 * k) + xs ! (2 * k + 1) > m then (1, comb) else combine_and_check_loop xs m (Suc k) n c)" by (simp add: Let_def c_def)
  show ?case using Suc(1) [OF c(1)] c(2-4) unfolding u r by (auto simp del: upt_Suc)
qed simp

lemma combine_and_check_eq:
  assumes "n \<le> length comb"
  shows "fst (combine_and_check comb xs m n) = of_bool (\<not> list_all (\<lambda>x. x \<le> m) (combine_pulses xs n))"
    "list_all (\<lambda>x. x \<le> m) (combine_pulses xs n) \<Longrightarrow> snd (combine_and_check comb xs m n) = combine_pulses xs n @ drop n comb"
    "length (snd (combine_and_check comb xs m n)) = length comb"
proof -
  have l: "list_all (\<lambda>x. x \<le> m) (combine_pulses xs n) = list_all (\<lambda>j. xs ! (2 * j) + xs ! (2 * j + 1) \<le> m) [0..<0 + n]"
    by (simp add: combine_pulses_def list_all_iff)
  show "fst (combine_and_check comb xs m n) = of_bool (\<not> list_all (\<lambda>x. x \<le> m) (combine_pulses xs n))"
    "list_all (\<lambda>x. x \<le> m) (combine_pulses xs n) \<Longrightarrow> snd (combine_and_check comb xs m n) = combine_pulses xs n @ drop n comb"
    "length (snd (combine_and_check comb xs m n)) = length comb"
    unfolding l combine_and_check_def using combine_loop [of 0 n comb xs m] assms by (auto simp: combine_pulses_def simp del: of_bool_not_iff)
qed

text \<open>A pass over a block succeeds when its sums fit, as they do when every pulse is at most 1; then the sum found is that of the block.\<close>

lemma combine_pulses_explicit:
  "combine_pulses (a # b # c # d # xs) 2 = [a + b, c + d]" "combine_pulses (a # b # xs) 1 = [a + b]"
  "combine_pulses (a # b # c # d # e # f # g # h # xs) 4 = [a + b, c + d, e + f, g + h]"
  "combine_pulses (a # b # c # d # e # f # g # h # i # j # k # l # m # n # p # q # xs) 8 = [a + b, c + d, e + f, g + h, i + j, k + l, m + n, p + q]"
  by (simp_all add: combine_pulses_def upt_rec)

lemma combine_block:
  assumes "length comb = 8" "shell_block xs"
  obtains s comb' a where "silk_combine_block comb xs a0 = (s, comb', a)" "length comb' = 8" "s = 0 \<Longrightarrow> a = sum_list xs \<and> a \<le> 16"
    "s \<noteq> 0 \<Longrightarrow> \<exists>x \<in> set xs. 1 < x"
proof -
  obtain s0 c0 where e0: "combine_and_check comb xs 8 8 = (s0, c0)" by fastforce
  obtain s1 c1 where e1: "combine_and_check c0 c0 10 4 = (s1, c1)" by fastforce
  obtain s2 c2 where e2: "combine_and_check c1 c1 12 2 = (s2, c2)" by fastforce
  obtain s3 c3 where e3: "combine_and_check [a0] c2 16 1 = (s3, c3)" by fastforce
  note f0 = combine_and_check_eq [where n = 8 and comb = comb and xs = xs and m = 8, unfolded e0 fst_conv snd_conv] assms(1)
  have l0: "length c0 = 8" using f0 by simp
  note f1 = combine_and_check_eq [where n = 4 and comb = c0 and xs = c0 and m = 10, unfolded e1 fst_conv snd_conv] l0
  have l1: "length c1 = 8" using f1 by simp
  note f2 = combine_and_check_eq [where n = 2 and comb = c1 and xs = c1 and m = 12, unfolded e2 fst_conv snd_conv] l1
  have l2: "length c2 = 8" using f2 by simp
  note f3 = combine_and_check_eq [where n = 1 and comb = "[a0]" and xs = c2 and m = 16, unfolded e3 fst_conv snd_conv]
  have b: "silk_combine_block comb xs a0 = (s0 + s1 + s2 + s3, c2, hd c3)"
    using e0 e1 e2 e3 by (simp add: silk_combine_block_def silk_max_pulses_table_def Let_def)
  obtain x0 x1 x2 x3 x4 x5 x6 x7 x8 x9 x10 x11 x12 x13 x14 x15 where xs: "xs = [x0, x1, x2, x3, x4, x5, x6, x7, x8, x9, x10, x11, x12, x13, x14, x15]"
    using assms(2) by (auto simp: shell_block_def length_Suc_conv numeral_eq_Suc)
  have bits: "s0 = 0 \<or> s0 = 1" "s1 = 0 \<or> s1 = 1" "s2 = 0 \<or> s2 = 1" "s3 = 0 \<or> s3 = 1" using f0 f1 f2 f3 by simp_all
  have t0: "s0 = of_bool (\<not> list_all (\<lambda>x. x \<le> 8) [x0 + x1, x2 + x3, x4 + x5, x6 + x7, x8 + x9, x10 + x11, x12 + x13, x14 + x15])"
    "s0 = 0 \<Longrightarrow> c0 = [x0 + x1, x2 + x3, x4 + x5, x6 + x7, x8 + x9, x10 + x11, x12 + x13, x14 + x15]"
    using f0 unfolding xs combine_pulses_explicit by simp_all
  have t1: "s0 = 0 \<Longrightarrow> s1 = of_bool (\<not> list_all (\<lambda>x. x \<le> 10) [x0 + x1 + (x2 + x3), x4 + x5 + (x6 + x7), x8 + x9 + (x10 + x11), x12 + x13 + (x14 + x15)])"
    "s0 = 0 \<Longrightarrow> s1 = 0 \<Longrightarrow> take 4 c1 = [x0 + x1 + (x2 + x3), x4 + x5 + (x6 + x7), x8 + x9 + (x10 + x11), x12 + x13 + (x14 + x15)]"
    using f1 t0(2) by (simp_all add: combine_pulses_explicit del: of_bool_not_iff)
  have c1: "s0 = 0 \<Longrightarrow> s1 = 0 \<Longrightarrow> c1 = [x0 + x1 + (x2 + x3), x4 + x5 + (x6 + x7), x8 + x9 + (x10 + x11), x12 + x13 + (x14 + x15)] @ drop 4 c1"
    using t1(2) append_take_drop_id [of 4 c1] by simp
  have p3: "s0 = 0 \<Longrightarrow> s1 = 0 \<Longrightarrow> combine_pulses c1 2 = [x0 + x1 + (x2 + x3) + (x4 + x5 + (x6 + x7)), x8 + x9 + (x10 + x11) + (x12 + x13 + (x14 + x15))]" by (subst c1) (simp_all add: combine_pulses_explicit)
  have t2: "s0 = 0 \<Longrightarrow> s1 = 0 \<Longrightarrow> s2 = of_bool (\<not> list_all (\<lambda>x. x \<le> 12) [x0 + x1 + (x2 + x3) + (x4 + x5 + (x6 + x7)), x8 + x9 + (x10 + x11) + (x12 + x13 + (x14 + x15))])"
    "s0 = 0 \<Longrightarrow> s1 = 0 \<Longrightarrow> s2 = 0 \<Longrightarrow> take 2 c2 = [x0 + x1 + (x2 + x3) + (x4 + x5 + (x6 + x7)), x8 + x9 + (x10 + x11) + (x12 + x13 + (x14 + x15))]"
    using f2 p3 by (simp_all del: of_bool_not_iff)
  have c2: "s0 = 0 \<Longrightarrow> s1 = 0 \<Longrightarrow> s2 = 0 \<Longrightarrow> c2 = [x0 + x1 + (x2 + x3) + (x4 + x5 + (x6 + x7)), x8 + x9 + (x10 + x11) + (x12 + x13 + (x14 + x15))] @ drop 2 c2"
    using t2(2) append_take_drop_id [of 2 c2] by simp
  define tot where "tot = x0 + x1 + (x2 + x3) + (x4 + x5 + (x6 + x7)) + (x8 + x9 + (x10 + x11) + (x12 + x13 + (x14 + x15)))"
  have tot: "tot = sum_list xs" by (simp add: tot_def xs)
  have p4: "s0 = 0 \<Longrightarrow> s1 = 0 \<Longrightarrow> s2 = 0 \<Longrightarrow> combine_pulses c2 1 = [tot]" by (subst c2) (simp_all add: combine_pulses_explicit tot_def del: One_nat_def)
  have t3: "s0 = 0 \<Longrightarrow> s1 = 0 \<Longrightarrow> s2 = 0 \<Longrightarrow> s3 = of_bool (\<not> tot \<le> 16)" "s0 = 0 \<Longrightarrow> s1 = 0 \<Longrightarrow> s2 = 0 \<Longrightarrow> s3 = 0 \<Longrightarrow> c3 = [tot]"
    using f3 p4 by (simp_all del: of_bool_not_iff)
  show thesis
  proof (rule that [OF b l2])
    assume "s0 + s1 + s2 + s3 = 0"
    then have z: "s0 = 0" "s1 = 0" "s2 = 0" "s3 = 0" using bits by auto
    show "hd c3 = sum_list xs \<and> hd c3 \<le> 16" using t3(1) [OF z(1-3)] t3(2) [OF z] z(4) tot by simp
  next
    assume n: "s0 + s1 + s2 + s3 \<noteq> 0"
    show "\<exists>x \<in> set xs. 1 < x"
    proof (rule ccontr)
      assume "\<not> (\<exists>x \<in> set xs. 1 < x)"
      then have le: "x0 \<le> 1" "x1 \<le> 1" "x2 \<le> 1" "x3 \<le> 1" "x4 \<le> 1" "x5 \<le> 1" "x6 \<le> 1" "x7 \<le> 1" "x8 \<le> 1" "x9 \<le> 1" "x10 \<le> 1" "x11 \<le> 1"
        "x12 \<le> 1" "x13 \<le> 1" "x14 \<le> 1" "x15 \<le> 1" by (auto simp: xs)
      have z0: "s0 = 0" unfolding t0(1) using le by simp
      have z1: "s1 = 0" unfolding t1(1) [OF z0] using le by simp
      have z2: "s2 = 0" unfolding t2(1) [OF z0 z1] using le by simp
      have "s3 = 0" unfolding t3(1) [OF z0 z1 z2] tot_def using le by simp
      then show False using n z0 z1 z2 by simp
    qed
  qed
qed

text \<open>
  Pulses below \<open>2 ^ (m + 1)\<close> are halved at most \<open>m\<close> times, so the loop ends; and a block that was halved is not empty, which the signs rely on.
\<close>

lemma scale_loop_step:
  assumes "silk_combine_block comb xs a0 = (s, comb', a)"
  shows "silk_scale_loop comb xs a0 n = (if s \<noteq> 0 then silk_scale_loop comb' (map (\<lambda>x. x div 2) xs) a (n + 1) else Some (comb', xs, a, n))"
  by (subst silk_scale_loop.simps) (simp add: assms Let_def)

lemma shell_block_halves: "shell_block xs \<Longrightarrow> shell_block (map (\<lambda>x. x div 2 ^ r) xs)"
  by (simp add: shell_block_def list_all_iff pos_imp_zdiv_nonneg_iff)

lemma sum_list_pos: "list_all (\<lambda>x. 0 \<le> x) xs \<Longrightarrow> \<exists>x \<in> set xs. 0 < x \<Longrightarrow> 0 < sum_list (xs :: int list)"
proof (induction xs)
  case (Cons x xs)
  have "0 \<le> sum_list xs" using Cons(2) by (intro sum_list_nonneg) (simp add: list_all_iff)
  then show ?case using Cons by fastforce
qed simp

text \<open>What the encoder keeps of a block: the halved pulses, their sum and the number of halvings.\<close>

definition scaled_block :: "nat \<Rightarrow> int list \<Rightarrow> int list \<times> int \<times> nat \<Rightarrow> bool" where
  "scaled_block m xs b \<longleftrightarrow> (case b of (blk, a, r) \<Rightarrow> blk = map (\<lambda>x. x div 2 ^ r) xs \<and> shell_block blk \<and> a = sum_list blk \<and> a \<le> 16 \<and> r \<le> m \<and> (0 < r \<longrightarrow> 0 < a))"

lemma scaled_block_0: "shell_block xs \<Longrightarrow> a = sum_list xs \<Longrightarrow> a \<le> 16 \<Longrightarrow> scaled_block m xs (xs, a, 0)"
  by (simp add: scaled_block_def)

lemma scaled_block_Suc:
  assumes "shell_block xs" "\<exists>x \<in> set xs. 1 < x" "scaled_block m (map (\<lambda>x. x div 2) xs) (blk, a, r)"
  shows "scaled_block (Suc m) xs (blk, a, Suc r)"
proof -
  define ys where "ys = map (\<lambda>x. x div 2) xs"
  have sb: "shell_block ys" using shell_block_halves [OF assms(1), of 1] by (simp add: ys_def)
  obtain x where "x \<in> set xs" "1 < x" using assms(2) by blast
  then have "x div 2 \<in> set ys" "0 < x div 2" by (auto simp: ys_def)
  then have pos: "0 < sum_list ys" using sb by (intro sum_list_pos) (auto simp: shell_block_def)
  have e: "map (\<lambda>x. x div 2 ^ r) ys = map (\<lambda>x. x div 2 ^ Suc r) xs" by (simp add: ys_def zdiv_zmult2_eq)
  have h: "blk = map (\<lambda>x. x div 2 ^ r) ys" "shell_block blk" "a = sum_list blk" "a \<le> 16" "r \<le> m" "0 < r \<longrightarrow> 0 < a"
    using assms(3) unfolding scaled_block_def ys_def [symmetric] prod.case by blast+
  have "0 < a" using h(1,3,6) pos by (cases r) simp_all
  then show ?thesis using h(2-5) unfolding h(1) e by (simp add: scaled_block_def)
qed

lemma scale_loop:
  assumes "length comb = 8" "shell_block xs" "\<forall>x \<in> set xs. x < 2 ^ (m + 1)"
  shows "\<exists>c blk a r. silk_scale_loop comb xs a0 n = Some (c, blk, a, n + r) \<and> length c = 8 \<and> scaled_block m xs (blk, a, r)"
  using assms
proof (induction m arbitrary: comb xs a0 n)
  case 0
  obtain s comb' a where b: "silk_combine_block comb xs a0 = (s, comb', a)" "length comb' = 8" "s = 0 \<Longrightarrow> a = sum_list xs \<and> a \<le> 16"
    "s \<noteq> 0 \<Longrightarrow> \<exists>x \<in> set xs. 1 < x" by (rule combine_block [OF 0(1,2), of a0]) (rule that)
  have "s = 0" using b(4) 0(3) by fastforce
  then have "silk_scale_loop comb xs a0 n = Some (comb', xs, a, n + 0)" "scaled_block 0 xs (xs, a, 0)"
    using scale_loop_step [OF b(1), of n] b(3) scaled_block_0 [OF 0(2)] by simp_all
  then show ?case using b(2) by blast
next
  case (Suc m)
  obtain s comb' a where b: "silk_combine_block comb xs a0 = (s, comb', a)" "length comb' = 8" "s = 0 \<Longrightarrow> a = sum_list xs \<and> a \<le> 16"
    "s \<noteq> 0 \<Longrightarrow> \<exists>x \<in> set xs. 1 < x" by (rule combine_block [OF Suc(2,3), of a0]) (rule that)
  note st = scale_loop_step [OF b(1), of n]
  show ?case
  proof (cases "s = 0")
    case True
    then have "silk_scale_loop comb xs a0 n = Some (comb', xs, a, n + 0)" "scaled_block (Suc m) xs (xs, a, 0)"
      using st b(3) scaled_block_0 [OF Suc(3)] by simp_all
    then show ?thesis using b(2) by blast
  next
    case False
    define ys where "ys = map (\<lambda>x. x div 2) xs"
    have sb: "shell_block ys" using shell_block_halves [OF Suc(3), of 1] by (simp add: ys_def)
    have lt: "\<forall>x \<in> set ys. x < 2 ^ (m + 1)" using Suc(4) by (auto simp: ys_def)
    obtain c blk a' r where ih: "silk_scale_loop comb' ys a (n + 1) = Some (c, blk, a', n + 1 + r)" "length c = 8" "scaled_block m ys (blk, a', r)"
      using Suc(1) [OF b(2) sb lt] by blast
    have "scaled_block (Suc m) xs (blk, a', Suc r)" by (rule scaled_block_Suc [OF Suc(3) b(4) [OF False] ih(3) [unfolded ys_def]])
    moreover have "silk_scale_loop comb xs a0 n = Some (c, blk, a', n + Suc r)" using st False ih(1) by (simp add: ys_def)
    ultimately show ?thesis using ih(2) by blast
  qed
qed

definition pulse_block :: "int list \<Rightarrow> nat \<Rightarrow> int list" where
  "pulse_block xs i = map (\<lambda>j. xs ! (16 * i + j)) [0..<16]"

lemma pulse_block_0: "16 \<le> length xs \<Longrightarrow> pulse_block xs 0 = take 16 xs"
  unfolding pulse_block_def by (rule nth_equalityI) simp_all

lemma pulse_block_Suc: "16 \<le> length xs \<Longrightarrow> pulse_block xs (Suc i) = pulse_block (drop 16 xs) i"
  by (simp add: pulse_block_def add.commute add.left_commute)

lemma scale_blocks:
  assumes "length xs = 16 * n" "list_all (\<lambda>x. 0 \<le> x \<and> x < 128) xs" "length comb = 8"
  shows "\<exists>bs. silk_scale_blocks n comb xs = Some bs \<and> list_all2 (\<lambda>i. scaled_block 6 (pulse_block xs i)) [0..<n] bs"
  using assms
proof (induction n arbitrary: xs comb)
  case (Suc n)
  have l: "16 \<le> length xs" using Suc(2) by simp
  have t: "list_all (\<lambda>x. 0 \<le> x \<and> x < 128) (take 16 xs)" "list_all (\<lambda>x. 0 \<le> x \<and> x < 128) (drop 16 xs)"
    using Suc(3) by (auto simp: list_all_iff dest: in_set_takeD in_set_dropD)
  have sb: "shell_block (take 16 xs)" using t(1) l by (auto simp: shell_block_def list_all_iff)
  have lt: "\<forall>x \<in> set (take 16 xs). x < 2 ^ (6 + 1)" using t(1) by (simp add: list_all_iff)
  obtain c blk a r where b: "silk_scale_loop comb (take 16 xs) 0 0 = Some (c, blk, a, 0 + r)" "length c = 8" "scaled_block 6 (take 16 xs) (blk, a, r)"
    using scale_loop [OF Suc(4) sb lt] by blast
  have ld: "length (drop 16 xs) = 16 * n" using Suc(2) by simp
  obtain bs where bs: "silk_scale_blocks n c (drop 16 xs) = Some bs" "list_all2 (\<lambda>i. scaled_block 6 (pulse_block (drop 16 xs) i)) [0..<n] bs"
    using Suc(1) [OF ld t(2) b(2)] by blast
  have u: "[0..<Suc n] = 0 # map Suc [0..<n]" by (simp add: upt_conv_Cons map_Suc_upt del: upt_Suc)
  have "silk_scale_blocks (Suc n) comb xs = Some ((blk, a, r) # bs)" using b(1) bs(1) by simp
  moreover have "list_all2 (\<lambda>i. scaled_block 6 (pulse_block xs i)) [0..<Suc n] ((blk, a, r) # bs)"
    using b(3) bs(2) unfolding u by (simp add: list_all2_map1 pulse_block_Suc [OF l] pulse_block_0 [OF l])
  ultimately show ?case by blast
qed simp

end
