(* ===== verification/Silk_Pulses_Code.thy ===== *)
theory Silk_Pulses_Code
  imports Silk_Pulses
begin

text \<open>
  The pulses that the SILK encoder writes are the pulses that the decoder returns; and on any buffer the decoder returns a frame of pulses that
  fit their 16-bit array.
\<close>

unbundle bit_operations_syntax

section \<open>The tables\<close>

lemma pulse_tables_full:
  "list_all (\<lambda>t. full_table t 18) silk_pulses_per_block_iCDF" "list_all (\<lambda>t. full_table t 9) silk_rate_levels_iCDF"
  "full_table (drop 1 (silk_pulses_per_block_iCDF ! 9)) 17" "full_table silk_lsb_iCDF 2" "length silk_pulses_per_block_iCDF = 10" "length silk_rate_levels_iCDF = 2"
  by code_simp+

lemma count_table: "level < 10 \<Longrightarrow> full_table (silk_pulses_per_block_iCDF ! level) 18"
  using pulse_tables_full(1,5) by (simp add: list_all_length)

lemma rate_table: "st < 3 \<Longrightarrow> full_table (silk_rate_levels_iCDF ! (st div 2)) 9"
  using pulse_tables_full(2,6) by (simp add: list_all_length)

text \<open>Whatever the costs are, the rate level found is one of the nine that can be coded.\<close>

lemma rate_level_less: "silk_rate_level st bs < 9"
proof -
  have "snd (fold (\<lambda>k (min_bits, level). let bits = f k in if bits < min_bits then (bits, k) else (min_bits, level)) ks p) \<in> insert (snd p) (set ks)"
    for f :: "nat \<Rightarrow> int" and ks and p :: "int \<times> nat"
  proof (induction ks arbitrary: p)
    case (Cons k ks)
    show ?case using Cons [of "if f k < fst p then (f k, k) else p"] by (cases p) (auto simp: Let_def)
  qed simp
  from this [of "silk_rate_bits st bs" "[0..<9]" "(2 ^ 31 - 1, 0)"] show ?thesis unfolding silk_rate_level_def by auto
qed

section \<open>Counts\<close>

lemma codes_count_loop:
  assumes "n + length ks < 9" "0 \<le> a" "a \<le> 16"
  shows "codes (\<lambda>e. do { e \<leftarrow> encode_each (\<lambda>k e. ec_enc_icdf e 17 (silk_pulses_per_block_iCDF ! 9) 8) ks e;
      ec_enc_icdf e (nat a) (silk_pulses_per_block_iCDF ! 9) 8 }) (silk_count_loop n 17) (a, n + length ks + 1)"
  using assms(1)
proof (induction ks arbitrary: n)
  case Nil
  have d: "silk_count_loop n 17 = (\<lambda>d. do { (d, s) \<leftarrow> ec_dec_icdf d (silk_pulses_per_block_iCDF ! 9) 8; silk_count_loop (n + 1) s d })"
    by (rule ext, subst silk_count_loop.simps) (use Nil in simp)
  have "silk_count_loop (n + 1) (nat a) d = Some (d, a, n + 0 + 1)" for d using assms(2,3) by (subst silk_count_loop.simps) auto
  from codes_then [OF codes_full [OF count_table [of 9]], of "nat a" "\<lambda>d s. silk_count_loop (n + 1) s d", OF _ _ this] assms(3)
  show ?case unfolding d by simp
next
  case (Cons k ks)
  have d: "silk_count_loop n 17 = (\<lambda>d. do { (d, s) \<leftarrow> ec_dec_icdf d (silk_pulses_per_block_iCDF ! 9) 8; silk_count_loop (n + 1) s d })"
    by (rule ext, subst silk_count_loop.simps) (use Cons(2) in simp)
  have "codes (\<lambda>e. do { e \<leftarrow> encode_each (\<lambda>k e. ec_enc_icdf e 17 (silk_pulses_per_block_iCDF ! 9) 8) ks e;
      ec_enc_icdf e (nat a) (silk_pulses_per_block_iCDF ! 9) 8 }) (silk_count_loop (n + 1) 17) (a, n + length (k # ks) + 1)"
    using Cons(1) [of "n + 1"] Cons(2) by simp
  then show ?case unfolding d encode_each.simps bind_assoc by (intro codes_bind [OF codes_full [OF count_table]]) simp_all
qed

lemma codes_count:
  assumes "full_table cdf 18" "0 \<le> a" "a \<le> 16" "r \<le> 6"
  shows "codes (silk_encode_count cdf a r) (silk_decode_count cdf) (a, r)"
proof -
  have d: "silk_decode_count cdf = (\<lambda>d. do { (d, s) \<leftarrow> ec_dec_icdf d cdf 8; silk_count_loop 0 s d })" by (simp add: silk_decode_count_def fun_eq_iff)
  show ?thesis
  proof (cases "r = 0")
    case True
    have e: "silk_encode_count cdf a 0 = (\<lambda>e. ec_enc_icdf e (nat a) cdf 8)" by (simp add: silk_encode_count_def fun_eq_iff)
    have "silk_count_loop 0 (nat a) d = Some (d, a, 0)" for d using assms(2,3) by (subst silk_count_loop.simps) auto
    then show ?thesis unfolding True e d by (intro codes_then [OF codes_full [OF assms(1)]]) (use assms(3) in auto)
  next
    case False
    have "codes (\<lambda>e. do { e \<leftarrow> encode_each (\<lambda>k e. ec_enc_icdf e 17 (silk_pulses_per_block_iCDF ! 9) 8) [0..<r - 1] e;
      ec_enc_icdf e (nat a) (silk_pulses_per_block_iCDF ! 9) 8 }) (silk_count_loop 0 17) (a, r)"
      using codes_count_loop [of 0 "[0..<r - 1]" a] assms(2-4) False by simp
    moreover have "silk_encode_count cdf a r = (\<lambda>e. do { e \<leftarrow> ec_enc_icdf e 17 cdf 8;
        e \<leftarrow> encode_each (\<lambda>k e. ec_enc_icdf e 17 (silk_pulses_per_block_iCDF ! 9) 8) [0..<r - 1] e;
        ec_enc_icdf e (nat a) (silk_pulses_per_block_iCDF ! 9) 8 })" using False by (simp add: silk_encode_count_def fun_eq_iff)
    ultimately show ?thesis unfolding d by (simp only:) (rule codes_bind [OF codes_full [OF assms(1)]], simp_all)
  qed
qed

lemma answers_count_loop:
  assumes "s \<le> 17" "n \<le> 10" "n = 10 \<Longrightarrow> s \<le> 16"
  shows "answers (silk_count_loop n s) (\<lambda>(a, m). 0 \<le> a \<and> a \<le> 16 \<and> m \<le> 10)"
  using assms
proof (induction "10 - n" arbitrary: n s)
  case 0
  then have "silk_count_loop n s = (\<lambda>d. Some (d, int s, n))" by (intro ext) (subst silk_count_loop.simps, simp)
  then show ?case using 0 answers_return by (simp add: answers_def)
next
  case (Suc m)
  show ?case
  proof (cases "s = 17")
    case True
    define t where "t = drop (of_bool (n + 1 = 10)) (silk_pulses_per_block_iCDF ! 9)"
    have d: "silk_count_loop n s = (\<lambda>d. do { (d, s) \<leftarrow> ec_dec_icdf d t 8; silk_count_loop (n + 1) s d })"
      by (rule ext, subst silk_count_loop.simps) (use True in \<open>simp add: t_def\<close>)
    have t: "full_table t (if n + 1 = 10 then 17 else 18)" using pulse_tables_full(3) count_table [of 9] by (simp add: t_def)
    show ?thesis unfolding d by (rule answers_bind [OF answers_full [OF t]]) (use Suc(1) [of "n + 1"] Suc(2) in \<open>auto split: if_splits\<close>)
  next
    case False
    then have "silk_count_loop n s = (\<lambda>d. Some (d, int s, n))" by (intro ext) (subst silk_count_loop.simps, simp)
    then show ?thesis using Suc(3,4) False by (simp add: answers_def)
  qed
qed

lemma answers_count: "full_table cdf 18 \<Longrightarrow> answers (silk_decode_count cdf) (\<lambda>(a, m). 0 \<le> a \<and> a \<le> 16 \<and> m \<le> 10)"
  unfolding silk_decode_count_def [abs_def] by (erule answers_bind [OF answers_full]) (rule answers_count_loop, simp_all)

section \<open>Lower bits\<close>

lemma encode_each_append: "encode_each f (xs @ ys) e = do { e \<leftarrow> encode_each f xs e; encode_each f ys e }"
proof (induction xs arbitrary: e)
  case (Cons x xs)
  have "encode_each f (xs @ ys) = (\<lambda>e. do { e \<leftarrow> encode_each f xs e; encode_each f ys e })" using Cons by (rule ext)
  then show ?case by simp
qed simp

lemma encode_each_Nil: "encode_each f [] = Some"
  by (simp add: fun_eq_iff)

lemma encode_each_last: "encode_each f [x] = f x"
  by (simp add: fun_eq_iff encode_each_Nil)

lemma codes_lsbs_rev:
  assumes "0 \<le> a"
  shows "codes (encode_each (\<lambda>j e. ec_enc_icdf e (nat (a div 2 ^ j AND 1)) silk_lsb_iCDF 8) (rev [0..<n])) (silk_decode_lsbs n (a div 2 ^ n)) a"
proof (induction n)
  case 0
  show ?case using codes_return [of a] by (simp add: codes_def)
next
  case (Suc n)
  have b: "a div 2 ^ n AND 1 = (a div 2 ^ n) mod 2" by (simp add: and_one_eq)
  have "nat (a div 2 ^ n AND 1) < 2" by (simp add: b nat_less_iff)
  note c = codes_full [OF pulse_tables_full(4) this]
  have "a div 2 ^ Suc n * 2 + int (nat (a div 2 ^ n AND 1)) = a div 2 ^ n"
    by (simp add: b zdiv_zmult2_eq [of 2, simplified mult.commute] power_commutes [symmetric] zdiv_zmult2_eq)
  then have "codes (encode_each (\<lambda>j e. ec_enc_icdf e (nat (a div 2 ^ j AND 1)) silk_lsb_iCDF 8) (rev [0..<n]))
      (silk_decode_lsbs n (a div 2 ^ Suc n * 2 + int (nat (a div 2 ^ n AND 1)))) a" using Suc by (simp only:)
  from codes_bind [OF c, of _ "\<lambda>d b. silk_decode_lsbs n (a div 2 ^ Suc n * 2 + int b) d", OF this]
  show ?case by (simp add: codes_def)
qed

lemma codes_lsbs:
  assumes "\<bar>q\<bar> < 128" "0 < r"
  shows "codes (silk_encode_lsbs (r - 1) q) (silk_decode_lsbs r (\<bar>q\<bar> div 2 ^ r)) \<bar>q\<bar>"
proof -
  have c: "(\<bar>q\<bar> + 128) mod 256 - 128 = \<bar>q\<bar>" using assms(1) by simp
  have "rev [0..<r] = rev [1..<r - 1 + 1] @ [0]" using assms(2) by (simp add: upt_conv_Cons)
  then have "silk_encode_lsbs (r - 1) q = encode_each (\<lambda>j e. ec_enc_icdf e (nat (\<bar>q\<bar> div 2 ^ j AND 1)) silk_lsb_iCDF 8) (rev [0..<r])"
    unfolding fun_eq_iff silk_encode_lsbs_def Let_def c by (simp add: encode_each_append encode_each_Nil del: upt_Suc)
  then show ?thesis using codes_lsbs_rev [of "\<bar>q\<bar>" r] by simp
qed

lemma answers_lsbs: "0 \<le> a \<Longrightarrow> answers (silk_decode_lsbs n a) (\<lambda>b. 0 \<le> b \<and> b < (a + 1) * 2 ^ n)"
proof (induction n arbitrary: a)
  case 0
  then show ?case by (simp add: answers_def)
next
  case (Suc n)
  have d: "silk_decode_lsbs (Suc n) a = (\<lambda>d. do { (d, b) \<leftarrow> ec_dec_icdf d silk_lsb_iCDF 8; silk_decode_lsbs n (a * 2 + int b) d })" by (simp add: fun_eq_iff)
  show ?case unfolding d
  proof (rule answers_bind [OF answers_full [OF pulse_tables_full(4)]])
    fix b :: nat assume "b < 2"
    then have "(a * 2 + int b + 1) * 2 ^ n \<le> (a * 2 + 2) * 2 ^ n" by (intro mult_right_mono) auto
    then have le: "(a * 2 + int b + 1) * 2 ^ n \<le> (a + 1) * 2 ^ Suc n" by (simp add: algebra_simps)
    show "answers (silk_decode_lsbs n (a * 2 + int b)) (\<lambda>b. 0 \<le> b \<and> b < (a + 1) * 2 ^ Suc n)"
      by (rule answers_mono [OF Suc(1)]) (use Suc(2) in simp, erule conjE, intro conjI, assumption, erule less_le_trans [OF _ le])
  qed
qed

section \<open>Signs\<close>

text \<open>The signs of one block, on the absolute values that the decoder has by then.\<close>

lemma codes_sign:
  assumes "full_table icdf 2" "\<bar>q\<bar> < 128" "q' = \<bar>q\<bar>"
  shows "codes (\<lambda>e. if q \<noteq> 0 then ec_enc_icdf e (nat (silk_enc_map q)) icdf 8 else Some e)
    (\<lambda>d. if q' > 0 then do { (d, s) \<leftarrow> ec_dec_icdf d icdf 8; Some (d, q' * silk_dec_map (int s)) } else Some (d, q')) q"
proof (cases "q = 0")
  case True
  then show ?thesis using codes_return [of "0 :: int"] assms(3) by simp
next
  case False
  have m: "nat (silk_enc_map q) < 2" "\<bar>q\<bar> * silk_dec_map (int (nat (silk_enc_map q))) = q" using sign_maps [OF False] assms(2) by auto
  have e: "(\<lambda>e. if q \<noteq> 0 then ec_enc_icdf e (nat (silk_enc_map q)) icdf 8 else Some e) = (\<lambda>e. ec_enc_icdf e (nat (silk_enc_map q)) icdf 8)"
    "(\<lambda>d. if q' > 0 then do { (d, s) \<leftarrow> ec_dec_icdf d icdf 8; Some (d, q' * silk_dec_map (int s)) } else Some (d, q')) =
     (\<lambda>d. do { (d, s) \<leftarrow> ec_dec_icdf d icdf 8; Some (d, q' * silk_dec_map (int s)) })" using False assms(3) by (simp_all add: fun_eq_iff)
  show ?thesis unfolding e by (rule codes_then [OF codes_full [OF assms(1) m(1)]]) (simp only: assms(3) m(2))
qed

text \<open>The lengths a frame may have: whole blocks, or 120 samples.\<close>

definition silk_frame_length :: "nat \<Rightarrow> bool" where
  "silk_frame_length n \<longleftrightarrow> n mod 16 = 0 \<or> n = 120"

lemma silk_frame_blocks: "silk_frame_length n \<Longrightarrow> (n + 16 div 2) div 2 ^ 4 = silk_iter n"
  by (auto simp: silk_frame_length_def silk_iter_def Let_def elim!: dvdE simp flip: dvd_eq_mod_eq_0)

lemma concat_pulse_blocks: "16 * n \<le> length xs \<Longrightarrow> concat (map (pulse_block xs) [0..<n]) = take (16 * n) xs"
proof (induction n)
  case (Suc n)
  have "pulse_block xs n = take 16 (drop (16 * n) xs)" unfolding pulse_block_def by (rule nth_equalityI) (use Suc(2) in simp_all)
  then show ?case using Suc take_add [of "16 * n" 16 xs] by (simp add: add.commute)
qed simp

lemma codes_signs:
  assumes "silk_frame_length fl" "st < 3" "qo < 2" "length ps = silk_iter fl" "length xs \<ge> 16 * silk_iter fl"
    and q: "list_all (\<lambda>q. \<bar>q\<bar> < 128) (take (16 * silk_iter fl) xs)" "\<And>i. i < 16 * silk_iter fl \<Longrightarrow> ys ! i = \<bar>xs ! i\<bar>"
    and p: "\<And>i. i < silk_iter fl \<Longrightarrow> (ps ! i > 0 \<longleftrightarrow> ps' ! i > 0) \<and> (ps ! i AND 0x1F) = (ps' ! i AND 0x1F)"
    and z: "\<And>i j. i < silk_iter fl \<Longrightarrow> \<not> ps ! i > 0 \<Longrightarrow> j < 16 \<Longrightarrow> xs ! (16 * i + j) = 0"
  shows "codes (silk_encode_signs xs fl st qo ps) (silk_decode_signs ys fl st qo ps') (take (16 * silk_iter fl) xs)"
proof -
  have ix: "16 * i + j < 16 * silk_iter fl" if "i < silk_iter fl" "j < 16" for i j
  proof -
    have "16 * i + j < 16 * (i + 1)" using that(2) by simp
    also have "\<dots> \<le> 16 * silk_iter fl" using that(1) by (intro mult_le_mono2) simp
    finally show ?thesis .
  qed
  have small: "\<bar>xs ! (16 * i + j)\<bar> < 128" if "i < silk_iter fl" "j < 16" for i j
    using q(1) ix [OF that] assms(5) by (simp add: list_all_length)
  define enc where "enc = (\<lambda>i e. let p = ps ! i
          in if p > 0 then
               let icdf = silk_block_sign_icdf st qo p
               in encode_each (\<lambda>j e. let q = xs ! (16 * i + j)
                    in if q \<noteq> 0 then ec_enc_icdf e (nat (silk_enc_map q)) icdf 8 else Some e) [0..<16] e
             else Some e)"
  define dec where "dec = (\<lambda>i d. let p = ps' ! i
               in if p > 0 then
                    let icdf = silk_block_sign_icdf st qo p
                    in decode_each (\<lambda>j d. let q = ys ! (16 * i + j)
                         in if q > 0 then do { (d, s) \<leftarrow> ec_dec_icdf d icdf 8; Some (d, q * silk_dec_map (int s)) } else Some (d, q)) [0..<16] d
                  else Some (d, map (\<lambda>j. ys ! (16 * i + j)) [0..<16]))"
  have b: "codes (enc i) (dec i) (pulse_block xs i)" if i: "i < silk_iter fl" for i
  proof (cases "ps ! i > 0")
    case True
    define t where "t = silk_block_sign_icdf st qo (ps ! i)"
    have t: "full_table t 2" unfolding t_def by (rule sign_table [OF assms(2,3)])
    have t': "silk_block_sign_icdf st qo (ps' ! i) = t" "ps' ! i > 0" using p [OF i] True by (simp_all add: silk_block_sign_icdf_def t_def)
    have e: "enc i = encode_each (\<lambda>j e. if xs ! (16 * i + j) \<noteq> 0 then ec_enc_icdf e (nat (silk_enc_map (xs ! (16 * i + j)))) t 8 else Some e) [0..<16]"
      "dec i = decode_each (\<lambda>j d. if ys ! (16 * i + j) > 0 then do { (d, s) \<leftarrow> ec_dec_icdf d t 8; Some (d, ys ! (16 * i + j) * silk_dec_map (int s)) }
          else Some (d, ys ! (16 * i + j))) [0..<16]"
      unfolding enc_def dec_def Let_def t_def [symmetric] t'(1) using True t'(2) by (simp_all add: fun_eq_iff)
    show ?thesis unfolding e pulse_block_def
      by (rule codes_each, rule list_all2I) (use small [OF i] q(2) ix [OF i] in \<open>auto simp: zip_same intro!: codes_sign [OF t]\<close>)
  next
    case False
    then have e: "enc i = Some" "dec i = (\<lambda>d. Some (d, map (\<lambda>j. ys ! (16 * i + j)) [0..<16]))"
      using p [OF i] unfolding enc_def dec_def Let_def by (simp_all add: fun_eq_iff)
    have "map (\<lambda>j. ys ! (16 * i + j)) [0..<16] = pulse_block xs i"
      unfolding pulse_block_def by (rule map_cong [OF refl]) (use q(2) ix [OF i] z [OF i False] in simp)
    then show ?thesis unfolding e by (simp only: codes_return)
  qed
  have "codes (encode_each enc [0..<silk_iter fl]) (decode_each dec [0..<silk_iter fl]) (map (pulse_block xs) [0..<silk_iter fl])"
    by (rule codes_each, rule list_all2I) (use b in \<open>auto simp: zip_same\<close>)
  from codes_map [OF this, of concat] show ?thesis
    unfolding silk_encode_signs_def [abs_def] silk_decode_signs_def [abs_def] silk_frame_blocks [OF assms(1)] Let_def
    by (simp add: concat_pulse_blocks [OF assms(5)] enc_def [unfolded Let_def] dec_def [unfolded Let_def])
qed

end
