(* ===== verification/Silk_Frame.thy ===== *)
theory Silk_Frame
  imports Silk_Pulses_Code
begin

text \<open>
  The excitation of a frame as a whole: what \<open>silk_encode_pulses\<close> writes, \<open>silk_decode_pulses\<close> reads back; and the decoder returns a frame from every buffer.
\<close>

unbundle bit_operations_syntax

lemma scaled_blockD:
  assumes "scaled_block m xs (blk, a, r)"
  shows "shell_block blk" "0 \<le> a" "a \<le> 16" "r \<le> m" "a = sum_list blk" "blk = map (\<lambda>x. x div 2 ^ r) xs" "0 < r \<Longrightarrow> 0 < a"
    "a = 0 \<Longrightarrow> r = 0 \<and> blk = replicate 16 0 \<and> xs = replicate 16 0"
proof -
  have s: "blk = map (\<lambda>x. x div 2 ^ r) xs" "shell_block blk" "a = sum_list blk" "a \<le> 16" "r \<le> m" "0 < r \<longrightarrow> 0 < a"
    using assms unfolding scaled_block_def prod.case by blast+
  then show "shell_block blk" "a \<le> 16" "r \<le> m" "a = sum_list blk" "blk = map (\<lambda>x. x div 2 ^ r) xs" "0 < r \<Longrightarrow> 0 < a" by simp_all
  have nn: "list_all (\<lambda>x. 0 \<le> x) blk" "length blk = 16" using s(2) by (simp_all add: shell_block_def)
  then show "0 \<le> a" unfolding s(3) by (intro sum_list_nonneg) (simp add: list_all_iff)
  assume z: "a = 0"
  have "\<forall>x \<in> set blk. x = 0" using sum_list_pos [OF nn(1)] nn(1) s(3) z by (fastforce simp: list_all_iff)
  then have "blk = replicate 16 0" using nn(2) by (metis replicate_eqI)
  moreover have r: "r = 0" using s(6) z by simp
  moreover have "blk = xs" unfolding s(1) r by simp
  ultimately show "r = 0 \<and> blk = replicate 16 0 \<and> xs = replicate 16 0" by simp
qed

text \<open>The sums as the decoder marks them have the same low bits and are positive for the same blocks.\<close>

lemma marked_sum:
  assumes "0 \<le> a" "0 < r \<Longrightarrow> 0 < a"
  defines "p \<equiv> if r > 0 then a OR int r * 2 ^ 5 else a"
  shows "a > 0 \<longleftrightarrow> p > 0" "a AND 0x1F = p AND 0x1F"
proof -
  have "0 \<le> a OR int r * 2 ^ 5" using assms(1) by simp
  moreover have "a OR int r * 2 ^ 5 \<noteq> 0" if "0 < r" using that by (simp add: or_eq_0_iff)
  ultimately have "0 < r \<Longrightarrow> 0 < a OR int r * 2 ^ 5" by linarith
  then show "a > 0 \<longleftrightarrow> p > 0" using assms(2) by (auto simp: p_def)
  have m: "x AND 0x1F = take_bit 5 x" for x :: int by (simp add: take_bit_eq_mask mask_eq_exp_minus_1)
  have "take_bit 5 (int r * 2 ^ 5) = 0" by (simp add: take_bit_eq_mod)
  then show "a AND 0x1F = p AND 0x1F" unfolding p_def m by (simp add: take_bit_or)
qed

lemma codes_pulses:
  fixes xs fl
  defines "n \<equiv> silk_iter fl" and "ys \<equiv> silk_pad_pulses xs fl"
  assumes fl: "silk_frame_length fl" "st < 3" "qo < 2" and len: "16 * n \<le> length ys" and small: "list_all (\<lambda>q. \<bar>q\<bar> < 128) (take (16 * n) ys)"
  shows "codes (\<lambda>e. map_option fst (silk_encode_pulses st qo xs fl e)) (silk_decode_pulses st qo fl) (take (16 * n) ys)"
proof -
  define A where "A = map abs (take (n * 16) ys)"
  have lA: "length A = 16 * n" using len by (simp add: A_def min_def mult.commute)
  have sA: "list_all (\<lambda>x. 0 \<le> x \<and> x < 128) A" using small by (simp add: A_def list_all_iff mult.commute)
  obtain bs where bs: "silk_scale_blocks n (replicate 8 0) A = Some bs" "list_all2 (\<lambda>i. scaled_block 6 (pulse_block A i)) [0..<n] bs"
    using scale_blocks [OF lA sA, of "replicate 8 0"] by auto
  have lb: "length bs = n" using list_all2_lengthD [OF bs(2)] by simp
  have sb: "scaled_block 6 (pulse_block A i) (bs ! i)" if "i < n" for i using list_all2_nthD [OF bs(2), of i] that by simp
  have ix: "16 * i + j < 16 * n" if "i < n" "j < 16" for i j
  proof -
    have "16 * i + j < 16 * (i + 1)" using that(2) by simp
    also have "\<dots> \<le> 16 * n" using that(1) by (intro mult_le_mono2) simp
    finally show ?thesis .
  qed
  have Ai: "A ! i = \<bar>ys ! i\<bar>" if "i < 16 * n" for i using that len by (simp add: A_def mult.commute)
  define level where "level = silk_rate_level st bs"
  define cdf where "cdf = silk_pulses_per_block_iCDF ! level"
  have lv: "level < 9" unfolding level_def by (rule rate_level_less)
  have cdf: "full_table cdf 18" unfolding cdf_def by (rule count_table) (use lv in simp)
  have b: "\<exists>blk a r. bs ! i = (blk, a, r) \<and> scaled_block 6 (pulse_block A i) (blk, a, r)" if "i < n" for i
    using sb [OF that] by (metis surj_pair)
  have each: "codes (encode_each enc bs) (decode_each dec [0..<n]) (map f bs)"
    if "\<And>i blk a r. i < n \<Longrightarrow> bs ! i = (blk, a, r) \<Longrightarrow> scaled_block 6 (pulse_block A i) (blk, a, r) \<Longrightarrow> codes (enc (blk, a, r)) (dec i) (f (blk, a, r))" for enc dec f
    by (rule codes_each, rule list_all2_all_nthI) (use lb b that in \<open>fastforce+\<close>)
  have each_ix: "codes (encode_each enc [0..<n]) (decode_each dec [0..<n]) (map f [0..<n])"
    if "\<And>i blk a r. i < n \<Longrightarrow> bs ! i = (blk, a, r) \<Longrightarrow> scaled_block 6 (pulse_block A i) (blk, a, r) \<Longrightarrow> codes (enc i) (dec i) (f i)" for enc dec f
    by (rule codes_each, rule list_all2_all_nthI) (use b that in \<open>fastforce+\<close>)
  define counts where "counts = map (\<lambda>(blk, a, r). (a, r)) bs"
  define blocks where "blocks = map (\<lambda>(blk, a, r). blk) bs"
  have ci: "counts ! i = (a, r)" "blocks ! i = blk" if "i < n" "bs ! i = (blk, a, r)" for i blk a r using that lb by (simp_all add: counts_def blocks_def)
  have c1: "codes (encode_each (\<lambda>(blk, a, r). silk_encode_count cdf a r) bs) (decode_each (\<lambda>i. silk_decode_count cdf) [0..<n]) counts"
    unfolding counts_def by (rule each) (use codes_count [OF cdf] in \<open>simp add: scaled_blockD\<close>)
  have c2: "codes (encode_each (\<lambda>(blk, a, r) e. if a > 0 then silk_shell_encoder blk e else Some e) bs)
      (decode_each (\<lambda>i d. case counts ! i of (s, n) \<Rightarrow> if s > 0 then silk_shell_decoder s d else Some (d, replicate 16 0)) [0..<n]) blocks"
    unfolding blocks_def
  proof (rule each)
    fix i blk a r assume i: "i < n" "bs ! i = (blk, a, r)" and s: "scaled_block 6 (pulse_block A i) (blk, a, r)"
    note d = scaled_blockD [OF s]
    show "codes (case (blk, a, r) of (blk, a, r) \<Rightarrow> \<lambda>e. if a > 0 then silk_shell_encoder blk e else Some e)
        (\<lambda>d. case counts ! i of (s, n) \<Rightarrow> if s > 0 then silk_shell_decoder s d else Some (d, replicate 16 0)) (case (blk, a, r) of (blk, a, r) \<Rightarrow> blk)"
    proof (cases "a > 0")
      case True
      then show ?thesis using codes_shell [OF d(1)] d(3,5) by (simp add: ci [OF i])
    next
      case False
      then have "blk = replicate 16 0" using d(2,8) by simp
      then show ?thesis using False codes_return [of blk] by (simp add: ci [OF i])
    qed
  qed
  have c3: "codes (encode_each (\<lambda>i e. case bs ! i of (blk, a, r) \<Rightarrow>
        if r > 0 then encode_each (\<lambda>k. silk_encode_lsbs (r - 1) (ys ! (16 * i + k))) [0..<16] e else Some e) [0..<n])
      (decode_each (\<lambda>i d. case counts ! i of (s, n) \<Rightarrow>
        if n > 0 then decode_each (\<lambda>k. silk_decode_lsbs n (blocks ! i ! k)) [0..<16] d else Some (d, blocks ! i)) [0..<n]) (map (pulse_block A) [0..<n])"
  proof (rule each_ix)
    fix i blk a r assume i: "i < n" "bs ! i = (blk, a, r)" and s: "scaled_block 6 (pulse_block A i) (blk, a, r)"
    note d = scaled_blockD [OF s]
    show "codes (\<lambda>e. case bs ! i of (blk, a, r) \<Rightarrow>
          if r > 0 then encode_each (\<lambda>k. silk_encode_lsbs (r - 1) (ys ! (16 * i + k))) [0..<16] e else Some e)
        (\<lambda>d. case counts ! i of (s, n) \<Rightarrow>
          if n > 0 then decode_each (\<lambda>k. silk_decode_lsbs n (blocks ! i ! k)) [0..<16] d else Some (d, blocks ! i)) (pulse_block A i)"
    proof (cases "r > 0")
      case True
      have l: "codes (silk_encode_lsbs (r - 1) (ys ! (16 * i + k))) (silk_decode_lsbs r (blk ! k)) (A ! (16 * i + k))" if k: "k < 16" for k
      proof -
        have "\<bar>ys ! (16 * i + k)\<bar> < 128" using small ix [OF i(1) k] len by (simp add: list_all_length)
        from codes_lsbs [OF this True] show ?thesis unfolding d(6) using k Ai [OF ix [OF i(1) k]] by (simp add: pulse_block_def)
      qed
      have "codes (encode_each (\<lambda>k. silk_encode_lsbs (r - 1) (ys ! (16 * i + k))) [0..<16]) (decode_each (\<lambda>k. silk_decode_lsbs r (blk ! k)) [0..<16]) (pulse_block A i)"
        unfolding pulse_block_def by (rule codes_each, rule list_all2I) (use l in \<open>auto simp: zip_same\<close>)
      then show ?thesis using True i(2) by (simp add: ci [OF i])
    next
      case False
      then have "blk = pulse_block A i" using d(6) by simp
      then show ?thesis using False i(2) codes_return [of blk] by (simp add: ci [OF i])
    qed
  qed
  define marks where "marks = map (\<lambda>(s, n). if n > 0 then s OR int n * 2 ^ 5 else s) counts"
  have c4: "codes (silk_encode_signs ys fl st qo (map (\<lambda>(blk, a, r). a) bs)) (silk_decode_signs (concat (map (pulse_block A) [0..<n])) fl st qo marks) (take (16 * n) ys)"
  proof (rule codes_signs [OF fl, folded n_def])
    show "length (map (\<lambda>(blk, a, r). a) bs) = n" "16 * n \<le> length ys" "list_all (\<lambda>q. \<bar>q\<bar> < 128) (take (16 * n) ys)" using lb len small by simp_all
    show "concat (map (pulse_block A) [0..<n]) ! i = \<bar>ys ! i\<bar>" if "i < 16 * n" for i
      using concat_pulse_blocks [of n A] lA Ai [OF that] by simp
  next
    fix i assume i: "i < n"
    then obtain blk a r where s: "bs ! i = (blk, a, r)" "scaled_block 6 (pulse_block A i) (blk, a, r)" using b by blast
    note d = scaled_blockD [OF s(2)]
    have m: "marks ! i = (if r > 0 then a OR int r * 2 ^ 5 else a)" using ci(1) [OF i s(1)] i lb by (simp add: marks_def counts_def)
    have a: "map (\<lambda>(blk, a, r). a) bs ! i = a" using s(1) i lb by simp
    show "(map (\<lambda>(blk, a, r). a) bs ! i > 0 \<longleftrightarrow> marks ! i > 0) \<and> (map (\<lambda>(blk, a, r). a) bs ! i AND 0x1F) = (marks ! i AND 0x1F)"
      unfolding a m using marked_sum [OF d(2,7)] by blast
    fix j :: nat assume j: "\<not> map (\<lambda>(blk, a, r). a) bs ! i > 0" "j < 16"
    then have "pulse_block A i = replicate 16 0" using d(2,8) a by simp
    then have "pulse_block A i ! j = 0" using j(2) by simp
    then show "ys ! (16 * i + j) = 0" using Ai [OF ix [OF i j(2)]] j(2) by (simp add: pulse_block_def)
  qed
  have enc: "map_option fst (silk_encode_pulses st qo xs fl e) =
    do { e \<leftarrow> ec_enc_icdf e level (silk_rate_levels_iCDF ! (st div 2)) 8;
         e \<leftarrow> encode_each (\<lambda>(blk, a, r). silk_encode_count cdf a r) bs e;
         e \<leftarrow> encode_each (\<lambda>(blk, a, r) e. if a > 0 then silk_shell_encoder blk e else Some e) bs e;
         e \<leftarrow> encode_each (\<lambda>i e. case bs ! i of (blk, a, r) \<Rightarrow>
           if r > 0 then encode_each (\<lambda>k. silk_encode_lsbs (r - 1) (ys ! (16 * i + k))) [0..<16] e else Some e) [0..<n] e;
         silk_encode_signs ys fl st qo (map (\<lambda>(blk, a, r). a) bs) e }" for e
    unfolding silk_encode_pulses_def Let_def n_def [symmetric] ys_def [symmetric] A_def [symmetric] bs(1) bind.bind_lunit level_def [symmetric] cdf_def [symmetric]
    by (simp add: map_option_bind comp_def)
  have dec: "silk_decode_pulses st qo fl =
    (\<lambda>d. do { (d, level) \<leftarrow> ec_dec_icdf d (silk_rate_levels_iCDF ! (st div 2)) 8;
         (d, counts) \<leftarrow> decode_each (\<lambda>i. silk_decode_count (silk_pulses_per_block_iCDF ! level)) [0..<n] d;
         (d, blocks) \<leftarrow> decode_each (\<lambda>i d. case counts ! i of (s, n) \<Rightarrow>
           if s > 0 then silk_shell_decoder s d else Some (d, replicate 16 0)) [0..<n] d;
         (d, blocks) \<leftarrow> decode_each (\<lambda>i d. case counts ! i of (s, n) \<Rightarrow>
           if n > 0 then decode_each (\<lambda>k. silk_decode_lsbs n (blocks ! i ! k)) [0..<16] d else Some (d, blocks ! i)) [0..<n] d;
         silk_decode_signs (concat blocks) fl st qo (map (\<lambda>(s, n). if n > 0 then s OR int n * 2 ^ 5 else s) counts) d })"
    unfolding silk_decode_pulses_def Let_def n_def [symmetric] ..
  show ?thesis
    unfolding enc dec cdf_def
    by (rule codes_bind [OF codes_full [OF rate_table [OF fl(2)] lv]], rule codes_bind [OF c1 [unfolded cdf_def]],
      rule codes_bind [OF c2], rule codes_bind [OF c3], rule c4 [unfolded marks_def])
qed

section \<open>The decoder on any buffer\<close>

lemma list_all2_upt: "list_all2 P [0..<n] xs \<longleftrightarrow> length xs = n \<and> (\<forall>i < n. P i (xs ! i))"
  by (auto simp: list_all2_conv_all_nth)

lemma le_sum_list: "list_all (\<lambda>x. 0 \<le> x) xs \<Longrightarrow> x \<in> set xs \<Longrightarrow> x \<le> sum_list (xs :: int list)"
proof (induction xs)
  case (Cons y ys)
  have "0 \<le> sum_list ys" using Cons(2) by (intro sum_list_nonneg) (simp add: list_all_iff)
  then show ?case using Cons by fastforce
qed simp

definition bounded_block :: "int \<Rightarrow> int list \<Rightarrow> bool" where
  "bounded_block m xs \<longleftrightarrow> length xs = 16 \<and> list_all (\<lambda>x. 0 \<le> x \<and> x \<le> m) xs"

lemma answers_shell_block:
  assumes "0 \<le> s" "s \<le> 16"
  shows "answers (\<lambda>d. if s > 0 then silk_shell_decoder s d else Some (d, replicate 16 0)) (bounded_block 16)"
proof (cases "s > 0")
  case True
  have "answers (silk_shell_decoder s) (bounded_block 16)"
    by (rule answers_mono [OF answers_shell [OF assms]]) (use le_sum_list assms(2) in \<open>fastforce simp: shell_block_def bounded_block_def list_all_iff\<close>)
  then show ?thesis using True by simp
next
  case False
  then show ?thesis by (simp add: answers_def bounded_block_def list_all_iff)
qed

lemma answers_lsb_block:
  assumes "bounded_block 16 blk" "n \<le> 10"
  shows "answers (\<lambda>d. if n > 0 then decode_each (\<lambda>k. silk_decode_lsbs n (blk ! k)) [0..<16] d else Some (d, blk)) (bounded_block 17407)"
proof (cases "n > 0")
  case True
  have e: "answers (silk_decode_lsbs n (blk ! k)) (\<lambda>x. 0 \<le> x \<and> x \<le> 17407)" if "k < 16" for k
  proof -
    have b: "0 \<le> blk ! k" "blk ! k \<le> 16" using assms(1) that by (simp_all add: bounded_block_def list_all_length)
    have "(blk ! k + 1) * 2 ^ n \<le> 17 * 2 ^ 10" using b assms(2) by (intro mult_mono power_increasing) auto
    then show ?thesis by (intro answers_mono [OF answers_lsbs [OF b(1)]]) auto
  qed
  have "answers (decode_each (\<lambda>k. silk_decode_lsbs n (blk ! k)) [0..<16]) (list_all2 (\<lambda>k x. 0 \<le> x \<and> x \<le> 17407) [0..<16])"
    by (rule answers_each) (use e in simp)
  then show ?thesis using True by (auto elim!: answers_mono simp: list_all2_upt bounded_block_def list_all_length)
next
  case False
  then show ?thesis using assms(1) by (auto simp: answers_def bounded_block_def list_all_iff)
qed

lemma answers_sign_block:
  assumes "st < 3" "qo < 2" "bounded_block m (pulse_block ys i)"
  shows "answers (\<lambda>d. let p = ps ! i
               in if p > 0 then
                    let icdf = silk_block_sign_icdf st qo p
                    in decode_each (\<lambda>j d. let q = ys ! (16 * i + j)
                         in if q > 0 then do { (d, s) \<leftarrow> ec_dec_icdf d icdf 8; Some (d, q * silk_dec_map (int s)) } else Some (d, q)) [0..<16] d
                  else Some (d, map (\<lambda>j. ys ! (16 * i + j)) [0..<16]))
    (\<lambda>xs. length xs = 16 \<and> list_all (\<lambda>x. \<bar>x\<bar> \<le> m) xs)"
proof (cases "ps ! i > 0")
  case True
  define t where "t = silk_block_sign_icdf st qo (ps ! i)"
  have t: "full_table t 2" unfolding t_def by (rule sign_table [OF assms(1,2)])
  have b: "0 \<le> ys ! (16 * i + j)" "ys ! (16 * i + j) \<le> m" if "j < 16" for j using assms(3) that by (simp_all add: bounded_block_def pulse_block_def list_all_iff)
  have e: "answers (\<lambda>d. if q > 0 then do { (d, s) \<leftarrow> ec_dec_icdf d t 8; Some (d, q * silk_dec_map (int s)) } else Some (d, q)) (\<lambda>x. \<bar>x\<bar> \<le> m)"
    if "0 \<le> q" "q \<le> m" for q
  proof (cases "q > 0")
    case True
    have "answers (\<lambda>d. do { (d, s) \<leftarrow> ec_dec_icdf d t 8; Some (d, q * silk_dec_map (int s)) }) (\<lambda>x. \<bar>x\<bar> \<le> m)"
      by (rule answers_bind [OF answers_full [OF t]], rule answers_return) (use that in \<open>auto simp: silk_dec_map_def less_2_cases_iff\<close>)
    then show ?thesis using True by simp
  next
    case False
    then show ?thesis using that by (simp add: answers_def)
  qed
  have "answers (decode_each (\<lambda>j d. if ys ! (16 * i + j) > 0 then do { (d, s) \<leftarrow> ec_dec_icdf d t 8; Some (d, ys ! (16 * i + j) * silk_dec_map (int s)) }
      else Some (d, ys ! (16 * i + j))) [0..<16]) (list_all2 (\<lambda>j x. \<bar>x\<bar> \<le> m) [0..<16])"
    by (rule answers_each) (use e b in simp)
  then show ?thesis using True unfolding Let_def t_def [symmetric] by (auto elim!: answers_mono simp: list_all2_upt list_all_length)
next
  case False
  have "list_all (\<lambda>x. \<bar>x\<bar> \<le> m) (map (\<lambda>j. ys ! (16 * i + j)) [0..<16])" using assms(3) by (auto simp: bounded_block_def pulse_block_def list_all_iff)
  then show ?thesis using False by (simp add: answers_def)
qed

lemma pulse_block_concat:
  assumes "list_all (\<lambda>b. length b = 16) bs" "i < length bs"
  shows "pulse_block (concat bs) i = bs ! i"
  using assms
proof (induction bs arbitrary: i)
  case (Cons b bs)
  show ?case
  proof (cases i)
    case 0
    then show ?thesis using Cons(2) pulse_block_0 [of "concat (b # bs)"] by simp
  next
    case (Suc j)
    then show ?thesis using Cons pulse_block_Suc [of "concat (b # bs)" j] by simp
  qed
qed simp

lemma concat_blocks:
  assumes "list_all (\<lambda>b. length b = 16 \<and> list_all P b) bs"
  shows "length (concat bs) = 16 * length bs \<and> list_all P (concat bs)"
  using assms by (induction bs) auto

lemma answers_pulses:
  assumes "silk_frame_length fl" "st < 3" "qo < 2"
  shows "answers (silk_decode_pulses st qo fl) (\<lambda>xs. length xs = 16 * silk_iter fl \<and> list_all (\<lambda>x. \<bar>x\<bar> \<le> 17407) xs)"
proof -
  define n where "n = silk_iter fl"
  have signs: "answers (silk_decode_signs (concat blocks) fl st qo ps) (\<lambda>xs. length xs = 16 * n \<and> list_all (\<lambda>x. \<bar>x\<bar> \<le> 17407) xs)"
    if b: "list_all2 (\<lambda>_. bounded_block 17407) [0..<n] blocks" for blocks ps
  proof -
    have lb: "length blocks = n" "list_all (\<lambda>b. length b = 16) blocks" using b by (auto simp: list_all2_upt list_all_length bounded_block_def)
    show ?thesis unfolding silk_decode_signs_def [abs_def] silk_frame_blocks [OF assms(1), folded n_def] Let_def [of "n"]
    proof (rule answers_bind, rule answers_each)
      fix i assume "i \<in> set [0..<n]"
      then have "bounded_block 17407 (pulse_block (concat blocks) i)" using b pulse_block_concat [OF lb(2)] lb(1) by (simp add: list_all2_upt)
      from answers_sign_block [OF assms(2,3) this] show "answers (\<lambda>d. let p = ps ! i
               in if p > 0 then
                    let icdf = silk_block_sign_icdf st qo p
                    in decode_each (\<lambda>j d. let q = concat blocks ! (16 * i + j)
                         in if q > 0 then do { (d, s) \<leftarrow> ec_dec_icdf d icdf 8; Some (d, q * silk_dec_map (int s)) } else Some (d, q)) [0..<16] d
                  else Some (d, map (\<lambda>j. concat blocks ! (16 * i + j)) [0..<16])) (\<lambda>xs. length xs = 16 \<and> list_all (\<lambda>x. \<bar>x\<bar> \<le> 17407) xs)" .
    next
      fix bs assume "list_all2 (\<lambda>i xs. length xs = 16 \<and> list_all (\<lambda>x. \<bar>x\<bar> \<le> 17407) xs) [0..<n] bs"
      then show "answers (\<lambda>d. Some (d, concat bs)) (\<lambda>xs. length xs = 16 * n \<and> list_all (\<lambda>x. \<bar>x\<bar> \<le> 17407) xs)"
        using concat_blocks [of "\<lambda>x. \<bar>x\<bar> \<le> 17407" bs] by (intro answers_return) (auto simp: list_all2_upt list_all_length)
    qed
  qed
  show ?thesis
    unfolding silk_decode_pulses_def [abs_def] Let_def n_def [symmetric]
  proof (rule answers_bind [OF answers_full [OF rate_table [OF assms(2)]]])
    fix level :: nat assume "level < 9"
    then have cdf: "full_table (silk_pulses_per_block_iCDF ! level) 18" by (intro count_table) simp
    show "answers (\<lambda>d. do { (d, counts) \<leftarrow> decode_each (\<lambda>i. silk_decode_count (silk_pulses_per_block_iCDF ! level)) [0..<n] d;
             (d, blocks) \<leftarrow> decode_each (\<lambda>i d. case counts ! i of (s, n) \<Rightarrow>
               if s > 0 then silk_shell_decoder s d else Some (d, replicate 16 0)) [0..<n] d;
             (d, blocks) \<leftarrow> decode_each (\<lambda>i d. case counts ! i of (s, n) \<Rightarrow>
               if n > 0 then decode_each (\<lambda>k. silk_decode_lsbs n (blocks ! i ! k)) [0..<16] d else Some (d, blocks ! i)) [0..<n] d;
             silk_decode_signs (concat blocks) fl st qo (map (\<lambda>(s, n). if n > 0 then s OR int n * 2 ^ 5 else s) counts) d })
       (\<lambda>xs. length xs = 16 * n \<and> list_all (\<lambda>x. \<bar>x\<bar> \<le> 17407) xs)"
    proof (rule answers_bind [OF answers_each [OF answers_count [OF cdf]]])
      fix counts :: "(int \<times> nat) list" assume c: "list_all2 (\<lambda>i (a, m). 0 \<le> a \<and> a \<le> 16 \<and> m \<le> 10) [0..<n] counts"
      show "answers (\<lambda>d. do { (d, blocks) \<leftarrow> decode_each (\<lambda>i d. case counts ! i of (s, n) \<Rightarrow>
               if s > 0 then silk_shell_decoder s d else Some (d, replicate 16 0)) [0..<n] d;
             (d, blocks) \<leftarrow> decode_each (\<lambda>i d. case counts ! i of (s, n) \<Rightarrow>
               if n > 0 then decode_each (\<lambda>k. silk_decode_lsbs n (blocks ! i ! k)) [0..<16] d else Some (d, blocks ! i)) [0..<n] d;
             silk_decode_signs (concat blocks) fl st qo (map (\<lambda>(s, n). if n > 0 then s OR int n * 2 ^ 5 else s) counts) d })
         (\<lambda>xs. length xs = 16 * n \<and> list_all (\<lambda>x. \<bar>x\<bar> \<le> 17407) xs)"
      proof (rule answers_bind [OF answers_each [where P = "\<lambda>_. bounded_block 16"]])
        fix i assume "i \<in> set [0..<n]"
        then show "answers (\<lambda>d. case counts ! i of (s, n) \<Rightarrow> if s > 0 then silk_shell_decoder s d else Some (d, replicate 16 0)) (bounded_block 16)"
          using c answers_shell_block [of "fst (counts ! i)"] by (simp add: list_all2_upt case_prod_unfold)
      next
        fix blocks :: "int list list" assume b: "list_all2 (\<lambda>_. bounded_block 16) [0..<n] blocks"
        show "answers (\<lambda>d. do { (d, blocks) \<leftarrow> decode_each (\<lambda>i d. case counts ! i of (s, n) \<Rightarrow>
               if n > 0 then decode_each (\<lambda>k. silk_decode_lsbs n (blocks ! i ! k)) [0..<16] d else Some (d, blocks ! i)) [0..<n] d;
             silk_decode_signs (concat blocks) fl st qo (map (\<lambda>(s, n). if n > 0 then s OR int n * 2 ^ 5 else s) counts) d })
         (\<lambda>xs. length xs = 16 * n \<and> list_all (\<lambda>x. \<bar>x\<bar> \<le> 17407) xs)"
        proof (rule answers_bind [OF answers_each [where P = "\<lambda>_. bounded_block 17407"] signs])
          fix i assume "i \<in> set [0..<n]"
          then show "answers (\<lambda>d. case counts ! i of (s, n) \<Rightarrow>
               if n > 0 then decode_each (\<lambda>k. silk_decode_lsbs n (blocks ! i ! k)) [0..<16] d else Some (d, blocks ! i)) (bounded_block 17407)"
            using c b answers_lsb_block [of "blocks ! i" "snd (counts ! i)"] by (simp add: list_all2_upt case_prod_unfold)
        qed
      qed
    qed
  qed
qed

end
