(* ===== verification/Silk_Macros.thy ===== *)
theory Silk_Macros
  imports Main
begin

text \<open>
  The fixed-point arithmetic of SILK, from \<open>src/Vendor/opus/silk/macros.h\<close> and \<open>SigProc_FIX.h\<close>. A 32-bit value is an integer of the model; the
  casts to 8 and 16 bits are written out. Shifts to the right are divisions rounding down.
\<close>

definition s8 :: "int \<Rightarrow> int" where "s8 x = (x + 2 ^ 7) mod 2 ^ 8 - 2 ^ 7"

definition s16 :: "int \<Rightarrow> int" where "s16 x = (x + 2 ^ 15) mod 2 ^ 16 - 2 ^ 15"

definition silk_int32_MAX :: int where "silk_int32_MAX = 2 ^ 31 - 1"

definition silk_SMULBB :: "int \<Rightarrow> int \<Rightarrow> int" where "silk_SMULBB a b = s16 a * s16 b"

definition silk_SMULWB :: "int \<Rightarrow> int \<Rightarrow> int" where "silk_SMULWB a b = a * s16 b div 2 ^ 16"

definition silk_SMLAWB :: "int \<Rightarrow> int \<Rightarrow> int \<Rightarrow> int" where "silk_SMLAWB a b c = a + b * s16 c div 2 ^ 16"

definition silk_SMLABB :: "int \<Rightarrow> int \<Rightarrow> int \<Rightarrow> int" where "silk_SMLABB a b c = a + s16 b * s16 c"

definition silk_LIMIT :: "int \<Rightarrow> int \<Rightarrow> int \<Rightarrow> int" where
  "silk_LIMIT a limit1 limit2 =
    (if limit1 > limit2 then if a > limit1 then limit1 else if a < limit2 then limit2 else a
     else if a > limit2 then limit2 else if a < limit1 then limit1 else a)"

definition silk_RSHIFT_ROUND :: "int \<Rightarrow> nat \<Rightarrow> int" where
  "silk_RSHIFT_ROUND a shift = (if shift = 1 then a div 2 + a mod 2 else (a div 2 ^ (shift - 1) + 1) div 2)"

definition silk_SAT16 :: "int \<Rightarrow> int" where
  "silk_SAT16 a = (if a > 32767 then 32767 else if a < - 32768 then - 32768 else a)"

lemma s8_id: "- 128 \<le> x \<Longrightarrow> x < 128 \<Longrightarrow> s8 x = x"
  by (simp add: s8_def)

lemma s16_id: "- 32768 \<le> x \<Longrightarrow> x < 32768 \<Longrightarrow> s16 x = x"
  by (simp add: s16_def)

lemma limit_bounds: "lo \<le> hi \<Longrightarrow> lo \<le> silk_LIMIT a lo hi" "lo \<le> hi \<Longrightarrow> silk_LIMIT a lo hi \<le> hi"
  "lo \<le> hi \<Longrightarrow> silk_LIMIT a lo hi = max lo (min hi a)"
  by (auto simp: silk_LIMIT_def)

end
