(* ===== verification/Silk_Indices.thy ===== *)
theory Silk_Indices
  imports Opus_Codes Silk_Index_Tables Silk_Macros
begin

text \<open>
  The side information of a SILK frame: \<open>src/Vendor/opus/silk/encode_indices.c\<close>, \<open>decode_indices.c\<close>, \<open>NLSF_unpack.c\<close> and the choice of tables in
  \<open>decoder_set_fs.c\<close>. What the encoder is given, the decoder returns, and both carry the same state to the next frame. The casts of symbols to
  8 bits do nothing, since no table has more than 64 symbols, and are left out.
\<close>

unbundle bit_operations_syntax

section \<open>Data\<close>

record SideInfoIndices =
  GainsIndices :: "int list"
  LTPIndex :: "int list"
  NLSFIndices :: "int list"
  lagIndex :: int
  contourIndex :: int
  signalType :: int
  quantOffsetType :: int
  NLSFInterpCoef_Q2 :: int
  PERIndex :: int
  LTP_scaleIndex :: int
  Seed :: int

text \<open>The fields of a codebook that the coding and the decoder use; \<open>11796\<close> and \<open>9830\<close> are 0.18 and 0.15 in Q16.\<close>

record silk_NLSF_CB_struct =
  nVectors :: nat
  CB_order :: nat
  quantStepSize_Q16 :: int
  CB1_NLSF_Q8 :: "int list"
  CB1_Wght_Q9 :: "int list"
  CB1_iCDF :: "int list"
  CB_pred_Q8 :: "int list"
  ec_sel :: "int list"
  ec_iCDF :: "int list"
  deltaMin_Q15 :: "int list"

definition silk_NLSF_CB_NB_MB :: silk_NLSF_CB_struct where
  "silk_NLSF_CB_NB_MB = \<lparr>nVectors = 32, CB_order = 10, quantStepSize_Q16 = 11796, CB1_NLSF_Q8 = silk_NLSF_CB1_NB_MB_Q8, CB1_Wght_Q9 = silk_NLSF_CB1_Wght_Q9,
     CB1_iCDF = silk_NLSF_CB1_iCDF_NB_MB, CB_pred_Q8 = silk_NLSF_PRED_NB_MB_Q8,
     ec_sel = silk_NLSF_CB2_SELECT_NB_MB, ec_iCDF = silk_NLSF_CB2_iCDF_NB_MB, deltaMin_Q15 = silk_NLSF_DELTA_MIN_NB_MB_Q15\<rparr>"

definition silk_NLSF_CB_WB :: silk_NLSF_CB_struct where
  "silk_NLSF_CB_WB = \<lparr>nVectors = 32, CB_order = 16, quantStepSize_Q16 = 9830, CB1_NLSF_Q8 = silk_NLSF_CB1_WB_Q8, CB1_Wght_Q9 = silk_NLSF_CB1_WB_Wght_Q9,
     CB1_iCDF = silk_NLSF_CB1_iCDF_WB, CB_pred_Q8 = silk_NLSF_PRED_WB_Q8,
     ec_sel = silk_NLSF_CB2_SELECT_WB, ec_iCDF = silk_NLSF_CB2_iCDF_WB, deltaMin_Q15 = silk_NLSF_DELTA_MIN_WB_Q15\<rparr>"

text \<open>The fields of \<open>silk_encoder_state\<close> and \<open>silk_decoder_state\<close> that the coding uses; both structures have them.\<close>

record silk_coder_state =
  nb_subfr :: nat
  fs_kHz :: nat
  psNLSF_CB :: silk_NLSF_CB_struct
  pitch_lag_low_bits_iCDF :: "int list"
  pitch_contour_iCDF :: "int list"
  ec_prevSignalType :: int
  ec_prevLagIndex :: int

text \<open>The tables that \<open>silk_decoder_set_fs\<close> selects when the sampling rate changes.\<close>

definition silk_set_tables :: "nat \<Rightarrow> silk_coder_state \<Rightarrow> silk_coder_state" where
  "silk_set_tables fs st =
    st\<lparr>fs_kHz := fs,
       pitch_contour_iCDF :=
         (if fs = 8 then if nb_subfr st = 4 then silk_pitch_contour_NB_iCDF else silk_pitch_contour_10_ms_NB_iCDF
          else if nb_subfr st = 4 then silk_pitch_contour_iCDF else silk_pitch_contour_10_ms_iCDF),
       psNLSF_CB := (if fs = 8 \<or> fs = 12 then silk_NLSF_CB_NB_MB else silk_NLSF_CB_WB),
       pitch_lag_low_bits_iCDF := (if fs = 16 then silk_uniform8_iCDF else if fs = 12 then silk_uniform6_iCDF else silk_uniform4_iCDF)\<rparr>"

definition silk_LTP_gain_iCDF_ptrs :: "int list list" where
  "silk_LTP_gain_iCDF_ptrs = [silk_LTP_gain_iCDF_0, silk_LTP_gain_iCDF_1, silk_LTP_gain_iCDF_2]"

text \<open>Indices of the entropy tables and predictor values; each entry of the selection table holds two of both.\<close>

definition silk_NLSF_unpack :: "silk_NLSF_CB_struct \<Rightarrow> nat \<Rightarrow> nat list \<times> int list" where
  "silk_NLSF_unpack cb CB1_index =
    (let entries = map (\<lambda>k. ec_sel cb ! (CB1_index * CB_order cb div 2 + k)) [0..<CB_order cb div 2]
     in (concat (map (\<lambda>entry. [nat ((entry div 2 AND 7) * 9), nat ((entry div 2 ^ 5 AND 7) * 9)]) entries),
         concat (map (\<lambda>k. let entry = entries ! k; i = 2 * k
           in [CB_pred_Q8 cb ! (i + nat (entry AND 1) * (CB_order cb - 1)), CB_pred_Q8 cb ! (i + nat (entry div 2 ^ 4 AND 1) * (CB_order cb - 1) + 1)])
           [0..<CB_order cb div 2])))"

section \<open>The encoder\<close>

definition silk_encode_gains :: "silk_coder_state \<Rightarrow> SideInfoIndices \<Rightarrow> nat \<Rightarrow> ec_ctx \<Rightarrow> ec_ctx option" where
  "silk_encode_gains st ix condCoding e =
    do { e \<leftarrow> (if condCoding = 2 then ec_enc_icdf e (nat (GainsIndices ix ! 0)) silk_delta_gain_iCDF 8
           else do { e \<leftarrow> ec_enc_icdf e (nat (GainsIndices ix ! 0 div 2 ^ 3)) (silk_gain_iCDF ! nat (signalType ix)) 8;
                     ec_enc_icdf e (nat (GainsIndices ix ! 0 AND 7)) silk_uniform8_iCDF 8 });
         encode_each (\<lambda>i e. ec_enc_icdf e (nat (GainsIndices ix ! i)) silk_delta_gain_iCDF 8) [1..<nb_subfr st] e }"

definition silk_encode_NLSF :: "int list \<Rightarrow> int \<Rightarrow> ec_ctx \<Rightarrow> ec_ctx option" where
  "silk_encode_NLSF icdf x e =
    (if x \<ge> 4 then do { e \<leftarrow> ec_enc_icdf e 8 icdf 8; ec_enc_icdf e (nat (x - 4)) silk_NLSF_EXT_iCDF 8 }
     else if x \<le> - 4 then do { e \<leftarrow> ec_enc_icdf e 0 icdf 8; ec_enc_icdf e (nat (- x - 4)) silk_NLSF_EXT_iCDF 8 }
     else ec_enc_icdf e (nat (x + 4)) icdf 8)"

definition silk_encode_NLSFs :: "silk_coder_state \<Rightarrow> SideInfoIndices \<Rightarrow> ec_ctx \<Rightarrow> ec_ctx option" where
  "silk_encode_NLSFs st ix e =
    (let cb = psNLSF_CB st
     in do { e \<leftarrow> ec_enc_icdf e (nat (NLSFIndices ix ! 0)) (drop (nat (signalType ix div 2) * nVectors cb) (CB1_iCDF cb)) 8;
             let (ec_ix, pred) = silk_NLSF_unpack cb (nat (NLSFIndices ix ! 0))
             in encode_each (\<lambda>i. silk_encode_NLSF (drop (ec_ix ! i) (ec_iCDF cb)) (NLSFIndices ix ! (i + 1))) [0..<CB_order cb] e })"

definition silk_encode_lag :: "silk_coder_state \<Rightarrow> SideInfoIndices \<Rightarrow> nat \<Rightarrow> ec_ctx \<Rightarrow> ec_ctx option" where
  "silk_encode_lag st ix condCoding e =
    (let delta = lagIndex ix - ec_prevLagIndex st;
         conditional = (condCoding = 2 \<and> ec_prevSignalType st = 2);
         in_range = (\<not> (delta < - 8 \<or> delta > 11));
         half = int (fs_kHz st div 2);
         high = lagIndex ix div half; low = lagIndex ix - high * half
     in do { e \<leftarrow> (if conditional then ec_enc_icdf e (nat (if in_range then delta + 9 else 0)) silk_pitch_delta_iCDF 8 else Some e);
             if conditional \<and> in_range then Some e
             else do { e \<leftarrow> ec_enc_icdf e (nat high) silk_pitch_lag_iCDF 8; ec_enc_icdf e (nat low) (pitch_lag_low_bits_iCDF st) 8 } })"

definition silk_encode_voiced :: "silk_coder_state \<Rightarrow> SideInfoIndices \<Rightarrow> nat \<Rightarrow> ec_ctx \<Rightarrow> ec_ctx option" where
  "silk_encode_voiced st ix condCoding e =
    do { e \<leftarrow> silk_encode_lag st ix condCoding e;
         e \<leftarrow> ec_enc_icdf e (nat (contourIndex ix)) (pitch_contour_iCDF st) 8;
         e \<leftarrow> ec_enc_icdf e (nat (PERIndex ix)) silk_LTP_per_index_iCDF 8;
         e \<leftarrow> encode_each (\<lambda>k e. ec_enc_icdf e (nat (LTPIndex ix ! k)) (silk_LTP_gain_iCDF_ptrs ! nat (PERIndex ix)) 8) [0..<nb_subfr st] e;
         if condCoding = 0 then ec_enc_icdf e (nat (LTP_scaleIndex ix)) silk_LTPscale_iCDF 8 else Some e }"

text \<open>The state for the next frame; nothing reads it before the end of this one.\<close>

definition silk_next_state :: "silk_coder_state \<Rightarrow> SideInfoIndices \<Rightarrow> silk_coder_state" where
  "silk_next_state st ix =
    (if signalType ix = 2 then st\<lparr>ec_prevLagIndex := lagIndex ix\<rparr> else st)\<lparr>ec_prevSignalType := signalType ix\<rparr>"

definition silk_encode_indices :: "silk_coder_state \<Rightarrow> SideInfoIndices \<Rightarrow> bool \<Rightarrow> nat \<Rightarrow> ec_ctx \<Rightarrow> (ec_ctx \<times> silk_coder_state) option" where
  "silk_encode_indices st ix encode_LBRR condCoding e =
    (let typeOffset = 2 * signalType ix + quantOffsetType ix
     in do { e \<leftarrow> (if encode_LBRR \<or> typeOffset \<ge> 2 then ec_enc_icdf e (nat (typeOffset - 2)) silk_type_offset_VAD_iCDF 8
                   else ec_enc_icdf e (nat typeOffset) silk_type_offset_no_VAD_iCDF 8);
             e \<leftarrow> silk_encode_gains st ix condCoding e;
             e \<leftarrow> silk_encode_NLSFs st ix e;
             e \<leftarrow> (if nb_subfr st = 4 then ec_enc_icdf e (nat (NLSFInterpCoef_Q2 ix)) silk_NLSF_interpolation_factor_iCDF 8 else Some e);
             e \<leftarrow> (if signalType ix = 2 then silk_encode_voiced st ix condCoding e else Some e);
             e \<leftarrow> ec_enc_icdf e (nat (Seed ix)) silk_uniform4_iCDF 8;
             Some (e, silk_next_state st ix) })"

section \<open>The decoder\<close>

text \<open>The arrays of the indices are overwritten from the front; the decoder keeps its old indices where it reads nothing.\<close>

definition overwrite :: "'a list \<Rightarrow> 'a list \<Rightarrow> 'a list" where
  "overwrite xs old = xs @ drop (length xs) old"

definition silk_decode_gains :: "silk_coder_state \<Rightarrow> nat \<Rightarrow> int \<Rightarrow> ec_ctx \<Rightarrow> (ec_ctx \<times> int list) option" where
  "silk_decode_gains st condCoding st_type d =
    do { (d, g) \<leftarrow> (if condCoding = 2 then do { (d, x) \<leftarrow> ec_dec_icdf d silk_delta_gain_iCDF 8; Some (d, int x) }
           else do { (d, x) \<leftarrow> ec_dec_icdf d (silk_gain_iCDF ! nat st_type) 8;
                     (d, y) \<leftarrow> ec_dec_icdf d silk_uniform8_iCDF 8; Some (d, int x * 2 ^ 3 + int y) });
         (d, gs) \<leftarrow> decode_each (\<lambda>i d. do { (d, x) \<leftarrow> ec_dec_icdf d silk_delta_gain_iCDF 8; Some (d, int x) }) [1..<nb_subfr st] d;
         Some (d, g # gs) }"

definition silk_decode_NLSF :: "int list \<Rightarrow> ec_ctx \<Rightarrow> (ec_ctx \<times> int) option" where
  "silk_decode_NLSF icdf d =
    do { (d, x) \<leftarrow> ec_dec_icdf d icdf 8;
         (d, x) \<leftarrow> (if x = 0 then do { (d, y) \<leftarrow> ec_dec_icdf d silk_NLSF_EXT_iCDF 8; Some (d, int x - int y) }
                else if x = 8 then do { (d, y) \<leftarrow> ec_dec_icdf d silk_NLSF_EXT_iCDF 8; Some (d, int x + int y) }
                else Some (d, int x));
         Some (d, x - 4) }"

definition silk_decode_NLSFs :: "silk_coder_state \<Rightarrow> int \<Rightarrow> ec_ctx \<Rightarrow> (ec_ctx \<times> int list) option" where
  "silk_decode_NLSFs st st_type d =
    (let cb = psNLSF_CB st
     in do { (d, x) \<leftarrow> ec_dec_icdf d (drop (nat (st_type div 2) * nVectors cb) (CB1_iCDF cb)) 8;
             let (ec_ix, pred) = silk_NLSF_unpack cb x
             in do { (d, xs) \<leftarrow> decode_each (\<lambda>i. silk_decode_NLSF (drop (ec_ix ! i) (ec_iCDF cb))) [0..<CB_order cb] d;
                     Some (d, int x # xs) } })"

definition silk_decode_lag :: "silk_coder_state \<Rightarrow> nat \<Rightarrow> ec_ctx \<Rightarrow> (ec_ctx \<times> int) option" where
  "silk_decode_lag st condCoding d =
    do { (d, delta) \<leftarrow> (if condCoding = 2 \<and> ec_prevSignalType st = 2 then ec_dec_icdf d silk_pitch_delta_iCDF 8 else Some (d, 0));
         if delta > 0 then Some (d, s16 (ec_prevLagIndex st + (int delta - 9)))
         else do { (d, high) \<leftarrow> ec_dec_icdf d silk_pitch_lag_iCDF 8;
                   (d, low) \<leftarrow> ec_dec_icdf d (pitch_lag_low_bits_iCDF st) 8;
                   Some (d, int high * int (fs_kHz st div 2) + int low) } }"

definition silk_decode_voiced :: "silk_coder_state \<Rightarrow> nat \<Rightarrow> SideInfoIndices \<Rightarrow> ec_ctx \<Rightarrow> (ec_ctx \<times> SideInfoIndices) option" where
  "silk_decode_voiced st condCoding ix d =
    do { (d, lag) \<leftarrow> silk_decode_lag st condCoding d;
         (d, contour) \<leftarrow> ec_dec_icdf d (pitch_contour_iCDF st) 8;
         (d, per) \<leftarrow> ec_dec_icdf d silk_LTP_per_index_iCDF 8;
         (d, ltp) \<leftarrow> decode_each (\<lambda>k d. do { (d, x) \<leftarrow> ec_dec_icdf d (silk_LTP_gain_iCDF_ptrs ! per) 8; Some (d, int x) }) [0..<nb_subfr st] d;
         (d, scale) \<leftarrow> (if condCoding = 0 then do { (d, x) \<leftarrow> ec_dec_icdf d silk_LTPscale_iCDF 8; Some (d, int x) } else Some (d, 0));
         Some (d, ix\<lparr>lagIndex := lag, contourIndex := int contour, PERIndex := int per, LTPIndex := overwrite ltp (LTPIndex ix), LTP_scaleIndex := scale\<rparr>) }"

definition silk_decode_indices ::
  "silk_coder_state \<Rightarrow> bool \<Rightarrow> bool \<Rightarrow> nat \<Rightarrow> SideInfoIndices \<Rightarrow> ec_ctx \<Rightarrow> (ec_ctx \<times> SideInfoIndices \<times> silk_coder_state) option" where
  "silk_decode_indices st VAD_flag decode_LBRR condCoding ix d =
    do { (d, t) \<leftarrow> (if decode_LBRR \<or> VAD_flag then do { (d, x) \<leftarrow> ec_dec_icdf d silk_type_offset_VAD_iCDF 8; Some (d, int x + 2) }
                   else do { (d, x) \<leftarrow> ec_dec_icdf d silk_type_offset_no_VAD_iCDF 8; Some (d, int x) });
         let st_type = t div 2
         in do { (d, gains) \<leftarrow> silk_decode_gains st condCoding st_type d;
                 (d, nlsfs) \<leftarrow> silk_decode_NLSFs st st_type d;
                 (d, interp) \<leftarrow> (if nb_subfr st = 4 then do { (d, x) \<leftarrow> ec_dec_icdf d silk_NLSF_interpolation_factor_iCDF 8; Some (d, int x) } else Some (d, 4));
                 let ix = ix\<lparr>signalType := st_type, quantOffsetType := t AND 1, GainsIndices := overwrite gains (GainsIndices ix),
                            NLSFIndices := overwrite nlsfs (NLSFIndices ix), NLSFInterpCoef_Q2 := interp\<rparr>
                 in do { (d, ix) \<leftarrow> (if st_type = 2 then silk_decode_voiced st condCoding ix d else Some (d, ix));
                         (d, x) \<leftarrow> ec_dec_icdf d silk_uniform4_iCDF 8;
                         Some (d, ix\<lparr>Seed := int x\<rparr>, silk_next_state st ix) } } }"

end
