(* ===== verification/Silk_Indices_Code.thy ===== *)
theory Silk_Indices_Code
  imports Silk_Indices
begin

text \<open>The side information round trip, and the decoder on any buffer.\<close>

unbundle bit_operations_syntax

section \<open>The tables\<close>

definition silk_state_ok :: "silk_coder_state \<Rightarrow> bool" where
  "silk_state_ok st \<longleftrightarrow> fs_kHz st \<in> {8, 12, 16} \<and> nb_subfr st \<in> {2, 4} \<and> silk_set_tables (fs_kHz st) st = st"

lemma index_tables_full:
  "full_table silk_type_offset_VAD_iCDF 4" "full_table silk_type_offset_no_VAD_iCDF 2" "full_table silk_NLSF_interpolation_factor_iCDF 5"
  "full_table silk_LTPscale_iCDF 3" "full_table silk_uniform4_iCDF 4" "full_table silk_uniform6_iCDF 6" "full_table silk_uniform8_iCDF 8"
  "full_table silk_NLSF_EXT_iCDF 7" "full_table silk_delta_gain_iCDF 41" "list_all (\<lambda>t. full_table t 8) silk_gain_iCDF" "length silk_gain_iCDF = 3"
  "full_table silk_pitch_lag_iCDF 32" "full_table silk_pitch_delta_iCDF 21" "full_table silk_pitch_contour_iCDF 34" "full_table silk_pitch_contour_NB_iCDF 11"
  "full_table silk_pitch_contour_10_ms_iCDF 12" "full_table silk_pitch_contour_10_ms_NB_iCDF 3" "full_table silk_LTP_per_index_iCDF 3"
  "list_all (\<lambda>k. full_table (silk_LTP_gain_iCDF_ptrs ! k) (8 * 2 ^ k)) [0..<3]"
  by code_simp+

text \<open>A codebook: two distributions of its vectors, and the tables of the residuals, of which each vector selects one for each coefficient.\<close>

definition codebook_ok :: "silk_NLSF_CB_struct \<Rightarrow> bool" where
  "codebook_ok cb \<longleftrightarrow> nVectors cb = 32 \<and> even (CB_order cb) \<and> list_all (\<lambda>t. full_table (drop (t * 32) (CB1_iCDF cb)) 32) [0..<2] \<and>
     list_all (\<lambda>k. full_table (drop (k * 9) (ec_iCDF cb)) 9) [0..<8]"

lemma codebooks_ok: "codebook_ok silk_NLSF_CB_NB_MB" "codebook_ok silk_NLSF_CB_WB"
  by code_simp+

lemma and_7: "(x AND 7) = (x :: int) mod 8"
  using take_bit_eq_mask [of 3 x] by (simp add: take_bit_eq_mod mask_eq_exp_minus_1)

lemma unpack_tables:
  assumes "even (CB_order cb)"
  shows "length (fst (silk_NLSF_unpack cb i)) = CB_order cb" "k \<in> set (fst (silk_NLSF_unpack cb i)) \<Longrightarrow> \<exists>m < 8. k = m * 9"
proof -
  have l: "length (concat (map (\<lambda>x. [f x, g x]) xs)) = 2 * length xs" for f g :: "nat \<Rightarrow> nat" and xs by (induction xs) simp_all
  show "length (fst (silk_NLSF_unpack cb i)) = CB_order cb" using assms by (simp add: silk_NLSF_unpack_def Let_def comp_def l)
  have m: "\<exists>m < 8. nat ((y AND 7) * 9) = m * 9" for y :: int
    unfolding and_7 by (rule exI [of _ "nat (y mod 8)"]) (simp add: nat_less_iff nat_mult_distrib)
  show "k \<in> set (fst (silk_NLSF_unpack cb i)) \<Longrightarrow> \<exists>m < 8. k = m * 9" unfolding silk_NLSF_unpack_def Let_def by (auto intro: m)
qed

lemma codebook_tables:
  assumes "codebook_ok cb"
  shows "t < 2 \<Longrightarrow> full_table (drop (t * nVectors cb) (CB1_iCDF cb)) 32"
    "j < CB_order cb \<Longrightarrow> full_table (drop (fst (silk_NLSF_unpack cb i) ! j) (ec_iCDF cb)) 9"
proof -
  have c: "nVectors cb = 32" "even (CB_order cb)" "\<And>t. t < 2 \<Longrightarrow> full_table (drop (t * 32) (CB1_iCDF cb)) 32" "\<And>k. k < 8 \<Longrightarrow> full_table (drop (k * 9) (ec_iCDF cb)) 9"
    using assms by (simp_all add: codebook_ok_def list_all_iff)
  show "t < 2 \<Longrightarrow> full_table (drop (t * nVectors cb) (CB1_iCDF cb)) 32" using c(1,3) by simp
  show "j < CB_order cb \<Longrightarrow> full_table (drop (fst (silk_NLSF_unpack cb i) ! j) (ec_iCDF cb)) 9"
    using unpack_tables(2) [OF c(2), of _ i] nth_mem [of j "fst (silk_NLSF_unpack cb i)"] unpack_tables(1) [OF c(2)] c(4) by fastforce
qed

definition contour_size :: "silk_coder_state \<Rightarrow> nat" where
  "contour_size st = (if fs_kHz st = 8 then if nb_subfr st = 4 then 11 else 3 else if nb_subfr st = 4 then 34 else 12)"

lemma state_tables:
  assumes "silk_state_ok st"
  shows "codebook_ok (psNLSF_CB st)" "full_table (pitch_lag_low_bits_iCDF st) (fs_kHz st div 2)" "full_table (pitch_contour_iCDF st) (contour_size st)"
    "fs_kHz st \<in> {8, 12, 16}" "nb_subfr st \<in> {2, 4}"
proof -
  have a: "fs_kHz st \<in> {8, 12, 16}" "nb_subfr st \<in> {2, 4}" "silk_set_tables (fs_kHz st) st = st" using assms by (simp_all add: silk_state_ok_def)
  then show "fs_kHz st \<in> {8, 12, 16}" "nb_subfr st \<in> {2, 4}" by simp_all
  have "psNLSF_CB st = psNLSF_CB (silk_set_tables (fs_kHz st) st)" "pitch_lag_low_bits_iCDF st = pitch_lag_low_bits_iCDF (silk_set_tables (fs_kHz st) st)"
    "pitch_contour_iCDF st = pitch_contour_iCDF (silk_set_tables (fs_kHz st) st)" using a(3) by simp_all
  then show "codebook_ok (psNLSF_CB st)" "full_table (pitch_lag_low_bits_iCDF st) (fs_kHz st div 2)" "full_table (pitch_contour_iCDF st) (contour_size st)"
    using a(1,2) codebooks_ok index_tables_full by (auto simp: silk_set_tables_def contour_size_def)
qed

section \<open>The parts\<close>

lemma codes_if:
  assumes "b \<Longrightarrow> codes enc dec v" "\<not> b \<Longrightarrow> codes enc' dec' v"
  shows "codes (\<lambda>e. if b then enc e else enc' e) (\<lambda>d. if b then dec d else dec' d) v"
  using assms by (cases b) simp_all

lemma codes_int:
  assumes "full_table icdf n" "0 \<le> x" "nat x < n"
  shows "codes (\<lambda>e. ec_enc_icdf e (nat x) icdf 8) (\<lambda>d. do { (d, s) \<leftarrow> ec_dec_icdf d icdf 8; Some (d, int s) }) x"
  by (rule codes_then [OF codes_full [OF assms(1,3)]]) (use assms(2) in simp)

lemma codes_ints:
  assumes "full_table icdf n" "\<And>i. i \<in> set js \<Longrightarrow> 0 \<le> xs ! i \<and> nat (xs ! i) < n"
  shows "codes (encode_each (\<lambda>i e. ec_enc_icdf e (nat (xs ! i)) icdf 8) js) (decode_each (\<lambda>i d. do { (d, s) \<leftarrow> ec_dec_icdf d icdf 8; Some (d, int s) }) js)
    (map (\<lambda>i. xs ! i) js)"
  by (rule codes_each, rule list_all2I) (use assms(2) in \<open>auto simp: zip_same intro!: codes_int [OF assms(1)]\<close>)

definition valid_gains :: "silk_coder_state \<Rightarrow> nat \<Rightarrow> SideInfoIndices \<Rightarrow> bool" where
  "valid_gains st condCoding ix \<longleftrightarrow> nb_subfr st \<le> length (GainsIndices ix) \<and>
     0 \<le> GainsIndices ix ! 0 \<and> GainsIndices ix ! 0 < (if condCoding = 2 then 41 else 64) \<and>
     list_all (\<lambda>i. 0 \<le> GainsIndices ix ! i \<and> GainsIndices ix ! i < 41) [1..<nb_subfr st]"

lemma gain_parts: "(x :: int) div 2 ^ 3 * 2 ^ 3 + (x AND 7) = x" "0 \<le> x AND 7" "x AND 7 < 8"
proof -
  show "x div 2 ^ 3 * 2 ^ 3 + (x AND 7) = x" "0 \<le> x AND 7" "x AND 7 < 8" by (simp_all add: and_7)
qed

lemma codes_gains:
  assumes "valid_gains st condCoding ix" "signalType ix \<in> {0, 1, 2}" "0 < nb_subfr st"
  shows "codes (silk_encode_gains st ix condCoding) (silk_decode_gains st condCoding (signalType ix)) (take (nb_subfr st) (GainsIndices ix))"
proof -
  define g where "g = GainsIndices ix ! 0"
  have v: "0 \<le> g" "g < (if condCoding = 2 then 41 else 64)" "nb_subfr st \<le> length (GainsIndices ix)"
    "\<And>i. i \<in> set [1..<nb_subfr st] \<Longrightarrow> 0 \<le> GainsIndices ix ! i \<and> nat (GainsIndices ix ! i) < 41"
    using assms(1) by (auto simp: valid_gains_def g_def list_all_iff nat_less_iff)
  have gt: "full_table (silk_gain_iCDF ! nat (signalType ix)) 8" using assms(2) index_tables_full(10,11) by (auto simp: list_all_length)
  have first: "codes (\<lambda>e. if condCoding = 2 then ec_enc_icdf e (nat g) silk_delta_gain_iCDF 8
       else do { e \<leftarrow> ec_enc_icdf e (nat (g div 2 ^ 3)) (silk_gain_iCDF ! nat (signalType ix)) 8; ec_enc_icdf e (nat (g AND 7)) silk_uniform8_iCDF 8 })
     (\<lambda>d. if condCoding = 2 then do { (d, x) \<leftarrow> ec_dec_icdf d silk_delta_gain_iCDF 8; Some (d, int x) }
           else do { (d, x) \<leftarrow> ec_dec_icdf d (silk_gain_iCDF ! nat (signalType ix)) 8;
                     (d, y) \<leftarrow> ec_dec_icdf d silk_uniform8_iCDF 8; Some (d, int x * 2 ^ 3 + int y) }) g"
  proof (rule codes_if)
    assume "condCoding = 2"
    then show "codes (\<lambda>e. ec_enc_icdf e (nat g) silk_delta_gain_iCDF 8) (\<lambda>d. do { (d, x) \<leftarrow> ec_dec_icdf d silk_delta_gain_iCDF 8; Some (d, int x) }) g"
      using v(1,2) by (intro codes_int [OF index_tables_full(9)]) auto
  next
    assume "condCoding \<noteq> 2"
    then have lt: "nat (g div 2 ^ 3) < 8" using v(1,2) by (simp add: nat_less_iff)
    have "int (nat (g div 2 ^ 3)) * 2 ^ 3 + int (nat (g AND 7)) = g" using gain_parts [of g] v(1) by (simp add: pos_imp_zdiv_nonneg_iff)
    then show "codes (\<lambda>e. do { e \<leftarrow> ec_enc_icdf e (nat (g div 2 ^ 3)) (silk_gain_iCDF ! nat (signalType ix)) 8; ec_enc_icdf e (nat (g AND 7)) silk_uniform8_iCDF 8 })
      (\<lambda>d. do { (d, x) \<leftarrow> ec_dec_icdf d (silk_gain_iCDF ! nat (signalType ix)) 8; (d, y) \<leftarrow> ec_dec_icdf d silk_uniform8_iCDF 8; Some (d, int x * 2 ^ 3 + int y) }) g"
      using gain_parts [of g] by (intro codes_bind [OF codes_full [OF gt lt]] codes_then [OF codes_full [OF index_tables_full(7)]]) auto
  qed
  have rest: "codes (encode_each (\<lambda>i e. ec_enc_icdf e (nat (GainsIndices ix ! i)) silk_delta_gain_iCDF 8) [1..<nb_subfr st])
    (\<lambda>d. do { (d, gs) \<leftarrow> decode_each (\<lambda>i d. do { (d, x) \<leftarrow> ec_dec_icdf d silk_delta_gain_iCDF 8; Some (d, int x) }) [1..<nb_subfr st] d; Some (d, g # gs) })
    (take (nb_subfr st) (GainsIndices ix))"
  proof (rule codes_then [OF codes_ints [OF index_tables_full(9) v(4)]])
    have "g # map ((!) (GainsIndices ix)) [1..<nb_subfr st] = map ((!) (GainsIndices ix)) [0..<nb_subfr st]" using assms(3) by (simp add: g_def upt_conv_Cons)
    also have "\<dots> = take (nb_subfr st) (GainsIndices ix)" using v(3) by (intro nth_equalityI) simp_all
    finally show "Some (d, g # map ((!) (GainsIndices ix)) [1..<nb_subfr st]) = Some (d, take (nb_subfr st) (GainsIndices ix))" for d :: ec_ctx by simp
  qed
  show ?thesis unfolding silk_encode_gains_def [abs_def] silk_decode_gains_def [abs_def] g_def [symmetric]
    by (rule codes_bind [OF first], rule rest)
qed

lemma codes_NLSF:
  assumes "full_table icdf 9" "- 10 \<le> x" "x \<le> 10"
  shows "codes (silk_encode_NLSF icdf x) (silk_decode_NLSF icdf) x"
proof -
  have ext: "codes (\<lambda>e. ec_enc_icdf e (nat y) silk_NLSF_EXT_iCDF 8) (\<lambda>d. do { (d, y) \<leftarrow> ec_dec_icdf d silk_NLSF_EXT_iCDF 8; Some (d, f (int y)) }) (f y)"
    if "0 \<le> y" "y \<le> 6" for y and f :: "int \<Rightarrow> int"
    by (rule codes_then [OF codes_full [OF index_tables_full(8)]]) (use that in auto)
  consider "x \<ge> 4" | "x \<le> - 4" | "- 4 < x" "x < 4" by linarith
  then show ?thesis
  proof cases
    case 1
    have e: "silk_encode_NLSF icdf x = (\<lambda>e. do { e \<leftarrow> ec_enc_icdf e 8 icdf 8; ec_enc_icdf e (nat (x - 4)) silk_NLSF_EXT_iCDF 8 })"
      using 1 by (simp add: silk_encode_NLSF_def fun_eq_iff)
    show ?thesis unfolding e silk_decode_NLSF_def [abs_def]
      by (rule codes_bind [OF codes_full [OF assms(1)]]) (use ext [of "x - 4" "\<lambda>y. 8 + y"] assms(3) 1 codes_then [OF ext [of "x - 4" "\<lambda>y. 8 + y"], of "\<lambda>d x. Some (d, x - 4)" x] in simp_all)
  next
    case 2
    have e: "silk_encode_NLSF icdf x = (\<lambda>e. do { e \<leftarrow> ec_enc_icdf e 0 icdf 8; ec_enc_icdf e (nat (- x - 4)) silk_NLSF_EXT_iCDF 8 })"
      using 2 by (simp add: silk_encode_NLSF_def fun_eq_iff)
    show ?thesis unfolding e silk_decode_NLSF_def [abs_def]
      by (rule codes_bind [OF codes_full [OF assms(1)]]) (use assms(2) 2 codes_then [OF ext [of "- x - 4" "\<lambda>y. - y"], of "\<lambda>d x. Some (d, x - 4)" x] in simp_all)
  next
    case 3
    have e: "silk_encode_NLSF icdf x = (\<lambda>e. ec_enc_icdf e (nat (x + 4)) icdf 8)" using 3 by (simp add: silk_encode_NLSF_def fun_eq_iff)
    show ?thesis unfolding e silk_decode_NLSF_def [abs_def]
      by (rule codes_then [OF codes_full [OF assms(1)]]) (use 3 in auto)
  qed
qed

definition valid_NLSFs :: "silk_coder_state \<Rightarrow> SideInfoIndices \<Rightarrow> bool" where
  "valid_NLSFs st ix \<longleftrightarrow> CB_order (psNLSF_CB st) + 1 \<le> length (NLSFIndices ix) \<and> 0 \<le> NLSFIndices ix ! 0 \<and> NLSFIndices ix ! 0 < 32 \<and>
     list_all (\<lambda>i. - 10 \<le> NLSFIndices ix ! (i + 1) \<and> NLSFIndices ix ! (i + 1) \<le> 10) [0..<CB_order (psNLSF_CB st)]"

lemma codes_NLSFs:
  assumes "valid_NLSFs st ix" "silk_state_ok st" "signalType ix \<in> {0, 1, 2}"
  shows "codes (silk_encode_NLSFs st ix) (silk_decode_NLSFs st (signalType ix)) (take (CB_order (psNLSF_CB st) + 1) (NLSFIndices ix))"
proof -
  define cb where "cb = psNLSF_CB st"
  define x where "x = NLSFIndices ix ! 0"
  note cb = codebook_tables [OF state_tables(1) [OF assms(2)], folded cb_def]
  have v: "0 \<le> x" "x < 32" "CB_order cb + 1 \<le> length (NLSFIndices ix)"
    "\<And>i. i < CB_order cb \<Longrightarrow> - 10 \<le> NLSFIndices ix ! (i + 1) \<and> NLSFIndices ix ! (i + 1) \<le> 10"
    using assms(1) by (auto simp: valid_NLSFs_def cb_def x_def list_all_iff)
  have t: "full_table (drop (nat (signalType ix div 2) * nVectors cb) (CB1_iCDF cb)) 32" by (rule cb(1)) (use assms(3) in auto)
  have rest: "codes (encode_each (\<lambda>i. silk_encode_NLSF (drop (fst (silk_NLSF_unpack cb (nat x)) ! i) (ec_iCDF cb)) (NLSFIndices ix ! (i + 1))) [0..<CB_order cb])
    (\<lambda>d. do { (d, xs) \<leftarrow> decode_each (\<lambda>i. silk_decode_NLSF (drop (fst (silk_NLSF_unpack cb (nat x)) ! i) (ec_iCDF cb))) [0..<CB_order cb] d; Some (d, int (nat x) # xs) })
    (take (CB_order cb + 1) (NLSFIndices ix))"
  proof (rule codes_then, rule codes_each, rule list_all2I)
    show "\<forall>(i, j) \<in> set (zip [0..<CB_order cb] [0..<CB_order cb]). codes (silk_encode_NLSF (drop (fst (silk_NLSF_unpack cb (nat x)) ! i) (ec_iCDF cb)) (NLSFIndices ix ! (i + 1)))
      (silk_decode_NLSF (drop (fst (silk_NLSF_unpack cb (nat x)) ! j) (ec_iCDF cb))) (NLSFIndices ix ! (i + 1))"
      using cb(2) v(4) by (auto simp: zip_same intro!: codes_NLSF)
    have "int (nat x) # map (\<lambda>i. NLSFIndices ix ! (i + 1)) [0..<CB_order cb] = map ((!) (NLSFIndices ix)) [0..<CB_order cb + 1]"
      using v(1) by (simp add: x_def upt_conv_Cons map_Suc_upt [symmetric] del: upt_Suc)
    also have "\<dots> = take (CB_order cb + 1) (NLSFIndices ix)" using v(3) by (intro nth_equalityI) (simp_all del: upt_Suc)
    finally show "Some (d, int (nat x) # map (\<lambda>i. NLSFIndices ix ! (i + 1)) [0..<CB_order cb]) = Some (d, take (CB_order cb + 1) (NLSFIndices ix))" for d :: ec_ctx by simp
  qed simp
  show ?thesis unfolding silk_encode_NLSFs_def [abs_def] silk_decode_NLSFs_def [abs_def] Let_def cb_def [symmetric] x_def [symmetric] case_prod_unfold
    by (rule codes_bind [OF codes_full [OF t], unfolded case_prod_unfold]) (use v rest in \<open>simp_all add: nat_less_iff case_prod_unfold\<close>)
qed

lemma codes_lag:
  assumes "silk_state_ok st" "0 \<le> lagIndex ix" "lagIndex ix < 32 * int (fs_kHz st div 2)"
  shows "codes (silk_encode_lag st ix condCoding) (silk_decode_lag st condCoding) (lagIndex ix)"
proof -
  define half where "half = int (fs_kHz st div 2)"
  define high low where "high = lagIndex ix div half" and "low = lagIndex ix - high * half"
  define delta where "delta = lagIndex ix - ec_prevLagIndex st"
  have half: "0 < half" "nat half = fs_kHz st div 2" "half \<le> 8" using state_tables(4) [OF assms(1)] by (auto simp: half_def)
  have hl: "0 \<le> high" "high < 32" "0 \<le> low" "low < half" "high * half + low = lagIndex ix"
  proof -
    show "0 \<le> high" using assms(2) half(1) by (simp add: high_def pos_imp_zdiv_nonneg_iff)
    have "low = lagIndex ix mod half" by (simp add: low_def high_def minus_div_mult_eq_mod)
    then show l: "0 \<le> low" "low < half" using half(1) by simp_all
    then have "high * half < 32 * half" using assms(3) unfolding low_def half_def by linarith
    then show "high < 32" using half(1) by simp
    show "high * half + low = lagIndex ix" by (simp add: low_def)
  qed
  have lag: "s16 (lagIndex ix) = lagIndex ix" using assms(2,3) half(3) unfolding half_def [symmetric] by (intro s16_id) simp_all
  have lt: "nat high < 32" "nat low < fs_kHz st div 2" using hl(2,4) half by auto
  have abs: "codes (\<lambda>e. do { e \<leftarrow> ec_enc_icdf e (nat high) silk_pitch_lag_iCDF 8; ec_enc_icdf e (nat low) (pitch_lag_low_bits_iCDF st) 8 })
    (\<lambda>d. do { (d, high) \<leftarrow> ec_dec_icdf d silk_pitch_lag_iCDF 8; (d, low) \<leftarrow> ec_dec_icdf d (pitch_lag_low_bits_iCDF st) 8; Some (d, int high * half + int low) }) (lagIndex ix)"
    by (rule codes_bind [OF codes_full [OF index_tables_full(12) lt(1)]], rule codes_then [OF codes_full [OF state_tables(2) [OF assms(1)] lt(2)]])
      (use hl in simp)
  consider "condCoding = 2 \<and> ec_prevSignalType st = 2" "- 8 \<le> delta" "delta \<le> 11" | "condCoding = 2 \<and> ec_prevSignalType st = 2" "delta < - 8 \<or> delta > 11"
    | "\<not> (condCoding = 2 \<and> ec_prevSignalType st = 2)" by linarith
  then show ?thesis
  proof cases
    case 1
    have e: "silk_encode_lag st ix condCoding = (\<lambda>e. ec_enc_icdf e (nat (delta + 9)) silk_pitch_delta_iCDF 8)"
      using 1 by (simp add: silk_encode_lag_def delta_def fun_eq_iff)
    have "nat (delta + 9) < 21" using 1 by simp
    note c = codes_full [OF index_tables_full(13) this]
    show ?thesis unfolding e silk_decode_lag_def [abs_def] if_P [OF 1(1)] by (rule codes_then [OF c]) (use 1 lag in \<open>simp add: delta_def\<close>)
  next
    case 2
    have e: "silk_encode_lag st ix condCoding =
      (\<lambda>e. do { e \<leftarrow> ec_enc_icdf e 0 silk_pitch_delta_iCDF 8; e \<leftarrow> ec_enc_icdf e (nat high) silk_pitch_lag_iCDF 8; ec_enc_icdf e (nat low) (pitch_lag_low_bits_iCDF st) 8 })"
      using 2 by (auto simp: silk_encode_lag_def delta_def high_def low_def half_def Let_def fun_eq_iff)
    show ?thesis unfolding e silk_decode_lag_def [abs_def] if_P [OF 2(1)]
      by (rule codes_bind [OF codes_full [OF index_tables_full(13)]]) (use abs in \<open>simp_all add: half_def\<close>)
  next
    case 3
    have e: "silk_encode_lag st ix condCoding =
      (\<lambda>e. do { e \<leftarrow> ec_enc_icdf e (nat high) silk_pitch_lag_iCDF 8; ec_enc_icdf e (nat low) (pitch_lag_low_bits_iCDF st) 8 })"
      using 3 by (auto simp: silk_encode_lag_def delta_def high_def low_def half_def Let_def fun_eq_iff)
    show ?thesis unfolding e silk_decode_lag_def [abs_def] if_not_P [OF 3] using abs by (simp add: half_def)
  qed
qed

definition valid_voiced :: "silk_coder_state \<Rightarrow> nat \<Rightarrow> SideInfoIndices \<Rightarrow> bool" where
  "valid_voiced st condCoding ix \<longleftrightarrow> 0 \<le> lagIndex ix \<and> lagIndex ix < 32 * int (fs_kHz st div 2) \<and>
     0 \<le> contourIndex ix \<and> contourIndex ix < int (contour_size st) \<and> 0 \<le> PERIndex ix \<and> PERIndex ix < 3 \<and>
     nb_subfr st \<le> length (LTPIndex ix) \<and> list_all (\<lambda>k. 0 \<le> LTPIndex ix ! k \<and> LTPIndex ix ! k < 8 * 2 ^ nat (PERIndex ix)) [0..<nb_subfr st] \<and>
     (condCoding = 0 \<longrightarrow> 0 \<le> LTP_scaleIndex ix \<and> LTP_scaleIndex ix < 3)"

text \<open>The fields of a voiced frame as the decoder fills them in.\<close>

definition voiced_fields :: "silk_coder_state \<Rightarrow> nat \<Rightarrow> SideInfoIndices \<Rightarrow> SideInfoIndices \<Rightarrow> SideInfoIndices" where
  "voiced_fields st condCoding ix old =
    old\<lparr>lagIndex := lagIndex ix, contourIndex := contourIndex ix, PERIndex := PERIndex ix,
        LTPIndex := overwrite (take (nb_subfr st) (LTPIndex ix)) (LTPIndex old), LTP_scaleIndex := (if condCoding = 0 then LTP_scaleIndex ix else 0)\<rparr>"

lemma codes_voiced:
  assumes "silk_state_ok st" "valid_voiced st condCoding ix"
  shows "codes (silk_encode_voiced st ix condCoding) (silk_decode_voiced st condCoding old) (voiced_fields st condCoding ix old)"
proof -
  have v: "0 \<le> lagIndex ix" "lagIndex ix < 32 * int (fs_kHz st div 2)" "0 \<le> contourIndex ix" "nat (contourIndex ix) < contour_size st"
    "0 \<le> PERIndex ix" "nat (PERIndex ix) < 3" "nb_subfr st \<le> length (LTPIndex ix)" "condCoding = 0 \<Longrightarrow> 0 \<le> LTP_scaleIndex ix \<and> LTP_scaleIndex ix < 3"
    "\<And>k. k \<in> set [0..<nb_subfr st] \<Longrightarrow> 0 \<le> LTPIndex ix ! k \<and> nat (LTPIndex ix ! k) < 8 * 2 ^ nat (PERIndex ix)"
    using assms(2) by (auto simp: valid_voiced_def list_all_iff nat_less_iff)
  have ltp: "full_table (silk_LTP_gain_iCDF_ptrs ! nat (PERIndex ix)) (8 * 2 ^ nat (PERIndex ix))" using index_tables_full(19) v(6) by (simp add: list_all_iff)
  have take: "map (\<lambda>i. LTPIndex ix ! i) [0..<nb_subfr st] = take (nb_subfr st) (LTPIndex ix)" using v(7) by (intro nth_equalityI) simp_all
  have scale: "codes (\<lambda>e. if condCoding = 0 then ec_enc_icdf e (nat (LTP_scaleIndex ix)) silk_LTPscale_iCDF 8 else Some e)
    (\<lambda>d. if condCoding = 0 then do { (d, x) \<leftarrow> ec_dec_icdf d silk_LTPscale_iCDF 8; Some (d, int x) } else Some (d, 0)) (if condCoding = 0 then LTP_scaleIndex ix else 0)"
    by (rule codes_if) (use v(8) in \<open>auto intro!: codes_int [OF index_tables_full(4)] codes_return\<close>)
  show ?thesis unfolding silk_encode_voiced_def [abs_def] silk_decode_voiced_def [abs_def]
    by (rule codes_bind [OF codes_lag [OF assms(1) v(1,2)]], rule codes_bind [OF codes_full [OF state_tables(3) [OF assms(1)] v(4)]],
        rule codes_bind [OF codes_full [OF index_tables_full(18) v(6)]], rule codes_bind [OF codes_ints [OF ltp v(9)]], assumption,
        rule codes_then [OF scale]) (use v(3,5) take in \<open>simp add: voiced_fields_def\<close>)
qed

section \<open>The whole\<close>

definition valid_indices :: "silk_coder_state \<Rightarrow> nat \<Rightarrow> SideInfoIndices \<Rightarrow> bool" where
  "valid_indices st condCoding ix \<longleftrightarrow> signalType ix \<in> {0, 1, 2} \<and> quantOffsetType ix \<in> {0, 1} \<and> valid_gains st condCoding ix \<and> valid_NLSFs st ix \<and>
     (nb_subfr st = 4 \<longrightarrow> 0 \<le> NLSFInterpCoef_Q2 ix \<and> NLSFInterpCoef_Q2 ix < 5) \<and>
     (signalType ix = 2 \<longrightarrow> valid_voiced st condCoding ix) \<and> 0 \<le> Seed ix \<and> Seed ix < 4"

text \<open>The indices the decoder ends with, when it had \<open>old\<close> before: those coded, the others unchanged.\<close>

definition received_indices :: "silk_coder_state \<Rightarrow> nat \<Rightarrow> SideInfoIndices \<Rightarrow> SideInfoIndices \<Rightarrow> SideInfoIndices" where
  "received_indices st condCoding ix old =
    (let new = old\<lparr>signalType := signalType ix, quantOffsetType := quantOffsetType ix,
         GainsIndices := overwrite (take (nb_subfr st) (GainsIndices ix)) (GainsIndices old),
         NLSFIndices := overwrite (take (CB_order (psNLSF_CB st) + 1) (NLSFIndices ix)) (NLSFIndices old),
         NLSFInterpCoef_Q2 := (if nb_subfr st = 4 then NLSFInterpCoef_Q2 ix else 4)\<rparr>
     in (if signalType ix = 2 then voiced_fields st condCoding ix new else new)\<lparr>Seed := Seed ix\<rparr>)"

lemma codes_indices:
  assumes "silk_state_ok st" "valid_indices st condCoding ix" and flag: "lbrr \<or> vad \<longleftrightarrow> lbrr \<or> 1 \<le> signalType ix" "lbrr \<Longrightarrow> 1 \<le> signalType ix"
  shows "codes (\<lambda>e. map_option fst (silk_encode_indices st ix lbrr condCoding e)) (silk_decode_indices st vad lbrr condCoding old)
    (received_indices st condCoding ix old, silk_next_state st ix)"
proof -
  define t where "t = 2 * signalType ix + quantOffsetType ix"
  have v: "signalType ix \<in> {0, 1, 2}" "quantOffsetType ix \<in> {0, 1}" "valid_gains st condCoding ix" "valid_NLSFs st ix"
    "nb_subfr st = 4 \<Longrightarrow> 0 \<le> NLSFInterpCoef_Q2 ix \<and> NLSFInterpCoef_Q2 ix < 5" "signalType ix = 2 \<Longrightarrow> valid_voiced st condCoding ix" "0 \<le> Seed ix" "nat (Seed ix) < 4"
    using assms(2) by (auto simp: valid_indices_def)
  have t: "t div 2 = signalType ix" "t AND 1 = quantOffsetType ix" "2 \<le> t \<longleftrightarrow> 1 \<le> signalType ix" "0 \<le> t" "t < 6"
    using v(1,2) by (auto simp: t_def and_one_eq)
  have nb: "0 < nb_subfr st" using state_tables(5) [OF assms(1)] by auto
  have type: "codes (\<lambda>e. if lbrr \<or> t \<ge> 2 then ec_enc_icdf e (nat (t - 2)) silk_type_offset_VAD_iCDF 8 else ec_enc_icdf e (nat t) silk_type_offset_no_VAD_iCDF 8)
    (\<lambda>d. if lbrr \<or> vad then do { (d, x) \<leftarrow> ec_dec_icdf d silk_type_offset_VAD_iCDF 8; Some (d, int x + 2) }
         else do { (d, x) \<leftarrow> ec_dec_icdf d silk_type_offset_no_VAD_iCDF 8; Some (d, int x) }) t"
    unfolding flag(1) t(3)
  proof (rule codes_if)
    assume "lbrr \<or> 1 \<le> signalType ix"
    then have "2 \<le> t" using flag(2) t(3) by blast
    then show "codes (\<lambda>e. ec_enc_icdf e (nat (t - 2)) silk_type_offset_VAD_iCDF 8) (\<lambda>d. do { (d, x) \<leftarrow> ec_dec_icdf d silk_type_offset_VAD_iCDF 8; Some (d, int x + 2) }) t"
      using t(5) by (intro codes_then [OF codes_full [OF index_tables_full(1)]]) auto
  next
    assume "\<not> (lbrr \<or> 1 \<le> signalType ix)"
    then show "codes (\<lambda>e. ec_enc_icdf e (nat t) silk_type_offset_no_VAD_iCDF 8) (\<lambda>d. do { (d, x) \<leftarrow> ec_dec_icdf d silk_type_offset_no_VAD_iCDF 8; Some (d, int x) }) t"
      using t(3,4) by (intro codes_int [OF index_tables_full(2)]) auto
  qed
  have interp: "codes (\<lambda>e. if nb_subfr st = 4 then ec_enc_icdf e (nat (NLSFInterpCoef_Q2 ix)) silk_NLSF_interpolation_factor_iCDF 8 else Some e)
    (\<lambda>d. if nb_subfr st = 4 then do { (d, x) \<leftarrow> ec_dec_icdf d silk_NLSF_interpolation_factor_iCDF 8; Some (d, int x) } else Some (d, 4))
    (if nb_subfr st = 4 then NLSFInterpCoef_Q2 ix else 4)"
    by (rule codes_if) (use v(5) in \<open>auto intro!: codes_int [OF index_tables_full(3)] codes_return\<close>)
  have voiced: "codes (\<lambda>e. if signalType ix = 2 then silk_encode_voiced st ix condCoding e else Some e)
    (\<lambda>d. if signalType ix = 2 then silk_decode_voiced st condCoding new d else Some (d, new)) (if signalType ix = 2 then voiced_fields st condCoding ix new else new)" for new
    by (rule codes_if) (use codes_voiced [OF assms(1) v(6)] codes_return in auto)
  have enc: "map_option fst (silk_encode_indices st ix lbrr condCoding e) =
     do { e \<leftarrow> (if lbrr \<or> t \<ge> 2 then ec_enc_icdf e (nat (t - 2)) silk_type_offset_VAD_iCDF 8 else ec_enc_icdf e (nat t) silk_type_offset_no_VAD_iCDF 8);
          e \<leftarrow> silk_encode_gains st ix condCoding e;
          e \<leftarrow> silk_encode_NLSFs st ix e;
          e \<leftarrow> (if nb_subfr st = 4 then ec_enc_icdf e (nat (NLSFInterpCoef_Q2 ix)) silk_NLSF_interpolation_factor_iCDF 8 else Some e);
          e \<leftarrow> (if signalType ix = 2 then silk_encode_voiced st ix condCoding e else Some e);
          ec_enc_icdf e (nat (Seed ix)) silk_uniform4_iCDF 8 }" for e
    unfolding silk_encode_indices_def Let_def t_def [symmetric] by (simp add: map_option_bind comp_def)
  show ?thesis unfolding enc silk_decode_indices_def [abs_def] Let_def
    by (rule codes_bind [OF type], unfold t(1,2), rule codes_bind [OF codes_gains [OF v(3,1) nb]], rule codes_bind [OF codes_NLSFs [OF v(4) assms(1) v(1)]],
        rule codes_bind [OF interp], rule codes_bind [OF voiced], rule codes_then [OF codes_full [OF index_tables_full(5) v(8)]])
      (use v(7) in \<open>simp add: received_indices_def voiced_fields_def silk_next_state_def Let_def\<close>)
qed

end
