(* ===== verification/Silk_Indices_Safe.thy ===== *)
theory Silk_Indices_Safe
  imports Silk_Indices_Code
begin

text \<open>
  The decoder of the side information on any buffer: it returns, and every index it returns is one its codebook has. Only the pitch lag can
  leave its range, through the differences a corrupt stream adds up; the code clamps the lags computed from it.
\<close>

unbundle bit_operations_syntax

lemma answers_if:
  assumes "b \<Longrightarrow> answers dec P" "\<not> b \<Longrightarrow> answers dec' P"
  shows "answers (\<lambda>d. if b then dec d else dec' d) P"
  using assms by (cases b) simp_all

lemma answers_int: "full_table icdf n \<Longrightarrow> answers (\<lambda>d. do { (d, s) \<leftarrow> ec_dec_icdf d icdf 8; Some (d, int s) }) (\<lambda>x. 0 \<le> x \<and> x < int n)"
  by (erule answers_bind [OF answers_full]) (simp add: answers_return)

lemma answers_ints:
  assumes "full_table icdf n"
  shows "answers (decode_each (\<lambda>i d. do { (d, s) \<leftarrow> ec_dec_icdf d icdf 8; Some (d, int s) }) js) (\<lambda>xs. length xs = length js \<and> list_all (\<lambda>x. 0 \<le> x \<and> x < int n) xs)"
  by (rule answers_mono [OF answers_each [OF answers_int [OF assms]]]) (auto simp: list_all2_conv_all_nth list_all_length)

lemma answers_gains:
  assumes "st_type \<in> {0, 1, 2}"
  shows "answers (silk_decode_gains st condCoding st_type) (\<lambda>gs. \<exists>g hs. gs = g # hs \<and> 0 \<le> g \<and> g < (if condCoding = 2 then 41 else 64) \<and>
    length hs = nb_subfr st - 1 \<and> list_all (\<lambda>x. 0 \<le> x \<and> x < 41) hs)"
proof -
  have gt: "full_table (silk_gain_iCDF ! nat st_type) 8" using assms index_tables_full(10,11) by (auto simp: list_all_length)
  have first: "answers (\<lambda>d. if condCoding = 2 then do { (d, x) \<leftarrow> ec_dec_icdf d silk_delta_gain_iCDF 8; Some (d, int x) }
           else do { (d, x) \<leftarrow> ec_dec_icdf d (silk_gain_iCDF ! nat st_type) 8;
                     (d, y) \<leftarrow> ec_dec_icdf d silk_uniform8_iCDF 8; Some (d, int x * 2 ^ 3 + int y) }) (\<lambda>g. 0 \<le> g \<and> g < (if condCoding = 2 then 41 else 64))"
  proof (rule answers_if)
    assume "condCoding = 2"
    then show "answers (\<lambda>d. do { (d, x) \<leftarrow> ec_dec_icdf d silk_delta_gain_iCDF 8; Some (d, int x) }) (\<lambda>g. 0 \<le> g \<and> g < (if condCoding = 2 then 41 else 64))"
      using answers_int [OF index_tables_full(9)] by simp
  next
    assume "condCoding \<noteq> 2"
    then show "answers (\<lambda>d. do { (d, x) \<leftarrow> ec_dec_icdf d (silk_gain_iCDF ! nat st_type) 8; (d, y) \<leftarrow> ec_dec_icdf d silk_uniform8_iCDF 8; Some (d, int x * 2 ^ 3 + int y) })
      (\<lambda>g. 0 \<le> g \<and> g < (if condCoding = 2 then 41 else 64))"
      by (intro answers_bind [OF answers_full [OF gt]] answers_bind [OF answers_full [OF index_tables_full(7)]] answers_return) simp
  qed
  show ?thesis unfolding silk_decode_gains_def [abs_def]
    by (rule answers_bind [OF first], rule answers_bind [OF answers_ints [OF index_tables_full(9)]], rule answers_return) simp
qed

lemma answers_NLSF:
  assumes "full_table icdf 9"
  shows "answers (silk_decode_NLSF icdf) (\<lambda>x. - 10 \<le> x \<and> x \<le> 10)"
  unfolding silk_decode_NLSF_def [abs_def]
proof (rule answers_bind [OF answers_full [OF assms]], rule answers_bind)
  fix x :: nat assume x: "x < 9"
  show "answers (\<lambda>d. if x = 0 then do { (d, y) \<leftarrow> ec_dec_icdf d silk_NLSF_EXT_iCDF 8; Some (d, int x - int y) }
      else if x = 8 then do { (d, y) \<leftarrow> ec_dec_icdf d silk_NLSF_EXT_iCDF 8; Some (d, int x + int y) } else Some (d, int x)) (\<lambda>x. - 6 \<le> x \<and> x \<le> 14)"
    using x by (intro answers_if answers_bind [OF answers_full [OF index_tables_full(8)]] answers_return) auto
next
  fix x :: int assume "- 6 \<le> x \<and> x \<le> 14"
  then show "answers (\<lambda>d. Some (d, x - 4)) (\<lambda>x. - 10 \<le> x \<and> x \<le> 10)" by (intro answers_return) simp
qed

lemma answers_NLSFs:
  assumes "silk_state_ok st" "st_type \<in> {0, 1, 2}"
  shows "answers (silk_decode_NLSFs st st_type) (\<lambda>ys. \<exists>x xs. ys = x # xs \<and> 0 \<le> x \<and> x < 32 \<and> length xs = CB_order (psNLSF_CB st) \<and> list_all (\<lambda>x. - 10 \<le> x \<and> x \<le> 10) xs)"
proof -
  define cb where "cb = psNLSF_CB st"
  note cb = codebook_tables [OF state_tables(1) [OF assms(1)], folded cb_def]
  have t: "full_table (drop (nat (st_type div 2) * nVectors cb) (CB1_iCDF cb)) 32" by (rule cb(1)) (use assms(2) in auto)
  have "answers (decode_each (\<lambda>i. silk_decode_NLSF (drop (fst (silk_NLSF_unpack cb x) ! i) (ec_iCDF cb))) [0..<CB_order cb]) (list_all2 (\<lambda>_ x. - 10 \<le> x \<and> x \<le> 10) [0..<CB_order cb])" for x
    by (rule answers_each) (use cb(2) answers_NLSF in simp)
  then have each: "answers (decode_each (\<lambda>i. silk_decode_NLSF (drop (fst (silk_NLSF_unpack cb x) ! i) (ec_iCDF cb))) [0..<CB_order cb])
      (\<lambda>xs. length xs = CB_order cb \<and> list_all (\<lambda>x. - 10 \<le> x \<and> x \<le> 10) xs)" for x
    by (rule answers_mono) (auto simp: list_all2_conv_all_nth list_all_length)
  show ?thesis unfolding silk_decode_NLSFs_def [abs_def] Let_def cb_def [symmetric] case_prod_unfold
    by (rule answers_bind [OF answers_full [OF t], unfolded case_prod_unfold], rule answers_bind [OF each, unfolded case_prod_unfold], rule answers_return) simp
qed

lemma answers_lag:
  assumes "silk_state_ok st"
  shows "answers (silk_decode_lag st condCoding) (\<lambda>_. True)"
  unfolding silk_decode_lag_def [abs_def]
proof (rule answers_bind)
  show "answers (\<lambda>d. if condCoding = 2 \<and> ec_prevSignalType st = 2 then ec_dec_icdf d silk_pitch_delta_iCDF 8 else Some (d, 0)) (\<lambda>x. x < 21)"
    by (rule answers_if) (rule answers_full [OF index_tables_full(13)], simp add: answers_return)
  show "answers (\<lambda>d. if delta > 0 then Some (d, s16 (ec_prevLagIndex st + (int delta - 9)))
         else do { (d, high) \<leftarrow> ec_dec_icdf d silk_pitch_lag_iCDF 8; (d, low) \<leftarrow> ec_dec_icdf d (pitch_lag_low_bits_iCDF st) 8;
                   Some (d, int high * int (fs_kHz st div 2) + int low) }) (\<lambda>_. True)" for delta
    by (rule answers_if) (auto intro!: answers_return answers_bind [OF answers_full [OF index_tables_full(12)]] answers_bind [OF answers_full [OF state_tables(2) [OF assms]]])
qed

lemma overwrite_nth: "i < length xs \<Longrightarrow> overwrite xs old ! i = xs ! i" "length xs \<le> length (overwrite xs old)"
  by (simp_all add: overwrite_def nth_append)

text \<open>Apart from the lag, the fields of a voiced frame that the decoder fills in are valid; the other fields stay.\<close>

lemma answers_voiced:
  assumes "silk_state_ok st"
  shows "answers (silk_decode_voiced st condCoding ix) (\<lambda>new. valid_voiced st condCoding (new\<lparr>lagIndex := 0\<rparr>) \<and>
    (\<exists>l c p t s. new = ix\<lparr>lagIndex := l, contourIndex := c, PERIndex := p, LTPIndex := t, LTP_scaleIndex := s\<rparr>))"
  unfolding silk_decode_voiced_def [abs_def]
proof (rule answers_bind [OF answers_lag [OF assms]], rule answers_bind [OF answers_full [OF state_tables(3) [OF assms]]],
    rule answers_bind [OF answers_full [OF index_tables_full(18)]])
  fix lag :: int and contour per :: nat assume c: "contour < contour_size st" and p: "per < 3"
  have t: "full_table (silk_LTP_gain_iCDF_ptrs ! per) (8 * 2 ^ per)" using index_tables_full(19) p by (simp add: list_all_iff)
  have f: "0 < int (fs_kHz st div 2)" using state_tables(4) [OF assms] by auto
  have s: "answers (\<lambda>d. if condCoding = 0 then do { (d, x) \<leftarrow> ec_dec_icdf d silk_LTPscale_iCDF 8; Some (d, int x) } else Some (d, 0)) (\<lambda>x. 0 \<le> x \<and> x < 3)"
    by (rule answers_if) (use answers_int [OF index_tables_full(4)] in \<open>auto intro: answers_return\<close>)
  show "answers (\<lambda>d. do { (d, ltp) \<leftarrow> decode_each (\<lambda>k d. do { (d, x) \<leftarrow> ec_dec_icdf d (silk_LTP_gain_iCDF_ptrs ! per) 8; Some (d, int x) }) [0..<nb_subfr st] d;
         (d, scale) \<leftarrow> (if condCoding = 0 then do { (d, x) \<leftarrow> ec_dec_icdf d silk_LTPscale_iCDF 8; Some (d, int x) } else Some (d, 0));
         Some (d, ix\<lparr>lagIndex := lag, contourIndex := int contour, PERIndex := int per, LTPIndex := overwrite ltp (LTPIndex ix), LTP_scaleIndex := scale\<rparr>) })
    (\<lambda>new. valid_voiced st condCoding (new\<lparr>lagIndex := 0\<rparr>) \<and>
      (\<exists>l c p t s. new = ix\<lparr>lagIndex := l, contourIndex := c, PERIndex := p, LTPIndex := t, LTP_scaleIndex := s\<rparr>))"
  proof (rule answers_bind [OF answers_ints [OF t]], rule answers_bind [OF s], rule answers_return)
    fix ltp :: "int list" and scale :: int
    assume l: "length ltp = length [0..<nb_subfr st] \<and> list_all (\<lambda>x. 0 \<le> x \<and> x < int (8 * 2 ^ per)) ltp" and sc: "0 \<le> scale \<and> scale < 3"
    have "list_all (\<lambda>k. 0 \<le> overwrite ltp (LTPIndex ix) ! k \<and> overwrite ltp (LTPIndex ix) ! k < 8 * 2 ^ per) [0..<nb_subfr st]"
      using l overwrite_nth(1) [of _ ltp] by (auto simp: list_all_iff list_all_length)
    then have "valid_voiced st condCoding (ix\<lparr>lagIndex := lag, contourIndex := int contour, PERIndex := int per, LTPIndex := overwrite ltp (LTPIndex ix), LTP_scaleIndex := scale\<rparr>\<lparr>lagIndex := 0\<rparr>)"
      using c p f sc l overwrite_nth(2) [of ltp "LTPIndex ix"] by (auto simp: valid_voiced_def)
    then show "valid_voiced st condCoding (ix\<lparr>lagIndex := lag, contourIndex := int contour, PERIndex := int per, LTPIndex := overwrite ltp (LTPIndex ix), LTP_scaleIndex := scale\<rparr>\<lparr>lagIndex := 0\<rparr>) \<and>
      (\<exists>l c p t s. ix\<lparr>lagIndex := lag, contourIndex := int contour, PERIndex := int per, LTPIndex := overwrite ltp (LTPIndex ix), LTP_scaleIndex := scale\<rparr> =
        ix\<lparr>lagIndex := l, contourIndex := c, PERIndex := p, LTPIndex := t, LTP_scaleIndex := s\<rparr>)"
      by blast
  qed
qed

lemma set_tables_prev:
  "silk_set_tables fs (st\<lparr>ec_prevSignalType := s\<rparr>) = (silk_set_tables fs st)\<lparr>ec_prevSignalType := s\<rparr>"
  "silk_set_tables fs (st\<lparr>ec_prevLagIndex := l\<rparr>) = (silk_set_tables fs st)\<lparr>ec_prevLagIndex := l\<rparr>"
  by (simp_all add: silk_set_tables_def)

lemma next_state_ok: "silk_state_ok st \<Longrightarrow> silk_state_ok (silk_next_state st ix)"
  by (simp add: silk_state_ok_def silk_next_state_def set_tables_prev)

text \<open>The lists that are decoded, written over the old ones, are valid.\<close>

lemma valid_received:
  assumes "0 < nb_subfr st" "st_type \<in> {0, 1, 2}" "qo \<in> {0, 1}"
    and g: "\<exists>g hs. gains = g # hs \<and> 0 \<le> g \<and> g < (if condCoding = 2 then 41 else 64) \<and> length hs = nb_subfr st - 1 \<and> list_all (\<lambda>x. 0 \<le> x \<and> x < 41) hs"
    and n: "\<exists>x xs. nlsfs = x # xs \<and> 0 \<le> x \<and> x < 32 \<and> length xs = CB_order (psNLSF_CB st) \<and> list_all (\<lambda>x. - 10 \<le> x \<and> x \<le> 10) xs"
    and new: "signalType new = st_type" "quantOffsetType new = qo" "GainsIndices new = overwrite gains g0" "NLSFIndices new = overwrite nlsfs n0"
    and i: "0 \<le> NLSFInterpCoef_Q2 new \<and> NLSFInterpCoef_Q2 new < 5" and v: "st_type = 2 \<Longrightarrow> valid_voiced st condCoding new" and s: "0 \<le> Seed new \<and> Seed new < 4"
  shows "valid_indices st condCoding new"
proof -
  obtain g' hs where g': "gains = g' # hs" "0 \<le> g'" "g' < (if condCoding = 2 then 41 else 64)" "length hs = nb_subfr st - 1" "list_all (\<lambda>x. 0 \<le> x \<and> x < 41) hs" using g by blast
  obtain x xs where x: "nlsfs = x # xs" "0 \<le> x" "x < 32" "length xs = CB_order (psNLSF_CB st)" "list_all (\<lambda>x. - 10 \<le> x \<and> x \<le> 10) xs" using n by blast
  have lg: "length gains = nb_subfr st" using g'(1,4) assms(1) by simp
  have ln: "length nlsfs = CB_order (psNLSF_CB st) + 1" using x(1,4) by simp
  have gi: "GainsIndices new ! i = gains ! i" if "i < nb_subfr st" for i using that new(3) overwrite_nth(1) [of i gains] lg by simp
  have ni: "NLSFIndices new ! i = nlsfs ! i" if "i < CB_order (psNLSF_CB st) + 1" for i using that new(4) overwrite_nth(1) [of i nlsfs] ln by simp
  have "0 \<le> gains ! i \<and> gains ! i < 41" if "1 \<le> i" "i < nb_subfr st" for i
    using g'(1,4,5) that by (cases i) (simp_all add: list_all_length)
  then have "list_all (\<lambda>i. 0 \<le> GainsIndices new ! i \<and> GainsIndices new ! i < 41) [1..<nb_subfr st]" by (simp add: list_all_iff gi)
  moreover have "GainsIndices new ! 0 = g'" using gi [OF assms(1)] g'(1) by simp
  ultimately have vg: "valid_gains st condCoding new" using g'(2,3) overwrite_nth(2) [of gains g0] lg new(3) by (simp add: valid_gains_def)
  have "NLSFIndices new ! (i + 1) = xs ! i" if "i < CB_order (psNLSF_CB st)" for i using ni [of "i + 1"] that x(1) by simp
  then have "list_all (\<lambda>i. - 10 \<le> NLSFIndices new ! (i + 1) \<and> NLSFIndices new ! (i + 1) \<le> 10) [0..<CB_order (psNLSF_CB st)]"
    using x(4,5) by (simp add: list_all_iff list_all_length)
  moreover have "NLSFIndices new ! 0 = x" using ni [of 0] x(1) by simp
  ultimately have "valid_NLSFs st new" using x(2,3) overwrite_nth(2) [of nlsfs n0] ln new(4) by (simp add: valid_NLSFs_def)
  then show ?thesis using assms(2,3) new(1,2) vg i v s by (simp add: valid_indices_def)
qed

lemma answers_indices:
  assumes "silk_state_ok st"
  shows "answers (silk_decode_indices st vad lbrr condCoding old)
    (\<lambda>(ix, st'). valid_indices st condCoding (ix\<lparr>lagIndex := 0\<rparr>) \<and> st' = silk_next_state st ix \<and> silk_state_ok st')"
  unfolding silk_decode_indices_def [abs_def] Let_def
proof (rule answers_bind)
  show "answers (\<lambda>d. if lbrr \<or> vad then do { (d, x) \<leftarrow> ec_dec_icdf d silk_type_offset_VAD_iCDF 8; Some (d, int x + 2) }
      else do { (d, x) \<leftarrow> ec_dec_icdf d silk_type_offset_no_VAD_iCDF 8; Some (d, int x) }) (\<lambda>t. 0 \<le> t \<and> t < 6)"
    by (intro answers_if answers_bind [OF answers_full [OF index_tables_full(1)]] answers_bind [OF answers_full [OF index_tables_full(2)]] answers_return) auto
next
  fix t :: int assume t: "0 \<le> t \<and> t < 6"
  have nb: "0 < nb_subfr st" using state_tables(5) [OF assms] by auto
  have st: "t div 2 \<in> {0, 1, 2}" "t AND 1 \<in> {0, 1}" using t by (auto simp: and_one_eq)
  have interp: "answers (\<lambda>d. if nb_subfr st = 4 then do { (d, x) \<leftarrow> ec_dec_icdf d silk_NLSF_interpolation_factor_iCDF 8; Some (d, int x) } else Some (d, 4)) (\<lambda>x. 0 \<le> x \<and> x < 5)"
    by (rule answers_if) (use answers_int [OF index_tables_full(3)] in \<open>auto intro: answers_return\<close>)
  show "answers (\<lambda>d. do { (d, gains) \<leftarrow> silk_decode_gains st condCoding (t div 2) d;
       (d, nlsfs) \<leftarrow> silk_decode_NLSFs st (t div 2) d;
       (d, interp) \<leftarrow> (if nb_subfr st = 4 then do { (d, x) \<leftarrow> ec_dec_icdf d silk_NLSF_interpolation_factor_iCDF 8; Some (d, int x) } else Some (d, 4));
       (d, ix) \<leftarrow> (if t div 2 = 2 then silk_decode_voiced st condCoding (old\<lparr>signalType := t div 2, quantOffsetType := t AND 1,
           GainsIndices := overwrite gains (GainsIndices old), NLSFIndices := overwrite nlsfs (NLSFIndices old), NLSFInterpCoef_Q2 := interp\<rparr>) d
         else Some (d, old\<lparr>signalType := t div 2, quantOffsetType := t AND 1,
           GainsIndices := overwrite gains (GainsIndices old), NLSFIndices := overwrite nlsfs (NLSFIndices old), NLSFInterpCoef_Q2 := interp\<rparr>));
       (d, x) \<leftarrow> ec_dec_icdf d silk_uniform4_iCDF 8;
       Some (d, ix\<lparr>Seed := int x\<rparr>, silk_next_state st ix) })
    (\<lambda>(ix, st'). valid_indices st condCoding (ix\<lparr>lagIndex := 0\<rparr>) \<and> st' = silk_next_state st ix \<and> silk_state_ok st')"
  proof (rule answers_bind [OF answers_gains [OF st(1)]], rule answers_bind [OF answers_NLSFs [OF assms st(1)]], rule answers_bind [OF interp])
    fix gains nlsfs :: "int list" and i :: int
    assume g: "\<exists>g hs. gains = g # hs \<and> 0 \<le> g \<and> g < (if condCoding = 2 then 41 else 64) \<and> length hs = nb_subfr st - 1 \<and> list_all (\<lambda>x. 0 \<le> x \<and> x < 41) hs"
      and n: "\<exists>x xs. nlsfs = x # xs \<and> 0 \<le> x \<and> x < 32 \<and> length xs = CB_order (psNLSF_CB st) \<and> list_all (\<lambda>x. - 10 \<le> x \<and> x \<le> 10) xs"
      and i: "0 \<le> i \<and> i < 5"
    define new where "new = old\<lparr>signalType := t div 2, quantOffsetType := t AND 1,
           GainsIndices := overwrite gains (GainsIndices old), NLSFIndices := overwrite nlsfs (NLSFIndices old), NLSFInterpCoef_Q2 := i\<rparr>"
    have v: "answers (\<lambda>d. if t div 2 = 2 then silk_decode_voiced st condCoding new d else Some (d, new))
      (\<lambda>ix. (t div 2 = 2 \<longrightarrow> valid_voiced st condCoding (ix\<lparr>lagIndex := 0\<rparr>)) \<and>
        (\<exists>l c p t s. ix = new\<lparr>lagIndex := l, contourIndex := c, PERIndex := p, LTPIndex := t, LTP_scaleIndex := s\<rparr>))"
    proof (rule answers_if)
      show "t div 2 \<noteq> 2 \<Longrightarrow> answers (\<lambda>d. Some (d, new)) (\<lambda>ix. (t div 2 = 2 \<longrightarrow> valid_voiced st condCoding (ix\<lparr>lagIndex := 0\<rparr>)) \<and>
        (\<exists>l c p t s. ix = new\<lparr>lagIndex := l, contourIndex := c, PERIndex := p, LTPIndex := t, LTP_scaleIndex := s\<rparr>))"
        by (rule answers_return) (cases new, auto)
    qed (use answers_voiced [OF assms, of condCoding new] in simp)
    show "answers (\<lambda>d. do { (d, ix) \<leftarrow> (if t div 2 = 2 then silk_decode_voiced st condCoding (old\<lparr>signalType := t div 2, quantOffsetType := t AND 1,
           GainsIndices := overwrite gains (GainsIndices old), NLSFIndices := overwrite nlsfs (NLSFIndices old), NLSFInterpCoef_Q2 := i\<rparr>) d
         else Some (d, old\<lparr>signalType := t div 2, quantOffsetType := t AND 1,
           GainsIndices := overwrite gains (GainsIndices old), NLSFIndices := overwrite nlsfs (NLSFIndices old), NLSFInterpCoef_Q2 := i\<rparr>));
       (d, x) \<leftarrow> ec_dec_icdf d silk_uniform4_iCDF 8;
       Some (d, ix\<lparr>Seed := int x\<rparr>, silk_next_state st ix) })
      (\<lambda>(ix, st'). valid_indices st condCoding (ix\<lparr>lagIndex := 0\<rparr>) \<and> st' = silk_next_state st ix \<and> silk_state_ok st')"
      unfolding new_def [symmetric]
    proof (rule answers_bind [OF v], rule answers_bind [OF answers_full [OF index_tables_full(5)]], rule answers_return)
      fix ix and x :: nat assume ix: "(t div 2 = 2 \<longrightarrow> valid_voiced st condCoding (ix\<lparr>lagIndex := 0\<rparr>)) \<and>
        (\<exists>l c p t s. ix = new\<lparr>lagIndex := l, contourIndex := c, PERIndex := p, LTPIndex := t, LTP_scaleIndex := s\<rparr>)" and x: "x < 4"
      have "valid_indices st condCoding (ix\<lparr>Seed := int x\<rparr>\<lparr>lagIndex := 0\<rparr>)"
      proof (rule valid_received [OF nb st g n])
        show "t div 2 = 2 \<Longrightarrow> valid_voiced st condCoding (ix\<lparr>Seed := int x\<rparr>\<lparr>lagIndex := 0\<rparr>)" using ix by (simp add: valid_voiced_def)
      qed (use ix i x in \<open>auto simp: new_def\<close>)
      moreover have "silk_next_state st ix = silk_next_state st (ix\<lparr>Seed := int x\<rparr>)" by (simp add: silk_next_state_def)
      ultimately show "case (ix\<lparr>Seed := int x\<rparr>, silk_next_state st ix) of (ix, st') \<Rightarrow>
          valid_indices st condCoding (ix\<lparr>lagIndex := 0\<rparr>) \<and> st' = silk_next_state st ix \<and> silk_state_ok st'"
        using next_state_ok [OF assms] by simp
    qed
  qed
qed

end
