(* ===== verification/Silk_Stereo.thy ===== *)
theory Silk_Stereo
  imports Opus_Codes Silk_Tables Silk_Macros
begin

text \<open>
  The prediction between the channels of stereo SILK: the quantizer of the two predictors in \<open>src/Vendor/opus/silk/stereo_quant_pred.c\<close> and their coding in
  \<open>stereo_encode_pred.c\<close> and \<open>stereo_decode_pred.c\<close>. The quantizer stops its search at the first level that is no nearer, which is shown to find the nearest
  level; and the decoder rebuilds the quantized predictors from the indices.
\<close>

section \<open>The code\<close>

text \<open>The level that a pair of indices stands for; \<open>6554\<close> is 0.1 in Q16.\<close>

definition silk_stereo_level :: "nat \<Rightarrow> nat \<Rightarrow> int" where
  "silk_stereo_level i j =
    (let low_Q13 = silk_stereo_pred_quant_Q13 ! i;
         step_Q13 = silk_SMULWB (silk_stereo_pred_quant_Q13 ! (i + 1) - low_Q13) 6554
     in silk_SMLABB low_Q13 step_Q13 (2 * int j + 1))"

text \<open>The two loops of the search as one list of index pairs, as \<open>goto done\<close> leaves both.\<close>

fun silk_stereo_search :: "int \<Rightarrow> (nat \<times> nat) list \<Rightarrow> int \<Rightarrow> int \<times> nat \<times> nat \<Rightarrow> int \<times> nat \<times> nat" where
  "silk_stereo_search pred_Q13 [] err_min_Q13 best = best"
| "silk_stereo_search pred_Q13 ((i, j) # ijs) err_min_Q13 best =
    (let lvl_Q13 = silk_stereo_level i j; err_Q13 = \<bar>pred_Q13 - lvl_Q13\<bar>
     in if err_Q13 < err_min_Q13 then silk_stereo_search pred_Q13 ijs err_Q13 (lvl_Q13, i, j) else best)"

definition silk_stereo_pairs :: "(nat \<times> nat) list" where
  "silk_stereo_pairs = [(i, j). i \<leftarrow> [0..<16 - 1], j \<leftarrow> [0..<5]]"

type_synonym stereo_ix = "nat \<times> nat \<times> nat"

definition silk_stereo_quant :: "int \<Rightarrow> int \<Rightarrow> stereo_ix \<Rightarrow> int \<times> stereo_ix" where
  "silk_stereo_quant pred_Q13 quant_pred_Q13 = (\<lambda>(ix0, ix1, ix2).
    let (q, i, j) = silk_stereo_search pred_Q13 silk_stereo_pairs silk_int32_MAX (quant_pred_Q13, ix0, ix1)
    in (q, i - i div 3 * 3, j, i div 3))"

definition silk_stereo_quant_pred :: "int \<times> int \<Rightarrow> stereo_ix \<times> stereo_ix \<Rightarrow> (int \<times> int) \<times> stereo_ix \<times> stereo_ix" where
  "silk_stereo_quant_pred pred_Q13 ix =
    (let (q0, ix0) = silk_stereo_quant (fst pred_Q13) 0 (fst ix);
         (q1, ix1) = silk_stereo_quant (snd pred_Q13) q0 (snd ix)
     in ((q0 - q1, q1), ix0, ix1))"

definition silk_stereo_encode_pred :: "stereo_ix \<times> stereo_ix \<Rightarrow> ec_ctx \<Rightarrow> ec_ctx option" where
  "silk_stereo_encode_pred = (\<lambda>((i0, j0, n0), (i1, j1, n1)) e.
    do { e \<leftarrow> ec_enc_icdf e (5 * n0 + n1) silk_stereo_pred_joint_iCDF 8;
         encode_each (\<lambda>(i, j) e. do { e \<leftarrow> ec_enc_icdf e i silk_uniform3_iCDF 8; ec_enc_icdf e j silk_uniform5_iCDF 8 }) [(i0, j0), (i1, j1)] e })"

definition silk_stereo_encode_mid_only :: "nat \<Rightarrow> ec_ctx \<Rightarrow> ec_ctx option" where
  "silk_stereo_encode_mid_only mid_only_flag e = ec_enc_icdf e mid_only_flag silk_stereo_only_code_mid_iCDF 8"

definition silk_stereo_decode_pred :: "ec_ctx \<Rightarrow> (ec_ctx \<times> int \<times> int) option" where
  "silk_stereo_decode_pred d =
    do { (d, n) \<leftarrow> ec_dec_icdf d silk_stereo_pred_joint_iCDF 8;
         (d, qs) \<leftarrow> decode_each (\<lambda>n2 d. do { (d, i) \<leftarrow> ec_dec_icdf d silk_uniform3_iCDF 8; (d, j) \<leftarrow> ec_dec_icdf d silk_uniform5_iCDF 8;
                      Some (d, silk_stereo_level (i + 3 * n2) j) }) [n div 5, n - 5 * (n div 5)] d;
         Some (d, qs ! 0 - qs ! 1, qs ! 1) }"

definition silk_stereo_decode_mid_only :: "ec_ctx \<Rightarrow> (ec_ctx \<times> nat) option" where
  "silk_stereo_decode_mid_only d = ec_dec_icdf d silk_stereo_only_code_mid_iCDF 8"

section \<open>The search\<close>

text \<open>The full search, which looks at every level.\<close>

fun nearest_pair :: "int \<Rightarrow> (nat \<times> nat) list \<Rightarrow> int \<Rightarrow> int \<times> nat \<times> nat \<Rightarrow> int \<times> nat \<times> nat" where
  "nearest_pair p [] err best = best"
| "nearest_pair p ((i, j) # ijs) err best =
    (let l = silk_stereo_level i j
     in if \<bar>p - l\<bar> < err then nearest_pair p ijs \<bar>p - l\<bar> (l, i, j) else nearest_pair p ijs err best)"

abbreviation level_of :: "nat \<times> nat \<Rightarrow> int" where "level_of \<equiv> \<lambda>(i, j). silk_stereo_level i j"

text \<open>Once a level is no nearer than a lower one, no further one is.\<close>

lemma nearest_past: "list_all (\<lambda>ij. err \<le> \<bar>p - level_of ij\<bar>) ijs \<Longrightarrow> nearest_pair p ijs err best = best"
  by (induction ijs) auto

lemma further_levels: "(l :: int) < m \<Longrightarrow> \<bar>p - l\<bar> \<le> \<bar>p - m\<bar> \<Longrightarrow> m \<le> n \<Longrightarrow> \<bar>p - l\<bar> \<le> \<bar>p - n\<bar>"
  by linarith

lemma search_nearest:
  assumes "sorted_wrt (<) (map level_of ijs)" "ijs \<noteq> [] \<Longrightarrow> err = \<bar>p - l\<bar> \<and> l < level_of (hd ijs)"
  shows "silk_stereo_search p ijs err best = nearest_pair p ijs err best"
  using assms
proof (induction ijs arbitrary: err l best)
  case (Cons ij ijs)
  obtain i j where ij: "ij = (i, j)" by fastforce
  define m where "m = silk_stereo_level i j"
  have e: "err = \<bar>p - l\<bar>" "l < m" using Cons(3) by (simp_all add: ij m_def)
  have s: "sorted_wrt (<) (map level_of ijs)" and a: "\<forall>x \<in> set ijs. m < level_of x" using Cons(2) by (auto simp: ij m_def)
  show ?case
  proof (cases "\<bar>p - m\<bar> < err")
    case True
    have "silk_stereo_search p ijs \<bar>p - m\<bar> (m, i, j) = nearest_pair p ijs \<bar>p - m\<bar> (m, i, j)"
      by (rule Cons(1) [OF s, of _ m]) (use a in \<open>cases ijs, auto\<close>)
    then show ?thesis using True by (simp add: ij m_def [symmetric])
  next
    case False
    then have "err \<le> \<bar>p - level_of x\<bar>" if "x \<in> set ijs" for x using a that further_levels [OF e(2), of p "level_of x"] e(1) by (auto simp: less_imp_le)
    then have "list_all (\<lambda>x. err \<le> \<bar>p - level_of x\<bar>) ijs" by (simp add: list_all_iff)
    then show ?thesis using False nearest_past by (simp add: ij m_def [symmetric] Let_def)
  qed
qed simp

lemma stereo_pairs_sorted: "sorted_wrt (<) (map level_of silk_stereo_pairs)"
  by code_simp

lemma stereo_pairs_cons: "silk_stereo_pairs = (0, 0) # tl silk_stereo_pairs"
  by code_simp

lemma stereo_pairs_set: "(i, j) \<in> set silk_stereo_pairs \<longleftrightarrow> i < 15 \<and> j < 5"
  by (auto simp: silk_stereo_pairs_def image_iff)

lemma stereo_search_first:
  assumes "\<bar>p\<bar> \<le> 2 ^ 30"
  shows "\<bar>p - silk_stereo_level 0 0\<bar> < silk_int32_MAX"
proof -
  have "silk_stereo_level 0 0 = - 13364" by code_simp
  then show ?thesis using assms by (simp add: silk_int32_MAX_def)
qed

lemma stereo_search_full:
  assumes "\<bar>p\<bar> \<le> 2 ^ 30"
  shows "silk_stereo_search p silk_stereo_pairs silk_int32_MAX best = nearest_pair p silk_stereo_pairs silk_int32_MAX best"
proof -
  define ijs where "ijs = tl silk_stereo_pairs"
  define l where "l = silk_stereo_level 0 0"
  have c: "silk_stereo_pairs = (0, 0) # ijs" using stereo_pairs_cons by (simp add: ijs_def)
  have s: "sorted_wrt (<) (l # map level_of ijs)" using stereo_pairs_sorted by (simp add: c l_def)
  have "silk_stereo_search p ijs \<bar>p - l\<bar> (l, 0, 0) = nearest_pair p ijs \<bar>p - l\<bar> (l, 0, 0)"
    by (rule search_nearest [of _ _ _ l]) (use s in \<open>cases ijs, auto\<close>)
  then show ?thesis using stereo_search_first [OF assms] by (simp add: c l_def Let_def)
qed

text \<open>What the full search finds is a level among the pairs, and no other is nearer.\<close>

lemma nearest_pair_best:
  assumes "nearest_pair p ijs \<bar>p - level_of b\<bar> (level_of b, b) = (q, c)"
  shows "q = level_of c \<and> c \<in> insert b (set ijs) \<and> (\<forall>x \<in> insert b (set ijs). \<bar>p - q\<bar> \<le> \<bar>p - level_of x\<bar>)"
  using assms
proof (induction ijs arbitrary: b)
  case (Cons ij ijs)
  obtain i j where ij: "ij = (i, j)" by fastforce
  show ?case
  proof (cases "\<bar>p - silk_stereo_level i j\<bar> < \<bar>p - level_of b\<bar>")
    case True
    with Cons(2) have "nearest_pair p ijs \<bar>p - level_of (i, j)\<bar> (level_of (i, j), (i, j)) = (q, c)" by (simp add: ij Let_def)
    from Cons(1) [OF this] True show ?thesis by (auto simp: ij)
  next
    case False
    with Cons(2) have "nearest_pair p ijs \<bar>p - level_of b\<bar> (level_of b, b) = (q, c)" by (simp add: ij Let_def)
    from Cons(1) [OF this] False show ?thesis by (auto simp: ij)
  qed
qed auto

lemma stereo_search_best:
  assumes "\<bar>p\<bar> \<le> 2 ^ 30" "silk_stereo_search p silk_stereo_pairs silk_int32_MAX best = (q, i, j)"
  shows "i < 15" "j < 5" "q = silk_stereo_level i j" "i' < 15 \<Longrightarrow> j' < 5 \<Longrightarrow> \<bar>p - q\<bar> \<le> \<bar>p - silk_stereo_level i' j'\<bar>"
proof -
  define ijs where "ijs = tl silk_stereo_pairs"
  have c: "silk_stereo_pairs = (0, 0) # ijs" using stereo_pairs_cons by (simp add: ijs_def)
  have "nearest_pair p ijs \<bar>p - level_of (0, 0)\<bar> (level_of (0, 0), 0, 0) = (q, i, j)"
    using assms(2) stereo_search_first [OF assms(1)] unfolding stereo_search_full [OF assms(1)] unfolding c by (simp add: Let_def)
  note b = nearest_pair_best [OF this]
  have s: "insert (0, 0) (set ijs) = set silk_stereo_pairs" by (simp add: c)
  show "i < 15" "j < 5" using b stereo_pairs_set [of i j] unfolding s by simp_all
  show "q = silk_stereo_level i j" using b by simp
  show "i' < 15 \<Longrightarrow> j' < 5 \<Longrightarrow> \<bar>p - q\<bar> \<le> \<bar>p - silk_stereo_level i' j'\<bar>"
    using b stereo_pairs_set [of i' j'] unfolding s by fastforce
qed

section \<open>The coding\<close>

lemma codes_two:
  assumes "codes (enc x) (dec y) v" "codes (enc x') (dec y') w"
  shows "codes (encode_each enc [x, x']) (decode_each dec [y, y']) [v, w]"
proof -
  have c: "codes (encode_each enc [x']) (decode_each dec [y']) (map (\<lambda>_. w) [x'])" by (rule codes_each) (use assms(2) in simp)
  show ?thesis unfolding encode_each.simps(2) [of _ x] decode_each.simps(2) [of _ y]
    by (rule codes_bind [OF assms(1)]) (rule codes_then [OF c], simp)
qed

lemma stereo_tables_full:
  "full_table silk_stereo_pred_joint_iCDF 25" "full_table silk_uniform3_iCDF 3" "full_table silk_uniform5_iCDF 5" "full_table silk_stereo_only_code_mid_iCDF 2"
  by code_simp+

definition stereo_ix_ok :: "stereo_ix \<Rightarrow> bool" where
  "stereo_ix_ok = (\<lambda>(i, j, n). i < 3 \<and> j < 5 \<and> n < 5)"

definition stereo_value :: "stereo_ix \<Rightarrow> int" where
  "stereo_value = (\<lambda>(i, j, n). silk_stereo_level (i + 3 * n) j)"

lemma codes_stereo_pred:
  assumes "stereo_ix_ok a" "stereo_ix_ok b"
  shows "codes (silk_stereo_encode_pred (a, b)) silk_stereo_decode_pred (stereo_value a - stereo_value b, stereo_value b)"
proof -
  obtain i0 j0 n0 i1 j1 n1 where ab: "a = (i0, j0, n0)" "b = (i1, j1, n1)" by (metis prod_cases3)
  have l: "i0 < 3" "j0 < 5" "n0 < 5" "i1 < 3" "j1 < 5" "n1 < 5" using assms by (simp_all add: ab stereo_ix_ok_def)
  have n: "(5 * n0 + n1) div 5 = n0" "5 * n0 + n1 - 5 * n0 = n1" using l(6) by simp_all
  have one: "codes (\<lambda>e. do { e \<leftarrow> ec_enc_icdf e i silk_uniform3_iCDF 8; ec_enc_icdf e j silk_uniform5_iCDF 8 })
      (\<lambda>d. do { (d, i) \<leftarrow> ec_dec_icdf d silk_uniform3_iCDF 8; (d, j) \<leftarrow> ec_dec_icdf d silk_uniform5_iCDF 8; Some (d, silk_stereo_level (i + 3 * k) j) })
      (silk_stereo_level (i + 3 * k) j)" if "i < 3" "j < 5" for i j k
    by (rule codes_bind [OF codes_full [OF stereo_tables_full(2) that(1)]], rule codes_then [OF codes_full [OF stereo_tables_full(3) that(2)]]) simp
  have each: "codes (encode_each (\<lambda>(i, j) e. do { e \<leftarrow> ec_enc_icdf e i silk_uniform3_iCDF 8; ec_enc_icdf e j silk_uniform5_iCDF 8 }) [(i0, j0), (i1, j1)])
      (decode_each (\<lambda>n2 d. do { (d, i) \<leftarrow> ec_dec_icdf d silk_uniform3_iCDF 8; (d, j) \<leftarrow> ec_dec_icdf d silk_uniform5_iCDF 8; Some (d, silk_stereo_level (i + 3 * n2) j) }) [n0, n1])
      [silk_stereo_level (i0 + 3 * n0) j0, silk_stereo_level (i1 + 3 * n1) j1]"
    by (rule codes_two) (use one [OF l(1,2)] one [OF l(4,5)] in simp_all)
  show ?thesis unfolding silk_stereo_encode_pred_def silk_stereo_decode_pred_def [abs_def] ab prod.case
  proof (rule codes_bind [OF codes_full [OF stereo_tables_full(1)]])
    show "5 * n0 + n1 < 25" using l by simp
  qed (unfold n, rule codes_then [OF each], simp add: stereo_value_def)
qed

lemma codes_mid_only: "flag < 2 \<Longrightarrow> codes (silk_stereo_encode_mid_only flag) silk_stereo_decode_mid_only flag"
  unfolding silk_stereo_encode_mid_only_def [abs_def] silk_stereo_decode_mid_only_def [abs_def] by (rule codes_full [OF stereo_tables_full(4)])

text \<open>The indices of the quantizer are codable, and stand for what it returns.\<close>

lemma stereo_quant_codable:
  assumes "\<bar>p\<bar> \<le> 2 ^ 30" "silk_stereo_quant p q0 ix = (q, ix')"
  shows "stereo_ix_ok ix'" "stereo_value ix' = q"
proof -
  obtain i0 j0 n0 where ix: "ix = (i0, j0, n0)" by (rule prod_cases3)
  obtain r i j where s: "silk_stereo_search p silk_stereo_pairs silk_int32_MAX (q0, i0, j0) = (r, i, j)" by (rule prod_cases3)
  note b = stereo_search_best [OF assms(1) s]
  have e: "q = r" "ix' = (i - i div 3 * 3, j, i div 3)" using assms(2) by (simp_all add: silk_stereo_quant_def ix s)
  have m: "i - i div 3 * 3 = i mod 3" by (simp add: minus_div_mult_eq_mod)
  show "stereo_ix_ok ix'" using b(1,2) unfolding e m by (auto simp: stereo_ix_ok_def)
  show "stereo_value ix' = q" using b(3) unfolding e m by (simp add: stereo_value_def)
qed

lemma codes_stereo:
  assumes "\<bar>p0\<bar> \<le> 2 ^ 30" "\<bar>p1\<bar> \<le> 2 ^ 30" "silk_stereo_quant_pred (p0, p1) ix = (pred, ix')"
  shows "codes (silk_stereo_encode_pred ix') silk_stereo_decode_pred pred"
proof -
  obtain q0 ix0 q1 ix1 where q: "silk_stereo_quant p0 0 (fst ix) = (q0, ix0)" "silk_stereo_quant p1 q0 (snd ix) = (q1, ix1)" by (metis surj_pair)
  then have e: "pred = (q0 - q1, q1)" "ix' = (ix0, ix1)" using assms(3) by (simp_all add: silk_stereo_quant_pred_def)
  show ?thesis using codes_stereo_pred stereo_quant_codable [OF assms(1) q(1)] stereo_quant_codable [OF assms(2) q(2)] unfolding e by fastforce
qed

text \<open>On any buffer the decoder returns, with predictors in range.\<close>

lemma level_bounds: "i < 15 \<Longrightarrow> j < 5 \<Longrightarrow> \<bar>silk_stereo_level i j\<bar> \<le> 13364"
proof -
  assume "i < 15" "j < 5"
  moreover have "list_all (\<lambda>x. \<bar>level_of x\<bar> \<le> 13364) silk_stereo_pairs" by code_simp
  ultimately show ?thesis using stereo_pairs_set [of i j] by (fastforce simp: list_all_iff)
qed

lemma answers_stereo: "answers silk_stereo_decode_pred (\<lambda>(p0, p1). \<bar>p0\<bar> \<le> 26728 \<and> \<bar>p1\<bar> \<le> 13364)"
  unfolding silk_stereo_decode_pred_def [abs_def]
proof (rule answers_bind [OF answers_full [OF stereo_tables_full(1)]])
  fix n :: nat assume n: "n < 25"
  have one: "answers (\<lambda>d. do { (d, i) \<leftarrow> ec_dec_icdf d silk_uniform3_iCDF 8; (d, j) \<leftarrow> ec_dec_icdf d silk_uniform5_iCDF 8; Some (d, silk_stereo_level (i + 3 * n2) j) })
      (\<lambda>q. \<bar>q\<bar> \<le> 13364)" if "n2 < 5" for n2
    by (rule answers_bind [OF answers_full [OF stereo_tables_full(2)]], rule answers_bind [OF answers_full [OF stereo_tables_full(3)]], rule answers_return)
       (use that in \<open>intro level_bounds, simp_all\<close>)
  have "n div 5 < 5" "n - 5 * (n div 5) < 5" using n by auto
  then have "answers (decode_each (\<lambda>n2 d. do { (d, i) \<leftarrow> ec_dec_icdf d silk_uniform3_iCDF 8; (d, j) \<leftarrow> ec_dec_icdf d silk_uniform5_iCDF 8;
      Some (d, silk_stereo_level (i + 3 * n2) j) }) [n div 5, n - 5 * (n div 5)]) (list_all2 (\<lambda>_ q. \<bar>q\<bar> \<le> 13364) [n div 5, n - 5 * (n div 5)])"
    by (intro answers_each one) auto
  then show "answers (\<lambda>d. do { (d, qs) \<leftarrow> decode_each (\<lambda>n2 d. do { (d, i) \<leftarrow> ec_dec_icdf d silk_uniform3_iCDF 8; (d, j) \<leftarrow> ec_dec_icdf d silk_uniform5_iCDF 8;
      Some (d, silk_stereo_level (i + 3 * n2) j) }) [n div 5, n - 5 * (n div 5)] d; Some (d, qs ! 0 - qs ! 1, qs ! 1) }) (\<lambda>(p0, p1). \<bar>p0\<bar> \<le> 26728 \<and> \<bar>p1\<bar> \<le> 13364)"
    by (rule answers_bind) (rule answers_return, auto simp: list_all2_Cons1)
qed

end
