(* ===== verification/Silk_Packet.thy ===== *)
theory Silk_Packet
  imports Opus_Steps Silk_Frame Silk_Indices_Safe Silk_Stereo
begin

text \<open>
  The start of a SILK packet: the flags, and the redundant copies (LBRR) of the frames of the previous packet. From \<open>silk_Encode\<close> in
  \<open>src/Vendor/opus/silk/enc_API.c\<close> and \<open>silk_Decode\<close> in \<open>dec_API.c\<close>. A receiver that has the previous packet reads over the redundant frames; the coding state it
  keeps must then be that of the encoder.
\<close>

unbundle bit_operations_syntax

section \<open>The encoder\<close>

text \<open>What the encoder keeps of a channel, and of the stereo prediction.\<close>

record silk_encoder_channel =
  enc_coder :: silk_coder_state
  enc_frame_length :: nat
  enc_LBRR_flag :: bool
  enc_LBRR_flags :: "bool list"
  indices_LBRR :: "SideInfoIndices list"
  pulses_LBRR :: "int list list"

record silk_stereo_enc =
  predIx :: "(stereo_ix \<times> stereo_ix) list"
  mid_only_flags :: "nat list"

definition silk_LBRR_flags_iCDF_ptr :: "int list list" where
  "silk_LBRR_flags_iCDF_ptr = [silk_LBRR_flags_2_iCDF, silk_LBRR_flags_3_iCDF]"

definition silk_LBRR_symbol :: "nat \<Rightarrow> bool list \<Rightarrow> nat" where
  "silk_LBRR_symbol nFramesPerPacket flags =
    foldl (\<lambda>LBRR_symbol i. LBRR_symbol OR (if flags ! i then 1 else 0) * 2 ^ i) 0 [0..<nFramesPerPacket]"

definition silk_encode_LBRR_flags :: "nat \<Rightarrow> silk_encoder_channel \<Rightarrow> ec_ctx \<Rightarrow> ec_ctx option" where
  "silk_encode_LBRR_flags nFramesPerPacket ch e =
    (let LBRR_symbol = silk_LBRR_symbol nFramesPerPacket (enc_LBRR_flags ch)
     in if LBRR_symbol \<noteq> 0 \<and> nFramesPerPacket > 1 then ec_enc_icdf e (LBRR_symbol - 1) (silk_LBRR_flags_iCDF_ptr ! (nFramesPerPacket - 2)) 8 else Some e)"

definition silk_set_LBRR_flag :: "nat \<Rightarrow> silk_encoder_channel \<Rightarrow> silk_encoder_channel" where
  "silk_set_LBRR_flag nFramesPerPacket ch = ch\<lparr>enc_LBRR_flag := silk_LBRR_symbol nFramesPerPacket (enc_LBRR_flags ch) > 0\<rparr>"

text \<open>\<open>CODE_CONDITIONALLY\<close> is 2, \<open>CODE_INDEPENDENTLY\<close> 0.\<close>

definition silk_LBRR_condCoding :: "bool list \<Rightarrow> nat \<Rightarrow> nat" where
  "silk_LBRR_condCoding flags i = (if i > 0 \<and> flags ! (i - 1) then 2 else 0)"

definition silk_encode_LBRR_frame :: "silk_stereo_enc \<Rightarrow> silk_encoder_channel list \<Rightarrow> nat \<times> nat \<Rightarrow> ec_ctx \<Rightarrow> (ec_ctx \<times> silk_encoder_channel list) option" where
  "silk_encode_LBRR_frame st chs = (\<lambda>(i, n) e.
    let ch = chs ! n; ix = indices_LBRR ch ! i
    in if enc_LBRR_flags ch ! i then
         do { e \<leftarrow> (if length chs = 2 \<and> n = 0 then
                do { e \<leftarrow> silk_stereo_encode_pred (predIx st ! i) e;
                     if enc_LBRR_flags (chs ! 1) ! i then Some e else silk_stereo_encode_mid_only (mid_only_flags st ! i) e }
                else Some e);
              (e, coder) \<leftarrow> silk_encode_indices (enc_coder ch) ix True (silk_LBRR_condCoding (enc_LBRR_flags ch) i) e;
              (e, q) \<leftarrow> silk_encode_pulses (nat (signalType ix)) (nat (quantOffsetType ix)) (pulses_LBRR ch ! i) (enc_frame_length ch) e;
              Some (e, chs[n := ch\<lparr>enc_coder := coder\<rparr>]) }
       else Some (e, chs))"

fun silk_encode_LBRR_frames :: "silk_stereo_enc \<Rightarrow> (nat \<times> nat) list \<Rightarrow> silk_encoder_channel list \<Rightarrow> ec_ctx \<Rightarrow> (ec_ctx \<times> silk_encoder_channel list) option" where
  "silk_encode_LBRR_frames st [] chs e = Some (e, chs)"
| "silk_encode_LBRR_frames st (p # ps) chs e = do { (e, chs) \<leftarrow> silk_encode_LBRR_frame st chs p e; silk_encode_LBRR_frames st ps chs e }"

text \<open>The two loops, over the frames and over the channels.\<close>

definition silk_LBRR_frames :: "nat \<Rightarrow> nat \<Rightarrow> (nat \<times> nat) list" where
  "silk_LBRR_frames nFramesPerPacket nChannelsInternal = [(i, n). i \<leftarrow> [0..<nFramesPerPacket], n \<leftarrow> [0..<nChannelsInternal]]"

definition silk_reset_LBRR_flags :: "silk_encoder_channel \<Rightarrow> silk_encoder_channel" where
  "silk_reset_LBRR_flags ch = ch\<lparr>enc_LBRR_flags := replicate (length (enc_LBRR_flags ch)) False\<rparr>"

definition silk_encode_LBRR :: "nat \<Rightarrow> silk_stereo_enc \<Rightarrow> silk_encoder_channel list \<Rightarrow> ec_ctx \<Rightarrow> (ec_ctx \<times> silk_encoder_channel list) option" where
  "silk_encode_LBRR nFramesPerPacket st chs e =
    do { e \<leftarrow> encode_each (silk_encode_LBRR_flags nFramesPerPacket) chs e;
         (e, chs) \<leftarrow> silk_encode_LBRR_frames st (silk_LBRR_frames nFramesPerPacket (length chs)) (map (silk_set_LBRR_flag nFramesPerPacket) chs) e;
         Some (e, map silk_reset_LBRR_flags chs) }"

section \<open>The decoder\<close>

record silk_channel_state =
  dec_coder :: silk_coder_state
  dec_frame_length :: nat
  dec_indices :: SideInfoIndices
  VAD_flags :: "bool list"
  LBRR_flag :: bool
  LBRR_flags :: "bool list"

definition silk_decode_VAD_flags :: "nat \<Rightarrow> silk_channel_state \<Rightarrow> ec_ctx \<Rightarrow> (ec_ctx \<times> silk_channel_state) option" where
  "silk_decode_VAD_flags nFramesPerPacket ch d =
    do { (d, vs) \<leftarrow> decode_each (\<lambda>i d. ec_dec_bit_logp d 1) [0..<nFramesPerPacket] d;
         (d, f) \<leftarrow> ec_dec_bit_logp d 1;
         Some (d, ch\<lparr>VAD_flags := overwrite vs (VAD_flags ch), LBRR_flag := f\<rparr>) }"

definition silk_decode_LBRR_flags :: "nat \<Rightarrow> silk_channel_state \<Rightarrow> ec_ctx \<Rightarrow> (ec_ctx \<times> silk_channel_state) option" where
  "silk_decode_LBRR_flags nFramesPerPacket ch d =
    (let ch = ch\<lparr>LBRR_flags := replicate 3 False\<rparr>
     in if LBRR_flag ch then
          if nFramesPerPacket = 1 then Some (d, ch\<lparr>LBRR_flags := (LBRR_flags ch)[0 := True]\<rparr>)
          else do { (d, x) \<leftarrow> ec_dec_icdf d (silk_LBRR_flags_iCDF_ptr ! (nFramesPerPacket - 2)) 8;
                    let LBRR_symbol = x + 1
                    in Some (d, ch\<lparr>LBRR_flags := overwrite (map (\<lambda>i. LBRR_symbol div 2 ^ i AND 1 = 1) [0..<nFramesPerPacket]) (LBRR_flags ch)\<rparr>) }
        else Some (d, ch))"

text \<open>One redundant frame that is read over. The predictors and the flag that come with it are not used; they are read again for the frame itself.\<close>

definition silk_skip_LBRR_frame :: "silk_channel_state list \<Rightarrow> nat \<times> nat \<Rightarrow> ec_ctx \<Rightarrow> (ec_ctx \<times> silk_channel_state list) option" where
  "silk_skip_LBRR_frame chs = (\<lambda>(i, n) d.
    let ch = chs ! n
    in if LBRR_flags ch ! i then
         do { (d, u) \<leftarrow> (if length chs = 2 \<and> n = 0 then
                do { (d, pred) \<leftarrow> silk_stereo_decode_pred d;
                     if LBRR_flags (chs ! 1) ! i then Some (d, ()) else do { (d, f) \<leftarrow> silk_stereo_decode_mid_only d; Some (d, ()) } }
                else Some (d, ()));
              (d, ix, coder) \<leftarrow> silk_decode_indices (dec_coder ch) (VAD_flags ch ! i) True (silk_LBRR_condCoding (LBRR_flags ch) i) (dec_indices ch) d;
              (d, pulses) \<leftarrow> silk_decode_pulses (nat (signalType ix)) (nat (quantOffsetType ix)) (dec_frame_length ch) d;
              Some (d, chs[n := ch\<lparr>dec_indices := ix, dec_coder := coder\<rparr>]) }
       else Some (d, chs))"

fun silk_skip_LBRR_frames :: "(nat \<times> nat) list \<Rightarrow> silk_channel_state list \<Rightarrow> ec_ctx \<Rightarrow> (ec_ctx \<times> silk_channel_state list) option" where
  "silk_skip_LBRR_frames [] chs d = Some (d, chs)"
| "silk_skip_LBRR_frames (p # ps) chs d = do { (d, chs) \<leftarrow> silk_skip_LBRR_frame chs p d; silk_skip_LBRR_frames ps chs d }"

definition silk_decode_LBRR :: "nat \<Rightarrow> silk_channel_state list \<Rightarrow> ec_ctx \<Rightarrow> (ec_ctx \<times> silk_channel_state list) option" where
  "silk_decode_LBRR nFramesPerPacket chs d =
    do { (d, chs) \<leftarrow> decode_each (silk_decode_LBRR_flags nFramesPerPacket) chs d;
         silk_skip_LBRR_frames (silk_LBRR_frames nFramesPerPacket (length chs)) chs d }"

definition silk_decode_header :: "nat \<Rightarrow> silk_channel_state list \<Rightarrow> ec_ctx \<Rightarrow> (ec_ctx \<times> silk_channel_state list) option" where
  "silk_decode_header nFramesPerPacket chs d =
    do { (d, chs) \<leftarrow> decode_each (silk_decode_VAD_flags nFramesPerPacket) chs d; silk_decode_LBRR nFramesPerPacket chs d }"

end
