(* ===== verification/Silk_Packet_Code.thy ===== *)
theory Silk_Packet_Code
  imports Silk_Packet
begin

text \<open>
  The redundant frames are read over in step: after them the decoder holds the coding state of the encoder, channel by channel, and the flags that the encoder
  had. On any buffer the flags and the redundant frames are read without failure, and the tables of the state stay right.
\<close>

unbundle bit_operations_syntax

section \<open>Flags\<close>

lemma LBRR_tables_full: "full_table (silk_LBRR_flags_iCDF_ptr ! 0) 3" "full_table (silk_LBRR_flags_iCDF_ptr ! 1) 7"
  by code_simp+

lemma LBRR_table: "n \<in> {2, 3} \<Longrightarrow> full_table (silk_LBRR_flags_iCDF_ptr ! (n - 2)) (2 ^ n - 1)"
  using LBRR_tables_full by auto

lemma LBRR_symbol_flags:
  assumes "n \<in> {1, 2, 3}" "length flags = n"
  shows "silk_LBRR_symbol n flags < 2 ^ n" "map (\<lambda>i. silk_LBRR_symbol n flags div 2 ^ i AND 1 = 1) [0..<n] = flags"
    "silk_LBRR_symbol n flags \<noteq> 0 \<longleftrightarrow> True \<in> set flags"
proof -
  have "list_all (\<lambda>n. list_all (\<lambda>flags. silk_LBRR_symbol n flags < 2 ^ n \<and> map (\<lambda>i. silk_LBRR_symbol n flags div 2 ^ i AND 1 = 1) [0..<n] = flags \<and>
      (silk_LBRR_symbol n flags \<noteq> 0 \<longleftrightarrow> True \<in> set flags)) (List.n_lists n [True, False])) [1, 2, 3]"
    by code_simp
  moreover have "n \<in> set [1, 2, 3]" using assms(1) by simp
  moreover have "flags \<in> set (List.n_lists n [True, False])" using assms(2) by (auto simp: set_n_lists)
  ultimately show "silk_LBRR_symbol n flags < 2 ^ n" "map (\<lambda>i. silk_LBRR_symbol n flags div 2 ^ i AND 1 = 1) [0..<n] = flags"
    "silk_LBRR_symbol n flags \<noteq> 0 \<longleftrightarrow> True \<in> set flags" unfolding list_all_iff by blast+
qed

text \<open>The flags as the decoder stores them, in an array of three.\<close>

definition stored_flags :: "bool list \<Rightarrow> bool list" where
  "stored_flags flags = overwrite flags (replicate 3 False)"

lemma stored_flags_nth: "i < length flags \<Longrightarrow> stored_flags flags ! i = flags ! i"
  by (simp add: stored_flags_def overwrite_def nth_append)

lemma codes_LBRR_flags:
  assumes n: "n \<in> {1, 2, 3}" and f: "length (enc_LBRR_flags ch) = n" and flag: "LBRR_flag dch \<longleftrightarrow> True \<in> set (enc_LBRR_flags ch)"
  shows "codes (silk_encode_LBRR_flags n ch) (silk_decode_LBRR_flags n dch) (dch\<lparr>LBRR_flags := stored_flags (enc_LBRR_flags ch)\<rparr>)"
proof -
  define x where "x = silk_LBRR_symbol n (enc_LBRR_flags ch)"
  note s = LBRR_symbol_flags [OF n f, folded x_def]
  show ?thesis
  proof (cases "x = 0")
    case True
    then have "True \<notin> set (enc_LBRR_flags ch)" using s(3) by simp
    then have "enc_LBRR_flags ch = replicate n False" using f by (metis replicate_eqI)
    then have "stored_flags (enc_LBRR_flags ch) = replicate 3 False" using n by (auto simp: stored_flags_def overwrite_def eval_nat_numeral)
    then have d: "silk_decode_LBRR_flags n dch = (\<lambda>d. Some (d, dch\<lparr>LBRR_flags := stored_flags (enc_LBRR_flags ch)\<rparr>))"
      using flag \<open>True \<notin> _\<close> by (simp add: silk_decode_LBRR_flags_def fun_eq_iff)
    have e: "silk_encode_LBRR_flags n ch = Some" using True by (simp add: silk_encode_LBRR_flags_def x_def fun_eq_iff)
    show ?thesis unfolding d e by (rule codes_return)
  next
    case False
    then have l: "LBRR_flag dch" using s(3) flag by simp
    show ?thesis
    proof (cases "n = 1")
      case True
      then have "enc_LBRR_flags ch = [True]" using f s(3) False by (cases "enc_LBRR_flags ch") auto
      then have "stored_flags (enc_LBRR_flags ch) = [True, False, False]" by (simp add: stored_flags_def overwrite_def eval_nat_numeral)
      then have d: "silk_decode_LBRR_flags n dch = (\<lambda>d. Some (d, dch\<lparr>LBRR_flags := stored_flags (enc_LBRR_flags ch)\<rparr>))"
        using l True by (simp add: silk_decode_LBRR_flags_def fun_eq_iff eval_nat_numeral)
      have e: "silk_encode_LBRR_flags n ch = Some" using True by (simp add: silk_encode_LBRR_flags_def fun_eq_iff)
      show ?thesis unfolding d e by (rule codes_return)
    next
      case False
      then have n2: "n \<in> {2, 3}" "\<not> n \<le> 1" using n by auto
      have x: "x - 1 < 2 ^ n - 1" "x - 1 + 1 = x" using s(1) \<open>x \<noteq> 0\<close> by simp_all
      have e: "silk_encode_LBRR_flags n ch = (\<lambda>e. ec_enc_icdf e (x - 1) (silk_LBRR_flags_iCDF_ptr ! (n - 2)) 8)"
        using n2 \<open>x \<noteq> 0\<close> by (simp add: silk_encode_LBRR_flags_def x_def fun_eq_iff)
      have d: "silk_decode_LBRR_flags n dch = (\<lambda>d. do { (d, x) \<leftarrow> ec_dec_icdf d (silk_LBRR_flags_iCDF_ptr ! (n - 2)) 8;
          Some (d, dch\<lparr>LBRR_flags := overwrite (map (\<lambda>i. (x + 1) div 2 ^ i AND 1 = 1) [0..<n]) (replicate 3 False)\<rparr>) })"
        using n2 l by (simp add: silk_decode_LBRR_flags_def Let_def fun_eq_iff)
      show ?thesis unfolding d e by (rule codes_then [OF codes_full [OF LBRR_table [OF n2(1)] x(1)]]) (simp only: x(2) s(2) stored_flags_def)
    qed
  qed
qed

section \<open>Frames\<close>

text \<open>The checks on redundant data depend on the tables of the state only, which coding a frame does not change.\<close>

lemma next_state_fixed:
  "fs_kHz (silk_next_state st ix) = fs_kHz st" "nb_subfr (silk_next_state st ix) = nb_subfr st" "psNLSF_CB (silk_next_state st ix) = psNLSF_CB st"
  by (simp_all add: silk_next_state_def)

lemma valid_indices_next: "valid_indices (silk_next_state st ix) c jx = valid_indices st c jx"
  by (simp add: valid_indices_def valid_gains_def valid_NLSFs_def valid_voiced_def contour_size_def next_state_fixed)

definition valid_frame :: "silk_coder_state \<Rightarrow> nat \<Rightarrow> nat \<Rightarrow> SideInfoIndices \<Rightarrow> int list \<Rightarrow> bool" where
  "valid_frame st condCoding fl ix xs \<longleftrightarrow> valid_indices st condCoding ix \<and> 1 \<le> signalType ix \<and>
     16 * silk_iter fl \<le> length (silk_pad_pulses xs fl) \<and> list_all (\<lambda>q. \<bar>q\<bar> < 128) (take (16 * silk_iter fl) (silk_pad_pulses xs fl))"

definition valid_LBRR_channel :: "nat \<Rightarrow> silk_encoder_channel \<Rightarrow> bool" where
  "valid_LBRR_channel n ch \<longleftrightarrow> silk_state_ok (enc_coder ch) \<and> silk_frame_length (enc_frame_length ch) \<and> length (enc_LBRR_flags ch) = n \<and>
     list_all (\<lambda>i. enc_LBRR_flags ch ! i \<longrightarrow>
       valid_frame (enc_coder ch) (silk_LBRR_condCoding (enc_LBRR_flags ch) i) (enc_frame_length ch) (indices_LBRR ch ! i) (pulses_LBRR ch ! i)) [0..<n]"

definition valid_LBRR :: "nat \<Rightarrow> silk_stereo_enc \<Rightarrow> silk_encoder_channel list \<Rightarrow> bool" where
  "valid_LBRR n st chs \<longleftrightarrow> n \<in> {1, 2, 3} \<and> length chs \<in> {1, 2} \<and> list_all (valid_LBRR_channel n) chs \<and>
     (length chs = 2 \<longrightarrow> list_all (\<lambda>i. enc_LBRR_flags (chs ! 0) ! i \<longrightarrow>
       stereo_ix_ok (fst (predIx st ! i)) \<and> stereo_ix_ok (snd (predIx st ! i)) \<and> mid_only_flags st ! i < 2) [0..<n])"

lemma list_all_update: "list_all P xs \<Longrightarrow> P x \<Longrightarrow> list_all P (xs[k := x])"
  by (induction xs arbitrary: k) (auto split: nat.splits)

text \<open>A channel of the decoder in step with one of the encoder.\<close>

definition in_step :: "silk_encoder_channel \<Rightarrow> silk_channel_state \<Rightarrow> bool" where
  "in_step ch dch \<longleftrightarrow> dec_coder dch = enc_coder ch \<and> dec_frame_length dch = enc_frame_length ch \<and> LBRR_flags dch = stored_flags (enc_LBRR_flags ch)"

lemma received_types: "signalType (received_indices st c ix old) = signalType ix" "quantOffsetType (received_indices st c ix old) = quantOffsetType ix"
  by (simp_all add: received_indices_def Let_def voiced_fields_def)

lemma encode_indices_state: "silk_encode_indices st ix lbrr c e = Some (e', x) \<Longrightarrow> x = silk_next_state st ix"
  unfolding silk_encode_indices_def Let_def by (auto simp: bind_eq_Some_conv)

lemma frame_in_step:
  assumes v: "valid_LBRR n st chs" and s: "list_all2 in_step chs dchs" and i: "i < n" "k < length chs"
  shows "\<exists>chs' dchs'. codes_to (silk_encode_LBRR_frame st chs (i, k)) chs' (silk_skip_LBRR_frame dchs (i, k)) dchs' \<and>
    valid_LBRR n st chs' \<and> list_all2 in_step chs' dchs' \<and> map enc_LBRR_flags chs' = map enc_LBRR_flags chs"
proof -
  define ch dch where "ch = chs ! k" and "dch = dchs ! k"
  define ix xs fl fs where "ix = indices_LBRR ch ! i" and "xs = pulses_LBRR ch ! i" and "fl = enc_frame_length ch" and "fs = enc_LBRR_flags ch"
  define c where "c = silk_LBRR_condCoding fs i"
  have len: "length dchs = length chs" using list_all2_lengthD [OF s] by simp
  have is1: "in_step (chs ! m) (dchs ! m)" if "m < length chs" for m using list_all2_nthD [OF s that] .
  have vc: "valid_LBRR_channel n (chs ! m)" if "m < length chs" for m using v that by (simp add: valid_LBRR_def list_all_length)
  have fl_n: "length fs = n" using vc [OF i(2)] by (simp add: valid_LBRR_channel_def fs_def ch_def)
  have d: "dec_coder dch = enc_coder ch" "dec_frame_length dch = fl" "LBRR_flags dch ! i = fs ! i" "LBRR_flags dch = stored_flags fs"
    using is1 [OF i(2)] i(1) fl_n stored_flags_nth [of i fs] by (simp_all add: in_step_def dch_def ch_def fl_def fs_def)
  have dc: "silk_LBRR_condCoding (LBRR_flags dch) i = c"
    using stored_flags_nth [of "i - 1" fs] fl_n i(1) unfolding d(4) c_def silk_LBRR_condCoding_def by (cases i) simp_all
  show ?thesis
  proof (cases "fs ! i")
    case False
    have "silk_encode_LBRR_frame st chs (i, k) = (\<lambda>e. Some (e, chs))" "silk_skip_LBRR_frame dchs (i, k) = (\<lambda>d. Some (d, dchs))"
      using False d(3) by (simp_all add: silk_encode_LBRR_frame_def silk_skip_LBRR_frame_def ch_def [symmetric] dch_def [symmetric] fs_def [symmetric] fun_eq_iff)
    then show ?thesis using codes_to_return [of chs dchs] v s by metis
  next
    case True
    have vf: "valid_indices (enc_coder ch) c ix" "1 \<le> signalType ix" "16 * silk_iter fl \<le> length (silk_pad_pulses xs fl)"
      "list_all (\<lambda>q. \<bar>q\<bar> < 128) (take (16 * silk_iter fl) (silk_pad_pulses xs fl))" "silk_state_ok (enc_coder ch)" "silk_frame_length fl"
      using vc [OF i(2)] True i(1) unfolding valid_LBRR_channel_def valid_frame_def
      by (simp_all add: ch_def [symmetric] fs_def ix_def xs_def fl_def c_def list_all_iff)
    define ix' where "ix' = received_indices (enc_coder ch) c ix (dec_indices dch)"
    define st' where "st' = silk_next_state (enc_coder ch) ix"
    have ty: "nat (signalType ix) < 3" "nat (quantOffsetType ix) < 2" "signalType ix' = signalType ix" "quantOffsetType ix' = quantOffsetType ix"
      using vf(1) received_types by (auto simp: valid_indices_def ix'_def)
    have stereo: "codes (\<lambda>e. if length chs = 2 \<and> k = 0 then
          do { e \<leftarrow> silk_stereo_encode_pred (predIx st ! i) e;
               if enc_LBRR_flags (chs ! 1) ! i then Some e else silk_stereo_encode_mid_only (mid_only_flags st ! i) e } else Some e)
        (\<lambda>d. if length dchs = 2 \<and> k = 0 then
          do { (d, pred) \<leftarrow> silk_stereo_decode_pred d;
               if LBRR_flags (dchs ! 1) ! i then Some (d, ()) else do { (d, f) \<leftarrow> silk_stereo_decode_mid_only d; Some (d, ()) } } else Some (d, ())) ()"
    proof (cases "length chs = 2 \<and> k = 0")
      case False
      show ?thesis unfolding len if_not_P [OF False] by (rule codes_return)
    next
      case two: True
      have st: "stereo_ix_ok (fst (predIx st ! i))" "stereo_ix_ok (snd (predIx st ! i))" "mid_only_flags st ! i < 2"
        using v two True i(1) by (auto simp: valid_LBRR_def list_all_iff fs_def ch_def)
      have f1: "LBRR_flags (dchs ! 1) ! i = enc_LBRR_flags (chs ! 1) ! i"
        using is1 [of 1] vc [of 1] two i(1) stored_flags_nth [of i "enc_LBRR_flags (chs ! 1)"] by (simp add: in_step_def valid_LBRR_channel_def)
      have p: "codes (silk_stereo_encode_pred (predIx st ! i)) silk_stereo_decode_pred
          (stereo_value (fst (predIx st ! i)) - stereo_value (snd (predIx st ! i)), stereo_value (snd (predIx st ! i)))"
        using codes_stereo_pred [OF st(1,2)] by simp
      show ?thesis
      proof (cases "enc_LBRR_flags (chs ! 1) ! i")
        case True
        then show ?thesis using codes_then [OF p, of "\<lambda>d p. Some (d, ())" "()"] two len f1 by (simp add: case_prod_unfold)
      next
        case False
        have "codes (\<lambda>e. do { e \<leftarrow> silk_stereo_encode_pred (predIx st ! i) e; silk_stereo_encode_mid_only (mid_only_flags st ! i) e })
          (\<lambda>d. do { (d, pred) \<leftarrow> silk_stereo_decode_pred d; do { (d, f) \<leftarrow> silk_stereo_decode_mid_only d; Some (d, ()) } }) ()"
          by (rule codes_bind [OF p], rule codes_then [OF codes_mid_only [OF st(3)]]) simp
        then show ?thesis using False two len f1 by simp
      qed
    qed
    have ind: "codes_to (silk_encode_indices (enc_coder ch) ix True c) st' (silk_decode_indices (enc_coder ch) (VAD_flags dch ! i) True c (dec_indices dch)) (ix', st')"
      by (rule codes_toI) (use codes_indices [OF vf(5,1), of True "VAD_flags dch ! i" "dec_indices dch"] vf(2) encode_indices_state in \<open>simp_all add: ix'_def st'_def\<close>)
    define chs' dchs' where "chs' = chs[k := ch\<lparr>enc_coder := st'\<rparr>]" and "dchs' = dchs[k := dch\<lparr>dec_indices := ix', dec_coder := st'\<rparr>]"
    have pul: "codes_to (\<lambda>e. do { (e, q) \<leftarrow> silk_encode_pulses (nat (signalType ix)) (nat (quantOffsetType ix)) xs fl e; Some (e, chs') }) chs'
        (\<lambda>d. do { (d, pulses) \<leftarrow> silk_decode_pulses (nat (signalType ix')) (nat (quantOffsetType ix')) fl d; Some (d, dchs') }) dchs'"
    proof (rule codes_toI)
      have e: "map_option fst (do { (e, q) \<leftarrow> silk_encode_pulses st qo xs fl e; Some (e, chs') }) = map_option fst (silk_encode_pulses st qo xs fl e)" for st qo e
        by (cases "silk_encode_pulses st qo xs fl e") auto
      show "codes (\<lambda>e. map_option fst (do { (e, q) \<leftarrow> silk_encode_pulses (nat (signalType ix)) (nat (quantOffsetType ix)) xs fl e; Some (e, chs') }))
          (\<lambda>d. do { (d, pulses) \<leftarrow> silk_decode_pulses (nat (signalType ix')) (nat (quantOffsetType ix')) fl d; Some (d, dchs') }) dchs'"
        unfolding e ty(3,4) by (rule codes_then [OF codes_pulses [OF vf(6) ty(1,2) vf(3,4)]]) simp
    qed (auto simp: bind_eq_Some_conv)
    have "codes_to (silk_encode_LBRR_frame st chs (i, k)) chs' (silk_skip_LBRR_frame dchs (i, k)) dchs'"
      unfolding silk_encode_LBRR_frame_def silk_skip_LBRR_frame_def prod.case Let_def ch_def [symmetric] dch_def [symmetric] d(1-3) dc
        fs_def [symmetric] if_P [OF True] c_def [symmetric] ix_def [symmetric] xs_def [symmetric] fl_def [symmetric] unfolding chs'_def dchs'_def
      by (rule codes_to_seq [OF stereo], rule codes_to_bind [OF ind], use pul in \<open>simp add: chs'_def dchs'_def\<close>)
    moreover have "valid_LBRR n st chs'"
    proof -
      have "valid_LBRR_channel n (ch\<lparr>enc_coder := st'\<rparr>)" using vc [OF i(2)] next_state_ok [OF vf(5)]
        by (simp add: ch_def [symmetric] valid_LBRR_channel_def st'_def valid_frame_def valid_indices_next)
      then have "list_all (valid_LBRR_channel n) chs'" using v unfolding chs'_def by (intro list_all_update) (simp_all add: valid_LBRR_def)
      moreover have "enc_LBRR_flags (chs' ! 0) = enc_LBRR_flags (chs ! 0)" using i(2) by (auto simp: chs'_def nth_list_update ch_def)
      ultimately show ?thesis using v by (simp add: valid_LBRR_def chs'_def)
    qed
    moreover have "list_all2 in_step chs' dchs'"
      unfolding chs'_def dchs'_def by (rule list_all2_update_cong [OF s]) (use d in \<open>simp add: in_step_def fl_def fs_def\<close>)
    moreover have "map enc_LBRR_flags chs' = map enc_LBRR_flags chs"
      using i(2) by (simp add: chs'_def map_update ch_def list_update_same_conv)
    ultimately show ?thesis by blast
  qed
qed

lemma frames_in_step:
  assumes "valid_LBRR n st chs" "list_all2 in_step chs dchs" "\<forall>(i, k) \<in> set ps. i < n \<and> k < length chs"
  shows "\<exists>chs' dchs'. codes_to (silk_encode_LBRR_frames st ps chs) chs' (silk_skip_LBRR_frames ps dchs) dchs' \<and>
    list_all2 in_step chs' dchs' \<and> map enc_LBRR_flags chs' = map enc_LBRR_flags chs"
  using assms
proof (induction ps arbitrary: chs dchs)
  case Nil
  have "silk_encode_LBRR_frames st [] chs = (\<lambda>e. Some (e, chs))" "silk_skip_LBRR_frames [] dchs = (\<lambda>d. Some (d, dchs))" by (simp_all add: fun_eq_iff)
  then show ?case using codes_to_return [of chs dchs] Nil(2) by metis
next
  case (Cons p ps)
  obtain i k where p: "p = (i, k)" by fastforce
  obtain chs1 dchs1 where c1: "codes_to (silk_encode_LBRR_frame st chs (i, k)) chs1 (silk_skip_LBRR_frame dchs (i, k)) dchs1"
    "valid_LBRR n st chs1" "list_all2 in_step chs1 dchs1" "map enc_LBRR_flags chs1 = map enc_LBRR_flags chs"
    using frame_in_step [OF Cons(2,3), of i k] Cons(4) p by auto
  have "length chs1 = length chs" using c1(4) by (metis length_map)
  then obtain chs2 dchs2 where c2: "codes_to (silk_encode_LBRR_frames st ps chs1) chs2 (silk_skip_LBRR_frames ps dchs1) dchs2"
    "list_all2 in_step chs2 dchs2" "map enc_LBRR_flags chs2 = map enc_LBRR_flags chs1"
    using Cons(1) [OF c1(2,3)] Cons(4) by auto
  have "codes_to (silk_encode_LBRR_frames st (p # ps) chs) chs2 (silk_skip_LBRR_frames (p # ps) dchs) dchs2"
    unfolding silk_encode_LBRR_frames.simps silk_skip_LBRR_frames.simps p by (rule codes_to_bind [OF c1(1)]) (rule c2(1))
  moreover have "map enc_LBRR_flags chs2 = map enc_LBRR_flags chs" using c2(3) c1(4) by simp
  ultimately show ?case using c2(2) by blast
qed

section \<open>The whole section\<close>

text \<open>What the decoder knows before: the coding state, the frame length, and from the header whether a channel has redundant frames.\<close>

definition before_LBRR :: "silk_encoder_channel \<Rightarrow> silk_channel_state \<Rightarrow> bool" where
  "before_LBRR ch dch \<longleftrightarrow> dec_coder dch = enc_coder ch \<and> dec_frame_length dch = enc_frame_length ch \<and> (LBRR_flag dch \<longleftrightarrow> True \<in> set (enc_LBRR_flags ch))"

lemma set_LBRR_flag_fixed:
  "enc_coder (silk_set_LBRR_flag n ch) = enc_coder ch" "enc_frame_length (silk_set_LBRR_flag n ch) = enc_frame_length ch"
  "enc_LBRR_flags (silk_set_LBRR_flag n ch) = enc_LBRR_flags ch" "indices_LBRR (silk_set_LBRR_flag n ch) = indices_LBRR ch"
  "pulses_LBRR (silk_set_LBRR_flag n ch) = pulses_LBRR ch"
  by (simp_all add: silk_set_LBRR_flag_def)

lemma valid_LBRR_set_flag: "valid_LBRR n st chs \<Longrightarrow> valid_LBRR n st (map (silk_set_LBRR_flag n) chs)"
  by (auto simp: valid_LBRR_def valid_LBRR_channel_def list.pred_map comp_def set_LBRR_flag_fixed list_all_iff)

lemma LBRR_in_step:
  assumes v: "valid_LBRR n st chs" and b: "list_all2 before_LBRR chs dchs"
  shows "\<exists>chs' dchs'. codes_to (silk_encode_LBRR n st chs) chs' (silk_decode_LBRR n dchs) dchs' \<and>
    map dec_coder dchs' = map enc_coder chs' \<and> map LBRR_flags dchs' = map (\<lambda>ch. stored_flags (enc_LBRR_flags ch)) chs"
proof -
  define F where "F = (\<lambda>(ch :: silk_encoder_channel) (dch :: silk_channel_state). dch\<lparr>LBRR_flags := stored_flags (enc_LBRR_flags ch)\<rparr>)"
  define ds where "ds = map2 F chs dchs"
  have len: "length dchs = length chs" using list_all2_lengthD [OF b] by simp
  have n: "n \<in> {1, 2, 3}" "list_all (valid_LBRR_channel n) chs" using v by (simp_all add: valid_LBRR_def)
  have "list_all2 (\<lambda>ch dch. codes (silk_encode_LBRR_flags n ch) (silk_decode_LBRR_flags n dch) (F ch dch)) chs dchs"
    using b n(2) codes_LBRR_flags [OF n(1)] by (auto simp: list_all2_conv_all_nth list_all_length before_LBRR_def valid_LBRR_channel_def F_def)
  from codes_each2 [OF this] have flags: "codes (encode_each (silk_encode_LBRR_flags n) chs) (decode_each (silk_decode_LBRR_flags n) dchs) ds" by (simp add: ds_def)
  have "list_all2 in_step (map (silk_set_LBRR_flag n) chs) ds"
    using b by (auto simp: ds_def F_def list_all2_conv_all_nth in_step_def before_LBRR_def set_LBRR_flag_fixed)
  moreover have "\<forall>(i, k) \<in> set (silk_LBRR_frames n (length chs)). i < n \<and> k < length (map (silk_set_LBRR_flag n) chs)" by (auto simp: silk_LBRR_frames_def)
  ultimately obtain chs1 dchs1 where f: "codes_to (silk_encode_LBRR_frames st (silk_LBRR_frames n (length chs)) (map (silk_set_LBRR_flag n) chs)) chs1
      (silk_skip_LBRR_frames (silk_LBRR_frames n (length chs)) ds) dchs1" "list_all2 in_step chs1 dchs1"
      "map enc_LBRR_flags chs1 = map enc_LBRR_flags (map (silk_set_LBRR_flag n) chs)"
    using frames_in_step [OF valid_LBRR_set_flag [OF v]] by blast
  have "codes_to (\<lambda>e. do { (e, chs) \<leftarrow> silk_encode_LBRR_frames st (silk_LBRR_frames n (length chs)) (map (silk_set_LBRR_flag n) chs) e;
         Some (e, map silk_reset_LBRR_flags chs) }) (map silk_reset_LBRR_flags chs1)
      (\<lambda>d. do { (d, chs) \<leftarrow> silk_skip_LBRR_frames (silk_LBRR_frames n (length chs)) ds d; Some (d, chs) }) dchs1"
    by (rule codes_to_bind [OF f(1) codes_to_return])
  moreover have "(\<lambda>d. do { (d, chs) \<leftarrow> silk_skip_LBRR_frames (silk_LBRR_frames n (length chs)) ds d; Some (d, chs) }) =
      silk_skip_LBRR_frames (silk_LBRR_frames n (length ds)) ds" using len by (simp add: ds_def fun_eq_iff)
  ultimately have rest: "codes_to (\<lambda>e. do { (e, chs) \<leftarrow> silk_encode_LBRR_frames st (silk_LBRR_frames n (length chs)) (map (silk_set_LBRR_flag n) chs) e;
         Some (e, map silk_reset_LBRR_flags chs) }) (map silk_reset_LBRR_flags chs1) (silk_skip_LBRR_frames (silk_LBRR_frames n (length ds)) ds) dchs1" by simp
  have "codes_to (silk_encode_LBRR n st chs) (map silk_reset_LBRR_flags chs1) (silk_decode_LBRR n dchs) dchs1"
    unfolding silk_encode_LBRR_def [abs_def] silk_decode_LBRR_def [abs_def] by (rule codes_to_seq [OF flags]) (rule rest)
  moreover have "map dec_coder dchs1 = map enc_coder (map silk_reset_LBRR_flags chs1)"
    using f(2) by (intro nth_equalityI) (auto simp: list_all2_conv_all_nth in_step_def silk_reset_LBRR_flags_def)
  moreover have "map LBRR_flags dchs1 = map (\<lambda>ch. stored_flags (enc_LBRR_flags ch)) chs1"
    using f(2) by (intro nth_equalityI) (auto simp: list_all2_conv_all_nth in_step_def)
  moreover have "map (\<lambda>ch. stored_flags (enc_LBRR_flags ch)) chs1 = map (\<lambda>ch. stored_flags (enc_LBRR_flags ch)) chs"
  proof -
    have "map stored_flags (map enc_LBRR_flags chs1) = map stored_flags (map enc_LBRR_flags chs)"
      unfolding f(3) by (simp add: set_LBRR_flag_fixed comp_def)
    then show ?thesis by (simp add: comp_def)
  qed
  ultimately show ?thesis by metis
qed

section \<open>Any buffer\<close>

definition channel_ok :: "silk_channel_state \<Rightarrow> bool" where
  "channel_ok ch \<longleftrightarrow> silk_state_ok (dec_coder ch) \<and> silk_frame_length (dec_frame_length ch)"

lemma answers_bit: "answers (\<lambda>d. ec_dec_bit_logp d 1) (\<lambda>_. True)"
  unfolding answers_def
proof (intro allI impI)
  fix B d assume "dec_state B d"
  from bit_answered [OF this, of 1] show "\<exists>d' v. ec_dec_bit_logp d 1 = Some (d', v) \<and> True \<and> dec_state B d'"
    by (auto simp: answered_def bind_eq_Some_conv)
qed

lemma answers_VAD_flags: "channel_ok ch \<Longrightarrow> answers (silk_decode_VAD_flags n ch) channel_ok"
  unfolding silk_decode_VAD_flags_def [abs_def]
  by (rule answers_bind [OF answers_each [OF answers_bit]], rule answers_bind [OF answers_bit], rule answers_return) (simp add: channel_ok_def)

lemma answers_LBRR_flags:
  assumes "n \<in> {1, 2, 3}" "channel_ok ch"
  shows "answers (silk_decode_LBRR_flags n ch) channel_ok"
proof (cases "LBRR_flag ch \<and> n \<noteq> 1")
  case True
  then have n: "n \<in> {2, 3}" using assms(1) by auto
  have d: "silk_decode_LBRR_flags n ch = (\<lambda>d. do { (d, x) \<leftarrow> ec_dec_icdf d (silk_LBRR_flags_iCDF_ptr ! (n - 2)) 8;
      Some (d, ch\<lparr>LBRR_flags := overwrite (map (\<lambda>i. (x + 1) div 2 ^ i AND 1 = 1) [0..<n]) (replicate 3 False)\<rparr>) })"
    using True by (simp add: silk_decode_LBRR_flags_def Let_def fun_eq_iff)
  show ?thesis unfolding d by (rule answers_bind [OF answers_full [OF LBRR_table [OF n]]], rule answers_return) (use assms(2) in \<open>simp add: channel_ok_def\<close>)
next
  case False
  then have "silk_decode_LBRR_flags n ch = (\<lambda>d. Some (d, ch\<lparr>LBRR_flags := (if LBRR_flag ch then (replicate 3 False)[0 := True] else replicate 3 False)\<rparr>))"
    by (auto simp: silk_decode_LBRR_flags_def Let_def fun_eq_iff)
  then show ?thesis using assms(2) answers_return [of channel_ok] by (simp add: channel_ok_def)
qed

lemma answers_skip_frame:
  assumes c: "list_all channel_ok chs" and k: "k < length chs"
  shows "answers (silk_skip_LBRR_frame chs (i, k)) (\<lambda>chs'. list_all channel_ok chs' \<and> length chs' = length chs)"
proof -
  define ch where "ch = chs ! k"
  have ok: "silk_state_ok (dec_coder ch)" "silk_frame_length (dec_frame_length ch)" using c k by (simp_all add: ch_def list_all_length channel_ok_def)
  have stereo: "answers (\<lambda>d. if length chs = 2 \<and> k = 0 then
          do { (d, pred) \<leftarrow> silk_stereo_decode_pred d;
               if LBRR_flags (chs ! 1) ! i then Some (d, ()) else do { (d, f) \<leftarrow> silk_stereo_decode_mid_only d; Some (d, ()) } } else Some (d, ())) (\<lambda>_. True)"
    by (intro answers_if answers_bind [OF answers_stereo] answers_bind [OF answers_full [OF stereo_tables_full(4), folded silk_stereo_decode_mid_only_def]]
        answers_return TrueI)
  have pulses: "answers (\<lambda>d. do { (d, pulses) \<leftarrow> silk_decode_pulses (nat (signalType ix)) (nat (quantOffsetType ix)) (dec_frame_length ch) d;
        Some (d, chs[k := ch\<lparr>dec_indices := ix, dec_coder := coder\<rparr>]) }) (\<lambda>chs'. list_all channel_ok chs' \<and> length chs' = length chs)"
    if "valid_indices st c (ix\<lparr>lagIndex := 0\<rparr>)" "silk_state_ok coder" for ix coder st c
  proof (rule answers_bind [OF answers_pulses [OF ok(2)]])
    show "nat (signalType ix) < 3" "nat (quantOffsetType ix) < 2" using that(1) by (auto simp: valid_indices_def)
    show "answers (\<lambda>d. Some (d, chs[k := ch\<lparr>dec_indices := ix, dec_coder := coder\<rparr>])) (\<lambda>chs'. list_all channel_ok chs' \<and> length chs' = length chs)"
      by (rule answers_return) (use c list_all_update [OF c, of "ch\<lparr>dec_indices := ix, dec_coder := coder\<rparr>" k] that(2) ok(2) in \<open>simp add: channel_ok_def\<close>)
  qed
  have rest: "answers (\<lambda>d. do { (d, ix, coder) \<leftarrow> silk_decode_indices (dec_coder ch) v True cc (dec_indices ch) d;
      (d, pulses) \<leftarrow> silk_decode_pulses (nat (signalType ix)) (nat (quantOffsetType ix)) (dec_frame_length ch) d;
      Some (d, chs[k := ch\<lparr>dec_indices := ix, dec_coder := coder\<rparr>]) }) (\<lambda>chs'. list_all channel_ok chs' \<and> length chs' = length chs)" for v cc
    by (rule answers_bind [OF answers_indices [OF ok(1)]]) (use pulses in fastforce)
  show ?thesis
  proof (cases "LBRR_flags ch ! i")
    case True
    show ?thesis unfolding silk_skip_LBRR_frame_def prod.case Let_def ch_def [symmetric] if_P [OF True]
      by (rule answers_bind [OF stereo]) (rule rest)
  next
    case False
    then show ?thesis unfolding silk_skip_LBRR_frame_def Let_def by (simp add: ch_def [symmetric] answers_return c)
  qed
qed

lemma answers_skip_frames:
  assumes "list_all channel_ok chs" "\<forall>(i, k) \<in> set ps. k < length chs"
  shows "answers (silk_skip_LBRR_frames ps chs) (\<lambda>chs'. list_all channel_ok chs' \<and> length chs' = length chs)"
  using assms
proof (induction ps arbitrary: chs)
  case Nil
  then show ?case using answers_return by (simp add: answers_def)
next
  case (Cons p ps)
  obtain i k where p: "p = (i, k)" by fastforce
  show ?case unfolding silk_skip_LBRR_frames.simps
  proof (rule answers_bind)
    show "answers (silk_skip_LBRR_frame chs p) (\<lambda>chs'. list_all channel_ok chs' \<and> length chs' = length chs)"
      unfolding p by (rule answers_skip_frame) (use Cons(2,3) p in auto)
    show "answers (silk_skip_LBRR_frames ps chs1) (\<lambda>chs'. list_all channel_ok chs' \<and> length chs' = length chs)" if "list_all channel_ok chs1 \<and> length chs1 = length chs" for chs1
      using Cons(1) [of chs1] that Cons(3) by auto
  qed
qed

lemma answers_header:
  assumes "n \<in> {1, 2, 3}" "list_all channel_ok chs"
  shows "answers (silk_decode_header n chs) (\<lambda>chs'. list_all channel_ok chs' \<and> length chs' = length chs)"
proof -
  have each: "answers (decode_each f cs) (\<lambda>cs'. list_all channel_ok cs' \<and> length cs' = length cs)" if "\<And>c. channel_ok c \<Longrightarrow> answers (f c) channel_ok" "list_all channel_ok cs" for f cs
  proof -
    have "answers (f c) channel_ok" if "c \<in> set cs" for c using that \<open>list_all channel_ok cs\<close> \<open>\<And>c. channel_ok c \<Longrightarrow> answers (f c) channel_ok\<close> by (simp add: list_all_iff)
    then have "answers (decode_each f cs) (list_all2 (\<lambda>_. channel_ok) cs)" by (rule answers_each)
    then show ?thesis by (rule answers_mono) (auto simp: list_all2_conv_all_nth list_all_length)
  qed
  have lbrr: "answers (silk_decode_LBRR n cs) (\<lambda>cs'. list_all channel_ok cs' \<and> length cs' = length cs)" if "list_all channel_ok cs" for cs
    unfolding silk_decode_LBRR_def [abs_def]
  proof (rule answers_bind [OF each [OF answers_LBRR_flags [OF assms(1)] that]])
    fix cs1 assume "list_all channel_ok cs1 \<and> length cs1 = length cs"
    then show "answers (silk_skip_LBRR_frames (silk_LBRR_frames n (length cs1)) cs1) (\<lambda>cs'. list_all channel_ok cs' \<and> length cs' = length cs)"
      using answers_skip_frames [of cs1 "silk_LBRR_frames n (length cs1)"] by (auto simp: silk_LBRR_frames_def)
  qed
  show ?thesis unfolding silk_decode_header_def [abs_def]
  proof (rule answers_bind [OF each [OF answers_VAD_flags assms(2)]])
    fix cs1 assume "list_all channel_ok cs1 \<and> length cs1 = length chs"
    then show "answers (silk_decode_LBRR n cs1) (\<lambda>cs'. list_all channel_ok cs' \<and> length cs' = length chs)" using lbrr [of cs1] by auto
  qed assumption
qed

end
