(* ===== verification/Silk_Gains.thy ===== *)
theory Silk_Gains
  imports Opus_Range Silk_Macros
begin

text \<open>
  The quantizer of the subframe gains, \<open>src/Vendor/opus/silk/gain_quant.c\<close> with the logarithms of \<open>lin2log.c\<close> and \<open>log2lin.c\<close>. Encoder and decoder each
  carry the last index to the next subframe; the decoder clamps it in other places than the encoder does, and that both stay the same is proved here.
\<close>

unbundle bit_operations_syntax

section \<open>Logarithms\<close>

definition silk_CLZ32 :: "int \<Rightarrow> int" where
  "silk_CLZ32 in32 = (if in32 \<noteq> 0 then 32 - EC_ILOG (w32 in32) else 32)"

text \<open>The rotation as an unsigned value; only its low bits are used.\<close>

definition silk_ROR32 :: "int \<Rightarrow> int \<Rightarrow> int" where
  "silk_ROR32 a32 rot =
    (let x = w32 a32; r = nat rot; m = nat (- rot)
     in if rot = 0 then x
        else if rot < 0 then w32 (x * 2 ^ m) OR x div 2 ^ (32 - m)
        else w32 (x * 2 ^ (32 - r)) OR x div 2 ^ r)"

definition silk_CLZ_FRAC :: "int \<Rightarrow> int \<times> int" where
  "silk_CLZ_FRAC x = (let lzeros = silk_CLZ32 x in (lzeros, silk_ROR32 x (24 - lzeros) AND 0x7f))"

definition silk_lin2log :: "int \<Rightarrow> int" where
  "silk_lin2log inLin =
    (let (lz, frac_Q7) = silk_CLZ_FRAC inLin
     in silk_SMLAWB frac_Q7 (frac_Q7 * (128 - frac_Q7)) 179 + (31 - lz) * 2 ^ 7)"

definition silk_log2lin :: "int \<Rightarrow> int" where
  "silk_log2lin inLog_Q7 =
    (if inLog_Q7 < 0 then 0
     else if inLog_Q7 \<ge> 3967 then silk_int32_MAX
     else let out = 2 ^ nat (inLog_Q7 div 2 ^ 7); frac_Q7 = inLog_Q7 AND 0x7F
          in if inLog_Q7 < 2048 then out + out * silk_SMLAWB frac_Q7 (silk_SMULBB frac_Q7 (128 - frac_Q7)) (- 174) div 2 ^ 7
             else out + out div 2 ^ 7 * silk_SMLAWB frac_Q7 (silk_SMULBB frac_Q7 (128 - frac_Q7)) (- 174))"

section \<open>The quantizer\<close>

text \<open>The constants \<open>OFFSET\<close>, \<open>SCALE_Q16\<close> and \<open>INV_SCALE_Q16\<close> are 2090, 2251 and 1907825; there are 64 levels and deltas from -4 to 36.\<close>

definition silk_gain_index :: "int \<Rightarrow> int \<Rightarrow> int" where
  "silk_gain_index gain_Q16 prev_ind =
    (let ind = s8 (silk_SMULWB 2251 (silk_lin2log gain_Q16 - 2090));
         ind = (if ind < prev_ind then s8 (ind + 1) else ind)
     in s8 (silk_LIMIT ind 0 63))"

definition silk_gain_delta :: "int \<Rightarrow> int \<Rightarrow> int \<times> int" where
  "silk_gain_delta ind prev_ind =
    (let ind = s8 (ind - prev_ind);
         double_step_size_threshold = 2 * 36 - 64 + prev_ind;
         ind = (if ind > double_step_size_threshold then s8 (double_step_size_threshold + (ind - double_step_size_threshold + 1) div 2) else ind);
         ind = s8 (silk_LIMIT ind (- 4) 36);
         prev_ind = (if ind > double_step_size_threshold then s8 (min (s8 (prev_ind + (ind * 2 - double_step_size_threshold))) 63) else s8 (prev_ind + ind))
     in (s8 (ind + 4), prev_ind))"

definition silk_gain_level :: "int \<Rightarrow> int" where
  "silk_gain_level prev_ind = silk_log2lin (min (silk_SMULWB 1907825 prev_ind + 2090) 3967)"

text \<open>The loops over the subframes; \<open>first\<close> is the test for a full index. Outputs are the indices, the quantized gains and the last index.\<close>

fun silk_gains_quant_loop :: "bool \<Rightarrow> int list \<Rightarrow> int \<Rightarrow> int list \<times> int list \<times> int" where
  "silk_gains_quant_loop first [] prev_ind = ([], [], prev_ind)"
| "silk_gains_quant_loop first (gain_Q16 # gains) prev_ind =
    (let ind = silk_gain_index gain_Q16 prev_ind;
         (ind, prev_ind) = (if first then let i = s8 (silk_LIMIT ind (prev_ind + - 4) 63) in (i, i) else silk_gain_delta ind prev_ind);
         (inds, outs, prev) = silk_gains_quant_loop False gains prev_ind
     in (ind # inds, silk_gain_level prev_ind # outs, prev))"

definition silk_gains_quant :: "int list \<Rightarrow> int \<Rightarrow> bool \<Rightarrow> int list \<times> int list \<times> int" where
  "silk_gains_quant gain_Q16 prev_ind conditional = silk_gains_quant_loop (\<not> conditional) gain_Q16 prev_ind"

definition silk_gain_dequant :: "bool \<Rightarrow> int \<Rightarrow> int \<Rightarrow> int" where
  "silk_gain_dequant first ind prev_ind =
    (let prev_ind =
       (if first then s8 (max ind (prev_ind - 16))
        else let ind_tmp = ind + - 4; double_step_size_threshold = 2 * 36 - 64 + prev_ind
             in if ind_tmp > double_step_size_threshold then s8 (prev_ind + (ind_tmp * 2 - double_step_size_threshold)) else s8 (prev_ind + ind_tmp))
     in s8 (silk_LIMIT prev_ind 0 63))"

fun silk_gains_dequant_loop :: "bool \<Rightarrow> int list \<Rightarrow> int \<Rightarrow> int list \<times> int" where
  "silk_gains_dequant_loop first [] prev_ind = ([], prev_ind)"
| "silk_gains_dequant_loop first (ind # inds) prev_ind =
    (let prev_ind = silk_gain_dequant first ind prev_ind; (outs, prev) = silk_gains_dequant_loop False inds prev_ind
     in (silk_gain_level prev_ind # outs, prev))"

definition silk_gains_dequant :: "int list \<Rightarrow> int \<Rightarrow> bool \<Rightarrow> int list \<times> int" where
  "silk_gains_dequant ind prev_ind conditional = silk_gains_dequant_loop (\<not> conditional) ind prev_ind"

definition silk_gains_ID :: "int list \<Rightarrow> int" where
  "silk_gains_ID ind = foldl (\<lambda>gainsID i. i + gainsID * 2 ^ 8) 0 ind"

section \<open>Encoder and decoder keep the same index\<close>

definition gain_level_ok :: "int \<Rightarrow> bool" where "gain_level_ok p \<longleftrightarrow> 0 \<le> p \<and> p < 64"

definition valid_gain_indices :: "bool \<Rightarrow> int list \<Rightarrow> bool" where
  "valid_gain_indices first inds \<longleftrightarrow>
     (case inds of [] \<Rightarrow> True | i # is \<Rightarrow> 0 \<le> i \<and> i < (if first then 64 else 41) \<and> list_all (\<lambda>i. 0 \<le> i \<and> i < 41) is)"

lemma gain_index_ok: "gain_level_ok (silk_gain_index g p)"
  by (simp add: silk_gain_index_def Let_def gain_level_ok_def silk_LIMIT_def s8_id)

lemma gain_full:
  assumes "gain_level_ok i" "gain_level_ok p"
  defines "j \<equiv> s8 (silk_LIMIT i (p + - 4) 63)"
  shows "gain_level_ok j" "silk_gain_dequant True j p = j"
proof -
  have j: "j = max i (p - 4)" using assms(1,2) unfolding j_def by (auto simp: silk_LIMIT_def gain_level_ok_def s8_id)
  then show "gain_level_ok j" using assms(1,2) by (auto simp: gain_level_ok_def)
  then have b: "0 \<le> j" "j < 64" "max j (p - 16) = j" using assms(2) j by (auto simp: gain_level_ok_def)
  then show "silk_gain_dequant True j p = j" by (simp add: silk_gain_dequant_def silk_LIMIT_def s8_id)
qed

lemma gain_delta:
  assumes "gain_level_ok i" "gain_level_ok p" "silk_gain_delta i p = (d, q)"
  shows "0 \<le> d" "d < 41" "gain_level_ok q" "silk_gain_dequant False d p = q"
proof -
  have b: "0 \<le> i" "i < 64" "0 \<le> p" "p < 64" using assms(1,2) by (simp_all add: gain_level_ok_def)
  define e where "e = (if i - p > 8 + p then 8 + p + (i - p - (8 + p) + 1) div 2 else i - p)"
  define f where "f = max (- 4) (min 36 e)"
  have e8: "- 128 \<le> e" "e < 128" using b by (auto simp: e_def)
  have eq1: "(if s8 (i - p) > 2 * 36 - 64 + p then s8 (2 * 36 - 64 + p + (s8 (i - p) - (2 * 36 - 64 + p) + 1) div 2) else s8 (i - p)) = e"
  proof -
    have "s8 (i - p) = i - p" using b by (simp add: s8_id)
    moreover have "s8 (8 + p + (i - p - (8 + p) + 1) div 2) = 8 + p + (i - p - (8 + p) + 1) div 2" if "i - p > 8 + p" using b that by (intro s8_id) auto
    ultimately show ?thesis by (simp add: e_def)
  qed
  have eq2: "s8 (silk_LIMIT e (- 4) 36) = f" unfolding f_def by (subst s8_id) (auto simp: silk_LIMIT_def)
  have eq3: "p + (f * 2 - (2 * 36 - 64 + p)) = f * 2 - 8" by simp
  have dq: "d = s8 (f + 4)" "q = (if f > 8 + p then s8 (min (s8 (f * 2 - 8)) 63) else s8 (p + f))"
    using assms(3) unfolding silk_gain_delta_def Let_def eq1 eq2 eq3 by simp_all
  have f: "- 4 \<le> f" "f \<le> 36" by (simp_all add: f_def)
  then have d: "d = f + 4" unfolding dq(1) by (intro s8_id) simp_all
  then show "0 \<le> d" "d < 41" using f by simp_all
  have w: "s8 (f * 2 - 8) = f * 2 - 8" "s8 (p + f) = p + f" using f b by (simp_all add: s8_id)
  have q: "q = (if f > 8 + p then min (f * 2 - 8) 63 else p + f)" using f b(3) unfolding dq(2) w by (auto intro!: s8_id)
  have "p + f \<le> 63" if "\<not> f > 8 + p" using that b unfolding f_def e_def by (auto split: if_splits)
  moreover have "0 \<le> p + f" unfolding f_def e_def using b by auto
  ultimately show ok: "gain_level_ok q" using b f unfolding q gain_level_ok_def by auto
  show "silk_gain_dequant False d p = q" using ok f b w
    unfolding silk_gain_dequant_def Let_def d q gain_level_ok_def by (auto simp: silk_LIMIT_def s8_id)
qed

lemma gains_quant_loop:
  assumes "gain_level_ok p" "silk_gains_quant_loop first gs p = (inds, outs, fin)"
  shows "length inds = length gs \<and> valid_gain_indices first inds \<and> gain_level_ok fin \<and> silk_gains_dequant_loop first inds p = (outs, fin)"
  using assms
proof (induction gs arbitrary: first p inds outs fin)
  case (Cons g gs)
  define i where "i = silk_gain_index g p"
  define d q where "d = fst (if first then (s8 (silk_LIMIT i (p + - 4) 63), s8 (silk_LIMIT i (p + - 4) 63)) else silk_gain_delta i p)"
    and "q = snd (if first then (s8 (silk_LIMIT i (p + - 4) 63), s8 (silk_LIMIT i (p + - 4) 63)) else silk_gain_delta i p)"
  have s: "gain_level_ok q \<and> 0 \<le> d \<and> d < (if first then 64 else 41) \<and> silk_gain_dequant first d p = q"
  proof (cases first)
    case True
    then show ?thesis using gain_full [OF gain_index_ok Cons(2), of g p] by (simp add: d_def q_def i_def gain_level_ok_def)
  next
    case False
    then have "silk_gain_delta i p = (d, q)" by (simp add: d_def q_def)
    then show ?thesis using gain_delta [OF gain_index_ok Cons(2)] False by (simp add: i_def)
  qed
  obtain js os l where r: "silk_gains_quant_loop False gs q = (js, os, l)" by (rule prod_cases3)
  have o: "inds = d # js" "outs = silk_gain_level q # os" "fin = l"
    using Cons(3) r by (auto simp: Let_def i_def [symmetric] d_def q_def split: prod.splits if_splits)
  have ih: "length js = length gs \<and> valid_gain_indices False js \<and> gain_level_ok l \<and> silk_gains_dequant_loop False js q = (os, l)"
    by (rule Cons(1) [OF _ r]) (use s in simp)
  moreover have "list_all (\<lambda>i. 0 \<le> i \<and> i < 41) js" using ih by (simp add: valid_gain_indices_def split: list.splits)
  ultimately show ?case using s o by (simp add: valid_gain_indices_def)
qed (simp add: valid_gain_indices_def)

section \<open>Bounds\<close>

lemma gain_level_ok_list: "gain_level_ok p \<Longrightarrow> p \<in> set (map int [0..<64])"
proof -
  assume "gain_level_ok p"
  then have "p = int (nat p)" "nat p < 64" by (auto simp: gain_level_ok_def nat_less_iff)
  then show ?thesis by (metis atLeast0LessThan imageI lessThan_iff set_map set_upt)
qed

lemma gain_levels: "list_all (\<lambda>p. 81920 \<le> silk_gain_level p \<and> silk_gain_level p \<le> 1686110208) (map int [0..<64])"
  by code_simp

lemma gain_levels_sorted: "sorted_wrt (<) (map (\<lambda>p. silk_gain_level (int p)) [0..<64])"
  by code_simp

lemma gain_dequant_ok: "gain_level_ok (silk_gain_dequant first i p)"
  by (simp add: silk_gain_dequant_def Let_def gain_level_ok_def silk_LIMIT_def s8_id)

lemma gains_dequant_loop:
  assumes "silk_gains_dequant_loop first inds p = (outs, fin)"
  shows "length outs = length inds \<and> list_all (\<lambda>g. 81920 \<le> g \<and> g \<le> 1686110208) outs \<and> (inds \<noteq> [] \<longrightarrow> gain_level_ok fin)"
  using assms
proof (induction inds arbitrary: first p outs)
  case (Cons i js)
  define q where "q = silk_gain_dequant first i p"
  obtain os where os: "silk_gains_dequant_loop False js q = (os, fin)" "outs = silk_gain_level q # os"
    using Cons(2) by (auto simp: Let_def q_def split: prod.splits)
  have "81920 \<le> silk_gain_level q \<and> silk_gain_level q \<le> 1686110208"
    using gain_levels gain_level_ok_list [OF gain_dequant_ok] unfolding list_all_iff q_def by blast
  moreover have "js = [] \<Longrightarrow> fin = q" using os(1) by simp
  ultimately show ?case using Cons(1) [OF os(1)] os(2) gain_dequant_ok [of first i p] by (auto simp: q_def [symmetric])
qed simp

text \<open>The identifier tells lists of indices apart.\<close>

lemma gains_ID_snoc: "silk_gains_ID (xs @ [x]) = x + silk_gains_ID xs * 2 ^ 8"
  by (simp add: silk_gains_ID_def)

lemma gains_ID_inj:
  assumes "length xs = length ys" "list_all (\<lambda>x. 0 \<le> x \<and> x < 256) xs" "list_all (\<lambda>x. 0 \<le> x \<and> x < 256) ys" "silk_gains_ID xs = silk_gains_ID ys"
  shows "xs = ys"
  using assms
proof (induction xs arbitrary: ys rule: rev_induct)
  case (snoc x xs)
  obtain zs z where ys: "ys = zs @ [z]" using snoc(2) by (cases ys rule: rev_cases) auto
  have b: "0 \<le> x" "x < 256" "0 \<le> z" "z < 256" using snoc(3,4) by (simp_all add: ys)
  have e: "x + silk_gains_ID xs * 256 = z + silk_gains_ID zs * 256" using snoc(5) by (simp add: ys gains_ID_snoc)
  then have "(x + silk_gains_ID xs * 256) mod 256 = (z + silk_gains_ID zs * 256) mod 256" by simp
  then have "x = z" using b by simp
  moreover from this have "silk_gains_ID xs = silk_gains_ID zs" using e by simp
  ultimately show ?case using snoc(1) [of zs] snoc(2,3,4) by (simp add: ys)
qed simp

end
