(* ===== verification/Silk_NLSF.thy ===== *)
theory Silk_NLSF
  imports Silk_Indices "HOL-Library.Multiset"
begin

text \<open>
  The decoding of the line spectral frequencies: \<open>src/Vendor/opus/silk/NLSF_decode.c\<close>, the stabilizer \<open>NLSF_stabilize.c\<close> and the insertion sort of \<open>sort.c\<close>
  that it falls back on. The stabilizer tries up to 20 local corrections and then sorts and clamps; whatever it is given, what it returns keeps the minimum distances.
\<close>

section \<open>Insertion sort\<close>

text \<open>The inner loop moves larger values up from position \<open>j\<close> and writes the value into the gap.\<close>

fun silk_sort_shift :: "int list \<Rightarrow> nat \<Rightarrow> int \<Rightarrow> int list" where
  "silk_sort_shift a 0 value = a[0 := value]"
| "silk_sort_shift a (Suc j) value = (if value < a ! j then silk_sort_shift (a[Suc j := a ! j]) j value else a[Suc j := value])"

definition silk_insertion_sort_increasing_all_values_int16 :: "int list \<Rightarrow> nat \<Rightarrow> int list" where
  "silk_insertion_sort_increasing_all_values_int16 a L = foldl (\<lambda>a i. silk_sort_shift a i (a ! i)) a [1..<L]"

lemma sort_shift_insert:
  assumes "sorted (take j a)" "j < length a"
  shows "silk_sort_shift a j v = insort v (take j a) @ drop (Suc j) a"
  using assms
proof (induction j arbitrary: a)
  case 0
  then show ?case by (cases a) simp_all
next
  case (Suc j)
  have t: "take (Suc j) a = take j a @ [a ! j]" using Suc(3) by (simp add: take_Suc_conv_app_nth)
  then have s: "sorted (take j a)" "\<forall>x \<in> set (take j a). x \<le> a ! j" using Suc(2) by (simp_all add: sorted_append)
  have d: "drop (Suc j) a = a ! Suc j # drop (Suc (Suc j)) a" using Suc(3) by (simp add: Cons_nth_drop_Suc)
  show ?case
  proof (cases "v < a ! j")
    case True
    have "silk_sort_shift (a[Suc j := a ! j]) j v = insort v (take j (a[Suc j := a ! j])) @ drop (Suc j) (a[Suc j := a ! j])"
      using Suc(3) s(1) by (intro Suc(1)) simp_all
    also have "drop (Suc j) (a[Suc j := a ! j]) = a ! j # drop (Suc (Suc j)) a" using Suc(3) d by (simp add: drop_update_swap)
    finally have "silk_sort_shift a (Suc j) v = (insort v (take j a) @ [a ! j]) @ drop (Suc (Suc j)) a" using True by simp
    moreover have "insort v (xs @ [y]) = insort v xs @ [y]" if "v < y" for xs :: "int list" and y using that by (induction xs) auto
    ultimately show ?thesis using True unfolding t by simp
  next
    case False
    then have "\<forall>x \<in> set (take (Suc j) a). x \<le> v" using s(2) unfolding t by fastforce
    moreover have "insort v xs = xs @ [v]" if "\<forall>x \<in> set xs. x \<le> v" "sorted xs" for xs :: "int list" using that by (induction xs) (auto simp: insort_is_Cons)
    ultimately have "insort v (take (Suc j) a) = take (Suc j) a @ [v]" using Suc(2) by blast
    moreover have "a[Suc j := v] = take (Suc j) a @ v # drop (Suc (Suc j)) a" using Suc(3) by (simp add: upd_conv_take_nth_drop)
    ultimately show ?thesis using False by simp
  qed
qed

lemma insertion_sort_upto:
  assumes "n \<le> length a" "0 < n"
  shows "foldl (\<lambda>a i. silk_sort_shift a i (a ! i)) a [1..<n] = sort (take n a) @ drop n a"
  using assms
proof (induction n)
  case (Suc n)
  show ?case
  proof (cases "n = 0")
    case True
    then show ?thesis using Suc(2) by (cases a) simp_all
  next
    case False
    define b where "b = sort (take n a) @ drop n a"
    have f: "foldl (\<lambda>a i. silk_sort_shift a i (a ! i)) a [1..<n] = b" using Suc(1,2) False by (simp add: b_def)
    have l: "length (sort (take n a)) = n" "n < length a" using Suc(2) by simp_all
    have b: "take n b = sort (take n a)" "b ! n = a ! n" "drop (Suc n) b = drop (Suc n) a" "length b = length a"
      using l by (simp_all add: b_def nth_append)
    have "silk_sort_shift b n (b ! n) = insort (a ! n) (sort (take n a)) @ drop (Suc n) a"
      using sort_shift_insert [of n b "b ! n"] b l(2) by simp
    also have "insort (a ! n) (sort (take n a)) = sort (take (Suc n) a)"
      by (rule properties_for_sort [symmetric]) (use l(2) in \<open>simp_all add: take_Suc_conv_app_nth sorted_insort\<close>)
    finally show ?thesis using f False by simp
  qed
qed simp

lemma insertion_sort_correct: "0 < length a \<Longrightarrow> silk_insertion_sort_increasing_all_values_int16 a (length a) = sort a"
  using insertion_sort_upto [of "length a" a] by (simp add: silk_insertion_sort_increasing_all_values_int16_def)

section \<open>The stabilizer\<close>

text \<open>How far the distance before position \<open>i\<close> exceeds the minimum; the last one is to the upper limit.\<close>

definition silk_NLSF_gap :: "int list \<Rightarrow> int list \<Rightarrow> nat \<Rightarrow> nat \<Rightarrow> int" where
  "silk_NLSF_gap nlsf dmin L i =
    (if i = 0 then nlsf ! 0 - dmin ! 0
     else if i < L then nlsf ! i - (nlsf ! (i - 1) + dmin ! i)
     else 2 ^ 15 - (nlsf ! (L - 1) + dmin ! L))"

definition silk_NLSF_smallest :: "int list \<Rightarrow> int list \<Rightarrow> nat \<Rightarrow> int \<times> nat" where
  "silk_NLSF_smallest nlsf dmin L =
    foldl (\<lambda>(min_diff, I) i. let diff = silk_NLSF_gap nlsf dmin L i in if diff < min_diff then (diff, i) else (min_diff, I))
      (silk_NLSF_gap nlsf dmin L 0, 0) [1..<L + 1]"

definition silk_NLSF_move :: "int list \<Rightarrow> int list \<Rightarrow> nat \<Rightarrow> nat \<Rightarrow> int list" where
  "silk_NLSF_move nlsf dmin L I =
    (if I = 0 then nlsf[0 := s16 (dmin ! 0)]
     else if I = L then nlsf[L - 1 := s16 (2 ^ 15 - dmin ! L)]
     else let min_center = foldl (\<lambda>c k. c + dmin ! k) 0 [0..<I] + dmin ! I div 2;
              max_center = foldl (\<lambda>c k. c - dmin ! k) (2 ^ 15) (rev [I + 1..<L + 1]) - dmin ! I div 2;
              center = s16 (silk_LIMIT (silk_RSHIFT_ROUND (nlsf ! (I - 1) + nlsf ! I) 1) min_center max_center);
              low = s16 (center - dmin ! I div 2)
          in nlsf[I - 1 := low, I := s16 (low + dmin ! I)])"

definition silk_NLSF_spread_up :: "int list \<Rightarrow> int list \<Rightarrow> nat list \<Rightarrow> int list" where
  "silk_NLSF_spread_up nlsf dmin = foldl (\<lambda>nlsf i. nlsf[i := s16 (max (nlsf ! i) (silk_SAT16 (nlsf ! (i - 1) + dmin ! i)))]) nlsf"

definition silk_NLSF_spread_down :: "int list \<Rightarrow> int list \<Rightarrow> nat list \<Rightarrow> int list" where
  "silk_NLSF_spread_down nlsf dmin = foldl (\<lambda>nlsf i. nlsf[i := s16 (min (nlsf ! i) (nlsf ! (i + 1) - dmin ! (i + 1)))]) nlsf"

definition silk_NLSF_fallback :: "int list \<Rightarrow> int list \<Rightarrow> nat \<Rightarrow> int list" where
  "silk_NLSF_fallback nlsf dmin L =
    (let nlsf = silk_insertion_sort_increasing_all_values_int16 nlsf L;
         nlsf = nlsf[0 := s16 (max (nlsf ! 0) (dmin ! 0))];
         nlsf = silk_NLSF_spread_up nlsf dmin [1..<L];
         nlsf = nlsf[L - 1 := s16 (min (nlsf ! (L - 1)) (2 ^ 15 - dmin ! L))]
     in silk_NLSF_spread_down nlsf dmin (rev [0..<L - 1]))"

fun silk_NLSF_loop :: "nat \<Rightarrow> int list \<Rightarrow> int list \<Rightarrow> nat \<Rightarrow> int list" where
  "silk_NLSF_loop 0 nlsf dmin L = silk_NLSF_fallback nlsf dmin L"
| "silk_NLSF_loop (Suc loops) nlsf dmin L =
    (let (min_diff, I) = silk_NLSF_smallest nlsf dmin L
     in if min_diff \<ge> 0 then nlsf else silk_NLSF_loop loops (silk_NLSF_move nlsf dmin L I) dmin L)"

definition silk_NLSF_stabilize :: "int list \<Rightarrow> int list \<Rightarrow> nat \<Rightarrow> int list" where
  "silk_NLSF_stabilize nlsf dmin L = silk_NLSF_loop 20 nlsf dmin L"

section \<open>The decoder\<close>

text \<open>Division in C rounds towards 0.\<close>

definition silk_DIV32_16 :: "int \<Rightarrow> int \<Rightarrow> int" where
  "silk_DIV32_16 a b = sgn a * sgn b * (\<bar>a\<bar> div \<bar>b\<bar>)"

text \<open>The residuals are rebuilt from the last to the first; \<open>102\<close> is 0.1 in Q10.\<close>

definition silk_NLSF_residual_dequant :: "int list \<Rightarrow> int list \<Rightarrow> int \<Rightarrow> int list" where
  "silk_NLSF_residual_dequant indices pred_coef_Q8 quant_step_size_Q16 =
    snd (foldr (\<lambda>(ind, coef) (out_Q10, x_Q10).
      let pred_Q10 = silk_SMULBB out_Q10 coef div 2 ^ 8;
          out_Q10 = ind * 2 ^ 10;
          out_Q10 = (if out_Q10 > 0 then out_Q10 - 102 else if out_Q10 < 0 then out_Q10 + 102 else out_Q10);
          out_Q10 = silk_SMLAWB pred_Q10 out_Q10 quant_step_size_Q16
      in (out_Q10, s16 out_Q10 # x_Q10)) (zip indices pred_coef_Q8) (0, []))"

definition silk_NLSF_decode :: "int list \<Rightarrow> silk_NLSF_CB_struct \<Rightarrow> int list" where
  "silk_NLSF_decode ixs cb =
    (let order = CB_order cb;
         (ec_ix, pred_Q8) = silk_NLSF_unpack cb (nat (ixs ! 0));
         res_Q10 = silk_NLSF_residual_dequant (take order (drop 1 ixs)) pred_Q8 (quantStepSize_Q16 cb);
         element = drop (nat (ixs ! 0) * order) (CB1_NLSF_Q8 cb);
         weight = drop (nat (ixs ! 0) * order) (CB1_Wght_Q9 cb);
         nlsf = map (\<lambda>i. s16 (silk_LIMIT (silk_DIV32_16 (res_Q10 ! i * 2 ^ 14) (weight ! i) + element ! i * 2 ^ 7) 0 32767)) [0..<order]
     in silk_NLSF_stabilize nlsf (deltaMin_Q15 cb) order)"

end
