(* ===== verification/Silk_NLSF_Stable.thy ===== *)
theory Silk_NLSF_Stable
  imports Silk_NLSF
begin

text \<open>
  The stabilizer returns frequencies that keep their minimum distances, from any 16-bit values. Every correction keeps the values in 16 bits. When 20
  corrections are not enough, the values are sorted and spread upwards, which puts each above the sum of the distances before it, and then spread
  downwards, which makes the distances hold and, since all distances together fit below the limit, keeps those lower bounds.
\<close>

definition int16_list :: "nat \<Rightarrow> int list \<Rightarrow> bool" where
  "int16_list L xs \<longleftrightarrow> length xs = L \<and> list_all (\<lambda>x. - 32768 \<le> x \<and> x < 32768) xs"

text \<open>Minimum distances: not negative, the last at least 1, and together at most the whole range.\<close>

definition distances :: "nat \<Rightarrow> int list \<Rightarrow> bool" where
  "distances L dmin \<longleftrightarrow> 0 < L \<and> length dmin = L + 1 \<and> list_all (\<lambda>d. 0 \<le> d) dmin \<and> 1 \<le> dmin ! L \<and> sum_list dmin \<le> 2 ^ 15"

definition spaced :: "int list \<Rightarrow> int list \<Rightarrow> nat \<Rightarrow> bool" where
  "spaced nlsf dmin L \<longleftrightarrow> length nlsf = L \<and> dmin ! 0 \<le> nlsf ! 0 \<and> list_all (\<lambda>i. nlsf ! (i - 1) + dmin ! i \<le> nlsf ! i) [1..<L] \<and> nlsf ! (L - 1) + dmin ! L \<le> 2 ^ 15"

lemma s16_range: "- 32768 \<le> s16 x \<and> s16 x < 32768"
  by (simp add: s16_def)

lemma int16_update: "int16_list L xs \<Longrightarrow> int16_list L (xs[i := s16 x])"
  by (cases "i < length xs") (auto simp add: int16_list_def list_all_length nth_list_update s16_range)

lemma int16_move: "int16_list L nlsf \<Longrightarrow> int16_list L (silk_NLSF_move nlsf dmin L I)"
  unfolding silk_NLSF_move_def Let_def by (auto intro!: int16_update)

lemma int16_sort: "int16_list L xs \<Longrightarrow> int16_list L (sort xs)"
  by (simp add: int16_list_def list_all_iff)

section \<open>The early exit\<close>

lemma smallest_fold:
  assumes "foldl (\<lambda>(m, I) i. let d = f i in if d < m then (d, i) else (m, I)) (f a, a) js = (m, I)"
  shows "m = f I \<and> (\<forall>i \<in> insert a (set js). m \<le> (f i :: int))"
  using assms
proof (induction js arbitrary: a)
  case (Cons i js)
  show ?case
  proof (cases "f i < f a")
    case True
    then show ?thesis using Cons(1) [of i] Cons(2) by auto
  next
    case False
    then show ?thesis using Cons(1) [of a] Cons(2) by auto
  qed
qed simp

lemma smallest_nonneg:
  assumes "silk_NLSF_smallest nlsf dmin L = (m, I)" "0 \<le> m" "length nlsf = L" "0 < L"
  shows "spaced nlsf dmin L"
proof -
  have a: "0 \<le> silk_NLSF_gap nlsf dmin L i" if "i \<le> L" for i
  proof -
    have "i \<in> insert 0 (set [1..<L + 1])" using that by auto
    then show ?thesis using smallest_fold [OF assms(1) [unfolded silk_NLSF_smallest_def]] assms(2) by fastforce
  qed
  have "dmin ! 0 \<le> nlsf ! 0" using a [of 0] by (simp add: silk_NLSF_gap_def)
  moreover have "nlsf ! (i - 1) + dmin ! i \<le> nlsf ! i" if "1 \<le> i" "i < L" for i using a [of i] that by (simp add: silk_NLSF_gap_def)
  moreover have "nlsf ! (L - 1) + dmin ! L \<le> 2 ^ 15" using a [of L] assms(4) by (simp add: silk_NLSF_gap_def)
  ultimately show ?thesis using assms(3) by (simp add: spaced_def list_all_iff)
qed

section \<open>The fallback\<close>

definition below :: "int list \<Rightarrow> nat \<Rightarrow> int" where "below dmin i = sum_list (take (i + 1) dmin)"

lemma below_Suc: "i + 1 < length dmin \<Longrightarrow> below dmin (i + 1) = below dmin i + dmin ! (i + 1)"
  by (simp add: below_def take_Suc_conv_app_nth)

lemma below_0: "0 < length dmin \<Longrightarrow> below dmin 0 = dmin ! 0"
  by (cases dmin) (simp_all add: below_def)

lemma below_bounds:
  assumes "distances L dmin" "i < L"
  shows "0 \<le> below dmin i" "below dmin i + dmin ! L \<le> 2 ^ 15" "below dmin i \<le> 32767"
proof -
  have d: "length dmin = L + 1" "\<forall>x \<in> set dmin. 0 \<le> x" "1 \<le> dmin ! L" "sum_list dmin \<le> 2 ^ 15" using assms(1) by (simp_all add: distances_def list_all_iff)
  show n: "0 \<le> below dmin i" unfolding below_def by (intro sum_list_nonneg) (use d(2) in_set_takeD in fastforce)
  have "sum_list dmin = sum_list (take (i + 1) dmin) + sum_list (drop (i + 1) dmin)" by (metis append_take_drop_id sum_list_append)
  also have "drop (i + 1) dmin = take (L - i - 1) (drop (i + 1) dmin) @ [dmin ! L]"
    using d(1) assms(2) take_Suc_conv_app_nth [of "L - i - 1" "drop (i + 1) dmin"] by simp
  finally have "sum_list dmin = below dmin i + sum_list (take (L - i - 1) (drop (i + 1) dmin)) + dmin ! L" by (simp add: below_def)
  moreover have "0 \<le> sum_list (take (L - i - 1) (drop (i + 1) dmin))" by (intro sum_list_nonneg) (use d(2) in \<open>fastforce dest: in_set_takeD in_set_dropD\<close>)
  ultimately show b: "below dmin i + dmin ! L \<le> 2 ^ 15" using d(4) by linarith
  then show "below dmin i \<le> 32767" using d(3) by simp
qed

lemma distance_nonneg: "distances L dmin \<Longrightarrow> i \<le> L \<Longrightarrow> 0 \<le> dmin ! i"
  by (simp add: distances_def list_all_length)

lemma spread_up:
  assumes d: "distances L dmin" and x: "int16_list L xs" "dmin ! 0 \<le> xs ! 0" and k: "1 \<le> k" "k \<le> L"
  shows "int16_list L (silk_NLSF_spread_up xs dmin [1..<k]) \<and> (\<forall>i < k. below dmin i \<le> silk_NLSF_spread_up xs dmin [1..<k] ! i)"
  using k
proof (induction k rule: nat_induct_at_least)
  case base
  have "below dmin 0 = dmin ! 0" using d by (intro below_0) (simp add: distances_def)
  then show ?case using x by (simp add: silk_NLSF_spread_up_def)
next
  case (Suc k)
  define ys where "ys = silk_NLSF_spread_up xs dmin [1..<k]"
  have ys: "int16_list L ys" "\<forall>i < k. below dmin i \<le> ys ! i" using Suc by (simp_all add: ys_def)
  define y where "y = max (ys ! k) (silk_SAT16 (ys ! (k - 1) + dmin ! k))"
  have e: "silk_NLSF_spread_up xs dmin [1..<Suc k] = ys[k := s16 y]" using Suc(1) by (simp add: silk_NLSF_spread_up_def ys_def y_def)
  have r: "- 32768 \<le> ys ! k" "ys ! k < 32768" using ys(1) Suc(3) by (simp_all add: int16_list_def list_all_length)
  then have y16: "s16 y = y" by (intro s16_id) (auto simp: y_def silk_SAT16_def)
  have "below dmin k = below dmin (k - 1) + dmin ! k" using below_Suc [of "k - 1" dmin] d Suc(1,3) by (simp add: distances_def)
  also have "\<dots> \<le> ys ! (k - 1) + dmin ! k" using ys(2) Suc(1) by simp
  finally have "below dmin k \<le> y" using below_bounds [OF d, of k] Suc(3) by (auto simp: y_def silk_SAT16_def)
  then have "\<forall>i < Suc k. below dmin i \<le> ys[k := s16 y] ! i" using ys y16 Suc(3) by (auto simp: less_Suc_eq int16_list_def nth_list_update)
  then show ?case unfolding e using int16_update [OF ys(1)] by blast
qed

text \<open>Values above the sums of the distances, and the distances from position \<open>m + 1\<close> on.\<close>

definition spread_from :: "int list \<Rightarrow> nat \<Rightarrow> int list \<Rightarrow> nat \<Rightarrow> bool" where
  "spread_from dmin L xs m \<longleftrightarrow> int16_list L xs \<and> (\<forall>i < L. below dmin i \<le> xs ! i) \<and> (\<forall>i. m < i \<and> i < L \<longrightarrow> xs ! (i - 1) + dmin ! i \<le> xs ! i) \<and> xs ! (L - 1) + dmin ! L \<le> 2 ^ 15"

lemma spread_down_step:
  assumes d: "distances L dmin" and x: "spread_from dmin L xs (Suc m)" and m: "m + 1 < L"
  shows "spread_from dmin L (xs[m := s16 (min (xs ! m) (xs ! (m + 1) - dmin ! (m + 1)))]) m"
proof -
  define y where "y = min (xs ! m) (xs ! (m + 1) - dmin ! (m + 1))"
  have xs: "int16_list L xs" "\<forall>i < L. below dmin i \<le> xs ! i" "\<forall>i. Suc m < i \<and> i < L \<longrightarrow> xs ! (i - 1) + dmin ! i \<le> xs ! i" "xs ! (L - 1) + dmin ! L \<le> 2 ^ 15"
    using x by (simp_all add: spread_from_def)
  have l: "length xs = L" "xs ! m < 32768" using xs(1) m by (simp_all add: int16_list_def list_all_length)
  have "below dmin (m + 1) \<le> xs ! (m + 1)" "below dmin m \<le> xs ! m" using xs(2) m by simp_all
  moreover have "below dmin (m + 1) = below dmin m + dmin ! (m + 1)" using m d by (intro below_Suc) (simp add: distances_def)
  ultimately have b: "below dmin m \<le> y" by (simp add: y_def)
  then have "s16 y = y" using below_bounds(1) [OF d, of m] m l(2) by (intro s16_id) (auto simp: y_def)
  moreover have "spread_from dmin L (xs[m := y]) m"
  proof -
    have "xs[m := y] ! (i - 1) + dmin ! i \<le> xs[m := y] ! i" if "m < i" "i < L" for i
    proof (cases "i = Suc m")
      case True
      then show ?thesis using l(1) m by (simp add: y_def)
    next
      case False
      then show ?thesis using that xs(3) by simp
    qed
    moreover have "below dmin i \<le> xs[m := y] ! i" if "i < L" for i using that xs(2) b l(1) by (cases "i = m") simp_all
    moreover have "int16_list L (xs[m := y])" using int16_update [OF xs(1), of m y] \<open>s16 y = y\<close> by simp
    moreover have "xs[m := y] ! (L - 1) + dmin ! L \<le> 2 ^ 15" using xs(4) m by simp
    ultimately show ?thesis by (simp add: spread_from_def)
  qed
  ultimately show ?thesis by (simp add: y_def)
qed

lemma spread_down:
  assumes d: "distances L dmin" and x: "spread_from dmin L xs (L - 1)" and m: "m \<le> L - 1"
  shows "spread_from dmin L (silk_NLSF_spread_down xs dmin (rev [m..<L - 1])) m"
  using m
proof (induction m rule: inc_induct)
  case base
  show ?case using x by (simp add: silk_NLSF_spread_down_def)
next
  case (step m)
  then have r: "rev [m..<L - 1] = rev [Suc m..<L - 1] @ [m]" by (simp add: upt_conv_Cons)
  show ?case using spread_down_step [OF d step(3)] step(2) unfolding r silk_NLSF_spread_down_def foldl_append by simp
qed

lemma fallback_spaced:
  assumes d: "distances L dmin" and x: "int16_list L nlsf"
  shows "spaced (silk_NLSF_fallback nlsf dmin L) dmin L"
proof -
  have L: "0 < L" "length nlsf = L" "length dmin = L + 1" using d x by (simp_all add: distances_def int16_list_def)
  define a where "a = (sort nlsf)[0 := s16 (max (sort nlsf ! 0) (dmin ! 0))]"
  have s: "int16_list L (sort nlsf)" using x by (rule int16_sort)
  then have a16: "int16_list L a" unfolding a_def by (rule int16_update)
  have "- 32768 \<le> sort nlsf ! 0" "sort nlsf ! 0 < 32768" using s L by (simp_all add: int16_list_def list_all_length)
  moreover have "dmin ! 0 \<le> 32767" using below_bounds(3) [OF d L(1)] below_0 [of dmin] L(3) by simp
  ultimately have "a ! 0 = max (sort nlsf ! 0) (dmin ! 0)" using L by (simp add: a_def s16_id)
  then have a0: "dmin ! 0 \<le> a ! 0" by simp
  define b where "b = silk_NLSF_spread_up a dmin [1..<L]"
  have b: "int16_list L b" "\<forall>i < L. below dmin i \<le> b ! i" using spread_up [OF d a16 a0, of L] L(1) by (simp_all add: b_def)
  define y where "y = min (b ! (L - 1)) (2 ^ 15 - dmin ! L)"
  define c where "c = b[L - 1 := s16 y]"
  have lb: "length b = L" "b ! (L - 1) < 32768" using b(1) L(1) by (simp_all add: int16_list_def list_all_length)
  have bb: "below dmin (L - 1) \<le> y" using b(2) below_bounds(2) [OF d, of "L - 1"] L(1) by (simp add: y_def)
  then have y16: "s16 y = y" using below_bounds(1) [OF d, of "L - 1"] L(1) lb(2) by (intro s16_id) (auto simp: y_def)
  have "spread_from dmin L c (L - 1)"
  proof -
    have "\<forall>i < L. below dmin i \<le> c ! i" using b(2) bb y16 lb(1) by (simp add: c_def nth_list_update)
    moreover have "c ! (L - 1) + dmin ! L \<le> 2 ^ 15" using y16 lb(1) L(1) by (simp add: c_def y_def)
    ultimately show ?thesis using int16_update [OF b(1)] by (auto simp: spread_from_def c_def)
  qed
  from spread_down [OF d this, of 0] have r: "spread_from dmin L (silk_NLSF_spread_down c dmin (rev [0..<L - 1])) 0" by simp
  moreover have "silk_NLSF_fallback nlsf dmin L = silk_NLSF_spread_down c dmin (rev [0..<L - 1])"
    using insertion_sort_correct [of nlsf] L unfolding silk_NLSF_fallback_def Let_def c_def y_def b_def a_def by simp
  ultimately show ?thesis using below_0 [of dmin] L by (auto simp: spread_from_def spaced_def int16_list_def list_all_iff)
qed

lemma loop_spaced:
  assumes "distances L dmin"
  shows "int16_list L nlsf \<Longrightarrow> spaced (silk_NLSF_loop n nlsf dmin L) dmin L"
proof (induction n arbitrary: nlsf)
  case 0
  then show ?case using fallback_spaced [OF assms] by simp
next
  case (Suc n)
  obtain m I where m: "silk_NLSF_smallest nlsf dmin L = (m, I)" by fastforce
  show ?case
  proof (cases "m \<ge> 0")
    case True
    then show ?thesis using smallest_nonneg [OF m True] Suc(2) assms m by (simp add: int16_list_def distances_def)
  next
    case False
    then show ?thesis using Suc(1) [OF int16_move [OF Suc(2)]] m by simp
  qed
qed

lemma stabilize_spaced: "distances L dmin \<Longrightarrow> int16_list L nlsf \<Longrightarrow> spaced (silk_NLSF_stabilize nlsf dmin L) dmin L"
  unfolding silk_NLSF_stabilize_def by (rule loop_spaced)

lemma spaced_fixed:
  assumes "spaced nlsf dmin L" "0 < L"
  shows "silk_NLSF_stabilize nlsf dmin L = nlsf"
proof -
  obtain m I where m: "silk_NLSF_smallest nlsf dmin L = (m, I)" by fastforce
  have g: "0 \<le> silk_NLSF_gap nlsf dmin L i" if "i \<le> L" for i
  proof (cases "1 \<le> i \<and> i < L")
    case True
    then have "nlsf ! (i - 1) + dmin ! i \<le> nlsf ! i" using assms(1) by (simp add: spaced_def list_all_iff)
    then show ?thesis using True by (simp add: silk_NLSF_gap_def)
  next
    case False
    then have "i = 0 \<or> i = L" using that by auto
    then show ?thesis using assms by (auto simp: spaced_def silk_NLSF_gap_def)
  qed
  have s: "m = silk_NLSF_gap nlsf dmin L I" using smallest_fold [OF m [unfolded silk_NLSF_smallest_def]] by simp
  have "0 \<le> m"
  proof (cases "I \<le> L")
    case False
    then show ?thesis using g [of L] s assms(2) by (simp add: silk_NLSF_gap_def)
  qed (use g s in simp)
  then show ?thesis using m by (simp add: silk_NLSF_stabilize_def eval_nat_numeral)
qed

section \<open>The codebooks\<close>

lemma codebook_distances:
  "distances (CB_order silk_NLSF_CB_NB_MB) (deltaMin_Q15 silk_NLSF_CB_NB_MB)" "distances (CB_order silk_NLSF_CB_WB) (deltaMin_Q15 silk_NLSF_CB_WB)"
  by code_simp+

lemma NLSF_decode_spaced:
  assumes "cb = silk_NLSF_CB_NB_MB \<or> cb = silk_NLSF_CB_WB"
  shows "spaced (silk_NLSF_decode ixs cb) (deltaMin_Q15 cb) (CB_order cb)"
  unfolding silk_NLSF_decode_def Let_def case_prod_unfold
  by (rule stabilize_spaced) (use assms codebook_distances s16_range in \<open>auto simp: int16_list_def list_all_iff\<close>)

end
