(* ===== verification/Silk_Pitch.thy ===== *)
theory Silk_Pitch
  imports Silk_Indices_Safe Silk_Gains Silk_NLSF_Stable
begin

text \<open>
  The pitch lags of the subframes, \<open>src/Vendor/opus/silk/decode_pitch.c\<close>, and what the decoder computes from the side information of a frame, whatever the bytes are.
\<close>

definition silk_pitch_codebook :: "nat \<Rightarrow> nat \<Rightarrow> int list list" where
  "silk_pitch_codebook Fs_kHz nb =
    (if Fs_kHz = 8 then if nb = 4 then silk_CB_lags_stage2 else silk_CB_lags_stage2_10_ms
     else if nb = 4 then silk_CB_lags_stage3 else silk_CB_lags_stage3_10_ms)"

definition silk_decode_pitch :: "int \<Rightarrow> int \<Rightarrow> nat \<Rightarrow> nat \<Rightarrow> int list" where
  "silk_decode_pitch lag_ix contour_ix Fs_kHz nb =
    (let min_lag = silk_SMULBB 2 (int Fs_kHz);
         max_lag = silk_SMULBB 18 (int Fs_kHz);
         lag = min_lag + lag_ix
     in map (\<lambda>k. silk_LIMIT (lag + silk_pitch_codebook Fs_kHz nb ! k ! nat contour_ix) min_lag max_lag) [0..<nb])"

text \<open>The codebook has a row for every subframe, with an entry for every contour that can be coded.\<close>

lemma pitch_codebook_size:
  assumes "silk_state_ok st"
  shows "length (silk_pitch_codebook (fs_kHz st) (nb_subfr st)) = nb_subfr st \<and>
    list_all (\<lambda>row. length row = contour_size st) (silk_pitch_codebook (fs_kHz st) (nb_subfr st))"
proof -
  have "length silk_CB_lags_stage2 = 4 \<and> list_all (\<lambda>row. length row = 11) silk_CB_lags_stage2"
    "length silk_CB_lags_stage2_10_ms = 2 \<and> list_all (\<lambda>row. length row = 3) silk_CB_lags_stage2_10_ms"
    "length silk_CB_lags_stage3 = 4 \<and> list_all (\<lambda>row. length row = 34) silk_CB_lags_stage3"
    "length silk_CB_lags_stage3_10_ms = 2 \<and> list_all (\<lambda>row. length row = 12) silk_CB_lags_stage3_10_ms" by code_simp+
  then show ?thesis using state_tables(4,5) [OF assms] by (auto simp: silk_pitch_codebook_def contour_size_def)
qed

lemma decode_pitch_bounds:
  assumes "fs \<le> 16"
  shows "length (silk_decode_pitch lag c fs nb) = nb \<and> list_all (\<lambda>p. 2 * int fs \<le> p \<and> p \<le> 18 * int fs) (silk_decode_pitch lag c fs nb)"
proof -
  have m: "silk_SMULBB 2 (int fs) = 2 * int fs" "silk_SMULBB 18 (int fs) = 18 * int fs" using assms by (simp_all add: silk_SMULBB_def s16_id)
  have "2 * int fs \<le> 18 * int fs" by simp
  then show ?thesis unfolding silk_decode_pitch_def Let_def m by (simp add: list_all_iff limit_bounds(3))
qed

text \<open>What is known of the parameters of a frame.\<close>

definition good_parameters :: "silk_coder_state \<Rightarrow> nat \<Rightarrow> int \<Rightarrow> SideInfoIndices \<Rightarrow> bool" where
  "good_parameters st condCoding prev ix \<longleftrightarrow>
     (let (gains, fin) = silk_gains_dequant (take (nb_subfr st) (GainsIndices ix)) prev (condCoding = 2)
      in length gains = nb_subfr st \<and> list_all (\<lambda>g. 81920 \<le> g \<and> g \<le> 1686110208) gains \<and> 0 \<le> fin \<and> fin < 64) \<and>
     spaced (silk_NLSF_decode (NLSFIndices ix) (psNLSF_CB st)) (deltaMin_Q15 (psNLSF_CB st)) (CB_order (psNLSF_CB st)) \<and>
     (signalType ix = 2 \<longrightarrow> 0 \<le> contourIndex ix \<and> contourIndex ix < int (length (silk_pitch_codebook (fs_kHz st) (nb_subfr st) ! 0)) \<and>
        list_all (\<lambda>p. 2 * int (fs_kHz st) \<le> p \<and> p \<le> 18 * int (fs_kHz st)) (silk_decode_pitch (lagIndex ix) (contourIndex ix) (fs_kHz st) (nb_subfr st)))"

lemma state_codebook: "silk_state_ok st \<Longrightarrow> psNLSF_CB st = silk_NLSF_CB_NB_MB \<or> psNLSF_CB st = silk_NLSF_CB_WB"
proof -
  assume "silk_state_ok st"
  then have "psNLSF_CB st = psNLSF_CB (silk_set_tables (fs_kHz st) st)" by (simp add: silk_state_ok_def)
  then show ?thesis by (simp add: silk_set_tables_def split: if_splits)
qed

lemma valid_parameters:
  assumes st: "silk_state_ok st" and v: "valid_indices st condCoding (ix\<lparr>lagIndex := 0\<rparr>)"
  shows "good_parameters st condCoding prev ix"
proof -
  have nb: "0 < nb_subfr st" using state_tables(5) [OF st] by auto
  obtain gains fin where g: "silk_gains_dequant (take (nb_subfr st) (GainsIndices ix)) prev (condCoding = 2) = (gains, fin)" by fastforce
  have len: "nb_subfr st \<le> length (GainsIndices ix)" using v by (simp add: valid_indices_def valid_gains_def)
  then have "take (nb_subfr st) (GainsIndices ix) \<noteq> []" "length (take (nb_subfr st) (GainsIndices ix)) = nb_subfr st" using nb by auto
  then have gains: "length gains = nb_subfr st" "list_all (\<lambda>g. 81920 \<le> g \<and> g \<le> 1686110208) gains" "gain_level_ok fin"
    using gains_dequant_loop [OF g [unfolded silk_gains_dequant_def]] by auto
  have sp: "spaced (silk_NLSF_decode (NLSFIndices ix) (psNLSF_CB st)) (deltaMin_Q15 (psNLSF_CB st)) (CB_order (psNLSF_CB st))"
    by (rule NLSF_decode_spaced [OF state_codebook [OF st]])
  have "contourIndex ix < int (length (silk_pitch_codebook (fs_kHz st) (nb_subfr st) ! 0))" "0 \<le> contourIndex ix" if "signalType ix = 2"
    using v that pitch_codebook_size [OF st] nb by (auto simp: valid_indices_def valid_voiced_def list_all_length)
  moreover have "list_all (\<lambda>p. 2 * int (fs_kHz st) \<le> p \<and> p \<le> 18 * int (fs_kHz st)) (silk_decode_pitch (lagIndex ix) (contourIndex ix) (fs_kHz st) (nb_subfr st))"
    using decode_pitch_bounds [of "fs_kHz st"] state_tables(4) [OF st] by auto
  ultimately show ?thesis using g gains sp by (simp add: good_parameters_def gain_level_ok_def)
qed

end
