(* ===== verification/Spec2Isabelle.thy ===== *)
theory Spec2Isabelle
  imports Api_Keys Api_Signature Opus_Repack Opus_Decode_Total Opus_Energy Opus_Tell Silk_Packet_Code Silk_Pitch
begin

text \<open>
  Verification of the C code of the application: the elliptic curve library that signs and checks its messages, and the packet
  layer and the entropy coder of the audio codec that carries its calls.

  The program. The application is written in Swift; its cryptography on the curve secp256k1 is C, compiled from
  \<open>src/Core/Nostr/Csecp256k1/secp256k1.c\<close>, which includes the headers of \<open>src/Vendor/secp256k1/src/\<close>. This library
  models the 64-bit build of that code (five 52-bit limbs for field elements, four 64-bit limbs for
  scalars, native 128-bit integers, the portable C branches, little-endian memory), layer by layer. Audio is coded with Opus,
  the C library under \<open>src/Vendor/opus\<close>; modelled here are its packet layer, which takes apart what arrives from the network, its entropy coder, which all the
  parameters of a frame pass through, and the coding of those parameters in SILK, its speech codec.

  \<^item> Words and bytes. \<open>Word_Prelude\<close> holds the shared facts on machine words and the collection \<open>word_to_int\<close>;
    \<open>Int128\<close> is \<open>int128_native_impl.h\<close>, \<open>Bytes\<close> the memory helpers of \<open>util.h\<close>.
  \<^item> The field. \<open>Field_5x52\<close> and \<open>Field_5x52_Mul\<close> translate \<open>field_5x52_impl.h\<close> and \<open>field_5x52_int128_impl.h\<close>;
    \<open>Field_5x52_Norm\<close>, \<open>Field_5x52_Ops\<close> and \<open>Field_5x52_Bytes\<close> prove them; \<open>Field_Generic\<close> is \<open>field_impl.h\<close>. The magnitude of an
    element, which the code tracks only in its verification build, is the predicate \<open>fe_magnitude\<close>.
  \<^item> Scalars. \<open>Scalar_4x64\<close> translates \<open>scalar_4x64_impl.h\<close>, with the proofs in \<open>Scalar_4x64_Ops\<close>, \<open>Scalar_4x64_Mul\<close> and
    \<open>Scalar_4x64_Reduce\<close>; \<open>Scalar_Generic\<close> is \<open>scalar_impl.h\<close> with the endomorphism split.
  \<^item> Hashing. \<open>Hash\<close> translates \<open>hash_impl.h\<close> and states the reference definitions of the standards; \<open>Hash_Correct\<close> treats
    one block, \<open>Hash_Stream\<close> the streaming interface (locale \<open>hash_stream\<close>), \<open>Hash_Hmac\<close> tagged hashes, HMAC and the RFC 6979
    generator.
  \<^item> The prime field. \<open>Prime_Cert\<close>, \<open>Prime_Eval\<close>, \<open>Secp_Primes\<close> and \<open>Secp_Prime_P\<close> prove that the modulus is prime by Pocklington
    certificates, \<open>Secp_Cube\<close> that -7 is not a cube; \<open>Prime_Field\<close> makes the residues a field, the type \<open>fp\<close>, and relates
    limbs to it (\<open>fe_is\<close>).
  \<^item> The curve. \<open>Group\<close> translates \<open>group.h\<close> and \<open>group_impl.h\<close>. \<open>Group_Law\<close> states the chord and tangent law \<open>ec_add\<close>
    on affine points over \<open>fp\<close> and proves that every addition formula implements it; \<open>Group_Ops\<close> and \<open>Group_Storage\<close> treat
    the other operations.
  \<^item> Keys and signatures. \<open>Eckey\<close> is \<open>eckey_impl.h\<close> against the SEC 1 encoding, \<open>Ecdsa_Der\<close> the DER reader and writer of
    \<open>ecdsa_impl.h\<close>, \<open>Hsort\<close> the heap sort of \<open>hsort_impl.h\<close> (locale \<open>sort_cmp\<close> for the comparison it is given).
  \<^item> The interface. \<open>Api_Keys\<close> and \<open>Api_Signature\<close> translate the functions of \<open>secp256k1.c\<close> on keys, signatures, nonces and tagged
    hashes, with their argument checks.
  \<^item> Opus packets. \<open>Opus_Packet\<close> is the packet parser of \<open>opus.c\<close> and the packet queries of \<open>opus_decoder.c\<close>, with the proof that accepted
    frames lie inside the packet; \<open>Opus_Extensions\<close> is \<open>extensions.c\<close>, whose parser inverts its generator; \<open>Opus_Layout\<close> shows that a
    packet laid out as the format prescribes is accepted; \<open>Opus_Repacketizer\<close> is \<open>repacketizer.c\<close> and \<open>Opus_Repack\<close> its
    correctness: the repacketizer is a list of frames (\<open>rp_view\<close>), and what it writes parses to those frames.
  \<^item> The entropy coder of Opus. \<open>Opus_Range\<close> translates \<open>celt/entcode.h\<close>, \<open>entcode.c\<close>, \<open>entenc.c\<close> and \<open>entdec.c\<close>. \<open>Opus_Range_Enc\<close> reads the encoder as a
    subinterval of the numbers of a given length (the digits written, the pending carries and the register), \<open>Opus_Range_Ops\<close> the operations as narrowings
    of it, \<open>Opus_Range_Dec\<close> keeps the decoder in step for every stream inside the interval, \<open>Opus_Range_Raw\<close> does the same for the raw bits at the other end of
    the buffer, and \<open>Opus_Range_Done\<close> and \<open>Opus_Range_Final\<close> show that \<open>ec_enc_done\<close> writes a stream inside both. \<open>Opus_Coder\<close> and \<open>Opus_Coder_Sync\<close> collect
    this in the locales \<open>symbol_coder\<close> and \<open>stream_coder\<close>: any coder of single values that keeps encoder and decoder in step codes whole streams.
    \<open>Opus_Laplace\<close> and \<open>Opus_Laplace_Code\<close> are \<open>laplace.c\<close>, \<open>Opus_Energy\<close> the models of \<open>quant_bands.c\<close> it is used with; \<open>Opus_Cwrs\<close> and \<open>Opus_Cwrs_Code\<close> are \<open>cwrs.c\<close>,
    its table against the recurrence and the enumeration against the decoder's search. \<open>Opus_Symbols\<close> interprets the locales on streams that mix
    all of these. \<open>Opus_Decode_Total\<close> shows that the decoder answers on any bytes, \<open>Opus_Ilog\<close> and \<open>Opus_Tell\<close> treat the bit counts.
  \<^item> Coding with the range coder. \<open>Opus_Codes\<close> has the two notions that the proofs of SILK are made of, each with a rule for every request and for sequences,
    branches and loops: \<open>codes\<close> says that a decoder routine reads back what an encoder routine wrote, wherever in a stream they run, and \<open>answers\<close> that a decoder routine returns
    on any bytes a result with a given property. \<open>Opus_Steps\<close> interprets \<open>stream_coder\<close> on pairs of such routines, which carries both notions to finished buffers.
  \<^item> SILK. \<open>Silk_Macros\<close>, \<open>Silk_Tables\<close> and \<open>Silk_Index_Tables\<close> hold the fixed-point macros and the tables. \<open>Silk_Shell\<close> (\<open>shell_coder.c\<close>, \<open>code_signs.c\<close>) and \<open>Silk_Pulses\<close>
    (\<open>encode_pulses.c\<close>, \<open>decode_pulses.c\<close>) are the excitation, with the round trip in \<open>Silk_Pulses_Code\<close> and the reading of any bytes in \<open>Silk_Frame\<close>; \<open>Silk_Indices\<close>
    (\<open>encode_indices.c\<close>, \<open>decode_indices.c\<close>) is the side information, with \<open>Silk_Indices_Code\<close> and \<open>Silk_Indices_Safe\<close>. \<open>Silk_Stereo\<close>, \<open>Silk_Gains\<close>, \<open>Silk_NLSF\<close> with
    \<open>Silk_NLSF_Stable\<close>, and \<open>Silk_Pitch\<close> turn indices into predictors, gains, line spectral frequencies and pitch lags. \<open>Silk_Packet\<close> is the start of a packet in
    \<open>enc_API.c\<close> and \<open>dec_API.c\<close>, the flags and the redundant frames, and \<open>Silk_Packet_Code\<close> shows that a receiver reads over them in step.

  How the code is read. A structure is a record, an output written through a pointer is returned, and an argument that
  is both read and written is passed in and returned. A pointer that may be null is an \<open>option\<close>. A \<open>while\<close> loop is a
  recursive function with a termination proof; no loop of the model needs fuel. The renormalization loops of the range coder would not end on a
  range of 0, and the searches of the Laplace coder not on a wrong frequency: these are partial functions into \<open>option\<close>, where \<open>None\<close> is a loop that does not return, and
  that they return on every reachable state is proved. So are the loop that writes the output of the RFC 6979 generator, which converts a \<open>size_t\<close> to \<open>int\<close> and ends
  for lengths below \<open>2 ^ 31\<close>, and the loop over the attempts of the nonce function, whose 32-bit variable makes it endless for the largest counter. The packet code keeps C \<open>int\<close> values as integers, since
  every one of them is bounded by the packet size, but for the sum of the length bytes of an extension, which stays within an \<open>opus_int32\<close> for padding of at most
  8421504 bytes (\<open>skip_length_loop_int32\<close>), and the length of an extension to be written, which must do so too; the range coder keeps its 32-bit registers as integers reduced by \<open>w32\<close>. The sum of squares that \<open>cwrsi\<close> adds
  up in a float is an integer of the model, exact as it stays below \<open>2 ^ 24\<close>. SILK computes on integers of 8, 16 and 32 bits: the model uses integers and writes the
  casts out (\<open>s8\<close>, \<open>s16\<close>) where a value can leave its type. The scaling loop of the excitation and the loop that reads a count are partial functions, and that they return is
  part of the round trip and of the reading of any bytes. A record of SILK has the fields its coding uses; all channels of a packet have the same number of frames. \<open>VERIFY_CHECK\<close> and the bookkeeping of
  the verification build are not executed in production and appear as the hypotheses of the theorems instead, so the
  theorems say that the production code is right wherever those checks would pass. Limbs keep their width: every
  addition, shift and product of the model wraps as in C, and that nothing is lost is proved, not assumed.

  Locales. \<open>modular_elem\<close> (multiplication modulo an integer, interpreted on field elements), \<open>residue_ring\<close> (the
  operations of the integers modulo an integer, interpreted on scalars), \<open>hash_stream\<close> (a streaming hash, interpreted
  on SHA-256 and on HMAC), \<open>sort_cmp\<close> and \<open>byte_sort_cmp\<close> (a lawful comparison, interpreted on the comparison of public keys),
  \<open>symbol_coder\<close> and \<open>stream_coder\<close> (a coder of single values, interpreted on the requests of the range coder, on the symbols of CELT and on the routines of SILK).

  Not modelled. The modular inverse and the Jacobi symbol (\<open>modinv64_impl.h\<close>) and what depends on them: the conversion
  of a Jacobian point to affine form without a known inverse, signing and verification; point multiplication
  (\<open>ecmult_impl.h\<close>, \<open>ecmult_gen_impl.h\<close>, \<open>ecmult_const_impl.h\<close>) and its precomputed tables; contexts and their blinding; the
  extra modules; the assembly branches and the 32-bit variants. Side effects outside the values, such as timing
  and the clearing of temporaries, are not part of the model. Of Opus: the signal processing of both codecs (in SILK the
  filters, noise shaping, the search for indices, resampling and the loop over the frames), the encoder's decisions,
  the multistream layer and the in-place removal of padding. The rest of the application is Swift.
\<close>

unbundle bit_operations_syntax

section \<open>The field\<close>

text \<open>
  C1. Multiplication of field elements is multiplication modulo the field prime. For inputs of
  magnitude at most 8 no 64-bit or 128-bit intermediate of \<open>secp256k1_fe_mul\<close> wraps around, the
  result stands for the product and has magnitude 1; squaring gives the very limbs of the product
  of an element with itself.
\<close>

theorem fe_mul_mod_p:
  assumes "fe_magnitude 8 a" "fe_magnitude 8 b"
  shows "fe_val (secp256k1_fe_mul a b) mod secp256k1_p = fe_val a * fe_val b mod secp256k1_p \<and>
    fe_magnitude 1 (secp256k1_fe_mul a b) \<and> secp256k1_fe_sqr a = secp256k1_fe_mul a a"
  using fe_rep_mul [of 8 a "fe_val a" 8 b "fe_val b"] fe_sqr_eq_mul [OF assms(1)] assms by (simp add: fe_rep_def)

theorem fe_mul_mod_p_witness:
  "fe_val (secp256k1_fe_mul (mk_fe 1 2 3 4 5) (mk_fe 5 4 3 2 1)) mod secp256k1_p =
    fe_val (mk_fe 1 2 3 4 5) * fe_val (mk_fe 5 4 3 2 1) mod secp256k1_p"
  using fe_mul_mod_p [of "mk_fe 1 2 3 4 5" "mk_fe 5 4 3 2 1"] by (simp add: fe_magnitude_def)

text \<open>
  C5. Normalization of an element of magnitude at most 32 gives the canonical
  representative: fully reduced limbs whose value is the residue. Two elements are congruent exactly when
  their normal forms are the same limbs, and the variable-time routine returns the same limbs as the
  constant-time one.
\<close>

theorem fe_normalize_canonical:
  assumes "fe_magnitude 32 r" "fe_magnitude 32 s"
  shows "fe_val (secp256k1_fe_normalize r) = fe_val r mod secp256k1_p \<and>
    fe_normalized (secp256k1_fe_normalize r) \<and>
    (secp256k1_fe_normalize r = secp256k1_fe_normalize s \<longleftrightarrow> fe_val r mod secp256k1_p = fe_val s mod secp256k1_p) \<and>
    secp256k1_fe_normalize_var r = secp256k1_fe_normalize r"
  using normalize_correct [OF assms(1)] normalize_correct [OF assms(2)] fe_normalized_inj by metis

theorem fe_normalize_canonical_witness:
  "secp256k1_fe_normalize (mk_fe 0xFFFFEFFFFFC2F 0xFFFFFFFFFFFFF 0xFFFFFFFFFFFFF 0xFFFFFFFFFFFFF 0x0FFFFFFFFFFFF) =
    secp256k1_fe_normalize (mk_fe 0 0 0 0 0)"
  using fe_normalize_canonical [of "mk_fe 0xFFFFEFFFFFC2F 0xFFFFFFFFFFFFF 0xFFFFFFFFFFFFF 0xFFFFFFFFFFFFF 0x0FFFFFFFFFFFF" "mk_fe 0 0 0 0 0"]
  by (simp add: fe_magnitude_def fe_val_def secp256k1_p_def)

text \<open>
  Both tests for zero without normalization decide whether the element is zero modulo the
  field prime, for every magnitude up to 32.
\<close>

theorem fe_zero_tests:
  assumes "fe_magnitude 32 r"
  shows "(secp256k1_fe_normalizes_to_zero r \<longleftrightarrow> fe_val r mod secp256k1_p = 0) \<and>
    secp256k1_fe_normalizes_to_zero_var r = secp256k1_fe_normalizes_to_zero r"
  using normalizes_to_zero_correct [OF assms] by simp

theorem fe_zero_tests_witness:
  "secp256k1_fe_normalizes_to_zero (mk_fe 0xFFFFEFFFFFC2F 0xFFFFFFFFFFFFF 0xFFFFFFFFFFFFF 0xFFFFFFFFFFFFF 0x0FFFFFFFFFFFF)"
  using fe_zero_tests [of "mk_fe 0xFFFFEFFFFFC2F 0xFFFFFFFFFFFFF 0xFFFFFFFFFFFFF 0xFFFFFFFFFFFFF 0x0FFFFFFFFFFFF"]
  by (simp add: fe_magnitude_def fe_val_def secp256k1_p_def)

text \<open>
  C29. Lazy reduction: addition, negation, multiplication by a small integer, addition of a small
  integer and halving compute the ring operations modulo the prime without a carry lost, and the
  magnitude of the result is the one the callers count on.
\<close>

theorem fe_linear_ops:
  assumes "fe_rep m a x" "fe_rep k b y" "m + k \<le> 32" "m \<le> 31" "0 \<le> c" "c \<le> 32" "nat c * m \<le> 32"
  shows "fe_rep (m + k) (secp256k1_fe_add a b) (x + y) \<and>
    fe_rep (m + 1) (secp256k1_fe_negate a (int m)) (- x) \<and>
    fe_rep (nat c * m) (secp256k1_fe_mul_int a c) (c * x) \<and>
    fe_rep (m + 1) (secp256k1_fe_add_int a c) (x + c) \<and>
    fe_rep (m div 2 + 1) (secp256k1_fe_half a) (x * ((secp256k1_p + 1) div 2))"
  using fe_rep_add [of m a x k b y] fe_rep_negate [of m a x "int m"] fe_rep_mul_int [of m a x c]
    fe_rep_add_int [of m a x c] fe_rep_half [of m a x] assms by simp

theorem fe_linear_ops_witness:
  "fe_rep 2 (secp256k1_fe_add (mk_fe 3 0 0 0 0) (mk_fe 4 0 0 0 0)) 7 \<and>
    fe_rep 1 (secp256k1_fe_half (mk_fe 3 0 0 0 0)) (3 * ((secp256k1_p + 1) div 2))"
proof -
  have "fe_rep 1 (mk_fe 3 0 0 0 0) 3" "fe_rep 1 (mk_fe 4 0 0 0 0) 4"
    by (simp_all add: fe_rep_def fe_magnitude_def fe_val_def)
  then show ?thesis using fe_linear_ops [of 1 "mk_fe 3 0 0 0 0" 3 1 "mk_fe 4 0 0 0 0" 4 2] by (simp add: numeral_2_eq_2)
qed

text \<open>
  The 32-byte encoding. Parsing accepts exactly the encodings of integers below the
  field prime, parsing what was printed gives the same limbs back, and printing what was parsed gives the
  same bytes back even for the encodings at or above the prime.
\<close>

theorem fe_bytes_roundtrip:
  assumes "length b = 32" "fe_normalized a"
  shows "(snd (secp256k1_fe_set_b32_limit b) \<longleftrightarrow> be_val b < secp256k1_p) \<and>
    fe_val (fst (secp256k1_fe_set_b32_limit b)) = be_val b \<and>
    secp256k1_fe_get_b32 (fst (secp256k1_fe_set_b32_limit b)) = b \<and>
    secp256k1_fe_set_b32_limit (secp256k1_fe_get_b32 a) = (a, True)"
  using fe_set_b32_limit_iff [OF assms(1)] fe_get_set_b32 [OF assms(1)] fe_set_get_b32 [OF assms(2)]
    fe_set_b32_mod_val [OF assms(1)] by simp

theorem fe_bytes_roundtrip_witness:
  "\<not> snd (secp256k1_fe_set_b32_limit (replicate 32 255)) \<and>
    secp256k1_fe_get_b32 (fst (secp256k1_fe_set_b32_limit (replicate 32 255))) = replicate 32 255 \<and>
    secp256k1_fe_set_b32_limit (secp256k1_fe_get_b32 (mk_fe 7 0 0 0 0)) = (mk_fe 7 0 0 0 0, True)"
proof -
  have "be_val (replicate 32 255) = 2 ^ 256 - 1" by (simp only: be_val_ones) simp
  moreover have "fe_normalized (mk_fe 7 0 0 0 0)" by (simp add: fe_normalized_def Let_def)
  ultimately show ?thesis
    using fe_bytes_roundtrip [of "replicate 32 255" "mk_fe 7 0 0 0 0"] by (simp add: secp256k1_p_def)
qed

text \<open>
  C30. The square root routine raises its argument to \<open>(p + 1) / 4\<close> by the addition chain of
  the code, and its return value says exactly whether that power squares to the argument modulo the
  prime, that is, whether a root was written.
\<close>

theorem fe_sqrt_correct:
  assumes "fe_rep m a v" "m \<le> 8"
  shows "fe_rep 1 (fst (secp256k1_fe_sqrt a)) (v ^ nat ((secp256k1_p + 1) div 4)) \<and>
    (snd (secp256k1_fe_sqrt a) \<longleftrightarrow>
       (fe_val (fst (secp256k1_fe_sqrt a))) ^ 2 mod secp256k1_p = v mod secp256k1_p)"
proof -
  note r = fe_sqrt_power [OF assms]
  then have "fe_rep 1 (fst (secp256k1_fe_sqrt a)) (fe_val (fst (secp256k1_fe_sqrt a)))" by (simp add: fe_rep_def)
  from fe_sqrt_flag [OF assms this] r show ?thesis by (simp add: power2_eq_square)
qed

theorem fe_sqrt_correct_witness:
  "fe_rep 1 (fst (secp256k1_fe_sqrt (mk_fe 4 0 0 0 0))) (4 ^ nat ((secp256k1_p + 1) div 4))"
  using fe_sqrt_correct [of 1 "mk_fe 4 0 0 0 0" 4] by (simp add: fe_rep_def fe_magnitude_def fe_val_def)

text \<open>
  Comparing field elements: the limb comparison of normalized elements is the order of the
  residues, and \<open>secp256k1_fe_equal\<close> decides congruence without normalizing its second argument.
\<close>

theorem fe_comparisons:
  assumes "fe_normalized a" "fe_normalized b" "fe_rep 1 c x" "fe_rep m d y" "m \<le> 30"
  shows "secp256k1_fe_cmp_var a b = sgn (fe_val a - fe_val b) \<and>
    (secp256k1_fe_equal c d \<longleftrightarrow> x mod secp256k1_p = y mod secp256k1_p)"
  using fe_cmp_var_sign [OF assms(1,2)] fe_equal_correct [OF assms(3-5)] by simp

theorem fe_comparisons_witness:
  "secp256k1_fe_cmp_var (mk_fe 7 0 0 0 0) (mk_fe 0 1 0 0 0) = - 1 \<and>
    secp256k1_fe_equal (mk_fe 7 0 0 0 0) (mk_fe 7 0 0 0 0)"
  using fe_comparisons [of "mk_fe 7 0 0 0 0" "mk_fe 0 1 0 0 0" "mk_fe 7 0 0 0 0" 7 1 "mk_fe 7 0 0 0 0" 7]
  by (simp add: fe_normalized_def fe_rep_def fe_magnitude_def fe_val_def Let_def)

section \<open>Scalars\<close>

text \<open>
  C2. Scalar multiplication through the 512-bit product and the three folding steps is
  multiplication modulo the group order, for all limb values; the result is fully reduced.
\<close>

theorem scalar_mul_mod_n:
  "sc_val (secp256k1_scalar_mul a b) = sc_val a * sc_val b mod secp256k1_n \<and>
    secp256k1_scalar_verify (secp256k1_scalar_mul a b)"
  using scalar_mul_val [of a b] scalar_mul_verify [of a b] by simp

text \<open>
  The reduction of any eight-limb integer gives its residue modulo the group order.
\<close>

theorem scalar_reduce_512_mod_n:
  assumes "length l = 8"
  shows "sc_val (secp256k1_scalar_reduce_512 l) = limbs_val l mod secp256k1_n"
proof -
  obtain l0 l1 l2 l3 l4 l5 l6 l7 where "l = [l0, l1, l2, l3, l4, l5, l6, l7]"
    using assms by (auto simp: numeral_eq_Suc length_Suc_conv)
  then show ?thesis using scalar_reduce_512_val [of l0 l1 l2 l3 l4 l5 l6 l7] by simp
qed

theorem scalar_reduce_512_mod_n_witness:
  "sc_val (secp256k1_scalar_reduce_512 [1, 2, 3, 4, 5, 6, 7, 8]) = limbs_val [1, 2, 3, 4, 5, 6, 7, 8] mod secp256k1_n"
  using scalar_reduce_512_mod_n [of "[1, 2, 3, 4, 5, 6, 7, 8]"] by simp

text \<open>
  Addition, negation and halving of reduced scalars are the operations of the integers
  modulo the group order; addition reports whether it had to subtract the order, and conditional
  negation returns the sign it applied.
\<close>

theorem scalar_additive_ops:
  assumes "secp256k1_scalar_verify a" "secp256k1_scalar_verify b"
  shows "sc_val (fst (secp256k1_scalar_add a b)) = (sc_val a + sc_val b) mod secp256k1_n \<and>
    snd (secp256k1_scalar_add a b) = b2w (secp256k1_n \<le> sc_val a + sc_val b) \<and>
    sc_val (secp256k1_scalar_negate a) = (- sc_val a) mod secp256k1_n \<and>
    2 * sc_val (secp256k1_scalar_half a) mod secp256k1_n = sc_val a \<and>
    sc_val (secp256k1_scalar_half a) < secp256k1_n \<and>
    secp256k1_scalar_cond_negate a flag = (if flag then (secp256k1_scalar_negate a, - 1) else (a, 1))"
  using scalar_add_correct [OF assms] scalar_negate_correct [OF assms(1)] scalar_half_correct [OF assms(1)]
    cond_negate_eq [of a flag] by simp

theorem scalar_additive_ops_witness:
  "2 * sc_val (secp256k1_scalar_half (mk_sc 3 0 0 0)) mod secp256k1_n = 3"
  using scalar_additive_ops [of "mk_sc 3 0 0 0" "mk_sc 5 0 0 0" False]
  by (simp add: scalar_verify_iff sc_val_def secp256k1_n_def)

text \<open>
  The 32-byte encoding of scalars: parsing reduces modulo the order and reports the
  overflow, the secret-key parser accepts exactly the integers from 1 to the order minus 1, and both
  round trips hold.
\<close>

theorem scalar_bytes_roundtrip:
  assumes "length b = 32" "secp256k1_scalar_verify a"
  shows "sc_val (fst (secp256k1_scalar_set_b32 b)) = be_val b mod secp256k1_n \<and>
    (snd (secp256k1_scalar_set_b32 b) \<longleftrightarrow> secp256k1_n \<le> be_val b) \<and>
    (snd (secp256k1_scalar_set_b32_seckey b) \<longleftrightarrow> 0 < be_val b \<and> be_val b < secp256k1_n) \<and>
    (snd (secp256k1_scalar_set_b32_seckey b) \<longrightarrow>
       secp256k1_scalar_get_b32 (fst (secp256k1_scalar_set_b32_seckey b)) = b) \<and>
    secp256k1_scalar_set_b32 (secp256k1_scalar_get_b32 a) = (a, False)"
  using scalar_set_b32_correct [OF assms(1)] set_b32_seckey_correct [OF assms(1)] scalar_set_get_b32 [OF assms(2)]
    scalar_get_b32_val [of "fst (secp256k1_scalar_set_b32_seckey b)"] assms(1) by (auto intro!: be_val_inj)

theorem scalar_bytes_roundtrip_witness:
  "snd (secp256k1_scalar_set_b32 (replicate 32 255)) \<and> \<not> snd (secp256k1_scalar_set_b32_seckey (replicate 32 255)) \<and>
    secp256k1_scalar_set_b32 (secp256k1_scalar_get_b32 (mk_sc 7 0 0 0)) = (mk_sc 7 0 0 0, False)"
proof -
  have "be_val (replicate 32 255) = 2 ^ 256 - 1" by (simp only: be_val_ones) simp
  then show ?thesis
    using scalar_bytes_roundtrip [of "replicate 32 255" "mk_sc 7 0 0 0"]
    by (simp add: scalar_verify_iff sc_val_def secp256k1_n_def)
qed

text \<open>
  The limb comparisons against the constants decide the order of the values: overflow is
  being at least the group order, high is exceeding half of it.
\<close>

theorem scalar_order_tests:
  "(secp256k1_scalar_check_overflow a \<longleftrightarrow> secp256k1_n \<le> sc_val a) \<and>
    (secp256k1_scalar_is_high a \<longleftrightarrow> secp256k1_n div 2 < sc_val a) \<and>
    (secp256k1_scalar_is_zero a \<longleftrightarrow> sc_val a = 0) \<and> (secp256k1_scalar_is_one a \<longleftrightarrow> sc_val a = 1) \<and>
    (secp256k1_scalar_is_even a \<longleftrightarrow> even (sc_val a)) \<and> (secp256k1_scalar_eq a b \<longleftrightarrow> sc_val a = sc_val b)"
  using check_overflow_iff is_high_iff scalar_is_zero_iff scalar_is_one_iff scalar_is_even_iff scalar_eq_iff sc_val_inj
  by metis

text \<open>
  C4. The endomorphism split of a reduced scalar \<open>k\<close> gives reduced \<open>r1\<close> and \<open>r2\<close>
  with \<open>r1 + lambda * r2 = k\<close>, each of them at most about \<open>2^128\<close> in absolute value, so every check of
  \<open>secp256k1_scalar_split_lambda_verify\<close> passes.
\<close>

theorem split_lambda_endomorphism:
  assumes "secp256k1_scalar_verify k" "secp256k1_scalar_split_lambda k = (r1, r2)"
  shows "secp256k1_scalar_verify r1 \<and> secp256k1_scalar_verify r2 \<and>
    fst (secp256k1_scalar_add (secp256k1_scalar_mul secp256k1_const_lambda r2) r1) = k \<and>
    (sc_val r1 < 2 ^ 128 \<or> sc_val (secp256k1_scalar_negate r1) < 2 ^ 128) \<and>
    (sc_val r2 < 2 ^ 128 \<or> sc_val (secp256k1_scalar_negate r2) < 2 ^ 128) \<and>
    secp256k1_scalar_split_lambda_verify r1 r2 k"
  using split_lambda_correct [OF assms] split_lambda_verified [OF assms] by auto

theorem split_lambda_endomorphism_witness:
  "secp256k1_scalar_split_lambda_verify (fst (secp256k1_scalar_split_lambda (mk_sc 1 2 3 4)))
     (snd (secp256k1_scalar_split_lambda (mk_sc 1 2 3 4))) (mk_sc 1 2 3 4)"
  using split_lambda_endomorphism [of "mk_sc 1 2 3 4"] by (simp add: scalar_verify_iff sc_val_def secp256k1_n_def)

section \<open>Hashing\<close>

text \<open>
  C3. SHA-256 as a stream. Whatever way a message is cut into writes, the digest is the one
  the FIPS 180-4 definition gives for the whole message (up to its length limit of \<open>2^61\<close> bytes): the
  unrolled transform is the compression function and the buffer handling and padding are right.
\<close>

theorem sha256_stream_fips:
  assumes "length (sha_buf hash) = 64" "length (concat chunks) < 2 ^ 61"
  shows "snd (secp256k1_sha256_finalize (foldl secp256k1_sha256_write (secp256k1_sha256_initialize hash) chunks)) =
    fips_sha256 (concat chunks)"
  using sha.chunking [of hash chunks] assms by (simp add: sha_ready_def)

theorem sha256_stream_fips_witness:
  "snd (secp256k1_sha256_finalize (foldl secp256k1_sha256_write
     (secp256k1_sha256_initialize \<lparr>sha_s = sha256_state_0, sha_buf = replicate 64 0, sha_bytes = 0\<rparr>) [[0x61], [0x62, 0x63]])) =
    fips_sha256 [0x61, 0x62, 0x63]"
  using sha256_stream_fips [of "\<lparr>sha_s = sha256_state_0, sha_buf = replicate 64 0, sha_bytes = 0\<rparr>" "[[0x61], [0x62, 0x63]]"]
  by simp

text \<open>
  The unrolled transform with its rolling sixteen-word schedule is the compression
  function with the 64-word message schedule, on every state and block.
\<close>

theorem sha256_transform_fips:
  "secp256k1_sha256_transform s buf = fips_compress s buf"
  by (rule transform_eq_compress)

text \<open>
  A tagged hash (BIP 340): after \<open>secp256k1_sha256_initialize_tagged\<close> the context is as
  if the digest of the tag had been written twice, so the digest of any further writes is the hash of the
  doubled tag digest followed by the message.
\<close>

theorem sha256_tagged_prefix:
  assumes "length (sha_buf hash) = 64" "length tag < 2 ^ 61" "length (concat chunks) < 2 ^ 60"
  shows "snd (secp256k1_sha256_finalize (foldl secp256k1_sha256_write (secp256k1_sha256_initialize_tagged hash tag) chunks)) =
    fips_sha256 (fips_sha256 tag @ fips_sha256 tag @ concat chunks)"
  using sha.fin_out [OF sha.inv_writes [OF initialize_tagged_inv [of hash tag]], of chunks] assms by (simp add: sha_ready_def)

theorem sha256_tagged_prefix_witness:
  "snd (secp256k1_sha256_finalize (foldl secp256k1_sha256_write
     (secp256k1_sha256_initialize_tagged \<lparr>sha_s = sha256_state_0, sha_buf = replicate 64 0, sha_bytes = 0\<rparr> [0x54]) [[1, 2]])) =
    fips_sha256 (fips_sha256 [0x54] @ fips_sha256 [0x54] @ [1, 2])"
  using sha256_tagged_prefix [of "\<lparr>sha_s = sha256_state_0, sha_buf = replicate 64 0, sha_bytes = 0\<rparr>" "[0x54]" "[[1, 2]]"]
  by simp

text \<open>
  C7. HMAC-SHA256 as a stream: for every key, long keys hashed first, and every way to cut the
  message into writes, the result is the HMAC of the whole message as FIPS 198-1 defines it.
\<close>

theorem hmac_sha256_fips:
  assumes "hmac_ready sha256 key hash" "length (concat chunks) < 2 ^ 60"
  shows "snd (secp256k1_hmac_sha256_finalize
      (foldl secp256k1_hmac_sha256_write (secp256k1_hmac_sha256_initialize sha256 hash key) chunks)) =
    fips_hmac key (concat chunks)"
  by (rule hmac.chunking [OF assms])

theorem hmac_sha256_fips_witness:
  "snd (secp256k1_hmac_sha256_finalize (foldl secp256k1_hmac_sha256_write (secp256k1_hmac_sha256_initialize
     \<lparr>sha_s = sha256_state_0, sha_buf = replicate 64 0, sha_bytes = 0\<rparr>
     \<lparr>hmac_inner = \<lparr>sha_s = sha256_state_0, sha_buf = replicate 64 0, sha_bytes = 0\<rparr>,
      hmac_outer = \<lparr>sha_s = sha256_state_0, sha_buf = replicate 64 0, sha_bytes = 0\<rparr>\<rparr> [1, 2, 3]) [[4], [5]])) =
    fips_hmac [1, 2, 3] [4, 5]"
  using hmac_sha256_fips [of "\<lparr>sha_s = sha256_state_0, sha_buf = replicate 64 0, sha_bytes = 0\<rparr>" "[1, 2, 3]"
    "\<lparr>hmac_inner = \<lparr>sha_s = sha256_state_0, sha_buf = replicate 64 0, sha_bytes = 0\<rparr>,
      hmac_outer = \<lparr>sha_s = sha256_state_0, sha_buf = replicate 64 0, sha_bytes = 0\<rparr>\<rparr>" "[[4], [5]]"]
  by (simp add: hmac_ready_def sha_ready_def)

text \<open>
  C6. The RFC 6979 generator. Initialization performs steps b to g of section 3.2 on the seed, and
  each later request first reseeds with a zero byte if it is a retry and then returns the first
  \<open>outlen\<close> bytes of the chain of HMACs; the loop ends for every \<open>outlen\<close> below \<open>2 ^ 31\<close>, the lengths
  that the code's conversion to \<open>int\<close> preserves.
\<close>

theorem rfc6979_drbg:
  assumes "stack_ready sha256 hmac" "length key < 2 ^ 59" "length (rng_k rng) = 32" "length (rng_v rng) = 32"
    "outlen < 2 ^ 31" and "kv = (if rng_retry rng then rfc6979_reseed (rng_k rng, rng_v rng) else (rng_k rng, rng_v rng))"
  shows "secp256k1_rfc6979_hmac_sha256_initialize sha256 hmac key =
      \<lparr>rng_v = snd (rfc6979_init key), rng_k = fst (rfc6979_init key), rng_retry = False\<rparr> \<and>
    secp256k1_rfc6979_hmac_sha256_generate sha256 hmac rng outlen =
      Some (\<lparr>rng_v = rfc6979_advance (fst kv) (snd kv) ((outlen + 31) div 32), rng_k = fst kv, rng_retry = True\<rparr>,
       take outlen (rfc6979_stream (fst kv) (snd kv) ((outlen + 31) div 32)))"
  using rfc6979_initialize_correct [OF assms(1,2)] rfc6979_generate_correct [OF assms(1,3,4,5)] assms(6) by simp

theorem rfc6979_drbg_witness:
  "map_option snd (secp256k1_rfc6979_hmac_sha256_generate \<lparr>sha_s = sha256_state_0, sha_buf = replicate 64 0, sha_bytes = 0\<rparr>
     \<lparr>hmac_inner = \<lparr>sha_s = sha256_state_0, sha_buf = replicate 64 0, sha_bytes = 0\<rparr>,
      hmac_outer = \<lparr>sha_s = sha256_state_0, sha_buf = replicate 64 0, sha_bytes = 0\<rparr>\<rparr>
     \<lparr>rng_v = replicate 32 1, rng_k = replicate 32 0, rng_retry = False\<rparr> 40) =
    Some (take 40 (rfc6979_stream (replicate 32 0) (replicate 32 1) 2))"
  using rfc6979_drbg [of "\<lparr>sha_s = sha256_state_0, sha_buf = replicate 64 0, sha_bytes = 0\<rparr>"
    "\<lparr>hmac_inner = \<lparr>sha_s = sha256_state_0, sha_buf = replicate 64 0, sha_bytes = 0\<rparr>,
      hmac_outer = \<lparr>sha_s = sha256_state_0, sha_buf = replicate 64 0, sha_bytes = 0\<rparr>\<rparr>" "[]"
    "\<lparr>rng_v = replicate 32 1, rng_k = replicate 32 0, rng_retry = False\<rparr>" 40 "(replicate 32 0, replicate 32 1)"]
  by (simp add: stack_ready_def hmac_ready_def sha_ready_def)

section \<open>Byte helpers\<close>

text \<open>
  The comparison of two byte strings of equal length has the sign of the comparison of the
  integers they encode and is zero only for equal strings; the conditional clear and the zero test agree
  with the plain definitions, and the big-endian words round-trip.
\<close>

theorem memory_helpers:
  assumes "length as = length bs"
  shows "sgn (secp256k1_memcmp_var as bs) = sgn (be_val as - be_val bs) \<and>
    (secp256k1_memcmp_var as bs = 0 \<longleftrightarrow> as = bs) \<and>
    (secp256k1_is_zero_array as \<longleftrightarrow> as = secp256k1_memczero bs True) \<and>
    secp256k1_memczero as False = as \<and>
    secp256k1_read_be64 (secp256k1_write_be64 x) = x \<and> secp256k1_read_be32 (secp256k1_write_be32 y) = y"
  using memcmp_var_sign [OF assms] memcmp_var_eq_0_iff [OF assms] is_zero_array_iff [of as] assms
  by (simp add: memczero_eq secp256k1_memclear_def read_write_be64 read_write_be32)

theorem memory_helpers_witness:
  "sgn (secp256k1_memcmp_var [1, 2] [1, 3]) = - 1"
  using memory_helpers [of "[1, 2]" "[1, 3]" 0 0] by simp

section \<open>The curve\<close>

text \<open>
  C31. The variable-time additions implement the chord and tangent law of the curve
  \<open>y^2 = x^3 + 7\<close> on every pair of points, infinity, equal and opposite points included: for well-formed operands
  the result of \<open>secp256k1_gej_add_var\<close>, of \<open>secp256k1_gej_add_ge_var\<close> and of \<open>secp256k1_gej_double_var\<close> is again
  within the documented magnitudes, has a nonzero \<open>z\<close>, lies on the curve, and is the sum of the operands, whether or
  not the caller asks for the ratio of the \<open>z\<close> coordinates.
\<close>

theorem point_addition_group_law:
  assumes "gej_ok a" "gej_ok b" "ge_ok c"
  shows "gej_ok (fst (secp256k1_gej_add_var a b rzr)) \<and>
    gej_point (fst (secp256k1_gej_add_var a b rzr)) = ec_add (gej_point a) (gej_point b) \<and>
    gej_ok (fst (secp256k1_gej_add_ge_var a c rzr)) \<and>
    gej_point (fst (secp256k1_gej_add_ge_var a c rzr)) = ec_add (gej_point a) (ge_point c) \<and>
    gej_ok (fst (secp256k1_gej_double_var a rzr)) \<and>
    gej_point (fst (secp256k1_gej_double_var a rzr)) = ec_add (gej_point a) (gej_point a)"
  using gej_add_var_correct [OF assms(1,2), of rzr] gej_add_ge_var_correct [OF assms(1,3), of rzr]
    gej_double_var_correct [OF assms(1), of rzr] by blast

theorem point_addition_group_law_witness:
  "gej_point (fst (secp256k1_gej_add_ge_var secp256k1_gej_set_infinity secp256k1_ge_const_g None)) = ge_point secp256k1_ge_const_g"
  using point_addition_group_law [OF gej_infinity_ok(1) gej_infinity_ok(1) generator_ok(1), of None]
  by (simp add: gej_infinity_ok(2))

text \<open>
  C32. The constant-time addition \<open>secp256k1_gej_add_ge\<close>, one formula without a branch on
  the points, computes the group law for every Jacobian point and every finite affine point: it also doubles,
  cancels opposite points, handles the degenerate case of equal ordinates of opposite sign, and infinity.
  It therefore gives the same point as the branching routine.
\<close>

theorem point_add_ge_constant_time:
  assumes "gej_ok a" "ge_ok b" "\<not> ge_infinity b"
  shows "gej_ok (secp256k1_gej_add_ge a b) \<and>
    gej_point (secp256k1_gej_add_ge a b) = ec_add (gej_point a) (ge_point b) \<and>
    gej_point (secp256k1_gej_add_ge a b) = gej_point (fst (secp256k1_gej_add_ge_var a b None))"
  using gej_add_ge_correct [OF assms] gej_add_ge_var_correct [OF assms(1,2), of None] by simp

theorem point_add_ge_constant_time_witness:
  "gej_point (secp256k1_gej_add_ge secp256k1_gej_set_infinity secp256k1_ge_const_g) = ge_point secp256k1_ge_const_g"
  using point_add_ge_constant_time [OF gej_infinity_ok(1) generator_ok] by (simp add: gej_infinity_ok(2))

text \<open>
  \<open>secp256k1_gej_add_zinv_var\<close> adds an affine point given with the inverse of a \<open>z\<close>
  coordinate, without ever computing that \<open>z\<close>: the result is the sum with the point whose coordinates are scaled by
  the square and the cube of \<open>bzinv\<close>.
\<close>

theorem point_add_zinv:
  assumes "gej_ok a" "secp256k1_ge_verify b" "fe_magnitude 8 bzinv" "on_curve (zinv_point b bzinv)"
  shows "gej_ok (secp256k1_gej_add_zinv_var a b bzinv) \<and>
    gej_point (secp256k1_gej_add_zinv_var a b bzinv) = ec_add (gej_point a) (zinv_point b bzinv)"
  using assms by (rule gej_add_zinv_var_correct)

theorem point_add_zinv_witness:
  "gej_point (secp256k1_gej_add_zinv_var secp256k1_gej_set_infinity secp256k1_ge_set_infinity secp256k1_fe_one) = None"
  using point_add_zinv [OF gej_infinity_ok(1), of secp256k1_ge_set_infinity secp256k1_fe_one]
  by (simp add: gej_infinity_ok(2) zinv_point_def secp256k1_ge_set_infinity_def verify_defs fe_magnitude_def
      secp256k1_fe_set_int_def secp256k1_fe_one_def SECP256K1_FE_CONST_def)

text \<open>
  The equality tests decide equality of the points, not of the representations: two
  Jacobian points, a Jacobian and an affine one, two affine ones, and the comparison of one coordinate used by
  signature verification.
\<close>

theorem point_equality_tests:
  assumes "gej_ok a" "gej_ok b" "ge_ok c" "ge_ok d" "fe_magnitude 8 x"
  shows "(secp256k1_gej_eq_var a b \<longleftrightarrow> gej_point a = gej_point b) \<and>
    (secp256k1_gej_eq_ge_var a c \<longleftrightarrow> gej_point a = ge_point c) \<and>
    (secp256k1_ge_eq_var c d \<longleftrightarrow> ge_point c = ge_point d) \<and>
    (\<not> gej_infinity a \<longrightarrow> (secp256k1_gej_eq_x_var x a \<longleftrightarrow> (\<exists>y. gej_point a = Some (fe_fp x, y))))"
  using gej_eq_var_correct [OF assms(1,2)] gej_eq_ge_var_correct [OF assms(1,3)]
    ge_eq_var_correct [of c d] gej_eq_x_var_correct [OF assms(1) _ assms(5)] assms(3,4)
  by (auto simp: ge_ok_def)

theorem point_equality_tests_witness:
  "\<not> secp256k1_gej_eq_ge_var secp256k1_gej_set_infinity secp256k1_ge_const_g"
  using point_equality_tests [OF gej_infinity_ok(1) gej_infinity_ok(1) generator_ok(1) generator_ok(1), of secp256k1_fe_one]
    generator_ok(2) by (simp add: gej_infinity_ok(2) fe_magnitude_def secp256k1_fe_one_def SECP256K1_FE_CONST_def ge_point_def)

text \<open>
  C33. \<open>secp256k1_ge_set_xo_var\<close> succeeds exactly when the abscissa belongs to a point of the
  curve, and then returns the point with that abscissa whose ordinate, as a canonical residue, has the requested
  parity; \<open>secp256k1_ge_is_valid_var\<close> decides the curve equation, and the generator of the group satisfies it.
\<close>

theorem point_decompression:
  assumes "fe_magnitude 4 x" "secp256k1_ge_verify a"
  shows "(snd (secp256k1_ge_set_xo_var x odd_y) \<longleftrightarrow> (\<exists>y. on_curve (Some (fe_fp x, y)))) \<and>
    (snd (secp256k1_ge_set_xo_var x odd_y) \<longrightarrow> ge_ok (fst (secp256k1_ge_set_xo_var x odd_y)) \<and>
      (\<exists>y. ge_point (fst (secp256k1_ge_set_xo_var x odd_y)) = Some (fe_fp x, y) \<and> (odd (fp_int y) \<longleftrightarrow> odd_y))) \<and>
    (secp256k1_ge_is_valid_var a \<longleftrightarrow> \<not> ge_infinity a \<and> on_curve (ge_point a)) \<and>
    secp256k1_ge_is_valid_var secp256k1_ge_const_g"
  using ge_set_xo_var_correct [OF fe_is_self [OF assms(1)] order_refl surjective_pairing]
    ge_is_valid_var_correct [OF assms(2)] ge_is_valid_var_correct [of secp256k1_ge_const_g] generator_ok
  by (simp add: ge_ok_def)

theorem point_decompression_witness:
  "snd (secp256k1_ge_set_xo_var (ge_x secp256k1_ge_const_g) True) \<and> \<not> secp256k1_ge_is_valid_var secp256k1_ge_set_infinity"
proof -
  have v: "fe_magnitude 4 (ge_x secp256k1_ge_const_g)" "secp256k1_ge_verify secp256k1_ge_set_infinity"
    using generator_ok by (simp_all add: ge_ok_def verify_defs secp256k1_ge_set_infinity_def fe_magnitude_def secp256k1_fe_set_int_def)
  have "on_curve (Some (fe_fp (ge_x secp256k1_ge_const_g), fe_fp (ge_y secp256k1_ge_const_g)))"
    using generator_ok by (simp add: ge_ok_def ge_point_def)
  then show ?thesis using point_decompression [OF v, of True] by (auto simp: secp256k1_ge_set_infinity_def)
qed

text \<open>
  Negation, projective rescaling by a nonzero element, the conversion of a Jacobian point
  with a known inverse of its \<open>z\<close>, and the cheap endomorphism act on the points as intended and keep the
  invariant: opposite point, same point, same point, and the map multiplying the abscissa by a cube root of unity.
\<close>

theorem point_representation:
  assumes "gej_ok a" "ge_ok c" "fe_magnitude 8 s" "fe_fp s \<noteq> 0" "\<not> gej_infinity b" "gej_ok b" "fe_is 8 zi (inverse (fe_fp (gej_z b)))"
  shows "gej_ok (secp256k1_gej_neg a) \<and> gej_point (secp256k1_gej_neg a) = ec_neg (gej_point a) \<and>
    ge_ok (secp256k1_ge_neg c) \<and> ge_point (secp256k1_ge_neg c) = ec_neg (ge_point c) \<and>
    gej_ok (secp256k1_gej_rescale a s) \<and> gej_point (secp256k1_gej_rescale a s) = gej_point a \<and>
    ge_ok (secp256k1_ge_set_gej_zinv b zi) \<and> ge_point (secp256k1_ge_set_gej_zinv b zi) = gej_point b \<and>
    ge_ok (secp256k1_ge_mul_lambda c) \<and>
    ge_point (secp256k1_ge_mul_lambda c) = map_option (\<lambda>(x, y). (fe_fp secp256k1_const_beta * x, y)) (ge_point c) \<and>
    fe_fp secp256k1_const_beta ^ 3 = 1"
  using gej_neg_correct [OF assms(1)] ge_neg_correct [OF assms(2)] gej_rescale_correct [OF assms(1,3,4)]
    ge_set_gej_zinv_correct [OF assms(6,5,7)] ge_mul_lambda_correct [OF assms(2)] beta_cube(2) by blast

theorem point_representation_witness:
  "gej_point (secp256k1_gej_rescale (secp256k1_gej_set_ge secp256k1_ge_const_g) secp256k1_fe_one) = ge_point secp256k1_ge_const_g"
proof -
  let ?g = "secp256k1_gej_set_ge secp256k1_ge_const_g"
  have g: "gej_ok ?g" "gej_point ?g = ge_point secp256k1_ge_const_g" "\<not> gej_infinity ?g"
    using gej_set_ge_correct [OF generator_ok(1)] generator_ok(2) by (simp_all add: secp256k1_gej_set_ge_def)
  have o: "fe_is 8 secp256k1_fe_one 1" by (rule fe_is_mono [OF fe_one_is]) simp
  have z: "fe_fp (gej_z ?g) = 1" using fe_is_set_int [of 1] by (simp add: secp256k1_gej_set_ge_def fe_is_def)
  show ?thesis
    using point_representation [OF g(1) generator_ok(1) fe_is_magnitude [OF o] _ g(3,1), of secp256k1_fe_one] o z g(2) fe_is_val [OF o]
    by simp
qed

text \<open>
  The storage form, the 64-byte form and the 64-byte form with infinity give back the
  normalized point they were made from, for every well-formed finite point; the extended form also carries the
  point at infinity. The result denotes the same point of the curve.
\<close>

theorem point_storage_roundtrip:
  assumes "ge_ok a" "ge_ok b" "\<not> ge_infinity a"
  shows "secp256k1_ge_from_storage (secp256k1_ge_to_storage a) = ge_normalize a \<and>
    secp256k1_ge_from_bytes (secp256k1_ge_to_bytes a) = ge_normalize a \<and>
    ge_point (ge_normalize a) = ge_point a \<and>
    ge_ok (secp256k1_ge_from_bytes_ext (secp256k1_ge_to_bytes_ext b)) \<and>
    ge_point (secp256k1_ge_from_bytes_ext (secp256k1_ge_to_bytes_ext b)) = ge_point b"
  using ge_from_to_storage [of a] ge_from_to_bytes [of a] ge_normalize_ok(2) [of a] ge_bytes_ext_roundtrip [OF assms(2)] assms(1,3)
  unfolding ge_ok_def [of a] by simp

theorem point_storage_roundtrip_witness:
  "ge_point (secp256k1_ge_from_bytes_ext (secp256k1_ge_to_bytes_ext secp256k1_ge_const_g)) = ge_point secp256k1_ge_const_g"
  using point_storage_roundtrip [OF generator_ok(1,1,2)] by simp

text \<open>
  \<open>secp256k1_ge_table_set_globalz\<close> brings a table of points with chained \<open>z\<close> ratios to one
  common \<open>z\<close>: it keeps the length, and every entry but the last is rescaled by the product of the ratios that
  follow it, the last keeping its coordinates.
\<close>

theorem point_table_globalz:
  assumes "length zr = length a" "\<forall>g\<in>set a. secp256k1_ge_verify g" "\<forall>z\<in>set zr. fe_magnitude 8 z" "k < length a"
  shows "length (secp256k1_ge_table_set_globalz a zr) = length a \<and>
    (if k = length a - 1
     then secp256k1_ge_table_set_globalz a zr ! k = (a ! k)\<lparr>ge_y := secp256k1_fe_normalize_weak (ge_y (a ! k))\<rparr>
     else table_scaled (secp256k1_ge_table_set_globalz a zr ! k) (a ! k) (ratio_prod zr (Suc k) (length a)))"
  using ge_table_set_globalz_correct [OF assms] by simp

theorem point_table_globalz_witness:
  "table_scaled (secp256k1_ge_table_set_globalz [secp256k1_ge_const_g, secp256k1_ge_const_g] [secp256k1_fe_one, secp256k1_fe_one] ! 0)
    secp256k1_ge_const_g (ratio_prod [secp256k1_fe_one, secp256k1_fe_one] (Suc 0) (Suc (Suc 0)))"
  using point_table_globalz [of "[secp256k1_fe_one, secp256k1_fe_one]" "[secp256k1_ge_const_g, secp256k1_ge_const_g]" 0] generator_ok(1)
  by (simp add: ge_ok_def fe_magnitude_def secp256k1_fe_one_def SECP256K1_FE_CONST_def)

section \<open>Keys\<close>

text \<open>
  C34. \<open>secp256k1_ec_pubkey_parse\<close> accepts exactly the SEC 1 encodings (33 bytes, 65 bytes and the
  hybrid form) of points of the curve: it returns 1 precisely when some point of the curve has this encoding, stores
  that point, and otherwise leaves an all-zero key. A null pointer is reported to the callback once and rejected.
\<close>

theorem pubkey_parse_sec1:
  assumes "secp256k1_ec_pubkey_parse (Some pk0) (Some input) (length input) = (pk, ret, ill)"
  shows "ill = 0 \<and> (ret \<longleftrightarrow> (\<exists>x y. sec1_encodes input x y \<and> on_curve (Some (x, y)))) \<and>
    (ret \<longrightarrow> (\<exists>k x y. pk = Some k \<and> pubkey_ok k \<and> pubkey_point k = Some (x, y) \<and> sec1_encodes input x y)) \<and>
    (\<not> ret \<longrightarrow> pk = Some \<lparr>pubkey_data = replicate 64 0\<rparr>) \<and>
    secp256k1_ec_pubkey_parse None (Some input) n = (None, False, 1) \<and>
    secp256k1_ec_pubkey_parse (Some pk0) None n = (Some \<lparr>pubkey_data = replicate 64 0\<rparr>, False, 1)"
  using ec_pubkey_parse_correct [OF assms] by (simp add: secp256k1_ec_pubkey_parse_def)

theorem pubkey_parse_sec1_witness:
  "secp256k1_ec_pubkey_parse (Some \<lparr>pubkey_data = []\<rparr>) (Some [5]) 1 = (Some \<lparr>pubkey_data = replicate 64 0\<rparr>, False, 0)"
proof -
  obtain pk ret ill where r: "secp256k1_ec_pubkey_parse (Some \<lparr>pubkey_data = []\<rparr>) (Some [5]) (length [5 :: u8]) = (pk, ret, ill)"
    by (cases "secp256k1_ec_pubkey_parse (Some \<lparr>pubkey_data = []\<rparr>) (Some [5]) (length [5 :: u8])")
  then show ?thesis using pubkey_parse_sec1 [OF r] by (auto simp: sec1_encodes_def)
qed

text \<open>
  C35. Printing a stored public key into a large enough buffer succeeds in both formats, reports the
  length of the format, clears the rest of the announced buffer and leaves what lies behind it; parsing the printed bytes
  gives back the very bytes of the stored key.
\<close>

theorem pubkey_print_parse:
  assumes "pubkey_ok k" "sec1_size flags \<le> len" "len \<le> length buf"
    and "flags AND SECP256K1_FLAGS_TYPE_MASK = SECP256K1_FLAGS_TYPE_COMPRESSION"
    and "secp256k1_ec_pubkey_serialize (Some buf) (Some len) (Some k) flags = (Some out, Some olen, ret, ill)"
  shows "ret \<and> ill = 0 \<and> olen = sec1_size flags \<and> length out = length buf \<and>
    drop olen out = replicate (len - olen) 0 @ drop len buf \<and>
    secp256k1_ec_pubkey_parse (Some pk0) (Some (take olen out)) olen = (Some k, True, 0)"
proof -
  obtain x y where p: "pubkey_point k = Some (x, y)" using pubkey_ok_point [OF assms(1)] by blast
  show ?thesis using ec_pubkey_serialize_correct [OF assms(1) p assms(2-5)] ec_pubkey_roundtrip [OF assms] assms(2,3) by auto
qed

theorem pubkey_print_parse_witness:
  "\<exists>out. secp256k1_ec_pubkey_parse (Some \<lparr>pubkey_data = []\<rparr>) (Some out) 33 = (Some (secp256k1_pubkey_save secp256k1_ge_const_g), True, 0)"
proof -
  let ?k = "secp256k1_pubkey_save secp256k1_ge_const_g"
  have k: "pubkey_ok ?k" by (rule pubkey_save_ok(1) [OF generator_ok])
  have f: "sec1_size SECP256K1_EC_COMPRESSED = 33" "SECP256K1_EC_COMPRESSED AND SECP256K1_FLAGS_TYPE_MASK = SECP256K1_FLAGS_TYPE_COMPRESSION"
    by (simp_all add: sec1_size_def SECP256K1_EC_COMPRESSED_def SECP256K1_FLAGS_BIT_COMPRESSION_def SECP256K1_FLAGS_TYPE_MASK_def
        SECP256K1_FLAGS_TYPE_COMPRESSION_def)
  obtain x y where p: "pubkey_point ?k = Some (x, y)" using pubkey_ok_point [OF k] by blast
  obtain o' n r i where s: "secp256k1_ec_pubkey_serialize (Some (replicate 40 1)) (Some 33) (Some ?k) SECP256K1_EC_COMPRESSED = (o', n, r, i)"
    by (metis prod_cases4)
  then obtain out where o: "o' = Some out" "n = Some 33"
    using ec_pubkey_serialize_correct [OF k p _ _ f(2) s] f(1) by auto
  show ?thesis using pubkey_print_parse [OF k _ _ f(2) s [unfolded o], of "\<lparr>pubkey_data = []\<rparr>"] f(1) by auto
qed

text \<open>
  C36. \<open>secp256k1_ec_pubkey_sort\<close> permutes the array of pointers, leaves it sorted by the compressed
  encodings of the keys they point to (null or invalid keys first), and always ends; the order of two stored keys
  is that of parity first and abscissa second.
\<close>

theorem pubkey_sort_sorted:
  assumes "length arr = 8 * n" "secp256k1_ec_pubkey_sort mem (Some arr) n = (Some arr', ret, ill)"
    and "pubkey_ok k" "pubkey_point k = Some (x, y)"
  shows "ret \<and> length arr' = length arr \<and> mset (pointers arr' n) = mset (pointers arr n) \<and>
    sorted (map (\<lambda>p. pubkey_rank (mem p)) (pointers arr' n)) \<and>
    pubkey_rank (Some k) = (if odd (fp_int y) then 3 else 2) * 256 ^ 32 + fp_int x"
  using ec_pubkey_sort_correct [OF assms(1,2)] pubkey_rank_ok [OF assms(3,4)] by blast

theorem pubkey_sort_sorted_witness:
  "\<exists>arr'. secp256k1_ec_pubkey_sort (\<lambda>_. None) (Some (replicate 24 0)) 3 = (Some arr', True, 0) \<and> length arr' = 24"
proof -
  obtain arr' ret ill where r: "secp256k1_ec_pubkey_sort (\<lambda>_. None) (Some (replicate 24 0)) 3 = (Some arr', ret, ill)" "ill = 0"
    by (simp add: secp256k1_ec_pubkey_sort_def)
  obtain x y where p: "pubkey_point (secp256k1_pubkey_save secp256k1_ge_const_g) = Some (x, y)"
    using pubkey_ok_point [OF pubkey_save_ok(1) [OF generator_ok]] by blast
  show ?thesis using pubkey_sort_sorted [OF _ r(1) pubkey_save_ok(1) [OF generator_ok] p] r by simp
qed

text \<open>
  C37. Secret keys: validity is \<open>0 < k < n\<close>; negation gives \<open>n - k\<close>; a tweak is added or multiplied
  modulo the order and is refused exactly when the key is invalid, the tweak is out of range or the result would be
  zero; a refused operation leaves an all-zero key, never the old one.
\<close>

theorem seckey_operations:
  assumes "length key = 32" "length tweak = 32"
    and "secp256k1_ec_seckey_negate (Some key) = (nkey, nret, i1)"
    and "secp256k1_ec_seckey_tweak_add (Some key) (Some tweak) = (akey, aret, i2)"
    and "secp256k1_ec_seckey_tweak_mul (Some key) (Some tweak) = (mkey, mret, i3)"
  shows "secp256k1_ec_seckey_verify (Some key) = (seckey_valid key, 0) \<and> (nret \<longleftrightarrow> seckey_valid key) \<and>
    (nret \<longrightarrow> (\<exists>k. nkey = Some k \<and> seckey_valid k \<and> be_val k = secp256k1_n - be_val key)) \<and>
    (aret \<longleftrightarrow> seckey_valid key \<and> be_val tweak < secp256k1_n \<and> (be_val key + be_val tweak) mod secp256k1_n \<noteq> 0) \<and>
    (aret \<longrightarrow> (\<exists>k. akey = Some k \<and> seckey_valid k \<and> be_val k = (be_val key + be_val tweak) mod secp256k1_n)) \<and>
    (mret \<longleftrightarrow> seckey_valid key \<and> seckey_valid tweak) \<and>
    (mret \<longrightarrow> (\<exists>k. mkey = Some k \<and> length k = 32 \<and> be_val k = be_val key * be_val tweak mod secp256k1_n)) \<and>
    (\<not> nret \<longrightarrow> nkey = Some (replicate 32 0)) \<and> (\<not> aret \<longrightarrow> akey = Some (replicate 32 0)) \<and>
    (\<not> mret \<longrightarrow> mkey = Some (replicate 32 0))"
  using ec_seckey_verify_correct [OF assms(1)] ec_seckey_negate_correct [OF assms(1,3)]
    ec_seckey_tweak_add_correct [OF assms(1,2,4)] ec_seckey_tweak_mul_correct [OF assms(1,2,5)] by blast

theorem seckey_operations_witness:
  "secp256k1_ec_seckey_verify (Some (replicate 32 0)) = (False, 0) \<and>
    fst (secp256k1_ec_seckey_negate (Some (replicate 32 0))) = Some (replicate 32 0)"
proof -
  let ?k = "replicate 32 0 :: bytes"
  have v: "\<not> seckey_valid ?k" using be_val_zeros [of 32 "[]"] by (simp add: seckey_valid_def)
  obtain nk nr i1 where n: "secp256k1_ec_seckey_negate (Some ?k) = (nk, nr, i1)" by (cases "secp256k1_ec_seckey_negate (Some ?k)")
  obtain ak ar i2 where a: "secp256k1_ec_seckey_tweak_add (Some ?k) (Some ?k) = (ak, ar, i2)" by (cases "secp256k1_ec_seckey_tweak_add (Some ?k) (Some ?k)")
  obtain mk mr i3 where m: "secp256k1_ec_seckey_tweak_mul (Some ?k) (Some ?k) = (mk, mr, i3)" by (cases "secp256k1_ec_seckey_tweak_mul (Some ?k) (Some ?k)")
  show ?thesis using seckey_operations [OF _ _ n a m] v n by simp
qed

section \<open>Signatures\<close>

text \<open>
  C38. The DER parser is strict: it reads back every signature the serializer writes, and it accepts a pair of
  nonzero scalars in that one encoding only, so no other byte string stands for the same signature (no alternative
  length forms, padding or trailing bytes).
\<close>

theorem der_strict:
  assumes "secp256k1_scalar_verify r" "secp256k1_scalar_verify s" "sc_val r \<noteq> 0" "sc_val s \<noteq> 0"
  shows "secp256k1_ecdsa_sig_parse sig = Some (r, s) \<longleftrightarrow> sig = der_sig r s"
  using sig_parse_der_sig [OF assms(1,2)] sig_parse_strict [OF _ assms(3,4), of sig] by blast

theorem der_strict_witness:
  "secp256k1_ecdsa_sig_parse (der_sig secp256k1_scalar_one secp256k1_scalar_one) = Some (secp256k1_scalar_one, secp256k1_scalar_one)"
  using der_strict [of secp256k1_scalar_one secp256k1_scalar_one "der_sig secp256k1_scalar_one secp256k1_scalar_one"]
  by (simp add: scalar_verify_iff sc_val_constants secp256k1_n_def)

text \<open>
  C39. The DER serializer announces the exact size, at most 72 bytes, writes the encoding and nothing
  behind it when the buffer is large enough, and otherwise fails with the size needed and an untouched buffer.
\<close>

theorem der_serialize_bounds:
  assumes "secp256k1_ecdsa_sig_serialize sig sz ar as = (sig', sz', ret)" "sz \<le> length sig"
  shows "sz' = length (der_sig ar as) \<and> sz' \<le> 72 \<and> (ret \<longleftrightarrow> sz' \<le> sz) \<and> length sig' = length sig \<and>
    sig' = (if ret then der_sig ar as @ drop sz' sig else sig)"
  using sig_serialize_correct [OF assms] assms(2) by auto

theorem der_serialize_bounds_witness:
  "\<not> snd (snd (secp256k1_ecdsa_sig_serialize [] 0 secp256k1_scalar_one secp256k1_scalar_one))"
proof -
  obtain b n r where s: "secp256k1_ecdsa_sig_serialize [] 0 secp256k1_scalar_one secp256k1_scalar_one = (b, n, r)"
    by (cases "secp256k1_ecdsa_sig_serialize [] 0 secp256k1_scalar_one secp256k1_scalar_one")
  show ?thesis using der_serialize_bounds [OF s] s by (auto simp: der_sig_def Let_def)
qed

text \<open>
  Stored signatures: loading what was saved gives the scalars, the DER form and the compact
  form parse back to the same stored signature, and compact parsing refuses exactly the scalars that are not reduced.
\<close>

theorem signature_storage_roundtrip:
  assumes "secp256k1_scalar_verify r" "secp256k1_scalar_verify s" "length buf = 72" "length buf64 = 64" "length input = 64"
    and "secp256k1_ecdsa_signature_serialize_der (Some buf) (Some 72) (Some (secp256k1_ecdsa_signature_save r s)) = (out, olen, ret, ill)"
    and "secp256k1_ecdsa_signature_serialize_compact (Some buf64) (Some (secp256k1_ecdsa_signature_save r s)) = (out64, cret, cill)"
    and "secp256k1_ecdsa_signature_parse_compact (Some sig0) (Some input) = (psig, pret, pill)"
  shows "secp256k1_ecdsa_signature_load (secp256k1_ecdsa_signature_save r s) = (r, s) \<and> ret \<and> cret \<and>
    (\<exists>o' n. out = Some o' \<and> olen = Some n \<and>
      secp256k1_ecdsa_signature_parse_der (Some sig0) (Some (take n o')) = (Some (secp256k1_ecdsa_signature_save r s), True, 0)) \<and>
    secp256k1_ecdsa_signature_parse_compact (Some sig0) out64 = (Some (secp256k1_ecdsa_signature_save r s), True, 0) \<and>
    (pret \<longleftrightarrow> be_val (take 32 input) < secp256k1_n \<and> be_val (drop 32 input) < secp256k1_n) \<and>
    (\<not> pret \<longrightarrow> psig = Some \<lparr>signature_data = replicate 64 0\<rparr>)"
proof -
  have "72 \<le> length buf" "(72 :: nat) \<le> 72" using assms(3) by simp_all
  note d = signature_der_roundtrip [OF assms(1,2) this assms(6), of sig0]
  show ?thesis using d signature_compact_roundtrip [OF assms(1,2,4,7), of sig0] signature_parse_compact_correct [OF assms(5,8)]
      signature_load_save [of r s] by blast
qed

theorem signature_storage_roundtrip_witness:
  "\<exists>out. secp256k1_ecdsa_signature_parse_compact (Some \<lparr>signature_data = []\<rparr>) out =
    (Some (secp256k1_ecdsa_signature_save secp256k1_scalar_one secp256k1_scalar_one), True, 0)"
proof -
  let ?o = secp256k1_scalar_one and ?e = "\<lparr>signature_data = []\<rparr>" and ?z = "replicate 64 0 :: bytes"
  obtain a b c d where 1: "secp256k1_ecdsa_signature_serialize_der (Some (replicate 72 0)) (Some 72) (Some (secp256k1_ecdsa_signature_save ?o ?o)) = (a, b, c, d)"
    by (metis prod_cases4)
  obtain e f g where 2: "secp256k1_ecdsa_signature_serialize_compact (Some ?z) (Some (secp256k1_ecdsa_signature_save ?o ?o)) = (e, f, g)"
    by (metis prod_cases3)
  obtain h i j where 3: "secp256k1_ecdsa_signature_parse_compact (Some ?e) (Some ?z) = (h, i, j)" by (metis prod_cases3)
  show ?thesis using signature_storage_roundtrip [OF _ _ _ _ _ 1 2 3] by (auto simp: scalar_verify_iff sc_val_constants secp256k1_n_def)
qed

text \<open>
  Normalization keeps \<open>r\<close>, replaces \<open>s\<close> by \<open>n - s\<close> exactly when it is above half the order, reports
  whether it did, and always leaves a reduced \<open>s\<close> in the lower half.
\<close>

theorem signature_normalize_low_s:
  assumes "secp256k1_scalar_verify r" "secp256k1_scalar_verify s"
    and "secp256k1_ecdsa_signature_normalize (Some sig0) (Some (secp256k1_ecdsa_signature_save r s)) = (out, ret, ill)"
  shows "ill = 0 \<and> (ret \<longleftrightarrow> secp256k1_n div 2 < sc_val s) \<and>
    (\<exists>s'. out = Some (secp256k1_ecdsa_signature_save r s') \<and> secp256k1_scalar_verify s' \<and> sc_val s' \<le> secp256k1_n div 2 \<and>
      sc_val s' = (if ret then secp256k1_n - sc_val s else sc_val s))"
  using assms by (rule signature_normalize_correct)

theorem signature_normalize_low_s_witness:
  "\<not> fst (snd (secp256k1_ecdsa_signature_normalize (Some \<lparr>signature_data = []\<rparr>)
      (Some (secp256k1_ecdsa_signature_save secp256k1_scalar_one secp256k1_scalar_one))))"
proof -
  let ?o = secp256k1_scalar_one
  obtain a b c where n: "secp256k1_ecdsa_signature_normalize (Some \<lparr>signature_data = []\<rparr>) (Some (secp256k1_ecdsa_signature_save ?o ?o)) = (a, b, c)"
    by (metis prod_cases3)
  show ?thesis using signature_normalize_low_s [OF _ _ n] n by (simp add: scalar_verify_iff sc_val_constants secp256k1_n_def)
qed

text \<open>
  C40. The default nonce function is the deterministic generation of RFC 6979: seeded with the secret key, the
  message reduced modulo the order, and the optional extra data and algorithm name, its result for the attempt
  \<open>counter\<close> is the candidate of that number, and it succeeds, for every 32-bit counter but the largest. For the counter \<open>2 ^ 32 - 1\<close> the call
  never returns: the 32-bit loop variable cannot exceed it.
\<close>

theorem nonce_rfc6979:
  assumes "stack_ready sha256 hmac" "length keydata = 112" "length msg32 = 32" "length key32 = 32"
    "\<And>d. data = Some d \<Longrightarrow> length d = 32" "\<And>a. algo16 = Some a \<Longrightarrow> length a = 16" "length m = 32" "be_val m = be_val msg32 mod secp256k1_n"
  shows "nonce_function_rfc6979 sha256 hmac keydata nonce32 msg32 key32 algo16 data counter =
    (if counter = - 1 then None
     else Some (rfc6979_candidate (rfc6979_init (key32 @ m @ (case data of None \<Rightarrow> [] | Some d \<Rightarrow> d) @ (case algo16 of None \<Rightarrow> [] | Some a \<Rightarrow> a)))
       (unat counter), True))"
  using assms by (rule nonce_function_correct)

theorem nonce_rfc6979_witness:
  "map_option snd (nonce_function_rfc6979 \<lparr>sha_s = sha256_state_0, sha_buf = replicate 64 0, sha_bytes = 0\<rparr>
    \<lparr>hmac_inner = \<lparr>sha_s = sha256_state_0, sha_buf = replicate 64 0, sha_bytes = 0\<rparr>,
      hmac_outer = \<lparr>sha_s = sha256_state_0, sha_buf = replicate 64 0, sha_bytes = 0\<rparr>\<rparr>
    (replicate 112 0) [] (replicate 32 0) (replicate 32 0) None None 2) = Some True"
  using nonce_rfc6979 [of "\<lparr>sha_s = sha256_state_0, sha_buf = replicate 64 0, sha_bytes = 0\<rparr>"
    "\<lparr>hmac_inner = \<lparr>sha_s = sha256_state_0, sha_buf = replicate 64 0, sha_bytes = 0\<rparr>,
      hmac_outer = \<lparr>sha_s = sha256_state_0, sha_buf = replicate 64 0, sha_bytes = 0\<rparr>\<rparr>" "replicate 112 0" "replicate 32 0"
    "replicate 32 0" None None "replicate 32 0" "[]" 2] be_val_zeros [of 32 "[]"]
  by (simp add: stack_ready_def hmac_ready_def sha_ready_def)


section \<open>Opus packets\<close>

text \<open>
  C18. The packet parser is safe: when it accepts the first \<open>len\<close> bytes of a packet, self-delimited or not, it reports between 1
  and 48 frames whose total duration is at most 120 ms, each of at most 1275 bytes; the frames are consecutive blocks that start
  after the header and, with the padding behind them, end inside the packet, and exactly at its end for a packet that is not
  self-delimited. The count and the duration agree with the packet queries.
\<close>

theorem opus_parse_safe:
  assumes "opus_packet_parse_impl data len sd (Some sizes) = Inr r" "length sizes = 48"
  shows "1 \<le> op_count r \<and> op_count r \<le> 48 \<and>
    (\<forall>i<op_count r. 0 \<le> op_sizes r ! i \<and> op_sizes r ! i \<le> 1275) \<and> 1 \<le> op_payload_offset r \<and>
    op_frames r = map (\<lambda>i. op_payload_offset r + nat (sum_list (take i (op_sizes r)))) [0..<op_count r] \<and>
    op_padding r = op_payload_offset r + nat (sum_list (take (op_count r) (op_sizes r))) \<and> 0 \<le> op_padding_len r \<and>
    op_packet_offset r = int (op_padding r) + op_padding_len r \<and> op_packet_offset r \<le> len \<and> (\<not> sd \<longrightarrow> op_packet_offset r = len) \<and>
    opus_packet_get_nb_frames data len = Inr (op_count r) \<and>
    opus_packet_get_nb_samples data len 48000 = Inr (int (op_count r) * opus_packet_get_samples_per_frame (data ! 0) 48000) \<and>
    int (op_count r) * opus_packet_get_samples_per_frame (data ! 0) 48000 \<le> 5760"
proof -
  have c: "op_count r \<le> length sizes" using parse_impl_le_48 [OF assms(1)] assms(2) by simp
  have p: "parsed_ok data len sd r" using parse_impl_ok [OF assms(1) c] by simp
  have n: "opus_packet_get_nb_frames data len = Inr (op_count r)" using parse_impl_count [OF assms(1)] by simp
  from p n nb_samples_parsed [OF assms(1) c] show ?thesis unfolding parsed_ok_def by (metis mult.commute)
qed

theorem opus_parse_safe_witness:
  "opus_packet_get_nb_samples [3, 0xC2, 1, 1, 7, 8, 9, 0] 8 48000 = Inr 960"
proof -
  have "opus_packet_parse_impl [3, 0xC2, 1, 1, 7, 8, 9, 0] 8 False (Some (replicate 48 0)) =
      Inr \<lparr>op_toc = 3, op_count = 2, op_frames = [4, 5], op_sizes = [1, 2] @ replicate 46 0, op_payload_offset = 4,
        op_padding = 7, op_padding_len = 1, op_packet_offset = 8\<rparr>" by code_simp
  from opus_parse_safe [OF this] show ?thesis by (simp add: opus_packet_get_samples_per_frame_def)
qed

text \<open>
  C22. The parser reads only the bytes it is told about: whatever follows the first \<open>len\<close> bytes in memory does
  not change its result. It reports a bad argument exactly for a missing size array or a negative length and an invalid packet in
  every other failure.
\<close>

theorem opus_parse_reads_inside:
  assumes "len \<le> int (length data)"
  shows "opus_packet_parse_impl (data @ rest) len sd sizes = opus_packet_parse_impl data len sd sizes \<and>
    (\<forall>e. opus_packet_parse_impl data len sd sizes = Inl e \<longrightarrow>
      e = (if sizes = None \<or> len < 0 then OPUS_BAD_ARG else OPUS_INVALID_PACKET))"
  using parse_impl_inside [OF assms] parse_impl_errors by blast

theorem opus_parse_reads_inside_witness:
  "opus_packet_parse_impl ([3] @ [1, 5]) 1 False (Some []) = Inl OPUS_INVALID_PACKET"
proof -
  have "opus_packet_parse_impl [3] 1 False (Some []) = Inl OPUS_INVALID_PACKET" by code_simp
  then show ?thesis using opus_parse_reads_inside [of 1 "[3]" "[1, 5]" False "Some []"] by simp
qed

text \<open>
  C28. The query for in-band error correction data reads the first byte of the packet, parses the packet and then reads the first byte of its first
  frame. Of a packet with at least one byte it reads a byte outside exactly when the packet is accepted with all its frames empty and without padding, in a mode other than CELT:
  the code does not look at the frame's size. The packet that consists of one zero byte is such a packet. A packet without a byte is always read past its end, since the
  mode is taken from the first byte before the length is looked at.
\<close>

theorem opus_lbrr_overread:
  assumes "length sizes = 48" "1 \<le> len"
  shows "(opus_packet_has_lbrr data sizes len = None \<longleftrightarrow>
      opus_packet_get_mode data \<noteq> MODE_CELT_ONLY \<and>
      (\<exists>r. opus_packet_parse data len (Some sizes) = Inr r \<and> int (op_payload_offset r) = len)) \<and>
    opus_packet_has_lbrr data sizes 0 = None \<and> opus_packet_has_lbrr [0] sizes 1 = None"
proof (intro conjI)
  show "opus_packet_has_lbrr data sizes len = None \<longleftrightarrow>
      opus_packet_get_mode data \<noteq> MODE_CELT_ONLY \<and>
      (\<exists>r. opus_packet_parse data len (Some sizes) = Inr r \<and> int (op_payload_offset r) = len)"
    by (rule has_lbrr_inside [OF assms])
  show "opus_packet_has_lbrr data sizes 0 = None" by (simp add: opus_packet_has_lbrr_def)
  show "opus_packet_has_lbrr [0] sizes 1 = None"
    by (simp add: opus_packet_has_lbrr_def opus_packet_get_mode_def opus_packet_parse_def opus_packet_parse_impl_def
      opus_packet_code_def opus_packet_tail_def Let_def)
qed

theorem opus_lbrr_overread_witness: "opus_packet_has_lbrr [0] (replicate 48 0) 1 = None"
  using opus_lbrr_overread [of "replicate 48 0" 1] by simp

text \<open>
  C20. Parsing what the extension generator wrote, with or without leading padding, gives back the extensions, ordered by
  frame and in their original order within a frame; the generator fails on well-formed extensions only when they do not fit.
\<close>

theorem opus_extensions_roundtrip:
  assumes "\<forall>e\<in>set exts. valid_ext e" "length exts \<le> nb"
  shows "case opus_packet_extensions_generate len exts pad of
      Inr out \<Rightarrow> opus_packet_extensions_parse out (length out) nb = (None, sort_key ext_frame exts, length exts)
    | Inl err \<Rightarrow> err = OPUS_BUFFER_TOO_SMALL \<and> len < int (length (ext_bytes (length exts) 0 0 (sort_key ext_frame exts)))"
proof (cases "opus_packet_extensions_generate len exts pad")
  case (Inl err)
  then show ?thesis unfolding extensions_generate_bytes [OF assms(1)] by (auto simp: Let_def split: if_splits)
next
  case (Inr out)
  then show ?thesis using extensions_roundtrip [OF assms(1) Inr assms(2)] by simp
qed

theorem opus_extensions_roundtrip_witness:
  "opus_packet_extensions_parse [0x43, 1, 8, 0x03, 2, 0x07, 9] 7 2 =
    (None, [\<lparr>ext_id = 33, ext_frame = 0, ext_data = [8], ext_len = 1\<rparr>, \<lparr>ext_id = 3, ext_frame = 2, ext_data = [9], ext_len = 1\<rparr>], 2)"
proof -
  let ?e = "[\<lparr>ext_id = 3, ext_frame = 2, ext_data = [9 :: u8], ext_len = 1\<rparr>, \<lparr>ext_id = 33, ext_frame = 0, ext_data = [8], ext_len = 1\<rparr>]"
  have g: "opus_packet_extensions_generate 20 ?e False = Inr [0x43, 1, 8, 0x03, 2, 0x07, 9]" by code_simp
  have v: "\<forall>e\<in>set ?e. valid_ext e" by (simp add: valid_ext_def)
  have l: "length ?e = 2" "length [0x43 :: u8, 1, 8, 0x03, 2, 0x07, 9] = 7" by simp_all
  have s: "sort_key ext_frame ?e = [\<lparr>ext_id = 33, ext_frame = 0, ext_data = [8], ext_len = 1\<rparr>, \<lparr>ext_id = 3, ext_frame = 2, ext_data = [9], ext_len = 1\<rparr>]"
    by simp
  show ?thesis using opus_extensions_roundtrip [OF v, of 2 20 False] unfolding g sum.case s l by simp
qed

text \<open>
  C23. Parsing padding of at most 8421504 arbitrary bytes with an array as long as the count found by
  \<open>opus_packet_extensions_count\<close> never runs out of space: it either returns as many well-formed extensions as were counted or reports
  an invalid packet. It reads only the bytes of the padding. The bound is that of the sums of length bytes: wherever in the padding the code may start to sum them, and
  however much of the padding is left, the sum stays in the 32-bit signed variable of the code.
\<close>

theorem opus_extensions_parse_total:
  assumes "opus_packet_extensions_count data (length data) = Inr n" "n \<le> nb" "length data \<le> 8421504"
  shows "(\<exists>err es. opus_packet_extensions_parse data (length data) nb = (err, es, length es) \<and> (\<forall>e\<in>set es. valid_ext e) \<and>
      (err = None \<and> length es = n \<or> err = Some OPUS_INVALID_PACKET)) \<and>
    opus_packet_extensions_parse (data @ rest) (length data) nb = opus_packet_extensions_parse data (length data) nb \<and>
    (\<forall>i l. i + l \<le> length data \<longrightarrow>
      skip_length_loop_int32 (drop i (data @ rest)) l 0 1 = Some (skip_length_loop (drop i (data @ rest)) l 0 1))"
proof -
  obtain err es k where p: "opus_packet_extensions_parse data (length data) nb = (err, es, k)" by (metis prod_cases3)
  have "skip_length_loop_int32 d l 0 1 = Some (skip_length_loop d l 0 1)" if "l \<le> 8421504" for d l
    using skip_length_loop_int32_eq [of 0 l d 1] that by simp
  then show ?thesis using extensions_count_parse [OF assms(1) order_refl assms(2) p] p extensions_parse_inside assms(3) by simp
qed

theorem opus_extensions_parse_total_witness:
  "opus_packet_extensions_parse ([0x07, 9] @ [5]) 2 1 = opus_packet_extensions_parse [0x07, 9] 2 1"
proof -
  have l: "length [0x07 :: u8, 9] = 2" by simp
  have "opus_packet_extensions_count [0x07, 9] (length [0x07 :: u8, 9]) = Inr 1" by code_simp
  from opus_extensions_parse_total [OF this order_refl, of "[5]"] show ?thesis unfolding l by simp
qed

text \<open>
  C21. The repacketizer is a list of frames: adding a packet succeeds only when the packet parses and
  appends exactly the packet's frames, keeping the invariant (at most 48 frames, at most 120 ms, one configuration, every stored
  length and padding inside its packet).
\<close>

theorem opus_repacketizer_cat_refines:
  assumes "opus_repacketizer_cat_impl rp data len sd = (None, rp')" "rp_ok rp" "len \<le> int (length data)"
  shows "rp_ok rp' \<and> (\<exists>r. opus_packet_parse_impl data len sd (Some (drop (rp_nb_frames rp) (rp_len rp))) = Inr r \<and>
      rp_view rp' = rp_view rp @ opus_frames data r \<and> rp_toc rp' AND 0xFC = data ! 0 AND 0xFC)"
  using cat_success [OF assms] by metis

theorem opus_repacketizer_cat_refines_witness:
  "rp_ok (snd (opus_repacketizer_cat_impl \<lparr>rp_toc = 0, rp_nb_frames = 0, rp_frames = replicate 48 [], rp_len = replicate 48 0, rp_framesize = 0,
     rp_paddings = replicate 48 [], rp_padding_len = replicate 48 0\<rparr> [1, 5, 6] 3 False))"
proof -
  let ?rp = "\<lparr>rp_toc = 0, rp_nb_frames = 0, rp_frames = replicate 48 [], rp_len = replicate 48 0, rp_framesize = 0,
     rp_paddings = replicate 48 [], rp_padding_len = replicate 48 0\<rparr>"
  have "fst (opus_repacketizer_cat_impl ?rp [1, 5, 6] 3 False) = None" by code_simp
  then have "opus_repacketizer_cat_impl ?rp [1, 5, 6] 3 False = (None, snd (opus_repacketizer_cat_impl ?rp [1, 5, 6] 3 False))"
    by (metis prod.collapse)
  moreover have "rp_ok ?rp" by (simp add: rp_ok_def)
  ultimately show ?thesis using opus_repacketizer_cat_refines by simp
qed

text \<open>
  C19. Writing frames \<open>b\<close> to \<open>e\<close> of a repacketizer, with any combination of padding, extensions and
  self-delimited framing, gives a packet that the parser accepts with exactly those frames and the same configuration; the
  returned size is at most \<open>maxlen\<close>, equals it when padding was asked for, and nothing beyond \<open>maxlen\<close> bytes of the buffer changes.
\<close>

theorem opus_repacketizer_out_parses:
  assumes "opus_repacketizer_out_range_impl rp (int b) (int e) data maxlen sd pad extensions = Inr (tot, buf)" "rp_ok rp"
    "maxlen \<le> int (length data)" "length sizes = 48"
  shows "(\<exists>r. opus_packet_parse_impl (take (nat tot) buf) tot sd (Some sizes) = Inr r \<and>
      opus_frames (take (nat tot) buf) r = take (e - b) (drop b (rp_view rp)) \<and> op_toc r AND 0xFC = rp_toc rp AND 0xFC) \<and>
    0 < tot \<and> tot \<le> maxlen \<and> (pad \<longrightarrow> tot = maxlen) \<and> length buf = length data \<and> drop (nat maxlen) buf = drop (nat maxlen) data"
proof -
  have w: "written_ok (rp_toc rp) (take (e - b) (drop b (rp_view rp))) sd maxlen data tot buf" and p: "pad \<longrightarrow> tot = maxlen"
    using out_range_impl_ok [OF assms(1-3)] by simp_all
  have "length (rp_view rp) \<le> length sizes" using assms(2,4) by (simp add: rp_view_def rp_ok_def)
  then have "length (take (e - b) (drop b (rp_view rp))) \<le> length sizes" by simp
  then show ?thesis using w p by (simp add: written_ok_def)
qed

theorem opus_repacketizer_out_parses_witness:
  "\<exists>r. opus_packet_parse_impl [0, 7, 8] 3 False (Some (replicate 48 0)) = Inr r \<and> opus_frames [0, 7, 8] r = [[7, 8]]"
proof -
  let ?rp = "\<lparr>rp_toc = 0, rp_nb_frames = 1, rp_frames = replicate 48 [7, 8 :: u8], rp_len = replicate 48 2, rp_framesize = 80,
     rp_paddings = replicate 48 [], rp_padding_len = replicate 48 0\<rparr>"
  have r: "opus_repacketizer_out_range_impl ?rp (int 0) (int 1) [1, 2, 3, 9] 4 False False [] = Inr (3, [0, 7, 8, 9])" by code_simp
  have ok: "rp_ok ?rp" by (simp add: rp_ok_def opus_packet_get_samples_per_frame_def)
  have v: "take (1 - 0) (drop 0 (rp_view ?rp)) = [[7, 8]]" by (simp add: rp_view_def)
  show ?thesis using opus_repacketizer_out_parses [OF r ok, of "replicate 48 0"] unfolding v by auto
qed

text \<open>
  The documented buffer size is enough: writing frames that carry no padding succeeds with 1276 bytes for one
  frame and 1277 bytes per frame for several.
\<close>

theorem opus_out_range_buffer_size:
  assumes "rp_ok rp" "b < e" "e \<le> rp_nb_frames rp" "\<forall>i\<in>{b..<e}. rp_padding_len rp ! i = 0"
    "maxlen \<ge> (if e - b = 1 then 1276 else 1277 * int (e - b))"
  shows "\<exists>tot buf. opus_repacketizer_out_range rp (int b) (int e) data maxlen = Inr (tot, buf)"
  by (rule out_range_succeeds [OF assms])

theorem opus_out_range_buffer_size_witness:
  "\<exists>tot buf. opus_repacketizer_out_range \<lparr>rp_toc = 0, rp_nb_frames = 1, rp_frames = replicate 48 [7, 8], rp_len = replicate 48 2, rp_framesize = 80,
     rp_paddings = replicate 48 [], rp_padding_len = replicate 48 0\<rparr> (int 0) (int 1) [] 1276 = Inr (tot, buf)"
  by (rule opus_out_range_buffer_size) (simp_all add: rp_ok_def opus_packet_get_samples_per_frame_def)

text \<open>
  Padding a packet to a larger size in its own buffer keeps its frames and configuration: the packet and its padded form
  both parse, to the same frames, and the buffer beyond the new size is untouched.
\<close>

theorem opus_packet_pad_preserves:
  assumes "length (rp_frames rp) = 48" "length (rp_len rp) = 48" "length (rp_paddings rp) = 48" "length (rp_padding_len rp) = 48"
    "opus_packet_pad rp data len new_len = Inr buf" "len < new_len" "new_len \<le> int (length data)"
  shows "length buf = length data \<and> drop (nat new_len) buf = drop (nat new_len) data \<and>
    (\<exists>r r'. opus_packet_parse (take (nat len) data) len (Some (rp_len rp)) = Inr r \<and>
      opus_packet_parse (take (nat new_len) buf) new_len (Some (rp_len rp)) = Inr r' \<and>
      opus_frames (take (nat new_len) buf) r' = opus_frames (take (nat len) data) r \<and> op_toc r' AND 0xFC = op_toc r AND 0xFC)"
  by (rule packet_pad_ok [OF assms])

theorem opus_packet_pad_preserves_witness:
  "\<exists>r r'. opus_packet_parse [0, 7] 2 (Some (replicate 48 0)) = Inr r \<and>
      opus_packet_parse [3, 0x41, 2, 7, 0, 0] 6 (Some (replicate 48 0)) = Inr r' \<and> opus_frames [3, 0x41, 2, 7, 0, 0] r' = opus_frames [0, 7] r"
proof -
  let ?rp = "\<lparr>rp_toc = 0, rp_nb_frames = 0, rp_frames = replicate 48 [], rp_len = replicate 48 0, rp_framesize = 0,
     rp_paddings = replicate 48 [], rp_padding_len = replicate 48 0\<rparr>"
  have "opus_packet_pad ?rp [0, 7, 1, 2, 3, 4, 9] 2 6 = Inr [3, 0x41, 2, 7, 0, 0, 9]" by code_simp
  from opus_packet_pad_preserves [OF _ _ _ _ this] show ?thesis by auto
qed

section \<open>The range coder of Opus and what it codes\<close>

text \<open>
  C8. What the range encoder writes, the range decoder reads back. A list of values is encoded in order: symbols of any frequency
  distribution, single bits, symbols of a table, uniform integers, raw bits at the other end of the buffer, Laplace-distributed integers in both
  versions and pulse vectors. If the finished stream, shrunk to \<open>m\<close> bytes, has no error, then decoding its \<open>m\<close> bytes
  with the same requests returns exactly these values, without an error, and the decoder has used as many bits as the encoder.
\<close>

theorem celt_stream_roundtrip:
  assumes "length buf = n" "\<forall>(r, v) \<in> set rvs. celt_valid r v"
    and "encode_all celt_encode (ec_enc_init buf n) rvs = Some e" "ec_offs e + ec_end_offs e \<le> m" "m \<le> ec_storage e"
    and "ec_error (ec_enc_done (ec_enc_shrink e m)) = 0" "ec_nbits_total e < 2 ^ 31"
  shows "length (ec_buf (ec_enc_done (ec_enc_shrink e m))) = m \<and>
    (\<exists>d d'. ec_dec_init (ec_buf (ec_enc_done (ec_enc_shrink e m))) m = Some d \<and>
      decode_all celt_decode d (map fst rvs) = Some (d', map snd rvs) \<and> ec_tell d' = ec_tell e \<and> ec_error d' = 0)"
  using assms by (rule celt.stream_roundtrip)

definition coder_demo :: "(celt_request \<times> celt_value) list" where
  "coder_demo = [(Get (Ask_bit 1), Value (Bit True)), (Get (Ask_uint 300), Value (Number 217)), (Get_laplace 9216 8128, Delta (- 2)),
     (Get_pulses 3 2, Vector [1, 0, - 1] 2), (Get (Ask_bits 3), Value (Number 5)), (Get_laplace_p0 20000 8000, Delta 9)]"

lemma coder_demo_encodes:
  "\<exists>e. encode_all celt_encode (ec_enc_init (replicate 12 0) 12) coder_demo = Some e \<and> ec_offs e + ec_end_offs e \<le> 9 \<and> 9 \<le> ec_storage e \<and>
    ec_error (ec_enc_done (ec_enc_shrink e 9)) = 0 \<and> ec_nbits_total e < 2 ^ 31"
proof -
  have "map_option (\<lambda>e. (ec_offs e + ec_end_offs e \<le> 9, 9 \<le> ec_storage e, ec_error (ec_enc_done (ec_enc_shrink e 9)), ec_nbits_total e < 2 ^ 31))
      (encode_all celt_encode (ec_enc_init (replicate 12 0) 12) coder_demo) = Some (True, True, 0, True)" by code_simp
  then show ?thesis by auto
qed

theorem celt_stream_roundtrip_witness:
  "\<exists>e d d'. encode_all celt_encode (ec_enc_init (replicate 12 0) 12) coder_demo = Some e \<and>
    ec_dec_init (ec_buf (ec_enc_done (ec_enc_shrink e 9))) 9 = Some d \<and> decode_all celt_decode d (map fst coder_demo) = Some (d', map snd coder_demo)"
proof -
  obtain e where e: "encode_all celt_encode (ec_enc_init (replicate 12 0) 12) coder_demo = Some e" "ec_offs e + ec_end_offs e \<le> 9" "9 \<le> ec_storage e"
    "ec_error (ec_enc_done (ec_enc_shrink e 9)) = 0" "ec_nbits_total e < 2 ^ 31" using coder_demo_encodes by blast
  have "\<forall>(r, v) \<in> set coder_demo. celt_valid r v" by code_simp
  from celt_stream_roundtrip [OF _ this e] show ?thesis using e(1) by auto
qed

text \<open>
  C25. Encoding always returns: for every list of values in the range of their requests, into a buffer of any size,
  each renormalization ends, however many bytes no longer fit, and running out of space is recorded in the error flag only.
\<close>

theorem celt_encode_returns:
  assumes "length buf = n" "\<forall>(r, v) \<in> set rvs. celt_valid r v"
  shows "\<exists>e. encode_all celt_encode (ec_enc_init buf n) rvs = Some e \<and> 2 ^ 23 < ec_rng e \<and> ec_rng e \<le> 2 ^ 31"
  using celt.encode_all_total [OF _ assms(2)] enc_init_inv [OF assms(1)] unfolding coder_ready_def by blast

theorem celt_encode_returns_witness: "\<exists>e. encode_all celt_encode (ec_enc_init [] 0) coder_demo = Some e"
proof -
  have "\<forall>(r, v) \<in> set coder_demo. celt_valid r v" by code_simp
  from celt_encode_returns [OF _ this, of "[]" 0] show ?thesis by auto
qed

text \<open>
  C9. The range decoder is safe on every buffer, corrupt or empty: initialization and every request return, whatever the bytes are,
  and every answer is one the request allows: a symbol of the client's distribution or table, raw bits of the width asked for, an integer below the total.
\<close>

theorem ec_decode_any_buffer:
  assumes "\<forall>r \<in> set rs. valid_request r"
  shows "\<exists>d d' vs. ec_dec_init B (length B) = Some d \<and> decode_all decode_value d rs = Some (d', vs) \<and> list_all2 valid_value rs vs"
proof -
  obtain d where d: "ec_dec_init B (length B) = Some d" "dec_state B d" using init_state by blast
  then show ?thesis using requests_answered [OF d(2) assms] by blast
qed

theorem ec_decode_any_buffer_witness:
  "\<exists>d d' vs. ec_dec_init [255, 255] 2 = Some d \<and>
    decode_all decode_value d [Ask_uint 1000, Ask_bits 20, Ask_icdf [2, 1, 0] 2] = Some (d', vs) \<and>
    list_all2 valid_value [Ask_uint 1000, Ask_bits 20, Ask_icdf [2, 1, 0] 2] vs"
proof -
  have "\<forall>r \<in> set [Ask_uint 1000, Ask_bits 20, Ask_icdf [2, 1, 0] 2]. valid_request r" by code_simp
  from ec_decode_any_buffer [OF this, of "[255, 255]"] show ?thesis by (simp add: numeral_2_eq_2)
qed

text \<open>
  C24. The numbering of pulse vectors is a bijection: a vector of \<open>n\<close> integers whose absolute values sum to \<open>k\<close> has an index below
  \<open>V(n, k)\<close>, from which the decoder's search gives the vector back with the sum of its squares; and every index below \<open>V(n, k)\<close>,
  so whatever a corrupt stream holds, is that of such a vector. The sizes are those whose entries the table has and whose count fits in 32 bits.
\<close>

theorem pulse_index_bijection:
  assumes "pvq_fits n k"
  shows "(\<forall>y. length y = n \<and> pulses y = k \<longrightarrow> 0 \<le> icwrs y \<and> icwrs y < CELT_PVQ_V n k \<and> cwrsi n k (icwrs y) 0 = Some (y, squares y)) \<and>
    (\<forall>i. 0 \<le> i \<and> i < CELT_PVQ_V n k \<longrightarrow> (\<exists>y. length y = n \<and> pulses y = k \<and> icwrs y = i))"
proof (intro conjI allI impI)
  fix y assume y: "length y = n \<and> pulses y = k"
  show "0 \<le> icwrs y" "icwrs y < CELT_PVQ_V n k" using icwrs_eq [OF assms] y by blast+
  show "cwrsi n k (icwrs y) 0 = Some (y, squares y)" by (rule cwrsi_icwrs) (use assms y in \<open>simp add: pulse_vector_def\<close>)
next
  fix i assume "0 \<le> i \<and> i < CELT_PVQ_V n k"
  then show "\<exists>y. length y = n \<and> pulses y = k \<and> icwrs y = i" using pulses_onto [OF assms] unfolding pulse_vector_def by blast
qed

theorem pulse_index_bijection_witness: "cwrsi 4 3 (icwrs [0, - 2, 0, 1]) 0 = Some ([0, - 2, 0, 1], 5)"
proof -
  have f: "pvq_fits 4 3" "pulses [0, - 2, 0, 1] = 3" "squares [0, - 2, 0, 1] = 5" by code_simp+
  show ?thesis using conjunct1 [OF pulse_index_bijection [OF f(1)]] f(2,3) by simp
qed



text \<open>
  Each of the 168 probability models of the coarse energy leaves room for at least 16 values in both directions, as the
  code promises: their intervals lie below the total, and \<open>ec_laplace_encode\<close> codes such a value unchanged, on every encoder state between symbols.
\<close>

theorem laplace_models_suffice:
  assumes "lm < 4" "intra < 2" "energy_model lm intra i = (fs, decay)" "\<bar>v\<bar> \<le> 16" "2 ^ 23 < ec_rng e" "ec_rng e \<le> 2 ^ 31"
  shows "laplace_fits fs decay \<and> (\<exists>e'. ec_laplace_encode e v fs decay = Some (e', v))"
proof -
  note h = laplace_holds_clamp [OF energy_model_holds [OF assms(1,2), of i, unfolded assms(3)] assms(4)]
  have "coder_ready e" using assms(5,6) by (simp add: coder_ready_def)
  then show ?thesis using laplace_total [OF _ h(1), of e v] h by auto
qed

theorem laplace_models_suffice_witness: "\<exists>e'. ec_laplace_encode (ec_enc_init [] 0) (- 16) 3072 11456 = Some (e', - 16)"
proof -
  have m: "energy_model 0 1 0 = (3072, 11456)" by code_simp
  have r: "2 ^ 23 < ec_rng (ec_enc_init [] 0)" "ec_rng (ec_enc_init [] 0) \<le> 2 ^ 31" by (simp_all add: ec_enc_init_def)
  show ?thesis using laplace_models_suffice [OF _ _ m _ r, of "- 16"] by simp
qed

text \<open>
  C27. The bit counts of the coder agree with their references, on all values. The portable \<open>ec_ilog\<close>, a search over five masks, gives
  the number of times the value can be halved until it is 0, which is what the build takes from a count-leading-zeros instruction; and the compiled
  \<open>ec_tell_frac\<close>, which looks the eighths of a bit up among eight thresholds, gives the same as the other version in the file, which squares the range
  three times.
\<close>

theorem entropy_bit_counts:
  assumes "0 \<le> v" "v < 2 ^ 32"
  shows "ec_ilog v = EC_ILOG v \<and> (0 < v \<longrightarrow> 2 ^ nat (ec_ilog v - 1) \<le> v \<and> v < 2 ^ nat (ec_ilog v)) \<and>
    (2 ^ 15 \<le> v \<longrightarrow> (\<forall>e. ec_rng e = v \<longrightarrow> ec_tell_frac e = ec_tell_frac_squaring e))"
  using ec_ilog_eq [OF assms] EC_ILOG_bounds [of v] ec_tell_frac_eq assms by simp

theorem entropy_bit_counts_witness: "ec_ilog 1000000 = EC_ILOG 1000000 \<and> ec_ilog 1000000 = 20 \<and>
    ec_tell_frac ((ec_enc_init [] 0)\<lparr>ec_rng := 1000000\<rparr>) = ec_tell_frac_squaring ((ec_enc_init [] 0)\<lparr>ec_rng := 1000000\<rparr>)"
proof -
  have "ec_ilog 1000000 = 20" by code_simp
  then show ?thesis using entropy_bit_counts [of 1000000] by simp
qed

section \<open>SILK\<close>

text \<open>A mono frame of 10 ms at 8 kHz, and a channel that sends it again.\<close>

definition silk_demo_state :: silk_coder_state where
  "silk_demo_state = silk_set_tables 8 \<lparr>nb_subfr = 2, fs_kHz = 8, psNLSF_CB = silk_NLSF_CB_WB, pitch_lag_low_bits_iCDF = [], pitch_contour_iCDF = [],
     ec_prevSignalType = 2, ec_prevLagIndex = 50\<rparr>"

definition silk_demo_indices :: SideInfoIndices where
  "silk_demo_indices = \<lparr>GainsIndices = [35, 7, 0, 0], LTPIndex = [5, 2, 0, 0], NLSFIndices = [17, 0, 1, - 2, 5, 0, 0, - 7, 1, 0, 3], lagIndex = 60,
     contourIndex = 2, signalType = 2, quantOffsetType = 1, NLSFInterpCoef_Q2 = 4, PERIndex = 0, LTP_scaleIndex = 1, Seed = 3\<rparr>"

definition silk_demo_pulses :: "int list" where
  "silk_demo_pulses = replicate 10 0 @ [1, 0, - 2, 100, 0, 0] @ replicate 64 0"

definition silk_demo_channel :: silk_encoder_channel where
  "silk_demo_channel = \<lparr>enc_coder = silk_demo_state, enc_frame_length = 80, enc_LBRR_flag = False, enc_LBRR_flags = [True],
     indices_LBRR = [silk_demo_indices], pulses_LBRR = [silk_demo_pulses]\<rparr>"

definition silk_demo_receiver :: silk_channel_state where
  "silk_demo_receiver = \<lparr>dec_coder = silk_demo_state, dec_frame_length = 80, dec_indices = silk_demo_indices, VAD_flags = [False, False, False],
     LBRR_flag = True, LBRR_flags = [False, False, False]\<rparr>"

definition silk_demo_stereo :: silk_stereo_enc where
  "silk_demo_stereo = \<lparr>predIx = [], mid_only_flags = []\<rparr>"

text \<open>
  C10. The redundant frames of a SILK packet are read over in step. The encoder writes, for one or two channels and one to three frames, the
  flags that say which frames are sent again, the stereo predictors with the flag for a missing side channel, the side information and the excitation. A decoder whose
  channels had the same coding state reads exactly these bits from the finished buffer, without error: it ends with the flags the encoder had and, in
  every channel, with the coding state the encoder ends with, on which the conditional coding of the following frames depends.
\<close>

theorem silk_redundancy_in_step:
  assumes "valid_LBRR n st chs" "list_all2 before_LBRR chs dchs" "length buf = sz"
    and "silk_encode_LBRR n st chs (ec_enc_init buf sz) = Some (e, chs')" "ec_offs e + ec_end_offs e \<le> m" "m \<le> ec_storage e"
    and "ec_error (ec_enc_done (ec_enc_shrink e m)) = 0" "ec_nbits_total e < 2 ^ 31"
  shows "length (ec_buf (ec_enc_done (ec_enc_shrink e m))) = m \<and>
    (\<exists>d d' dchs'. ec_dec_init (ec_buf (ec_enc_done (ec_enc_shrink e m))) m = Some d \<and> silk_decode_LBRR n dchs d = Some (d', dchs') \<and>
      map dec_coder dchs' = map enc_coder chs' \<and> map LBRR_flags dchs' = map (\<lambda>ch. stored_flags (enc_LBRR_flags ch)) chs \<and>
      ec_tell d' = ec_tell e \<and> ec_error d' = 0)"
proof -
  obtain chs1 dchs1 where c: "codes_to (silk_encode_LBRR n st chs) chs1 (silk_decode_LBRR n dchs) dchs1"
    "map dec_coder dchs1 = map enc_coder chs1" "map LBRR_flags dchs1 = map (\<lambda>ch. stored_flags (enc_LBRR_flags ch)) chs"
    using LBRR_in_step [OF assms(1,2)] by blast
  have "chs' = chs1" using c(1) assms(4) unfolding codes_to_def by blast
  moreover have "codes (\<lambda>e. map_option fst (silk_encode_LBRR n st chs e)) (silk_decode_LBRR n dchs) dchs1" using c(1) by (simp add: codes_to_def)
  from codes_buffer [OF this assms(3) _ assms(5-8)] assms(4) have "length (ec_buf (ec_enc_done (ec_enc_shrink e m))) = m \<and>
    (\<exists>d d'. ec_dec_init (ec_buf (ec_enc_done (ec_enc_shrink e m))) m = Some d \<and> silk_decode_LBRR n dchs d = Some (d', dchs1) \<and> ec_tell d' = ec_tell e \<and> ec_error d' = 0)"
    by simp
  ultimately show ?thesis using c(2,3) by blast
qed

theorem silk_redundancy_in_step_witness:
  "\<exists>e chs' d d' dchs'. silk_encode_LBRR 1 silk_demo_stereo [silk_demo_channel] (ec_enc_init (replicate 40 0) 40) = Some (e, chs') \<and>
    ec_dec_init (ec_buf (ec_enc_done (ec_enc_shrink e 30))) 30 = Some d \<and> silk_decode_LBRR 1 [silk_demo_receiver] d = Some (d', dchs') \<and>
    map dec_coder dchs' = map enc_coder chs'"
proof -
  have v: "valid_LBRR 1 silk_demo_stereo [silk_demo_channel]" by code_simp
  have b: "list_all2 before_LBRR [silk_demo_channel] [silk_demo_receiver]"
    by (simp add: before_LBRR_def silk_demo_channel_def silk_demo_receiver_def)
  have "map_option (\<lambda>(e, chs'). (ec_offs e + ec_end_offs e \<le> 30, 30 \<le> ec_storage e, ec_error (ec_enc_done (ec_enc_shrink e 30)), ec_nbits_total e < 2 ^ 31))
      (silk_encode_LBRR 1 silk_demo_stereo [silk_demo_channel] (ec_enc_init (replicate 40 0) 40)) = Some (True, True, 0, True)" by code_simp
  then obtain e chs' where e: "silk_encode_LBRR 1 silk_demo_stereo [silk_demo_channel] (ec_enc_init (replicate 40 0) 40) = Some (e, chs')"
    "ec_offs e + ec_end_offs e \<le> 30" "30 \<le> ec_storage e" "ec_error (ec_enc_done (ec_enc_shrink e 30)) = 0" "ec_nbits_total e < 2 ^ 31" by auto
  from silk_redundancy_in_step [OF v b _ e] e(1) show ?thesis by fastforce
qed

text \<open>
  C11. The excitation of a SILK frame is coded without loss. Blocks of 16 pulses are counted, scaled down until the counts fit their tables, split
  down to single pulses and completed by low bits and signs; from the finished buffer the decoder rebuilds every pulse of magnitude below 128, for all
  signal types and frame lengths, a final block filled with zeros included, and has read as many bits as were written.
\<close>

theorem silk_pulses_roundtrip:
  assumes "silk_frame_length fl" "st < 3" "qo < 2" "16 * silk_iter fl \<le> length (silk_pad_pulses xs fl)"
    and "list_all (\<lambda>q. \<bar>q\<bar> < 128) (take (16 * silk_iter fl) (silk_pad_pulses xs fl))" "length buf = sz"
    and "silk_encode_pulses st qo xs fl (ec_enc_init buf sz) = Some (e, xs')" "ec_offs e + ec_end_offs e \<le> m" "m \<le> ec_storage e"
    and "ec_error (ec_enc_done (ec_enc_shrink e m)) = 0" "ec_nbits_total e < 2 ^ 31"
  shows "length (ec_buf (ec_enc_done (ec_enc_shrink e m))) = m \<and>
    (\<exists>d d'. ec_dec_init (ec_buf (ec_enc_done (ec_enc_shrink e m))) m = Some d \<and>
      silk_decode_pulses st qo fl d = Some (d', take (16 * silk_iter fl) (silk_pad_pulses xs fl)) \<and> ec_tell d' = ec_tell e \<and> ec_error d' = 0)"
  using codes_buffer [OF codes_pulses [OF assms(1-5)] assms(6) _ assms(8-11)] assms(7) by simp

theorem silk_pulses_roundtrip_witness:
  "\<exists>e xs' d d'. silk_encode_pulses 1 0 silk_demo_pulses 80 (ec_enc_init (replicate 20 0) 20) = Some (e, xs') \<and>
    ec_dec_init (ec_buf (ec_enc_done (ec_enc_shrink e 16))) 16 = Some d \<and> silk_decode_pulses 1 0 80 d = Some (d', silk_demo_pulses)"
proof -
  have f: "silk_frame_length 80" "16 * silk_iter 80 \<le> length (silk_pad_pulses silk_demo_pulses 80)"
    "list_all (\<lambda>q. \<bar>q\<bar> < 128) (take (16 * silk_iter 80) (silk_pad_pulses silk_demo_pulses 80))"
    "take (16 * silk_iter 80) (silk_pad_pulses silk_demo_pulses 80) = silk_demo_pulses" by code_simp+
  have "map_option (\<lambda>(e, xs'). (ec_offs e + ec_end_offs e \<le> 16, 16 \<le> ec_storage e, ec_error (ec_enc_done (ec_enc_shrink e 16)), ec_nbits_total e < 2 ^ 31))
      (silk_encode_pulses 1 0 silk_demo_pulses 80 (ec_enc_init (replicate 20 0) 20)) = Some (True, True, 0, True)" by code_simp
  then obtain e xs' where e: "silk_encode_pulses 1 0 silk_demo_pulses 80 (ec_enc_init (replicate 20 0) 20) = Some (e, xs')"
    "ec_offs e + ec_end_offs e \<le> 16" "16 \<le> ec_storage e" "ec_error (ec_enc_done (ec_enc_shrink e 16)) = 0" "ec_nbits_total e < 2 ^ 31" by auto
  from silk_pulses_roundtrip [OF f(1) _ _ f(2,3) _ e] e(1) f(4) show ?thesis by fastforce
qed

text \<open>
  C12. The side information of a SILK frame is coded without loss: signal type, gains, line spectral frequencies with their codebook-dependent tables and
  escape codes, interpolation, pitch lag (absolute, or relative to the last frame when the difference is small), contour, filter indices and seed. The decoder ends with
  these indices written over the ones it had, and both sides carry the same coding state to the next frame.
\<close>

theorem silk_indices_roundtrip:
  assumes "silk_state_ok st" "valid_indices st condCoding ix" "lbrr \<or> vad \<longleftrightarrow> lbrr \<or> 1 \<le> signalType ix" "lbrr \<longrightarrow> 1 \<le> signalType ix" "length buf = sz"
    and "silk_encode_indices st ix lbrr condCoding (ec_enc_init buf sz) = Some (e, st')" "ec_offs e + ec_end_offs e \<le> m" "m \<le> ec_storage e"
    and "ec_error (ec_enc_done (ec_enc_shrink e m)) = 0" "ec_nbits_total e < 2 ^ 31"
  shows "length (ec_buf (ec_enc_done (ec_enc_shrink e m))) = m \<and>
    (\<exists>d d'. ec_dec_init (ec_buf (ec_enc_done (ec_enc_shrink e m))) m = Some d \<and>
      silk_decode_indices st vad lbrr condCoding old d = Some (d', received_indices st condCoding ix old, st') \<and> ec_tell d' = ec_tell e \<and> ec_error d' = 0)"
  using codes_buffer [OF codes_indices [OF assms(1-3), of old] assms(5) _ assms(7-10)] assms(4,6) encode_indices_state [OF assms(6)] by simp

theorem silk_indices_roundtrip_witness:
  "\<exists>e d d'. silk_encode_indices silk_demo_state silk_demo_indices False 0 (ec_enc_init (replicate 30 0) 30) = Some (e, silk_next_state silk_demo_state silk_demo_indices) \<and>
    ec_dec_init (ec_buf (ec_enc_done (ec_enc_shrink e 16))) 16 = Some d \<and>
    silk_decode_indices silk_demo_state True False 0 silk_demo_indices d =
      Some (d', received_indices silk_demo_state 0 silk_demo_indices silk_demo_indices, silk_next_state silk_demo_state silk_demo_indices)"
proof -
  have f: "silk_state_ok silk_demo_state" "valid_indices silk_demo_state 0 silk_demo_indices" "False \<or> True \<longleftrightarrow> False \<or> 1 \<le> signalType silk_demo_indices"
    "False \<longrightarrow> 1 \<le> signalType silk_demo_indices" by code_simp+
  have "map_option (\<lambda>(e, st'). (ec_offs e + ec_end_offs e \<le> 16, 16 \<le> ec_storage e, ec_error (ec_enc_done (ec_enc_shrink e 16)), ec_nbits_total e < 2 ^ 31))
      (silk_encode_indices silk_demo_state silk_demo_indices False 0 (ec_enc_init (replicate 30 0) 30)) = Some (True, True, 0, True)" by code_simp
  then obtain e st' where e: "silk_encode_indices silk_demo_state silk_demo_indices False 0 (ec_enc_init (replicate 30 0) 30) = Some (e, st')"
    "ec_offs e + ec_end_offs e \<le> 16" "16 \<le> ec_storage e" "ec_error (ec_enc_done (ec_enc_shrink e 16)) = 0" "ec_nbits_total e < 2 ^ 31" by auto
  from silk_indices_roundtrip [OF f _ e, of silk_demo_indices] e(1) encode_indices_state [OF e(1)] show ?thesis by fastforce
qed

text \<open>
  C13. The start of a SILK packet is read safely from any bytes: the activity flags, the redundancy flags and the redundant frames, whatever they say, are
  read over without failure for one to three frames and any channels, and the tables of every channel's coding state stay those of its sampling rate.
\<close>

theorem silk_header_any_buffer:
  assumes "n \<in> {1, 2, 3}" "list_all channel_ok chs"
  shows "\<exists>d d' chs'. ec_dec_init B (length B) = Some d \<and> silk_decode_header n chs d = Some (d', chs') \<and> list_all channel_ok chs' \<and> length chs' = length chs"
  using answers_buffer [OF answers_header [OF assms]] by blast

theorem silk_header_any_buffer_witness:
  "\<exists>d d' chs'. ec_dec_init [255, 255, 3] 3 = Some d \<and> silk_decode_header 1 [silk_demo_receiver] d = Some (d', chs') \<and> length chs' = 1"
proof -
  have "list_all channel_ok [silk_demo_receiver]" by code_simp
  moreover have l: "length [255, 255, 3 :: 8 word] = 3" by simp
  ultimately show ?thesis using silk_header_any_buffer [of 1 "[silk_demo_receiver]" "[255, 255, 3]", unfolded l] by auto
qed

text \<open>
  C14. A SILK frame is decoded safely from any bytes. The side information and the excitation are read without failure; there is a pulse for every
  sample, their number being that of the samples rounded up to whole blocks of 16 (128 for a frame of 120 samples), and the pulses fit in 16 bits; and the parameters computed from the indices are usable: the gains lie between 81920 and 1686110208, the line spectral frequencies keep the minimum
  distances of their codebook, on which the stability of the synthesis filter rests, the contour is one of the codebook and every pitch lag lies between 2 and 18 ms.
\<close>

theorem silk_frame_any_buffer:
  assumes "silk_state_ok st" "silk_frame_length fl"
  shows "\<exists>d d1 d2 ix st' pulses. ec_dec_init B (length B) = Some d \<and> silk_decode_indices st vad lbrr condCoding old d = Some (d1, ix, st') \<and>
    silk_decode_pulses (nat (signalType ix)) (nat (quantOffsetType ix)) fl d1 = Some (d2, pulses) \<and> silk_state_ok st' \<and>
    length pulses = 16 * silk_iter fl \<and> list_all (\<lambda>q. - (2 ^ 15) \<le> q \<and> q < 2 ^ 15) pulses \<and> good_parameters st condCoding prev ix"
proof -
  obtain d where d: "ec_dec_init B (length B) = Some d" "dec_state B d" using init_state by blast
  obtain d1 ix st' where i: "silk_decode_indices st vad lbrr condCoding old d = Some (d1, ix, st')" "dec_state B d1"
    "valid_indices st condCoding (ix\<lparr>lagIndex := 0\<rparr>)" "silk_state_ok st'" using answersD [OF answers_indices [OF assms(1)] d(2)] by fastforce
  have t: "nat (signalType ix) < 3" "nat (quantOffsetType ix) < 2" using i(3) by (auto simp: valid_indices_def)
  obtain d2 pulses where p: "silk_decode_pulses (nat (signalType ix)) (nat (quantOffsetType ix)) fl d1 = Some (d2, pulses)"
    "length pulses = 16 * silk_iter fl" "list_all (\<lambda>x. \<bar>x\<bar> \<le> 17407) pulses" using answersD [OF answers_pulses [OF assms(2) t] i(2)] by blast
  have "list_all (\<lambda>q. - (2 ^ 15) \<le> q \<and> q < 2 ^ 15) pulses" using p(3) by (auto simp: list_all_iff)
  then show ?thesis using d i p valid_parameters [OF assms(1) i(3)] by blast
qed

theorem silk_frame_any_buffer_witness:
  "\<exists>d d1 ix st'. ec_dec_init [7, 255, 0, 12] 4 = Some d \<and> silk_decode_indices silk_demo_state False True 2 silk_demo_indices d = Some (d1, ix, st') \<and>
    good_parameters silk_demo_state 2 10 ix"
proof -
  have "silk_state_ok silk_demo_state" "silk_frame_length 80" by code_simp+
  moreover have l: "length [7, 255, 0, 12 :: 8 word] = 4" by simp
  ultimately show ?thesis
    using silk_frame_any_buffer [where B = "[7, 255, 0, 12]" and st = silk_demo_state and fl = 80 and vad = False and lbrr = True and condCoding = 2
        and old = silk_demo_indices and prev = 10, unfolded l] by blast
qed

text \<open>
  C15. The stabilizer always does its work: from any 16-bit values, within its 20 corrections or by sorting and spreading, it returns frequencies that keep every minimum
  distance, to the limits too, whenever the distances are not negative, fit together below the limit and end with at least 1; and it leaves frequencies alone that keep them already.
\<close>

theorem silk_NLSF_stabilized:
  assumes "distances L dmin" "int16_list L nlsf"
  shows "spaced (silk_NLSF_stabilize nlsf dmin L) dmin L \<and> (spaced nlsf dmin L \<longrightarrow> silk_NLSF_stabilize nlsf dmin L = nlsf)"
  using stabilize_spaced [OF assms] spaced_fixed [of nlsf dmin L] assms(1) by (simp add: distances_def)

theorem silk_NLSF_stabilized_witness: "spaced (silk_NLSF_stabilize [30000, - 5, 12, 12] [250, 3, 6, 3, 461] 4) [250, 3, 6, 3, 461] 4"
proof -
  have "distances 4 [250, 3, 6, 3, 461]" "int16_list 4 [30000, - 5, 12, 12]" by code_simp+
  from silk_NLSF_stabilized [OF this] show ?thesis by blast
qed

text \<open>
  C16. Quantizing the gains of a frame, absolutely or relative to the last frame, with hysteresis and a doubled step for large increases, gives indices in the range of their
  code tables, from which the decoder computes the same gains and carries the same last index, although the two clamp in different places; the last index stays a level.
\<close>

theorem silk_gains_in_step:
  assumes "0 \<le> prev" "prev < 64" "silk_gains_quant gains prev conditional = (ind, outs, fin)"
  shows "silk_gains_dequant ind prev conditional = (outs, fin) \<and> 0 \<le> fin \<and> fin < 64 \<and> length ind = length gains \<and> valid_gain_indices (\<not> conditional) ind"
  using gains_quant_loop [of prev "\<not> conditional" gains ind outs fin] assms by (simp add: gain_level_ok_def silk_gains_quant_def silk_gains_dequant_def)

theorem silk_gains_in_step_witness:
  "silk_gains_dequant (fst (silk_gains_quant [200000, 90000000, 65536] 10 True)) 10 True = snd (silk_gains_quant [200000, 90000000, 65536] 10 True)"
proof -
  obtain ind outs fin where q: "silk_gains_quant [200000, 90000000, 65536] 10 True = (ind, outs, fin)" by (rule prod_cases3)
  from silk_gains_in_step [OF _ _ q] show ?thesis by (simp add: q)
qed

text \<open>
  C17. The search for the quantized stereo predictors stops at the first level that is no nearer, which is right: its result is that of the full search, none of the 75 levels (5 steps in each of 15 intervals) is nearer
  to the predictor, and the indices it splits the level into are codable and stand for that level.
\<close>

theorem silk_stereo_nearest:
  assumes "\<bar>p\<bar> \<le> 2 ^ 30" "silk_stereo_quant p q0 ix = (q, ix')"
  shows "silk_stereo_search p silk_stereo_pairs silk_int32_MAX best = nearest_pair p silk_stereo_pairs silk_int32_MAX best \<and>
    (\<forall>i j. i < 15 \<and> j < 5 \<longrightarrow> \<bar>p - q\<bar> \<le> \<bar>p - silk_stereo_level i j\<bar>) \<and> stereo_ix_ok ix' \<and> stereo_value ix' = q"
proof -
  obtain i0 j0 n0 where ix: "ix = (i0, j0, n0)" by (rule prod_cases3)
  obtain r i j where s: "silk_stereo_search p silk_stereo_pairs silk_int32_MAX (q0, i0, j0) = (r, i, j)" by (rule prod_cases3)
  have "q = r" using assms(2) by (simp add: silk_stereo_quant_def ix s)
  then show ?thesis using stereo_search_full [OF assms(1)] stereo_search_best(4) [OF assms(1) s] stereo_quant_codable [OF assms] by blast
qed

theorem silk_stereo_nearest_witness: "\<bar>4321 - fst (silk_stereo_quant 4321 0 (0, 0, 0))\<bar> \<le> \<bar>4321 - silk_stereo_level 9 2\<bar>"
proof -
  obtain q ix' where q: "silk_stereo_quant 4321 0 (0, 0, 0) = (q, ix')" by (metis surj_pair)
  from silk_stereo_nearest [OF _ q] show ?thesis by (simp add: q)
qed

end
